(* ===== verification/Prelude.thy ===== *)
theory Prelude
  imports Main "HOL-Library.Word"
begin

text \<open>
  Shared vocabulary of the development: the type names of the Rust sources, the fixed-width
  arithmetic they use (saturating, checked), and the few standard-library containers the
  kernel relies on (\<open>BTreeSet\<close> as a strictly sorted list, slice \<open>get\<close>, \<open>binary_search\<close>,
  \<open>Iterator::position\<close>).

  Rust's \<open>u64\<close>, \<open>u32\<close> and \<open>usize\<close> counters are natural numbers here. Operations that the source
  makes total on purpose (\<open>saturating_add\<close>, \<open>checked_add\<close>, \<open>checked_next\<close>) carry the bound
  explicitly; a plain \<open>+\<close>, whose overflow is a panic and not a value in the source, is plain
  addition. Values that are manipulated bit by bit (slot sets, hashes, checksums) are machine
  words.
\<close>

section \<open>Rule collections\<close>

named_theorems frame_simps \<open>which part of a node an operation leaves alone\<close>
named_theorems container_simps \<open>lookup and shape facts of the container models\<close>
named_theorems quorum_intros \<open>facts that establish a quorum\<close>

section \<open>Fixed-width arithmetic\<close>

type_synonym u64 = nat
type_synonym u32 = nat
type_synonym usize = nat
type_synonym byte = "8 word"

definition u64_max :: u64 where
  "u64_max = 2 ^ 64 - 1"

definition sat_add :: "u64 \<Rightarrow> u64 \<Rightarrow> u64" where
  "sat_add a b = min (a + b) u64_max"

definition sat_mul :: "u64 \<Rightarrow> u64 \<Rightarrow> u64" where
  "sat_mul a b = min (a * b) u64_max"

abbreviation sat_sub :: "u64 \<Rightarrow> u64 \<Rightarrow> u64" where
  "sat_sub a b \<equiv> a - b"

definition checked_add :: "u64 \<Rightarrow> u64 \<Rightarrow> u64 option" where
  "checked_add a b = (if a + b \<le> u64_max then Some (a + b) else None)"

definition checked_sub :: "u64 \<Rightarrow> u64 \<Rightarrow> u64 option" where
  "checked_sub a b = (if b \<le> a then Some (a - b) else None)"

lemma sat_add_le_max [simp]: "sat_add a b \<le> u64_max"
  by (simp add: sat_add_def)

lemma sat_add_le: "sat_add a b \<le> a + b"
  by (simp add: sat_add_def)

lemma sat_add_ge_left: "a \<le> u64_max \<Longrightarrow> a \<le> sat_add a b"
  by (simp add: sat_add_def)

lemma sat_add_mono: "a \<le> a' \<Longrightarrow> sat_add a b \<le> sat_add a' b"
  by (auto simp: sat_add_def)

lemma checked_add_Some_iff: "checked_add a b = Some c \<longleftrightarrow> c = a + b \<and> a + b \<le> u64_max"
  by (auto simp: checked_add_def)

lemma checked_add_None_iff: "checked_add a b = None \<longleftrightarrow> u64_max < a + b"
  by (auto simp: checked_add_def)

section \<open>Slices\<close>

definition get :: "'a list \<Rightarrow> usize \<Rightarrow> 'a option" where
  "get xs i = (if i < length xs then Some (xs ! i) else None)"

lemma get_Some_iff [container_simps]: "get xs i = Some x \<longleftrightarrow> i < length xs \<and> xs ! i = x"
  by (auto simp: get_def)

lemma get_None_iff [container_simps]: "get xs i = None \<longleftrightarrow> length xs \<le> i"
  by (auto simp: get_def)

lemma get_append: "get (xs @ ys) i = (if i < length xs then get xs i else get ys (i - length xs))"
  by (auto simp: get_def nth_append)

lemma get_take: "get (take k xs) i = (if i < k then get xs i else None)"
  by (auto simp: get_def)

lemma get_drop: "get (drop k xs) i = get xs (k + i)"
  by (auto simp: get_def add.commute less_diff_conv)

lemma get_list_update: "get (xs[i := v]) j = (if i = j \<and> i < length xs then Some v else get xs j)"
  by (auto simp: get_def)

lemma get_map: "get (map f xs) i = map_option f (get xs i)"
  by (auto simp: get_def)

lemma get_Nil [simp]: "get [] i = None"
  by (simp add: get_def)

fun position :: "('a \<Rightarrow> bool) \<Rightarrow> 'a list \<Rightarrow> usize option" where
  "position P [] = None"
| "position P (x # xs) = (if P x then Some 0 else map_option Suc (position P xs))"

lemma position_None_iff [container_simps]: "position P xs = None \<longleftrightarrow> (\<forall>x\<in>set xs. \<not> P x)"
  by (induction xs) auto

lemma position_Some_iff [container_simps]:
  "position P xs = Some i \<longleftrightarrow> i < length xs \<and> P (xs ! i) \<and> (\<forall>j<i. \<not> P (xs ! j))"
proof (induction xs arbitrary: i)
  case Nil
  then show ?case by simp
next
  case (Cons x xs)
  show ?case
    by (cases i) (auto simp: Cons.IH All_less_Suc2)
qed

fun find_map :: "('a \<Rightarrow> 'b option) \<Rightarrow> 'a list \<Rightarrow> 'b option" where
  "find_map f [] = None"
| "find_map f (x # xs) = (case f x of Some y \<Rightarrow> Some y | None \<Rightarrow> find_map f xs)"

lemma find_map_None_iff [container_simps]: "find_map f xs = None \<longleftrightarrow> (\<forall>x\<in>set xs. f x = None)"
  by (induction xs) (auto split: option.splits)

lemma find_map_SomeD: "find_map f xs = Some y \<Longrightarrow> \<exists>x\<in>set xs. f x = Some y"
  by (induction xs) (auto split: option.splits)

section \<open>Stores indexed by a key\<close>

text \<open>
  The contract of a table whose slots are fixed when it is built and whose values are updated
  in place (\<open>get\<close> and \<open>get_mut\<close> of a progress table).
\<close>

locale keyed_store =
  fixes wf :: "'s \<Rightarrow> bool"
    and lookup :: "'s \<Rightarrow> 'k \<Rightarrow> 'v option"
    and modify :: "'s \<Rightarrow> 'k \<Rightarrow> ('v \<Rightarrow> 'v) \<Rightarrow> 's"
  assumes wf_modify: "wf s \<Longrightarrow> wf (modify s k f)"
    and lookup_modify: "wf s \<Longrightarrow>
      lookup (modify s k f) k' = (if k' = k then map_option f (lookup s k) else lookup s k')"
begin

lemma lookup_modify_same: "wf s \<Longrightarrow> lookup s k = Some v \<Longrightarrow> lookup (modify s k f) k = Some (f v)"
  by (simp add: lookup_modify)

lemma lookup_modify_other: "wf s \<Longrightarrow> k' \<noteq> k \<Longrightarrow> lookup (modify s k f) k' = lookup s k'"
  by (simp add: lookup_modify)

lemma lookup_modify_defined: "wf s \<Longrightarrow> lookup (modify s k f) k' = None \<longleftrightarrow> lookup s k' = None"
  by (simp add: lookup_modify)

text \<open>A predicate on every value survives an update that establishes it for the new value.\<close>

lemma modify_all:
  assumes "wf s" "\<And>k' v. lookup s k' = Some v \<Longrightarrow> P k' v"
    and "\<And>v. lookup s k = Some v \<Longrightarrow> P k v \<Longrightarrow> P k (f v)"
    and "lookup (modify s k f) k' = Some v"
  shows "P k' v"
  using assms by (auto simp: lookup_modify split: if_splits)

end

section \<open>Ordered sets\<close>

text \<open>
  A \<open>BTreeSet\<close> is the strictly increasing list its iterator yields; collecting an iterator
  into one sorts and drops duplicates.
\<close>

definition btree_set :: "'a::linorder list \<Rightarrow> 'a list" where
  "btree_set xs = sort (remdups xs)"

abbreviation btree_insert :: "'a::linorder \<Rightarrow> 'a list \<Rightarrow> 'a list" where
  "btree_insert x xs \<equiv> insort_insert x xs"

definition ordered :: "'a::linorder list \<Rightarrow> bool" where
  "ordered xs \<longleftrightarrow> sorted xs \<and> distinct xs"

lemma set_btree_set [simp]: "set (btree_set xs) = set xs"
  by (simp add: btree_set_def)

lemma ordered_btree_set [simp]: "ordered (btree_set xs)"
  by (simp add: ordered_def btree_set_def)

lemma ordered_btree_insert [simp]: "ordered xs \<Longrightarrow> ordered (btree_insert x xs)"
  by (simp add: ordered_def sorted_insort_insert distinct_insort_insert)

lemma ordered_Nil [simp]: "ordered []"
  by (simp add: ordered_def)

lemma ordered_unique: "ordered xs \<Longrightarrow> ordered ys \<Longrightarrow> set xs = set ys \<Longrightarrow> xs = ys"
  by (simp add: ordered_def sorted_distinct_set_unique)

lemma ordered_sort: "distinct xs \<Longrightarrow> ordered (sort xs)"
  by (simp add: ordered_def)

lemma sort_Nil_iff: "sort xs = [] \<longleftrightarrow> xs = []"
  by (metis length_0_conv length_sort)

lemma btree_set_ordered: "ordered xs \<Longrightarrow> btree_set xs = xs"
  by (rule ordered_unique) simp_all

section \<open>Binary search\<close>

function bsearch :: "'a::linorder list \<Rightarrow> 'a \<Rightarrow> usize \<Rightarrow> usize \<Rightarrow> usize option" where
  "bsearch xs x lo hi =
     (if lo < hi then
        let mid = (lo + hi) div 2 in
          if xs ! mid = x then Some mid
          else if xs ! mid < x then bsearch xs x (Suc mid) hi
          else bsearch xs x lo mid
      else None)"
  by pat_completeness auto
termination
  by (relation "measure (\<lambda>(xs, x, lo, hi). hi - lo)") auto

declare bsearch.simps [simp del]

definition binary_search :: "'a::linorder list \<Rightarrow> 'a \<Rightarrow> usize option" where
  "binary_search xs x = bsearch xs x 0 (length xs)"

lemma bsearch_Some:
  "bsearch xs x lo hi = Some i \<Longrightarrow> hi \<le> length xs \<Longrightarrow> lo \<le> i \<and> i < hi \<and> xs ! i = x"
proof (induction xs x lo hi rule: bsearch.induct)
  case (1 xs x lo hi)
  let ?mid = "(lo + hi) div 2"
  show ?case
  proof (cases "lo < hi \<and> xs ! ?mid \<noteq> x")
    case True
    then have lh: "lo < hi" "xs ! ?mid \<noteq> x" by auto
    show ?thesis
    proof (cases "xs ! ?mid < x")
      case True
      with lh "1.prems" have "bsearch xs x (Suc ?mid) hi = Some i"
        by (subst (asm) bsearch.simps) (simp add: Let_def)
      with "1.IH"(1) [OF lh(1) refl lh(2) True] "1.prems" show ?thesis by auto
    next
      case False
      with lh "1.prems" have "bsearch xs x lo ?mid = Some i"
        by (subst (asm) bsearch.simps) (simp add: Let_def)
      moreover have "?mid < hi" using lh(1) by linarith
      ultimately show ?thesis using "1.IH"(2) [OF lh(1) refl lh(2) False] "1.prems"(2) by auto
    qed
  next
    case False
    with "1.prems" show ?thesis
      by (subst (asm) bsearch.simps) (auto simp: Let_def split: if_splits)
  qed
qed

lemma bsearch_None:
  "bsearch xs x lo hi = None \<Longrightarrow> sorted xs \<Longrightarrow> hi \<le> length xs \<Longrightarrow>
   \<forall>i. lo \<le> i \<and> i < hi \<longrightarrow> xs ! i \<noteq> x"
proof (induction xs x lo hi rule: bsearch.induct)
  case (1 xs x lo hi)
  let ?mid = "(lo + hi) div 2"
  show ?case
  proof (cases "lo < hi")
    case lt: True
    with "1.prems"(1) have ne: "xs ! ?mid \<noteq> x"
      by (subst (asm) bsearch.simps) (auto simp: Let_def split: if_splits)
    show ?thesis
    proof (cases "xs ! ?mid < x")
      case True
      have low: "xs ! i < x" if "i \<le> ?mid" for i
      proof -
        have "?mid < length xs" using lt "1.prems"(3) by linarith
        with sorted_nth_mono [OF "1.prems"(2) that] True show ?thesis by simp
      qed
      from lt ne True "1.prems"(1) have "bsearch xs x (Suc ?mid) hi = None"
        by (subst (asm) bsearch.simps) (simp add: Let_def)
      with "1.IH"(1) [OF lt refl ne True] "1.prems" show ?thesis
        using low by (metis not_less_eq_eq order_less_irrefl)
    next
      case False
      have high: "x < xs ! i" if "?mid \<le> i" "i < hi" for i
        using sorted_nth_mono [OF "1.prems"(2) that(1)] that "1.prems"(3) False ne by simp
      from lt ne False "1.prems"(1) have "bsearch xs x lo ?mid = None"
        by (subst (asm) bsearch.simps) (simp add: Let_def)
      moreover have "?mid \<le> length xs" using lt "1.prems"(3) by linarith
      ultimately have "\<forall>i. lo \<le> i \<and> i < ?mid \<longrightarrow> xs ! i \<noteq> x"
        using "1.IH"(2) [OF lt refl ne False] "1.prems"(2) by blast
      then show ?thesis
        using high by (metis not_le order_less_irrefl)
    qed
  next
    case False
    then show ?thesis by auto
  qed
qed

lemma binary_search_SomeD: "binary_search xs x = Some i \<Longrightarrow> i < length xs \<and> xs ! i = x"
  using bsearch_Some [of xs x 0 "length xs" i] by (simp add: binary_search_def)

lemma binary_search_None_iff: "sorted xs \<Longrightarrow> binary_search xs x = None \<longleftrightarrow> x \<notin> set xs"
proof
  assume "sorted xs" "binary_search xs x = None"
  then show "x \<notin> set xs"
    using bsearch_None [of xs x 0 "length xs"] by (auto simp: binary_search_def in_set_conv_nth)
next
  assume "sorted xs" "x \<notin> set xs"
  then show "binary_search xs x = None"
    by (cases "binary_search xs x") (auto dest: binary_search_SomeD)
qed

lemma binary_search_Some_iff [container_simps]:
  assumes "ordered xs"
  shows "binary_search xs x = Some i \<longleftrightarrow> i < length xs \<and> xs ! i = x"
proof
  assume "binary_search xs x = Some i"
  then show "i < length xs \<and> xs ! i = x" by (rule binary_search_SomeD)
next
  assume i: "i < length xs \<and> xs ! i = x"
  then have "x \<in> set xs" by auto
  then obtain j where j: "binary_search xs x = Some j"
    using assms binary_search_None_iff [of xs x] by (cases "binary_search xs x") (auto simp: ordered_def)
  then have "j < length xs \<and> xs ! j = x" by (rule binary_search_SomeD)
  with i assms have "j = i" by (auto simp: ordered_def nth_eq_iff_index_eq)
  with j show "binary_search xs x = Some i" by simp
qed

section \<open>Counting\<close>

lemma length_filter_card: "distinct xs \<Longrightarrow> length (filter P xs) = card {x \<in> set xs. P x}"
  by (metis distinct_card distinct_filter set_filter)

lemma length_filter_mono: "(\<And>x. P x \<Longrightarrow> Q x) \<Longrightarrow> length (filter P xs) \<le> length (filter Q xs)"
  by (induction xs) (auto simp: le_SucI)

text \<open>Two majorities of the same finite set share an element.\<close>

lemma majorities_meet:
  assumes "finite V" "A \<subseteq> V" "B \<subseteq> V" "card V div 2 + 1 \<le> card A" "card V div 2 + 1 \<le> card B"
  shows "A \<inter> B \<noteq> {}"
proof
  assume disj: "A \<inter> B = {}"
  from assms(1-3) have "finite A" "finite B" by (auto intro: finite_subset)
  with disj have "card (A \<union> B) = card A + card B" by (simp add: card_Un_disjoint)
  moreover from assms(1-3) have "card (A \<union> B) \<le> card V" by (simp add: card_mono)
  ultimately show False using assms(4,5) by linarith
qed

end
