(* ===== verification/Runs.thy ===== *)
theory Runs
  imports Prelude
begin

text \<open>
  Sequences of steps of a deterministic machine with outputs, and the locale that lifts a contract of
  single steps to sequences. The kernel's batches, the runs of a node and the runs of the replicated
  services are all sequences of this kind.
\<close>

text \<open>A sequence of steps, with the outputs in order.\<close>

primrec run_steps :: "('i \<Rightarrow> 's \<Rightarrow> 's \<times> 'o list) \<Rightarrow> 'i list \<Rightarrow> 's \<Rightarrow> 's \<times> 'o list" where
  "run_steps f [] s = (s, [])"
| "run_steps f (i # is) s = (let (s, outputs1) = f i s; (s, outputs2) = run_steps f is s in (s, outputs1 @ outputs2))"

locale step_contract =
  fixes f :: "'i \<Rightarrow> 's \<Rightarrow> 's \<times> 'o list"
    and admissible :: "'i \<Rightarrow> bool"
    and inv :: "'s \<Rightarrow> bool"
    and rel :: "'s \<Rightarrow> 's \<times> 'o list \<Rightarrow> bool"
  assumes step_rel: "admissible i \<Longrightarrow> inv s \<Longrightarrow> rel s (f i s)"
    and rel_inv: "rel s (s', outs) \<Longrightarrow> inv s'"
    and rel_refl: "inv s \<Longrightarrow> rel s (s, [])"
    and rel_trans: "rel a (b, xs) \<Longrightarrow> rel b (c, ys) \<Longrightarrow> rel a (c, xs @ ys)"
begin

lemma run_rel: "list_all admissible is \<Longrightarrow> inv s \<Longrightarrow> rel s (run_steps f is s)"
proof (induction "is" arbitrary: s)
  case (Cons i "is")
  obtain t xs where t: "f i s = (t, xs)" by fastforce
  obtain u ys where u: "run_steps f is t = (u, ys)" by fastforce
  have "rel s (t, xs)" using step_rel [of i s] Cons.prems t by simp
  moreover have "rel t (u, ys)" using Cons.IH [OF _ rel_inv [OF calculation]] Cons.prems(1) u by simp
  ultimately have "rel s (u, xs @ ys)" by (rule rel_trans)
  then show ?case by (simp add: t u)
qed (simp add: rel_refl)

lemma run_inv: "list_all admissible is \<Longrightarrow> inv s \<Longrightarrow> inv (fst (run_steps f is s))"
  using run_rel rel_inv by (metis prod.collapse)

end

text \<open>
  Two machines that give the same outputs from related states and stay related cannot be told apart by any
  sequence of inputs.
\<close>

locale same_behaviour =
  fixes f :: "'i \<Rightarrow> 's \<Rightarrow> 's \<times> 'o list"
    and g :: "'i \<Rightarrow> 't \<Rightarrow> 't \<times> 'o list"
    and related :: "'s \<Rightarrow> 't \<Rightarrow> bool"
  assumes step_same: "related s t \<Longrightarrow> related (fst (f i s)) (fst (g i t)) \<and> snd (f i s) = snd (g i t)"
begin

lemma run_same:
  "related s t \<Longrightarrow>
   related (fst (run_steps f is s)) (fst (run_steps g is t)) \<and> snd (run_steps f is s) = snd (run_steps g is t)"
proof (induction "is" arbitrary: s t)
  case (Cons i "is")
  from step_same [OF Cons.prems, of i] Cons.IH [of "fst (f i s)" "fst (g i t)"]
  show ?case by (simp add: case_prod_unfold Let_def)
qed simp

end

end
