(* ===== verification/Membership.thy ===== *)
theory Membership
  imports Prelude
begin

text \<open>
  \<open>crates/rafter/src/types/membership.rs\<close> and \<open>membership/validate.rs\<close>: voter and learner sets,
  joint membership, validation at construction, and the reference definition of a quorum that
  the optimised index of theory \<open>Membership_Index\<close> is compared with.
\<close>

section \<open>Identities\<close>

type_synonym NodeId = u64
type_synonym Term = u64
type_synonym LogIndex = u64
type_synonym LocalProposalId = u64
type_synonym ReadId = u64
type_synonym ConfigurationId = u64

definition Term_checked_next :: "Term \<Rightarrow> Term option" where
  "Term_checked_next t = checked_add t 1"

definition Term_next :: "Term \<Rightarrow> Term" where
  "Term_next t = sat_add t 1"

definition Term_is_zero :: "Term \<Rightarrow> bool" where
  "Term_is_zero t \<longleftrightarrow> t = 0"

abbreviation LogIndex_next :: "LogIndex \<Rightarrow> LogIndex" where
  "LogIndex_next i \<equiv> i + 1"

lemma Term_checked_next_Some_iff [simp]:
  "Term_checked_next t = Some t' \<longleftrightarrow> t' = t + 1 \<and> t < u64_max"
  by (auto simp: Term_checked_next_def checked_add_Some_iff)

section \<open>Data\<close>

record MembershipSet =
  voters :: "NodeId list"
  learners :: "NodeId list"

record JointMembership =
  old_membership :: MembershipSet
  new_membership :: MembershipSet

datatype MembershipConfig =
    StableMembership MembershipSet
  | JointMembershipConfig JointMembership

datatype MembershipValidationError =
    EmptyVoters
  | DuplicateVoter NodeId
  | DuplicateLearner NodeId
  | LearnerVoterOverlap NodeId

datatype DuplicateKind = VoterKind | LearnerKind

section \<open>Construction\<close>

fun adjacent_duplicate :: "NodeId option \<Rightarrow> NodeId list \<Rightarrow> NodeId option" where
  "adjacent_duplicate previous [] = None"
| "adjacent_duplicate previous (node # nodes) =
     (if previous = Some node then Some node else adjacent_duplicate (Some node) nodes)"

definition validate_unique ::
    "NodeId list \<Rightarrow> DuplicateKind \<Rightarrow> MembershipValidationError + NodeId list" where
  "validate_unique nodes kind =
     (let nodes = sort nodes in
      case adjacent_duplicate None nodes of
        Some node \<Rightarrow> Inl (case kind of VoterKind \<Rightarrow> DuplicateVoter node
                                    | LearnerKind \<Rightarrow> DuplicateLearner node)
      | None \<Rightarrow> Inr nodes)"

definition MembershipSet_new ::
    "NodeId list \<Rightarrow> NodeId list \<Rightarrow> MembershipValidationError + MembershipSet" where
  "MembershipSet_new vs ls =
     (case validate_unique vs VoterKind of
        Inl e \<Rightarrow> Inl e
      | Inr vs \<Rightarrow>
          if vs = [] then Inl EmptyVoters
          else case validate_unique ls LearnerKind of
            Inl e \<Rightarrow> Inl e
          | Inr ls \<Rightarrow>
              case List.find (\<lambda>l. binary_search vs l \<noteq> None) ls of
                Some l \<Rightarrow> Inl (LearnerVoterOverlap l)
              | None \<Rightarrow> Inr \<lparr>voters = vs, learners = ls\<rparr>)"

definition union_node_ids :: "NodeId list \<Rightarrow> NodeId list \<Rightarrow> NodeId list" where
  "union_node_ids left right = btree_set (left @ right)"

definition majority :: "usize \<Rightarrow> usize" where
  "majority voter_count = voter_count div 2 + 1"

section \<open>Observations\<close>

definition set_replica_ids :: "MembershipSet \<Rightarrow> NodeId list" where
  "set_replica_ids m = union_node_ids (voters m) (learners m)"

definition quorum_size :: "MembershipSet \<Rightarrow> usize" where
  "quorum_size m = majority (length (voters m))"

definition set_has_quorum :: "MembershipSet \<Rightarrow> NodeId list \<Rightarrow> bool" where
  "set_has_quorum m acks \<longleftrightarrow>
     quorum_size m \<le> length (filter (\<lambda>v. v \<in> set acks) (voters m))"

definition joint_has_quorum :: "JointMembership \<Rightarrow> NodeId list \<Rightarrow> bool" where
  "joint_has_quorum j acks \<longleftrightarrow>
     set_has_quorum (old_membership j) acks \<and> set_has_quorum (new_membership j) acks"

fun has_quorum :: "MembershipConfig \<Rightarrow> NodeId list \<Rightarrow> bool" where
  "has_quorum (StableMembership s) acks = set_has_quorum s (btree_set acks)"
| "has_quorum (JointMembershipConfig j) acks = joint_has_quorum j (btree_set acks)"

fun voter_ids :: "MembershipConfig \<Rightarrow> NodeId list" where
  "voter_ids (StableMembership s) = voters s"
| "voter_ids (JointMembershipConfig j) =
     btree_set (voters (old_membership j) @ voters (new_membership j))"

fun replica_ids :: "MembershipConfig \<Rightarrow> NodeId list" where
  "replica_ids (StableMembership s) = set_replica_ids s"
| "replica_ids (JointMembershipConfig j) =
     union_node_ids (set_replica_ids (old_membership j)) (set_replica_ids (new_membership j))"

fun contains_voter :: "MembershipConfig \<Rightarrow> NodeId \<Rightarrow> bool" where
  "contains_voter (StableMembership s) n = (n \<in> set (voters s))"
| "contains_voter (JointMembershipConfig j) n =
     (n \<in> set (voters (old_membership j)) \<or> n \<in> set (voters (new_membership j)))"

fun contains_learner :: "MembershipConfig \<Rightarrow> NodeId \<Rightarrow> bool" where
  "contains_learner (StableMembership s) n = (n \<in> set (learners s))"
| "contains_learner (JointMembershipConfig j) n =
     (n \<in> set (learners (old_membership j)) \<or> n \<in> set (learners (new_membership j)))"

definition contains_replica :: "MembershipConfig \<Rightarrow> NodeId \<Rightarrow> bool" where
  "contains_replica m n \<longleftrightarrow> contains_voter m n \<or> contains_learner m n"

section \<open>Well-formed memberships\<close>

text \<open>
  The fields of a \<open>MembershipSet\<close> are private, so every value the program handles came out of
  its constructor. \<open>membership_set_wf\<close> is that type invariant.
\<close>

definition membership_set_wf :: "MembershipSet \<Rightarrow> bool" where
  "membership_set_wf m \<longleftrightarrow> ordered (voters m) \<and> ordered (learners m) \<and> voters m \<noteq> [] \<and>
     set (voters m) \<inter> set (learners m) = {}"

fun membership_wf :: "MembershipConfig \<Rightarrow> bool" where
  "membership_wf (StableMembership s) = membership_set_wf s"
| "membership_wf (JointMembershipConfig j) =
     (membership_set_wf (old_membership j) \<and> membership_set_wf (new_membership j))"

lemma adjacent_duplicate_None_iff:
  "sorted nodes \<Longrightarrow> (\<forall>p. previous = Some p \<longrightarrow> (\<forall>n\<in>set nodes. p \<le> n)) \<Longrightarrow>
   adjacent_duplicate previous nodes = None \<longleftrightarrow>
     distinct nodes \<and> (\<forall>p. previous = Some p \<longrightarrow> p \<notin> set nodes)"
proof (induction nodes arbitrary: previous)
  case Nil
  then show ?case by simp
next
  case (Cons node nodes)
  then have "adjacent_duplicate (Some node) nodes = None \<longleftrightarrow> distinct nodes \<and> node \<notin> set nodes"
    by auto
  moreover have "p \<notin> set nodes" if "previous = Some p" "p \<noteq> node" for p
    using Cons.prems that by (auto dest: antisym)
  ultimately show ?case by (cases "previous = Some node") auto
qed

lemma adjacent_duplicate_SomeD:
  "adjacent_duplicate previous nodes = Some d \<Longrightarrow> d \<in> set nodes"
  by (induction previous nodes rule: adjacent_duplicate.induct) (auto split: if_splits)

lemma adjacent_duplicate_count:
  "adjacent_duplicate previous nodes = Some d \<Longrightarrow> previous \<noteq> Some d \<Longrightarrow> 2 \<le> count_list nodes d"
proof (induction previous nodes rule: adjacent_duplicate.induct)
  case (1 previous)
  then show ?case by simp
next
  case (2 previous node nodes)
  show ?case
  proof (cases "node = d")
    case True
    with "2.prems" have "adjacent_duplicate (Some node) nodes = Some d" by (auto split: if_splits)
    then have "d \<in> set nodes" by (rule adjacent_duplicate_SomeD)
    with True show ?thesis by (simp add: count_list_0_iff Suc_le_eq flip: neq0_conv)
  next
    case False
    with "2" show ?thesis by (auto split: if_splits)
  qed
qed

lemma validate_unique_Inr_iff:
  "validate_unique nodes kind = Inr ns \<longleftrightarrow> distinct nodes \<and> ns = sort nodes"
  using adjacent_duplicate_None_iff [of "sort nodes" None]
  by (auto simp: validate_unique_def Let_def split: option.splits)

lemma count_list_sort [simp]: "count_list (sort xs) x = count_list xs x"
proof -
  have "count_list (insort y ys) x = (if y = x then Suc else id) (count_list ys x)" for y :: 'a and ys
    by (induction ys) auto
  then show ?thesis by (induction xs) (auto simp: sort_key_def)
qed

lemma validate_unique_InlD:
  assumes "validate_unique nodes kind = Inl e"
  obtains d where "2 \<le> count_list nodes d"
    and "e = (case kind of VoterKind \<Rightarrow> DuplicateVoter d | LearnerKind \<Rightarrow> DuplicateLearner d)"
proof -
  from assms obtain d where d: "adjacent_duplicate None (sort nodes) = Some d"
    and e: "e = (case kind of VoterKind \<Rightarrow> DuplicateVoter d | LearnerKind \<Rightarrow> DuplicateLearner d)"
    by (simp add: validate_unique_def Let_def split: option.splits)
  from adjacent_duplicate_count [OF d] have "2 \<le> count_list nodes d" by simp
  with e that show ?thesis by blast
qed

lemma find_overlap_None_iff:
  "sorted vs \<Longrightarrow>
   List.find (\<lambda>l. binary_search vs l \<noteq> None) ls = None \<longleftrightarrow> set vs \<inter> set ls = {}"
  by (auto simp: find_None_iff binary_search_None_iff simp del: not_None_eq)

lemma MembershipSet_new_Inr:
  "MembershipSet_new vs ls = Inr m \<longleftrightarrow>
     distinct vs \<and> distinct ls \<and> vs \<noteq> [] \<and> set vs \<inter> set ls = {} \<and>
     m = \<lparr>voters = sort vs, learners = sort ls\<rparr>"
proof (cases "validate_unique vs VoterKind")
  case (Inl e)
  then have "\<not> distinct vs" using validate_unique_Inr_iff [of vs VoterKind "sort vs"] by auto
  with Inl show ?thesis by (simp add: MembershipSet_new_def)
next
  case vs: (Inr vs')
  then have vs': "distinct vs" "vs' = sort vs" by (auto simp: validate_unique_Inr_iff)
  show ?thesis
  proof (cases "validate_unique ls LearnerKind")
    case (Inl e)
    then have "\<not> distinct ls" using validate_unique_Inr_iff [of ls LearnerKind "sort ls"] by auto
    with Inl vs show ?thesis by (simp add: MembershipSet_new_def)
  next
    case ls: (Inr ls')
    then have ls': "distinct ls" "ls' = sort ls" by (auto simp: validate_unique_Inr_iff)
    show ?thesis
      using vs ls vs' ls' find_overlap_None_iff [of "sort vs" "sort ls"]
      by (cases "List.find (\<lambda>l. binary_search vs' l \<noteq> None) ls'") (auto simp: MembershipSet_new_def sort_Nil_iff simp del: not_None_eq)
  qed
qed

lemma MembershipSet_new_wf: "MembershipSet_new vs ls = Inr m \<Longrightarrow> membership_set_wf m"
  by (auto simp: MembershipSet_new_Inr membership_set_wf_def ordered_sort sort_Nil_iff)

lemma MembershipSet_new_idem:
  "MembershipSet_new (voters m) (learners m) = Inr m \<longleftrightarrow> membership_set_wf m"
proof
  assume "MembershipSet_new (voters m) (learners m) = Inr m"
  then show "membership_set_wf m" by (rule MembershipSet_new_wf)
next
  assume "membership_set_wf m"
  then show "MembershipSet_new (voters m) (learners m) = Inr m"
    by (auto simp: MembershipSet_new_Inr membership_set_wf_def ordered_def sorted_sort_id)
qed

lemma ordered_voter_ids: "membership_wf m \<Longrightarrow> ordered (voter_ids m)"
  by (cases m) (auto simp: membership_set_wf_def)

lemma set_voter_ids: "set (voter_ids m) = {n. contains_voter m n}"
  by (cases m) auto

lemma ordered_replica_ids [simp]: "ordered (replica_ids m)"
  by (cases m) (auto simp: set_replica_ids_def union_node_ids_def)

lemma ordered_set_replica_ids [simp]: "ordered (set_replica_ids m)"
  by (simp add: set_replica_ids_def union_node_ids_def)

lemma set_replica_ids: "set (replica_ids m) = {n. contains_replica m n}"
  by (cases m) (auto simp: set_replica_ids_def union_node_ids_def contains_replica_def)

section \<open>Quorum systems\<close>

text \<open>
  What the rest of the protocol relies on of a quorum test: it only reads which nodes
  acknowledged, more acknowledgements never lose a quorum, and two quorums of the same
  configuration share a voter.
\<close>

locale quorum_system =
  fixes valid :: "'c \<Rightarrow> bool"
    and voter :: "'c \<Rightarrow> 'n \<Rightarrow> bool"
    and quorum :: "'c \<Rightarrow> 'n list \<Rightarrow> bool"
  assumes quorum_mono: "quorum c xs \<Longrightarrow> set xs \<subseteq> set ys \<Longrightarrow> quorum c ys"
    and quorum_meet: "valid c \<Longrightarrow> quorum c xs \<Longrightarrow> quorum c ys \<Longrightarrow>
      \<exists>v. v \<in> set xs \<and> v \<in> set ys \<and> voter c v"
begin

lemma quorum_cong: "set xs = set ys \<Longrightarrow> quorum c xs = quorum c ys"
  using quorum_mono by blast

lemma quorum_nonempty: "valid c \<Longrightarrow> quorum c xs \<Longrightarrow> xs \<noteq> []"
  using quorum_meet [of c xs xs] by auto

text \<open>
  Votes are exclusive, so two quorums of votes are for the same candidate. This is the
  counting step of every election and commitment argument.
\<close>

lemma exclusive_votes_agree:
  assumes "valid c" "quorum c xs" "quorum c ys"
    and "\<And>v. v \<in> set xs \<Longrightarrow> vote v = Some a" "\<And>v. v \<in> set ys \<Longrightarrow> vote v = Some b"
  shows "a = b"
proof -
  from quorum_meet [OF assms(1-3)] obtain v where "v \<in> set xs" "v \<in> set ys" by blast
  with assms(4,5) have "Some a = Some b" by metis
  then show ?thesis by simp
qed

end

lemma set_has_quorum_mono:
  assumes "set_has_quorum m xs" "set xs \<subseteq> set ys"
  shows "set_has_quorum m ys"
  using assms(1) length_filter_mono [of "\<lambda>v. v \<in> set xs" "\<lambda>v. v \<in> set ys" "voters m", OF subsetD [OF assms(2)]]
  by (simp add: set_has_quorum_def)

lemma set_has_quorum_meet:
  assumes "membership_set_wf m" "set_has_quorum m xs" "set_has_quorum m ys"
  shows "\<exists>v. v \<in> set xs \<and> v \<in> set ys \<and> v \<in> set (voters m)"
proof -
  let ?A = "{v \<in> set (voters m). v \<in> set xs}" and ?B = "{v \<in> set (voters m). v \<in> set ys}"
  from assms(1) have d: "distinct (voters m)" by (simp add: membership_set_wf_def ordered_def)
  have a: "card (set (voters m)) div 2 + 1 \<le> card ?A"
    using assms(2) unfolding set_has_quorum_def quorum_size_def majority_def
    by (simp only: length_filter_card [OF d] distinct_card [OF d])
  have b: "card (set (voters m)) div 2 + 1 \<le> card ?B"
    using assms(3) unfolding set_has_quorum_def quorum_size_def majority_def
    by (simp only: length_filter_card [OF d] distinct_card [OF d])
  have "?A \<inter> ?B \<noteq> {}"
    by (rule majorities_meet [OF _ _ _ a b]) simp_all
  then show ?thesis by blast
qed

lemma has_quorum_meet:
  "membership_wf m \<Longrightarrow> has_quorum m xs \<Longrightarrow> has_quorum m ys \<Longrightarrow>
   \<exists>v. v \<in> set xs \<and> v \<in> set ys \<and> contains_voter m v"
proof (cases m)
  case (StableMembership s)
  assume "membership_wf m" "has_quorum m xs" "has_quorum m ys"
  with StableMembership show ?thesis
    using set_has_quorum_meet [of s "btree_set xs" "btree_set ys"] by auto
next
  case (JointMembershipConfig j)
  assume "membership_wf m" "has_quorum m xs" "has_quorum m ys"
  with JointMembershipConfig show ?thesis
    using set_has_quorum_meet [of "old_membership j" "btree_set xs" "btree_set ys"]
    by (auto simp: joint_has_quorum_def)
qed

lemma has_quorum_mono: "has_quorum m xs \<Longrightarrow> set xs \<subseteq> set ys \<Longrightarrow> has_quorum m ys"
  by (cases m) (auto simp: joint_has_quorum_def elim!: set_has_quorum_mono)

interpretation config_quorum: quorum_system membership_wf contains_voter has_quorum
  by unfold_locales (auto dest: has_quorum_mono has_quorum_meet)

lemma joint_quorum_meets_old:
  assumes "membership_wf (JointMembershipConfig j)" "has_quorum (JointMembershipConfig j) xs"
    and "has_quorum (StableMembership (old_membership j)) ys"
  shows "\<exists>v. v \<in> set xs \<and> v \<in> set ys \<and> v \<in> set (voters (old_membership j))"
  using set_has_quorum_meet [of "old_membership j" "btree_set xs" "btree_set ys"] assms
  by (auto simp: joint_has_quorum_def)

lemma joint_quorum_meets_new:
  assumes "membership_wf (JointMembershipConfig j)" "has_quorum (JointMembershipConfig j) xs"
    and "has_quorum (StableMembership (new_membership j)) ys"
  shows "\<exists>v. v \<in> set xs \<and> v \<in> set ys \<and> v \<in> set (voters (new_membership j))"
  using set_has_quorum_meet [of "new_membership j" "btree_set xs" "btree_set ys"] assms
  by (auto simp: joint_has_quorum_def)

end
