(* ===== verification/Slots.thy ===== *)
theory Slots
  imports Prelude
begin

unbundle bit_operations_syntax

text \<open>
  \<open>crates/rafter/src/node/state/membership/slots.rs\<close>: sets of replica slots packed into machine
  words, inline up to 64 slots and in a vector beyond. The locale \<open>slot_collection\<close> is the
  contract the membership index relies on; the packed representation is shown to satisfy it.
\<close>

section \<open>Packed slot sets\<close>

type_synonym ReplicaSlot = usize

datatype SlotSet =
    Inline "64 word"
  | Heap "64 word list"

definition word_count :: "usize \<Rightarrow> usize" where
  "word_count bit_count = sat_add bit_count 63 div 64"

definition word_index :: "ReplicaSlot \<Rightarrow> usize" where
  "word_index slot = slot div 64"

definition slot_mask :: "ReplicaSlot \<Rightarrow> 64 word" where
  "slot_mask slot = push_bit (slot mod 64) 1"

definition SlotSet_empty :: "usize \<Rightarrow> SlotSet" where
  "SlotSet_empty slot_count =
     (if slot_count \<le> 64 then Inline 0 else Heap (replicate (word_count slot_count) 0))"

definition or_word :: "64 word list \<Rightarrow> usize \<Rightarrow> 64 word \<Rightarrow> 64 word list" where
  "or_word ws i m = ws[i := (ws ! i) OR m]"

fun SlotSet_insert :: "SlotSet \<Rightarrow> ReplicaSlot \<Rightarrow> SlotSet" where
  "SlotSet_insert (Inline bits) slot =
     (if slot < 64 then Inline (bits OR push_bit slot 1)
      else Heap (or_word ((replicate (word_count (slot + 1)) 0)[0 := bits])
                   (word_index slot) (slot_mask slot)))"
| "SlotSet_insert (Heap ws) slot =
     (let i = word_index slot;
          ws = (if length ws \<le> i then ws @ replicate (i + 1 - length ws) 0 else ws)
      in Heap (or_word ws i (slot_mask slot)))"

fun SlotSet_contains :: "SlotSet \<Rightarrow> ReplicaSlot \<Rightarrow> bool" where
  "SlotSet_contains (Inline bits) slot = (slot < 64 \<and> bits AND push_bit slot 1 \<noteq> 0)"
| "SlotSet_contains (Heap ws) slot =
     (case get ws (word_index slot) of
        None \<Rightarrow> False
      | Some w \<Rightarrow> w AND slot_mask slot \<noteq> 0)"

definition count_ones :: "64 word \<Rightarrow> usize" where
  "count_ones w = length (filter (bit w) [0..<64])"

fun SlotSet_count :: "SlotSet \<Rightarrow> usize" where
  "SlotSet_count (Inline bits) = count_ones bits"
| "SlotSet_count (Heap ws) = sum_list (map count_ones ws)"

definition SlotSet_iter :: "SlotSet \<Rightarrow> usize \<Rightarrow> ReplicaSlot list" where
  "SlotSet_iter s slot_count = filter (SlotSet_contains s) [0..<slot_count]"

section \<open>The contract of a slot collection\<close>

text \<open>
  \<open>bounded\<close> limits the slots a client may insert: the packed form sizes its vector with a
  saturating addition, so a slot within 64 of the maximal machine word has no word to live in.
\<close>

locale slot_collection =
  fixes empty :: "usize \<Rightarrow> 's"
    and insert :: "'s \<Rightarrow> usize \<Rightarrow> 's"
    and contains :: "'s \<Rightarrow> usize \<Rightarrow> bool"
    and count :: "'s \<Rightarrow> usize"
    and iter :: "'s \<Rightarrow> usize \<Rightarrow> usize list"
    and bounded :: "usize \<Rightarrow> bool"
  assumes contains_empty: "\<not> contains (empty n) i"
    and contains_insert: "bounded i \<Longrightarrow> contains (insert s i) j \<longleftrightarrow> i = j \<or> contains s j"
    and finite_contains: "finite {i. contains s i}"
    and count_card: "count s = card {i. contains s i}"
    and iter_filter: "iter s n = filter (contains s) [0..<n]"
begin

lemma contains_fold_insert:
  "(\<And>i. i \<in> set is \<Longrightarrow> bounded i) \<Longrightarrow>
   contains (fold (\<lambda>i s. insert s i) is s) j \<longleftrightarrow> j \<in> set is \<or> contains s j"
  by (induction "is" arbitrary: s) (auto simp: contains_insert)

text \<open>Counting the slots of one set that also satisfy a predicate, as the quorum tests do.\<close>

lemma length_filter_iter: "length (filter P (iter s n)) = card {i. i < n \<and> contains s i \<and> P i}"
proof -
  have "length (filter P (iter s n)) = card (set (filter P (iter s n)))"
    by (rule distinct_card [symmetric]) (simp add: iter_filter)
  also have "set (filter P (iter s n)) = {i. i < n \<and> contains s i \<and> P i}"
    by (auto simp: iter_filter)
  finally show ?thesis .
qed

lemma set_iter: "set (iter s n) = {i. i < n \<and> contains s i}"
  by (auto simp: iter_filter)

lemma ordered_iter: "ordered (iter s n)"
  by (simp add: iter_filter ordered_def sorted_wrt_filter)

end

section \<open>The packed representation satisfies the contract\<close>

lemma and_exp_iff: "(w AND 2 ^ i = 0) \<longleftrightarrow> \<not> bit w i" for w :: "64 word"
  by (simp add: and_exp_eq_0_iff_not_bit)

lemma slot_mask_bit: "i < 64 \<Longrightarrow> bit (slot_mask j) i \<longleftrightarrow> i = j mod 64"
  by (auto simp: slot_mask_def bit_exp_iff)

lemma SlotSet_contains_Inline [simp]: "SlotSet_contains (Inline bits) i \<longleftrightarrow> i < 64 \<and> bit bits i"
  by (simp add: and_exp_iff)

lemma SlotSet_contains_Heap [simp]:
  "SlotSet_contains (Heap ws) i \<longleftrightarrow> i div 64 < length ws \<and> bit (ws ! (i div 64)) (i mod 64)"
  by (auto simp: get_def word_index_def slot_mask_def and_exp_iff split: option.splits)

declare SlotSet_contains.simps [simp del]

lemma same_slot: "(i::nat) div 64 = j div 64 \<Longrightarrow> i mod 64 = j mod 64 \<longleftrightarrow> i = j"
  by (metis mult_div_mod_eq)

lemma contains_or_word:
  assumes "i div 64 < length ws"
  shows "SlotSet_contains (Heap (or_word ws (word_index i) (slot_mask i))) j \<longleftrightarrow>
    i = j \<or> SlotSet_contains (Heap ws) j"
proof (cases "j div 64 = i div 64")
  case True
  with assms show ?thesis
    using same_slot [OF True]
    by (auto simp: or_word_def word_index_def bit_or_iff slot_mask_bit)
next
  case False
  with assms show ?thesis by (auto simp: or_word_def word_index_def)
qed

lemma contains_padded:
  "SlotSet_contains (Heap (ws @ replicate k 0)) j \<longleftrightarrow> SlotSet_contains (Heap ws) j"
  by (auto simp: nth_append)

lemma contains_grown_inline:
  assumes "0 < n"
  shows "SlotSet_contains (Heap ((replicate n 0)[0 := bits])) j \<longleftrightarrow> SlotSet_contains (Inline bits) j"
proof (cases "j < 64")
  case True
  with assms show ?thesis by simp
next
  case False
  then have "j div 64 \<noteq> 0" by (simp add: div_eq_0_iff)
  with False show ?thesis by auto
qed

abbreviation slot_bounded :: "usize \<Rightarrow> bool" where
  "slot_bounded i \<equiv> i + 64 \<le> u64_max"

lemma SlotSet_contains_insert:
  assumes "slot_bounded i"
  shows "SlotSet_contains (SlotSet_insert s i) j \<longleftrightarrow> i = j \<or> SlotSet_contains s j"
proof (cases s)
  case (Inline bits)
  show ?thesis
  proof (cases "i < 64")
    case True
    with Inline show ?thesis
      by (auto simp: bit_or_iff bit_exp_iff)
  next
    case False
    from assms have "word_count (i + 1) = i div 64 + 1"
      by (simp add: word_count_def sat_add_def)
    with False Inline contains_or_word [of i "(replicate (word_count (i + 1)) 0)[0 := bits]" j]
    show ?thesis by (simp add: contains_grown_inline del: SlotSet_contains_Heap SlotSet_contains_Inline)
  qed
next
  case (Heap ws)
  show ?thesis
  proof (cases "length ws \<le> i div 64")
    case True
    with Heap contains_or_word [of i "ws @ replicate (i div 64 + 1 - length ws) 0" j]
    show ?thesis
      by (simp add: Let_def word_index_def contains_padded del: SlotSet_contains_Heap)
  next
    case False
    with Heap contains_or_word [of i ws j] show ?thesis
      by (simp add: Let_def word_index_def del: SlotSet_contains_Heap)
  qed
qed

lemma SlotSet_contains_empty: "\<not> SlotSet_contains (SlotSet_empty n) i"
  by (auto simp: SlotSet_empty_def)

lemma count_ones_card: "count_ones w = card {i. i < 64 \<and> bit w i}"
  by (simp add: count_ones_def length_filter_card)

lemma heap_slots_snoc:
  "{i. SlotSet_contains (Heap (ws @ [w])) i} =
   {i. SlotSet_contains (Heap ws) i} \<union> (\<lambda>b. 64 * length ws + b) ` {b. b < 64 \<and> bit w b}"
proof (rule set_eqI, goal_cases)
  case (1 i)
  have "i div 64 = length ws \<longleftrightarrow> (\<exists>b<64. i = 64 * length ws + b)"
  proof
    assume "i div 64 = length ws"
    then have "i = 64 * length ws + i mod 64" by (metis mult_div_mod_eq)
    then show "\<exists>b<64. i = 64 * length ws + b" by (intro exI [of _ "i mod 64"]) simp
  qed auto
  then show ?case by (auto simp: nth_append)
qed

lemma finite_heap_slots: "finite {i. SlotSet_contains (Heap ws) i}"
proof (rule finite_subset)
  show "{i. SlotSet_contains (Heap ws) i} \<subseteq> {..< 64 * length ws}"
    by (auto simp: div_less_iff_less_mult mult.commute)
qed simp

lemma SlotSet_finite: "finite {i. SlotSet_contains s i}"
  by (cases s) (use finite_heap_slots in auto)

lemma SlotSet_count_card: "SlotSet_count s = card {i. SlotSet_contains s i}"
proof (cases s)
  case (Inline bits)
  then show ?thesis by (simp add: count_ones_card)
next
  case (Heap ws)
  have "sum_list (map count_ones ws) = card {i. SlotSet_contains (Heap ws) i}"
  proof (induction ws rule: rev_induct)
    case Nil
    then show ?case by simp
  next
    case (snoc w ws)
    let ?A = "{i. SlotSet_contains (Heap ws) i}"
    let ?B = "(\<lambda>b. 64 * length ws + b) ` {b. b < 64 \<and> bit w b}"
    have "?A \<inter> ?B = {}" by auto
    then have "card (?A \<union> ?B) = card ?A + card ?B"
      using finite_heap_slots by (intro card_Un_disjoint) auto
    moreover have "card ?B = count_ones w"
      by (simp add: count_ones_card card_image inj_on_def)
    ultimately show ?case using snoc by (simp add: heap_slots_snoc del: SlotSet_contains_Heap)
  qed
  with Heap show ?thesis by simp
qed

interpretation packed: slot_collection SlotSet_empty SlotSet_insert SlotSet_contains
    SlotSet_count SlotSet_iter slot_bounded
  by unfold_locales
    (simp_all add: SlotSet_contains_empty SlotSet_contains_insert SlotSet_finite
      SlotSet_count_card SlotSet_iter_def)

end
