(* ===== verification/Membership_Index.thy ===== *)
theory Membership_Index
  imports Membership Slots "HOL-Library.Multiset"
begin

text \<open>
  \<open>crates/rafter/src/node/state/membership/index.rs\<close> and \<open>acknowledgements.rs\<close>: the dense index
  the node keeps for its membership, its slot-based quorum tests, and the sets of
  acknowledging nodes that survive membership changes. The quorum tests are proved equal to
  the reference definition \<open>has_quorum\<close>, and an acknowledgement set is proved to be a set of
  member nodes.
\<close>

section \<open>The membership index\<close>

record MembershipIndex =
  mi_replicas :: "NodeId list"
  mi_old_voters :: SlotSet
  mi_new_voters :: "SlotSet option"
  mi_learners :: SlotSet
  mi_self_slot :: "ReplicaSlot option"

definition MembershipIndex_default :: MembershipIndex where
  "MembershipIndex_default = \<lparr>mi_replicas = [], mi_old_voters = Inline 0, mi_new_voters = None,
     mi_learners = Inline 0, mi_self_slot = None\<rparr>"

definition slot_of :: "NodeId list \<Rightarrow> NodeId \<Rightarrow> ReplicaSlot option" where
  "slot_of replicas node_id = binary_search replicas node_id"

definition insert_node_slot :: "NodeId list \<Rightarrow> NodeId \<Rightarrow> SlotSet \<Rightarrow> SlotSet" where
  "insert_node_slot replicas node_id s =
     (case slot_of replicas node_id of
        Some slot \<Rightarrow> SlotSet_insert s slot
      | None \<Rightarrow> s)"

definition slot_set_for :: "NodeId list \<Rightarrow> NodeId list \<Rightarrow> SlotSet" where
  "slot_set_for replicas nodes =
     fold (insert_node_slot replicas) nodes (SlotSet_empty (length replicas))"

definition learners_for_joint :: "NodeId list \<Rightarrow> MembershipSet \<Rightarrow> MembershipSet \<Rightarrow> SlotSet" where
  "learners_for_joint replicas old_m new_m =
     fold (insert_node_slot replicas) (learners old_m @ learners new_m)
       (SlotSet_empty (length replicas))"

definition MembershipIndex_stable :: "MembershipSet \<Rightarrow> NodeId \<Rightarrow> MembershipIndex" where
  "MembershipIndex_stable m self_id =
     (let replicas = set_replica_ids m in
      \<lparr>mi_replicas = replicas,
       mi_old_voters = slot_set_for replicas (voters m),
       mi_new_voters = None,
       mi_learners = slot_set_for replicas (learners m),
       mi_self_slot = slot_of replicas self_id\<rparr>)"

fun MembershipIndex_new :: "MembershipConfig \<Rightarrow> NodeId \<Rightarrow> MembershipIndex" where
  "MembershipIndex_new (StableMembership m) self_id = MembershipIndex_stable m self_id"
| "MembershipIndex_new (JointMembershipConfig j) self_id =
     (let replicas = replica_ids (JointMembershipConfig j) in
      \<lparr>mi_replicas = replicas,
       mi_old_voters = slot_set_for replicas (voters (old_membership j)),
       mi_new_voters = Some (slot_set_for replicas (voters (new_membership j))),
       mi_learners = learners_for_joint replicas (old_membership j) (new_membership j),
       mi_self_slot = slot_of replicas self_id\<rparr>)"

definition mi_slot :: "MembershipIndex \<Rightarrow> NodeId \<Rightarrow> ReplicaSlot option" where
  "mi_slot idx node_id = slot_of (mi_replicas idx) node_id"

definition quorum_reached :: "SlotSet \<Rightarrow> SlotSet \<Rightarrow> usize \<Rightarrow> bool" where
  "quorum_reached vs acks slot_count \<longleftrightarrow>
     majority (SlotSet_count vs) \<le> length (filter (SlotSet_contains acks) (SlotSet_iter vs slot_count))"

definition quorum_reached_with_self ::
    "SlotSet \<Rightarrow> SlotSet \<Rightarrow> ReplicaSlot option \<Rightarrow> usize \<Rightarrow> bool" where
  "quorum_reached_with_self vs acks self_slot slot_count \<longleftrightarrow>
     majority (SlotSet_count vs)
       \<le> length (filter (\<lambda>s. SlotSet_contains acks s \<or> Some s = self_slot)
                   (SlotSet_iter vs slot_count))"

definition has_quorum_slots :: "MembershipIndex \<Rightarrow> SlotSet \<Rightarrow> bool" where
  "has_quorum_slots idx acks \<longleftrightarrow>
     quorum_reached (mi_old_voters idx) acks (length (mi_replicas idx)) \<and>
     (case mi_new_voters idx of
        None \<Rightarrow> True
      | Some vs \<Rightarrow> quorum_reached vs acks (length (mi_replicas idx)))"

definition mi_has_quorum :: "MembershipIndex \<Rightarrow> NodeId list \<Rightarrow> bool" where
  "mi_has_quorum idx acks = has_quorum_slots idx (slot_set_for (mi_replicas idx) acks)"

definition has_quorum_slots_with_self :: "MembershipIndex \<Rightarrow> SlotSet \<Rightarrow> bool" where
  "has_quorum_slots_with_self idx acks \<longleftrightarrow>
     quorum_reached_with_self (mi_old_voters idx) acks (mi_self_slot idx) (length (mi_replicas idx)) \<and>
     (case mi_new_voters idx of
        None \<Rightarrow> True
      | Some vs \<Rightarrow> quorum_reached_with_self vs acks (mi_self_slot idx) (length (mi_replicas idx)))"

function sorted_union_matches :: "NodeId list \<Rightarrow> NodeId list \<Rightarrow> NodeId list \<Rightarrow> bool" where
  "sorted_union_matches target left right =
     (case (left, right) of
        ([], []) \<Rightarrow> target = []
      | (l # ls, []) \<Rightarrow> (case target of [] \<Rightarrow> False | t # ts \<Rightarrow> t = l \<and> sorted_union_matches ts ls [])
      | ([], r # rs) \<Rightarrow> (case target of [] \<Rightarrow> False | t # ts \<Rightarrow> t = r \<and> sorted_union_matches ts [] rs)
      | (l # ls, r # rs) \<Rightarrow>
          (case target of
             [] \<Rightarrow> False
           | t # ts \<Rightarrow> if l \<le> r then t = l \<and> sorted_union_matches ts ls (r # rs)
                       else t = r \<and> sorted_union_matches ts (l # ls) rs))"
  by pat_completeness auto
termination
  by (relation "measure (\<lambda>(target, left, right). length left + length right)") auto

declare sorted_union_matches.simps [simp del]

definition slot_set_matches_members :: "SlotSet \<Rightarrow> NodeId list \<Rightarrow> NodeId list \<Rightarrow> bool" where
  "slot_set_matches_members s replicas members \<longleftrightarrow>
     list_all (\<lambda>slot. SlotSet_contains s slot = (binary_search members (replicas ! slot) \<noteq> None))
       [0..<length replicas]"

definition matches_stable :: "MembershipIndex \<Rightarrow> MembershipSet \<Rightarrow> NodeId \<Rightarrow> bool" where
  "matches_stable idx m self_id \<longleftrightarrow>
     mi_new_voters idx = None \<and>
     mi_self_slot idx = slot_of (mi_replicas idx) self_id \<and>
     sorted_union_matches (mi_replicas idx) (voters m) (learners m) \<and>
     slot_set_matches_members (mi_old_voters idx) (mi_replicas idx) (voters m) \<and>
     slot_set_matches_members (mi_learners idx) (mi_replicas idx) (learners m)"

fun mi_matches :: "MembershipIndex \<Rightarrow> MembershipConfig \<Rightarrow> NodeId \<Rightarrow> bool" where
  "mi_matches idx (StableMembership m) self_id = matches_stable idx m self_id"
| "mi_matches idx (JointMembershipConfig j) self_id = False"

section \<open>Acknowledgement sets\<close>

record AcknowledgementSet =
  ack_index :: MembershipIndex
  ack_slots :: SlotSet

definition AcknowledgementSet_default :: AcknowledgementSet where
  "AcknowledgementSet_default = \<lparr>ack_index = MembershipIndex_default, ack_slots = Inline 0\<rparr>"

definition AcknowledgementSet_new :: "MembershipConfig \<Rightarrow> NodeId \<Rightarrow> AcknowledgementSet" where
  "AcknowledgementSet_new m self_id =
     (let idx = MembershipIndex_new m self_id in
      \<lparr>ack_index = idx, ack_slots = SlotSet_empty (length (mi_replicas idx))\<rparr>)"

definition carry_ack :: "MembershipIndex \<Rightarrow> MembershipIndex \<Rightarrow> ReplicaSlot \<Rightarrow> SlotSet \<Rightarrow> SlotSet" where
  "carry_ack idx next_index slot s =
     (case get (mi_replicas idx) slot of
        None \<Rightarrow> s
      | Some node_id \<Rightarrow>
          (case mi_slot next_index node_id of
             Some next_slot \<Rightarrow> SlotSet_insert s next_slot
           | None \<Rightarrow> s))"

definition ack_refresh :: "AcknowledgementSet \<Rightarrow> MembershipConfig \<Rightarrow> NodeId \<Rightarrow> AcknowledgementSet" where
  "ack_refresh a m self_id =
     (if mi_matches (ack_index a) m self_id then a
      else let next_index = MembershipIndex_new m self_id in
        if ack_index a = next_index then a
        else \<lparr>ack_index = next_index,
              ack_slots = fold (carry_ack (ack_index a) next_index)
                (SlotSet_iter (ack_slots a) (length (mi_replicas (ack_index a))))
                (SlotSet_empty (length (mi_replicas next_index)))\<rparr>)"

definition ack_insert ::
    "AcknowledgementSet \<Rightarrow> NodeId \<Rightarrow> MembershipConfig \<Rightarrow> NodeId \<Rightarrow> AcknowledgementSet" where
  "ack_insert a node_id m self_id =
     (let a = ack_refresh a m self_id in
      case mi_slot (ack_index a) node_id of
        Some slot \<Rightarrow> a\<lparr>ack_slots := SlotSet_insert (ack_slots a) slot\<rparr>
      | None \<Rightarrow> a)"

definition ack_has_quorum_with_self ::
    "AcknowledgementSet \<Rightarrow> MembershipConfig \<Rightarrow> NodeId \<Rightarrow> AcknowledgementSet \<times> bool" where
  "ack_has_quorum_with_self a m self_id =
     (let a = ack_refresh a m self_id in (a, has_quorum_slots_with_self (ack_index a) (ack_slots a)))"

definition ack_clear :: "AcknowledgementSet \<Rightarrow> AcknowledgementSet" where
  "ack_clear a = a\<lparr>ack_slots := SlotSet_empty (length (mi_replicas (ack_index a)))\<rparr>"

section \<open>The voter sets of a configuration\<close>

fun voter_sets :: "MembershipConfig \<Rightarrow> NodeId list list" where
  "voter_sets (StableMembership s) = [voters s]"
| "voter_sets (JointMembershipConfig j) = [voters (old_membership j), voters (new_membership j)]"

lemma voter_sets_wf:
  "membership_wf m \<Longrightarrow> vs \<in> set (voter_sets m) \<Longrightarrow>
   distinct vs \<and> vs \<noteq> [] \<and> set vs \<subseteq> set (replica_ids m)"
  by (cases m) (auto simp: membership_set_wf_def ordered_def set_replica_ids_def union_node_ids_def)

lemma has_quorum_voter_sets:
  "has_quorum m ns \<longleftrightarrow>
     (\<forall>vs\<in>set (voter_sets m). majority (length vs) \<le> length (filter (\<lambda>v. v \<in> set ns) vs))"
  by (cases m) (simp_all add: set_has_quorum_def joint_has_quorum_def quorum_size_def)

section \<open>Slots of a node list\<close>

lemma ordered_nth_eq: "ordered rs \<Longrightarrow> i < length rs \<Longrightarrow> j < length rs \<Longrightarrow> rs ! i = rs ! j \<longleftrightarrow> i = j"
  by (simp add: ordered_def nth_eq_iff_index_eq)

lemma slot_of_Some_iff: "ordered rs \<Longrightarrow> slot_of rs n = Some i \<longleftrightarrow> i < length rs \<and> rs ! i = n"
  by (simp add: slot_of_def binary_search_Some_iff)

lemma slot_of_None_iff: "ordered rs \<Longrightarrow> slot_of rs n = None \<longleftrightarrow> n \<notin> set rs"
  by (simp add: slot_of_def binary_search_None_iff ordered_def)

text \<open>
  Slots are machine words, and the word count of a heap set rounds up by 63: a replica list
  is small when that rounding cannot overflow. Every list a program can allocate is small.
\<close>

definition small_nodes :: "NodeId list \<Rightarrow> bool" where
  "small_nodes rs \<longleftrightarrow> length rs + 64 \<le> u64_max"

lemma contains_insert_node_slot:
  assumes "ordered rs" "small_nodes rs" "j < length rs"
  shows "SlotSet_contains (insert_node_slot rs n s) j \<longleftrightarrow> rs ! j = n \<or> SlotSet_contains s j"
proof (cases "slot_of rs n")
  case None
  with assms have "rs ! j \<noteq> n" by (auto simp: slot_of_None_iff)
  with None show ?thesis by (simp add: insert_node_slot_def)
next
  case (Some i)
  with assms have i: "i < length rs" "rs ! i = n" by (simp_all add: slot_of_Some_iff)
  with assms have "rs ! j = n \<longleftrightarrow> i = j" by (auto simp: ordered_def nth_eq_iff_index_eq)
  with Some i assms show ?thesis
    by (simp add: insert_node_slot_def packed.contains_insert small_nodes_def)
qed

lemma contains_insert_node_slot_beyond:
  assumes "ordered rs" "small_nodes rs" "length rs \<le> j"
  shows "SlotSet_contains (insert_node_slot rs n s) j \<longleftrightarrow> SlotSet_contains s j"
  using assms
  by (auto simp: insert_node_slot_def slot_of_Some_iff packed.contains_insert small_nodes_def
      split: option.split)

lemma contains_fold_node_slots:
  assumes "ordered rs" "small_nodes rs"
  shows "SlotSet_contains (fold (insert_node_slot rs) ns s) j \<longleftrightarrow>
    (j < length rs \<and> rs ! j \<in> set ns) \<or> SlotSet_contains s j"
proof (induction ns arbitrary: s)
  case Nil
  show ?case by simp
next
  case (Cons n ns)
  have "SlotSet_contains (insert_node_slot rs n s) j \<longleftrightarrow>
      (j < length rs \<and> rs ! j = n) \<or> SlotSet_contains s j"
    using contains_insert_node_slot [OF assms] contains_insert_node_slot_beyond [OF assms]
    by (cases "j < length rs") simp_all
  with Cons show ?case by auto
qed

lemma contains_slot_set_for:
  "ordered rs \<Longrightarrow> small_nodes rs \<Longrightarrow>
   SlotSet_contains (slot_set_for rs ns) j \<longleftrightarrow> j < length rs \<and> rs ! j \<in> set ns"
  by (simp add: slot_set_for_def contains_fold_node_slots packed.contains_empty)

lemma card_slots_of_nodes:
  assumes "ordered rs" "A \<subseteq> set rs"
  shows "card {i. i < length rs \<and> rs ! i \<in> A} = card A"
proof -
  have "inj_on (nth rs) {i. i < length rs \<and> rs ! i \<in> A}"
    using assms(1) by (auto simp: inj_on_def ordered_def nth_eq_iff_index_eq)
  moreover have "nth rs ` {i. i < length rs \<and> rs ! i \<in> A} = A"
    using assms(2) by (auto simp: image_iff) (metis in_set_conv_nth subsetD)
  ultimately show ?thesis using card_image by metis
qed

text \<open>The slot-based quorum test counts the voters that acknowledged.\<close>

lemma quorum_reached_slot_set_for:
  assumes rs: "ordered rs" "small_nodes rs" and vs: "set vs \<subseteq> set rs" "distinct vs"
    and acks: "\<And>j. j < length rs \<Longrightarrow> SlotSet_contains acks j \<or> Some j = self_slot \<longleftrightarrow> rs ! j \<in> A"
  shows "quorum_reached_with_self (slot_set_for rs vs) acks self_slot (length rs) \<longleftrightarrow>
    majority (length vs) \<le> length (filter (\<lambda>v. v \<in> A) vs)"
proof -
  let ?V = "slot_set_for rs vs"
  have "SlotSet_count ?V = card {i. i < length rs \<and> rs ! i \<in> set vs}"
    using rs by (simp add: packed.count_card contains_slot_set_for)
  then have count: "SlotSet_count ?V = length vs"
    using rs vs by (simp add: card_slots_of_nodes distinct_card)
  have "length (filter (\<lambda>s. SlotSet_contains acks s \<or> Some s = self_slot) (SlotSet_iter ?V (length rs)))
      = card {i. i < length rs \<and> SlotSet_contains ?V i \<and> (SlotSet_contains acks i \<or> Some i = self_slot)}"
    by (rule packed.length_filter_iter)
  also have "{i. i < length rs \<and> SlotSet_contains ?V i \<and> (SlotSet_contains acks i \<or> Some i = self_slot)}
      = {i. i < length rs \<and> rs ! i \<in> set vs \<inter> A}"
    using rs acks by (auto simp: contains_slot_set_for)
  also have "card \<dots> = card (set vs \<inter> A)"
    using rs vs by (intro card_slots_of_nodes) auto
  also have "\<dots> = length (filter (\<lambda>v. v \<in> A) vs)"
    using vs by (simp add: length_filter_card Int_def)
  finally show ?thesis by (simp add: quorum_reached_with_self_def count)
qed

lemma quorum_reached_no_self:
  "quorum_reached vs acks n = quorum_reached_with_self vs acks None n"
  by (simp add: quorum_reached_def quorum_reached_with_self_def)

section \<open>The index agrees with the membership\<close>

definition small_config :: "MembershipConfig \<Rightarrow> bool" where
  "small_config m \<longleftrightarrow> small_nodes (replica_ids m)"

lemma mi_replicas_new [simp]: "mi_replicas (MembershipIndex_new m self_id) = replica_ids m"
  by (cases m) (simp_all add: MembershipIndex_stable_def Let_def)

lemma mi_self_slot_new [simp]:
  "mi_self_slot (MembershipIndex_new m self_id) = slot_of (replica_ids m) self_id"
  by (cases m) (simp_all add: MembershipIndex_stable_def Let_def)

lemma mi_slot_new: "mi_slot (MembershipIndex_new m self_id) n = slot_of (replica_ids m) n"
  by (simp add: mi_slot_def)

lemma index_quorum_iff:
  assumes wf: "membership_wf m" and small: "small_config m"
    and acks: "\<And>j. j < length (replica_ids m) \<Longrightarrow>
      SlotSet_contains acks j \<or> Some j = sl \<longleftrightarrow> replica_ids m ! j \<in> set ns"
  shows "has_quorum_slots_with_self ((MembershipIndex_new m self_id)\<lparr>mi_self_slot := sl\<rparr>) acks
    \<longleftrightarrow> has_quorum m ns"
proof -
  let ?rs = "replica_ids m"
  have "quorum_reached_with_self (slot_set_for ?rs vs) acks sl (length ?rs) \<longleftrightarrow>
      majority (length vs) \<le> length (filter (\<lambda>v. v \<in> set ns) vs)" if "vs \<in> set (voter_sets m)" for vs
    using quorum_reached_slot_set_for [of ?rs vs acks sl "set ns"] voter_sets_wf [OF wf that]
      small acks by (simp add: small_config_def)
  then show ?thesis
    by (cases m) (simp_all add: has_quorum_slots_with_self_def MembershipIndex_stable_def Let_def
        has_quorum_voter_sets)
qed

lemma has_quorum_slots_no_self:
  "has_quorum_slots idx acks = has_quorum_slots_with_self (idx\<lparr>mi_self_slot := None\<rparr>) acks"
  by (simp add: has_quorum_slots_def has_quorum_slots_with_self_def quorum_reached_no_self
      cong: option.case_cong)

lemma mi_has_quorum_new:
  assumes "membership_wf m" "small_config m"
  shows "mi_has_quorum (MembershipIndex_new m self_id) acks \<longleftrightarrow> has_quorum m acks"
  unfolding mi_has_quorum_def has_quorum_slots_no_self
  using assms
  by (intro index_quorum_iff) (simp_all add: contains_slot_set_for small_config_def)

section \<open>The fast path of the index is exact\<close>

lemma sort_Cons_least: "sorted xs \<Longrightarrow> (\<And>y. y \<in> set xs \<union> set ys \<Longrightarrow> x \<le> y) \<Longrightarrow>
    sort (xs @ x # ys) = x # sort (xs @ ys)" for x :: "'a::linorder"
  by (intro properties_for_sort) auto

lemma sorted_union_matches_iff:
  "sorted left \<Longrightarrow> sorted right \<Longrightarrow>
   sorted_union_matches target left right \<longleftrightarrow> target = sort (left @ right)"
proof (induction target left right rule: sorted_union_matches.induct)
  case (1 target left right)
  consider "left = []" "right = []" | l ls where "left = l # ls" "right = []"
    | r rs where "left = []" "right = r # rs"
    | l ls r rs where "left = l # ls" "right = r # rs" "l \<le> r"
    | l ls r rs where "left = l # ls" "right = r # rs" "r < l"
    by (cases left; cases right) (auto, meson not_le_imp_less)
  then show ?case
  proof cases
    case 1
    then show ?thesis by (simp add: sorted_union_matches.simps)
  next
    case 2
    with "1.IH" "1.prems" show ?thesis
      using sort_Cons_least [of "[]" ls l]
      by (cases target) (simp_all add: sorted_union_matches.simps [of _ "l # ls"])
  next
    case 3
    with "1.IH" "1.prems" show ?thesis
      using sort_Cons_least [of "[]" rs r]
      by (cases target) (simp_all add: sorted_union_matches.simps [of _ _ "r # rs"])
  next
    case 4
    have "sort (left @ right) = l # sort (ls @ right)"
      using 4 "1.prems" sort_Cons_least [of "[]" "ls @ right" l] by fastforce
    with 4 "1.IH" "1.prems" show ?thesis
      by (cases target) (simp_all add: sorted_union_matches.simps [of _ "l # ls"])
  next
    case 5
    have "sort (left @ right) = r # sort (left @ rs)"
      using 5 "1.prems" sort_Cons_least [of left rs r] by fastforce
    with 5 "1.IH" "1.prems" show ?thesis
      by (cases target) (simp_all add: sorted_union_matches.simps [of _ "l # ls"])
  qed
qed

text \<open>The shape of a slot set is fixed by the number of slots, so contents determine the value.\<close>

fun slot_shape :: "usize \<Rightarrow> SlotSet \<Rightarrow> bool" where
  "slot_shape n (Inline bits) = (n \<le> 64)"
| "slot_shape n (Heap ws) = (64 < n \<and> length ws = word_count n)"

definition slots_within :: "usize \<Rightarrow> SlotSet \<Rightarrow> bool" where
  "slots_within n s \<longleftrightarrow> slot_shape n s \<and> (\<forall>j. SlotSet_contains s j \<longrightarrow> j < n)"

lemma slot_shape_empty: "slot_shape n (SlotSet_empty n)"
  by (simp add: SlotSet_empty_def)

lemma slots_within_empty: "slots_within n (SlotSet_empty n)"
  by (simp add: slots_within_def slot_shape_empty packed.contains_empty)

lemma slot_shape_insert:
  assumes "slot_shape n s" "i < n" "n + 64 \<le> u64_max"
  shows "slot_shape n (SlotSet_insert s i)"
proof (cases s)
  case (Inline bits)
  with assms show ?thesis by simp
next
  case (Heap ws)
  with assms have "i div 64 < length ws"
    by (simp add: word_count_def sat_add_def)
  with Heap assms show ?thesis by (simp add: Let_def word_index_def or_word_def)
qed

lemma slots_within_insert:
  assumes "slots_within n s" "i < n" "n + 64 \<le> u64_max"
  shows "slots_within n (SlotSet_insert s i)"
  using assms by (auto simp: slots_within_def slot_shape_insert packed.contains_insert)

lemma slot_set_eqI:
  assumes "slots_within n s" "slots_within n t"
    and eq: "\<And>j. j < n \<Longrightarrow> SlotSet_contains s j = SlotSet_contains t j"
  shows "s = t"
proof -
  have eq: "SlotSet_contains s j = SlotSet_contains t j" for j
    using assms by (cases "j < n") (auto simp: slots_within_def)
  show ?thesis
  proof (cases s)
    case (Inline b)
    then obtain c where t: "t = Inline c"
      using assms(1,2) by (cases t) (auto simp: slots_within_def)
    have "b = c" by (rule bit_word_eqI) (use eq Inline t in auto)
    with Inline t show ?thesis by simp
  next
    case (Heap ws)
    then obtain us where t: "t = Heap us" "length us = length ws"
      using assms(1,2) by (cases t) (auto simp: slots_within_def)
    have "ws = us"
    proof (rule nth_equalityI)
      fix k assume k: "k < length ws"
      show "ws ! k = us ! k"
      proof (rule bit_word_eqI)
        fix b :: nat assume "b < LENGTH(64)"
        with k t Heap eq [of "64 * k + b"] show "bit (ws ! k) b = bit (us ! k) b" by simp
      qed
    qed (simp add: t)
    with Heap t show ?thesis by simp
  qed
qed

lemma slots_within_insert_node_slot:
  assumes "ordered rs" "small_nodes rs" "slots_within (length rs) s"
  shows "slots_within (length rs) (insert_node_slot rs n s)"
  using assms
  by (auto simp: insert_node_slot_def small_nodes_def slot_of_Some_iff intro: slots_within_insert
      split: option.split)

lemma slots_within_fold_node_slots:
  assumes "ordered rs" "small_nodes rs" "slots_within (length rs) s"
  shows "slots_within (length rs) (fold (insert_node_slot rs) ns s)"
  using assms(3) by (induction ns arbitrary: s) (simp_all add: slots_within_insert_node_slot assms)

lemma slots_within_slot_set_for:
  "ordered rs \<Longrightarrow> small_nodes rs \<Longrightarrow> slots_within (length rs) (slot_set_for rs ns)"
  by (simp add: slot_set_for_def slots_within_fold_node_slots slots_within_empty)

definition index_shape :: "MembershipIndex \<Rightarrow> bool" where
  "index_shape idx \<longleftrightarrow>
     ordered (mi_replicas idx) \<and> small_nodes (mi_replicas idx) \<and>
     slots_within (length (mi_replicas idx)) (mi_old_voters idx) \<and>
     slots_within (length (mi_replicas idx)) (mi_learners idx)"

lemma index_shape_default: "index_shape MembershipIndex_default"
  by (simp add: index_shape_def MembershipIndex_default_def small_nodes_def slots_within_def
      u64_max_def)

lemma index_shape_new: "small_config m \<Longrightarrow> index_shape (MembershipIndex_new m self_id)"
  using ordered_replica_ids [of m]
  by (cases m) (simp_all add: index_shape_def MembershipIndex_stable_def Let_def small_config_def
      slots_within_slot_set_for learners_for_joint_def slots_within_fold_node_slots slots_within_empty)

lemma slot_set_matches_members_eq:
  assumes "ordered rs" "small_nodes rs" "slots_within (length rs) s" "ordered ms"
    and "slot_set_matches_members s rs ms"
  shows "s = slot_set_for rs ms"
proof (rule slot_set_eqI [of "length rs"])
  fix j assume "j < length rs"
  with assms show "SlotSet_contains s j = SlotSet_contains (slot_set_for rs ms) j"
    by (simp add: slot_set_matches_members_def list_all_iff contains_slot_set_for
        binary_search_None_iff ordered_def del: not_None_eq)
qed (use assms in \<open>simp_all add: slots_within_slot_set_for\<close>)

lemma mi_matches_exact:
  assumes "index_shape idx" "membership_wf m" "mi_matches idx m self_id"
  shows "idx = MembershipIndex_new m self_id"
proof (cases m)
  case (StableMembership s)
  with assms have wf: "ordered (voters s)" "ordered (learners s)" "set (voters s) \<inter> set (learners s) = {}"
    and idx: "ordered (mi_replicas idx)" "small_nodes (mi_replicas idx)"
      "slots_within (length (mi_replicas idx)) (mi_old_voters idx)"
      "slots_within (length (mi_replicas idx)) (mi_learners idx)"
    and "matches_stable idx s self_id"
    by (simp_all add: membership_set_wf_def index_shape_def)
  then have m: "mi_new_voters idx = None" "mi_self_slot idx = slot_of (mi_replicas idx) self_id"
    "mi_replicas idx = sort (voters s @ learners s)"
    "mi_old_voters idx = slot_set_for (mi_replicas idx) (voters s)"
    "mi_learners idx = slot_set_for (mi_replicas idx) (learners s)"
    by (simp_all add: matches_stable_def slot_set_matches_members_eq)
      (simp add: ordered_def sorted_union_matches_iff)
  then have "mi_replicas idx = set_replica_ids s"
    using idx by (intro ordered_unique) (simp_all add: set_replica_ids_def union_node_ids_def)
  with m StableMembership show ?thesis
    by (cases idx) (simp add: MembershipIndex_stable_def Let_def)
next
  case (JointMembershipConfig j)
  with assms show ?thesis by simp
qed

section \<open>Acknowledgement sets hold member nodes\<close>

definition ack_wf :: "AcknowledgementSet \<Rightarrow> bool" where
  "ack_wf a \<longleftrightarrow> index_shape (ack_index a) \<and>
     slots_within (length (mi_replicas (ack_index a))) (ack_slots a)"

definition acked :: "AcknowledgementSet \<Rightarrow> NodeId \<Rightarrow> bool" where
  "acked a n = (case mi_slot (ack_index a) n of
     None \<Rightarrow> False
   | Some slot \<Rightarrow> SlotSet_contains (ack_slots a) slot)"

lemma acked_nth:
  "ack_wf a \<Longrightarrow> j < length (mi_replicas (ack_index a)) \<Longrightarrow>
   acked a (mi_replicas (ack_index a) ! j) \<longleftrightarrow> SlotSet_contains (ack_slots a) j"
  using slot_of_Some_iff [of "mi_replicas (ack_index a)" "mi_replicas (ack_index a) ! j" j]
  by (simp add: acked_def mi_slot_def ack_wf_def index_shape_def)

lemma acked_member: "ack_wf a \<Longrightarrow> acked a n \<Longrightarrow> n \<in> set (mi_replicas (ack_index a))"
  by (auto simp: acked_def mi_slot_def ack_wf_def index_shape_def slot_of_Some_iff
      split: option.splits)

lemma acked_image:
  assumes "ack_wf a"
  shows "acked a n \<longleftrightarrow> n \<in> nth (mi_replicas (ack_index a)) `
    set (SlotSet_iter (ack_slots a) (length (mi_replicas (ack_index a))))"
  using acked_member [OF assms, of n] acked_nth [OF assms]
  by (auto simp: packed.set_iter image_iff in_set_conv_nth)

lemma ack_wf_default: "ack_wf AcknowledgementSet_default"
  by (simp add: ack_wf_def AcknowledgementSet_default_def index_shape_default)
    (simp add: slots_within_def MembershipIndex_default_def)

lemma ack_wf_new: "small_config m \<Longrightarrow> ack_wf (AcknowledgementSet_new m self_id)"
  by (simp add: ack_wf_def AcknowledgementSet_new_def Let_def index_shape_new slots_within_empty)

lemma acked_default [simp]: "\<not> acked AcknowledgementSet_default n"
  by (auto simp: acked_def AcknowledgementSet_default_def split: option.splits)

lemma acked_new [simp]: "\<not> acked (AcknowledgementSet_new m self_id) n"
  by (auto simp: acked_def AcknowledgementSet_new_def Let_def packed.contains_empty split: option.splits)

lemma ack_wf_clear: "ack_wf a \<Longrightarrow> ack_wf (ack_clear a)"
  by (simp add: ack_wf_def ack_clear_def slots_within_empty)

lemma acked_clear [simp]: "\<not> acked (ack_clear a) n"
  by (auto simp: acked_def ack_clear_def packed.contains_empty split: option.splits)

lemma fold_carry_ack:
  "(\<And>j. j \<in> set js \<Longrightarrow> j < length (mi_replicas idx)) \<Longrightarrow>
   fold (carry_ack idx nxt) js s =
     fold (insert_node_slot (mi_replicas nxt)) (map (nth (mi_replicas idx)) js) s"
  by (induction js arbitrary: s)
    (simp_all add: carry_ack_def insert_node_slot_def get_def mi_slot_def)

lemma ack_refresh:
  assumes a: "ack_wf a" and m: "membership_wf m" "small_config m"
  shows "ack_wf (ack_refresh a m self_id) \<and>
    ack_index (ack_refresh a m self_id) = MembershipIndex_new m self_id \<and>
    (acked (ack_refresh a m self_id) n \<longleftrightarrow> acked a n \<and> n \<in> set (replica_ids m))"
proof (cases "ack_index a = MembershipIndex_new m self_id")
  case True
  then have "acked a n \<Longrightarrow> n \<in> set (replica_ids m)"
    using acked_member [OF a] by simp
  with True a show ?thesis by (auto simp: ack_refresh_def)
next
  case False
  let ?nxt = "MembershipIndex_new m self_id" and ?rs = "mi_replicas (ack_index a)"
  from False a m mi_matches_exact have "\<not> mi_matches (ack_index a) m self_id"
    by (auto simp: ack_wf_def)
  with False have r: "ack_refresh a m self_id = \<lparr>ack_index = ?nxt,
      ack_slots = fold (insert_node_slot (replica_ids m))
        (map (nth ?rs) (SlotSet_iter (ack_slots a) (length ?rs)))
        (SlotSet_empty (length (replica_ids m)))\<rparr>"
    using fold_carry_ack [of "SlotSet_iter (ack_slots a) (length ?rs)" "ack_index a" ?nxt]
    by (simp add: ack_refresh_def Let_def packed.set_iter)
  have wf: "ack_wf (ack_refresh a m self_id)"
    using m by (simp add: r ack_wf_def index_shape_new slots_within_fold_node_slots
        slots_within_empty small_config_def)
  have "SlotSet_contains (ack_slots (ack_refresh a m self_id)) j \<longleftrightarrow> acked a (replica_ids m ! j)"
    if "j < length (replica_ids m)" for j
    unfolding acked_image [OF a] using m that
    by (simp add: r contains_fold_node_slots packed.contains_empty small_config_def)
  then have "acked (ack_refresh a m self_id) n \<longleftrightarrow> acked a n" if "n \<in> set (replica_ids m)"
    using that acked_nth [OF wf] by (auto simp: r in_set_conv_nth)
  moreover have "acked (ack_refresh a m self_id) n \<Longrightarrow> n \<in> set (replica_ids m)"
    using acked_member [OF wf] by (simp add: r)
  ultimately show ?thesis using wf r by auto
qed

lemma ack_insert:
  assumes "ack_wf a" "membership_wf m" "small_config m"
  shows "ack_wf (ack_insert a v m self_id) \<and>
    (acked (ack_insert a v m self_id) n \<longleftrightarrow> (acked a n \<or> n = v) \<and> n \<in> set (replica_ids m))"
proof -
  let ?r = "ack_refresh a m self_id"
  note r = ack_refresh [OF assms, of self_id]
  from r have rs: "mi_replicas (ack_index ?r) = replica_ids m" and wf: "ack_wf ?r" by simp_all
  show ?thesis
  proof (cases "mi_slot (ack_index ?r) v")
    case None
    then have "v \<notin> set (replica_ids m)" by (simp add: mi_slot_def rs slot_of_None_iff)
    moreover have "ack_insert a v m self_id = ?r" using None by (simp add: ack_insert_def Let_def)
    ultimately show ?thesis using r by metis
  next
    case (Some slot)
    then have slot: "slot < length (replica_ids m)" "replica_ids m ! slot = v"
      by (simp_all add: mi_slot_def rs slot_of_Some_iff)
    let ?i = "?r\<lparr>ack_slots := SlotSet_insert (ack_slots ?r) slot\<rparr>"
    have wf': "ack_wf ?i"
      using wf slot rs assms(3)
      by (simp add: ack_wf_def slots_within_insert small_config_def small_nodes_def)
    have "acked ?i n \<longleftrightarrow> n = v \<or> acked ?r n"
    proof (cases "slot_of (replica_ids m) n")
      case None
      then have "n \<noteq> v" using slot by (auto simp: slot_of_None_iff)
      with None show ?thesis by (simp add: acked_def mi_slot_def rs)
    next
      case (Some k)
      then have "k = slot \<longleftrightarrow> n = v"
        using slot by (auto simp: slot_of_Some_iff ordered_nth_eq)
      moreover have "slot_bounded slot"
        using slot assms(3) by (simp add: small_config_def small_nodes_def)
      ultimately show ?thesis
        using Some packed.contains_insert [of slot "ack_slots ?r" k]
        by (auto simp: acked_def mi_slot_def rs)
    qed
    moreover have "ack_insert a v m self_id = ?i" using Some by (simp add: ack_insert_def Let_def)
    moreover have "v \<in> set (replica_ids m)" using slot nth_mem by blast
    moreover have "acked ?r n \<longleftrightarrow> acked a n \<and> n \<in> set (replica_ids m)" using r by blast
    ultimately show ?thesis using wf' by metis
  qed
qed

lemma ack_has_quorum_with_self:
  assumes "ack_wf a" "membership_wf m" "small_config m" and ns: "\<And>n. acked a n \<longleftrightarrow> n \<in> set ns"
  shows "snd (ack_has_quorum_with_self a m self_id) \<longleftrightarrow> has_quorum m (self_id # ns)"
proof -
  let ?r = "ack_refresh a m self_id"
  note r = ack_refresh [OF assms(1-3), of self_id]
  have rs: "mi_replicas (ack_index ?r) = replica_ids m" and wf: "ack_wf ?r" using r by simp_all
  have "SlotSet_contains (ack_slots ?r) j \<or> Some j = slot_of (replica_ids m) self_id \<longleftrightarrow>
      replica_ids m ! j \<in> set (self_id # ns)" if j: "j < length (replica_ids m)" for j
  proof -
    have "slot_of (replica_ids m) (replica_ids m ! j) = Some j" using j by (simp add: slot_of_Some_iff)
    then have "SlotSet_contains (ack_slots ?r) j \<longleftrightarrow> acked ?r (replica_ids m ! j)"
      by (simp add: acked_def mi_slot_def rs)
    also have "\<dots> \<longleftrightarrow> replica_ids m ! j \<in> set ns" using r j ns by simp
    finally show ?thesis using j slot_of_Some_iff [of "replica_ids m" self_id j] by (auto dest: sym)
  qed
  from index_quorum_iff [OF assms(2,3) this, of self_id]
  have "has_quorum_slots_with_self (MembershipIndex_new m self_id) (ack_slots ?r) \<longleftrightarrow>
      has_quorum m (self_id # ns)"
    by (cases m) (simp_all add: MembershipIndex_stable_def Let_def)
  with r show ?thesis by (simp add: ack_has_quorum_with_self_def Let_def)
qed

section \<open>Properties\<close>

text \<open>
  C36. The slot-based quorum test of a membership index built for a configuration answers exactly
  as the reference definition on node sets, for stable and joint configurations and for any
  acknowledging nodes, members or not.
\<close>

theorem membership_index_quorum_exact:
  assumes "membership_wf m" "small_config m"
  shows "mi_has_quorum (MembershipIndex_new m self_id) acks \<longleftrightarrow> has_quorum m acks"
  using assms by (rule mi_has_quorum_new)

theorem membership_index_quorum_exact_witness:
  "mi_has_quorum (MembershipIndex_new (JointMembershipConfig
      \<lparr>old_membership = \<lparr>voters = [1, 2, 3], learners = [4]\<rparr>,
       new_membership = \<lparr>voters = [3, 4, 5], learners = []\<rparr>\<rparr>) 1) [3, 4, 1, 9]"
proof -
  let ?m = "JointMembershipConfig \<lparr>old_membership = \<lparr>voters = [1, 2, 3], learners = [4]\<rparr>,
    new_membership = \<lparr>voters = [3, 4, 5], learners = []\<rparr>\<rparr>"
  have "membership_wf ?m" by (simp add: membership_set_wf_def ordered_def)
  moreover have "small_config ?m"
    by (simp add: small_config_def small_nodes_def set_replica_ids_def union_node_ids_def
        btree_set_def u64_max_def)
  moreover have "has_quorum ?m [3, 4, 1, 9]" by code_simp
  ultimately show ?thesis
    using membership_index_quorum_exact [of ?m 1 "[3, 4, 1, 9]"] by blast
qed

text \<open>
  An acknowledgement set is the set of acknowledging members, across changes of membership:
  inserting under a configuration adds the node when it is a replica and drops the nodes the
  configuration no longer contains, and the quorum test counts exactly those nodes and the
  local one.
\<close>

theorem acknowledgement_set_refines:
  assumes "ack_wf a" "membership_wf m" "small_config m"
    and "\<And>n. acked a n \<longleftrightarrow> n \<in> set ns"
  shows "ack_wf (ack_insert a v m self_id) \<and>
    (acked (ack_insert a v m self_id) n \<longleftrightarrow> (n = v \<or> n \<in> set ns) \<and> contains_replica m n) \<and>
    (snd (ack_has_quorum_with_self a m self_id) \<longleftrightarrow> has_quorum m (self_id # ns)) \<and>
    \<not> acked (ack_clear a) n"
  using ack_insert [OF assms(1-3), of v self_id n] ack_has_quorum_with_self [OF assms] assms(4)
  by (auto simp: set_replica_ids)

theorem acknowledgement_set_refines_witness:
  "acked (ack_insert AcknowledgementSet_default 2
      (StableMembership \<lparr>voters = [1, 2, 3], learners = []\<rparr>) 1) 2"
  using acknowledgement_set_refines [of AcknowledgementSet_default
      "StableMembership \<lparr>voters = [1, 2, 3], learners = []\<rparr>" "[]" 2 1 2, OF ack_wf_default]
  by (simp add: ack_wf_default membership_set_wf_def ordered_def contains_replica_def
      small_config_def small_nodes_def set_replica_ids_def union_node_ids_def btree_set_def u64_max_def)

end
