(* ===== verification/Progress.thy ===== *)
theory Progress
  imports Membership_Index
begin

text \<open>
  \<open>crates/rafter/src/node/state/progress.rs\<close> and \<open>membership/progress.rs\<close>: how far each replica
  has acknowledged the leader's log, its bounded window of outstanding batches, and the table
  of all replicas that follows changes of membership. \<open>get_mut\<close> followed by an assignment is
  \<open>ps_modify\<close> here.
\<close>

section \<open>Progress of one replica\<close>

datatype ProgressMode =
    Probe bool
  | Replicate
  | SnapshotMode u64

record InflightBatch =
  ib_last_index :: LogIndex
  ib_bytes :: usize

record Inflights =
  if_batches :: "InflightBatch list"
  if_bytes :: usize

record Progress =
  match_index :: LogIndex
  next_index :: LogIndex
  mode :: ProgressMode
  inflights :: Inflights

definition Inflights_default :: Inflights where
  "Inflights_default = \<lparr>if_batches = [], if_bytes = 0\<rparr>"

definition inflights_is_full :: "Inflights \<Rightarrow> usize \<Rightarrow> usize \<Rightarrow> bool" where
  "inflights_is_full fl max_batches max_bytes \<longleftrightarrow>
     max max_batches 1 \<le> length (if_batches fl) \<or>
     (if_batches fl \<noteq> [] \<and> max_bytes \<le> if_bytes fl)"

definition inflights_record :: "Inflights \<Rightarrow> LogIndex \<Rightarrow> usize \<Rightarrow> Inflights" where
  "inflights_record fl last_index bytes =
     \<lparr>if_batches = if_batches fl @ [\<lparr>ib_last_index = last_index, ib_bytes = bytes\<rparr>],
      if_bytes = sat_add (if_bytes fl) bytes\<rparr>"

fun free_batches :: "InflightBatch list \<Rightarrow> usize \<Rightarrow> LogIndex \<Rightarrow> Inflights" where
  "free_batches [] bytes m = \<lparr>if_batches = [], if_bytes = bytes\<rparr>"
| "free_batches (b # bs) bytes m =
     (if ib_last_index b > m then \<lparr>if_batches = b # bs, if_bytes = bytes\<rparr>
      else free_batches bs (sat_sub bytes (ib_bytes b)) m)"

definition inflights_free_through :: "Inflights \<Rightarrow> LogIndex \<Rightarrow> Inflights" where
  "inflights_free_through fl m = free_batches (if_batches fl) (if_bytes fl) m"

definition inflights_clear :: "Inflights \<Rightarrow> Inflights" where
  "inflights_clear fl = fl\<lparr>if_batches := [], if_bytes := 0\<rparr>"

definition Progress_probing :: "LogIndex \<Rightarrow> Progress" where
  "Progress_probing next_i =
     \<lparr>match_index = 0, next_index = next_i, mode = Probe False, inflights = Inflights_default\<rparr>"

definition Progress_local :: "LogIndex \<Rightarrow> Progress" where
  "Progress_local last_log =
     \<lparr>match_index = last_log, next_index = LogIndex_next last_log, mode = Replicate,
      inflights = Inflights_default\<rparr>"

definition collapse_into_probe :: "LogIndex \<Rightarrow> Progress \<Rightarrow> Progress" where
  "collapse_into_probe snapshot_index p =
     (let floor = max (LogIndex_next (match_index p)) snapshot_index in
      p\<lparr>next_index := max (sat_sub (next_index p) 1) floor,
        mode := Probe False,
        inflights := inflights_clear (inflights p)\<rparr>)"

definition confirm_replicating :: "Progress \<Rightarrow> Progress" where
  "confirm_replicating p =
     (if mode p \<noteq> Replicate
      then p\<lparr>mode := Replicate,
             inflights := inflights_clear (inflights p),
             next_index := max (next_index p) (LogIndex_next (match_index p))\<rparr>
      else p)"

section \<open>Progress of every replica\<close>

record ProgressSet =
  ps_index :: MembershipIndex
  ps_progress :: "Progress list"

definition ProgressSet_default :: ProgressSet where
  "ProgressSet_default = \<lparr>ps_index = MembershipIndex_default, ps_progress = []\<rparr>"

definition initial_progress :: "NodeId \<Rightarrow> LogIndex \<Rightarrow> LogIndex \<Rightarrow> NodeId \<Rightarrow> Progress" where
  "initial_progress self_id follower_next local_match replica =
     (if replica = self_id then Progress_local local_match else Progress_probing follower_next)"

definition ps_reset ::
    "ProgressSet \<Rightarrow> MembershipConfig \<Rightarrow> NodeId \<Rightarrow> LogIndex \<Rightarrow> LogIndex \<Rightarrow> ProgressSet" where
  "ps_reset ps m self_id follower_next local_match =
     (let idx = MembershipIndex_new m self_id in
      \<lparr>ps_index = idx,
       ps_progress = map (initial_progress self_id follower_next local_match) (mi_replicas idx)\<rparr>)"

definition apply_local_progress_floor :: "LogIndex \<Rightarrow> Progress \<Rightarrow> Progress" where
  "apply_local_progress_floor local_match p =
     p\<lparr>match_index := max (match_index p) local_match,
       next_index := max (next_index p) (LogIndex_next local_match)\<rparr>"

definition refresh_local_progress :: "ProgressSet \<Rightarrow> NodeId \<Rightarrow> LogIndex \<Rightarrow> ProgressSet" where
  "refresh_local_progress ps self_id local_match =
     (case mi_self_slot (ps_index ps) of
        None \<Rightarrow> ps
      | Some slot \<Rightarrow>
          if get (mi_replicas (ps_index ps)) slot = Some self_id then
            (case get (ps_progress ps) slot of
               None \<Rightarrow> ps
             | Some p \<Rightarrow>
                 ps\<lparr>ps_progress := (ps_progress ps)[slot := apply_local_progress_floor local_match p]\<rparr>)
          else ps)"

definition ps_get :: "ProgressSet \<Rightarrow> NodeId \<Rightarrow> Progress option" where
  "ps_get ps node_id = Option.bind (mi_slot (ps_index ps) node_id) (get (ps_progress ps))"

definition ps_contains :: "ProgressSet \<Rightarrow> NodeId \<Rightarrow> bool" where
  "ps_contains ps node_id \<longleftrightarrow> mi_slot (ps_index ps) node_id \<noteq> None"

definition ps_modify :: "ProgressSet \<Rightarrow> NodeId \<Rightarrow> (Progress \<Rightarrow> Progress) \<Rightarrow> ProgressSet" where
  "ps_modify ps node_id f =
     (case mi_slot (ps_index ps) node_id of
        None \<Rightarrow> ps
      | Some slot \<Rightarrow>
          (case get (ps_progress ps) slot of
             None \<Rightarrow> ps
           | Some p \<Rightarrow> ps\<lparr>ps_progress := (ps_progress ps)[slot := f p]\<rparr>))"

definition reconciled_progress ::
    "ProgressSet \<Rightarrow> NodeId \<Rightarrow> LogIndex \<Rightarrow> LogIndex \<Rightarrow> NodeId \<Rightarrow> Progress" where
  "reconciled_progress ps self_id first_sendable local_match replica =
     (let p = (case ps_get ps replica of
                 Some p \<Rightarrow> p
               | None \<Rightarrow> initial_progress self_id first_sendable local_match replica)
      in if replica = self_id then apply_local_progress_floor local_match p else p)"

definition reconcile_membership ::
    "ProgressSet \<Rightarrow> MembershipConfig \<Rightarrow> NodeId \<Rightarrow> LogIndex \<Rightarrow> LogIndex \<Rightarrow> ProgressSet" where
  "reconcile_membership ps m self_id first_sendable local_match =
     (if mi_matches (ps_index ps) m self_id \<and> length (ps_progress ps) = length (mi_replicas (ps_index ps))
      then refresh_local_progress ps self_id local_match
      else let next_idx = MembershipIndex_new m self_id in
        if ps_index ps = next_idx \<and> length (ps_progress ps) = length (mi_replicas next_idx)
        then refresh_local_progress ps self_id local_match
        else \<lparr>ps_index = next_idx,
              ps_progress = map (reconciled_progress ps self_id first_sendable local_match)
                (mi_replicas next_idx)\<rparr>)"

definition iter_followers :: "ProgressSet \<Rightarrow> (NodeId \<times> Progress) list" where
  "iter_followers ps =
     List.map_filter
       (\<lambda>(slot, node_id).
          if Some slot \<noteq> mi_self_slot (ps_index ps)
          then map_option (Pair node_id) (get (ps_progress ps) slot)
          else None)
       (enumerate 0 (mi_replicas (ps_index ps)))"

definition replica_count :: "ProgressSet \<Rightarrow> usize" where
  "replica_count ps = length (mi_replicas (ps_index ps))"

definition replica_id_at :: "ProgressSet \<Rightarrow> usize \<Rightarrow> NodeId option" where
  "replica_id_at ps slot = get (mi_replicas (ps_index ps)) slot"

definition match_indexes_for :: "ProgressSet \<Rightarrow> SlotSet \<Rightarrow> LogIndex list" where
  "match_indexes_for ps vs =
     map match_index (List.map_filter (get (ps_progress ps)) (SlotSet_iter vs (length (ps_progress ps))))"

section \<open>The window of outstanding batches\<close>

definition batch_sum :: "InflightBatch list \<Rightarrow> usize" where
  "batch_sum bs = sum_list (map ib_bytes bs)"

text \<open>The byte count is the sum of the recorded batches, as long as that sum is a machine word.\<close>

definition inflights_wf :: "Inflights \<Rightarrow> bool" where
  "inflights_wf fl \<longleftrightarrow> if_bytes fl = batch_sum (if_batches fl)"

lemma inflights_wf_default [simp]: "inflights_wf Inflights_default"
  by (simp add: inflights_wf_def Inflights_default_def batch_sum_def)

lemma inflights_wf_clear [simp]: "inflights_wf (inflights_clear fl)"
  by (simp add: inflights_wf_def inflights_clear_def batch_sum_def)

lemma inflights_wf_record:
  "inflights_wf fl \<Longrightarrow> batch_sum (if_batches fl) + bytes \<le> u64_max \<Longrightarrow>
   inflights_wf (inflights_record fl last_index bytes)"
  by (simp add: inflights_wf_def inflights_record_def batch_sum_def sat_add_def)

lemma free_batches_spec:
  "bytes = batch_sum bs \<Longrightarrow> free_batches bs bytes m =
   \<lparr>if_batches = dropWhile (\<lambda>b. ib_last_index b \<le> m) bs,
    if_bytes = batch_sum (dropWhile (\<lambda>b. ib_last_index b \<le> m) bs)\<rparr>"
  by (induction bs bytes m rule: free_batches.induct) (auto simp: batch_sum_def)

lemma free_batches_batches:
  "if_batches (free_batches bs bytes m) = dropWhile (\<lambda>b. ib_last_index b \<le> m) bs"
  by (induction bs bytes m rule: free_batches.induct) auto

lemma inflights_wf_free: "inflights_wf fl \<Longrightarrow> inflights_wf (inflights_free_through fl m)"
  by (simp add: inflights_wf_def inflights_free_through_def free_batches_spec)

section \<open>The table of replicas\<close>

definition ps_wf :: "ProgressSet \<Rightarrow> bool" where
  "ps_wf ps \<longleftrightarrow> index_shape (ps_index ps) \<and>
     length (ps_progress ps) = length (mi_replicas (ps_index ps))"

lemma ps_wf_default: "ps_wf ProgressSet_default"
  by (simp add: ps_wf_def ProgressSet_default_def index_shape_default MembershipIndex_default_def)
    (simp add: MembershipIndex_default_def [symmetric] index_shape_default)

lemma ps_index_modify [simp]: "ps_index (ps_modify ps k f) = ps_index ps"
  by (simp add: ps_modify_def split: option.splits)

lemma ps_wf_modify: "ps_wf ps \<Longrightarrow> ps_wf (ps_modify ps k f)"
  by (simp add: ps_wf_def ps_modify_def split: option.splits)

lemma ps_get_modify:
  assumes "ps_wf ps"
  shows "ps_get (ps_modify ps k f) k' = (if k' = k then map_option f (ps_get ps k) else ps_get ps k')"
proof (cases "Option.bind (mi_slot (ps_index ps) k) (get (ps_progress ps))")
  case None
  then have "ps_modify ps k f = ps" by (auto simp: ps_modify_def split: option.splits)
  with None show ?thesis by (simp add: ps_get_def)
next
  case (Some p)
  then obtain slot where slot: "mi_slot (ps_index ps) k = Some slot" "get (ps_progress ps) slot = Some p"
    by (cases "mi_slot (ps_index ps) k") auto
  have inj: "mi_slot (ps_index ps) k' = Some slot \<longleftrightarrow> k' = k"
    using slot(1) assms by (auto simp: mi_slot_def slot_of_Some_iff ps_wf_def index_shape_def)
  have "ps_modify ps k f = ps\<lparr>ps_progress := (ps_progress ps)[slot := f p]\<rparr>"
    using slot by (simp add: ps_modify_def)
  with slot inj show ?thesis
    by (cases "mi_slot (ps_index ps) k'")
      (auto simp: ps_get_def get_list_update get_Some_iff get_def)
qed

interpretation progress_store: keyed_store ps_wf ps_get ps_modify
  by unfold_locales (simp_all add: ps_wf_modify ps_get_modify)

lemma ps_get_nth:
  "ps_wf ps \<Longrightarrow> j < length (ps_progress ps) \<Longrightarrow>
   ps_get ps (mi_replicas (ps_index ps) ! j) = Some (ps_progress ps ! j)"
  using slot_of_Some_iff [of "mi_replicas (ps_index ps)" "mi_replicas (ps_index ps) ! j" j]
  by (simp add: ps_get_def ps_wf_def index_shape_def mi_slot_def get_def)

lemma ps_get_defined_iff:
  assumes "ps_wf ps"
  shows "(\<exists>p. ps_get ps n = Some p) \<longleftrightarrow> n \<in> set (mi_replicas (ps_index ps))"
proof
  assume "\<exists>p. ps_get ps n = Some p"
  with assms show "n \<in> set (mi_replicas (ps_index ps))"
    by (auto simp: ps_get_def mi_slot_def ps_wf_def index_shape_def slot_of_Some_iff bind_eq_Some_conv)
next
  assume "n \<in> set (mi_replicas (ps_index ps))"
  with assms show "\<exists>p. ps_get ps n = Some p"
    using ps_get_nth by (auto simp: in_set_conv_nth ps_wf_def)
qed

lemma ps_contains_iff: "ps_wf ps \<Longrightarrow> ps_contains ps n \<longleftrightarrow> n \<in> set (mi_replicas (ps_index ps))"
  by (simp add: ps_contains_def mi_slot_def ps_wf_def index_shape_def slot_of_None_iff
      del: not_None_eq)

lemma ps_wf_reset: "small_config m \<Longrightarrow> ps_wf (ps_reset ps m self_id nxt lm)"
  by (simp add: ps_wf_def ps_reset_def Let_def index_shape_new)

lemma ps_index_reset [simp]: "ps_index (ps_reset ps m self_id nxt lm) = MembershipIndex_new m self_id"
  by (simp add: ps_reset_def Let_def)

lemma ps_get_map_replicas:
  assumes "ordered rs" "mi_replicas idx = rs"
  shows "ps_get \<lparr>ps_index = idx, ps_progress = map g rs\<rparr> n = (if n \<in> set rs then Some (g n) else None)"
proof (cases "slot_of rs n")
  case None
  moreover from this have "n \<notin> set rs" using assms by (simp add: slot_of_None_iff)
  ultimately show ?thesis using assms by (simp add: ps_get_def mi_slot_def)
next
  case (Some j)
  moreover from this have "j < length rs" "rs ! j = n" using assms by (simp_all add: slot_of_Some_iff)
  ultimately show ?thesis using assms by (auto simp: ps_get_def mi_slot_def get_def)
qed

lemma ps_get_reset:
  "ps_get (ps_reset ps m self_id nxt lm) n =
     (if n \<in> set (replica_ids m) then Some (initial_progress self_id nxt lm n) else None)"
  by (simp add: ps_reset_def Let_def ps_get_map_replicas)

lemma refresh_local_progress_modify:
  assumes "mi_self_slot (ps_index ps) = slot_of (mi_replicas (ps_index ps)) self_id"
    and "ordered (mi_replicas (ps_index ps))"
  shows "refresh_local_progress ps self_id lm = ps_modify ps self_id (apply_local_progress_floor lm)"
proof (cases "slot_of (mi_replicas (ps_index ps)) self_id")
  case None
  with assms(1) show ?thesis by (simp add: refresh_local_progress_def ps_modify_def mi_slot_def)
next
  case (Some slot)
  then have "get (mi_replicas (ps_index ps)) slot = Some self_id"
    using slot_of_Some_iff [OF assms(2)] by (simp add: get_def)
  with Some assms(1) show ?thesis by (simp add: refresh_local_progress_def ps_modify_def mi_slot_def)
qed

lemma ps_index_refresh_local [simp]: "ps_index (refresh_local_progress ps self_id lm) = ps_index ps"
  by (simp add: refresh_local_progress_def split: option.splits)

text \<open>
  Reconciling keeps the progress of every replica that stays, starts a new replica as a probe,
  drops the replicas that left and raises the leader's own entry to its log.
\<close>

lemma reconcile_membership:
  assumes "ps_wf ps" "membership_wf m" "small_config m"
  shows "ps_wf (reconcile_membership ps m self_id fs lm) \<and>
    ps_index (reconcile_membership ps m self_id fs lm) = MembershipIndex_new m self_id \<and>
    ps_get (reconcile_membership ps m self_id fs lm) n =
      (if n \<in> set (replica_ids m) then Some (reconciled_progress ps self_id fs lm n) else None)"
proof (cases "ps_index ps = MembershipIndex_new m self_id")
  case True
  then have "reconcile_membership ps m self_id fs lm = ps_modify ps self_id (apply_local_progress_floor lm)"
    using assms(1)
    by (simp add: reconcile_membership_def Let_def refresh_local_progress_modify ps_wf_def)
  moreover have "(\<exists>p. ps_get ps n = Some p) \<longleftrightarrow> n \<in> set (replica_ids m)"
    using ps_get_defined_iff [OF assms(1)] True by simp
  ultimately show ?thesis
    using assms(1) True
    by (auto simp: ps_wf_modify ps_get_modify reconciled_progress_def Let_def)
next
  case False
  with assms mi_matches_exact have "\<not> mi_matches (ps_index ps) m self_id"
    by (auto simp: ps_wf_def)
  with False have "reconcile_membership ps m self_id fs lm =
      \<lparr>ps_index = MembershipIndex_new m self_id,
       ps_progress = map (reconciled_progress ps self_id fs lm) (replica_ids m)\<rparr>"
    by (simp add: reconcile_membership_def Let_def)
  then show ?thesis
    using assms(3) by (simp add: ps_wf_def index_shape_new ps_get_map_replicas)
qed

text \<open>The match indexes collected for a voter set are those of the voters, in order.\<close>

lemma map_filter_get: "(\<And>j. j \<in> set js \<Longrightarrow> j < length xs) \<Longrightarrow> List.map_filter (get xs) js = map (nth xs) js"
  by (induction js) (simp_all add: List.map_filter_simps get_def)

lemma filter_slots_nodes:
  assumes "ordered rs" "ordered vs" "set vs \<subseteq> set rs"
  shows "map (nth rs) (filter (\<lambda>j. rs ! j \<in> set vs) [0..<length rs]) = vs"
proof (rule ordered_unique)
  have "map (nth rs) (filter (\<lambda>j. rs ! j \<in> set vs) [0..<length rs]) =
      filter (\<lambda>n. n \<in> set vs) (map (nth rs) [0..<length rs])"
    by (simp add: filter_map comp_def)
  then have eq: "map (nth rs) (filter (\<lambda>j. rs ! j \<in> set vs) [0..<length rs]) = filter (\<lambda>n. n \<in> set vs) rs"
    by (simp add: map_nth)
  show "ordered (map (nth rs) (filter (\<lambda>j. rs ! j \<in> set vs) [0..<length rs]))"
    unfolding eq using assms(1) by (simp add: ordered_def sorted_wrt_filter)
  show "set (map (nth rs) (filter (\<lambda>j. rs ! j \<in> set vs) [0..<length rs])) = set vs"
    unfolding eq using assms(3) by auto
qed (rule assms)

definition match_of :: "ProgressSet \<Rightarrow> NodeId \<Rightarrow> LogIndex" where
  "match_of ps n = (case ps_get ps n of Some p \<Rightarrow> match_index p | None \<Rightarrow> 0)"

lemma match_indexes_for_voters:
  assumes "ps_wf ps" "ordered vs" "set vs \<subseteq> set (mi_replicas (ps_index ps))"
  shows "match_indexes_for ps (slot_set_for (mi_replicas (ps_index ps)) vs) = map (match_of ps) vs"
proof -
  let ?rs = "mi_replicas (ps_index ps)"
  have rs: "ordered ?rs" "small_nodes ?rs" "length (ps_progress ps) = length ?rs"
    using assms(1) by (simp_all add: ps_wf_def index_shape_def)
  let ?js = "SlotSet_iter (slot_set_for ?rs vs) (length ?rs)"
  have js: "?js = filter (\<lambda>j. ?rs ! j \<in> set vs) [0..<length ?rs]"
    using rs by (auto simp: packed.iter_filter contains_slot_set_for intro: filter_cong)
  have "match_indexes_for ps (slot_set_for ?rs vs) = map (match_index \<circ> nth (ps_progress ps)) ?js"
    using map_filter_get [of ?js "ps_progress ps"] by (simp add: match_indexes_for_def rs packed.set_iter)
  also have "\<dots> = map (match_of ps \<circ> nth ?rs) ?js"
    using ps_get_nth [OF assms(1)] rs by (auto simp: match_of_def packed.set_iter)
  also have "\<dots> = map (match_of ps) (map (nth ?rs) ?js)" by simp
  also have "\<dots> = map (match_of ps) vs"
    using filter_slots_nodes [OF rs(1) assms(2,3)] by (simp add: js)
  finally show ?thesis .
qed

lemma map_filter_get_pairs:
  "length ps = length rs \<Longrightarrow>
   List.map_filter (\<lambda>(slot, n). if P slot then map_option (Pair n) (get ps slot) else None) (enumerate 0 rs) =
   map (\<lambda>j. (rs ! j, ps ! j)) (filter P [0..<length rs])"
proof -
  assume len: "length ps = length rs"
  have "enumerate 0 rs = map (\<lambda>j. (j, rs ! j)) [0..<length rs]"
    by (rule nth_equalityI) (simp_all add: nth_enumerate_eq)
  moreover have "List.map_filter (\<lambda>(slot, n). if P slot then map_option (Pair n) (get ps slot) else None)
      (map (\<lambda>j. (j, rs ! j)) js) = map (\<lambda>j. (rs ! j, ps ! j)) (filter P js)"
    if "\<forall>j\<in>set js. j < length rs" for js
    using that len by (induction js) (auto simp: List.map_filter_simps get_def)
  ultimately show ?thesis by simp
qed

lemma iter_followers_set:
  assumes "ps_wf ps" "mi_self_slot (ps_index ps) = slot_of (mi_replicas (ps_index ps)) self_id"
  shows "(n, p) \<in> set (iter_followers ps) \<longleftrightarrow> n \<noteq> self_id \<and> ps_get ps n = Some p"
proof -
  let ?rs = "mi_replicas (ps_index ps)"
  have rs: "ordered ?rs" "length (ps_progress ps) = length ?rs"
    using assms(1) by (simp_all add: ps_wf_def index_shape_def)
  have "Some j \<noteq> mi_self_slot (ps_index ps) \<longleftrightarrow> ?rs ! j \<noteq> self_id" if "j < length ?rs" for j
    using slot_of_Some_iff [OF rs(1), of self_id j] that assms(2) by (auto dest: sym)
  then have "(n, p) \<in> set (iter_followers ps) \<longleftrightarrow>
      (\<exists>j<length ?rs. ?rs ! j \<noteq> self_id \<and> n = ?rs ! j \<and> p = ps_progress ps ! j)"
    by (auto simp: iter_followers_def map_filter_get_pairs [OF rs(2)])
  also have "\<dots> \<longleftrightarrow> n \<noteq> self_id \<and> ps_get ps n = Some p"
    using ps_get_nth [OF assms(1)] ps_get_defined_iff [OF assms(1), of n] rs(2)
    by (auto simp: in_set_conv_nth)
  finally show ?thesis .
qed

end
