(* ===== verification/Node_Config.thy ===== *)
theory Node_Config
  imports Membership
begin

text \<open>
  \<open>crates/rafter/src/node/config/*.rs\<close>: the static configuration of a node, its constructors
  and the effective values of its timing options and features.
\<close>

section \<open>Data\<close>

record RequestedFeatures =
  rf_pre_vote :: bool
  rf_check_quorum :: bool
  rf_lease_reads :: bool

record EffectiveFeatures =
  ef_pre_vote :: bool
  ef_check_quorum :: bool
  ef_lease_reads :: bool

record NodeConfig =
  nc_id :: NodeId
  peers :: "NodeId list"
  static_voters :: "NodeId list"
  static_membership :: MembershipConfig
  election_timeout_ticks :: u64
  election_jitter_ticks :: u64
  requested_heartbeat_interval_ticks :: u64
  max_append_entries_bytes :: usize
  max_inflight_appends :: usize
  max_inflight_bytes :: usize
  requested_features :: RequestedFeatures

datatype NodeConfigError =
    ConfigEmptyVoters
  | SelfPeer NodeId
  | DuplicatePeer NodeId
  | ZeroElectionTimeout

definition DEFAULT_MAX_APPEND_ENTRIES_BYTES :: usize where
  "DEFAULT_MAX_APPEND_ENTRIES_BYTES = 512 * 1024"

definition DEFAULT_MAX_INFLIGHT_APPENDS :: usize where
  "DEFAULT_MAX_INFLIGHT_APPENDS = 8"

definition DEFAULT_MAX_INFLIGHT_BYTES :: usize where
  "DEFAULT_MAX_INFLIGHT_BYTES = DEFAULT_MAX_INFLIGHT_APPENDS * DEFAULT_MAX_APPEND_ENTRIES_BYTES"

definition DEFAULT_HEARTBEAT_INTERVAL_TICKS :: u64 where
  "DEFAULT_HEARTBEAT_INTERVAL_TICKS = 1"

definition MIN_CHECK_QUORUM_ELECTION_TIMEOUT_TICKS :: u64 where
  "MIN_CHECK_QUORUM_ELECTION_TIMEOUT_TICKS = 2"

section \<open>Construction\<close>

definition RequestedFeatures_default :: RequestedFeatures where
  "RequestedFeatures_default =
     \<lparr>rf_pre_vote = True, rf_check_quorum = True, rf_lease_reads = False\<rparr>"

definition validate_election_timeout :: "u64 \<Rightarrow> NodeConfigError + unit" where
  "validate_election_timeout t = (if t = 0 then Inl ZeroElectionTimeout else Inr ())"

fun validate_peers_from :: "NodeId list \<Rightarrow> NodeId \<Rightarrow> NodeId list \<Rightarrow> NodeConfigError + unit" where
  "validate_peers_from seen self_id [] = Inr ()"
| "validate_peers_from seen self_id (peer # ps) =
     (if peer = self_id then Inl (SelfPeer self_id)
      else if peer \<in> set seen then Inl (DuplicatePeer peer)
      else validate_peers_from (btree_insert peer seen) self_id ps)"

definition validate_peers :: "NodeId \<Rightarrow> NodeId list \<Rightarrow> NodeConfigError + unit" where
  "validate_peers self_id ps = validate_peers_from [] self_id ps"

definition static_membership_of :: "NodeId list \<Rightarrow> NodeConfigError + MembershipConfig" where
  "static_membership_of vs =
     (case MembershipSet_new vs [] of
        Inl _ \<Rightarrow> Inl ConfigEmptyVoters
      | Inr m \<Rightarrow> Inr (StableMembership m))"

definition from_validated_membership ::
    "NodeId \<Rightarrow> NodeId list \<Rightarrow> NodeId list \<Rightarrow> MembershipConfig \<Rightarrow> u64 \<Rightarrow> NodeConfig" where
  "from_validated_membership self_id ps vs m timeout =
     \<lparr>nc_id = self_id, peers = ps, static_voters = vs, static_membership = m,
      election_timeout_ticks = timeout, election_jitter_ticks = 0,
      requested_heartbeat_interval_ticks = DEFAULT_HEARTBEAT_INTERVAL_TICKS,
      max_append_entries_bytes = DEFAULT_MAX_APPEND_ENTRIES_BYTES,
      max_inflight_appends = DEFAULT_MAX_INFLIGHT_APPENDS,
      max_inflight_bytes = DEFAULT_MAX_INFLIGHT_BYTES,
      requested_features = RequestedFeatures_default\<rparr>"

definition NodeConfig_new :: "NodeId \<Rightarrow> NodeId list \<Rightarrow> u64 \<Rightarrow> NodeConfigError + NodeConfig" where
  "NodeConfig_new self_id ps timeout =
     (case validate_election_timeout timeout of
        Inl e \<Rightarrow> Inl e
      | Inr _ \<Rightarrow>
          (case validate_peers self_id ps of
             Inl e \<Rightarrow> Inl e
           | Inr _ \<Rightarrow>
               (case static_membership_of (self_id # ps) of
                  Inl e \<Rightarrow> Inl e
                | Inr m \<Rightarrow> Inr (from_validated_membership self_id ps (self_id # ps) m timeout))))"

definition NodeConfig_new_non_voter ::
    "NodeId \<Rightarrow> NodeId list \<Rightarrow> u64 \<Rightarrow> NodeConfigError + NodeConfig" where
  "NodeConfig_new_non_voter self_id vs timeout =
     (if vs = [] then Inl ConfigEmptyVoters
      else case validate_election_timeout timeout of
        Inl e \<Rightarrow> Inl e
      | Inr _ \<Rightarrow>
          (case validate_peers self_id vs of
             Inl e \<Rightarrow> Inl e
           | Inr _ \<Rightarrow>
               (case static_membership_of vs of
                  Inl e \<Rightarrow> Inl e
                | Inr m \<Rightarrow> Inr (from_validated_membership self_id vs vs m timeout))))"

section \<open>Options\<close>

definition with_max_append_entries_bytes :: "usize \<Rightarrow> NodeConfig \<Rightarrow> NodeConfig" where
  "with_max_append_entries_bytes v c = c\<lparr>max_append_entries_bytes := v\<rparr>"

definition with_max_inflight_appends :: "usize \<Rightarrow> NodeConfig \<Rightarrow> NodeConfig" where
  "with_max_inflight_appends v c = c\<lparr>max_inflight_appends := v\<rparr>"

definition with_max_inflight_bytes :: "usize \<Rightarrow> NodeConfig \<Rightarrow> NodeConfig" where
  "with_max_inflight_bytes v c = c\<lparr>max_inflight_bytes := v\<rparr>"

definition with_heartbeat_interval_ticks :: "u64 \<Rightarrow> NodeConfig \<Rightarrow> NodeConfig" where
  "with_heartbeat_interval_ticks v c = c\<lparr>requested_heartbeat_interval_ticks := v\<rparr>"

definition with_election_jitter_ticks :: "u64 \<Rightarrow> NodeConfig \<Rightarrow> NodeConfig" where
  "with_election_jitter_ticks v c = c\<lparr>election_jitter_ticks := v\<rparr>"

definition with_pre_vote :: "bool \<Rightarrow> NodeConfig \<Rightarrow> NodeConfig" where
  "with_pre_vote v c = c\<lparr>requested_features := (requested_features c)\<lparr>rf_pre_vote := v\<rparr>\<rparr>"

definition with_check_quorum :: "bool \<Rightarrow> NodeConfig \<Rightarrow> NodeConfig" where
  "with_check_quorum v c = c\<lparr>requested_features := (requested_features c)\<lparr>rf_check_quorum := v\<rparr>\<rparr>"

definition with_lease_reads :: "bool \<Rightarrow> NodeConfig \<Rightarrow> NodeConfig" where
  "with_lease_reads v c = c\<lparr>requested_features := (requested_features c)\<lparr>rf_lease_reads := v\<rparr>\<rparr>"

definition effective :: "RequestedFeatures \<Rightarrow> u64 \<Rightarrow> EffectiveFeatures" where
  "effective rf timeout =
     (let pre_vote = rf_pre_vote rf;
          check_quorum = (rf_check_quorum rf \<and> timeout \<ge> MIN_CHECK_QUORUM_ELECTION_TIMEOUT_TICKS);
          lease_reads = (rf_lease_reads rf \<and> pre_vote \<and> check_quorum)
      in \<lparr>ef_pre_vote = pre_vote, ef_check_quorum = check_quorum, ef_lease_reads = lease_reads\<rparr>)"

definition effective_features :: "NodeConfig \<Rightarrow> EffectiveFeatures" where
  "effective_features c = effective (requested_features c) (election_timeout_ticks c)"

definition pre_vote :: "NodeConfig \<Rightarrow> bool" where
  "pre_vote c = ef_pre_vote (effective_features c)"

definition check_quorum :: "NodeConfig \<Rightarrow> bool" where
  "check_quorum c = ef_check_quorum (effective_features c)"

definition lease_reads :: "NodeConfig \<Rightarrow> bool" where
  "lease_reads c = ef_lease_reads (effective_features c)"

definition heartbeat_interval_ticks :: "NodeConfig \<Rightarrow> u64" where
  "heartbeat_interval_ticks c =
     (let requested = max (requested_heartbeat_interval_ticks c) 1 in
      if check_quorum c
      then min requested (max (sat_sub (election_timeout_ticks c) 1) 1)
      else requested)"

definition read_lease_ticks :: "NodeConfig \<Rightarrow> u64" where
  "read_lease_ticks c = election_timeout_ticks c div 2"

definition config_quorum_size :: "NodeConfig \<Rightarrow> usize" where
  "config_quorum_size c = length (static_voters c) div 2 + 1"

section \<open>What the constructors guarantee\<close>

lemma validate_peers_from_Inr:
  "validate_peers_from seen self_id ps = Inr u \<longleftrightarrow>
     self_id \<notin> set ps \<and> distinct ps \<and> set ps \<inter> set seen = {}"
  by (induction seen self_id ps rule: validate_peers_from.induct) (auto simp: set_insort_insert)

lemma validate_peers_Inr: "validate_peers self_id ps = Inr u \<longleftrightarrow> self_id \<notin> set ps \<and> distinct ps"
  by (simp add: validate_peers_def validate_peers_from_Inr)

lemma static_membership_of_distinct:
  assumes "distinct vs" "vs \<noteq> []"
  shows "static_membership_of vs = Inr (StableMembership \<lparr>voters = sort vs, learners = []\<rparr>)"
proof -
  have "validate_unique vs k = Inr (sort vs)" "validate_unique [] k = Inr []" for k
    using assms(1) by (simp_all add: validate_unique_Inr_iff)
  with assms(2) show ?thesis
    by (simp add: static_membership_of_def MembershipSet_new_def sort_Nil_iff)
qed

definition config_wf :: "NodeConfig \<Rightarrow> bool" where
  "config_wf c \<longleftrightarrow> membership_wf (static_membership c) \<and> 0 < election_timeout_ticks c \<and>
     nc_id c \<notin> set (peers c) \<and> distinct (peers c)"

lemma config_wf_stable_sort:
  "distinct vs \<Longrightarrow> vs \<noteq> [] \<Longrightarrow> membership_wf (StableMembership \<lparr>voters = sort vs, learners = []\<rparr>)"
  by (simp add: membership_set_wf_def ordered_sort sort_Nil_iff)

lemma NodeConfig_new_Inr:
  "NodeConfig_new self_id ps timeout = Inr c \<longleftrightarrow>
     0 < timeout \<and> self_id \<notin> set ps \<and> distinct ps \<and>
     c = from_validated_membership self_id ps (self_id # ps)
           (StableMembership \<lparr>voters = sort (self_id # ps), learners = []\<rparr>) timeout"
proof (cases "validate_peers self_id ps")
  case (Inl e)
  then have "\<not> (self_id \<notin> set ps \<and> distinct ps)" using validate_peers_Inr [of self_id ps "()"] by auto
  with Inl show ?thesis by (auto simp: NodeConfig_new_def validate_election_timeout_def)
next
  case (Inr u)
  then have "self_id \<notin> set ps \<and> distinct ps" by (simp add: validate_peers_Inr)
  with Inr show ?thesis
    using static_membership_of_distinct [of "self_id # ps"]
    by (auto simp: NodeConfig_new_def validate_election_timeout_def)
qed

lemma NodeConfig_new_wf: "NodeConfig_new self_id ps timeout = Inr c \<Longrightarrow> config_wf c"
  using config_wf_stable_sort [of "self_id # ps"]
  by (auto simp: NodeConfig_new_Inr config_wf_def from_validated_membership_def)

section \<open>Properties\<close>

text \<open>
  Whatever options are set on a constructed configuration, the effective heartbeat
  interval is positive, is at most the requested one (or one tick), and stays below the
  election timeout whenever check-quorum is in effect; lease reads are effective only
  together with pre-vote and check-quorum; and the lease window is at most half the
  election timeout.
\<close>

theorem effective_timing_safe:
  assumes "0 < election_timeout_ticks c"
  shows "0 < heartbeat_interval_ticks c \<and>
    heartbeat_interval_ticks c \<le> max (requested_heartbeat_interval_ticks c) 1 \<and>
    (check_quorum c \<longrightarrow> heartbeat_interval_ticks c < election_timeout_ticks c) \<and>
    (lease_reads c \<longrightarrow> pre_vote c \<and> check_quorum c) \<and>
    2 * read_lease_ticks c \<le> election_timeout_ticks c"
  using assms
  by (auto simp: heartbeat_interval_ticks_def read_lease_ticks_def check_quorum_def pre_vote_def
      lease_reads_def effective_features_def effective_def Let_def
      MIN_CHECK_QUORUM_ELECTION_TIMEOUT_TICKS_def)

theorem effective_timing_safe_witness:
  "heartbeat_interval_ticks (with_heartbeat_interval_ticks 50
     (from_validated_membership 1 [2] [1, 2] (StableMembership \<lparr>voters = [1, 2], learners = []\<rparr>) 10)) < 10"
proof -
  let ?c = "with_heartbeat_interval_ticks 50
     (from_validated_membership 1 [2] [1, 2] (StableMembership \<lparr>voters = [1, 2], learners = []\<rparr>) 10)"
  have t: "election_timeout_ticks ?c = 10" and "check_quorum ?c"
    by (simp_all add: with_heartbeat_interval_ticks_def from_validated_membership_def check_quorum_def
        effective_features_def effective_def RequestedFeatures_default_def
        MIN_CHECK_QUORUM_ELECTION_TIMEOUT_TICKS_def)
  with effective_timing_safe [of ?c] show ?thesis by simp
qed

text \<open>
  A configuration is built exactly when the timeout is positive and the peers are distinct
  and do not name the node itself; its static membership is then the well-formed stable
  configuration of the node and its peers, without learners.
\<close>

theorem node_config_construction:
  "case NodeConfig_new self_id ps timeout of
     Inl e \<Rightarrow> \<not> (0 < timeout \<and> self_id \<notin> set ps \<and> distinct ps)
   | Inr c \<Rightarrow> 0 < timeout \<and> self_id \<notin> set ps \<and> distinct ps \<and>
       config_wf c \<and> nc_id c = self_id \<and>
       set (voter_ids (static_membership c)) = insert self_id (set ps)"
proof (cases "NodeConfig_new self_id ps timeout")
  case (Inl e)
  then show ?thesis using NodeConfig_new_Inr [of self_id ps timeout] by fastforce
next
  case (Inr c)
  then have "static_membership c = StableMembership \<lparr>voters = sort (self_id # ps), learners = []\<rparr>"
    "nc_id c = self_id"
    by (simp_all add: NodeConfig_new_Inr from_validated_membership_def)
  moreover from Inr have "0 < timeout \<and> self_id \<notin> set ps \<and> distinct ps"
    by (simp add: NodeConfig_new_Inr)
  ultimately show ?thesis
    using NodeConfig_new_wf [OF Inr] Inr by (simp add: set_insort_key)
qed

end
