(* ===== verification/Protocol_Types.thy ===== *)
theory Protocol_Types
  imports Membership
begin

text \<open>
  The protocol data of the kernel: log entries and configurations
  (\<open>types/configuration.rs\<close>, \<open>message/entry.rs\<close>), snapshot descriptors
  (\<open>types/snapshot/*.rs\<close>), peer messages (\<open>message/*.rs\<close>) and the step interface
  (\<open>node/event/*.rs\<close>). A \<open>SharedPayload\<close> and a \<open>SharedEntries\<close> compare and read through their
  slice, so they are the byte list and the entry list themselves. Field names carry a prefix
  where two structs of the source share one.
\<close>

section \<open>Configurations and log entries\<close>

datatype ConfigurationPhase = StablePhase | JointPhase

datatype ConfigurationEntry =
    StableEntry ConfigurationId MembershipSet
  | JointEntry ConfigurationId JointMembership

record CommittedConfiguration =
  cc_index :: LogIndex
  cc_config_id :: ConfigurationId

record PromotionBarrier =
  pb_learner_id :: NodeId
  pb_required_match_index :: LogIndex

type_synonym SharedPayload = "byte list"

datatype LogEntryKind =
    Application SharedPayload
  | Configuration ConfigurationEntry
  | Noop

record LogEntry =
  entry_term :: Term
  entry_kind :: LogEntryKind

type_synonym SharedEntries = "LogEntry list"

fun config_id :: "ConfigurationEntry \<Rightarrow> ConfigurationId" where
  "config_id (StableEntry c m) = c"
| "config_id (JointEntry c m) = c"

fun configuration_phase :: "ConfigurationEntry \<Rightarrow> ConfigurationPhase" where
  "configuration_phase (StableEntry c m) = StablePhase"
| "configuration_phase (JointEntry c m) = JointPhase"

fun membership_config :: "ConfigurationEntry \<Rightarrow> MembershipConfig" where
  "membership_config (StableEntry c m) = StableMembership m"
| "membership_config (JointEntry c m) = JointMembershipConfig m"

fun is_configuration :: "LogEntryKind \<Rightarrow> bool" where
  "is_configuration (Configuration c) = True"
| "is_configuration _ = False"

fun application_payload :: "LogEntryKind \<Rightarrow> SharedPayload option" where
  "application_payload (Application p) = Some p"
| "application_payload _ = None"

fun configuration_entry :: "LogEntryKind \<Rightarrow> ConfigurationEntry option" where
  "configuration_entry (Configuration c) = Some c"
| "configuration_entry _ = None"

lemma configuration_entry_Some_iff [simp]:
  "configuration_entry k = Some c \<longleftrightarrow> k = Configuration c"
  by (cases k) auto

lemma configuration_entry_None_iff [simp]:
  "configuration_entry k = None \<longleftrightarrow> \<not> is_configuration k"
  by (cases k) auto

lemma is_configuration_iff: "is_configuration k \<longleftrightarrow> (\<exists>c. k = Configuration c)"
  by (cases k) auto

abbreviation application_entry :: "Term \<Rightarrow> SharedPayload \<Rightarrow> LogEntry" where
  "application_entry t p \<equiv> \<lparr>entry_term = t, entry_kind = Application p\<rparr>"

abbreviation configuration_log_entry :: "Term \<Rightarrow> ConfigurationEntry \<Rightarrow> LogEntry" where
  "configuration_log_entry t c \<equiv> \<lparr>entry_term = t, entry_kind = Configuration c\<rparr>"

abbreviation noop_entry :: "Term \<Rightarrow> LogEntry" where
  "noop_entry t \<equiv> \<lparr>entry_term = t, entry_kind = Noop\<rparr>"

definition APPLICATION_LOG_ENTRY_REPLICATION_OVERHEAD_BYTES :: usize where
  "APPLICATION_LOG_ENTRY_REPLICATION_OVERHEAD_BYTES = 64"

definition NOOP_LOG_ENTRY_REPLICATION_BYTES :: usize where
  "NOOP_LOG_ENTRY_REPLICATION_BYTES = 16"

definition CONFIGURATION_LOG_ENTRY_BASE_BYTES :: usize where
  "CONFIGURATION_LOG_ENTRY_BASE_BYTES = 64"

definition CONFIGURATION_LOG_ENTRY_PER_MEMBER_BYTES :: usize where
  "CONFIGURATION_LOG_ENTRY_PER_MEMBER_BYTES = 12"

definition application_replication_bytes :: "usize \<Rightarrow> usize" where
  "application_replication_bytes payload_len =
     sat_add payload_len APPLICATION_LOG_ENTRY_REPLICATION_OVERHEAD_BYTES"

definition max_application_payload_len :: "usize \<Rightarrow> usize" where
  "max_application_payload_len max_replication_bytes =
     sat_sub max_replication_bytes APPLICATION_LOG_ENTRY_REPLICATION_OVERHEAD_BYTES"

fun membership_member_count :: "MembershipConfig \<Rightarrow> usize" where
  "membership_member_count (StableMembership m) = length (voters m) + length (learners m)"
| "membership_member_count (JointMembershipConfig j) =
     length (voters (old_membership j)) + length (learners (old_membership j)) +
     length (voters (new_membership j)) + length (learners (new_membership j))"

definition replication_bytes :: "LogEntry \<Rightarrow> usize" where
  "replication_bytes e =
     (case entry_kind e of
        Application payload \<Rightarrow> application_replication_bytes (length payload)
      | Configuration c \<Rightarrow>
          sat_add CONFIGURATION_LOG_ENTRY_BASE_BYTES
            (sat_mul CONFIGURATION_LOG_ENTRY_PER_MEMBER_BYTES
               (membership_member_count (membership_config c)))
      | Noop \<Rightarrow> NOOP_LOG_ENTRY_REPLICATION_BYTES)"

section \<open>Snapshot descriptors\<close>

type_synonym SnapshotTransferId = "64 word"

record ApplicationSnapshotMetadata =
  app_kind :: string
  app_version :: nat

record SnapshotCommittedConfiguration =
  scc_configuration :: "CommittedConfiguration option"
  scc_membership :: MembershipConfig

record RaftSnapshotMetadata =
  group_id :: string
  writer_id :: NodeId
  last_included_index :: LogIndex
  last_included_term :: Term
  hard_state_term :: Term
  application :: ApplicationSnapshotMetadata
  meta_committed_configuration :: "SnapshotCommittedConfiguration option"

record RaftSnapshot =
  metadata :: RaftSnapshotMetadata
  application_payload_len :: u64
  application_payload_crc32 :: "32 word"

definition meta_committed_membership :: "RaftSnapshotMetadata \<Rightarrow> MembershipConfig option" where
  "meta_committed_membership m = map_option scc_membership (meta_committed_configuration m)"

definition meta_committed_configuration_state ::
    "RaftSnapshotMetadata \<Rightarrow> CommittedConfiguration option" where
  "meta_committed_configuration_state m =
     Option.bind (meta_committed_configuration m) scc_configuration"

datatype SnapshotMetadataError =
    ZeroApplicationSnapshotVersion
  | ZeroLastIncludedIndex
  | LastIncludedIndexAtMaximum
  | ZeroLastIncludedTerm LogIndex
  | SnapshotTermAheadOfHardState LogIndex Term Term

definition RaftSnapshotMetadata_new ::
    "string \<Rightarrow> NodeId \<Rightarrow> LogIndex \<Rightarrow> Term \<Rightarrow> Term \<Rightarrow> ApplicationSnapshotMetadata \<Rightarrow>
     SnapshotMetadataError + RaftSnapshotMetadata" where
  "RaftSnapshotMetadata_new gid writer index trm hard_term app =
     (if index = 0 then Inl ZeroLastIncludedIndex
      else if index = u64_max then Inl LastIncludedIndexAtMaximum
      else if Term_is_zero trm then Inl (ZeroLastIncludedTerm index)
      else if trm > hard_term then Inl (SnapshotTermAheadOfHardState index trm hard_term)
      else Inr \<lparr>group_id = gid, writer_id = writer, last_included_index = index,
                last_included_term = trm, hard_state_term = hard_term, application = app,
                meta_committed_configuration = None\<rparr>)"

definition with_committed_configuration ::
    "RaftSnapshotMetadata \<Rightarrow> SnapshotCommittedConfiguration \<Rightarrow> RaftSnapshotMetadata" where
  "with_committed_configuration m c = m\<lparr>meta_committed_configuration := Some c\<rparr>"

record SnapshotChunkSend =
  scs_term :: Term
  scs_leader_id :: NodeId
  scs_transfer_id :: SnapshotTransferId
  scs_metadata :: RaftSnapshotMetadata
  scs_total_payload_len :: u64
  scs_application_payload_crc32 :: "32 word"
  scs_offset :: u64
  scs_len :: u32
  scs_done :: bool

record StagedSnapshotChunk =
  ssc_leader_id :: NodeId
  ssc_transfer_id :: SnapshotTransferId
  ssc_metadata :: RaftSnapshotMetadata
  ssc_total_payload_len :: u64
  ssc_application_payload_crc32 :: "32 word"
  ssc_offset :: u64
  ssc_bytes :: "byte list"
  ssc_done :: bool

record PendingSnapshotTransfer =
  pst_leader_id :: NodeId
  pst_transfer_id :: SnapshotTransferId
  pst_metadata :: RaftSnapshotMetadata
  pst_total_payload_len :: u64
  pst_application_payload_crc32 :: "32 word"
  pst_received_len :: u64

definition pst_is_complete :: "PendingSnapshotTransfer \<Rightarrow> bool" where
  "pst_is_complete t \<longleftrightarrow> pst_received_len t = pst_total_payload_len t"

section \<open>Peer messages\<close>

record AppendEntries =
  ae_term :: Term
  ae_leader_id :: NodeId
  ae_prev_log_index :: LogIndex
  ae_prev_log_term :: Term
  ae_sequence :: u64
  ae_entries :: SharedEntries
  ae_leader_commit :: LogIndex

record AppendEntriesResponse =
  aer_term :: Term
  aer_follower_id :: NodeId
  aer_success :: bool
  aer_match_index :: LogIndex
  aer_sequence :: u64

record InstallSnapshot =
  is_term :: Term
  is_leader_id :: NodeId
  is_metadata :: RaftSnapshotMetadata
  is_application_payload :: "byte list"

record InstallSnapshotChunk =
  isc_term :: Term
  isc_leader_id :: NodeId
  isc_transfer_id :: SnapshotTransferId
  isc_metadata :: RaftSnapshotMetadata
  isc_total_payload_len :: u64
  isc_application_payload_crc32 :: "32 word"
  isc_offset :: u64
  isc_chunk :: "byte list"
  isc_done :: bool

record InstallSnapshotResponse =
  isr_term :: Term
  isr_follower_id :: NodeId
  isr_success :: bool
  isr_last_included_index :: LogIndex
  isr_transfer_id :: "SnapshotTransferId option"
  isr_next_offset :: u64

record PreVote =
  pv_term :: Term
  pv_candidate_id :: NodeId
  pv_last_log_index :: LogIndex
  pv_last_log_term :: Term

record PreVoteResponse =
  pvr_term :: Term
  pvr_voter_id :: NodeId
  pvr_vote_granted :: bool

record TimeoutNow =
  tn_term :: Term
  tn_leader_id :: NodeId

record RequestVote =
  rv_term :: Term
  rv_candidate_id :: NodeId
  rv_last_log_index :: LogIndex
  rv_last_log_term :: Term

record RequestVoteResponse =
  rvr_term :: Term
  rvr_voter_id :: NodeId
  rvr_vote_granted :: bool

datatype Message =
    AppendEntriesMsg AppendEntries
  | AppendEntriesResponseMsg AppendEntriesResponse
  | InstallSnapshotMsg InstallSnapshot
  | InstallSnapshotChunkMsg InstallSnapshotChunk
  | InstallSnapshotResponseMsg InstallSnapshotResponse
  | PreVoteMsg PreVote
  | PreVoteResponseMsg PreVoteResponse
  | TimeoutNowMsg TimeoutNow
  | RequestVoteMsg RequestVote
  | RequestVoteResponseMsg RequestVoteResponse

section \<open>Step interface\<close>

datatype Role = Follower | PreCandidate | Candidate | Leader

datatype LocalProposalDropReason = LogOverwritten | ProposalLeadershipLost

datatype ReadIndexCancelReason =
    ReadLeadershipLost
  | LeaderStateReset
  | ReadLeadershipTransfer NodeId

datatype ReadIndexRejection =
    ReadNotLeader Role Term
  | NoCommitInCurrentTerm
  | ReadLeadershipTransferInProgress NodeId
  | TooManyPendingReads

datatype LeadershipTransferRejection =
    TransferNotLeader
  | TargetIsSelf
  | TargetNotVoter
  | TransferAlreadyInProgress

datatype ConfigurationProposalRejection =
    StableConfigurationRequired ConfigurationPhase
  | JointConfigurationRequired ConfigurationPhase
  | UncommittedConfiguration LogIndex
  | NodeAlreadyMember NodeId
  | VoterNotFound NodeId
  | CannotRemoveLastVoter NodeId
  | InvalidMembership MembershipValidationError
  | TargetMembershipUnchanged
  | TargetMembershipDoesNotMatchJointNewSide
  | PromotionTargetNotLearner NodeId
  | DuplicatePromotionBarrier NodeId
  | UnusedPromotionBarrier NodeId
  | MissingPromotionBarrier NodeId
  | StalePromotionBarrier NodeId LogIndex LogIndex
  | PromotionBarrierNotReached NodeId LogIndex LogIndex

datatype ProposalRejection =
    NotLeader Role Term usize
  | LeadershipTransferInProgress NodeId
  | PayloadTooLarge usize usize
  | ConfigurationRejected ConfigurationProposalRejection

record ClientProposalInput =
  cpi_proposal_id :: "LocalProposalId option"
  cpi_payload :: "byte list"

datatype Input =
    Tick
  | MessageInput NodeId Message
  | ClientProposal "byte list"
  | TrackedClientProposal LocalProposalId "byte list"
  | AddLearner NodeId
  | PromoteLearner NodeId PromotionBarrier
  | RemoveVoter NodeId
  | EnterJoint MembershipSet "PromotionBarrier list"
  | LeaveJoint
  | ChangeMembership MembershipSet "PromotionBarrier list"
  | DangerousRawConfigurationProposal ConfigurationEntry "PromotionBarrier list"
  | TransferLeadership NodeId
  | ReadIndex ReadId

datatype Output =
    LocalProposalAppended LocalProposalId LogIndex Term
  | LocalProposalDropped LocalProposalId LogIndex Term LocalProposalDropReason
  | Apply LogIndex Term SharedPayload "LocalProposalId option"
  | ConfigurationCommitted LogIndex Term MembershipConfig ConfigurationEntry
  | ApplySnapshot RaftSnapshot
  | SendSnapshotChunk NodeId SnapshotChunkSend
  | StageSnapshotChunk StagedSnapshotChunk
  | RejectProposal "LocalProposalId option" ProposalRejection
  | LeadershipTransferRejected NodeId LeadershipTransferRejection
  | ReadIndexGranted ReadId LogIndex
  | ReadIndexRejected ReadId ReadIndexRejection
  | ReadIndexCanceled ReadId ReadIndexCancelReason
  | Send NodeId Message

section \<open>Well-formed protocol data\<close>

text \<open>
  Memberships inside entries and descriptors are \<open>MembershipSet\<close> values, so they carry that
  type's invariant.
\<close>

definition entry_wf :: "LogEntry \<Rightarrow> bool" where
  "entry_wf e \<longleftrightarrow> (\<forall>c. entry_kind e = Configuration c \<longrightarrow> membership_wf (membership_config c))"

definition metadata_wf :: "RaftSnapshotMetadata \<Rightarrow> bool" where
  "metadata_wf m \<longleftrightarrow> (\<forall>c. meta_committed_configuration m = Some c \<longrightarrow> membership_wf (scc_membership c))"

end
