(* ===== verification/Tracker.thy ===== *)
theory Tracker
  imports Protocol_Types
begin

text \<open>
  \<open>LocalProposalTracker\<close> of \<open>crates/rafter/src/node/state/proposal.rs\<close>: the queue that remembers
  which log indexes hold locally tracked proposals, with its fast path for appends. It refines
  a finite map from log indexes to proposals.
\<close>

section \<open>Operations\<close>

record LocalProposal =
  lp_term :: Term
  lp_id :: LocalProposalId

type_synonym LocalProposalTracker = "(LogIndex \<times> LocalProposal) list"

definition insert_out_of_order ::
    "LocalProposalTracker \<Rightarrow> LogIndex \<Rightarrow> LocalProposal \<Rightarrow> LocalProposalTracker" where
  "insert_out_of_order t index proposal =
     (case position (\<lambda>(existing, _). existing \<ge> index) t of
        Some pos \<Rightarrow>
          if fst (t ! pos) = index then t[pos := (index, proposal)]
          else take pos t @ (index, proposal) # drop pos t
      | None \<Rightarrow> t @ [(index, proposal)])"

definition tracker_insert ::
    "LocalProposalTracker \<Rightarrow> LogIndex \<Rightarrow> LocalProposal \<Rightarrow> LocalProposalTracker" where
  "tracker_insert t index proposal =
     (if t = [] then [(index, proposal)]
      else let last_index = fst (last t) in
        if last_index = index then butlast t @ [(index, proposal)]
        else if last_index < index then t @ [(index, proposal)]
        else insert_out_of_order t index proposal)"

definition tracker_remove ::
    "LocalProposalTracker \<Rightarrow> LogIndex \<Rightarrow> LocalProposalTracker \<times> LocalProposal option" where
  "tracker_remove t index =
     (if t \<noteq> [] \<and> fst (hd t) = index then (tl t, Some (snd (hd t)))
      else case position (\<lambda>(current, _). current = index) t of
        None \<Rightarrow> (t, None)
      | Some pos \<Rightarrow> (take pos t @ drop (Suc pos) t, Some (snd (t ! pos))))"

definition tracker_split_off ::
    "LocalProposalTracker \<Rightarrow> LogIndex \<Rightarrow> LocalProposalTracker \<times> LocalProposalTracker" where
  "tracker_split_off t index =
     (let pos = (case position (\<lambda>(i, _). i \<ge> index) t of Some p \<Rightarrow> p | None \<Rightarrow> length t)
      in (take pos t, drop pos t))"

section \<open>The tracker is a finite map\<close>

definition tracker_wf :: "LocalProposalTracker \<Rightarrow> bool" where
  "tracker_wf t \<longleftrightarrow> sorted_wrt (<) (map fst t)"

lemma tracker_wf_Nil [simp]: "tracker_wf []"
  by (simp add: tracker_wf_def)

lemma tracker_wf_append:
  "tracker_wf (xs @ ys) \<longleftrightarrow> tracker_wf xs \<and> tracker_wf ys \<and>
     (\<forall>x\<in>set xs. \<forall>y\<in>set ys. fst x < fst y)"
  by (auto simp: tracker_wf_def sorted_wrt_append)

lemma tracker_wf_Cons:
  "tracker_wf (x # xs) \<longleftrightarrow> tracker_wf xs \<and> (\<forall>y\<in>set xs. fst x < fst y)"
  by (auto simp: tracker_wf_def)

lemma position_split:
  assumes "position P xs = Some i"
  shows "xs = take i xs @ xs ! i # drop (Suc i) xs \<and> P (xs ! i) \<and> (\<forall>x\<in>set (take i xs). \<not> P x)"
  using assms
  by (auto simp: position_Some_iff id_take_nth_drop [symmetric] in_set_conv_nth)

lemma map_of_larger_keys: "(\<forall>y\<in>set ys. i < fst y) \<Longrightarrow> map_of ys i = None" for i :: LogIndex
  by (induction ys) auto

lemma map_of_smaller_keys: "(\<forall>y\<in>set ys. fst y < i) \<Longrightarrow> map_of ys i = None" for i :: LogIndex
  by (induction ys) auto

lemma tracker_insert_ordered:
  assumes "tracker_wf t" "t = xs @ ys" "\<forall>x\<in>set xs. fst x < i" "\<forall>y\<in>set ys. i < fst y"
  shows "tracker_wf (xs @ (i, p) # ys) \<and> map_of (xs @ (i, p) # ys) = (map_of t)(i \<mapsto> p)"
proof
  show "tracker_wf (xs @ (i, p) # ys)"
    using assms by (auto simp: tracker_wf_append tracker_wf_Cons)
  show "map_of (xs @ (i, p) # ys) = (map_of t)(i \<mapsto> p)"
    using assms map_of_smaller_keys [of xs i]
    by (auto simp: map_add_def fun_eq_iff split: option.splits)
qed

lemma tracker_replace_ordered:
  assumes "tracker_wf t" "t = xs @ (i, q) # ys"
  shows "tracker_wf (xs @ (i, p) # ys) \<and> map_of (xs @ (i, p) # ys) = (map_of t)(i \<mapsto> p)"
proof
  show "tracker_wf (xs @ (i, p) # ys)"
    using assms by (auto simp: tracker_wf_append tracker_wf_Cons)
  have "\<forall>x\<in>set xs. fst x < i" using assms by (simp add: tracker_wf_append)
  then show "map_of (xs @ (i, p) # ys) = (map_of t)(i \<mapsto> p)"
    using assms map_of_smaller_keys [of xs i]
    by (auto simp: map_add_def fun_eq_iff split: option.splits)
qed

lemma insert_out_of_order_spec:
  assumes "tracker_wf t"
  shows "tracker_wf (insert_out_of_order t i p) \<and> map_of (insert_out_of_order t i p) = (map_of t)(i \<mapsto> p)"
proof (cases "position (\<lambda>(e, _). e \<ge> i) t")
  case None
  then have "\<forall>x\<in>set t. fst x < i" by (auto simp: position_None_iff not_le)
  then show ?thesis
    using tracker_insert_ordered [OF assms, of t "[]" i p] None by (simp add: insert_out_of_order_def)
next
  case (Some pos)
  note sp = position_split [OF Some]
  then have small: "\<forall>x\<in>set (take pos t). fst x < i" and ge: "i \<le> fst (t ! pos)"
    by (auto simp: not_le case_prod_unfold)
  have later: "\<forall>y\<in>set (drop (Suc pos) t). fst (t ! pos) < fst y"
    using assms sp by (metis tracker_wf_append tracker_wf_Cons)
  show ?thesis
  proof (cases "fst (t ! pos) = i")
    case True
    with sp have t: "t = take pos t @ (i, snd (t ! pos)) # drop (Suc pos) t" by auto
    have "pos < length t" using Some by (simp add: position_Some_iff)
    then have "t[pos := (i, p)] = take pos t @ (i, p) # drop (Suc pos) t"
      by (rule upd_conv_take_nth_drop)
    with True Some show ?thesis
      using tracker_replace_ordered [OF assms t, of p] by (simp add: insert_out_of_order_def)
  next
    case False
    with ge have "i < fst (t ! pos)" by simp
    moreover have "drop pos t = t ! pos # drop (Suc pos) t"
      using Some by (simp add: Cons_nth_drop_Suc position_Some_iff)
    ultimately have "\<forall>y\<in>set (drop pos t). i < fst y" using later by auto
    then show ?thesis
      using tracker_insert_ordered [OF assms append_take_drop_id [symmetric] small, of p] False Some
      by (simp add: insert_out_of_order_def)
  qed
qed

lemma tracker_insert_spec:
  assumes "tracker_wf t"
  shows "tracker_wf (tracker_insert t i p) \<and> map_of (tracker_insert t i p) = (map_of t)(i \<mapsto> p)"
proof (cases t rule: rev_cases)
  case Nil
  then show ?thesis by (simp add: tracker_insert_def tracker_wf_Cons)
next
  case (snoc ys y)
  then obtain j q where t: "t = ys @ [(j, q)]" by (cases y) auto
  consider "j = i" | "j < i" | "i < j" by linarith
  then show ?thesis
  proof cases
    case 1
    with t show ?thesis
      using tracker_replace_ordered [OF assms, of ys i q "[]" p] by (simp add: tracker_insert_def)
  next
    case 2
    have "\<forall>x\<in>set ys. fst x < j" using assms t by (simp add: tracker_wf_append)
    with 2 t have "\<forall>x\<in>set t. fst x < i" by auto
    with 2 t show ?thesis
      using tracker_insert_ordered [OF assms, of t "[]" i p] by (simp add: tracker_insert_def)
  next
    case 3
    with t show ?thesis
      using insert_out_of_order_spec [OF assms, of i p] by (simp add: tracker_insert_def)
  qed
qed

lemma tracker_remove_middle:
  assumes "tracker_wf t" "t = xs @ (i, q) # ys"
  shows "tracker_wf (xs @ ys) \<and> map_of (xs @ ys) = (map_of t)(i := None) \<and> map_of t i = Some q"
proof -
  have "\<forall>x\<in>set xs. fst x < i" "\<forall>y\<in>set ys. i < fst y" "tracker_wf (xs @ ys)"
    using assms by (simp_all add: tracker_wf_append tracker_wf_Cons)
  then have "map_of xs i = None" "map_of ys i = None" "tracker_wf (xs @ ys)"
    by (simp_all add: map_of_smaller_keys map_of_larger_keys)
  then show ?thesis
    by (auto simp: assms(2) map_add_def fun_eq_iff split: option.splits)
qed

lemma tracker_remove_spec:
  assumes "tracker_wf t"
  shows "tracker_wf (fst (tracker_remove t i)) \<and>
    map_of (fst (tracker_remove t i)) = (map_of t)(i := None) \<and>
    snd (tracker_remove t i) = map_of t i"
proof (cases "t \<noteq> [] \<and> fst (hd t) = i")
  case True
  then obtain q ys where t: "t = (i, q) # ys" by (cases t) auto
  then show ?thesis
    using tracker_remove_middle [OF assms, of "[]" i q ys] by (simp add: tracker_remove_def)
next
  case False
  then have r: "tracker_remove t i = (case position (\<lambda>(c, _). c = i) t of
      None \<Rightarrow> (t, None) | Some pos \<Rightarrow> (take pos t @ drop (Suc pos) t, Some (snd (t ! pos))))"
    unfolding tracker_remove_def by (rule if_not_P)
  show ?thesis
  proof (cases "position (\<lambda>(c, _). c = i) t")
    case None
    then have "map_of t i = None" by (auto simp: position_None_iff map_of_eq_None_iff)
    with None assms show ?thesis by (simp add: r fun_upd_idem)
  next
    case (Some pos)
    have "fst (t ! pos) = i" "t = take pos t @ t ! pos # drop (Suc pos) t"
      using position_split [OF Some] by (simp_all add: case_prod_unfold)
    then have t: "t = take pos t @ (i, snd (t ! pos)) # drop (Suc pos) t" by (metis prod.collapse)
    show ?thesis using tracker_remove_middle [OF assms t] by (simp add: r Some del: append_take_drop_id)
  qed
qed

lemma tracker_split_off_spec:
  assumes "tracker_wf t" "tracker_split_off t i = (kept, dropped)"
  shows "t = kept @ dropped \<and> tracker_wf kept \<and> tracker_wf dropped \<and>
    (\<forall>x\<in>set kept. fst x < i) \<and> (\<forall>x\<in>set dropped. i \<le> fst x)"
proof (cases "position (\<lambda>(e, _). e \<ge> i) t")
  case None
  with assms show ?thesis
    by (auto simp: tracker_split_off_def position_None_iff not_le)
next
  case (Some pos)
  note sp = position_split [OF Some]
  have kd: "kept = take pos t" "dropped = drop pos t"
    using assms(2) Some by (simp_all add: tracker_split_off_def)
  then have t: "t = kept @ dropped" by simp
  have "drop pos t = t ! pos # drop (Suc pos) t"
    using Some by (simp add: Cons_nth_drop_Suc position_Some_iff)
  with assms(1) t kd have "\<forall>x\<in>set dropped. fst (t ! pos) \<le> fst x"
    by (metis tracker_wf_append tracker_wf_Cons order.strict_implies_order order.refl set_ConsD)
  moreover have "i \<le> fst (t ! pos)" using sp by (simp add: case_prod_unfold)
  moreover have "\<forall>x\<in>set kept. fst x < i" using sp kd by (auto simp: not_le case_prod_unfold)
  ultimately show ?thesis using t assms(1) by (metis tracker_wf_append order.trans)
qed

text \<open>
  The proposal tracker is a finite map kept in index order: inserting in any order binds
  the index, removing returns and unbinds it, and splitting off separates exactly the entries
  at or above the index.
\<close>

theorem tracker_refines_map:
  assumes "tracker_wf t"
  shows "tracker_wf (tracker_insert t i p) \<and> map_of (tracker_insert t i p) = (map_of t)(i \<mapsto> p) \<and>
    tracker_wf (fst (tracker_remove t i)) \<and>
    map_of (fst (tracker_remove t i)) = (map_of t)(i := None) \<and>
    snd (tracker_remove t i) = map_of t i \<and>
    fst (tracker_split_off t i) @ snd (tracker_split_off t i) = t \<and>
    (\<forall>x. x \<in> set (fst (tracker_split_off t i)) \<longleftrightarrow> x \<in> set t \<and> fst x < i)"
proof -
  obtain kept dropped where s: "tracker_split_off t i = (kept, dropped)" by fastforce
  note split = tracker_split_off_spec [OF assms s]
  then have "x \<in> set kept \<longleftrightarrow> x \<in> set t \<and> fst x < i" for x by (auto simp: not_less)
  with split s show ?thesis
    using tracker_insert_spec [OF assms, of i p] tracker_remove_spec [OF assms, of i] by simp
qed

theorem tracker_refines_map_witness:
  "map_of (tracker_insert [(3, \<lparr>lp_term = 1, lp_id = 10\<rparr>), (7, \<lparr>lp_term = 1, lp_id = 11\<rparr>)] 5
     \<lparr>lp_term = 1, lp_id = 12\<rparr>) 5 = Some \<lparr>lp_term = 1, lp_id = 12\<rparr>"
  using tracker_refines_map [of "[(3, \<lparr>lp_term = 1, lp_id = 10\<rparr>), (7, \<lparr>lp_term = 1, lp_id = 11\<rparr>)]" 5
      "\<lparr>lp_term = 1, lp_id = 12\<rparr>"]
  by (simp add: tracker_wf_def)

end
