(* ===== verification/Checksum.thy ===== *)
theory Checksum
  imports Prelude
begin

unbundle bit_operations_syntax

text \<open>
  \<open>crates/rafter/src/types/snapshot/checksum.rs\<close>: the CRC-32 of snapshot payloads, computed eight
  bytes at a time with eight tables. The tables and the loop are those of the source; they are
  proved equal to the bit-by-bit definition of the checksum.
\<close>

section \<open>The tables and the block loop\<close>

definition crc_bit_step :: "32 word \<Rightarrow> 32 word" where
  "crc_bit_step crc = (if crc AND 1 = 1 then drop_bit 1 crc XOR 0xEDB88320 else drop_bit 1 crc)"

definition table0 :: "32 word list" where
  "table0 = map (\<lambda>b. (crc_bit_step ^^ 8) (word_of_nat b)) [0..<256]"

definition next_table :: "32 word list \<Rightarrow> 32 word list" where
  "next_table previous =
     map (\<lambda>p. drop_bit 8 p XOR table0 ! unat (p AND 0xFF)) previous"

definition build_tables :: "32 word list list" where
  "build_tables = map (\<lambda>k. (next_table ^^ k) table0) [0..<8]"

definition table_at :: "nat \<Rightarrow> byte \<Rightarrow> 32 word" where
  "table_at k b = build_tables ! k ! unat b"

definition from_le_bytes4 :: "byte \<Rightarrow> byte \<Rightarrow> byte \<Rightarrow> byte \<Rightarrow> 32 word" where
  "from_le_bytes4 a b c d =
     ucast a OR push_bit 8 (ucast b) OR push_bit 16 (ucast c) OR push_bit 24 (ucast d)"

definition le_byte :: "32 word \<Rightarrow> nat \<Rightarrow> byte" where
  "le_byte w i = ucast (drop_bit (8 * i) w)"

definition crc_tail_step :: "byte \<Rightarrow> 32 word \<Rightarrow> 32 word" where
  "crc_tail_step b state =
     drop_bit 8 state XOR table0 ! unat ((state XOR ucast b) AND 0xFF)"

fun crc_blocks :: "byte list \<Rightarrow> 32 word \<Rightarrow> 32 word" where
  "crc_blocks (a # b # c # d # e # f # g # h # rest) state =
     (let w = state XOR from_le_bytes4 a b c d in
      crc_blocks rest
        (table_at 7 (le_byte w 0) XOR table_at 6 (le_byte w 1) XOR
         table_at 5 (le_byte w 2) XOR table_at 4 (le_byte w 3) XOR
         table_at 3 e XOR table_at 2 f XOR table_at 1 g XOR table_at 0 h))"
| "crc_blocks tail state = fold crc_tail_step tail state"

definition crc32 :: "byte list \<Rightarrow> 32 word" where
  "crc32 bytes = NOT (crc_blocks bytes 0xFFFFFFFF)"

section \<open>The reference definition\<close>

text \<open>One bit at a time: feed the byte into the low end of the state and divide.\<close>

definition crc_byte :: "32 word \<Rightarrow> 32 word" where
  "crc_byte s = (crc_bit_step ^^ 8) s"

definition crc32_reference :: "byte list \<Rightarrow> 32 word" where
  "crc32_reference bytes = NOT (fold (\<lambda>b s. crc_byte (s XOR ucast b)) bytes 0xFFFFFFFF)"

section \<open>The step is linear\<close>

lemma crc_bit_step_alt: "crc_bit_step x = drop_bit 1 x XOR (if bit x 0 then 0xEDB88320 else 0)"
  by (simp add: crc_bit_step_def and_one_eq odd_iff_mod_2_eq_one [symmetric] bit_0)

lemma crc_bit_step_xor: "crc_bit_step (x XOR y) = crc_bit_step x XOR crc_bit_step y"
proof -
  have "drop_bit 1 (x XOR y) = drop_bit 1 x XOR drop_bit 1 y" by (rule drop_bit_xor)
  then show ?thesis
    by (cases "bit x 0"; cases "bit y 0")
      (simp_all add: crc_bit_step_alt bit_xor_iff xor.assoc xor.left_commute xor.commute)
qed

lemma crc_byte_xor: "crc_byte (x XOR y) = crc_byte x XOR crc_byte y"
proof -
  have "(crc_bit_step ^^ n) (x XOR y) = (crc_bit_step ^^ n) x XOR (crc_bit_step ^^ n) y" for n
    by (induction n) (simp_all add: crc_bit_step_xor)
  then show ?thesis by (simp add: crc_byte_def)
qed

lemma crc_byte_funpow_xor: "(crc_byte ^^ n) (x XOR y) = (crc_byte ^^ n) x XOR (crc_byte ^^ n) y"
  by (induction n) (simp_all add: crc_byte_xor)

lemma crc_bit_step_shift: "n \<le> 32 \<Longrightarrow> (\<And>i. i < n \<Longrightarrow> \<not> bit x i) \<Longrightarrow> (crc_bit_step ^^ n) x = drop_bit n x"
proof (induction n)
  case 0
  then show ?case by simp
next
  case (Suc n)
  then have "(crc_bit_step ^^ n) x = drop_bit n x" by simp
  moreover have "\<not> bit (drop_bit n x) 0" using Suc.prems by (simp add: bit_drop_bit_eq)
  ultimately show ?case using crc_bit_step_alt [of "drop_bit n x"] by simp
qed

lemma crc_byte_shift: "(\<And>i. i < 8 \<Longrightarrow> \<not> bit x i) \<Longrightarrow> crc_byte x = drop_bit 8 x"
  unfolding crc_byte_def by (rule crc_bit_step_shift) simp_all

section \<open>The tables hold iterated steps\<close>

lemma word_of_nat_unat_byte: "x AND 0xFF = word_of_nat (unat (x AND 0xFF))" for x :: "32 word"
  by simp

lemma unat_and_255: "unat (x AND 0xFF) < 256" for x :: "32 word"
proof -
  have "x AND 0xFF = take_bit 8 x" by (simp add: take_bit_eq_mask mask_eq_exp_minus_1)
  then have "unat (x AND 0xFF) = take_bit 8 (unat x)" by (simp add: unsigned_take_bit_eq)
  then show ?thesis by (simp add: take_bit_eq_mod)
qed

lemma table0_nth: "b < 256 \<Longrightarrow> table0 ! b = crc_byte (word_of_nat b)"
  by (simp add: table0_def crc_byte_def)

lemma crc_byte_split: "drop_bit 8 x XOR table0 ! unat (x AND 0xFF) = crc_byte x"
proof -
  have m: "(0xFF :: 32 word) = mask 8" by (simp add: mask_eq_exp_minus_1)
  have "table0 ! unat (x AND 0xFF) = crc_byte (x AND 0xFF)"
    using table0_nth [OF unat_and_255] by simp
  moreover have "crc_byte (x AND NOT (mask 8)) = drop_bit 8 (x AND NOT (mask 8))"
    by (rule crc_byte_shift) (simp add: bit_and_iff bit_not_iff bit_mask_iff)
  moreover have "drop_bit 8 (x AND NOT (mask 8)) = drop_bit 8 x"
    by (rule bit_word_eqI) (auto simp: bit_simps dest: bit_imp_le_length)
  moreover have "crc_byte x = crc_byte (x AND NOT (mask 8)) XOR crc_byte (x AND mask 8)"
  proof -
    have "x = (x AND NOT (mask 8)) XOR (x AND mask 8)"
      by (rule bit_word_eqI) (auto simp: bit_and_iff bit_not_iff bit_xor_iff)
    then show ?thesis using crc_byte_xor by metis
  qed
  ultimately show ?thesis unfolding m by simp
qed

lemma next_table_funpow: "(next_table ^^ k) t = map (crc_byte ^^ k) t"
proof (induction k)
  case 0
  then show ?case by simp
next
  case (Suc k)
  have "next_table u = map crc_byte u" for u by (simp add: next_table_def crc_byte_split)
  with Suc show ?case by simp
qed

lemma tables_nth: "b < 256 \<Longrightarrow> (next_table ^^ k) table0 ! b = (crc_byte ^^ Suc k) (word_of_nat b)"
  using table0_nth [of b] by (simp add: next_table_funpow funpow_swap1) (simp add: table0_def)

lemma table_at_eq:
  assumes "k < 8"
  shows "table_at k b = (crc_byte ^^ Suc k) (ucast b)"
proof -
  have "unat b < 256" using unsigned_less [of b] by simp
  moreover have "(word_of_nat (unat b) :: 32 word) = ucast b" by (simp add: unsigned_of_nat)
  ultimately show ?thesis using assms tables_nth [of "unat b" k] by (simp add: table_at_def build_tables_def)
qed

lemma crc_tail_step_eq: "crc_tail_step b s = crc_byte (s XOR ucast b)"
proof -
  have "drop_bit 8 (s XOR ucast b) = drop_bit 8 s"
    by (rule bit_word_eqI) (auto simp: bit_simps dest: bit_imp_le_length)
  then show ?thesis using crc_byte_split [of "s XOR ucast b"] by (simp add: crc_tail_step_def)
qed

section \<open>Eight bytes at once\<close>

lemma crc_byte_funpow_shift:
  "k < 4 \<Longrightarrow> (crc_byte ^^ (k + n)) (push_bit (8 * k) (ucast (b :: byte) :: 32 word)) = (crc_byte ^^ n) (ucast b)"
proof (induction k)
  case 0
  then show ?case by simp
next
  case (Suc k)
  have "crc_byte (push_bit (8 * Suc k) (ucast b)) = (push_bit (8 * k) (ucast b) :: 32 word)"
  proof -
    have "crc_byte (push_bit (8 * Suc k) (ucast b)) = (drop_bit 8 (push_bit (8 * Suc k) (ucast b)) :: 32 word)"
      by (rule crc_byte_shift) (simp add: bit_push_bit_iff)
    also have "\<dots> = push_bit (8 * k) (ucast b)"
      using Suc.prems by (intro bit_word_eqI) (auto simp: bit_simps dest: bit_imp_le_length)
    finally show ?thesis .
  qed
  then have "(crc_byte ^^ (Suc k + n)) (push_bit (8 * Suc k) (ucast b)) =
      (crc_byte ^^ (k + n)) (push_bit (8 * k) (ucast b))"
    by (simp add: funpow_swap1 del: mult_Suc_right)
  with Suc show ?case by simp
qed

lemma word_bytes: "w = ucast (le_byte w 0) XOR push_bit 8 (ucast (le_byte w 1)) XOR
    push_bit 16 (ucast (le_byte w 2)) XOR push_bit 24 (ucast (le_byte w 3))"
  by (rule bit_word_eqI) (auto simp: le_byte_def bit_simps not_less)

lemma from_le_bytes4_xor: "from_le_bytes4 a b c d =
    ucast a XOR push_bit 8 (ucast b) XOR push_bit 16 (ucast c) XOR push_bit 24 (ucast d)"
  unfolding from_le_bytes4_def
  by (rule bit_word_eqI) (auto simp: bit_simps dest: bit_imp_le_length)

lemma crc_eight_steps_word:
  "(crc_byte ^^ 8) (ucast (a :: byte) XOR push_bit 8 (ucast (b :: byte)) XOR
     push_bit 16 (ucast (c :: byte)) XOR push_bit 24 (ucast (d :: byte))) =
   (crc_byte ^^ 8) (ucast a) XOR (crc_byte ^^ 7) (ucast b) XOR
   (crc_byte ^^ 6) (ucast c) XOR (crc_byte ^^ 5) (ucast d)"
  unfolding crc_byte_funpow_xor
  using crc_byte_funpow_shift [of 1 7 b] crc_byte_funpow_shift [of 2 6 c]
    crc_byte_funpow_shift [of 3 5 d] by simp

lemma crc_block_step:
  fixes a b c d e f g h :: byte
  defines "w s \<equiv> s XOR from_le_bytes4 a b c d"
  shows "table_at 7 (le_byte (w s) 0) XOR table_at 6 (le_byte (w s) 1) XOR
     table_at 5 (le_byte (w s) 2) XOR table_at 4 (le_byte (w s) 3) XOR
     table_at 3 e XOR table_at 2 f XOR table_at 1 g XOR table_at 0 h =
   fold (\<lambda>b s. crc_byte (s XOR ucast b)) [a, b, c, d, e, f, g, h] s"
proof -
  have "table_at 7 (le_byte (w s) 0) XOR table_at 6 (le_byte (w s) 1) XOR
     table_at 5 (le_byte (w s) 2) XOR table_at 4 (le_byte (w s) 3) = (crc_byte ^^ 8) (w s)"
    using crc_eight_steps_word [of "le_byte (w s) 0" "le_byte (w s) 1" "le_byte (w s) 2" "le_byte (w s) 3"]
    unfolding word_bytes [of "w s", symmetric] by (simp add: table_at_eq)
  also have "\<dots> = (crc_byte ^^ 8) s XOR (crc_byte ^^ 8) (ucast a) XOR (crc_byte ^^ 7) (ucast b) XOR
      (crc_byte ^^ 6) (ucast c) XOR (crc_byte ^^ 5) (ucast d)"
    unfolding w_def crc_byte_funpow_xor [of 8 s] from_le_bytes4_xor crc_eight_steps_word
    by (simp add: xor.assoc)
  finally have eq: "table_at 7 (le_byte (w s) 0) XOR table_at 6 (le_byte (w s) 1) XOR
      table_at 5 (le_byte (w s) 2) XOR table_at 4 (le_byte (w s) 3) =
    (crc_byte ^^ 8) s XOR (crc_byte ^^ 8) (ucast a) XOR (crc_byte ^^ 7) (ucast b) XOR
      (crc_byte ^^ 6) (ucast c) XOR (crc_byte ^^ 5) (ucast d)" .
  have w: "table_at 7 (le_byte (w s) 0) XOR table_at 6 (le_byte (w s) 1) XOR
      table_at 5 (le_byte (w s) 2) XOR table_at 4 (le_byte (w s) 3) XOR r =
    (crc_byte ^^ 8) s XOR (crc_byte ^^ 8) (ucast a) XOR (crc_byte ^^ 7) (ucast b) XOR
      (crc_byte ^^ 6) (ucast c) XOR (crc_byte ^^ 5) (ucast d) XOR r" for r
    using arg_cong [OF eq, of "\<lambda>x. x XOR r"] by (simp only: xor.assoc)
  show ?thesis
    unfolding w by (simp add: table_at_eq numeral_eq_Suc crc_byte_xor xor.assoc)
qed

lemma crc_blocks_eq: "crc_blocks bytes s = fold (\<lambda>b s. crc_byte (s XOR ucast b)) bytes s"
proof (induction bytes s rule: crc_blocks.induct)
  case (1 a b c d e f g h rest s)
  then show ?case using crc_block_step [of s a b c d e f g h] by (simp add: Let_def)
qed (simp_all add: crc_tail_step_eq)

section \<open>Property\<close>

text \<open>
  The table-driven checksum of snapshot payloads, eight bytes per step, is the bitwise
  CRC-32 with the reflected polynomial, for every payload.
\<close>

theorem crc32_correct: "crc32 bytes = crc32_reference bytes"
  by (simp add: crc32_def crc32_reference_def crc_blocks_eq)

end
