(* ===== verification/Snapshot_Identity.thy ===== *)
theory Snapshot_Identity
  imports Protocol_Types Checksum
begin

unbundle bit_operations_syntax

text \<open>
  Identities of snapshots: the names a group and an application kind may have
  (\<open>types/snapshot/identity.rs\<close>), the transfer id hashed from a descriptor
  (\<open>types/snapshot/transfer_id.rs\<close>), descriptors built from a payload (\<open>metadata.rs\<close>) and the
  in-memory source that serves payload chunks (\<open>source.rs\<close>).
\<close>

section \<open>Names\<close>

datatype SnapshotIdError =
    IdEmpty string
  | IdTooLong string usize
  | IdInvalidCharacter string char

definition valid_id_character :: "char \<Rightarrow> bool" where
  "valid_id_character c \<longleftrightarrow>
     (of_char c \<ge> (of_char CHR ''A'' :: nat) \<and> of_char c \<le> (of_char CHR ''Z'' :: nat)) \<or>
     (of_char c \<ge> (of_char CHR ''a'' :: nat) \<and> of_char c \<le> (of_char CHR ''z'' :: nat)) \<or>
     (of_char c \<ge> (of_char CHR ''0'' :: nat) \<and> of_char c \<le> (of_char CHR ''9'' :: nat)) \<or>
     c \<in> {CHR ''-'', CHR ''_'', CHR ''.'', CHR '':''}"

definition validate_snapshot_id :: "string \<Rightarrow> string \<Rightarrow> SnapshotIdError + unit" where
  "validate_snapshot_id field v =
     (if v = [] then Inl (IdEmpty field)
      else if length v > 128 then Inl (IdTooLong field (length v))
      else case List.find (\<lambda>c. \<not> valid_id_character c) v of
        Some c \<Rightarrow> Inl (IdInvalidCharacter field c)
      | None \<Rightarrow> Inr ())"

definition SnapshotGroupId_new :: "string \<Rightarrow> SnapshotIdError + string" where
  "SnapshotGroupId_new v =
     (case validate_snapshot_id ''snapshot group id'' v of Inl e \<Rightarrow> Inl e | Inr _ \<Rightarrow> Inr v)"

definition ApplicationSnapshotKind_new :: "string \<Rightarrow> SnapshotIdError + string" where
  "ApplicationSnapshotKind_new v =
     (case validate_snapshot_id ''application snapshot kind'' v of Inl e \<Rightarrow> Inl e | Inr _ \<Rightarrow> Inr v)"

definition ApplicationSnapshotVersion_new :: "nat \<Rightarrow> SnapshotMetadataError + nat" where
  "ApplicationSnapshotVersion_new v =
     (if v = 0 then Inl ZeroApplicationSnapshotVersion else Inr v)"

section \<open>Transfer identity\<close>

definition FNV_OFFSET_BASIS :: "64 word" where
  "FNV_OFFSET_BASIS = 0xcbf29ce484222325"

definition FNV_PRIME :: "64 word" where
  "FNV_PRIME = 0x0100000001b3"

definition feed_byte :: "byte \<Rightarrow> 64 word \<Rightarrow> 64 word" where
  "feed_byte b h = (h XOR ucast b) * FNV_PRIME"

definition to_be_bytes8 :: "64 word \<Rightarrow> byte list" where
  "to_be_bytes8 w = map (\<lambda>i. ucast (drop_bit (8 * i) w)) [7, 6, 5, 4, 3, 2, 1, 0]"

definition feed_u64 :: "u64 \<Rightarrow> 64 word \<Rightarrow> 64 word" where
  "feed_u64 v h = fold feed_byte (to_be_bytes8 (word_of_nat v)) h"

definition feed_str :: "string \<Rightarrow> 64 word \<Rightarrow> 64 word" where
  "feed_str v h = fold (\<lambda>c. feed_byte (of_char c)) v (feed_u64 (length v) h)"

definition feed_membership_set :: "MembershipSet \<Rightarrow> 64 word \<Rightarrow> 64 word" where
  "feed_membership_set m h =
     fold feed_u64 (learners m)
       (feed_u64 (length (learners m))
         (fold feed_u64 (voters m) (feed_u64 (length (voters m)) h)))"

fun feed_membership_config :: "MembershipConfig \<Rightarrow> 64 word \<Rightarrow> 64 word" where
  "feed_membership_config (StableMembership s) h = feed_membership_set s (feed_u64 0 h)"
| "feed_membership_config (JointMembershipConfig j) h =
     feed_membership_set (new_membership j) (feed_membership_set (old_membership j) (feed_u64 1 h))"

fun feed_optional_committed_configuration ::
    "SnapshotCommittedConfiguration option \<Rightarrow> 64 word \<Rightarrow> 64 word" where
  "feed_optional_committed_configuration None h = feed_u64 0 h"
| "feed_optional_committed_configuration (Some committed) h =
     feed_membership_config (scc_membership committed)
       (case scc_configuration committed of
          Some c \<Rightarrow> feed_u64 (cc_config_id c) (feed_u64 (cc_index c) (feed_u64 1 (feed_u64 1 h)))
        | None \<Rightarrow> feed_u64 0 (feed_u64 1 h))"

definition snapshot_transfer_id_from_parts ::
    "RaftSnapshotMetadata \<Rightarrow> u64 \<Rightarrow> 32 word \<Rightarrow> SnapshotTransferId" where
  "snapshot_transfer_id_from_parts m total_payload_len crc =
     (let h = FNV_OFFSET_BASIS;
          h = feed_str (group_id m) h;
          h = feed_u64 (writer_id m) h;
          h = feed_u64 (last_included_index m) h;
          h = feed_u64 (last_included_term m) h;
          h = feed_u64 (hard_state_term m) h;
          h = feed_str (app_kind (application m)) h;
          h = feed_u64 (app_version (application m)) h;
          h = feed_optional_committed_configuration (meta_committed_configuration m) h;
          h = feed_u64 total_payload_len h;
          h = feed_u64 (unat crc) h
      in if h = 0 then 1 else h)"

definition RaftSnapshot_transfer_id :: "RaftSnapshot \<Rightarrow> SnapshotTransferId" where
  "RaftSnapshot_transfer_id s =
     snapshot_transfer_id_from_parts (metadata s) (application_payload_len s)
       (application_payload_crc32 s)"

definition RaftSnapshot_from_payload :: "RaftSnapshotMetadata \<Rightarrow> byte list \<Rightarrow> RaftSnapshot" where
  "RaftSnapshot_from_payload m payload =
     \<lparr>metadata = m, application_payload_len = length payload,
      application_payload_crc32 = crc32 payload\<rparr>"

section \<open>The in-memory chunk source\<close>

record SnapshotChunkRequest =
  scr_transfer_id :: SnapshotTransferId
  scr_metadata :: RaftSnapshotMetadata
  scr_total_payload_len :: u64
  scr_application_payload_crc32 :: "32 word"
  scr_offset :: u64
  scr_len :: u32

record InMemoryPayload =
  imp_bytes :: "byte list"
  imp_crc32 :: "32 word"

type_synonym InMemorySnapshotChunkSource = "SnapshotTransferId \<rightharpoonup> InMemoryPayload"

datatype InMemorySnapshotSourceError = PayloadLengthMismatch u64 u64

definition source_insert ::
    "InMemorySnapshotChunkSource \<Rightarrow> RaftSnapshot \<Rightarrow> byte list \<Rightarrow>
     InMemorySnapshotSourceError + InMemorySnapshotChunkSource" where
  "source_insert src snap payload =
     (if length payload \<noteq> application_payload_len snap
      then Inl (PayloadLengthMismatch (application_payload_len snap) (length payload))
      else Inr (src(RaftSnapshot_transfer_id snap \<mapsto>
                 \<lparr>imp_bytes = payload, imp_crc32 = crc32 payload\<rparr>)))"

definition source_remove ::
    "InMemorySnapshotChunkSource \<Rightarrow> SnapshotTransferId \<Rightarrow>
     InMemorySnapshotChunkSource \<times> byte list option" where
  "source_remove src tid = (src(tid := None), map_option imp_bytes (src tid))"

definition source_payload :: "InMemorySnapshotChunkSource \<Rightarrow> SnapshotTransferId \<Rightarrow> byte list option" where
  "source_payload src tid = map_option imp_bytes (src tid)"

definition snapshot_chunk :: "InMemorySnapshotChunkSource \<Rightarrow> SnapshotChunkRequest \<Rightarrow> byte list option" where
  "snapshot_chunk src req =
     (case src (scr_transfer_id req) of
        None \<Rightarrow> None
      | Some payload \<Rightarrow>
          if length (imp_bytes payload) \<noteq> scr_total_payload_len req then None
          else if imp_crc32 payload \<noteq> scr_application_payload_crc32 req then None
          else (case checked_add (scr_offset req) (scr_len req) of
                  None \<Rightarrow> None
                | Some end_offset \<Rightarrow>
                    if end_offset \<le> length (imp_bytes payload)
                    then Some (take (scr_len req) (drop (scr_offset req) (imp_bytes payload)))
                    else None))"

section \<open>Properties\<close>

lemma snapshot_transfer_id_nonzero: "snapshot_transfer_id_from_parts m len crc \<noteq> 0"
  by (simp add: snapshot_transfer_id_from_parts_def Let_def)

text \<open>
  A chunk source serves exactly the bytes of the payload registered for a descriptor: after
  a registration, every request built from that descriptor and lying inside the payload is
  answered with that slice, and a request of the same transfer with another checksum, another
  length or beyond the end gets nothing.
\<close>

theorem source_serves_registered_payload:
  assumes "source_insert src snap payload = Inr src'"
    and "scr_transfer_id req = RaftSnapshot_transfer_id snap"
    and "scr_offset req + scr_len req \<le> u64_max"
  shows "snapshot_chunk src' req =
    (if scr_total_payload_len req = length payload \<and>
        scr_application_payload_crc32 req = crc32 payload \<and>
        scr_offset req + scr_len req \<le> length payload
     then Some (take (scr_len req) (drop (scr_offset req) payload)) else None)"
  using assms by (auto simp: source_insert_def snapshot_chunk_def checked_add_def split: if_splits)

theorem source_serves_registered_payload_witness:
  "snapshot_chunk
     [RaftSnapshot_transfer_id (RaftSnapshot_from_payload
        \<lparr>group_id = ''g'', writer_id = 1, last_included_index = 5, last_included_term = 2,
         hard_state_term = 2, application = \<lparr>app_kind = ''kv'', app_version = 1\<rparr>,
         meta_committed_configuration = None\<rparr> [7, 8, 9]) \<mapsto>
       \<lparr>imp_bytes = [7, 8, 9], imp_crc32 = crc32 [7, 8, 9]\<rparr>]
     \<lparr>scr_transfer_id = RaftSnapshot_transfer_id (RaftSnapshot_from_payload
        \<lparr>group_id = ''g'', writer_id = 1, last_included_index = 5, last_included_term = 2,
         hard_state_term = 2, application = \<lparr>app_kind = ''kv'', app_version = 1\<rparr>,
         meta_committed_configuration = None\<rparr> [7, 8, 9]),
      scr_metadata =
        \<lparr>group_id = ''g'', writer_id = 1, last_included_index = 5, last_included_term = 2,
         hard_state_term = 2, application = \<lparr>app_kind = ''kv'', app_version = 1\<rparr>,
         meta_committed_configuration = None\<rparr>,
      scr_total_payload_len = 3, scr_application_payload_crc32 = crc32 [7, 8, 9],
      scr_offset = 1, scr_len = 2\<rparr> = Some [8, 9]"
  by (subst source_serves_registered_payload [where src = Map.empty and payload = "[7, 8, 9]" and
        snap = "RaftSnapshot_from_payload
        \<lparr>group_id = ''g'', writer_id = 1, last_included_index = 5, last_included_term = 2,
         hard_state_term = 2, application = \<lparr>app_kind = ''kv'', app_version = 1\<rparr>,
         meta_committed_configuration = None\<rparr> [7, 8, 9]"])
    (simp_all add: source_insert_def RaftSnapshot_from_payload_def u64_max_def)

end
