(* ===== verification/Node_State.thy ===== *)
theory Node_State
  imports Progress Node_Config Tracker Configuration_Index Snapshot_Identity
begin

text \<open>
  The state of a node: \<open>node/mod.rs\<close>, \<open>node/state/{core,election,leader,snapshot}.rs\<close> and the plain
  observers of \<open>node/observe.rs\<close>. A node is a record of five state records beside its static
  configuration; an operation that mutates the node returns the new node, and one that fills an
  output vector returns the outputs it appends.
\<close>

section \<open>Election state\<close>

record ElectionState =
  elapsed :: u64
  votes :: "NodeId list"
  pre_votes :: "NodeId list"

definition ElectionState_default :: ElectionState where
  "ElectionState_default = \<lparr>elapsed = 0, votes = [], pre_votes = []\<rparr>"

definition advance_timeout :: "ElectionState \<Rightarrow> ElectionState" where
  "advance_timeout e = e\<lparr>elapsed := sat_add (elapsed e) 1\<rparr>"

definition reset_timeout :: "ElectionState \<Rightarrow> ElectionState" where
  "reset_timeout e = e\<lparr>elapsed := 0\<rparr>"

definition begin_pre_vote :: "NodeId \<Rightarrow> ElectionState \<Rightarrow> ElectionState" where
  "begin_pre_vote self_id e = (reset_timeout e)\<lparr>pre_votes := btree_insert self_id []\<rparr>"

definition begin_election :: "NodeId \<Rightarrow> ElectionState \<Rightarrow> ElectionState" where
  "begin_election self_id e =
     (reset_timeout e)\<lparr>votes := btree_insert self_id [], pre_votes := []\<rparr>"

definition record_vote :: "NodeId \<Rightarrow> ElectionState \<Rightarrow> ElectionState" where
  "record_vote voter e = e\<lparr>votes := btree_insert voter (votes e)\<rparr>"

definition record_pre_vote :: "NodeId \<Rightarrow> ElectionState \<Rightarrow> ElectionState" where
  "record_pre_vote voter e = e\<lparr>pre_votes := btree_insert voter (pre_votes e)\<rparr>"

definition reset_for_follower :: "ElectionState \<Rightarrow> ElectionState" where
  "reset_for_follower e = (reset_timeout e)\<lparr>votes := [], pre_votes := []\<rparr>"

definition enter_leadership :: "ElectionState \<Rightarrow> ElectionState" where
  "enter_leadership e = (reset_timeout e)\<lparr>pre_votes := []\<rparr>"

section \<open>Leader state\<close>

record LeaderLease =
  pending_basis_tick :: u64
  pending_sequence :: u64
  lease_acks :: AcknowledgementSet
  confirmed_basis_tick :: "u64 option"

record PendingReadRound =
  read_ids :: "ReadId list"
  read_index :: LogIndex
  registered_sequence :: u64
  read_acks :: AcknowledgementSet

record PendingLeadershipTransfer =
  transfer_target :: NodeId
  ticks_remaining :: u64
  timeout_now_sent :: bool

record LeaderState =
  progress :: ProgressSet
  ticks :: u64
  lease :: LeaderLease
  pending_transfer :: "PendingLeadershipTransfer option"
  deposition_authorized :: bool
  heartbeat_sequence :: u64
  heartbeat_elapsed :: u64
  quorum_acks :: AcknowledgementSet
  quorum_check_elapsed :: u64
  pending_reads :: "PendingReadRound list"

definition LeaderLease_default :: LeaderLease where
  "LeaderLease_default = \<lparr>pending_basis_tick = 0, pending_sequence = 0,
     lease_acks = AcknowledgementSet_default, confirmed_basis_tick = None\<rparr>"

definition LeaderState_default :: LeaderState where
  "LeaderState_default = \<lparr>progress = ProgressSet_default, ticks = 0, lease = LeaderLease_default,
     pending_transfer = None, deposition_authorized = False, heartbeat_sequence = 0,
     heartbeat_elapsed = 0, quorum_acks = AcknowledgementSet_default, quorum_check_elapsed = 0,
     pending_reads = []\<rparr>"

definition record_ack ::
    "LeaderLease \<Rightarrow> NodeId \<Rightarrow> u64 \<Rightarrow> MembershipConfig \<Rightarrow> NodeId \<Rightarrow> LeaderLease \<times> bool" where
  "record_ack l follower sequence m self_id =
     (if sequence < pending_sequence l then (l, False)
      else (l\<lparr>lease_acks := ack_insert (lease_acks l) follower m self_id\<rparr>, True))"

definition rearm :: "LeaderLease \<Rightarrow> u64 \<Rightarrow> u64 \<Rightarrow> LeaderLease" where
  "rearm l now_tick next_sequence =
     l\<lparr>pending_basis_tick := now_tick, pending_sequence := next_sequence,
       lease_acks := ack_clear (lease_acks l)\<rparr>"

definition confirm_and_rearm :: "LeaderLease \<Rightarrow> u64 \<Rightarrow> u64 \<Rightarrow> LeaderLease" where
  "confirm_and_rearm l now_tick next_sequence =
     rearm (l\<lparr>confirmed_basis_tick := Some (pending_basis_tick l)\<rparr>) now_tick next_sequence"

definition lease_holds :: "LeaderLease \<Rightarrow> u64 \<Rightarrow> u64 \<Rightarrow> bool" where
  "lease_holds l now_tick window_ticks =
     (case confirmed_basis_tick l of
        None \<Rightarrow> False
      | Some basis \<Rightarrow> sat_sub now_tick basis < window_ticks)"

section \<open>Incoming snapshots\<close>

record IncomingSnapshotTransfer =
  ist_leader_id :: NodeId
  ist_transfer_id :: SnapshotTransferId
  ist_metadata :: RaftSnapshotMetadata
  ist_total_payload_len :: u64
  ist_application_payload_crc32 :: "32 word"
  ist_received_len :: u64

definition IncomingSnapshotTransfer_new ::
    "NodeId \<Rightarrow> SnapshotTransferId \<Rightarrow> RaftSnapshotMetadata \<Rightarrow> u64 \<Rightarrow> 32 word \<Rightarrow>
     IncomingSnapshotTransfer" where
  "IncomingSnapshotTransfer_new leader_id tid m total_len crc =
     \<lparr>ist_leader_id = leader_id, ist_transfer_id = tid, ist_metadata = m,
      ist_total_payload_len = total_len, ist_application_payload_crc32 = crc, ist_received_len = 0\<rparr>"

definition ist_from_pending :: "PendingSnapshotTransfer \<Rightarrow> IncomingSnapshotTransfer" where
  "ist_from_pending p =
     \<lparr>ist_leader_id = pst_leader_id p, ist_transfer_id = pst_transfer_id p,
      ist_metadata = pst_metadata p, ist_total_payload_len = pst_total_payload_len p,
      ist_application_payload_crc32 = pst_application_payload_crc32 p,
      ist_received_len = pst_received_len p\<rparr>"

definition ist_to_pending :: "IncomingSnapshotTransfer \<Rightarrow> PendingSnapshotTransfer" where
  "ist_to_pending t =
     \<lparr>pst_leader_id = ist_leader_id t, pst_transfer_id = ist_transfer_id t,
      pst_metadata = ist_metadata t, pst_total_payload_len = ist_total_payload_len t,
      pst_application_payload_crc32 = ist_application_payload_crc32 t,
      pst_received_len = ist_received_len t\<rparr>"

record SnapshotChunkRejectionCounters =
  stale_term :: u64
  wrong_transfer :: u64
  metadata_mismatch :: u64
  out_of_order_offset :: u64
  invalid_bounds :: u64
  corrupt_persisted_pending_transfer :: u64

definition SnapshotChunkRejectionCounters_default :: SnapshotChunkRejectionCounters where
  "SnapshotChunkRejectionCounters_default =
     \<lparr>stale_term = 0, wrong_transfer = 0, metadata_mismatch = 0, out_of_order_offset = 0,
      invalid_bounds = 0, corrupt_persisted_pending_transfer = 0\<rparr>"

section \<open>The node\<close>

record PersistentState =
  current_term :: Term
  voted_for :: "NodeId option"
  committed_configuration :: "CommittedConfiguration option"
  snapshot :: "RaftSnapshot option"
  log :: "LogEntry list"

record VolatileState =
  role :: Role
  commit_index :: LogIndex
  dispatched_index :: LogIndex
  local_proposals :: LocalProposalTracker
  incoming_snapshot :: "IncomingSnapshotTransfer option"
  leader_hint :: "NodeId option"
  snapshot_chunk_rejections :: SnapshotChunkRejectionCounters

record Node =
  config :: NodeConfig
  persistent :: PersistentState
  volatile :: VolatileState
  election :: ElectionState
  leader :: LeaderState
  derived :: ConfigurationIndex

definition PersistentState_default :: PersistentState where
  "PersistentState_default = \<lparr>current_term = 0, voted_for = None, committed_configuration = None,
     snapshot = None, log = []\<rparr>"

definition at_dispatched_index :: "LogIndex \<Rightarrow> VolatileState" where
  "at_dispatched_index index = \<lparr>role = Follower, commit_index = index, dispatched_index = index,
     local_proposals = [], incoming_snapshot = None, leader_hint = None,
     snapshot_chunk_rejections = SnapshotChunkRejectionCounters_default\<rparr>"

definition VolatileState_default :: VolatileState where
  "VolatileState_default = \<lparr>role = Follower, commit_index = 0, dispatched_index = 0,
     local_proposals = [], incoming_snapshot = None, leader_hint = None,
     snapshot_chunk_rejections = SnapshotChunkRejectionCounters_default\<rparr>"

definition Node_new :: "NodeConfig \<Rightarrow> Node" where
  "Node_new c = \<lparr>config = c, persistent = PersistentState_default, volatile = VolatileState_default,
     election = ElectionState_default, leader = LeaderState_default, derived = []\<rparr>"

section \<open>Observers and updates\<close>

abbreviation Node_id :: "Node \<Rightarrow> NodeId" where
  "Node_id n \<equiv> nc_id (config n)"

abbreviation Node_role :: "Node \<Rightarrow> Role" where
  "Node_role n \<equiv> role (volatile n)"

abbreviation Node_current_term :: "Node \<Rightarrow> Term" where
  "Node_current_term n \<equiv> current_term (persistent n)"

abbreviation Node_voted_for :: "Node \<Rightarrow> NodeId option" where
  "Node_voted_for n \<equiv> voted_for (persistent n)"

abbreviation Node_leader_hint :: "Node \<Rightarrow> NodeId option" where
  "Node_leader_hint n \<equiv> leader_hint (volatile n)"

abbreviation Node_commit_index :: "Node \<Rightarrow> LogIndex" where
  "Node_commit_index n \<equiv> commit_index (volatile n)"

abbreviation Node_dispatched_index :: "Node \<Rightarrow> LogIndex" where
  "Node_dispatched_index n \<equiv> dispatched_index (volatile n)"

abbreviation Node_log :: "Node \<Rightarrow> LogEntry list" where
  "Node_log n \<equiv> log (persistent n)"

abbreviation Node_snapshot :: "Node \<Rightarrow> RaftSnapshot option" where
  "Node_snapshot n \<equiv> snapshot (persistent n)"

abbreviation map_persistent :: "(PersistentState \<Rightarrow> PersistentState) \<Rightarrow> Node \<Rightarrow> Node" where
  "map_persistent f n \<equiv> n\<lparr>persistent := f (persistent n)\<rparr>"

abbreviation map_volatile :: "(VolatileState \<Rightarrow> VolatileState) \<Rightarrow> Node \<Rightarrow> Node" where
  "map_volatile f n \<equiv> n\<lparr>volatile := f (volatile n)\<rparr>"

abbreviation map_election :: "(ElectionState \<Rightarrow> ElectionState) \<Rightarrow> Node \<Rightarrow> Node" where
  "map_election f n \<equiv> n\<lparr>election := f (election n)\<rparr>"

abbreviation map_leader :: "(LeaderState \<Rightarrow> LeaderState) \<Rightarrow> Node \<Rightarrow> Node" where
  "map_leader f n \<equiv> n\<lparr>leader := f (leader n)\<rparr>"

abbreviation map_progress :: "(ProgressSet \<Rightarrow> ProgressSet) \<Rightarrow> Node \<Rightarrow> Node" where
  "map_progress f n \<equiv> n\<lparr>leader := (leader n)\<lparr>progress := f (progress (leader n))\<rparr>\<rparr>"

lemma ist_pending_roundtrip [simp]: "ist_from_pending (ist_to_pending t) = t"
  by (simp add: ist_from_pending_def ist_to_pending_def)

end
