(* ===== verification/Log.thy ===== *)
theory Log
  imports Node_State
begin

text \<open>
  The retained log of a node above its snapshot: \<open>node/log.rs\<close>, \<open>node/log/{read,batch}.rs\<close> and
  \<open>reconcile_local_proposals\<close> of \<open>node/state/proposal.rs\<close>. Reads and updates are characterised through
  \<open>entry_at\<close>, the log as a partial function of the log index.
\<close>

section \<open>Reading\<close>

definition snapshot_index :: "Node \<Rightarrow> LogIndex" where
  "snapshot_index n =
     (case Node_snapshot n of None \<Rightarrow> 0 | Some s \<Rightarrow> last_included_index (metadata s))"

definition first_retained_log_index :: "Node \<Rightarrow> LogIndex" where
  "first_retained_log_index n = LogIndex_next (snapshot_index n)"

definition last_log_index :: "Node \<Rightarrow> LogIndex" where
  "last_log_index n = snapshot_index n + length (Node_log n)"

text \<open>Offsets are machine words on the 64-bit targets the crate supports.\<close>

definition retained_log_offset :: "u64 \<Rightarrow> usize" where
  "retained_log_offset v = v"

definition entry_at :: "Node \<Rightarrow> LogIndex \<Rightarrow> LogEntry option" where
  "entry_at n index =
     (if index \<le> snapshot_index n then None
      else get (Node_log n) (retained_log_offset (index - first_retained_log_index n)))"

definition term_at :: "Node \<Rightarrow> LogIndex \<Rightarrow> Term option" where
  "term_at n index =
     (if index = 0 \<and> snapshot_index n = 0 then Some 0
      else if index = snapshot_index n
      then map_option (\<lambda>s. last_included_term (metadata s)) (Node_snapshot n)
      else if index < snapshot_index n then None
      else map_option entry_term (entry_at n index))"

definition last_log_term :: "Node \<Rightarrow> Term" where
  "last_log_term n = (case term_at n (last_log_index n) of Some t \<Rightarrow> t | None \<Rightarrow> 0)"

definition log_entries_from :: "Node \<Rightarrow> LogIndex \<Rightarrow> LogEntry list" where
  "log_entries_from n first_index =
     (if first_index = 0 \<or> first_index > last_log_index n then []
      else let first_retained = first_retained_log_index n;
               first_index = max first_index first_retained
           in drop (retained_log_offset (first_index - first_retained)) (Node_log n))"

section \<open>Replication batches\<close>

record LogBatch =
  lb_first_index :: LogIndex
  lb_last_index :: LogIndex
  lb_entries :: SharedEntries
  lb_replication_bytes :: usize

fun collect_batch :: "usize \<Rightarrow> LogEntry list \<Rightarrow> usize \<Rightarrow> LogEntry list \<Rightarrow> LogEntry list \<times> usize" where
  "collect_batch max_bytes entries bytes [] = (entries, bytes)"
| "collect_batch max_bytes entries bytes (e # es) =
     (let next_bytes = sat_add bytes (replication_bytes e) in
      if entries \<noteq> [] \<and> next_bytes > max_bytes then (entries, bytes)
      else collect_batch max_bytes (entries @ [e]) next_bytes es)"

definition log_batch_from_bounded :: "Node \<Rightarrow> LogIndex \<Rightarrow> usize \<Rightarrow> LogBatch option" where
  "log_batch_from_bounded n first_index max_replication_bytes =
     (if first_index = 0 \<or> first_index > last_log_index n then None
      else let first_retained = first_retained_log_index n;
               first_index = max first_index first_retained;
               start = retained_log_offset (first_index - first_retained);
               (entries, bytes) = collect_batch max_replication_bytes [] 0 (drop start (Node_log n))
           in case checked_sub (length entries) 1 of
                None \<Rightarrow> None
              | Some k \<Rightarrow> Some \<lparr>lb_first_index = first_index, lb_last_index = first_index + k,
                               lb_entries = entries, lb_replication_bytes = bytes\<rparr>)"

section \<open>Updating\<close>

definition dropped_outputs :: "LocalProposalTracker \<Rightarrow> LocalProposalDropReason \<Rightarrow> Output list" where
  "dropped_outputs t reason =
     map (\<lambda>(index, p). LocalProposalDropped (lp_id p) index (lp_term p) reason) t"

definition truncate_from :: "Node \<Rightarrow> LogIndex \<Rightarrow> LocalProposalDropReason \<Rightarrow> Node \<times> Output list" where
  "truncate_from n index reason =
     (let (kept, dropped) = tracker_split_off (local_proposals (volatile n)) index;
          n = map_volatile (\<lambda>v. v\<lparr>local_proposals := kept\<rparr>) n;
          outputs = dropped_outputs dropped reason;
          first_retained = first_retained_log_index n
      in if index \<le> first_retained
         then ((map_persistent (\<lambda>p. p\<lparr>log := []\<rparr>) n)\<lparr>derived := ci_clear (derived n)\<rparr>, outputs)
         else let retained_len = retained_log_offset (index - first_retained)
              in ((map_persistent (\<lambda>p. p\<lparr>log := take retained_len (log p)\<rparr>) n)
                    \<lparr>derived := ci_truncate (derived n) retained_len\<rparr>, outputs))"

definition append_log_entry :: "LogEntry \<Rightarrow> Node \<Rightarrow> Node" where
  "append_log_entry e n =
     (map_persistent (\<lambda>p. p\<lparr>log := log p @ [e]\<rparr>) n)
       \<lparr>derived := ci_record_append (derived n) (length (Node_log n)) e\<rparr>"

definition reconcile_step ::
    "Node \<Rightarrow> LogIndex \<times> LocalProposal \<Rightarrow> LocalProposalTracker \<times> Output list \<Rightarrow>
     LocalProposalTracker \<times> Output list" where
  "reconcile_step n = (\<lambda>(index, p) (retained, outputs).
     if term_at n index = Some (lp_term p)
     then (tracker_insert retained index p, outputs)
     else (retained, outputs @ [LocalProposalDropped (lp_id p) index (lp_term p) LogOverwritten]))"

definition reconcile_local_proposals :: "Node \<Rightarrow> Node \<times> Output list" where
  "reconcile_local_proposals n =
     (let (retained, outputs) = fold (reconcile_step n) (local_proposals (volatile n)) ([], [])
      in (map_volatile (\<lambda>v. v\<lparr>local_proposals := retained\<rparr>) n, outputs))"

definition replace_log :: "LogEntry list \<Rightarrow> Node \<Rightarrow> Node \<times> Output list" where
  "replace_log lg n =
     reconcile_local_proposals ((map_persistent (\<lambda>p. p\<lparr>log := lg\<rparr>) n)\<lparr>derived := ci_from_log lg\<rparr>)"

definition install_snapshot_state_with_committed_configuration ::
    "RaftSnapshot \<Rightarrow> CommittedConfiguration option \<Rightarrow> Node \<Rightarrow> Node \<times> Output list" where
  "install_snapshot_state_with_committed_configuration snap cc n =
     (let boundary_index = last_included_index (metadata snap);
          boundary_term = last_included_term (metadata snap);
          retain_suffix = (term_at n boundary_index = Some boundary_term);
          retained_suffix =
            (if retain_suffix then log_entries_from n (LogIndex_next boundary_index) else []);
          n = map_persistent (\<lambda>p. p\<lparr>snapshot := Some snap, committed_configuration := cc\<rparr>) n;
          (n, outputs) = replace_log retained_suffix n;
          n = (if Node_commit_index n < boundary_index
               then map_volatile (\<lambda>v. v\<lparr>commit_index := boundary_index\<rparr>) n else n);
          n = (if Node_dispatched_index n < boundary_index
               then map_volatile (\<lambda>v. v\<lparr>dispatched_index := boundary_index\<rparr>) n else n)
      in (n, outputs))"

definition install_snapshot_state :: "RaftSnapshot \<Rightarrow> Node \<Rightarrow> Node \<times> Output list" where
  "install_snapshot_state snap n =
     install_snapshot_state_with_committed_configuration snap
       (meta_committed_configuration_state (metadata snap)) n"

section \<open>The log as a partial function\<close>

lemma entry_at_get:
  "entry_at n i = (if i \<le> snapshot_index n then None else get (Node_log n) (i - Suc (snapshot_index n)))"
  by (simp add: entry_at_def retained_log_offset_def first_retained_log_index_def)

lemma entry_at_Some_iff:
  "entry_at n i = Some e \<longleftrightarrow>
     snapshot_index n < i \<and> i \<le> last_log_index n \<and> Node_log n ! (i - Suc (snapshot_index n)) = e"
  by (auto simp: entry_at_get get_def last_log_index_def)

lemma entry_at_defined_iff: "(\<exists>e. entry_at n i = Some e) \<longleftrightarrow> snapshot_index n < i \<and> i \<le> last_log_index n"
  by (auto simp: entry_at_Some_iff)

lemma entry_at_None_iff: "entry_at n i = None \<longleftrightarrow> i \<le> snapshot_index n \<or> last_log_index n < i"
  using entry_at_defined_iff [of n i] by (cases "entry_at n i") auto

lemma term_at_above: "snapshot_index n < i \<Longrightarrow> term_at n i = map_option entry_term (entry_at n i)"
  by (simp add: term_at_def)

lemma term_at_beyond: "last_log_index n < i \<Longrightarrow> term_at n i = None"
  by (simp add: term_at_def entry_at_None_iff last_log_index_def)

lemma term_at_below: "i < snapshot_index n \<Longrightarrow> term_at n i = None"
  by (simp add: term_at_def)

lemma log_entries_from_nth:
  assumes "snapshot_index n < i"
  shows "log_entries_from n i = drop (i - Suc (snapshot_index n)) (Node_log n)"
proof (cases "i > last_log_index n")
  case True
  then have "length (Node_log n) \<le> i - Suc (snapshot_index n)" by (simp add: last_log_index_def)
  with True show ?thesis by (simp add: log_entries_from_def)
next
  case False
  with assms show ?thesis
    by (simp add: log_entries_from_def first_retained_log_index_def retained_log_offset_def max_def Let_def)
qed

section \<open>Batches are budgeted slices of the log\<close>

definition entries_bytes :: "LogEntry list \<Rightarrow> usize" where
  "entries_bytes es = min (sum_list (map replication_bytes es)) u64_max"

lemma entries_bytes_snoc: "sat_add (entries_bytes es) (replication_bytes e) = entries_bytes (es @ [e])"
  by (simp add: entries_bytes_def sat_add_def)

lemma collect_batch_spec:
  assumes "collect_batch m acc (entries_bytes acc) es = (out, bytes)"
    and "length acc \<le> 1 \<or> entries_bytes acc \<le> m"
  shows "\<exists>k. k \<le> length es \<and> out = acc @ take k es \<and> bytes = entries_bytes out \<and>
    (acc = [] \<and> es \<noteq> [] \<longrightarrow> 0 < k) \<and> (length out \<le> 1 \<or> bytes \<le> m) \<and>
    (k < length es \<longrightarrow> m < entries_bytes (out @ [es ! k]))"
  using assms
proof (induction es arbitrary: acc)
  case Nil
  then show ?case by auto
next
  case (Cons e es)
  show ?case
  proof (cases "acc \<noteq> [] \<and> entries_bytes (acc @ [e]) > m")
    case True
    with Cons.prems show ?thesis by (auto simp: Let_def entries_bytes_snoc intro!: exI [of _ 0])
  next
    case False
    then have "collect_batch m (acc @ [e]) (entries_bytes (acc @ [e])) es = (out, bytes)"
      using Cons.prems(1) by (auto simp: Let_def entries_bytes_snoc split: if_splits)
    moreover have "length (acc @ [e]) \<le> 1 \<or> entries_bytes (acc @ [e]) \<le> m"
      using False by auto
    ultimately obtain k where "k \<le> length es \<and> out = (acc @ [e]) @ take k es \<and>
        bytes = entries_bytes out \<and> (length out \<le> 1 \<or> bytes \<le> m) \<and>
        (k < length es \<longrightarrow> m < entries_bytes (out @ [es ! k]))"
      using Cons.IH by blast
    then show ?thesis by (intro exI [of _ "Suc k"]) auto
  qed
qed

lemma log_batch_from_bounded_unfold:
  assumes "f \<noteq> 0" "f \<le> last_log_index n"
    and "collect_batch m [] 0 (drop (max f (Suc (snapshot_index n)) - Suc (snapshot_index n)) (Node_log n)) =
      (out, bytes)"
  shows "log_batch_from_bounded n f m =
    (if out = [] then None
     else Some \<lparr>lb_first_index = max f (Suc (snapshot_index n)),
                lb_last_index = max f (Suc (snapshot_index n)) + (length out - 1),
                lb_entries = out, lb_replication_bytes = bytes\<rparr>)"
proof -
  have "checked_sub (length out) 1 = (if out = [] then None else Some (length out - 1))"
    by (cases out) (simp_all add: checked_sub_def)
  with assms show ?thesis
    by (simp add: log_batch_from_bounded_def first_retained_log_index_def retained_log_offset_def Let_def)
qed

lemma log_batch_from_bounded_spec:
  assumes "log_batch_from_bounded n f m = Some b"
  shows "lb_first_index b = max f (Suc (snapshot_index n)) \<and>
    lb_entries b \<noteq> [] \<and> lb_last_index b + 1 = lb_first_index b + length (lb_entries b) \<and>
    lb_last_index b \<le> last_log_index n \<and>
    lb_entries b = take (length (lb_entries b)) (log_entries_from n (lb_first_index b)) \<and>
    lb_replication_bytes b = entries_bytes (lb_entries b) \<and>
    (length (lb_entries b) = 1 \<or> lb_replication_bytes b \<le> m) \<and>
    (\<forall>e. entry_at n (lb_last_index b + 1) = Some e \<longrightarrow> m < entries_bytes (lb_entries b @ [e]))"
proof -
  let ?first = "max f (Suc (snapshot_index n))"
  let ?es = "drop (?first - Suc (snapshot_index n)) (Node_log n)"
  obtain out bytes where c: "collect_batch m [] 0 ?es = (out, bytes)" by fastforce
  have f: "f \<noteq> 0" "f \<le> last_log_index n"
    using assms unfolding log_batch_from_bounded_def by (metis not_le option.distinct(1))+
  have b: "b = \<lparr>lb_first_index = ?first, lb_last_index = ?first + (length out - 1),
      lb_entries = out, lb_replication_bytes = bytes\<rparr>" and ne: "out \<noteq> []"
    using assms log_batch_from_bounded_unfold [OF f c] by (cases "out = []"; simp)+
  have "collect_batch m [] (entries_bytes []) ?es = (out, bytes)" using c by (simp add: entries_bytes_def)
  then obtain k where k: "k \<le> length ?es" "out = take k ?es"
    "bytes = entries_bytes out" "length out \<le> 1 \<or> bytes \<le> m"
    "k < length ?es \<longrightarrow> m < entries_bytes (out @ [?es ! k])"
    using collect_batch_spec [of m "[]" ?es out bytes] unfolding append_Nil list.size by blast
  have "length out = k" using k(1) unfolding k(2) by simp
  moreover from this ne have "0 < k" by (metis length_greater_0_conv)
  ultimately have len: "length out = k" "0 < k" .
  have from_: "log_entries_from n ?first = ?es" by (rule log_entries_from_nth) simp
  have last: "?first + (k - 1) \<le> last_log_index n"
    using k(1) len(2) f by (simp add: last_log_index_def)
  have nxt: "\<forall>e. entry_at n (?first + (k - 1) + 1) = Some e \<longrightarrow> m < entries_bytes (out @ [e])"
  proof (intro allI impI)
    fix e assume "entry_at n (?first + (k - 1) + 1) = Some e"
    moreover obtain g where g: "?first = Suc (snapshot_index n) + g"
      using le_Suc_ex max.cobounded2 by blast
    ultimately have "k < length ?es" "?es ! k = e"
      using len(2) unfolding g by (auto simp: entry_at_Some_iff last_log_index_def)
    with k(5) show "m < entries_bytes (out @ [e])" by blast
  qed
  have one: "k = 1 \<or> bytes \<le> m" using k(4) len by linarith
  have slice: "out = take k (log_entries_from n ?first)" unfolding from_ by (rule k(2))
  have sum: "?first + (k - 1) + 1 = ?first + k" using len(2) by simp
  show ?thesis
    unfolding b LogBatch.select_convs len(1) by (intro conjI refl ne sum last slice k(3) one nxt)
qed

lemma log_batch_from_bounded_None:
  assumes "snapshot_index n < f" "f \<le> last_log_index n"
  shows "\<exists>b. log_batch_from_bounded n f m = Some b"
proof -
  let ?es = "drop (max f (Suc (snapshot_index n)) - Suc (snapshot_index n)) (Node_log n)"
  have "length ?es = last_log_index n - f + 1" using assms by (simp add: last_log_index_def)
  then have "?es \<noteq> []" by fastforce
  obtain out bytes where c: "collect_batch m [] 0 ?es = (out, bytes)" by fastforce
  then have "collect_batch m [] (entries_bytes []) ?es = (out, bytes)" by (simp add: entries_bytes_def)
  from collect_batch_spec [OF this] \<open>?es \<noteq> []\<close> have "out \<noteq> []" by auto
  moreover have "f \<noteq> 0" using assms by simp
  ultimately show ?thesis using log_batch_from_bounded_unfold [OF _ assms(2) c] by simp
qed

section \<open>What updates of the log change\<close>

definition derived_ok :: "Node \<Rightarrow> bool" where
  "derived_ok n \<longleftrightarrow> derived n = ci_from_log (Node_log n)"

text \<open>Truncation.\<close>

lemma truncate_from_eq:
  "fst (truncate_from n i r) = n\<lparr>
     persistent := (persistent n)\<lparr>log := take (i - Suc (snapshot_index n)) (Node_log n)\<rparr>,
     volatile := (volatile n)\<lparr>local_proposals := fst (tracker_split_off (local_proposals (volatile n)) i)\<rparr>,
     derived := ci_truncate (derived n) (i - Suc (snapshot_index n))\<rparr>"
  by (simp add: truncate_from_def first_retained_log_index_def snapshot_index_def
      retained_log_offset_def ci_clear_def ci_truncate_def Let_def case_prod_unfold)

lemma truncate_from_snapshot_index [simp]:
  "snapshot_index (fst (truncate_from n i r)) = snapshot_index n"
  by (simp add: truncate_from_eq snapshot_index_def)

lemma truncate_from_entry_at:
  "entry_at (fst (truncate_from n i r)) j = (if j < i then entry_at n j else None)"
  unfolding entry_at_get truncate_from_snapshot_index by (auto simp: truncate_from_eq get_take)

lemma truncate_from_last:
  "last_log_index (fst (truncate_from n i r)) =
     min (last_log_index n) (max (i - 1) (snapshot_index n))"
  unfolding last_log_index_def truncate_from_snapshot_index by (auto simp: truncate_from_eq)

lemma truncate_from_derived: "derived_ok n \<Longrightarrow> derived_ok (fst (truncate_from n i r))"
  by (simp add: derived_ok_def truncate_from_eq ci_from_log_take)

lemma truncate_from_outputs: "snd (truncate_from n i r) =
    dropped_outputs (snd (tracker_split_off (local_proposals (volatile n)) i)) r"
  by (simp add: truncate_from_def Let_def case_prod_unfold)

text \<open>Appending.\<close>

lemma append_log_entry_snapshot_index [simp]: "snapshot_index (append_log_entry e n) = snapshot_index n"
  by (simp add: append_log_entry_def snapshot_index_def)

lemma append_log_entry_last [simp]: "last_log_index (append_log_entry e n) = last_log_index n + 1"
  unfolding last_log_index_def append_log_entry_snapshot_index by (simp add: append_log_entry_def)

lemma append_log_entry_entry_at:
  "entry_at (append_log_entry e n) j = (if j = last_log_index n + 1 then Some e else entry_at n j)"
  unfolding entry_at_get append_log_entry_snapshot_index
  by (auto simp: append_log_entry_def last_log_index_def get_def nth_append)

lemma append_log_entry_derived: "derived_ok n \<Longrightarrow> derived_ok (append_log_entry e n)"
  by (simp add: derived_ok_def append_log_entry_def ci_from_log_snoc)

lemma append_log_entry_frame [frame_simps]:
  "config (append_log_entry e n) = config n"
  "volatile (append_log_entry e n) = volatile n"
  "election (append_log_entry e n) = election n"
  "leader (append_log_entry e n) = leader n"
  "persistent (append_log_entry e n) = (persistent n)\<lparr>log := Node_log n @ [e]\<rparr>"
  by (simp_all add: append_log_entry_def)

text \<open>Reconciling the tracked proposals with a new log.\<close>

lemma reconcile_local_proposals_eq:
  "fst (reconcile_local_proposals n) = n\<lparr>volatile := (volatile n)\<lparr>local_proposals :=
     fst (fold (reconcile_step n) (local_proposals (volatile n)) ([], []))\<rparr>\<rparr>"
  by (simp add: reconcile_local_proposals_def case_prod_unfold Let_def)

lemma fold_reconcile_step_wf:
  "tracker_wf (fst acc) \<Longrightarrow> tracker_wf (fst (fold (reconcile_step n) ps acc))"
proof (induction ps arbitrary: acc)
  case Nil
  then show ?case by simp
next
  case (Cons p ps)
  have "tracker_wf (fst (reconcile_step n p acc))"
    using Cons.prems tracker_insert_spec by (auto simp: reconcile_step_def case_prod_unfold)
  with Cons.IH show ?case by simp
qed

lemma fold_reconcile_step_outputs:
  "\<forall>out\<in>set (snd acc). \<exists>p i t. out = LocalProposalDropped p i t LogOverwritten \<Longrightarrow>
   \<forall>out\<in>set (snd (fold (reconcile_step n) ps acc)). \<exists>p i t. out = LocalProposalDropped p i t LogOverwritten"
proof (induction ps arbitrary: acc)
  case Nil
  then show ?case by simp
next
  case (Cons p ps)
  have "\<forall>out\<in>set (snd (reconcile_step n p acc)). \<exists>p i t. out = LocalProposalDropped p i t LogOverwritten"
    using Cons.prems by (auto simp: reconcile_step_def case_prod_unfold)
  with Cons.IH show ?case by simp
qed

lemma replace_log_eq:
  "fst (replace_log lg n) = n\<lparr>persistent := (persistent n)\<lparr>log := lg\<rparr>, derived := ci_from_log lg,
     volatile := (volatile n)\<lparr>local_proposals := fst (fold (reconcile_step
       ((map_persistent (\<lambda>p. p\<lparr>log := lg\<rparr>) n)\<lparr>derived := ci_from_log lg\<rparr>))
       (local_proposals (volatile n)) ([], []))\<rparr>\<rparr>"
  by (simp add: replace_log_def reconcile_local_proposals_eq)

text \<open>Installing a snapshot.\<close>

definition retained_suffix :: "RaftSnapshot \<Rightarrow> Node \<Rightarrow> LogEntry list" where
  "retained_suffix snap n =
     (if term_at n (last_included_index (metadata snap)) = Some (last_included_term (metadata snap))
      then log_entries_from n (LogIndex_next (last_included_index (metadata snap))) else [])"

lemma install_snapshot_state_with_eq:
  "\<exists>lp. tracker_wf lp \<and> fst (install_snapshot_state_with_committed_configuration snap cc n) = n\<lparr>
     persistent := (persistent n)\<lparr>snapshot := Some snap, committed_configuration := cc,
       log := retained_suffix snap n\<rparr>,
     derived := ci_from_log (retained_suffix snap n),
     volatile := (volatile n)\<lparr>local_proposals := lp,
       commit_index := max (Node_commit_index n) (last_included_index (metadata snap)),
       dispatched_index := max (Node_dispatched_index n) (last_included_index (metadata snap))\<rparr>\<rparr>"
proof -
  let ?n = "map_persistent (\<lambda>p. p\<lparr>snapshot := Some snap, committed_configuration := cc\<rparr>) n"
  let ?lp = "fst (fold (reconcile_step ((map_persistent (\<lambda>p. p\<lparr>log := retained_suffix snap n\<rparr>) ?n)
      \<lparr>derived := ci_from_log (retained_suffix snap n)\<rparr>)) (local_proposals (volatile n)) ([], []))"
  obtain m out where m: "replace_log (retained_suffix snap n) ?n = (m, out)" by fastforce
  then have meq: "m = n\<lparr>persistent := (persistent n)\<lparr>snapshot := Some snap, committed_configuration := cc,
       log := retained_suffix snap n\<rparr>, derived := ci_from_log (retained_suffix snap n),
       volatile := (volatile n)\<lparr>local_proposals := ?lp\<rparr>\<rparr>"
    using replace_log_eq [of "retained_suffix snap n" ?n] by simp
  have "tracker_wf ?lp" by (rule fold_reconcile_step_wf) simp
  moreover have "fst (install_snapshot_state_with_committed_configuration snap cc n) =
      (let b = last_included_index (metadata snap);
           m = (if Node_commit_index m < b then map_volatile (\<lambda>v. v\<lparr>commit_index := b\<rparr>) m else m)
       in if Node_dispatched_index m < b then map_volatile (\<lambda>v. v\<lparr>dispatched_index := b\<rparr>) m else m)"
    using m by (simp add: install_snapshot_state_with_committed_configuration_def retained_suffix_def Let_def)
  ultimately show ?thesis by (intro exI [of _ ?lp]) (simp add: meq Let_def max_def)
qed

end
