(* ===== verification/Membership_View.thy ===== *)
theory Membership_View
  imports Log
begin

text \<open>
  \<open>crates/rafter/src/node/membership/view.rs\<close>: which membership is effective, committed, or in
  force at an index, read from the retained configuration entries, the snapshot and the static
  configuration.
\<close>

section \<open>Operations\<close>

definition max_by_key :: "('a \<Rightarrow> nat) \<Rightarrow> 'a list \<Rightarrow> 'a option" where
  "max_by_key key xs =
     fold (\<lambda>x best. case best of None \<Rightarrow> Some x
                               | Some b \<Rightarrow> if key x \<ge> key b then Some x else Some b) xs None"

definition effective_base_membership :: "Node \<Rightarrow> MembershipConfig" where
  "effective_base_membership n =
     (case Option.bind (Node_snapshot n) (\<lambda>s. meta_committed_membership (metadata s)) of
        Some m \<Rightarrow> m
      | None \<Rightarrow> static_membership (config n))"

definition effective_configuration_entry :: "Node \<Rightarrow> ConfigurationEntry option" where
  "effective_configuration_entry n = ci_effective_entry (derived n) (Node_log n)"

definition effective_membership :: "Node \<Rightarrow> MembershipConfig" where
  "effective_membership n =
     (case effective_configuration_entry n of
        None \<Rightarrow> effective_base_membership n
      | Some e \<Rightarrow> membership_config e)"

definition snapshot_committed_membership :: "Node \<Rightarrow> MembershipConfig option" where
  "snapshot_committed_membership n =
     Option.bind (Node_snapshot n) (\<lambda>s. meta_committed_membership (metadata s))"

definition snapshot_committed_configuration_state :: "Node \<Rightarrow> CommittedConfiguration option" where
  "snapshot_committed_configuration_state n =
     Option.bind (Node_snapshot n) (\<lambda>s. meta_committed_configuration_state (metadata s))"

definition membership_at_index :: "Node \<Rightarrow> LogIndex \<Rightarrow> MembershipConfig" where
  "membership_at_index n index =
     (case ci_entry_at_or_before (derived n) (LogIndex_next (snapshot_index n)) (Node_log n) index of
        Some e \<Rightarrow> membership_config e
      | None \<Rightarrow>
          (case (if snapshot_index n \<le> index then snapshot_committed_membership n else None) of
             Some m \<Rightarrow> m
           | None \<Rightarrow> static_membership (config n)))"

definition committed_configuration_entry :: "Node \<Rightarrow> ConfigurationEntry option" where
  "committed_configuration_entry n =
     ci_committed_entry (derived n) (LogIndex_next (snapshot_index n)) (Node_log n) (Node_commit_index n)"

definition committed_membership :: "Node \<Rightarrow> MembershipConfig" where
  "committed_membership n =
     (case committed_configuration_entry n of
        Some e \<Rightarrow> membership_config e
      | None \<Rightarrow>
          (case snapshot_committed_membership n of
             Some m \<Rightarrow> m
           | None \<Rightarrow> static_membership (config n)))"

definition committed_configuration_state_at :: "Node \<Rightarrow> LogIndex \<Rightarrow> CommittedConfiguration option" where
  "committed_configuration_state_at n commit =
     (let retained = ci_committed_state_at (derived n) (LogIndex_next (snapshot_index n)) (Node_log n) commit
      in max_by_key cc_index
           (filter (\<lambda>state. cc_index state \<le> commit)
             (List.map_filter (\<lambda>x. x)
               [retained, committed_configuration (persistent n),
                snapshot_committed_configuration_state n])))"

definition committed_configuration_state :: "Node \<Rightarrow> CommittedConfiguration option" where
  "committed_configuration_state n = committed_configuration_state_at n (Node_commit_index n)"

definition is_effective_voter :: "Node \<Rightarrow> NodeId \<Rightarrow> bool" where
  "is_effective_voter n node_id = contains_voter (effective_membership n) node_id"

definition is_effective_learner :: "Node \<Rightarrow> NodeId \<Rightarrow> bool" where
  "is_effective_learner n node_id = contains_learner (effective_membership n) node_id"

definition promotion_barrier :: "Node \<Rightarrow> NodeId \<Rightarrow> PromotionBarrier option" where
  "promotion_barrier n learner_id =
     (if Node_role n = Leader \<and> is_effective_learner n learner_id
      then Some \<lparr>pb_learner_id = learner_id, pb_required_match_index = Node_commit_index n\<rparr>
      else None)"

definition has_effective_quorum :: "Node \<Rightarrow> NodeId list \<Rightarrow> bool" where
  "has_effective_quorum n acks =
     (if derived n = []
      then mi_has_quorum (MembershipIndex_new (effective_base_membership n) (Node_id n)) acks
      else mi_has_quorum (MembershipIndex_new (effective_membership n) (Node_id n)) acks)"

definition uncommitted_configuration_indexes :: "Node \<Rightarrow> LogIndex list" where
  "uncommitted_configuration_indexes n =
     ci_indexes_after (derived n) (LogIndex_next (snapshot_index n)) (Node_commit_index n)"

section \<open>The view only depends on the log, the snapshot and the static configuration\<close>

lemma effective_membership_cong:
  "Node_log n' = Node_log n \<Longrightarrow> Node_snapshot n' = Node_snapshot n \<Longrightarrow> derived n' = derived n \<Longrightarrow>
   config n' = config n \<Longrightarrow> effective_membership n' = effective_membership n"
  by (simp add: effective_membership_def effective_configuration_entry_def effective_base_membership_def
      cong: option.case_cong)

lemma effective_membership_empty:
  "derived n = [] \<Longrightarrow> effective_membership n = effective_base_membership n"
  by (simp add: effective_membership_def effective_configuration_entry_def ci_effective_entry_def)

definition membership_sources_wf :: "Node \<Rightarrow> bool" where
  "membership_sources_wf n \<longleftrightarrow>
     membership_wf (static_membership (config n)) \<and>
     (\<forall>e\<in>set (Node_log n). entry_wf e) \<and>
     (\<forall>s. Node_snapshot n = Some s \<longrightarrow> metadata_wf (metadata s))"

lemma effective_base_membership_wf:
  "membership_sources_wf n \<Longrightarrow> membership_wf (effective_base_membership n)"
  by (auto simp: membership_sources_wf_def effective_base_membership_def meta_committed_membership_def
      metadata_wf_def bind_eq_Some_conv split: option.split)

lemma effective_membership_wf:
  assumes "membership_sources_wf n"
  shows "membership_wf (effective_membership n)"
proof (cases "effective_configuration_entry n")
  case None
  with assms show ?thesis by (simp add: effective_membership_def effective_base_membership_wf)
next
  case (Some e)
  then have "\<exists>x\<in>set (Node_log n). entry_kind x = Configuration e"
    by (auto simp: effective_configuration_entry_def ci_effective_entry_def configuration_entry_at_Some
        split: if_splits)
  with assms have "membership_wf (membership_config e)"
    by (auto simp: membership_sources_wf_def entry_wf_def)
  with Some show ?thesis by (simp add: effective_membership_def)
qed

lemma has_effective_quorum_eq:
  assumes "membership_sources_wf n" "small_config (effective_membership n)"
  shows "has_effective_quorum n acks \<longleftrightarrow> has_quorum (effective_membership n) acks"
  using assms mi_has_quorum_new [OF effective_membership_wf [OF assms(1)] assms(2)]
  by (auto simp: has_effective_quorum_def effective_membership_empty)

end
