(* ===== verification/Node_Invariant.thy ===== *)
theory Node_Invariant
  imports Membership_View
begin

text \<open>
  The invariant of a node's replicated state and the relation by which it may evolve. The
  invariant is what \<open>validate_index_geometry\<close> and \<open>DerivedState::validate\<close> check
  (\<open>node/validate.rs\<close>), strengthened with the type invariants of the data; the relation says that
  terms, votes, commitment, dispatch and the committed log only ever move forward. Every
  operation of the node is shown to be a \<open>good\<close> step: it keeps the invariant and evolves the node.
\<close>

section \<open>Invariant and evolution\<close>

definition geometry_ok :: "Node \<Rightarrow> bool" where
  "geometry_ok n \<longleftrightarrow> snapshot_index n \<le> Node_dispatched_index n \<and>
     Node_dispatched_index n \<le> Node_commit_index n \<and> Node_commit_index n \<le> last_log_index n"

definition node_inv :: "Node \<Rightarrow> bool" where
  "node_inv n \<longleftrightarrow> geometry_ok n \<and> derived_ok n \<and> membership_sources_wf n \<and>
     tracker_wf (local_proposals (volatile n))"

definition evolves :: "Node \<Rightarrow> Node \<Rightarrow> bool" where
  "evolves n n' \<longleftrightarrow>
     config n' = config n \<and>
     Node_current_term n \<le> Node_current_term n' \<and>
     (Node_current_term n' = Node_current_term n \<longrightarrow>
        Node_voted_for n = None \<or> Node_voted_for n' = Node_voted_for n) \<and>
     Node_commit_index n \<le> Node_commit_index n' \<and>
     Node_dispatched_index n \<le> Node_dispatched_index n' \<and>
     snapshot_index n \<le> snapshot_index n' \<and>
     (\<forall>i. snapshot_index n' < i \<longrightarrow> i \<le> Node_commit_index n \<longrightarrow> entry_at n' i = entry_at n i)"

definition good :: "Node \<Rightarrow> Node \<Rightarrow> bool" where
  "good n n' \<longleftrightarrow> node_inv n' \<and> evolves n n'"

lemma evolves_refl [simp]: "evolves n n"
  by (simp add: evolves_def)

lemma evolves_trans:
  assumes "evolves a b" "evolves b c"
  shows "evolves a c"
proof -
  have "entry_at c i = entry_at a i" if "snapshot_index c < i" "i \<le> Node_commit_index a" for i
  proof -
    have "snapshot_index b < i" "i \<le> Node_commit_index b"
      using that assms by (auto simp: evolves_def)
    then have "entry_at c i = entry_at b i" "entry_at b i = entry_at a i"
      using assms that by (auto simp: evolves_def)
    then show ?thesis by simp
  qed
  then show ?thesis using assms by (auto simp: evolves_def)
qed

lemma good_refl: "node_inv n \<Longrightarrow> good n n"
  by (simp add: good_def)

lemma good_trans: "good a b \<Longrightarrow> good b c \<Longrightarrow> good a c"
  using evolves_trans by (auto simp: good_def)

lemma good_inv: "good a b \<Longrightarrow> node_inv b"
  by (simp add: good_def)

text \<open>
  The log, snapshot and derived index are the part of the state the invariant reads. Two nodes
  that agree on it, up to terms, roles and leader bookkeeping, are equally good.
\<close>

definition same_log :: "Node \<Rightarrow> Node \<Rightarrow> bool" where
  "same_log n n' \<longleftrightarrow> config n' = config n \<and> Node_log n' = Node_log n \<and>
     Node_snapshot n' = Node_snapshot n \<and> derived n' = derived n"

lemma same_log_refl [simp]: "same_log n n"
  by (simp add: same_log_def)

lemma same_log_snapshot_index: "same_log n n' \<Longrightarrow> snapshot_index n' = snapshot_index n"
  by (simp add: same_log_def snapshot_index_def)

lemma same_log_entry_at: "same_log n n' \<Longrightarrow> entry_at n' i = entry_at n i"
  by (simp add: entry_at_get same_log_snapshot_index) (simp add: same_log_def)

lemma same_log_term_at: "same_log n n' \<Longrightarrow> term_at n' i = term_at n i"
  by (simp add: term_at_def same_log_snapshot_index same_log_entry_at) (simp add: same_log_def)

lemma same_log_last: "same_log n n' \<Longrightarrow> last_log_index n' = last_log_index n"
  by (simp add: last_log_index_def same_log_snapshot_index) (simp add: same_log_def)

lemma same_log_last_term: "same_log n n' \<Longrightarrow> last_log_term n' = last_log_term n"
  by (simp add: last_log_term_def same_log_last same_log_term_at)

lemma same_log_membership: "same_log n n' \<Longrightarrow> effective_membership n' = effective_membership n"
  by (rule effective_membership_cong) (simp_all add: same_log_def)

lemmas same_log_simps = same_log_snapshot_index same_log_entry_at same_log_term_at same_log_last
  same_log_last_term same_log_membership

lemma node_inv_same_log:
  assumes "node_inv n" "same_log n n'"
    and "Node_commit_index n' = Node_commit_index n" "Node_dispatched_index n' = Node_dispatched_index n"
    and "tracker_wf (local_proposals (volatile n'))"
  shows "node_inv n'"
  using assms
  by (simp add: node_inv_def geometry_ok_def same_log_snapshot_index same_log_last derived_ok_def
      membership_sources_wf_def) (simp add: same_log_def)

text \<open>Steps that leave log and commitment alone: role, term, vote and bookkeeping changes.\<close>

lemma good_same_log:
  assumes "node_inv n" "same_log n n'"
    and "Node_commit_index n' = Node_commit_index n" "Node_dispatched_index n' = Node_dispatched_index n"
    and "tracker_wf (local_proposals (volatile n'))"
    and "Node_current_term n \<le> Node_current_term n'"
    and "Node_current_term n' = Node_current_term n \<Longrightarrow>
      Node_voted_for n = None \<or> Node_voted_for n' = Node_voted_for n"
  shows "good n n'"
  using assms node_inv_same_log [OF assms(1-5)]
  by (auto simp: good_def evolves_def same_log_snapshot_index same_log_entry_at)
    (simp_all add: same_log_def)

lemma good_leader: "node_inv n \<Longrightarrow> good n (n\<lparr>leader := l\<rparr>)"
  by (rule good_same_log) (simp_all add: same_log_def node_inv_def)

lemma good_election: "node_inv n \<Longrightarrow> good n (n\<lparr>election := e\<rparr>)"
  by (rule good_same_log) (simp_all add: same_log_def node_inv_def)

text \<open>Operations of the log.\<close>

lemma entry_at_beyond_commit:
  "node_inv n \<Longrightarrow> i \<le> Node_commit_index n \<Longrightarrow> i \<le> last_log_index n"
  by (simp add: node_inv_def geometry_ok_def)

lemma node_inv_sources: "node_inv n \<Longrightarrow> membership_sources_wf n"
  by (simp add: node_inv_def)

lemma good_append_log_entry:
  assumes "node_inv n" "entry_wf e"
  shows "good n (append_log_entry e n)"
proof -
  have "node_inv (append_log_entry e n)"
    using assms
    by (auto simp: node_inv_def geometry_ok_def append_log_entry_derived membership_sources_wf_def
        frame_simps)
  moreover have "entry_at (append_log_entry e n) i = entry_at n i" if "i \<le> Node_commit_index n" for i
    using entry_at_beyond_commit [OF assms(1) that] by (simp add: append_log_entry_entry_at)
  ultimately show ?thesis by (simp add: good_def evolves_def frame_simps)
qed

lemma good_truncate_from:
  assumes "node_inv n" "Node_commit_index n < i"
  shows "good n (fst (truncate_from n i r))"
proof -
  let ?n = "fst (truncate_from n i r)"
  have g: "snapshot_index n \<le> Node_dispatched_index n" "Node_dispatched_index n \<le> Node_commit_index n"
    "Node_commit_index n \<le> last_log_index n" "derived_ok n" "membership_sources_wf n"
    "tracker_wf (local_proposals (volatile n))"
    using assms(1) by (simp_all add: node_inv_def geometry_ok_def)
  obtain kept dropped where sp: "tracker_split_off (local_proposals (volatile n)) i = (kept, dropped)"
    by fastforce
  have "tracker_wf kept" using tracker_split_off_spec [OF g(6) sp] by blast
  then have "tracker_wf (local_proposals (volatile ?n))" by (simp add: truncate_from_eq sp)
  moreover have "geometry_ok ?n"
    using g assms(2) unfolding geometry_ok_def truncate_from_last truncate_from_snapshot_index
    by (simp add: truncate_from_eq)
  moreover have "membership_sources_wf ?n"
    using g(5) set_take_subset by (fastforce simp: membership_sources_wf_def truncate_from_eq)
  ultimately have "node_inv ?n" using g(4) by (simp add: node_inv_def truncate_from_derived)
  moreover have "evolves n ?n"
    using assms(2) by (simp add: evolves_def truncate_from_entry_at) (simp add: truncate_from_eq)
  ultimately show ?thesis by (simp add: good_def)
qed

text \<open>
  Installing a snapshot is good when it does not go back behind the installed one and either
  covers everything committed or agrees with the local log at its boundary.
\<close>

lemma term_at_defined: "term_at n i = Some t \<Longrightarrow> snapshot_index n \<le> i \<and> i \<le> last_log_index n"
  by (cases "i \<le> last_log_index n"; cases "i < snapshot_index n")
    (simp_all add: term_at_beyond term_at_below)

lemma retained_suffix_entry:
  assumes "snapshot_index n \<le> b" "b < i" "b = last_included_index (metadata snap)"
    "term_at n b = Some (last_included_term (metadata snap))"
  shows "get (retained_suffix snap n) (i - Suc b) = entry_at n i"
proof -
  have "retained_suffix snap n = drop (b - snapshot_index n) (Node_log n)"
    using assms log_entries_from_nth [of n "Suc b"] by (simp add: retained_suffix_def)
  moreover have "b - snapshot_index n + (i - Suc b) = i - Suc (snapshot_index n)"
    using assms by simp
  ultimately show ?thesis using assms by (simp add: get_drop entry_at_get)
qed

lemma retained_suffix_length:
  assumes "term_at n (last_included_index (metadata snap)) = Some (last_included_term (metadata snap))"
  shows "last_included_index (metadata snap) + length (retained_suffix snap n) = last_log_index n"
  using assms term_at_defined [OF assms] log_entries_from_nth [of n "Suc (last_included_index (metadata snap))"]
  by (simp add: retained_suffix_def last_log_index_def)

lemma set_retained_suffix: "set (retained_suffix snap n) \<subseteq> set (Node_log n)"
  by (auto simp: retained_suffix_def log_entries_from_def Let_def dest: in_set_dropD)

lemma good_install_snapshot_with:
  assumes "node_inv n" "metadata_wf (metadata snap)"
    and b: "snapshot_index n \<le> last_included_index (metadata snap)"
    and covers: "Node_commit_index n \<le> last_included_index (metadata snap) \<or>
      term_at n (last_included_index (metadata snap)) = Some (last_included_term (metadata snap))"
  shows "good n (fst (install_snapshot_state_with_committed_configuration snap cc n))"
proof -
  let ?b = "last_included_index (metadata snap)"
  obtain lp where lp: "tracker_wf lp"
    and eq: "fst (install_snapshot_state_with_committed_configuration snap cc n) = n\<lparr>
     persistent := (persistent n)\<lparr>snapshot := Some snap, committed_configuration := cc,
       log := retained_suffix snap n\<rparr>,
     derived := ci_from_log (retained_suffix snap n),
     volatile := (volatile n)\<lparr>local_proposals := lp,
       commit_index := max (Node_commit_index n) ?b,
       dispatched_index := max (Node_dispatched_index n) ?b\<rparr>\<rparr>" (is "_ = ?n")
    using install_snapshot_state_with_eq by blast
  have g: "snapshot_index n \<le> Node_dispatched_index n" "Node_dispatched_index n \<le> Node_commit_index n"
    "Node_commit_index n \<le> last_log_index n" "membership_sources_wf n"
    using assms(1) by (simp_all add: node_inv_def geometry_ok_def)
  have si: "snapshot_index ?n = ?b" by (simp add: snapshot_index_def)
  have last: "last_log_index ?n = ?b + length (retained_suffix snap n)"
    unfolding last_log_index_def si by simp
  have "max (Node_commit_index n) ?b \<le> last_log_index ?n"
    using covers retained_suffix_length [of n snap] g unfolding last by auto
  then have "geometry_ok ?n" using g unfolding geometry_ok_def si by auto
  moreover have "membership_sources_wf ?n"
    using g(4) assms(2) set_retained_suffix [of snap n] by (auto simp: membership_sources_wf_def)
  ultimately have "node_inv ?n" using lp by (simp add: node_inv_def derived_ok_def)
  moreover have "entry_at ?n i = entry_at n i" if "?b < i" "i \<le> Node_commit_index n" for i
  proof -
    have "term_at n ?b = Some (last_included_term (metadata snap))" using covers that by auto
    with retained_suffix_entry [OF b that(1) refl] show ?thesis
      unfolding entry_at_get [of ?n] si using that by simp
  qed
  then have "evolves n ?n" using b by (auto simp: evolves_def si)
  ultimately show ?thesis unfolding eq by (simp add: good_def)
qed

section \<open>Outputs handed to the application\<close>

text \<open>The entries a list of outputs applies, in order.\<close>

fun applied_entry :: "Output \<Rightarrow> (LogIndex \<times> Term \<times> SharedPayload) option" where
  "applied_entry (Apply i t p l) = Some (i, t, p)"
| "applied_entry _ = None"

definition applies :: "Output list \<Rightarrow> (LogIndex \<times> Term \<times> SharedPayload) list" where
  "applies outs = List.map_filter applied_entry outs"

lemma applies_Nil [simp]: "applies [] = []"
  by (simp add: applies_def List.map_filter_simps)

lemma applies_append [simp]: "applies (xs @ ys) = applies xs @ applies ys"
  by (simp add: applies_def List.map_filter_def)

lemma applies_Cons:
  "applies (x # xs) = (case applied_entry x of None \<Rightarrow> applies xs | Some a \<Rightarrow> a # applies xs)"
  by (simp add: applies_def List.map_filter_simps split: option.split)

lemma applies_quiet: "(\<And>x. x \<in> set outs \<Longrightarrow> applied_entry x = None) \<Longrightarrow> applies outs = []"
  by (induction outs) (auto simp: applies_Cons)

text \<open>
  A step emits exactly the application entries between the old and the new dispatch cursor that
  the new node still retains, in index order.
\<close>

definition emits :: "Node \<Rightarrow> Node \<Rightarrow> Output list \<Rightarrow> bool" where
  "emits n n' outs \<longleftrightarrow>
     sorted_wrt (<) (map fst (applies outs)) \<and>
     (\<forall>i t p. (i, t, p) \<in> set (applies outs) \<longrightarrow>
        Node_dispatched_index n < i \<and> i \<le> Node_dispatched_index n' \<and>
        (snapshot_index n' < i \<longrightarrow> entry_at n' i = Some (application_entry t p))) \<and>
     (\<forall>i t p. Node_dispatched_index n < i \<longrightarrow> i \<le> Node_dispatched_index n' \<longrightarrow>
        entry_at n' i = Some (application_entry t p) \<longrightarrow> (i, t, p) \<in> set (applies outs))"

definition good_step :: "Node \<Rightarrow> Node \<times> Output list \<Rightarrow> bool" where
  "good_step n r \<longleftrightarrow> good n (fst r) \<and> emits n (fst r) (snd r)"

lemma emits_cong: "applies xs = applies ys \<Longrightarrow> emits n n' xs = emits n n' ys"
  by (simp only: emits_def)

lemma emits_quiet:
  "applies outs = [] \<Longrightarrow> Node_dispatched_index n' = Node_dispatched_index n \<Longrightarrow> emits n n' outs"
  by (simp add: emits_def)

lemma emits_snapshot:
  "applies outs = [] \<Longrightarrow> Node_dispatched_index n' \<le> snapshot_index n' \<Longrightarrow> emits n n' outs"
  by (auto simp: emits_def entry_at_Some_iff)

lemma emits_trans:
  assumes "good a b" "good b c" "emits a b xs" "emits b c ys"
  shows "emits a c (xs @ ys)"
proof -
  have mono: "Node_dispatched_index a \<le> Node_dispatched_index b"
      "Node_dispatched_index b \<le> Node_dispatched_index c"
      "Node_dispatched_index b \<le> Node_commit_index b" "snapshot_index b \<le> snapshot_index c"
    using assms(1,2) by (auto simp: good_def evolves_def node_inv_def geometry_ok_def)
  have keep: "entry_at c i = entry_at b i" if "snapshot_index c < i" "i \<le> Node_dispatched_index b" for i
    using that mono assms(2) by (auto simp: good_def evolves_def)
  have xs: "Node_dispatched_index a < i \<and> i \<le> Node_dispatched_index b \<and>
      (snapshot_index b < i \<longrightarrow> entry_at b i = Some (application_entry t p))"
    if "(i, t, p) \<in> set (applies xs)" for i t p using that assms(3) unfolding emits_def by blast
  have ys: "Node_dispatched_index b < i \<and> i \<le> Node_dispatched_index c \<and>
      (snapshot_index c < i \<longrightarrow> entry_at c i = Some (application_entry t p))"
    if "(i, t, p) \<in> set (applies ys)" for i t p using that assms(4) unfolding emits_def by blast
  have "x \<le> Node_dispatched_index b" if "x \<in> set (map fst (applies xs))" for x
  proof -
    from that obtain t p where "(x, t, p) \<in> set (applies xs)" by auto
    from xs [OF this] show ?thesis by simp
  qed
  moreover have "Node_dispatched_index b < y" if "y \<in> set (map fst (applies ys))" for y
  proof -
    from that obtain t p where "(y, t, p) \<in> set (applies ys)" by auto
    from ys [OF this] show ?thesis by simp
  qed
  moreover have "sorted_wrt (<) (map fst (applies xs))" "sorted_wrt (<) (map fst (applies ys))"
    using assms(3,4) unfolding emits_def by blast+
  ultimately have "sorted_wrt (<) (map fst (applies (xs @ ys)))"
    unfolding applies_append map_append sorted_wrt_append by (meson le_less_trans)
  moreover have "Node_dispatched_index a < i \<and> i \<le> Node_dispatched_index c \<and>
      (snapshot_index c < i \<longrightarrow> entry_at c i = Some (application_entry t p))"
    if "(i, t, p) \<in> set (applies (xs @ ys))" for i t p
    using that xs [of i t p] ys [of i t p] mono keep [of i] by auto
  moreover have "(i, t, p) \<in> set (applies (xs @ ys))"
    if "Node_dispatched_index a < i" "i \<le> Node_dispatched_index c"
      "entry_at c i = Some (application_entry t p)" for i t p
  proof (cases "i \<le> Node_dispatched_index b")
    case True
    then have "entry_at b i = Some (application_entry t p)"
      using keep [of i] that by (auto simp: entry_at_Some_iff)
    then have "(i, t, p) \<in> set (applies xs)"
      using True that(1) assms(3) unfolding emits_def by blast
    then show ?thesis by simp
  next
    case False
    then have "(i, t, p) \<in> set (applies ys)"
      using that(2,3) assms(4) unfolding emits_def by (meson not_le_imp_less)
    then show ?thesis by simp
  qed
  ultimately show ?thesis unfolding emits_def by blast
qed

lemma good_step_trans:
  "good_step a (b, xs) \<Longrightarrow> good_step b (c, ys) \<Longrightarrow> good_step a (c, xs @ ys)"
  using good_trans emits_trans by (auto simp: good_step_def)

lemma good_step_quiet:
  "good n n' \<Longrightarrow> Node_dispatched_index n' = Node_dispatched_index n \<Longrightarrow> applies outs = [] \<Longrightarrow>
   good_step n (n', outs)"
  by (simp add: good_step_def emits_quiet)

lemma good_step_refl: "node_inv n \<Longrightarrow> applies outs = [] \<Longrightarrow> good_step n (n, outs)"
  by (simp add: good_step_quiet good_refl)

lemma good_step_inv: "good_step n (n', outs) \<Longrightarrow> node_inv n'"
  by (auto simp: good_step_def good_def)

lemma good_step_leader: "node_inv n \<Longrightarrow> applies outs = [] \<Longrightarrow> good_step n (n\<lparr>leader := l\<rparr>, outs)"
  by (simp add: good_step_quiet good_leader)

text \<open>Quiet outputs around a good step keep it good.\<close>

lemma good_step_cong:
  "good_step n (n', outs) \<Longrightarrow> applies outs' = applies outs \<Longrightarrow> good_step n (n', outs')"
  unfolding good_step_def fst_conv snd_conv using emits_cong by blast

lemma good_step_Cons: "good_step n (n', outs) \<Longrightarrow> applied_entry x = None \<Longrightarrow> good_step n (n', x # outs)"
  by (erule good_step_cong) (simp add: applies_Cons)

lemma good_step_append_quiet:
  "good_step n (n', outs) \<Longrightarrow> applies xs = [] \<Longrightarrow> good_step n (n', outs @ xs)"
  by (erule good_step_cong) simp

lemma good_step_prepend_quiet:
  "good_step n (n', outs) \<Longrightarrow> applies xs = [] \<Longrightarrow> good_step n (n', xs @ outs)"
  by (erule good_step_cong) simp

lemma applies_dropped_outputs [simp]: "applies (dropped_outputs t r) = []"
  by (rule applies_quiet) (auto simp: dropped_outputs_def)

lemma applies_map_Send [simp]: "applies (map (\<lambda>x. Send (f x) (g x)) xs) = []"
  by (rule applies_quiet) auto

end
