(* ===== verification/Samples.thy ===== *)
theory Samples
  imports Node_Invariant
begin

text \<open>
  Concrete nodes of a three-voter cluster, used to instantiate the theorems of the development: a
  follower with a committed prefix and an uncommitted suffix, and a leader of the same log.
\<close>

definition sample_config :: NodeConfig where
  "sample_config = from_validated_membership 1 [2, 3] [1, 2, 3]
     (StableMembership \<lparr>voters = [1, 2, 3], learners = []\<rparr>) 10"

definition sample_log :: "LogEntry list" where
  "sample_log = [noop_entry 1, application_entry 1 [7], noop_entry 2, application_entry 2 [8, 9]]"

definition sample_follower :: Node where
  "sample_follower = \<lparr>config = sample_config,
     persistent = \<lparr>current_term = 2, voted_for = None, committed_configuration = None, snapshot = None,
       log = sample_log\<rparr>,
     volatile = at_dispatched_index 2, election = ElectionState_default,
     leader = LeaderState_default, derived = []\<rparr>"

definition sample_leader :: Node where
  "sample_leader = sample_follower\<lparr>
     volatile := (volatile sample_follower)\<lparr>role := Leader, leader_hint := Some 1\<rparr>,
     leader := LeaderState_default\<lparr>progress :=
       ps_reset ProgressSet_default (static_membership sample_config) 1 3 4\<rparr>\<rparr>"

lemmas sample_defs = sample_leader_def sample_follower_def sample_config_def sample_log_def
  from_validated_membership_def at_dispatched_index_def

lemma sample_membership:
  "static_membership sample_config = StableMembership \<lparr>voters = [1, 2, 3], learners = []\<rparr>"
  by (simp add: sample_defs)

lemma sample_snapshot_index [simp]: "snapshot_index sample_follower = 0" "snapshot_index sample_leader = 0"
  by (simp_all add: snapshot_index_def sample_defs)

lemma sample_last [simp]: "last_log_index sample_follower = 4" "last_log_index sample_leader = 4"
  unfolding last_log_index_def sample_snapshot_index by (simp_all add: sample_defs)

lemma sample_term_at:
  "term_at sample_follower i = (if i \<le> 2 then Some (if i = 0 then 0 else 1) else if i \<le> 4 then Some 2 else None)"
  by (simp add: term_at_def entry_at_get) (auto simp: sample_defs get_def nth_Cons split: nat.split)

lemma sample_follower_inv: "node_inv sample_follower"
  unfolding node_inv_def geometry_ok_def sample_snapshot_index sample_last
  by (simp add: sample_defs derived_ok_def ci_from_log_def membership_sources_wf_def entry_wf_def
      membership_set_wf_def ordered_def)

lemma sample_leader_inv: "node_inv sample_leader"
proof -
  have "same_log sample_follower sample_leader" by (simp add: same_log_def sample_leader_def)
  with sample_follower_inv show ?thesis
    by (rule node_inv_same_log) (simp_all add: sample_leader_def, simp_all add: sample_defs)
qed

lemma sample_effective_membership [simp]:
  "effective_membership sample_follower = static_membership sample_config"
  "effective_membership sample_leader = static_membership sample_config"
  by (simp_all add: effective_membership_empty effective_base_membership_def sample_leader_def
      sample_follower_def)

lemma sample_replica_ids [simp]: "replica_ids (static_membership sample_config) = [1, 2, 3]"
  by (simp add: sample_membership set_replica_ids_def union_node_ids_def btree_set_def)

lemma sample_small: "small_config (static_membership sample_config)"
  unfolding small_config_def small_nodes_def sample_replica_ids by (simp add: u64_max_def)

lemma sample_leader_progress:
  "ps_wf (progress (leader sample_leader))"
  "ps_get (progress (leader sample_leader)) k =
     (if k \<in> {1, 2, 3} then Some (initial_progress 1 3 4 k) else None)"
  using ps_wf_reset [OF sample_small]
  by (simp_all add: sample_leader_def ps_get_reset)

text \<open>The leader once its whole log is committed and handed out.\<close>

definition sample_committed :: Node where
  "sample_committed = map_volatile (\<lambda>v. v\<lparr>commit_index := 4, dispatched_index := 4\<rparr>) sample_leader"

lemma sample_committed_same_log: "same_log sample_leader sample_committed"
  by (simp add: same_log_def sample_committed_def)

lemma sample_committed_inv: "node_inv sample_committed"
  using sample_leader_inv same_log_simps [OF sample_committed_same_log]
  by (simp add: node_inv_def geometry_ok_def derived_ok_def membership_sources_wf_def)
    (simp add: sample_committed_def)

lemma sample_committed_effective [simp]:
  "effective_membership sample_committed = static_membership sample_config"
  using same_log_membership [OF sample_committed_same_log] by simp

lemma sample_leader_term_at: "term_at sample_leader i = term_at sample_follower i"
  by (rule same_log_term_at) (simp add: same_log_def sample_leader_def)

lemma sample_committed_term_at: "term_at sample_committed 4 = Some 2"
  using same_log_term_at [OF sample_committed_same_log, of 4] by (simp add: sample_leader_term_at sample_term_at)

lemma sample_quorum:
  "has_quorum (static_membership sample_config) ns \<longleftrightarrow> 2 \<le> length (filter (\<lambda>v. v \<in> set ns) [1, 2, 3])"
  unfolding sample_membership by (simp only: has_quorum.simps set_has_quorum_def) (simp add: quorum_size_def majority_def)

end
