(* ===== verification/Commit.thy ===== *)
theory Commit
  imports Samples
begin

text \<open>
  Role changes and commitment: \<open>node/lifecycle.rs\<close>, \<open>node/commit/{advance,emit}.rs\<close> and the
  progress reconciliation of \<open>node/replication/progress.rs\<close>. The index a quorum has replicated
  is characterised by the reference quorum definition, and the emission loop by the committed
  log it walks over.
\<close>

section \<open>Leaving leadership\<close>

definition drain_local_proposals :: "Node \<Rightarrow> LocalProposalDropReason \<Rightarrow> Node \<times> Output list" where
  "drain_local_proposals n reason =
     (map_volatile (\<lambda>v. v\<lparr>local_proposals := []\<rparr>) n,
      dropped_outputs (local_proposals (volatile n)) reason)"

definition canceled_outputs :: "PendingReadRound list \<Rightarrow> ReadIndexCancelReason \<Rightarrow> Output list" where
  "canceled_outputs rounds reason =
     concat (map (\<lambda>pending. map (\<lambda>r. ReadIndexCanceled r reason) (read_ids pending)) rounds)"

definition drain_pending_reads :: "Node \<Rightarrow> ReadIndexCancelReason \<Rightarrow> Node \<times> Output list" where
  "drain_pending_reads n reason =
     (map_leader (\<lambda>l. l\<lparr>pending_reads := []\<rparr>) n, canceled_outputs (pending_reads (leader n)) reason)"

definition become_follower :: "Term \<Rightarrow> Node \<Rightarrow> Node \<times> Output list" where
  "become_follower trm n =
     (let (n, outputs1) = drain_local_proposals n ProposalLeadershipLost;
          (n, outputs2) = drain_pending_reads n ReadLeadershipLost;
          n = (if trm > Node_current_term n
               then map_volatile (\<lambda>v. v\<lparr>leader_hint := None\<rparr>)
                      (map_persistent (\<lambda>p. p\<lparr>voted_for := None\<rparr>) n)
               else n);
          n = map_volatile (\<lambda>v. v\<lparr>role := Follower\<rparr>) n;
          n = map_persistent (\<lambda>p. p\<lparr>current_term := max (current_term p) trm\<rparr>) n;
          n = map_election reset_for_follower n;
          n = n\<lparr>leader := LeaderState_default\<rparr>
      in (n, outputs1 @ outputs2))"

section \<open>Replication progress of the leader\<close>

definition reconcile_replication_progress :: "Node \<Rightarrow> Node" where
  "reconcile_replication_progress n =
     (if Node_role n \<noteq> Leader then n
      else let self_id = Node_id n;
               first_sendable = LogIndex_next (snapshot_index n);
               local_match = last_log_index n
           in if derived n = []
              then map_progress (\<lambda>ps. reconcile_membership ps (effective_base_membership n) self_id
                     first_sendable local_match) n
              else map_progress (\<lambda>ps. reconcile_membership ps (effective_membership n) self_id
                     first_sendable local_match) n)"

definition record_local_progress :: "Node \<Rightarrow> Node" where
  "record_local_progress n =
     (let last_log = last_log_index n;
          n = reconcile_replication_progress n
      in map_progress (\<lambda>ps. ps_modify ps (Node_id n)
           (\<lambda>p. p\<lparr>match_index := last_log, next_index := LogIndex_next last_log\<rparr>)) n)"

section \<open>The commit rule\<close>

text \<open>\<open>select_nth_unstable_by\<close> with the reversed comparison puts the value of descending rank
  \<open>threshold\<close> at that position.\<close>

definition quorum_index :: "ProgressSet \<Rightarrow> SlotSet \<Rightarrow> LogIndex option" where
  "quorum_index ps vs =
     (let quorum = SlotSet_count vs div 2 + 1;
          match_indexes = match_indexes_for ps vs
      in if length match_indexes < quorum then None
         else Some (rev (sort match_indexes) ! (quorum - 1)))"

definition quorum_replicated_index :: "ProgressSet \<Rightarrow> LogIndex option" where
  "quorum_replicated_index ps =
     (case quorum_index ps (mi_old_voters (ps_index ps)) of
        None \<Rightarrow> None
      | Some old_quorum \<Rightarrow>
          (case mi_new_voters (ps_index ps) of
             None \<Rightarrow> Some old_quorum
           | Some new_voters \<Rightarrow>
               (case quorum_index ps new_voters of
                  None \<Rightarrow> None
                | Some new_quorum \<Rightarrow> Some (min old_quorum new_quorum))))"

section \<open>Emitting committed entries\<close>

definition membership_before :: "Node \<Rightarrow> LogIndex \<Rightarrow> MembershipConfig" where
  "membership_before n index = membership_at_index n (sat_sub index 1)"

definition step_down_if_removed :: "MembershipConfig \<Rightarrow> Node \<Rightarrow> Node \<times> Output list" where
  "step_down_if_removed m n =
     (if Node_role n = Leader \<and> \<not> contains_voter m (Node_id n)
      then become_follower (Node_current_term n) n
      else (n, []))"

definition emit_one :: "Node \<Rightarrow> (Node \<times> Output list) option" where
  "emit_one n =
     (if Node_dispatched_index n < Node_commit_index n then
        let index = LogIndex_next (Node_dispatched_index n) in
        case entry_at n index of
          None \<Rightarrow> None
        | Some entry \<Rightarrow>
            let n = map_volatile (\<lambda>v. v\<lparr>dispatched_index := index\<rparr>) n;
                (tracker, removed) = tracker_remove (local_proposals (volatile n)) index;
                n = map_volatile (\<lambda>v. v\<lparr>local_proposals := tracker\<rparr>) n;
                local_proposal_id = Option.bind removed
                  (\<lambda>p. if lp_term p = entry_term entry then Some (lp_id p) else None)
            in (case entry_kind entry of
                  Application payload \<Rightarrow>
                    Some (n, [Apply index (entry_term entry) payload local_proposal_id])
                | Configuration c \<Rightarrow>
                    let previous = membership_before n index;
                        (n, outputs) = step_down_if_removed (membership_config c) n
                    in Some (n, ConfigurationCommitted index (entry_term entry) previous c # outputs)
                | Noop \<Rightarrow> Some (n, []))
      else None)"

section \<open>Frames\<close>

lemma become_follower_eq:
  "fst (become_follower trm n) = n\<lparr>
     persistent := (persistent n)\<lparr>
       voted_for := (if trm > Node_current_term n then None else Node_voted_for n),
       current_term := max (Node_current_term n) trm\<rparr>,
     volatile := (volatile n)\<lparr>local_proposals := [], role := Follower,
       leader_hint := (if trm > Node_current_term n then None else Node_leader_hint n)\<rparr>,
     election := reset_for_follower (election n),
     leader := LeaderState_default\<rparr>"
  by (simp add: become_follower_def drain_local_proposals_def drain_pending_reads_def Let_def)

lemma become_follower_outputs:
  "snd (become_follower trm n) =
     dropped_outputs (local_proposals (volatile n)) ProposalLeadershipLost @
     canceled_outputs (pending_reads (leader n)) ReadLeadershipLost"
  by (simp add: become_follower_def drain_local_proposals_def drain_pending_reads_def Let_def)

lemma become_follower_frame [frame_simps]:
  "config (fst (become_follower trm n)) = config n"
  "derived (fst (become_follower trm n)) = derived n"
  "Node_log (fst (become_follower trm n)) = Node_log n"
  "Node_snapshot (fst (become_follower trm n)) = Node_snapshot n"
  "committed_configuration (persistent (fst (become_follower trm n))) = committed_configuration (persistent n)"
  "Node_commit_index (fst (become_follower trm n)) = Node_commit_index n"
  "Node_dispatched_index (fst (become_follower trm n)) = Node_dispatched_index n"
  "incoming_snapshot (volatile (fst (become_follower trm n))) = incoming_snapshot (volatile n)"
  "Node_role (fst (become_follower trm n)) = Follower"
  "Node_current_term (fst (become_follower trm n)) = max (Node_current_term n) trm"
  "leader (fst (become_follower trm n)) = LeaderState_default"
  by (simp_all add: become_follower_eq)

lemma step_down_if_removed_frame [frame_simps]:
  "config (fst (step_down_if_removed m n)) = config n"
  "derived (fst (step_down_if_removed m n)) = derived n"
  "Node_log (fst (step_down_if_removed m n)) = Node_log n"
  "Node_snapshot (fst (step_down_if_removed m n)) = Node_snapshot n"
  "Node_commit_index (fst (step_down_if_removed m n)) = Node_commit_index n"
  "Node_dispatched_index (fst (step_down_if_removed m n)) = Node_dispatched_index n"
  "Node_current_term (fst (step_down_if_removed m n)) = Node_current_term n"
  "Node_voted_for (fst (step_down_if_removed m n)) = Node_voted_for n"
  by (simp_all add: step_down_if_removed_def become_follower_eq)

lemma emit_one_Some:
  assumes "emit_one n = Some (n', outs)"
  obtains entry where "Node_dispatched_index n < Node_commit_index n"
    and "entry_at n (Suc (Node_dispatched_index n)) = Some entry"
    and "config n' = config n" "derived n' = derived n" "Node_log n' = Node_log n"
    and "Node_snapshot n' = Node_snapshot n" "Node_commit_index n' = Node_commit_index n"
    and "Node_dispatched_index n' = Suc (Node_dispatched_index n)"
    and "Node_current_term n' = Node_current_term n" "Node_voted_for n' = Node_voted_for n"
proof -
  from assms obtain entry where "Node_dispatched_index n < Node_commit_index n"
      "entry_at n (Suc (Node_dispatched_index n)) = Some entry"
    by (auto simp: emit_one_def Let_def split: if_splits option.splits)
  moreover from this assms have "config n' = config n \<and> derived n' = derived n \<and>
      Node_log n' = Node_log n \<and> Node_snapshot n' = Node_snapshot n \<and>
      Node_commit_index n' = Node_commit_index n \<and>
      Node_dispatched_index n' = Suc (Node_dispatched_index n) \<and>
      Node_current_term n' = Node_current_term n \<and> Node_voted_for n' = Node_voted_for n"
    by (cases "entry_kind entry")
      (auto simp: emit_one_def Let_def case_prod_unfold frame_simps)
  ultimately show thesis using that by blast
qed

function emit_committed_outputs :: "Node \<Rightarrow> Node \<times> Output list" where
  "emit_committed_outputs n =
     (case emit_one n of
        None \<Rightarrow> (n, [])
      | Some (n', outputs) \<Rightarrow>
          let (n'', rest) = emit_committed_outputs n' in (n'', outputs @ rest))"
  by pat_completeness auto
termination
proof (relation "measure (\<lambda>n. Node_commit_index n - Node_dispatched_index n)")
  fix n r n' outs
  assume "emit_one n = Some r" "(n', outs) = r"
  then have "emit_one n = Some (n', outs)" by simp
  then show "(n', n) \<in> measure (\<lambda>n. Node_commit_index n - Node_dispatched_index n)"
    by (rule emit_one_Some) simp
qed simp

declare emit_committed_outputs.simps [simp del]

definition drain_committed_outputs :: "Node \<Rightarrow> Node \<times> Output list" where
  "drain_committed_outputs n = emit_committed_outputs n"

definition advance_commit_index :: "Node \<Rightarrow> Node \<times> Output list" where
  "advance_commit_index n =
     (let n = reconcile_replication_progress n in
      case quorum_replicated_index (progress (leader n)) of
        None \<Rightarrow> (n, [])
      | Some candidate \<Rightarrow>
          if candidate \<le> Node_commit_index n then (n, [])
          else if term_at n candidate \<noteq> Some (Node_current_term n) then (n, [])
          else emit_committed_outputs (map_volatile (\<lambda>v. v\<lparr>commit_index := candidate\<rparr>) n))"

definition become_leader :: "Node \<Rightarrow> Node \<times> Output list" where
  "become_leader n =
     (let n = map_volatile (\<lambda>v. v\<lparr>role := Leader\<rparr>) n;
          n = map_volatile (\<lambda>v. v\<lparr>leader_hint := Some (Node_id n)\<rparr>) n;
          n = map_election enter_leadership n;
          n = n\<lparr>leader := LeaderState_default\<rparr>;
          n = map_volatile (\<lambda>v. v\<lparr>incoming_snapshot := None\<rparr>) n;
          n = append_log_entry (noop_entry (Node_current_term n)) n;
          noop_index = last_log_index n;
          n = map_progress (\<lambda>ps. ps_reset ps (effective_membership n) (Node_id n) noop_index noop_index) n
      in advance_commit_index n)"

section \<open>Role changes and commitment are good steps\<close>

lemma applies_canceled_outputs [simp]: "applies (canceled_outputs rs r) = []"
  by (rule applies_quiet) (auto simp: canceled_outputs_def)

lemma applies_become_follower [simp]: "applies (snd (become_follower trm n)) = []"
  by (simp add: become_follower_outputs)

lemma good_become_follower: "node_inv n \<Longrightarrow> good n (fst (become_follower trm n))"
  by (rule good_same_log) (auto simp: same_log_def become_follower_eq)

lemma good_step_become_follower: "node_inv n \<Longrightarrow> good_step n (become_follower trm n)"
  using good_step_quiet [OF good_become_follower, of n trm "snd (become_follower trm n)"]
  by (simp add: frame_simps)

lemma reconcile_replication_progress_leader:
  "reconcile_replication_progress n = n\<lparr>leader := leader (reconcile_replication_progress n)\<rparr>"
  by (simp add: reconcile_replication_progress_def Let_def)

lemma reconcile_replication_progress_frame [frame_simps]:
  "config (reconcile_replication_progress n) = config n"
  "persistent (reconcile_replication_progress n) = persistent n"
  "volatile (reconcile_replication_progress n) = volatile n"
  "election (reconcile_replication_progress n) = election n"
  "derived (reconcile_replication_progress n) = derived n"
  by (simp_all add: reconcile_replication_progress_def Let_def)

lemma good_reconcile_replication_progress: "node_inv n \<Longrightarrow> good n (reconcile_replication_progress n)"
  using reconcile_replication_progress_leader good_leader by metis

lemma record_local_progress_leader:
  "record_local_progress n = n\<lparr>leader := leader (record_local_progress n)\<rparr>"
  using reconcile_replication_progress_leader [of n]
  by (simp add: record_local_progress_def Let_def frame_simps)

text \<open>One iteration of the emission loop.\<close>

lemma step_down_if_removed_quiet [simp]: "applies (snd (step_down_if_removed m n)) = []"
  by (simp add: step_down_if_removed_def)

lemma step_down_if_removed_tracker:
  "tracker_wf (local_proposals (volatile n)) \<Longrightarrow>
   tracker_wf (local_proposals (volatile (fst (step_down_if_removed m n))))"
  by (simp add: step_down_if_removed_def become_follower_eq)

lemma emit_one_tracker:
  assumes "emit_one n = Some (n', outs)" "tracker_wf (local_proposals (volatile n))"
  shows "tracker_wf (local_proposals (volatile n'))"
proof -
  let ?i = "Suc (Node_dispatched_index n)"
  have "tracker_wf (fst (tracker_remove (local_proposals (volatile n)) ?i))"
    using tracker_remove_spec [OF assms(2)] by blast
  with assms(1) show ?thesis
    by (auto simp: emit_one_def Let_def case_prod_unfold split: if_splits option.splits LogEntryKind.splits
        intro!: step_down_if_removed_tracker)
qed

lemma emit_one_applies:
  assumes "emit_one n = Some (n', outs)"
    and "entry_at n (Suc (Node_dispatched_index n)) = Some e"
  shows "applies outs = (case entry_kind e of
    Application p \<Rightarrow> [(Suc (Node_dispatched_index n), entry_term e, p)] | _ \<Rightarrow> [])"
  using assms
  by (cases "entry_kind e")
    (auto simp: emit_one_def Let_def case_prod_unfold applies_Cons split: if_splits)

lemma good_step_emit_one:
  assumes "node_inv n" "emit_one n = Some (n', outs)"
  shows "good_step n (n', outs)"
proof -
  obtain e where e: "Node_dispatched_index n < Node_commit_index n"
      "entry_at n (Suc (Node_dispatched_index n)) = Some e"
    and f: "config n' = config n" "derived n' = derived n" "Node_log n' = Node_log n"
      "Node_snapshot n' = Node_snapshot n" "Node_commit_index n' = Node_commit_index n"
      "Node_dispatched_index n' = Suc (Node_dispatched_index n)"
      "Node_current_term n' = Node_current_term n" "Node_voted_for n' = Node_voted_for n"
    using emit_one_Some [OF assms(2)] by metis
  have same: "same_log n n'" using f by (simp add: same_log_def)
  have "node_inv n'"
    using assms(1) e(1) f emit_one_tracker [OF assms(2)] same_log_simps [OF same]
    by (auto simp: node_inv_def geometry_ok_def derived_ok_def membership_sources_wf_def)
  moreover have "evolves n n'"
    using f same_log_simps [OF same] by (simp add: evolves_def)
  moreover have "emits n n' outs"
    using emit_one_applies [OF assms(2) e(2)] e(2) f(6) same_log_simps [OF same]
    by (cases "entry_kind e"; cases e) (auto simp: emits_def le_Suc_eq)
  ultimately show ?thesis by (simp add: good_step_def good_def)
qed

lemma good_step_emit_committed_outputs: "node_inv n \<Longrightarrow> good_step n (emit_committed_outputs n)"
proof (induction n rule: emit_committed_outputs.induct)
  case (1 n)
  show ?case
  proof (cases "emit_one n")
    case None
    with 1 show ?thesis by (simp add: emit_committed_outputs.simps [of n] good_step_refl)
  next
    case (Some r)
    obtain n' outs where r: "r = (n', outs)" by fastforce
    obtain n'' rest where e: "emit_committed_outputs n' = (n'', rest)" by fastforce
    have one: "good_step n (n', outs)" using good_step_emit_one 1 Some r by blast
    moreover have "good_step n' (n'', rest)"
      using 1(1) [OF Some] r e good_step_inv [OF one] by simp
    ultimately have "good_step n (n'', outs @ rest)" by (rule good_step_trans)
    with Some r e show ?thesis by (simp add: emit_committed_outputs.simps [of n])
  qed
qed

text \<open>The loop only stops at the commit index.\<close>

lemma emit_one_None_iff: "node_inv n \<Longrightarrow> emit_one n = None \<longleftrightarrow> Node_dispatched_index n = Node_commit_index n"
proof -
  assume "node_inv n"
  then have g: "snapshot_index n \<le> Node_dispatched_index n" "Node_dispatched_index n \<le> Node_commit_index n"
      "Node_commit_index n \<le> last_log_index n"
    by (simp_all add: node_inv_def geometry_ok_def)
  show ?thesis
  proof (cases "Node_dispatched_index n < Node_commit_index n")
    case True
    then obtain e where "entry_at n (Suc (Node_dispatched_index n)) = Some e"
      using g entry_at_defined_iff [of n "Suc (Node_dispatched_index n)"] by auto
    with True show ?thesis
      by (auto simp: emit_one_def Let_def case_prod_unfold split: LogEntryKind.splits)
  next
    case False
    with g show ?thesis by (auto simp: emit_one_def)
  qed
qed

lemma emit_committed_outputs_done:
  "node_inv n \<Longrightarrow> Node_dispatched_index (fst (emit_committed_outputs n)) = Node_commit_index n \<and>
     Node_commit_index (fst (emit_committed_outputs n)) = Node_commit_index n"
proof (induction n rule: emit_committed_outputs.induct)
  case (1 n)
  show ?case
  proof (cases "emit_one n")
    case None
    moreover from this 1 have "Node_dispatched_index n = Node_commit_index n"
      using emit_one_None_iff by blast
    ultimately show ?thesis by (simp add: emit_committed_outputs.simps [of n])
  next
    case (Some r)
    obtain n' outs where r: "r = (n', outs)" by fastforce
    have "node_inv n'" using good_step_emit_one 1 Some r good_step_inv by blast
    moreover have "Node_commit_index n' = Node_commit_index n"
      using emit_one_Some Some r by blast
    ultimately show ?thesis
      using 1(1) [OF Some] r Some by (simp add: emit_committed_outputs.simps [of n] Let_def case_prod_unfold)
  qed
qed

lemma emit_committed_outputs_frame:
  "same_log n (fst (emit_committed_outputs n)) \<and>
   Node_current_term (fst (emit_committed_outputs n)) = Node_current_term n \<and>
   Node_voted_for (fst (emit_committed_outputs n)) = Node_voted_for n"
proof (induction n rule: emit_committed_outputs.induct)
  case (1 n)
  show ?case
  proof (cases "emit_one n")
    case None
    then show ?thesis by (simp add: emit_committed_outputs.simps [of n])
  next
    case (Some r)
    obtain n' outs where r: "r = (n', outs)" by fastforce
    from Some r have one: "emit_one n = Some (n', outs)" by simp
    then have "same_log n n' \<and> Node_current_term n' = Node_current_term n \<and> Node_voted_for n' = Node_voted_for n"
      by (rule emit_one_Some) (simp add: same_log_def)
    with 1 [OF one refl] one show ?thesis
      by (auto simp: emit_committed_outputs.simps [of n] Let_def case_prod_unfold same_log_def)
  qed
qed

lemma good_step_raise_commit:
  assumes "node_inv n" "Node_commit_index n \<le> c" "c \<le> last_log_index n"
  shows "good n (map_volatile (\<lambda>v. v\<lparr>commit_index := c\<rparr>) n)"
proof -
  let ?n = "map_volatile (\<lambda>v. v\<lparr>commit_index := c\<rparr>) n"
  have same: "same_log n ?n" by (simp add: same_log_def)
  have "node_inv ?n"
    using assms same_log_simps [OF same]
    by (auto simp: node_inv_def geometry_ok_def derived_ok_def membership_sources_wf_def)
  moreover have "evolves n ?n"
    using assms(2) same_log_simps [OF same] by (simp add: evolves_def)
  ultimately show ?thesis by (simp add: good_def)
qed

lemma good_step_commit_and_emit:
  assumes "node_inv n" "Node_commit_index n \<le> c" "c \<le> last_log_index n"
  shows "good_step n (emit_committed_outputs (map_volatile (\<lambda>v. v\<lparr>commit_index := c\<rparr>) n))"
proof -
  let ?n = "map_volatile (\<lambda>v. v\<lparr>commit_index := c\<rparr>) n"
  have g: "good n ?n" using assms by (rule good_step_raise_commit)
  have "good_step n (?n, [])" using g by (rule good_step_quiet) simp_all
  moreover have "good_step ?n (fst (emit_committed_outputs ?n), snd (emit_committed_outputs ?n))"
    using good_step_emit_committed_outputs [OF good_inv [OF g]] by simp
  ultimately show ?thesis using good_step_trans by fastforce
qed

lemma good_step_advance_commit_index:
  assumes "node_inv n"
  shows "good_step n (advance_commit_index n)"
proof -
  let ?n = "reconcile_replication_progress n"
  have g: "good n ?n" using assms by (rule good_reconcile_replication_progress)
  have quiet: "good_step n (?n, [])" using g by (rule good_step_quiet) (simp_all add: frame_simps)
  show ?thesis
  proof (cases "quorum_replicated_index (progress (leader ?n))")
    case None
    with quiet show ?thesis by (simp add: advance_commit_index_def Let_def)
  next
    case (Some c)
    let ?e = "emit_committed_outputs (map_volatile (\<lambda>v. v\<lparr>commit_index := c\<rparr>) ?n)"
    show ?thesis
    proof (cases "c \<le> Node_commit_index ?n \<or> term_at ?n c \<noteq> Some (Node_current_term ?n)")
      case True
      with quiet Some show ?thesis by (auto simp: advance_commit_index_def Let_def)
    next
      case False
      then have "Node_commit_index ?n \<le> c" "c \<le> last_log_index ?n"
        using term_at_defined [of ?n c] by auto
      with good_inv [OF g] have "good_step ?n (fst ?e, snd ?e)"
        using good_step_commit_and_emit by simp
      with quiet have "good_step n (fst ?e, snd ?e)" using good_step_trans by fastforce
      with False Some show ?thesis by (simp add: advance_commit_index_def Let_def)
    qed
  qed
qed

definition leader_start :: "Node \<Rightarrow> Node" where
  "leader_start n =
     append_log_entry (noop_entry (Node_current_term n))
       (n\<lparr>election := enter_leadership (election n), leader := LeaderState_default,
         volatile := (volatile n)\<lparr>role := Leader, leader_hint := Some (Node_id n), incoming_snapshot := None\<rparr>\<rparr>)"

lemma become_leader_eq:
  "become_leader n =
     (let m = leader_start n in
      advance_commit_index (m\<lparr>leader := LeaderState_default\<lparr>progress :=
        ps_reset ProgressSet_default (effective_membership m) (Node_id m) (last_log_index m) (last_log_index m)\<rparr>\<rparr>))"
proof -
  have "progress LeaderState_default = ProgressSet_default" by (simp add: LeaderState_default_def)
  then show ?thesis by (simp add: become_leader_def leader_start_def Let_def frame_simps)
qed

lemma good_leader_start:
  assumes "node_inv n"
  shows "good n (leader_start n)"
proof -
  let ?m = "n\<lparr>election := enter_leadership (election n), leader := LeaderState_default,
         volatile := (volatile n)\<lparr>role := Leader, leader_hint := Some (Node_id n), incoming_snapshot := None\<rparr>\<rparr>"
  have "good n ?m"
    using assms by (rule good_same_log) (use assms in \<open>simp_all add: same_log_def node_inv_def\<close>)
  moreover have "good ?m (append_log_entry (noop_entry (Node_current_term n)) ?m)"
    using good_inv [OF calculation] by (rule good_append_log_entry) (simp add: entry_wf_def)
  ultimately show ?thesis unfolding leader_start_def by (rule good_trans)
qed

lemma good_step_become_leader:
  assumes "node_inv n"
  shows "good_step n (become_leader n)"
proof -
  let ?m = "leader_start n"
  let ?l = "LeaderState_default\<lparr>progress :=
        ps_reset ProgressSet_default (effective_membership ?m) (Node_id ?m) (last_log_index ?m) (last_log_index ?m)\<rparr>"
  have m: "good n ?m" using assms by (rule good_leader_start)
  have l: "good ?m (?m\<lparr>leader := ?l\<rparr>)" using good_inv [OF m] by (rule good_leader)
  have "good_step n (?m\<lparr>leader := ?l\<rparr>, [])"
    using good_trans [OF m l] by (rule good_step_quiet) (simp_all add: leader_start_def frame_simps)
  moreover have "good_step (?m\<lparr>leader := ?l\<rparr>) (fst (become_leader n), snd (become_leader n))"
    using good_step_advance_commit_index [OF good_inv [OF l]] by (simp add: become_leader_eq Let_def)
  ultimately show ?thesis using good_step_trans by fastforce
qed

section \<open>What the commit rule commits\<close>

lemma length_filter_sort: "length (filter P (sort xs)) = length (filter P xs)"
  by (metis mset_filter mset_sort size_mset)

text \<open>The value of descending rank \<open>k\<close> is the largest one that more than \<open>k\<close> elements reach.\<close>

lemma rank_reached:
  fixes xs :: "nat list"
  assumes "k < length xs"
  shows "k < length (filter (\<lambda>x. c \<le> x) xs) \<longleftrightarrow> c \<le> rev (sort xs) ! k"
proof -
  let ?ds = "rev (sort xs)"
  have len: "length (filter (\<lambda>x. c \<le> x) ?ds) = length (filter (\<lambda>x. c \<le> x) xs)"
    using length_filter_sort [of "\<lambda>x. c \<le> x" xs] by (simp flip: rev_filter)
  have desc: "?ds ! j \<le> ?ds ! i" if "i \<le> j" "j < length ?ds" for i j
    using that sorted_nth_mono [of "sort xs" "length xs - Suc j" "length xs - Suc i"]
    by (simp add: rev_nth)
  have split: "?ds = take (Suc k) ?ds @ drop (Suc k) ?ds" by simp
  show ?thesis
  proof
    assume "c \<le> ?ds ! k"
    then have "c \<le> ?ds ! i" if "i \<le> k" for i using desc [OF that] assms by fastforce
    then have "filter (\<lambda>x. c \<le> x) (take (Suc k) ?ds) = take (Suc k) ?ds"
      using assms by (auto simp: filter_id_conv in_set_conv_nth)
    then have "Suc k \<le> length (filter (\<lambda>x. c \<le> x) ?ds)"
      by (subst split, subst filter_append) (use assms in simp)
    then show "k < length (filter (\<lambda>x. c \<le> x) xs)" using len by simp
  next
    assume many: "k < length (filter (\<lambda>x. c \<le> x) xs)"
    show "c \<le> ?ds ! k"
    proof (rule ccontr)
      assume "\<not> c \<le> ?ds ! k"
      then have "\<not> c \<le> ?ds ! j" if "k \<le> j" "j < length ?ds" for j using desc [OF that] by simp
      then have "filter (\<lambda>x. c \<le> x) (drop k ?ds) = []"
        by (auto simp: filter_empty_conv in_set_conv_nth)
      then have "filter (\<lambda>x. c \<le> x) ?ds = filter (\<lambda>x. c \<le> x) (take k ?ds)"
        by (metis append_Nil2 append_take_drop_id filter_append)
      then have "length (filter (\<lambda>x. c \<le> x) ?ds) \<le> k"
        by (metis length_filter_le length_take min.bounded_iff order.trans min.cobounded2)
      with many len show False by simp
    qed
  qed
qed

definition reached :: "ProgressSet \<Rightarrow> LogIndex \<Rightarrow> NodeId list \<Rightarrow> NodeId list" where
  "reached ps c vs = filter (\<lambda>v. c \<le> match_of ps v) vs"

lemma quorum_index_voters:
  assumes "ps_wf ps" "ordered vs" "vs \<noteq> []" "set vs \<subseteq> set (mi_replicas (ps_index ps))"
  shows "\<exists>q. quorum_index ps (slot_set_for (mi_replicas (ps_index ps)) vs) = Some q \<and>
    (\<forall>c. c \<le> q \<longleftrightarrow> majority (length vs) \<le> length (reached ps c vs))"
proof -
  let ?rs = "mi_replicas (ps_index ps)" and ?s = "slot_set_for (mi_replicas (ps_index ps)) vs"
  let ?ms = "map (match_of ps) vs"
  have rs: "ordered ?rs" "small_nodes ?rs" using assms(1) by (simp_all add: ps_wf_def index_shape_def)
  have "SlotSet_count ?s = card {i. i < length ?rs \<and> ?rs ! i \<in> set vs}"
    using rs by (simp add: packed.count_card contains_slot_set_for)
  also have "\<dots> = length vs"
    using card_slots_of_nodes [OF rs(1) assms(4)] assms(2) by (simp add: distinct_card ordered_def)
  finally have count: "SlotSet_count ?s = length vs" .
  have k: "length vs div 2 < length vs" using assms(3) by (cases vs) auto
  have q: "quorum_index ps ?s = Some (rev (sort ?ms) ! (length vs div 2))"
    using match_indexes_for_voters [OF assms(1,2,4)] k by (simp add: quorum_index_def count Let_def)
  have "c \<le> rev (sort ?ms) ! (length vs div 2) \<longleftrightarrow> majority (length vs) \<le> length (reached ps c vs)" for c
    using rank_reached [of "length vs div 2" ?ms c] k
    by (simp add: majority_def reached_def filter_map comp_def Suc_le_eq)
  with q show ?thesis by blast
qed

lemma quorum_replicated_index_exact:
  assumes "ps_wf ps" "ps_index ps = MembershipIndex_new m self_id" "membership_wf m"
  shows "\<exists>q. quorum_replicated_index ps = Some q \<and>
    (\<forall>c. c \<le> q \<longleftrightarrow> has_quorum m (reached ps c (replica_ids m)))"
proof -
  have count: "length (filter (\<lambda>v. v \<in> set (reached ps c (replica_ids m))) vs) = length (reached ps c vs)"
    if "vs \<in> set (voter_sets m)" for vs c
  proof -
    have "filter (\<lambda>v. v \<in> set (reached ps c (replica_ids m))) vs = reached ps c vs"
      using voter_sets_wf [OF assms(3) that] by (auto simp: reached_def intro: filter_cong)
    then show ?thesis by simp
  qed
  have q: "\<exists>q. quorum_index ps (slot_set_for (replica_ids m) vs) = Some q \<and>
      (\<forall>c. c \<le> q \<longleftrightarrow> majority (length vs) \<le> length (reached ps c vs))"
    if "vs \<in> set (voter_sets m)" for vs
  proof -
    have "ordered vs" using assms(3) that by (cases m) (auto simp: membership_set_wf_def)
    then show ?thesis
      using quorum_index_voters [OF assms(1), of vs] voter_sets_wf [OF assms(3) that] assms(2) by simp
  qed
  show ?thesis
  proof (cases m)
    case (StableMembership s)
    then obtain a where "quorum_index ps (slot_set_for (replica_ids m) (voters s)) = Some a"
        "\<forall>c. c \<le> a \<longleftrightarrow> majority (length (voters s)) \<le> length (reached ps c (voters s))"
      using q [of "voters s"] by auto
    with StableMembership count assms(2) show ?thesis
      by (simp add: quorum_replicated_index_def MembershipIndex_stable_def Let_def has_quorum_voter_sets)
  next
    case (JointMembershipConfig j)
    obtain a where a: "quorum_index ps (slot_set_for (replica_ids m) (voters (old_membership j))) = Some a"
        "\<forall>c. c \<le> a \<longleftrightarrow> majority (length (voters (old_membership j))) \<le> length (reached ps c (voters (old_membership j)))"
      using q [of "voters (old_membership j)"] JointMembershipConfig by auto
    obtain b where b: "quorum_index ps (slot_set_for (replica_ids m) (voters (new_membership j))) = Some b"
        "\<forall>c. c \<le> b \<longleftrightarrow> majority (length (voters (new_membership j))) \<le> length (reached ps c (voters (new_membership j)))"
      using q [of "voters (new_membership j)"] JointMembershipConfig by auto
    show ?thesis
      using a b JointMembershipConfig count assms(2)
      by (simp add: quorum_replicated_index_def Let_def has_quorum_voter_sets)
  qed
qed

text \<open>The progress table the leader commits by.\<close>

lemma reconciled_progress_table:
  assumes "membership_sources_wf n" "Node_role n = Leader" "ps_wf (progress (leader n))"
    and "small_config (effective_membership n)"
  shows "ps_wf (progress (leader (reconcile_replication_progress n))) \<and>
    ps_index (progress (leader (reconcile_replication_progress n))) =
      MembershipIndex_new (effective_membership n) (Node_id n)"
proof -
  have "progress (leader (reconcile_replication_progress n)) =
      reconcile_membership (progress (leader n)) (effective_membership n) (Node_id n)
        (LogIndex_next (snapshot_index n)) (last_log_index n)"
    using assms(2) effective_membership_empty [of n]
    by (auto simp: reconcile_replication_progress_def Let_def)
  then show ?thesis
    using reconcile_membership [OF assms(3) effective_membership_wf [OF assms(1)] assms(4)] by metis
qed

lemma emit_committed_outputs_commit:
  "node_inv n \<Longrightarrow> Node_commit_index (fst (emit_committed_outputs n)) = Node_commit_index n"
  using emit_committed_outputs_done by blast

lemma advance_commit_index_result:
  assumes "node_inv n" "Node_role n = Leader" "ps_wf (progress (leader n))"
    and "small_config (effective_membership n)"
  shows "\<exists>q. (\<forall>c. c \<le> q \<longleftrightarrow> has_quorum (effective_membership n)
      (reached (progress (leader (reconcile_replication_progress n))) c (replica_ids (effective_membership n)))) \<and>
    Node_commit_index (fst (advance_commit_index n)) =
      (if Node_commit_index n < q \<and> term_at n q = Some (Node_current_term n) then q else Node_commit_index n)"
proof -
  let ?r = "reconcile_replication_progress n" and ?m = "effective_membership n"
  have wf: "membership_wf ?m" using assms(1) effective_membership_wf node_inv_sources by blast
  note t = reconciled_progress_table [OF node_inv_sources [OF assms(1)] assms(2-4)]
  obtain q where q: "quorum_replicated_index (progress (leader ?r)) = Some q"
      "\<forall>c. c \<le> q \<longleftrightarrow> has_quorum ?m (reached (progress (leader ?r)) c (replica_ids ?m))"
    using quorum_replicated_index_exact [of "progress (leader ?r)" ?m "Node_id n"] t wf by blast
  have same: "same_log n ?r" by (simp add: same_log_def frame_simps)
  have inv: "node_inv ?r" using good_reconcile_replication_progress [OF assms(1)] by (rule good_inv)
  have "Node_commit_index (fst (advance_commit_index n)) =
      (if Node_commit_index n < q \<and> term_at n q = Some (Node_current_term n) then q else Node_commit_index n)"
  proof (cases "Node_commit_index n < q \<and> term_at n q = Some (Node_current_term n)")
    case True
    let ?c = "map_volatile (\<lambda>v. v\<lparr>commit_index := q\<rparr>) ?r"
    have "q \<le> last_log_index ?r"
      using True term_at_defined [of n q] same_log_last [OF same] by simp
    then have "node_inv ?c"
      using True inv good_step_raise_commit [of ?r q] by (simp add: good_inv frame_simps)
    then have "Node_commit_index (fst (emit_committed_outputs ?c)) = q"
      using emit_committed_outputs_commit [of ?c] by simp
    with True q(1) show ?thesis
      by (simp add: advance_commit_index_def Let_def frame_simps same_log_term_at [OF same])
  next
    case False
    with q(1) show ?thesis
      by (auto simp: advance_commit_index_def Let_def frame_simps same_log_term_at [OF same])
  qed
  with q(2) show ?thesis by blast
qed

section \<open>Properties\<close>

text \<open>
  C9: the commit rule. Advancing the commit index moves it exactly when the largest index that
  a quorum of the effective membership (both sides of a joint one) has acknowledged lies above the
  commit index and holds an entry of the leader's current term, and then moves it to that index.
\<close>

theorem commit_rule_exact:
  assumes "node_inv n" "Node_role n = Leader" "ps_wf (progress (leader n))"
    and "small_config (effective_membership n)"
  shows "\<exists>q. (\<forall>c. c \<le> q \<longleftrightarrow> has_quorum (effective_membership n)
      (reached (progress (leader (reconcile_replication_progress n))) c (replica_ids (effective_membership n)))) \<and>
    Node_commit_index (fst (advance_commit_index n)) =
      (if Node_commit_index n < q \<and> term_at n q = Some (Node_current_term n) then q else Node_commit_index n)"
  using assms by (rule advance_commit_index_result)

theorem commit_rule_exact_witness:
  "\<exists>q. (\<forall>c. c \<le> q \<longleftrightarrow> has_quorum (effective_membership sample_leader)
      (reached (progress (leader (reconcile_replication_progress sample_leader))) c
        (replica_ids (effective_membership sample_leader)))) \<and>
    Node_commit_index (fst (advance_commit_index sample_leader)) =
      (if Node_commit_index sample_leader < q \<and>
          term_at sample_leader q = Some (Node_current_term sample_leader)
       then q else Node_commit_index sample_leader)"
proof (rule commit_rule_exact)
  show "node_inv sample_leader" by (rule sample_leader_inv)
  show "Node_role sample_leader = Leader" by (simp add: sample_leader_def)
  show "ps_wf (progress (leader sample_leader))" by (rule sample_leader_progress)
  show "small_config (effective_membership sample_leader)"
    unfolding sample_effective_membership by (rule sample_small)
qed

text \<open>
  the emission loop stops, and it stops with everything committed handed out: the dispatch
  cursor is the commit index, the entries applied are exactly the application entries between the
  old cursor and the commit index, in index order, and commitment itself does not change.
\<close>

theorem emission_complete:
  assumes "node_inv n"
  shows "Node_dispatched_index (fst (emit_committed_outputs n)) = Node_commit_index n \<and>
    Node_commit_index (fst (emit_committed_outputs n)) = Node_commit_index n \<and>
    emits n (fst (emit_committed_outputs n)) (snd (emit_committed_outputs n))"
  using emit_committed_outputs_done [OF assms] good_step_emit_committed_outputs [OF assms]
  by (simp add: good_step_def)

theorem emission_complete_witness:
  "Node_dispatched_index (fst (emit_committed_outputs (sample_follower\<lparr>volatile :=
       (volatile sample_follower)\<lparr>commit_index := 4\<rparr>\<rparr>))) = 4"
proof -
  let ?n = "map_volatile (\<lambda>v. v\<lparr>commit_index := 4\<rparr>) sample_follower"
  have "good sample_follower ?n"
    using sample_follower_inv
    by (rule good_step_raise_commit) (simp_all, simp add: sample_follower_def at_dispatched_index_def)
  from emission_complete [OF good_inv [OF this]] show ?thesis by simp
qed

end
