(* ===== verification/Replication_Send.thy ===== *)
theory Replication_Send
  imports Commit
begin

text \<open>
  What a leader sends: \<open>node/replication/send.rs\<close>, \<open>send/{cache,broadcast}.rs\<close>,
  \<open>node/replication/authority.rs\<close> and \<open>node/replication/snapshot/send.rs\<close>. Functions that push
  to an output vector return what they push; the batch cache is threaded through. Everything
  here only writes leader bookkeeping, the shared batch cache is shown to be transparent, and
  the window of outstanding batches stays within its bound.
\<close>

section \<open>Demand, window and batch cache\<close>

datatype ReplicationDemand = ProgressOnly | EnsureContact

fun requires_message :: "ReplicationDemand \<Rightarrow> bool" where
  "requires_message EnsureContact = True"
| "requires_message ProgressOnly = False"

record WindowBudget =
  wb_last_log_index :: LogIndex
  wb_max_batches :: usize
  wb_max_bytes :: usize

record CachedLogBatch =
  clb_first_index :: LogIndex
  clb_max_replication_bytes :: usize
  clb_batch :: LogBatch

type_synonym LogBatchCache = "CachedLogBatch list"

definition log_batch_from_bounded_cached ::
    "Node \<Rightarrow> LogIndex \<Rightarrow> usize \<Rightarrow> LogBatchCache \<Rightarrow> LogBatchCache \<times> LogBatch option" where
  "log_batch_from_bounded_cached n first_index max_bytes cache =
     (case find (\<lambda>c. clb_first_index c = first_index \<and> clb_max_replication_bytes c = max_bytes) cache of
        Some cached \<Rightarrow> (cache, Some (clb_batch cached))
      | None \<Rightarrow>
          (case log_batch_from_bounded n first_index max_bytes of
             None \<Rightarrow> (cache, None)
           | Some batch \<Rightarrow>
               (cache @ [\<lparr>clb_first_index = first_index, clb_max_replication_bytes = max_bytes,
                          clb_batch = batch\<rparr>], Some batch)))"

section \<open>Messages\<close>

definition append_entries_message :: "Node \<Rightarrow> NodeId \<Rightarrow> LogIndex \<Rightarrow> SharedEntries \<Rightarrow> Output" where
  "append_entries_message n follower_id next_idx entries =
     (let prev_log_index = sat_sub next_idx 1 in
      Send follower_id (AppendEntriesMsg
        \<lparr>ae_term = Node_current_term n, ae_leader_id = Node_id n, ae_prev_log_index = prev_log_index,
         ae_prev_log_term = (case term_at n prev_log_index of Some t \<Rightarrow> t | None \<Rightarrow> 0),
         ae_sequence = heartbeat_sequence (leader n), ae_entries = entries,
         ae_leader_commit = Node_commit_index n\<rparr>))"

definition INSTALL_SNAPSHOT_CHUNK_BYTES :: u32 where
  "INSTALL_SNAPSHOT_CHUNK_BYTES = 64 * 1024"

definition snapshot_send_offset :: "Node \<Rightarrow> NodeId \<Rightarrow> u64 \<Rightarrow> u64" where
  "snapshot_send_offset n follower_id total_payload_len =
     min (case Option.bind (ps_get (progress (leader n)) follower_id)
                 (\<lambda>p. case mode p of SnapshotMode next_offset \<Rightarrow> Some next_offset | _ \<Rightarrow> None) of
            Some next_offset \<Rightarrow> next_offset
          | None \<Rightarrow> 0) total_payload_len"

text \<open>The bounded length always fits \<open>u32\<close>, so the conversion cannot take its default.\<close>

definition snapshot_chunk_len :: "u64 \<Rightarrow> u64 \<Rightarrow> u32" where
  "snapshot_chunk_len total_payload_len offset =
     (let remaining = sat_sub total_payload_len offset;
          bounded = min remaining INSTALL_SNAPSHOT_CHUNK_BYTES
      in if bounded < 2 ^ 32 then bounded else INSTALL_SNAPSHOT_CHUNK_BYTES)"

definition install_snapshot_chunk_to :: "Node \<Rightarrow> NodeId \<Rightarrow> RaftSnapshot \<Rightarrow> Output" where
  "install_snapshot_chunk_to n follower_id snap =
     (let total_payload_len = application_payload_len snap;
          offset = snapshot_send_offset n follower_id total_payload_len;
          len = snapshot_chunk_len total_payload_len offset;
          is_done = (offset + len = total_payload_len)
      in SendSnapshotChunk follower_id
           \<lparr>scs_term = Node_current_term n, scs_leader_id = Node_id n,
            scs_transfer_id = RaftSnapshot_transfer_id snap, scs_metadata = metadata snap,
            scs_total_payload_len = total_payload_len,
            scs_application_payload_crc32 = application_payload_crc32 snap,
            scs_offset = offset, scs_len = len, scs_done = is_done\<rparr>)"

section \<open>Sending to one follower\<close>

definition begin_contact_round :: "Node \<Rightarrow> Node" where
  "begin_contact_round n =
     map_leader (\<lambda>l. l\<lparr>heartbeat_sequence := heartbeat_sequence l + 1, heartbeat_elapsed := 0\<rparr>) n"

abbreviation update_progress :: "NodeId \<Rightarrow> (Progress \<Rightarrow> Progress) \<Rightarrow> Node \<Rightarrow> Node" where
  "update_progress k f n \<equiv> map_progress (\<lambda>ps. ps_modify ps k f) n"

definition send_empty_append_to_progress_next :: "NodeId \<Rightarrow> Node \<Rightarrow> Output list" where
  "send_empty_append_to_progress_next follower_id n =
     (case map_option next_index (ps_get (progress (leader n)) follower_id) of
        None \<Rightarrow> []
      | Some next_idx \<Rightarrow> [append_entries_message n follower_id next_idx []])"

definition replicate_snapshot_to_follower :: "NodeId \<Rightarrow> Node \<Rightarrow> Output list" where
  "replicate_snapshot_to_follower follower_id n =
     (case Node_snapshot n of
        None \<Rightarrow> []
      | Some snap \<Rightarrow> [install_snapshot_chunk_to n follower_id snap])"

definition replicate_probe_to_follower ::
    "NodeId \<Rightarrow> bool \<Rightarrow> ReplicationDemand \<Rightarrow> LogIndex \<Rightarrow> LogBatchCache \<Rightarrow> Node \<Rightarrow>
     Node \<times> Output list \<times> LogBatchCache" where
  "replicate_probe_to_follower follower_id awaiting_response demand snap_index cache n =
     (if awaiting_response then
        (n, if requires_message demand then send_empty_append_to_progress_next follower_id n else [], cache)
      else
        case map_option (\<lambda>p. max (next_index p) (LogIndex_next snap_index))
               (ps_get (progress (leader n)) follower_id) of
          None \<Rightarrow> (n, [], cache)
        | Some next_idx \<Rightarrow>
            let (cache, batch) = log_batch_from_bounded_cached n next_idx
                  (max_append_entries_bytes (config n)) cache;
                entries = (case batch of None \<Rightarrow> [] | Some b \<Rightarrow> lb_entries b)
            in (update_progress follower_id (\<lambda>p. p\<lparr>next_index := next_idx, mode := Probe True\<rparr>) n,
                [append_entries_message n follower_id next_idx entries], cache))"

text \<open>One iteration of the window loop; \<open>None\<close> is a \<open>break\<close> before anything was sent.\<close>

definition fill_window_once ::
    "NodeId \<Rightarrow> WindowBudget \<Rightarrow> LogBatchCache \<Rightarrow> Node \<Rightarrow> (Node \<times> Output \<times> LogBatchCache) option" where
  "fill_window_once follower_id window cache n =
     (case ps_get (progress (leader n)) follower_id of
        None \<Rightarrow> None
      | Some p \<Rightarrow>
          if inflights_is_full (inflights p) (wb_max_batches window) (wb_max_bytes window) \<or>
             next_index p > wb_last_log_index window
          then None
          else
            (case log_batch_from_bounded_cached n (next_index p)
                    (max_append_entries_bytes (config n)) cache of
               (cache, None) \<Rightarrow> None
             | (cache, Some batch) \<Rightarrow>
                 let last_sent = lb_last_index batch;
                     batch_bytes = lb_replication_bytes batch
                 in Some (update_progress follower_id
                            (\<lambda>p. p\<lparr>inflights := inflights_record (inflights p) last_sent batch_bytes,
                                   next_index := LogIndex_next last_sent\<rparr>) n,
                          append_entries_message n follower_id (lb_first_index batch) (lb_entries batch),
                          cache)))"

lemma ps_get_modify_same: "ps_get (ps_modify ps k f) k = map_option f (ps_get ps k)"
  by (auto simp: ps_get_def ps_modify_def get_list_update get_def split: option.split)

lemma fill_window_once_Some:
  assumes "fill_window_once k w cache n = Some (n', out, cache')"
  obtains p batch where "ps_get (progress (leader n)) k = Some p"
    and "\<not> inflights_is_full (inflights p) (wb_max_batches w) (wb_max_bytes w)"
    and "next_index p \<le> wb_last_log_index w"
    and "log_batch_from_bounded_cached n (next_index p) (max_append_entries_bytes (config n)) cache =
      (cache', Some batch)"
    and "n' = update_progress k (\<lambda>p. p\<lparr>inflights :=
          inflights_record (inflights p) (lb_last_index batch) (lb_replication_bytes batch),
        next_index := LogIndex_next (lb_last_index batch)\<rparr>) n"
    and "out = append_entries_message n k (lb_first_index batch) (lb_entries batch)"
  using assms by (auto simp: fill_window_once_def Let_def split: option.splits if_splits prod.splits)

lemma not_full_length:
  "\<not> inflights_is_full fl mb mx \<Longrightarrow> length (if_batches fl) < max mb 1"
  by (auto simp: inflights_is_full_def)

text \<open>Each iteration records a batch, so the loop ends when the window is full at the latest.\<close>

definition window_room :: "NodeId \<Rightarrow> WindowBudget \<Rightarrow> Node \<Rightarrow> nat" where
  "window_room k w n = (case ps_get (progress (leader n)) k of None \<Rightarrow> 0
     | Some p \<Rightarrow> max (wb_max_batches w) 1 - length (if_batches (inflights p)))"

lemma fill_window_once_room:
  assumes "fill_window_once k w cache n = Some (n', out, cache')"
  shows "window_room k w n' < window_room k w n"
  using assms
  by (rule fill_window_once_Some)
    (auto simp: window_room_def ps_get_modify_same inflights_record_def dest: not_full_length)

function fill_window_loop ::
    "NodeId \<Rightarrow> WindowBudget \<Rightarrow> LogBatchCache \<Rightarrow> Node \<Rightarrow> Node \<times> Output list \<times> LogBatchCache" where
  "fill_window_loop k w cache n =
     (case fill_window_once k w cache n of
        None \<Rightarrow> (n, [], cache)
      | Some (n', out, cache') \<Rightarrow>
          let (n'', outs, cache'') = fill_window_loop k w cache' n' in (n'', out # outs, cache''))"
  by pat_completeness auto
termination
  by (relation "measure (\<lambda>(k, w, cache, n). window_room k w n)") (auto dest: fill_window_once_room)

declare fill_window_loop.simps [simp del]

definition fill_replication_window ::
    "NodeId \<Rightarrow> ReplicationDemand \<Rightarrow> WindowBudget \<Rightarrow> LogBatchCache \<Rightarrow> Node \<Rightarrow>
     Node \<times> Output list \<times> LogBatchCache" where
  "fill_replication_window follower_id demand window cache n =
     (let (n, outputs, cache) = fill_window_loop follower_id window cache n;
          sent = (outputs \<noteq> [])
      in (n, outputs @ (if \<not> sent \<and> requires_message demand
                        then send_empty_append_to_progress_next follower_id n else []), cache))"

fun is_snapshot_mode :: "ProgressMode \<Rightarrow> bool" where
  "is_snapshot_mode (SnapshotMode off) = True"
| "is_snapshot_mode _ = False"

definition enter_snapshot_mode :: "LogIndex \<Rightarrow> Progress \<Rightarrow> Progress" where
  "enter_snapshot_mode snap_index p =
     (if next_index p \<le> snap_index \<and> \<not> is_snapshot_mode (mode p)
      then p\<lparr>mode := SnapshotMode 0, inflights := inflights_clear (inflights p)\<rparr> else p)"

definition replicate_to_follower_with_cache_fresh ::
    "NodeId \<Rightarrow> ReplicationDemand \<Rightarrow> LogBatchCache \<Rightarrow> Node \<Rightarrow> Node \<times> Output list \<times> LogBatchCache" where
  "replicate_to_follower_with_cache_fresh follower_id demand cache n =
     (if follower_id = Node_id n \<or> \<not> ps_contains (progress (leader n)) follower_id then (n, [], cache)
      else
        let snap_index = snapshot_index n;
            window = \<lparr>wb_last_log_index = last_log_index n,
                      wb_max_batches = max_inflight_appends (config n),
                      wb_max_bytes = max_inflight_bytes (config n)\<rparr>;
            n = update_progress follower_id (enter_snapshot_mode snap_index) n
        in case ps_get (progress (leader n)) follower_id of
             None \<Rightarrow> (n, [], cache)
           | Some p \<Rightarrow>
               (case mode p of
                  SnapshotMode _ \<Rightarrow> (n, replicate_snapshot_to_follower follower_id n, cache)
                | Probe awaiting_response \<Rightarrow>
                    replicate_probe_to_follower follower_id awaiting_response demand snap_index cache n
                | Replicate \<Rightarrow> fill_replication_window follower_id demand window cache n))"

definition replicate_to_follower_with_cache ::
    "NodeId \<Rightarrow> ReplicationDemand \<Rightarrow> LogBatchCache \<Rightarrow> Node \<Rightarrow> Node \<times> Output list \<times> LogBatchCache" where
  "replicate_to_follower_with_cache follower_id demand cache n =
     replicate_to_follower_with_cache_fresh follower_id demand cache (reconcile_replication_progress n)"

definition replicate_to_follower :: "NodeId \<Rightarrow> ReplicationDemand \<Rightarrow> Node \<Rightarrow> Node \<times> Output list" where
  "replicate_to_follower follower_id demand n =
     (let (n, outputs, cache) = replicate_to_follower_with_cache follower_id demand [] n in (n, outputs))"

section \<open>Sending to every follower\<close>

fun broadcast_slots ::
    "ReplicationDemand \<Rightarrow> NodeId \<Rightarrow> usize list \<Rightarrow> LogBatchCache \<Rightarrow> Node \<Rightarrow> Node \<times> Output list" where
  "broadcast_slots demand local_id [] cache n = (n, [])"
| "broadcast_slots demand local_id (slot # slots) cache n =
     (case replica_id_at (progress (leader n)) slot of
        None \<Rightarrow> broadcast_slots demand local_id slots cache n
      | Some follower_id \<Rightarrow>
          if follower_id = local_id then broadcast_slots demand local_id slots cache n
          else let (n, outputs, cache) =
                     replicate_to_follower_with_cache_fresh follower_id demand cache n;
                   (n, rest) = broadcast_slots demand local_id slots cache n
               in (n, outputs @ rest))"

definition broadcast_replication :: "ReplicationDemand \<Rightarrow> Node \<Rightarrow> Node \<times> Output list" where
  "broadcast_replication demand n =
     (let n = (if requires_message demand then begin_contact_round n else n);
          n = reconcile_replication_progress n
      in broadcast_slots demand (Node_id n) [0..<replica_count (progress (leader n))] [] n)"

definition broadcast_append_entries :: "Node \<Rightarrow> Node \<times> Output list" where
  "broadcast_append_entries n = broadcast_replication EnsureContact n"

section \<open>Authority: leases and check-quorum\<close>

definition acknowledge_read_lease :: "NodeId \<Rightarrow> u64 \<Rightarrow> Node \<Rightarrow> Node" where
  "acknowledge_read_lease follower_id sequence n =
     (if \<not> lease_reads (config n) then n
      else let m = effective_membership n;
               self_id = Node_id n;
               (l, recorded) = record_ack (lease (leader n)) follower_id sequence m self_id;
               n = map_leader (\<lambda>ld. ld\<lparr>lease := l\<rparr>) n
           in if \<not> recorded then n
              else let (acks, quorum) = ack_has_quorum_with_self (lease_acks (lease (leader n))) m self_id;
                       n = map_leader (\<lambda>ld. ld\<lparr>lease := (lease ld)\<lparr>lease_acks := acks\<rparr>\<rparr>) n
                   in if \<not> quorum then n
                      else map_leader (\<lambda>ld. ld\<lparr>lease := confirm_and_rearm (lease ld) (ticks ld)
                             (heartbeat_sequence ld + 1)\<rparr>) n)"

definition tick_read_lease :: "Node \<Rightarrow> Node" where
  "tick_read_lease n =
     (if \<not> lease_reads (config n) then n
      else let basis_age = sat_sub (ticks (leader n)) (pending_basis_tick (lease (leader n)))
           in if basis_age < read_lease_ticks (config n) then n
              else map_leader (\<lambda>ld. ld\<lparr>lease := rearm (lease ld) (ticks ld) (heartbeat_sequence ld + 1)\<rparr>) n)"

definition tick_check_quorum :: "Node \<Rightarrow> Node \<times> Output list option" where
  "tick_check_quorum n =
     (if \<not> check_quorum (config n) then (n, None)
      else let n = map_leader (\<lambda>ld. ld\<lparr>quorum_check_elapsed := quorum_check_elapsed ld + 1\<rparr>) n
           in if quorum_check_elapsed (leader n) < election_timeout_ticks (config n) then (n, None)
              else let (acks, quorum) =
                         ack_has_quorum_with_self (quorum_acks (leader n)) (effective_membership n) (Node_id n);
                       n = map_leader (\<lambda>ld. ld\<lparr>quorum_acks := acks\<rparr>) n
                   in if quorum
                      then (map_leader (\<lambda>ld. ld\<lparr>quorum_acks := ack_clear (quorum_acks ld),
                                               quorum_check_elapsed := 0\<rparr>) n, None)
                      else let (n, outputs) = become_follower (Node_current_term n) n
                           in (map_volatile (\<lambda>v. v\<lparr>leader_hint := None\<rparr>) n, Some outputs))"

definition record_quorum_ack :: "NodeId \<Rightarrow> Node \<Rightarrow> Node" where
  "record_quorum_ack follower_id n =
     (let self_id = Node_id n;
          m = (if derived n = [] then effective_base_membership n else effective_membership n)
      in map_leader (\<lambda>ld. ld\<lparr>quorum_acks := ack_insert (quorum_acks ld) follower_id m self_id\<rparr>) n)"

section \<open>Only leader bookkeeping is written\<close>

definition leader_only :: "Node \<Rightarrow> Node \<times> Output list \<Rightarrow> bool" where
  "leader_only n r \<longleftrightarrow> (\<exists>l. fst r = n\<lparr>leader := l\<rparr>) \<and> applies (snd r) = []"

lemma leader_only_refl: "applies outs = [] \<Longrightarrow> leader_only n (n, outs)"
  by (auto simp: leader_only_def intro: exI [of _ "leader n"])

lemma leader_only_update: "applies outs = [] \<Longrightarrow> leader_only n (n\<lparr>leader := l\<rparr>, outs)"
  by (auto simp: leader_only_def)

lemma leader_only_trans: "leader_only a (b, xs) \<Longrightarrow> leader_only b (c, ys) \<Longrightarrow> leader_only a (c, xs @ ys)"
  by (auto simp: leader_only_def)

lemma leader_only_trans0: "leader_only a (b, []) \<Longrightarrow> leader_only b r \<Longrightarrow> leader_only a r"
  by (auto simp: leader_only_def)

lemma good_step_leader_only: "node_inv n \<Longrightarrow> leader_only n r \<Longrightarrow> good_step n r"
  using good_step_leader by (cases r) (auto simp: leader_only_def)

lemma leader_only_same_log: "leader_only n r \<Longrightarrow> same_log n (fst r)"
  by (auto simp: leader_only_def same_log_def)

lemma leader_only_frame:
  assumes "leader_only n r"
  shows "config (fst r) = config n" "persistent (fst r) = persistent n" "volatile (fst r) = volatile n"
    "election (fst r) = election n" "derived (fst r) = derived n"
  using assms by (auto simp: leader_only_def)

lemma leader_only_reconcile: "leader_only n (reconcile_replication_progress n, [])"
  using reconcile_replication_progress_leader [of n] by (auto simp: leader_only_def)

lemma applied_entry_append_entries_message [simp]: "applied_entry (append_entries_message n k i es) = None"
  by (simp add: append_entries_message_def Let_def)

lemma applies_send_empty [simp]: "applies (send_empty_append_to_progress_next k n) = []"
  by (simp add: send_empty_append_to_progress_next_def applies_Cons split: option.split)

lemma applies_replicate_snapshot [simp]: "applies (replicate_snapshot_to_follower k n) = []"
  by (simp add: replicate_snapshot_to_follower_def install_snapshot_chunk_to_def Let_def applies_Cons
      split: option.split)

lemma fill_window_once_leader_only:
  "fill_window_once k w cache n = Some (n', out, cache') \<Longrightarrow> leader_only n (n', [out])"
  by (erule fill_window_once_Some) (simp add: leader_only_update applies_Cons)

lemma fill_window_loop_leader_only:
  "fill_window_loop k w cache n = (n', outs, cache') \<Longrightarrow> leader_only n (n', outs)"
proof (induction k w cache n arbitrary: n' outs cache' rule: fill_window_loop.induct)
  case (1 k w cache n)
  show ?case
  proof (cases "fill_window_once k w cache n")
    case None
    with 1(2) show ?thesis by (simp add: fill_window_loop.simps [of k w cache n] leader_only_refl)
  next
    case (Some r)
    obtain n1 out c1 where r: "r = (n1, out, c1)" by (cases r) auto
    obtain n2 rest c2 where l: "fill_window_loop k w c1 n1 = (n2, rest, c2)"
      by (cases "fill_window_loop k w c1 n1") auto
    have "leader_only n (n1, [out])" using Some r fill_window_once_leader_only by blast
    moreover have "leader_only n1 (n2, rest)" using 1(1) [OF Some, of n1] r l by simp
    ultimately have "leader_only n (n2, [out] @ rest)" by (rule leader_only_trans)
    with 1(2) Some r l show ?thesis by (simp add: fill_window_loop.simps [of k w cache n])
  qed
qed

lemma fill_replication_window_leader_only:
  "fill_replication_window k d w cache n = (n', outs, cache') \<Longrightarrow> leader_only n (n', outs)"
  using fill_window_loop_leader_only [of k w cache n] leader_only_refl leader_only_trans
  by (auto simp: fill_replication_window_def Let_def split: prod.splits)

lemma replicate_probe_leader_only:
  "replicate_probe_to_follower k a d si cache n = (n', outs, cache') \<Longrightarrow> leader_only n (n', outs)"
  by (auto simp: replicate_probe_to_follower_def Let_def applies_Cons
      intro!: leader_only_refl leader_only_update split: if_splits option.splits prod.splits)

lemma replicate_fresh_leader_only:
  assumes "replicate_to_follower_with_cache_fresh k d cache n = (n', outs, cache')"
  shows "leader_only n (n', outs)"
proof (cases "k = Node_id n \<or> \<not> ps_contains (progress (leader n)) k")
  case True
  with assms show ?thesis by (auto simp: replicate_to_follower_with_cache_fresh_def intro: leader_only_refl)
next
  case False
  let ?n = "update_progress k (enter_snapshot_mode (snapshot_index n)) n"
  have "leader_only n (?n, [])" by (rule leader_only_update) simp
  moreover have "leader_only ?n (n', outs)"
    using assms False
    by (auto simp: replicate_to_follower_with_cache_fresh_def Let_def
        dest: fill_replication_window_leader_only replicate_probe_leader_only
        intro: leader_only_refl split: option.splits ProgressMode.splits)
  ultimately show ?thesis by (rule leader_only_trans0)
qed

lemma replicate_to_follower_leader_only: "leader_only n (replicate_to_follower k d n)"
proof -
  let ?r = "reconcile_replication_progress n"
  obtain n' outs cache where "replicate_to_follower_with_cache_fresh k d [] ?r = (n', outs, cache)"
    by (cases "replicate_to_follower_with_cache_fresh k d [] ?r") auto
  with leader_only_trans0 [OF leader_only_reconcile replicate_fresh_leader_only [OF this]] show ?thesis
    by (simp add: replicate_to_follower_def replicate_to_follower_with_cache_def)
qed

lemma broadcast_slots_leader_only: "leader_only n (broadcast_slots d self_id slots cache n)"
proof (induction d self_id slots cache n rule: broadcast_slots.induct)
  case (2 d self_id slot slots cache n)
  show ?case
  proof (cases "\<exists>k. replica_id_at (progress (leader n)) slot = Some k \<and> k \<noteq> self_id")
    case True
    then obtain k where k: "replica_id_at (progress (leader n)) slot = Some k" "k \<noteq> self_id" by blast
    obtain n1 outs c1 where r: "replicate_to_follower_with_cache_fresh k d cache n = (n1, outs, c1)"
      by (cases "replicate_to_follower_with_cache_fresh k d cache n") auto
    obtain n2 rest where b: "broadcast_slots d self_id slots c1 n1 = (n2, rest)" by fastforce
    have "leader_only n1 (n2, rest)"
      using 2(3) [OF k refl, unfolded r, OF refl refl] unfolding b .
    with leader_only_trans [OF replicate_fresh_leader_only [OF r]] have "leader_only n (n2, outs @ rest)"
      by blast
    with k r b show ?thesis by simp
  next
    case False
    then consider "replica_id_at (progress (leader n)) slot = None"
      | "replica_id_at (progress (leader n)) slot = Some self_id" by fastforce
    then show ?thesis using 2(1) 2(2) [OF _ refl] by cases simp_all
  qed
qed (simp add: leader_only_refl)

lemma broadcast_replication_leader_only: "leader_only n (broadcast_replication d n)"
proof -
  let ?n = "if requires_message d then begin_contact_round n else n"
  have "leader_only n (?n, [])"
    by (simp add: begin_contact_round_def leader_only_update leader_only_refl)
  then have "leader_only n (reconcile_replication_progress ?n, [])"
    using leader_only_reconcile by (rule leader_only_trans0)
  then show ?thesis
    unfolding broadcast_replication_def Let_def
    using broadcast_slots_leader_only by (rule leader_only_trans0)
qed

lemma broadcast_append_entries_leader_only: "leader_only n (broadcast_append_entries n)"
  by (simp add: broadcast_append_entries_def broadcast_replication_leader_only)

lemma acknowledge_read_lease_leader_only: "leader_only n (acknowledge_read_lease k s n, [])"
  by (auto simp: acknowledge_read_lease_def Let_def case_prod_unfold leader_only_refl leader_only_update)

lemma tick_read_lease_leader_only: "leader_only n (tick_read_lease n, [])"
  by (simp add: tick_read_lease_def Let_def leader_only_refl leader_only_update)

lemma record_quorum_ack_leader_only: "leader_only n (record_quorum_ack k n, [])"
  by (simp add: record_quorum_ack_def Let_def leader_only_update)

text \<open>More precisely, sending only writes the progress table and opens the contact round.\<close>

definition progress_only :: "Node \<Rightarrow> Node \<Rightarrow> bool" where
  "progress_only n n' \<longleftrightarrow> (\<exists>ps. n' = map_leader (\<lambda>l. l\<lparr>progress := ps\<rparr>) n)"

lemma progress_only_refl [simp]: "progress_only n n"
  by (auto simp: progress_only_def intro: exI [of _ "progress (leader n)"])

lemma progress_only_update [simp]: "progress_only n (n\<lparr>leader := (leader n)\<lparr>progress := ps\<rparr>\<rparr>)"
  by (auto simp: progress_only_def)

lemma progress_only_trans: "progress_only a b \<Longrightarrow> progress_only b c \<Longrightarrow> progress_only a c"
  by (auto simp: progress_only_def)

lemma progress_only_leader:
  assumes "progress_only n n'"
  shows "ticks (leader n') = ticks (leader n)" "lease (leader n') = lease (leader n)"
    "pending_transfer (leader n') = pending_transfer (leader n)"
    "deposition_authorized (leader n') = deposition_authorized (leader n)"
    "heartbeat_sequence (leader n') = heartbeat_sequence (leader n)"
    "heartbeat_elapsed (leader n') = heartbeat_elapsed (leader n)"
    "quorum_acks (leader n') = quorum_acks (leader n)"
    "pending_reads (leader n') = pending_reads (leader n)"
  using assms by (auto simp: progress_only_def)

lemma reconcile_progress_only [simp]: "progress_only n (reconcile_replication_progress n)"
  by (simp add: reconcile_replication_progress_def Let_def)

lemma fill_window_loop_progress_only: "progress_only n (fst (fill_window_loop k w c n))"
proof (induction k w c n rule: fill_window_loop.induct)
  case (1 k w c n)
  show ?case
  proof (cases "fill_window_once k w c n")
    case None
    then show ?thesis by (simp add: fill_window_loop.simps [of k w c n])
  next
    case (Some r)
    obtain n1 out c1 where r: "r = (n1, out, c1)" by (cases r) auto
    with Some have once: "fill_window_once k w c n = Some (n1, out, c1)" by simp
    then have "progress_only n n1" by (rule fill_window_once_Some) simp
    from progress_only_trans [OF this 1 [OF once refl refl]] once show ?thesis
      by (simp add: fill_window_loop.simps [of k w c n] case_prod_unfold Let_def)
  qed
qed

lemma replicate_fresh_progress_only: "progress_only n (fst (replicate_to_follower_with_cache_fresh k d c n))"
proof -
  let ?n = "update_progress k (enter_snapshot_mode (snapshot_index n)) n"
  have probe: "progress_only m (fst (replicate_probe_to_follower k a d si c m))" for a si m
    by (simp add: replicate_probe_to_follower_def Let_def case_prod_unfold split: option.split)
  have fill: "progress_only ?n (fst (fill_replication_window k d w c ?n))" for w
    using fill_window_loop_progress_only [of ?n k w c]
    by (simp add: fill_replication_window_def Let_def case_prod_unfold)
  have upd: "progress_only n ?n" by (rule progress_only_update)
  show ?thesis
    using progress_only_trans [OF upd probe] progress_only_trans [OF upd fill] upd
    by (auto simp: replicate_to_follower_with_cache_fresh_def Let_def
        split: option.split ProgressMode.split)
qed

lemma replicate_to_follower_progress_only: "progress_only n (fst (replicate_to_follower k d n))"
  using progress_only_trans [OF reconcile_progress_only replicate_fresh_progress_only]
  by (simp add: replicate_to_follower_def replicate_to_follower_with_cache_def case_prod_unfold Let_def)

lemma broadcast_slots_progress_only: "progress_only n (fst (broadcast_slots d self_id slots c n))"
proof (induction slots arbitrary: n c)
  case (Cons slot slots)
  show ?case
  proof (cases "\<exists>k. replica_id_at (progress (leader n)) slot = Some k \<and> k \<noteq> self_id")
    case True
    then obtain k where k: "replica_id_at (progress (leader n)) slot = Some k" "k \<noteq> self_id" by blast
    with progress_only_trans [OF replicate_fresh_progress_only Cons.IH] show ?thesis
      by (simp add: case_prod_unfold Let_def)
  next
    case False
    then consider "replica_id_at (progress (leader n)) slot = None"
      | "replica_id_at (progress (leader n)) slot = Some self_id" by fastforce
    then show ?thesis using Cons.IH by cases simp_all
  qed
qed simp

lemma broadcast_replication_progress_only:
  "progress_only (if requires_message d then begin_contact_round n else n) (fst (broadcast_replication d n))"
  using progress_only_trans [OF reconcile_progress_only broadcast_slots_progress_only]
  unfolding broadcast_replication_def Let_def by blast

lemma broadcast_replication_reads:
  "pending_reads (leader (fst (broadcast_replication d n))) = pending_reads (leader n)"
  using progress_only_leader(8) [OF broadcast_replication_progress_only [of d n]]
  by (auto simp: begin_contact_round_def split: if_splits)

section \<open>The shared batch cache is transparent\<close>

definition cache_ok :: "Node \<Rightarrow> LogBatchCache \<Rightarrow> bool" where
  "cache_ok n cache \<longleftrightarrow> (\<forall>c\<in>set cache.
     log_batch_from_bounded n (clb_first_index c) (clb_max_replication_bytes c) = Some (clb_batch c))"

lemma cache_ok_Nil [simp]: "cache_ok n []"
  by (simp add: cache_ok_def)

lemma same_log_batch: "same_log n n' \<Longrightarrow> log_batch_from_bounded n' i m = log_batch_from_bounded n i m"
  by (simp add: log_batch_from_bounded_def same_log_simps first_retained_log_index_def)
    (simp add: same_log_def)

lemma cache_ok_leader_only: "leader_only n (n', outs) \<Longrightarrow> cache_ok n' cache = cache_ok n cache"
  using same_log_batch [OF leader_only_same_log, of n "(n', outs)"] by (simp add: cache_ok_def)

lemma cache_ok_update [simp]: "cache_ok (n\<lparr>leader := l\<rparr>) c = cache_ok n c"
  by (rule cache_ok_leader_only [where outs = "[]"]) (simp add: leader_only_update)

lemma cached_batch:
  assumes "cache_ok n cache"
  shows "\<exists>cache'. log_batch_from_bounded_cached n i m cache = (cache', log_batch_from_bounded n i m) \<and>
    cache_ok n cache'"
proof (cases "find (\<lambda>c. clb_first_index c = i \<and> clb_max_replication_bytes c = m) cache")
  case None
  with assms show ?thesis
    by (auto simp: log_batch_from_bounded_cached_def cache_ok_def split: option.split)
next
  case (Some c)
  then have "c \<in> set cache" "clb_first_index c = i" "clb_max_replication_bytes c = m"
    by (auto simp: find_Some_iff)
  with assms Some show ?thesis by (auto simp: log_batch_from_bounded_cached_def cache_ok_def)
qed

text \<open>The outcome of a send apart from the cache it leaves.\<close>

abbreviation sent_of :: "Node \<times> Output list \<times> LogBatchCache \<Rightarrow> Node \<times> Output list" where
  "sent_of r \<equiv> (fst r, fst (snd r))"

definition sends_alike :: "Node \<times> Output list \<times> LogBatchCache \<Rightarrow> Node \<times> Output list \<times> LogBatchCache \<Rightarrow> bool" where
  "sends_alike r1 r2 \<longleftrightarrow> sent_of r1 = sent_of r2 \<and>
     cache_ok (fst r1) (snd (snd r1)) \<and> cache_ok (fst r2) (snd (snd r2))"

lemma fill_window_once_cases:
  assumes "cache_ok n c"
  obtains "\<And>c. cache_ok n c \<Longrightarrow> fill_window_once k w c n = None"
  | n' out where "\<And>c. cache_ok n c \<Longrightarrow> \<exists>c'. fill_window_once k w c n = Some (n', out, c') \<and> cache_ok n' c'"
proof (cases "\<exists>p b. ps_get (progress (leader n)) k = Some p \<and>
    \<not> inflights_is_full (inflights p) (wb_max_batches w) (wb_max_bytes w) \<and>
    next_index p \<le> wb_last_log_index w \<and>
    log_batch_from_bounded n (next_index p) (max_append_entries_bytes (config n)) = Some b")
  case True
  then obtain p b where p: "ps_get (progress (leader n)) k = Some p"
    "\<not> inflights_is_full (inflights p) (wb_max_batches w) (wb_max_bytes w)"
    "\<not> next_index p > wb_last_log_index w"
    "log_batch_from_bounded n (next_index p) (max_append_entries_bytes (config n)) = Some b"
    by (auto simp: not_less)
  let ?n = "update_progress k (\<lambda>p. p\<lparr>inflights :=
          inflights_record (inflights p) (lb_last_index b) (lb_replication_bytes b),
        next_index := LogIndex_next (lb_last_index b)\<rparr>) n"
  let ?out = "append_entries_message n k (lb_first_index b) (lb_entries b)"
  have ok: "cache_ok ?n c = cache_ok n c" for c by simp
  have "\<exists>c'. fill_window_once k w c n = Some (?n, ?out, c') \<and> cache_ok ?n c'" if c: "cache_ok n c" for c
  proof -
    obtain c' where c': "log_batch_from_bounded_cached n (next_index p) (max_append_entries_bytes (config n)) c =
        (c', Some b)" "cache_ok n c'"
      using cached_batch [OF c, of "next_index p" "max_append_entries_bytes (config n)"]
      unfolding p(4) by blast
    from c'(1) p(1-3) have "fill_window_once k w c n = Some (?n, ?out, c')"
      by (simp add: fill_window_once_def Let_def)
    with c'(2) ok show ?thesis by blast
  qed
  then show thesis by (rule that(2))
next
  case False
  have "fill_window_once k w c n = None" if c: "cache_ok n c" for c
  proof (rule ccontr)
    assume "fill_window_once k w c n \<noteq> None"
    then obtain n' out c' where "fill_window_once k w c n = Some (n', out, c')" by auto
    then show False
    proof (rule fill_window_once_Some)
      fix p :: Progress and batch
      assume *: "log_batch_from_bounded_cached n (next_index p) (max_append_entries_bytes (config n)) c =
          (c', Some batch)"
      then have "log_batch_from_bounded n (next_index p) (max_append_entries_bytes (config n)) = Some batch"
        using cached_batch [OF c, of "next_index p" "max_append_entries_bytes (config n)"] by auto
      moreover assume "ps_get (progress (leader n)) k = Some p"
        "\<not> inflights_is_full (inflights p) (wb_max_batches w) (wb_max_bytes w)"
        "next_index p \<le> wb_last_log_index w"
      ultimately show False using False by blast
    qed
  qed
  then show thesis by (rule that(1))
qed

lemma fill_window_loop_alike:
  "cache_ok n c1 \<Longrightarrow> cache_ok n c2 \<Longrightarrow> sends_alike (fill_window_loop k w c1 n) (fill_window_loop k w c2 n)"
proof (induction k w c1 n arbitrary: c2 rule: fill_window_loop.induct)
  case (1 k w c1 n)
  from 1(2) show ?case
  proof (cases rule: fill_window_once_cases [of n c1 k w])
    case 1
    with \<open>cache_ok n c1\<close> \<open>cache_ok n c2\<close> show ?thesis
      by (simp add: fill_window_loop.simps [of k w _ n] sends_alike_def)
  next
    case (2 n' out)
    then obtain d1 d2 where d: "fill_window_once k w c1 n = Some (n', out, d1)" "cache_ok n' d1"
        "fill_window_once k w c2 n = Some (n', out, d2)" "cache_ok n' d2"
      using \<open>cache_ok n c1\<close> \<open>cache_ok n c2\<close> by metis
    have "sends_alike (fill_window_loop k w d1 n') (fill_window_loop k w d2 n')"
      using 1(1) [OF d(1) refl refl d(2,4)] .
    with d show ?thesis
      by (auto simp: fill_window_loop.simps [of k w _ n] sends_alike_def case_prod_unfold Let_def)
  qed
qed

lemma fill_replication_window_alike:
  assumes "cache_ok n c1" "cache_ok n c2"
  shows "sends_alike (fill_replication_window k d w c1 n) (fill_replication_window k d w c2 n)"
  using fill_window_loop_alike [OF assms, of k w]
  by (auto simp: fill_replication_window_def sends_alike_def Let_def case_prod_unfold)

lemma replicate_probe_alike:
  assumes "cache_ok n c1" "cache_ok n c2"
  shows "sends_alike (replicate_probe_to_follower k a d si c1 n) (replicate_probe_to_follower k a d si c2 n)"
proof (cases "map_option (\<lambda>p. max (next_index p) (LogIndex_next si)) (ps_get (progress (leader n)) k)")
  case None
  with assms show ?thesis by (simp add: replicate_probe_to_follower_def sends_alike_def)
next
  case (Some i)
  with assms cached_batch [OF assms(1), of i "max_append_entries_bytes (config n)"]
    cached_batch [OF assms(2), of i "max_append_entries_bytes (config n)"]
  show ?thesis by (auto simp: replicate_probe_to_follower_def sends_alike_def Let_def)
qed

lemma replicate_fresh_alike:
  assumes "cache_ok n c1" "cache_ok n c2"
  shows "sends_alike (replicate_to_follower_with_cache_fresh k d c1 n)
    (replicate_to_follower_with_cache_fresh k d c2 n)"
proof -
  let ?n = "update_progress k (enter_snapshot_mode (snapshot_index n)) n"
  note alike = replicate_probe_alike [of ?n c1 c2] fill_replication_window_alike [of ?n c1 c2]
  show ?thesis
  proof (cases "k = Node_id n \<or> \<not> ps_contains (progress (leader n)) k")
    case True
    with assms show ?thesis by (auto simp: replicate_to_follower_with_cache_fresh_def sends_alike_def)
  next
    case False
    with assms alike show ?thesis
      by (auto simp: replicate_to_follower_with_cache_fresh_def Let_def sends_alike_def [of "(_, _, _)"]
          split: option.split ProgressMode.split)
  qed
qed

text \<open>Sending to each follower with a cache of its own.\<close>

fun broadcast_slots_uncached ::
    "ReplicationDemand \<Rightarrow> NodeId \<Rightarrow> usize list \<Rightarrow> Node \<Rightarrow> Node \<times> Output list" where
  "broadcast_slots_uncached demand local_id [] n = (n, [])"
| "broadcast_slots_uncached demand local_id (slot # slots) n =
     (case replica_id_at (progress (leader n)) slot of
        None \<Rightarrow> broadcast_slots_uncached demand local_id slots n
      | Some follower_id \<Rightarrow>
          if follower_id = local_id then broadcast_slots_uncached demand local_id slots n
          else let (n, outputs) = sent_of (replicate_to_follower_with_cache_fresh follower_id demand [] n);
                   (n, rest) = broadcast_slots_uncached demand local_id slots n
               in (n, outputs @ rest))"

lemma broadcast_slots_uncached:
  "cache_ok n cache \<Longrightarrow> broadcast_slots d self_id slots cache n = broadcast_slots_uncached d self_id slots n"
proof (induction slots arbitrary: n cache)
  case (Cons slot slots)
  show ?case
  proof (cases "\<exists>k. replica_id_at (progress (leader n)) slot = Some k \<and> k \<noteq> self_id")
    case True
    then obtain k where k: "replica_id_at (progress (leader n)) slot = Some k" "k \<noteq> self_id" by blast
    have "sends_alike (replicate_to_follower_with_cache_fresh k d cache n)
        (replicate_to_follower_with_cache_fresh k d [] n)"
      using Cons.prems by (rule replicate_fresh_alike) simp
    with k Cons.IH show ?thesis by (auto simp: sends_alike_def case_prod_unfold Let_def)
  next
    case False
    then consider "replica_id_at (progress (leader n)) slot = None"
      | "replica_id_at (progress (leader n)) slot = Some self_id" by fastforce
    then show ?thesis using Cons.IH [OF Cons.prems] by cases simp_all
  qed
qed simp

section \<open>Appends carry slices of the leader's log\<close>

definition append_from :: "Node \<Rightarrow> AppendEntries \<Rightarrow> bool" where
  "append_from n ae \<longleftrightarrow>
     ae_term ae = Node_current_term n \<and> ae_leader_id ae = Node_id n \<and>
     ae_leader_commit ae = Node_commit_index n \<and>
     (\<forall>t. term_at n (ae_prev_log_index ae) = Some t \<longrightarrow> ae_prev_log_term ae = t) \<and>
     (\<forall>j<length (ae_entries ae). entry_at n (ae_prev_log_index ae + 1 + j) = Some (ae_entries ae ! j)) \<and>
     (ae_entries ae \<noteq> [] \<longrightarrow> snapshot_index n \<le> ae_prev_log_index ae) \<and>
     (length (ae_entries ae) \<le> 1 \<or> entries_bytes (ae_entries ae) \<le> max_append_entries_bytes (config n))"

definition chunk_from :: "Node \<Rightarrow> SnapshotChunkSend \<Rightarrow> bool" where
  "chunk_from n c \<longleftrightarrow>
     scs_term c = Node_current_term n \<and> scs_leader_id c = Node_id n \<and>
     (case Node_snapshot n of None \<Rightarrow> False | Some snap \<Rightarrow>
        scs_transfer_id c = RaftSnapshot_transfer_id snap \<and> scs_metadata c = metadata snap \<and>
        scs_total_payload_len c = application_payload_len snap \<and>
        scs_application_payload_crc32 c = application_payload_crc32 snap) \<and>
     scs_offset c + scs_len c \<le> scs_total_payload_len c \<and> scs_len c \<le> INSTALL_SNAPSHOT_CHUNK_BYTES \<and>
     (scs_done c \<longleftrightarrow> scs_offset c + scs_len c = scs_total_payload_len c) \<and>
     (scs_done c \<or> 0 < scs_len c)"

text \<open>The outputs of replication are appends and snapshot chunks of the leader's own state.\<close>

fun replication_output :: "Node \<Rightarrow> Output \<Rightarrow> bool" where
  "replication_output n (Send k (AppendEntriesMsg ae)) = append_from n ae"
| "replication_output n (SendSnapshotChunk k c) = chunk_from n c"
| "replication_output n _ = False"

definition appends_from :: "Node \<Rightarrow> Output list \<Rightarrow> bool" where
  "appends_from n outs \<longleftrightarrow> (\<forall>x\<in>set outs. replication_output n x)"

lemma appends_from_Nil [simp]: "appends_from n []"
  by (simp add: appends_from_def)

lemma appends_from_append [simp]: "appends_from n (xs @ ys) \<longleftrightarrow> appends_from n xs \<and> appends_from n ys"
  by (auto simp: appends_from_def)

lemma appends_from_Cons: "appends_from n (x # xs) \<longleftrightarrow> appends_from n [x] \<and> appends_from n xs"
  using appends_from_append [of n "[x]" xs] by simp

lemma append_from_leader_only: "leader_only n (n', outs) \<Longrightarrow> append_from n' ae = append_from n ae"
  using same_log_simps [OF leader_only_same_log, of n "(n', outs)"] leader_only_frame [of n "(n', outs)"]
  by (simp add: append_from_def)

lemma chunk_from_leader_only: "leader_only n (n', outs) \<Longrightarrow> chunk_from n' c = chunk_from n c"
  using leader_only_frame [of n "(n', outs)"] by (simp add: chunk_from_def cong: option.case_cong)

lemma appends_from_leader_only:
  assumes "leader_only n (n', outs)"
  shows "appends_from n' xs = appends_from n xs"
proof -
  have "replication_output n' x = replication_output n x" for x
    using append_from_leader_only [OF assms] chunk_from_leader_only [OF assms]
    by (induction n x rule: replication_output.induct) simp_all
  then show ?thesis by (simp add: appends_from_def)
qed

lemma appends_from_empty: "appends_from n [append_entries_message n k i []]"
  by (simp add: appends_from_def append_entries_message_def append_from_def Let_def)

lemma appends_from_batch:
  assumes "log_batch_from_bounded n i (max_append_entries_bytes (config n)) = Some b"
  shows "appends_from n [append_entries_message n k (lb_first_index b) (lb_entries b)]"
proof -
  note b = log_batch_from_bounded_spec [OF assms]
  let ?f = "lb_first_index b"
  have f: "snapshot_index n < ?f" using b by simp
  have "entry_at n (?f - 1 + 1 + j) = Some (lb_entries b ! j)" if j: "j < length (lb_entries b)" for j
  proof -
    let ?es = "drop (?f - Suc (snapshot_index n)) (Node_log n)"
    have es: "lb_entries b = take (length (lb_entries b)) ?es"
      using b log_entries_from_nth [OF f] by metis
    have len: "length (lb_entries b) \<le> length ?es"
      using arg_cong [OF es, of length] unfolding length_take by simp
    have "lb_entries b ! j = ?es ! j" by (subst es) (simp add: j)
    then show ?thesis using len j f by (auto simp: entry_at_Some_iff last_log_index_def)
  qed
  moreover have "snapshot_index n \<le> ?f - 1" using f by simp
  moreover have "length (lb_entries b) \<le> 1 \<or> entries_bytes (lb_entries b) \<le> max_append_entries_bytes (config n)"
    using b by (metis order_refl)
  ultimately show ?thesis
    by (simp add: appends_from_def append_entries_message_def append_from_def Let_def)
qed

lemma appends_from_send_empty [simp]: "appends_from n (send_empty_append_to_progress_next k n)"
  by (simp add: send_empty_append_to_progress_next_def appends_from_empty split: option.split)

lemma snapshot_chunk_len_bounds:
  assumes "off \<le> len"
  shows "off + snapshot_chunk_len len off \<le> len \<and> snapshot_chunk_len len off \<le> INSTALL_SNAPSHOT_CHUNK_BYTES \<and>
    (off + snapshot_chunk_len len off = len \<or> 0 < snapshot_chunk_len len off)"
  using assms by (auto simp: snapshot_chunk_len_def Let_def INSTALL_SNAPSHOT_CHUNK_BYTES_def)

lemma appends_from_snapshot [simp]: "appends_from n (replicate_snapshot_to_follower k n)"
proof (cases "Node_snapshot n")
  case (Some snap)
  let ?off = "snapshot_send_offset n k (application_payload_len snap)"
  have "?off \<le> application_payload_len snap" by (simp add: snapshot_send_offset_def)
  from snapshot_chunk_len_bounds [OF this] Some show ?thesis
    by (simp add: replicate_snapshot_to_follower_def install_snapshot_chunk_to_def appends_from_def Let_def
        chunk_from_def)
qed (simp add: replicate_snapshot_to_follower_def)

lemma fill_window_loop_appends:
  "fill_window_loop k w c n = (n', outs, c') \<Longrightarrow> cache_ok n c \<Longrightarrow> appends_from n outs"
proof (induction k w c n arbitrary: n' outs c' rule: fill_window_loop.induct)
  case (1 k w c n)
  show ?case
  proof (cases "fill_window_once k w c n")
    case None
    with 1(2) show ?thesis by (simp add: fill_window_loop.simps [of k w c n])
  next
    case (Some r)
    obtain n1 out c1 where r: "r = (n1, out, c1)" by (cases r) auto
    obtain n2 rest c2 where l: "fill_window_loop k w c1 n1 = (n2, rest, c2)"
      by (cases "fill_window_loop k w c1 n1") auto
    from Some r have once: "fill_window_once k w c n = Some (n1, out, c1)" by simp
    then obtain p :: Progress and b where b: "log_batch_from_bounded_cached n (next_index p)
        (max_append_entries_bytes (config n)) c = (c1, Some b)"
      "out = append_entries_message n k (lb_first_index b) (lb_entries b)"
      by (rule fill_window_once_Some) blast
    with cached_batch [OF 1(3), of "next_index p" "max_append_entries_bytes (config n)"]
    have ok: "log_batch_from_bounded n (next_index p) (max_append_entries_bytes (config n)) = Some b"
      "cache_ok n c1" by auto
    note lo = fill_window_once_leader_only [OF once]
    have "appends_from n1 rest"
      using 1(1) [OF once refl refl l] ok(2) cache_ok_leader_only [OF lo] by simp
    then have "appends_from n rest" using appends_from_leader_only [OF lo] by simp
    moreover have "appends_from n [out]" using appends_from_batch [OF ok(1)] b(2) by simp
    ultimately have "appends_from n ([out] @ rest)" unfolding appends_from_append by blast
    then show ?thesis using 1(2) once l by (simp add: fill_window_loop.simps [of k w c n])
  qed
qed

lemma fill_replication_window_appends:
  assumes "fill_replication_window k d w c n = (n', outs, c')" "cache_ok n c"
  shows "appends_from n outs"
proof -
  obtain n1 outs1 c1 where l: "fill_window_loop k w c n = (n1, outs1, c1)"
    by (cases "fill_window_loop k w c n") auto
  have "appends_from n (send_empty_append_to_progress_next k n1)"
    using appends_from_leader_only [OF fill_window_loop_leader_only [OF l]] appends_from_send_empty
    by blast
  with assms(1) l fill_window_loop_appends [OF l assms(2)] show ?thesis
    by (auto simp: fill_replication_window_def Let_def split: if_splits)
qed

lemma replicate_probe_appends:
  assumes "replicate_probe_to_follower k a d (snapshot_index n) c n = (n', outs, c')" "cache_ok n c"
  shows "appends_from n outs"
proof (cases "\<not> a \<and> (\<exists>p. ps_get (progress (leader n)) k = Some p)")
  case True
  then obtain p where p: "\<not> a" "ps_get (progress (leader n)) k = Some p" by blast
  let ?i = "max (next_index p) (LogIndex_next (snapshot_index n))"
  let ?b = "log_batch_from_bounded n ?i (max_append_entries_bytes (config n))"
  obtain c1 where "log_batch_from_bounded_cached n ?i (max_append_entries_bytes (config n)) c = (c1, ?b)"
    using cached_batch [OF assms(2)] by blast
  with assms(1) p have outs: "outs = [append_entries_message n k ?i (case ?b of None \<Rightarrow> [] | Some b \<Rightarrow> lb_entries b)]"
    by (simp add: replicate_probe_to_follower_def)
  show ?thesis
  proof (cases ?b)
    case None
    with outs show ?thesis by (simp add: appends_from_empty)
  next
    case (Some b)
    moreover from log_batch_from_bounded_spec [OF this] have "lb_first_index b = ?i" by simp
    ultimately show ?thesis using appends_from_batch [OF Some, of k] outs by simp
  qed
next
  case False
  with assms(1) show ?thesis
    by (auto simp: replicate_probe_to_follower_def split: if_splits)
qed

lemma replicate_fresh_appends:
  assumes "replicate_to_follower_with_cache_fresh k d c n = (n', outs, c')" "cache_ok n c"
  shows "appends_from n outs"
proof (cases "k = Node_id n \<or> \<not> ps_contains (progress (leader n)) k")
  case True
  with assms(1) show ?thesis by (auto simp: replicate_to_follower_with_cache_fresh_def)
next
  case False
  let ?n = "update_progress k (enter_snapshot_mode (snapshot_index n)) n"
  have lo: "leader_only n (?n, [])" by (rule leader_only_update) simp
  have si: "snapshot_index ?n = snapshot_index n" by (simp add: snapshot_index_def)
  have "appends_from ?n outs"
    using assms False fill_replication_window_appends [of k d _ c ?n]
      replicate_probe_appends [of k _ d ?n c, unfolded si]
    by (auto simp: replicate_to_follower_with_cache_fresh_def Let_def
        split: option.splits ProgressMode.splits)
  then show ?thesis using appends_from_leader_only [OF lo] by simp
qed

lemma broadcast_slots_appends:
  "cache_ok n c \<Longrightarrow> appends_from n (snd (broadcast_slots d self_id slots c n))"
proof (induction slots arbitrary: n c)
  case (Cons slot slots)
  show ?case
  proof (cases "\<exists>k. replica_id_at (progress (leader n)) slot = Some k \<and> k \<noteq> self_id")
    case True
    then obtain k where k: "replica_id_at (progress (leader n)) slot = Some k" "k \<noteq> self_id" by blast
    obtain n1 outs c1 where r: "replicate_to_follower_with_cache_fresh k d c n = (n1, outs, c1)"
      by (cases "replicate_to_follower_with_cache_fresh k d c n") auto
    note lo = replicate_fresh_leader_only [OF r]
    have "cache_ok n1 c1"
      using replicate_fresh_alike [OF Cons.prems Cons.prems, of k d] r by (simp add: sends_alike_def)
    then have "appends_from n (snd (broadcast_slots d self_id slots c1 n1))"
      using Cons.IH appends_from_leader_only [OF lo] by blast
    with replicate_fresh_appends [OF r Cons.prems] k r show ?thesis by (simp add: case_prod_unfold Let_def)
  next
    case False
    then consider "replica_id_at (progress (leader n)) slot = None"
      | "replica_id_at (progress (leader n)) slot = Some self_id" by fastforce
    then show ?thesis using Cons.IH [OF Cons.prems] by cases simp_all
  qed
qed simp

lemma broadcast_replication_appends: "appends_from n (snd (broadcast_replication d n))"
proof -
  let ?n = "if requires_message d then begin_contact_round n else n"
  have "leader_only n (?n, [])"
    by (simp add: begin_contact_round_def leader_only_update leader_only_refl)
  then have lo: "leader_only n (reconcile_replication_progress ?n, [])"
    using leader_only_reconcile by (rule leader_only_trans0)
  show ?thesis
    unfolding broadcast_replication_def Let_def
    using broadcast_slots_appends [of "reconcile_replication_progress ?n" "[]"]
      appends_from_leader_only [OF lo] by simp
qed

lemma replicate_to_follower_appends: "appends_from n (snd (replicate_to_follower k d n))"
proof -
  let ?r = "reconcile_replication_progress n"
  obtain n' outs c where r: "replicate_to_follower_with_cache_fresh k d [] ?r = (n', outs, c)"
    by (cases "replicate_to_follower_with_cache_fresh k d [] ?r") auto
  from replicate_fresh_appends [OF r] have "appends_from n outs"
    using appends_from_leader_only [OF leader_only_reconcile] by simp
  with r show ?thesis
    by (simp add: replicate_to_follower_def replicate_to_follower_with_cache_def)
qed

section \<open>The window of outstanding batches\<close>

text \<open>
  Both budgets of the window, over the outstanding batches themselves: their number stays within the
  first, and the batches before the newest one together hold fewer bytes than the second, so a batch is
  only ever sent while the budget has room. The byte counter is the saturated sum of the batches.
\<close>

definition window_bounded :: "WindowBudget \<Rightarrow> Inflights \<Rightarrow> bool" where
  "window_bounded w fl \<longleftrightarrow>
     length (if_batches fl) \<le> max (wb_max_batches w) 1 \<and>
     if_bytes fl = min (batch_sum (if_batches fl)) u64_max \<and>
     (1 < length (if_batches fl) \<longrightarrow> batch_sum (butlast (if_batches fl)) < wb_max_bytes w)"

lemma window_bounded_default: "window_bounded w Inflights_default"
  by (simp add: window_bounded_def Inflights_default_def batch_sum_def)

lemma window_bounded_record:
  assumes "window_bounded w fl" "\<not> inflights_is_full fl (wb_max_batches w) (wb_max_bytes w)" "wb_max_bytes w \<le> u64_max"
  shows "window_bounded w (inflights_record fl last_index bytes)"
  using assms by (auto simp: window_bounded_def inflights_is_full_def inflights_record_def batch_sum_def sat_add_def)

lemma batch_sum_Cons: "batch_sum (b # bs) = ib_bytes b + batch_sum bs"
  by (simp add: batch_sum_def)

lemma batch_sum_butlast_dropWhile: "batch_sum (butlast (dropWhile P bs)) \<le> batch_sum (butlast bs)"
  by (induction bs) (auto simp: batch_sum_Cons)

lemma batch_sum_dropWhile: "batch_sum (dropWhile P bs) \<le> batch_sum bs"
  by (induction bs) (auto simp: batch_sum_Cons)

text \<open>Acknowledged batches leave the window from the front, and the rest stays within both budgets.\<close>

lemma window_bounded_free_through:
  assumes "window_bounded w fl" "batch_sum (if_batches fl) \<le> u64_max"
  shows "window_bounded w (inflights_free_through fl m)"
proof -
  let ?bs = "dropWhile (\<lambda>b. ib_last_index b \<le> m) (if_batches fl)"
  have "if_bytes fl = batch_sum (if_batches fl)" using assms by (simp add: window_bounded_def)
  then have fl: "inflights_free_through fl m = \<lparr>if_batches = ?bs, if_bytes = batch_sum ?bs\<rparr>"
    by (simp add: inflights_free_through_def free_batches_spec)
  have "batch_sum ?bs \<le> batch_sum (if_batches fl)"
    by (rule batch_sum_dropWhile)
  moreover have "length ?bs \<le> length (if_batches fl)" by (rule length_dropWhile_le)
  ultimately show ?thesis
    using assms batch_sum_butlast_dropWhile [of "\<lambda>b. ib_last_index b \<le> m" "if_batches fl"]
    unfolding fl window_bounded_def by (fastforce simp: min_def)
qed

definition node_window :: "Node \<Rightarrow> WindowBudget" where
  "node_window n = \<lparr>wb_last_log_index = last_log_index n,
     wb_max_batches = max_inflight_appends (config n), wb_max_bytes = max_inflight_bytes (config n)\<rparr>"

lemma fill_window_once_progress:
  assumes "fill_window_once k w c n = Some (n1, out, c1)" "cache_ok n c"
    and "ps_get (progress (leader n)) k = Some p" "snapshot_index n < next_index p"
    and "window_bounded w (inflights p)" "wb_max_bytes w \<le> u64_max"
  shows "\<exists>p1. ps_get (progress (leader n1)) k = Some p1 \<and> window_bounded w (inflights p1) \<and>
    next_index p < next_index p1 \<and> mode p1 = mode p"
  using assms(1)
proof (rule fill_window_once_Some)
  fix q b
  assume q: "ps_get (progress (leader n)) k = Some q"
    "\<not> inflights_is_full (inflights q) (wb_max_batches w) (wb_max_bytes w)"
    "log_batch_from_bounded_cached n (next_index q) (max_append_entries_bytes (config n)) c = (c1, Some b)"
    "n1 = update_progress k (\<lambda>p. p\<lparr>inflights :=
          inflights_record (inflights p) (lb_last_index b) (lb_replication_bytes b),
        next_index := LogIndex_next (lb_last_index b)\<rparr>) n"
  have "q = p" using q(1) assms(3) by simp
  have "log_batch_from_bounded n (next_index p) (max_append_entries_bytes (config n)) = Some b"
    using cached_batch [OF assms(2), of "next_index q" "max_append_entries_bytes (config n)"] q(3) \<open>q = p\<close>
    by auto
  from log_batch_from_bounded_spec [OF this]
  have "lb_first_index b = max (next_index p) (Suc (snapshot_index n))" "lb_entries b \<noteq> []"
      "lb_last_index b + 1 = lb_first_index b + length (lb_entries b)"
    by blast+
  then have "next_index p \<le> lb_last_index b" by (cases "lb_entries b") auto
  with window_bounded_record [OF assms(5) _ assms(6)] q(2,4) \<open>q = p\<close> assms(3) show ?thesis
    by (simp add: ps_get_modify_same)
qed

lemma fill_window_once_stuck:
  assumes "fill_window_once k w c n = None" "cache_ok n c" "wb_last_log_index w = last_log_index n"
    and "ps_get (progress (leader n)) k = Some p" "snapshot_index n < next_index p"
  shows "inflights_is_full (inflights p) (wb_max_batches w) (wb_max_bytes w) \<or> last_log_index n < next_index p"
proof (rule ccontr)
  assume *: "\<not> ?thesis"
  then obtain b where "log_batch_from_bounded n (next_index p) (max_append_entries_bytes (config n)) = Some b"
    using log_batch_from_bounded_None [OF assms(5)] by force
  then obtain c' where "log_batch_from_bounded_cached n (next_index p) (max_append_entries_bytes (config n)) c =
      (c', Some b)" using cached_batch [OF assms(2)] by metis
  with assms * show False by (simp add: fill_window_once_def Let_def)
qed

lemma fill_window_loop_window:
  assumes "fill_window_loop k w c n = (n', outs, c')" "cache_ok n c" "wb_last_log_index w = last_log_index n"
    and "ps_get (progress (leader n)) k = Some p" "snapshot_index n < next_index p"
    and "window_bounded w (inflights p)" "wb_max_bytes w \<le> u64_max"
  shows "\<exists>p'. ps_get (progress (leader n')) k = Some p' \<and> window_bounded w (inflights p') \<and>
    mode p' = mode p \<and> next_index p \<le> next_index p' \<and>
    (inflights_is_full (inflights p') (wb_max_batches w) (wb_max_bytes w) \<or> last_log_index n < next_index p')"
  using assms
proof (induction k w c n arbitrary: n' outs c' p rule: fill_window_loop.induct)
  case (1 k w c n)
  show ?case
  proof (cases "fill_window_once k w c n")
    case None
    moreover from this have "n' = n" using 1(2) by (simp add: fill_window_loop.simps [of k w c n])
    ultimately show ?thesis
      using fill_window_once_stuck [OF None 1(3-6)] 1(5,7) by (intro exI [of _ p]) simp
  next
    case (Some r)
    obtain n1 out c1 where r: "r = (n1, out, c1)" by (cases r) auto
    with Some have once: "fill_window_once k w c n = Some (n1, out, c1)" by simp
    obtain n2 rest c2 where l: "fill_window_loop k w c1 n1 = (n2, rest, c2)"
      by (cases "fill_window_loop k w c1 n1") auto
    obtain p1 where p1: "ps_get (progress (leader n1)) k = Some p1" "window_bounded w (inflights p1)"
        "next_index p < next_index p1" "mode p1 = mode p"
      using fill_window_once_progress [OF once 1(3,5-8)] by blast
    note lo = fill_window_once_leader_only [OF once]
    have log: "snapshot_index n1 = snapshot_index n" "last_log_index n1 = last_log_index n"
      using same_log_simps [OF leader_only_same_log [OF lo]] by simp_all
    from once have "cache_ok n1 c1"
      using fill_window_once_cases [OF 1(3), of k w] 1(3) by (metis option.distinct(1) option.inject prod.inject)
    with 1(1) [OF once refl refl l _ _ p1(1) _ p1(2) 1(8)] 1(4,6) p1(3,4) log
    obtain p' where "ps_get (progress (leader n2)) k = Some p'" "window_bounded w (inflights p')"
        "mode p' = mode p" "next_index p \<le> next_index p'"
        "inflights_is_full (inflights p') (wb_max_batches w) (wb_max_bytes w) \<or> last_log_index n < next_index p'"
      by fastforce
    moreover have "n' = n2" using 1(2) once l by (simp add: fill_window_loop.simps [of k w c n])
    ultimately show ?thesis by blast
  qed
qed

section \<open>Properties\<close>

text \<open>
  C35: the batch cache that a broadcast shares between followers is invisible. A broadcast sends
  each follower what sending to it on its own, with an empty cache, sends.
\<close>

theorem broadcast_cache_transparent:
  "broadcast_replication d n =
     (let m = reconcile_replication_progress (if requires_message d then begin_contact_round n else n)
      in broadcast_slots_uncached d (Node_id n) [0..<replica_count (progress (leader m))] m)"
  by (simp add: broadcast_replication_def Let_def broadcast_slots_uncached frame_simps begin_contact_round_def)

text \<open>
  C37: a broadcast or a single-follower send produces only appends and snapshot chunks. Every append
  carries a contiguous slice of the leader's retained log at the position it names, with the leader's
  term, commit index and the term its log has before the slice, and more than one entry only within the
  configured byte budget; every chunk names a range of the
  installed snapshot within its payload and the chunk bound, nonempty unless it is the last one.
\<close>

theorem sends_are_log_slices:
  "appends_from n (snd (broadcast_replication d n)) \<and> appends_from n (snd (replicate_to_follower k d n))"
  using broadcast_replication_appends replicate_to_follower_appends by blast

text \<open>
  C39: pipelining to a replicating follower stays within both budgets of the window: at most the
  configured number of batches is outstanding (at least one), and a further batch is sent only while the
  outstanding ones hold fewer bytes than the byte budget. It stops only when the number of batches or
  their bytes have reached the budget, or the whole log has been sent.
\<close>

theorem replication_window_filled:
  assumes "fill_replication_window k d (node_window n) [] n = (n', outs, cache)"
    and "ps_get (progress (leader n)) k = Some p" "snapshot_index n < next_index p"
    and "window_bounded (node_window n) (inflights p)" "max_inflight_bytes (config n) \<le> u64_max"
  shows "\<exists>p'. ps_get (progress (leader n')) k = Some p' \<and>
    length (if_batches (inflights p')) \<le> max (max_inflight_appends (config n)) 1 \<and>
    (1 < length (if_batches (inflights p')) \<longrightarrow>
       batch_sum (butlast (if_batches (inflights p'))) < max_inflight_bytes (config n)) \<and>
    window_bounded (node_window n) (inflights p') \<and>
    (max (max_inflight_appends (config n)) 1 = length (if_batches (inflights p')) \<or>
     (if_batches (inflights p') \<noteq> [] \<and> max_inflight_bytes (config n) \<le> batch_sum (if_batches (inflights p'))) \<or>
     last_log_index n < next_index p')"
proof -
  let ?w = "node_window n"
  obtain n1 outs1 c1 where l: "fill_window_loop k ?w [] n = (n1, outs1, c1)"
    by (cases "fill_window_loop k ?w [] n") auto
  with assms(1) have "n' = n1" by (simp add: fill_replication_window_def)
  moreover have "wb_last_log_index ?w = last_log_index n" "wb_max_bytes ?w \<le> u64_max"
    using assms(5) by (simp_all add: node_window_def)
  ultimately obtain p' where p': "ps_get (progress (leader n')) k = Some p'" "window_bounded ?w (inflights p')"
      "inflights_is_full (inflights p') (wb_max_batches ?w) (wb_max_bytes ?w) \<or> last_log_index n < next_index p'"
    using fill_window_loop_window [OF l cache_ok_Nil _ assms(2-4)] by blast
  then show ?thesis
    by (intro exI [of _ p']) (auto simp: window_bounded_def inflights_is_full_def node_window_def)
qed

definition sample_pipelining :: Node where
  "sample_pipelining = update_progress 2 confirm_replicating sample_leader"

theorem replication_window_filled_witness:
  "\<exists>p'. ps_get (progress (leader
      (fst (fill_replication_window 2 EnsureContact (node_window sample_pipelining) [] sample_pipelining)))) 2 =
      Some p' \<and> length (if_batches (inflights p')) \<le> 8 \<and> window_bounded (node_window sample_pipelining) (inflights p')"
proof -
  let ?p = "confirm_replicating (initial_progress 1 3 4 2)"
  have get: "ps_get (progress (leader sample_pipelining)) 2 = Some ?p"
    by (simp add: sample_pipelining_def ps_get_modify_same sample_leader_progress)
  have si: "snapshot_index sample_pipelining = 0"
    using sample_snapshot_index(2) by (simp add: snapshot_index_def sample_pipelining_def)
  have p: "0 < next_index ?p" "inflights ?p = Inflights_default"
    by (simp_all add: confirm_replicating_def initial_progress_def Progress_probing_def inflights_clear_def
        Inflights_default_def)
  obtain n' outs c where f:
    "fill_replication_window 2 EnsureContact (node_window sample_pipelining) [] sample_pipelining = (n', outs, c)"
    by (cases "fill_replication_window 2 EnsureContact (node_window sample_pipelining) [] sample_pipelining") auto
  have cfg: "max_inflight_bytes (config sample_pipelining) \<le> u64_max" "max_inflight_appends (config sample_pipelining) \<le> 8"
    by (simp_all add: sample_pipelining_def sample_defs
        DEFAULT_MAX_INFLIGHT_APPENDS_def DEFAULT_MAX_INFLIGHT_BYTES_def DEFAULT_MAX_APPEND_ENTRIES_BYTES_def u64_max_def)
  from replication_window_filled [OF f get] p si f cfg show ?thesis
    by (auto simp: window_bounded_default)
qed

end
