(* ===== verification/Read_Index.thy ===== *)
theory Read_Index
  imports Replication_Send
begin

text \<open>
  Linearizable reads: \<open>node/read_index.rs\<close>. A read is granted at once under a held lease or in a
  single-voter membership, and otherwise when a quorum of the effective membership has echoed a
  contact round that began after the read was registered. The theorems state exactly when a
  read is granted, that grants carry the index recorded at registration, and the bound on waiting
  reads.
\<close>

section \<open>Operations\<close>

definition MAX_PENDING_READS :: usize where
  "MAX_PENDING_READS = 1024"

definition grant_reads :: "ReadId list \<Rightarrow> LogIndex \<Rightarrow> Output list" where
  "grant_reads ids index = map (\<lambda>r. ReadIndexGranted r index) ids"

definition reject_reads :: "ReadId list \<Rightarrow> ReadIndexRejection \<Rightarrow> Output list" where
  "reject_reads ids reason = map (\<lambda>r. ReadIndexRejected r reason) ids"

definition has_committed_in_current_term :: "Node \<Rightarrow> bool" where
  "has_committed_in_current_term n \<longleftrightarrow>
     Node_commit_index n > 0 \<and> term_at n (Node_commit_index n) = Some (Node_current_term n)"

definition lease_grant_available :: "Node \<Rightarrow> bool" where
  "lease_grant_available n \<longleftrightarrow>
     Node_role n = Leader \<and> lease_reads (config n) \<and> pending_transfer (leader n) = None \<and>
     \<not> deposition_authorized (leader n) \<and> has_committed_in_current_term n \<and>
     lease_holds (lease (leader n)) (ticks (leader n)) (read_lease_ticks (config n))"

definition pending_read_count :: "Node \<Rightarrow> usize" where
  "pending_read_count n = sum_list (map (\<lambda>p. length (read_ids p)) (pending_reads (leader n)))"

definition read_index_batch :: "ReadId list \<Rightarrow> Node \<Rightarrow> Node \<times> Output list" where
  "read_index_batch ids n =
     (if ids = [] then (n, [])
      else if Node_role n \<noteq> Leader
      then (n, reject_reads ids (ReadNotLeader (Node_role n) (Node_current_term n)))
      else case pending_transfer (leader n) of
        Some transfer \<Rightarrow>
          (n, reject_reads ids (ReadLeadershipTransferInProgress (transfer_target transfer)))
      | None \<Rightarrow>
          if \<not> has_committed_in_current_term n then (n, reject_reads ids NoCommitInCurrentTerm)
          else if lease_grant_available n then (n, grant_reads ids (Node_commit_index n))
          else
            let m = effective_membership n;
                self_id = Node_id n;
                (acks, quorum) = ack_has_quorum_with_self (AcknowledgementSet_new m self_id) m self_id;
                pending = \<lparr>read_ids = ids, read_index = Node_commit_index n,
                           registered_sequence = heartbeat_sequence (leader n) + 1, read_acks = acks\<rparr>
            in if quorum then (n, grant_reads ids (read_index pending))
               else let available = sat_sub MAX_PENDING_READS (pending_read_count n)
                    in if available = 0 then (n, reject_reads ids TooManyPendingReads)
                       else let rejected = drop available ids;
                                pending = pending\<lparr>read_ids := take available ids\<rparr>;
                                n = map_leader (\<lambda>l. l\<lparr>pending_reads := pending_reads l @ [pending]\<rparr>) n;
                                (n, outputs) = broadcast_append_entries n
                            in (n, outputs @ reject_reads rejected TooManyPendingReads))"

definition Node_read_index :: "ReadId \<Rightarrow> Node \<Rightarrow> Node \<times> Output list" where
  "Node_read_index read_id n = read_index_batch [read_id] n"

definition record_read_ack ::
    "NodeId \<Rightarrow> u64 \<Rightarrow> MembershipConfig \<Rightarrow> NodeId \<Rightarrow> PendingReadRound \<Rightarrow> PendingReadRound" where
  "record_read_ack follower_id sequence m self_id pending =
     (if registered_sequence pending \<le> sequence
      then pending\<lparr>read_acks := ack_insert (read_acks pending) follower_id m self_id\<rparr> else pending)"

definition check_read_round ::
    "MembershipConfig \<Rightarrow> NodeId \<Rightarrow> PendingReadRound \<Rightarrow> PendingReadRound \<times> bool" where
  "check_read_round m self_id pending =
     (let (acks, confirmed) = ack_has_quorum_with_self (read_acks pending) m self_id
      in (pending\<lparr>read_acks := acks\<rparr>, confirmed))"

definition acknowledge_read_barriers :: "NodeId \<Rightarrow> u64 \<Rightarrow> Node \<Rightarrow> Node \<times> Output list" where
  "acknowledge_read_barriers follower_id sequence n =
     (if pending_reads (leader n) = [] then (n, [])
      else let m = effective_membership n;
               self_id = Node_id n;
               recorded = map (record_read_ack follower_id sequence m self_id) (pending_reads (leader n));
               checked = map (check_read_round m self_id) recorded;
               outputs = concat (map (\<lambda>(p, confirmed).
                 if confirmed then grant_reads (read_ids p) (read_index p) else []) checked);
               kept = map fst (filter (\<lambda>(p, confirmed). \<not> confirmed) checked)
           in (map_leader (\<lambda>l. l\<lparr>pending_reads := kept\<rparr>) n, outputs))"

section \<open>Reads only write leader bookkeeping\<close>

lemma applies_grant_reads [simp]: "applies (grant_reads ids i) = []"
  by (rule applies_quiet) (auto simp: grant_reads_def)

lemma applies_reject_reads [simp]: "applies (reject_reads ids r) = []"
  by (rule applies_quiet) (auto simp: reject_reads_def)

lemma read_index_batch_leader_only: "leader_only n (read_index_batch ids n)"
proof -
  have b: "leader_only n (fst (broadcast_append_entries (map_leader f n)),
      snd (broadcast_append_entries (map_leader f n)) @ reject_reads rs why)" for f rs why
  proof -
    have "leader_only n (broadcast_append_entries (map_leader f n))"
      by (rule leader_only_trans0 [OF leader_only_update broadcast_append_entries_leader_only]) simp
    then show ?thesis by (simp add: leader_only_def)
  qed
  show ?thesis
    unfolding read_index_batch_def Let_def case_prod_unfold
    by (auto intro!: leader_only_refl b split: option.split)
qed

lemma acknowledge_read_barriers_quiet: "applies (snd (acknowledge_read_barriers k s n)) = []"
  unfolding acknowledge_read_barriers_def
  by (rule applies_quiet) (auto simp: Let_def grant_reads_def split: if_splits)

lemma acknowledge_read_barriers_leader_only: "leader_only n (acknowledge_read_barriers k s n)"
  using acknowledge_read_barriers_quiet [of k s n]
  by (auto simp: leader_only_def acknowledge_read_barriers_def Let_def intro: exI [of _ "leader n"])

section \<open>The bound on waiting reads\<close>

definition round_ids :: "PendingReadRound list \<Rightarrow> ReadId list" where
  "round_ids rs = concat (map read_ids rs)"

lemma pending_read_count_ids: "pending_read_count n = length (round_ids (pending_reads (leader n)))"
  by (simp add: pending_read_count_def round_ids_def length_concat comp_def)

lemma read_index_batch_reads:
  "pending_reads (leader (fst (read_index_batch ids n))) = pending_reads (leader n) \<or>
   (\<exists>p. pending_reads (leader (fst (read_index_batch ids n))) = pending_reads (leader n) @ [p] \<and>
     read_index p = Node_commit_index n \<and> registered_sequence p = heartbeat_sequence (leader n) + 1 \<and>
     0 < pending_read_count n + length (read_ids p) \<and>
     pending_read_count n + length (read_ids p) \<le> MAX_PENDING_READS \<and>
     read_ids p = take (MAX_PENDING_READS - pending_read_count n) ids \<and>
     read_acks p = fst (ack_has_quorum_with_self
       (AcknowledgementSet_new (effective_membership n) (Node_id n)) (effective_membership n) (Node_id n)))"
  unfolding read_index_batch_def
  by (auto simp: Let_def case_prod_unfold broadcast_append_entries_def broadcast_replication_reads
      split: option.split)

lemma pending_count_read_index_batch:
  assumes "pending_read_count n \<le> MAX_PENDING_READS"
  shows "pending_read_count (fst (read_index_batch ids n)) \<le> MAX_PENDING_READS"
  using read_index_batch_reads [of ids n] assms by (auto simp: pending_read_count_def)

lemma read_round_ids [simp]:
  "read_ids (fst (check_read_round m self_id p)) = read_ids p"
  "read_index (fst (check_read_round m self_id p)) = read_index p"
  "registered_sequence (fst (check_read_round m self_id p)) = registered_sequence p"
  "read_ids (record_read_ack k s m self_id p) = read_ids p"
  "read_index (record_read_ack k s m self_id p) = read_index p"
  "registered_sequence (record_read_ack k s m self_id p) = registered_sequence p"
  by (simp_all add: check_read_round_def record_read_ack_def Let_def case_prod_unfold)

lemma kept_count:
  "sum_list (map (\<lambda>p. length (read_ids p))
      (map fst (filter (\<lambda>(p, c). \<not> c) (map (check_read_round m self_id) (map (record_read_ack k s m self_id) rs)))))
    \<le> sum_list (map (\<lambda>p. length (read_ids p)) rs)"
  by (induction rs) (auto simp: case_prod_unfold)

lemma pending_count_acknowledge:
  "pending_read_count (fst (acknowledge_read_barriers k s n)) \<le> pending_read_count n"
  unfolding acknowledge_read_barriers_def pending_read_count_def Let_def
  using kept_count [of "effective_membership n" "Node_id n" k s "pending_reads (leader n)"] by simp

section \<open>When a waiting read is granted\<close>

definition echoed :: "NodeId \<Rightarrow> u64 \<Rightarrow> PendingReadRound \<Rightarrow> NodeId \<Rightarrow> bool" where
  "echoed k s p v \<longleftrightarrow> acked (read_acks p) v \<or> (registered_sequence p \<le> s \<and> v = k)"

definition round_confirmed :: "MembershipConfig \<Rightarrow> NodeId \<Rightarrow> NodeId \<Rightarrow> u64 \<Rightarrow> PendingReadRound \<Rightarrow> bool" where
  "round_confirmed m self_id k s p = has_quorum m (self_id # filter (echoed k s p) (replica_ids m))"

lemma has_quorum_cong_members:
  assumes "membership_wf m" "\<And>v. v \<in> set (replica_ids m) \<Longrightarrow> v \<in> set xs \<longleftrightarrow> v \<in> set ys"
  shows "has_quorum m xs \<longleftrightarrow> has_quorum m ys"
proof -
  have "filter (\<lambda>v. v \<in> set xs) vs = filter (\<lambda>v. v \<in> set ys) vs" if "vs \<in> set (voter_sets m)" for vs
    using voter_sets_wf [OF assms(1) that] assms(2) by (intro filter_cong) auto
  then show ?thesis by (simp add: has_quorum_voter_sets)
qed

lemma check_read_round_confirmed:
  assumes "ack_wf (read_acks p)" "membership_wf m" "small_config m"
  shows "snd (check_read_round m self_id (record_read_ack k s m self_id p)) \<longleftrightarrow> round_confirmed m self_id k s p"
proof -
  let ?a = "read_acks (record_read_ack k s m self_id p)"
  note ins = ack_insert [OF assms, of k self_id]
  have wf: "ack_wf ?a" using ins assms(1) by (simp add: record_read_ack_def)
  obtain ns where ns: "\<And>v. acked ?a v \<longleftrightarrow> v \<in> set ns"
    using acked_image [OF wf] by (metis list.set_map)
  have "acked ?a v \<longleftrightarrow> echoed k s p v" if "v \<in> set (replica_ids m)" for v
    using ins [of v] that by (auto simp: record_read_ack_def echoed_def)
  then have "has_quorum m (self_id # ns) \<longleftrightarrow> round_confirmed m self_id k s p"
    unfolding round_confirmed_def using ns by (intro has_quorum_cong_members assms(2)) auto
  with ack_has_quorum_with_self [OF wf assms(2,3) ns, of self_id] show ?thesis
    by (simp add: check_read_round_def case_prod_unfold)
qed

lemma acknowledge_read_barriers_granted:
  assumes "membership_wf (effective_membership n)" "small_config (effective_membership n)"
    and "\<forall>p\<in>set (pending_reads (leader n)). ack_wf (read_acks p)"
  shows "ReadIndexGranted r i \<in> set (snd (acknowledge_read_barriers k s n)) \<longleftrightarrow>
    (\<exists>p\<in>set (pending_reads (leader n)). r \<in> set (read_ids p) \<and> i = read_index p \<and>
      round_confirmed (effective_membership n) (Node_id n) k s p)"
proof -
  let ?m = "effective_membership n"
  have "snd (check_read_round ?m (Node_id n) (record_read_ack k s ?m (Node_id n) p)) \<longleftrightarrow>
      round_confirmed ?m (Node_id n) k s p" if "p \<in> set (pending_reads (leader n))" for p
    using check_read_round_confirmed assms that by blast
  then show ?thesis
    by (auto simp: acknowledge_read_barriers_def Let_def case_prod_unfold grant_reads_def split: if_splits)
qed

lemma acknowledge_read_barriers_kept:
  assumes "membership_wf (effective_membership n)" "small_config (effective_membership n)"
    and "\<forall>p\<in>set (pending_reads (leader n)). ack_wf (read_acks p)"
  shows "round_ids (pending_reads (leader (fst (acknowledge_read_barriers k s n)))) =
    round_ids (filter (\<lambda>p. \<not> round_confirmed (effective_membership n) (Node_id n) k s p)
      (pending_reads (leader n)))"
proof -
  let ?m = "effective_membership n"
  have "round_ids (map fst (filter (\<lambda>(p, c). \<not> c) (map (check_read_round ?m (Node_id n))
        (map (record_read_ack k s ?m (Node_id n)) rs)))) =
      round_ids (filter (\<lambda>p. \<not> round_confirmed ?m (Node_id n) k s p) rs)"
    if "\<forall>p\<in>set rs. ack_wf (read_acks p)" for rs
    using that check_read_round_confirmed [OF _ assms(1,2)]
    by (induction rs) (auto simp: round_ids_def case_prod_unfold)
  from this [OF assms(3)] show ?thesis by (simp add: acknowledge_read_barriers_def Let_def)
qed

lemma single_voter_quorum:
  assumes "membership_wf m" "small_config m"
  shows "snd (ack_has_quorum_with_self (AcknowledgementSet_new m self_id) m self_id) \<longleftrightarrow> has_quorum m [self_id]"
  using ack_has_quorum_with_self [OF ack_wf_new [OF assms(2)] assms, of self_id "[]" self_id] by simp

lemma broadcast_grants_nothing: "ReadIndexGranted r i \<notin> set (snd (broadcast_append_entries n))"
  using broadcast_replication_appends [of n EnsureContact]
  by (auto simp: broadcast_append_entries_def appends_from_def)

lemma read_index_batch_granted:
  assumes "membership_wf (effective_membership n)" "small_config (effective_membership n)"
    and "ReadIndexGranted r i \<in> set (snd (read_index_batch ids n))"
  shows "Node_role n = Leader \<and> r \<in> set ids \<and> i = Node_commit_index n \<and> has_committed_in_current_term n \<and>
    pending_transfer (leader n) = None \<and>
    (lease_grant_available n \<or> has_quorum (effective_membership n) [Node_id n])"
  using assms(3) single_voter_quorum [OF assms(1,2), of "Node_id n"] broadcast_grants_nothing
  unfolding read_index_batch_def Let_def case_prod_unfold
  by (auto simp: grant_reads_def reject_reads_def split: if_splits option.splits)

lemma contact_round_sequence:
  "heartbeat_sequence (leader (fst (broadcast_append_entries n))) = heartbeat_sequence (leader n) + 1"
  using progress_only_leader(5) [OF broadcast_replication_progress_only [of EnsureContact n]]
  by (simp add: broadcast_append_entries_def begin_contact_round_def)

lemma read_index_batch_registered:
  assumes "membership_wf (effective_membership n)" "small_config (effective_membership n)"
    and "pending_reads (leader (fst (read_index_batch ids n))) \<noteq> pending_reads (leader n)"
  shows "\<exists>p. pending_reads (leader (fst (read_index_batch ids n))) = pending_reads (leader n) @ [p] \<and>
    read_index p = Node_commit_index n \<and> heartbeat_sequence (leader n) < registered_sequence p \<and>
    heartbeat_sequence (leader (fst (read_index_batch ids n))) = registered_sequence p \<and>
    (\<forall>v. \<not> acked (read_acks p) v)"
proof -
  let ?m = "effective_membership n"
  obtain p where p: "pending_reads (leader (fst (read_index_batch ids n))) = pending_reads (leader n) @ [p]"
      "read_index p = Node_commit_index n" "registered_sequence p = heartbeat_sequence (leader n) + 1"
      "read_acks p = fst (ack_has_quorum_with_self (AcknowledgementSet_new ?m (Node_id n)) ?m (Node_id n))"
    using read_index_batch_reads [of ids n] assms(3) by blast
  have "heartbeat_sequence (leader (fst (read_index_batch ids n))) = heartbeat_sequence (leader n) + 1"
    using assms(3) unfolding read_index_batch_def Let_def case_prod_unfold
    by (auto simp: contact_round_sequence split: if_splits option.splits)
  moreover have "\<not> acked (read_acks p) v" for v
    using ack_refresh [OF ack_wf_new [OF assms(2)] assms(1,2), of "Node_id n" "Node_id n" v]
    by (simp add: p(4) ack_has_quorum_with_self_def Let_def)
  ultimately show ?thesis using p(1-3) by auto
qed

section \<open>Properties\<close>

text \<open>
  C22: the read barrier. An acknowledgement grants exactly the waiting reads whose round is confirmed
  by a quorum of the effective membership counting the leader itself, the replicas recorded for the
  round and the sender, the sender only if it echoes a contact round begun after the read was
  registered. Each is granted at the commit index recorded when it was registered, and exactly
  the reads of unconfirmed rounds keep waiting, in order.
\<close>

theorem read_granted_by_quorum:
  assumes "node_inv n" "small_config (effective_membership n)"
    and "\<forall>p\<in>set (pending_reads (leader n)). ack_wf (read_acks p)"
  shows "(ReadIndexGranted r i \<in> set (snd (acknowledge_read_barriers k s n)) \<longleftrightarrow>
      (\<exists>p\<in>set (pending_reads (leader n)). r \<in> set (read_ids p) \<and> i = read_index p \<and>
        round_confirmed (effective_membership n) (Node_id n) k s p)) \<and>
    round_ids (pending_reads (leader (fst (acknowledge_read_barriers k s n)))) =
      round_ids (filter (\<lambda>p. \<not> round_confirmed (effective_membership n) (Node_id n) k s p)
        (pending_reads (leader n)))"
  using acknowledge_read_barriers_granted [OF effective_membership_wf [OF node_inv_sources [OF assms(1)]] assms(2,3)]
    acknowledge_read_barriers_kept [OF effective_membership_wf [OF node_inv_sources [OF assms(1)]] assms(2,3)]
  by blast

definition sample_read :: PendingReadRound where
  "sample_read = \<lparr>read_ids = [7], read_index = 2, registered_sequence = 5, read_acks = AcknowledgementSet_default\<rparr>"

definition sample_reading :: Node where
  "sample_reading = map_leader (\<lambda>l. l\<lparr>pending_reads := [sample_read]\<rparr>) sample_leader"

lemma sample_reading_effective: "effective_membership sample_reading = static_membership sample_config"
  unfolding sample_effective_membership(2) [symmetric]
  by (rule effective_membership_cong) (simp_all add: sample_reading_def)

theorem read_granted_by_quorum_witness:
  "ReadIndexGranted 7 2 \<in> set (snd (acknowledge_read_barriers 2 5 sample_reading)) \<and>
   ReadIndexGranted 7 2 \<notin> set (snd (acknowledge_read_barriers 2 4 sample_reading))"
proof -
  have inv: "node_inv sample_reading"
    unfolding sample_reading_def by (rule good_inv [OF good_leader [OF sample_leader_inv]])
  have small: "small_config (effective_membership sample_reading)"
    unfolding sample_reading_effective by (rule sample_small)
  have acks: "\<forall>p\<in>set (pending_reads (leader sample_reading)). ack_wf (read_acks p)"
    by (simp add: sample_reading_def sample_read_def ack_wf_default)
  have id: "Node_id sample_reading = 1" by (simp add: sample_reading_def sample_defs)
  have "round_confirmed (static_membership sample_config) 1 2 s sample_read \<longleftrightarrow> 5 \<le> s" for s
    unfolding round_confirmed_def sample_replica_ids
    by (simp add: sample_membership echoed_def sample_read_def set_has_quorum_def quorum_size_def majority_def)
  with read_granted_by_quorum [OF inv small acks, of 7 2 2 5, unfolded id sample_reading_effective]
    read_granted_by_quorum [OF inv small acks, of 7 2 2 4, unfolded id sample_reading_effective]
  show ?thesis by (simp add: sample_reading_def) (simp add: sample_read_def)
qed

text \<open>
  when a read is answered at once. A read is granted immediately only on a leader that has
  committed in its term, is not transferring its leadership, and either holds a lease or is by itself
  a quorum, and then at the current commit index; every other read either starts to wait in a round
  that no earlier contact round can confirm, or is rejected.
\<close>

theorem read_registration_safe:
  assumes "node_inv n" "small_config (effective_membership n)"
  shows "(ReadIndexGranted r i \<in> set (snd (read_index_batch ids n)) \<longrightarrow>
      Node_role n = Leader \<and> r \<in> set ids \<and> i = Node_commit_index n \<and> has_committed_in_current_term n \<and>
      pending_transfer (leader n) = None \<and>
      (lease_grant_available n \<or> has_quorum (effective_membership n) [Node_id n])) \<and>
    (pending_reads (leader (fst (read_index_batch ids n))) \<noteq> pending_reads (leader n) \<longrightarrow>
      (\<exists>p. pending_reads (leader (fst (read_index_batch ids n))) = pending_reads (leader n) @ [p] \<and>
        read_index p = Node_commit_index n \<and> heartbeat_sequence (leader n) < registered_sequence p \<and>
        heartbeat_sequence (leader (fst (read_index_batch ids n))) = registered_sequence p \<and>
        (\<forall>v. \<not> acked (read_acks p) v)))"
  using read_index_batch_granted [OF effective_membership_wf [OF node_inv_sources [OF assms(1)]] assms(2)]
    read_index_batch_registered [OF effective_membership_wf [OF node_inv_sources [OF assms(1)]] assms(2)]
  by blast

theorem read_registration_safe_witness:
  "\<exists>p. pending_reads (leader (fst (read_index_batch [7] sample_committed))) = [p] \<and> read_index p = 4 \<and>
    heartbeat_sequence (leader sample_committed) < registered_sequence p"
proof -
  let ?n = "sample_committed"
  have small: "small_config (effective_membership ?n)"
    unfolding sample_committed_effective by (rule sample_small)
  have f: "Node_role ?n = Leader" "pending_transfer (leader ?n) = None" "Node_commit_index ?n = 4"
      "Node_current_term ?n = 2" "pending_reads (leader ?n) = []" "Node_id ?n = 1" "lease_reads (config ?n) = False"
    by (simp_all add: sample_committed_def sample_defs LeaderState_default_def lease_reads_def
        effective_features_def effective_def RequestedFeatures_default_def)
  have wf: "membership_wf (effective_membership ?n)"
    using sample_committed_inv effective_membership_wf node_inv_sources by blast
  have "\<not> snd (ack_has_quorum_with_self (AcknowledgementSet_new (effective_membership ?n) 1)
      (effective_membership ?n) 1)"
    using single_voter_quorum [OF wf small, of 1] unfolding sample_committed_effective sample_quorum by simp
  moreover have "has_committed_in_current_term ?n" "\<not> lease_grant_available ?n"
    using f by (simp_all add: has_committed_in_current_term_def lease_grant_available_def sample_committed_term_at)
  ultimately have "pending_reads (leader (fst (read_index_batch [7] ?n))) \<noteq> pending_reads (leader ?n)"
    using f by (simp add: read_index_batch_def Let_def case_prod_unfold pending_read_count_def
        MAX_PENDING_READS_def broadcast_append_entries_def broadcast_replication_reads)
  with read_registration_safe [OF sample_committed_inv small, of 0 0 "[7]"] f show ?thesis by auto
qed

text \<open>
  the number of waiting reads never exceeds its bound: registering reads keeps it below
  \<open>MAX_PENDING_READS\<close> and acknowledgements only lower it.
\<close>

theorem pending_reads_bounded:
  assumes "pending_read_count n \<le> MAX_PENDING_READS"
  shows "pending_read_count (fst (read_index_batch ids n)) \<le> MAX_PENDING_READS \<and>
    pending_read_count (fst (acknowledge_read_barriers k s n)) \<le> MAX_PENDING_READS"
  using pending_count_read_index_batch [OF assms, of ids] pending_count_acknowledge [of k s n] assms by linarith

theorem pending_reads_bounded_witness:
  "pending_read_count (fst (read_index_batch [7, 8] sample_committed)) \<le> MAX_PENDING_READS"
proof -
  have "pending_reads (leader sample_committed) = []"
    by (simp add: sample_committed_def sample_leader_def LeaderState_default_def)
  then have "pending_read_count sample_committed \<le> MAX_PENDING_READS" by (simp add: pending_read_count_def)
  from pending_reads_bounded [OF this] show ?thesis by blast
qed

end
