(* ===== verification/Response.thy ===== *)
theory Response
  imports Read_Index
begin

text \<open>
  Leadership transfer and the answers of followers: \<open>node/transfer.rs\<close> (apart from
  \<open>handle_timeout_now\<close>, which starts an election), \<open>node/replication/response.rs\<close> and
  \<open>node/replication/snapshot/response.rs\<close>.
\<close>

section \<open>Leadership transfer\<close>

definition target_is_caught_up :: "Node \<Rightarrow> NodeId \<Rightarrow> bool" where
  "target_is_caught_up n target \<longleftrightarrow>
     (case map_option match_index (ps_get (progress (leader n)) target) of Some i \<Rightarrow> i | None \<Rightarrow> 0) =
       last_log_index n"

definition send_timeout_now :: "NodeId \<Rightarrow> Node \<Rightarrow> Node \<times> Output list" where
  "send_timeout_now target n =
     (let n = map_leader (\<lambda>l. l\<lparr>deposition_authorized := True\<rparr>) n;
          n = map_leader (\<lambda>l. l\<lparr>pending_transfer :=
                map_option (\<lambda>t. t\<lparr>timeout_now_sent := True\<rparr>) (pending_transfer l)\<rparr>) n
      in (n, [Send target (TimeoutNowMsg \<lparr>tn_term = Node_current_term n, tn_leader_id = Node_id n\<rparr>)]))"

definition transfer_leadership :: "NodeId \<Rightarrow> Node \<Rightarrow> Node \<times> Output list" where
  "transfer_leadership target n =
     (if Node_role n \<noteq> Leader then (n, [LeadershipTransferRejected target TransferNotLeader])
      else if target = Node_id n then (n, [LeadershipTransferRejected target TargetIsSelf])
      else if \<not> is_effective_voter n target then (n, [LeadershipTransferRejected target TargetNotVoter])
      else if pending_transfer (leader n) \<noteq> None
      then (n, [LeadershipTransferRejected target TransferAlreadyInProgress])
      else
        let n = map_leader (\<lambda>l. l\<lparr>pending_transfer :=
                  Some \<lparr>transfer_target = target, ticks_remaining = election_timeout_ticks (config n),
                        timeout_now_sent = False\<rparr>\<rparr>) n;
            (n, outputs) = drain_pending_reads n (ReadLeadershipTransfer target)
        in if target_is_caught_up n target
           then let (n, more) = send_timeout_now target n in (n, outputs @ more)
           else let (n, more) = replicate_to_follower target EnsureContact n in (n, outputs @ more))"

definition tick_leadership_transfer :: "Node \<Rightarrow> Node" where
  "tick_leadership_transfer n =
     (case pending_transfer (leader n) of
        None \<Rightarrow> n
      | Some transfer \<Rightarrow>
          let transfer = transfer\<lparr>ticks_remaining := sat_sub (ticks_remaining transfer) 1\<rparr>
          in map_leader (\<lambda>l. l\<lparr>pending_transfer :=
               (if ticks_remaining transfer = 0 then None else Some transfer)\<rparr>) n)"

definition maybe_complete_leadership_transfer :: "NodeId \<Rightarrow> Node \<Rightarrow> Node \<times> Output list" where
  "maybe_complete_leadership_transfer follower_id n =
     (case pending_transfer (leader n) of
        None \<Rightarrow> (n, [])
      | Some transfer \<Rightarrow>
          if timeout_now_sent transfer \<or> transfer_target transfer \<noteq> follower_id \<or>
             \<not> target_is_caught_up n follower_id
          then (n, [])
          else send_timeout_now follower_id n)"

section \<open>Answers to appends\<close>

definition successful_ack_can_advance_commit :: "LogIndex \<Rightarrow> LogIndex \<Rightarrow> LogIndex \<Rightarrow> bool" where
  "successful_ack_can_advance_commit old_match acknowledged commit \<longleftrightarrow>
     acknowledged > old_match \<and> acknowledged > commit"

definition accepted_progress :: "LogIndex \<Rightarrow> LogIndex \<Rightarrow> Progress \<Rightarrow> Progress" where
  "accepted_progress reported snap_index p =
     (let p = p\<lparr>match_index := max (match_index p) reported\<rparr>;
          acknowledged = match_index p;
          p = p\<lparr>inflights := inflights_free_through (inflights p) acknowledged\<rparr>;
          p = (if \<not> is_snapshot_mode (mode p) \<or> acknowledged \<ge> snap_index
               then confirm_replicating p else p)
      in p\<lparr>next_index := max (next_index p) (LogIndex_next acknowledged)\<rparr>)"

text \<open>The tail that a successful append and an installed snapshot share.\<close>

definition complete_commit_replicate :: "NodeId \<Rightarrow> bool \<Rightarrow> Node \<Rightarrow> Node \<times> Output list" where
  "complete_commit_replicate follower_id can_advance_commit n =
     (let (n, outputs1) = maybe_complete_leadership_transfer follower_id n;
          (n, outputs2) = (if can_advance_commit then advance_commit_index n else (n, []));
          (n, outputs3) = replicate_to_follower follower_id ProgressOnly n
      in (n, outputs1 @ outputs2 @ outputs3))"

definition accept_append_response :: "NodeId \<Rightarrow> LogIndex \<Rightarrow> Node \<Rightarrow> Node \<times> Output list" where
  "accept_append_response follower_id reported_match_index n =
     (let snap_index = snapshot_index n;
          reported = min reported_match_index (last_log_index n);
          commit = Node_commit_index n;
          n = reconcile_replication_progress n
      in case ps_get (progress (leader n)) follower_id of
           None \<Rightarrow> (n, [])
         | Some p \<Rightarrow>
             let p' = accepted_progress reported snap_index p;
                 can_advance_commit =
                   successful_ack_can_advance_commit (match_index p) (match_index p') commit;
                 n = update_progress follower_id (\<lambda>_. p') n
             in complete_commit_replicate follower_id can_advance_commit n)"

definition reject_append_response :: "NodeId \<Rightarrow> Node \<Rightarrow> Node \<times> Output list" where
  "reject_append_response follower_id n =
     (let snap_index = snapshot_index n;
          n = reconcile_replication_progress n
      in case ps_get (progress (leader n)) follower_id of
           None \<Rightarrow> (n, [])
         | Some p \<Rightarrow>
             let n = update_progress follower_id
                       (\<lambda>p. if \<not> is_snapshot_mode (mode p) then collapse_into_probe snap_index p else p) n
             in replicate_to_follower follower_id EnsureContact n)"

definition handle_append_entries_response ::
    "NodeId \<Rightarrow> AppendEntriesResponse \<Rightarrow> Node \<Rightarrow> Node \<times> Output list" where
  "handle_append_entries_response follower_id response n =
     (if aer_term response > Node_current_term n then become_follower (aer_term response) n
      else if Node_role n \<noteq> Leader \<or> aer_term response \<noteq> Node_current_term n then (n, [])
      else
        let n = record_quorum_ack follower_id n;
            n = acknowledge_read_lease follower_id (aer_sequence response) n;
            (n, outputs) = acknowledge_read_barriers follower_id (aer_sequence response) n;
            (n, more) = (if aer_success response
                         then accept_append_response follower_id (aer_match_index response) n
                         else reject_append_response follower_id n)
        in (n, outputs @ more))"

section \<open>Answers to snapshot chunks\<close>

definition snapshot_restream :: "NodeId \<Rightarrow> RaftSnapshot \<Rightarrow> InstallSnapshotResponse \<Rightarrow> Node \<Rightarrow>
    Node \<times> Output list" where
  "snapshot_restream follower_id snap response n =
     (let total_payload_len = application_payload_len snap;
          snap_index = last_included_index (metadata snap);
          acked_offset = (if isr_transfer_id response = Some (RaftSnapshot_transfer_id snap)
                          then min (isr_next_offset response) total_payload_len else 0);
          n = reconcile_replication_progress n
      in case ps_get (progress (leader n)) follower_id of
           None \<Rightarrow> (n, [])
         | Some p \<Rightarrow>
             let current_offset = (case mode p of SnapshotMode off \<Rightarrow> off | _ \<Rightarrow> 0);
                 n = update_progress follower_id (\<lambda>p. p\<lparr>
                       mode := SnapshotMode (max acked_offset current_offset),
                       inflights := inflights_clear (inflights p),
                       next_index := snap_index\<rparr>) n
             in replicate_to_follower follower_id EnsureContact n)"

definition snapshot_installed :: "NodeId \<Rightarrow> InstallSnapshotResponse \<Rightarrow> Node \<Rightarrow> Node \<times> Output list" where
  "snapshot_installed follower_id response n =
     (let reported = min (isr_last_included_index response) (last_log_index n);
          n = reconcile_replication_progress n
      in case ps_get (progress (leader n)) follower_id of
           None \<Rightarrow> (n, [])
         | Some p \<Rightarrow>
             let n = update_progress follower_id (\<lambda>p.
                       let p = p\<lparr>match_index := max (match_index p) reported\<rparr>;
                           acknowledged = match_index p;
                           p = confirm_replicating p
                       in p\<lparr>next_index := max (next_index p) (LogIndex_next acknowledged)\<rparr>) n
             in complete_commit_replicate follower_id True n)"

definition snapshot_rejected :: "NodeId \<Rightarrow> InstallSnapshotResponse \<Rightarrow> Node \<Rightarrow> Node \<times> Output list" where
  "snapshot_rejected follower_id response n =
     (let rewound_offset = map_option (\<lambda>snap.
            if isr_transfer_id response = Some (RaftSnapshot_transfer_id snap)
            then min (isr_next_offset response) (application_payload_len snap) else 0) (Node_snapshot n);
          snap_index = snapshot_index n;
          n = reconcile_replication_progress n
      in case ps_get (progress (leader n)) follower_id of
           None \<Rightarrow> (n, [])
         | Some p \<Rightarrow>
             let n = update_progress follower_id (\<lambda>p.
                       let p = (case rewound_offset of
                                  None \<Rightarrow> p
                                | Some next_offset \<Rightarrow> p\<lparr>mode := SnapshotMode next_offset,
                                                       inflights := inflights_clear (inflights p)\<rparr>)
                       in p\<lparr>next_index := snap_index\<rparr>) n
             in replicate_to_follower follower_id EnsureContact n)"

definition handle_install_snapshot_response ::
    "NodeId \<Rightarrow> InstallSnapshotResponse \<Rightarrow> Node \<Rightarrow> Node \<times> Output list" where
  "handle_install_snapshot_response follower_id response n =
     (if isr_term response > Node_current_term n then become_follower (isr_term response) n
      else if Node_role n \<noteq> Leader \<or> isr_term response \<noteq> Node_current_term n then (n, [])
      else
        let n = record_quorum_ack follower_id n in
        if isr_transfer_id response \<noteq> None \<and>
           map_option RaftSnapshot_transfer_id (Node_snapshot n) \<noteq> isr_transfer_id response
        then (n, [])
        else if isr_success response then
          (case Node_snapshot n of
             Some snap \<Rightarrow>
               if isr_last_included_index response < last_included_index (metadata snap) \<or>
                  isr_next_offset response < application_payload_len snap
               then snapshot_restream follower_id snap response n
               else snapshot_installed follower_id response n
           | None \<Rightarrow> snapshot_installed follower_id response n)
        else snapshot_rejected follower_id response n)"

section \<open>Good steps\<close>

lemma good_step_then:
  assumes "good_step n (n1, xs)" "node_inv n1 \<Longrightarrow> good_step n1 r"
  shows "good_step n (fst r, xs @ snd r)"
  using good_step_trans [OF assms(1), of "fst r" "snd r"] assms(2) [OF good_step_inv [OF assms(1)]] by simp

lemma good_step_then0:
  assumes "good_step n (n1, [])" "node_inv n1 \<Longrightarrow> good_step n1 r"
  shows "good_step n r"
  using good_step_then [OF assms] by simp

lemma send_timeout_now_leader_only: "leader_only n (send_timeout_now k n)"
  by (simp add: send_timeout_now_def Let_def leader_only_update applies_Cons)

lemma drain_pending_reads_leader_only: "leader_only n (drain_pending_reads n r)"
  by (simp add: drain_pending_reads_def leader_only_update)

lemma transfer_leadership_leader_only: "leader_only n (transfer_leadership target n)"
proof -
  let ?t = "\<lparr>transfer_target = target, ticks_remaining = election_timeout_ticks (config n), timeout_now_sent = False\<rparr>"
  let ?n = "map_leader (\<lambda>l. l\<lparr>pending_transfer := Some ?t\<rparr>) n"
  obtain m outs where d: "drain_pending_reads ?n (ReadLeadershipTransfer target) = (m, outs)" by fastforce
  have "leader_only n (m, outs)"
    using leader_only_trans0 [OF leader_only_update drain_pending_reads_leader_only] d by (metis applies_Nil)
  from leader_only_trans [OF this] have
    "leader_only n (fst (send_timeout_now target m), outs @ snd (send_timeout_now target m))"
    "leader_only n (fst (replicate_to_follower target EnsureContact m),
       outs @ snd (replicate_to_follower target EnsureContact m))"
    using send_timeout_now_leader_only replicate_to_follower_leader_only by simp_all
  then show ?thesis
    unfolding transfer_leadership_def Let_def d
    by (simp add: case_prod_unfold leader_only_refl applies_Cons)
qed

lemma tick_leadership_transfer_leader_only: "leader_only n (tick_leadership_transfer n, [])"
  by (simp add: tick_leadership_transfer_def Let_def leader_only_refl leader_only_update split: option.split)

lemma maybe_complete_leader_only: "leader_only n (maybe_complete_leadership_transfer k n)"
  by (simp add: maybe_complete_leadership_transfer_def leader_only_refl send_timeout_now_leader_only
      split: option.split)

lemma good_step_complete_commit_replicate:
  assumes "node_inv n"
  shows "good_step n (complete_commit_replicate k c n)"
proof -
  obtain n1 o1 where 1: "maybe_complete_leadership_transfer k n = (n1, o1)" by fastforce
  obtain n2 o2 where 2: "(if c then advance_commit_index n1 else (n1, [])) = (n2, o2)" by fastforce
  obtain n3 o3 where 3: "replicate_to_follower k ProgressOnly n2 = (n3, o3)" by fastforce
  have g1: "good_step n (n1, o1)"
    using good_step_leader_only [OF assms maybe_complete_leader_only] 1 by metis
  have g2: "good_step n1 (n2, o2)"
    using good_step_advance_commit_index good_step_refl good_step_inv [OF g1] 2 by (metis applies_Nil)
  have g3: "good_step n2 (n3, o3)"
    using good_step_leader_only [OF good_step_inv [OF g2] replicate_to_follower_leader_only] 3 by metis
  show ?thesis
    using good_step_trans [OF g1 good_step_trans [OF g2 g3]] 1 2 3 by (simp add: complete_commit_replicate_def)
qed

lemma good_step_update_progress:
  assumes "node_inv n" "\<And>m. node_inv m \<Longrightarrow> good_step m (f m)"
  shows "good_step n (f (n\<lparr>leader := l\<rparr>))"
  using good_step_then0 [OF good_step_leader assms(2)] assms(1) by (metis applies_Nil)

lemma good_step_reconcile:
  assumes "node_inv n" "\<And>m. node_inv m \<Longrightarrow> good_step m (f m)"
  shows "good_step n (f (reconcile_replication_progress n))"
  using good_step_then0 [OF good_step_leader_only [OF assms(1) leader_only_reconcile] assms(2)] .

lemma good_step_replicate: "node_inv n \<Longrightarrow> good_step n (replicate_to_follower k d n)"
  by (erule good_step_leader_only) (rule replicate_to_follower_leader_only)

lemma good_step_none: "node_inv n \<Longrightarrow> good_step n (n, [])"
  by (rule good_step_refl) simp_all

text \<open>Every answer reconciles the progress table, updates the sender's entry and goes on from there.\<close>

lemma good_step_with_progress:
  assumes "node_inv n" "\<And>p m. node_inv m \<Longrightarrow> good_step m (g p m)"
  shows "good_step n (case ps_get (progress (leader (reconcile_replication_progress n))) k of
      None \<Rightarrow> (reconcile_replication_progress n, [])
    | Some p \<Rightarrow> g p (update_progress k (f p) (reconcile_replication_progress n)))"
  using good_step_reconcile [OF assms(1) good_step_none]
    good_step_reconcile [OF assms(1) good_step_update_progress [OF _ assms(2)]]
  by (auto split: option.split)

lemma good_step_accept_append_response:
  assumes "node_inv n"
  shows "good_step n (accept_append_response k r n)"
  unfolding accept_append_response_def Let_def
  by (rule good_step_with_progress [OF assms, where g = "\<lambda>p. complete_commit_replicate k (_ p)"])
    (rule good_step_complete_commit_replicate)

lemma good_step_reject_append_response:
  assumes "node_inv n"
  shows "good_step n (reject_append_response k n)"
  unfolding reject_append_response_def Let_def
  by (rule good_step_with_progress [OF assms, where g = "\<lambda>p. replicate_to_follower k EnsureContact"])
    (rule good_step_replicate)

lemma good_step_snapshot_restream:
  assumes "node_inv n"
  shows "good_step n (snapshot_restream k snap r n)"
  unfolding snapshot_restream_def Let_def
  by (rule good_step_with_progress [OF assms, where g = "\<lambda>p. replicate_to_follower k EnsureContact"])
    (rule good_step_replicate)

lemma good_step_snapshot_installed:
  assumes "node_inv n"
  shows "good_step n (snapshot_installed k r n)"
  unfolding snapshot_installed_def Let_def
  by (rule good_step_with_progress [OF assms, where g = "\<lambda>p. complete_commit_replicate k True"])
    (rule good_step_complete_commit_replicate)

lemma good_step_snapshot_rejected:
  assumes "node_inv n"
  shows "good_step n (snapshot_rejected k r n)"
  unfolding snapshot_rejected_def Let_def
  by (rule good_step_with_progress [OF assms, where g = "\<lambda>p. replicate_to_follower k EnsureContact"])
    (rule good_step_replicate)

lemma good_step_handle_append_entries_response:
  assumes "node_inv n"
  shows "good_step n (handle_append_entries_response k r n)"
proof (cases "aer_term r > Node_current_term n \<or> Node_role n \<noteq> Leader \<or> aer_term r \<noteq> Node_current_term n")
  case True
  with assms show ?thesis
    by (auto simp: handle_append_entries_response_def good_step_become_follower good_step_none)
next
  case False
  let ?a = "acknowledge_read_lease k (aer_sequence r) (record_quorum_ack k n)"
  have "leader_only n (?a, [])"
    using leader_only_trans0 [OF record_quorum_ack_leader_only acknowledge_read_lease_leader_only] .
  then have "leader_only n (acknowledge_read_barriers k (aer_sequence r) ?a)"
    using acknowledge_read_barriers_leader_only by (rule leader_only_trans0)
  moreover obtain m outs where "acknowledge_read_barriers k (aer_sequence r) ?a = (m, outs)" by fastforce
  ultimately have m: "acknowledge_read_barriers k (aer_sequence r) ?a = (m, outs)" "good_step n (m, outs)"
    using good_step_leader_only [OF assms] by metis+
  show ?thesis
    using good_step_then [OF m(2) good_step_accept_append_response]
      good_step_then [OF m(2) good_step_reject_append_response] False
    by (auto simp: handle_append_entries_response_def Let_def m(1) case_prod_unfold)
qed

lemma good_step_handle_install_snapshot_response:
  assumes "node_inv n"
  shows "good_step n (handle_install_snapshot_response k r n)"
proof (cases "isr_term r > Node_current_term n \<or> Node_role n \<noteq> Leader \<or> isr_term r \<noteq> Node_current_term n")
  case True
  with assms show ?thesis
    by (auto simp: handle_install_snapshot_response_def good_step_become_follower good_step_none)
next
  case False
  have m: "good_step n (record_quorum_ack k n, [])"
    using assms record_quorum_ack_leader_only by (rule good_step_leader_only)
  note step = good_step_then0 [OF m]
  show ?thesis
    using False m step [OF good_step_snapshot_restream] step [OF good_step_snapshot_installed]
      step [OF good_step_snapshot_rejected]
    unfolding handle_install_snapshot_response_def Let_def by (simp split: option.split)
qed

section \<open>Transfers\<close>

lemma send_timeout_now_ends_lease: "\<not> lease_grant_available (fst (send_timeout_now k n))"
  by (simp add: lease_grant_available_def send_timeout_now_def Let_def)

lemma replicate_sends_no_timeout_now: "Send k (TimeoutNowMsg tn) \<notin> set (snd (replicate_to_follower f d n))"
  using replicate_to_follower_appends [of n f d] by (auto simp: appends_from_def)

lemma caught_up_cong:
  "progress (leader n') = progress (leader n) \<Longrightarrow> same_log n n' \<Longrightarrow>
   target_is_caught_up n' k = target_is_caught_up n k"
  by (simp add: target_is_caught_up_def same_log_last)

lemma canceled_no_send: "Send k m \<notin> set (canceled_outputs rs r)"
  by (auto simp: canceled_outputs_def)

lemma transfer_sends_timeout_now:
  assumes "Send k (TimeoutNowMsg tn) \<in> set (snd (transfer_leadership target n))"
  shows "k = target \<and> Node_role n = Leader \<and> target \<noteq> Node_id n \<and> is_effective_voter n target \<and>
    target_is_caught_up n target \<and> tn_term tn = Node_current_term n \<and>
    \<not> lease_grant_available (fst (transfer_leadership target n)) \<and>
    pending_reads (leader (fst (transfer_leadership target n))) = []"
proof -
  let ?t = "\<lparr>transfer_target = target, ticks_remaining = election_timeout_ticks (config n), timeout_now_sent = False\<rparr>"
  let ?m = "n\<lparr>leader := (leader n)\<lparr>pending_transfer := Some ?t, pending_reads := []\<rparr>\<rparr>"
  have same: "target_is_caught_up ?m target = target_is_caught_up n target"
    by (rule caught_up_cong) (simp_all add: same_log_def)
  have guards: "Node_role n = Leader" "target \<noteq> Node_id n" "is_effective_voter n target"
      "pending_transfer (leader n) = None"
    using assms by (auto simp: transfer_leadership_def split: if_splits)
  then have eq: "transfer_leadership target n =
      (let outputs = canceled_outputs (pending_reads (leader n)) (ReadLeadershipTransfer target);
           r = (if target_is_caught_up ?m target then send_timeout_now target ?m
                else replicate_to_follower target EnsureContact ?m)
       in (fst r, outputs @ snd r))"
    by (simp add: transfer_leadership_def drain_pending_reads_def Let_def case_prod_unfold)
  with assms have caught: "target_is_caught_up ?m target"
    using replicate_sends_no_timeout_now canceled_no_send by (auto simp: Let_def split: if_splits)
  with assms guards eq same send_timeout_now_ends_lease [of target ?m] show ?thesis
    by (auto simp: Let_def canceled_no_send) (auto simp: send_timeout_now_def Let_def)
qed

lemma complete_sends_timeout_now:
  assumes "Send k (TimeoutNowMsg tn) \<in> set (snd (maybe_complete_leadership_transfer f n))"
  shows "k = f \<and> target_is_caught_up n f \<and> tn_term tn = Node_current_term n \<and>
    (\<exists>t. pending_transfer (leader n) = Some t \<and> transfer_target t = f \<and> \<not> timeout_now_sent t) \<and>
    \<not> lease_grant_available (fst (maybe_complete_leadership_transfer f n))"
  using assms send_timeout_now_ends_lease [of f n]
  by (auto simp: maybe_complete_leadership_transfer_def send_timeout_now_def Let_def
      split: option.splits if_splits)

lemma tick_leadership_transfer_pending:
  "pending_transfer (leader (tick_leadership_transfer n)) =
     (case pending_transfer (leader n) of None \<Rightarrow> None
      | Some t \<Rightarrow> if ticks_remaining t \<le> 1 then None else Some (t\<lparr>ticks_remaining := ticks_remaining t - 1\<rparr>))"
  by (auto simp: tick_leadership_transfer_def Let_def split: option.split)

lemma tick_leadership_transfer_iterated:
  "pending_transfer (leader ((tick_leadership_transfer ^^ k) n)) =
     (case pending_transfer (leader n) of None \<Rightarrow> None
      | Some t \<Rightarrow> if k = 0 then Some t else if ticks_remaining t \<le> k then None
          else Some (t\<lparr>ticks_remaining := ticks_remaining t - k\<rparr>))"
  by (induction k) (auto simp: tick_leadership_transfer_pending split: option.split)

section \<open>Progress\<close>

lemma accepted_progress_match [simp]: "match_index (accepted_progress r s p) = max (match_index p) r"
  by (simp add: accepted_progress_def confirm_replicating_def Let_def)

lemma collapse_into_probe_iterated:
  assumes "max (LogIndex_next (match_index p)) s \<le> next_index p"
  shows "next_index ((collapse_into_probe s ^^ k) p) = max (next_index p - k) (max (LogIndex_next (match_index p)) s) \<and>
    match_index ((collapse_into_probe s ^^ k) p) = match_index p"
  using assms by (induction k) (auto simp: collapse_into_probe_def Let_def)

lemma accepted_progress_window:
  assumes "b \<in> set (if_batches (inflights (accepted_progress r s p)))"
    and "sorted_wrt (<) (map ib_last_index (if_batches (inflights p)))"
  shows "max (match_index p) r < ib_last_index b \<and> b \<in> set (if_batches (inflights p))"
proof -
  let ?m = "max (match_index p) r" and ?bs = "if_batches (inflights p)"
  have "b \<in> set (dropWhile (\<lambda>b. ib_last_index b \<le> ?m) ?bs)"
    using assms(1)
    by (auto simp: accepted_progress_def confirm_replicating_def inflights_clear_def
        inflights_free_through_def free_batches_batches Let_def split: if_splits)
  moreover have "b \<in> set (dropWhile (\<lambda>b. ib_last_index b \<le> ?m) bs) \<Longrightarrow>
      sorted_wrt (<) (map ib_last_index bs) \<Longrightarrow> ?m < ib_last_index b" for bs
    by (induction bs) (auto split: if_splits)
  ultimately show ?thesis using assms(2) set_dropWhileD by fastforce
qed

section \<open>Properties\<close>

text \<open>
  leadership is handed over only to a voter that holds the whole log, and giving it away ends
  lease reads. Whenever a transfer request or an acknowledgement makes the leader send \<open>TimeoutNow\<close>,
  it goes to the requested target, whose acknowledged index is the leader's last index, it carries
  the current term, and no lease read can be granted afterwards.
\<close>

theorem timeout_now_only_when_caught_up:
  "(Send k (TimeoutNowMsg tn) \<in> set (snd (transfer_leadership target n)) \<longrightarrow>
      k = target \<and> Node_role n = Leader \<and> target \<noteq> Node_id n \<and> is_effective_voter n target \<and>
      target_is_caught_up n target \<and> tn_term tn = Node_current_term n \<and>
      \<not> lease_grant_available (fst (transfer_leadership target n)) \<and>
      pending_reads (leader (fst (transfer_leadership target n))) = []) \<and>
   (Send k (TimeoutNowMsg tn) \<in> set (snd (maybe_complete_leadership_transfer f n)) \<longrightarrow>
      k = f \<and> target_is_caught_up n f \<and> tn_term tn = Node_current_term n \<and>
      (\<exists>t. pending_transfer (leader n) = Some t \<and> transfer_target t = f \<and> \<not> timeout_now_sent t) \<and>
      \<not> lease_grant_available (fst (maybe_complete_leadership_transfer f n)))"
  using transfer_sends_timeout_now complete_sends_timeout_now by blast

definition sample_caught_up :: Node where
  "sample_caught_up = update_progress 2 (\<lambda>p. p\<lparr>match_index := 4\<rparr>) sample_leader"

theorem timeout_now_only_when_caught_up_witness:
  "Send 2 (TimeoutNowMsg \<lparr>tn_term = 2, tn_leader_id = 1\<rparr>) \<in> set (snd (transfer_leadership 2 sample_caught_up)) \<and>
   \<not> lease_grant_available (fst (transfer_leadership 2 sample_caught_up))"
proof -
  let ?n = "sample_caught_up"
  have same: "same_log sample_leader ?n" by (simp add: same_log_def sample_caught_up_def)
  have f: "Node_role ?n = Leader" "Node_id ?n = 1" "pending_transfer (leader ?n) = None" "Node_current_term ?n = 2"
    by (simp_all add: sample_caught_up_def sample_defs LeaderState_default_def)
  have voter: "is_effective_voter ?n 2"
    using same_log_membership [OF same] by (simp add: is_effective_voter_def sample_membership)
  let ?m = "\<lambda>t. ?n\<lparr>leader := (leader ?n)\<lparr>pending_transfer := Some t, pending_reads := []\<rparr>\<rparr>"
  have "target_is_caught_up ?n 2"
    using same_log_last [OF same]
    by (simp add: target_is_caught_up_def) (simp add: sample_caught_up_def ps_get_modify_same sample_leader_progress)
  then have "target_is_caught_up (?m t) 2" for t
    using caught_up_cong [of "?m t" ?n 2] by (simp add: same_log_def)
  with f voter have "Send 2 (TimeoutNowMsg \<lparr>tn_term = 2, tn_leader_id = 1\<rparr>) \<in> set (snd (transfer_leadership 2 ?n))"
    by (simp add: transfer_leadership_def drain_pending_reads_def send_timeout_now_def Let_def)
  with timeout_now_only_when_caught_up [of 2 "\<lparr>tn_term = 2, tn_leader_id = 1\<rparr>" 2 ?n] show ?thesis by blast
qed

text \<open>
  a leadership transfer cannot block the leader forever. Unless it completes first, a pending
  transfer is abandoned after at most the number of ticks it started with, one election timeout.
\<close>

theorem leadership_transfer_expires:
  assumes "pending_transfer (leader n) = Some t" "ticks_remaining t \<le> k" "0 < k"
  shows "pending_transfer (leader ((tick_leadership_transfer ^^ k) n)) = None"
  using assms by (simp add: tick_leadership_transfer_iterated)

theorem leadership_transfer_expires_witness:
  "pending_transfer (leader ((tick_leadership_transfer ^^ 10)
     (map_leader (\<lambda>l. l\<lparr>pending_transfer := Some \<lparr>transfer_target = 2, ticks_remaining = 10,
        timeout_now_sent = False\<rparr>\<rparr>) sample_leader))) = None"
  by (rule leadership_transfer_expires [where t = "\<lparr>transfer_target = 2, ticks_remaining = 10, timeout_now_sent = False\<rparr>"])
    simp_all

text \<open>
  how answers move a follower's progress. A successful append never lowers the acknowledged
  index, keeps the next index above it and frees the outstanding batches it covers; repeated
  rejections walk the next index down one entry at a time and stop right above what is acknowledged
  or at the snapshot boundary, without touching the acknowledged index.
\<close>

theorem follower_progress_rules:
  assumes "sorted_wrt (<) (map ib_last_index (if_batches (inflights p)))"
    and "max (LogIndex_next (match_index p)) s \<le> next_index p"
  shows "match_index (accepted_progress r s p) = max (match_index p) r \<and>
    match_index (accepted_progress r s p) < next_index (accepted_progress r s p) \<and>
    (\<forall>b\<in>set (if_batches (inflights (accepted_progress r s p))).
       match_index (accepted_progress r s p) < ib_last_index b \<and> b \<in> set (if_batches (inflights p))) \<and>
    next_index ((collapse_into_probe s ^^ k) p) = max (next_index p - k) (max (LogIndex_next (match_index p)) s) \<and>
    match_index ((collapse_into_probe s ^^ k) p) = match_index p"
proof -
  have "match_index (accepted_progress r s p) < next_index (accepted_progress r s p)"
    by (auto simp: accepted_progress_def confirm_replicating_def Let_def less_max_iff_disj)
  then show ?thesis
    using accepted_progress_window [OF _ assms(1)] collapse_into_probe_iterated [OF assms(2)] by auto
qed

theorem follower_progress_rules_witness:
  "next_index ((collapse_into_probe 0 ^^ 2) (Progress_probing 5)) = 3"
  using follower_progress_rules [of "Progress_probing 5" 0 0 2]
  by (simp add: Progress_probing_def Inflights_default_def)

end
