(* ===== verification/Election.thy ===== *)
theory Election
  imports Response
begin

text \<open>
  Elections: \<open>node/election.rs\<close> and \<open>handle_timeout_now\<close> of \<open>node/transfer.rs\<close>. Besides the
  invariant every handler keeps, the theorems state exactly when votes and pre-votes are granted,
  what winning needs, and the range of the randomised timeout.
\<close>

section \<open>Operations\<close>

definition effective_election_timeout :: "Node \<Rightarrow> u64" where
  "effective_election_timeout n =
     (let base = election_timeout_ticks (config n);
          jitter = election_jitter_ticks (config n)
      in if jitter = 0 then base
         else let h = fold feed_u64 [Node_id n, Node_current_term n] FNV_OFFSET_BASIS;
                  offset = (if jitter = u64_max then unat h else unat h mod (jitter + 1))
              in sat_add base offset)"

definition vote_request :: "Node \<Rightarrow> RequestVote" where
  "vote_request n = \<lparr>rv_term = Node_current_term n, rv_candidate_id = Node_id n,
     rv_last_log_index = last_log_index n, rv_last_log_term = last_log_term n\<rparr>"

definition other_voters :: "Node \<Rightarrow> NodeId list" where
  "other_voters n = filter (\<lambda>v. v \<noteq> Node_id n) (voter_ids (effective_membership n))"

definition start_election :: "Node \<Rightarrow> Node \<times> Output list" where
  "start_election n =
     (if \<not> is_effective_voter n (Node_id n) then (map_election reset_timeout n, [])
      else case Term_checked_next (Node_current_term n) of
        None \<Rightarrow> (map_election reset_timeout n, [])
      | Some campaign_term \<Rightarrow>
          let n = map_volatile (\<lambda>v. v\<lparr>role := Candidate, leader_hint := None\<rparr>) n;
              n = map_persistent (\<lambda>p. p\<lparr>current_term := campaign_term, voted_for := Some (Node_id n)\<rparr>) n;
              n = map_election (begin_election (Node_id n)) n;
              request = vote_request n;
              outputs = map (\<lambda>to_id. Send to_id (RequestVoteMsg request)) (other_voters n)
          in if has_effective_quorum n (votes (election n))
             then let (n, outputs1) = become_leader n;
                      (n, outputs2) = broadcast_append_entries n
                  in (n, outputs @ outputs1 @ outputs2)
             else (n, outputs))"

definition start_pre_vote_round :: "Node \<Rightarrow> Node \<times> Output list" where
  "start_pre_vote_round n =
     (if \<not> is_effective_voter n (Node_id n) then (map_election reset_timeout n, [])
      else case Term_checked_next (Node_current_term n) of
        None \<Rightarrow> (map_election reset_timeout n, [])
      | Some proposed_term \<Rightarrow>
          let n = map_volatile (\<lambda>v. v\<lparr>role := PreCandidate, leader_hint := None\<rparr>) n;
              n = map_election (begin_pre_vote (Node_id n)) n;
              request = \<lparr>pv_term = proposed_term, pv_candidate_id = Node_id n,
                         pv_last_log_index = last_log_index n, pv_last_log_term = last_log_term n\<rparr>;
              outputs = map (\<lambda>to_id. Send to_id (PreVoteMsg request)) (other_voters n)
          in if has_effective_quorum n (pre_votes (election n))
             then let (n, campaign) = start_election n in (n, outputs @ campaign)
             else (n, outputs))"

definition tick :: "Node \<Rightarrow> Node \<times> Output list" where
  "tick n =
     (if Node_role n = Leader then
        let n = map_leader (\<lambda>l. l\<lparr>ticks := ticks l + 1, heartbeat_elapsed := sat_add (heartbeat_elapsed l) 1\<rparr>) n;
            n = tick_read_lease n;
            n = tick_leadership_transfer n
        in case tick_check_quorum n of
             (n, Some outputs) \<Rightarrow> (n, outputs)
           | (n, None) \<Rightarrow>
               if heartbeat_elapsed (leader n) < heartbeat_interval_ticks (config n) then (n, [])
               else broadcast_append_entries n
      else
        let n = map_election advance_timeout n
        in if elapsed (election n) < effective_election_timeout n then (n, [])
           else if pre_vote (config n) then start_pre_vote_round n
           else start_election n)"

text \<open>The comparison of the pairs of last term and index.\<close>

definition log_up_to_date :: "Node \<Rightarrow> Term \<Rightarrow> LogIndex \<Rightarrow> bool" where
  "log_up_to_date n trm index \<longleftrightarrow>
     last_log_term n < trm \<or> last_log_term n = trm \<and> last_log_index n \<le> index"

definition handle_request_vote :: "NodeId \<Rightarrow> RequestVote \<Rightarrow> Node \<Rightarrow> Node \<times> Output list" where
  "handle_request_vote candidate_id request n =
     (let (n, outputs) = (if rv_term request > Node_current_term n
            then become_follower (rv_term request) n else (n, []));
          vote_granted = (rv_term request = Node_current_term n \<and>
            contains_voter (effective_membership n) candidate_id \<and>
            log_up_to_date n (rv_last_log_term request) (rv_last_log_index request) \<and>
            (case Node_voted_for n of None \<Rightarrow> True | Some voted \<Rightarrow> voted = candidate_id));
          n = (if vote_granted
               then map_election reset_timeout (map_persistent (\<lambda>p. p\<lparr>voted_for := Some candidate_id\<rparr>) n)
               else n)
      in (n, outputs @ [Send candidate_id (RequestVoteResponseMsg
            \<lparr>rvr_term = Node_current_term n, rvr_voter_id = Node_id n, rvr_vote_granted = vote_granted\<rparr>)]))"

definition handle_request_vote_response :: "NodeId \<Rightarrow> RequestVoteResponse \<Rightarrow> Node \<Rightarrow> Node \<times> Output list" where
  "handle_request_vote_response voter_id response n =
     (if rvr_term response > Node_current_term n then become_follower (rvr_term response) n
      else if Node_role n \<noteq> Candidate \<or> rvr_term response \<noteq> Node_current_term n then (n, [])
      else if \<not> is_effective_voter n (Node_id n) then become_follower (Node_current_term n) n
      else
        let n = (if rvr_vote_granted response then map_election (record_vote voter_id) n else n)
        in if has_effective_quorum n (votes (election n))
           then let (n, outputs1) = become_leader n;
                    (n, outputs2) = broadcast_append_entries n
                in (n, outputs1 @ outputs2)
           else (n, []))"

definition handle_pre_vote :: "NodeId \<Rightarrow> PreVote \<Rightarrow> Node \<Rightarrow> Node \<times> Output list" where
  "handle_pre_vote candidate_id request n =
     (let leader_believed_current = (Node_leader_hint n \<noteq> None \<and>
            elapsed (election n) < election_timeout_ticks (config n));
          vote_granted = (pv_term request > Node_current_term n \<and>
            contains_voter (effective_membership n) candidate_id \<and>
            log_up_to_date n (pv_last_log_term request) (pv_last_log_index request) \<and>
            \<not> leader_believed_current);
          response_term = (if vote_granted then pv_term request else Node_current_term n)
      in (n, [Send candidate_id (PreVoteResponseMsg
            \<lparr>pvr_term = response_term, pvr_voter_id = Node_id n, pvr_vote_granted = vote_granted\<rparr>)]))"

definition handle_pre_vote_response :: "NodeId \<Rightarrow> PreVoteResponse \<Rightarrow> Node \<Rightarrow> Node \<times> Output list" where
  "handle_pre_vote_response voter_id response n =
     (case Term_checked_next (Node_current_term n) of
        None \<Rightarrow> (n, [])
      | Some proposed_term \<Rightarrow>
          if pvr_term response > proposed_term then become_follower (pvr_term response) n
          else if \<not> pvr_vote_granted response \<and> pvr_term response > Node_current_term n
          then become_follower (pvr_term response) n
          else if Node_role n \<noteq> PreCandidate \<or> pvr_term response \<noteq> proposed_term then (n, [])
          else
            let n = (if pvr_vote_granted response then map_election (record_pre_vote voter_id) n else n)
            in if has_effective_quorum n (pre_votes (election n)) then start_election n else (n, []))"

definition handle_timeout_now :: "Term \<Rightarrow> Node \<Rightarrow> Node \<times> Output list" where
  "handle_timeout_now trm n =
     (if trm < Node_current_term n \<or> \<not> is_effective_voter n (Node_id n) then (n, [])
      else let (n, outputs1) = become_follower trm n;
               (n, outputs2) = start_election n
           in (n, outputs1 @ outputs2))"

section \<open>Good steps\<close>

lemma good_step_win:
  assumes "node_inv n"
  shows "good_step n (let (n, outputs1) = become_leader n; (n, outputs2) = broadcast_append_entries n
    in (n, outputs1 @ outputs2))"
proof -
  obtain n1 o1 where l: "become_leader n = (n1, o1)" by fastforce
  obtain n2 o2 where b: "broadcast_append_entries n1 = (n2, o2)" by fastforce
  have g: "good_step n (n1, o1)" using good_step_become_leader [OF assms] l by metis
  have "good_step n1 (n2, o2)"
    using good_step_leader_only [OF good_step_inv [OF g] broadcast_append_entries_leader_only] b by metis
  from good_step_trans [OF g this] l b show ?thesis by simp
qed

text \<open>The candidate a campaign starts from.\<close>

definition candidate_of :: "Node \<Rightarrow> Term \<Rightarrow> Node" where
  "candidate_of n campaign_term =
     n\<lparr>volatile := (volatile n)\<lparr>role := Candidate, leader_hint := None\<rparr>,
       persistent := (persistent n)\<lparr>current_term := campaign_term, voted_for := Some (Node_id n)\<rparr>,
       election := begin_election (Node_id n) (election n)\<rparr>"

lemma start_election_cases:
  obtains (idle) "\<not> (is_effective_voter n (Node_id n) \<and> Node_current_term n < u64_max)"
      "start_election n = (map_election reset_timeout n, [])"
  | (campaign) c outs where "is_effective_voter n (Node_id n)" "c = candidate_of n (Node_current_term n + 1)"
      "outs = map (\<lambda>to_id. Send to_id (RequestVoteMsg (vote_request c))) (other_voters c)"
      "\<not> has_effective_quorum c (votes (election c))" "start_election n = (c, outs)"
  | (win) c outs where "is_effective_voter n (Node_id n)" "c = candidate_of n (Node_current_term n + 1)"
      "outs = map (\<lambda>to_id. Send to_id (RequestVoteMsg (vote_request c))) (other_voters c)"
      "has_effective_quorum c (votes (election c))"
      "start_election n = (fst (broadcast_append_entries (fst (become_leader c))),
         outs @ snd (become_leader c) @ snd (broadcast_append_entries (fst (become_leader c))))"
proof -
  let ?c = "candidate_of n (Node_current_term n + 1)"
  show thesis
  proof (cases "is_effective_voter n (Node_id n) \<and> Node_current_term n < u64_max")
    case False
    then have "start_election n = (map_election reset_timeout n, [])"
      by (auto simp: start_election_def Term_checked_next_def checked_add_def split: option.split)
    with False show thesis by (rule idle)
  next
    case True
    then have eq: "start_election n =
        (let outputs = map (\<lambda>to_id. Send to_id (RequestVoteMsg (vote_request ?c))) (other_voters ?c)
         in if has_effective_quorum ?c (votes (election ?c))
            then let (n, outputs1) = become_leader ?c; (n, outputs2) = broadcast_append_entries n
                 in (n, outputs @ outputs1 @ outputs2)
            else (?c, outputs))"
      by (auto simp: start_election_def candidate_of_def Let_def Term_checked_next_def checked_add_def split: option.split)
    show thesis
    proof (cases "has_effective_quorum ?c (votes (election ?c))")
      case win': True
      show thesis by (rule win) (use True win' eq in \<open>simp_all add: case_prod_unfold Let_def\<close>)
    next
      case False
      show thesis by (rule campaign) (use True False eq in \<open>simp_all add: Let_def\<close>)
    qed
  qed
qed

lemma good_candidate_of: "node_inv n \<Longrightarrow> good n (candidate_of n (Node_current_term n + 1))"
  by (rule good_same_log) (simp_all add: candidate_of_def same_log_def node_inv_def)

lemma good_step_start_election:
  assumes "node_inv n"
  shows "good_step n (start_election n)"
proof (cases rule: start_election_cases [of n])
  case idle
  with assms show ?thesis by (simp add: good_step_quiet good_election)
next
  case (campaign c outs)
  have "good_step n (c, outs)"
    unfolding campaign(2,3) using good_candidate_of [OF assms]
    by (rule good_step_quiet) (simp_all add: candidate_of_def)
  with campaign(5) show ?thesis by simp
next
  case (win c outs)
  have c: "good_step n (c, outs)"
    unfolding win(2,3) using good_candidate_of [OF assms]
    by (rule good_step_quiet) (simp_all add: candidate_of_def)
  have "good_step c (fst (broadcast_append_entries (fst (become_leader c))),
      snd (become_leader c) @ snd (broadcast_append_entries (fst (become_leader c))))"
    using good_step_win [OF good_step_inv [OF c]] by (simp add: case_prod_unfold Let_def)
  from good_step_trans [OF c this] win(5) show ?thesis by simp
qed

lemma good_step_start_pre_vote_round:
  assumes "node_inv n"
  shows "good_step n (start_pre_vote_round n)"
proof -
  let ?m = "n\<lparr>volatile := (volatile n)\<lparr>role := PreCandidate, leader_hint := None\<rparr>,
      election := begin_pre_vote (Node_id n) (election n)\<rparr>"
  have m: "good n ?m" using assms by (intro good_same_log) (simp_all add: same_log_def node_inv_def)
  have m': "good_step n (?m, map (\<lambda>to_id. Send to_id (PreVoteMsg r)) vs)" for r vs
    using m by (rule good_step_quiet) simp_all
  have "good_step ?m (fst (start_election ?m), snd (start_election ?m))"
    using good_step_start_election [OF good_inv [OF m]] by simp
  from good_step_trans [OF m' this] m' show ?thesis
    using assms unfolding start_pre_vote_round_def Let_def
    by (auto simp: case_prod_unfold good_step_quiet good_election split: option.split)
qed

lemma good_step_tick_check_quorum:
  assumes "node_inv n"
  shows "good_step n (fst (tick_check_quorum n), case snd (tick_check_quorum n) of None \<Rightarrow> [] | Some outs \<Rightarrow> outs)"
proof -
  have l: "good_step n (n\<lparr>leader := l\<rparr>, [])" for l using assms by (simp add: good_step_leader)
  have f: "good_step n (map_volatile (\<lambda>v. v\<lparr>leader_hint := None\<rparr>) (fst (become_follower t (n\<lparr>leader := l\<rparr>))),
      snd (become_follower t (n\<lparr>leader := l\<rparr>)))" for t l
  proof -
    let ?b = "become_follower t (n\<lparr>leader := l\<rparr>)"
    have b: "good (n\<lparr>leader := l\<rparr>) (fst ?b)" using good_step_inv [OF l] by (rule good_become_follower)
    have "good (fst ?b) (map_volatile (\<lambda>v. v\<lparr>leader_hint := None\<rparr>) (fst ?b))"
      using good_inv [OF b] by (intro good_same_log) (simp_all add: same_log_def node_inv_def)
    with good_trans [OF b] good_trans [OF good_leader [OF assms]]
    have "good n (map_volatile (\<lambda>v. v\<lparr>leader_hint := None\<rparr>) (fst ?b))" by blast
    then show ?thesis by (rule good_step_quiet) (simp_all add: frame_simps)
  qed
  show ?thesis
    unfolding tick_check_quorum_def Let_def case_prod_unfold
    using l f assms by (auto simp: good_step_none)
qed

lemma good_step_tick:
  assumes "node_inv n"
  shows "good_step n (tick n)"
proof (cases "Node_role n = Leader")
  case True
  let ?a = "map_leader (\<lambda>l. l\<lparr>ticks := ticks l + 1, heartbeat_elapsed := sat_add (heartbeat_elapsed l) 1\<rparr>) n"
  let ?b = "tick_leadership_transfer (tick_read_lease ?a)"
  have "leader_only n (?a, [])" by (rule leader_only_update) simp
  from leader_only_trans0 [OF leader_only_trans0 [OF this tick_read_lease_leader_only] tick_leadership_transfer_leader_only]
  have b: "good_step n (?b, [])" by (rule good_step_leader_only [OF assms])
  obtain c q where c: "tick_check_quorum ?b = (c, q)" by fastforce
  have q: "good_step n (c, case q of None \<Rightarrow> [] | Some outs \<Rightarrow> outs)"
    using good_step_then0 [OF b good_step_tick_check_quorum] c by simp
  show ?thesis
  proof (cases q)
    case None
    with q have "good_step n (c, [])" by simp
    moreover have "good_step n (broadcast_append_entries c)"
      using good_step_then0 [OF \<open>good_step n (c, [])\<close> good_step_leader_only [OF _ broadcast_append_entries_leader_only]] .
    ultimately show ?thesis using True c None by (simp add: tick_def Let_def)
  next
    case (Some outs)
    with True c q show ?thesis by (simp add: tick_def Let_def)
  qed
next
  case False
  let ?n = "map_election advance_timeout n"
  have n: "good_step n (?n, [])" using good_election [OF assms] by (rule good_step_quiet) simp_all
  show ?thesis
    using False n good_step_then0 [OF n good_step_start_pre_vote_round] good_step_then0 [OF n good_step_start_election]
    by (simp add: tick_def Let_def)
qed

lemma good_step_handle_request_vote:
  assumes "node_inv n"
  shows "good_step n (handle_request_vote k r n)"
proof -
  obtain m outs where m: "(if rv_term r > Node_current_term n then become_follower (rv_term r) n else (n, [])) = (m, outs)"
    by fastforce
  have g: "good_step n (m, outs)"
    using m good_step_become_follower [OF assms] good_step_none [OF assms] by metis
  let ?m = "map_election reset_timeout (map_persistent (\<lambda>p. p\<lparr>voted_for := Some k\<rparr>) m)"
  have vote: "good_step m (?m, [])"
    if "case Node_voted_for m of None \<Rightarrow> True | Some voted \<Rightarrow> voted = k"
  proof (rule good_step_quiet)
    show "good m ?m"
      using good_step_inv [OF g] that
      by (intro good_same_log) (auto simp: same_log_def node_inv_def split: option.splits)
  qed simp_all
  have send: "applies [Send k (RequestVoteResponseMsg q)] = []" for q by (simp add: applies_Cons)
  show ?thesis
    using g good_step_append_quiet [OF g send] good_step_append_quiet [OF good_step_trans [OF g vote] send]
    unfolding handle_request_vote_def m Let_def by auto
qed

lemma good_step_handle_request_vote_response:
  assumes "node_inv n"
  shows "good_step n (handle_request_vote_response k r n)"
proof -
  let ?m = "if rvr_vote_granted r then map_election (record_vote k) n else n"
  have m: "good_step n (?m, [])"
    using assms good_step_quiet [OF good_election [OF assms]] by (simp add: good_step_none)
  have "good_step n (let (n, outputs1) = become_leader ?m; (n, outputs2) = broadcast_append_entries n
      in (n, outputs1 @ outputs2))"
    using good_step_then0 [OF m good_step_win] .
  with m assms show ?thesis
    unfolding handle_request_vote_response_def Let_def [of "if rvr_vote_granted r then _ else _"]
    by (auto simp: good_step_become_follower good_step_none)
qed

lemma good_step_handle_pre_vote: "node_inv n \<Longrightarrow> good_step n (handle_pre_vote k r n)"
  by (simp add: handle_pre_vote_def Let_def good_step_refl applies_Cons)

lemma good_step_handle_pre_vote_response:
  assumes "node_inv n"
  shows "good_step n (handle_pre_vote_response k r n)"
proof -
  let ?m = "if pvr_vote_granted r then map_election (record_pre_vote k) n else n"
  have m: "good_step n (?m, [])"
    using assms good_step_quiet [OF good_election [OF assms]] by (simp add: good_step_none)
  from good_step_then0 [OF m good_step_start_election] m assms show ?thesis
    unfolding handle_pre_vote_response_def Let_def
    by (auto simp: good_step_become_follower good_step_none split: option.split)
qed

lemma good_step_handle_timeout_now:
  assumes "node_inv n"
  shows "good_step n (handle_timeout_now trm n)"
proof -
  obtain m outs where m: "become_follower trm n = (m, outs)" by fastforce
  have g: "good_step n (m, outs)" using good_step_become_follower [OF assms] m by metis
  from good_step_then [OF g good_step_start_election] m assms show ?thesis
    by (simp add: handle_timeout_now_def case_prod_unfold Let_def good_step_none)
qed

section \<open>Votes\<close>

lemma become_follower_vote:
  "Node_voted_for (fst (become_follower t n)) = (if t > Node_current_term n then None else Node_voted_for n)"
  by (simp add: become_follower_eq)

lemma become_follower_same_log: "same_log n (fst (become_follower t n))"
  by (simp add: same_log_def frame_simps)

lemma log_up_to_date_same_log: "same_log n n' \<Longrightarrow> log_up_to_date n' t i \<longleftrightarrow> log_up_to_date n t i"
  by (simp add: log_up_to_date_def same_log_simps)

lemma no_sends_become_follower: "Send to_id m \<notin> set (snd (become_follower t n))"
  by (auto simp: become_follower_outputs dropped_outputs_def canceled_outputs_def)

text \<open>The condition of Raft for giving a vote, over the state before the request.\<close>

definition may_vote :: "Node \<Rightarrow> NodeId \<Rightarrow> RequestVote \<Rightarrow> bool" where
  "may_vote n candidate request \<longleftrightarrow>
     Node_current_term n \<le> rv_term request \<and>
     contains_voter (effective_membership n) candidate \<and>
     log_up_to_date n (rv_last_log_term request) (rv_last_log_index request) \<and>
     (rv_term request = Node_current_term n \<longrightarrow> Node_voted_for n \<in> {None, Some candidate})"

lemma handle_request_vote_outcome:
  assumes "handle_request_vote candidate request n = (n', outs)"
  shows "Node_current_term n' = max (Node_current_term n) (rv_term request) \<and>
    Node_voted_for n' = (if may_vote n candidate request then Some candidate
      else if rv_term request > Node_current_term n then None else Node_voted_for n) \<and>
    (\<forall>to_id m. Send to_id m \<in> set outs \<longleftrightarrow> to_id = candidate \<and> m = RequestVoteResponseMsg
       \<lparr>rvr_term = Node_current_term n', rvr_voter_id = Node_id n,
        rvr_vote_granted = may_vote n candidate request\<rparr>) \<and>
    same_log n n'"
proof -
  obtain m out where m: "(if rv_term request > Node_current_term n
      then become_follower (rv_term request) n else (n, [])) = (m, out)" by fastforce
  have same: "same_log n m" and sends: "\<And>to_id x. Send to_id x \<notin> set out"
    and trm: "Node_current_term m = max (Node_current_term n) (rv_term request)"
    and vote: "Node_voted_for m = (if rv_term request > Node_current_term n then None else Node_voted_for n)"
    and id_eq: "config m = config n"
    using m become_follower_same_log [of n "rv_term request"] no_sends_become_follower [of _ _ "rv_term request" n]
      become_follower_vote [of "rv_term request" n] become_follower_frame [of "rv_term request" n]
    by (auto split: if_splits)
  have granted: "(rv_term request = Node_current_term m \<and> contains_voter (effective_membership m) candidate \<and>
      log_up_to_date m (rv_last_log_term request) (rv_last_log_index request) \<and>
      (case Node_voted_for m of None \<Rightarrow> True | Some voted \<Rightarrow> voted = candidate)) = may_vote n candidate request"
    by (auto simp: may_vote_def log_up_to_date_same_log [OF same] same_log_membership [OF same] trm vote
        split: option.splits)
  have "n' = (if may_vote n candidate request
      then map_election reset_timeout (map_persistent (\<lambda>p. p\<lparr>voted_for := Some candidate\<rparr>) m) else m)"
    "outs = out @ [Send candidate (RequestVoteResponseMsg \<lparr>rvr_term = Node_current_term n', rvr_voter_id = Node_id n',
       rvr_vote_granted = may_vote n candidate request\<rparr>)]"
    using assms unfolding handle_request_vote_def m Let_def prod.case granted by auto
  with sends same show ?thesis by (auto simp: trm vote id_eq same_log_def)
qed

text \<open>
  C10: A vote is granted exactly when the request carries the term the voter is in after adopting
  it, the candidate is a voter of the effective configuration, its log is at least as up to date as
  the voter's, and the voter has given no other candidate its vote in that term. A granted vote is
  recorded in the state the response leaves behind, a refusal leaves an earlier vote of the term in
  place, the term is the larger of the two, and the only message sent is the answer to the
  candidate, with the voter's own identity and term.
\<close>

theorem vote_granted_exactly:
  assumes "handle_request_vote candidate request n = (n', outs)"
  shows "Node_current_term n' = max (Node_current_term n) (rv_term request) \<and>
    Node_voted_for n' = (if may_vote n candidate request then Some candidate
      else if rv_term request > Node_current_term n then None else Node_voted_for n) \<and>
    (\<forall>to_id m. Send to_id m \<in> set outs \<longleftrightarrow> to_id = candidate \<and> m = RequestVoteResponseMsg
       \<lparr>rvr_term = Node_current_term n', rvr_voter_id = Node_id n,
        rvr_vote_granted = may_vote n candidate request\<rparr>) \<and>
    same_log n n'"
  using handle_request_vote_outcome [OF assms] .

theorem vote_granted_exactly_witness:
  "Node_voted_for (fst (handle_request_vote 2 \<lparr>rv_term = 3, rv_candidate_id = 2, rv_last_log_index = 4,
      rv_last_log_term = 2\<rparr> sample_follower)) = Some 2"
proof -
  let ?r = "\<lparr>rv_term = 3, rv_candidate_id = 2, rv_last_log_index = 4, rv_last_log_term = 2\<rparr>"
  have "last_log_term sample_follower = 2"
    unfolding last_log_term_def by (simp add: sample_term_at)
  then have "may_vote sample_follower 2 ?r"
    by (simp add: may_vote_def log_up_to_date_def sample_membership) (simp add: sample_defs)
  with vote_granted_exactly [OF surjective_pairing [of "handle_request_vote 2 ?r sample_follower"]]
  show ?thesis by simp
qed

section \<open>Pre-votes\<close>

lemma has_effective_quorum_same_log:
  "same_log n n' \<Longrightarrow> has_effective_quorum n' acks = has_effective_quorum n acks"
  using same_log_membership [of n n'] unfolding has_effective_quorum_def
  by (cases "derived n = []") (simp_all add: same_log_def effective_base_membership_def cong: option.case_cong)

text \<open>
  Pre-votes bind nothing. Answering one leaves the whole state as it is, and grants exactly
  when the polled term is beyond the voter's, the candidate is a voter with an up-to-date log and
  the voter has not heard from a leader within the election timeout. Opening a poll keeps term,
  vote, log and snapshot, unless the node alone is a quorum; and a response moves a poller on to a
  campaign only with a quorum of pre-votes.
\<close>

theorem pre_votes_bind_nothing:
  "fst (handle_pre_vote candidate request n) = n \<and>
   (\<exists>t. snd (handle_pre_vote candidate request n) = [Send candidate (PreVoteResponseMsg
      \<lparr>pvr_term = t, pvr_voter_id = Node_id n,
       pvr_vote_granted = (Node_current_term n < pv_term request \<and>
         contains_voter (effective_membership n) candidate \<and>
         log_up_to_date n (pv_last_log_term request) (pv_last_log_index request) \<and>
         (Node_leader_hint n = None \<or> election_timeout_ticks (config n) \<le> elapsed (election n)))\<rparr>)]) \<and>
   (\<not> has_effective_quorum n [Node_id n] \<longrightarrow> persistent (fst (start_pre_vote_round n)) = persistent n) \<and>
   (Node_role n = PreCandidate \<and> Node_role (fst (handle_pre_vote_response voter response n)) \<in> {Candidate, Leader} \<longrightarrow>
      pvr_vote_granted response \<and> has_effective_quorum n (btree_insert voter (pre_votes (election n))) \<or>
      has_effective_quorum n (pre_votes (election n)))"
proof -
  have poll: "persistent (fst (start_pre_vote_round n)) = persistent n" if "\<not> has_effective_quorum n [Node_id n]"
  proof -
    let ?m = "n\<lparr>volatile := (volatile n)\<lparr>role := PreCandidate, leader_hint := None\<rparr>,
        election := begin_pre_vote (Node_id n) (election n)\<rparr>"
    have "\<not> has_effective_quorum ?m (pre_votes (election ?m))"
      using that has_effective_quorum_same_log [of n ?m]
      by (simp add: same_log_def begin_pre_vote_def insort_insert_key_def)
    then show ?thesis by (simp add: start_pre_vote_round_def Let_def split: option.split)
  qed
  have move: "pvr_vote_granted response \<and> has_effective_quorum n (btree_insert voter (pre_votes (election n))) \<or>
      has_effective_quorum n (pre_votes (election n))"
    if "Node_role n = PreCandidate" "Node_role (fst (handle_pre_vote_response voter response n)) \<in> {Candidate, Leader}"
  proof -
    have "has_effective_quorum (map_election (record_pre_vote voter) n) acks = has_effective_quorum n acks" for acks
      by (rule has_effective_quorum_same_log) (simp add: same_log_def)
    then show ?thesis
      using that by (auto simp: handle_pre_vote_response_def Let_def frame_simps record_pre_vote_def
          split: option.splits if_splits)
  qed
  from poll move show ?thesis by (simp add: handle_pre_vote_def Let_def) auto
qed

theorem pre_votes_bind_nothing_witness:
  "persistent (fst (start_pre_vote_round sample_follower)) = persistent sample_follower"
proof -
  have "Node_id sample_follower = 1" by (simp add: sample_defs)
  moreover have "membership_sources_wf sample_follower" using sample_follower_inv by (simp add: node_inv_def)
  ultimately have "\<not> has_effective_quorum sample_follower [Node_id sample_follower]"
    using has_effective_quorum_eq [of sample_follower] by (simp add: sample_small sample_quorum)
  with pre_votes_bind_nothing [of 2 undefined sample_follower] show ?thesis by simp
qed

section \<open>Timeouts\<close>

lemma FNV_le_u64: "unat (h :: 64 word) \<le> u64_max"
  using unsigned_less [of h, where ?'a = nat] by (simp add: u64_max_def)

text \<open>
  The randomised election timeout lies between the configured base and base plus jitter, for
  every jitter of the machine type, the largest included.
\<close>

theorem election_timeout_range:
  assumes "election_timeout_ticks (config n) \<le> u64_max" "election_jitter_ticks (config n) \<le> u64_max"
  shows "election_timeout_ticks (config n) \<le> effective_election_timeout n \<and>
    effective_election_timeout n \<le> election_timeout_ticks (config n) + election_jitter_ticks (config n) \<and>
    effective_election_timeout n \<le> u64_max"
proof -
  let ?j = "election_jitter_ticks (config n)"
  have m: "h mod Suc ?j \<le> ?j" for h by (simp add: less_Suc_eq_le [symmetric])
  have a: "x \<le> y \<Longrightarrow> sat_add b x \<le> b + y" for b x y :: nat
    using sat_add_le [of b x] by linarith
  show ?thesis
    using assms by (auto simp: effective_election_timeout_def Let_def sat_add_ge_left m FNV_le_u64 intro!: a)
qed

theorem election_timeout_range_witness:
  "10 \<le> effective_election_timeout sample_follower \<and> effective_election_timeout sample_follower \<le> 10"
  using election_timeout_range [of sample_follower] by (simp add: sample_defs u64_max_def)

section \<open>A silent cluster elects\<close>

text \<open>The node's own clock, with nothing received.\<close>

primrec run_ticks :: "nat \<Rightarrow> Node \<Rightarrow> Node \<times> Output list" where
  "run_ticks 0 n = (n, [])"
| "run_ticks (Suc k) n = (let (n, outputs1) = tick n; (n, outputs2) = run_ticks k n in (n, outputs1 @ outputs2))"

definition asks_for_vote :: "Output \<Rightarrow> NodeId \<Rightarrow> bool" where
  "asks_for_vote out v \<longleftrightarrow> (case out of Send to_id (PreVoteMsg _) \<Rightarrow> to_id = v
     | Send to_id (RequestVoteMsg _) \<Rightarrow> to_id = v | _ \<Rightarrow> False)"

text \<open>The node polls or campaigns beyond its term, and has asked every other voter.\<close>

definition campaigning :: "Node \<Rightarrow> Node \<times> Output list \<Rightarrow> bool" where
  "campaigning n r \<longleftrightarrow>
     (Node_role (fst r) = PreCandidate \<or> Node_current_term n < Node_current_term (fst r)) \<and>
     list_all (\<lambda>v. list_ex (\<lambda>out. asks_for_vote out v) (snd r)) (other_voters n)"

lemma other_voters_same_log: "same_log n n' \<Longrightarrow> other_voters n' = other_voters n"
  using same_log_membership [of n n'] by (simp add: other_voters_def same_log_def)

lemma asked:
  "list_all (\<lambda>v. list_ex (\<lambda>out. asks_for_vote out v) (map (\<lambda>to_id. Send to_id (RequestVoteMsg r)) vs @ outs)) vs"
  "list_all (\<lambda>v. list_ex (\<lambda>out. asks_for_vote out v) (map (\<lambda>to_id. Send to_id (PreVoteMsg q)) vs @ outs)) vs"
  by (force simp: list_all_iff list_ex_iff asks_for_vote_def)+

lemma campaigning_start_election:
  assumes "node_inv n" "is_effective_voter n (Node_id n)" "Node_current_term n < u64_max"
  shows "campaigning n (start_election n)"
proof (cases rule: start_election_cases [of n])
  case idle
  with assms(2,3) show ?thesis by simp
next
  case (campaign c outs)
  have "other_voters c = other_voters n"
    by (rule other_voters_same_log) (simp add: campaign(2) candidate_of_def same_log_def)
  moreover have "Node_current_term c = Suc (Node_current_term n)" by (simp add: campaign(2) candidate_of_def)
  ultimately show ?thesis using asked(1) [where outs = "[]"] by (simp add: campaigning_def campaign(3,5))
next
  case (win c outs)
  have "other_voters c = other_voters n"
    by (rule other_voters_same_log) (simp add: win(2) candidate_of_def same_log_def)
  moreover have "Node_current_term c = Suc (Node_current_term n)" by (simp add: win(2) candidate_of_def)
  moreover have "good_step c (let (n, outputs1) = become_leader c; (n, outputs2) = broadcast_append_entries n
      in (n, outputs1 @ outputs2))"
    using good_candidate_of [OF assms(1)] by (intro good_step_win) (simp add: win(2) good_inv)
  then have "Node_current_term c \<le> Node_current_term (fst (start_election n))"
    by (simp add: win(5) case_prod_unfold Let_def good_step_def good_def evolves_def)
  ultimately show ?thesis
    using asked(1) [where outs = "snd (become_leader c) @ snd (broadcast_append_entries (fst (become_leader c)))"]
    by (simp add: campaigning_def win(3,5))
qed

lemma campaigning_start_pre_vote_round:
  assumes "node_inv n" "is_effective_voter n (Node_id n)" "Node_current_term n < u64_max"
  shows "campaigning n (start_pre_vote_round n)"
proof -
  let ?m = "n\<lparr>volatile := (volatile n)\<lparr>role := PreCandidate, leader_hint := None\<rparr>,
      election := begin_pre_vote (Node_id n) (election n)\<rparr>"
  have same: "same_log n ?m" by (simp add: same_log_def)
  have m: "node_inv ?m" by (rule node_inv_same_log [OF assms(1) same]) (use assms(1) in \<open>simp_all add: node_inv_def\<close>)
  have "campaigning ?m (start_election ?m)"
    using assms(2,3) same_log_membership [OF same]
    by (intro campaigning_start_election [OF m]) (simp_all add: is_effective_voter_def)
  then have "Node_role (fst (start_election ?m)) = PreCandidate \<or>
      Node_current_term n < Node_current_term (fst (start_election ?m))"
    by (simp add: campaigning_def)
  with assms(2,3) asked(2) [where vs = "other_voters n"] asked(2) [where vs = "other_voters n" and outs = "[]"]
  show ?thesis
    by (auto simp: start_pre_vote_round_def campaigning_def Let_def Term_checked_next_def checked_add_def
        case_prod_unfold other_voters_same_log [OF same])
qed

text \<open>
  C34: A voter that hears nothing campaigns: within as many ticks as its timer is short of its
  timeout, a voter that is not the leader and has a successor term opens a pre-vote poll or a
  campaign beyond its term and asks every other voter.
\<close>

theorem silent_voter_campaigns:
  assumes "node_inv n" "Node_role n \<noteq> Leader" "is_effective_voter n (Node_id n)" "Node_current_term n < u64_max"
    "election_timeout_ticks (config n) \<le> u64_max"
  shows "\<exists>k \<le> max 1 (effective_election_timeout n - elapsed (election n)). campaigning n (run_ticks k n)"
  using assms
proof (induction "effective_election_timeout n - elapsed (election n)" arbitrary: n rule: less_induct)
  case less
  let ?n = "map_election advance_timeout n"
  have same: "same_log n ?n" by (simp add: same_log_def)
  have inv: "node_inv ?n" using less.prems(1) by (rule good_inv [OF good_election])
  have voter: "is_effective_voter ?n (Node_id ?n)"
    using less.prems(3) same_log_membership [OF same] by (simp add: is_effective_voter_def)
  have timeout: "effective_election_timeout ?n = effective_election_timeout n"
    by (simp add: effective_election_timeout_def Let_def)
  have le: "effective_election_timeout n \<le> u64_max"
    using less.prems(5) by (auto simp: effective_election_timeout_def Let_def)
  have camp: "campaigning n r \<longleftrightarrow> campaigning ?n r" for r
    by (simp add: campaigning_def other_voters_same_log [OF same])
  show ?case
  proof (cases "elapsed (election ?n) < effective_election_timeout n")
    case True
    then have e: "elapsed (election ?n) = Suc (elapsed (election n))" and "elapsed (election n) < effective_election_timeout n"
      using le by (auto simp: advance_timeout_def sat_add_def)
    then obtain k where "k \<le> max 1 (effective_election_timeout n - Suc (elapsed (election n)))"
        "campaigning ?n (run_ticks k ?n)"
      using less.hyps [of ?n] inv voter less.prems timeout by (auto simp: diff_less_mono2)
    moreover have "tick n = (?n, [])"
      using True less.prems(2) by (simp add: tick_def Let_def timeout)
    ultimately have "Suc k \<le> max 1 (effective_election_timeout n - elapsed (election n))"
        "campaigning n (run_ticks (Suc k) n)"
      using True e by (auto simp: camp case_prod_unfold)
    then show ?thesis by blast
  next
    case False
    then have "tick n = start_pre_vote_round ?n \<or> tick n = start_election ?n"
      using less.prems(2) by (auto simp: tick_def Let_def timeout)
    then have "campaigning n (run_ticks 1 n)"
      using campaigning_start_pre_vote_round [OF inv voter] campaigning_start_election [OF inv voter] less.prems(4)
      by (auto simp: camp case_prod_unfold)
    then show ?thesis by (intro exI [of _ 1]) simp
  qed
qed

theorem silent_voter_campaigns_witness:
  "\<exists>k \<le> 10. campaigning sample_follower (run_ticks k sample_follower)"
proof -
  have "effective_election_timeout sample_follower = 10" "elapsed (election sample_follower) = 0"
    by (simp_all add: effective_election_timeout_def sample_defs ElectionState_default_def)
  moreover have "is_effective_voter sample_follower (Node_id sample_follower)" "Node_role sample_follower \<noteq> Leader"
    "Node_current_term sample_follower < u64_max" "election_timeout_ticks (config sample_follower) \<le> u64_max"
    by (simp_all add: is_effective_voter_def sample_membership) (simp_all add: sample_defs u64_max_def)
  ultimately show ?thesis using silent_voter_campaigns [OF sample_follower_inv] by simp
qed

end
