(* ===== verification/Receive.thy ===== *)
theory Receive
  imports Commit
begin

text \<open>
  The follower's side of log replication: \<open>node/replication/receive.rs\<close>. The scan for the first
  divergent entry is characterised by the terms of the local log; an accepted append leaves a log
  that agrees with the request and the commit index its leader confirms, a rejected one leaves the
  log and commitment alone.
\<close>

section \<open>Operations\<close>

datatype AppendRejection = CommittedEntryConflict LogIndex | OverlappingConfigurationChanges

definition request_match_index :: "LogIndex \<Rightarrow> usize \<Rightarrow> LogIndex" where
  "request_match_index prev_log_index entry_count = prev_log_index + entry_count"

definition confirmed_commit_index :: "Node \<Rightarrow> AppendEntries \<Rightarrow> LogIndex \<Rightarrow> LogIndex" where
  "confirmed_commit_index n request match_idx =
     max (Node_commit_index n) (min (ae_leader_commit request) match_idx)"

definition append_entries_response :: "Node \<Rightarrow> NodeId \<Rightarrow> bool \<Rightarrow> LogIndex \<Rightarrow> u64 \<Rightarrow> Output" where
  "append_entries_response n leader_id success match_idx sequence =
     Send leader_id (AppendEntriesResponseMsg
       \<lparr>aer_term = Node_current_term n, aer_follower_id = Node_id n, aer_success = success,
        aer_match_index = match_idx, aer_sequence = sequence\<rparr>)"

definition accept_append_entries :: "Node \<Rightarrow> NodeId \<Rightarrow> LogIndex \<Rightarrow> u64 \<Rightarrow> Output" where
  "accept_append_entries n leader_id match_idx sequence =
     append_entries_response n leader_id True match_idx sequence"

definition reject_append_entries :: "Node \<Rightarrow> NodeId \<Rightarrow> u64 \<Rightarrow> Output" where
  "reject_append_entries n leader_id sequence = append_entries_response n leader_id False 0 sequence"

fun scan_divergence ::
    "Node \<Rightarrow> LogIndex \<Rightarrow> usize \<Rightarrow> LogEntry list \<Rightarrow> AppendRejection + (usize \<times> LogIndex) option" where
  "scan_divergence n prev_log_index offset [] = Inr None"
| "scan_divergence n prev_log_index offset (e # es) =
     (let index = prev_log_index + 1 + offset in
      case term_at n index of
        None \<Rightarrow> Inr (Some (offset, index))
      | Some existing_term \<Rightarrow>
          if existing_term = entry_term e then scan_divergence n prev_log_index (offset + 1) es
          else if index \<le> Node_commit_index n then Inl (CommittedEntryConflict index)
          else Inr (Some (offset, index)))"

definition incoming_configurations :: "LogIndex \<Rightarrow> LogIndex \<Rightarrow> LogEntry list \<Rightarrow> LogEntry list" where
  "incoming_configurations first_index floor es =
     map snd (filter (\<lambda>(offset, e). first_index + offset > floor \<and> is_configuration (entry_kind e))
       (enumerate 0 es))"

definition splice_entries_after ::
    "LogIndex \<Rightarrow> SharedEntries \<Rightarrow> LogIndex \<Rightarrow> Node \<Rightarrow> Node \<times> (AppendRejection + Output list)" where
  "splice_entries_after prev_log_index entries floor n =
     (case scan_divergence n prev_log_index 0 entries of
        Inl rejection \<Rightarrow> (n, Inl rejection)
      | Inr None \<Rightarrow> (n, Inr [])
      | Inr (Some (first_offset, first_index)) \<Rightarrow>
          let surviving = ci_count_between (derived n) (LogIndex_next (snapshot_index n)) floor first_index;
              incoming = incoming_configurations first_index floor (drop first_offset entries);
              introduces_current_term =
                list_ex (\<lambda>e. entry_term e = Node_current_term n) incoming
          in if introduces_current_term \<and> surviving + length incoming > 1
             then (n, Inl OverlappingConfigurationChanges)
             else let (n, outputs) = (if first_index \<le> last_log_index n
                        then truncate_from n first_index LogOverwritten else (n, []))
                  in (fold append_log_entry (drop first_offset entries) n, Inr outputs))"

text \<open>The node and outputs once the sender is accepted as the leader of the term.\<close>

definition follow_leader :: "NodeId \<Rightarrow> Term \<Rightarrow> Node \<Rightarrow> Node \<times> Output list" where
  "follow_leader leader_id trm n =
     (let (n, outputs) = (if trm > Node_current_term n \<or> Node_role n \<noteq> Follower
            then become_follower trm n else (n, []));
          n = map_election reset_timeout n
      in (map_volatile (\<lambda>v. v\<lparr>leader_hint := Some leader_id\<rparr>) n, outputs))"

definition handle_append_entries :: "NodeId \<Rightarrow> AppendEntries \<Rightarrow> Node \<Rightarrow> Node \<times> Output list" where
  "handle_append_entries leader_id request n =
     (let sequence = ae_sequence request in
      if ae_term request < Node_current_term n then (n, [reject_append_entries n leader_id sequence])
      else
        let (n, outputs) = follow_leader leader_id (ae_term request) n
        in if term_at n (ae_prev_log_index request) \<noteq> Some (ae_prev_log_term request)
           then (n, outputs @ [reject_append_entries n leader_id sequence])
           else
             let match_idx = request_match_index (ae_prev_log_index request) (length (ae_entries request));
                 confirmed = confirmed_commit_index n request match_idx
             in case splice_entries_after (ae_prev_log_index request) (ae_entries request) confirmed n of
                  (n, Inl _) \<Rightarrow> (n, outputs @ [reject_append_entries n leader_id sequence])
                | (n, Inr splice_outputs) \<Rightarrow>
                    let (n, commit_outputs) = (if ae_leader_commit request > Node_commit_index n
                          then emit_committed_outputs (map_volatile (\<lambda>v. v\<lparr>commit_index := confirmed\<rparr>) n)
                          else (n, []))
                    in (n, outputs @ splice_outputs @ commit_outputs @
                           [accept_append_entries n leader_id match_idx sequence]))"

section \<open>The scan for the first divergence\<close>

lemma scan_no_divergence:
  "scan_divergence n prev off es = Inr None \<Longrightarrow> j < length es \<Longrightarrow>
   term_at n (prev + 1 + off + j) = Some (entry_term (es ! j))"
proof (induction es arbitrary: off j)
  case (Cons e es)
  then show ?case
    by (cases j) (auto simp: Let_def split: option.splits if_splits, fastforce+)
qed simp

lemma scan_divergence_found:
  "scan_divergence n prev off es = Inr (Some (i, index)) \<Longrightarrow>
   index = prev + 1 + i \<and> off \<le> i \<and> i < off + length es \<and>
   (\<forall>j<i - off. term_at n (prev + 1 + off + j) = Some (entry_term (es ! j))) \<and>
   (term_at n index = None \<or> Node_commit_index n < index)"
proof (induction es arbitrary: off)
  case (Cons e es)
  show ?case
  proof (cases "term_at n (prev + 1 + off) = Some (entry_term e)")
    case True
    with Cons.prems have "scan_divergence n prev (off + 1) es = Inr (Some (i, index))" by (simp add: Let_def)
    note ih = Cons.IH [OF this]
    have "term_at n (prev + 1 + off + j) = Some (entry_term ((e # es) ! j))" if "j < i - off" for j
    proof (cases j)
      case (Suc j')
      with that ih have "term_at n (prev + 1 + (off + 1) + j') = Some (entry_term (es ! j'))" by auto
      with Suc show ?thesis by (simp add: algebra_simps)
    qed (use True in simp)
    with ih show ?thesis by auto
  next
    case False
    with Cons.prems show ?thesis by (auto simp: Let_def split: option.splits if_splits)
  qed
qed simp

text \<open>A rejected scan names a committed entry of another term.\<close>

lemma scan_conflict:
  "scan_divergence n prev off es = Inl r \<Longrightarrow>
   \<exists>j<length es. r = CommittedEntryConflict (prev + 1 + off + j) \<and> prev + 1 + off + j \<le> Node_commit_index n \<and>
     term_at n (prev + 1 + off + j) \<noteq> Some (entry_term (es ! j))"
proof (induction es arbitrary: off)
  case (Cons e es)
  show ?case
  proof (cases "term_at n (prev + 1 + off) = Some (entry_term e)")
    case True
    with Cons.prems have "scan_divergence n prev (off + 1) es = Inl r" by (simp add: Let_def)
    from Cons.IH [OF this] obtain j where "j < length es" "r = CommittedEntryConflict (prev + 1 + off + Suc j)"
        "prev + 1 + off + Suc j \<le> Node_commit_index n"
        "term_at n (prev + 1 + off + Suc j) \<noteq> Some (entry_term (es ! j))"
      by (auto simp: algebra_simps)
    then show ?thesis by (intro exI [of _ "Suc j"]) simp
  next
    case False
    with Cons.prems show ?thesis by (auto simp: Let_def split: option.splits if_splits)
  qed
qed simp

section \<open>Splicing\<close>

lemma good_fold_append:
  assumes "node_inv n" "\<forall>e\<in>set es. entry_wf e"
  shows "good n (fold append_log_entry es n)"
  using assms
proof (induction es arbitrary: n)
  case (Cons e es)
  then have e: "good n (append_log_entry e n)" by (intro good_append_log_entry) simp_all
  have "good (append_log_entry e n) (fold append_log_entry es (append_log_entry e n))"
    using Cons.prems by (intro Cons.IH good_inv [OF e]) simp
  with good_trans [OF e] show ?case by simp
qed (simp add: good_refl)

lemma fold_append_frame:
  "volatile (fold append_log_entry es n) = volatile n \<and> config (fold append_log_entry es n) = config n \<and>
   Node_current_term (fold append_log_entry es n) = Node_current_term n \<and>
   snapshot_index (fold append_log_entry es n) = snapshot_index n \<and>
   last_log_index (fold append_log_entry es n) = last_log_index n + length es"
  by (induction es arbitrary: n) (simp_all add: frame_simps)

lemma fold_append_entry_at:
  "entry_at (fold append_log_entry es n) i =
     (if last_log_index n < i \<and> i \<le> last_log_index n + length es then Some (es ! (i - Suc (last_log_index n)))
      else entry_at n i)"
proof (induction es arbitrary: n)
  case (Cons e es)
  show ?case
  proof (cases "i = Suc (last_log_index n)")
    case True
    then show ?thesis using Cons.IH [of "append_log_entry e n"] by (simp add: append_log_entry_entry_at)
  next
    case False
    moreover have "(e # es) ! (i - Suc (last_log_index n)) = es ! (i - Suc (Suc (last_log_index n)))"
      if "Suc (last_log_index n) < i" using that by (simp add: nth_Cons')
    ultimately show ?thesis by (auto simp: Cons.IH append_log_entry_entry_at)
  qed
qed auto

text \<open>The two accepted outcomes: nothing to write, or a cut at the divergence and an append.\<close>

lemma splice_accepted:
  assumes "splice_entries_after prev es floor n = (n', Inr outs)"
  obtains "n' = n" "outs = []" "scan_divergence n prev 0 es = Inr None"
  | i index m where "scan_divergence n prev 0 es = Inr (Some (i, index))"
      "m = (if index \<le> last_log_index n then fst (truncate_from n index LogOverwritten) else n)"
      "n' = fold append_log_entry (drop i es) m"
      "outs = (if index \<le> last_log_index n then snd (truncate_from n index LogOverwritten) else [])"
  using assms
  by (auto simp: splice_entries_after_def Let_def case_prod_unfold split: sum.splits option.splits if_splits)

lemma splice_rejected: "splice_entries_after prev es floor n = (n', Inl r) \<Longrightarrow> n' = n"
  by (auto simp: splice_entries_after_def Let_def case_prod_unfold split: sum.splits option.splits if_splits)

lemma divergence_above_commit:
  assumes "node_inv n" "scan_divergence n prev 0 es = Inr (Some (i, index))" "term_at n prev = Some t"
  shows "Node_commit_index n < index \<and> snapshot_index n < index \<and> index \<le> last_log_index n + 1"
proof -
  note s = scan_divergence_found [OF assms(2)]
  have prev: "snapshot_index n \<le> prev" "prev \<le> last_log_index n"
    using term_at_defined [OF assms(3)] by simp_all
  have above: "snapshot_index n < index" using s prev by simp
  have "index \<le> last_log_index n + 1"
  proof (cases i)
    case 0
    with s prev show ?thesis by simp
  next
    case (Suc j)
    with s have "term_at n (prev + 1 + j) = Some (entry_term (es ! j))" by auto
    from term_at_defined [OF this] s Suc show ?thesis by simp
  qed
  moreover have "Node_commit_index n < index"
  proof (rule ccontr)
    assume "\<not> Node_commit_index n < index"
    then have "term_at n index = None" "index \<le> last_log_index n"
      using s assms(1) by (auto simp: node_inv_def geometry_ok_def)
    with above show False using entry_at_defined_iff [of n index] by (auto simp: term_at_above)
  qed
  ultimately show ?thesis using above by simp
qed

lemma splice_good:
  assumes "node_inv n" "term_at n prev = Some t" "\<forall>e\<in>set es. entry_wf e"
    and "splice_entries_after prev es floor n = (n', Inr outs)"
  shows "good n n' \<and> applies outs = [] \<and> Node_commit_index n' = Node_commit_index n \<and>
    Node_dispatched_index n' = Node_dispatched_index n \<and> Node_current_term n' = Node_current_term n \<and>
    config n' = config n"
  using assms(4)
proof (cases rule: splice_accepted)
  case 1
  with assms(1) show ?thesis by (simp add: good_refl)
next
  case (2 i index m)
  have m: "good n m \<and> Node_commit_index m = Node_commit_index n \<and> config m = config n \<and>
      Node_dispatched_index m = Node_dispatched_index n \<and> Node_current_term m = Node_current_term n"
    using divergence_above_commit [OF assms(1) 2(1) assms(2)] good_truncate_from [OF assms(1)] good_refl [OF assms(1)]
    by (auto simp: 2(2) truncate_from_eq)
  have "good m n'"
    unfolding 2(3) using assms(3) m by (intro good_fold_append) (auto intro: good_inv dest: in_set_dropD)
  with m good_trans fold_append_frame [of "drop i es" m] 2(3,4) show ?thesis
    by (auto simp: truncate_from_outputs)
qed

lemma splice_terms:
  assumes "node_inv n" "term_at n prev = Some t" "splice_entries_after prev es floor n = (n', Inr outs)"
    and "j < length es"
  shows "term_at n' (prev + 1 + j) = Some (entry_term (es ! j))"
  using assms(3)
proof (cases rule: splice_accepted)
  case 1
  with scan_no_divergence [OF 1(3) assms(4)] show ?thesis by simp
next
  case (2 i index m)
  note s = scan_divergence_found [OF 2(1)] and d = divergence_above_commit [OF assms(1) 2(1) assms(2)]
  have prev: "snapshot_index n \<le> prev" using term_at_defined [OF assms(2)] by simp
  have m: "last_log_index m = index - 1" "snapshot_index m = snapshot_index n"
    using d unfolding 2(2) by (auto simp: truncate_from_last)
  have si: "snapshot_index n' = snapshot_index n" using fold_append_frame [of "drop i es" m] m 2(3) by simp
  have above: "term_at n' (prev + 1 + j) = map_option entry_term (entry_at n' (prev + 1 + j))"
    using prev si by (intro term_at_above) simp
  show ?thesis
  proof (cases "j < i")
    case True
    with s have "term_at n (prev + 1 + j) = Some (entry_term (es ! j))" by auto
    moreover have "entry_at m (prev + 1 + j) = entry_at n (prev + 1 + j)"
      using True s by (simp add: 2(2) truncate_from_entry_at)
    moreover have "entry_at n' (prev + 1 + j) = entry_at m (prev + 1 + j)"
      using True s m by (simp add: 2(3) fold_append_entry_at)
    ultimately show ?thesis using above prev by (simp add: term_at_above)
  next
    case False
    with s m assms(4) have "entry_at n' (prev + 1 + j) = Some (es ! j)"
      by (auto simp: 2(3) fold_append_entry_at)
    with above show ?thesis by simp
  qed
qed

lemma splice_last:
  assumes "node_inv n" "term_at n prev = Some t" "splice_entries_after prev es floor n = (n', Inr outs)"
  shows "prev + length es \<le> last_log_index n'"
proof (cases "es = []")
  case True
  moreover from this have "n' = n" using assms(3) by (simp add: splice_entries_after_def)
  ultimately show ?thesis using term_at_defined [OF assms(2)] by simp
next
  case False
  then have "length es - 1 < length es" by simp
  from splice_terms [OF assms this] term_at_defined [of n'] False show ?thesis by fastforce
qed

section \<open>The handler\<close>

lemma follow_leader_good: "node_inv n \<Longrightarrow> good_step n (follow_leader l t n)"
proof -
  assume inv: "node_inv n"
  obtain m outs where m: "(if t > Node_current_term n \<or> Node_role n \<noteq> Follower then become_follower t n else (n, [])) = (m, outs)"
    by fastforce
  have g: "good_step n (m, outs)"
    using m good_step_become_follower [OF inv] good_step_refl [OF inv] by (metis applies_Nil)
  let ?m = "map_volatile (\<lambda>v. v\<lparr>leader_hint := Some l\<rparr>) (map_election reset_timeout m)"
  have "good m ?m"
    using good_step_inv [OF g] by (rule good_same_log)
      (use good_step_inv [OF g] in \<open>simp_all add: same_log_def node_inv_def\<close>)
  then have "good_step m (?m, [])" by (rule good_step_quiet) simp_all
  from good_step_trans [OF g this] m show ?thesis by (simp add: follow_leader_def)
qed

lemma follow_leader_frame:
  "same_log n (fst (follow_leader l t n)) \<and>
   Node_commit_index (fst (follow_leader l t n)) = Node_commit_index n \<and>
   Node_dispatched_index (fst (follow_leader l t n)) = Node_dispatched_index n \<and>
   Node_role (fst (follow_leader l t n)) = Follower \<and>
   Node_current_term (fst (follow_leader l t n)) = max (Node_current_term n) t \<and>
   Node_leader_hint (fst (follow_leader l t n)) = Some l"
  by (auto simp: follow_leader_def same_log_def frame_simps Let_def case_prod_unfold)

text \<open>The handler's three outcomes.\<close>

lemma handle_append_entries_cases:
  obtains (stale) "ae_term r < Node_current_term n"
      "handle_append_entries l r n = (n, [reject_append_entries n l (ae_sequence r)])"
  | (mismatch) m outs where "\<not> ae_term r < Node_current_term n" "follow_leader l (ae_term r) n = (m, outs)"
      "term_at m (ae_prev_log_index r) \<noteq> Some (ae_prev_log_term r) \<or>
       (\<exists>why. splice_entries_after (ae_prev_log_index r) (ae_entries r)
          (confirmed_commit_index m r (request_match_index (ae_prev_log_index r) (length (ae_entries r)))) m = (m, Inl why))"
      "handle_append_entries l r n = (m, outs @ [reject_append_entries m l (ae_sequence r)])"
  | (accepted) m outs m1 outs1 m2 outs2 where "\<not> ae_term r < Node_current_term n"
      "follow_leader l (ae_term r) n = (m, outs)"
      "term_at m (ae_prev_log_index r) = Some (ae_prev_log_term r)"
      "splice_entries_after (ae_prev_log_index r) (ae_entries r)
         (confirmed_commit_index m r (request_match_index (ae_prev_log_index r) (length (ae_entries r)))) m = (m1, Inr outs1)"
      "(if ae_leader_commit r > Node_commit_index m1
        then emit_committed_outputs (map_volatile (\<lambda>v. v\<lparr>commit_index :=
          confirmed_commit_index m r (request_match_index (ae_prev_log_index r) (length (ae_entries r)))\<rparr>) m1)
        else (m1, [])) = (m2, outs2)"
      "handle_append_entries l r n = (m2, outs @ outs1 @ outs2 @
         [accept_append_entries m2 l (request_match_index (ae_prev_log_index r) (length (ae_entries r))) (ae_sequence r)])"
proof -
  let ?match = "request_match_index (ae_prev_log_index r) (length (ae_entries r))"
  obtain m outs where m: "follow_leader l (ae_term r) n = (m, outs)" by fastforce
  let ?c = "confirmed_commit_index m r ?match"
  let ?emit = "\<lambda>m1. if ae_leader_commit r > Node_commit_index m1
        then emit_committed_outputs (map_volatile (\<lambda>v. v\<lparr>commit_index := ?c\<rparr>) m1) else (m1, [])"
  show thesis
  proof (cases "ae_term r < Node_current_term n")
    case True
    then show thesis by (intro stale) (simp_all add: handle_append_entries_def)
  next
    case False
    then have eq: "handle_append_entries l r n =
        (if term_at m (ae_prev_log_index r) \<noteq> Some (ae_prev_log_term r)
         then (m, outs @ [reject_append_entries m l (ae_sequence r)])
         else case splice_entries_after (ae_prev_log_index r) (ae_entries r) ?c m of
             (m1, Inl _) \<Rightarrow> (m1, outs @ [reject_append_entries m1 l (ae_sequence r)])
           | (m1, Inr outs1) \<Rightarrow> let (m2, outs2) = ?emit m1
               in (m2, outs @ outs1 @ outs2 @ [accept_append_entries m2 l ?match (ae_sequence r)]))"
      unfolding handle_append_entries_def m Let_def by simp
    obtain m1 res where sp: "splice_entries_after (ae_prev_log_index r) (ae_entries r) ?c m = (m1, res)" by fastforce
    show thesis
    proof (cases "term_at m (ae_prev_log_index r) \<noteq> Some (ae_prev_log_term r)")
      case True
      with False m eq show thesis by (intro mismatch) auto
    next
      case agree: False
      show thesis
      proof (cases res)
        case (Inl why)
        with sp splice_rejected have "m1 = m" by blast
        with Inl sp eq agree False m show thesis by (intro mismatch) auto
      next
        case (Inr outs1)
        obtain m2 outs2 where "?emit m1 = (m2, outs2)" by fastforce
        with Inr sp eq agree False m show thesis by (intro accepted) auto
      qed
    qed
  qed
qed

lemma applied_entry_append_response [simp]: "applied_entry (append_entries_response n l s m q) = None"
  by (simp add: append_entries_response_def)

lemma applies_responses [simp]:
  "applies [reject_append_entries n l q] = []" "applies [accept_append_entries n l m q] = []"
  by (simp_all add: applies_Cons reject_append_entries_def accept_append_entries_def)

lemma confirmed_within_log:
  assumes "node_inv m1" "Node_commit_index m1 = Node_commit_index m"
    and "prev + length es \<le> last_log_index m1"
  shows "Node_commit_index m1 \<le> confirmed_commit_index m r (request_match_index prev (length es)) \<and>
    confirmed_commit_index m r (request_match_index prev (length es)) \<le> last_log_index m1"
  using assms by (auto simp: confirmed_commit_index_def request_match_index_def node_inv_def geometry_ok_def)

lemma good_step_handle_append_entries:
  assumes "node_inv n" "\<forall>e\<in>set (ae_entries r). entry_wf e"
  shows "good_step n (handle_append_entries l r n)"
proof (cases rule: handle_append_entries_cases [of r n l])
  case stale
  with assms(1) show ?thesis by (simp add: good_step_refl)
next
  case (mismatch m outs)
  have "good_step n (m, outs)" using follow_leader_good [OF assms(1)] mismatch(2) by metis
  then show ?thesis unfolding mismatch(4) by (rule good_step_append_quiet) simp
next
  case (accepted m outs m1 outs1 m2 outs2)
  have gm: "good_step n (m, outs)" using follow_leader_good [OF assms(1)] accepted(2) by metis
  note inv = good_step_inv [OF gm]
  note sp = splice_good [OF inv accepted(3) assms(2) accepted(4)]
  have g1: "good_step m (m1, outs1)" using sp by (intro good_step_quiet) auto
  note inv1 = good_step_inv [OF g1]
  have "good_step m1 (m2, outs2)"
  proof (cases "ae_leader_commit r > Node_commit_index m1")
    case True
    have "Node_commit_index m1 = Node_commit_index m" using sp by blast
    note le = confirmed_within_log [OF inv1 this splice_last [OF inv accepted(3,4)], of r]
    from good_step_commit_and_emit [OF inv1 conjunct1 [OF le] conjunct2 [OF le]] accepted(5) True
    show ?thesis by simp
  next
    case False
    with accepted(5) inv1 show ?thesis by (auto simp: good_step_refl)
  qed
  from good_step_trans [OF gm good_step_trans [OF g1 this]]
  have "good_step n (m2, (outs @ outs1 @ outs2) @
      [accept_append_entries m2 l (request_match_index (ae_prev_log_index r) (length (ae_entries r))) (ae_sequence r)])"
    by (rule good_step_append_quiet) simp
  then show ?thesis unfolding accepted(6) by simp
qed

section \<open>Configurations an accepted append leaves uncommitted\<close>

lemma ci_from_log_append: "ci_from_log (xs @ ys) = ci_from_log xs @ map ((+) (length xs)) (ci_from_log ys)"
proof (induction ys rule: rev_induct)
  case (snoc y ys)
  have "ci_from_log (xs @ ys @ [y]) = ci_record_append (ci_from_log (xs @ ys)) (length (xs @ ys)) y"
    using ci_from_log_snoc [of "xs @ ys" y] by simp
  with snoc.IH show ?case by (simp add: ci_from_log_snoc ci_record_append_def)
qed simp

lemma incoming_configurations_count:
  "length (incoming_configurations index floor ys) =
     length (filter (\<lambda>j. floor < index + j) (ci_from_log ys))"
proof -
  have "enumerate 0 ys = map (\<lambda>j. (j, ys ! j)) [0..<length ys]"
    by (rule nth_equalityI) (simp_all add: nth_enumerate_eq)
  then have "length (incoming_configurations index floor ys) =
      length (filter (\<lambda>j. index + j > floor \<and> is_configuration (entry_kind (ys ! j))) [0..<length ys])"
    by (simp add: incoming_configurations_def filter_map comp_def)
  then show ?thesis by (simp add: ci_from_log_filter conj_commute)
qed

lemma uncommitted_after_splice:
  assumes "first \<le> index" "index \<le> first + length lg"
  shows "length (ci_indexes_after (ci_from_log (take (index - first) lg @ ys)) first floor) =
    ci_count_between (ci_from_log lg) first floor index + length (incoming_configurations index floor ys)"
proof -
  have len: "length (take (index - first) lg) = index - first" using assms by simp
  have "length (filter (\<lambda>i. floor < i) (map (logical_index first) (ci_truncate (ci_from_log lg) (index - first)))) =
      ci_count_between (ci_from_log lg) first floor index"
    using assms(1) unfolding ci_count_between_def ci_truncate_def filter_map filter_filter length_map comp_def
    by (intro arg_cong [of _ _ length] filter_cong) (auto simp: logical_index_def)
  moreover have "length (filter (\<lambda>i. floor < i) (map (logical_index first) (map ((+) (index - first)) (ci_from_log ys)))) =
      length (incoming_configurations index floor ys)"
    using assms(1) unfolding incoming_configurations_count
    by (simp add: filter_map comp_def logical_index_def)
  ultimately show ?thesis
    unfolding ci_indexes_after_def ci_from_log_append len ci_from_log_take map_append filter_append length_append
    by linarith
qed

lemma fold_append_log:
  "Node_log (fold append_log_entry es n) = Node_log n @ es"
  by (induction es arbitrary: n) (simp_all add: frame_simps)

lemma fold_append_derived: "derived_ok n \<Longrightarrow> derived_ok (fold append_log_entry es n)"
  by (induction es arbitrary: n) (simp_all add: append_log_entry_derived)

text \<open>
  If an accepted splice writes a configuration of the current term above the frame's commit floor,
  it is the only configuration the resulting log has above that floor.
\<close>

lemma splice_single_configuration:
  assumes "node_inv n" "term_at n prev = Some t" "splice_entries_after prev es floor n = (n', Inr outs)"
    and "scan_divergence n prev 0 es = Inr (Some (i, index))"
    and "e \<in> set (incoming_configurations index floor (drop i es))" "entry_term e = Node_current_term n"
  shows "length (ci_indexes_after (derived n') (LogIndex_next (snapshot_index n')) floor) = 1"
proof -
  let ?first = "Suc (snapshot_index n)" and ?ys = "drop i es"
  note d = divergence_above_commit [OF assms(1,4,2)]
  have ok: "derived n = ci_from_log (Node_log n)" using assms(1) by (simp add: node_inv_def derived_ok_def)
  let ?m = "if index \<le> last_log_index n then fst (truncate_from n index LogOverwritten) else n"
  have cur: "list_ex (\<lambda>e. entry_term e = Node_current_term n) (incoming_configurations index floor ?ys)"
    using assms(5,6) by (auto simp: list_ex_iff)
  have n': "n' = fold append_log_entry ?ys ?m" and guard:
      "ci_count_between (derived n) ?first floor index + length (incoming_configurations index floor ?ys) \<le> 1"
    using assms(3,4) cur
    by (auto simp: splice_entries_after_def Let_def case_prod_unfold split: if_splits)
  have log: "Node_log n' = take (index - ?first) (Node_log n) @ ?ys"
    using d by (auto simp: n' fold_append_log truncate_from_eq last_log_index_def)
  have si: "snapshot_index n' = snapshot_index n"
    using fold_append_frame [of ?ys ?m] by (simp add: n')
  have "derived_ok n'"
    unfolding n' using assms(1) by (intro fold_append_derived) (simp add: node_inv_def truncate_from_derived)
  then have "length (ci_indexes_after (derived n') (LogIndex_next (snapshot_index n')) floor) =
      ci_count_between (derived n) ?first floor index + length (incoming_configurations index floor ?ys)"
    using uncommitted_after_splice [of ?first index "Node_log n" ?ys floor] d
    by (simp add: derived_ok_def log si ok last_log_index_def)
  moreover have "0 < length (incoming_configurations index floor ?ys)" using assms(5) by (cases "incoming_configurations index floor ?ys") auto
  ultimately show ?thesis using guard by linarith
qed

section \<open>Properties\<close>

lemma accepted_outcome:
  assumes "node_inv n" "\<forall>e\<in>set (ae_entries r). entry_wf e"
    and "follow_leader l (ae_term r) n = (m, outs)"
    and "term_at m (ae_prev_log_index r) = Some (ae_prev_log_term r)"
    and "splice_entries_after (ae_prev_log_index r) (ae_entries r)
         (confirmed_commit_index m r (request_match_index (ae_prev_log_index r) (length (ae_entries r)))) m = (m1, Inr outs1)"
    and "(if ae_leader_commit r > Node_commit_index m1
        then emit_committed_outputs (map_volatile (\<lambda>v. v\<lparr>commit_index :=
          confirmed_commit_index m r (request_match_index (ae_prev_log_index r) (length (ae_entries r)))\<rparr>) m1)
        else (m1, [])) = (m2, outs2)"
  shows "(\<forall>j<length (ae_entries r). term_at m2 (ae_prev_log_index r + 1 + j) = Some (entry_term (ae_entries r ! j))) \<and>
    Node_commit_index m2 = max (Node_commit_index n)
      (min (ae_leader_commit r) (ae_prev_log_index r + length (ae_entries r))) \<and>
    Node_current_term m2 = max (Node_current_term n) (ae_term r) \<and> config m2 = config n"
proof -
  let ?c = "confirmed_commit_index m r (request_match_index (ae_prev_log_index r) (length (ae_entries r)))"
  have gm: "good_step n (m, outs)" using follow_leader_good [OF assms(1)] assms(3) by metis
  note inv = good_step_inv [OF gm] and fl = follow_leader_frame [of n l "ae_term r", unfolded assms(3) fst_conv]
  note sp = splice_good [OF inv assms(4,2,5)]
  have inv1: "node_inv m1" using sp good_inv by blast
  have m1: "Node_commit_index m1 = Node_commit_index m" using sp by blast
  note le = confirmed_within_log [OF inv1 m1 splice_last [OF inv assms(4,5)], of r]
  let ?m1 = "map_volatile (\<lambda>v. v\<lparr>commit_index := ?c\<rparr>) m1"
  have inv2: "node_inv ?m1" using good_step_raise_commit [OF inv1 conjunct1 [OF le] conjunct2 [OF le]] by (rule good_inv)
  have "same_log m1 ?m1" by (simp add: same_log_def)
  then have same: "same_log m1 m2"
    using emit_committed_outputs_frame [of ?m1] assms(6) by (auto simp: same_log_def split: if_splits)
  have t: "Node_current_term m2 = Node_current_term m1"
    using emit_committed_outputs_frame [of ?m1] assms(6) by (auto split: if_splits)
  have commit: "Node_commit_index m2 = (if ae_leader_commit r > Node_commit_index m1 then ?c else Node_commit_index m1)"
    using emit_committed_outputs_commit [OF inv2] assms(6) by (auto split: if_splits)
  have "Node_commit_index m2 = max (Node_commit_index n) (min (ae_leader_commit r) (ae_prev_log_index r + length (ae_entries r)))"
    using commit m1 fl by (auto simp: confirmed_commit_index_def request_match_index_def)
  moreover have "\<forall>j<length (ae_entries r). term_at m2 (ae_prev_log_index r + 1 + j) = Some (entry_term (ae_entries r ! j))"
    using splice_terms [OF inv assms(4,5)] same_log_term_at [OF same] by simp
  moreover have "config m2 = config n" using same sp fl by (simp add: same_log_def)
  ultimately show ?thesis using t sp fl by simp
qed

text \<open>
  C11: what an append does. The handler always ends with one answer to the sender that echoes the
  round and carries the node's term. If the answer is a success, the log now has the request's
  terms at the request's positions, and the commit index is the larger of the old one and what the
  leader confirms of the acknowledged prefix; if it is a rejection, log, snapshot and commit index
  are untouched.
\<close>

theorem append_entries_outcome:
  assumes "node_inv n" "\<forall>e\<in>set (ae_entries r). entry_wf e" "handle_append_entries l r n = (n', outs)"
  shows "\<exists>resp. outs \<noteq> [] \<and> last outs = Send l (AppendEntriesResponseMsg resp) \<and>
    aer_sequence resp = ae_sequence r \<and> aer_term resp = Node_current_term n' \<and>
    (if aer_success resp
     then aer_match_index resp = ae_prev_log_index r + length (ae_entries r) \<and>
       Node_current_term n' = ae_term r \<and>
       (\<forall>j<length (ae_entries r). term_at n' (ae_prev_log_index r + 1 + j) = Some (entry_term (ae_entries r ! j))) \<and>
       Node_commit_index n' = max (Node_commit_index n)
         (min (ae_leader_commit r) (ae_prev_log_index r + length (ae_entries r)))
     else Node_log n' = Node_log n \<and> Node_snapshot n' = Node_snapshot n \<and>
       Node_commit_index n' = Node_commit_index n)"
proof -
  let ?resp = "\<lambda>s m. \<lparr>aer_term = Node_current_term n', aer_follower_id = Node_id n', aer_success = s,
    aer_match_index = m, aer_sequence = ae_sequence r\<rparr>"
  show ?thesis
  proof (cases rule: handle_append_entries_cases [of r n l])
    case stale
    with assms(3) show ?thesis
      by (intro exI [of _ "?resp False 0"]) (auto simp: reject_append_entries_def append_entries_response_def)
  next
    case (mismatch m outs')
    with assms(3) follow_leader_frame [of n l "ae_term r"] show ?thesis
      by (intro exI [of _ "?resp False 0"])
        (auto simp: reject_append_entries_def append_entries_response_def same_log_def)
  next
    case (accepted m outs' m1 outs1 m2 outs2)
    from accepted_outcome [OF assms(1,2) accepted(2-5)] accepted(1,6) assms(3) show ?thesis
      by (intro exI [of _ "?resp True (ae_prev_log_index r + length (ae_entries r))"])
        (auto simp: accept_append_entries_def append_entries_response_def request_match_index_def max_def)
  qed
qed

definition sample_append :: AppendEntries where
  "sample_append = \<lparr>ae_term = 3, ae_leader_id = 2, ae_prev_log_index = 2, ae_prev_log_term = 1,
     ae_sequence = 9, ae_entries = [noop_entry 3, application_entry 3 [1]], ae_leader_commit = 3\<rparr>"

theorem append_entries_outcome_witness:
  "\<exists>n' outs resp. handle_append_entries 2 sample_append sample_follower = (n', outs) \<and>
     last outs = Send 2 (AppendEntriesResponseMsg resp) \<and> aer_sequence resp = 9"
proof -
  obtain n' outs where h: "handle_append_entries 2 sample_append sample_follower = (n', outs)" by fastforce
  have "\<forall>e\<in>set (ae_entries sample_append). entry_wf e" by (simp add: sample_append_def entry_wf_def)
  from append_entries_outcome [OF sample_follower_inv this h] h show ?thesis
    by (auto simp: sample_append_def)
qed

text \<open>
  one membership change at a time on the follower's side. An accepted append that writes a
  configuration of the current term above the commit floor of its frame leaves exactly that one
  configuration entry above the floor.
\<close>

theorem append_keeps_single_configuration:
  assumes "node_inv n" "term_at n prev = Some t" "splice_entries_after prev es floor n = (n', Inr outs)"
    and "scan_divergence n prev 0 es = Inr (Some (i, index))"
    and "e \<in> set (incoming_configurations index floor (drop i es))" "entry_term e = Node_current_term n"
  shows "length (ci_indexes_after (derived n') (LogIndex_next (snapshot_index n')) floor) = 1"
  using assms by (rule splice_single_configuration)

definition sample_configuration :: LogEntry where
  "sample_configuration = configuration_log_entry 2 (StableEntry 1 \<lparr>voters = [1, 2, 3], learners = [4]\<rparr>)"

theorem append_keeps_single_configuration_witness:
  "\<exists>n' outs. splice_entries_after 4 [sample_configuration] 2 sample_follower = (n', Inr outs) \<and>
     length (ci_indexes_after (derived n') (LogIndex_next (snapshot_index n')) 2) = 1"
proof -
  have scan: "scan_divergence sample_follower 4 0 [sample_configuration] = Inr (Some (0, 5))"
    by (simp add: sample_term_at)
  have "\<exists>n' outs. splice_entries_after 4 [sample_configuration] 2 sample_follower = (n', Inr outs)"
    using scan
    by (simp add: splice_entries_after_def incoming_configurations_def ci_count_between_def
        sample_configuration_def) (simp add: sample_follower_def)
  then obtain n' outs where sp: "splice_entries_after 4 [sample_configuration] 2 sample_follower = (n', Inr outs)"
    by blast
  have "sample_configuration \<in> set (incoming_configurations 5 2 (drop 0 [sample_configuration]))"
    by (simp add: incoming_configurations_def sample_configuration_def)
  from append_keeps_single_configuration [OF sample_follower_inv _ sp scan this] sp show ?thesis
    by (simp add: sample_term_at) (simp add: sample_follower_def sample_configuration_def)
qed

end
