(* ===== verification/Snapshot_Receive.thy ===== *)
theory Snapshot_Receive
  imports Commit
begin

text \<open>
  Receiving snapshots: \<open>node/replication/snapshot/{reply,validate,transfer}.rs\<close> and
  \<open>receive/{mod,disposition,chunk,whole}.rs\<close>. A chunk is classified against the transfer in
  progress, staged when it continues it, and the last chunk installs the snapshot.
\<close>

section \<open>Replies\<close>

record SnapshotProgress =
  sp_last_included_index :: LogIndex
  sp_transfer_id :: "SnapshotTransferId option"
  sp_next_offset :: u64

datatype SnapshotReply = AcceptedReply SnapshotProgress | RejectedReply SnapshotProgress

definition SnapshotProgress_current :: "LogIndex \<Rightarrow> SnapshotProgress" where
  "SnapshotProgress_current index = \<lparr>sp_last_included_index = index, sp_transfer_id = None, sp_next_offset = 0\<rparr>"

definition SnapshotProgress_transfer :: "LogIndex \<Rightarrow> SnapshotTransferId \<Rightarrow> u64 \<Rightarrow> SnapshotProgress" where
  "SnapshotProgress_transfer index tid next_offset =
     \<lparr>sp_last_included_index = index, sp_transfer_id = Some tid, sp_next_offset = next_offset\<rparr>"

definition accepted_transfer :: "LogIndex \<Rightarrow> SnapshotTransferId \<Rightarrow> u64 \<Rightarrow> SnapshotReply" where
  "accepted_transfer index tid next_offset = AcceptedReply (SnapshotProgress_transfer index tid next_offset)"

definition rejected_current :: "LogIndex \<Rightarrow> SnapshotReply" where
  "rejected_current index = RejectedReply (SnapshotProgress_current index)"

definition rejected_transfer :: "LogIndex \<Rightarrow> SnapshotTransferId \<Rightarrow> u64 \<Rightarrow> SnapshotReply" where
  "rejected_transfer index tid next_offset = RejectedReply (SnapshotProgress_transfer index tid next_offset)"

definition into_response :: "SnapshotReply \<Rightarrow> Term \<Rightarrow> NodeId \<Rightarrow> InstallSnapshotResponse" where
  "into_response reply trm follower_id =
     (let (success, p) = (case reply of AcceptedReply p \<Rightarrow> (True, p) | RejectedReply p \<Rightarrow> (False, p))
      in \<lparr>isr_term = trm, isr_follower_id = follower_id, isr_success = success,
          isr_last_included_index = sp_last_included_index p, isr_transfer_id = sp_transfer_id p,
          isr_next_offset = sp_next_offset p\<rparr>)"

definition snapshot_reply :: "Node \<Rightarrow> NodeId \<Rightarrow> SnapshotReply \<Rightarrow> Output" where
  "snapshot_reply n leader_id reply =
     Send leader_id (InstallSnapshotResponseMsg (into_response reply (Node_current_term n) (Node_id n)))"

section \<open>Validation\<close>

datatype SnapshotTransferHeaderRejection = InvalidMetadata | HeaderLeaderNotAuthorized

datatype SnapshotChunkRejection =
    StaleTerm
  | WrongTransfer
  | MetadataMismatch
  | ChunkLeaderNotAuthorized
  | OutOfOrderOffset
  | InvalidBounds

definition valid_snapshot_author :: "Node \<Rightarrow> RaftSnapshotMetadata \<Rightarrow> bool" where
  "valid_snapshot_author n m =
     (case meta_committed_membership m of
        None \<Rightarrow> contains_replica (static_membership (config n)) (writer_id m)
      | Some membership \<Rightarrow> contains_replica membership (writer_id m))"

definition valid_snapshot_metadata :: "Node \<Rightarrow> RaftSnapshotMetadata \<Rightarrow> Term \<Rightarrow> bool" where
  "valid_snapshot_metadata n m trm \<longleftrightarrow> hard_state_term m \<le> trm \<and> valid_snapshot_author n m"

definition valid_snapshot_transfer_leader :: "Node \<Rightarrow> NodeId \<Rightarrow> RaftSnapshotMetadata \<Rightarrow> bool" where
  "valid_snapshot_transfer_leader n leader_id m \<longleftrightarrow>
     (case meta_committed_membership m of
        None \<Rightarrow> False
      | Some membership \<Rightarrow> contains_replica membership leader_id) \<or>
     contains_replica (effective_membership n) leader_id"

definition validate_snapshot_transfer_header ::
    "Node \<Rightarrow> NodeId \<Rightarrow> RaftSnapshotMetadata \<Rightarrow> Term \<Rightarrow> SnapshotTransferHeaderRejection + unit" where
  "validate_snapshot_transfer_header n leader_id m trm =
     (if \<not> valid_snapshot_metadata n m trm then Inl InvalidMetadata
      else if \<not> valid_snapshot_transfer_leader n leader_id m then Inl HeaderLeaderNotAuthorized
      else Inr ())"

definition validate_snapshot_chunk_shape :: "InstallSnapshotChunk \<Rightarrow> SnapshotChunkRejection + unit" where
  "validate_snapshot_chunk_shape r =
     (let chunk_len = length (isc_chunk r) in
      case checked_add (isc_offset r) chunk_len of
        None \<Rightarrow> Inl InvalidBounds
      | Some end_offset \<Rightarrow>
          if isc_offset r > isc_total_payload_len r \<or> end_offset > isc_total_payload_len r then Inl InvalidBounds
          else if isc_done r then
            (if end_offset = isc_total_payload_len r then Inr () else Inl InvalidBounds)
          else if chunk_len > 0 \<and> end_offset < isc_total_payload_len r then Inr ()
          else Inl InvalidBounds)"

definition validate_install_snapshot_chunk_header ::
    "Node \<Rightarrow> NodeId \<Rightarrow> InstallSnapshotChunk \<Rightarrow> SnapshotChunkRejection + unit" where
  "validate_install_snapshot_chunk_header n leader_id r =
     (case validate_snapshot_transfer_header n leader_id (isc_metadata r) (isc_term r) of
        Inl InvalidMetadata \<Rightarrow> Inl MetadataMismatch
      | Inl HeaderLeaderNotAuthorized \<Rightarrow> Inl ChunkLeaderNotAuthorized
      | Inr _ \<Rightarrow>
          if isc_transfer_id r \<noteq> snapshot_transfer_id_from_parts (isc_metadata r)
               (isc_total_payload_len r) (isc_application_payload_crc32 r)
          then Inl WrongTransfer
          else validate_snapshot_chunk_shape r)"

fun count_rejection :: "SnapshotChunkRejection \<Rightarrow> SnapshotChunkRejectionCounters \<Rightarrow> SnapshotChunkRejectionCounters" where
  "count_rejection StaleTerm c = c\<lparr>stale_term := stale_term c + 1\<rparr>"
| "count_rejection WrongTransfer c = c\<lparr>wrong_transfer := wrong_transfer c + 1\<rparr>"
| "count_rejection MetadataMismatch c = c\<lparr>metadata_mismatch := metadata_mismatch c + 1\<rparr>"
| "count_rejection ChunkLeaderNotAuthorized c = c\<lparr>metadata_mismatch := metadata_mismatch c + 1\<rparr>"
| "count_rejection OutOfOrderOffset c = c\<lparr>out_of_order_offset := out_of_order_offset c + 1\<rparr>"
| "count_rejection InvalidBounds c = c\<lparr>invalid_bounds := invalid_bounds c + 1\<rparr>"

definition record_snapshot_chunk_rejection :: "SnapshotChunkRejection \<Rightarrow> Node \<Rightarrow> Node" where
  "record_snapshot_chunk_rejection rejection n =
     map_volatile (\<lambda>v. v\<lparr>snapshot_chunk_rejections :=
       count_rejection rejection (snapshot_chunk_rejections v)\<rparr>) n"

section \<open>The transfer in progress\<close>

datatype PendingSnapshotTransferResumeError =
    ResumeLeaderNotAuthorized NodeId
  | ReceivedPayloadTooLong u64 u64
  | TransferIdMismatch SnapshotTransferId SnapshotTransferId
  | ResumeInvalidMetadata
  | StaleSnapshot LogIndex LogIndex
  | CompleteTransferNotInstalled LogIndex

definition pending_snapshot_transfer :: "Node \<Rightarrow> PendingSnapshotTransfer option" where
  "pending_snapshot_transfer n = map_option ist_to_pending (incoming_snapshot (volatile n))"

definition resume_pending_snapshot_transfer ::
    "PendingSnapshotTransfer \<Rightarrow> Node \<Rightarrow> Node \<times> (PendingSnapshotTransferResumeError + unit)" where
  "resume_pending_snapshot_transfer t n =
     (let received = pst_received_len t in
      if received > pst_total_payload_len t
      then (n, Inl (ReceivedPayloadTooLong received (pst_total_payload_len t)))
      else
        let expected = snapshot_transfer_id_from_parts (pst_metadata t) (pst_total_payload_len t)
              (pst_application_payload_crc32 t)
        in if pst_transfer_id t \<noteq> expected then (n, Inl (TransferIdMismatch expected (pst_transfer_id t)))
           else case validate_snapshot_transfer_header n (pst_leader_id t) (pst_metadata t) (Node_current_term n) of
             Inl InvalidMetadata \<Rightarrow> (n, Inl ResumeInvalidMetadata)
           | Inl HeaderLeaderNotAuthorized \<Rightarrow> (n, Inl (ResumeLeaderNotAuthorized (pst_leader_id t)))
           | Inr _ \<Rightarrow>
               if last_included_index (pst_metadata t) \<le> snapshot_index n
               then (n, Inl (StaleSnapshot (snapshot_index n) (last_included_index (pst_metadata t))))
               else if pst_is_complete t
               then (n, Inl (CompleteTransferNotInstalled (last_included_index (pst_metadata t))))
               else (map_volatile (\<lambda>v. v\<lparr>incoming_snapshot := Some (ist_from_pending t)\<rparr>) n, Inr ()))"

definition adopt_snapshot_term :: "Term \<Rightarrow> Node \<Rightarrow> Node \<times> Output list" where
  "adopt_snapshot_term trm n =
     (if trm > Node_current_term n \<or> Node_role n \<noteq> Follower then become_follower trm n else (n, []))"

definition record_accepted_snapshot_leader :: "NodeId \<Rightarrow> Node \<Rightarrow> Node" where
  "record_accepted_snapshot_leader leader_id n =
     map_volatile (\<lambda>v. v\<lparr>leader_hint := Some leader_id\<rparr>) (map_election reset_timeout n)"

definition snapshot_covered_through :: "Node \<Rightarrow> LogIndex" where
  "snapshot_covered_through n = max (snapshot_index n) (Node_commit_index n)"

datatype ChunkDisposition =
    AlreadyCovered LogIndex
  | Retransmission u64
  | OutOfOrder u64
  | AcceptChunk u64

definition replace_or_reject_snapshot_transfer ::
    "NodeId \<Rightarrow> InstallSnapshotChunk \<Rightarrow> Node \<Rightarrow> Node \<times> (SnapshotChunkRejection + unit)" where
  "replace_or_reject_snapshot_transfer leader_id r n =
     (if isc_offset r = 0
      then (map_volatile (\<lambda>v. v\<lparr>incoming_snapshot := Some (IncomingSnapshotTransfer_new leader_id
              (isc_transfer_id r) (isc_metadata r) (isc_total_payload_len r)
              (isc_application_payload_crc32 r))\<rparr>) n, Inr ())
      else case incoming_snapshot (volatile n) of
        None \<Rightarrow> (n, Inl OutOfOrderOffset)
      | Some t \<Rightarrow>
          if ist_leader_id t \<noteq> leader_id \<or> ist_transfer_id t \<noteq> isc_transfer_id r
          then (n, Inl WrongTransfer) else (n, Inl MetadataMismatch))"

definition transfer_matches :: "NodeId \<Rightarrow> InstallSnapshotChunk \<Rightarrow> IncomingSnapshotTransfer \<Rightarrow> bool" where
  "transfer_matches leader_id r t \<longleftrightarrow>
     ist_leader_id t = leader_id \<and> ist_transfer_id t = isc_transfer_id r \<and> ist_metadata t = isc_metadata r \<and>
     ist_total_payload_len t = isc_total_payload_len r \<and>
     ist_application_payload_crc32 t = isc_application_payload_crc32 r"

definition prepare_incoming_snapshot_transfer ::
    "NodeId \<Rightarrow> InstallSnapshotChunk \<Rightarrow> Node \<Rightarrow> Node \<times> (SnapshotChunkRejection + u64)" where
  "prepare_incoming_snapshot_transfer leader_id r n =
     (let current_matches = (case incoming_snapshot (volatile n) of
            None \<Rightarrow> False | Some t \<Rightarrow> transfer_matches leader_id r t);
          (n, res) = (if \<not> current_matches then replace_or_reject_snapshot_transfer leader_id r n else (n, Inr ()))
      in case res of
           Inl rejection \<Rightarrow> (n, Inl rejection)
         | Inr _ \<Rightarrow>
             (case incoming_snapshot (volatile n) of
                None \<Rightarrow> (n, Inl WrongTransfer)
              | Some t \<Rightarrow> (n, Inr (ist_received_len t))))"

definition classify_snapshot_chunk ::
    "NodeId \<Rightarrow> InstallSnapshotChunk \<Rightarrow> Node \<Rightarrow> Node \<times> (SnapshotChunkRejection + ChunkDisposition)" where
  "classify_snapshot_chunk leader_id r n =
     (let covered_through = snapshot_covered_through n in
      if last_included_index (isc_metadata r) \<le> covered_through then (n, Inr (AlreadyCovered covered_through))
      else case prepare_incoming_snapshot_transfer leader_id r n of
        (n, Inl rejection) \<Rightarrow> (n, Inl rejection)
      | (n, Inr expected_offset) \<Rightarrow>
          (n, Inr (if isc_offset r < expected_offset then Retransmission expected_offset
                   else if isc_offset r > expected_offset then OutOfOrder expected_offset
                   else AcceptChunk expected_offset)))"

section \<open>Chunks\<close>

definition stage_snapshot_chunk :: "NodeId \<Rightarrow> InstallSnapshotChunk \<Rightarrow> Output" where
  "stage_snapshot_chunk leader_id r =
     StageSnapshotChunk \<lparr>ssc_leader_id = leader_id, ssc_transfer_id = isc_transfer_id r,
       ssc_metadata = isc_metadata r, ssc_total_payload_len = isc_total_payload_len r,
       ssc_application_payload_crc32 = isc_application_payload_crc32 r, ssc_offset = isc_offset r,
       ssc_bytes = isc_chunk r, ssc_done = isc_done r\<rparr>"

definition reject_missing_snapshot_transfer ::
    "NodeId \<Rightarrow> SnapshotTransferId \<Rightarrow> u64 \<Rightarrow> Node \<Rightarrow> Node \<times> Output list" where
  "reject_missing_snapshot_transfer leader_id tid next_offset n =
     (let n = record_snapshot_chunk_rejection WrongTransfer n
      in (n, [snapshot_reply n leader_id (rejected_transfer (snapshot_index n) tid next_offset)]))"

definition install_final_snapshot_chunk ::
    "NodeId \<Rightarrow> InstallSnapshotChunk \<Rightarrow> u64 \<Rightarrow> u64 \<Rightarrow> Node \<Rightarrow> Node \<times> Output list" where
  "install_final_snapshot_chunk leader_id r received_len next_offset n =
     (case incoming_snapshot (volatile n) of
        None \<Rightarrow> reject_missing_snapshot_transfer leader_id (isc_transfer_id r) received_len n
      | Some t \<Rightarrow>
          let n = map_volatile (\<lambda>v. v\<lparr>incoming_snapshot := None\<rparr>) n;
              snap = \<lparr>metadata = ist_metadata t, application_payload_len = isc_total_payload_len r,
                      application_payload_crc32 = isc_application_payload_crc32 r\<rparr>;
              index = last_included_index (metadata snap);
              (n, outputs) = install_snapshot_state snap n
          in (n, outputs @ [stage_snapshot_chunk leader_id r, ApplySnapshot snap,
                snapshot_reply n leader_id (accepted_transfer index (isc_transfer_id r) next_offset)]))"

definition accept_current_snapshot_chunk ::
    "NodeId \<Rightarrow> InstallSnapshotChunk \<Rightarrow> u64 \<Rightarrow> Node \<Rightarrow> Node \<times> Output list" where
  "accept_current_snapshot_chunk leader_id r received_len n =
     (let next_offset = received_len + length (isc_chunk r) in
      if isc_done r \<and> next_offset \<noteq> isc_total_payload_len r
      then let n = record_snapshot_chunk_rejection InvalidBounds n
           in (n, [snapshot_reply n leader_id (rejected_transfer (snapshot_index n) (isc_transfer_id r) received_len)])
      else if isc_done r then install_final_snapshot_chunk leader_id r received_len next_offset n
      else case incoming_snapshot (volatile n) of
        None \<Rightarrow> reject_missing_snapshot_transfer leader_id (isc_transfer_id r) received_len n
      | Some t \<Rightarrow>
          let n = map_volatile (\<lambda>v. v\<lparr>incoming_snapshot := Some (t\<lparr>ist_received_len := next_offset\<rparr>)\<rparr>) n
          in (n, [stage_snapshot_chunk leader_id r,
                snapshot_reply n leader_id (accepted_transfer (snapshot_index n) (ist_transfer_id t) next_offset)]))"

definition acknowledge_covered_snapshot_chunk ::
    "NodeId \<Rightarrow> InstallSnapshotChunk \<Rightarrow> LogIndex \<Rightarrow> Node \<Rightarrow> Node \<times> Output list" where
  "acknowledge_covered_snapshot_chunk leader_id r covered_through n =
     (let n = (if (case incoming_snapshot (volatile n) of None \<Rightarrow> False
                   | Some t \<Rightarrow> ist_transfer_id t = isc_transfer_id r)
               then map_volatile (\<lambda>v. v\<lparr>incoming_snapshot := None\<rparr>) n else n)
      in (n, [snapshot_reply n leader_id
               (accepted_transfer covered_through (isc_transfer_id r) (isc_total_payload_len r))]))"

definition dispose_snapshot_chunk ::
    "NodeId \<Rightarrow> InstallSnapshotChunk \<Rightarrow> ChunkDisposition \<Rightarrow> Node \<Rightarrow> Node \<times> Output list" where
  "dispose_snapshot_chunk leader_id r disposition n =
     (case disposition of
        AlreadyCovered covered_through \<Rightarrow> acknowledge_covered_snapshot_chunk leader_id r covered_through n
      | Retransmission next_offset \<Rightarrow>
          (n, [snapshot_reply n leader_id (accepted_transfer (snapshot_index n) (isc_transfer_id r) next_offset)])
      | OutOfOrder expected_offset \<Rightarrow>
          let n = record_snapshot_chunk_rejection OutOfOrderOffset n
          in (n, [snapshot_reply n leader_id
                   (rejected_transfer (snapshot_index n) (isc_transfer_id r) expected_offset)])
      | AcceptChunk received_len \<Rightarrow> accept_current_snapshot_chunk leader_id r received_len n)"

definition handle_install_snapshot_chunk :: "NodeId \<Rightarrow> InstallSnapshotChunk \<Rightarrow> Node \<Rightarrow> Node \<times> Output list" where
  "handle_install_snapshot_chunk leader_id r n =
     (if isc_term r < Node_current_term n
      then let n = record_snapshot_chunk_rejection StaleTerm n
           in (n, [snapshot_reply n leader_id (rejected_current (snapshot_index n))])
      else
        let (n, outputs) = adopt_snapshot_term (isc_term r) n
        in case validate_install_snapshot_chunk_header n leader_id r of
             Inl rejection \<Rightarrow>
               let n = record_snapshot_chunk_rejection rejection n
               in (n, outputs @ [snapshot_reply n leader_id (rejected_current (snapshot_index n))])
           | Inr _ \<Rightarrow>
               let n = record_accepted_snapshot_leader leader_id n
               in case classify_snapshot_chunk leader_id r n of
                    (n, Inl rejection) \<Rightarrow>
                      let n = record_snapshot_chunk_rejection rejection n
                      in (n, outputs @ [snapshot_reply n leader_id
                               (rejected_transfer (snapshot_index n) (isc_transfer_id r) 0)])
                  | (n, Inr disposition) \<Rightarrow>
                      let (n, more) = dispose_snapshot_chunk leader_id r disposition n
                      in (n, outputs @ more))"

section \<open>Whole snapshots\<close>

definition install_whole_snapshot :: "NodeId \<Rightarrow> RaftSnapshot \<Rightarrow> byte list \<Rightarrow> Node \<Rightarrow> Node \<times> Output list" where
  "install_whole_snapshot leader_id snap payload n =
     (let tid = RaftSnapshot_transfer_id snap;
          index = last_included_index (metadata snap);
          total_payload_len = application_payload_len snap;
          (n, outputs) = install_snapshot_state snap n
      in (n, outputs @
            [StageSnapshotChunk \<lparr>ssc_leader_id = leader_id, ssc_transfer_id = tid,
               ssc_metadata = metadata snap, ssc_total_payload_len = total_payload_len,
               ssc_application_payload_crc32 = application_payload_crc32 snap, ssc_offset = 0,
               ssc_bytes = payload, ssc_done = True\<rparr>,
             ApplySnapshot snap,
             snapshot_reply n leader_id (accepted_transfer index tid total_payload_len)]))"

definition handle_install_snapshot :: "NodeId \<Rightarrow> InstallSnapshot \<Rightarrow> Node \<Rightarrow> Node \<times> Output list" where
  "handle_install_snapshot leader_id r n =
     (if is_term r < Node_current_term n
      then (n, [snapshot_reply n leader_id (rejected_current (snapshot_index n))])
      else
        let (n, outputs) = adopt_snapshot_term (is_term r) n;
            snap = RaftSnapshot_from_payload (is_metadata r) (is_application_payload r)
        in case validate_snapshot_transfer_header n leader_id (metadata snap) (is_term r) of
             Inl _ \<Rightarrow> (n, outputs @ [snapshot_reply n leader_id (rejected_current (snapshot_index n))])
           | Inr _ \<Rightarrow>
               let n = record_accepted_snapshot_leader leader_id n;
                   n = map_volatile (\<lambda>v. v\<lparr>incoming_snapshot := None\<rparr>) n;
                   covered_through = snapshot_covered_through n
               in if last_included_index (metadata snap) \<le> covered_through
                  then (n, outputs @ [snapshot_reply n leader_id (accepted_transfer covered_through
                          (RaftSnapshot_transfer_id snap) (application_payload_len snap))])
                  else let (n, more) = install_whole_snapshot leader_id snap (is_application_payload r) n
                       in (n, outputs @ more))"

section \<open>Changes that leave replicated state alone\<close>

definition soft :: "Node \<Rightarrow> Node \<Rightarrow> bool" where
  "soft n n' \<longleftrightarrow> config n' = config n \<and> persistent n' = persistent n \<and> derived n' = derived n \<and>
     Node_commit_index n' = Node_commit_index n \<and> Node_dispatched_index n' = Node_dispatched_index n \<and>
     local_proposals (volatile n') = local_proposals (volatile n) \<and> Node_role n' = Node_role n \<and>
     leader n' = leader n"

lemma soft_refl [simp]: "soft n n"
  by (simp add: soft_def)

lemma soft_trans: "soft a b \<Longrightarrow> soft b c \<Longrightarrow> soft a c"
  by (simp add: soft_def)

lemma soft_same_log: "soft n n' \<Longrightarrow> same_log n n'"
  by (simp add: soft_def same_log_def)

lemma good_soft: "node_inv n \<Longrightarrow> soft n n' \<Longrightarrow> good n n'"
  by (rule good_same_log) (auto simp: soft_def same_log_def node_inv_def)

lemma good_step_soft: "node_inv n \<Longrightarrow> soft n n' \<Longrightarrow> applies outs = [] \<Longrightarrow> good_step n (n', outs)"
  by (rule good_step_quiet) (auto simp: good_soft, simp add: soft_def)

lemma soft_incoming [simp]: "soft n (n\<lparr>volatile := (volatile n)\<lparr>incoming_snapshot := x\<rparr>\<rparr>)"
  by (simp add: soft_def)

lemma soft_record_rejection [simp]: "soft n (record_snapshot_chunk_rejection r n)"
  by (simp add: soft_def record_snapshot_chunk_rejection_def)

lemma soft_record_leader [simp]: "soft n (record_accepted_snapshot_leader l n)"
  by (simp add: soft_def record_accepted_snapshot_leader_def)

lemma soft_prepare: "soft n (fst (prepare_incoming_snapshot_transfer l r n))"
  by (auto simp: prepare_incoming_snapshot_transfer_def replace_or_reject_snapshot_transfer_def Let_def
      case_prod_unfold split: option.split sum.split)

lemma soft_classify: "soft n (fst (classify_snapshot_chunk l r n))"
  using soft_prepare [of n l r]
  by (auto simp: classify_snapshot_chunk_def Let_def split: prod.split sum.split)

lemma applied_entry_snapshot_reply [simp]: "applied_entry (snapshot_reply n l r) = None"
  by (simp add: snapshot_reply_def)

lemma applied_entry_stage [simp]: "applied_entry (stage_snapshot_chunk l r) = None"
  by (simp add: stage_snapshot_chunk_def)

lemma incoming_record_rejection [simp]:
  "incoming_snapshot (volatile (record_snapshot_chunk_rejection r n)) = incoming_snapshot (volatile n)"
  "incoming_snapshot (volatile (record_accepted_snapshot_leader l n)) = incoming_snapshot (volatile n)"
  by (simp_all add: record_snapshot_chunk_rejection_def record_accepted_snapshot_leader_def)

section \<open>Installing\<close>

lemma install_outputs:
  "out \<in> set (snd (install_snapshot_state_with_committed_configuration snap cc n)) \<Longrightarrow>
   \<exists>p i t. out = LocalProposalDropped p i t LogOverwritten"
  using fold_reconcile_step_outputs [where acc = "([], [])"]
  by (fastforce simp: install_snapshot_state_with_committed_configuration_def replace_log_def
      reconcile_local_proposals_def Let_def case_prod_unfold)

lemma applies_install: "applies (snd (install_snapshot_state_with_committed_configuration snap cc n)) = []"
  by (rule applies_quiet) (auto dest!: install_outputs)

lemma good_step_install:
  assumes "node_inv n" "metadata_wf (metadata snap)"
    and "snapshot_covered_through n < last_included_index (metadata snap)"
  shows "good_step n (install_snapshot_state snap n)"
proof -
  let ?b = "last_included_index (metadata snap)"
  let ?r = "install_snapshot_state_with_committed_configuration snap (meta_committed_configuration_state (metadata snap)) n"
  have b: "snapshot_index n \<le> ?b" "Node_commit_index n \<le> ?b"
    using assms(3) by (simp_all add: snapshot_covered_through_def)
  have "good n (fst ?r)"
    using good_install_snapshot_with [OF assms(1,2) b(1)] b(2) by blast
  moreover have "Node_dispatched_index (fst ?r) \<le> snapshot_index (fst ?r)"
  proof -
    have "Node_dispatched_index n \<le> ?b" using assms(1) b(2) by (simp add: node_inv_def geometry_ok_def)
    then show ?thesis
      using install_snapshot_state_with_eq [of snap "meta_committed_configuration_state (metadata snap)" n]
      by (auto simp: snapshot_index_def)
  qed
  then have "emits n (fst ?r) (snd ?r)" by (intro emits_snapshot applies_install)
  ultimately show ?thesis by (simp add: good_step_def install_snapshot_state_def)
qed

lemma prepare_accepts:
  assumes "prepare_incoming_snapshot_transfer l r n = (n', Inr off)"
  shows "\<exists>t. incoming_snapshot (volatile n') = Some t \<and> transfer_matches l r t \<and> ist_received_len t = off \<and>
    (incoming_snapshot (volatile n) = Some t \<or> off = 0 \<and> isc_offset r = 0)"
  using assms
  by (auto simp: prepare_incoming_snapshot_transfer_def replace_or_reject_snapshot_transfer_def Let_def
      transfer_matches_def IncomingSnapshotTransfer_new_def split: option.splits if_splits)

lemma classify_accepts:
  assumes "classify_snapshot_chunk l r n = (n', Inr (AcceptChunk off))"
  shows "isc_offset r = off \<and> snapshot_covered_through n < last_included_index (isc_metadata r) \<and>
    (\<exists>t. incoming_snapshot (volatile n') = Some t \<and> transfer_matches l r t \<and> ist_received_len t = off \<and>
      (incoming_snapshot (volatile n) = Some t \<or> off = 0))"
proof -
  have "prepare_incoming_snapshot_transfer l r n = (n', Inr off)" "isc_offset r = off"
      "snapshot_covered_through n < last_included_index (isc_metadata r)"
    using assms by (auto simp: classify_snapshot_chunk_def Let_def split: if_splits prod.splits sum.splits)
  with prepare_accepts [OF this(1)] show ?thesis by blast
qed

lemma covered_soft: "soft n n' \<Longrightarrow> snapshot_covered_through n' = snapshot_covered_through n"
  using same_log_snapshot_index [OF soft_same_log, of n n'] by (simp add: snapshot_covered_through_def soft_def)

lemma good_step_final_chunk:
  assumes "node_inv n" "incoming_snapshot (volatile n) = Some t" "metadata_wf (ist_metadata t)"
    and "snapshot_covered_through n < last_included_index (ist_metadata t)"
  shows "good_step n (install_final_snapshot_chunk l r a b n)"
proof -
  let ?n = "map_volatile (\<lambda>v. v\<lparr>incoming_snapshot := None\<rparr>) n"
  let ?snap = "\<lparr>metadata = ist_metadata t, application_payload_len = isc_total_payload_len r,
    application_payload_crc32 = isc_application_payload_crc32 r\<rparr>"
  have soft: "soft n ?n" by simp
  have g: "good_step n (?n, [])" using assms(1) soft by (rule good_step_soft) simp
  have "good_step ?n (install_snapshot_state ?snap ?n)"
    using good_step_install [OF good_step_inv [OF g], of ?snap] assms(3,4) covered_soft [OF soft] by simp
  with good_step_trans [OF g] have "good_step n (install_snapshot_state ?snap ?n)"
    by (metis append_Nil prod.collapse)
  then show ?thesis
    using assms(2) unfolding install_final_snapshot_chunk_def Let_def
    by (auto simp: case_prod_unfold applies_Cons intro!: good_step_append_quiet)
qed

lemma good_step_accept_chunk:
  assumes "node_inv n" "incoming_snapshot (volatile n) = Some t" "metadata_wf (ist_metadata t)"
    and "snapshot_covered_through n < last_included_index (ist_metadata t)"
  shows "good_step n (accept_current_snapshot_chunk l r off n)"
  using good_step_final_chunk [OF assms] assms(1,2)
  by (auto simp: accept_current_snapshot_chunk_def Let_def applies_Cons intro!: good_step_soft)

lemma good_step_acknowledge_covered: "node_inv n \<Longrightarrow> good_step n (acknowledge_covered_snapshot_chunk l r c n)"
  by (auto simp: acknowledge_covered_snapshot_chunk_def Let_def applies_Cons intro!: good_step_soft)

lemma good_step_adopt: "node_inv n \<Longrightarrow> good_step n (adopt_snapshot_term trm n)"
  by (simp add: adopt_snapshot_term_def good_step_become_follower good_step_refl)

lemma good_step_dispose:
  assumes "node_inv n" "metadata_wf (isc_metadata r)" "classify_snapshot_chunk l r n = (n1, Inr d)"
  shows "good_step n1 (dispose_snapshot_chunk l r d n1)"
proof -
  have soft: "soft n n1" using soft_classify [of n l r] assms(3) by simp
  have inv: "node_inv n1" using good_inv [OF good_soft [OF assms(1) soft]] .
  show ?thesis
  proof (cases d)
    case (AcceptChunk off)
    with classify_accepts [of l r n n1 off] assms(3)
    obtain t where t: "incoming_snapshot (volatile n1) = Some t" "transfer_matches l r t"
        "snapshot_covered_through n < last_included_index (isc_metadata r)" by blast
    then have "metadata_wf (ist_metadata t)" "snapshot_covered_through n1 < last_included_index (ist_metadata t)"
      using assms(2) covered_soft [OF soft] by (simp_all add: transfer_matches_def)
    with good_step_accept_chunk [OF inv t(1)] AcceptChunk show ?thesis by (simp add: dispose_snapshot_chunk_def)
  qed (use inv in \<open>auto simp: dispose_snapshot_chunk_def Let_def applies_Cons
      intro!: good_step_soft good_step_acknowledge_covered\<close>)
qed

lemma good_step_then_soft:
  assumes "good_step n (m, outs)" "soft m m'" "applies extra = []"
  shows "good_step n (m', outs @ extra)"
  using good_step_trans [OF assms(1) good_step_soft [OF good_step_inv [OF assms(1)] assms(2,3)]] .

lemma good_step_handle_install_snapshot_chunk:
  assumes "node_inv n" "metadata_wf (isc_metadata r)"
  shows "good_step n (handle_install_snapshot_chunk l r n)"
proof (cases "isc_term r < Node_current_term n")
  case True
  with assms(1) show ?thesis
    by (simp add: handle_install_snapshot_chunk_def Let_def good_step_soft applies_Cons)
next
  case False
  obtain m outs where a: "adopt_snapshot_term (isc_term r) n = (m, outs)" by fastforce
  have g: "good_step n (m, outs)" using good_step_adopt [OF assms(1)] a by metis
  let ?m = "record_accepted_snapshot_leader l m"
  obtain m1 res where c: "classify_snapshot_chunk l r ?m = (m1, res)" by fastforce
  have s1: "soft m m1" using soft_trans [OF soft_record_leader [of m l] soft_classify [of _ l r]] c by simp
  have inv: "node_inv ?m" using good_inv [OF good_soft [OF good_step_inv [OF g] soft_record_leader]] .
  have g1: "good_step n (m1, outs)" using good_step_then_soft [OF g s1, of "[]"] by simp
  show ?thesis
  proof (cases "validate_install_snapshot_chunk_header m l r")
    case (Inl why)
    with False a good_step_then_soft [OF g soft_record_rejection] show ?thesis
      by (simp add: handle_install_snapshot_chunk_def Let_def applies_Cons)
  next
    case (Inr u)
    show ?thesis
    proof (cases res)
      case (Inl why)
      with False a Inr c good_step_then_soft [OF g1 soft_record_rejection] show ?thesis
        by (simp add: handle_install_snapshot_chunk_def Let_def applies_Cons)
    next
      case (Inr d)
      obtain m2 extra where d: "dispose_snapshot_chunk l r d m1 = (m2, extra)" by fastforce
      have "good_step m1 (m2, extra)" using good_step_dispose [OF inv assms(2)] c Inr d by metis
      with good_step_trans [OF g1] have "good_step n (m2, outs @ extra)" by blast
      with False a Inr c d \<open>validate_install_snapshot_chunk_header m l r = Inr u\<close> show ?thesis
        by (simp add: handle_install_snapshot_chunk_def Let_def)
    qed
  qed
qed

lemma good_step_handle_install_snapshot:
  assumes "node_inv n" "metadata_wf (is_metadata r)"
  shows "good_step n (handle_install_snapshot l r n)"
proof (cases "is_term r < Node_current_term n")
  case True
  with assms(1) show ?thesis by (simp add: handle_install_snapshot_def good_step_soft applies_Cons)
next
  case False
  let ?snap = "RaftSnapshot_from_payload (is_metadata r) (is_application_payload r)"
  have meta: "metadata ?snap = is_metadata r" by (simp add: RaftSnapshot_from_payload_def)
  obtain m outs where a: "adopt_snapshot_term (is_term r) n = (m, outs)" by fastforce
  have g: "good_step n (m, outs)" using good_step_adopt [OF assms(1)] a by metis
  let ?m = "map_volatile (\<lambda>v. v\<lparr>incoming_snapshot := None\<rparr>) (record_accepted_snapshot_leader l m)"
  have s: "soft m ?m" using soft_trans [OF soft_record_leader soft_incoming] by blast
  have g1: "good_step n (?m, outs)" using good_step_then_soft [OF g s, of "[]"] by simp
  let ?i = "install_snapshot_state ?snap ?m"
  let ?more = "[StageSnapshotChunk \<lparr>ssc_leader_id = l, ssc_transfer_id = RaftSnapshot_transfer_id ?snap,
      ssc_metadata = metadata ?snap, ssc_total_payload_len = application_payload_len ?snap,
      ssc_application_payload_crc32 = application_payload_crc32 ?snap, ssc_offset = 0,
      ssc_bytes = is_application_payload r, ssc_done = True\<rparr>, ApplySnapshot ?snap,
      snapshot_reply (fst ?i) l (accepted_transfer (last_included_index (metadata ?snap))
        (RaftSnapshot_transfer_id ?snap) (application_payload_len ?snap))]"
  have "good_step n (fst ?i, outs @ snd ?i @ ?more)"
    if "snapshot_covered_through ?m < last_included_index (metadata ?snap)"
  proof -
    have "good_step ?m (fst ?i, snd ?i)"
      using good_step_install [OF good_step_inv [OF g1] _ that] assms(2) meta by simp
    then have "good_step ?m (fst ?i, snd ?i @ ?more)" by (rule good_step_append_quiet) (simp add: applies_Cons)
    with good_step_trans [OF g1] show ?thesis by blast
  qed
  with False a g g1 good_step_then_soft [OF g soft_refl] good_step_then_soft [OF g s] show ?thesis
    unfolding handle_install_snapshot_def install_whole_snapshot_def Let_def
    by (auto simp: applies_Cons case_prod_unfold not_le split: sum.split)
qed

lemma good_resume_pending_snapshot_transfer:
  "node_inv n \<Longrightarrow> good n (fst (resume_pending_snapshot_transfer t n))"
  by (auto simp: resume_pending_snapshot_transfer_def Let_def good_refl good_soft split: sum.split
      SnapshotTransferHeaderRejection.split)

section \<open>Outcomes of a chunk\<close>

text \<open>Outputs that neither stage nor apply a snapshot.\<close>

fun snapshot_output :: "Output \<Rightarrow> bool" where
  "snapshot_output (StageSnapshotChunk c) = True"
| "snapshot_output (ApplySnapshot snap) = True"
| "snapshot_output _ = False"

definition no_snapshot :: "Output list \<Rightarrow> bool" where
  "no_snapshot outs \<longleftrightarrow> (\<forall>x\<in>set outs. \<not> snapshot_output x)"

lemma no_snapshot_append [simp]: "no_snapshot (xs @ ys) \<longleftrightarrow> no_snapshot xs \<and> no_snapshot ys"
  by (auto simp: no_snapshot_def)

lemma no_snapshot_reply [simp]: "no_snapshot [snapshot_reply n l r]"
  by (simp add: no_snapshot_def snapshot_reply_def)

lemma no_snapshot_install: "no_snapshot (snd (install_snapshot_state snap n))"
  using install_outputs by (fastforce simp: no_snapshot_def install_snapshot_state_def)

lemma no_snapshot_adopt: "no_snapshot (snd (adopt_snapshot_term trm n))"
  by (auto simp: adopt_snapshot_term_def no_snapshot_def become_follower_outputs dropped_outputs_def
      canceled_outputs_def)

lemma install_snapshot_state_frame:
  "incoming_snapshot (volatile (fst (install_snapshot_state snap n))) = incoming_snapshot (volatile n) \<and>
   Node_snapshot (fst (install_snapshot_state snap n)) = Some snap"
  using install_snapshot_state_with_eq [of snap "meta_committed_configuration_state (metadata snap)" n]
  by (auto simp: install_snapshot_state_def)

lemma valid_chunk_shape:
  "validate_install_snapshot_chunk_header n l r = Inr u \<Longrightarrow>
   isc_offset r + length (isc_chunk r) \<le> isc_total_payload_len r \<and>
   (isc_done r \<longleftrightarrow> isc_offset r + length (isc_chunk r) = isc_total_payload_len r)"
  by (auto simp: validate_install_snapshot_chunk_header_def validate_snapshot_chunk_shape_def Let_def
      checked_add_Some_iff split: sum.splits SnapshotTransferHeaderRejection.splits if_splits option.splits)

lemma prepare_rejects: "prepare_incoming_snapshot_transfer l r n = (n', Inl why) \<Longrightarrow> n' = n"
  by (auto simp: prepare_incoming_snapshot_transfer_def replace_or_reject_snapshot_transfer_def Let_def
      split: option.splits if_splits)

text \<open>A chunk that is not accepted leaves the transfer in progress as it was.\<close>

lemma classify_not_accepted:
  assumes "classify_snapshot_chunk l r n = (n', res)" "\<And>off. res \<noteq> Inr (AcceptChunk off)"
  shows "incoming_snapshot (volatile n') = incoming_snapshot (volatile n)"
proof (cases "last_included_index (isc_metadata r) \<le> snapshot_covered_through n")
  case True
  with assms(1) show ?thesis by (simp add: classify_snapshot_chunk_def Let_def)
next
  case False
  obtain m p where p: "prepare_incoming_snapshot_transfer l r n = (m, p)" by fastforce
  have m: "m = n'" using assms(1) False p by (simp add: classify_snapshot_chunk_def Let_def split: sum.splits)
  show ?thesis
  proof (cases p)
    case (Inl why)
    with p m prepare_rejects show ?thesis by metis
  next
    case (Inr off)
    have "res = Inr (AcceptChunk off)" if "isc_offset r = off"
      using that assms(1) False p Inr by (simp add: classify_snapshot_chunk_def Let_def)
    with assms(2) have "isc_offset r \<noteq> off" by blast
    with prepare_accepts [of l r n m off] p Inr m show ?thesis by auto
  qed
qed

section \<open>Resuming a transfer\<close>

text \<open>
  A persisted transfer resumes where it stopped. Resuming what a node reports as its transfer in
  progress restores exactly that transfer on any node whose term, membership and snapshot boundary
  still admit it and whose identity matches its contents, and an error leaves the node unchanged.
\<close>

lemma pending_transfer_resumes:
  "(\<forall>e. snd (resume_pending_snapshot_transfer p n) = Inl e \<longrightarrow> fst (resume_pending_snapshot_transfer p n) = n) \<and>
   (snd (resume_pending_snapshot_transfer p n) = Inr () \<longrightarrow>
      pending_snapshot_transfer (fst (resume_pending_snapshot_transfer p n)) = Some p \<and>
      pst_received_len p < pst_total_payload_len p \<and> snapshot_index n < last_included_index (pst_metadata p) \<and>
      pst_transfer_id p = snapshot_transfer_id_from_parts (pst_metadata p) (pst_total_payload_len p)
        (pst_application_payload_crc32 p) \<and>
      hard_state_term (pst_metadata p) \<le> Node_current_term n)"
  by (auto simp: resume_pending_snapshot_transfer_def pending_snapshot_transfer_def Let_def pst_is_complete_def
      ist_to_pending_def ist_from_pending_def validate_snapshot_transfer_header_def valid_snapshot_metadata_def
      split: sum.splits SnapshotTransferHeaderRejection.splits if_splits)

definition sample_pending :: PendingSnapshotTransfer where
  "sample_pending =
     (let m = \<lparr>group_id = ''g'', writer_id = 2, last_included_index = 6, last_included_term = 2,
            hard_state_term = 2, application = \<lparr>app_kind = ''k'', app_version = 1\<rparr>,
            meta_committed_configuration = None\<rparr>
      in \<lparr>pst_leader_id = 2, pst_transfer_id = snapshot_transfer_id_from_parts m 4 0, pst_metadata = m,
          pst_total_payload_len = 4, pst_application_payload_crc32 = 0, pst_received_len = 2\<rparr>)"

lemma pending_transfer_resumes_witness:
  "pending_snapshot_transfer (fst (resume_pending_snapshot_transfer sample_pending sample_follower)) =
     Some sample_pending"
proof -
  have "config sample_follower = sample_config" "Node_current_term sample_follower = 2"
    by (simp_all add: sample_follower_def)
  then have "snd (resume_pending_snapshot_transfer sample_pending sample_follower) = Inr ()"
    by (simp add: resume_pending_snapshot_transfer_def sample_pending_def Let_def pst_is_complete_def
        validate_snapshot_transfer_header_def valid_snapshot_metadata_def valid_snapshot_author_def
        valid_snapshot_transfer_leader_def meta_committed_membership_def sample_membership contains_replica_def)
  with pending_transfer_resumes [of sample_pending sample_follower] show ?thesis by blast
qed

end
