(* ===== verification/Proposal.thy ===== *)
theory Proposal
  imports Replication_Send
begin

text \<open>
  Client proposals: \<open>node/replication/proposal.rs\<close>. A single proposal and a batch share the
  append of one accepted payload and the step that records, commits and replicates what was
  appended.
\<close>

section \<open>Operations\<close>

definition proposal_preflight_rejection :: "Node \<Rightarrow> ClientProposalInput \<Rightarrow> Output option" where
  "proposal_preflight_rejection n p =
     (if Node_role n \<noteq> Leader
      then Some (RejectProposal (cpi_proposal_id p)
             (NotLeader (Node_role n) (Node_current_term n) (length (cpi_payload p))))
      else map_option (\<lambda>transfer. RejectProposal (cpi_proposal_id p)
             (LeadershipTransferInProgress (transfer_target transfer))) (pending_transfer (leader n)))"

definition proposal_batch_preflight_rejection :: "Node \<Rightarrow> ClientProposalInput list \<Rightarrow> Output list option" where
  "proposal_batch_preflight_rejection n ps =
     (if Node_role n \<noteq> Leader
      then Some (map (\<lambda>p. RejectProposal (cpi_proposal_id p)
             (NotLeader (Node_role n) (Node_current_term n) (length (cpi_payload p)))) ps)
      else case pending_transfer (leader n) of
        Some transfer \<Rightarrow> Some (map (\<lambda>p. RejectProposal (cpi_proposal_id p)
             (LeadershipTransferInProgress (transfer_target transfer))) ps)
      | None \<Rightarrow> None)"

definition payload_fits :: "Node \<Rightarrow> ClientProposalInput \<Rightarrow> bool" where
  "payload_fits n p \<longleftrightarrow>
     \<not> application_replication_bytes (length (cpi_payload p)) > max_append_entries_bytes (config n)"

definition reject_too_large :: "Node \<Rightarrow> ClientProposalInput \<Rightarrow> Output" where
  "reject_too_large n p = RejectProposal (cpi_proposal_id p)
     (PayloadTooLarge (length (cpi_payload p)) (max_application_payload_len (max_append_entries_bytes (config n))))"

definition append_proposal :: "LogIndex \<Rightarrow> ClientProposalInput \<Rightarrow> Node \<Rightarrow> Node \<times> Output list" where
  "append_proposal index p n =
     (let trm = Node_current_term n;
          n = append_log_entry (application_entry trm (cpi_payload p)) n
      in case cpi_proposal_id p of
           None \<Rightarrow> (n, [])
         | Some pid \<Rightarrow>
             (map_volatile (\<lambda>v. v\<lparr>local_proposals :=
                tracker_insert (local_proposals v) index \<lparr>lp_term = trm, lp_id = pid\<rparr>\<rparr>) n,
              [LocalProposalAppended pid index trm]))"

definition replicate_appended :: "ReplicationDemand \<Rightarrow> Node \<Rightarrow> Node \<times> Output list" where
  "replicate_appended demand n =
     (let n = record_local_progress n;
          (n, outputs) = advance_commit_index n
      in if Node_role n = Leader
         then let (n, more) = broadcast_replication demand n in (n, outputs @ more)
         else (n, outputs))"

definition step_client_proposal :: "ClientProposalInput \<Rightarrow> Node \<Rightarrow> Node \<times> Output list" where
  "step_client_proposal p n =
     (case proposal_preflight_rejection n p of
        Some rejection \<Rightarrow> (n, [rejection])
      | None \<Rightarrow>
          if \<not> payload_fits n p then (n, [reject_too_large n p])
          else let (n, outputs) = append_proposal (LogIndex_next (last_log_index n)) p n;
                   (n, more) = replicate_appended ProgressOnly n
               in (n, outputs @ more))"

fun append_proposals ::
    "LogIndex \<Rightarrow> ClientProposalInput list \<Rightarrow> Node \<Rightarrow> Node \<times> Output list \<times> bool" where
  "append_proposals next_idx [] n = (n, [], False)"
| "append_proposals next_idx (p # ps) n =
     (if \<not> payload_fits n p
      then let (n', outputs, accepted) = append_proposals next_idx ps n
           in (n', reject_too_large n p # outputs, accepted)
      else let (n, outputs) = append_proposal next_idx p n;
               (n, more, _) = append_proposals (LogIndex_next next_idx) ps n
           in (n, outputs @ more, True))"

definition step_proposal_batch :: "ClientProposalInput list \<Rightarrow> Node \<Rightarrow> Node \<times> Output list" where
  "step_proposal_batch ps n =
     (case ps of
        [] \<Rightarrow> (n, [])
      | [p] \<Rightarrow> step_client_proposal p n
      | _ \<Rightarrow>
          (case proposal_batch_preflight_rejection n ps of
             Some rejection \<Rightarrow> (n, rejection)
           | None \<Rightarrow>
               let (n, outputs, accepted) = append_proposals (LogIndex_next (last_log_index n)) ps n
               in if \<not> accepted then (n, outputs)
                  else let (n, more) = replicate_appended ProgressOnly n in (n, outputs @ more)))"

section \<open>Good steps\<close>

lemma good_step_append_proposal:
  assumes "node_inv n"
  shows "good_step n (append_proposal i p n)"
proof -
  let ?e = "application_entry (Node_current_term n) (cpi_payload p)"
  let ?m = "append_log_entry ?e n"
  have m: "good n ?m" using assms by (rule good_append_log_entry) (simp add: entry_wf_def)
  show ?thesis
  proof (cases "cpi_proposal_id p")
    case None
    have "good_step n (?m, [])" using m by (rule good_step_quiet) (simp_all add: frame_simps)
    with None show ?thesis by (simp add: append_proposal_def)
  next
    case (Some pid)
    let ?n = "map_volatile (\<lambda>v. v\<lparr>local_proposals := tracker_insert (local_proposals v) i
        \<lparr>lp_term = Node_current_term n, lp_id = pid\<rparr>\<rparr>) ?m"
    have "tracker_wf (local_proposals (volatile n))" using assms by (simp add: node_inv_def)
    then have "tracker_wf (local_proposals (volatile ?n))"
      using tracker_insert_spec by (simp add: frame_simps)
    then have "good ?m ?n" using good_inv [OF m] by (intro good_same_log) (simp_all add: same_log_def)
    then have "good_step n (?n, [LocalProposalAppended pid i (Node_current_term n)])"
      using good_trans [OF m] by (intro good_step_quiet) (simp_all add: frame_simps applies_Cons)
    with Some show ?thesis by (simp add: append_proposal_def Let_def)
  qed
qed

lemma record_local_progress_leader_only: "leader_only n (record_local_progress n, [])"
  using record_local_progress_leader [of n] by (auto simp: leader_only_def)

lemma good_step_replicate_appended:
  assumes "node_inv n"
  shows "good_step n (replicate_appended d n)"
proof -
  let ?m = "record_local_progress n"
  have m: "good_step n (?m, [])" using assms record_local_progress_leader_only by (rule good_step_leader_only)
  obtain n1 o1 where a: "advance_commit_index ?m = (n1, o1)" by fastforce
  have "good_step ?m (n1, o1)" using good_step_advance_commit_index [OF good_step_inv [OF m]] a by metis
  with good_step_trans [OF m] have g: "good_step n (n1, o1)" by fastforce
  obtain n2 o2 where b: "broadcast_replication d n1 = (n2, o2)" by fastforce
  have "good_step n1 (n2, o2)"
    using good_step_leader_only [OF good_step_inv [OF g] broadcast_replication_leader_only [of n1 d]] b by metis
  from good_step_trans [OF g this] g a b show ?thesis by (simp add: replicate_appended_def)
qed

lemma preflight_quiet:
  "proposal_preflight_rejection n p = Some r \<Longrightarrow> applied_entry r = None"
  "proposal_batch_preflight_rejection n ps = Some rs \<Longrightarrow> applies rs = []"
  by (auto simp: proposal_preflight_rejection_def proposal_batch_preflight_rejection_def
      intro!: applies_quiet split: if_splits option.splits)

lemma good_step_step_client_proposal:
  assumes "node_inv n"
  shows "good_step n (step_client_proposal p n)"
proof -
  let ?a = "append_proposal (LogIndex_next (last_log_index n)) p n"
  obtain n1 o1 where a: "?a = (n1, o1)" by fastforce
  obtain n2 o2 where r: "replicate_appended ProgressOnly n1 = (n2, o2)" by fastforce
  have g: "good_step n (n1, o1)" using good_step_append_proposal [OF assms] a by metis
  have "good_step n1 (n2, o2)" using good_step_replicate_appended [OF good_step_inv [OF g]] r by metis
  from good_step_trans [OF g this] assms a r show ?thesis
    by (auto simp: step_client_proposal_def reject_too_large_def applies_Cons preflight_quiet
        intro!: good_step_refl split: option.split)
qed

lemma good_step_append_proposals:
  "node_inv n \<Longrightarrow> append_proposals i ps n = (n', outs, accepted) \<Longrightarrow> good_step n (n', outs)"
proof (induction ps arbitrary: i n n' outs accepted)
  case Nil
  then show ?case by (simp add: good_step_refl)
next
  case (Cons p ps)
  show ?case
  proof (cases "payload_fits n p")
    case True
    obtain n1 o1 where a: "append_proposal i p n = (n1, o1)" by fastforce
    obtain n2 o2 b where r: "append_proposals (LogIndex_next i) ps n1 = (n2, o2, b)"
      by (cases "append_proposals (LogIndex_next i) ps n1") auto
    have g: "good_step n (n1, o1)" using good_step_append_proposal [OF Cons.prems(1)] a by metis
    from good_step_trans [OF g Cons.IH [OF good_step_inv [OF g] r]] Cons.prems(2) True a r show ?thesis by simp
  next
    case False
    obtain n2 o2 b where r: "append_proposals i ps n = (n2, o2, b)"
      by (cases "append_proposals i ps n") auto
    have "good_step n (n2, reject_too_large n p # o2)"
      using Cons.IH [OF Cons.prems(1) r] by (rule good_step_Cons) (simp add: reject_too_large_def)
    with Cons.prems(2) False r show ?thesis by simp
  qed
qed

lemma step_batch_cases: obtains "ps = []" | p where "ps = [p]" | p q r where "ps = p # q # r"
  by (metis list.exhaust)

lemma good_step_step_proposal_batch:
  assumes "node_inv n"
  shows "good_step n (step_proposal_batch ps n)"
proof -
  obtain n1 o1 b where a: "append_proposals (LogIndex_next (last_log_index n)) ps n = (n1, o1, b)"
    by (cases "append_proposals (LogIndex_next (last_log_index n)) ps n") auto
  obtain n2 o2 where r: "replicate_appended ProgressOnly n1 = (n2, o2)" by fastforce
  have g: "good_step n (n1, o1)" using assms a by (rule good_step_append_proposals)
  have "good_step n1 (n2, o2)" using good_step_replicate_appended [OF good_step_inv [OF g]] r by metis
  note g2 = good_step_trans [OF g this]
  have "good_step n (case proposal_batch_preflight_rejection n ps of Some rejection \<Rightarrow> (n, rejection)
      | None \<Rightarrow> let (n, outputs, accepted) = append_proposals (LogIndex_next (last_log_index n)) ps n
         in if \<not> accepted then (n, outputs)
            else let (n, more) = replicate_appended ProgressOnly n in (n, outputs @ more))"
    using g g2 a r assms by (auto simp: preflight_quiet intro!: good_step_refl split: option.split)
  then show ?thesis
    using good_step_step_client_proposal [OF assms] assms
    by (cases ps rule: step_batch_cases) (simp_all add: step_proposal_batch_def good_step_refl cong: option.case_cong)
qed

section \<open>What proposals append\<close>

abbreviation proposal_entry :: "Node \<Rightarrow> ClientProposalInput \<Rightarrow> LogEntry" where
  "proposal_entry n p \<equiv> application_entry (Node_current_term n) (cpi_payload p)"

lemma append_proposal_frame:
  "Node_log (fst (append_proposal i p n)) = Node_log n @ [proposal_entry n p] \<and>
   Node_current_term (fst (append_proposal i p n)) = Node_current_term n \<and>
   config (fst (append_proposal i p n)) = config n"
  by (simp add: append_proposal_def Let_def frame_simps split: option.split)

lemma append_proposals_log:
  assumes "append_proposals i ps n = (n', outs, accepted)"
  shows "Node_log n' = Node_log n @ map (proposal_entry n) (filter (payload_fits n) ps) \<and>
    (accepted \<longleftrightarrow> (\<exists>p\<in>set ps. payload_fits n p)) \<and>
    (\<forall>p\<in>set ps. payload_fits n p \<or> reject_too_large n p \<in> set outs) \<and>
    (\<forall>j pid. j < length (filter (payload_fits n) ps) \<longrightarrow> cpi_proposal_id (filter (payload_fits n) ps ! j) = Some pid \<longrightarrow>
       LocalProposalAppended pid (i + j) (Node_current_term n) \<in> set outs)"
  using assms
proof (induction ps arbitrary: i n n' outs accepted)
  case (Cons p ps)
  show ?case
  proof (cases "payload_fits n p")
    case True
    obtain n1 o1 where a: "append_proposal i p n = (n1, o1)" by fastforce
    obtain n2 o2 b where r: "append_proposals (LogIndex_next i) ps n1 = (n2, o2, b)"
      by (cases "append_proposals (LogIndex_next i) ps n1") auto
    note f = append_proposal_frame [of i p n, unfolded a fst_conv]
    have same: "payload_fits n1 = payload_fits n" "reject_too_large n1 = reject_too_large n"
      "Node_current_term n1 = Node_current_term n"
      using f by (auto simp: payload_fits_def reject_too_large_def fun_eq_iff)
    note ih = Cons.IH [OF r, unfolded same]
    have eq: "n' = n2" "outs = o1 @ o2" "accepted" using Cons.prems True a r by simp_all
    have "LocalProposalAppended pid (i + j) (Node_current_term n) \<in> set outs"
      if "j < length (filter (payload_fits n) (p # ps))"
        "cpi_proposal_id (filter (payload_fits n) (p # ps) ! j) = Some pid" for j pid
    proof (cases j)
      case 0
      with that True a show ?thesis by (auto simp: eq append_proposal_def Let_def)
    next
      case (Suc k)
      with that True ih have "LocalProposalAppended pid (LogIndex_next i + k) (Node_current_term n) \<in> set o2" by auto
      with Suc show ?thesis by (simp add: eq)
    qed
    with ih f True show ?thesis by (auto simp: eq)
  next
    case False
    obtain n2 o2 b where r: "append_proposals i ps n = (n2, o2, b)"
      by (cases "append_proposals i ps n") auto
    with Cons.prems False have "n' = n2" "outs = reject_too_large n p # o2" "accepted = b" by simp_all
    with Cons.IH [OF r] False show ?thesis by auto
  qed
qed simp

lemma advance_commit_index_same_log: "same_log n (fst (advance_commit_index n))"
proof -
  let ?r = "reconcile_replication_progress n"
  have r: "same_log n ?r" by (simp add: same_log_def frame_simps)
  have "same_log n (fst (emit_committed_outputs (map_volatile (\<lambda>v. v\<lparr>commit_index := c\<rparr>) ?r)))" for c
    using emit_committed_outputs_frame [of "map_volatile (\<lambda>v. v\<lparr>commit_index := c\<rparr>) ?r"] r
    by (auto simp: same_log_def)
  with r show ?thesis by (simp add: advance_commit_index_def Let_def split: option.split)
qed

lemma same_log_trans: "same_log a b \<Longrightarrow> same_log b c \<Longrightarrow> same_log a c"
  by (simp add: same_log_def)

lemma replicate_appended_same_log: "same_log n (fst (replicate_appended d n))"
proof -
  let ?m = "record_local_progress n"
  have "same_log n ?m" using leader_only_same_log [OF record_local_progress_leader_only] by simp
  then have "same_log n (fst (advance_commit_index ?m))"
    using advance_commit_index_same_log by (rule same_log_trans)
  then show ?thesis
    using same_log_trans leader_only_same_log [OF broadcast_replication_leader_only]
    by (auto simp: replicate_appended_def Let_def case_prod_unfold)
qed

lemma step_proposal_batch_leader:
  assumes "Node_role n = Leader" "pending_transfer (leader n) = None"
  shows "\<exists>n1 o1 accepted. append_proposals (LogIndex_next (last_log_index n)) ps n = (n1, o1, accepted) \<and>
    same_log n1 (fst (step_proposal_batch ps n)) \<and> set o1 \<subseteq> set (snd (step_proposal_batch ps n))"
proof (cases ps rule: step_batch_cases)
  case 1
  then show ?thesis by (auto simp: step_proposal_batch_def)
next
  case (2 p)
  have "\<exists>n1 o1. append_proposal (LogIndex_next (last_log_index n)) p n = (n1, o1)" by fastforce
  with 2 assms replicate_appended_same_log show ?thesis
    by (auto simp: step_proposal_batch_def step_client_proposal_def proposal_preflight_rejection_def
        case_prod_unfold Let_def)
next
  case (3 p q r)
  obtain n1 o1 b where a: "append_proposals (LogIndex_next (last_log_index n)) ps n = (n1, o1, b)"
    by (cases "append_proposals (LogIndex_next (last_log_index n)) ps n") auto
  have "step_proposal_batch ps n = (let (n, outputs, accepted) = append_proposals (LogIndex_next (last_log_index n)) ps n
      in if \<not> accepted then (n, outputs)
         else let (n, more) = replicate_appended ProgressOnly n in (n, outputs @ more))"
    using 3 assms by (simp add: step_proposal_batch_def proposal_batch_preflight_rejection_def)
  with a replicate_appended_same_log show ?thesis by (auto simp: case_prod_unfold Let_def)
qed

section \<open>Properties\<close>

text \<open>
  C38: what a batch of proposals does. On a leader that is not handing over, it appends exactly the
  payloads that fit the append limit, in order, directly after the old log and with the current
  term; each tracked one is announced with the index its entry has, and each payload that does not
  fit is rejected as too large. Any other node appends nothing and rejects every proposal.
\<close>

theorem proposal_batch_outcome:
  "(Node_role n = Leader \<and> pending_transfer (leader n) = None \<longrightarrow>
     Node_log (fst (step_proposal_batch ps n)) =
       Node_log n @ map (proposal_entry n) (filter (payload_fits n) ps) \<and>
     (\<forall>p\<in>set ps. payload_fits n p \<or> reject_too_large n p \<in> set (snd (step_proposal_batch ps n))) \<and>
     (\<forall>j pid. j < length (filter (payload_fits n) ps) \<longrightarrow>
        cpi_proposal_id (filter (payload_fits n) ps ! j) = Some pid \<longrightarrow>
        LocalProposalAppended pid (last_log_index n + 1 + j) (Node_current_term n)
          \<in> set (snd (step_proposal_batch ps n)))) \<and>
   (Node_role n \<noteq> Leader \<or> pending_transfer (leader n) \<noteq> None \<longrightarrow>
     fst (step_proposal_batch ps n) = n \<and>
     map Some (snd (step_proposal_batch ps n)) = map (proposal_preflight_rejection n) ps)"
proof (intro conjI impI)
  assume "Node_role n = Leader \<and> pending_transfer (leader n) = None"
  then obtain n1 o1 accepted where a: "append_proposals (LogIndex_next (last_log_index n)) ps n = (n1, o1, accepted)"
      "same_log n1 (fst (step_proposal_batch ps n))" "set o1 \<subseteq> set (snd (step_proposal_batch ps n))"
    using step_proposal_batch_leader by blast
  note l = append_proposals_log [OF a(1)]
  show "Node_log (fst (step_proposal_batch ps n)) = Node_log n @ map (proposal_entry n) (filter (payload_fits n) ps)"
    using a(2) l by (simp add: same_log_def)
  show "\<forall>p\<in>set ps. payload_fits n p \<or> reject_too_large n p \<in> set (snd (step_proposal_batch ps n))"
    using a(3) l by blast
  show "\<forall>j pid. j < length (filter (payload_fits n) ps) \<longrightarrow>
      cpi_proposal_id (filter (payload_fits n) ps ! j) = Some pid \<longrightarrow>
      LocalProposalAppended pid (last_log_index n + 1 + j) (Node_current_term n) \<in> set (snd (step_proposal_batch ps n))"
    using a(3) l by auto
next
  assume no: "Node_role n \<noteq> Leader \<or> pending_transfer (leader n) \<noteq> None"
  then show "fst (step_proposal_batch ps n) = n"
    by (cases ps rule: step_batch_cases)
      (auto simp: step_proposal_batch_def step_client_proposal_def proposal_preflight_rejection_def
        proposal_batch_preflight_rejection_def)
  show "map Some (snd (step_proposal_batch ps n)) = map (proposal_preflight_rejection n) ps"
    using no by (cases ps rule: step_batch_cases)
      (auto simp: step_proposal_batch_def step_client_proposal_def proposal_preflight_rejection_def
        proposal_batch_preflight_rejection_def)
qed

theorem proposal_batch_outcome_witness:
  "Node_log (fst (step_proposal_batch [\<lparr>cpi_proposal_id = Some 5, cpi_payload = [1]\<rparr>,
     \<lparr>cpi_proposal_id = None, cpi_payload = [2, 3]\<rparr>] sample_leader)) =
   sample_log @ [application_entry 2 [1], application_entry 2 [2, 3]]"
proof -
  let ?p = "\<lparr>cpi_proposal_id = Some 5, cpi_payload = [1]\<rparr>" and ?q = "\<lparr>cpi_proposal_id = None, cpi_payload = [2, 3]\<rparr>"
  have fits: "payload_fits sample_leader ?p" "payload_fits sample_leader ?q"
    by (simp_all add: payload_fits_def application_replication_bytes_def sat_add_def u64_max_def sample_defs
        APPLICATION_LOG_ENTRY_REPLICATION_OVERHEAD_BYTES_def DEFAULT_MAX_APPEND_ENTRIES_BYTES_def)
  have f: "Node_role sample_leader = Leader" "pending_transfer (leader sample_leader) = None"
      "Node_current_term sample_leader = 2" "Node_log sample_leader = sample_log"
    by (simp_all add: sample_leader_def LeaderState_default_def) (simp_all add: sample_follower_def)
  with proposal_batch_outcome [of sample_leader "[?p, ?q]"] fits show ?thesis by simp
qed

end
