(* ===== verification/Membership_Change.thy ===== *)
theory Membership_Change
  imports Proposal
begin

text \<open>
  Membership changes on the leader: \<open>node/membership/{change,validate}.rs\<close>. Every change either
  rejects its request without touching the node or appends one configuration entry, and the new
  configuration's quorums meet those of the configuration it replaces.
\<close>

section \<open>Validation\<close>

definition validate_configuration_proposal_preflight :: "Node \<Rightarrow> ProposalRejection + unit" where
  "validate_configuration_proposal_preflight n =
     (if Node_role n \<noteq> Leader then Inl (NotLeader (Node_role n) (Node_current_term n) 0)
      else case pending_transfer (leader n) of
        Some transfer \<Rightarrow> Inl (LeadershipTransferInProgress (transfer_target transfer))
      | None \<Rightarrow>
          (case uncommitted_configuration_indexes n of
             index # _ \<Rightarrow> Inl (ConfigurationRejected (UncommittedConfiguration index))
           | [] \<Rightarrow> Inr ()))"

definition stable_effective_membership :: "Node \<Rightarrow> ConfigurationProposalRejection + MembershipSet" where
  "stable_effective_membership n =
     (case effective_membership n of
        StableMembership m \<Rightarrow> Inr m
      | JointMembershipConfig _ \<Rightarrow> Inl (StableConfigurationRequired JointPhase))"

definition next_configuration_id :: "Node \<Rightarrow> ConfigurationId" where
  "next_configuration_id n =
     (case effective_configuration_entry n of
        Some e \<Rightarrow> config_id e
      | None \<Rightarrow>
          (case committed_configuration_state_at n (Node_commit_index n) of
             Some state \<Rightarrow> cc_config_id state
           | None \<Rightarrow> 0)) + 1"

definition reject_configuration :: "ConfigurationProposalRejection \<Rightarrow> Output list" where
  "reject_configuration rejection = [RejectProposal None (ConfigurationRejected rejection)]"

definition reject_proposal :: "ProposalRejection \<Rightarrow> Output list" where
  "reject_proposal reason = [RejectProposal None reason]"

fun collect_barriers :: "(NodeId \<times> PromotionBarrier) list \<Rightarrow> PromotionBarrier list \<Rightarrow>
    ConfigurationProposalRejection + (NodeId \<times> PromotionBarrier) list" where
  "collect_barriers acc [] = Inr acc"
| "collect_barriers acc (b # bs) =
     (if map_of acc (pb_learner_id b) \<noteq> None then Inl (DuplicatePromotionBarrier (pb_learner_id b))
      else collect_barriers ((pb_learner_id b, b) # acc) bs)"

fun check_promotions :: "Node \<Rightarrow> (NodeId \<times> PromotionBarrier) list \<Rightarrow> NodeId list \<Rightarrow> NodeId list \<Rightarrow>
    ConfigurationProposalRejection + NodeId list" where
  "check_promotions n barriers used [] = Inr used"
| "check_promotions n barriers used (promoted # vs) =
     (if contains_voter (effective_membership n) promoted then check_promotions n barriers used vs
      else if \<not> contains_learner (effective_membership n) promoted then Inl (PromotionTargetNotLearner promoted)
      else case map_of barriers promoted of
        None \<Rightarrow> Inl (MissingPromotionBarrier promoted)
      | Some barrier \<Rightarrow>
          let used = btree_insert promoted used in
          if pb_required_match_index barrier \<noteq> Node_commit_index n
          then Inl (StalePromotionBarrier promoted (Node_commit_index n) (pb_required_match_index barrier))
          else
            let actual = match_of (progress (leader n)) promoted in
            if actual < pb_required_match_index barrier
            then Inl (PromotionBarrierNotReached promoted (pb_required_match_index barrier) actual)
            else check_promotions n barriers used vs)"

definition validate_configuration_promotion_barriers ::
    "Node \<Rightarrow> ConfigurationEntry \<Rightarrow> PromotionBarrier list \<Rightarrow> ConfigurationProposalRejection + unit" where
  "validate_configuration_promotion_barriers n configuration promotion_barriers =
     (case collect_barriers [] promotion_barriers of
        Inl rejection \<Rightarrow> Inl rejection
      | Inr barriers \<Rightarrow>
          (case configuration of
             StableEntry _ _ \<Rightarrow>
               (case promotion_barriers of
                  barrier # _ \<Rightarrow> Inl (UnusedPromotionBarrier (pb_learner_id barrier))
                | [] \<Rightarrow> Inr ())
           | JointEntry _ joint \<Rightarrow>
               (case check_promotions n barriers [] (voters (new_membership joint)) of
                  Inl rejection \<Rightarrow> Inl rejection
                | Inr used \<Rightarrow>
                    (case find (\<lambda>b. pb_learner_id b \<notin> set used) promotion_barriers of
                       Some barrier \<Rightarrow> Inl (UnusedPromotionBarrier (pb_learner_id barrier))
                     | None \<Rightarrow> Inr ()))))"

definition append_valid_configuration_proposal ::
    "ConfigurationEntry \<Rightarrow> PromotionBarrier list \<Rightarrow> Node \<Rightarrow> Node \<times> Output list" where
  "append_valid_configuration_proposal configuration promotion_barriers n =
     (case validate_configuration_promotion_barriers n configuration promotion_barriers of
        Inl rejection \<Rightarrow> (n, reject_configuration rejection)
      | Inr _ \<Rightarrow>
          replicate_appended EnsureContact
            (append_log_entry (configuration_log_entry (Node_current_term n) configuration) n))"

definition validated_derived_membership ::
    "MembershipValidationError + MembershipSet \<Rightarrow> ConfigurationProposalRejection + MembershipSet" where
  "validated_derived_membership res =
     (case res of Inl e \<Rightarrow> Inl (InvalidMembership e) | Inr m \<Rightarrow> Inr m)"

section \<open>Changes\<close>

definition add_learner :: "NodeId \<Rightarrow> Node \<Rightarrow> Node \<times> Output list" where
  "add_learner learner_id n =
     (case validate_configuration_proposal_preflight n of
        Inl rejection \<Rightarrow> (n, reject_proposal rejection)
      | Inr _ \<Rightarrow>
          (case stable_effective_membership n of
             Inl rejection \<Rightarrow> (n, reject_configuration rejection)
           | Inr current \<Rightarrow>
               if learner_id \<in> set (voters current) \<or> learner_id \<in> set (learners current)
               then (n, reject_configuration (NodeAlreadyMember learner_id))
               else case validated_derived_membership
                      (MembershipSet_new (voters current) (learners current @ [learner_id])) of
                 Inl rejection \<Rightarrow> (n, reject_configuration rejection)
               | Inr m \<Rightarrow>
                   append_valid_configuration_proposal (StableEntry (next_configuration_id n) m) [] n))"

definition promote_learner :: "NodeId \<Rightarrow> PromotionBarrier \<Rightarrow> Node \<Rightarrow> Node \<times> Output list" where
  "promote_learner learner_id barrier n =
     (case validate_configuration_proposal_preflight n of
        Inl rejection \<Rightarrow> (n, reject_proposal rejection)
      | Inr _ \<Rightarrow>
          (case stable_effective_membership n of
             Inl rejection \<Rightarrow> (n, reject_configuration rejection)
           | Inr current \<Rightarrow>
               if learner_id \<notin> set (learners current)
               then (n, reject_configuration (PromotionTargetNotLearner learner_id))
               else case validated_derived_membership
                      (MembershipSet_new (voters current @ [learner_id])
                        (filter (\<lambda>v. v \<noteq> learner_id) (learners current))) of
                 Inl rejection \<Rightarrow> (n, reject_configuration rejection)
               | Inr m \<Rightarrow>
                   append_valid_configuration_proposal
                     (JointEntry (next_configuration_id n) \<lparr>old_membership = current, new_membership = m\<rparr>)
                     [barrier] n))"

definition remove_voter :: "NodeId \<Rightarrow> Node \<Rightarrow> Node \<times> Output list" where
  "remove_voter voter_id n =
     (case validate_configuration_proposal_preflight n of
        Inl rejection \<Rightarrow> (n, reject_proposal rejection)
      | Inr _ \<Rightarrow>
          (case stable_effective_membership n of
             Inl rejection \<Rightarrow> (n, reject_configuration rejection)
           | Inr current \<Rightarrow>
               if voter_id \<notin> set (voters current) then (n, reject_configuration (VoterNotFound voter_id))
               else if length (voters current) = 1
               then (n, reject_configuration (CannotRemoveLastVoter voter_id))
               else case validated_derived_membership
                      (MembershipSet_new (filter (\<lambda>v. v \<noteq> voter_id) (voters current)) (learners current)) of
                 Inl rejection \<Rightarrow> (n, reject_configuration rejection)
               | Inr m \<Rightarrow>
                   append_valid_configuration_proposal
                     (JointEntry (next_configuration_id n) \<lparr>old_membership = current, new_membership = m\<rparr>) [] n))"

definition enter_joint :: "MembershipSet \<Rightarrow> PromotionBarrier list \<Rightarrow> Node \<Rightarrow> Node \<times> Output list" where
  "enter_joint target promotion_barriers n =
     (case validate_configuration_proposal_preflight n of
        Inl rejection \<Rightarrow> (n, reject_proposal rejection)
      | Inr _ \<Rightarrow>
          (case stable_effective_membership n of
             Inl rejection \<Rightarrow> (n, reject_configuration rejection)
           | Inr current \<Rightarrow>
               if target = current then (n, reject_configuration TargetMembershipUnchanged)
               else append_valid_configuration_proposal
                      (JointEntry (next_configuration_id n) \<lparr>old_membership = current, new_membership = target\<rparr>)
                      promotion_barriers n))"

definition leave_joint :: "Node \<Rightarrow> Node \<times> Output list" where
  "leave_joint n =
     (case validate_configuration_proposal_preflight n of
        Inl rejection \<Rightarrow> (n, reject_proposal rejection)
      | Inr _ \<Rightarrow>
          (case effective_membership n of
             StableMembership _ \<Rightarrow> (n, reject_configuration (JointConfigurationRequired StablePhase))
           | JointMembershipConfig joint \<Rightarrow>
               append_valid_configuration_proposal
                 (StableEntry (next_configuration_id n) (new_membership joint)) [] n))"

definition change_membership :: "MembershipSet \<Rightarrow> PromotionBarrier list \<Rightarrow> Node \<Rightarrow> Node \<times> Output list" where
  "change_membership target promotion_barriers n =
     (case validate_configuration_proposal_preflight n of
        Inl rejection \<Rightarrow> (n, reject_proposal rejection)
      | Inr _ \<Rightarrow>
          (case effective_membership n of
             StableMembership current \<Rightarrow>
               if target = current then (n, reject_configuration TargetMembershipUnchanged)
               else if voters target = voters current
               then append_valid_configuration_proposal (StableEntry (next_configuration_id n) target)
                      promotion_barriers n
               else append_valid_configuration_proposal
                      (JointEntry (next_configuration_id n) \<lparr>old_membership = current, new_membership = target\<rparr>)
                      promotion_barriers n
           | JointMembershipConfig joint \<Rightarrow>
               if target = new_membership joint
               then append_valid_configuration_proposal (StableEntry (next_configuration_id n) target)
                      promotion_barriers n
               else (n, reject_configuration TargetMembershipDoesNotMatchJointNewSide)))"

definition dangerous_raw_configuration_proposal ::
    "ConfigurationEntry \<Rightarrow> PromotionBarrier list \<Rightarrow> Node \<Rightarrow> Node \<times> Output list" where
  "dangerous_raw_configuration_proposal configuration promotion_barriers n =
     (case validate_configuration_proposal_preflight n of
        Inl rejection \<Rightarrow> (n, reject_proposal rejection)
      | Inr _ \<Rightarrow> append_valid_configuration_proposal configuration promotion_barriers n)"

section \<open>One contract for every change\<close>

text \<open>
  A change is refused without an effect, or it proposes one configuration on a leader without an
  uncommitted one, and the node is then what appending and replicating that entry makes of it.
\<close>

definition refused :: "Node \<Rightarrow> Node \<times> Output list \<Rightarrow> bool" where
  "refused n r \<longleftrightarrow> (\<exists>why. r = (n, [RejectProposal None why]))"

definition proposes :: "Node \<Rightarrow> ConfigurationEntry \<Rightarrow> Node \<times> Output list \<Rightarrow> bool" where
  "proposes n c r \<longleftrightarrow> Node_role n = Leader \<and> pending_transfer (leader n) = None \<and>
     uncommitted_configuration_indexes n = [] \<and>
     r = replicate_appended EnsureContact (append_log_entry (configuration_log_entry (Node_current_term n) c) n)"

definition safe_successor :: "MembershipConfig \<Rightarrow> MembershipConfig \<Rightarrow> bool" where
  "safe_successor m m' \<longleftrightarrow> (\<forall>xs ys. has_quorum m xs \<longrightarrow> has_quorum m' ys \<longrightarrow> (\<exists>v. v \<in> set xs \<and> v \<in> set ys))"

definition changes_membership :: "Node \<Rightarrow> Node \<times> Output list \<Rightarrow> bool" where
  "changes_membership n r \<longleftrightarrow> refused n r \<or>
     (\<exists>c. proposes n c r \<and> membership_wf (membership_config c) \<and>
       safe_successor (effective_membership n) (membership_config c) \<and>
       config_id c = next_configuration_id n)"

lemma refused_reject [simp]: "refused n (n, reject_configuration r)" "refused n (n, reject_proposal q)"
  by (simp_all add: refused_def reject_configuration_def reject_proposal_def)

lemma preflight_ok:
  "validate_configuration_proposal_preflight n = Inr u \<Longrightarrow>
   Node_role n = Leader \<and> pending_transfer (leader n) = None \<and> uncommitted_configuration_indexes n = []"
  by (auto simp: validate_configuration_proposal_preflight_def split: if_splits option.splits list.splits)

lemma append_valid_cases:
  assumes "validate_configuration_proposal_preflight n = Inr u"
  shows "refused n (append_valid_configuration_proposal c bs n) \<or>
    proposes n c (append_valid_configuration_proposal c bs n)"
  using preflight_ok [OF assms]
  by (auto simp: append_valid_configuration_proposal_def proposes_def split: sum.split)

lemma changes_append_valid:
  assumes "validate_configuration_proposal_preflight n = Inr u" "membership_wf (membership_config c)"
    and "safe_successor (effective_membership n) (membership_config c)" "config_id c = next_configuration_id n"
  shows "changes_membership n (append_valid_configuration_proposal c bs n)"
  using append_valid_cases [OF assms(1)] assms(2-4) unfolding changes_membership_def by blast

lemma changes_refused [simp]:
  "changes_membership n (n, reject_configuration r)" "changes_membership n (n, reject_proposal q)"
  by (simp_all add: changes_membership_def)

text \<open>Which successors are safe: the same voters, entering a joint configuration, and leaving one.\<close>

lemma safe_same_voters:
  assumes "membership_set_wf m" "voters m' = voters m"
  shows "safe_successor (StableMembership m) (StableMembership m')"
proof -
  have eq: "has_quorum (StableMembership m') ys = has_quorum (StableMembership m) ys" for ys
    unfolding has_quorum_voter_sets using assms(2) by simp
  have "membership_wf (StableMembership m)" using assms(1) by simp
  from has_quorum_meet [OF this] show ?thesis unfolding safe_successor_def eq by blast
qed

lemma safe_enter_joint:
  assumes "membership_set_wf m" "membership_set_wf m'"
  shows "safe_successor (StableMembership m) (JointMembershipConfig \<lparr>old_membership = m, new_membership = m'\<rparr>)"
  using joint_quorum_meets_old [of "\<lparr>old_membership = m, new_membership = m'\<rparr>"] assms
  unfolding safe_successor_def by fastforce

lemma safe_leave_joint:
  assumes "membership_wf (JointMembershipConfig j)"
  shows "safe_successor (JointMembershipConfig j) (StableMembership (new_membership j))"
proof -
  have "has_quorum (StableMembership (new_membership j)) xs" if "has_quorum (JointMembershipConfig j) xs" for xs
    using that by (simp add: has_quorum_voter_sets)
  with has_quorum_meet [of "StableMembership (new_membership j)"] assms show ?thesis
    by (fastforce simp: safe_successor_def)
qed

lemma stable_effective:
  "stable_effective_membership n = Inr m \<longleftrightarrow> effective_membership n = StableMembership m"
  by (auto simp: stable_effective_membership_def split: MembershipConfig.split)

lemma effective_wf: "node_inv n \<Longrightarrow> membership_wf (effective_membership n)"
  by (rule effective_membership_wf) (rule node_inv_sources)

lemma derived_membership_Inr: "validated_derived_membership r = Inr m \<longleftrightarrow> r = Inr m"
  by (simp add: validated_derived_membership_def split: sum.split)

lemma changes_add_learner:
  assumes "node_inv n"
  shows "changes_membership n (add_learner k n)"
proof -
  have *: "changes_membership n (append_valid_configuration_proposal (StableEntry (next_configuration_id n) m') [] n)"
    if "validate_configuration_proposal_preflight n = Inr u" "effective_membership n = StableMembership m"
      "MembershipSet_new (voters m) (learners m @ [k]) = Inr m'" for u m m'
  proof (rule changes_append_valid [OF that(1)])
    have wf: "membership_set_wf m" using effective_wf [OF assms] that(2) by simp
    then have "voters m' = voters m"
      using that(3) by (auto simp: MembershipSet_new_Inr membership_set_wf_def ordered_def sorted_sort_id)
    then show "safe_successor (effective_membership n) (membership_config (StableEntry (next_configuration_id n) m'))"
      using safe_same_voters [OF wf] that(2) by simp
    show "membership_wf (membership_config (StableEntry (next_configuration_id n) m'))"
      using MembershipSet_new_wf [OF that(3)] by simp
  qed simp
  show ?thesis
    unfolding add_learner_def using *
    by (auto simp: stable_effective derived_membership_Inr split: sum.split)
qed

lemma changes_enter:
  assumes "node_inv n" "validate_configuration_proposal_preflight n = Inr u"
    and "effective_membership n = StableMembership m" "membership_set_wf m'"
  shows "changes_membership n (append_valid_configuration_proposal
    (JointEntry (next_configuration_id n) \<lparr>old_membership = m, new_membership = m'\<rparr>) bs n)"
proof (rule changes_append_valid [OF assms(2)])
  have "membership_set_wf m" using effective_wf [OF assms(1)] assms(3) by simp
  with safe_enter_joint assms(3,4)
  show "safe_successor (effective_membership n) (membership_config
      (JointEntry (next_configuration_id n) \<lparr>old_membership = m, new_membership = m'\<rparr>))"
    and "membership_wf (membership_config
      (JointEntry (next_configuration_id n) \<lparr>old_membership = m, new_membership = m'\<rparr>))" by simp_all
qed simp

lemma changes_promote_learner: "node_inv n \<Longrightarrow> changes_membership n (promote_learner k b n)"
  unfolding promote_learner_def
  by (auto simp: stable_effective derived_membership_Inr intro!: changes_enter dest!: MembershipSet_new_wf
      split: sum.split)

lemma changes_remove_voter: "node_inv n \<Longrightarrow> changes_membership n (remove_voter k n)"
  unfolding remove_voter_def
  by (auto simp: stable_effective derived_membership_Inr intro!: changes_enter dest!: MembershipSet_new_wf
      split: sum.split)

lemma changes_enter_joint: "node_inv n \<Longrightarrow> membership_set_wf m \<Longrightarrow> changes_membership n (enter_joint m bs n)"
  unfolding enter_joint_def
  by (auto simp: stable_effective intro!: changes_enter split: sum.split)

lemma changes_leave:
  assumes "node_inv n" "validate_configuration_proposal_preflight n = Inr u"
    and "effective_membership n = JointMembershipConfig j"
  shows "changes_membership n (append_valid_configuration_proposal
    (StableEntry (next_configuration_id n) (new_membership j)) bs n)"
proof (rule changes_append_valid [OF assms(2)])
  have "membership_wf (JointMembershipConfig j)" using effective_wf [OF assms(1)] assms(3) by simp
  with safe_leave_joint [OF this] assms(3)
  show "safe_successor (effective_membership n)
      (membership_config (StableEntry (next_configuration_id n) (new_membership j)))"
    and "membership_wf (membership_config (StableEntry (next_configuration_id n) (new_membership j)))" by simp_all
qed simp

lemma changes_leave_joint: "node_inv n \<Longrightarrow> changes_membership n (leave_joint n)"
  unfolding leave_joint_def by (auto intro: changes_leave split: sum.split MembershipConfig.split)

lemma changes_change_membership:
  assumes "node_inv n" "membership_set_wf m"
  shows "changes_membership n (change_membership m bs n)"
proof -
  have same: "changes_membership n (append_valid_configuration_proposal (StableEntry (next_configuration_id n) m) bs n)"
    if "validate_configuration_proposal_preflight n = Inr u" "effective_membership n = StableMembership c"
      "voters m = voters c" for u c
    using that(2,3) assms(2) safe_same_voters [of c m] effective_wf [OF assms(1)]
    by (intro changes_append_valid [OF that(1)]) simp_all
  show ?thesis
    unfolding change_membership_def using same changes_enter [OF assms(1) _ _ assms(2)] changes_leave [OF assms(1)]
    by (auto split: sum.split MembershipConfig.split)
qed

section \<open>Good steps\<close>

lemma good_step_proposes:
  assumes "node_inv n" "proposes n c r" "membership_wf (membership_config c)"
  shows "good_step n r"
proof -
  let ?m = "append_log_entry (configuration_log_entry (Node_current_term n) c) n"
  have "good n ?m" using assms(1) by (rule good_append_log_entry) (simp add: entry_wf_def assms(3))
  then have m: "good_step n (?m, [])" by (rule good_step_quiet) (simp_all add: frame_simps)
  have "good_step ?m (fst r, snd r)"
    using good_step_replicate_appended [OF good_step_inv [OF m]] assms(2) by (simp add: proposes_def)
  with good_step_trans [OF m] show ?thesis by fastforce
qed

lemma good_step_refused: "node_inv n \<Longrightarrow> refused n r \<Longrightarrow> good_step n r"
  by (auto simp: refused_def applies_Cons intro!: good_step_refl)

lemma good_step_changes: "node_inv n \<Longrightarrow> changes_membership n r \<Longrightarrow> good_step n r"
  using good_step_refused good_step_proposes unfolding changes_membership_def by blast

lemma good_step_dangerous_raw:
  assumes "node_inv n" "membership_wf (membership_config c)"
  shows "good_step n (dangerous_raw_configuration_proposal c bs n)"
proof (cases "validate_configuration_proposal_preflight n")
  case (Inl why)
  with assms(1) show ?thesis by (simp add: dangerous_raw_configuration_proposal_def good_step_refused)
next
  case (Inr u)
  then have "dangerous_raw_configuration_proposal c bs n = append_valid_configuration_proposal c bs n"
    by (simp add: dangerous_raw_configuration_proposal_def)
  then show ?thesis
    using append_valid_cases [OF Inr, of c bs] good_step_refused [OF assms(1)] good_step_proposes [OF assms(1) _ assms(2)]
    by metis
qed

section \<open>The configuration a change leaves in the log\<close>

lemma proposes_log:
  "proposes n c r \<Longrightarrow> Node_log (fst r) = Node_log n @ [configuration_log_entry (Node_current_term n) c] \<and>
     Node_snapshot (fst r) = Node_snapshot n \<and> config (fst r) = config n"
  using replicate_appended_same_log [of "append_log_entry (configuration_log_entry (Node_current_term n) c) n" EnsureContact]
  by (auto simp: proposes_def same_log_def frame_simps)

lemma proposes_derived: "node_inv n \<Longrightarrow> proposes n c r \<Longrightarrow> derived (fst r) = derived n @ [length (Node_log n)]"
proof -
  assume inv: "node_inv n" and p: "proposes n c r"
  let ?m = "append_log_entry (configuration_log_entry (Node_current_term n) c) n"
  have "derived (fst r) = derived ?m"
    using replicate_appended_same_log [of ?m EnsureContact] p by (simp add: proposes_def same_log_def)
  then show ?thesis by (simp add: append_log_entry_def ci_record_append_def)
qed

lemma proposes_effective:
  assumes "node_inv n" "proposes n c r"
  shows "effective_membership (fst r) = membership_config c"
  using proposes_log [OF assms(2)] proposes_derived [OF assms]
  by (simp add: effective_membership_def effective_configuration_entry_def ci_effective_entry_def
      configuration_entry_at_def get_def)

lemma proposes_uncommitted:
  assumes "node_inv n" "proposes n c r"
  shows "ci_indexes_after (derived (fst r)) (LogIndex_next (snapshot_index n)) (Node_commit_index n) =
    [last_log_index n + 1]"
proof -
  have "Node_commit_index n < last_log_index n + 1"
    using assms(1) by (simp add: node_inv_def geometry_ok_def)
  moreover have "ci_indexes_after (derived n) (LogIndex_next (snapshot_index n)) (Node_commit_index n) = []"
    using assms(2) by (simp add: proposes_def uncommitted_configuration_indexes_def)
  ultimately show ?thesis
    using proposes_derived [OF assms]
    by (simp add: ci_indexes_after_def logical_index_def last_log_index_def)
qed

text \<open>Promoting a voter needs a barrier the learner has reached.\<close>

lemma check_promotions_reached:
  "check_promotions n bs used vs = Inr used' \<Longrightarrow> v \<in> set vs \<Longrightarrow>
   contains_voter (effective_membership n) v \<or>
   contains_learner (effective_membership n) v \<and> Node_commit_index n \<le> match_of (progress (leader n)) v"
proof (induction vs arbitrary: used)
  case (Cons p vs)
  then show ?case by (auto simp: Let_def split: if_splits option.splits)
qed simp

section \<open>Properties\<close>

text \<open>
  C21: membership changes preserve quorum intersection. Every supported change (adding a learner,
  promoting one, removing a voter, entering and leaving a joint configuration, changing to a target)
  either rejects the request and leaves the node as it was, or, on a leader with no uncommitted
  configuration, appends one configuration entry that becomes effective at once, is the only one above
  the commit index, takes the next configuration id, and has only quorums that meet every quorum of
  the configuration it replaces.
\<close>

theorem membership_changes_keep_quorums_meeting:
  assumes "node_inv n" "membership_set_wf target"
    and "r \<in> {add_learner k n, promote_learner k b n, remove_voter k n, enter_joint target bs n, leave_joint n,
              change_membership target bs n}"
  shows "(\<exists>why. r = (n, [RejectProposal None why])) \<or>
    (\<exists>c. uncommitted_configuration_indexes n = [] \<and>
      Node_log (fst r) = Node_log n @ [configuration_log_entry (Node_current_term n) c] \<and>
      ci_indexes_after (derived (fst r)) (LogIndex_next (snapshot_index n)) (Node_commit_index n) = [last_log_index n + 1] \<and>
      effective_membership (fst r) = membership_config c \<and> config_id c = next_configuration_id n \<and>
      (\<forall>xs ys. has_quorum (effective_membership n) xs \<longrightarrow> has_quorum (membership_config c) ys \<longrightarrow>
         (\<exists>v. v \<in> set xs \<and> v \<in> set ys)))"
proof -
  have "changes_membership n r"
    using assms(3) changes_add_learner [OF assms(1)] changes_promote_learner [OF assms(1)]
      changes_remove_voter [OF assms(1)] changes_enter_joint [OF assms(1,2)] changes_leave_joint [OF assms(1)]
      changes_change_membership [OF assms(1,2)] by auto
  then consider "refused n r" | c where "proposes n c r" "safe_successor (effective_membership n) (membership_config c)"
      "config_id c = next_configuration_id n"
    by (auto simp: changes_membership_def)
  then show ?thesis
  proof cases
    case 1
    then show ?thesis by (simp add: refused_def)
  next
    case (2 c)
    have "uncommitted_configuration_indexes n = []" using 2(1) by (simp add: proposes_def)
    with 2 proposes_log [OF 2(1)] proposes_uncommitted [OF assms(1) 2(1)] proposes_effective [OF assms(1) 2(1)]
    show ?thesis unfolding safe_successor_def by (intro disjI2 exI [of _ c]) simp
  qed
qed

theorem membership_changes_keep_quorums_meeting_witness:
  "effective_membership (fst (add_learner 4 sample_committed)) =
     StableMembership \<lparr>voters = [1, 2, 3], learners = [4]\<rparr> \<and>
   effective_membership (fst (add_learner 4 sample_committed)) \<noteq> effective_membership sample_committed"
proof -
  let ?n = "sample_committed" and ?m = "\<lparr>voters = [1, 2, 3], learners = [4]\<rparr>"
  have f: "Node_role ?n = Leader" "pending_transfer (leader ?n) = None" "derived ?n = []"
    by (simp_all add: sample_committed_def sample_leader_def sample_follower_def LeaderState_default_def)
  have eff: "effective_membership ?n = StableMembership \<lparr>voters = [1, 2, 3], learners = []\<rparr>"
    by (simp add: sample_membership)
  have new: "MembershipSet_new [1, 2, 3] [4] = Inr ?m" by (simp add: MembershipSet_new_Inr)
  have pre: "validate_configuration_proposal_preflight ?n = Inr ()"
    using f by (simp add: validate_configuration_proposal_preflight_def uncommitted_configuration_indexes_def
        ci_indexes_after_def)
  let ?c = "StableEntry (next_configuration_id ?n) ?m"
  have p: "proposes ?n ?c (add_learner 4 ?n)"
    using preflight_ok [OF pre] eff new
    by (simp add: add_learner_def pre stable_effective_membership_def validated_derived_membership_def
        append_valid_configuration_proposal_def validate_configuration_promotion_barriers_def proposes_def)
  have "membership_set_wf ?m" using MembershipSet_new_wf [OF new] .
  from membership_changes_keep_quorums_meeting [OF sample_committed_inv this, of "add_learner 4 ?n" 4]
  have "effective_membership (fst (add_learner 4 ?n)) = StableMembership ?m"
    using proposes_effective [OF sample_committed_inv p] by simp
  with eff show ?thesis by simp
qed

text \<open>
  promotion needs a caught-up learner. A joint configuration proposal that passes barrier validation
  makes a voter only of a node that already is one, or of a learner whose acknowledged index has
  reached the leader's commit index.
\<close>

theorem promotion_needs_caught_up_learner:
  assumes "validate_configuration_promotion_barriers n (JointEntry cid joint) bs = Inr ()"
    and "v \<in> set (voters (new_membership joint))"
  shows "contains_voter (effective_membership n) v \<or>
    contains_learner (effective_membership n) v \<and> Node_commit_index n \<le> match_of (progress (leader n)) v"
  using assms check_promotions_reached
  by (auto simp: validate_configuration_promotion_barriers_def split: sum.splits option.splits)

theorem promotion_needs_caught_up_learner_witness:
  "contains_voter (effective_membership sample_committed) 2"
proof -
  let ?j = "\<lparr>old_membership = \<lparr>voters = [1, 2, 3], learners = []\<rparr>, new_membership = \<lparr>voters = [2], learners = []\<rparr>\<rparr>"
  have "validate_configuration_promotion_barriers sample_committed (JointEntry 1 ?j) [] = Inr ()"
    by (simp add: validate_configuration_promotion_barriers_def sample_membership)
  from promotion_needs_caught_up_learner [OF this, of 2] show ?thesis by (simp add: sample_membership)
qed

end
