(* ===== verification/Dispatch.thy ===== *)
theory Dispatch
  imports Runs Election Receive Snapshot_Receive Membership_Change
begin

text \<open>
  The entry points of a node, \<open>node/dispatch.rs\<close>: \<open>step\<close>, \<open>step_batch\<close> and the
  dispatch of messages. The locale \<open>step_contract\<close> of \<open>Runs\<close> is interpreted on
  \<open>step\<close> and on the batch accumulator, and the theorems here hold for every sequence of well-formed inputs.
\<close>

section \<open>Messages and inputs\<close>

fun message_sender_matches :: "NodeId \<Rightarrow> Message \<Rightarrow> bool" where
  "message_sender_matches k (AppendEntriesMsg r) = (ae_leader_id r = k)"
| "message_sender_matches k (AppendEntriesResponseMsg r) = (aer_follower_id r = k)"
| "message_sender_matches k (InstallSnapshotMsg r) = (is_leader_id r = k)"
| "message_sender_matches k (InstallSnapshotChunkMsg r) = (isc_leader_id r = k)"
| "message_sender_matches k (InstallSnapshotResponseMsg r) = (isr_follower_id r = k)"
| "message_sender_matches k (PreVoteMsg r) = (pv_candidate_id r = k)"
| "message_sender_matches k (PreVoteResponseMsg r) = (pvr_voter_id r = k)"
| "message_sender_matches k (TimeoutNowMsg r) = (tn_leader_id r = k)"
| "message_sender_matches k (RequestVoteMsg r) = (rv_candidate_id r = k)"
| "message_sender_matches k (RequestVoteResponseMsg r) = (rvr_voter_id r = k)"

fun dispatch_message :: "NodeId \<Rightarrow> Message \<Rightarrow> Node \<Rightarrow> Node \<times> Output list" where
  "dispatch_message k (AppendEntriesMsg r) n = handle_append_entries k r n"
| "dispatch_message k (AppendEntriesResponseMsg r) n = handle_append_entries_response k r n"
| "dispatch_message k (InstallSnapshotMsg r) n = handle_install_snapshot k r n"
| "dispatch_message k (InstallSnapshotChunkMsg r) n = handle_install_snapshot_chunk k r n"
| "dispatch_message k (InstallSnapshotResponseMsg r) n = handle_install_snapshot_response k r n"
| "dispatch_message k (PreVoteMsg r) n = handle_pre_vote k r n"
| "dispatch_message k (PreVoteResponseMsg r) n = handle_pre_vote_response k r n"
| "dispatch_message k (TimeoutNowMsg r) n = handle_timeout_now (tn_term r) n"
| "dispatch_message k (RequestVoteMsg r) n = handle_request_vote k r n"
| "dispatch_message k (RequestVoteResponseMsg r) n = handle_request_vote_response k r n"

definition receive :: "NodeId \<Rightarrow> Message \<Rightarrow> Node \<Rightarrow> Node \<times> Output list" where
  "receive k message n =
     (if \<not> message_sender_matches k message then (n, []) else dispatch_message k message n)"

fun step :: "Input \<Rightarrow> Node \<Rightarrow> Node \<times> Output list" where
  "step Tick n = tick n"
| "step (MessageInput k message) n = receive k message n"
| "step (ClientProposal p) n = step_client_proposal \<lparr>cpi_proposal_id = None, cpi_payload = p\<rparr> n"
| "step (TrackedClientProposal i p) n = step_client_proposal \<lparr>cpi_proposal_id = Some i, cpi_payload = p\<rparr> n"
| "step (AddLearner k) n = add_learner k n"
| "step (PromoteLearner k b) n = promote_learner k b n"
| "step (RemoveVoter k) n = remove_voter k n"
| "step (EnterJoint target bs) n = enter_joint target bs n"
| "step LeaveJoint n = leave_joint n"
| "step (ChangeMembership target bs) n = change_membership target bs n"
| "step (DangerousRawConfigurationProposal c bs) n = dangerous_raw_configuration_proposal c bs n"
| "step (TransferLeadership target) n = transfer_leadership target n"
| "step (ReadIndex i) n = Node_read_index i n"

section \<open>Batches\<close>

datatype PendingBatch = EmptyBatch | Proposals "ClientProposalInput list" | Reads "ReadId list"

fun push_proposal :: "ClientProposalInput \<Rightarrow> PendingBatch \<Rightarrow> Node \<Rightarrow> (Node \<times> PendingBatch) \<times> Output list" where
  "push_proposal p EmptyBatch n = ((n, Proposals [p]), [])"
| "push_proposal p (Proposals ps) n = ((n, Proposals (ps @ [p])), [])"
| "push_proposal p (Reads rs) n = (let (n, outputs) = read_index_batch rs n in ((n, Proposals [p]), outputs))"

fun push_read :: "ReadId \<Rightarrow> PendingBatch \<Rightarrow> Node \<Rightarrow> (Node \<times> PendingBatch) \<times> Output list" where
  "push_read r EmptyBatch n = ((n, Reads [r]), [])"
| "push_read r (Reads rs) n = ((n, Reads (rs @ [r])), [])"
| "push_read r (Proposals ps) n = (let (n, outputs) = step_proposal_batch ps n in ((n, Reads [r]), outputs))"

fun batch_flush :: "PendingBatch \<Rightarrow> Node \<Rightarrow> Node \<times> Output list" where
  "batch_flush EmptyBatch n = (n, [])"
| "batch_flush (Proposals ps) n = step_proposal_batch ps n"
| "batch_flush (Reads rs) n = read_index_batch rs n"

fun batch_accept :: "Input \<Rightarrow> Node \<times> PendingBatch \<Rightarrow> (Node \<times> PendingBatch) \<times> Output list" where
  "batch_accept (ClientProposal p) (n, b) = push_proposal \<lparr>cpi_proposal_id = None, cpi_payload = p\<rparr> b n"
| "batch_accept (TrackedClientProposal i p) (n, b) = push_proposal \<lparr>cpi_proposal_id = Some i, cpi_payload = p\<rparr> b n"
| "batch_accept (ReadIndex i) (n, b) = push_read i b n"
| "batch_accept inp (n, b) =
     (let (n, outputs1) = batch_flush b n; (n, outputs2) = step inp n in ((n, EmptyBatch), outputs1 @ outputs2))"

definition step_batch :: "Input list \<Rightarrow> Node \<Rightarrow> Node \<times> Output list" where
  "step_batch inputs n = (case inputs of
       [] \<Rightarrow> (n, [])
     | [first] \<Rightarrow> step first n
     | _ \<Rightarrow> let ((n, pending), outputs1) = run_steps batch_accept inputs (n, EmptyBatch);
                (n, outputs2) = batch_flush pending n
            in (n, outputs1 @ outputs2))"

section \<open>Contracts of steps and of sequences\<close>

text \<open>
  What the type of a message or input of the code guarantees by construction: membership sets are
  non-empty, ordered and disjoint.
\<close>

fun message_wf :: "Message \<Rightarrow> bool" where
  "message_wf (AppendEntriesMsg r) = list_all entry_wf (ae_entries r)"
| "message_wf (InstallSnapshotMsg r) = metadata_wf (is_metadata r)"
| "message_wf (InstallSnapshotChunkMsg r) = metadata_wf (isc_metadata r)"
| "message_wf _ = True"

fun input_wf :: "Input \<Rightarrow> bool" where
  "input_wf (MessageInput k m) = message_wf m"
| "input_wf (EnterJoint target bs) = membership_set_wf target"
| "input_wf (ChangeMembership target bs) = membership_set_wf target"
| "input_wf (DangerousRawConfigurationProposal c bs) = membership_wf (membership_config c)"
| "input_wf _ = True"

lemma good_step_receive:
  assumes "node_inv n" "message_wf m"
  shows "good_step n (receive k m n)"
proof -
  have "good_step n (dispatch_message k m n)"
    using assms
    by (cases m) (simp_all add: good_step_handle_append_entries good_step_handle_append_entries_response
        good_step_handle_install_snapshot good_step_handle_install_snapshot_chunk
        good_step_handle_install_snapshot_response good_step_handle_pre_vote good_step_handle_pre_vote_response
        good_step_handle_timeout_now good_step_handle_request_vote good_step_handle_request_vote_response
        list_all_iff)
  with assms(1) show ?thesis by (simp add: receive_def good_step_none)
qed

lemma good_step_read_index_batch: "node_inv n \<Longrightarrow> good_step n (read_index_batch rs n)"
  by (rule good_step_leader_only [OF _ read_index_batch_leader_only])

lemma good_step_step:
  assumes "node_inv n" "input_wf inp"
  shows "good_step n (step inp n)"
proof (cases inp)
  case (TransferLeadership k)
  with assms show ?thesis by (simp add: good_step_leader_only transfer_leadership_leader_only)
next
  case (ReadIndex r)
  with assms show ?thesis by (simp add: Node_read_index_def good_step_read_index_batch)
qed (use assms in \<open>simp_all add: good_step_tick good_step_receive good_step_step_client_proposal good_step_changes
      changes_add_learner changes_promote_learner changes_remove_voter changes_enter_joint changes_leave_joint
      changes_change_membership good_step_dangerous_raw\<close>)

interpretation node_steps: step_contract step input_wf node_inv good_step
  by unfold_locales (auto intro: good_step_step good_step_inv good_step_none good_step_trans)

lemma good_step_flush: "node_inv n \<Longrightarrow> good_step n (batch_flush b n)"
  by (cases b) (simp_all add: good_step_none good_step_step_proposal_batch good_step_read_index_batch)

text \<open>The accumulator keeps the contract of the node it drives, whatever it holds back.\<close>

definition accepts :: "Node \<times> PendingBatch \<Rightarrow> (Node \<times> PendingBatch) \<times> Output list \<Rightarrow> bool" where
  "accepts s r \<longleftrightarrow> good_step (fst s) (fst (fst r), snd r)"

lemma accepts_batch_accept:
  assumes "node_inv n" "input_wf inp"
  shows "accepts (n, b) (batch_accept inp (n, b))"
proof -
  have flush: "accepts (n, b) (let (n, outputs1) = batch_flush b n; (n, outputs2) = step inp n
      in ((n, EmptyBatch), outputs1 @ outputs2))"
  proof -
    have g: "good_step n (fst (batch_flush b n), snd (batch_flush b n))" using good_step_flush [OF assms(1)] by simp
    from good_step_trans [OF g] good_step_step [OF good_step_inv [OF g] assms(2)]
    show ?thesis by (simp add: accepts_def case_prod_unfold Let_def)
  qed
  have "accepts (n, b) (push_proposal p b n)" "accepts (n, b) (push_read r b n)" for p r
    using assms(1) good_step_read_index_batch good_step_step_proposal_batch
    by (cases b; simp add: accepts_def case_prod_unfold Let_def good_step_none)+
  with flush show ?thesis by (cases inp) simp_all
qed

interpretation accumulator: step_contract batch_accept input_wf "node_inv \<circ> fst" accepts
proof unfold_locales
  show "accepts s (batch_accept i s)" if "input_wf i" "(node_inv \<circ> fst) s" for i s
    using accepts_batch_accept [OF _ that(1), of "fst s" "snd s"] that(2) by simp
  show "(node_inv \<circ> fst) s'" if "accepts s (s', outs)" for s s' outs
    using that good_step_inv by (simp add: accepts_def)
  show "accepts s (s, [])" if "(node_inv \<circ> fst) s" for s
    using that by (simp add: accepts_def good_step_none)
  show "accepts a (c, xs @ ys)" if "accepts a (b, xs)" "accepts b (c, ys)" for a b c xs ys
    using that good_step_trans by (simp add: accepts_def)
qed

lemma good_step_step_batch:
  assumes "node_inv n" "list_all input_wf inputs"
  shows "good_step n (step_batch inputs n)"
proof -
  let ?r = "run_steps batch_accept inputs (n, EmptyBatch)"
  have r: "good_step n (fst (fst ?r), snd ?r)"
    using accumulator.run_rel [OF assms(2), of "(n, EmptyBatch)"] assms(1) by (simp add: accepts_def)
  let ?f = "batch_flush (snd (fst ?r)) (fst (fst ?r))"
  have "good_step (fst (fst ?r)) (fst ?f, snd ?f)" using good_step_flush [OF good_step_inv [OF r]] by simp
  from good_step_trans [OF r this]
  have "good_step n (let ((n, pending), outputs1) = ?r; (n, outputs2) = batch_flush pending n in (n, outputs1 @ outputs2))"
    by (simp add: case_prod_unfold Let_def)
  with assms show ?thesis
    unfolding step_batch_def by (auto simp: good_step_none good_step_step split: list.split)
qed

interpretation batches: step_contract step_batch "list_all input_wf" node_inv good_step
  by unfold_locales (auto intro: good_step_step_batch good_step_inv good_step_none good_step_trans)

lemma run_batches:
  assumes "node_inv n" "list_all (list_all input_wf) batches" "run_steps step_batch batches n = (n', outs)"
  shows "node_inv n'" "evolves n n'" "emits n n' outs"
  using batches.run_rel [OF assms(2,1)] assms(3) by (simp_all add: good_step_def good_def)

lemma evolves_vote:
  "evolves n n' \<Longrightarrow> Node_current_term n \<le> Node_current_term n'"
  "evolves n n' \<Longrightarrow> Node_current_term n' = Node_current_term n \<Longrightarrow> Node_voted_for n = Some v \<Longrightarrow>
     Node_voted_for n' = Some v"
  unfolding evolves_def by (blast, metis option.distinct(1))

section \<open>Properties of every run\<close>

text \<open>A short run that instantiates the theorems below: a tick, two proposals, a read and a newer leader.\<close>

definition sample_batches :: "Input list list" where
  "sample_batches = [[Tick], [ClientProposal [1], TrackedClientProposal 4 [2], ReadIndex 9],
     [MessageInput 2 (AppendEntriesMsg \<lparr>ae_term = 5, ae_leader_id = 2, ae_prev_log_index = 4,
        ae_prev_log_term = 2, ae_sequence = 1, ae_entries = [noop_entry 5], ae_leader_commit = 5\<rparr>)]]"

lemma sample_batches_wf: "list_all (list_all input_wf) sample_batches"
  by (simp add: sample_batches_def entry_wf_def)

text \<open>
  C8: Whatever sequence of batches of well-formed inputs a node is given, ticks, messages of every
  kind and content, proposals, reads, membership changes and transfers, it keeps its invariant: the
  snapshot, dispatch, commit and last index are in order, the derived configuration index is that of
  the log, every configuration in use is well formed, and the proposal tracker is consistent.
\<close>

theorem runs_keep_invariant:
  assumes "node_inv n" "list_all (list_all input_wf) batches"
  shows "node_inv (fst (run_steps step_batch batches n))"
  using batches.run_inv [OF assms(2,1)] .

theorem runs_keep_invariant_witness: "node_inv (fst (run_steps step_batch sample_batches sample_leader))"
  by (rule runs_keep_invariant [OF sample_leader_inv sample_batches_wf])

text \<open>
  C2: Committed entries are final: over every run the commit index, the dispatch cursor and the
  snapshot floor never move back, and an entry at or below the commit index stays as it is until a
  snapshot covers it.
\<close>

theorem committed_entries_final:
  assumes "node_inv n" "list_all (list_all input_wf) batches" "run_steps step_batch batches n = (n', outs)"
  shows "Node_commit_index n \<le> Node_commit_index n' \<and>
    Node_dispatched_index n \<le> Node_dispatched_index n' \<and> snapshot_index n \<le> snapshot_index n' \<and>
    (\<forall>i. snapshot_index n' < i \<longrightarrow> i \<le> Node_commit_index n \<longrightarrow> entry_at n' i = entry_at n i)"
  using run_batches(2) [OF assms] by (simp add: evolves_def)

theorem committed_entries_final_witness:
  "Node_commit_index sample_leader \<le> Node_commit_index (fst (run_steps step_batch sample_batches sample_leader))"
  using committed_entries_final [OF sample_leader_inv sample_batches_wf surjective_pairing] by blast

text \<open>
  C4: Over every run the term never decreases and a vote given in a term is never given to another
  candidate in it.
\<close>

theorem term_and_vote_stable:
  assumes "node_inv n" "list_all (list_all input_wf) batches" "run_steps step_batch batches n = (n', outs)"
  shows "Node_current_term n \<le> Node_current_term n' \<and>
    (Node_current_term n' = Node_current_term n \<and> Node_voted_for n = Some v \<longrightarrow> Node_voted_for n' = Some v)"
  using evolves_vote [OF run_batches(2) [OF assms]] by blast

theorem term_and_vote_stable_witness:
  "2 \<le> Node_current_term (fst (run_steps step_batch sample_batches sample_leader))"
proof -
  have "Node_current_term sample_leader = 2" by (simp add: sample_defs)
  with term_and_vote_stable [OF sample_leader_inv sample_batches_wf surjective_pairing] show ?thesis by metis
qed

text \<open>
  C3: Over every run the application sees each entry once and in order: the indices of the
  \<open>Apply\<close> outputs are strictly increasing, lie above the old dispatch cursor and at or below the
  new one, carry the entry of the log, and every application entry the cursor passed that the log
  still holds is among them.
\<close>

theorem applies_once_in_order:
  assumes "node_inv n" "list_all (list_all input_wf) batches" "run_steps step_batch batches n = (n', outs)"
  shows "sorted_wrt (<) (map fst (applies outs)) \<and>
    (\<forall>i t p. (i, t, p) \<in> set (applies outs) \<longrightarrow>
       Node_dispatched_index n < i \<and> i \<le> Node_dispatched_index n' \<and>
       (snapshot_index n' < i \<longrightarrow> entry_at n' i = Some (application_entry t p))) \<and>
    (\<forall>i t p. Node_dispatched_index n < i \<longrightarrow> i \<le> Node_dispatched_index n' \<longrightarrow>
       entry_at n' i = Some (application_entry t p) \<longrightarrow> (i, t, p) \<in> set (applies outs))"
  using run_batches(3) [OF assms] unfolding emits_def .

theorem applies_once_in_order_witness:
  "sorted_wrt (<) (map fst (applies (snd (run_steps step_batch sample_batches sample_leader))))"
  using applies_once_in_order [OF sample_leader_inv sample_batches_wf surjective_pairing] by blast

section \<open>Batches and single steps\<close>

text \<open>A batch read as maximal runs of proposals and of reads, and single inputs between them.\<close>

datatype Segment = SingleInput Input | ProposalRun "ClientProposalInput list" | ReadRun "ReadId list"

fun as_proposal :: "Input \<Rightarrow> ClientProposalInput option" where
  "as_proposal (ClientProposal p) = Some \<lparr>cpi_proposal_id = None, cpi_payload = p\<rparr>"
| "as_proposal (TrackedClientProposal i p) = Some \<lparr>cpi_proposal_id = Some i, cpi_payload = p\<rparr>"
| "as_proposal _ = None"

fun as_read :: "Input \<Rightarrow> ReadId option" where
  "as_read (ReadIndex i) = Some i"
| "as_read _ = None"

fun add_segment :: "Input \<Rightarrow> Segment list \<Rightarrow> Segment list" where
  "add_segment inp segs = (case (as_proposal inp, as_read inp, segs) of
      (Some p, _, ProposalRun ps # rest) \<Rightarrow> ProposalRun (p # ps) # rest
    | (Some p, _, _) \<Rightarrow> ProposalRun [p] # segs
    | (None, Some r, ReadRun rs # rest) \<Rightarrow> ReadRun (r # rs) # rest
    | (None, Some r, _) \<Rightarrow> ReadRun [r] # segs
    | (None, None, _) \<Rightarrow> SingleInput inp # segs)"

definition segments :: "Input list \<Rightarrow> Segment list" where
  "segments inputs = foldr add_segment inputs []"

fun run_segment :: "Segment \<Rightarrow> Node \<Rightarrow> Node \<times> Output list" where
  "run_segment (SingleInput inp) n = step inp n"
| "run_segment (ProposalRun ps) n = step_proposal_batch ps n"
| "run_segment (ReadRun rs) n = read_index_batch rs n"

text \<open>What is held back joins the first segment when it is of its kind.\<close>

fun prepend_pending :: "PendingBatch \<Rightarrow> Segment list \<Rightarrow> Segment list" where
  "prepend_pending EmptyBatch segs = segs"
| "prepend_pending (Proposals ps) (ProposalRun qs # rest) = ProposalRun (ps @ qs) # rest"
| "prepend_pending (Proposals ps) segs = ProposalRun ps # segs"
| "prepend_pending (Reads rs) (ReadRun qs # rest) = ReadRun (rs @ qs) # rest"
| "prepend_pending (Reads rs) segs = ReadRun rs # segs"

lemma prepend_proposal:
  assumes "as_proposal inp = Some p"
  shows "prepend_pending EmptyBatch (add_segment inp segs) = prepend_pending (Proposals [p]) segs"
    "prepend_pending (Proposals ps) (add_segment inp segs) = prepend_pending (Proposals (ps @ [p])) segs"
    "prepend_pending (Reads rs) (add_segment inp segs) = ReadRun rs # prepend_pending (Proposals [p]) segs"
  using assms by (auto split: list.split Segment.split)

lemma prepend_read:
  assumes "as_proposal inp = None" "as_read inp = Some r"
  shows "prepend_pending EmptyBatch (add_segment inp segs) = prepend_pending (Reads [r]) segs"
    "prepend_pending (Reads rs) (add_segment inp segs) = prepend_pending (Reads (rs @ [r])) segs"
    "prepend_pending (Proposals ps) (add_segment inp segs) = ProposalRun ps # prepend_pending (Reads [r]) segs"
  using assms by (auto split: list.split Segment.split)

lemma batch_accept_proposal:
  "as_proposal inp = Some p \<Longrightarrow> batch_accept inp (n, b) = push_proposal p b n"
  by (cases inp) auto

lemma batch_accept_read:
  "as_read inp = Some r \<Longrightarrow> batch_accept inp (n, b) = push_read r b n"
  by (cases inp) auto

lemma batch_accept_single:
  assumes "as_proposal inp = None" "as_read inp = None"
  shows "batch_accept inp (n, b) =
      (let (n, outputs1) = batch_flush b n; (n, outputs2) = step inp n in ((n, EmptyBatch), outputs1 @ outputs2))"
  using assms by (cases inp) (simp_all add: Let_def)

lemma run_accumulator:
  "(let ((m, pending), outs1) = run_steps batch_accept inputs (n, b); (m, outs2) = batch_flush pending m
    in (m, outs1 @ outs2)) = run_steps run_segment (prepend_pending b (segments inputs)) n"
proof (induction inputs arbitrary: n b)
  case Nil
  show ?case by (cases b) (simp_all add: segments_def case_prod_unfold Let_def)
next
  case (Cons inp inputs)
  have segs: "segments (inp # inputs) = add_segment inp (segments inputs)" by (simp add: segments_def)
  note ih = Cons.IH [unfolded case_prod_unfold Let_def, symmetric]
  consider p where "as_proposal inp = Some p" | r where "as_proposal inp = None" "as_read inp = Some r"
    | "as_proposal inp = None" "as_read inp = None" by fastforce
  then show ?case
  proof cases
    case 1
    then show ?thesis
      by (cases b) (simp_all only: segs prepend_proposal run_steps.simps batch_accept_proposal,
        simp_all add: ih case_prod_unfold Let_def)
  next
    case 2
    then show ?thesis
      by (cases b) (simp_all only: segs prepend_read run_steps.simps batch_accept_read,
        simp_all add: ih case_prod_unfold Let_def)
  next
    case 3
    then have "add_segment inp (segments inputs) = SingleInput inp # segments inputs" by simp
    with 3 ih [where b = EmptyBatch] show ?thesis
      by (cases b) (simp_all only: segs run_steps.simps batch_accept_single prepend_pending.simps,
        simp_all add: case_prod_unfold Let_def)
  qed
qed

text \<open>
  A batch of at least two inputs is the sequence of its segments: every maximal run of adjacent
  proposals is one proposal batch, every maximal run of adjacent reads one read batch, and every
  other input a single step, in the order of the inputs and with the outputs in that order; nothing
  is dropped, reordered or left pending.
\<close>

theorem step_batch_segments:
  assumes "2 \<le> length inputs"
  shows "step_batch inputs n = run_steps run_segment (segments inputs) n"
proof -
  obtain a b rest where "inputs = a # b # rest"
    using assms by (metis Suc_le_length_iff numeral_2_eq_2)
  then have "step_batch inputs n = (let ((n, pending), outputs1) = run_steps batch_accept inputs (n, EmptyBatch);
      (n, outputs2) = batch_flush pending n in (n, outputs1 @ outputs2))"
    by (simp add: step_batch_def)
  with run_accumulator [of inputs n EmptyBatch] show ?thesis by simp
qed

theorem step_batch_segments_witness:
  "step_batch [ClientProposal [1], ClientProposal [2], Tick] sample_leader =
     run_steps run_segment [ProposalRun [\<lparr>cpi_proposal_id = None, cpi_payload = [1]\<rparr>,
       \<lparr>cpi_proposal_id = None, cpi_payload = [2]\<rparr>], SingleInput Tick] sample_leader"
  by (subst step_batch_segments) (simp_all add: segments_def)

end
