(* ===== verification/Votes.thy ===== *)
theory Votes
  imports Dispatch
begin

text \<open>
  What a single input can do to a node's candidacy and to the votes it has given. Every handler but
  those of \<open>node/election.rs\<close> is quiet: it either leaves role, term and collected votes alone or
  makes the node a follower, and sends no vote. The contract \<open>vote_step\<close> states what the election
  handlers may do; it is what election safety of a cluster rests on.
\<close>

section \<open>Quiet operations\<close>

fun vote_answer :: "Output \<Rightarrow> bool" where
  "vote_answer (Send k m) = (case m of RequestVoteResponseMsg q \<Rightarrow> True | _ \<Rightarrow> False)"
| "vote_answer _ = False"

abbreviation vote_free :: "Output list \<Rightarrow> bool" where
  "vote_free outs \<equiv> \<not> list_ex vote_answer outs"

definition role_quiet :: "Node \<Rightarrow> Node \<Rightarrow> bool" where
  "role_quiet n n' \<longleftrightarrow> Node_role n' \<in> {Follower, PreCandidate} \<or>
     Node_role n' = Node_role n \<and> Node_current_term n' = Node_current_term n \<and>
     votes (election n') = votes (election n)"

definition quiet :: "Node \<Rightarrow> Node \<times> Output list \<Rightarrow> bool" where
  "quiet n r \<longleftrightarrow> role_quiet n (fst r) \<and> vote_free (snd r)"

lemma role_quiet_refl [simp]: "role_quiet n n"
  by (simp add: role_quiet_def)

lemma role_quiet_trans: "role_quiet a b \<Longrightarrow> role_quiet b c \<Longrightarrow> role_quiet a c"
  unfolding role_quiet_def by auto

lemma role_quiet_follower: "Node_role n' = Follower \<Longrightarrow> role_quiet n n'"
  by (simp add: role_quiet_def)

lemma quiet_refl [simp]: "quiet n (n, outs) \<longleftrightarrow> vote_free outs"
  by (simp add: quiet_def)

lemma quiet_trans: "quiet a (b, xs) \<Longrightarrow> quiet b (c, ys) \<Longrightarrow> quiet a (c, xs @ ys)"
  using role_quiet_trans by (auto simp: quiet_def)

lemma quiet_then: "quiet a (b, xs) \<Longrightarrow> quiet b r \<Longrightarrow> quiet a (fst r, xs @ snd r)"
  using quiet_trans [of a b xs "fst r" "snd r"] by simp

lemma quiet_then0: "role_quiet a b \<Longrightarrow> quiet b r \<Longrightarrow> quiet a r"
  using role_quiet_trans by (auto simp: quiet_def)

lemma quiet_append: "quiet a (b, xs) \<Longrightarrow> vote_free ys \<Longrightarrow> quiet a (b, xs @ ys)"
  by (simp add: quiet_def)

lemma role_quiet_leader_only:
  assumes "leader_only n r"
  shows "role_quiet n (fst r)"
  using leader_only_frame [OF assms] by (simp add: role_quiet_def)

lemma quiet_leader_only: "leader_only n r \<Longrightarrow> vote_free (snd r) \<Longrightarrow> quiet n r"
  by (simp add: quiet_def role_quiet_leader_only)

section \<open>Outputs without votes\<close>

lemma vote_free_dropped [simp]: "vote_free (dropped_outputs t r)"
  by (auto simp: dropped_outputs_def list_ex_iff)

lemma vote_free_canceled [simp]: "vote_free (canceled_outputs rs r)"
  by (auto simp: canceled_outputs_def list_ex_iff)

lemma vote_free_become_follower [simp]: "vote_free (snd (become_follower t n))"
  by (simp add: become_follower_outputs)

lemma vote_free_appends_from:
  assumes "appends_from n outs"
  shows "vote_free outs"
proof -
  have "replication_output n x \<Longrightarrow> \<not> vote_answer x" for x
    by (cases x) (auto split: Message.split)
  with assms show ?thesis by (auto simp: appends_from_def list_ex_iff)
qed

lemma quiet_become_follower [simp]: "quiet n (become_follower t n)"
  by (simp add: quiet_def role_quiet_follower become_follower_frame)

section \<open>Commitment\<close>

lemma quiet_emit_one:
  assumes "emit_one n = Some r"
  shows "quiet n r"
proof -
  obtain entry where entry: "entry_at n (Suc (Node_dispatched_index n)) = Some entry" "Node_dispatched_index n < Node_commit_index n"
    using assms by (auto simp: emit_one_def Let_def split: if_splits option.splits)
  have down: "quiet m (step_down_if_removed c m)" for c m by (simp add: step_down_if_removed_def)
  have frame: "role_quiet n (n\<lparr>volatile := (volatile n)\<lparr>dispatched_index := i, local_proposals := lp\<rparr>\<rparr>)" for i lp
    by (simp add: role_quiet_def)
  show ?thesis
    using assms entry frame quiet_then0 [OF frame down]
    by (cases "entry_kind entry")
      (auto simp: emit_one_def Let_def case_prod_unfold quiet_def)
qed

lemma quiet_emit_committed_outputs: "quiet n (emit_committed_outputs n)"
proof (induction n rule: emit_committed_outputs.induct)
  case (1 n)
  show ?case
  proof (cases "emit_one n")
    case None
    then show ?thesis by (simp add: emit_committed_outputs.simps)
  next
    case (Some r)
    obtain m xs where r: "r = (m, xs)" by fastforce
    with Some have "quiet n (m, xs)" by (simp add: quiet_emit_one)
    from quiet_then [OF this 1 [OF Some r [symmetric]]] Some r show ?thesis
      by (subst emit_committed_outputs.simps) (simp add: case_prod_unfold Let_def)
  qed
qed

lemma quiet_advance_commit_index: "quiet n (advance_commit_index n)"
proof -
  let ?m = "reconcile_replication_progress n"
  have m: "role_quiet n ?m" using role_quiet_leader_only [OF leader_only_reconcile] by simp
  have "role_quiet n (map_volatile (\<lambda>v. v\<lparr>commit_index := c\<rparr>) ?m)" for c
    using m by (simp add: role_quiet_def)
  from quiet_then0 [OF this quiet_emit_committed_outputs] m show ?thesis
    by (simp add: advance_commit_index_def quiet_def Let_def split: option.split)
qed

section \<open>Leader operations\<close>

lemma quiet_replicate: "quiet n (replicate_to_follower k d n)"
  by (rule quiet_leader_only [OF replicate_to_follower_leader_only
        vote_free_appends_from [OF replicate_to_follower_appends]])

lemma quiet_broadcast_replication: "quiet n (broadcast_replication d n)"
  by (rule quiet_leader_only [OF broadcast_replication_leader_only
        vote_free_appends_from [OF broadcast_replication_appends]])

lemma quiet_broadcast: "quiet n (broadcast_append_entries n)"
  using quiet_broadcast_replication by (simp add: broadcast_append_entries_def)

lemma vote_free_reads [simp]: "vote_free (grant_reads ids i)" "vote_free (reject_reads ids r)"
  by (auto simp: grant_reads_def reject_reads_def list_ex_iff)

lemma quiet_read_index_batch: "quiet n (read_index_batch ids n)"
proof (rule quiet_leader_only [OF read_index_batch_leader_only])
  have "vote_free (snd (broadcast_append_entries m))" for m
    using quiet_broadcast [of m] by (simp add: quiet_def)
  then show "vote_free (snd (read_index_batch ids n))"
    by (auto simp: read_index_batch_def Let_def case_prod_unfold split: option.split)
qed

lemma quiet_acknowledge_read_barriers: "quiet n (acknowledge_read_barriers k s n)"
proof (rule quiet_leader_only [OF acknowledge_read_barriers_leader_only])
  have "vote_free (concat (map (\<lambda>(p, confirmed). if confirmed then grant_reads (read_ids p) (read_index p) else []) xs))"
    for xs :: "(PendingReadRound \<times> bool) list" by (induction xs) (auto split: if_splits)
  then show "vote_free (snd (acknowledge_read_barriers k s n))"
    by (simp add: acknowledge_read_barriers_def Let_def del: map_map)
qed

lemma quiet_transfer_leadership: "quiet n (transfer_leadership target n)"
proof (rule quiet_leader_only [OF transfer_leadership_leader_only])
  have "vote_free (snd (replicate_to_follower target d m))" for d m
    using quiet_replicate [of m] by (simp add: quiet_def)
  then show "vote_free (snd (transfer_leadership target n))"
    by (simp add: transfer_leadership_def Let_def case_prod_unfold drain_pending_reads_def send_timeout_now_def)
qed

lemma quiet_complete_commit_replicate: "quiet n (complete_commit_replicate k b n)"
proof -
  obtain m xs where m: "maybe_complete_leadership_transfer k n = (m, xs)" by fastforce
  have "vote_free xs"
    using m by (auto simp: maybe_complete_leadership_transfer_def send_timeout_now_def Let_def
        split: option.splits if_splits)
  then have q: "quiet n (m, xs)" using quiet_leader_only [OF maybe_complete_leader_only [of n k]] m by simp
  obtain m' ys where m': "(if b then advance_commit_index m else (m, [])) = (m', ys)" by fastforce
  have "quiet m (m', ys)" using quiet_advance_commit_index [of m] m' by (auto split: if_splits)
  from quiet_then [OF quiet_trans [OF q this] quiet_replicate, of k ProgressOnly] show ?thesis
    unfolding complete_commit_replicate_def m Let_def prod.case m' by (simp add: case_prod_unfold)
qed

lemma role_quiet_leader: "role_quiet n (n\<lparr>leader := l\<rparr>)"
  by (simp add: role_quiet_def)

lemma role_quiet_reconcile: "role_quiet n (reconcile_replication_progress n)"
  using role_quiet_leader_only [OF leader_only_reconcile] by simp

text \<open>The shape all answers to replication have: look up the progress, update it, go on.\<close>

lemma quiet_with_progress:
  assumes "\<And>p m. quiet m (g p m)"
  shows "quiet n (case ps_get (progress (leader (reconcile_replication_progress n))) k of
      None \<Rightarrow> (reconcile_replication_progress n, [])
    | Some p \<Rightarrow> g p (update_progress k (h p) (reconcile_replication_progress n)))"
  using role_quiet_reconcile [of n] quiet_then0 [OF role_quiet_trans [OF role_quiet_reconcile role_quiet_leader] assms]
  by (simp add: quiet_def split: option.split)

lemma quiet_accept_append_response: "quiet n (accept_append_response k i n)"
  using quiet_with_progress [of "\<lambda>p. complete_commit_replicate k (successful_ack_can_advance_commit (match_index p)
      (match_index (accepted_progress (min i (last_log_index n)) (snapshot_index n) p)) (Node_commit_index n))"
      n k "\<lambda>p _. accepted_progress (min i (last_log_index n)) (snapshot_index n) p"]
  unfolding accept_append_response_def Let_def by (simp add: quiet_complete_commit_replicate)

lemma quiet_reject_append_response: "quiet n (reject_append_response k n)"
  using quiet_with_progress [of "\<lambda>_. replicate_to_follower k EnsureContact" n k
      "\<lambda>_ p. if \<not> is_snapshot_mode (mode p) then collapse_into_probe (snapshot_index n) p else p"]
  unfolding reject_append_response_def Let_def by (simp add: quiet_replicate)

lemma quiet_snapshot_restream: "quiet n (snapshot_restream k snap r n)"
  unfolding snapshot_restream_def Let_def
  by (rule quiet_with_progress [where g = "\<lambda>_. replicate_to_follower k EnsureContact", OF quiet_replicate])

lemma quiet_snapshot_installed: "quiet n (snapshot_installed k r n)"
  unfolding snapshot_installed_def Let_def
  by (rule quiet_with_progress [where g = "\<lambda>_. complete_commit_replicate k True", OF quiet_complete_commit_replicate])

lemma quiet_snapshot_rejected: "quiet n (snapshot_rejected k r n)"
  unfolding snapshot_rejected_def Let_def
  by (rule quiet_with_progress [where g = "\<lambda>_. replicate_to_follower k EnsureContact", OF quiet_replicate])

lemma role_quiet_record:
  "role_quiet n (record_quorum_ack k n)" "role_quiet n (acknowledge_read_lease k s n)"
  using role_quiet_leader_only [OF record_quorum_ack_leader_only [of n k]]
    role_quiet_leader_only [OF acknowledge_read_lease_leader_only [of n k s]] by simp_all

lemma quiet_handle_append_entries_response: "quiet n (handle_append_entries_response k r n)"
proof -
  let ?m = "acknowledge_read_lease k (aer_sequence r) (record_quorum_ack k n)"
  obtain m xs where m: "acknowledge_read_barriers k (aer_sequence r) ?m = (m, xs)" by fastforce
  have "role_quiet n ?m" using role_quiet_record role_quiet_trans by blast
  then have q: "quiet n (m, xs)" using quiet_then0 [OF _ quiet_acknowledge_read_barriers] m by metis
  show ?thesis
    using quiet_then [OF q quiet_accept_append_response] quiet_then [OF q quiet_reject_append_response] m
    by (simp add: handle_append_entries_response_def Let_def case_prod_unfold)
qed

lemma quiet_handle_install_snapshot_response: "quiet n (handle_install_snapshot_response k r n)"
  using role_quiet_record(1) [of n k] quiet_then0 [OF role_quiet_record(1) quiet_snapshot_restream]
    quiet_then0 [OF role_quiet_record(1) quiet_snapshot_installed]
    quiet_then0 [OF role_quiet_record(1) quiet_snapshot_rejected]
  by (simp add: handle_install_snapshot_response_def Let_def split: option.split) (simp add: quiet_def)

section \<open>Following a leader\<close>

lemma fold_append_election:
  "election (fold append_log_entry es n) = election n" "volatile (fold append_log_entry es n) = volatile n"
  "Node_current_term (fold append_log_entry es n) = Node_current_term n"
  by (induction es arbitrary: n) (simp_all add: append_log_entry_def)

lemma truncate_from_election:
  "election (fst (truncate_from n i r)) = election n" "Node_role (fst (truncate_from n i r)) = Node_role n"
  "Node_current_term (fst (truncate_from n i r)) = Node_current_term n"
  by (simp_all add: truncate_from_eq)

lemma splice_role: "Node_role (fst (splice_entries_after p es f n)) = Node_role n"
  by (auto simp: splice_entries_after_def Let_def case_prod_unfold fold_append_election truncate_from_election
      split: sum.split option.split)

lemma splice_vote_free: "splice_entries_after p es f n = (m, Inr outs) \<Longrightarrow> vote_free outs"
  by (auto simp: splice_entries_after_def Let_def case_prod_unfold truncate_from_outputs
      split: sum.splits option.splits if_splits)

lemma follow_leader_role: "Node_role (fst (follow_leader l t n)) = Follower"
  by (auto simp: follow_leader_def Let_def case_prod_unfold become_follower_frame)

lemma follow_leader_vote_free: "vote_free (snd (follow_leader l t n))"
  by (simp add: follow_leader_def Let_def case_prod_unfold)

lemma quiet_handle_append_entries: "quiet n (handle_append_entries l r n)"
proof (cases "ae_term r < Node_current_term n")
  case True
  then show ?thesis
    by (simp add: handle_append_entries_def Let_def reject_append_entries_def append_entries_response_def)
next
  case False
  obtain m xs where m: "follow_leader l (ae_term r) n = (m, xs)" by fastforce
  have f: "Node_role m = Follower" "vote_free xs"
    using follow_leader_role [of l "ae_term r" n] follow_leader_vote_free [of l "ae_term r" n] m by simp_all
  let ?c = "confirmed_commit_index m r (request_match_index (ae_prev_log_index r) (length (ae_entries r)))"
  obtain m1 res where s: "splice_entries_after (ae_prev_log_index r) (ae_entries r) ?c m = (m1, res)" by fastforce
  have f1: "Node_role m1 = Follower" using splice_role [of "ae_prev_log_index r" "ae_entries r" ?c m] s f by simp
  have emit: "Node_role (fst (emit_committed_outputs (map_volatile (\<lambda>v. v\<lparr>commit_index := c\<rparr>) m1))) \<in> {Follower, PreCandidate}"
    "vote_free (snd (emit_committed_outputs (map_volatile (\<lambda>v. v\<lparr>commit_index := c\<rparr>) m1)))" for c
    using quiet_emit_committed_outputs [of "map_volatile (\<lambda>v. v\<lparr>commit_index := c\<rparr>) m1"] f1
    by (auto simp: quiet_def role_quiet_def)
  show ?thesis
  proof (cases res)
    case (Inl e)
    with False m f f1 s show ?thesis
      by (simp add: handle_append_entries_def Let_def quiet_def role_quiet_def reject_append_entries_def
          append_entries_response_def)
  next
    case (Inr ys)
    with splice_vote_free s have "vote_free ys" by blast
    with Inr False m f f1 s emit show ?thesis
      by (auto simp: handle_append_entries_def Let_def quiet_def role_quiet_def reject_append_entries_def
          accept_append_entries_def append_entries_response_def case_prod_unfold)
  qed
qed

section \<open>Snapshots\<close>

lemma install_snapshot_role: "Node_role (fst (install_snapshot_state snap n)) = Node_role n"
proof -
  obtain lp where "fst (install_snapshot_state_with_committed_configuration snap
      (meta_committed_configuration_state (metadata snap)) n) = n\<lparr>
     persistent := (persistent n)\<lparr>snapshot := Some snap,
       committed_configuration := meta_committed_configuration_state (metadata snap), log := retained_suffix snap n\<rparr>,
     derived := ci_from_log (retained_suffix snap n),
     volatile := (volatile n)\<lparr>local_proposals := lp,
       commit_index := max (Node_commit_index n) (last_included_index (metadata snap)),
       dispatched_index := max (Node_dispatched_index n) (last_included_index (metadata snap))\<rparr>\<rparr>"
    using install_snapshot_state_with_eq by blast
  then show ?thesis by (simp add: install_snapshot_state_def)
qed

lemma vote_free_install [simp]: "vote_free (snd (install_snapshot_state snap n))"
  using install_outputs [of _ snap "meta_committed_configuration_state (metadata snap)" n]
  by (fastforce simp: install_snapshot_state_def list_ex_iff)

lemma vote_answer_reply [simp]: "\<not> vote_answer (snapshot_reply n l x)" "\<not> vote_answer (stage_snapshot_chunk l r)"
  by (simp_all add: snapshot_reply_def stage_snapshot_chunk_def)

lemma soft_role: "soft n n' \<Longrightarrow> Node_role n' = Node_role n"
  by (simp add: soft_def)

lemmas snapshot_roles = soft_role [OF soft_record_rejection] soft_role [OF soft_record_leader] install_snapshot_role

lemma dispose_snapshot_chunk_role:
  "Node_role (fst (dispose_snapshot_chunk l r d n)) = Node_role n" "vote_free (snd (dispose_snapshot_chunk l r d n))"
  by (auto simp: dispose_snapshot_chunk_def acknowledge_covered_snapshot_chunk_def accept_current_snapshot_chunk_def
      install_final_snapshot_chunk_def reject_missing_snapshot_transfer_def snapshot_roles case_prod_unfold Let_def
      split: ChunkDisposition.split option.split)

lemma adopt_snapshot_term_role: "Node_role (fst (adopt_snapshot_term t n)) = Follower" "vote_free (snd (adopt_snapshot_term t n))"
  by (auto simp: adopt_snapshot_term_def become_follower_frame)

lemma role_quiet_rejection: "role_quiet n (record_snapshot_chunk_rejection r n)"
  by (simp add: role_quiet_def record_snapshot_chunk_rejection_def)

lemma quiet_handle_install_snapshot_chunk: "quiet n (handle_install_snapshot_chunk l r n)"
proof (cases "isc_term r < Node_current_term n")
  case True
  then show ?thesis by (simp add: handle_install_snapshot_chunk_def Let_def quiet_def role_quiet_rejection)
next
  case False
  obtain m xs where m: "adopt_snapshot_term (isc_term r) n = (m, xs)" by fastforce
  have f: "Node_role m = Follower" "vote_free xs"
    using adopt_snapshot_term_role [of "isc_term r" n] m by simp_all
  obtain m1 res where c: "classify_snapshot_chunk l r (record_accepted_snapshot_leader l m) = (m1, res)" by fastforce
  have f1: "Node_role m1 = Follower"
    using soft_role [OF soft_classify [of "record_accepted_snapshot_leader l m" l r]] c f by (simp add: snapshot_roles)
  show ?thesis
    unfolding handle_install_snapshot_chunk_def Let_def m prod.case c using False f f1
    by (auto simp: quiet_def role_quiet_def snapshot_roles dispose_snapshot_chunk_role case_prod_unfold split: sum.split)
qed

lemma quiet_handle_install_snapshot: "quiet n (handle_install_snapshot l r n)"
proof (cases "is_term r < Node_current_term n")
  case True
  then show ?thesis by (simp add: handle_install_snapshot_def Let_def quiet_def)
next
  case False
  obtain m xs where m: "adopt_snapshot_term (is_term r) n = (m, xs)" by fastforce
  have f: "Node_role m = Follower" "vote_free xs"
    using adopt_snapshot_term_role [of "is_term r" n] m by simp_all
  show ?thesis
    unfolding handle_install_snapshot_def Let_def m prod.case using False f
    by (auto simp: quiet_def role_quiet_def snapshot_roles install_whole_snapshot_def Let_def case_prod_unfold
        split: sum.split)
qed

section \<open>Proposals and membership changes\<close>

lemma role_quiet_append: "role_quiet n (append_log_entry e n)"
  by (simp add: role_quiet_def append_log_entry_def)

lemma quiet_replicate_appended: "quiet n (replicate_appended d n)"
proof -
  obtain m xs where m: "advance_commit_index (record_local_progress n) = (m, xs)" by fastforce
  have "role_quiet n (record_local_progress n)"
    using role_quiet_leader_only [OF record_local_progress_leader_only] by simp
  then have q: "quiet n (m, xs)" using quiet_then0 [OF _ quiet_advance_commit_index] m by metis
  from q quiet_then [OF q quiet_broadcast_replication] m show ?thesis
    by (simp add: replicate_appended_def case_prod_unfold Let_def)
qed

lemma quiet_append_proposal: "quiet n (append_proposal i p n)"
  by (auto simp: append_proposal_def Let_def quiet_def role_quiet_def append_log_entry_def split: option.split)

lemma quiet_append_proposals:
  "append_proposals i ps n = (m, xs, b) \<Longrightarrow> quiet n (m, xs)"
proof (induction i ps n arbitrary: m xs b rule: append_proposals.induct)
  case (2 i p ps n)
  show ?case
  proof (cases "payload_fits n p")
    case False
    obtain m1 ys c where l: "append_proposals i ps n = (m1, ys, c)" by (cases "append_proposals i ps n") auto
    with False 2(1) [OF False l] 2(3) show ?thesis by (auto simp: quiet_def reject_too_large_def)
  next
    case True
    obtain n1 o1 where a: "append_proposal i p n = (n1, o1)" by fastforce
    obtain m1 ys c where l: "append_proposals (LogIndex_next i) ps n1 = (m1, ys, c)"
      by (cases "append_proposals (LogIndex_next i) ps n1") auto
    have "quiet n (n1, o1)" using quiet_append_proposal [of n i p] a by simp
    moreover have "quiet n1 (m1, ys)" using 2(2) True a l by simp
    ultimately show ?thesis using quiet_trans True a l 2(3) by auto
  qed
qed simp

lemma quiet_step_client_proposal: "quiet n (step_client_proposal p n)"
proof -
  let ?a = "append_proposal (LogIndex_next (last_log_index n)) p n"
  have "quiet n (fst ?a, snd ?a)" by (simp add: quiet_append_proposal)
  from quiet_then [OF this quiet_replicate_appended] show ?thesis
    by (auto simp: step_client_proposal_def proposal_preflight_rejection_def reject_too_large_def case_prod_unfold
        Let_def split: option.splits if_splits)
qed

lemma quiet_step_proposal_batch: "quiet n (step_proposal_batch ps n)"
proof -
  obtain m xs b where a: "append_proposals (LogIndex_next (last_log_index n)) ps n = (m, xs, b)"
    by (cases "append_proposals (LogIndex_next (last_log_index n)) ps n") auto
  note q = quiet_append_proposals [OF a]
  have "vote_free rs" if "proposal_batch_preflight_rejection n ps = Some rs" for rs
    using that by (auto simp: proposal_batch_preflight_rejection_def list_ex_iff split: if_splits option.splits)
  then show ?thesis
    using q quiet_then [OF q quiet_replicate_appended] a quiet_step_client_proposal
    unfolding step_proposal_batch_def
    by (auto simp: case_prod_unfold Let_def split: list.split option.split)
qed

lemma quiet_proposes: "proposes n c r \<Longrightarrow> quiet n r"
  using quiet_then0 [OF role_quiet_append quiet_replicate_appended] by (auto simp: proposes_def)

lemma quiet_changes: "changes_membership n r \<Longrightarrow> quiet n r"
  by (auto simp: changes_membership_def refused_def dest: quiet_proposes)

lemma quiet_dangerous_raw: "quiet n (dangerous_raw_configuration_proposal c bs n)"
  using quiet_then0 [OF role_quiet_append quiet_replicate_appended]
  by (auto simp: dangerous_raw_configuration_proposal_def append_valid_configuration_proposal_def reject_configuration_def
      reject_proposal_def split: sum.split)

section \<open>Candidacies\<close>

text \<open>The vote an input brings to a candidate.\<close>

fun new_votes :: "Input \<Rightarrow> Node \<Rightarrow> NodeId list" where
  "new_votes (MessageInput k (RequestVoteResponseMsg q)) n =
     (if rvr_vote_granted q \<and> rvr_term q = Node_current_term n \<and> rvr_voter_id q = k then [k] else [])"
| "new_votes _ n = []"

text \<open>
  The votes behind a candidacy after a step: the node's own, for a term it has just begun, or those
  it had collected for the same term before and the ones the input brought.
\<close>

definition backed :: "Node \<Rightarrow> NodeId list \<Rightarrow> Node \<Rightarrow> NodeId list \<Rightarrow> bool" where
  "backed n news n' vs \<longleftrightarrow>
     set vs = {Node_id n} \<and> Node_voted_for n' = Some (Node_id n) \<and> Node_current_term n < Node_current_term n' \<or>
     Node_role n = Candidate \<and> Node_current_term n' = Node_current_term n \<and>
       set vs \<subseteq> set (votes (election n)) \<union> set news"

definition vote_step :: "Node \<Rightarrow> NodeId list \<Rightarrow> Node \<times> Output list \<Rightarrow> bool" where
  "vote_step n news r \<longleftrightarrow>
     (\<forall>k q. Send k (RequestVoteResponseMsg q) \<in> set (snd r) \<longrightarrow> rvr_vote_granted q \<longrightarrow>
        rvr_term q = Node_current_term (fst r) \<and> Node_voted_for (fst r) = Some k \<and> rvr_voter_id q = Node_id n) \<and>
     (Node_role (fst r) = Candidate \<longrightarrow> backed n news (fst r) (votes (election (fst r)))) \<and>
     (Node_role (fst r) = Leader \<longrightarrow>
        Node_role n = Leader \<and> Node_current_term (fst r) = Node_current_term n \<or>
        (\<exists>vs. has_effective_quorum n vs \<and> backed n news (fst r) vs))"

lemma vote_free_no_answer: "vote_free outs \<Longrightarrow> Send k (RequestVoteResponseMsg q) \<notin> set outs"
  by (auto simp: list_ex_iff)

lemma vote_step_quiet: "quiet n r \<Longrightarrow> vote_step n news r"
  by (auto simp: vote_step_def quiet_def role_quiet_def backed_def dest: vote_free_no_answer)

text \<open>A step after the node has become a follower or a poller of the same log.\<close>

lemma vote_step_after:
  assumes "vote_step m [] r" "Node_role m \<in> {Follower, PreCandidate}" "same_log n m" "vote_free xs"
    and "Node_current_term n \<le> Node_current_term m"
  shows "vote_step n news (fst r, xs @ snd r)"
proof -
  have "Node_id m = Node_id n" using assms(3) by (simp add: same_log_def)
  then have b: "backed m [] n' vs \<Longrightarrow> backed n news n' vs" for n' vs
    using assms(2,5) by (auto simp: backed_def)
  have l: "\<exists>vs. has_effective_quorum n vs \<and> backed n news (fst r) vs" if "Node_role (fst r) = Leader"
    using assms(1,2) that b has_effective_quorum_same_log [OF assms(3)] by (auto simp: vote_step_def)
  show ?thesis
    using assms(1) b l \<open>Node_id m = Node_id n\<close> vote_free_no_answer [OF assms(4)]
    by (auto simp: vote_step_def)
qed

text \<open>Winning: the new leader, and its first contact with the cluster.\<close>

definition win_election :: "Node \<Rightarrow> Node \<times> Output list" where
  "win_election n = (let (n, outputs1) = become_leader n; (n, outputs2) = broadcast_append_entries n
     in (n, outputs1 @ outputs2))"

lemma quiet_become_leader: "quiet (map_volatile (\<lambda>v. v\<lparr>role := Leader\<rparr>) n) (become_leader n)"
proof -
  have "role_quiet (map_volatile (\<lambda>v. v\<lparr>role := Leader\<rparr>) n) (leader_start n)"
    by (simp add: role_quiet_def leader_start_def append_log_entry_def enter_leadership_def reset_timeout_def)
  from quiet_then0 [OF role_quiet_trans [OF this role_quiet_leader] quiet_advance_commit_index]
  show ?thesis by (simp add: become_leader_eq Let_def)
qed

lemma quiet_win: "quiet (map_volatile (\<lambda>v. v\<lparr>role := Leader\<rparr>) n) (win_election n)"
proof -
  obtain m xs where m: "become_leader n = (m, xs)" by fastforce
  have "quiet (map_volatile (\<lambda>v. v\<lparr>role := Leader\<rparr>) n) (m, xs)" using quiet_become_leader [of n] m by simp
  from quiet_then [OF this quiet_broadcast] show ?thesis by (simp add: win_election_def m case_prod_unfold Let_def)
qed

lemma win_vote:
  assumes "node_inv c" "Node_role (fst (win_election c)) = Leader"
  shows "Node_current_term (fst (win_election c)) = Node_current_term c"
    "Node_voted_for c = Some v \<Longrightarrow> Node_voted_for (fst (win_election c)) = Some v"
proof -
  show t: "Node_current_term (fst (win_election c)) = Node_current_term c"
    using quiet_win [of c] assms(2) by (auto simp: quiet_def role_quiet_def)
  have "evolves c (fst (win_election c))"
    using good_step_win [OF assms(1)] by (simp add: good_step_def good_def win_election_def)
  from evolves_vote(2) [OF this t] show "Node_voted_for c = Some v \<Longrightarrow> Node_voted_for (fst (win_election c)) = Some v" .
qed

lemma win_roles: "Node_role (fst (win_election c)) \<noteq> Candidate" "vote_free (snd (win_election c))"
  using quiet_win [of c] by (auto simp: quiet_def role_quiet_def)

lemma vote_step_start_election:
  assumes "node_inv n"
  shows "vote_step n [] (start_election n)"
proof (cases rule: start_election_cases [of n])
  case idle
  then have "quiet n (start_election n)" by (simp add: quiet_def role_quiet_def reset_timeout_def)
  then show ?thesis by (rule vote_step_quiet)
next
  case (campaign c outs)
  have "vote_free outs" by (auto simp: campaign(3) list_ex_iff)
  then show ?thesis
    using vote_free_no_answer [of outs]
    by (auto simp: vote_step_def campaign(5) campaign(2) backed_def candidate_of_def begin_election_def insort_insert_key_def)
next
  case (win c outs)
  have inv: "node_inv c" using good_candidate_of [OF assms] by (simp add: win(2) good_inv)
  have same: "same_log n c" by (simp add: win(2) candidate_of_def same_log_def)
  have vs: "votes (election c) = [Node_id n]"
    by (simp add: win(2) candidate_of_def begin_election_def insort_insert_key_def)
  have "vote_free outs" by (auto simp: win(3) list_ex_iff)
  moreover have r: "start_election n = (fst (win_election c), outs @ snd (win_election c))"
    by (simp add: win(5) win_election_def case_prod_unfold Let_def)
  moreover have "has_effective_quorum n (votes (election c))"
    using win(4) has_effective_quorum_same_log [OF same] by simp
  moreover have "backed n [] (fst (win_election c)) (votes (election c))"
    if "Node_role (fst (win_election c)) = Leader"
    using win_vote [OF inv that] by (simp add: backed_def vs) (simp add: win(2) candidate_of_def)
  ultimately show ?thesis
    using win_roles [of c] vote_free_no_answer [of "outs @ snd (win_election c)"]
    unfolding vote_step_def by auto
qed

lemma vote_step_start_pre_vote_round:
  assumes "node_inv n"
  shows "vote_step n news (start_pre_vote_round n)"
proof -
  let ?m = "n\<lparr>volatile := (volatile n)\<lparr>role := PreCandidate, leader_hint := None\<rparr>,
      election := begin_pre_vote (Node_id n) (election n)\<rparr>"
  have same: "same_log n ?m" by (simp add: same_log_def)
  have m: "node_inv ?m"
    by (rule node_inv_same_log [OF assms same]) (use assms in \<open>simp_all add: node_inv_def\<close>)
  have free: "vote_free (map (\<lambda>to_id. Send to_id (PreVoteMsg q)) vs)" for q vs by (auto simp: list_ex_iff)
  have "vote_step n news (fst (start_election ?m), map (\<lambda>to_id. Send to_id (PreVoteMsg q)) vs @ snd (start_election ?m))"
    for q vs by (rule vote_step_after [OF vote_step_start_election [OF m] _ same free]) simp_all
  moreover have "quiet n (?m, map (\<lambda>to_id. Send to_id (PreVoteMsg q)) vs)" for q vs
    using free by (simp add: quiet_def role_quiet_def)
  moreover have "quiet n (map_election reset_timeout n, [])" by (simp add: quiet_def role_quiet_def reset_timeout_def)
  ultimately show ?thesis
    using vote_step_quiet unfolding start_pre_vote_round_def Let_def
    by (auto simp: case_prod_unfold split: option.split)
qed

lemma become_follower_role_set: "Node_role (fst (become_follower t n)) \<in> {Follower, PreCandidate}"
  by (simp add: become_follower_frame)

lemma vote_step_handle_timeout_now:
  assumes "node_inv n"
  shows "vote_step n news (handle_timeout_now t n)"
proof -
  let ?m = "fst (become_follower t n)"
  have "vote_step n news (fst (start_election ?m), snd (become_follower t n) @ snd (start_election ?m))"
    by (rule vote_step_after [OF vote_step_start_election become_follower_role_set become_follower_same_log])
      (use good_inv [OF good_become_follower [OF assms, of t]] in \<open>simp_all add: become_follower_frame\<close>)
  then show ?thesis
    using vote_step_quiet [of n "(n, [])"] by (simp add: handle_timeout_now_def case_prod_unfold Let_def)
qed

lemma vote_step_handle_pre_vote: "vote_step n news (handle_pre_vote k r n)"
  by (rule vote_step_quiet) (simp add: handle_pre_vote_def Let_def)

lemma vote_step_handle_pre_vote_response:
  assumes "node_inv n"
  shows "vote_step n news (handle_pre_vote_response k r n)"
proof -
  let ?m = "if pvr_vote_granted r then map_election (record_pre_vote k) n else n"
  have same: "same_log n ?m" by (simp add: same_log_def)
  have inv: "node_inv ?m" using assms good_inv [OF good_election [OF assms]] by simp
  have start: "vote_step n news (start_election ?m)" if "Node_role n = PreCandidate"
    using vote_step_after [OF vote_step_start_election [OF inv] _ same, of "[]" news] that by (simp split: if_splits)
  have "quiet n (?m, [])" by (simp add: quiet_def role_quiet_def record_pre_vote_def)
  then have "vote_step n news (?m, [])" "vote_step n news (n, [])" "vote_step n news (become_follower t n)" for t
    by (simp_all add: vote_step_quiet)
  with start show ?thesis
    unfolding handle_pre_vote_response_def Let_def by (auto split: option.split)
qed

lemma vote_step_handle_request_vote: "vote_step n news (handle_request_vote k r n)"
proof -
  obtain n' outs where h: "handle_request_vote k r n = (n', outs)" by fastforce
  note facts = handle_request_vote_outcome [OF h]
  have role: "role_quiet n n'"
  proof -
    obtain m out where m: "(if rv_term r > Node_current_term n then become_follower (rv_term r) n else (n, [])) = (m, out)"
      by fastforce
    have "role_quiet n m"
      using m role_quiet_follower become_follower_frame(9) [of "rv_term r" n] by (auto split: if_splits)
    moreover have "n' = m \<or> n' = map_election reset_timeout (map_persistent (\<lambda>p. p\<lparr>voted_for := Some k\<rparr>) m)"
      using h unfolding handle_request_vote_def m Let_def prod.case by (simp split: if_splits)
    then have "role_quiet m n'" by (auto simp: role_quiet_def reset_timeout_def)
    ultimately show ?thesis by (rule role_quiet_trans)
  qed
  have "rvr_term q = Node_current_term n' \<and> Node_voted_for n' = Some j \<and> rvr_voter_id q = Node_id n"
    if "Send j (RequestVoteResponseMsg q) \<in> set outs" "rvr_vote_granted q" for j q
    using facts that by auto
  with vote_step_quiet [of n "(n', [])" news] role h show ?thesis
    by (simp add: vote_step_def quiet_def)
qed

lemma vote_step_handle_request_vote_response:
  assumes "node_inv n" "rvr_voter_id q = k"
  shows "vote_step n (new_votes (MessageInput k (RequestVoteResponseMsg q)) n) (handle_request_vote_response k q n)"
    (is "vote_step n ?news _")
proof (cases "rvr_term q > Node_current_term n \<or> Node_role n \<noteq> Candidate \<or> rvr_term q \<noteq> Node_current_term n \<or>
    \<not> is_effective_voter n (Node_id n)")
  case True
  then have "quiet n (handle_request_vote_response k q n)" by (auto simp: handle_request_vote_response_def)
  then show ?thesis by (rule vote_step_quiet)
next
  case False
  let ?m = "if rvr_vote_granted q then map_election (record_vote k) n else n"
  have inv: "node_inv ?m" using assms good_inv [OF good_election [OF assms(1)]] by simp
  have same: "same_log n ?m" by (simp add: same_log_def)
  have vs: "set (votes (election ?m)) \<subseteq> set (votes (election n)) \<union> set ?news"
    using False assms(2) by (auto simp: record_vote_def set_insort_insert)
  have r: "handle_request_vote_response k q n =
      (if has_effective_quorum ?m (votes (election ?m)) then win_election ?m else (?m, []))"
    using False by (simp add: handle_request_vote_response_def win_election_def Let_def)
  show ?thesis
  proof (cases "has_effective_quorum ?m (votes (election ?m))")
    case True
    then have "has_effective_quorum n (votes (election ?m))" using has_effective_quorum_same_log [OF same] by simp
    moreover have "backed n ?news (fst (win_election ?m)) (votes (election ?m))"
      if "Node_role (fst (win_election ?m)) = Leader"
      using win_vote(1) [OF inv that] False vs by (simp add: backed_def)
    ultimately show ?thesis
      using True win_roles [of ?m] vote_free_no_answer [OF win_roles(2) [of ?m]] unfolding r vote_step_def by auto
  next
    case no_quorum: False
    then show ?thesis using False vs unfolding r vote_step_def by (auto simp: backed_def)
  qed
qed

lemma quiet_tick_leader:
  assumes "Node_role n = Leader"
  shows "quiet n (tick n)"
proof -
  let ?a = "map_leader (\<lambda>l. l\<lparr>ticks := ticks l + 1, heartbeat_elapsed := sat_add (heartbeat_elapsed l) 1\<rparr>) n"
  let ?b = "tick_leadership_transfer (tick_read_lease ?a)"
  have "role_quiet n ?b"
    using role_quiet_leader_only [OF leader_only_trans0 [OF leader_only_trans0 [OF leader_only_update
      tick_read_lease_leader_only] tick_leadership_transfer_leader_only]] by fastforce
  moreover have "quiet m (fst (tick_check_quorum m), case snd (tick_check_quorum m) of None \<Rightarrow> [] | Some outs \<Rightarrow> outs)" for m
    by (auto simp: tick_check_quorum_def Let_def case_prod_unfold quiet_def role_quiet_def become_follower_frame)
  ultimately have q: "quiet n (fst (tick_check_quorum ?b), case snd (tick_check_quorum ?b) of None \<Rightarrow> [] | Some outs \<Rightarrow> outs)"
    using quiet_then0 by blast
  then have "role_quiet n (fst (tick_check_quorum ?b))" by (simp add: quiet_def)
  from quiet_then0 [OF this quiet_broadcast] q this assms show ?thesis
    by (cases "tick_check_quorum ?b"; cases "snd (tick_check_quorum ?b)") (auto simp: tick_def Let_def quiet_def)
qed

lemma vote_step_tick:
  assumes "node_inv n"
  shows "vote_step n [] (tick n)"
proof (cases "Node_role n = Leader")
  case True
  then show ?thesis by (intro vote_step_quiet quiet_tick_leader)
next
  case False
  let ?m = "map_election advance_timeout n"
  have inv: "node_inv ?m" using good_inv [OF good_election [OF assms]] .
  have lift: "vote_step n [] r" if "vote_step ?m [] r" for r
  proof -
    have "has_effective_quorum ?m vs = has_effective_quorum n vs" for vs
      by (rule has_effective_quorum_same_log) (simp add: same_log_def)
    then show ?thesis using that by (simp add: vote_step_def backed_def advance_timeout_def)
  qed
  have "quiet n (?m, [])" by (simp add: quiet_def role_quiet_def advance_timeout_def)
  then show ?thesis
    using False lift [OF vote_step_start_election [OF inv]] lift [OF vote_step_start_pre_vote_round [OF inv]]
    by (auto simp: tick_def Let_def vote_step_quiet)
qed

lemma vote_step_receive:
  assumes "node_inv n"
  shows "vote_step n (new_votes (MessageInput k m) n) (receive k m n)"
proof (cases "message_sender_matches k m")
  case True
  then show ?thesis
    using assms
    by (cases m) (simp_all add: receive_def vote_step_quiet quiet_handle_append_entries quiet_handle_append_entries_response
        quiet_handle_install_snapshot quiet_handle_install_snapshot_chunk quiet_handle_install_snapshot_response
        vote_step_handle_pre_vote vote_step_handle_pre_vote_response vote_step_handle_timeout_now
        vote_step_handle_request_vote vote_step_handle_request_vote_response del: new_votes.simps)
qed (simp add: receive_def vote_step_quiet)

lemma vote_step_step:
  assumes "node_inv n" "input_wf inp"
  shows "vote_step n (new_votes inp n) (step inp n)"
proof (cases inp)
  case Tick
  then show ?thesis using vote_step_tick [OF assms(1)] by simp
next
  case (MessageInput k m)
  then show ?thesis using vote_step_receive [OF assms(1)] by simp
qed (use assms in \<open>simp_all add: vote_step_quiet quiet_step_client_proposal quiet_changes changes_add_learner
      changes_promote_learner changes_remove_voter changes_enter_joint changes_leave_joint changes_change_membership
      quiet_dangerous_raw quiet_transfer_leadership Node_read_index_def quiet_read_index_batch\<close>)

end
