(* ===== verification/Local_Snapshot.thy ===== *)
theory Local_Snapshot
  imports Samples
begin

text \<open>
  Application-driven compaction: \<open>node/local_snapshot.rs\<close>, \<open>check_local_snapshot\<close> and
  \<open>install_local_snapshot\<close> of \<open>node/log.rs\<close>. An accepted descriptor compacts the log without
  moving commitment or dispatch; a descriptor that declares its committed configuration keeps the
  membership, one that declares none can lose it.
\<close>

section \<open>Operations\<close>

datatype LocalSnapshotInstallError =
    BoundaryBelowInstalledSnapshot LogIndex LogIndex
  | BoundaryAheadOfCommit LogIndex LogIndex
  | BoundaryAheadOfApplied LogIndex LogIndex
  | BoundaryTermMismatch LogIndex Term "Term option"
  | CommittedMembershipMismatch LogIndex MembershipConfig MembershipConfig
  | CommittedConfigurationMismatch LogIndex "CommittedConfiguration option" "CommittedConfiguration option"
  | WriterNotBoundaryReplica LogIndex NodeId MembershipConfig

definition check_local_snapshot ::
    "Node \<Rightarrow> RaftSnapshot \<Rightarrow> LocalSnapshotInstallError + CommittedConfiguration option" where
  "check_local_snapshot n snap =
     (let snap_index = last_included_index (metadata snap);
          installed = snapshot_index n;
          snap_term = last_included_term (metadata snap);
          local_term = term_at n snap_index;
          committed = committed_configuration_state_at n snap_index;
          boundary = membership_at_index n snap_index;
          writer = writer_id (metadata snap);
          author = (if \<not> contains_replica boundary writer
                    then Inl (WriterNotBoundaryReplica snap_index writer boundary)
                    else Inr committed)
      in if snap_index < installed then Inl (BoundaryBelowInstalledSnapshot snap_index installed)
         else if snap_index > Node_commit_index n
         then Inl (BoundaryAheadOfCommit snap_index (Node_commit_index n))
         else if snap_index > Node_dispatched_index n
         then Inl (BoundaryAheadOfApplied snap_index (Node_dispatched_index n))
         else if local_term \<noteq> Some snap_term
         then Inl (BoundaryTermMismatch snap_index snap_term local_term)
         else case meta_committed_configuration (metadata snap) of
             Some declared \<Rightarrow>
               if scc_membership declared \<noteq> boundary
               then Inl (CommittedMembershipMismatch snap_index boundary (scc_membership declared))
               else if scc_configuration declared \<noteq> committed
               then Inl (CommittedConfigurationMismatch snap_index committed (scc_configuration declared))
               else author
           | None \<Rightarrow> author)"

record PreparedLocalSnapshotInstall =
  pls_snapshot :: RaftSnapshot
  pls_committed_configuration :: "CommittedConfiguration option"
  pls_retired_len :: usize

definition prepare_local_snapshot_install ::
    "Node \<Rightarrow> RaftSnapshot \<Rightarrow> LocalSnapshotInstallError + PreparedLocalSnapshotInstall" where
  "prepare_local_snapshot_install n snap =
     (case check_local_snapshot n snap of
        Inl e \<Rightarrow> Inl e
      | Inr cc \<Rightarrow>
          let boundary_index = last_included_index (metadata snap);
              installed_index = snapshot_index n
          in case checked_sub boundary_index installed_index of
               None \<Rightarrow> Inl (BoundaryBelowInstalledSnapshot boundary_index installed_index)
             | Some retired_delta \<Rightarrow>
                 Inr \<lparr>pls_snapshot = snap, pls_committed_configuration = cc,
                      pls_retired_len = retained_log_offset retired_delta\<rparr>)"

definition finish_local_snapshot_install ::
    "RaftSnapshot \<Rightarrow> CommittedConfiguration option \<Rightarrow> usize \<Rightarrow> Node \<Rightarrow> Node \<times> Output list" where
  "finish_local_snapshot_install snap cc retired_len n =
     (let n = map_volatile (\<lambda>v. v\<lparr>incoming_snapshot := None\<rparr>) n;
          n = n\<lparr>derived := ci_compact_prefix (derived n) retired_len\<rparr>;
          n = map_persistent (\<lambda>p. p\<lparr>snapshot := Some snap, committed_configuration := cc\<rparr>) n
      in reconcile_local_proposals n)"

definition install_local_snapshot_state ::
    "RaftSnapshot \<Rightarrow> CommittedConfiguration option \<Rightarrow> usize \<Rightarrow> Node \<Rightarrow> Node \<times> Output list" where
  "install_local_snapshot_state snap cc retired_len n =
     finish_local_snapshot_install snap cc retired_len
       (map_persistent (\<lambda>p. p\<lparr>log := drop retired_len (log p)\<rparr>) n)"

definition install_local_snapshot_state_deferred_drop ::
    "RaftSnapshot \<Rightarrow> CommittedConfiguration option \<Rightarrow> usize \<Rightarrow> Node \<Rightarrow> Node \<times> Output list \<times> LogEntry list" where
  "install_local_snapshot_state_deferred_drop snap cc retired_len n =
     (let (n, retired) =
            (if retired_len = 0 then (n, [])
             else (map_persistent (\<lambda>p. p\<lparr>log := drop retired_len (log p)\<rparr>) n, take retired_len (Node_log n)));
          (n, outputs) = finish_local_snapshot_install snap cc retired_len n
      in (n, outputs, retired))"

definition retired_payload_bytes :: "LogEntry list \<Rightarrow> usize" where
  "retired_payload_bytes es =
     fold (\<lambda>e total. sat_add total (case application_payload (entry_kind e) of Some p \<Rightarrow> length p | None \<Rightarrow> 0)) es 0"

definition prepared_commit :: "PreparedLocalSnapshotInstall \<Rightarrow> Node \<Rightarrow> Node \<times> Output list" where
  "prepared_commit p n =
     install_local_snapshot_state (pls_snapshot p) (pls_committed_configuration p) (pls_retired_len p) n"

definition commit_with_retired_entries ::
    "PreparedLocalSnapshotInstall \<Rightarrow> Node \<Rightarrow> Node \<times> Output list \<times> LogEntry list" where
  "commit_with_retired_entries p n =
     install_local_snapshot_state_deferred_drop (pls_snapshot p) (pls_committed_configuration p)
       (pls_retired_len p) n"

definition install_local_snapshot ::
    "RaftSnapshot \<Rightarrow> Node \<Rightarrow> Node \<times> (LocalSnapshotInstallError + Output list)" where
  "install_local_snapshot snap n =
     (case prepare_local_snapshot_install n snap of
        Inl e \<Rightarrow> (n, Inl e)
      | Inr p \<Rightarrow> let (n, outputs) = prepared_commit p n in (n, Inr outputs))"

section \<open>What an accepted descriptor satisfies\<close>

lemma check_local_snapshot_ok:
  assumes "check_local_snapshot n snap = Inr cc"
  shows "snapshot_index n \<le> last_included_index (metadata snap)"
    "last_included_index (metadata snap) \<le> Node_dispatched_index n"
    "term_at n (last_included_index (metadata snap)) = Some (last_included_term (metadata snap))"
    "meta_committed_configuration (metadata snap) = Some c \<Longrightarrow>
       scc_membership c = membership_at_index n (last_included_index (metadata snap))"
    "cc = committed_configuration_state_at n (last_included_index (metadata snap))"
  using assms by (auto simp: check_local_snapshot_def Let_def split: if_splits option.splits)

lemma prepare_local_snapshot_install_ok:
  assumes "prepare_local_snapshot_install n snap = Inr p"
  shows "check_local_snapshot n snap = Inr (pls_committed_configuration p)" "pls_snapshot p = snap"
    "pls_retired_len p = last_included_index (metadata snap) - snapshot_index n"
  using assms
  by (auto simp: prepare_local_snapshot_install_def Let_def checked_sub_def retained_log_offset_def
      split: sum.splits option.splits if_splits)

section \<open>Configurations of a log and of its parts\<close>

lemma find_rev_last:
  "List.find P (rev xs) = (if filter P xs = [] then None else Some (last (filter P xs)))"
  by (induction xs rule: rev_induct) auto

lemma configuration_entry_at_append:
  "configuration_entry_at (xs @ ys) i =
     (if i < length xs then configuration_entry_at xs i else configuration_entry_at ys (i - length xs))"
  by (auto simp: configuration_entry_at_def get_def nth_append)

lemma ci_last_less: "ci_from_log lg \<noteq> [] \<Longrightarrow> last (ci_from_log lg) < length lg"
  using last_in_set [of "ci_from_log lg"] by (auto simp: set_ci_from_log)

text \<open>The effective entry of a log, from its configuration entries alone.\<close>

lemma effective_entry_snoc:
  "ci_effective_entry (ci_from_log (lg @ [e])) (lg @ [e]) =
     (case configuration_entry (entry_kind e) of Some c \<Rightarrow> Some c | None \<Rightarrow> ci_effective_entry (ci_from_log lg) lg)"
  using ci_last_less [of lg]
  by (cases "entry_kind e") (auto simp: ci_from_log_snoc ci_record_append_def ci_effective_entry_def
      configuration_entry_at_append configuration_entry_at_def get_def nth_append)

lemma effective_entry_append:
  "ci_effective_entry (ci_from_log (xs @ ys)) (xs @ ys) =
     (case ci_effective_entry (ci_from_log ys) ys of Some c \<Rightarrow> Some c
      | None \<Rightarrow> ci_effective_entry (ci_from_log xs) xs)"
proof (induction ys rule: rev_induct)
  case Nil
  then show ?case by (simp add: ci_effective_entry_def)
next
  case (snoc e ys)
  then show ?case
    using effective_entry_snoc [of "xs @ ys" e] effective_entry_snoc [of ys e]
    by (simp split: option.split)
qed

lemma entry_at_or_before_take:
  assumes "k \<le> length lg" "first + k = Suc b"
  shows "ci_entry_at_or_before (ci_from_log lg) first lg b = ci_effective_entry (ci_from_log (take k lg)) (take k lg)"
proof -
  have "logical_index first i \<le> b \<longleftrightarrow> i < k" for i using assms(2) by (auto simp: logical_index_def)
  then have "filter (\<lambda>i. logical_index first i \<le> b) (ci_from_log lg) = ci_from_log (take k lg)"
    by (simp add: ci_from_log_take ci_truncate_def)
  then have "newest_configuration first lg b =
      (if ci_from_log (take k lg) = [] then None else Some (last (ci_from_log (take k lg))))"
    by (simp add: newest_configuration_def find_rev_last)
  moreover have "configuration_entry_at lg i = configuration_entry_at (take k lg) i" if "i < k" for i
    using that assms(1) by (simp add: configuration_entry_at_def get_def)
  ultimately show ?thesis
    using ci_last_less [of "take k lg"] assms(1)
    by (simp add: ci_entry_at_or_before_newest ci_effective_entry_def)
qed

lemma effective_membership_split:
  assumes "derived_ok n" "k \<le> length (Node_log n)"
  shows "effective_membership n =
    (case ci_effective_entry (ci_from_log (drop k (Node_log n))) (drop k (Node_log n)) of
       Some c \<Rightarrow> membership_config c
     | None \<Rightarrow> membership_at_index n (snapshot_index n + k))"
proof -
  let ?lg = "Node_log n"
  have "ci_effective_entry (derived n) ?lg =
      (case ci_effective_entry (ci_from_log (drop k ?lg)) (drop k ?lg) of Some c \<Rightarrow> Some c
       | None \<Rightarrow> ci_effective_entry (ci_from_log (take k ?lg)) (take k ?lg))"
    using effective_entry_append [of "take k ?lg" "drop k ?lg"] assms(1) by (simp add: derived_ok_def)
  moreover have "ci_entry_at_or_before (derived n) (LogIndex_next (snapshot_index n)) ?lg (snapshot_index n + k) =
      ci_effective_entry (ci_from_log (take k ?lg)) (take k ?lg)"
    using entry_at_or_before_take [OF assms(2)] assms(1) by (simp add: derived_ok_def)
  ultimately show ?thesis
    by (simp add: effective_membership_def effective_configuration_entry_def membership_at_index_def
        effective_base_membership_def snapshot_committed_membership_def split: option.split)
qed

section \<open>Compaction\<close>

lemma finish_local_snapshot_install_eq:
  "\<exists>lp. tracker_wf lp \<and> fst (finish_local_snapshot_install snap cc k n) = n\<lparr>
     persistent := (persistent n)\<lparr>snapshot := Some snap, committed_configuration := cc\<rparr>,
     derived := ci_compact_prefix (derived n) k,
     volatile := (volatile n)\<lparr>incoming_snapshot := None, local_proposals := lp\<rparr>\<rparr>"
proof -
  let ?m = "n\<lparr>persistent := (persistent n)\<lparr>snapshot := Some snap, committed_configuration := cc\<rparr>,
     derived := ci_compact_prefix (derived n) k, volatile := (volatile n)\<lparr>incoming_snapshot := None\<rparr>\<rparr>"
  let ?lp = "fst (fold (reconcile_step ?m) (local_proposals (volatile n)) ([], []))"
  have "tracker_wf ?lp" by (rule fold_reconcile_step_wf) simp
  moreover have "fst (finish_local_snapshot_install snap cc k n) = ?m\<lparr>volatile := (volatile ?m)\<lparr>local_proposals := ?lp\<rparr>\<rparr>"
  proof -
    have "finish_local_snapshot_install snap cc k n = reconcile_local_proposals ?m"
      unfolding finish_local_snapshot_install_def Let_def
      by (rule arg_cong [where f = reconcile_local_proposals]) simp
    then show ?thesis by (simp add: reconcile_local_proposals_eq)
  qed
  ultimately show ?thesis by (intro exI [of _ ?lp]) simp
qed

lemma applies_finish_local_snapshot_install: "applies (snd (finish_local_snapshot_install snap cc k n)) = []"
proof (rule applies_quiet)
  fix out
  assume "out \<in> set (snd (finish_local_snapshot_install snap cc k n))"
  moreover have "\<forall>out\<in>set (snd (fold (reconcile_step m) ps ([], []))). \<exists>p i t. out = LocalProposalDropped p i t LogOverwritten"
    for m ps by (rule fold_reconcile_step_outputs) simp
  ultimately show "applied_entry out = None"
    by (fastforce simp: finish_local_snapshot_install_def reconcile_local_proposals_def case_prod_unfold Let_def)
qed

text \<open>The node an accepted descriptor leads to.\<close>

lemma prepared_commit_eq:
  assumes "prepare_local_snapshot_install n snap = Inr p" "derived_ok n"
    "last_included_index (metadata snap) - snapshot_index n \<le> length (Node_log n)"
  shows "\<exists>lp. tracker_wf lp \<and> fst (prepared_commit p n) = n\<lparr>
     persistent := (persistent n)\<lparr>log := drop (last_included_index (metadata snap) - snapshot_index n) (Node_log n),
       snapshot := Some snap, committed_configuration := pls_committed_configuration p\<rparr>,
     derived := ci_from_log (drop (last_included_index (metadata snap) - snapshot_index n) (Node_log n)),
     volatile := (volatile n)\<lparr>incoming_snapshot := None, local_proposals := lp\<rparr>\<rparr>"
proof -
  let ?k = "pls_retired_len p"
  let ?m = "map_persistent (\<lambda>p. p\<lparr>log := drop ?k (log p)\<rparr>) n"
  obtain lp where "tracker_wf lp" "fst (finish_local_snapshot_install snap (pls_committed_configuration p) ?k ?m) =
     ?m\<lparr>persistent := (persistent ?m)\<lparr>snapshot := Some snap, committed_configuration := pls_committed_configuration p\<rparr>,
       derived := ci_compact_prefix (derived ?m) ?k,
       volatile := (volatile ?m)\<lparr>incoming_snapshot := None, local_proposals := lp\<rparr>\<rparr>"
    using finish_local_snapshot_install_eq by blast
  then show ?thesis
    using assms(2,3) prepare_local_snapshot_install_ok(2,3) [OF assms(1)]
    by (intro exI [of _ lp]) (simp add: prepared_commit_def install_local_snapshot_state_def derived_ok_def
        ci_from_log_drop [symmetric])
qed

lemma term_at_boundary:
  "Node_snapshot n = Some s \<Longrightarrow> last_included_index (metadata s) \<noteq> 0 \<Longrightarrow>
   term_at n (last_included_index (metadata s)) = Some (last_included_term (metadata s))"
  "b = 0 \<Longrightarrow> snapshot_index n = 0 \<Longrightarrow> Node_snapshot n' = Some s \<Longrightarrow> last_included_index (metadata s) = b \<Longrightarrow>
   term_at n' b = term_at n b"
  by (simp_all add: term_at_def snapshot_index_def)

lemma prepared_commit_shape:
  assumes "node_inv n" "prepare_local_snapshot_install n snap = Inr p" "prepared_commit p n = (n', outs)"
  obtains lp k where "tracker_wf lp" "k \<le> length (Node_log n)"
    "snapshot_index n + k = last_included_index (metadata snap)"
    "n' = n\<lparr>persistent := (persistent n)\<lparr>log := drop k (Node_log n), snapshot := Some snap,
       committed_configuration := pls_committed_configuration p\<rparr>, derived := ci_from_log (drop k (Node_log n)),
       volatile := (volatile n)\<lparr>incoming_snapshot := None, local_proposals := lp\<rparr>\<rparr>"
    "pls_retired_len p = k"
proof -
  note ok = prepare_local_snapshot_install_ok [OF assms(2)]
    check_local_snapshot_ok [OF prepare_local_snapshot_install_ok(1) [OF assms(2)]]
  have g: "Node_dispatched_index n \<le> last_log_index n" "derived_ok n"
    using assms(1) by (simp_all add: node_inv_def geometry_ok_def)
  let ?k = "last_included_index (metadata snap) - snapshot_index n"
  have k: "?k \<le> length (Node_log n)" "snapshot_index n + ?k = last_included_index (metadata snap)"
    using ok(4,5) g(1) by (auto simp: last_log_index_def)
  from prepared_commit_eq [OF assms(2) g(2) k(1)] assms(3) k ok(3) that show thesis by auto
qed

lemma prepared_commit_good:
  assumes "node_inv n" "metadata_wf (metadata snap)" "prepare_local_snapshot_install n snap = Inr p"
    and "prepared_commit p n = (n', outs)"
  shows "good n n'" "snapshot_index n' = last_included_index (metadata snap)" "last_log_index n' = last_log_index n"
    "\<And>i. last_included_index (metadata snap) < i \<Longrightarrow> entry_at n' i = entry_at n i"
proof -
  note ok = check_local_snapshot_ok [OF prepare_local_snapshot_install_ok(1) [OF assms(3)]]
  have g: "Node_dispatched_index n \<le> Node_commit_index n" "Node_commit_index n \<le> last_log_index n"
    "membership_sources_wf n"
    using assms(1) by (simp_all add: node_inv_def geometry_ok_def)
  from prepared_commit_shape [OF assms(1,3,4)] obtain lp k where lp: "tracker_wf lp" and k: "k \<le> length (Node_log n)"
    "snapshot_index n + k = last_included_index (metadata snap)"
    and n': "n' = n\<lparr>persistent := (persistent n)\<lparr>log := drop k (Node_log n), snapshot := Some snap,
       committed_configuration := pls_committed_configuration p\<rparr>, derived := ci_from_log (drop k (Node_log n)),
       volatile := (volatile n)\<lparr>incoming_snapshot := None, local_proposals := lp\<rparr>\<rparr>" .
  show si: "snapshot_index n' = last_included_index (metadata snap)" by (simp add: n' snapshot_index_def)
  show last: "last_log_index n' = last_log_index n"
    unfolding last_log_index_def si using k by (simp add: n')
  show entry: "entry_at n' i = entry_at n i" if "last_included_index (metadata snap) < i" for i
  proof -
    have "i - Suc (snapshot_index n) = k + (i - Suc (last_included_index (metadata snap)))" using that k(2) by simp
    then show ?thesis unfolding entry_at_get si using that ok(1) by (simp add: n' get_drop)
  qed
  have "node_inv n'"
    unfolding node_inv_def geometry_ok_def si last using g ok(1,2) lp assms(2)
    by (auto simp: n' derived_ok_def membership_sources_wf_def dest: in_set_dropD)
  then show "good n n'" using ok(1) entry by (auto simp: good_def evolves_def si) (simp_all add: n')
qed

lemma prepared_commit_membership:
  assumes "node_inv n" "prepare_local_snapshot_install n snap = Inr p" "prepared_commit p n = (n', outs)"
    and "meta_committed_configuration (metadata snap) = Some c"
  shows "effective_membership n' = effective_membership n"
proof -
  note ok = check_local_snapshot_ok [OF prepare_local_snapshot_install_ok(1) [OF assms(2)]]
  have d: "derived_ok n" using assms(1) by (simp add: node_inv_def)
  from prepared_commit_shape [OF assms(1-3)] obtain lp k where k: "k \<le> length (Node_log n)"
    "snapshot_index n + k = last_included_index (metadata snap)"
    and n': "n' = n\<lparr>persistent := (persistent n)\<lparr>log := drop k (Node_log n), snapshot := Some snap,
       committed_configuration := pls_committed_configuration p\<rparr>, derived := ci_from_log (drop k (Node_log n)),
       volatile := (volatile n)\<lparr>incoming_snapshot := None, local_proposals := lp\<rparr>\<rparr>" .
  show ?thesis
    using effective_membership_split [OF d k(1)] ok(4) [OF assms(4)] assms(4)
    by (simp add: k(2) effective_membership_def effective_configuration_entry_def n'
        effective_base_membership_def meta_committed_membership_def split: option.split)
qed

lemma prepared_commit_term:
  assumes "node_inv n" "prepare_local_snapshot_install n snap = Inr p" "prepared_commit p n = (n', outs)"
  shows "term_at n' (last_included_index (metadata snap)) = term_at n (last_included_index (metadata snap))"
proof -
  note ok = check_local_snapshot_ok [OF prepare_local_snapshot_install_ok(1) [OF assms(2)]]
  have s: "Node_snapshot n' = Some snap" using prepared_commit_shape [OF assms] by force
  show ?thesis
  proof (cases "last_included_index (metadata snap) = 0")
    case True
    with ok(1) have "snapshot_index n = 0" by simp
    with True show ?thesis by (rule term_at_boundary(2) [OF _ _ s]) simp
  next
    case False
    with term_at_boundary(1) [OF s] ok(3) show ?thesis by simp
  qed
qed

lemma commit_with_retired_entries_eq:
  assumes "node_inv n" "prepare_local_snapshot_install n snap = Inr p" "prepared_commit p n = (n', outs)"
  shows "\<exists>retired. commit_with_retired_entries p n = (n', outs, retired) \<and> retired @ Node_log n' = Node_log n"
proof -
  from prepared_commit_shape [OF assms] obtain lp k where k: "pls_retired_len p = k"
    and n': "n' = n\<lparr>persistent := (persistent n)\<lparr>log := drop k (Node_log n), snapshot := Some snap,
       committed_configuration := pls_committed_configuration p\<rparr>, derived := ci_from_log (drop k (Node_log n)),
       volatile := (volatile n)\<lparr>incoming_snapshot := None, local_proposals := lp\<rparr>\<rparr>" .
  have "commit_with_retired_entries p n = (n', outs, take k (Node_log n))"
    using assms(3) k unfolding commit_with_retired_entries_def install_local_snapshot_state_deferred_drop_def
      prepared_commit_def install_local_snapshot_state_def
    by (cases "k = 0") simp_all
  moreover have "take k (Node_log n) @ Node_log n' = Node_log n" by (simp add: n')
  ultimately show ?thesis by blast
qed

lemma prepared_commit_frame:
  assumes "node_inv n" "prepare_local_snapshot_install n snap = Inr p" "prepared_commit p n = (n', outs)"
  shows "Node_commit_index n' = Node_commit_index n" "Node_dispatched_index n' = Node_dispatched_index n"
    "applies outs = []"
proof -
  show "Node_commit_index n' = Node_commit_index n" "Node_dispatched_index n' = Node_dispatched_index n"
    using prepared_commit_shape [OF assms] by force+
  show "applies outs = []"
    using assms(3) applies_finish_local_snapshot_install
    by (metis install_local_snapshot_state_def prepared_commit_def snd_conv)
qed

text \<open>
  C14: Compaction is safe. Committing an accepted local descriptor keeps the node's invariant, moves
  neither commitment nor dispatch nor the end of the log, applies nothing, keeps every entry above
  the boundary and the term at it; the deferred variant reaches the same node and hands back exactly
  the compacted prefix of the log. A descriptor that declares its committed configuration keeps the
  effective membership.
\<close>

theorem local_compaction_safe:
  assumes "node_inv n" "metadata_wf (metadata snap)" "prepare_local_snapshot_install n snap = Inr p"
    and "prepared_commit p n = (n', outs)"
  shows "node_inv n' \<and> applies outs = [] \<and>
    snapshot_index n' = last_included_index (metadata snap) \<and> last_log_index n' = last_log_index n \<and>
    Node_commit_index n' = Node_commit_index n \<and> Node_dispatched_index n' = Node_dispatched_index n \<and>
    (\<forall>i. last_included_index (metadata snap) < i \<longrightarrow> entry_at n' i = entry_at n i) \<and>
    term_at n' (last_included_index (metadata snap)) = term_at n (last_included_index (metadata snap)) \<and>
    (\<exists>retired. commit_with_retired_entries p n = (n', outs, retired) \<and> retired @ Node_log n' = Node_log n) \<and>
    (meta_committed_configuration (metadata snap) \<noteq> None \<longrightarrow> effective_membership n' = effective_membership n)"
  using prepared_commit_good [OF assms] prepared_commit_frame [OF assms(1,3,4)] prepared_commit_term [OF assms(1,3,4)]
    commit_with_retired_entries_eq [OF assms(1,3,4)] prepared_commit_membership [OF assms(1,3,4)] good_inv [of n n']
  by (intro conjI) blast+

section \<open>A descriptor without a committed configuration\<close>

text \<open>
  A node whose cluster has moved from the voters 1, 2, 3 it was configured with to 1, 4, 5, and its
  snapshot of the prefix that holds the change, with and without the committed configuration.
\<close>

definition sample_moved :: Node where
  "sample_moved = \<lparr>config = sample_config,
     persistent = \<lparr>current_term = 1, voted_for = None, committed_configuration = None, snapshot = None,
       log = [noop_entry 1, configuration_log_entry 1 (StableEntry 1 \<lparr>voters = [1, 4, 5], learners = []\<rparr>),
              application_entry 1 [7]]\<rparr>,
     volatile = (at_dispatched_index 3)\<lparr>commit_index := 3\<rparr>, election = ElectionState_default,
     leader = LeaderState_default, derived = [1]\<rparr>"

definition sample_descriptor :: "SnapshotCommittedConfiguration option \<Rightarrow> RaftSnapshot" where
  "sample_descriptor declared =
     \<lparr>metadata = \<lparr>group_id = [], writer_id = 1, last_included_index = 2, last_included_term = 1,
        hard_state_term = 1, application = \<lparr>app_kind = [], app_version = 1\<rparr>,
        meta_committed_configuration = declared\<rparr>,
      application_payload_len = 0, application_payload_crc32 = 0\<rparr>"

definition sample_declared :: SnapshotCommittedConfiguration where
  "sample_declared = \<lparr>scc_configuration = Some \<lparr>cc_index = 2, cc_config_id = 1\<rparr>,
     scc_membership = StableMembership \<lparr>voters = [1, 4, 5], learners = []\<rparr>\<rparr>"

lemma sample_moved_inv: "node_inv sample_moved"
proof -
  have "snapshot_index sample_moved = 0" by (simp add: snapshot_index_def sample_moved_def)
  then have "geometry_ok sample_moved"
    by (simp add: geometry_ok_def last_log_index_def) (simp add: sample_moved_def at_dispatched_index_def)
  then show ?thesis
    unfolding node_inv_def
    by (simp add: sample_moved_def sample_defs derived_ok_def ci_from_log_def membership_sources_wf_def
        List.map_filter_simps entry_wf_def membership_set_wf_def ordered_def)
qed

lemma sample_moved_view:
  "snapshot_index sample_moved = 0" "term_at sample_moved 2 = Some 1"
  "membership_at_index sample_moved 2 = StableMembership \<lparr>voters = [1, 4, 5], learners = []\<rparr>"
  "committed_configuration_state_at sample_moved 2 = Some \<lparr>cc_index = 2, cc_config_id = 1\<rparr>"
  "Node_commit_index sample_moved = 3" "Node_dispatched_index sample_moved = 3"
proof -
  show si: "snapshot_index sample_moved = 0" by (simp add: snapshot_index_def sample_moved_def)
  have entry: "entry_at sample_moved 2 = Some (configuration_log_entry 1 (StableEntry 1 \<lparr>voters = [1, 4, 5], learners = []\<rparr>))"
    unfolding entry_at_get si by (simp add: sample_moved_def get_def)
  then show "term_at sample_moved 2 = Some 1" using si by (simp add: term_at_above)
  have c: "configuration_entry_at (Node_log sample_moved) 1 = Some (StableEntry 1 \<lparr>voters = [1, 4, 5], learners = []\<rparr>)"
    by (simp add: configuration_entry_at_def get_def sample_moved_def)
  have d: "derived sample_moved = [1]" by (simp add: sample_moved_def)
  have s: "snapshot_committed_configuration_state sample_moved = None"
    "committed_configuration (persistent sample_moved) = None"
    by (simp_all add: snapshot_committed_configuration_state_def sample_moved_def)
  show "membership_at_index sample_moved 2 = StableMembership \<lparr>voters = [1, 4, 5], learners = []\<rparr>"
    unfolding membership_at_index_def ci_entry_at_or_before_def si d using c by (simp add: logical_index_def)
  show "committed_configuration_state_at sample_moved 2 = Some \<lparr>cc_index = 2, cc_config_id = 1\<rparr>"
    unfolding committed_configuration_state_at_def ci_committed_state_at_def si d s using c
    by (simp add: logical_index_def max_by_key_def List.map_filter_simps Let_def)
  show "Node_commit_index sample_moved = 3" "Node_dispatched_index sample_moved = 3"
    by (simp_all add: sample_moved_def at_dispatched_index_def)
qed

lemma sample_moved_prepare:
  assumes "d \<in> {None, Some sample_declared}"
  shows "prepare_local_snapshot_install sample_moved (sample_descriptor d) =
    Inr \<lparr>pls_snapshot = sample_descriptor d, pls_committed_configuration = Some \<lparr>cc_index = 2, cc_config_id = 1\<rparr>,
      pls_retired_len = 2\<rparr>"
proof -
  have "check_local_snapshot sample_moved (sample_descriptor d) = Inr (Some \<lparr>cc_index = 2, cc_config_id = 1\<rparr>)"
    using assms by (auto simp: check_local_snapshot_def Let_def sample_moved_view sample_descriptor_def sample_declared_def
        contains_replica_def)
  then show ?thesis
    by (simp add: prepare_local_snapshot_install_def sample_moved_view checked_sub_def retained_log_offset_def)
      (simp add: sample_descriptor_def)
qed

theorem local_compaction_safe_witness:
  "effective_membership (fst (install_local_snapshot (sample_descriptor (Some sample_declared)) sample_moved)) =
     effective_membership sample_moved"
proof -
  let ?s = "sample_descriptor (Some sample_declared)"
  have "metadata_wf (metadata ?s)" "meta_committed_configuration (metadata ?s) \<noteq> None"
    by (simp_all add: metadata_wf_def sample_descriptor_def sample_declared_def membership_set_wf_def ordered_def)
  then show ?thesis
    using local_compaction_safe [OF sample_moved_inv _ sample_moved_prepare surjective_pairing, of "Some sample_declared"]
      sample_moved_prepare [of "Some sample_declared"]
    by (simp add: install_local_snapshot_def case_prod_unfold Let_def)
qed

text \<open>Installing the undeclared descriptor.\<close>

lemma sample_moved_undeclared:
  obtains m where "install_local_snapshot (sample_descriptor None) sample_moved = (m, Inr [])" "derived m = []"
    "Node_snapshot m = Some (sample_descriptor None)" "config m = sample_config" "Node_current_term m = 1"
    "Node_voted_for m = None" "Node_log m = [application_entry 1 [7]]" "Node_commit_index m = 3"
    "committed_configuration (persistent m) = Some \<lparr>cc_index = 2, cc_config_id = 1\<rparr>"
proof -
  let ?r = "install_local_snapshot (sample_descriptor None) sample_moved"
  obtain p where p: "prepare_local_snapshot_install sample_moved (sample_descriptor None) = Inr p"
    and cc: "pls_committed_configuration p = Some \<lparr>cc_index = 2, cc_config_id = 1\<rparr>"
    using sample_moved_prepare [of None] by simp
  obtain m outs where m: "prepared_commit p sample_moved = (m, outs)" by fastforce
  have r: "?r = (m, Inr outs)" using p m by (simp add: install_local_snapshot_def)
  have lp: "local_proposals (volatile sample_moved) = []" by (simp add: sample_moved_def at_dispatched_index_def)
  have outs: "outs = []"
    using m by (auto simp: prepared_commit_def install_local_snapshot_state_def finish_local_snapshot_install_def
        reconcile_local_proposals_def lp Let_def)
  obtain lp' k where k: "snapshot_index sample_moved + k = last_included_index (metadata (sample_descriptor None))"
    and n': "m = sample_moved\<lparr>persistent := (persistent sample_moved)\<lparr>log := drop k (Node_log sample_moved),
       snapshot := Some (sample_descriptor None), committed_configuration := pls_committed_configuration p\<rparr>,
       derived := ci_from_log (drop k (Node_log sample_moved)),
       volatile := (volatile sample_moved)\<lparr>incoming_snapshot := None, local_proposals := lp'\<rparr>\<rparr>"
    using prepared_commit_shape [OF sample_moved_inv p m] by metis
  have "k = 2" using k by (simp add: sample_moved_view) (simp add: sample_descriptor_def)
  show thesis
    by (rule that [of m]) (use r outs cc \<open>k = 2\<close> in \<open>simp_all add: n'\<close>,
      simp_all add: sample_moved_def ci_from_log_def List.map_filter_simps)
qed

end
