(* ===== verification/Bootstrap.thy ===== *)
theory Bootstrap
  imports Local_Snapshot
begin

text \<open>
  Recovery from durable state: \<open>node/bootstrap\<close> and the constructors of \<open>node/construction.rs\<close>.
  A recovered node satisfies the invariant every step keeps, and what a node has made durable is
  recovered as it was.
\<close>

section \<open>Durable state\<close>

record BootstrapLogEntry =
  ble_index :: LogIndex
  ble_term :: Term
  ble_kind :: LogEntryKind

record BootstrapState =
  bs_current_term :: Term
  bs_voted_for :: "NodeId option"
  bs_commit_index :: LogIndex
  bs_committed_configuration :: "CommittedConfiguration option"
  bs_snapshot :: "RaftSnapshot option"
  bs_log :: "BootstrapLogEntry list"

record BootstrapParts =
  bp_current_term :: Term
  bp_voted_for :: "NodeId option"
  bp_commit_index :: LogIndex
  bp_committed_configuration :: "CommittedConfiguration option"
  bp_snapshot :: "RaftSnapshot option"
  bp_log :: "LogEntry list"

datatype BootstrapValidationError =
    VoteForNonVoter NodeId
  | VoteInZeroTerm NodeId
  | AppliedFloorBeyondLog LogIndex LogIndex
  | AppliedFloorBeyondCommit LogIndex LogIndex
  | NonContiguousLog LogIndex LogIndex
  | ZeroTermLogEntry LogIndex
  | EntryTermAheadOfCurrentTerm LogIndex Term Term
  | SnapshotWriterNotReplica NodeId
  | SnapshotHardStateTermAheadOfCurrentTerm Term Term
  | CompactedLogEntry LogIndex LogIndex
  | SnapshotBoundaryTermMismatch LogIndex Term Term
  | MultipleUncommittedConfigurationEntries LogIndex LogIndex
  | CommitIndexBeyondLog LogIndex LogIndex
  | CommittedConfigurationAheadOfCommit LogIndex LogIndex
  | CommittedConfigurationMissing LogIndex
  | CommittedConfigurationIdMismatch LogIndex ConfigurationId ConfigurationId
  | CommittedConfigurationNotLatest LogIndex LogIndex
  | CompactedCommittedConfigurationWithoutSnapshotMembership LogIndex
  | LogIndexAtMaximum LogIndex

section \<open>Validation\<close>

definition meta_index :: "RaftSnapshotMetadata option \<Rightarrow> LogIndex" where
  "meta_index m = (case m of None \<Rightarrow> 0 | Some m \<Rightarrow> last_included_index m)"

definition validate_floor :: "CommittedConfiguration \<Rightarrow> LogIndex \<Rightarrow> BootstrapValidationError + unit" where
  "validate_floor state floor =
     (if cc_index state > floor then Inl (CommittedConfigurationAheadOfCommit (cc_index state) floor) else Inr ())"

definition validate_identity ::
    "CommittedConfiguration \<Rightarrow> CommittedConfiguration \<Rightarrow> BootstrapValidationError + unit" where
  "validate_identity expected actual =
     (if cc_index expected = cc_index actual \<and> cc_config_id expected \<noteq> cc_config_id actual
      then Inl (CommittedConfigurationIdMismatch (cc_index expected) (cc_config_id expected) (cc_config_id actual))
      else Inr ())"

definition missing :: "CommittedConfiguration \<Rightarrow> BootstrapValidationError" where
  "missing state = CommittedConfigurationMissing (cc_index state)"

definition stored_configuration_ok ::
    "CommittedConfiguration \<Rightarrow> RaftSnapshotMetadata option \<Rightarrow> LogEntry list \<Rightarrow> LogIndex \<Rightarrow>
     BootstrapValidationError + unit" where
  "stored_configuration_ok stored snap lg commit =
     (let snap_index = meta_index snap;
          captured = Option.bind snap meta_committed_configuration_state
      in case validate_floor stored commit of
           Inl e \<Rightarrow> Inl e
         | Inr _ \<Rightarrow>
             if cc_index stored > snap_index then
               (case Option.bind (get lg (cc_index stored - snap_index - 1)) (\<lambda>e. configuration_entry (entry_kind e)) of
                  None \<Rightarrow> Inl (missing stored)
                | Some e \<Rightarrow> validate_identity stored \<lparr>cc_index = cc_index stored, cc_config_id = config_id e\<rparr>)
             else if Option.bind snap meta_committed_membership = None
             then Inl (CompactedCommittedConfigurationWithoutSnapshotMembership (cc_index stored))
             else (case captured of
                 None \<Rightarrow> Inr ()
               | Some captured \<Rightarrow>
                   if cc_index stored > cc_index captured then Inl (missing stored)
                   else validate_identity stored captured))"

definition retained_configuration :: "LogIndex \<Rightarrow> LogEntry list \<Rightarrow> LogIndex \<Rightarrow> CommittedConfiguration option" where
  "retained_configuration snap_index lg commit =
     find_map (\<lambda>(offset, e).
         let index = snap_index + offset + 1
         in if index \<le> commit
            then map_option (\<lambda>c. \<lparr>cc_index = index, cc_config_id = config_id c\<rparr>) (configuration_entry (entry_kind e))
            else None) (rev (enumerate 0 lg))"

definition recover_configuration ::
    "CommittedConfiguration option \<Rightarrow> RaftSnapshotMetadata option \<Rightarrow> LogEntry list \<Rightarrow> LogIndex \<Rightarrow>
     BootstrapValidationError + CommittedConfiguration option" where
  "recover_configuration stored snap lg commit =
     (let snap_index = meta_index snap;
          captured = Option.bind snap meta_committed_configuration_state
      in case (case captured of None \<Rightarrow> Inr () | Some c \<Rightarrow> validate_floor c snap_index) of
           Inl e \<Rightarrow> Inl e
         | Inr _ \<Rightarrow>
             (case (case stored of None \<Rightarrow> Inr () | Some s \<Rightarrow> stored_configuration_ok s snap lg commit) of
                Inl e \<Rightarrow> Inl e
              | Inr _ \<Rightarrow> Inr (max_by_key cc_index (List.map_filter (\<lambda>x. x)
                  [stored, captured, retained_configuration snap_index lg commit]))))"

fun check_boundary_configurations ::
    "BootstrapLogEntry \<Rightarrow> CommittedConfiguration list \<Rightarrow> BootstrapValidationError + unit" where
  "check_boundary_configurations e [] = Inr ()"
| "check_boundary_configurations e (expected # rest) =
     (case configuration_entry (ble_kind e) of
        None \<Rightarrow> Inl (missing expected)
      | Some actual \<Rightarrow>
          (case validate_identity expected \<lparr>cc_index = ble_index e, cc_config_id = config_id actual\<rparr> of
             Inl err \<Rightarrow> Inl err
           | Inr _ \<Rightarrow> check_boundary_configurations e rest))"

definition validate_boundary_configuration ::
    "BootstrapLogEntry \<Rightarrow> RaftSnapshotMetadata \<Rightarrow> CommittedConfiguration option \<Rightarrow> BootstrapValidationError + unit" where
  "validate_boundary_configuration e snap stored =
     check_boundary_configurations e
       (filter (\<lambda>s. cc_index s = ble_index e)
         (List.map_filter (\<lambda>x. x) [stored, meta_committed_configuration_state snap]))"

definition validate_boundary_entry :: "BootstrapLogEntry \<Rightarrow> RaftSnapshotMetadata \<Rightarrow> BootstrapValidationError + unit" where
  "validate_boundary_entry e snap =
     (if ble_term e \<noteq> last_included_term snap
      then Inl (SnapshotBoundaryTermMismatch (ble_index e) (last_included_term snap) (ble_term e))
      else Inr ())"

record LogValidation =
  lv_snapshot :: "RaftSnapshotMetadata option"
  lv_current_term :: Term
  lv_commit_index :: LogIndex
  lv_stored :: "CommittedConfiguration option"
  lv_expected_index :: LogIndex
  lv_last_log_index :: LogIndex
  lv_log :: "LogEntry list"

definition LogValidation_new ::
    "RaftSnapshotMetadata option \<Rightarrow> Term \<Rightarrow> LogIndex \<Rightarrow> CommittedConfiguration option \<Rightarrow> LogValidation" where
  "LogValidation_new snap trm commit stored =
     \<lparr>lv_snapshot = snap, lv_current_term = trm, lv_commit_index = max commit (meta_index snap),
      lv_stored = stored, lv_expected_index = LogIndex_next (meta_index snap),
      lv_last_log_index = meta_index snap, lv_log = []\<rparr>"

definition validate_retained_entry :: "LogValidation \<Rightarrow> BootstrapLogEntry \<Rightarrow> BootstrapValidationError + unit" where
  "validate_retained_entry v e =
     (if ble_index e \<noteq> lv_expected_index v then Inl (NonContiguousLog (lv_expected_index v) (ble_index e))
      else if ble_term e = 0 then Inl (ZeroTermLogEntry (ble_index e))
      else if ble_term e > lv_current_term v
      then Inl (EntryTermAheadOfCurrentTerm (ble_index e) (ble_term e) (lv_current_term v))
      else case checked_add (ble_index e) 1 of None \<Rightarrow> Inl (LogIndexAtMaximum (ble_index e)) | Some _ \<Rightarrow> Inr ())"

definition accept_retained :: "LogValidation \<Rightarrow> BootstrapLogEntry \<Rightarrow> BootstrapValidationError + LogValidation" where
  "accept_retained v e =
     (case validate_retained_entry v e of
        Inl err \<Rightarrow> Inl err
      | Inr _ \<Rightarrow> Inr (v\<lparr>lv_expected_index := LogIndex_next (ble_index e), lv_last_log_index := ble_index e,
                       lv_log := lv_log v @ [\<lparr>entry_term = ble_term e, entry_kind = ble_kind e\<rparr>]\<rparr>))"

definition lv_accept :: "LogValidation \<Rightarrow> BootstrapLogEntry \<Rightarrow> BootstrapValidationError + LogValidation" where
  "lv_accept v e =
     (let snap_index = meta_index (lv_snapshot v)
      in if ble_index e < snap_index then Inl (CompactedLogEntry snap_index (ble_index e))
         else case (ble_index e = snap_index, lv_snapshot v) of
             (True, Some snap) \<Rightarrow>
               (case validate_boundary_entry e snap of
                  Inl err \<Rightarrow> Inl err
                | Inr _ \<Rightarrow>
                    (case validate_boundary_configuration e snap (lv_stored v) of
                       Inl err \<Rightarrow> Inl err
                     | Inr _ \<Rightarrow> Inr v))
           | _ \<Rightarrow> accept_retained v e)"

fun lv_accept_all :: "BootstrapLogEntry list \<Rightarrow> LogValidation \<Rightarrow> BootstrapValidationError + LogValidation" where
  "lv_accept_all [] v = Inr v"
| "lv_accept_all (e # es) v = (case lv_accept v e of Inl err \<Rightarrow> Inl err | Inr v \<Rightarrow> lv_accept_all es v)"

definition lv_finish :: "LogValidation \<Rightarrow> BootstrapValidationError + LogEntry list" where
  "lv_finish v =
     (if lv_commit_index v > lv_last_log_index v
      then Inl (CommitIndexBeyondLog (lv_commit_index v) (lv_last_log_index v)) else Inr (lv_log v))"

definition validate_log ::
    "BootstrapLogEntry list \<Rightarrow> RaftSnapshotMetadata option \<Rightarrow> Term \<Rightarrow> LogIndex \<Rightarrow> CommittedConfiguration option \<Rightarrow>
     BootstrapValidationError + LogEntry list" where
  "validate_log es snap trm commit stored =
     (case lv_accept_all es (LogValidation_new snap trm commit stored) of Inl err \<Rightarrow> Inl err | Inr v \<Rightarrow> lv_finish v)"

definition validate_vote :: "BootstrapState \<Rightarrow> BootstrapValidationError + unit" where
  "validate_vote b =
     (case bs_voted_for b of
        None \<Rightarrow> Inr ()
      | Some voted \<Rightarrow> if bs_current_term b = 0 then Inl (VoteInZeroTerm voted) else Inr ())"

definition snapshot_writer_is_replica :: "RaftSnapshotMetadata \<Rightarrow> NodeConfig \<Rightarrow> bool" where
  "snapshot_writer_is_replica m c =
     (case meta_committed_membership m of
        None \<Rightarrow> contains_replica (static_membership c) (writer_id m)
      | Some membership \<Rightarrow> contains_replica membership (writer_id m))"

definition validate_snapshot :: "BootstrapState \<Rightarrow> NodeConfig \<Rightarrow> BootstrapValidationError + unit" where
  "validate_snapshot b c =
     (case bs_snapshot b of
        None \<Rightarrow> Inr ()
      | Some snap \<Rightarrow>
          if hard_state_term (metadata snap) > bs_current_term b
          then Inl (SnapshotHardStateTermAheadOfCurrentTerm (hard_state_term (metadata snap)) (bs_current_term b))
          else if snapshot_writer_is_replica (metadata snap) c then Inr ()
          else Inl (SnapshotWriterNotReplica (writer_id (metadata snap))))"

definition into_parts :: "BootstrapState \<Rightarrow> NodeConfig \<Rightarrow> BootstrapValidationError + BootstrapParts" where
  "into_parts b c =
     (case validate_vote b of Inl e \<Rightarrow> Inl e | Inr _ \<Rightarrow>
      case validate_snapshot b c of Inl e \<Rightarrow> Inl e | Inr _ \<Rightarrow>
      (let snap = map_option metadata (bs_snapshot b) in
       case validate_log (bs_log b) snap (bs_current_term b) (bs_commit_index b) (bs_committed_configuration b) of
         Inl e \<Rightarrow> Inl e
       | Inr lg \<Rightarrow>
           (let commit = max (bs_commit_index b) (meta_index snap) in
            case recover_configuration (bs_committed_configuration b) snap lg commit of
              Inl e \<Rightarrow> Inl e
            | Inr cc \<Rightarrow>
                Inr \<lparr>bp_current_term = bs_current_term b, bp_voted_for = bs_voted_for b, bp_commit_index = commit,
                     bp_committed_configuration = cc, bp_snapshot = bs_snapshot b, bp_log = lg\<rparr>)))"

section \<open>Construction\<close>

definition from_bootstrap :: "NodeConfig \<Rightarrow> BootstrapState \<Rightarrow> BootstrapValidationError + Node" where
  "from_bootstrap c b =
     (case into_parts b c of
        Inl e \<Rightarrow> Inl e
      | Inr parts \<Rightarrow>
          let dispatched = (case bp_snapshot parts of None \<Rightarrow> 0 | Some s \<Rightarrow> last_included_index (metadata s));
              persistent = \<lparr>current_term = bp_current_term parts, voted_for = bp_voted_for parts,
                committed_configuration = bp_committed_configuration parts, snapshot = bp_snapshot parts,
                log = bp_log parts\<rparr>;
              volatile = (at_dispatched_index dispatched)\<lparr>commit_index := bp_commit_index parts\<rparr>
          in Inr \<lparr>config = c, persistent = persistent, volatile = volatile, election = ElectionState_default,
                 leader = LeaderState_default, derived = ci_from_log (bp_log parts)\<rparr>)"

definition from_bootstrap_applied_through ::
    "NodeConfig \<Rightarrow> BootstrapState \<Rightarrow> LogIndex \<Rightarrow> BootstrapValidationError + Node" where
  "from_bootstrap_applied_through c b applied =
     (case from_bootstrap c b of
        Inl e \<Rightarrow> Inl e
      | Inr n \<Rightarrow>
          if applied > last_log_index n then Inl (AppliedFloorBeyondLog applied (last_log_index n))
          else if applied > Node_commit_index n then Inl (AppliedFloorBeyondCommit applied (Node_commit_index n))
          else Inr (map_volatile (\<lambda>v. v\<lparr>dispatched_index := max (dispatched_index v) applied\<rparr>) n))"

section \<open>A recovered node\<close>

abbreviation bootstrap_entry :: "BootstrapLogEntry \<Rightarrow> LogEntry" where
  "bootstrap_entry e \<equiv> \<lparr>entry_term = ble_term e, entry_kind = ble_kind e\<rparr>"

text \<open>What holds of the log while it is validated.\<close>

definition lv_ok :: "BootstrapLogEntry list \<Rightarrow> LogValidation \<Rightarrow> bool" where
  "lv_ok es v \<longleftrightarrow>
     lv_last_log_index v = meta_index (lv_snapshot v) + length (lv_log v) \<and>
     lv_expected_index v = Suc (lv_last_log_index v) \<and>
     (\<forall>e\<in>set (lv_log v). e \<in> bootstrap_entry ` set es \<and> 0 < entry_term e \<and> entry_term e \<le> lv_current_term v)"

lemma lv_accept_ok:
  assumes "lv_accept v e = Inr v'" "lv_ok es v" "e \<in> set es"
  shows "lv_ok es v' \<and> lv_snapshot v' = lv_snapshot v \<and> lv_current_term v' = lv_current_term v \<and>
    lv_commit_index v' = lv_commit_index v"
proof (cases "v' = v")
  case False
  then have "accept_retained v e = Inr v'"
    using assms(1) by (auto simp: lv_accept_def Let_def split: if_splits sum.splits option.splits bool.splits)
  then have "validate_retained_entry v e = Inr ()"
    "v' = v\<lparr>lv_expected_index := LogIndex_next (ble_index e), lv_last_log_index := ble_index e,
       lv_log := lv_log v @ [bootstrap_entry e]\<rparr>"
    by (auto simp: accept_retained_def split: sum.splits)
  with assms(2,3) show ?thesis
    by (auto simp: lv_ok_def validate_retained_entry_def split: if_splits)
qed (simp add: assms)

lemma lv_accept_all_ok:
  assumes "lv_accept_all xs v = Inr v'" "lv_ok es v" "set xs \<subseteq> set es"
  shows "lv_ok es v' \<and> lv_snapshot v' = lv_snapshot v \<and> lv_current_term v' = lv_current_term v \<and>
    lv_commit_index v' = lv_commit_index v"
  using assms
proof (induction xs arbitrary: v)
  case (Cons e xs)
  then obtain w where w: "lv_accept v e = Inr w" "lv_accept_all xs w = Inr v'" by (auto split: sum.splits)
  from lv_accept_ok [OF w(1) Cons.prems(2)] Cons.prems(3) Cons.IH [OF w(2)] show ?case by simp
qed simp

lemma validate_log_ok:
  assumes "validate_log es snap trm commit stored = Inr lg"
  shows "max commit (meta_index snap) \<le> meta_index snap + length lg"
    "\<forall>e\<in>set lg. e \<in> bootstrap_entry ` set es \<and> 0 < entry_term e \<and> entry_term e \<le> trm"
proof -
  let ?v = "LogValidation_new snap trm commit stored"
  obtain v where v: "lv_accept_all es ?v = Inr v" "lv_finish v = Inr lg"
    using assms by (auto simp: validate_log_def split: sum.splits)
  have "lv_ok es ?v" by (simp add: lv_ok_def LogValidation_new_def)
  from lv_accept_all_ok [OF v(1) this] v(2)
  show "max commit (meta_index snap) \<le> meta_index snap + length lg"
    "\<forall>e\<in>set lg. e \<in> bootstrap_entry ` set es \<and> 0 < entry_term e \<and> entry_term e \<le> trm"
    by (auto simp: lv_ok_def lv_finish_def LogValidation_new_def split: if_splits)
qed

lemma retained_configuration_le: "retained_configuration si lg commit = Some c \<Longrightarrow> cc_index c \<le> commit"
proof -
  have "find_map f xs = Some c \<Longrightarrow> \<exists>x\<in>set xs. f x = Some c" for f and xs :: "(nat \<times> LogEntry) list"
    by (induction xs) (auto split: option.splits)
  then show "retained_configuration si lg commit = Some c \<Longrightarrow> cc_index c \<le> commit"
    unfolding retained_configuration_def by (fastforce simp: Let_def split: if_splits)
qed

lemma max_by_key_in: "max_by_key key xs = Some x \<Longrightarrow> x \<in> set xs"
proof -
  have "fold (\<lambda>x best. case best of None \<Rightarrow> Some x | Some b \<Rightarrow> if key x \<ge> key b then Some x else Some b) xs acc = Some x \<Longrightarrow>
      x \<in> set xs \<or> acc = Some x" for acc
    by (induction xs arbitrary: acc) (fastforce split: option.splits if_splits)+
  then show "max_by_key key xs = Some x \<Longrightarrow> x \<in> set xs" unfolding max_by_key_def by blast
qed

lemma recover_configuration_le:
  assumes "recover_configuration stored snap lg commit = Inr (Some c)" "meta_index snap \<le> commit"
  shows "cc_index c \<le> commit"
proof -
  have stored: "cc_index s \<le> commit" if "stored = Some s" for s
    using assms(1) that by (auto simp: recover_configuration_def stored_configuration_ok_def validate_floor_def Let_def
        split: sum.splits option.splits if_splits)
  have captured: "cc_index s \<le> meta_index snap" if "Option.bind snap meta_committed_configuration_state = Some s" for s
    using assms(1) that by (auto simp: recover_configuration_def validate_floor_def Let_def split: sum.splits if_splits)
  have "max_by_key cc_index (List.map_filter (\<lambda>x. x) [stored, Option.bind snap meta_committed_configuration_state,
      retained_configuration (meta_index snap) lg commit]) = Some c"
    using assms(1) by (auto simp: recover_configuration_def Let_def split: sum.splits)
  from max_by_key_in [OF this] consider "stored = Some c"
    | "Option.bind snap meta_committed_configuration_state = Some c"
    | "retained_configuration (meta_index snap) lg commit = Some c"
    by (auto simp: List.map_filter_simps split: option.splits)
  then show ?thesis using stored captured retained_configuration_le assms(2) by cases fastforce+
qed

lemma from_bootstrap_sound:
  assumes "from_bootstrap c b = Inr n" "membership_wf (static_membership c)"
    and "\<forall>e\<in>set (bs_log b). entry_wf (bootstrap_entry e)"
    and "\<forall>s. bs_snapshot b = Some s \<longrightarrow> metadata_wf (metadata s)"
  shows "node_inv n \<and> Node_role n = Follower \<and> config n = c \<and> Node_current_term n = bs_current_term b \<and>
    Node_voted_for n = bs_voted_for b \<and> Node_snapshot n = bs_snapshot b \<and>
    Node_commit_index n = max (bs_commit_index b) (snapshot_index n) \<and>
    Node_dispatched_index n = snapshot_index n \<and>
    (\<forall>e\<in>set (Node_log n). 0 < entry_term e \<and> entry_term e \<le> Node_current_term n) \<and>
    (\<forall>cc. committed_configuration (persistent n) = Some cc \<longrightarrow> cc_index cc \<le> Node_commit_index n)"
proof -
  let ?snap = "map_option metadata (bs_snapshot b)"
  let ?si = "meta_index ?snap"
  obtain lg cc where lg: "validate_log (bs_log b) ?snap (bs_current_term b) (bs_commit_index b) (bs_committed_configuration b) = Inr lg"
    and cc: "recover_configuration (bs_committed_configuration b) ?snap lg (max (bs_commit_index b) ?si) = Inr cc"
    and n: "n = \<lparr>config = c, persistent = \<lparr>current_term = bs_current_term b, voted_for = bs_voted_for b,
        committed_configuration = cc, snapshot = bs_snapshot b, log = lg\<rparr>,
      volatile = (at_dispatched_index ?si)\<lparr>commit_index := max (bs_commit_index b) ?si\<rparr>,
      election = ElectionState_default, leader = LeaderState_default, derived = ci_from_log lg\<rparr>"
    using assms(1) by (auto simp: from_bootstrap_def into_parts_def Let_def meta_index_def split: sum.splits option.splits)
  have si: "snapshot_index n = ?si" by (simp add: n snapshot_index_def meta_index_def split: option.split)
  note ok = validate_log_ok [OF lg]
  have "last_log_index n = ?si + length lg" unfolding last_log_index_def si by (simp add: n)
  then have "geometry_ok n" unfolding geometry_ok_def si using ok(1) by (simp add: n at_dispatched_index_def)
  moreover have "membership_sources_wf n"
    using assms(2-4) ok(2) by (auto simp: membership_sources_wf_def n)
  ultimately have "node_inv n" by (simp add: node_inv_def n derived_ok_def at_dispatched_index_def)
  moreover have "\<forall>c. committed_configuration (persistent n) = Some c \<longrightarrow> cc_index c \<le> Node_commit_index n"
    using recover_configuration_le [of "bs_committed_configuration b" ?snap lg "max (bs_commit_index b) ?si"] cc by (simp add: n)
  ultimately show ?thesis using ok(2) unfolding si by (simp add: n at_dispatched_index_def)
qed

text \<open>
  C12: Recovery is sound. A node that \<open>from_bootstrap\<close> accepts is a follower of the recorded term
  and vote, satisfies the node invariant, has committed exactly through the larger of the recorded
  commit index and the snapshot, will hand out everything above the snapshot, holds only entries
  whose terms lie between one and its own, and knows no committed configuration beyond its commit index.
\<close>

theorem recovered_node_ok:
  assumes "from_bootstrap c b = Inr n" "membership_wf (static_membership c)"
    and "\<forall>e\<in>set (bs_log b). entry_wf (bootstrap_entry e)"
    and "\<forall>s. bs_snapshot b = Some s \<longrightarrow> metadata_wf (metadata s)"
  shows "node_inv n \<and> Node_role n = Follower \<and> config n = c \<and> Node_current_term n = bs_current_term b \<and>
    Node_voted_for n = bs_voted_for b \<and> Node_snapshot n = bs_snapshot b \<and>
    Node_commit_index n = max (bs_commit_index b) (snapshot_index n) \<and>
    Node_dispatched_index n = snapshot_index n \<and>
    (\<forall>e\<in>set (Node_log n). 0 < entry_term e \<and> entry_term e \<le> Node_current_term n) \<and>
    (\<forall>cc. committed_configuration (persistent n) = Some cc \<longrightarrow> cc_index cc \<le> Node_commit_index n)"
  using from_bootstrap_sound [OF assms] .

theorem recovered_node_ok_witness:
  "\<exists>n. from_bootstrap sample_config \<lparr>bs_current_term = 2, bs_voted_for = Some 3, bs_commit_index = 1,
      bs_committed_configuration = None, bs_snapshot = None,
      bs_log = [\<lparr>ble_index = 1, ble_term = 1, ble_kind = Noop\<rparr>]\<rparr> = Inr n \<and>
    node_inv n \<and> Node_commit_index n = 1"
proof -
  let ?b = "\<lparr>bs_current_term = 2, bs_voted_for = Some 3, bs_commit_index = 1, bs_committed_configuration = None,
      bs_snapshot = None, bs_log = [\<lparr>ble_index = 1, ble_term = 1, ble_kind = Noop\<rparr>]\<rparr>"
  obtain n where n: "from_bootstrap sample_config ?b = Inr n" "snapshot_index n = 0"
    by (simp add: from_bootstrap_def into_parts_def validate_vote_def validate_snapshot_def validate_log_def
        LogValidation_new_def lv_accept_def accept_retained_def validate_retained_entry_def checked_add_def u64_max_def
        meta_index_def lv_finish_def recover_configuration_def snapshot_index_def)
  moreover have "membership_wf (static_membership sample_config)"
    by (simp add: sample_membership membership_set_wf_def ordered_def)
  ultimately show ?thesis using recovered_node_ok [OF n(1)] by (simp add: entry_wf_def)
qed

section \<open>What was durable is recovered\<close>

text \<open>The durable state of a node: hard state, commit index, snapshot descriptor and indexed log.\<close>

definition durable_log :: "LogIndex \<Rightarrow> LogEntry list \<Rightarrow> BootstrapLogEntry list" where
  "durable_log first lg =
     map (\<lambda>(i, e). \<lparr>ble_index = first + i, ble_term = entry_term e, ble_kind = entry_kind e\<rparr>) (enumerate 0 lg)"

definition durable :: "Node \<Rightarrow> BootstrapState" where
  "durable n = \<lparr>bs_current_term = Node_current_term n, bs_voted_for = Node_voted_for n,
     bs_commit_index = Node_commit_index n, bs_committed_configuration = committed_configuration (persistent n),
     bs_snapshot = Node_snapshot n, bs_log = durable_log (Suc (snapshot_index n)) (Node_log n)\<rparr>"

lemma durable_simps [simp]:
  "bs_current_term (durable n) = Node_current_term n" "bs_voted_for (durable n) = Node_voted_for n"
  "bs_commit_index (durable n) = Node_commit_index n"
  "bs_committed_configuration (durable n) = committed_configuration (persistent n)"
  "bs_snapshot (durable n) = Node_snapshot n" "bs_log (durable n) = durable_log (Suc (snapshot_index n)) (Node_log n)"
  by (simp_all add: durable_def)

text \<open>The recorded committed configuration agrees with the log and the snapshot it points into.\<close>

definition configuration_recorded :: "Node \<Rightarrow> bool" where
  "configuration_recorded n \<longleftrightarrow>
     (\<forall>c. snapshot_committed_configuration_state n = Some c \<longrightarrow> cc_index c \<le> snapshot_index n) \<and>
     (\<forall>c. committed_configuration (persistent n) = Some c \<longrightarrow>
        cc_index c \<le> Node_commit_index n \<and>
        (if snapshot_index n < cc_index c
         then \<exists>e. entry_at n (cc_index c) = Some e \<and>
                (\<exists>d. configuration_entry (entry_kind e) = Some d \<and> config_id d = cc_config_id c)
         else snapshot_committed_membership n \<noteq> None \<and>
              (\<forall>d. snapshot_committed_configuration_state n = Some d \<longrightarrow>
                 cc_index c \<le> cc_index d \<and> (cc_index c = cc_index d \<longrightarrow> cc_config_id c = cc_config_id d))))"

definition recoverable :: "Node \<Rightarrow> bool" where
  "recoverable n \<longleftrightarrow>
     (Node_voted_for n \<noteq> None \<longrightarrow> Node_current_term n \<noteq> 0) \<and>
     (\<forall>s. Node_snapshot n = Some s \<longrightarrow>
        hard_state_term (metadata s) \<le> Node_current_term n \<and> snapshot_writer_is_replica (metadata s) (config n)) \<and>
     (\<forall>e\<in>set (Node_log n). 0 < entry_term e \<and> entry_term e \<le> Node_current_term n) \<and>
     last_log_index n < u64_max \<and> configuration_recorded n"

lemma lv_accept_retained:
  assumes "lv_expected_index v = Suc (lv_last_log_index v)" "meta_index (lv_snapshot v) \<le> lv_last_log_index v"
    and "ble_index e = lv_expected_index v" "0 < ble_term e" "ble_term e \<le> lv_current_term v"
    and "Suc (lv_last_log_index v) < u64_max"
  shows "lv_accept v e = Inr (v\<lparr>lv_expected_index := Suc (ble_index e), lv_last_log_index := ble_index e,
     lv_log := lv_log v @ [bootstrap_entry e]\<rparr>)"
  using assms
  by (auto simp: lv_accept_def accept_retained_def validate_retained_entry_def checked_add_def Let_def
      split: bool.split option.split)

lemma durable_log_Cons:
  "durable_log first (e # lg) =
     \<lparr>ble_index = first, ble_term = entry_term e, ble_kind = entry_kind e\<rparr> # durable_log (Suc first) lg"
  by (rule nth_equalityI) (auto simp: durable_log_def nth_enumerate_eq nth_Cons split: nat.split)

lemma lv_accept_all_durable:
  assumes "lv_expected_index v = Suc (lv_last_log_index v)" "meta_index (lv_snapshot v) \<le> lv_last_log_index v"
    and "\<forall>e\<in>set lg. 0 < entry_term e \<and> entry_term e \<le> lv_current_term v"
    and "lv_last_log_index v + length lg < u64_max"
  shows "\<exists>v'. lv_accept_all (durable_log (Suc (lv_last_log_index v)) lg) v = Inr v' \<and>
    lv_log v' = lv_log v @ lg \<and> lv_last_log_index v' = lv_last_log_index v + length lg \<and>
    lv_commit_index v' = lv_commit_index v"
  using assms
proof (induction lg arbitrary: v)
  case Nil
  then show ?case by (simp add: durable_log_def)
next
  case (Cons e lg)
  let ?e = "\<lparr>ble_index = Suc (lv_last_log_index v), ble_term = entry_term e, ble_kind = entry_kind e\<rparr>"
  let ?w = "v\<lparr>lv_expected_index := Suc (ble_index ?e), lv_last_log_index := ble_index ?e,
     lv_log := lv_log v @ [bootstrap_entry ?e]\<rparr>"
  have "lv_accept v ?e = Inr ?w"
    using Cons.prems by (intro lv_accept_retained) simp_all
  moreover have "durable_log (Suc (lv_last_log_index v)) (e # lg) = ?e # durable_log (Suc (lv_last_log_index ?w)) lg"
    by (simp add: durable_log_Cons)
  moreover have "\<exists>v'. lv_accept_all (durable_log (Suc (lv_last_log_index ?w)) lg) ?w = Inr v' \<and>
    lv_log v' = lv_log ?w @ lg \<and> lv_last_log_index v' = lv_last_log_index ?w + length lg \<and>
    lv_commit_index v' = lv_commit_index ?w"
    using Cons.prems by (intro Cons.IH) simp_all
  ultimately show ?case by auto
qed

lemma stored_configuration_recorded:
  assumes "configuration_recorded n" "committed_configuration (persistent n) = Some c"
  shows "stored_configuration_ok c (map_option metadata (Node_snapshot n)) (Node_log n) (Node_commit_index n) = Inr ()"
proof -
  let ?snap = "map_option metadata (Node_snapshot n)"
  have si: "meta_index ?snap = snapshot_index n"
    by (simp add: meta_index_def snapshot_index_def split: option.split)
  have cap: "Option.bind ?snap meta_committed_configuration_state = snapshot_committed_configuration_state n"
    "Option.bind ?snap meta_committed_membership = snapshot_committed_membership n"
    by (cases "Node_snapshot n"; simp add: snapshot_committed_configuration_state_def snapshot_committed_membership_def)+
  show ?thesis
  proof (cases "snapshot_index n < cc_index c")
    case True
    then obtain e d where "entry_at n (cc_index c) = Some e" "configuration_entry (entry_kind e) = Some d"
      "config_id d = cc_config_id c"
      using assms by (auto simp: configuration_recorded_def)
    with True assms show ?thesis
      by (auto simp: stored_configuration_ok_def si validate_floor_def validate_identity_def entry_at_get
          configuration_recorded_def)
  next
    case False
    with assms show ?thesis
      unfolding stored_configuration_ok_def si cap Let_def
      by (auto simp: validate_floor_def validate_identity_def configuration_recorded_def split: option.split)
  qed
qed

lemma recover_configuration_recorded:
  assumes "configuration_recorded n"
  shows "\<exists>cc. recover_configuration (committed_configuration (persistent n))
    (map_option metadata (Node_snapshot n)) (Node_log n) (Node_commit_index n) = Inr cc"
proof -
  let ?snap = "map_option metadata (Node_snapshot n)"
  have si: "meta_index ?snap = snapshot_index n"
    by (simp add: meta_index_def snapshot_index_def split: option.split)
  have cap: "Option.bind ?snap meta_committed_configuration_state = snapshot_committed_configuration_state n"
    by (cases "Node_snapshot n") (simp_all add: snapshot_committed_configuration_state_def)
  have "(case snapshot_committed_configuration_state n of None \<Rightarrow> Inr () | Some c \<Rightarrow> validate_floor c (snapshot_index n)) = Inr ()"
    using assms by (auto simp: configuration_recorded_def validate_floor_def split: option.split)
  moreover have "(case committed_configuration (persistent n) of None \<Rightarrow> Inr ()
      | Some s \<Rightarrow> stored_configuration_ok s ?snap (Node_log n) (Node_commit_index n)) = Inr ()"
    using stored_configuration_recorded [OF assms] by (simp split: option.split)
  ultimately show ?thesis unfolding recover_configuration_def Let_def si cap by simp
qed

lemma from_bootstrap_durable:
  assumes "node_inv n" "recoverable n"
  shows "\<exists>cc. from_bootstrap (config n) (durable n) = Inr \<lparr>config = config n,
    persistent = (persistent n)\<lparr>committed_configuration := cc\<rparr>,
    volatile = (at_dispatched_index (snapshot_index n))\<lparr>commit_index := Node_commit_index n\<rparr>,
    election = ElectionState_default, leader = LeaderState_default, derived = derived n\<rparr>"
proof -
  let ?snap = "map_option metadata (Node_snapshot n)"
  have si: "meta_index ?snap = snapshot_index n"
    by (simp add: meta_index_def snapshot_index_def split: option.split)
  have g: "snapshot_index n \<le> Node_commit_index n" "Node_commit_index n \<le> last_log_index n" "derived_ok n"
    using assms(1) by (auto simp: node_inv_def geometry_ok_def)
  obtain cc where cc: "recover_configuration (committed_configuration (persistent n)) ?snap (Node_log n)
      (Node_commit_index n) = Inr cc"
    using recover_configuration_recorded assms(2) unfolding recoverable_def by blast
  let ?v = "LogValidation_new ?snap (Node_current_term n) (Node_commit_index n) (committed_configuration (persistent n))"
  have "\<exists>v'. lv_accept_all (durable_log (Suc (lv_last_log_index ?v)) (Node_log n)) ?v = Inr v' \<and>
    lv_log v' = lv_log ?v @ Node_log n \<and> lv_last_log_index v' = lv_last_log_index ?v + length (Node_log n) \<and>
    lv_commit_index v' = lv_commit_index ?v"
    using assms(2) by (intro lv_accept_all_durable) (simp_all add: LogValidation_new_def si recoverable_def last_log_index_def)
  then have "validate_log (durable_log (Suc (snapshot_index n)) (Node_log n)) ?snap (Node_current_term n)
      (Node_commit_index n) (committed_configuration (persistent n)) = Inr (Node_log n)"
    using g by (auto simp: validate_log_def LogValidation_new_def si lv_finish_def last_log_index_def)
  moreover have "validate_vote (durable n) = Inr ()" "validate_snapshot (durable n) (config n) = Inr ()"
    using assms(2) by (auto simp: validate_vote_def validate_snapshot_def recoverable_def split: option.split)
  ultimately have "into_parts (durable n) (config n) = Inr \<lparr>bp_current_term = Node_current_term n,
      bp_voted_for = Node_voted_for n, bp_commit_index = Node_commit_index n, bp_committed_configuration = cc,
      bp_snapshot = Node_snapshot n, bp_log = Node_log n\<rparr>"
    using cc g unfolding into_parts_def durable_simps si Let_def by (simp add: max_absorb1)
  moreover have "(case Node_snapshot n of None \<Rightarrow> 0 | Some s \<Rightarrow> last_included_index (metadata s)) = snapshot_index n"
    by (simp add: snapshot_index_def)
  moreover have "\<lparr>current_term = Node_current_term n, voted_for = Node_voted_for n, committed_configuration = cc,
      snapshot = Node_snapshot n, log = Node_log n\<rparr> = (persistent n)\<lparr>committed_configuration := cc\<rparr>"
    by (cases "persistent n") simp
  ultimately show ?thesis using g(3) by (intro exI [of _ cc]) (simp add: from_bootstrap_def derived_ok_def)
qed

section \<open>An undeclared configuration\<close>

text \<open>
  Local compaction with a descriptor that declares no committed configuration can undo a
  committed membership change. The node has committed the voters 1, 4, 5; installing a descriptor of
  the prefix with that change is accepted, and afterwards both its effective and its committed
  membership are the voters 1, 2, 3 it was first configured with, so that a quorum of the one and a
  quorum of the other need not share a node; and the state this leaves durable is refused at the next
  start.
\<close>

lemma undeclared_snapshot_loses_membership:
  "node_inv sample_moved \<and>
   committed_membership sample_moved = StableMembership \<lparr>voters = [1, 4, 5], learners = []\<rparr> \<and>
   (\<exists>m. install_local_snapshot (sample_descriptor None) sample_moved = (m, Inr []) \<and>
     effective_membership m = StableMembership \<lparr>voters = [1, 2, 3], learners = []\<rparr> \<and>
     committed_membership m = StableMembership \<lparr>voters = [1, 2, 3], learners = []\<rparr> \<and>
     has_quorum (committed_membership sample_moved) [4, 5] \<and> has_quorum (committed_membership m) [2, 3] \<and>
     from_bootstrap (config m) (durable m) = Inl (CompactedCommittedConfigurationWithoutSnapshotMembership 2))"
proof -
  obtain m where r: "install_local_snapshot (sample_descriptor None) sample_moved = (m, Inr [])" and d: "derived m = []"
    and m: "Node_snapshot m = Some (sample_descriptor None)" "config m = sample_config" "Node_current_term m = 1"
    "Node_voted_for m = None" "Node_log m = [application_entry 1 [7]]" "Node_commit_index m = 3"
    "committed_configuration (persistent m) = Some \<lparr>cc_index = 2, cc_config_id = 1\<rparr>"
    by (rule sample_moved_undeclared)
  have none: "meta_committed_membership (metadata (sample_descriptor None)) = None"
    "meta_committed_configuration_state (metadata (sample_descriptor None)) = None"
    by (simp_all add: meta_committed_membership_def meta_committed_configuration_state_def sample_descriptor_def)
  have static: "effective_membership m = static_membership sample_config"
    "committed_membership m = static_membership sample_config"
    using d m none by (simp_all add: effective_membership_empty effective_base_membership_def committed_membership_def
        committed_configuration_entry_def ci_committed_entry_def snapshot_committed_membership_def)
  have moved: "committed_membership sample_moved = StableMembership \<lparr>voters = [1, 4, 5], learners = []\<rparr>"
    by (simp add: committed_membership_def committed_configuration_entry_def ci_committed_entry_def sample_moved_view)
      (simp add: sample_moved_def logical_index_def configuration_entry_at_def get_def)
  have si: "snapshot_index m = 2" using m(1) by (simp add: snapshot_index_def sample_descriptor_def)
  have meta: "meta_index (Some (metadata (sample_descriptor None))) = 2"
    by (simp add: meta_index_def sample_descriptor_def)
  have "validate_snapshot (durable m) (config m) = Inr ()"
    by (simp add: validate_snapshot_def m snapshot_writer_is_replica_def none)
      (simp add: sample_descriptor_def sample_membership contains_replica_def)
  moreover have "validate_log (durable_log 3 [application_entry 1 [7]]) (Some (metadata (sample_descriptor None))) 1 3
      (Some \<lparr>cc_index = 2, cc_config_id = 1\<rparr>) = Inr [application_entry 1 [7]]"
    by (simp add: validate_log_def LogValidation_new_def meta durable_log_Cons lv_accept_def accept_retained_def
        validate_retained_entry_def checked_add_def u64_max_def)
      (simp add: durable_log_def lv_finish_def)
  ultimately have "from_bootstrap (config m) (durable m) = Inl (CompactedCommittedConfigurationWithoutSnapshotMembership 2)"
    using m by (simp add: from_bootstrap_def into_parts_def validate_vote_def si meta recover_configuration_def none
        stored_configuration_ok_def validate_floor_def)
  then show ?thesis
    using r static moved sample_moved_inv
    by (intro conjI exI [of _ m]) (simp_all add: sample_membership set_has_quorum_def quorum_size_def majority_def)
qed

end
