(* ===== verification/Cluster.thy ===== *)
theory Cluster
  imports Votes Bootstrap
begin

text \<open>
  A cluster of nodes and the messages between them. Nodes take inputs one at a time, crash and
  recover from their hard state, and compact their logs; messages may be lost, delayed, duplicated
  and reordered, and only votes are required to have been sent by the node they name. The theorem is
  election safety, for any two elections of a term whose configurations have intersecting quorums.
\<close>

section \<open>The cluster\<close>

text \<open>
  Besides the nodes and the votes sent, the state records what happened: the ballot every node cast
  in every term, and every election with the configuration it was won under.
\<close>

record Cluster =
  nodes :: "NodeId \<Rightarrow> Node"
  sent :: "(NodeId \<times> NodeId \<times> RequestVoteResponse) set"
  ballots :: "NodeId \<Rightarrow> Term \<Rightarrow> NodeId option"
  elected :: "(NodeId \<times> Term \<times> MembershipConfig) set"

definition votes_in :: "NodeId \<Rightarrow> Output list \<Rightarrow> (NodeId \<times> NodeId \<times> RequestVoteResponse) set" where
  "votes_in i outs = {(i, k, q) | k q. Send k (RequestVoteResponseMsg q) \<in> set outs}"

text \<open>The node of an identifier is replaced and its outputs are sent.\<close>

definition replace_node :: "NodeId \<Rightarrow> Node \<Rightarrow> Output list \<Rightarrow> Cluster \<Rightarrow> Cluster" where
  "replace_node i n' outs s =
     (let n = nodes s i in
      \<lparr>nodes = (nodes s)(i := n'), sent = sent s \<union> votes_in i outs,
       ballots = (ballots s)(i := (ballots s i)(Node_current_term n' := Node_voted_for n')),
       elected = elected s \<union>
         (if Node_role n' = Leader \<and> \<not> (Node_role n = Leader \<and> Node_current_term n' = Node_current_term n)
          then {(i, Node_current_term n', effective_membership n)} else {})\<rparr>)"

text \<open>Votes are authentic: a response is delivered to the node it was sent to, by the voter it names.\<close>

fun deliverable :: "Cluster \<Rightarrow> NodeId \<Rightarrow> Segment \<Rightarrow> bool" where
  "deliverable s i (SingleInput (MessageInput k (RequestVoteResponseMsg q))) = ((k, i, q) \<in> sent s)"
| "deliverable s i _ = True"

fun segment_wf :: "Segment \<Rightarrow> bool" where
  "segment_wf (SingleInput inp) = input_wf inp"
| "segment_wf _ = True"

inductive cluster_step :: "Cluster \<Rightarrow> Cluster \<Rightarrow> bool" where
  act: "deliverable s i seg \<Longrightarrow> segment_wf seg \<Longrightarrow> run_segment seg (nodes s i) = (n', outs) \<Longrightarrow>
    cluster_step s (replace_node i n' outs s)"
| restart: "from_bootstrap (config (nodes s i)) b = Inr n' \<Longrightarrow>
    bs_current_term b = Node_current_term (nodes s i) \<Longrightarrow> bs_voted_for b = Node_voted_for (nodes s i) \<Longrightarrow>
    (\<forall>e\<in>set (bs_log b). entry_wf (bootstrap_entry e)) \<Longrightarrow>
    (\<forall>snap. bs_snapshot b = Some snap \<longrightarrow> metadata_wf (metadata snap)) \<Longrightarrow>
    cluster_step s (replace_node i n' [] s)"
| compact: "metadata_wf (metadata snap) \<Longrightarrow> install_local_snapshot snap (nodes s i) = (n', Inr outs) \<Longrightarrow>
    cluster_step s (replace_node i n' outs s)"

definition initial :: "Cluster \<Rightarrow> bool" where
  "initial s \<longleftrightarrow>
     (\<forall>i. node_inv (nodes s i) \<and> Node_id (nodes s i) = i \<and> Node_role (nodes s i) = Follower) \<and>
     sent s = {} \<and> elected s = {} \<and>
     ballots s = (\<lambda>i. (\<lambda>_. None)(Node_current_term (nodes s i) := Node_voted_for (nodes s i)))"

inductive reachable :: "Cluster \<Rightarrow> bool" where
  start: "initial s \<Longrightarrow> reachable s"
| step: "reachable s \<Longrightarrow> cluster_step s s' \<Longrightarrow> reachable s'"

section \<open>The invariant\<close>

definition ballot_inv :: "Cluster \<Rightarrow> bool" where
  "ballot_inv s \<longleftrightarrow>
     (\<forall>i. node_inv (nodes s i) \<and> Node_id (nodes s i) = i \<and>
        ballots s i (Node_current_term (nodes s i)) = Node_voted_for (nodes s i) \<and>
        (\<forall>t > Node_current_term (nodes s i). ballots s i t = None)) \<and>
     (\<forall>v c q. (v, c, q) \<in> sent s \<longrightarrow> rvr_vote_granted q \<longrightarrow> ballots s v (rvr_term q) = Some c \<and> rvr_voter_id q = v) \<and>
     (\<forall>i. Node_role (nodes s i) = Candidate \<longrightarrow>
        (\<forall>v\<in>set (votes (election (nodes s i))). ballots s v (Node_current_term (nodes s i)) = Some i)) \<and>
     (\<forall>i. Node_role (nodes s i) = Leader \<longrightarrow> (\<exists>m. (i, Node_current_term (nodes s i), m) \<in> elected s)) \<and>
     (\<forall>c t m. (c, t, m) \<in> elected s \<longrightarrow> small_config m \<longrightarrow>
        (\<exists>vs. has_quorum m vs \<and> (\<forall>v\<in>set vs. ballots s v t = Some c)))"

text \<open>A replacement keeps the hard state: the term does not go back, a vote of the term stays.\<close>

definition keeps_hard_state :: "Node \<Rightarrow> Node \<Rightarrow> bool" where
  "keeps_hard_state n n' \<longleftrightarrow> node_inv n' \<and> config n' = config n \<and> Node_current_term n \<le> Node_current_term n' \<and>
     (Node_current_term n' = Node_current_term n \<longrightarrow>
        (\<forall>v. Node_voted_for n = Some v \<longrightarrow> Node_voted_for n' = Some v))"

lemma good_keeps_hard_state: "good n n' \<Longrightarrow> keeps_hard_state n n'"
  using evolves_vote [of n n'] by (auto simp: good_def keeps_hard_state_def) (simp add: evolves_def)

text \<open>A replacement the contract of votes allows.\<close>

definition admissible :: "Cluster \<Rightarrow> NodeId \<Rightarrow> NodeId list \<Rightarrow> Node \<times> Output list \<Rightarrow> bool" where
  "admissible s i news r \<longleftrightarrow> keeps_hard_state (nodes s i) (fst r) \<and> vote_step (nodes s i) news r \<and>
     (\<forall>v\<in>set news. ballots s v (Node_current_term (nodes s i)) = Some i)"

lemma ballots_kept:
  assumes "ballot_inv s" "keeps_hard_state (nodes s i) n'" "ballots s v t = Some c"
  shows "ballots (replace_node i n' outs s) v t = Some c"
proof (cases "v = i \<and> t = Node_current_term n'")
  case True
  let ?n = "nodes s i"
  have "Node_current_term ?n \<le> Node_current_term n'" using assms(2) by (simp add: keeps_hard_state_def)
  then have "Node_current_term n' = Node_current_term ?n" "Node_voted_for ?n = Some c"
    using assms(1,3) True unfolding ballot_inv_def by (metis le_neq_implies_less option.distinct(1))+
  then show ?thesis using assms(2) True by (simp add: keeps_hard_state_def replace_node_def Let_def)
next
  case False
  then show ?thesis using assms(3) by (auto simp: replace_node_def Let_def)
qed

lemma replace_node_simps [simp]:
  "nodes (replace_node i n' outs s) j = (if j = i then n' else nodes s j)"
  "sent (replace_node i n' outs s) = sent s \<union> votes_in i outs"
  "ballots (replace_node i n' outs s) i (Node_current_term n') = Node_voted_for n'"
  "j \<noteq> i \<Longrightarrow> ballots (replace_node i n' outs s) j = ballots s j"
  "t \<noteq> Node_current_term n' \<Longrightarrow> ballots (replace_node i n' outs s) i t = ballots s i t"
  by (simp_all add: replace_node_def Let_def)

text \<open>The votes behind a candidacy are cast ballots.\<close>

lemma backed_ballots:
  assumes "ballot_inv s" "admissible s i news (n', outs)" "backed (nodes s i) news n' vs" "v \<in> set vs"
  shows "ballots (replace_node i n' outs s) v (Node_current_term n') = Some i"
proof -
  let ?n = "nodes s i"
  have id_eq: "Node_id ?n = i" using assms(1) by (simp add: ballot_inv_def)
  have good: "keeps_hard_state ?n n'" using assms(2) by (simp add: admissible_def)
  from assms(3,4) consider "v = i" "Node_voted_for n' = Some i"
    | "Node_role ?n = Candidate" "Node_current_term n' = Node_current_term ?n" "v \<in> set (votes (election ?n))"
    | "Node_current_term n' = Node_current_term ?n" "v \<in> set news"
    unfolding backed_def id_eq by auto
  then show ?thesis
  proof cases
    case 1
    then show ?thesis by simp
  next
    case 2
    then have "ballots s v (Node_current_term ?n) = Some i" using assms(1) by (simp add: ballot_inv_def)
    with ballots_kept [OF assms(1) good] 2 show ?thesis by simp
  next
    case 3
    then have "ballots s v (Node_current_term ?n) = Some i" using assms(2) by (simp add: admissible_def)
    with ballots_kept [OF assms(1) good] 3 show ?thesis by simp
  qed
qed

lemma ballot_inv_nodes:
  assumes "ballot_inv s" "keeps_hard_state (nodes s i) n'"
  shows "node_inv (nodes (replace_node i n' outs s) j) \<and> Node_id (nodes (replace_node i n' outs s) j) = j \<and>
    ballots (replace_node i n' outs s) j (Node_current_term (nodes (replace_node i n' outs s) j)) =
      Node_voted_for (nodes (replace_node i n' outs s) j) \<and>
    (\<forall>t > Node_current_term (nodes (replace_node i n' outs s) j). ballots (replace_node i n' outs s) j t = None)"
proof (cases "j = i")
  case True
  have "config n' = config (nodes s i)" "Node_current_term (nodes s i) \<le> Node_current_term n'" "node_inv n'"
    using assms(2) by (simp_all add: keeps_hard_state_def)
  with True assms(1) show ?thesis by (auto simp: ballot_inv_def)
next
  case False
  with assms(1) show ?thesis by (simp add: ballot_inv_def)
qed

lemma ballot_inv_sent:
  assumes "ballot_inv s" "admissible s i news (n', outs)" "(v, c, q) \<in> sent (replace_node i n' outs s)" "rvr_vote_granted q"
  shows "ballots (replace_node i n' outs s) v (rvr_term q) = Some c \<and> rvr_voter_id q = v"
proof (cases "(v, c, q) \<in> sent s")
  case True
  then have "ballots s v (rvr_term q) = Some c" "rvr_voter_id q = v"
    using assms(1,4) by (auto simp: ballot_inv_def)
  then show ?thesis using ballots_kept [OF assms(1)] assms(2) by (simp add: admissible_def)
next
  case False
  then have "v = i" "Send c (RequestVoteResponseMsg q) \<in> set outs" using assms(3) by (auto simp: votes_in_def)
  moreover have "Node_id (nodes s i) = i" using assms(1) by (simp add: ballot_inv_def)
  ultimately show ?thesis using assms(2,4) by (auto simp: admissible_def vote_step_def)
qed

lemma ballot_inv_candidate:
  assumes "ballot_inv s" "admissible s i news (n', outs)"
    and "Node_role (nodes (replace_node i n' outs s) j) = Candidate"
    and "v \<in> set (votes (election (nodes (replace_node i n' outs s) j)))"
  shows "ballots (replace_node i n' outs s) v (Node_current_term (nodes (replace_node i n' outs s) j)) = Some j"
proof (cases "j = i")
  case True
  with assms have "backed (nodes s i) news n' (votes (election n'))" by (simp add: admissible_def vote_step_def)
  with backed_ballots [OF assms(1,2)] True assms(4) show ?thesis by simp
next
  case False
  with assms have "ballots s v (Node_current_term (nodes s j)) = Some j" by (simp add: ballot_inv_def)
  with ballots_kept [OF assms(1)] assms(2) False show ?thesis by (simp add: admissible_def)
qed

lemma elected_replace:
  "elected (replace_node i n' outs s) = elected s \<union>
     (if Node_role n' = Leader \<and> \<not> (Node_role (nodes s i) = Leader \<and> Node_current_term n' = Node_current_term (nodes s i))
      then {(i, Node_current_term n', effective_membership (nodes s i))} else {})"
  by (simp add: replace_node_def Let_def)

lemma ballot_inv_elected:
  assumes "ballot_inv s" "admissible s i news (n', outs)" "(c, t, m) \<in> elected (replace_node i n' outs s)" "small_config m"
  shows "\<exists>vs. has_quorum m vs \<and> (\<forall>v\<in>set vs. ballots (replace_node i n' outs s) v t = Some c)"
proof (cases "(c, t, m) \<in> elected s")
  case True
  with assms(1,4) obtain vs where "has_quorum m vs" "\<forall>v\<in>set vs. ballots s v t = Some c"
    unfolding ballot_inv_def by blast
  then show ?thesis using ballots_kept [OF assms(1)] assms(2) by (auto simp: admissible_def)
next
  case False
  let ?n = "nodes s i"
  from False assms(3) have new: "Node_role n' = Leader" "c = i" "t = Node_current_term n'" "m = effective_membership ?n"
    "\<not> (Node_role ?n = Leader \<and> Node_current_term n' = Node_current_term ?n)"
    by (auto simp: elected_replace split: if_splits)
  with assms(2) obtain vs where vs: "has_effective_quorum ?n vs" "backed ?n news n' vs"
    by (auto simp: admissible_def vote_step_def)
  have "membership_sources_wf ?n" using assms(1) by (simp add: ballot_inv_def node_inv_def)
  with vs(1) assms(4) new(4) have "has_quorum m vs" by (simp add: has_effective_quorum_eq)
  with backed_ballots [OF assms(1,2) vs(2)] new show ?thesis by blast
qed

lemma ballot_inv_replace:
  assumes "ballot_inv s" "admissible s i news (n', outs)"
  shows "ballot_inv (replace_node i n' outs s)"
proof -
  have good: "keeps_hard_state (nodes s i) n'" using assms(2) by (simp add: admissible_def)
  have leaders: "\<exists>m. (j, Node_current_term (nodes (replace_node i n' outs s) j), m) \<in> elected (replace_node i n' outs s)"
    if "Node_role (nodes (replace_node i n' outs s) j) = Leader" for j
    using that assms(1) unfolding elected_replace ballot_inv_def by (auto split: if_splits)
  show ?thesis
    unfolding ballot_inv_def
    using ballot_inv_nodes [OF assms(1) good] ballot_inv_sent [OF assms] ballot_inv_candidate [OF assms] leaders
      ballot_inv_elected [OF assms] by blast
qed

section \<open>Every step is admissible\<close>

fun segment_votes :: "Segment \<Rightarrow> Node \<Rightarrow> NodeId list" where
  "segment_votes (SingleInput inp) n = new_votes inp n"
| "segment_votes _ n = []"

lemma segment_contract:
  assumes "node_inv n" "segment_wf seg"
  shows "good_step n (run_segment seg n)" "vote_step n (segment_votes seg n) (run_segment seg n)"
  using assms
  by (cases seg; simp add: good_step_step good_step_step_proposal_batch good_step_read_index_batch vote_step_step
      vote_step_quiet quiet_step_proposal_batch quiet_read_index_batch)+

lemma delivered_votes:
  assumes "ballot_inv s" "deliverable s i seg" "v \<in> set (segment_votes seg (nodes s i))"
  shows "ballots s v (Node_current_term (nodes s i)) = Some i"
proof -
  obtain inp where seg: "seg = SingleInput inp" using assms(3) by (cases seg) auto
  with assms(3) obtain q where q: "inp = MessageInput v (RequestVoteResponseMsg q)" "rvr_vote_granted q"
    "rvr_term q = Node_current_term (nodes s i)"
    by (cases "(inp, nodes s i)" rule: new_votes.cases) (auto split: if_splits)
  with seg assms(2) have "(v, i, q) \<in> sent s" by simp
  moreover have "\<forall>v c q. (v, c, q) \<in> sent s \<longrightarrow> rvr_vote_granted q \<longrightarrow> ballots s v (rvr_term q) = Some c"
    using assms(1) unfolding ballot_inv_def by blast
  ultimately show ?thesis using q(2,3) by metis
qed

lemma compaction_quiet:
  assumes "node_inv n" "metadata_wf (metadata snap)" "install_local_snapshot snap n = (n', Inr outs)"
  shows "good n n'" "quiet n (n', outs)"
proof -
  obtain p where p: "prepare_local_snapshot_install n snap = Inr p" "prepared_commit p n = (n', outs)"
    using assms(3) by (auto simp: install_local_snapshot_def case_prod_unfold Let_def split: sum.splits)
  then show "good n n'" using prepared_commit_good(1) [OF assms(1,2)] by blast
  from prepared_commit_shape [OF assms(1) p] obtain l c lp d where "n' = n\<lparr>persistent := (persistent n)\<lparr>log := l, snapshot := Some snap,
      committed_configuration := c\<rparr>, derived := d, volatile := (volatile n)\<lparr>incoming_snapshot := None, local_proposals := lp\<rparr>\<rparr>"
    by metis
  then have "role_quiet n n'" by (simp add: role_quiet_def)
  moreover have "\<forall>out\<in>set outs. \<exists>p i t. out = LocalProposalDropped p i t LogOverwritten"
    using p(2) fold_reconcile_step_outputs [of "([], [])"]
    by (auto simp: prepared_commit_def install_local_snapshot_state_def finish_local_snapshot_install_def
        reconcile_local_proposals_def case_prod_unfold Let_def)
  ultimately show "quiet n (n', outs)" by (fastforce simp: quiet_def list_ex_iff)
qed

lemma ballot_inv_step:
  assumes "ballot_inv s" "cluster_step s s'"
  shows "ballot_inv s'"
  using assms(2,1)
proof cases
  case (act i seg n' outs)
  have "node_inv (nodes s i)" using assms(1) by (simp add: ballot_inv_def)
  from segment_contract [OF this act(3)] act(4) delivered_votes [OF assms(1) act(2)]
  have "admissible s i (segment_votes seg (nodes s i)) (n', outs)"
    by (auto simp: admissible_def good_step_def good_keeps_hard_state)
  then show ?thesis unfolding act(1) by (rule ballot_inv_replace [OF assms(1)])
next
  case (restart i b n')
  have "membership_wf (static_membership (config (nodes s i)))"
    using assms(1) by (simp add: ballot_inv_def node_inv_def membership_sources_wf_def)
  from from_bootstrap_sound [OF restart(2) this restart(5,6)] restart(3,4)
  have "keeps_hard_state (nodes s i) n'" "Node_role n' = Follower" by (simp_all add: keeps_hard_state_def)
  then have "admissible s i [] (n', [])"
    by (simp add: admissible_def vote_step_quiet quiet_def role_quiet_def)
  then show ?thesis unfolding restart(1) by (rule ballot_inv_replace [OF assms(1)])
next
  case (compact snap i n' outs)
  have "node_inv (nodes s i)" using assms(1) by (simp add: ballot_inv_def)
  from compaction_quiet [OF this compact(2,3)] have "admissible s i [] (n', outs)"
    by (simp add: admissible_def vote_step_quiet good_keeps_hard_state)
  then show ?thesis unfolding compact(1) by (rule ballot_inv_replace [OF assms(1)])
qed

lemma ballot_inv_reachable: "reachable s \<Longrightarrow> ballot_inv s"
proof (induction rule: reachable.induct)
  case (start s)
  then show ?case by (simp add: initial_def ballot_inv_def)
next
  case (step s s')
  then show ?case using ballot_inv_step by blast
qed

section \<open>Election safety\<close>

text \<open>Emission ends a leadership only when a configuration entry is handed out.\<close>

lemma emit_committed_outputs_role:
  "\<forall>e\<in>set (Node_log n). \<forall>c. entry_kind e \<noteq> Configuration c \<Longrightarrow>
   Node_role (fst (emit_committed_outputs n)) = Node_role n \<and>
   Node_current_term (fst (emit_committed_outputs n)) = Node_current_term n"
proof (induction n rule: emit_committed_outputs.induct)
  case (1 n)
  show ?case
  proof (cases "emit_one n")
    case None
    then show ?thesis by (simp add: emit_committed_outputs.simps)
  next
    case (Some r)
    obtain n' outs where r: "emit_one n = Some (n', outs)" using Some by (cases r) simp
    from emit_one_Some [OF r] obtain e where e: "entry_at n (Suc (Node_dispatched_index n)) = Some e"
      "Node_log n' = Node_log n" "Node_current_term n' = Node_current_term n" by metis
    then have "e \<in> set (Node_log n)" by (auto simp: entry_at_get get_def split: if_splits)
    with 1(2) have "\<forall>c. entry_kind e \<noteq> Configuration c" by blast
    with r e(1) have "Node_role n' = Node_role n"
      by (auto simp: emit_one_def Let_def case_prod_unfold split: if_splits LogEntryKind.splits)
    with 1(1) [OF r refl] 1(2) e r show ?thesis
      by (simp add: emit_committed_outputs.simps [of n] case_prod_unfold Let_def)
  qed
qed

lemma become_leader_role:
  assumes "\<forall>e\<in>set (Node_log n). \<forall>c. entry_kind e \<noteq> Configuration c"
  shows "Node_role (fst (become_leader n)) = Leader \<and> Node_current_term (fst (become_leader n)) = Node_current_term n"
proof -
  have m: "Node_role (leader_start n) = Leader" "Node_current_term (leader_start n) = Node_current_term n"
    "\<forall>e\<in>set (Node_log (leader_start n)). \<forall>c. entry_kind e \<noteq> Configuration c"
    using assms by (auto simp: leader_start_def append_log_entry_def)
  then show ?thesis
    unfolding become_leader_eq Let_def
    by (auto simp: advance_commit_index_def Let_def frame_simps emit_committed_outputs_role
        split: option.split)
qed

text \<open>A cluster whose nodes are voters alone: a tick elects.\<close>

definition solo_node :: "NodeId \<Rightarrow> Node" where
  "solo_node i = sample_follower\<lparr>config := with_pre_vote False
     (from_validated_membership i [] [i] (StableMembership \<lparr>voters = [i], learners = []\<rparr>) 1)\<rparr>"

definition solo_cluster :: Cluster where
  "solo_cluster = \<lparr>nodes = solo_node, sent = {}, ballots = (\<lambda>_ _. None), elected = {}\<rparr>"

lemmas solo_defs = solo_node_def with_pre_vote_def sample_defs

lemma solo_effective: "effective_membership (solo_node i) = StableMembership \<lparr>voters = [i], learners = []\<rparr>"
  by (simp add: effective_membership_empty effective_base_membership_def solo_defs)

lemma solo_initial: "initial solo_cluster"
proof -
  have "snapshot_index (solo_node i) = 0" "last_log_index (solo_node i) = 4" for i
    using sample_snapshot_index(1) sample_last(1)
    by (simp_all add: snapshot_index_def last_log_index_def solo_node_def)
  then have "node_inv (solo_node i)" for i
    using sample_follower_inv
    by (simp add: node_inv_def geometry_ok_def derived_ok_def solo_node_def membership_sources_wf_def)
      (simp add: solo_defs membership_set_wf_def ordered_def)
  then show ?thesis by (auto simp: initial_def solo_cluster_def) (simp_all add: solo_defs fun_eq_iff)
qed

lemma solo_tick:
  "Node_role (fst (step Tick (solo_node i))) = Leader \<and> Node_current_term (fst (step Tick (solo_node i))) = 3"
proof -
  let ?n = "map_election advance_timeout (solo_node i)"
  let ?c = "candidate_of ?n 3"
  have cfg: "effective_election_timeout ?n = 1" "elapsed (election ?n) = 1" "\<not> pre_vote (config ?n)"
    "Node_role (solo_node i) = Follower" "Node_current_term ?n = 2" "Node_id ?n = i"
    by (simp_all add: effective_election_timeout_def advance_timeout_def solo_defs ElectionState_default_def
        pre_vote_def effective_features_def RequestedFeatures_default_def
        effective_def sat_add_def u64_max_def)
  then have tick: "step Tick (solo_node i) = start_election ?n" by (simp add: tick_def Let_def)
  have same: "same_log (solo_node i) ?n" "same_log (solo_node i) ?c" by (simp_all add: same_log_def candidate_of_def)
  then have m: "effective_membership ?n = StableMembership \<lparr>voters = [i], learners = []\<rparr>"
    "effective_membership ?c = StableMembership \<lparr>voters = [i], learners = []\<rparr>"
    by (simp_all add: same_log_membership solo_effective)
  have voter: "is_effective_voter ?n (Node_id ?n)" using cfg(6) by (simp add: is_effective_voter_def m)
  have inv: "node_inv (solo_node i)" using solo_initial by (simp add: initial_def solo_cluster_def)
  have "membership_sources_wf ?c"
    using inv node_inv_same_log [OF inv same(2)] by (simp add: node_inv_def candidate_of_def)
  moreover have "small_config (effective_membership ?c)"
    by (simp add: m small_config_def small_nodes_def set_replica_ids_def union_node_ids_def btree_set_def u64_max_def)
  moreover have "set (votes (election ?c)) = {i}" using cfg(6) by (simp add: candidate_of_def begin_election_def set_insort_insert)
  then have "has_quorum (effective_membership ?c) (votes (election ?c))"
    unfolding m by (simp add: set_has_quorum_def quorum_size_def majority_def)
  ultimately have "has_effective_quorum ?c (votes (election ?c))" using has_effective_quorum_eq by blast
  then have win: "fst (start_election ?n) = fst (broadcast_append_entries (fst (become_leader ?c)))"
    using voter cfg(5) by (cases rule: start_election_cases [of ?n]) (simp_all add: u64_max_def)
  have "\<forall>e\<in>set (Node_log ?c). \<forall>c. entry_kind e \<noteq> Configuration c" by (simp add: candidate_of_def solo_defs)
  from become_leader_role [OF this] broadcast_append_entries_leader_only [of "fst (become_leader ?c)"]
  show ?thesis unfolding tick win by (auto simp: leader_only_def candidate_of_def)
qed

text \<open>
  C1: At most one leader per term. In every reachable state of the cluster, two elections of the same
  term won under configurations whose quorums intersect were won by the same node, and every current
  leader has won an election of its term; in particular two leaders of a term are the same node when
  the configurations they were elected under intersect. Lost, delayed, duplicated, reordered and forged
  messages are covered, except that a vote must come from the node it names; so are crashes and local
  compaction.
\<close>

theorem election_safety:
  assumes "reachable s"
    and "\<forall>m m'. (i, t, m) \<in> elected s \<longrightarrow> (j, t, m') \<in> elected s \<longrightarrow>
      small_config m \<and> small_config m' \<and> safe_successor m m'"
    and "Node_role (nodes s i) = Leader" "Node_current_term (nodes s i) = t"
    and "Node_role (nodes s j) = Leader" "Node_current_term (nodes s j) = t"
  shows "i = j"
proof -
  have inv: "ballot_inv s" using assms(1) by (rule ballot_inv_reachable)
  have leaders: "\<exists>m. (k, Node_current_term (nodes s k), m) \<in> elected s" if "Node_role (nodes s k) = Leader" for k
    using inv that unfolding ballot_inv_def by blast
  obtain m m' where m: "(i, t, m) \<in> elected s" "(j, t, m') \<in> elected s"
    using leaders [OF assms(3)] leaders [OF assms(5)] assms(4,6) by auto
  with assms(2) have c: "small_config m" "small_config m'" "safe_successor m m'" by blast+
  obtain vs where vs: "has_quorum m vs" "\<forall>v\<in>set vs. ballots s v t = Some i"
    using inv m(1) c(1) unfolding ballot_inv_def by blast
  obtain ws where ws: "has_quorum m' ws" "\<forall>v\<in>set ws. ballots s v t = Some j"
    using inv m(2) c(2) unfolding ballot_inv_def by blast
  from c(3) vs(1) ws(1) obtain v where "v \<in> set vs" "v \<in> set ws" unfolding safe_successor_def by blast
  with vs(2) ws(2) show ?thesis by (metis option.inject)
qed

theorem election_safety_witness:
  "\<exists>s. reachable s \<and> {j. Node_role (nodes s j) = Leader \<and> Node_current_term (nodes s j) = 3} = {1}"
proof -
  let ?n = "fst (step Tick (solo_node 1))" and ?outs = "snd (step Tick (solo_node 1))"
  let ?s = "replace_node 1 ?n ?outs solo_cluster"
  have "cluster_step solo_cluster ?s"
    by (rule act [of _ _ "SingleInput Tick"]) (simp_all add: solo_cluster_def)
  then have reach: "reachable ?s" using reachable.step [OF start [OF solo_initial]] by blast
  have one: "Node_role (nodes ?s 1) = Leader" "Node_current_term (nodes ?s 1) = 3" using solo_tick [of 1] by simp_all
  have "small_config (effective_membership (solo_node 1))" "safe_successor (effective_membership (solo_node 1)) (effective_membership (solo_node 1))"
    by (auto simp: solo_effective small_config_def small_nodes_def set_replica_ids_def union_node_ids_def btree_set_def u64_max_def
        safe_successor_def set_has_quorum_def quorum_size_def majority_def split: if_splits)
  then have "\<forall>m m'. (1, 3, m) \<in> elected ?s \<longrightarrow> (j, 3, m') \<in> elected ?s \<longrightarrow>
      small_config m \<and> small_config m' \<and> safe_successor m m'" for j
    unfolding elected_replace by (auto simp: solo_cluster_def)
  from election_safety [OF reach this one] have "1 = j" if "Node_role (nodes ?s j) = Leader" "Node_current_term (nodes ?s j) = 3" for j
    using that by blast
  with reach one show ?thesis by blast
qed

end
