(* ===== verification/Wire.thy ===== *)
theory Wire
  imports Snapshot_Identity
begin

text \<open>
  The byte layer of the peer codec (\<open>crates/rafter-codec/src/wire.rs\<close>): the two sinks an encoder
  writes to, the big-endian writers with their length-prefix checks, and the reader. A writer is
  polymorphic in its sink as in the source, the trait being the record of its two operations; a
  reader is the frame with a position. The allocation cache behind \<open>shared_frame\<close> has no
  counterpart: a shared payload is its bytes.
\<close>

section \<open>Results\<close>

text \<open>The operator \<open>?\<close> on results.\<close>

fun and_then :: "'e + 'a \<Rightarrow> ('a \<Rightarrow> 'e + 'b) \<Rightarrow> 'e + 'b" where
  "and_then (Inl e) f = Inl e"
| "and_then (Inr x) f = f x"

lemma and_then_Inr_iff: "and_then r f = Inr y \<longleftrightarrow> (\<exists>x. r = Inr x \<and> f x = Inr y)"
  by (cases r) auto

lemma and_then_Inl_iff: "and_then r f = Inl e \<longleftrightarrow> r = Inl e \<or> (\<exists>x. r = Inr x \<and> f x = Inl e)"
  by (cases r) auto

section \<open>Big-endian bytes\<close>

primrec to_be_bytes :: "nat \<Rightarrow> nat \<Rightarrow> byte list" where
  "to_be_bytes 0 v = []"
| "to_be_bytes (Suc n) v = to_be_bytes n (v div 256) @ [word_of_nat v]"

definition from_be_bytes :: "byte list \<Rightarrow> nat" where
  "from_be_bytes bs = foldl (\<lambda>a b. a * 256 + unat b) 0 bs"

lemma length_to_be_bytes [simp]: "length (to_be_bytes n v) = n"
  by (induction n arbitrary: v) simp_all

lemma from_be_bytes_simps [simp]:
  "from_be_bytes [] = 0" "from_be_bytes (bs @ [b]) = from_be_bytes bs * 256 + unat b"
  by (simp_all add: from_be_bytes_def)

lemma from_to_be_bytes: "v < 256 ^ n \<Longrightarrow> from_be_bytes (to_be_bytes n v) = v"
proof (induction n arbitrary: v)
  case (Suc n)
  then have "v div 256 < 256 ^ n" by (simp add: less_mult_imp_div_less mult.commute)
  with Suc.IH show ?case by (simp add: unat_of_nat)
qed simp

lemma from_be_bytes_bound: "from_be_bytes bs < 256 ^ length bs"
proof (induction bs rule: rev_induct)
  case (snoc b bs)
  have "unat b < 256" using unsigned_less [of b] by simp
  then have "from_be_bytes (bs @ [b]) < (from_be_bytes bs + 1) * 256" by simp
  also have "\<dots> \<le> 256 ^ length bs * 256" using snoc by (intro mult_right_mono) simp_all
  finally show ?case by (simp add: mult.commute)
qed simp

lemma to_from_be_bytes: "length bs = n \<Longrightarrow> to_be_bytes n (from_be_bytes bs) = bs"
proof (induction bs arbitrary: n rule: rev_induct)
  case (snoc b bs)
  have "unat b < 256" using unsigned_less [of b] by simp
  then have "(from_be_bytes bs * 256 + unat b) div 256 = from_be_bytes bs" by simp
  moreover have "(256 :: byte) = 0" by transfer simp
  then have "(word_of_nat (from_be_bytes bs * 256 + unat b) :: byte) = b"
    unfolding of_nat_add of_nat_mult of_nat_numeral by (simp only: mult_zero_right) simp
  ultimately show ?case using snoc by (cases n) simp_all
qed simp

text \<open>Reading and writing a value of a width are inverse.\<close>

lemma be_bytes_iff: "length bs = n \<Longrightarrow> from_be_bytes bs = v \<longleftrightarrow> v < 256 ^ n \<and> bs = to_be_bytes n v"
  using from_be_bytes_bound [of bs] to_from_be_bytes [of bs n] from_to_be_bytes [of v n] by auto

section \<open>Errors\<close>

datatype EncodePeerMessageError =
    FieldTooLarge string usize usize
  | UnsupportedMessage string string

datatype DecodePeerMessageError =
    UnexpectedEof usize usize
  | InvalidMagic "byte list"
  | UnsupportedVersion byte
  | UnknownMessageType byte
  | InvalidBoolean byte
  | InvalidUtf8 string
  | InvalidSnapshotGroupId SnapshotIdError
  | InvalidApplicationSnapshotKind SnapshotIdError
  | InvalidApplicationSnapshotVersion SnapshotMetadataError
  | InvalidSnapshotMetadata SnapshotMetadataError
  | InvalidMembership MembershipValidationError
  | NonCanonicalMembershipOrder string
  | UnknownLogEntryKind byte
  | UnknownMembershipKind byte
  | FrameChecksumMismatch "32 word" "32 word"
  | TrailingBytes usize

section \<open>Sinks\<close>

record 's Sink =
  sink_position :: "'s \<Rightarrow> usize"
  sink_write :: "byte list \<Rightarrow> 's \<Rightarrow> 's"

definition CountingSink :: "usize Sink" where
  "CountingSink = \<lparr>sink_position = (\<lambda>p. p), sink_write = (\<lambda>bs p. sat_add p (length bs))\<rparr>"

definition VecSink :: "byte list Sink" where
  "VecSink = \<lparr>sink_position = length, sink_write = (\<lambda>bs v. v @ bs)\<rparr>"

section \<open>Writers\<close>

abbreviation writer_bytes :: "'s Sink \<Rightarrow> byte list \<Rightarrow> 's \<Rightarrow> 's" where
  "writer_bytes \<equiv> sink_write"

definition writer_u8 :: "'s Sink \<Rightarrow> byte \<Rightarrow> 's \<Rightarrow> 's" where
  "writer_u8 sk v = writer_bytes sk [v]"

definition bool_byte :: "bool \<Rightarrow> byte" where
  "bool_byte v = (if v then 1 else 0)"

definition writer_bool :: "'s Sink \<Rightarrow> bool \<Rightarrow> 's \<Rightarrow> 's" where
  "writer_bool sk v = writer_u8 sk (bool_byte v)"

definition writer_u16 :: "'s Sink \<Rightarrow> nat \<Rightarrow> 's \<Rightarrow> 's" where
  "writer_u16 sk v = writer_bytes sk (to_be_bytes 2 v)"

definition writer_u32 :: "'s Sink \<Rightarrow> u32 \<Rightarrow> 's \<Rightarrow> 's" where
  "writer_u32 sk v = writer_bytes sk (to_be_bytes 4 v)"

definition writer_u64 :: "'s Sink \<Rightarrow> u64 \<Rightarrow> 's \<Rightarrow> 's" where
  "writer_u64 sk v = writer_bytes sk (to_be_bytes 8 v)"

definition u16_max :: nat where
  "u16_max = 65535"

definition u32_max :: nat where
  "u32_max = 4294967295"

definition length_u16 :: "'s Sink \<Rightarrow> string \<Rightarrow> usize \<Rightarrow> 's \<Rightarrow> EncodePeerMessageError + 's" where
  "length_u16 sk field len s =
     (if len \<le> u16_max then Inr (writer_u16 sk len s) else Inl (FieldTooLarge field len u16_max))"

definition length_u32 :: "'s Sink \<Rightarrow> string \<Rightarrow> usize \<Rightarrow> 's \<Rightarrow> EncodePeerMessageError + 's" where
  "length_u32 sk field len s =
     (if len \<le> u32_max then Inr (writer_u32 sk len s) else Inl (FieldTooLarge field len u32_max))"

definition as_bytes :: "string \<Rightarrow> byte list" where
  "as_bytes s = map of_char s"

definition writer_string :: "'s Sink \<Rightarrow> string \<Rightarrow> string \<Rightarrow> 's \<Rightarrow> EncodePeerMessageError + 's" where
  "writer_string sk field v s =
     and_then (length_u16 sk field (length (as_bytes v)) s) (\<lambda>s. Inr (writer_bytes sk (as_bytes v) s))"

definition writer_blob :: "'s Sink \<Rightarrow> string \<Rightarrow> byte list \<Rightarrow> 's \<Rightarrow> EncodePeerMessageError + 's" where
  "writer_blob sk field v s =
     and_then (length_u32 sk field (length v) s) (\<lambda>s. Inr (writer_bytes sk v s))"

lemmas writer_defs = writer_u8_def writer_bool_def writer_u16_def writer_u32_def writer_u64_def
  length_u16_def length_u32_def writer_string_def writer_blob_def

section \<open>The contract of a sink\<close>

text \<open>
  Writing twice is writing the concatenation, and the position counts what was written. An encoder
  \<open>writes\<close> a result when, after any earlier write, it appends the bytes of the result or fails with
  its error: one description of the bytes serves both sinks.
\<close>

definition writes :: "'s Sink \<Rightarrow> ('s \<Rightarrow> EncodePeerMessageError + 's) \<Rightarrow> EncodePeerMessageError + byte list \<Rightarrow> bool" where
  "writes sk f w \<longleftrightarrow> (\<forall>earlier s. f (sink_write sk earlier s) = map_sum id (\<lambda>bs. sink_write sk (earlier @ bs) s) w)"

locale sink =
  fixes sk :: "'s Sink"
  assumes write_write: "sink_write sk cs (sink_write sk bs s) = sink_write sk (bs @ cs) s"
    and position_write: "sink_position sk s + length bs \<le> u64_max \<Longrightarrow>
      sink_position sk (sink_write sk bs s) = sink_position sk s + length bs"
begin

lemma writes_bytes: "writes sk (\<lambda>s. Inr (sink_write sk bs s)) (Inr bs)"
  by (simp add: writes_def write_write)

lemma writes_nothing: "writes sk Inr (Inr [])"
  by (simp add: writes_def)

lemma writes_error: "writes sk (\<lambda>s. Inl e) (Inl e)"
  by (simp add: writes_def)

lemma writes_after:
  assumes "writes sk f w"
  shows "writes sk (\<lambda>s. f (sink_write sk bs s)) (and_then w (\<lambda>cs. Inr (bs @ cs)))"
  using assms by (cases w) (simp_all add: writes_def write_write)

lemma writes_then:
  assumes "writes sk f w" "writes sk g v"
  shows "writes sk (\<lambda>s. and_then (f s) g) (and_then w (\<lambda>bs. and_then v (\<lambda>cs. Inr (bs @ cs))))"
  using assms by (cases w; cases v) (simp_all add: writes_def)

lemma writes_if: "writes sk f w \<Longrightarrow> writes sk g v \<Longrightarrow> writes sk (if b then f else g) (if b then w else v)"
  by simp

text \<open>The position a successful encoder leaves is the number of bytes of the frame.\<close>

lemma position_of_writes:
  assumes "writes sk f (Inr bs)" "sink_position sk s + length earlier + length bs \<le> u64_max"
    and "f (sink_write sk earlier s) = Inr s'"
  shows "sink_position sk s' = sink_position sk s + length earlier + length bs"
  using assms position_write [of s "earlier @ bs"] by (simp add: writes_def)

end

interpretation vec: sink VecSink
  by unfold_locales (simp_all add: VecSink_def)

interpretation counting: sink CountingSink
  by unfold_locales (auto simp: CountingSink_def sat_add_def)

section \<open>Readers\<close>

record Reader =
  rd_payload :: "byte list"
  rd_position :: usize

text \<open>A decoding step; \<open>read_then\<close> is sequencing with the early return of \<open>?\<close>.\<close>

type_synonym 'a decoder = "Reader \<Rightarrow> DecodePeerMessageError + 'a \<times> Reader"

definition read_then :: "'a decoder \<Rightarrow> ('a \<Rightarrow> 'b decoder) \<Rightarrow> 'b decoder" where
  "read_then d f r = and_then (d r) (\<lambda>(x, r). f x r)"

definition read_result :: "DecodePeerMessageError + 'a \<Rightarrow> 'a decoder" where
  "read_result v r = and_then v (\<lambda>x. Inr (x, r))"

abbreviation read_return :: "'a \<Rightarrow> 'a decoder" where
  "read_return x \<equiv> read_result (Inr x)"

definition Reader_new :: "byte list \<Rightarrow> Reader" where
  "Reader_new bs = \<lparr>rd_payload = bs, rd_position = 0\<rparr>"

definition remaining :: "Reader \<Rightarrow> usize" where
  "remaining r = length (rd_payload r) - rd_position r"

definition reader_finish :: "Reader \<Rightarrow> DecodePeerMessageError + unit" where
  "reader_finish r = (if remaining r = 0 then Inr () else Inl (TrailingBytes (remaining r)))"

definition take_range :: "usize \<Rightarrow> (usize \<times> usize) decoder" where
  "take_range len r =
     (if remaining r < len then Inl (UnexpectedEof len (remaining r))
      else Inr ((rd_position r, rd_position r + len), r\<lparr>rd_position := rd_position r + len\<rparr>))"

definition byte_range :: "byte list \<Rightarrow> usize \<times> usize \<Rightarrow> byte list" where
  "byte_range bs rng = take (snd rng - fst rng) (drop (fst rng) bs)"

definition reader_take :: "usize \<Rightarrow> byte list decoder" where
  "reader_take len r = and_then (take_range len r) (\<lambda>(rng, r). Inr (byte_range (rd_payload r) rng, r))"

definition array_4 :: "byte list decoder" where
  "array_4 = reader_take 4"

definition reader_u8 :: "byte decoder" where
  "reader_u8 = read_then (reader_take 1) (\<lambda>bs. read_return (hd bs))"

definition reader_bool :: "bool decoder" where
  "reader_bool = read_then reader_u8 (\<lambda>b. read_result
     (if b = 0 then Inr False else if b = 1 then Inr True else Inl (InvalidBoolean b)))"

definition reader_u16 :: "nat decoder" where
  "reader_u16 = read_then (reader_take 2) (\<lambda>bs. read_return (from_be_bytes bs))"

definition reader_u32 :: "u32 decoder" where
  "reader_u32 = read_then (reader_take 4) (\<lambda>bs. read_return (from_be_bytes bs))"

definition reader_u64 :: "u64 decoder" where
  "reader_u64 = read_then (reader_take 8) (\<lambda>bs. read_return (from_be_bytes bs))"

text \<open>
  \<open>str::from_utf8\<close>: the well-formed byte sequences of the Unicode standard. A string of the model is
  its bytes.
\<close>

definition continuation :: "byte \<Rightarrow> bool" where
  "continuation b \<longleftrightarrow> 0x80 \<le> b \<and> b \<le> 0xBF"

fun utf8_valid :: "byte list \<Rightarrow> bool" where
  "utf8_valid [] = True"
| "utf8_valid (a # bs) =
     (if a < 0x80 then utf8_valid bs
      else if 0xC2 \<le> a \<and> a \<le> 0xDF then
        (case bs of b # bs \<Rightarrow> continuation b \<and> utf8_valid bs | _ \<Rightarrow> False)
      else if 0xE0 \<le> a \<and> a \<le> 0xEF then
        (case bs of b # c # bs \<Rightarrow> (if a = 0xE0 then 0xA0 else 0x80) \<le> b \<and> b \<le> (if a = 0xED then 0x9F else 0xBF) \<and>
           continuation c \<and> utf8_valid bs | _ \<Rightarrow> False)
      else if 0xF0 \<le> a \<and> a \<le> 0xF4 then
        (case bs of b # c # d # bs \<Rightarrow> (if a = 0xF0 then 0x90 else 0x80) \<le> b \<and> b \<le> (if a = 0xF4 then 0x8F else 0xBF) \<and>
           continuation c \<and> continuation d \<and> utf8_valid bs | _ \<Rightarrow> False)
      else False)"

definition from_utf8 :: "byte list \<Rightarrow> string" where
  "from_utf8 bs = map (\<lambda>b. char_of (unat b)) bs"

definition reader_string :: "string \<Rightarrow> string decoder" where
  "reader_string field = read_then reader_u16 (\<lambda>len. read_then (reader_take len) (\<lambda>bs.
     read_result (if utf8_valid bs then Inr (from_utf8 bs) else Inl (InvalidUtf8 field))))"

definition blob_bytes :: "byte list decoder" where
  "blob_bytes = read_then reader_u32 reader_take"

definition reader_blob :: "byte list decoder" where
  "reader_blob = blob_bytes"

definition shared_blob_range :: "(byte list \<times> usize \<times> usize) decoder" where
  "shared_blob_range = read_then reader_u32 (\<lambda>len. read_then (take_range len)
     (\<lambda>rng r. Inr ((rd_payload r, rng), r)))"

section \<open>What readers accept\<close>

text \<open>
  \<open>reads r bs r'\<close>: the next bytes of \<open>r\<close> are \<open>bs\<close>, and \<open>r'\<close> is the reader behind them. Every
  decoder is described by the bytes it accepts for a value, so that decoding is inverse to encoding.
\<close>

definition reads :: "Reader \<Rightarrow> byte list \<Rightarrow> Reader \<Rightarrow> bool" where
  "reads r bs r' \<longleftrightarrow> r' = r\<lparr>rd_position := rd_position r + length bs\<rparr> \<and>
     take (length bs) (drop (rd_position r) (rd_payload r)) = bs"

named_theorems reads_iffs \<open>which bytes a decoder accepts\<close>

lemma reads_Nil [simp]: "reads r [] r' \<longleftrightarrow> r' = r"
  by (simp add: reads_def)

lemma reads_append: "reads r (bs @ cs) r'' \<longleftrightarrow> (\<exists>r'. reads r bs r' \<and> reads r' cs r'')"
proof -
  have split: "take (length bs + length cs) ys = bs @ cs \<longleftrightarrow> take (length bs) ys = bs \<and> take (length cs) (drop (length bs) ys) = cs" for ys
  proof
    assume l: "take (length bs + length cs) ys = bs @ cs"
    then have "length bs + length cs \<le> length ys"
      using length_take [of "length bs + length cs" ys] by simp
    with l show "take (length bs) ys = bs \<and> take (length cs) (drop (length bs) ys) = cs"
      unfolding take_add by simp
  qed (simp add: take_add)
  show ?thesis by (auto simp: reads_def split add.assoc) (simp_all add: add.commute)
qed

lemma read_then_iff [reads_iffs]:
  "read_then d f r = Inr (y, r'') \<longleftrightarrow> (\<exists>x r'. d r = Inr (x, r') \<and> f x r' = Inr (y, r''))"
  by (auto simp: read_then_def and_then_Inr_iff)

lemma read_result_iff [reads_iffs]: "read_result v r = Inr (x, r') \<longleftrightarrow> v = Inr x \<and> r' = r"
  by (auto simp: read_result_def and_then_Inr_iff)

lemma take_range_iff [reads_iffs]:
  "take_range len r = Inr (rng, r') \<longleftrightarrow>
     rng = (rd_position r, rd_position r + len) \<and> (\<exists>bs. length bs = len \<and> reads r bs r')"
proof -
  have "(\<exists>bs. length bs = len \<and> reads r bs r') \<longleftrightarrow>
      len \<le> remaining r \<and> r' = r\<lparr>rd_position := rd_position r + len\<rparr>"
  proof
    assume "\<exists>bs. length bs = len \<and> reads r bs r'"
    then obtain bs where "length bs = len" "r' = r\<lparr>rd_position := rd_position r + length bs\<rparr>"
      "take (length bs) (drop (rd_position r) (rd_payload r)) = bs"
      by (auto simp: reads_def)
    then show "len \<le> remaining r \<and> r' = r\<lparr>rd_position := rd_position r + len\<rparr>"
      using length_take [of "length bs" "drop (rd_position r) (rd_payload r)"] by (simp add: remaining_def)
  qed (auto simp: reads_def remaining_def intro!: exI [of _ "take len (drop (rd_position r) (rd_payload r))"])
  then show ?thesis by (auto simp: take_range_def)
qed

lemma reader_take_iff [reads_iffs]: "reader_take len r = Inr (bs, r') \<longleftrightarrow> length bs = len \<and> reads r bs r'"
  by (auto simp: reader_take_def and_then_Inr_iff take_range_iff byte_range_def reads_def)

lemma reader_u8_iff [reads_iffs]: "reader_u8 r = Inr (b, r') \<longleftrightarrow> reads r [b] r'"
proof -
  have "(\<exists>bs. length bs = 1 \<and> reads r bs r' \<and> b = hd bs) \<longleftrightarrow> reads r [b] r'"
    by (auto simp: length_Suc_conv)
  then show ?thesis by (auto simp: reader_u8_def reads_iffs)
qed

lemma bool_byte_iff: "bool_byte v = b \<longleftrightarrow> v \<and> b = 1 \<or> \<not> v \<and> b = 0"
  by (auto simp: bool_byte_def)

lemma reader_bool_iff [reads_iffs]: "reader_bool r = Inr (v, r') \<longleftrightarrow> reads r [bool_byte v] r'"
proof -
  have "(if b = 0 then Inr False else if b = 1 then Inr True else Inl (InvalidBoolean b)) = Inr v \<longleftrightarrow> b = bool_byte v" for b
    by (auto simp: bool_byte_def)
  then show ?thesis by (simp add: reader_bool_def reads_iffs)
qed

lemma be_reader_iff:
  "read_then (reader_take n) (\<lambda>bs. read_return (from_be_bytes bs)) r = Inr (v, r') \<longleftrightarrow>
     v < 256 ^ n \<and> reads r (to_be_bytes n v) r'"
proof -
  have "(\<exists>bs. length bs = n \<and> reads r bs r' \<and> from_be_bytes bs = v) \<longleftrightarrow> v < 256 ^ n \<and> reads r (to_be_bytes n v) r'"
    using be_bytes_iff [of _ n v] by (metis length_to_be_bytes)
  then show ?thesis by (auto simp: reads_iffs)
qed

lemma reader_u16_iff [reads_iffs]: "reader_u16 r = Inr (v, r') \<longleftrightarrow> v \<le> u16_max \<and> reads r (to_be_bytes 2 v) r'"
  by (auto simp: reader_u16_def be_reader_iff u16_max_def)

lemma reader_u32_iff [reads_iffs]: "reader_u32 r = Inr (v, r') \<longleftrightarrow> v \<le> u32_max \<and> reads r (to_be_bytes 4 v) r'"
  by (auto simp: reader_u32_def be_reader_iff u32_max_def)

lemma reader_u64_iff [reads_iffs]: "reader_u64 r = Inr (v, r') \<longleftrightarrow> v \<le> u64_max \<and> reads r (to_be_bytes 8 v) r'"
  by (auto simp: reader_u64_def be_reader_iff u64_max_def)

lemma byte_char: "of_char (char_of (unat b) :: char) = (b :: byte)" "char_of (unat (of_char c :: byte)) = c"
proof -
  have nat: "of_char c = (word_of_nat (of_char c) :: byte)" "(of_char c :: nat) < 256" for c
    by (simp_all add: of_nat_of_char)
  have "unat b < 256" using unsigned_less [of b] by simp
  then show "of_char (char_of (unat b) :: char) = b" by (simp add: nat(1) [of "char_of (unat b)"] of_char_of)
  show "char_of (unat (of_char c :: byte)) = c" by (simp add: nat(1) [of c] unsigned_of_nat take_bit_eq_mod nat(2))
qed

lemma as_bytes_from_utf8 [simp]: "as_bytes (from_utf8 bs) = bs"
  by (simp add: as_bytes_def from_utf8_def byte_char o_def)

lemma from_utf8_as_bytes [simp]: "from_utf8 (as_bytes s) = s"
  by (simp add: as_bytes_def from_utf8_def byte_char o_def)

lemma reader_string_iff [reads_iffs]:
  "reader_string field r = Inr (v, r') \<longleftrightarrow> length v \<le> u16_max \<and> utf8_valid (as_bytes v) \<and>
     reads r (to_be_bytes 2 (length v) @ as_bytes v) r'"
proof -
  have [simp]: "length (as_bytes v) = length v" by (simp add: as_bytes_def)
  have "(if utf8_valid bs then Inr (from_utf8 bs) else Inl (InvalidUtf8 field)) = Inr v \<longleftrightarrow>
      utf8_valid bs \<and> bs = as_bytes v" for bs
    by auto
  then show ?thesis by (auto simp: reader_string_def reads_iffs reads_append)
qed

lemma reader_blob_iff [reads_iffs]:
  "reader_blob r = Inr (v, r') \<longleftrightarrow> length v \<le> u32_max \<and> reads r (to_be_bytes 4 (length v) @ v) r'"
  by (auto simp: reader_blob_def blob_bytes_def reads_iffs reads_append)

text \<open>The names of snapshots are ASCII and therefore valid.\<close>

lemma utf8_valid_ascii: "\<forall>b\<in>set bs. b < 0x80 \<Longrightarrow> utf8_valid bs"
  by (induction bs) auto

end
