(* ===== verification/Codec.thy ===== *)
theory Codec
  imports Wire
begin

text \<open>
  The versioned peer codec (\<open>crates/rafter-codec/src/v1/*.rs\<close>, \<open>frame.rs\<close>): tags, memberships, log
  entries, snapshot metadata and the messages, the frame with its checksum, and the two-pass encoder.
  The byte-level grammar of \<open>WIRE_FORMAT_V1.md\<close> is the specification: both sinks of the encoder write
  it, and the decoder accepts a frame exactly when it is the encoding of a representable message.
\<close>

section \<open>Tags\<close>

datatype MessageTag =
    RequestVoteTag | RequestVoteResponseTag | AppendEntriesTag | AppendEntriesResponseTag
  | InstallSnapshotResponseTag | InstallSnapshotChunkTag | PreVoteTag | PreVoteResponseTag | TimeoutNowTag

fun message_tag_byte :: "MessageTag \<Rightarrow> byte" where
  "message_tag_byte RequestVoteTag = 1"
| "message_tag_byte RequestVoteResponseTag = 2"
| "message_tag_byte AppendEntriesTag = 3"
| "message_tag_byte AppendEntriesResponseTag = 4"
| "message_tag_byte InstallSnapshotResponseTag = 6"
| "message_tag_byte InstallSnapshotChunkTag = 7"
| "message_tag_byte PreVoteTag = 8"
| "message_tag_byte PreVoteResponseTag = 9"
| "message_tag_byte TimeoutNowTag = 10"

definition message_tag_try_from :: "byte \<Rightarrow> DecodePeerMessageError + MessageTag" where
  "message_tag_try_from v =
     (if v = 1 then Inr RequestVoteTag else if v = 2 then Inr RequestVoteResponseTag
      else if v = 3 then Inr AppendEntriesTag else if v = 4 then Inr AppendEntriesResponseTag
      else if v = 6 then Inr InstallSnapshotResponseTag else if v = 7 then Inr InstallSnapshotChunkTag
      else if v = 8 then Inr PreVoteTag else if v = 9 then Inr PreVoteResponseTag
      else if v = 10 then Inr TimeoutNowTag else Inl (UnknownMessageType v))"

datatype LogEntryTag = ApplicationTag | ConfigurationStableTag | ConfigurationJointTag | NoopTag

fun log_entry_tag_byte :: "LogEntryTag \<Rightarrow> byte" where
  "log_entry_tag_byte ApplicationTag = 0"
| "log_entry_tag_byte ConfigurationStableTag = 1"
| "log_entry_tag_byte ConfigurationJointTag = 2"
| "log_entry_tag_byte NoopTag = 3"

definition log_entry_tag_try_from :: "byte \<Rightarrow> DecodePeerMessageError + LogEntryTag" where
  "log_entry_tag_try_from v =
     (if v = 0 then Inr ApplicationTag else if v = 1 then Inr ConfigurationStableTag
      else if v = 2 then Inr ConfigurationJointTag else if v = 3 then Inr NoopTag
      else Inl (UnknownLogEntryKind v))"

datatype MembershipTag = StableTag | JointTag

fun membership_tag_byte :: "MembershipTag \<Rightarrow> byte" where
  "membership_tag_byte StableTag = 0"
| "membership_tag_byte JointTag = 1"

definition membership_tag_try_from :: "byte \<Rightarrow> DecodePeerMessageError + MembershipTag" where
  "membership_tag_try_from v =
     (if v = 0 then Inr StableTag else if v = 1 then Inr JointTag else Inl (UnknownMembershipKind v))"

lemma message_tag_iff: "message_tag_try_from v = Inr t \<longleftrightarrow> v = message_tag_byte t"
  by (cases t) (auto simp: message_tag_try_from_def)

lemma log_entry_tag_iff: "log_entry_tag_try_from v = Inr t \<longleftrightarrow> v = log_entry_tag_byte t"
  by (cases t) (auto simp: log_entry_tag_try_from_def)

lemma membership_tag_iff: "membership_tag_try_from v = Inr t \<longleftrightarrow> v = membership_tag_byte t"
  by (cases t) (auto simp: membership_tag_try_from_def)

section \<open>Memberships\<close>

definition encode_set :: "'s Sink \<Rightarrow> MembershipSet \<Rightarrow> 's \<Rightarrow> EncodePeerMessageError + 's" where
  "encode_set sk m s =
     and_then (length_u16 sk ''membership_voter_count'' (length (voters m)) s) (\<lambda>s.
     let s = fold (writer_u64 sk) (voters m) s in
     and_then (length_u16 sk ''membership_learner_count'' (length (learners m)) s) (\<lambda>s.
     Inr (fold (writer_u64 sk) (learners m) s)))"

fun encode_config :: "'s Sink \<Rightarrow> MembershipConfig \<Rightarrow> 's \<Rightarrow> EncodePeerMessageError + 's" where
  "encode_config sk (StableMembership m) s =
     encode_set sk m (writer_u8 sk (membership_tag_byte StableTag) s)"
| "encode_config sk (JointMembershipConfig j) s =
     and_then (encode_set sk (old_membership j) (writer_u8 sk (membership_tag_byte JointTag) s))
       (encode_set sk (new_membership j))"

text \<open>A loop that reads a fixed number of elements.\<close>

primrec read_many :: "nat \<Rightarrow> 'a decoder \<Rightarrow> 'a list decoder" where
  "read_many 0 d = read_return []"
| "read_many (Suc n) d = read_then d (\<lambda>x. read_then (read_many n d) (\<lambda>xs. read_return (x # xs)))"

definition NODE_ID_BYTES :: usize where
  "NODE_ID_BYTES = 8"

definition membership_node_capacity :: "usize \<Rightarrow> usize \<Rightarrow> usize" where
  "membership_node_capacity count remaining_bytes = min count (remaining_bytes div NODE_ID_BYTES)"

definition decode_node_set :: "NodeId list decoder" where
  "decode_node_set = read_then reader_u16 (\<lambda>count. read_many count reader_u64)"

definition require_canonical_order :: "NodeId list \<Rightarrow> string \<Rightarrow> DecodePeerMessageError + unit" where
  "require_canonical_order ns field =
     (if list_ex (\<lambda>(a, b). a > b) (zip ns (tl ns)) then Inl (NonCanonicalMembershipOrder field) else Inr ())"

definition decode_set :: "MembershipSet decoder" where
  "decode_set = read_then decode_node_set (\<lambda>vs. read_then decode_node_set (\<lambda>ls.
     read_result (and_then (require_canonical_order vs ''membership_voters'') (\<lambda>_.
       and_then (require_canonical_order ls ''membership_learners'') (\<lambda>_.
       map_sum InvalidMembership id (MembershipSet_new vs ls))))))"

definition decode_config :: "MembershipConfig decoder" where
  "decode_config = read_then reader_u8 (\<lambda>b. read_then (read_result (membership_tag_try_from b)) (\<lambda>t.
     case t of
       StableTag \<Rightarrow> read_then decode_set (\<lambda>m. read_return (StableMembership m))
     | JointTag \<Rightarrow> read_then decode_set (\<lambda>old. read_then decode_set (\<lambda>new.
         read_return (JointMembershipConfig \<lparr>old_membership = old, new_membership = new\<rparr>)))))"

section \<open>Log entries and append messages\<close>

definition encode_log_entry :: "'s Sink \<Rightarrow> LogEntry \<Rightarrow> 's \<Rightarrow> EncodePeerMessageError + 's" where
  "encode_log_entry sk e s =
     (let s = writer_u64 sk (entry_term e) s in
      case entry_kind e of
        Application payload \<Rightarrow>
          writer_blob sk ''entry_payload'' payload (writer_u8 sk (log_entry_tag_byte ApplicationTag) s)
      | Configuration (StableEntry c m) \<Rightarrow>
          encode_set sk m (writer_u64 sk c (writer_u8 sk (log_entry_tag_byte ConfigurationStableTag) s))
      | Configuration (JointEntry c j) \<Rightarrow>
          and_then (encode_set sk (old_membership j)
              (writer_u64 sk c (writer_u8 sk (log_entry_tag_byte ConfigurationJointTag) s)))
            (encode_set sk (new_membership j))
      | Noop \<Rightarrow> Inr (writer_u8 sk (log_entry_tag_byte NoopTag) s))"

fun encode_entries :: "'s Sink \<Rightarrow> LogEntry list \<Rightarrow> 's \<Rightarrow> EncodePeerMessageError + 's" where
  "encode_entries sk [] s = Inr s"
| "encode_entries sk (e # es) s = and_then (encode_log_entry sk e s) (encode_entries sk es)"

definition append_encode_request :: "'s Sink \<Rightarrow> AppendEntries \<Rightarrow> 's \<Rightarrow> EncodePeerMessageError + 's" where
  "append_encode_request sk a s =
     (let s = writer_u64 sk (ae_term a) s;
          s = writer_u64 sk (ae_leader_id a) s;
          s = writer_u64 sk (ae_prev_log_index a) s;
          s = writer_u64 sk (ae_prev_log_term a) s
      in and_then (length_u32 sk ''entry_count'' (length (ae_entries a)) s) (\<lambda>s.
         and_then (encode_entries sk (ae_entries a) s) (\<lambda>s.
         let s = writer_u64 sk (ae_leader_commit a) s in
         Inr (writer_u64 sk (ae_sequence a) s))))"

definition append_encode_response :: "'s Sink \<Rightarrow> AppendEntriesResponse \<Rightarrow> 's \<Rightarrow> 's" where
  "append_encode_response sk a s =
     (let s = writer_u64 sk (aer_term a) s;
          s = writer_u64 sk (aer_follower_id a) s;
          s = writer_bool sk (aer_success a) s;
          s = writer_u64 sk (aer_match_index a) s
      in writer_u64 sk (aer_sequence a) s)"

text \<open>\<open>SharedPayload::from_shared_range\<close>.\<close>

definition from_shared_range :: "byte list \<Rightarrow> usize \<times> usize \<Rightarrow> SharedPayload option" where
  "from_shared_range bs rng =
     (if fst rng \<le> snd rng \<and> snd rng \<le> length bs then Some (byte_range bs rng) else None)"

definition decode_log_entry :: "LogEntry decoder" where
  "decode_log_entry = read_then reader_u64 (\<lambda>t. read_then reader_u8 (\<lambda>b.
     read_then (read_result (log_entry_tag_try_from b)) (\<lambda>tag.
     case tag of
       ApplicationTag \<Rightarrow> read_then shared_blob_range (\<lambda>(bs, rng).
         case from_shared_range bs rng of
           None \<Rightarrow> read_result (Inl (UnexpectedEof (snd rng) (length bs)))
         | Some payload \<Rightarrow> read_return (application_entry t payload))
     | ConfigurationStableTag \<Rightarrow> read_then reader_u64 (\<lambda>c. read_then decode_set (\<lambda>m.
         read_return (configuration_log_entry t (StableEntry c m))))
     | ConfigurationJointTag \<Rightarrow> read_then reader_u64 (\<lambda>c. read_then decode_set (\<lambda>old.
         read_then decode_set (\<lambda>new.
         read_return (configuration_log_entry t (JointEntry c \<lparr>old_membership = old, new_membership = new\<rparr>)))))
     | NoopTag \<Rightarrow> read_return (noop_entry t))))"

definition append_decode_request :: "AppendEntries decoder" where
  "append_decode_request =
     read_then reader_u64 (\<lambda>trm. read_then reader_u64 (\<lambda>leader_id. read_then reader_u64 (\<lambda>prev_index.
     read_then reader_u64 (\<lambda>prev_term. read_then reader_u32 (\<lambda>entry_count.
     read_then (read_many entry_count decode_log_entry) (\<lambda>entries.
     read_then reader_u64 (\<lambda>commit. read_then reader_u64 (\<lambda>sequence.
     read_return \<lparr>ae_term = trm, ae_leader_id = leader_id, ae_prev_log_index = prev_index,
       ae_prev_log_term = prev_term, ae_sequence = sequence, ae_entries = entries, ae_leader_commit = commit\<rparr>))))))))"

definition append_decode_response :: "AppendEntriesResponse decoder" where
  "append_decode_response =
     read_then reader_u64 (\<lambda>trm. read_then reader_u64 (\<lambda>follower. read_then reader_bool (\<lambda>success.
     read_then reader_u64 (\<lambda>match. read_then reader_u64 (\<lambda>sequence.
     read_return \<lparr>aer_term = trm, aer_follower_id = follower, aer_success = success,
       aer_match_index = match, aer_sequence = sequence\<rparr>)))))"

section \<open>Snapshot messages\<close>

definition encode_committed_configuration ::
    "'s Sink \<Rightarrow> SnapshotCommittedConfiguration option \<Rightarrow> 's \<Rightarrow> EncodePeerMessageError + 's" where
  "encode_committed_configuration sk committed s =
     (let s = writer_bool sk (committed \<noteq> None) s in
      case committed of
        None \<Rightarrow> Inr s
      | Some c \<Rightarrow>
          let s = writer_bool sk (scc_configuration c \<noteq> None) s;
              s = (case scc_configuration c of
                     None \<Rightarrow> s
                   | Some conf \<Rightarrow> writer_u64 sk (cc_config_id conf) (writer_u64 sk (cc_index conf) s))
          in encode_config sk (scc_membership c) s)"

definition encode_metadata :: "'s Sink \<Rightarrow> RaftSnapshotMetadata \<Rightarrow> 's \<Rightarrow> EncodePeerMessageError + 's" where
  "encode_metadata sk m s =
     and_then (writer_string sk ''snapshot_group_id'' (group_id m) s) (\<lambda>s.
     let s = writer_u64 sk (writer_id m) s;
         s = writer_u64 sk (last_included_index m) s;
         s = writer_u64 sk (last_included_term m) s;
         s = writer_u64 sk (hard_state_term m) s
     in and_then (writer_string sk ''application_snapshot_kind'' (app_kind (application m)) s) (\<lambda>s.
        let s = writer_u16 sk (app_version (application m)) s in
        encode_committed_configuration sk (meta_committed_configuration m) s))"

definition encode_chunk :: "'s Sink \<Rightarrow> InstallSnapshotChunk \<Rightarrow> 's \<Rightarrow> EncodePeerMessageError + 's" where
  "encode_chunk sk c s =
     (let s = writer_u64 sk (isc_term c) s;
          s = writer_u64 sk (isc_leader_id c) s;
          s = writer_u64 sk (unat (isc_transfer_id c)) s
      in and_then (encode_metadata sk (isc_metadata c) s) (\<lambda>s.
         let s = writer_u64 sk (isc_total_payload_len c) s;
             s = writer_u32 sk (unat (isc_application_payload_crc32 c)) s;
             s = writer_u64 sk (isc_offset c) s
         in and_then (writer_blob sk ''install_snapshot_chunk'' (isc_chunk c) s) (\<lambda>s.
            Inr (writer_bool sk (isc_done c) s))))"

definition snapshot_encode_response :: "'s Sink \<Rightarrow> InstallSnapshotResponse \<Rightarrow> 's \<Rightarrow> 's" where
  "snapshot_encode_response sk a s =
     (let s = writer_u64 sk (isr_term a) s;
          s = writer_u64 sk (isr_follower_id a) s;
          s = writer_bool sk (isr_success a) s;
          s = writer_u64 sk (isr_last_included_index a) s;
          s = writer_bool sk (isr_transfer_id a \<noteq> None) s;
          s = (case isr_transfer_id a of None \<Rightarrow> s | Some t \<Rightarrow> writer_u64 sk (unat t) s)
      in writer_u64 sk (isr_next_offset a) s)"

definition decode_committed_configuration :: "SnapshotCommittedConfiguration option decoder" where
  "decode_committed_configuration = read_then reader_bool (\<lambda>present.
     if \<not> present then read_return None
     else read_then (read_then reader_bool (\<lambda>known.
            if known then read_then reader_u64 (\<lambda>i. read_then reader_u64 (\<lambda>c.
              read_return (Some \<lparr>cc_index = i, cc_config_id = c\<rparr>)))
            else read_return None)) (\<lambda>conf.
          read_then decode_config (\<lambda>m.
          read_return (Some \<lparr>scc_configuration = conf, scc_membership = m\<rparr>))))"

definition decode_metadata :: "RaftSnapshotMetadata decoder" where
  "decode_metadata =
     read_then (reader_string ''snapshot_group_id'') (\<lambda>g.
     read_then (read_result (map_sum InvalidSnapshotGroupId id (SnapshotGroupId_new g))) (\<lambda>g.
     read_then reader_u64 (\<lambda>w. read_then reader_u64 (\<lambda>i. read_then reader_u64 (\<lambda>t. read_then reader_u64 (\<lambda>h.
     read_then (reader_string ''application_snapshot_kind'') (\<lambda>k.
     read_then (read_result (map_sum InvalidApplicationSnapshotKind id (ApplicationSnapshotKind_new k))) (\<lambda>k.
     read_then reader_u16 (\<lambda>v.
     read_then (read_result (map_sum InvalidApplicationSnapshotVersion id (ApplicationSnapshotVersion_new v))) (\<lambda>v.
     read_then decode_committed_configuration (\<lambda>c.
     read_then (read_result (map_sum InvalidSnapshotMetadata id
       (RaftSnapshotMetadata_new g w i t h \<lparr>app_kind = k, app_version = v\<rparr>))) (\<lambda>m.
     read_return (case c of None \<Rightarrow> m | Some c \<Rightarrow> with_committed_configuration m c)))))))))))))"

definition decode_chunk :: "InstallSnapshotChunk decoder" where
  "decode_chunk =
     read_then reader_u64 (\<lambda>trm. read_then reader_u64 (\<lambda>leader_id. read_then reader_u64 (\<lambda>transfer.
     read_then decode_metadata (\<lambda>m. read_then reader_u64 (\<lambda>len. read_then reader_u32 (\<lambda>crc.
     read_then reader_u64 (\<lambda>offset. read_then reader_blob (\<lambda>chunk. read_then reader_bool (\<lambda>last.
     read_return \<lparr>isc_term = trm, isc_leader_id = leader_id, isc_transfer_id = word_of_nat transfer,
       isc_metadata = m, isc_total_payload_len = len, isc_application_payload_crc32 = word_of_nat crc,
       isc_offset = offset, isc_chunk = chunk, isc_done = last\<rparr>)))))))))"

definition snapshot_decode_response :: "InstallSnapshotResponse decoder" where
  "snapshot_decode_response =
     read_then reader_u64 (\<lambda>trm. read_then reader_u64 (\<lambda>follower. read_then reader_bool (\<lambda>success.
     read_then reader_u64 (\<lambda>index.
     read_then (read_then reader_bool (\<lambda>present.
       if present then read_then reader_u64 (\<lambda>t. read_return (Some (word_of_nat t))) else read_return None)) (\<lambda>transfer.
     read_then reader_u64 (\<lambda>offset.
     read_return \<lparr>isr_term = trm, isr_follower_id = follower, isr_success = success,
       isr_last_included_index = index, isr_transfer_id = transfer, isr_next_offset = offset\<rparr>))))))"

section \<open>Messages\<close>

text \<open>A whole snapshot has no encoding; \<open>encode_payload\<close> refuses it before writing.\<close>

fun message_tag :: "Message \<Rightarrow> EncodePeerMessageError + MessageTag" where
  "message_tag (RequestVoteMsg _) = Inr RequestVoteTag"
| "message_tag (RequestVoteResponseMsg _) = Inr RequestVoteResponseTag"
| "message_tag (AppendEntriesMsg _) = Inr AppendEntriesTag"
| "message_tag (AppendEntriesResponseMsg _) = Inr AppendEntriesResponseTag"
| "message_tag (InstallSnapshotMsg _) =
     Inl (UnsupportedMessage ''InstallSnapshot'' ''use InstallSnapshotChunk for peer transport'')"
| "message_tag (InstallSnapshotResponseMsg _) = Inr InstallSnapshotResponseTag"
| "message_tag (InstallSnapshotChunkMsg _) = Inr InstallSnapshotChunkTag"
| "message_tag (PreVoteMsg _) = Inr PreVoteTag"
| "message_tag (PreVoteResponseMsg _) = Inr PreVoteResponseTag"
| "message_tag (TimeoutNowMsg _) = Inr TimeoutNowTag"

fun encode_fields :: "'s Sink \<Rightarrow> Message \<Rightarrow> 's \<Rightarrow> EncodePeerMessageError + 's" where
  "encode_fields sk (RequestVoteMsg r) s =
     (let s = writer_u64 sk (rv_term r) s; s = writer_u64 sk (rv_candidate_id r) s;
          s = writer_u64 sk (rv_last_log_index r) s
      in Inr (writer_u64 sk (rv_last_log_term r) s))"
| "encode_fields sk (RequestVoteResponseMsg r) s =
     (let s = writer_u64 sk (rvr_term r) s; s = writer_u64 sk (rvr_voter_id r) s
      in Inr (writer_bool sk (rvr_vote_granted r) s))"
| "encode_fields sk (AppendEntriesMsg r) s = append_encode_request sk r s"
| "encode_fields sk (AppendEntriesResponseMsg r) s = Inr (append_encode_response sk r s)"
| "encode_fields sk (InstallSnapshotMsg r) s =
     Inl (UnsupportedMessage ''InstallSnapshot'' ''use InstallSnapshotChunk for peer transport'')"
| "encode_fields sk (InstallSnapshotResponseMsg r) s = Inr (snapshot_encode_response sk r s)"
| "encode_fields sk (InstallSnapshotChunkMsg r) s = encode_chunk sk r s"
| "encode_fields sk (PreVoteMsg r) s =
     (let s = writer_u64 sk (pv_term r) s; s = writer_u64 sk (pv_candidate_id r) s;
          s = writer_u64 sk (pv_last_log_index r) s
      in Inr (writer_u64 sk (pv_last_log_term r) s))"
| "encode_fields sk (PreVoteResponseMsg r) s =
     (let s = writer_u64 sk (pvr_term r) s; s = writer_u64 sk (pvr_voter_id r) s
      in Inr (writer_bool sk (pvr_vote_granted r) s))"
| "encode_fields sk (TimeoutNowMsg r) s =
     (let s = writer_u64 sk (tn_term r) s in Inr (writer_u64 sk (tn_leader_id r) s))"

definition encode_payload :: "'s Sink \<Rightarrow> Message \<Rightarrow> 's \<Rightarrow> EncodePeerMessageError + 's" where
  "encode_payload sk m s =
     and_then (message_tag m) (\<lambda>tag. encode_fields sk m (writer_u8 sk (message_tag_byte tag) s))"

definition decode_payload :: "Message decoder" where
  "decode_payload = read_then reader_u8 (\<lambda>b. read_then (read_result (message_tag_try_from b)) (\<lambda>tag.
     case tag of
       RequestVoteTag \<Rightarrow>
         read_then reader_u64 (\<lambda>trm. read_then reader_u64 (\<lambda>candidate. read_then reader_u64 (\<lambda>index.
         read_then reader_u64 (\<lambda>last_term. read_return (RequestVoteMsg \<lparr>rv_term = trm, rv_candidate_id = candidate,
           rv_last_log_index = index, rv_last_log_term = last_term\<rparr>)))))
     | RequestVoteResponseTag \<Rightarrow>
         read_then reader_u64 (\<lambda>trm. read_then reader_u64 (\<lambda>voter. read_then reader_bool (\<lambda>granted.
         read_return (RequestVoteResponseMsg \<lparr>rvr_term = trm, rvr_voter_id = voter, rvr_vote_granted = granted\<rparr>))))
     | AppendEntriesTag \<Rightarrow> read_then append_decode_request (\<lambda>a. read_return (AppendEntriesMsg a))
     | AppendEntriesResponseTag \<Rightarrow> read_then append_decode_response (\<lambda>a. read_return (AppendEntriesResponseMsg a))
     | InstallSnapshotResponseTag \<Rightarrow>
         read_then snapshot_decode_response (\<lambda>a. read_return (InstallSnapshotResponseMsg a))
     | InstallSnapshotChunkTag \<Rightarrow> read_then decode_chunk (\<lambda>a. read_return (InstallSnapshotChunkMsg a))
     | PreVoteTag \<Rightarrow>
         read_then reader_u64 (\<lambda>trm. read_then reader_u64 (\<lambda>candidate. read_then reader_u64 (\<lambda>index.
         read_then reader_u64 (\<lambda>last_term. read_return (PreVoteMsg \<lparr>pv_term = trm, pv_candidate_id = candidate,
           pv_last_log_index = index, pv_last_log_term = last_term\<rparr>)))))
     | PreVoteResponseTag \<Rightarrow>
         read_then reader_u64 (\<lambda>trm. read_then reader_u64 (\<lambda>voter. read_then reader_bool (\<lambda>granted.
         read_return (PreVoteResponseMsg \<lparr>pvr_term = trm, pvr_voter_id = voter, pvr_vote_granted = granted\<rparr>))))
     | TimeoutNowTag \<Rightarrow>
         read_then reader_u64 (\<lambda>trm. read_then reader_u64 (\<lambda>leader_id.
         read_return (TimeoutNowMsg \<lparr>tn_term = trm, tn_leader_id = leader_id\<rparr>)))))"

section \<open>Frames\<close>

definition MAGIC :: "byte list" where
  "MAGIC = [0x52, 0x46, 0x50, 0x4D]"

definition VERSION :: byte where
  "VERSION = 1"

definition encode_frame_body :: "'s Sink \<Rightarrow> Message \<Rightarrow> 's \<Rightarrow> EncodePeerMessageError + 's" where
  "encode_frame_body sk m s = encode_payload sk m (writer_u8 sk VERSION (writer_bytes sk MAGIC s))"

text \<open>
  \<open>encode_message_into\<close> returns the buffer it leaves together with its result. The counting pass
  yields the capacity it reserves.
\<close>

definition reserved_capacity :: "Message \<Rightarrow> EncodePeerMessageError + usize" where
  "reserved_capacity m =
     and_then (encode_frame_body CountingSink m 0) (\<lambda>counter. Inr (sat_add (sink_position CountingSink counter) 4))"

definition encode_message_into :: "byte list \<Rightarrow> Message \<Rightarrow> byte list \<times> (EncodePeerMessageError + unit)" where
  "encode_message_into output m =
     (let output = [] in
      case reserved_capacity m of
        Inl e \<Rightarrow> (output, Inl e)
      | Inr _ \<Rightarrow>
          (case encode_frame_body VecSink m output of
             Inl e \<Rightarrow> ([], Inl e)
           | Inr output \<Rightarrow> (output @ to_be_bytes 4 (unat (crc32 output)), Inr ())))"

definition encode_message :: "Message \<Rightarrow> EncodePeerMessageError + byte list" where
  "encode_message m =
     (let (encoded, result) = encode_message_into [] m in and_then result (\<lambda>_. Inr encoded))"

definition decode_message :: "byte list \<Rightarrow> DecodePeerMessageError + Message" where
  "decode_message payload =
     and_then (array_4 (Reader_new payload)) (\<lambda>(magic, r).
     if magic \<noteq> MAGIC then Inl (InvalidMagic magic)
     else and_then (reader_u8 r) (\<lambda>(version, r).
     if version \<noteq> VERSION then Inl (UnsupportedVersion version)
     else and_then (decode_payload r) (\<lambda>(message, r).
     let checksum_start = rd_position r in
     and_then (reader_u32 r) (\<lambda>(expected, r).
     let actual = crc32 (take checksum_start payload) in
     if expected \<noteq> unat actual then Inl (FrameChecksumMismatch (word_of_nat expected) actual)
     else and_then (reader_finish r) (\<lambda>_. Inr message)))))"

section \<open>Reservations\<close>

text \<open>
  How many entries to reserve before decoding them; \<open>size_of_entry\<close> is the size of a log entry in
  memory, a matter of layout.
\<close>

definition MIN_ENCODED_LOG_ENTRY_BYTES :: usize where
  "MIN_ENCODED_LOG_ENTRY_BYTES = 8 + 1"

definition append_entries_entry_capacity :: "usize \<Rightarrow> usize \<Rightarrow> usize \<Rightarrow> usize" where
  "append_entries_entry_capacity size_of_entry entry_count remaining_bytes =
     min (min entry_count (remaining_bytes div MIN_ENCODED_LOG_ENTRY_BYTES)) (remaining_bytes div size_of_entry)"

fun probe_entries :: "nat \<Rightarrow> Reader \<Rightarrow> nat" where
  "probe_entries 0 r = 0"
| "probe_entries (Suc n) r = (case decode_log_entry r of Inl _ \<Rightarrow> 0 | Inr (_, r) \<Rightarrow> Suc (probe_entries n r))"

definition entry_reservation :: "usize \<Rightarrow> usize \<Rightarrow> Reader \<Rightarrow> usize" where
  "entry_reservation size_of_entry entry_count r =
     (if append_entries_entry_capacity size_of_entry entry_count (remaining r) = entry_count then entry_count
      else probe_entries entry_count r)"

end
