(* ===== verification/Wire_Format.thy ===== *)
theory Wire_Format
  imports Codec
begin

text \<open>
  The wire format of version 1 as a grammar, and the codec proved against it: encoders write the
  grammar on every sink, decoders accept exactly what the grammar derives for a representable value.
\<close>

section \<open>The grammar\<close>

type_synonym wire = "EncodePeerMessageError + byte list"

definition wire_then :: "wire \<Rightarrow> wire \<Rightarrow> wire" where
  "wire_then w v = and_then w (\<lambda>bs. and_then v (\<lambda>cs. Inr (bs @ cs)))"

definition wire_seq :: "wire list \<Rightarrow> wire" where
  "wire_seq ws = foldr wire_then ws (Inr [])"

definition wire_u64 :: "u64 \<Rightarrow> wire" where
  "wire_u64 v = Inr (to_be_bytes 8 v)"

definition wire_bool :: "bool \<Rightarrow> wire" where
  "wire_bool b = Inr [bool_byte b]"

definition wire_count16 :: "string \<Rightarrow> nat \<Rightarrow> wire" where
  "wire_count16 field n = (if n \<le> u16_max then Inr (to_be_bytes 2 n) else Inl (FieldTooLarge field n u16_max))"

definition wire_count32 :: "string \<Rightarrow> nat \<Rightarrow> wire" where
  "wire_count32 field n = (if n \<le> u32_max then Inr (to_be_bytes 4 n) else Inl (FieldTooLarge field n u32_max))"

definition wire_string :: "string \<Rightarrow> string \<Rightarrow> wire" where
  "wire_string field v = wire_then (wire_count16 field (length v)) (Inr (as_bytes v))"

definition wire_blob :: "string \<Rightarrow> byte list \<Rightarrow> wire" where
  "wire_blob field v = wire_then (wire_count32 field (length v)) (Inr v)"

definition wire_nodes :: "NodeId list \<Rightarrow> wire" where
  "wire_nodes ns = Inr (concat (map (to_be_bytes 8) ns))"

definition wire_set :: "MembershipSet \<Rightarrow> wire" where
  "wire_set m = wire_seq
     [wire_count16 ''membership_voter_count'' (length (voters m)), wire_nodes (voters m),
      wire_count16 ''membership_learner_count'' (length (learners m)), wire_nodes (learners m)]"

definition wire_joint :: "JointMembership \<Rightarrow> wire" where
  "wire_joint j = wire_then (wire_set (old_membership j)) (wire_set (new_membership j))"

fun wire_config :: "MembershipConfig \<Rightarrow> wire" where
  "wire_config (StableMembership m) = wire_then (Inr [0]) (wire_set m)"
| "wire_config (JointMembershipConfig j) = wire_then (Inr [1]) (wire_joint j)"

fun wire_kind :: "LogEntryKind \<Rightarrow> wire" where
  "wire_kind (Application p) = wire_then (Inr [0]) (wire_blob ''entry_payload'' p)"
| "wire_kind (Configuration (StableEntry c m)) = wire_seq [Inr [1], wire_u64 c, wire_set m]"
| "wire_kind (Configuration (JointEntry c j)) = wire_seq [Inr [2], wire_u64 c, wire_joint j]"
| "wire_kind Noop = Inr [3]"

definition wire_entry :: "LogEntry \<Rightarrow> wire" where
  "wire_entry e = wire_then (wire_u64 (entry_term e)) (wire_kind (entry_kind e))"

definition wire_option :: "('a \<Rightarrow> wire) \<Rightarrow> 'a option \<Rightarrow> wire" where
  "wire_option w x = (case x of None \<Rightarrow> wire_bool False | Some y \<Rightarrow> wire_then (wire_bool True) (w y))"

definition wire_committed :: "SnapshotCommittedConfiguration \<Rightarrow> wire" where
  "wire_committed c = wire_then
     (wire_option (\<lambda>k. wire_then (wire_u64 (cc_index k)) (wire_u64 (cc_config_id k))) (scc_configuration c))
     (wire_config (scc_membership c))"

definition wire_metadata :: "RaftSnapshotMetadata \<Rightarrow> wire" where
  "wire_metadata m = wire_seq
     [wire_string ''snapshot_group_id'' (group_id m), wire_u64 (writer_id m), wire_u64 (last_included_index m),
      wire_u64 (last_included_term m), wire_u64 (hard_state_term m),
      wire_string ''application_snapshot_kind'' (app_kind (application m)),
      Inr (to_be_bytes 2 (app_version (application m))),
      wire_option wire_committed (meta_committed_configuration m)]"

fun wire_fields :: "Message \<Rightarrow> wire" where
  "wire_fields (RequestVoteMsg r) = wire_seq [Inr [1], wire_u64 (rv_term r), wire_u64 (rv_candidate_id r),
     wire_u64 (rv_last_log_index r), wire_u64 (rv_last_log_term r)]"
| "wire_fields (RequestVoteResponseMsg r) = wire_seq [Inr [2], wire_u64 (rvr_term r), wire_u64 (rvr_voter_id r),
     wire_bool (rvr_vote_granted r)]"
| "wire_fields (AppendEntriesMsg r) = wire_seq [Inr [3], wire_u64 (ae_term r), wire_u64 (ae_leader_id r),
     wire_u64 (ae_prev_log_index r), wire_u64 (ae_prev_log_term r),
     wire_count32 ''entry_count'' (length (ae_entries r)), wire_seq (map wire_entry (ae_entries r)),
     wire_u64 (ae_leader_commit r), wire_u64 (ae_sequence r)]"
| "wire_fields (AppendEntriesResponseMsg r) = wire_seq [Inr [4], wire_u64 (aer_term r), wire_u64 (aer_follower_id r),
     wire_bool (aer_success r), wire_u64 (aer_match_index r), wire_u64 (aer_sequence r)]"
| "wire_fields (InstallSnapshotMsg r) =
     Inl (UnsupportedMessage ''InstallSnapshot'' ''use InstallSnapshotChunk for peer transport'')"
| "wire_fields (InstallSnapshotResponseMsg r) = wire_seq [Inr [6], wire_u64 (isr_term r), wire_u64 (isr_follower_id r),
     wire_bool (isr_success r), wire_u64 (isr_last_included_index r),
     wire_option (\<lambda>t. wire_u64 (unat t)) (isr_transfer_id r), wire_u64 (isr_next_offset r)]"
| "wire_fields (InstallSnapshotChunkMsg r) = wire_seq [Inr [7], wire_u64 (isc_term r), wire_u64 (isc_leader_id r),
     wire_u64 (unat (isc_transfer_id r)), wire_metadata (isc_metadata r), wire_u64 (isc_total_payload_len r),
     Inr (to_be_bytes 4 (unat (isc_application_payload_crc32 r))), wire_u64 (isc_offset r),
     wire_blob ''install_snapshot_chunk'' (isc_chunk r), wire_bool (isc_done r)]"
| "wire_fields (PreVoteMsg r) = wire_seq [Inr [8], wire_u64 (pv_term r), wire_u64 (pv_candidate_id r),
     wire_u64 (pv_last_log_index r), wire_u64 (pv_last_log_term r)]"
| "wire_fields (PreVoteResponseMsg r) = wire_seq [Inr [9], wire_u64 (pvr_term r), wire_u64 (pvr_voter_id r),
     wire_bool (pvr_vote_granted r)]"
| "wire_fields (TimeoutNowMsg r) = wire_seq [Inr [10], wire_u64 (tn_term r), wire_u64 (tn_leader_id r)]"

definition wire_body :: "Message \<Rightarrow> wire" where
  "wire_body m = wire_then (Inr (MAGIC @ [VERSION])) (wire_fields m)"

definition wire_frame :: "Message \<Rightarrow> wire" where
  "wire_frame m = and_then (wire_body m) (\<lambda>bs. Inr (bs @ to_be_bytes 4 (unat (crc32 bs))))"

lemmas wire_prims = wire_u64_def wire_bool_def wire_count16_def wire_count32_def wire_nodes_def

lemma and_then_Inr [simp]: "and_then w Inr = w"
  by (cases w) simp_all

lemma wire_then_simps [simp]:
  "wire_then (Inl e) v = Inl e" "wire_then w (Inr []) = w" "wire_then (Inr []) v = v"
  "wire_then (Inr bs) (Inr cs) = Inr (bs @ cs)" "wire_then (Inr bs) (Inl e) = Inl e"
  by (simp_all add: wire_then_def)

lemma wire_seq_simps [simp]: "wire_seq [] = Inr []" "wire_seq (w # ws) = wire_then w (wire_seq ws)"
  by (simp_all add: wire_seq_def)

lemma wire_then_assoc: "wire_then (wire_then u w) v = wire_then u (wire_then w v)"
  by (cases u; cases w; cases v) simp_all

lemma wire_then_Inr_iff: "wire_then w v = Inr bs \<longleftrightarrow> (\<exists>cs ds. w = Inr cs \<and> v = Inr ds \<and> bs = cs @ ds)"
  by (cases w; cases v) auto

section \<open>Encoders write the grammar\<close>

lemma and_then_assoc: "and_then (and_then w f) g = and_then w (\<lambda>x. and_then (f x) g)"
  by (cases w) simp_all

lemma and_then_map_sum: "and_then (map_sum id f w) g = and_then w (\<lambda>x. g (f x))"
  by (cases w) simp_all

lemma map_sum_and_then: "map_sum id f (and_then w g) = and_then w (\<lambda>x. map_sum id f (g x))"
  by (cases w) simp_all

lemma map_sum_as_and_then: "map_sum id f w = and_then w (\<lambda>x. Inr (f x))"
  by (cases w) simp_all

lemmas and_then_monad = and_then_assoc and_then_map_sum map_sum_and_then map_sum_as_and_then

context sink
begin

lemma writesD: "writes sk f w \<Longrightarrow> f (sink_write sk bs s) = and_then w (\<lambda>cs. Inr (sink_write sk (bs @ cs) s))"
  by (simp add: writes_def map_sum_as_and_then)

lemma writesI: "(\<And>bs s. f (sink_write sk bs s) = and_then w (\<lambda>cs. Inr (sink_write sk (bs @ cs) s))) \<Longrightarrow> writes sk f w"
  by (simp add: writes_def map_sum_as_and_then)

lemma fold_writer: "fold (writer_u64 sk) ns (sink_write sk bs s) = sink_write sk (bs @ concat (map (to_be_bytes 8) ns)) s"
  by (induction ns arbitrary: bs) (simp_all add: writer_u64_def write_write)

lemmas write_simps = writer_defs write_write fold_writer and_then_monad wire_then_def wire_prims Let_def

lemma writes_encode_set: "writes sk (encode_set sk m) (wire_set m)"
  by (rule writesI) (simp add: encode_set_def wire_set_def write_simps)

lemma writes_encode_config: "writes sk (encode_config sk m) (wire_config m)"
  by (rule writesI; cases m) (simp_all add: wire_joint_def write_simps writesD [OF writes_encode_set])

lemma writes_encode_log_entry: "writes sk (encode_log_entry sk e) (wire_entry e)"
proof (rule writesI)
  fix bs s
  show "encode_log_entry sk e (sink_write sk bs s) = and_then (wire_entry e) (\<lambda>cs. Inr (sink_write sk (bs @ cs) s))"
    by (cases "entry_kind e" rule: wire_kind.cases)
      (simp_all add: encode_log_entry_def wire_entry_def wire_blob_def wire_joint_def write_simps writesD [OF writes_encode_set])
qed

lemma writes_encode_entries: "writes sk (encode_entries sk es) (wire_seq (map wire_entry es))"
proof (induction es)
  case (Cons e es)
  show ?case by (rule writesI) (simp add: write_simps writesD [OF writes_encode_log_entry] writesD [OF Cons])
qed (simp add: writes_def)

lemma writes_encode_metadata: "writes sk (encode_metadata sk m) (wire_metadata m)"
proof -
  have "writes sk (encode_committed_configuration sk c) (wire_option wire_committed c)" for c
    by (rule writesI; cases c; cases "scc_configuration (the c)")
      (simp_all add: encode_committed_configuration_def wire_option_def wire_committed_def write_simps
        writesD [OF writes_encode_config])
  from writesD [OF this] show ?thesis
    by (intro writesI) (simp add: encode_metadata_def wire_metadata_def wire_string_def as_bytes_def write_simps)
qed

lemma writes_encode_payload: "writes sk (encode_payload sk m) (wire_fields m)"
  by (rule writesI; cases m)
    (simp_all add: encode_payload_def append_encode_request_def append_encode_response_def encode_chunk_def
      snapshot_encode_response_def wire_option_def wire_blob_def write_simps
      writesD [OF writes_encode_entries] writesD [OF writes_encode_metadata] split: option.split)

lemma encode_frame_body_wire:
  "encode_frame_body sk m s = and_then (wire_body m) (\<lambda>bs. Inr (sink_write sk bs s))"
  by (simp add: encode_frame_body_def wire_body_def write_simps writesD [OF writes_encode_payload])

end

section \<open>Decoders accept the grammar\<close>

definition reads_wire :: "Reader \<Rightarrow> wire \<Rightarrow> Reader \<Rightarrow> bool" where
  "reads_wire r w r' \<longleftrightarrow> (\<exists>bs. w = Inr bs \<and> reads r bs r')"

lemma reads_wire_simps [simp]:
  "reads_wire r (Inr bs) r' \<longleftrightarrow> reads r bs r'" "\<not> reads_wire r (Inl e) r'"
  "reads_wire r (wire_count16 field n) r' \<longleftrightarrow> n \<le> u16_max \<and> reads r (to_be_bytes 2 n) r'"
  "reads_wire r (wire_count32 field n) r' \<longleftrightarrow> n \<le> u32_max \<and> reads r (to_be_bytes 4 n) r'"
  by (auto simp: reads_wire_def wire_prims)

lemma reads_wire_then [simp]:
  "reads_wire r (wire_then w v) r'' \<longleftrightarrow> (\<exists>r'. reads_wire r w r' \<and> reads_wire r' v r'')"
  by (auto simp: reads_wire_def wire_then_Inr_iff reads_append)

text \<open>
  The contract between a decoder and the grammar of its type, for the values the wire can carry; its
  consequences are round trips, unique decoding and that no encoding is a prefix of another.
\<close>

locale wire_codec =
  fixes decode :: "'a decoder" and representable :: "'a \<Rightarrow> bool" and encoding :: "'a \<Rightarrow> wire"
  assumes accepts: "decode r = Inr (x, r') \<longleftrightarrow> representable x \<and> reads_wire r (encoding x) r'"
begin

lemma round_trip:
  assumes "representable x" "encoding x = Inr bs"
  shows "decode \<lparr>rd_payload = before @ bs @ after, rd_position = length before\<rparr> =
    Inr (x, \<lparr>rd_payload = before @ bs @ after, rd_position = length before + length bs\<rparr>)"
  unfolding accepts using assms by (simp add: reads_def)

lemma prefix_free:
  assumes "representable x" "encoding x = Inr bs" "representable y" "encoding y = Inr (bs @ cs)"
  shows "x = y \<and> cs = []"
  using round_trip [OF assms(1,2), of "[]" cs] round_trip [OF assms(3,4), of "[]" "[]"] by simp

lemma many: "read_many n decode r = Inr (xs, r') \<longleftrightarrow>
    length xs = n \<and> (\<forall>x\<in>set xs. representable x) \<and> reads_wire r (wire_seq (map encoding xs)) r'"
proof (induction n arbitrary: xs r)
  case (Suc n)
  show ?case by (cases xs) (auto simp: reads_iffs accepts Suc)
qed (auto simp: reads_iffs)

end

interpretation wire_u64: wire_codec reader_u64 "\<lambda>v. v \<le> u64_max" wire_u64
  by unfold_locales (simp add: reads_iffs wire_prims)

interpretation wire_bool: wire_codec reader_bool "\<lambda>_. True" wire_bool
  by unfold_locales (simp add: reads_iffs wire_prims)

definition small_ids :: "NodeId list \<Rightarrow> bool" where
  "small_ids ns \<longleftrightarrow> (\<forall>n\<in>set ns. n \<le> u64_max)"

definition wire_set_ok :: "MembershipSet \<Rightarrow> bool" where
  "wire_set_ok m \<longleftrightarrow> membership_set_wf m \<and> small_ids (voters m) \<and> small_ids (learners m)"

fun wire_config_ok :: "MembershipConfig \<Rightarrow> bool" where
  "wire_config_ok (StableMembership m) = wire_set_ok m"
| "wire_config_ok (JointMembershipConfig j) = (wire_set_ok (old_membership j) \<and> wire_set_ok (new_membership j))"

lemma wire_nodes_seq: "wire_seq (map wire_u64 ns) = wire_nodes ns"
  by (induction ns) (simp_all add: wire_prims)

lemma decode_node_set_iff:
  "decode_node_set r = Inr (ns, r') \<longleftrightarrow>
     small_ids ns \<and> reads_wire r (wire_then (wire_count16 field (length ns)) (wire_nodes ns)) r'"
  by (auto simp: decode_node_set_def reads_iffs wire_u64.many wire_nodes_seq small_ids_def)

lemma unsorted_iff: "list_ex (\<lambda>(a, b). a > b) (zip ns (tl ns)) \<longleftrightarrow> \<not> sorted ns" for ns :: "nat list"
proof (induction ns)
  case (Cons n ns)
  then show ?case by (cases ns) (auto simp: not_less, metis order_trans)
qed simp

lemma canonical_set_iff:
  "and_then (require_canonical_order vs f) (\<lambda>_. and_then (require_canonical_order ls g) (\<lambda>_.
     map_sum InvalidMembership id (MembershipSet_new vs ls))) = Inr m \<longleftrightarrow>
   membership_set_wf m \<and> vs = voters m \<and> ls = learners m"
proof -
  have "map_sum InvalidMembership id (MembershipSet_new vs ls) = Inr m \<longleftrightarrow> MembershipSet_new vs ls = Inr m"
    by (cases "MembershipSet_new vs ls") simp_all
  then show ?thesis
    by (cases m) (auto simp: and_then_Inr_iff require_canonical_order_def unsorted_iff MembershipSet_new_Inr
        membership_set_wf_def ordered_def sorted_sort_id split: if_splits)
qed

interpretation wire_set: wire_codec decode_set wire_set_ok wire_set
  by unfold_locales
    (auto simp: decode_set_def reads_iffs canonical_set_iff wire_set_ok_def wire_set_def wire_then_assoc
      decode_node_set_iff [where field = "''membership_voter_count''"]
      decode_node_set_iff [where field = "''membership_learner_count''"])

text \<open>Reading a tag leaves one case for each tag.\<close>

lemma read_tag_iff:
  assumes "\<And>b t. tag_of b = Inr t \<longleftrightarrow> b = byte_of t"
  shows "read_then reader_u8 (\<lambda>b. read_then (read_result (tag_of b)) f) r = Inr (y, r'') \<longleftrightarrow>
    (\<exists>t r'. reads r [byte_of t] r' \<and> f t r' = Inr (y, r''))"
  by (auto simp: reads_iffs assms)

lemma ex_tag_simps:
  "(\<exists>t. P t) \<longleftrightarrow> P StableTag \<or> P JointTag"
  "(\<exists>t. Q t) \<longleftrightarrow> Q ApplicationTag \<or> Q ConfigurationStableTag \<or> Q ConfigurationJointTag \<or> Q NoopTag"
  "(\<exists>t. R t) \<longleftrightarrow> R RequestVoteTag \<or> R RequestVoteResponseTag \<or> R AppendEntriesTag \<or> R AppendEntriesResponseTag \<or>
     R InstallSnapshotResponseTag \<or> R InstallSnapshotChunkTag \<or> R PreVoteTag \<or> R PreVoteResponseTag \<or> R TimeoutNowTag"
proof -
  show "(\<exists>t. P t) \<longleftrightarrow> P StableTag \<or> P JointTag" by (metis MembershipTag.exhaust)
  show "(\<exists>t. Q t) \<longleftrightarrow> Q ApplicationTag \<or> Q ConfigurationStableTag \<or> Q ConfigurationJointTag \<or> Q NoopTag"
    by (metis LogEntryTag.exhaust)
  have "R t \<Longrightarrow> R RequestVoteTag \<or> R RequestVoteResponseTag \<or> R AppendEntriesTag \<or> R AppendEntriesResponseTag \<or>
     R InstallSnapshotResponseTag \<or> R InstallSnapshotChunkTag \<or> R PreVoteTag \<or> R PreVoteResponseTag \<or> R TimeoutNowTag" for t
    by (cases t) simp_all
  then show "(\<exists>t. R t) \<longleftrightarrow> R RequestVoteTag \<or> R RequestVoteResponseTag \<or> R AppendEntriesTag \<or> R AppendEntriesResponseTag \<or>
     R InstallSnapshotResponseTag \<or> R InstallSnapshotChunkTag \<or> R PreVoteTag \<or> R PreVoteResponseTag \<or> R TimeoutNowTag"
    by blast
qed

lemmas read_tag_simps = read_tag_iff [OF membership_tag_iff] read_tag_iff [OF log_entry_tag_iff]
  read_tag_iff [OF message_tag_iff] ex_tag_simps

lemma joint_membership_iff: "\<lparr>old_membership = a, new_membership = b\<rparr> = j \<longleftrightarrow> a = old_membership j \<and> b = new_membership j"
  by (cases j) auto

interpretation wire_config: wire_codec decode_config wire_config_ok wire_config
proof
  fix r m r'
  show "decode_config r = Inr (m, r') \<longleftrightarrow> wire_config_ok m \<and> reads_wire r (wire_config m) r'"
    unfolding decode_config_def read_tag_simps
    by (cases m) (auto simp: reads_iffs wire_set.accepts wire_joint_def joint_membership_iff)
qed

text \<open>An application payload is a range of the frame itself.\<close>

lemma shared_blob_iff:
  "read_then shared_blob_range (\<lambda>(bs, rng). case from_shared_range bs rng of
       None \<Rightarrow> read_result (Inl (UnexpectedEof (snd rng) (length bs)))
     | Some p \<Rightarrow> read_return (application_entry t p)) r = Inr (e, r'') \<longleftrightarrow>
   (\<exists>p. e = application_entry t p \<and> reads_wire r (wire_blob ''entry_payload'' p) r'')"
proof -
  have within: "rd_position r' \<le> length (rd_payload r')" if "reads r (to_be_bytes 4 n) r'" for r n r'
    using that length_take [of 4 "drop (rd_position r) (rd_payload r)"] by (auto simp: reads_def)
  have range: "from_shared_range (rd_payload r') (rd_position r, rd_position r + length bs) = Some bs"
    if "reads r bs r'" "rd_position r \<le> length (rd_payload r)" for r bs r'
    using that length_take [of "length bs" "drop (rd_position r) (rd_payload r)"]
    by (auto simp: reads_def from_shared_range_def byte_range_def)
  let ?f = "\<lambda>(bs, rng). case from_shared_range bs rng of
       None \<Rightarrow> read_result (Inl (UnexpectedEof (snd rng) (length bs)))
     | Some p \<Rightarrow> read_return (application_entry t p)"
  have blob: "shared_blob_range r = Inr (x, r') \<longleftrightarrow> (\<exists>n r1 p. n \<le> u32_max \<and> reads r (to_be_bytes 4 n) r1 \<and>
      length p = n \<and> reads r1 p r' \<and> x = (rd_payload r', rd_position r1, rd_position r1 + n))" for x r'
    by (auto simp: shared_blob_range_def reads_iffs)
  have app: "?f (rd_payload r', rd_position r1, rd_position r1 + length p) r' = Inr (application_entry t p, r')"
    if "reads r (to_be_bytes 4 n) r1" "reads r1 p r'" for n r1 p r'
    using range [OF that(2) within [OF that(1)]] by (simp add: read_result_def)
  show ?thesis
  proof
    assume "read_then shared_blob_range ?f r = Inr (e, r'')"
    then obtain x r' where x: "shared_blob_range r = Inr (x, r')" "?f x r' = Inr (e, r'')"
      by (auto simp: read_then_iff)
    from x(1) obtain r1 p where p: "length p \<le> u32_max" "reads r (to_be_bytes 4 (length p)) r1" "reads r1 p r'"
      "x = (rd_payload r', rd_position r1, rd_position r1 + length p)" by (auto simp: blob)
    with app [OF p(2,3)] x(2) show "\<exists>p. e = application_entry t p \<and> reads_wire r (wire_blob ''entry_payload'' p) r''"
      by (auto simp: wire_blob_def)
  next
    assume "\<exists>p. e = application_entry t p \<and> reads_wire r (wire_blob ''entry_payload'' p) r''"
    then obtain p r1 where p: "e = application_entry t p" "length p \<le> u32_max" "reads r (to_be_bytes 4 (length p)) r1" "reads r1 p r''"
      by (auto simp: wire_blob_def)
    then have "shared_blob_range r = Inr ((rd_payload r'', rd_position r1, rd_position r1 + length p), r'')"
      by (auto simp: blob)
    with app [OF p(3,4)] p(1) show "read_then shared_blob_range ?f r = Inr (e, r'')" by (auto simp: read_then_iff)
  qed
qed

fun wire_kind_ok :: "LogEntryKind \<Rightarrow> bool" where
  "wire_kind_ok (Configuration (StableEntry c m)) = (c \<le> u64_max \<and> wire_set_ok m)"
| "wire_kind_ok (Configuration (JointEntry c j)) =
     (c \<le> u64_max \<and> wire_set_ok (old_membership j) \<and> wire_set_ok (new_membership j))"
| "wire_kind_ok _ = True"

definition wire_entry_ok :: "LogEntry \<Rightarrow> bool" where
  "wire_entry_ok e \<longleftrightarrow> entry_term e \<le> u64_max \<and> wire_kind_ok (entry_kind e)"

lemma log_entry_iff: "\<lparr>entry_term = t, entry_kind = k\<rparr> = e \<longleftrightarrow> t = entry_term e \<and> k = entry_kind e"
  by (cases e) auto

interpretation wire_entry: wire_codec decode_log_entry wire_entry_ok wire_entry
proof
  fix r e r'
  show "decode_log_entry r = Inr (e, r') \<longleftrightarrow> wire_entry_ok e \<and> reads_wire r (wire_entry e) r'"
    unfolding decode_log_entry_def read_then_iff [of reader_u64] read_tag_simps LogEntryTag.case shared_blob_iff
    by (cases "entry_kind e" rule: wire_kind.cases;
        auto simp: reads_iffs shared_blob_iff wire_set.accepts wire_entry_def wire_entry_ok_def wire_u64_def wire_joint_def
        joint_membership_iff log_entry_iff eq_commute [of e] reads_append; blast)
qed

section \<open>Messages\<close>

definition committed_ok :: "SnapshotCommittedConfiguration option \<Rightarrow> bool" where
  "committed_ok c \<longleftrightarrow> (\<forall>c'. c = Some c' \<longrightarrow> wire_config_ok (scc_membership c') \<and>
     (\<forall>k. scc_configuration c' = Some k \<longrightarrow> cc_index k \<le> u64_max \<and> cc_config_id k \<le> u64_max))"

definition wire_metadata_ok :: "RaftSnapshotMetadata \<Rightarrow> bool" where
  "wire_metadata_ok m \<longleftrightarrow>
     validate_snapshot_id ''snapshot group id'' (group_id m) = Inr () \<and>
     validate_snapshot_id ''application snapshot kind'' (app_kind (application m)) = Inr () \<and>
     app_version (application m) \<noteq> 0 \<and> app_version (application m) \<le> u16_max \<and>
     writer_id m \<le> u64_max \<and> last_included_index m \<noteq> 0 \<and> last_included_index m < u64_max \<and>
     last_included_term m \<noteq> 0 \<and> last_included_term m \<le> hard_state_term m \<and> hard_state_term m \<le> u64_max \<and>
     committed_ok (meta_committed_configuration m)"

fun wire_message_ok :: "Message \<Rightarrow> bool" where
  "wire_message_ok (RequestVoteMsg r) = (rv_term r \<le> u64_max \<and> rv_candidate_id r \<le> u64_max \<and>
     rv_last_log_index r \<le> u64_max \<and> rv_last_log_term r \<le> u64_max)"
| "wire_message_ok (RequestVoteResponseMsg r) = (rvr_term r \<le> u64_max \<and> rvr_voter_id r \<le> u64_max)"
| "wire_message_ok (AppendEntriesMsg r) = (ae_term r \<le> u64_max \<and> ae_leader_id r \<le> u64_max \<and>
     ae_prev_log_index r \<le> u64_max \<and> ae_prev_log_term r \<le> u64_max \<and> (\<forall>e\<in>set (ae_entries r). wire_entry_ok e) \<and>
     ae_leader_commit r \<le> u64_max \<and> ae_sequence r \<le> u64_max)"
| "wire_message_ok (AppendEntriesResponseMsg r) = (aer_term r \<le> u64_max \<and> aer_follower_id r \<le> u64_max \<and>
     aer_match_index r \<le> u64_max \<and> aer_sequence r \<le> u64_max)"
| "wire_message_ok (InstallSnapshotMsg r) = False"
| "wire_message_ok (InstallSnapshotResponseMsg r) = (isr_term r \<le> u64_max \<and> isr_follower_id r \<le> u64_max \<and>
     isr_last_included_index r \<le> u64_max \<and> isr_next_offset r \<le> u64_max)"
| "wire_message_ok (InstallSnapshotChunkMsg r) = (isc_term r \<le> u64_max \<and> isc_leader_id r \<le> u64_max \<and>
     wire_metadata_ok (isc_metadata r) \<and> isc_total_payload_len r \<le> u64_max \<and> isc_offset r \<le> u64_max)"
| "wire_message_ok (PreVoteMsg r) = (pv_term r \<le> u64_max \<and> pv_candidate_id r \<le> u64_max \<and>
     pv_last_log_index r \<le> u64_max \<and> pv_last_log_term r \<le> u64_max)"
| "wire_message_ok (PreVoteResponseMsg r) = (pvr_term r \<le> u64_max \<and> pvr_voter_id r \<le> u64_max)"
| "wire_message_ok (TimeoutNowMsg r) = (tn_term r \<le> u64_max \<and> tn_leader_id r \<le> u64_max)"

lemma read_then_monad:
  "read_then (read_then d f) g = read_then d (\<lambda>x. read_then (f x) g)"
  "read_then (read_return x) h = h x"
  by (simp_all add: read_then_def read_result_def fun_eq_iff and_then_assoc case_prod_unfold)

text \<open>
  Records are read field by field: \<open>C\<close> is what is known of the value so far, and the last step
  shows that the fields read determine it.
\<close>

lemma codec_field:
  assumes "wire_codec d P w" "\<And>x. C x \<Longrightarrow> P (g x)" "\<And>a. P a \<Longrightarrow> wire_codec (f a) (\<lambda>x. C x \<and> g x = a) v"
  shows "wire_codec (read_then d f) C (\<lambda>x. wire_then (w (g x)) (v x))"
proof
  fix r x r''
  have "f a r' = Inr (x, r'') \<longleftrightarrow> C x \<and> g x = a \<and> reads_wire r' (v x) r''" if "P a" for a r'
    using assms(3) [OF that] by (simp add: wire_codec_def)
  then have "read_then d f r = Inr (x, r'') \<longleftrightarrow>
      (\<exists>a r'. P a \<and> reads_wire r (w a) r' \<and> C x \<and> g x = a \<and> reads_wire r' (v x) r'')"
    using assms(1) by (auto simp: read_then_iff wire_codec_def)
  then show "read_then d f r = Inr (x, r'') \<longleftrightarrow> C x \<and> reads_wire r (wire_then (w (g x)) (v x)) r''"
    using assms(2) by auto
qed

lemma codec_return: "(\<And>x. C x \<longleftrightarrow> x = y) \<Longrightarrow> wire_codec (read_return y) C (\<lambda>x. Inr [])"
  by (auto simp: wire_codec_def reads_iffs)

lemma codec_result:
  assumes "\<And>y. v = Inr y \<Longrightarrow> wire_codec (f y) C w" "\<And>x. C x \<Longrightarrow> \<exists>y. v = Inr y"
  shows "wire_codec (read_then (read_result v) f) C w"
proof (cases v)
  case (Inl e)
  then show ?thesis using assms(2) by (force simp: wire_codec_def reads_iffs)
next
  case (Inr y)
  have "read_then (read_result v) f = f y" by (simp add: read_then_def read_result_def Inr fun_eq_iff)
  with assms(1) [OF Inr] show ?thesis by simp
qed

lemma codec_cong:
  "wire_codec d P w \<Longrightarrow> (\<And>x. P' x \<longleftrightarrow> P x) \<Longrightarrow> (\<And>x. P x \<Longrightarrow> w' x = w x) \<Longrightarrow> wire_codec d P' w'"
  by (auto simp: wire_codec_def)

lemma codec_branch:
  "wire_codec d P w \<Longrightarrow> read_then d (\<lambda>a. read_return (K a)) r = Inr (x, r') \<longleftrightarrow> (\<exists>a. x = K a \<and> P a \<and> reads_wire r (w a) r')"
  by (auto simp: wire_codec_def reads_iffs)

interpretation wire_u8: wire_codec reader_u8 "\<lambda>_. True" "\<lambda>b. Inr [b]"
  by unfold_locales (simp add: reads_iffs)

interpretation wire_u16: wire_codec reader_u16 "\<lambda>v. v \<le> u16_max" "\<lambda>v. Inr (to_be_bytes 2 v)"
  by unfold_locales (simp add: reads_iffs)

interpretation wire_u32: wire_codec reader_u32 "\<lambda>v. v \<le> u32_max" "\<lambda>v. Inr (to_be_bytes 4 v)"
  by unfold_locales (simp add: reads_iffs)

interpretation wire_blob: wire_codec reader_blob "\<lambda>_. True" "wire_blob field"
  by unfold_locales (simp add: reads_iffs wire_blob_def reads_append)

interpretation wire_string: wire_codec "reader_string field" "\<lambda>v. utf8_valid (as_bytes v)" "wire_string field"
  by unfold_locales (auto simp: reads_iffs wire_string_def reads_append)

lemmas codec_fields = codec_field [OF wire_u64.wire_codec_axioms] codec_field [OF wire_bool.wire_codec_axioms]
  codec_field [OF wire_u8.wire_codec_axioms] codec_field [OF wire_u16.wire_codec_axioms]
  codec_field [OF wire_blob.wire_codec_axioms] codec_return

lemma append_decode_response_codec:
  "wire_codec append_decode_response (\<lambda>a. wire_message_ok (AppendEntriesResponseMsg a))
     (\<lambda>a. wire_seq [wire_u64 (aer_term a), wire_u64 (aer_follower_id a), wire_bool (aer_success a),
       wire_u64 (aer_match_index a), wire_u64 (aer_sequence a)])"
  unfolding append_decode_response_def wire_seq_simps by (intro codec_fields) auto

lemma append_decode_request_codec:
  "wire_codec append_decode_request (\<lambda>a. wire_message_ok (AppendEntriesMsg a))
     (\<lambda>a. wire_seq [wire_u64 (ae_term a), wire_u64 (ae_leader_id a), wire_u64 (ae_prev_log_index a),
       wire_u64 (ae_prev_log_term a), wire_count32 ''entry_count'' (length (ae_entries a)),
       wire_seq (map wire_entry (ae_entries a)), wire_u64 (ae_leader_commit a), wire_u64 (ae_sequence a)])"
proof -
  have entries: "wire_codec (read_then reader_u32 (\<lambda>n. read_many n decode_log_entry))
      (\<lambda>es. \<forall>e\<in>set es. wire_entry_ok e) (\<lambda>es. wire_then (wire_count32 ''entry_count'' (length es)) (wire_seq (map wire_entry es)))"
    by unfold_locales (auto simp: reads_iffs wire_entry.many)
  have eq: "append_decode_request = read_then reader_u64 (\<lambda>t. read_then reader_u64 (\<lambda>l. read_then reader_u64 (\<lambda>i. read_then reader_u64 (\<lambda>p.
      read_then (read_then reader_u32 (\<lambda>n. read_many n decode_log_entry)) (\<lambda>es. read_then reader_u64 (\<lambda>c. read_then reader_u64 (\<lambda>q.
      read_return \<lparr>ae_term = t, ae_leader_id = l, ae_prev_log_index = i, ae_prev_log_term = p, ae_sequence = q,
        ae_entries = es, ae_leader_commit = c\<rparr>)))))))"
    by (simp add: append_decode_request_def read_then_monad)
  show ?thesis
    unfolding eq wire_seq_simps wire_then_assoc [symmetric, of "wire_count32 _ _"]
    by (intro codec_fields codec_field [OF entries]) auto
qed

lemma if_swap: "(if \<not> b then x else y) = (if b then y else x)"
  by simp

text \<open>An optional value behind its presence byte.\<close>

lemma codec_option:
  assumes "wire_codec d P w"
  shows "wire_codec (read_then reader_bool (\<lambda>present. if present then read_then d (\<lambda>x. read_return (Some x)) else read_return None))
    (\<lambda>x. \<forall>y. x = Some y \<longrightarrow> P y) (wire_option w)"
proof
  fix r x r'
  show "read_then reader_bool (\<lambda>present. if present then read_then d (\<lambda>x. read_return (Some x)) else read_return None) r =
      Inr (x, r') \<longleftrightarrow> (\<forall>y. x = Some y \<longrightarrow> P y) \<and> reads_wire r (wire_option w x) r'"
    using assms by (cases x) (auto simp: wire_option_def reads_iffs wire_codec_def wire_bool_def bool_byte_def split: if_splits)
qed

interpretation wire_committed: wire_codec decode_committed_configuration committed_ok "wire_option wire_committed"
proof -
  have pair: "wire_codec (read_then reader_u64 (\<lambda>i. read_then reader_u64 (\<lambda>c. read_return \<lparr>cc_index = i, cc_config_id = c\<rparr>)))
      (\<lambda>k. cc_index k \<le> u64_max \<and> cc_config_id k \<le> u64_max)
      (\<lambda>k. wire_then (wire_u64 (cc_index k)) (wire_then (wire_u64 (cc_config_id k)) (Inr [])))"
    by (intro codec_fields) auto
  have known: "wire_codec (read_then reader_bool (\<lambda>known.
        if known then read_then reader_u64 (\<lambda>i. read_then reader_u64 (\<lambda>c. read_return (Some \<lparr>cc_index = i, cc_config_id = c\<rparr>)))
        else read_return None))
      (\<lambda>x. \<forall>k. x = Some k \<longrightarrow> cc_index k \<le> u64_max \<and> cc_config_id k \<le> u64_max)
      (wire_option (\<lambda>k. wire_then (wire_u64 (cc_index k)) (wire_u64 (cc_config_id k))))"
    using codec_option [OF pair] by (simp add: read_then_monad cong: if_cong)
  have body: "wire_codec (read_then (read_then reader_bool (\<lambda>known.
        if known then read_then reader_u64 (\<lambda>i. read_then reader_u64 (\<lambda>c. read_return (Some \<lparr>cc_index = i, cc_config_id = c\<rparr>)))
        else read_return None)) (\<lambda>conf. read_then decode_config (\<lambda>m. read_return \<lparr>scc_configuration = conf, scc_membership = m\<rparr>)))
      (\<lambda>c. wire_config_ok (scc_membership c) \<and> (\<forall>k. scc_configuration c = Some k \<longrightarrow> cc_index k \<le> u64_max \<and> cc_config_id k \<le> u64_max))
      (\<lambda>c. wire_then (wire_option (\<lambda>k. wire_then (wire_u64 (cc_index k)) (wire_u64 (cc_config_id k))) (scc_configuration c))
         (wire_then (wire_config (scc_membership c)) (Inr [])))"
    by (intro codec_field [OF known] codec_field [OF wire_config.wire_codec_axioms] codec_return) auto
  show "wire_codec decode_committed_configuration committed_ok (wire_option wire_committed)"
    using codec_option [OF body] unfolding decode_committed_configuration_def committed_ok_def wire_committed_def
    by (simp add: read_then_monad if_swap cong: if_cong)
qed

lemma valid_id_utf8:
  assumes "validate_snapshot_id field v = Inr ()"
  shows "utf8_valid (as_bytes v)"
proof (rule utf8_valid_ascii)
  have ascii: "of_char c < (0x80 :: byte)" if "valid_id_character c" for c
  proof -
    have "of_char c < (128 :: nat)" using that by (auto simp: valid_id_character_def)
    moreover have "(of_char c :: byte) = word_of_nat (of_char c)" by (simp add: of_nat_of_char)
    ultimately show ?thesis by (simp add: word_less_nat_alt unsigned_of_nat take_bit_eq_mod)
  qed
  have "\<forall>c\<in>set v. valid_id_character c"
    using assms by (auto simp: validate_snapshot_id_def find_None_iff split: if_splits option.splits)
  with ascii show "\<forall>b\<in>set (as_bytes v). b < 0x80" by (auto simp: as_bytes_def)
qed

lemma map_sum_Inr_iff: "map_sum f id v = Inr y \<longleftrightarrow> v = Inr y"
  by (cases v) auto

lemma new_id_iffs:
  "SnapshotGroupId_new g = Inr y \<longleftrightarrow> validate_snapshot_id ''snapshot group id'' g = Inr () \<and> y = g"
  "ApplicationSnapshotKind_new g = Inr y \<longleftrightarrow> validate_snapshot_id ''application snapshot kind'' g = Inr () \<and> y = g"
  "ApplicationSnapshotVersion_new v = Inr w \<longleftrightarrow> v \<noteq> 0 \<and> w = v"
  by (auto simp: SnapshotGroupId_new_def ApplicationSnapshotKind_new_def ApplicationSnapshotVersion_new_def
      split: sum.splits)

lemma metadata_new_iff:
  "RaftSnapshotMetadata_new g w i t h a = Inr m \<longleftrightarrow> i \<noteq> 0 \<and> i \<noteq> u64_max \<and> t \<noteq> 0 \<and> t \<le> h \<and>
     m = \<lparr>group_id = g, writer_id = w, last_included_index = i, last_included_term = t, hard_state_term = h,
       application = a, meta_committed_configuration = None\<rparr>"
  by (auto simp: RaftSnapshotMetadata_new_def Term_is_zero_def)

lemma metadata_eq_iff:
  "x = (case c of None \<Rightarrow> \<lparr>group_id = g, writer_id = w, last_included_index = i, last_included_term = t, hard_state_term = h,
       application = \<lparr>app_kind = k, app_version = v\<rparr>, meta_committed_configuration = None\<rparr>
     | Some c \<Rightarrow> with_committed_configuration \<lparr>group_id = g, writer_id = w, last_included_index = i, last_included_term = t,
       hard_state_term = h, application = \<lparr>app_kind = k, app_version = v\<rparr>, meta_committed_configuration = None\<rparr> c) \<longleftrightarrow>
   group_id x = g \<and> writer_id x = w \<and> last_included_index x = i \<and> last_included_term x = t \<and> hard_state_term x = h \<and>
   app_kind (application x) = k \<and> app_version (application x) = v \<and> meta_committed_configuration x = c"
  by (cases x; cases "application x"; cases c) (auto simp: with_committed_configuration_def)

interpretation wire_metadata: wire_codec decode_metadata wire_metadata_ok wire_metadata
proof -
  note strings = codec_field [OF wire_string.wire_codec_axioms]
  show "wire_codec decode_metadata wire_metadata_ok wire_metadata"
    unfolding decode_metadata_def wire_metadata_def wire_seq_simps
    by (intro codec_fields strings codec_field [OF wire_committed.wire_codec_axioms] codec_result)
      (auto simp: map_sum_Inr_iff new_id_iffs metadata_new_iff metadata_eq_iff wire_metadata_ok_def intro: valid_id_utf8)
qed

text \<open>Words are written through their values.\<close>

lemma codec_word64: "wire_codec (read_then reader_u64 (\<lambda>v. read_return (word_of_nat v :: 64 word))) (\<lambda>_. True) (\<lambda>w. wire_u64 (unat w))"
proof
  fix r r' and w :: "64 word"
  have "unat w \<le> u64_max" using unsigned_less [of w, where ?'a = nat] by (simp add: u64_max_def)
  moreover have "unat (word_of_nat v :: 64 word) = v" if "v \<le> u64_max" for v
    using that by (simp add: unsigned_of_nat take_bit_eq_mod u64_max_def)
  ultimately show "read_then reader_u64 (\<lambda>v. read_return (word_of_nat v :: 64 word)) r = Inr (w, r') \<longleftrightarrow>
      True \<and> reads_wire r (wire_u64 (unat w)) r'"
    by (auto simp: reads_iffs wire_u64_def intro!: exI [of _ "unat w"])
qed

lemma codec_word32: "wire_codec (read_then reader_u32 (\<lambda>v. read_return (word_of_nat v :: 32 word))) (\<lambda>_. True)
    (\<lambda>w. Inr (to_be_bytes 4 (unat w)))"
proof
  fix r r' and w :: "32 word"
  have "unat w \<le> u32_max" using unsigned_less [of w, where ?'a = nat] by (simp add: u32_max_def)
  moreover have "unat (word_of_nat v :: 32 word) = v" if "v \<le> u32_max" for v
    using that by (simp add: unsigned_of_nat take_bit_eq_mod u32_max_def)
  ultimately show "read_then reader_u32 (\<lambda>v. read_return (word_of_nat v :: 32 word)) r = Inr (w, r') \<longleftrightarrow>
      True \<and> reads_wire r (Inr (to_be_bytes 4 (unat w))) r'"
    by (auto simp: reads_iffs intro!: exI [of _ "unat w"])
qed

lemma decode_chunk_codec:
  "wire_codec decode_chunk (\<lambda>c. wire_message_ok (InstallSnapshotChunkMsg c))
     (\<lambda>r. wire_seq [wire_u64 (isc_term r), wire_u64 (isc_leader_id r),
     wire_u64 (unat (isc_transfer_id r)), wire_metadata (isc_metadata r), wire_u64 (isc_total_payload_len r),
     Inr (to_be_bytes 4 (unat (isc_application_payload_crc32 r))), wire_u64 (isc_offset r),
     wire_blob ''install_snapshot_chunk'' (isc_chunk r), wire_bool (isc_done r)])"
proof -
  have eq: "decode_chunk =
     read_then reader_u64 (\<lambda>trm. read_then reader_u64 (\<lambda>l. read_then (read_then reader_u64 (\<lambda>v. read_return (word_of_nat v))) (\<lambda>transfer.
     read_then decode_metadata (\<lambda>m. read_then reader_u64 (\<lambda>len. read_then (read_then reader_u32 (\<lambda>v. read_return (word_of_nat v))) (\<lambda>crc.
     read_then reader_u64 (\<lambda>offset. read_then reader_blob (\<lambda>chunk. read_then reader_bool (\<lambda>last.
     read_return \<lparr>isc_term = trm, isc_leader_id = l, isc_transfer_id = transfer,
       isc_metadata = m, isc_total_payload_len = len, isc_application_payload_crc32 = crc,
       isc_offset = offset, isc_chunk = chunk, isc_done = last\<rparr>)))))))))"
    by (simp add: decode_chunk_def read_then_monad)
  show ?thesis
    unfolding eq wire_seq_simps
    by (intro codec_field [OF codec_word64] codec_field [OF codec_word32] codec_fields
        codec_field [OF wire_metadata.wire_codec_axioms]) auto
qed

lemma snapshot_decode_response_codec:
  "wire_codec snapshot_decode_response (\<lambda>c. wire_message_ok (InstallSnapshotResponseMsg c))
     (\<lambda>r. wire_seq [wire_u64 (isr_term r), wire_u64 (isr_follower_id r),
     wire_bool (isr_success r), wire_u64 (isr_last_included_index r),
     wire_option (\<lambda>t. wire_u64 (unat t)) (isr_transfer_id r), wire_u64 (isr_next_offset r)])"
proof -
  have transfer: "wire_codec (read_then reader_bool (\<lambda>present.
      if present then read_then reader_u64 (\<lambda>t. read_return (Some (word_of_nat t))) else read_return None))
      (\<lambda>x. \<forall>y. x = Some y \<longrightarrow> True) (wire_option (\<lambda>t :: 64 word. wire_u64 (unat t)))"
    using codec_option [OF codec_word64] by (simp add: read_then_monad cong: if_cong)
  show ?thesis
    unfolding snapshot_decode_response_def wire_seq_simps
    by (intro codec_field [OF transfer] codec_fields) auto
qed

text \<open>The four vote messages and the hand-over.\<close>

lemma vote_codecs:
  "wire_codec (read_then reader_u64 (\<lambda>t. read_then reader_u64 (\<lambda>c. read_then reader_u64 (\<lambda>i. read_then reader_u64 (\<lambda>l.
       read_return \<lparr>rv_term = t, rv_candidate_id = c, rv_last_log_index = i, rv_last_log_term = l\<rparr>)))))
     (\<lambda>a. wire_message_ok (RequestVoteMsg a))
     (\<lambda>r. wire_seq [wire_u64 (rv_term r), wire_u64 (rv_candidate_id r), wire_u64 (rv_last_log_index r), wire_u64 (rv_last_log_term r)])"
  "wire_codec (read_then reader_u64 (\<lambda>t. read_then reader_u64 (\<lambda>c. read_then reader_u64 (\<lambda>i. read_then reader_u64 (\<lambda>l.
       read_return \<lparr>pv_term = t, pv_candidate_id = c, pv_last_log_index = i, pv_last_log_term = l\<rparr>)))))
     (\<lambda>a. wire_message_ok (PreVoteMsg a))
     (\<lambda>r. wire_seq [wire_u64 (pv_term r), wire_u64 (pv_candidate_id r), wire_u64 (pv_last_log_index r), wire_u64 (pv_last_log_term r)])"
  "wire_codec (read_then reader_u64 (\<lambda>t. read_then reader_u64 (\<lambda>c. read_then reader_bool (\<lambda>g.
       read_return \<lparr>rvr_term = t, rvr_voter_id = c, rvr_vote_granted = g\<rparr>))))
     (\<lambda>a. wire_message_ok (RequestVoteResponseMsg a))
     (\<lambda>r. wire_seq [wire_u64 (rvr_term r), wire_u64 (rvr_voter_id r), wire_bool (rvr_vote_granted r)])"
  "wire_codec (read_then reader_u64 (\<lambda>t. read_then reader_u64 (\<lambda>c. read_then reader_bool (\<lambda>g.
       read_return \<lparr>pvr_term = t, pvr_voter_id = c, pvr_vote_granted = g\<rparr>))))
     (\<lambda>a. wire_message_ok (PreVoteResponseMsg a))
     (\<lambda>r. wire_seq [wire_u64 (pvr_term r), wire_u64 (pvr_voter_id r), wire_bool (pvr_vote_granted r)])"
  "wire_codec (read_then reader_u64 (\<lambda>t. read_then reader_u64 (\<lambda>l. read_return \<lparr>tn_term = t, tn_leader_id = l\<rparr>)))
     (\<lambda>a. wire_message_ok (TimeoutNowMsg a)) (\<lambda>r. wire_seq [wire_u64 (tn_term r), wire_u64 (tn_leader_id r)])"
  unfolding wire_seq_simps by (intro codec_fields; auto)+

lemmas vote_branches = vote_codecs [THEN codec_branch, unfolded read_then_monad]

lemmas payload_branches = vote_branches(1) [where K = RequestVoteMsg] vote_branches(2) [where K = PreVoteMsg]
  vote_branches(3) [where K = RequestVoteResponseMsg] vote_branches(4) [where K = PreVoteResponseMsg]
  vote_branches(5) [where K = TimeoutNowMsg]
  codec_branch [OF append_decode_request_codec] codec_branch [OF append_decode_response_codec]
  codec_branch [OF decode_chunk_codec] codec_branch [OF snapshot_decode_response_codec]

interpretation wire_message: wire_codec decode_payload wire_message_ok wire_fields
proof
  fix r m r'
  show "decode_payload r = Inr (m, r') \<longleftrightarrow> wire_message_ok m \<and> reads_wire r (wire_fields m) r'"
    unfolding decode_payload_def read_tag_simps MessageTag.case payload_branches
    by (cases m; simp; blast)
qed

section \<open>Frames\<close>

lemma encode_message_wire: "encode_message m = wire_frame m"
proof -
  have vec: "sink_write VecSink bs [] = bs" for bs by (simp add: VecSink_def)
  show ?thesis
    by (cases "wire_body m")
      (simp_all add: encode_message_def encode_message_into_def reserved_capacity_def counting.encode_frame_body_wire
        vec.encode_frame_body_wire wire_frame_def vec)
qed

lemma reads_new: "reads (Reader_new bs) cs r \<longleftrightarrow> take (length cs) bs = cs \<and> r = \<lparr>rd_payload = bs, rd_position = length cs\<rparr>"
  by (auto simp: reads_def Reader_new_def)

lemma decode_message_reads:
  "decode_message bs = Inr m \<longleftrightarrow> (\<exists>r1 r2 r3 r4. reads (Reader_new bs) MAGIC r1 \<and> reads r1 [VERSION] r2 \<and>
     wire_message_ok m \<and> reads_wire r2 (wire_fields m) r3 \<and>
     reads r3 (to_be_bytes 4 (unat (crc32 (take (rd_position r3) bs)))) r4 \<and> remaining r4 = 0)"
proof -
  have crc: "unat (c :: 32 word) \<le> u32_max" for c using unsigned_less [of c, where ?'a = nat] by (simp add: u32_max_def)
  have magic: "length MAGIC = 4" by (simp add: MAGIC_def)
  show ?thesis
    by (auto simp: decode_message_def array_4_def and_then_Inr_iff reads_iffs wire_message.accepts reader_finish_def Let_def
        case_prod_unfold crc magic split: if_splits) blast
qed

lemma decode_message_wire: "decode_message bs = Inr m \<longleftrightarrow> wire_message_ok m \<and> wire_frame m = Inr bs"
proof -
  have eq: "decode_message bs = Inr m \<longleftrightarrow> wire_message_ok m \<and> (\<exists>r3 r4. reads_wire (Reader_new bs) (wire_body m) r3 \<and>
      reads r3 (to_be_bytes 4 (unat (crc32 (take (rd_position r3) bs)))) r4 \<and> remaining r4 = 0)"
    unfolding decode_message_reads wire_body_def by (simp add: reads_append) blast
  also have "(\<exists>r3 r4. reads_wire (Reader_new bs) (wire_body m) r3 \<and>
      reads r3 (to_be_bytes 4 (unat (crc32 (take (rd_position r3) bs)))) r4 \<and> remaining r4 = 0) \<longleftrightarrow> wire_frame m = Inr bs"
  proof (cases "wire_body m")
    case (Inl e)
    then show ?thesis by (simp add: wire_frame_def)
  next
    case (Inr cs)
    let ?crc = "to_be_bytes 4 (unat (crc32 cs))"
    have "(\<exists>r3 r4. reads (Reader_new bs) cs r3 \<and> reads r3 (to_be_bytes 4 (unat (crc32 (take (rd_position r3) bs)))) r4 \<and>
        remaining r4 = 0) \<longleftrightarrow> (\<exists>r4. reads (Reader_new bs) (cs @ ?crc) r4 \<and> remaining r4 = 0)"
      unfolding reads_append by (auto simp: reads_new)
    also have "\<dots> \<longleftrightarrow> bs = cs @ ?crc" by (auto simp: reads_new remaining_def)
    finally show ?thesis using Inr by (auto simp: wire_frame_def)
  qed
  finally show ?thesis .
qed

text \<open>
  C23: The codec is exact. A byte string decodes to a message exactly when the message is representable
  (its numbers fit their widths, its memberships are well formed, its snapshot metadata valid) and
  encoding it gives that very byte string. So encoding and decoding are inverse in both directions:
  nothing is lost on the wire, every accepted frame is the canonical encoding of its message, and
  a frame with a wrong checksum, trailing bytes or an unordered membership is refused.
\<close>

theorem codec_exact: "decode_message bs = Inr m \<longleftrightarrow> wire_message_ok m \<and> encode_message m = Inr bs"
  unfolding encode_message_wire by (rule decode_message_wire)

end
