(* ===== verification/Frame_Limits.thy ===== *)
theory Frame_Limits
  imports Wire_Format Replication_Send
begin

text \<open>
  Receive limits (\<open>crates/rafter-codec/src/limits.rs\<close>): the size of every frame a leader's replication
  sends, measured on the encoding, stays within the limit a transport computes from the byte budget.
  A snapshot chunk is resolved against a payload source (\<open>message/snapshot.rs\<close>) before it is encoded.
\<close>

section \<open>Definitions\<close>

definition APPLICATION_APPEND_FRAME_OVERHEAD_BYTES :: usize where
  "APPLICATION_APPEND_FRAME_OVERHEAD_BYTES = 11"

definition MAX_CONFIGURATION_APPEND_FRAME_BYTES :: usize where
  "MAX_CONFIGURATION_APPEND_FRAME_BYTES = 2097207"

definition MAX_INSTALL_SNAPSHOT_CHUNK_FRAME_BYTES :: usize where
  "MAX_INSTALL_SNAPSHOT_CHUNK_FRAME_BYTES = 2163036"

definition MAX_MEMBERSHIP_DRIVEN_FRAME_BYTES :: usize where
  "MAX_MEMBERSHIP_DRIVEN_FRAME_BYTES =
     (if MAX_CONFIGURATION_APPEND_FRAME_BYTES > MAX_INSTALL_SNAPSHOT_CHUNK_FRAME_BYTES
      then MAX_CONFIGURATION_APPEND_FRAME_BYTES else MAX_INSTALL_SNAPSHOT_CHUNK_FRAME_BYTES)"

definition max_receive_frame_bytes :: "usize \<Rightarrow> usize" where
  "max_receive_frame_bytes budget =
     (let application = sat_add budget APPLICATION_APPEND_FRAME_OVERHEAD_BYTES
      in if application > MAX_MEMBERSHIP_DRIVEN_FRAME_BYTES then application else MAX_MEMBERSHIP_DRIVEN_FRAME_BYTES)"

text \<open>The directive of the kernel becomes a message with bytes of the source; the source is any
  implementation of \<open>SnapshotChunkSource\<close>.\<close>

definition resolve_chunk :: "(SnapshotChunkRequest \<Rightarrow> byte list option) \<Rightarrow> SnapshotChunkSend \<Rightarrow> InstallSnapshotChunk option" where
  "resolve_chunk source c =
     (case source \<lparr>scr_transfer_id = scs_transfer_id c, scr_metadata = scs_metadata c,
        scr_total_payload_len = scs_total_payload_len c,
        scr_application_payload_crc32 = scs_application_payload_crc32 c,
        scr_offset = scs_offset c, scr_len = scs_len c\<rparr> of
        None \<Rightarrow> None
      | Some chunk \<Rightarrow>
          if length chunk \<noteq> scs_len c then None
          else Some \<lparr>isc_term = scs_term c, isc_leader_id = scs_leader_id c, isc_transfer_id = scs_transfer_id c,
            isc_metadata = scs_metadata c, isc_total_payload_len = scs_total_payload_len c,
            isc_application_payload_crc32 = scs_application_payload_crc32 c, isc_offset = scs_offset c,
            isc_chunk = chunk, isc_done = scs_done c\<rparr>)"

section \<open>Lengths of the grammar\<close>

definition set_members :: "MembershipSet \<Rightarrow> nat" where
  "set_members m = length (voters m) + length (learners m)"

lemma length_nodes: "length (concat (map (to_be_bytes 8) ns)) = 8 * length ns"
  by (induction ns) simp_all

lemma wire_set_length:
  "wire_set m = Inr bs \<Longrightarrow> length bs = 4 + 8 * set_members m \<and> set_members m \<le> 2 * u16_max"
  by (auto simp: wire_set_def wire_prims set_members_def length_nodes split: if_splits)

lemma wire_joint_length:
  assumes "wire_joint j = Inr bs"
  shows "length bs = 8 + 8 * (set_members (old_membership j) + set_members (new_membership j)) \<and>
    set_members (old_membership j) + set_members (new_membership j) \<le> 4 * u16_max"
proof -
  obtain cs ds where "wire_set (old_membership j) = Inr cs" "wire_set (new_membership j) = Inr ds" "bs = cs @ ds"
    using assms by (auto simp: wire_joint_def wire_then_Inr_iff)
  with wire_set_length [of "old_membership j" cs] wire_set_length [of "new_membership j" ds] show ?thesis by simp
qed

lemma wire_config_length:
  assumes "wire_config m = Inr bs"
  shows "length bs \<le> 9 + 32 * u16_max"
proof (cases m)
  case (StableMembership s)
  with assms obtain cs where "wire_set s = Inr cs" "bs = 0 # cs" by (auto simp: wire_then_Inr_iff)
  with wire_set_length [of s cs] show ?thesis by simp
next
  case (JointMembershipConfig j)
  with assms obtain cs where "wire_joint j = Inr cs" "bs = 1 # cs" by (auto simp: wire_then_Inr_iff)
  with wire_joint_length [of j cs] show ?thesis by simp
qed

text \<open>An entry against what the batch budget charges for it.\<close>

lemma wire_entry_length:
  assumes "wire_entry e = Inr bs"
  shows "(\<exists>p. entry_kind e = Application p) \<and> length bs + 51 = replication_bytes e \<or>
    (\<forall>p. entry_kind e \<noteq> Application p) \<and> 3 * length bs \<le> 2 * replication_bytes e \<and> length bs \<le> 25 + 32 * u16_max"
proof (cases "entry_kind e" rule: wire_kind.cases)
  case (1 p)
  with assms have "length p \<le> u32_max" "length bs = 13 + length p"
    by (auto simp: wire_entry_def wire_blob_def wire_prims wire_then_Inr_iff split: if_splits)
  then show ?thesis
    using 1 by (simp add: replication_bytes_def application_replication_bytes_def sat_add_def u32_max_def u64_max_def
        APPLICATION_LOG_ENTRY_REPLICATION_OVERHEAD_BYTES_def)
next
  case (2 c m)
  with assms obtain cs where cs: "wire_set m = Inr cs" "length bs = 17 + length cs"
    by (auto simp: wire_entry_def wire_prims wire_then_Inr_iff)
  moreover from wire_set_length [OF cs(1)] have "membership_member_count (StableMembership m) = set_members m"
    by (simp add: set_members_def)
  ultimately show ?thesis
    using 2 wire_set_length [OF cs(1)]
    by (simp add: replication_bytes_def sat_add_def sat_mul_def u16_max_def u64_max_def
        CONFIGURATION_LOG_ENTRY_BASE_BYTES_def CONFIGURATION_LOG_ENTRY_PER_MEMBER_BYTES_def)
next
  case (3 c j)
  with assms obtain cs where cs: "wire_joint j = Inr cs" "length bs = 17 + length cs"
    by (auto simp: wire_entry_def wire_prims wire_then_Inr_iff)
  moreover have "membership_member_count (JointMembershipConfig j) =
      set_members (old_membership j) + set_members (new_membership j)"
    by (simp add: set_members_def)
  ultimately show ?thesis
    using 3 wire_joint_length [OF cs(1)]
    by (simp add: replication_bytes_def sat_add_def sat_mul_def u16_max_def u64_max_def
        CONFIGURATION_LOG_ENTRY_BASE_BYTES_def CONFIGURATION_LOG_ENTRY_PER_MEMBER_BYTES_def)
next
  case 4
  with assms show ?thesis
    by (auto simp: wire_entry_def wire_prims replication_bytes_def NOOP_LOG_ENTRY_REPLICATION_BYTES_def)
qed

lemma wire_entries_length:
  assumes "wire_seq (map wire_entry es) = Inr bs"
  shows "(if \<exists>e\<in>set es. \<exists>p. entry_kind e = Application p
     then length bs + 51 \<le> sum_list (map replication_bytes es)
     else 3 * length bs \<le> 2 * sum_list (map replication_bytes es))"
  using assms
proof (induction es arbitrary: bs)
  case (Cons e es)
  then obtain cs ds where w: "wire_entry e = Inr cs" "wire_seq (map wire_entry es) = Inr ds" "bs = cs @ ds"
    by (auto simp: wire_then_Inr_iff)
  show ?case using wire_entry_length [OF w(1)] Cons.IH [OF w(2)] w(3) by (auto split: if_splits)
qed simp

lemma wire_frame_length: "wire_frame m = Inr bs \<Longrightarrow> \<exists>cs. wire_fields m = Inr cs \<and> length bs = 9 + length cs"
  by (auto simp: wire_frame_def and_then_Inr_iff wire_body_def wire_then_Inr_iff MAGIC_def)

section \<open>Frames stay within the limit\<close>

lemma append_frame_length:
  assumes "wire_frame (AppendEntriesMsg a) = Inr bs"
  obtains es where "wire_seq (map wire_entry (ae_entries a)) = Inr es" "length bs = 62 + length es"
  using wire_frame_length [OF assms] by (auto simp: wire_prims wire_then_Inr_iff split: if_splits)

lemma append_frame_fits:
  assumes "wire_frame (AppendEntriesMsg a) = Inr bs" "budget < u64_max - 11"
    and "length (ae_entries a) \<le> 1 \<or> entries_bytes (ae_entries a) \<le> budget"
    and "\<forall>e\<in>set (ae_entries a). \<forall>p. entry_kind e = Application p \<longrightarrow> replication_bytes e \<le> budget"
  shows "length bs \<le> max_receive_frame_bytes budget"
proof -
  have limit: "budget + 11 \<le> max_receive_frame_bytes budget" "2163036 \<le> max_receive_frame_bytes budget"
    using assms(2) by (auto simp: max_receive_frame_bytes_def Let_def sat_add_def APPLICATION_APPEND_FRAME_OVERHEAD_BYTES_def
        MAX_MEMBERSHIP_DRIVEN_FRAME_BYTES_def MAX_CONFIGURATION_APPEND_FRAME_BYTES_def MAX_INSTALL_SNAPSHOT_CHUNK_FRAME_BYTES_def)
  obtain es where es: "wire_seq (map wire_entry (ae_entries a)) = Inr es" "length bs = 62 + length es"
    using append_frame_length [OF assms(1)] .
  from assms(3) consider (single) e where "ae_entries a = [e]" | (empty) "ae_entries a = []"
    | (batch) "entries_bytes (ae_entries a) \<le> budget"
    by (cases "ae_entries a" rule: remdups_adj.cases) auto
  then show ?thesis
  proof cases
    case single
    then have "wire_entry e = Inr es" using es(1) by simp
    from wire_entry_length [OF this] show ?thesis using es(2) assms(4) single limit by (auto simp: u16_max_def)
  next
    case empty
    then show ?thesis using es limit by simp
  next
    case batch
    then have "sum_list (map replication_bytes (ae_entries a)) \<le> budget"
      using assms(2) by (simp add: entries_bytes_def)
    with wire_entries_length [OF es(1)] es(2) limit show ?thesis by (auto split: if_splits)
  qed
qed

lemma metadata_length:
  assumes "wire_metadata m = Inr bs" "wire_metadata_ok m"
  shows "length bs \<le> 321 + 32 * u16_max"
proof -
  have ids: "length (group_id m) \<le> 128" "length (app_kind (application m)) \<le> 128"
    using assms(2) by (auto simp: wire_metadata_ok_def validate_snapshot_id_def split: if_splits)
  have committed: "length cs \<le> 27 + 32 * u16_max" if "wire_option wire_committed c = Inr cs" for c cs
    using that wire_config_length
    by (cases c; cases "scc_configuration (the c)") (force simp: wire_option_def wire_committed_def wire_prims wire_then_Inr_iff)+
  from assms(1) obtain cs where "wire_option wire_committed (meta_committed_configuration m) = Inr cs"
    "length bs = 38 + length (group_id m) + length (app_kind (application m)) + length cs"
    by (auto simp: wire_metadata_def wire_string_def as_bytes_def wire_prims wire_then_Inr_iff split: if_splits)
  with ids committed show ?thesis by fastforce
qed

lemma chunk_frame_fits:
  assumes "wire_frame (InstallSnapshotChunkMsg c) = Inr bs" "wire_metadata_ok (isc_metadata c)"
    and "length (isc_chunk c) \<le> INSTALL_SNAPSHOT_CHUNK_BYTES"
  shows "length bs \<le> MAX_INSTALL_SNAPSHOT_CHUNK_FRAME_BYTES"
proof -
  obtain ms where "wire_metadata (isc_metadata c) = Inr ms" "length bs = 59 + length ms + length (isc_chunk c)"
    using wire_frame_length [OF assms(1)] by (auto simp: wire_prims wire_blob_def wire_then_Inr_iff split: if_splits)
  with metadata_length [OF _ assms(2)] assms(3) show ?thesis
    by (fastforce simp: MAX_INSTALL_SNAPSHOT_CHUNK_FRAME_BYTES_def INSTALL_SNAPSHOT_CHUNK_BYTES_def u16_max_def)
qed

text \<open>The message a directive puts on the wire.\<close>

fun peer_message :: "(SnapshotChunkRequest \<Rightarrow> byte list option) \<Rightarrow> Output \<Rightarrow> Message option" where
  "peer_message source (Send k m) = Some m"
| "peer_message source (SendSnapshotChunk k c) = map_option InstallSnapshotChunkMsg (resolve_chunk source c)"
| "peer_message source _ = None"

lemma appends_frames_fit:
  assumes "appends_from n outs" "out \<in> set outs" "peer_message source out = Some m" "encode_message m = Inr bs"
    and "max_append_entries_bytes (config n) < u64_max - 11"
    and "\<forall>e\<in>set (Node_log n). \<forall>p. entry_kind e = Application p \<longrightarrow> replication_bytes e \<le> max_append_entries_bytes (config n)"
    and "\<forall>s. Node_snapshot n = Some s \<longrightarrow> wire_metadata_ok (metadata s)"
  shows "length bs \<le> max_receive_frame_bytes (max_append_entries_bytes (config n))"
proof -
  have frame: "wire_frame m = Inr bs" using assms(4) by (simp add: encode_message_wire)
  have out: "replication_output n out" using assms(1,2) by (simp add: appends_from_def)
  then consider (append) k ae where "out = Send k (AppendEntriesMsg ae)" "append_from n ae"
    | (chunk) k c where "out = SendSnapshotChunk k c" "chunk_from n c"
    by (cases "(n, out)" rule: replication_output.cases) auto
  then show ?thesis
  proof cases
    case append
    have "e \<in> set (Node_log n)" if "e \<in> set (ae_entries ae)" for e
    proof -
      from that obtain j where "j < length (ae_entries ae)" "e = ae_entries ae ! j" by (metis in_set_conv_nth)
      with append(2) have "entry_at n (ae_prev_log_index ae + 1 + j) = Some e" by (simp add: append_from_def)
      then show ?thesis by (auto simp: entry_at_get get_def split: if_splits)
    qed
    moreover have "wire_frame (AppendEntriesMsg ae) = Inr bs" using frame assms(3) append(1) by simp
    ultimately show ?thesis
      using append_frame_fits assms(5,6) append(2) by (simp add: append_from_def)
  next
    case chunk
    then obtain c' where c': "resolve_chunk source c = Some c'" "m = InstallSnapshotChunkMsg c'"
      using assms(3) by auto
    then have "isc_metadata c' = scs_metadata c" "length (isc_chunk c') = scs_len c"
      by (auto simp: resolve_chunk_def split: option.splits if_splits)
    then have "wire_metadata_ok (isc_metadata c')" "length (isc_chunk c') \<le> INSTALL_SNAPSHOT_CHUNK_BYTES"
      using chunk(2) assms(7) by (auto simp: chunk_from_def split: option.splits)
    from chunk_frame_fits [OF _ this] frame c'(2) show ?thesis
      by (auto simp: max_receive_frame_bytes_def MAX_MEMBERSHIP_DRIVEN_FRAME_BYTES_def Let_def MAX_CONFIGURATION_APPEND_FRAME_BYTES_def)
  qed
qed

text \<open>
  C24: Frames respect the receive limit. Whatever a leader's replication sends, to all followers or to one,
  as an append or as a snapshot chunk resolved against any source, its encoding is at most
  \<open>max_receive_frame_bytes\<close> of the configured budget, provided every application entry of its log fits
  that budget by itself, as entries admitted under it do, and its snapshot's metadata is valid on the wire. A leader that was
  restarted with a smaller budget than its log was written under is outside of this. The number of
  followers, batches, members and entries is unrestricted.
\<close>

theorem frames_fit_receive_limit:
  assumes "out \<in> set (snd (broadcast_replication d n)) \<union> set (snd (replicate_to_follower k d n))"
    and "peer_message source out = Some m" "encode_message m = Inr bs"
    and "max_append_entries_bytes (config n) < u64_max - 11"
    and "\<forall>e\<in>set (Node_log n). \<forall>p. entry_kind e = Application p \<longrightarrow> replication_bytes e \<le> max_append_entries_bytes (config n)"
    and "\<forall>s. Node_snapshot n = Some s \<longrightarrow> wire_metadata_ok (metadata s)"
  shows "length bs \<le> max_receive_frame_bytes (max_append_entries_bytes (config n))"
  using assms(1) appends_frames_fit [OF broadcast_replication_appends _ assms(2-6)]
    appends_frames_fit [OF replicate_to_follower_appends _ assms(2-6)] by blast

lemma wire_entries_some:
  "\<forall>e\<in>set es. \<exists>bs. wire_entry e = Inr bs \<Longrightarrow> \<exists>bs. wire_seq (map wire_entry es) = Inr bs"
  by (induction es) auto

theorem frames_fit_receive_limit_witness:
  "\<exists>m bs. Send 2 m \<in> set (snd (replicate_to_follower 2 EnsureContact sample_leader)) \<and> encode_message m = Inr bs \<and>
     length bs \<le> max_receive_frame_bytes 524288"
proof -
  let ?n = "reconcile_replication_progress sample_leader"
  have base: "effective_base_membership sample_leader = static_membership sample_config" "derived sample_leader = []"
    "Node_role sample_leader = Leader" "Node_id sample_leader = 1"
    by (simp_all add: effective_base_membership_def sample_leader_def sample_follower_def) (simp add: sample_defs)
  have wf: "membership_wf (static_membership sample_config)" by (simp add: sample_membership membership_set_wf_def ordered_def)
  have get: "ps_get (progress (leader ?n)) 2 = Some (Progress_probing 3)"
    using reconcile_membership [OF sample_leader_progress(1) wf sample_small, of 1 1 4 2] base
    by (simp add: reconcile_replication_progress_def Let_def reconciled_progress_def sample_leader_progress(2) initial_progress_def)
  have n: "Node_id ?n = 1" "snapshot_index ?n = 0" using base(4)
    by (simp_all add: frame_simps snapshot_index_def) (simp add: sample_defs)
  let ?m = "update_progress 2 (enter_snapshot_mode 0) ?n"
  have "ps_get (progress (leader ?m)) 2 = Some (Progress_probing 3)"
    using get by (simp add: ps_get_modify_same enter_snapshot_mode_def Progress_probing_def)
  moreover have "ps_contains (progress (leader ?n)) 2" using get by (auto simp: ps_contains_def ps_get_def bind_eq_Some_conv)
  ultimately obtain i es where outs: "snd (replicate_to_follower 2 EnsureContact sample_leader) = [append_entries_message ?m 2 i es]"
    unfolding replicate_to_follower_def replicate_to_follower_with_cache_def replicate_to_follower_with_cache_fresh_def
    by (simp add: n Let_def case_prod_unfold replicate_probe_to_follower_def Progress_probing_def)
  then obtain a where a: "snd (replicate_to_follower 2 EnsureContact sample_leader) = [Send 2 (AppendEntriesMsg a)]"
    by (simp add: append_entries_message_def Let_def)
  then have from_log: "append_from sample_leader a"
    using replicate_to_follower_appends [of sample_leader 2 EnsureContact] by (simp add: appends_from_def)
  have "\<exists>bs. wire_entry e = Inr bs" "length (ae_entries a) \<le> 4" if "e \<in> set (ae_entries a)" for e
  proof -
    from that obtain j where j: "j < length (ae_entries a)" "e = ae_entries a ! j" by (metis in_set_conv_nth)
    with from_log have "entry_at sample_leader (ae_prev_log_index a + 1 + j) = Some e" by (simp add: append_from_def)
    then have "e \<in> set sample_log"
      by (auto simp: entry_at_get get_def sample_leader_def sample_follower_def split: if_splits)
    then show "\<exists>bs. wire_entry e = Inr bs"
      by (auto simp: sample_log_def wire_entry_def wire_prims wire_blob_def u32_max_def)
    have "length (ae_entries a) - 1 < length (ae_entries a)" using j(1) by simp
    with from_log obtain e' where "entry_at sample_leader (ae_prev_log_index a + 1 + (length (ae_entries a) - 1)) = Some e'"
      unfolding append_from_def by blast
    then show "length (ae_entries a) \<le> 4" using j(1) by (auto simp: entry_at_Some_iff split: if_splits)
  qed
  then obtain es where "wire_seq (map wire_entry (ae_entries a)) = Inr es" "length (ae_entries a) \<le> u32_max"
    using wire_entries_some [of "ae_entries a"] by (cases "ae_entries a") (fastforce simp: u32_max_def)+
  then obtain bs where bs: "encode_message (AppendEntriesMsg a) = Inr bs"
    by (simp add: encode_message_wire wire_frame_def wire_body_def wire_prims)
  have "max_append_entries_bytes (config sample_leader) = 524288"
    "\<forall>e\<in>set (Node_log sample_leader). \<forall>p. entry_kind e = Application p \<longrightarrow> replication_bytes e \<le> 524288"
    "Node_snapshot sample_leader = None"
    by (simp_all add: sample_defs DEFAULT_MAX_APPEND_ENTRIES_BYTES_def replication_bytes_def application_replication_bytes_def sat_add_def u64_max_def
        APPLICATION_LOG_ENTRY_REPLICATION_OVERHEAD_BYTES_def)
  then have "length bs \<le> max_receive_frame_bytes 524288"
    using frames_fit_receive_limit [of "Send 2 (AppendEntriesMsg a)" EnsureContact sample_leader 2 "\<lambda>_. None"] a bs
    by (simp add: u64_max_def)
  with a bs show ?thesis by auto
qed

end
