(* ===== verification/BTree_Map.thy ===== *)
theory BTree_Map
  imports Prelude
begin

text \<open>
  Ordered maps as the standard library's \<open>BTreeMap\<close> has them: the entries in ascending key order. Lookup is
  \<^const>\<open>map_of\<close>, \<open>insert\<close> keeps the order and overwrites, \<open>get_mut\<close> changes the value of a present key,
  \<open>values_mut\<close> changes all of them. Two well-formed maps with the same lookups are the same list, which
  is what makes iteration order a function of the contents.
\<close>

definition btm_wf :: "('k::linorder \<times> 'v) list \<Rightarrow> bool" where
  "btm_wf m \<longleftrightarrow> sorted_wrt (<) (map fst m)"

fun btm_insert :: "'k::linorder \<Rightarrow> 'v \<Rightarrow> ('k \<times> 'v) list \<Rightarrow> ('k \<times> 'v) list" where
  "btm_insert k v [] = [(k, v)]"
| "btm_insert k v ((k', v') # m) =
     (if k < k' then (k, v) # (k', v') # m
      else if k = k' then (k, v) # m
      else (k', v') # btm_insert k v m)"

definition btm_modify :: "'k \<Rightarrow> ('v \<Rightarrow> 'v) \<Rightarrow> ('k \<times> 'v) list \<Rightarrow> ('k \<times> 'v) list" where
  "btm_modify k f m = map (\<lambda>(k', v). (k', if k' = k then f v else v)) m"

definition btm_map_values :: "('v \<Rightarrow> 'w) \<Rightarrow> ('k \<times> 'v) list \<Rightarrow> ('k \<times> 'w) list" where
  "btm_map_values f m = map (\<lambda>(k, v). (k, f v)) m"

lemma btm_wf_simps [simp]:
  "btm_wf []"
  "btm_wf ((k, v) # m) \<longleftrightarrow> (\<forall>k'\<in>fst ` set m. k < k') \<and> btm_wf m"
  by (simp_all add: btm_wf_def)

lemma btm_wf_distinct: "btm_wf m \<Longrightarrow> distinct (map fst m)"
  by (simp add: btm_wf_def strict_sorted_iff)

lemma map_of_btm_insert [simp]: "map_of (btm_insert k v m) = (map_of m)(k \<mapsto> v)"
  by (induction k v m rule: btm_insert.induct) (auto simp: fun_eq_iff)

lemma keys_btm_insert [simp]: "fst ` set (btm_insert k v m) = insert k (fst ` set m)"
  by (induction k v m rule: btm_insert.induct) auto

lemma btm_wf_insert [simp]: "btm_wf m \<Longrightarrow> btm_wf (btm_insert k v m)"
  by (induction k v m rule: btm_insert.induct) auto

lemma length_btm_insert_present: "btm_wf m \<Longrightarrow> k \<in> fst ` set m \<Longrightarrow> length (btm_insert k v m) = length m"
  by (induction k v m rule: btm_insert.induct) auto

lemma length_btm_insert_fresh: "k \<notin> fst ` set m \<Longrightarrow> length (btm_insert k v m) = Suc (length m)"
  by (induction k v m rule: btm_insert.induct) auto

lemma keys_btm_modify [simp]: "map fst (btm_modify k f m) = map fst m"
  by (induction m) (auto simp: btm_modify_def)

lemma keys_btm_map_values [simp]: "map fst (btm_map_values f m) = map fst m"
  by (induction m) (auto simp: btm_map_values_def)

lemma btm_wf_modify [simp]: "btm_wf (btm_modify k f m) \<longleftrightarrow> btm_wf m"
  by (simp add: btm_wf_def)

lemma btm_wf_map_values [simp]: "btm_wf (btm_map_values f m) \<longleftrightarrow> btm_wf m"
  by (simp add: btm_wf_def)

lemma length_btm_updates [simp]:
  "length (btm_modify k f m) = length m" "length (btm_map_values g m) = length m"
  by (simp_all add: btm_modify_def btm_map_values_def)

lemma map_of_btm_modify [simp]:
  "map_of (btm_modify k f m) k' = (if k' = k then map_option f (map_of m k) else map_of m k')"
  by (induction m) (auto simp: btm_modify_def)

lemma map_of_btm_map_values [simp]: "map_of (btm_map_values f m) k = map_option f (map_of m k)"
  by (induction m) (auto simp: btm_map_values_def)

interpretation btm: keyed_store btm_wf map_of "\<lambda>m k f. btm_modify k f m"
  by unfold_locales auto

lemma map_of_mem_keys: "map_of m k = Some v \<Longrightarrow> k \<in> fst ` set m"
  by (metis domI dom_map_of_conv_image_fst)

lemma btm_entry_iff: "btm_wf m \<Longrightarrow> (k, v) \<in> set m \<longleftrightarrow> map_of m k = Some v"
  using btm_wf_distinct by fastforce

lemma btm_all: "btm_wf m \<Longrightarrow> (\<forall>(k, v)\<in>set m. P k v) \<longleftrightarrow> (\<forall>k v. map_of m k = Some v \<longrightarrow> P k v)"
  using btm_entry_iff by fastforce

text \<open>The contents determine the entries.\<close>

lemma btm_ext:
  assumes "btm_wf m" "btm_wf m'" "map_of m = map_of m'"
  shows "m = m'"
proof -
  have keys: "map fst m = map fst m'"
    using assms strict_sorted_equal [of "map fst m" "map fst m'"]
    by (metis btm_wf_def dom_map_of_conv_image_fst set_map)
  show ?thesis
  proof (rule nth_equalityI)
    show len: "length m = length m'" using keys by (metis length_map)
    fix i assume i: "i < length m"
    have "map_of m (fst (m ! i)) = Some (snd (m ! i))" "map_of m' (fst (m' ! i)) = Some (snd (m' ! i))"
      using i len assms(1,2) btm_entry_iff by (metis nth_mem prod.collapse)+
    moreover have "fst (m ! i) = fst (m' ! i)" using i len keys by (metis nth_map)
    ultimately show "m ! i = m' ! i" using assms(3) by (simp add: prod_eq_iff)
  qed
qed

end
