(* ===== verification/Fenced_Lock.thy ===== *)
theory Fenced_Lock
  imports BTree_Map "HOL-Library.List_Lexorder" "HOL-Library.Word"
begin

unbundle bit_operations_syntax

text \<open>
  The fenced lock service (\<open>reference/fenced-lock/src\<close>), a replicated state machine run on the Raft
  kernel: \<open>types.rs\<close>, the transition system of \<open>model.rs\<close> and the guarded downstream resource of
  \<open>guarded.rs\<close>. Client sessions deduplicate retries, every acquisition of a lock issues a larger fencing
  token, and only replicated logical time expires a lease. Nonzero integers are natural numbers with
  their range in the service invariant. Names are the bytes in use; the padding of the fixed array is
  determined by them, and the source orders names by exactly these bytes.
\<close>

section \<open>Types\<close>

type_synonym ResourceName = "8 word list"
type_synonym ClientId = nat
type_synonym SessionEpoch = nat
type_synonym Sequence = nat
type_synonym FencingToken = nat
type_synonym LogicalTime = nat
type_synonym LeaseDuration = nat
type_synonym RequestFingerprint = "64 word"

definition MAX_RESOURCE_NAME_LEN :: usize where
  "MAX_RESOURCE_NAME_LEN = 64"

datatype ResourceNameError = NameEmpty | NameTooLong | NameInvalidByte

definition is_admissible_name_byte :: "8 word \<Rightarrow> bool" where
  "is_admissible_name_byte b \<longleftrightarrow>
     48 \<le> b \<and> b \<le> 57 \<or> 65 \<le> b \<and> b \<le> 90 \<or> 97 \<le> b \<and> b \<le> 122 \<or>
     b = 45 \<or> b = 95 \<or> b = 46 \<or> b = 47"

definition ResourceName_new :: "8 word list \<Rightarrow> ResourceNameError + ResourceName" where
  "ResourceName_new source =
     (if source = [] then Inl NameEmpty
      else if length source > MAX_RESOURCE_NAME_LEN then Inl NameTooLong
      else if list_all is_admissible_name_byte source then Inr source
      else Inl NameInvalidByte)"

record LockConfig =
  max_clients :: u32
  max_resources :: u32

datatype LockConfigError = ZeroClients | ZeroResources

definition LockConfig_new :: "u32 \<Rightarrow> u32 \<Rightarrow> LockConfigError + LockConfig" where
  "LockConfig_new clients tracked =
     (if clients = 0 then Inl ZeroClients
      else if tracked = 0 then Inl ZeroResources
      else Inr \<lparr>max_clients = clients, max_resources = tracked\<rparr>)"

definition admits_client :: "LockConfig \<Rightarrow> ClientId \<Rightarrow> bool" where
  "admits_client c client \<longleftrightarrow> client < max_clients c"

definition checked_add_lease :: "LogicalTime \<Rightarrow> LeaseDuration \<Rightarrow> LogicalTime option" where
  "checked_add_lease t lease = checked_add t lease"

definition FencingToken_first :: FencingToken where
  "FencingToken_first = 1"

definition FencingToken_successor :: "FencingToken \<Rightarrow> FencingToken option" where
  "FencingToken_successor token = checked_add token 1"

definition Sequence_first :: Sequence where
  "Sequence_first = 1"

definition Sequence_successor :: "Sequence \<Rightarrow> Sequence option" where
  "Sequence_successor s = checked_add s 1"

datatype LockOperation =
    Acquire ResourceName LeaseDuration
  | Renew ResourceName FencingToken LeaseDuration
  | Release ResourceName FencingToken
  | ExpireThrough LogicalTime

definition lock_FNV_OFFSET_BASIS :: "64 word" where
  "lock_FNV_OFFSET_BASIS = 0xcbf29ce484222325"

definition lock_FNV_PRIME :: "64 word" where
  "lock_FNV_PRIME = 0x0100000001b3"

definition Digest_byte :: "8 word \<Rightarrow> 64 word \<Rightarrow> 64 word" where
  "Digest_byte value digest = (digest XOR ucast value) * lock_FNV_PRIME"

definition Digest_word :: "u64 \<Rightarrow> 64 word \<Rightarrow> 64 word" where
  "Digest_word value digest = fold Digest_byte (map (\<lambda>i. word_of_nat (value div 256 ^ i)) [0..<8]) digest"

definition Digest_resource :: "ResourceName \<Rightarrow> 64 word \<Rightarrow> 64 word" where
  "Digest_resource resource digest = fold Digest_byte resource (Digest_byte (word_of_nat (length resource)) digest)"

fun RequestFingerprint_of :: "LockOperation \<Rightarrow> RequestFingerprint" where
  "RequestFingerprint_of (Acquire resource lease) =
     Digest_word lease (Digest_resource resource (Digest_byte 1 lock_FNV_OFFSET_BASIS))"
| "RequestFingerprint_of (Renew resource token lease) =
     Digest_word lease (Digest_word token (Digest_resource resource (Digest_byte 2 lock_FNV_OFFSET_BASIS)))"
| "RequestFingerprint_of (Release resource token) =
     Digest_word token (Digest_resource resource (Digest_byte 3 lock_FNV_OFFSET_BASIS))"
| "RequestFingerprint_of (ExpireThrough horizon) =
     Digest_word horizon (Digest_byte 4 lock_FNV_OFFSET_BASIS)"

record RequestIdentity =
  req_client :: ClientId
  req_epoch :: SessionEpoch
  req_sequence :: Sequence
  req_fingerprint :: RequestFingerprint

datatype LockCommand =
    OpenSession ClientId SessionEpoch
  | Submit RequestIdentity LockOperation

datatype LockRejection =
    LockHeld ClientId FencingToken LogicalTime
  | LockNotHeld
  | NotLockHolder ClientId
  | FencingTokenMismatch FencingToken
  | LeaseOverflow
  | TokenExhausted
  | ResourceCapacityExceeded
  | LogicalTimeNotAdvanced LogicalTime

datatype OperationResult =
    Acquired FencingToken LogicalTime
  | Renewed FencingToken LogicalTime
  | Released
  | Expired u32 LogicalTime
  | OperationRejected LockRejection

datatype RequestRejection =
    ClientOutOfRange
  | SessionNotOpen
  | StaleSession SessionEpoch
  | FutureSession SessionEpoch
  | StaleSequence Sequence
  | SequenceGap Sequence
  | ConflictingRetry
  | FingerprintMismatch RequestFingerprint

datatype LockResponse =
    SessionOpened SessionEpoch
  | OperationResponse OperationResult
  | RequestRejected RequestRejection

datatype ApplyDisposition =
    DispositionSessionOpened | SessionReplaced | SessionAlreadyOpen | Applied | Replayed | DispositionRejected

record ApplyOutcome =
  outcome_response :: LockResponse
  outcome_disposition :: ApplyDisposition

record LockHolderView =
  hv_owner :: ClientId
  hv_token :: FencingToken
  hv_expiry :: LogicalTime

record ResourceStatus =
  rs_resource :: ResourceName
  rs_holder :: "LockHolderView option"
  rs_token_floor :: "FencingToken option"
  rs_logical_time :: LogicalTime

record ResourceView =
  rv_resource :: ResourceName
  rv_floor :: FencingToken
  rv_holder :: "LockHolderView option"

record SessionView =
  sv_client :: ClientId
  sv_epoch :: SessionEpoch
  sv_cached :: "(Sequence \<times> LockOperation \<times> OperationResult) option"

record ServiceView =
  view_resources :: "ResourceView list"
  view_sessions :: "SessionView list"
  view_logical_time :: LogicalTime

record ServiceSummary =
  held_locks :: u32
  tracked_resources :: u32
  summary_logical_time :: LogicalTime

section \<open>The service\<close>

record CachedCompletion =
  cached_sequence :: Sequence
  cached_fingerprint :: RequestFingerprint
  cached_operation :: LockOperation
  cached_result :: OperationResult

record SessionRecord =
  session_epoch :: SessionEpoch
  session_cached :: "CachedCompletion option"

record HeldLock =
  lock_owner :: ClientId
  lock_token :: FencingToken
  lock_expiry :: LogicalTime

record ResourceRecord =
  token_floor :: FencingToken
  lock_holder :: "HeldLock option"

record LockServiceSnapshot =
  lss_logical_time :: LogicalTime
  lss_resources :: "(ResourceName \<times> ResourceRecord) list"
  lss_sessions :: "(ClientId \<times> SessionRecord) list"

record LockService =
  lock_config :: LockConfig
  logical_time :: LogicalTime
  lock_resources :: "(ResourceName \<times> ResourceRecord) list"
  lock_sessions :: "(ClientId \<times> SessionRecord) list"

definition LockService_new :: "LockConfig \<Rightarrow> LockService" where
  "LockService_new c = \<lparr>lock_config = c, logical_time = 0, lock_resources = [], lock_sessions = []\<rparr>"

definition rejected :: "RequestRejection \<Rightarrow> ApplyOutcome" where
  "rejected reason = \<lparr>outcome_response = RequestRejected reason, outcome_disposition = DispositionRejected\<rparr>"

text \<open>The \<open>expect\<close> on the conversion cannot fire below the configured capacity, a \<open>u32\<close>; see the invariant.\<close>

definition bounded_count :: "usize \<Rightarrow> u32" where
  "bounded_count count = count"

definition open_session :: "ClientId \<Rightarrow> SessionEpoch \<Rightarrow> LockService \<Rightarrow> LockService \<times> ApplyOutcome" where
  "open_session client requested s =
     (if \<not> admits_client (lock_config s) client then (s, rejected ClientOutOfRange)
      else
        let disposition =
              (case map_of (lock_sessions s) client of
                 None \<Rightarrow> Inr DispositionSessionOpened
               | Some current \<Rightarrow>
                   if requested < session_epoch current then Inl (StaleSession (session_epoch current))
                   else if requested = session_epoch current then Inr SessionAlreadyOpen
                   else Inr SessionReplaced)
        in case disposition of
             Inl reason \<Rightarrow> (s, rejected reason)
           | Inr d \<Rightarrow>
               (if d \<noteq> SessionAlreadyOpen
                then s\<lparr>lock_sessions := btm_insert client \<lparr>session_epoch = requested, session_cached = None\<rparr>
                         (lock_sessions s)\<rparr>
                else s,
                \<lparr>outcome_response = SessionOpened requested, outcome_disposition = d\<rparr>))"

definition acquire :: "ClientId \<Rightarrow> ResourceName \<Rightarrow> LeaseDuration \<Rightarrow> LockService \<Rightarrow> LockService \<times> OperationResult" where
  "acquire client resource lease s =
     (case checked_add_lease (logical_time s) lease of
        None \<Rightarrow> (s, OperationRejected LeaseOverflow)
      | Some expiry \<Rightarrow>
          let token =
                (case map_of (lock_resources s) resource of
                   Some record \<Rightarrow>
                     (case lock_holder record of
                        Some h \<Rightarrow> Inl (LockHeld (lock_owner h) (lock_token h) (lock_expiry h))
                      | None \<Rightarrow>
                          (case FencingToken_successor (token_floor record) of
                             None \<Rightarrow> Inl TokenExhausted
                           | Some next \<Rightarrow> Inr next))
                 | None \<Rightarrow>
                     if bounded_count (length (lock_resources s)) \<ge> max_resources (lock_config s)
                     then Inl ResourceCapacityExceeded
                     else Inr FencingToken_first)
          in case token of
               Inl rejection \<Rightarrow> (s, OperationRejected rejection)
             | Inr token \<Rightarrow>
                 (s\<lparr>lock_resources := btm_insert resource
                      \<lparr>token_floor = token,
                       lock_holder = Some \<lparr>lock_owner = client, lock_token = token, lock_expiry = expiry\<rparr>\<rparr>
                      (lock_resources s)\<rparr>,
                  Acquired token expiry))"

text \<open>The holder a renewal or a release may act on, or why it may not.\<close>

definition owned_lock :: "ClientId \<Rightarrow> ResourceName \<Rightarrow> FencingToken \<Rightarrow> LockService \<Rightarrow> LockRejection + HeldLock" where
  "owned_lock client resource token s =
     (case map_of (lock_resources s) resource of
        None \<Rightarrow> Inl LockNotHeld
      | Some record \<Rightarrow>
          (case lock_holder record of
             None \<Rightarrow> Inl LockNotHeld
           | Some h \<Rightarrow>
               if lock_owner h \<noteq> client then Inl (NotLockHolder (lock_owner h))
               else if lock_token h \<noteq> token then Inl (FencingTokenMismatch (lock_token h))
               else Inr h))"

definition renew :: "ClientId \<Rightarrow> ResourceName \<Rightarrow> FencingToken \<Rightarrow> LeaseDuration \<Rightarrow> LockService \<Rightarrow> LockService \<times> OperationResult" where
  "renew client resource token lease s =
     (case owned_lock client resource token s of
        Inl rejection \<Rightarrow> (s, OperationRejected rejection)
      | Inr h \<Rightarrow>
          (case checked_add_lease (logical_time s) lease of
             None \<Rightarrow> (s, OperationRejected LeaseOverflow)
           | Some candidate \<Rightarrow>
               let h = (if candidate > lock_expiry h then h\<lparr>lock_expiry := candidate\<rparr> else h)
               in (s\<lparr>lock_resources := btm_modify resource (\<lambda>record. record\<lparr>lock_holder := Some h\<rparr>) (lock_resources s)\<rparr>,
                   Renewed (lock_token h) (lock_expiry h))))"

definition release :: "ClientId \<Rightarrow> ResourceName \<Rightarrow> FencingToken \<Rightarrow> LockService \<Rightarrow> LockService \<times> OperationResult" where
  "release client resource token s =
     (case owned_lock client resource token s of
        Inl rejection \<Rightarrow> (s, OperationRejected rejection)
      | Inr h \<Rightarrow>
          (s\<lparr>lock_resources := btm_modify resource (\<lambda>record. record\<lparr>lock_holder := None\<rparr>) (lock_resources s)\<rparr>,
           Released))"

definition lease_over :: "LogicalTime \<Rightarrow> ResourceRecord \<Rightarrow> bool" where
  "lease_over horizon record \<longleftrightarrow> (case lock_holder record of None \<Rightarrow> False | Some h \<Rightarrow> lock_expiry h \<le> horizon)"

definition expire_through :: "LogicalTime \<Rightarrow> LockService \<Rightarrow> LockService \<times> OperationResult" where
  "expire_through horizon s =
     (if horizon \<le> logical_time s then (s, OperationRejected (LogicalTimeNotAdvanced (logical_time s)))
      else (s\<lparr>lock_resources := btm_map_values
                (\<lambda>record. if lease_over horizon record then record\<lparr>lock_holder := None\<rparr> else record) (lock_resources s),
              logical_time := horizon\<rparr>,
            Expired (length (filter (\<lambda>(resource, record). lease_over horizon record) (lock_resources s))) horizon))"

fun run_operation :: "ClientId \<Rightarrow> LockOperation \<Rightarrow> LockService \<Rightarrow> LockService \<times> OperationResult" where
  "run_operation client (Acquire resource lease) s = acquire client resource lease s"
| "run_operation client (Renew resource token lease) s = renew client resource token lease s"
| "run_operation client (Release resource token) s = release client resource token s"
| "run_operation client (ExpireThrough horizon) s = expire_through horizon s"

text \<open>
  The admission of a sequence number: \<^const>\<open>None\<close> lets the operation run, otherwise the outcome is decided.
  A sequence above the cached one has the cached one's successor below or equal to it, so the successor
  is representable.
\<close>

definition admit_sequence :: "SessionRecord \<Rightarrow> RequestIdentity \<Rightarrow> LockOperation \<Rightarrow> ApplyOutcome option" where
  "admit_sequence session request operation =
     (case session_cached session of
        Some cached \<Rightarrow>
          if req_sequence request < cached_sequence cached then
            Some (rejected (StaleSequence (cached_sequence cached)))
          else if req_sequence request = cached_sequence cached then
            (if operation = cached_operation cached
             then Some \<lparr>outcome_response = OperationResponse (cached_result cached), outcome_disposition = Replayed\<rparr>
             else Some (rejected ConflictingRetry))
          else
            let expected = cached_sequence cached + 1
            in if req_sequence request \<noteq> expected then Some (rejected (SequenceGap expected)) else None
      | None \<Rightarrow>
          if req_sequence request \<noteq> Sequence_first then Some (rejected (SequenceGap Sequence_first)) else None)"

definition submit :: "RequestIdentity \<Rightarrow> LockOperation \<Rightarrow> LockService \<Rightarrow> LockService \<times> ApplyOutcome" where
  "submit request operation s =
     (case map_of (lock_sessions s) (req_client request) of
        None \<Rightarrow>
          (s, rejected (if admits_client (lock_config s) (req_client request) then SessionNotOpen else ClientOutOfRange))
      | Some session \<Rightarrow>
          if req_epoch request < session_epoch session then (s, rejected (StaleSession (session_epoch session)))
          else if req_epoch request > session_epoch session then (s, rejected (FutureSession (session_epoch session)))
          else
            let expected_fingerprint = RequestFingerprint_of operation
            in if req_fingerprint request \<noteq> expected_fingerprint then (s, rejected (FingerprintMismatch expected_fingerprint))
               else case admit_sequence session request operation of
                      Some outcome \<Rightarrow> (s, outcome)
                    | None \<Rightarrow>
                        let (s, result) = run_operation (req_client request) operation s
                        in (s\<lparr>lock_sessions := btm_modify (req_client request)
                                (\<lambda>session. session\<lparr>session_cached := Some
                                   \<lparr>cached_sequence = req_sequence request, cached_fingerprint = expected_fingerprint,
                                    cached_operation = operation, cached_result = result\<rparr>\<rparr>)
                                (lock_sessions s)\<rparr>,
                            \<lparr>outcome_response = OperationResponse result, outcome_disposition = Applied\<rparr>))"

fun lock_apply :: "LockCommand \<Rightarrow> LockService \<Rightarrow> LockService \<times> ApplyOutcome" where
  "lock_apply (OpenSession client epoch) s = open_session client epoch s"
| "lock_apply (Submit request operation) s = submit request operation s"

section \<open>Reads and snapshots\<close>

definition holder_view :: "HeldLock \<Rightarrow> LockHolderView" where
  "holder_view h = \<lparr>hv_owner = lock_owner h, hv_token = lock_token h, hv_expiry = lock_expiry h\<rparr>"

definition lock_status :: "ResourceName \<Rightarrow> LockService \<Rightarrow> ResourceStatus" where
  "lock_status resource s =
     (let record = map_of (lock_resources s) resource
      in \<lparr>rs_resource = resource, rs_holder = map_option holder_view (Option.bind record lock_holder),
          rs_token_floor = map_option token_floor record, rs_logical_time = logical_time s\<rparr>)"

definition lock_summary :: "LockService \<Rightarrow> ServiceSummary" where
  "lock_summary s =
     \<lparr>held_locks = bounded_count (length (filter (\<lambda>(resource, record). lock_holder record \<noteq> None) (lock_resources s))),
      tracked_resources = bounded_count (length (lock_resources s)), summary_logical_time = logical_time s\<rparr>"

definition resource_view :: "ResourceName \<times> ResourceRecord \<Rightarrow> ResourceView" where
  "resource_view entry =
     \<lparr>rv_resource = fst entry, rv_floor = token_floor (snd entry),
      rv_holder = map_option holder_view (lock_holder (snd entry))\<rparr>"

definition session_view :: "ClientId \<times> SessionRecord \<Rightarrow> SessionView" where
  "session_view entry =
     \<lparr>sv_client = fst entry, sv_epoch = session_epoch (snd entry),
      sv_cached = map_option (\<lambda>cached. (cached_sequence cached, cached_operation cached, cached_result cached))
        (session_cached (snd entry))\<rparr>"

definition lock_view :: "LockService \<Rightarrow> ServiceView" where
  "lock_view s =
     \<lparr>view_resources = map resource_view (lock_resources s), view_sessions = map session_view (lock_sessions s),
      view_logical_time = logical_time s\<rparr>"

definition lock_snapshot :: "LockService \<Rightarrow> LockServiceSnapshot" where
  "lock_snapshot s =
     \<lparr>lss_logical_time = logical_time s, lss_resources = lock_resources s, lss_sessions = lock_sessions s\<rparr>"

datatype SnapshotError =
    TooManyResources | TooManySessions | SnapshotClientOutOfRange | HolderOutOfRange | DuplicateResource
  | DuplicateSession | HeldLockExpired | TokenFloorMismatch | CachedFingerprintMismatch

definition check_resource :: "LockConfig \<Rightarrow> LogicalTime \<Rightarrow> ResourceRecord \<Rightarrow> SnapshotError option" where
  "check_resource c t record =
     (case lock_holder record of
        None \<Rightarrow> None
      | Some h \<Rightarrow>
          if \<not> admits_client c (lock_owner h) then Some HolderOutOfRange
          else if lock_expiry h \<le> t then Some HeldLockExpired
          else if lock_token h \<noteq> token_floor record then Some TokenFloorMismatch
          else None)"

definition check_session :: "LockConfig \<Rightarrow> ClientId \<Rightarrow> SessionRecord \<Rightarrow> SnapshotError option" where
  "check_session c client session =
     (if \<not> admits_client c client then Some SnapshotClientOutOfRange
      else case session_cached session of
             None \<Rightarrow> None
           | Some cached \<Rightarrow>
               if cached_fingerprint cached \<noteq> RequestFingerprint_of (cached_operation cached)
               then Some CachedFingerprintMismatch else None)"

text \<open>The two loops of \<open>from_snapshot\<close>: check an entry, insert it, refuse a key already present.\<close>

fun load_entries ::
    "('k::linorder \<Rightarrow> 'v \<Rightarrow> SnapshotError option) \<Rightarrow> SnapshotError \<Rightarrow> ('k \<times> 'v) list \<Rightarrow> ('k \<times> 'v) list \<Rightarrow>
     SnapshotError + ('k \<times> 'v) list" where
  "load_entries check duplicate [] acc = Inr acc"
| "load_entries check duplicate ((k, v) # rest) acc =
     (case check k v of
        Some e \<Rightarrow> Inl e
      | None \<Rightarrow> if map_of acc k \<noteq> None then Inl duplicate
               else load_entries check duplicate rest (btm_insert k v acc))"

definition load_resources ::
    "LockConfig \<Rightarrow> LogicalTime \<Rightarrow> (ResourceName \<times> ResourceRecord) list \<Rightarrow> SnapshotError + (ResourceName \<times> ResourceRecord) list" where
  "load_resources c t entries = load_entries (\<lambda>resource record. check_resource c t record) DuplicateResource entries []"

definition load_sessions ::
    "LockConfig \<Rightarrow> (ClientId \<times> SessionRecord) list \<Rightarrow> SnapshotError + (ClientId \<times> SessionRecord) list" where
  "load_sessions c entries = load_entries (check_session c) DuplicateSession entries []"

definition lock_from_snapshot :: "LockConfig \<Rightarrow> LockServiceSnapshot \<Rightarrow> SnapshotError + LockService" where
  "lock_from_snapshot c snap =
     (if length (lss_resources snap) > max_resources c then Inl TooManyResources
      else if length (lss_sessions snap) > max_clients c then Inl TooManySessions
      else case load_resources c (lss_logical_time snap) (lss_resources snap) of
             Inl e \<Rightarrow> Inl e
           | Inr resources \<Rightarrow>
               (case load_sessions c (lss_sessions snap) of
                  Inl e \<Rightarrow> Inl e
                | Inr sessions \<Rightarrow>
                    Inr \<lparr>lock_config = c, logical_time = lss_logical_time snap, lock_resources = resources,
                         lock_sessions = sessions\<rparr>))"

section \<open>The guarded resource\<close>

record GuardedWrite =
  gw_resource :: ResourceName
  gw_token :: FencingToken
  gw_value :: u64

datatype GuardedRejection = WrongResource | StaleFencingToken FencingToken

record GuardedResource =
  gr_resource :: ResourceName
  highest_accepted :: "FencingToken option"
  gr_value :: u64
  accepted_writes :: u64
  refused_writes :: u64

definition GuardedResource_new :: "ResourceName \<Rightarrow> GuardedResource" where
  "GuardedResource_new resource =
     \<lparr>gr_resource = resource, highest_accepted = None, gr_value = 0, accepted_writes = 0, refused_writes = 0\<rparr>"

definition guarded_apply :: "GuardedWrite \<Rightarrow> GuardedResource \<Rightarrow> GuardedResource \<times> (GuardedRejection + u64)" where
  "guarded_apply write g =
     (if gw_resource write \<noteq> gr_resource g
      then (g\<lparr>refused_writes := sat_add (refused_writes g) 1\<rparr>, Inl WrongResource)
      else case (case highest_accepted g of
                   Some highest \<Rightarrow> if gw_token write < highest then Some highest else None
                 | None \<Rightarrow> None) of
             Some highest \<Rightarrow> (g\<lparr>refused_writes := sat_add (refused_writes g) 1\<rparr>, Inl (StaleFencingToken highest))
           | None \<Rightarrow>
               (g\<lparr>highest_accepted := Some (gw_token write), gr_value := gw_value write,
                  accepted_writes := sat_add (accepted_writes g) 1\<rparr>, Inr (gw_value write)))"

end
