(* ===== verification/Lock_Safety.thy ===== *)
theory Lock_Safety
  imports Fenced_Lock Runs "HOL-Library.Multiset"
begin

text \<open>
  What the lock service guarantees over every run: its invariant, fencing tokens that only grow, leases
  that only their owner or logical time ends, operations that take effect once however often they are
  retried, and snapshots that restore the service exactly.
\<close>

section \<open>The invariant\<close>

text \<open>What the types of a command guarantee: leases and tokens are nonzero.\<close>

fun operation_wf :: "LockOperation \<Rightarrow> bool" where
  "operation_wf (Acquire resource lease) = (lease > 0)"
| "operation_wf (Renew resource token lease) = (lease > 0)"
| "operation_wf _ = True"

fun command_wf :: "LockCommand \<Rightarrow> bool" where
  "command_wf (OpenSession client epoch) = True"
| "command_wf (Submit request operation) = operation_wf operation"

definition record_ok :: "LockConfig \<Rightarrow> LogicalTime \<Rightarrow> ResourceRecord \<Rightarrow> bool" where
  "record_ok c t record \<longleftrightarrow>
     0 < token_floor record \<and> token_floor record \<le> u64_max \<and>
     (\<forall>h. lock_holder record = Some h \<longrightarrow>
        admits_client c (lock_owner h) \<and> t < lock_expiry h \<and> lock_expiry h \<le> u64_max \<and> lock_token h = token_floor record)"

definition session_ok :: "LockConfig \<Rightarrow> ClientId \<Rightarrow> SessionRecord \<Rightarrow> bool" where
  "session_ok c client session \<longleftrightarrow> admits_client c client \<and>
     (\<forall>cached. session_cached session = Some cached \<longrightarrow>
        cached_fingerprint cached = RequestFingerprint_of (cached_operation cached))"

definition lock_inv :: "LockService \<Rightarrow> bool" where
  "lock_inv s \<longleftrightarrow>
     btm_wf (lock_resources s) \<and> btm_wf (lock_sessions s) \<and>
     length (lock_resources s) \<le> max_resources (lock_config s) \<and>
     (\<forall>r record. map_of (lock_resources s) r = Some record \<longrightarrow> record_ok (lock_config s) (logical_time s) record) \<and>
     (\<forall>client session. map_of (lock_sessions s) client = Some session \<longrightarrow> session_ok (lock_config s) client session)"

lemma lock_inv_new: "lock_inv (LockService_new c)"
  by (simp add: lock_inv_def LockService_new_def)

text \<open>Sessions are keyed by admitted clients, so there are at most that many.\<close>

lemma lock_sessions_bounded: "lock_inv s \<Longrightarrow> length (lock_sessions s) \<le> max_clients (lock_config s)"
proof -
  assume inv: "lock_inv s"
  have "set (map fst (lock_sessions s)) \<subseteq> {..<max_clients (lock_config s)}"
  proof
    fix c assume "c \<in> set (map fst (lock_sessions s))"
    then obtain session where "map_of (lock_sessions s) c = Some session" by (force simp: map_of_eq_Some_iff dest: weak_map_of_SomeI)
    with inv show "c \<in> {..<max_clients (lock_config s)}" by (auto simp: lock_inv_def session_ok_def admits_client_def)
  qed
  moreover have "distinct (map fst (lock_sessions s))" using inv by (simp add: lock_inv_def btm_wf_distinct)
  ultimately show ?thesis by (metis card_lessThan card_mono distinct_card finite_lessThan length_map)
qed

text \<open>What an operation of an admitted client leaves of the service.\<close>

lemma owned_lock_Inr:
  "owned_lock client r token s = Inr h \<longleftrightarrow>
     (\<exists>record. map_of (lock_resources s) r = Some record \<and> lock_holder record = Some h \<and>
        lock_owner h = client \<and> lock_token h = token)"
  by (auto simp: owned_lock_def split: option.splits)

definition holder_of :: "LockService \<Rightarrow> ResourceName \<Rightarrow> HeldLock option" where
  "holder_of s r = Option.bind (map_of (lock_resources s) r) lock_holder"

definition floor_of :: "LockService \<Rightarrow> ResourceName \<Rightarrow> FencingToken" where
  "floor_of s r = (case map_of (lock_resources s) r of None \<Rightarrow> 0 | Some record \<Rightarrow> token_floor record)"

text \<open>The effects of the four operations, by result.\<close>

lemma acquire_cases:
  obtains (refused) e where "acquire client r lease s = (s, OperationRejected e)"
  | (acquired) token where "acquire client r lease s =
        (s\<lparr>lock_resources := btm_insert r \<lparr>token_floor = token, lock_holder = Some \<lparr>lock_owner = client, lock_token = token,
           lock_expiry = logical_time s + lease\<rparr>\<rparr> (lock_resources s)\<rparr>, Acquired token (logical_time s + lease))"
      "logical_time s + lease \<le> u64_max" "token = Suc (floor_of s r)" "token \<le> u64_max" "holder_of s r = None"
      "map_of (lock_resources s) r = None \<Longrightarrow> length (lock_resources s) < max_resources (lock_config s)"
proof (cases "checked_add_lease (logical_time s) lease")
  case None
  then show ?thesis using refused by (simp add: acquire_def)
next
  case (Some expiry)
  then have expiry: "expiry = logical_time s + lease" "logical_time s + lease \<le> u64_max"
    by (auto simp: checked_add_lease_def checked_add_def split: if_splits)
  show ?thesis
  proof (cases "map_of (lock_resources s) r")
    case None
    then show ?thesis
      using Some expiry refused acquired
      by (cases "length (lock_resources s) \<ge> max_resources (lock_config s)")
        (auto simp: acquire_def bounded_count_def FencingToken_first_def floor_of_def holder_of_def u64_max_def)
  next
    case rec: (Some rc)
    show ?thesis
    proof (cases "lock_holder rc")
      case None
      show ?thesis
      proof (cases "token_floor rc + 1 \<le> u64_max")
        case True
        show ?thesis
          by (rule acquired [of "Suc (token_floor rc)"])
            (use True Some expiry None rec in \<open>simp_all add: acquire_def FencingToken_successor_def checked_add_def
              floor_of_def holder_of_def\<close>)
      qed (use refused Some rec None in \<open>simp add: acquire_def FencingToken_successor_def checked_add_def\<close>)
    qed (use refused Some rec in \<open>simp add: acquire_def\<close>)
  qed
qed

lemma renew_cases:
  obtains (refused) e where "renew client r token lease s = (s, OperationRejected e)"
  | (renewed) h where "renew client r token lease s =
        (s\<lparr>lock_resources := btm_modify r (\<lambda>record. record\<lparr>lock_holder := Some (h\<lparr>lock_expiry := max (logical_time s + lease) (lock_expiry h)\<rparr>)\<rparr>)
           (lock_resources s)\<rparr>, Renewed token (max (logical_time s + lease) (lock_expiry h)))"
      "holder_of s r = Some h" "lock_owner h = client" "lock_token h = token" "logical_time s + lease \<le> u64_max"
proof (cases "owned_lock client r token s")
  case (Inl e)
  then show ?thesis using refused by (simp add: renew_def)
next
  case (Inr h)
  then have h: "holder_of s r = Some h" "lock_owner h = client" "lock_token h = token"
    by (auto simp: owned_lock_Inr holder_of_def)
  have same: "lock_expiry h \<ge> logical_time s + lease \<Longrightarrow> h\<lparr>lock_expiry := max (logical_time s + lease) (lock_expiry h)\<rparr> = h"
    by simp
  show ?thesis
  proof (cases "logical_time s + lease \<le> u64_max")
    case True
    then show ?thesis
      using renewed [of h] h Inr same by (auto simp: renew_def checked_add_lease_def checked_add_def max_def split: if_splits)
  qed (use refused Inr in \<open>simp add: renew_def checked_add_lease_def checked_add_def\<close>)
qed

lemma release_cases:
  obtains (refused) e where "release client r token s = (s, OperationRejected e)"
  | (released) h where "release client r token s =
        (s\<lparr>lock_resources := btm_modify r (\<lambda>record. record\<lparr>lock_holder := None\<rparr>) (lock_resources s)\<rparr>, Released)"
      "holder_of s r = Some h" "lock_owner h = client" "lock_token h = token"
proof (cases "owned_lock client r token s")
  case (Inl e)
  then show ?thesis using refused by (simp add: release_def)
next
  case (Inr h)
  then have "holder_of s r = Some h" "lock_owner h = client" "lock_token h = token"
    by (auto simp: owned_lock_Inr holder_of_def)
  with Inr show ?thesis using released [of h] by (simp add: release_def)
qed

lemma run_operation_config [simp]: "lock_config (fst (run_operation client opn s)) = lock_config s"
  by (cases opn) (auto simp: acquire_def renew_def release_def expire_through_def Let_def split: option.splits sum.splits)

lemma run_operation_sessions [simp]: "lock_sessions (fst (run_operation client opn s)) = lock_sessions s"
  by (cases opn) (auto simp: acquire_def renew_def release_def expire_through_def Let_def split: option.splits sum.splits)

lemma record_ok_later:
  "record_ok c t record \<Longrightarrow> \<not> lease_over horizon record \<Longrightarrow> record_ok c horizon record"
  by (auto simp: record_ok_def lease_over_def)

lemma record_ok_free: "record_ok c t record \<Longrightarrow> record_ok c t' (record\<lparr>lock_holder := None\<rparr>)"
  by (simp add: record_ok_def)

lemma record_ok_expire:
  "record_ok c t rc \<Longrightarrow> record_ok c horizon (if lease_over horizon rc then rc\<lparr>lock_holder := None\<rparr> else rc)"
  by (simp add: record_ok_later record_ok_free)

lemma views_insert [simp]:
  "floor_of (s\<lparr>lock_resources := btm_insert r rc (lock_resources s)\<rparr>) r' = (if r' = r then token_floor rc else floor_of s r')"
  "holder_of (s\<lparr>lock_resources := btm_insert r rc (lock_resources s)\<rparr>) r' = (if r' = r then lock_holder rc else holder_of s r')"
  by (simp_all add: floor_of_def holder_of_def)

lemma views_modify [simp]:
  "floor_of (s\<lparr>lock_resources := btm_modify r (lock_holder_update f) (lock_resources s)\<rparr>) r' = floor_of s r'"
  "holder_of (s\<lparr>lock_resources := btm_modify r (lock_holder_update (\<lambda>_. h)) (lock_resources s)\<rparr>) r' =
     (if r' = r \<and> map_of (lock_resources s) r \<noteq> None then h else holder_of s r')"
  by (auto simp: floor_of_def holder_of_def split: option.splits)

lemma views_expire:
  "horizon > logical_time s \<Longrightarrow> floor_of (fst (expire_through horizon s)) r = floor_of s r"
  "horizon > logical_time s \<Longrightarrow> holder_of (fst (expire_through horizon s)) r =
     (case holder_of s r of None \<Rightarrow> None | Some h \<Rightarrow> if lock_expiry h \<le> horizon then None else Some h)"
  by (cases "map_of (lock_resources s) r"; auto simp: floor_of_def holder_of_def expire_through_def lease_over_def split: option.splits)+

lemma holder_of_Some: "holder_of s r = Some h \<longleftrightarrow> (\<exists>rc. map_of (lock_resources s) r = Some rc \<and> lock_holder rc = Some h)"
  by (auto simp: holder_of_def bind_eq_Some_conv)

lemma lock_invD:
  assumes "lock_inv s"
  shows "map_of (lock_resources s) r = Some rc \<Longrightarrow> record_ok (lock_config s) (logical_time s) rc"
    and "map_of (lock_sessions s) client = Some session \<Longrightarrow> session_ok (lock_config s) client session"
    and "btm_wf (lock_resources s)" and "btm_wf (lock_sessions s)"
    and "length (lock_resources s) \<le> max_resources (lock_config s)"
  using assms unfolding lock_inv_def by blast+

lemma lock_inv_resources:
  assumes "lock_inv s" "btm_wf m" "length m \<le> max_resources (lock_config s)"
    and "\<And>r rc. map_of m r = Some rc \<Longrightarrow> record_ok (lock_config s) t rc"
  shows "lock_inv (s\<lparr>lock_resources := m, logical_time := t\<rparr>)"
  using assms by (auto simp: lock_inv_def)

lemma acquire_inv:
  assumes "lock_inv s" "admits_client (lock_config s) client" "lease > 0"
  shows "lock_inv (fst (acquire client r lease s))"
proof (cases rule: acquire_cases [of client r lease s])
  case (acquired token)
  note D = lock_invD [OF assms(1)]
  let ?m = "btm_insert r \<lparr>token_floor = token, lock_holder = Some \<lparr>lock_owner = client, lock_token = token,
           lock_expiry = logical_time s + lease\<rparr>\<rparr> (lock_resources s)"
  have "length ?m \<le> max_resources (lock_config s)"
    using D(3,5) acquired(6)
    by (cases "map_of (lock_resources s) r")
      (simp_all add: length_btm_insert_fresh length_btm_insert_present map_of_mem_keys map_of_eq_None_iff)
  then have "lock_inv (s\<lparr>lock_resources := ?m, logical_time := logical_time s\<rparr>)"
    by (rule lock_inv_resources [OF assms(1) btm_wf_insert [OF D(3)]])
      (use D(1) acquired assms in \<open>auto simp: record_ok_def split: if_splits\<close>)
  with acquired(1) show ?thesis by simp
qed (use assms in simp)

lemma modify_inv:
  assumes "lock_inv s" "\<And>rc. record_ok (lock_config s) (logical_time s) rc \<Longrightarrow> map_of (lock_resources s) r = Some rc \<Longrightarrow>
    record_ok (lock_config s) (logical_time s) (f rc)"
  shows "lock_inv (s\<lparr>lock_resources := btm_modify r f (lock_resources s)\<rparr>)"
proof -
  note D = lock_invD [OF assms(1)]
  have "lock_inv (s\<lparr>lock_resources := btm_modify r f (lock_resources s), logical_time := logical_time s\<rparr>)"
    by (rule lock_inv_resources [OF assms(1)])
      (use D(3,5) btm.modify_all [where P = "\<lambda>_. record_ok (lock_config s) (logical_time s)", OF D(3) D(1) assms(2)] in auto)
  then show ?thesis by simp
qed

lemma renew_inv:
  assumes "lock_inv s"
  shows "lock_inv (fst (renew client r token lease s))"
proof (cases rule: renew_cases [of client r token lease s])
  case (renewed h)
  show ?thesis unfolding renewed(1) fst_conv
    by (rule modify_inv [OF assms]) (use renewed in \<open>auto simp: record_ok_def holder_of_Some\<close>)
qed (use assms in simp)

lemma release_inv:
  assumes "lock_inv s"
  shows "lock_inv (fst (release client r token s))"
proof (cases rule: release_cases [of client r token s])
  case (released h)
  show ?thesis unfolding released(1) fst_conv
    by (rule modify_inv [OF assms]) (simp add: record_ok_free)
qed (use assms in simp)

lemma expire_inv:
  assumes "lock_inv s"
  shows "lock_inv (fst (expire_through horizon s))"
proof (cases "horizon \<le> logical_time s")
  case False
  note D = lock_invD [OF assms(1)]
  let ?free = "\<lambda>rc. if lease_over horizon rc then rc\<lparr>lock_holder := None\<rparr> else rc"
  have "lock_inv (s\<lparr>lock_resources := btm_map_values ?free (lock_resources s), logical_time := horizon\<rparr>)"
    by (rule lock_inv_resources [OF assms])
      (use D record_ok_expire [OF D(1)] in auto)
  then show ?thesis using False by (simp add: expire_through_def)
qed (use assms in \<open>simp add: expire_through_def\<close>)

lemma run_operation_inv:
  "lock_inv s \<Longrightarrow> admits_client (lock_config s) client \<Longrightarrow> operation_wf opn \<Longrightarrow> lock_inv (fst (run_operation client opn s))"
  by (cases opn) (simp_all add: acquire_inv renew_inv release_inv expire_inv)

lemma lock_inv_sessions:
  assumes "lock_inv s" "btm_wf m" "\<And>client session. map_of m client = Some session \<Longrightarrow> session_ok (lock_config s) client session"
  shows "lock_inv (s\<lparr>lock_sessions := m\<rparr>)"
  using assms by (auto simp: lock_inv_def)

text \<open>A command is refused, replayed, opens a session, or runs its operation once.\<close>

lemma submit_cases:
  obtains (same) "fst (submit request opn s) = s" "outcome_disposition (snd (submit request opn s)) \<noteq> Applied"
  | (ran) session s' result where "map_of (lock_sessions s) (req_client request) = Some session"
      "req_epoch request = session_epoch session" "req_fingerprint request = RequestFingerprint_of opn"
      "admit_sequence session request opn = None" "run_operation (req_client request) opn s = (s', result)"
      "submit request opn s =
         (s'\<lparr>lock_sessions := btm_modify (req_client request) (\<lambda>session. session\<lparr>session_cached := Some
              \<lparr>cached_sequence = req_sequence request, cached_fingerprint = RequestFingerprint_of opn,
               cached_operation = opn, cached_result = result\<rparr>\<rparr>) (lock_sessions s)\<rparr>,
          \<lparr>outcome_response = OperationResponse result, outcome_disposition = Applied\<rparr>)"
proof (cases "map_of (lock_sessions s) (req_client request)")
  case None
  then show ?thesis using same by (simp add: submit_def rejected_def)
next
  case (Some session)
  show ?thesis
  proof (cases "req_epoch request = session_epoch session \<and> req_fingerprint request = RequestFingerprint_of opn \<and>
      admit_sequence session request opn = None")
    case True
    obtain s' result where r: "run_operation (req_client request) opn s = (s', result)" by fastforce
    have "lock_sessions s' = lock_sessions s" using run_operation_sessions [of "req_client request" opn s] r by simp
    then show ?thesis using True Some r by (intro ran [of session s' result]) (auto simp: submit_def Let_def)
  next
    case False
    then show ?thesis using Some
      by (intro same) (auto simp: submit_def Let_def rejected_def admit_sequence_def split: option.splits if_splits)
  qed
qed

lemma lock_apply_inv: "lock_inv s \<Longrightarrow> command_wf c \<Longrightarrow> lock_inv (fst (lock_apply c s))"
proof (cases c)
  case (OpenSession client epoch)
  assume inv: "lock_inv s"
  have "admits_client (lock_config s) client \<Longrightarrow>
      lock_inv (s\<lparr>lock_sessions := btm_insert client \<lparr>session_epoch = epoch, session_cached = None\<rparr> (lock_sessions s)\<rparr>)"
    by (rule lock_inv_sessions [OF inv]) (use lock_invD [OF inv] in \<open>auto simp: session_ok_def split: if_splits\<close>)
  then show ?thesis using OpenSession inv by (simp add: open_session_def Let_def split: option.split sum.split)
next
  case (Submit request opn)
  assume inv: "lock_inv s" and wf: "command_wf c"
  show ?thesis
  proof (cases rule: submit_cases [of request opn s])
    case same
    then show ?thesis using Submit inv by simp
  next
    case (ran session s' result)
    have "admits_client (lock_config s) (req_client request)" using lock_invD(2) [OF inv ran(1)] by (simp add: session_ok_def)
    then have "lock_inv s'" using run_operation_inv [OF inv, of "req_client request" opn] wf Submit ran(5) by simp
    moreover have "lock_config s' = lock_config s" using run_operation_config [of "req_client request" opn s] ran(5) by simp
    ultimately show ?thesis unfolding Submit lock_apply.simps ran(6) fst_conv
      by (intro lock_inv_sessions)
        (use lock_invD(2,4) [OF inv] in \<open>auto simp: session_ok_def split: if_splits\<close>)
  qed
qed

section \<open>Runs\<close>

definition lock_step :: "LockCommand \<Rightarrow> LockService \<Rightarrow> LockService \<times> (LockCommand \<times> ApplyOutcome) list" where
  "lock_step c s = (let (s', out) = lock_apply c s in (s', [(c, out)]))"

lemma lock_step_eq: "lock_step c s = (fst (lock_apply c s), [(c, snd (lock_apply c s))])"
  by (simp add: lock_step_def case_prod_unfold Let_def)

text \<open>The tokens issued for a resource in a history of commands and outcomes, in order.\<close>

fun issued_by :: "ResourceName \<Rightarrow> LockCommand \<times> ApplyOutcome \<Rightarrow> FencingToken option" where
  "issued_by r (Submit request (Acquire r' lease), out) =
     (if r' = r \<and> outcome_disposition out = Applied
      then case outcome_response out of OperationResponse (Acquired token expiry) \<Rightarrow> Some token | _ \<Rightarrow> None else None)"
| "issued_by r _ = None"

definition issued :: "ResourceName \<Rightarrow> (LockCommand \<times> ApplyOutcome) list \<Rightarrow> FencingToken list" where
  "issued r history = List.map_filter (issued_by r) history"

text \<open>The owner of a lock gave it up in a history.\<close>

definition given_up :: "ResourceName \<Rightarrow> HeldLock \<Rightarrow> (LockCommand \<times> ApplyOutcome) list \<Rightarrow> bool" where
  "given_up r h history \<longleftrightarrow>
     (\<exists>request out. (Submit request (Release r (lock_token h)), out) \<in> set history \<and> req_client request = lock_owner h \<and>
        out = \<lparr>outcome_response = OperationResponse Released, outcome_disposition = Applied\<rparr>)"

definition same_tenure :: "HeldLock \<Rightarrow> HeldLock option \<Rightarrow> bool" where
  "same_tenure h now \<longleftrightarrow>
     (\<exists>h'. now = Some h' \<and> lock_owner h' = lock_owner h \<and> lock_token h' = lock_token h \<and> lock_expiry h \<le> lock_expiry h')"

fun lock_evolves :: "LockService \<Rightarrow> LockService \<times> (LockCommand \<times> ApplyOutcome) list \<Rightarrow> bool" where
  "lock_evolves s (s', history) \<longleftrightarrow>
     lock_inv s' \<and> lock_config s' = lock_config s \<and> logical_time s \<le> logical_time s' \<and>
     (\<forall>r. floor_of s r \<le> floor_of s' r \<and> sorted_wrt (<) (issued r history) \<and>
        (\<forall>token\<in>set (issued r history). floor_of s r < token \<and> token \<le> floor_of s' r)) \<and>
     (\<forall>r h. holder_of s r = Some h \<longrightarrow>
        same_tenure h (holder_of s' r) \<or> given_up r h history \<or> lock_expiry h \<le> logical_time s')"

lemma issued_simps [simp]:
  "issued r [] = []" "issued r (xs @ ys) = issued r xs @ issued r ys"
  "issued r (x # xs) = (case issued_by r x of None \<Rightarrow> [] | Some t \<Rightarrow> [t]) @ issued r xs"
  by (simp_all add: issued_def List.map_filter_def split: option.splits)

lemma same_tenure_refl [simp]: "same_tenure h (Some h)"
  by (simp add: same_tenure_def)

lemma lock_evolves_refl: "lock_inv s \<Longrightarrow> lock_evolves s (s, [])"
  by simp

lemma lock_evolves_tenure:
  assumes "same_tenure h (holder_of b r) \<or> given_up r h xs \<or> lock_expiry h \<le> logical_time b"
    and "\<And>h'. holder_of b r = Some h' \<Longrightarrow>
      same_tenure h' (holder_of c r) \<or> given_up r h' ys \<or> lock_expiry h' \<le> logical_time c"
    and "logical_time b \<le> logical_time c"
  shows "same_tenure h (holder_of c r) \<or> given_up r h (xs @ ys) \<or> lock_expiry h \<le> logical_time c"
proof (cases "same_tenure h (holder_of b r)")
  case True
  then obtain h' where h': "holder_of b r = Some h'" "lock_owner h' = lock_owner h" "lock_token h' = lock_token h"
    "lock_expiry h \<le> lock_expiry h'" by (auto simp: same_tenure_def)
  from assms(2) [OF h'(1)] h' show ?thesis unfolding same_tenure_def given_up_def by fastforce
next
  case False
  with assms show ?thesis unfolding given_up_def by auto
qed

lemma lock_evolves_trans:
  assumes "lock_evolves a (b, xs)" "lock_evolves b (c, ys)"
  shows "lock_evolves a (c, xs @ ys)"
proof -
  have tokens: "floor_of a r \<le> floor_of c r \<and> sorted_wrt (<) (issued r (xs @ ys)) \<and>
      (\<forall>token\<in>set (issued r (xs @ ys)). floor_of a r < token \<and> token \<le> floor_of c r)" for r
  proof -
    have x: "floor_of a r \<le> floor_of b r" "sorted_wrt (<) (issued r xs)"
      "\<forall>token\<in>set (issued r xs). floor_of a r < token \<and> token \<le> floor_of b r" using assms(1) by auto
    have y: "floor_of b r \<le> floor_of c r" "sorted_wrt (<) (issued r ys)"
      "\<forall>token\<in>set (issued r ys). floor_of b r < token \<and> token \<le> floor_of c r" using assms(2) by auto
    from x y show ?thesis by (fastforce simp: sorted_wrt_append)
  qed
  have tenures: "same_tenure h (holder_of c r) \<or> given_up r h (xs @ ys) \<or> lock_expiry h \<le> logical_time c"
    if "holder_of a r = Some h" for r h
    by (rule lock_evolves_tenure [of _ b]) (use assms that in auto)
  have rest: "lock_inv c" "lock_config c = lock_config a" "logical_time a \<le> logical_time c" using assms by auto
  from tokens tenures rest show ?thesis unfolding lock_evolves.simps by blast
qed

text \<open>One operation.\<close>

lemma run_operation_effect:
  assumes "run_operation client opn s = (s', result)"
  shows "logical_time s \<le> logical_time s'" and "floor_of s r \<le> floor_of s' r"
    and "opn = Acquire r lease \<Longrightarrow> result = Acquired token expiry \<Longrightarrow> floor_of s r < token \<and> token = floor_of s' r"
    and "holder_of s r = Some h \<Longrightarrow> same_tenure h (holder_of s' r) \<or>
      opn = Release r (lock_token h) \<and> client = lock_owner h \<and> result = Released \<or> lock_expiry h \<le> logical_time s'"
proof -
  have "logical_time s \<le> logical_time s' \<and> floor_of s r \<le> floor_of s' r \<and>
    (\<forall>lease token expiry. opn = Acquire r lease \<longrightarrow> result = Acquired token expiry \<longrightarrow> floor_of s r < token \<and> token = floor_of s' r) \<and>
    (\<forall>h. holder_of s r = Some h \<longrightarrow> same_tenure h (holder_of s' r) \<or>
      opn = Release r (lock_token h) \<and> client = lock_owner h \<and> result = Released \<or> lock_expiry h \<le> logical_time s')"
  proof (cases opn)
    case (Acquire r' lease)
    show ?thesis
      by (cases rule: acquire_cases [of client r' lease s]) (use assms Acquire in auto)
  next
    case (Renew r' token lease)
    show ?thesis
      by (cases rule: renew_cases [of client r' token lease s]) (use assms Renew in \<open>auto simp: same_tenure_def\<close>)
  next
    case (Release r' token)
    show ?thesis
      by (cases rule: release_cases [of client r' token s]) (use assms Release in \<open>auto split: if_splits\<close>)
  next
    case (ExpireThrough horizon)
    then show ?thesis
      using assms views_expire [of s horizon r] by (cases "horizon \<le> logical_time s") (auto simp: expire_through_def)
  qed
  then show "logical_time s \<le> logical_time s'" "floor_of s r \<le> floor_of s' r"
    "opn = Acquire r lease \<Longrightarrow> result = Acquired token expiry \<Longrightarrow> floor_of s r < token \<and> token = floor_of s' r"
    "holder_of s r = Some h \<Longrightarrow> same_tenure h (holder_of s' r) \<or>
      opn = Release r (lock_token h) \<and> client = lock_owner h \<and> result = Released \<or> lock_expiry h \<le> logical_time s'"
    by blast+
qed

lemma views_sessions [simp]:
  "floor_of (s\<lparr>lock_sessions := m\<rparr>) r = floor_of s r" "holder_of (s\<lparr>lock_sessions := m\<rparr>) r = holder_of s r"
  by (simp_all add: floor_of_def holder_of_def)

lemma issued_by_not_applied: "outcome_disposition out \<noteq> Applied \<Longrightarrow> issued_by r (c, out) = None"
  by (cases "(r, c, out)" rule: issued_by.cases) auto

lemma open_session_views:
  "logical_time (fst (open_session client epoch s)) = logical_time s"
  "lock_config (fst (open_session client epoch s)) = lock_config s"
  "floor_of (fst (open_session client epoch s)) r = floor_of s r"
  "holder_of (fst (open_session client epoch s)) r = holder_of s r"
  by (auto simp: open_session_def Let_def split: option.split sum.split)

lemma issued_by_applied:
  "issued_by r (Submit request opn, \<lparr>outcome_response = OperationResponse result, outcome_disposition = Applied\<rparr>) = Some token \<longleftrightarrow>
     (\<exists>lease expiry. opn = Acquire r lease \<and> result = Acquired token expiry)"
  by (cases opn; cases result) auto

lemma lock_apply_evolves:
  assumes "command_wf c" "lock_inv s"
  shows "lock_evolves s (lock_step c s)"
proof (cases c)
  case (OpenSession client epoch)
  then show ?thesis
    using lock_apply_inv [OF assms(2,1)] by (simp add: lock_step_def Let_def case_prod_unfold open_session_views)
next
  case (Submit request opn)
  have inv: "lock_inv (fst (submit request opn s))" using lock_apply_inv [OF assms(2,1)] Submit by simp
  show ?thesis
  proof (cases rule: submit_cases [of request opn s])
    case same
    then show ?thesis using assms Submit
      by (simp add: lock_step_def Let_def case_prod_unfold issued_by_not_applied)
  next
    case (ran session s' result)
    note E = run_operation_effect [OF ran(5)]
    let ?out = "\<lparr>outcome_response = OperationResponse result, outcome_disposition = Applied\<rparr>"
    have tokens: "floor_of s r < token \<and> token = floor_of s' r" if "issued_by r (Submit request opn, ?out) = Some token" for r token
      using that E(3) [of r] unfolding issued_by_applied by blast
    have "same_tenure h (holder_of s' r) \<or> given_up r h [(c, ?out)] \<or> lock_expiry h \<le> logical_time s'"
      if "holder_of s r = Some h" for r h
      using E(4) [OF that] Submit unfolding given_up_def by fastforce
    moreover have "lock_config s' = lock_config s" using run_operation_config [of "req_client request" opn s] ran(5) by simp
    ultimately show ?thesis
      using inv E(1) E(2) tokens Submit ran(6)
      by (auto simp: lock_step_def Let_def case_prod_unfold split: option.split)
  qed
qed

interpretation lock_steps: step_contract lock_step command_wf lock_inv lock_evolves
proof (unfold_locales, goal_cases)
  case (2 s s' outs)
  then show ?case by simp
qed (fact lock_apply_evolves lock_evolves_refl lock_evolves_trans)+

section \<open>Retries\<close>

fun command_client :: "LockCommand \<Rightarrow> ClientId" where
  "command_client (OpenSession client epoch) = client"
| "command_client (Submit request opn) = req_client request"

lemma lock_apply_other_session:
  "command_client c \<noteq> client \<Longrightarrow> map_of (lock_sessions (fst (lock_apply c s))) client = map_of (lock_sessions s) client"
proof (cases c)
  case (Submit request opn)
  assume "command_client c \<noteq> client"
  then show ?thesis using Submit
    by (cases rule: submit_cases [of request opn s]) simp_all
qed (auto simp: open_session_def Let_def split: option.split sum.split)

lemma run_other_sessions:
  "\<forall>c\<in>set cs. command_client c \<noteq> client \<Longrightarrow> run_steps lock_step cs s = (s', history) \<Longrightarrow>
   map_of (lock_sessions s') client = map_of (lock_sessions s) client"
proof (induction cs arbitrary: s history)
  case (Cons c cs)
  obtain t hist where t: "run_steps lock_step cs (fst (lock_apply c s)) = (t, hist)" by fastforce
  with Cons.prems(2) have "t = s'" by (simp add: lock_step_eq [of c s])
  then have "run_steps lock_step cs (fst (lock_apply c s)) = (s', hist)" using t by simp
  from Cons.IH [OF _ this] Cons.prems(1) lock_apply_other_session [of c client s] show ?case by simp
qed simp

lemma submit_completed:
  assumes "map_of (lock_sessions s) (req_client request) = Some session" "session_epoch session = req_epoch request"
    and "req_fingerprint request = RequestFingerprint_of opn"
    and "session_cached session = Some cached" "cached_sequence cached = req_sequence request" "cached_operation cached = opn"
  shows "submit request opn s = (s, \<lparr>outcome_response = OperationResponse (cached_result cached), outcome_disposition = Replayed\<rparr>)"
  using assms by (simp add: submit_def Let_def admit_sequence_def)

text \<open>After a request was applied or replayed its completion is the cached one of its session.\<close>

lemma submit_caches:
  assumes "submit request opn s = (s', out)" "outcome_disposition out = Applied \<or> outcome_disposition out = Replayed"
  obtains session cached where "map_of (lock_sessions s') (req_client request) = Some session"
    "session_epoch session = req_epoch request" "req_fingerprint request = RequestFingerprint_of opn"
    "session_cached session = Some cached" "cached_sequence cached = req_sequence request" "cached_operation cached = opn"
    "outcome_response out = OperationResponse (cached_result cached)"
proof (cases rule: submit_cases [of request opn s])
  case same
  with assms have r: "outcome_disposition out = Replayed" "s' = s" by simp_all
  obtain session where session: "map_of (lock_sessions s) (req_client request) = Some session"
    using assms(1) r by (cases "map_of (lock_sessions s) (req_client request)") (auto simp: submit_def rejected_def)
  with assms(1) r(1) have p: "req_epoch request = session_epoch session" "req_fingerprint request = RequestFingerprint_of opn"
    "admit_sequence session request opn = Some out"
    by (auto simp: submit_def rejected_def Let_def split: if_splits option.splits prod.splits)
  then obtain cached where "session_cached session = Some cached" "cached_sequence cached = req_sequence request"
      "cached_operation cached = opn" "outcome_response out = OperationResponse (cached_result cached)"
    using r(1) by (auto simp: admit_sequence_def rejected_def Let_def split: if_splits option.splits)
  then show ?thesis using that session p r by metis
next
  case (ran session t result)
  let ?cached = "\<lparr>cached_sequence = req_sequence request, cached_fingerprint = RequestFingerprint_of opn,
               cached_operation = opn, cached_result = result\<rparr>"
  show ?thesis
    by (rule that [of "session\<lparr>session_cached := Some ?cached\<rparr>" ?cached]) (use ran assms in auto)
qed

section \<open>Snapshots\<close>

lemma check_resource_None:
  "check_resource c t rc = None \<longleftrightarrow>
     (\<forall>h. lock_holder rc = Some h \<longrightarrow> admits_client c (lock_owner h) \<and> t < lock_expiry h \<and> lock_token h = token_floor rc)"
  by (auto simp: check_resource_def split: option.splits)

lemma check_session_None: "check_session c client session = None \<longleftrightarrow> session_ok c client session"
  by (auto simp: session_ok_def check_session_def split: option.splits)

lemma load_entries_some:
  "\<forall>(k, v)\<in>set xs. check k v = None \<Longrightarrow> distinct (map fst xs) \<Longrightarrow> fst ` set acc \<inter> fst ` set xs = {} \<Longrightarrow>
   \<exists>m. load_entries check dup xs acc = Inr m"
proof (induction check dup xs acc rule: load_entries.induct)
  case (2 check dup k v rest acc)
  have "check k v = None" "map_of acc k = None" using 2(2,4) by (auto simp: map_of_eq_None_iff)
  moreover have "fst ` set (btm_insert k v acc) \<inter> fst ` set rest = {}" using 2(3,4) by auto
  ultimately show ?case using 2 by auto
qed simp

lemma load_entries_Inr:
  assumes "load_entries check dup xs acc = Inr m" "btm_wf acc"
  shows "btm_wf m \<and> length m = length acc + length xs \<and> (\<forall>k v. map_of m k = Some v \<longleftrightarrow> map_of acc k = Some v \<or> (k, v) \<in> set xs) \<and>
    (\<forall>(k, v)\<in>set xs. check k v = None)"
  using assms
proof (induction check dup xs acc rule: load_entries.induct)
  case (2 check dup k v rest acc)
  from 2 have "check k v = None" "map_of acc k = None" "load_entries check dup rest (btm_insert k v acc) = Inr m"
    by (auto split: option.splits if_splits)
  moreover from this have "length (btm_insert k v acc) = Suc (length acc)"
    by (intro length_btm_insert_fresh) (simp add: map_of_eq_None_iff)
  ultimately show ?case using 2 by (auto split: if_splits)
qed simp

text \<open>Loading accepts the entries of a map in any order, and nothing else.\<close>

lemma load_entries_exact:
  "load_entries check dup xs [] = Inr m \<longleftrightarrow> btm_wf m \<and> mset m = mset xs \<and> (\<forall>(k, v)\<in>set m. check k v = None)"
proof
  assume "load_entries check dup xs [] = Inr m"
  from load_entries_Inr [OF this] have m: "btm_wf m" "length m = length xs" "\<And>k v. map_of m k = Some v \<longleftrightarrow> (k, v) \<in> set xs"
    "\<forall>(k, v)\<in>set xs. check k v = None" by auto
  have "set m = set xs" using m(3) btm_entry_iff [OF m(1)] by auto
  moreover have "distinct m" using btm_wf_distinct [OF m(1)] by (simp add: distinct_map)
  moreover from calculation have "distinct xs" using m(2) by (metis card_distinct distinct_card)
  ultimately show "btm_wf m \<and> mset m = mset xs \<and> (\<forall>(k, v)\<in>set m. check k v = None)"
    using m(1,4) set_eq_iff_mset_eq_distinct [of m xs] by auto
next
  assume a: "btm_wf m \<and> mset m = mset xs \<and> (\<forall>(k, v)\<in>set m. check k v = None)"
  then have s: "set xs = set m" by (metis set_mset_mset)
  have "mset (map fst xs) = mset (map fst m)" using a by simp
  then have "distinct (map fst xs)" using btm_wf_distinct [of m] a by (metis mset_eq_imp_distinct_iff)
  then obtain m' where l: "load_entries check dup xs [] = Inr m'" using load_entries_some [of xs check "[]" dup] a s by auto
  have m': "btm_wf m'" "\<And>k v. map_of m' k = Some v \<longleftrightarrow> (k, v) \<in> set m" using load_entries_Inr [OF l] s by auto
  have "map_of m' k = Some v \<longleftrightarrow> map_of m k = Some v" for k v
    using m'(2) [of k v] btm_entry_iff [of m k v] a by blast
  then have "map_of m' k = map_of m k" for k by (metis not_None_eq)
  then have "m' = m" using btm_ext [OF m'(1), of m] a by blast
  then show "load_entries check dup xs [] = Inr m" using l by simp
qed

text \<open>The integers of a snapshot in the range of their types.\<close>

definition record_in_range :: "ResourceRecord \<Rightarrow> bool" where
  "record_in_range rc \<longleftrightarrow> 0 < token_floor rc \<and> token_floor rc \<le> u64_max \<and> (\<forall>h. lock_holder rc = Some h \<longrightarrow> lock_expiry h \<le> u64_max)"

definition snapshot_in_range :: "LockServiceSnapshot \<Rightarrow> bool" where
  "snapshot_in_range snap \<longleftrightarrow> (\<forall>(r, rc)\<in>set (lss_resources snap). record_in_range rc)"

lemma record_ok_iff: "record_ok c t rc \<longleftrightarrow> record_in_range rc \<and> check_resource c t rc = None"
  by (auto simp: record_ok_def record_in_range_def check_resource_None)

lemma lock_snapshot_in_range: "lock_inv s \<Longrightarrow> snapshot_in_range (lock_snapshot s)"
  using lock_invD(1,3) [of s] btm_entry_iff [of "lock_resources s"]
  by (auto simp: snapshot_in_range_def lock_snapshot_def record_ok_iff)

lemma lock_inv_iff:
  assumes "\<forall>(r, rc)\<in>set (lock_resources s). record_in_range rc"
  shows "lock_inv s \<longleftrightarrow> btm_wf (lock_resources s) \<and> btm_wf (lock_sessions s) \<and>
      length (lock_resources s) \<le> max_resources (lock_config s) \<and> length (lock_sessions s) \<le> max_clients (lock_config s) \<and>
      (\<forall>(r, rc)\<in>set (lock_resources s). check_resource (lock_config s) (logical_time s) rc = None) \<and>
      (\<forall>(k, v)\<in>set (lock_sessions s). session_ok (lock_config s) k v)" (is "_ = ?R")
proof -
  have records: "btm_wf (lock_resources s) \<Longrightarrow>
      (\<forall>(r, rc)\<in>set (lock_resources s). check_resource (lock_config s) (logical_time s) rc = None) \<longleftrightarrow>
      (\<forall>r rc. map_of (lock_resources s) r = Some rc \<longrightarrow> record_ok (lock_config s) (logical_time s) rc)"
    using assms unfolding record_ok_iff by (simp add: btm_all)
  show ?thesis
    using lock_sessions_bounded [of s] records btm_all [of "lock_sessions s" "session_ok (lock_config s)"]
    unfolding lock_inv_def by blast
qed

section \<open>Properties\<close>

definition sample_lock :: "nat \<Rightarrow> LockOperation \<Rightarrow> LockCommand" where
  "sample_lock i opn = Submit \<lparr>req_client = 0, req_epoch = 1, req_sequence = i, req_fingerprint = RequestFingerprint_of opn\<rparr> opn"

definition sample_commands :: "LockCommand list" where
  "sample_commands = [OpenSession 0 1, sample_lock 1 (Acquire [97] 5), sample_lock 2 (ExpireThrough 5), sample_lock 3 (Acquire [97] 5)]"

definition sample_lock_config :: LockConfig where
  "sample_lock_config = \<lparr>max_clients = 2, max_resources = 2\<rparr>"

lemmas lock_eval = lock_step_eq sample_commands_def sample_lock_def sample_lock_config_def LockService_new_def open_session_def
  submit_def acquire_def expire_through_def release_def owned_lock_def admit_sequence_def admits_client_def checked_add_lease_def checked_add_def FencingToken_first_def
  FencingToken_successor_def Sequence_first_def bounded_count_def lease_over_def btm_map_values_def btm_modify_def u64_max_def

text \<open>
  C30: Fencing tokens only grow. In every run of well-formed commands from a state of the service the
  tokens handed out for a resource increase strictly, lie above every token handed out before the run
  and stay within 64 bits, and the service's invariant holds at the end: bounded maps in key order,
  holders that are admitted, unexpired and carry the last token issued for their resource.
\<close>

theorem fencing_tokens_increase:
  assumes "lock_inv s" "list_all command_wf cs" "run_steps lock_step cs s = (s', history)"
  shows "lock_inv s' \<and> sorted_wrt (<) (issued r history) \<and>
    (\<forall>token\<in>set (issued r history). floor_of s r < token \<and> token \<le> floor_of s' r \<and> token \<le> u64_max)"
proof -
  have e: "lock_evolves s (s', history)" using lock_steps.run_rel [OF assms(2,1)] assms(3) by simp
  have "floor_of s' r \<le> u64_max"
    using e lock_invD(1) [of s' r] by (cases "map_of (lock_resources s') r") (auto simp: floor_of_def record_ok_def)
  with e show ?thesis by fastforce
qed

theorem fencing_tokens_increase_witness:
  "issued [97] (snd (run_steps lock_step sample_commands (LockService_new sample_lock_config))) = [1, 2] \<and>
   sorted_wrt (<) (issued [97] (snd (run_steps lock_step sample_commands (LockService_new sample_lock_config))))"
proof
  show "issued [97] (snd (run_steps lock_step sample_commands (LockService_new sample_lock_config))) = [1, 2]"
    by (simp add: lock_eval)
  have "list_all command_wf sample_commands" by (simp add: sample_commands_def sample_lock_def)
  from fencing_tokens_increase [OF lock_inv_new this surjective_pairing]
  show "sorted_wrt (<) (issued [97] (snd (run_steps lock_step sample_commands (LockService_new sample_lock_config))))" by blast
qed

text \<open>
  C40: A lease protects its holder. However the service is used, whoever holds a lock keeps it, under the
  same token and with an expiry that never moves back, until the owner releases it with that token or
  logical time reaches the expiry. Replacing sessions, other clients and other resources never end a
  tenure.
\<close>

theorem lease_protects_holder:
  assumes "lock_inv s" "list_all command_wf cs" "run_steps lock_step cs s = (s', history)"
    and "holder_of s r = Some h" "logical_time s' < lock_expiry h" "\<not> given_up r h history"
  shows "\<exists>h'. holder_of s' r = Some h' \<and> lock_owner h' = lock_owner h \<and> lock_token h' = lock_token h \<and>
    lock_expiry h \<le> lock_expiry h'"
proof -
  have "lock_evolves s (s', history)" using lock_steps.run_rel [OF assms(2,1)] assms(3) by simp
  then have "same_tenure h (holder_of s' r) \<or> given_up r h history \<or> lock_expiry h \<le> logical_time s'"
    using assms(4) by simp
  with assms(5,6) show ?thesis by (simp add: same_tenure_def)
qed

theorem lease_protects_holder_witness:
  "\<exists>h'. holder_of (fst (run_steps lock_step [OpenSession 0 2] (fst (run_steps lock_step (take 2 sample_commands)
      (LockService_new sample_lock_config))))) [97] = Some h' \<and> lock_token h' = 1"
proof -
  let ?s = "fst (run_steps lock_step (take 2 sample_commands) (LockService_new sample_lock_config))"
  have inv: "lock_inv ?s"
    by (rule lock_steps.run_inv [OF _ lock_inv_new]) (simp add: sample_commands_def sample_lock_def)
  have h: "holder_of ?s [97] = Some \<lparr>lock_owner = 0, lock_token = 1, lock_expiry = 5\<rparr>"
    by (simp add: lock_eval holder_of_def)
  have t: "logical_time (fst (run_steps lock_step [OpenSession 0 2] ?s)) < 5" by (simp add: lock_eval)
  have "\<not> given_up [97] \<lparr>lock_owner = 0, lock_token = 1, lock_expiry = 5\<rparr> (snd (run_steps lock_step [OpenSession 0 2] ?s))"
    by (simp add: given_up_def lock_step_eq)
  with lease_protects_holder [OF inv _ surjective_pairing h, of "[OpenSession 0 2]"] t show ?thesis by auto
qed

text \<open>
  C31: A request takes effect at most once. Once a request has been applied, whatever other clients do in
  the meantime, sending the same request again changes nothing and returns the recorded result.
\<close>

theorem retries_replay:
  assumes "lock_apply (Submit request opn) s = (s1, out)"
    and "outcome_disposition out = Applied \<or> outcome_disposition out = Replayed"
    and "\<forall>c\<in>set cs. command_client c \<noteq> req_client request" "run_steps lock_step cs s1 = (s2, history)"
  shows "lock_apply (Submit request opn) s2 = (s2, \<lparr>outcome_response = outcome_response out, outcome_disposition = Replayed\<rparr>)"
proof -
  obtain session cached where c: "map_of (lock_sessions s1) (req_client request) = Some session"
    "session_epoch session = req_epoch request" "req_fingerprint request = RequestFingerprint_of opn"
    "session_cached session = Some cached" "cached_sequence cached = req_sequence request" "cached_operation cached = opn"
    "outcome_response out = OperationResponse (cached_result cached)"
    using submit_caches [of request opn s s1 out] assms(1,2) by auto
  have "map_of (lock_sessions s2) (req_client request) = Some session" using run_other_sessions [OF assms(3,4)] c(1) by simp
  from submit_completed [OF this c(2-6)] c(7) show ?thesis by simp
qed

theorem retries_replay_witness:
  "let s = fst (open_session 0 1 (LockService_new sample_lock_config)); s1 = fst (lock_apply (sample_lock 1 (Acquire [97] 5)) s);
       s2 = fst (run_steps lock_step [OpenSession 1 1] s1)
   in lock_apply (sample_lock 1 (Acquire [97] 5)) s2 =
      (s2, \<lparr>outcome_response = OperationResponse (Acquired 1 5), outcome_disposition = Replayed\<rparr>)"
proof -
  let ?s = "fst (open_session 0 1 (LockService_new sample_lock_config))"
  let ?out = "\<lparr>outcome_response = OperationResponse (Acquired 1 5), outcome_disposition = Applied\<rparr>"
  have "lock_apply (sample_lock 1 (Acquire [97] 5)) ?s = (fst (lock_apply (sample_lock 1 (Acquire [97] 5)) ?s), ?out)"
    by (simp add: lock_eval)
  then show ?thesis unfolding Let_def sample_lock_def
    by (subst retries_replay [OF _ _ _ surjective_pairing, where out = ?out]) (auto)
qed

text \<open>
  C32: Snapshots restore the service exactly. A snapshot is accepted precisely when it lists, in any order
  and without repetition, the entries of a state that satisfies the invariant under the configuration
  given, and the state restored is that one. In particular the snapshot of a reachable state restores
  that state.
\<close>

theorem lock_snapshot_exact:
  assumes "snapshot_in_range snap"
  shows "lock_from_snapshot c snap = Inr s \<longleftrightarrow>
    lock_inv s \<and> lock_config s = c \<and> logical_time s = lss_logical_time snap \<and>
    mset (lock_resources s) = mset (lss_resources snap) \<and> mset (lock_sessions s) = mset (lss_sessions snap)"
proof -
  have loads: "load_resources c t xs = Inr m \<longleftrightarrow> btm_wf m \<and> mset m = mset xs \<and> (\<forall>(r, rc)\<in>set m. check_resource c t rc = None)"
    "load_sessions c ys = Inr n \<longleftrightarrow> btm_wf n \<and> mset n = mset ys \<and> (\<forall>(k, v)\<in>set n. session_ok c k v)" for t xs m ys n
    by (simp_all add: load_resources_def load_sessions_def load_entries_exact check_session_None)
  have ranges: "mset (lock_resources s) = mset (lss_resources snap) \<Longrightarrow>
      \<forall>(r, rc)\<in>set (lock_resources s). record_in_range rc"
    using assms by (metis set_mset_mset snapshot_in_range_def)
  have sizes: "mset xs = mset ys \<Longrightarrow> length xs = length ys" for xs ys :: "(ResourceName \<times> ResourceRecord) list"
    by (metis size_mset)
  have sizes': "mset xs = mset ys \<Longrightarrow> length xs = length ys" for xs ys :: "(ClientId \<times> SessionRecord) list"
    by (metis size_mset)
  show ?thesis
  proof
    assume "lock_from_snapshot c snap = Inr s"
    then show "lock_inv s \<and> lock_config s = c \<and> logical_time s = lss_logical_time snap \<and>
        mset (lock_resources s) = mset (lss_resources snap) \<and> mset (lock_sessions s) = mset (lss_sessions snap)"
      using lock_inv_iff [OF ranges] sizes [of "lock_resources s" "lss_resources snap"]
        sizes' [of "lock_sessions s" "lss_sessions snap"] loads
      by (auto simp: lock_from_snapshot_def split: if_splits sum.splits)
  next
    assume a: "lock_inv s \<and> lock_config s = c \<and> logical_time s = lss_logical_time snap \<and>
        mset (lock_resources s) = mset (lss_resources snap) \<and> mset (lock_sessions s) = mset (lss_sessions snap)"
    then have r: "load_resources c (lss_logical_time snap) (lss_resources snap) = Inr (lock_resources s)"
      and q: "load_sessions c (lss_sessions snap) = Inr (lock_sessions s)"
      using lock_inv_iff [OF ranges] loads by auto
    have "length (lss_resources snap) \<le> max_resources c" "length (lss_sessions snap) \<le> max_clients c"
      using a lock_inv_iff [OF ranges] sizes [of "lock_resources s" "lss_resources snap"]
        sizes' [of "lock_sessions s" "lss_sessions snap"] by auto
    with r q a show "lock_from_snapshot c snap = Inr s" by (auto simp: lock_from_snapshot_def)
  qed
qed

text \<open>The snapshot of the state after the sample commands, its entries and all.\<close>

theorem lock_snapshot_exact_witness:
  "let s = fst (run_steps lock_step sample_commands (LockService_new sample_lock_config))
   in lock_from_snapshot sample_lock_config (lock_snapshot s) = Inr s"
proof -
  let ?s = "fst (run_steps lock_step sample_commands (LockService_new sample_lock_config))"
  have inv: "lock_inv ?s"
    by (rule lock_steps.run_inv [OF _ lock_inv_new]) (simp add: sample_commands_def sample_lock_def)
  have c: "lock_config ?s = sample_lock_config" by (simp add: lock_eval)
  have "snapshot_in_range (lock_snapshot ?s)" by (rule lock_snapshot_in_range [OF inv])
  from lock_snapshot_exact [OF this, of sample_lock_config ?s] inv c show ?thesis by (simp add: lock_snapshot_def)
qed

section \<open>The guarded resource\<close>

definition guarded_run :: "GuardedWrite list \<Rightarrow> GuardedResource \<Rightarrow> GuardedResource" where
  "guarded_run ws g = fold (\<lambda>w g. fst (guarded_apply w g)) ws g"

lemma guarded_apply_keeps:
  assumes "highest_accepted g = Some t"
  shows "gr_resource (fst (guarded_apply w g)) = gr_resource g"
    and "\<exists>t'. highest_accepted (fst (guarded_apply w g)) = Some t' \<and> t \<le> t'"
  using assms by (auto simp: guarded_apply_def split: option.splits)

lemma guarded_run_keeps:
  "highest_accepted g = Some t \<Longrightarrow>
   gr_resource (guarded_run ws g) = gr_resource g \<and> (\<exists>t'. highest_accepted (guarded_run ws g) = Some t' \<and> t \<le> t')"
proof (induction ws arbitrary: g t)
  case (Cons w ws)
  from guarded_apply_keeps [OF Cons.prems, of w] obtain t' where
    "gr_resource (fst (guarded_apply w g)) = gr_resource g" "highest_accepted (fst (guarded_apply w g)) = Some t'" "t \<le> t'" by blast
  with Cons.IH [of "fst (guarded_apply w g)" t'] show ?case by (auto simp: guarded_run_def intro: order_trans)
qed (simp add: guarded_run_def)

text \<open>
  C29: Fencing end to end. Take two tokens the lock service handed out for a resource, one before the
  other, in any run. Once the resource they guard has accepted a write under the later one, no write
  under the earlier one is ever accepted again: it is refused as stale and changes nothing but the
  counter of refused writes, whatever other writes came between.
\<close>

theorem stale_holder_fenced:
  assumes "lock_inv s" "list_all command_wf cs" "run_steps lock_step cs s = (s', history)"
    and "i < j" "j < length (issued r history)"
    and "guarded_apply new_write g = (g1, Inr v)" "gw_token new_write = issued r history ! j"
    and "gw_resource old_write = gr_resource g" "gw_token old_write = issued r history ! i"
  shows "\<exists>highest\<ge>issued r history ! j. guarded_apply old_write (guarded_run ws g1) =
    ((guarded_run ws g1)\<lparr>refused_writes := sat_add (refused_writes (guarded_run ws g1)) 1\<rparr>, Inl (StaleFencingToken highest))"
proof -
  have "lock_evolves s (s', history)" using lock_steps.run_rel [OF assms(2,1)] assms(3) by simp
  then have less: "issued r history ! i < issued r history ! j"
    using assms(4,5) by (simp add: sorted_wrt_iff_nth_less)
  have "highest_accepted g1 = Some (issued r history ! j)" "gr_resource g1 = gr_resource g"
    using assms(6,7) by (auto simp: guarded_apply_def split: if_splits option.splits)
  with guarded_run_keeps [of g1 "issued r history ! j" ws] obtain highest where
    "gr_resource (guarded_run ws g1) = gr_resource g" "highest_accepted (guarded_run ws g1) = Some highest"
    "issued r history ! j \<le> highest" by auto
  with less assms(8,9) show ?thesis by (auto simp: guarded_apply_def)
qed

theorem stale_holder_fenced_witness:
  "\<exists>highest\<ge>2. snd (guarded_apply \<lparr>gw_resource = [97], gw_token = 1, gw_value = 7\<rparr>
     (fst (guarded_apply \<lparr>gw_resource = [97], gw_token = 2, gw_value = 8\<rparr> (GuardedResource_new [97])))) = Inl (StaleFencingToken highest)"
proof -
  let ?h = "snd (run_steps lock_step sample_commands (LockService_new sample_lock_config))"
  have wf: "list_all command_wf sample_commands" by (simp add: sample_commands_def sample_lock_def)
  have i: "issued [97] ?h = [1, 2]" by (simp add: lock_eval)
  have g: "guarded_apply \<lparr>gw_resource = [97], gw_token = 2, gw_value = 8\<rparr> (GuardedResource_new [97]) =
     (fst (guarded_apply \<lparr>gw_resource = [97], gw_token = 2, gw_value = 8\<rparr> (GuardedResource_new [97])), Inr 8)"
    by (simp add: guarded_apply_def GuardedResource_new_def)
  have "\<exists>highest\<ge>issued [97] ?h ! 1. guarded_apply \<lparr>gw_resource = [97], gw_token = 1, gw_value = 7\<rparr>
     (guarded_run [] (fst (guarded_apply \<lparr>gw_resource = [97], gw_token = 2, gw_value = 8\<rparr> (GuardedResource_new [97])))) =
     ((guarded_run [] (fst (guarded_apply \<lparr>gw_resource = [97], gw_token = 2, gw_value = 8\<rparr> (GuardedResource_new [97]))))
        \<lparr>refused_writes := sat_add (refused_writes (guarded_run [] (fst (guarded_apply \<lparr>gw_resource = [97], gw_token = 2, gw_value = 8\<rparr>
          (GuardedResource_new [97]))))) 1\<rparr>, Inl (StaleFencingToken highest))"
    by (rule stale_holder_fenced [OF lock_inv_new wf surjective_pairing _ _ g, of 0 1])
      (simp_all add: i GuardedResource_new_def)
  then show ?thesis by (auto simp: guarded_run_def i)
qed

end
