(* ===== verification/Lock_Oracle.thy ===== *)
theory Lock_Oracle
  imports Lock_Safety
begin

text \<open>
  The independent oracle of the lock service, \<open>reference/fenced-lock/src/oracle.rs\<close>. It keeps an append-only
  journal of tenures and derives holders, token floors and tracked resources from it, where the service
  keeps them as state. Both give the same outcomes and the same views for every sequence of commands.
\<close>

section \<open>The oracle\<close>

datatype TenureEnd = TenureReleased | TenureExpired LogicalTime

record Tenure =
  tn_resource :: ResourceName
  tn_owner :: ClientId
  tn_token :: FencingToken
  tn_expiry :: LogicalTime
  tn_end :: "TenureEnd option"

record OracleSession =
  os_client :: ClientId
  os_epoch :: SessionEpoch
  os_completed :: "(Sequence \<times> LockOperation \<times> OperationResult) option"

record ReferenceLockService =
  or_config :: LockConfig
  or_time :: LogicalTime
  tenures :: "Tenure list"
  or_sessions :: "OracleSession list"

definition ReferenceLockService_new :: "LockConfig \<Rightarrow> ReferenceLockService" where
  "ReferenceLockService_new c = \<lparr>or_config = c, or_time = 0, tenures = [], or_sessions = []\<rparr>"

primrec first_position :: "('a \<Rightarrow> bool) \<Rightarrow> 'a list \<Rightarrow> usize option" where
  "first_position P [] = None"
| "first_position P (x # xs) = (if P x then Some 0 else map_option Suc (first_position P xs))"

definition open_for :: "ResourceName \<Rightarrow> Tenure \<Rightarrow> bool" where
  "open_for resource t \<longleftrightarrow> tn_resource t = resource \<and> tn_end t = None"

definition current_tenure :: "ReferenceLockService \<Rightarrow> ResourceName \<Rightarrow> usize option" where
  "current_tenure s resource = first_position (open_for resource) (tenures s)"

fun max_token :: "FencingToken list \<Rightarrow> FencingToken option" where
  "max_token [] = None"
| "max_token (t # ts) = Some (foldl max t ts)"

definition derived_token_ceiling :: "ReferenceLockService \<Rightarrow> ResourceName \<Rightarrow> FencingToken option" where
  "derived_token_ceiling s resource =
     max_token (map tn_token (filter (\<lambda>t. tn_resource t = resource) (tenures s)))"

definition note_tenure :: "Tenure \<Rightarrow> (ResourceName \<times> FencingToken) list \<Rightarrow> (ResourceName \<times> FencingToken) list" where
  "note_tenure t derived =
     (case first_position (\<lambda>entry. fst entry = tn_resource t) derived of
        Some i \<Rightarrow> if tn_token t > snd (derived ! i) then derived[i := (fst (derived ! i), tn_token t)] else derived
      | None \<Rightarrow> derived @ [(tn_resource t, tn_token t)])"

definition derived_resources :: "ReferenceLockService \<Rightarrow> (ResourceName \<times> FencingToken) list" where
  "derived_resources s = sort_key fst (fold note_tenure (tenures s) [])"

definition oracle_open_session ::
    "ClientId \<Rightarrow> SessionEpoch \<Rightarrow> ReferenceLockService \<Rightarrow> ReferenceLockService \<times> ApplyOutcome" where
  "oracle_open_session client requested s =
     (if client \<ge> max_clients (or_config s) then (s, rejected ClientOutOfRange)
      else let opened = \<lparr>os_client = client, os_epoch = requested, os_completed = None\<rparr> in
        case first_position (\<lambda>session. os_client session = client) (or_sessions s) of
          Some i \<Rightarrow>
            let current = os_epoch (or_sessions s ! i)
            in if requested < current then (s, rejected (StaleSession current))
               else if requested > current
               then (s\<lparr>or_sessions := (or_sessions s)[i := opened]\<rparr>,
                     \<lparr>outcome_response = SessionOpened requested, outcome_disposition = SessionReplaced\<rparr>)
               else (s, \<lparr>outcome_response = SessionOpened requested, outcome_disposition = SessionAlreadyOpen\<rparr>)
        | None \<Rightarrow>
            (s\<lparr>or_sessions := or_sessions s @ [opened]\<rparr>,
             \<lparr>outcome_response = SessionOpened requested, outcome_disposition = DispositionSessionOpened\<rparr>))"

definition open_tenure ::
    "ClientId \<Rightarrow> ResourceName \<Rightarrow> LeaseDuration \<Rightarrow> ReferenceLockService \<Rightarrow> ReferenceLockService \<times> OperationResult" where
  "open_tenure client resource lease s =
     (case checked_add_lease (or_time s) lease of
        None \<Rightarrow> (s, OperationRejected LeaseOverflow)
      | Some expiry \<Rightarrow>
          (case current_tenure s resource of
             Some i \<Rightarrow>
               let current = tenures s ! i
               in (s, OperationRejected (LockHeld (tn_owner current) (tn_token current) (tn_expiry current)))
           | None \<Rightarrow>
               let token =
                     (case derived_token_ceiling s resource of
                        Some ceiling \<Rightarrow>
                          (case checked_add ceiling 1 of None \<Rightarrow> Inl TokenExhausted | Some next \<Rightarrow> Inr next)
                      | None \<Rightarrow>
                          if length (derived_resources s) \<ge> max_resources (or_config s) then Inl ResourceCapacityExceeded
                          else Inr FencingToken_first)
               in case token of
                    Inl rejection \<Rightarrow> (s, OperationRejected rejection)
                  | Inr token \<Rightarrow>
                      (s\<lparr>tenures := tenures s @ [\<lparr>tn_resource = resource, tn_owner = client, tn_token = token,
                           tn_expiry = expiry, tn_end = None\<rparr>]\<rparr>,
                       Acquired token expiry)))"

definition extend_tenure ::
    "ClientId \<Rightarrow> ResourceName \<Rightarrow> FencingToken \<Rightarrow> LeaseDuration \<Rightarrow> ReferenceLockService \<Rightarrow>
     ReferenceLockService \<times> OperationResult" where
  "extend_tenure client resource token lease s =
     (case current_tenure s resource of
        None \<Rightarrow> (s, OperationRejected LockNotHeld)
      | Some i \<Rightarrow>
          if tn_owner (tenures s ! i) \<noteq> client then (s, OperationRejected (NotLockHolder (tn_owner (tenures s ! i))))
          else if tn_token (tenures s ! i) \<noteq> token
          then (s, OperationRejected (FencingTokenMismatch (tn_token (tenures s ! i))))
          else case checked_add_lease (or_time s) lease of
                 None \<Rightarrow> (s, OperationRejected LeaseOverflow)
               | Some candidate \<Rightarrow>
                   let s = (if candidate > tn_expiry (tenures s ! i)
                            then s\<lparr>tenures := (tenures s)[i := (tenures s ! i)\<lparr>tn_expiry := candidate\<rparr>]\<rparr> else s)
                   in (s, Renewed (tn_token (tenures s ! i)) (tn_expiry (tenures s ! i))))"

definition close_tenure ::
    "ClientId \<Rightarrow> ResourceName \<Rightarrow> FencingToken \<Rightarrow> ReferenceLockService \<Rightarrow> ReferenceLockService \<times> OperationResult" where
  "close_tenure client resource token s =
     (case current_tenure s resource of
        None \<Rightarrow> (s, OperationRejected LockNotHeld)
      | Some i \<Rightarrow>
          if tn_owner (tenures s ! i) \<noteq> client then (s, OperationRejected (NotLockHolder (tn_owner (tenures s ! i))))
          else if tn_token (tenures s ! i) \<noteq> token
          then (s, OperationRejected (FencingTokenMismatch (tn_token (tenures s ! i))))
          else (s\<lparr>tenures := (tenures s)[i := (tenures s ! i)\<lparr>tn_end := Some TenureReleased\<rparr>]\<rparr>, Released))"

definition tenure_due :: "LogicalTime \<Rightarrow> Tenure \<Rightarrow> bool" where
  "tenure_due horizon t \<longleftrightarrow> tn_end t = None \<and> tn_expiry t \<le> horizon"

definition advance_logical_time :: "LogicalTime \<Rightarrow> ReferenceLockService \<Rightarrow> ReferenceLockService \<times> OperationResult" where
  "advance_logical_time horizon s =
     (if horizon \<le> or_time s then (s, OperationRejected (LogicalTimeNotAdvanced (or_time s)))
      else (s\<lparr>tenures := map (\<lambda>t. if tenure_due horizon t then t\<lparr>tn_end := Some (TenureExpired horizon)\<rparr> else t) (tenures s),
              or_time := horizon\<rparr>,
            Expired (length (filter (tenure_due horizon) (tenures s))) horizon))"

fun oracle_run :: "ClientId \<Rightarrow> LockOperation \<Rightarrow> ReferenceLockService \<Rightarrow> ReferenceLockService \<times> OperationResult" where
  "oracle_run client (Acquire resource lease) s = open_tenure client resource lease s"
| "oracle_run client (Renew resource token lease) s = extend_tenure client resource token lease s"
| "oracle_run client (Release resource token) s = close_tenure client resource token s"
| "oracle_run client (ExpireThrough horizon) s = advance_logical_time horizon s"

definition oracle_admit ::
    "(Sequence \<times> LockOperation \<times> OperationResult) option \<Rightarrow> RequestIdentity \<Rightarrow> LockOperation \<Rightarrow> ApplyOutcome option" where
  "oracle_admit completed request operation =
     (case completed of
        Some (completed_sequence, completed_operation, completed_result) \<Rightarrow>
          if req_sequence request < completed_sequence then Some (rejected (StaleSequence completed_sequence))
          else if req_sequence request = completed_sequence then
            Some (if operation = completed_operation
                  then \<lparr>outcome_response = OperationResponse completed_result, outcome_disposition = Replayed\<rparr>
                  else rejected ConflictingRetry)
          else if req_sequence request \<noteq> completed_sequence + 1 then Some (rejected (SequenceGap (completed_sequence + 1)))
          else None
      | None \<Rightarrow> if req_sequence request \<noteq> 1 then Some (rejected (SequenceGap 1)) else None)"

definition apply_submission ::
    "RequestIdentity \<Rightarrow> LockOperation \<Rightarrow> ReferenceLockService \<Rightarrow> ReferenceLockService \<times> ApplyOutcome" where
  "apply_submission request operation s =
     (if req_client request \<ge> max_clients (or_config s) then (s, rejected ClientOutOfRange)
      else case first_position (\<lambda>session. os_client session = req_client request) (or_sessions s) of
        None \<Rightarrow> (s, rejected SessionNotOpen)
      | Some i \<Rightarrow>
          let epoch = os_epoch (or_sessions s ! i)
          in if req_epoch request < epoch then (s, rejected (StaleSession epoch))
             else if req_epoch request > epoch then (s, rejected (FutureSession epoch))
             else let recomputed = RequestFingerprint_of operation
                  in if req_fingerprint request \<noteq> recomputed then (s, rejected (FingerprintMismatch recomputed))
                     else case oracle_admit (os_completed (or_sessions s ! i)) request operation of
                            Some outcome \<Rightarrow> (s, outcome)
                          | None \<Rightarrow>
                              let (s, result) = oracle_run (req_client request) operation s
                              in (s\<lparr>or_sessions := (or_sessions s)[i := (or_sessions s ! i)
                                     \<lparr>os_completed := Some (req_sequence request, operation, result)\<rparr>]\<rparr>,
                                  \<lparr>outcome_response = OperationResponse result, outcome_disposition = Applied\<rparr>))"

fun oracle_apply :: "LockCommand \<Rightarrow> ReferenceLockService \<Rightarrow> ReferenceLockService \<times> ApplyOutcome" where
  "oracle_apply (OpenSession client epoch) s = oracle_open_session client epoch s"
| "oracle_apply (Submit request operation) s = apply_submission request operation s"

definition tenure_holder :: "Tenure \<Rightarrow> LockHolderView" where
  "tenure_holder t = \<lparr>hv_owner = tn_owner t, hv_token = tn_token t, hv_expiry = tn_expiry t\<rparr>"

definition oracle_holder :: "ReferenceLockService \<Rightarrow> ResourceName \<Rightarrow> LockHolderView option" where
  "oracle_holder s resource = map_option (\<lambda>i. tenure_holder (tenures s ! i)) (current_tenure s resource)"

definition oracle_status :: "ResourceName \<Rightarrow> ReferenceLockService \<Rightarrow> ResourceStatus" where
  "oracle_status resource s =
     \<lparr>rs_resource = resource, rs_holder = oracle_holder s resource, rs_token_floor = derived_token_ceiling s resource,
      rs_logical_time = or_time s\<rparr>"

definition oracle_summary :: "ReferenceLockService \<Rightarrow> ServiceSummary" where
  "oracle_summary s =
     \<lparr>held_locks = length (filter (\<lambda>t. tn_end t = None) (tenures s)),
      tracked_resources = length (derived_resources s), summary_logical_time = or_time s\<rparr>"

definition oracle_view :: "ReferenceLockService \<Rightarrow> ServiceView" where
  "oracle_view s =
     \<lparr>view_resources = map (\<lambda>(resource, token). \<lparr>rv_resource = resource, rv_floor = token, rv_holder = oracle_holder s resource\<rparr>)
        (derived_resources s),
      view_sessions = sort_key sv_client (map (\<lambda>session. \<lparr>sv_client = os_client session, sv_epoch = os_epoch session,
        sv_cached = os_completed session\<rparr>) (or_sessions s)),
      view_logical_time = or_time s\<rparr>"

section \<open>Positions\<close>

lemma first_position_None: "first_position P xs = None \<longleftrightarrow> filter P xs = []"
  by (induction xs) auto

lemma position_only:
  assumes "filter P xs = [t]"
  obtains i where "first_position P xs = Some i" "i < length xs" "xs ! i = t" "P t"
    "\<And>f. xs[i := f t] = map (\<lambda>x. if P x then f x else x) xs"
proof -
  have "\<exists>i. first_position P xs = Some i \<and> i < length xs \<and> xs ! i = t \<and> P t \<and> (\<forall>f. xs[i := f t] = map (\<lambda>x. if P x then f x else x) xs)"
    using assms
  proof (induction xs)
    case (Cons x xs)
    show ?case
    proof (cases "P x")
      case True
      then have "x = t" "filter P xs = []" using Cons.prems by auto
      moreover from this have "map (\<lambda>x. if P x then f x else x) xs = xs" for f
        by (intro map_idI) (auto simp: filter_empty_conv)
      ultimately show ?thesis using True by simp
    next
      case False
      with Cons obtain i where "first_position P xs = Some i" "i < length xs" "xs ! i = t" "P t"
        "\<forall>f. xs[i := f t] = map (\<lambda>x. if P x then f x else x) xs" by auto
      then show ?thesis using False by (intro exI [of _ "Suc i"]) simp
    qed
  qed simp
  then show thesis using that by blast
qed

section \<open>Derived resources\<close>

lemma max_token_snoc: "max_token (xs @ [t]) = Some (case max_token xs of None \<Rightarrow> t | Some m \<Rightarrow> max m t)"
  by (cases xs) auto

lemma filter_key:
  "distinct (map fst d) \<Longrightarrow> filter (\<lambda>entry. fst entry = k) d = (case map_of d k of None \<Rightarrow> [] | Some v \<Rightarrow> [(k, v)])"
proof (induction d)
  case (Cons e d)
  then have "fst e \<notin> fst ` set d" by simp
  then have "filter (\<lambda>entry. fst entry = fst e) d = []" by (auto simp: filter_empty_conv image_iff)
  with Cons show ?case by (auto split: option.splits prod.splits)
qed simp

lemma map_of_key_update:
  "map_of (map (\<lambda>x. if fst x = k then (fst x, w) else x) d) k' =
     (if k' = k then map_option (\<lambda>_. w) (map_of d k) else map_of d k')"
  by (induction d) auto

lemma note_tenure_contents:
  assumes "distinct (map fst d)"
  shows "distinct (map fst (note_tenure t d)) \<and> map_of (note_tenure t d) =
    (map_of d)(tn_resource t \<mapsto> (case map_of d (tn_resource t) of None \<Rightarrow> tn_token t | Some m \<Rightarrow> max m (tn_token t)))"
proof (cases "map_of d (tn_resource t)")
  case None
  have f: "filter (\<lambda>entry. fst entry = tn_resource t) d = []" using filter_key [OF assms] None by simp
  have "map_of (d @ [(tn_resource t, tn_token t)]) = (map_of d)(tn_resource t \<mapsto> tn_token t)"
    using None by (auto simp: fun_eq_iff map_add_def split: option.splits)
  moreover have "tn_resource t \<notin> fst ` set d" using None by (simp add: map_of_eq_None_iff)
  ultimately show ?thesis using assms None f first_position_None [of "\<lambda>entry. fst entry = tn_resource t" d]
    by (simp add: note_tenure_def)
next
  case (Some m)
  have "filter (\<lambda>entry. fst entry = tn_resource t) d = [(tn_resource t, m)]" using filter_key [OF assms] Some by simp
  then obtain i where i: "first_position (\<lambda>entry. fst entry = tn_resource t) d = Some i" "d ! i = (tn_resource t, m)"
    "\<And>f. d[i := f (tn_resource t, m)] = map (\<lambda>x. if fst x = tn_resource t then f x else x) d"
    by (rule position_only) blast
  let ?d = "map (\<lambda>x. if fst x = tn_resource t then (fst x, tn_token t) else x) d"
  have "map fst ?d = map fst d" by (induction d) auto
  then have "distinct (map fst ?d)" using assms by metis
  moreover have "map_of ?d = (map_of d)(tn_resource t \<mapsto> tn_token t)"
    using Some by (auto simp: fun_eq_iff map_of_key_update)
  moreover have "d[i := (tn_resource t, tn_token t)] = ?d" using i(3) [of "\<lambda>x. (fst x, tn_token t)"] by simp
  moreover have "(map_of d)(tn_resource t \<mapsto> m) = map_of d" using Some by auto
  ultimately show ?thesis using assms Some i(1,2) by (simp add: note_tenure_def max_def del: map_map)
qed

lemma noted_tenures:
  "distinct (map fst (fold note_tenure ts [])) \<and>
   map_of (fold note_tenure ts []) r = max_token (map tn_token (filter (\<lambda>t. tn_resource t = r) ts))"
proof (induction ts arbitrary: r rule: rev_induct)
  case (snoc t ts)
  then show ?case
    using note_tenure_contents [of "fold note_tenure ts []" t] by (auto simp: max_token_snoc split: option.splits)
qed simp

lemma btm_wf_sort_key:
  assumes "distinct (map fst d)"
  shows "btm_wf (sort_key fst d)" "map_of (sort_key fst d) = map_of d"
proof -
  have d: "distinct (map fst (sort_key fst d))"
    using assms by (metis mset_map mset_sort mset_eq_imp_distinct_iff)
  then show "btm_wf (sort_key fst d)" by (simp add: btm_wf_def strict_sorted_iff)
  show "map_of (sort_key fst d) = map_of d" using map_of_inject_set [OF d assms] by simp
qed

lemma derived_resources_contents:
  "btm_wf (derived_resources s)" "map_of (derived_resources s) r = derived_token_ceiling s r"
  using noted_tenures [of "tenures s"] btm_wf_sort_key [of "fold note_tenure (tenures s) []"]
  by (simp_all add: derived_resources_def derived_token_ceiling_def)

section \<open>The simulation\<close>

text \<open>What the journal holds of a session and of a lock.\<close>

definition completion :: "SessionRecord \<Rightarrow> (Sequence \<times> LockOperation \<times> OperationResult) option" where
  "completion session = map_option (\<lambda>c. (cached_sequence c, cached_operation c, cached_result c)) (session_cached session)"

fun session_image :: "ClientId \<Rightarrow> SessionRecord option \<Rightarrow> OracleSession list" where
  "session_image client None = []"
| "session_image client (Some session) =
     [\<lparr>os_client = client, os_epoch = session_epoch session, os_completed = completion session\<rparr>]"

fun tenure_image :: "ResourceName \<Rightarrow> HeldLock option \<Rightarrow> Tenure list" where
  "tenure_image r None = []"
| "tenure_image r (Some h) =
     [\<lparr>tn_resource = r, tn_owner = lock_owner h, tn_token = lock_token h, tn_expiry = lock_expiry h, tn_end = None\<rparr>]"

definition oracle_rel :: "LockService \<Rightarrow> ReferenceLockService \<Rightarrow> bool" where
  "oracle_rel s q \<longleftrightarrow>
     or_config q = lock_config s \<and> or_time q = logical_time s \<and> btm_wf (lock_resources s) \<and> btm_wf (lock_sessions s) \<and>
     (\<forall>client. map_of (lock_sessions s) client \<noteq> None \<longrightarrow> admits_client (lock_config s) client) \<and>
     (\<forall>client. filter (\<lambda>x. os_client x = client) (or_sessions q) = session_image client (map_of (lock_sessions s) client)) \<and>
     (\<forall>r. derived_token_ceiling q r = map_option token_floor (map_of (lock_resources s) r)) \<and>
     (\<forall>r. filter (open_for r) (tenures q) = tenure_image r (holder_of s r))"

lemma oracle_relD:
  assumes "oracle_rel s q"
  shows "or_config q = lock_config s" "or_time q = logical_time s" "btm_wf (lock_resources s)" "btm_wf (lock_sessions s)"
    "map_of (lock_sessions s) client \<noteq> None \<Longrightarrow> admits_client (lock_config s) client"
    "filter (\<lambda>x. os_client x = client) (or_sessions q) = session_image client (map_of (lock_sessions s) client)"
    "derived_token_ceiling q r = map_option token_floor (map_of (lock_resources s) r)"
    "filter (open_for r) (tenures q) = tenure_image r (holder_of s r)"
  using assms unfolding oracle_rel_def by blast+

lemma oracle_rel_resources: "oracle_rel s q \<Longrightarrow> derived_resources q = btm_map_values token_floor (lock_resources s)"
  by (rule btm_ext) (auto simp: derived_resources_contents oracle_relD fun_eq_iff)

lemma oracle_rel_tracked: "oracle_rel s q \<Longrightarrow> length (derived_resources q) = length (lock_resources s)"
  by (simp add: oracle_rel_resources btm_map_values_def)

lemma key_mem: "(\<exists>v. (k, v) \<in> set m) \<longleftrightarrow> k \<in> set (map fst m)"
  by force

lemma same_keys_length:
  "distinct (map f xs) \<Longrightarrow> distinct (map g ys) \<Longrightarrow> set (map f xs) = set (map g ys) \<Longrightarrow> length xs = length ys"
  by (metis distinct_card length_map)

lemma distinct_map_filterI: "(\<And>r. length (filter (\<lambda>t. f t = r) xs) \<le> 1) \<Longrightarrow> distinct (map f xs)"
proof (induction xs)
  case (Cons x xs)
  have "length (filter (\<lambda>t. f t = r) xs) \<le> 1" for r using Cons.prems [of r] by (simp split: if_splits)
  moreover have "filter (\<lambda>t. f t = f x) xs = []" using Cons.prems [of "f x"] by simp
  ultimately show ?case using Cons.IH by (auto simp: filter_empty_conv)
qed simp

text \<open>The open tenures and the held locks are in one-to-one correspondence.\<close>

lemma oracle_rel_open_count:
  assumes rel: "oracle_rel s q"
    and same: "\<And>r h. Q (hd (tenure_image r (Some h))) = P h"
  shows "length (filter (\<lambda>t. tn_end t = None \<and> Q t) (tenures q)) =
    length (filter (\<lambda>(r, rc). case lock_holder rc of None \<Rightarrow> False | Some h \<Rightarrow> P h) (lock_resources s))"
proof -
  let ?O = "filter (\<lambda>t. tn_end t = None \<and> Q t) (tenures q)"
  let ?H = "filter (\<lambda>(r, rc). case lock_holder rc of None \<Rightarrow> False | Some h \<Rightarrow> P h) (lock_resources s)"
  have once: "filter (\<lambda>t. tn_resource t = r) ?O = filter Q (tenure_image r (holder_of s r))" for r
    unfolding oracle_relD(8) [OF rel, of r, symmetric] filter_filter by (rule filter_cong) (auto simp: open_for_def)
  have "distinct (map tn_resource ?O)"
  proof (rule distinct_map_filterI)
    show "length (filter (\<lambda>t. tn_resource t = r) ?O) \<le> 1" for r unfolding once by (cases "holder_of s r") auto
  qed
  moreover have "distinct (map fst ?H)" using btm_wf_distinct [OF oracle_relD(3) [OF rel]] by (simp add: distinct_map_filter)
  moreover have "set (map tn_resource ?O) = set (map fst ?H)"
  proof (rule set_eqI)
    fix r
    have "r \<in> set (map tn_resource ?O) \<longleftrightarrow> filter (\<lambda>t. tn_resource t = r) ?O \<noteq> []" by (auto simp: filter_empty_conv)
    also have "\<dots> \<longleftrightarrow> (\<exists>h. holder_of s r = Some h \<and> P h)" unfolding once using same [of r] by (cases "holder_of s r") auto
    also have "\<dots> \<longleftrightarrow> (\<exists>rc h. (r, rc) \<in> set (lock_resources s) \<and> lock_holder rc = Some h \<and> P h)"
      by (auto simp: holder_of_Some btm_entry_iff [OF oracle_relD(3) [OF rel]])
    also have "\<dots> \<longleftrightarrow> (\<exists>rc. (r, rc) \<in> set (lock_resources s) \<and> (case lock_holder rc of None \<Rightarrow> False | Some h \<Rightarrow> P h))"
      by (intro ex_cong1) (simp split: option.split)
    also have "\<dots> \<longleftrightarrow> (\<exists>rc. (r, rc) \<in> set ?H)" by simp
    also have "\<dots> \<longleftrightarrow> r \<in> set (map fst ?H)" by (rule key_mem)
    finally show "r \<in> set (map tn_resource ?O) \<longleftrightarrow> r \<in> set (map fst ?H)" .
  qed
  ultimately show ?thesis by (rule same_keys_length)
qed

text \<open>Updating the journal and the sessions in place.\<close>

lemma filter_map_update:
  assumes "\<And>x. key (f x) = key x"
  shows "filter (\<lambda>x. key x = k) (map (\<lambda>x. if P x then f x else x) xs) = map (\<lambda>x. if P x then f x else x) (filter (\<lambda>x. key x = k) xs)"
  using assms by (induction xs) auto

lemma ceiling_map:
  assumes "\<And>t. tn_resource (g t) = tn_resource t \<and> tn_token (g t) = tn_token t"
  shows "derived_token_ceiling (q\<lparr>tenures := map g (tenures q)\<rparr>) r = derived_token_ceiling q r"
proof -
  have "map tn_token (filter (\<lambda>t. tn_resource t = r) (map g ts)) = map tn_token (filter (\<lambda>t. tn_resource t = r) ts)" for ts
    using assms by (induction ts) auto
  then show ?thesis by (simp add: derived_token_ceiling_def)
qed

lemma ceiling_snoc:
  "derived_token_ceiling (q\<lparr>tenures := tenures q @ [t]\<rparr>) r =
     (if tn_resource t = r then Some (case derived_token_ceiling q r of None \<Rightarrow> tn_token t | Some m \<Rightarrow> max m (tn_token t))
      else derived_token_ceiling q r)"
  by (simp add: derived_token_ceiling_def max_token_snoc)

lemma ceiling_other [simp]:
  "derived_token_ceiling (q\<lparr>or_sessions := x\<rparr>) r = derived_token_ceiling q r"
  "derived_token_ceiling (q\<lparr>or_time := y\<rparr>) r = derived_token_ceiling q r"
  by (simp_all add: derived_token_ceiling_def)

text \<open>The tenure open for a resource is the lock held on it.\<close>

lemma current_tenure_None: "oracle_rel s q \<Longrightarrow> holder_of s r = None \<Longrightarrow> current_tenure q r = None"
  using oracle_relD(8) [of s q r] by (simp add: current_tenure_def first_position_None)

lemma current_tenure_Some:
  assumes "oracle_rel s q" "holder_of s r = Some h"
  obtains i where "current_tenure q r = Some i"
    "tenures q ! i = \<lparr>tn_resource = r, tn_owner = lock_owner h, tn_token = lock_token h, tn_expiry = lock_expiry h, tn_end = None\<rparr>"
    "i < length (tenures q)"
    "\<And>f. (tenures q)[i := f (tenures q ! i)] = map (\<lambda>t. if open_for r t then f t else t) (tenures q)"
proof -
  have "filter (open_for r) (tenures q) =
      [\<lparr>tn_resource = r, tn_owner = lock_owner h, tn_token = lock_token h, tn_expiry = lock_expiry h, tn_end = None\<rparr>]"
    using oracle_relD(8) [OF assms(1), of r] assms(2) by simp
  then obtain i where i: "first_position (open_for r) (tenures q) = Some i" "i < length (tenures q)"
    "tenures q ! i = \<lparr>tn_resource = r, tn_owner = lock_owner h, tn_token = lock_token h, tn_expiry = lock_expiry h, tn_end = None\<rparr>"
    "\<And>f. (tenures q)[i := f (tenures q ! i)] = map (\<lambda>t. if open_for r t then f t else t) (tenures q)"
    by (rule position_only) metis
  show thesis by (rule that [of i]) (use i in \<open>simp_all add: current_tenure_def\<close>)
qed

lemma oracle_rel_holders:
  assumes "oracle_rel s q" "btm_wf m"
    and "\<And>r. derived_token_ceiling (q\<lparr>tenures := ts\<rparr>) r = map_option token_floor (map_of m r)"
    and "\<And>r. filter (open_for r) ts = tenure_image r (Option.bind (map_of m r) lock_holder)"
  shows "oracle_rel (s\<lparr>lock_resources := m, logical_time := t\<rparr>) (q\<lparr>tenures := ts, or_time := t\<rparr>)"
  using assms by (simp add: oracle_rel_def holder_of_def)

lemma oracle_rel_holders':
  assumes "oracle_rel s q" "btm_wf m"
    and "\<And>r. derived_token_ceiling (q\<lparr>tenures := ts\<rparr>) r = map_option token_floor (map_of m r)"
    and "\<And>r. filter (open_for r) ts = tenure_image r (Option.bind (map_of m r) lock_holder)"
  shows "oracle_rel (s\<lparr>lock_resources := m\<rparr>) (q\<lparr>tenures := ts\<rparr>)"
  using assms by (simp add: oracle_rel_def holder_of_def)

lemma map_of_floor_holder:
  "map_of (lock_resources s) r = None \<Longrightarrow> holder_of s r = None"
  by (simp add: holder_of_def)

lemma acquire_same:
  assumes rel: "oracle_rel s q"
  shows "oracle_rel (fst (acquire client r lease s)) (fst (open_tenure client r lease q)) \<and>
    snd (acquire client r lease s) = snd (open_tenure client r lease q)"
proof (cases "checked_add_lease (logical_time s) lease")
  case None
  then show ?thesis using rel by (simp add: acquire_def open_tenure_def oracle_relD)
next
  case (Some expiry)
  note D = oracle_relD [OF rel]
  show ?thesis
  proof (cases "holder_of s r")
    case held: (Some h)
    then obtain i where "current_tenure q r = Some i"
      "tenures q ! i = \<lparr>tn_resource = r, tn_owner = lock_owner h, tn_token = lock_token h, tn_expiry = lock_expiry h, tn_end = None\<rparr>"
      by (rule current_tenure_Some [OF rel])
    with held Some rel show ?thesis by (auto simp: acquire_def open_tenure_def D(2) holder_of_Some)
  next
    case free: None
    let ?new = "\<lambda>token. \<lparr>tn_resource = r, tn_owner = client, tn_token = token, tn_expiry = expiry, tn_end = None\<rparr>"
    let ?rc = "\<lambda>token. \<lparr>token_floor = token, lock_holder = Some \<lparr>lock_owner = client, lock_token = token, lock_expiry = expiry\<rparr>\<rparr>"
    have step: "oracle_rel (s\<lparr>lock_resources := btm_insert r (?rc token) (lock_resources s)\<rparr>) (q\<lparr>tenures := tenures q @ [?new token]\<rparr>)"
      if "\<And>m. derived_token_ceiling q r = Some m \<Longrightarrow> m \<le> token" for token
    proof (rule oracle_rel_holders' [OF rel])
      show "btm_wf (btm_insert r (?rc token) (lock_resources s))" using D(3) by simp
      show "derived_token_ceiling (q\<lparr>tenures := tenures q @ [?new token]\<rparr>) r' =
          map_option token_floor (map_of (btm_insert r (?rc token) (lock_resources s)) r')" for r'
        using that D(7) [of r] D(7) [of r'] by (cases "map_of (lock_resources s) r") (auto simp: ceiling_snoc)
      show "filter (open_for r') (tenures q @ [?new token]) =
          tenure_image r' (Option.bind (map_of (btm_insert r (?rc token) (lock_resources s)) r') lock_holder)" for r'
        using D(8) [of r'] free by (auto simp: open_for_def holder_of_def)
    qed
    show ?thesis
      using Some free current_tenure_None [OF rel free] D(1,2) D(7) [of r] oracle_rel_tracked [OF rel] rel
        step [of FencingToken_first] step [of "Suc (token_floor (the (map_of (lock_resources s) r)))"]
      by (cases "map_of (lock_resources s) r")
        (auto simp: acquire_def open_tenure_def Let_def holder_of_def bounded_count_def FencingToken_successor_def checked_add_def)
  qed
qed

lemma open_for_update:
  assumes "\<And>t. tn_resource (f t) = tn_resource t"
  shows "filter (open_for r') (map (\<lambda>t. if open_for r t then f t else t) ts) =
    (if r' = r then filter (open_for r) (map f (filter (open_for r) ts)) else filter (open_for r') ts)"
proof (induction ts)
  case (Cons t ts)
  have "open_for r' (f t) \<Longrightarrow> open_for r t \<Longrightarrow> r' = r" using assms [of t] by (simp add: open_for_def)
  moreover have "open_for r' t \<Longrightarrow> open_for r t \<Longrightarrow> r' = r" by (simp add: open_for_def)
  ultimately show ?case using Cons.IH by auto
qed simp

lemma owned_lock_same:
  assumes rel: "oracle_rel s q"
  shows "owned_lock client r token s =
    (case current_tenure q r of None \<Rightarrow> Inl LockNotHeld
     | Some i \<Rightarrow> if tn_owner (tenures q ! i) \<noteq> client then Inl (NotLockHolder (tn_owner (tenures q ! i)))
         else if tn_token (tenures q ! i) \<noteq> token then Inl (FencingTokenMismatch (tn_token (tenures q ! i)))
         else Inr (the (holder_of s r)))"
proof (cases "holder_of s r")
  case None
  then show ?thesis
    using current_tenure_None [OF rel None] by (auto simp: owned_lock_def holder_of_def split: option.splits)
next
  case (Some h)
  then obtain i where "current_tenure q r = Some i"
    "tenures q ! i = \<lparr>tn_resource = r, tn_owner = lock_owner h, tn_token = lock_token h, tn_expiry = lock_expiry h, tn_end = None\<rparr>"
    by (rule current_tenure_Some [OF rel])
  moreover obtain rc where "map_of (lock_resources s) r = Some rc" "lock_holder rc = Some h"
    using Some by (auto simp: holder_of_Some)
  ultimately show ?thesis using Some by (simp add: owned_lock_def)
qed

lemma update_tenure_rel:
  assumes rel: "oracle_rel s q" and held: "holder_of s r = Some h"
    and keeps: "\<And>t. tn_resource (f t) = tn_resource t \<and> tn_token (f t) = tn_token t"
    and image: "filter (open_for r) (map f (tenure_image r (Some h))) = tenure_image r h'"
  shows "oracle_rel (s\<lparr>lock_resources := btm_modify r (\<lambda>rc. rc\<lparr>lock_holder := h'\<rparr>) (lock_resources s)\<rparr>)
    (q\<lparr>tenures := map (\<lambda>t. if open_for r t then f t else t) (tenures q)\<rparr>)"
proof (rule oracle_rel_holders' [OF rel])
  note D = oracle_relD [OF rel]
  obtain rc where rc: "map_of (lock_resources s) r = Some rc" using held by (auto simp: holder_of_Some)
  show "btm_wf (btm_modify r (\<lambda>rc. rc\<lparr>lock_holder := h'\<rparr>) (lock_resources s))" using D(3) by simp
  show "derived_token_ceiling (q\<lparr>tenures := map (\<lambda>t. if open_for r t then f t else t) (tenures q)\<rparr>) r' =
      map_option token_floor (map_of (btm_modify r (\<lambda>rc. rc\<lparr>lock_holder := h'\<rparr>) (lock_resources s)) r')" for r'
    using ceiling_map [of "\<lambda>t. if open_for r t then f t else t" q r'] keeps D(7) [of r'] rc by auto
  show "filter (open_for r') (map (\<lambda>t. if open_for r t then f t else t) (tenures q)) =
      tenure_image r' (Option.bind (map_of (btm_modify r (\<lambda>rc. rc\<lparr>lock_holder := h'\<rparr>) (lock_resources s)) r') lock_holder)" for r'
    using open_for_update [of f r' r "tenures q"] keeps D(8) [of r'] held rc image by (auto simp: holder_of_def)
qed

lemma renew_same:
  assumes rel: "oracle_rel s q"
  shows "oracle_rel (fst (renew client r token lease s)) (fst (extend_tenure client r token lease q)) \<and>
    snd (renew client r token lease s) = snd (extend_tenure client r token lease q)"
proof (cases "holder_of s r")
  case None
  then show ?thesis using rel owned_lock_same [OF rel, of client r token] current_tenure_None [OF rel None]
    by (simp add: renew_def extend_tenure_def)
next
  case (Some h)
  note D = oracle_relD [OF rel]
  obtain i where i: "current_tenure q r = Some i"
    "tenures q ! i = \<lparr>tn_resource = r, tn_owner = lock_owner h, tn_token = lock_token h, tn_expiry = lock_expiry h, tn_end = None\<rparr>"
    "i < length (tenures q)"
    "\<And>f. (tenures q)[i := f (tenures q ! i)] = map (\<lambda>t. if open_for r t then f t else t) (tenures q)"
    by (rule current_tenure_Some [OF rel Some]) blast
  have keep: "oracle_rel (s\<lparr>lock_resources := btm_modify r (\<lambda>rc. rc\<lparr>lock_holder := Some h\<rparr>) (lock_resources s)\<rparr>) q"
    using update_tenure_rel [OF rel Some, of "\<lambda>t. t" "Some h"] by (simp add: open_for_def)
  have extend: "oracle_rel (s\<lparr>lock_resources := btm_modify r (\<lambda>rc. rc\<lparr>lock_holder := Some (h\<lparr>lock_expiry := e\<rparr>)\<rparr>) (lock_resources s)\<rparr>)
      (q\<lparr>tenures := (tenures q)[i := (tenures q ! i)\<lparr>tn_expiry := e\<rparr>]\<rparr>)" for e
    unfolding i(4) [of "\<lambda>t. t\<lparr>tn_expiry := e\<rparr>"] by (rule update_tenure_rel [OF rel Some]) (simp_all add: open_for_def)
  show ?thesis
    using owned_lock_same [OF rel, of client r token] Some i(1,2,3) rel keep extend D(2)
    by (cases "checked_add_lease (logical_time s) lease") (auto simp: renew_def extend_tenure_def Let_def)
qed

lemma release_same:
  assumes rel: "oracle_rel s q"
  shows "oracle_rel (fst (release client r token s)) (fst (close_tenure client r token q)) \<and>
    snd (release client r token s) = snd (close_tenure client r token q)"
proof (cases "holder_of s r")
  case None
  then show ?thesis using rel owned_lock_same [OF rel, of client r token] current_tenure_None [OF rel None]
    by (simp add: release_def close_tenure_def)
next
  case (Some h)
  obtain i where i: "current_tenure q r = Some i"
    "tenures q ! i = \<lparr>tn_resource = r, tn_owner = lock_owner h, tn_token = lock_token h, tn_expiry = lock_expiry h, tn_end = None\<rparr>"
    "\<And>f. (tenures q)[i := f (tenures q ! i)] = map (\<lambda>t. if open_for r t then f t else t) (tenures q)"
    by (rule current_tenure_Some [OF rel Some]) blast
  have "oracle_rel (s\<lparr>lock_resources := btm_modify r (\<lambda>rc. rc\<lparr>lock_holder := None\<rparr>) (lock_resources s)\<rparr>)
      (q\<lparr>tenures := (tenures q)[i := (tenures q ! i)\<lparr>tn_end := Some TenureReleased\<rparr>]\<rparr>)"
    unfolding i(3) [of "\<lambda>t. t\<lparr>tn_end := Some TenureReleased\<rparr>"]
    by (rule update_tenure_rel [OF rel Some]) (simp_all add: open_for_def)
  then show ?thesis
    using owned_lock_same [OF rel, of client r token] Some i(1,2) rel by (auto simp: release_def close_tenure_def)
qed

lemma due_count:
  assumes "oracle_rel s q"
  shows "length (filter (tenure_due horizon) (tenures q)) = length (filter (\<lambda>(r, rc). lease_over horizon rc) (lock_resources s))"
  using oracle_rel_open_count [OF assms, of "\<lambda>t. tn_expiry t \<le> horizon" "\<lambda>h. lock_expiry h \<le> horizon"]
  by (simp add: tenure_due_def [abs_def] lease_over_def)

lemma expire_same:
  assumes rel: "oracle_rel s q"
  shows "oracle_rel (fst (expire_through horizon s)) (fst (advance_logical_time horizon q)) \<and>
    snd (expire_through horizon s) = snd (advance_logical_time horizon q)"
proof (cases "horizon \<le> logical_time s")
  case True
  then show ?thesis using rel by (simp add: expire_through_def advance_logical_time_def oracle_relD)
next
  case False
  note D = oracle_relD [OF rel]
  let ?g = "\<lambda>t. if tenure_due horizon t then t\<lparr>tn_end := Some (TenureExpired horizon)\<rparr> else t"
  let ?m = "btm_map_values (\<lambda>rc. if lease_over horizon rc then rc\<lparr>lock_holder := None\<rparr> else rc) (lock_resources s)"
  have opens: "filter (open_for r) (map ?g ts) = filter (\<lambda>t. \<not> tn_expiry t \<le> horizon) (filter (open_for r) ts)" for r ts
    by (induction ts) (auto simp: open_for_def tenure_due_def)
  have "oracle_rel (s\<lparr>lock_resources := ?m, logical_time := horizon\<rparr>) (q\<lparr>tenures := map ?g (tenures q), or_time := horizon\<rparr>)"
  proof (rule oracle_rel_holders [OF rel])
    show "btm_wf ?m" using D(3) by simp
    show "derived_token_ceiling (q\<lparr>tenures := map ?g (tenures q)\<rparr>) r = map_option token_floor (map_of ?m r)" for r
      using ceiling_map [of ?g q r] D(7) [of r] by (cases "map_of (lock_resources s) r") auto
    show "filter (open_for r) (map ?g (tenures q)) = tenure_image r (Option.bind (map_of ?m r) lock_holder)" for r
      unfolding opens D(8)
      by (cases "map_of (lock_resources s) r") (auto simp: holder_of_def lease_over_def split: option.split)
  qed
  with False show ?thesis using due_count [OF rel, of horizon] D(2) by (simp add: expire_through_def advance_logical_time_def)
qed

lemma run_operation_same:
  "oracle_rel s q \<Longrightarrow> oracle_rel (fst (run_operation client opn s)) (fst (oracle_run client opn q)) \<and>
     snd (run_operation client opn s) = snd (oracle_run client opn q)"
  by (cases opn) (simp_all add: acquire_same renew_same release_same expire_same)

text \<open>Sessions.\<close>

lemma sessions_rel:
  assumes "oracle_rel s q" "btm_wf m" "\<And>c. map_of m c \<noteq> None \<Longrightarrow> admits_client (lock_config s) c"
    and "\<And>c. filter (\<lambda>x. os_client x = c) xs = session_image c (map_of m c)"
  shows "oracle_rel (s\<lparr>lock_sessions := m\<rparr>) (q\<lparr>or_sessions := xs\<rparr>)"
  using assms by (simp add: oracle_rel_def)

lemma session_position:
  assumes "oracle_rel s q" "map_of (lock_sessions s) client = Some session"
  obtains i where "first_position (\<lambda>x. os_client x = client) (or_sessions q) = Some i"
    "or_sessions q ! i = \<lparr>os_client = client, os_epoch = session_epoch session, os_completed = completion session\<rparr>"
    "\<And>f. (or_sessions q)[i := f (or_sessions q ! i)] = map (\<lambda>x. if os_client x = client then f x else x) (or_sessions q)"
proof -
  have "filter (\<lambda>x. os_client x = client) (or_sessions q) =
      [\<lparr>os_client = client, os_epoch = session_epoch session, os_completed = completion session\<rparr>]"
    using oracle_relD(6) [OF assms(1), of client] assms(2) by simp
  then obtain i where i: "first_position (\<lambda>x. os_client x = client) (or_sessions q) = Some i"
    "or_sessions q ! i = \<lparr>os_client = client, os_epoch = session_epoch session, os_completed = completion session\<rparr>"
    "\<And>f. (or_sessions q)[i := f (or_sessions q ! i)] = map (\<lambda>x. if os_client x = client then f x else x) (or_sessions q)"
    by (rule position_only) metis
  show thesis by (rule that [of i]) (use i in simp_all)
qed

lemma update_session_rel:
  assumes rel: "oracle_rel s q" and present: "map_of (lock_sessions s) client = Some session"
    and m: "btm_wf m" "map_of m = (map_of (lock_sessions s))(client \<mapsto> session')"
    and f: "\<And>x. os_client (f x) = os_client x"
    and image: "map f (session_image client (Some session)) = session_image client (Some session')"
  shows "oracle_rel (s\<lparr>lock_sessions := m\<rparr>) (q\<lparr>or_sessions := map (\<lambda>x. if os_client x = client then f x else x) (or_sessions q)\<rparr>)"
proof (rule sessions_rel [OF rel m(1)])
  note D = oracle_relD [OF rel]
  show "map_of m c \<noteq> None \<Longrightarrow> admits_client (lock_config s) c" for c
    using m(2) D(5) [of c] present by (auto split: if_splits)
  show "filter (\<lambda>x. os_client x = c) (map (\<lambda>x. if os_client x = client then f x else x) (or_sessions q)) = session_image c (map_of m c)" for c
    using filter_map_update [of os_client f c "\<lambda>x. os_client x = client" "or_sessions q"] f D(6) [of c] m(2) present image
    by (cases "map_of (lock_sessions s) c") auto
qed

lemma open_session_same:
  assumes rel: "oracle_rel s q"
  shows "oracle_rel (fst (open_session client epoch s)) (fst (oracle_open_session client epoch q)) \<and>
    snd (open_session client epoch s) = snd (oracle_open_session client epoch q)"
proof (cases "admits_client (lock_config s) client")
  case False
  then show ?thesis using rel by (simp add: open_session_def oracle_open_session_def admits_client_def oracle_relD)
next
  case admitted: True
  note D = oracle_relD [OF rel]
  let ?m = "btm_insert client \<lparr>session_epoch = epoch, session_cached = None\<rparr> (lock_sessions s)"
  let ?x = "\<lparr>os_client = client, os_epoch = epoch, os_completed = None\<rparr>"
  show ?thesis
  proof (cases "map_of (lock_sessions s) client")
    case None
    then have p: "first_position (\<lambda>x. os_client x = client) (or_sessions q) = None"
      using D(6) [of client] by (simp add: first_position_None)
    have "oracle_rel (s\<lparr>lock_sessions := ?m\<rparr>) (q\<lparr>or_sessions := or_sessions q @ [?x]\<rparr>)"
      by (rule sessions_rel [OF rel]) (use D(4,5,6) None admitted in \<open>auto simp: completion_def split: if_splits\<close>)
    then show ?thesis using p None admitted D(1)
      by (simp add: open_session_def oracle_open_session_def admits_client_def Let_def)
  next
    case (Some session)
    then obtain i where i: "first_position (\<lambda>x. os_client x = client) (or_sessions q) = Some i"
      "or_sessions q ! i = \<lparr>os_client = client, os_epoch = session_epoch session, os_completed = completion session\<rparr>"
      "\<And>f. (or_sessions q)[i := f (or_sessions q ! i)] = map (\<lambda>x. if os_client x = client then f x else x) (or_sessions q)"
      by (rule session_position [OF rel]) blast
    have eq: "(or_sessions q)[i := ?x] = map (\<lambda>x. if os_client x = client then x\<lparr>os_epoch := epoch, os_completed := None\<rparr> else x) (or_sessions q)"
      using i(3) [of "\<lambda>x. x\<lparr>os_epoch := epoch, os_completed := None\<rparr>"] i(2) by simp
    have "oracle_rel (s\<lparr>lock_sessions := ?m\<rparr>) (q\<lparr>or_sessions := (or_sessions q)[i := ?x]\<rparr>)"
      unfolding eq by (rule update_session_rel [OF rel Some]) (use D(4) in \<open>auto simp: completion_def\<close>)
    then show ?thesis using i(1,2) Some admitted D(1) rel
      by (auto simp: open_session_def oracle_open_session_def admits_client_def Let_def)
  qed
qed

lemma oracle_run_sessions: "or_sessions (fst (oracle_run client opn q)) = or_sessions q"
  by (cases opn) (auto simp: open_tenure_def extend_tenure_def close_tenure_def advance_logical_time_def Let_def
    split: option.splits sum.splits)

lemma admit_same: "oracle_admit (completion session) request opn = admit_sequence session request opn"
  by (cases "session_cached session") (simp_all add: oracle_admit_def admit_sequence_def completion_def Let_def Sequence_first_def)

lemma submit_same:
  assumes rel: "oracle_rel s q"
  shows "oracle_rel (fst (submit request opn s)) (fst (apply_submission request opn q)) \<and>
    snd (submit request opn s) = snd (apply_submission request opn q)"
proof (cases "map_of (lock_sessions s) (req_client request)")
  case None
  then have "first_position (\<lambda>x. os_client x = req_client request) (or_sessions q) = None"
    using oracle_relD(6) [OF rel, of "req_client request"] by (simp add: first_position_None)
  then show ?thesis using None rel by (simp add: submit_def apply_submission_def admits_client_def oracle_relD)
next
  case (Some session)
  let ?c = "req_client request"
  have admitted: "?c < max_clients (or_config q)"
    using oracle_relD(1) [OF rel] oracle_relD(5) [OF rel, of ?c] Some by (simp add: admits_client_def)
  obtain i where i: "first_position (\<lambda>x. os_client x = ?c) (or_sessions q) = Some i"
    "or_sessions q ! i = \<lparr>os_client = ?c, os_epoch = session_epoch session, os_completed = completion session\<rparr>"
    "\<And>f. (or_sessions q)[i := f (or_sessions q ! i)] = map (\<lambda>x. if os_client x = ?c then f x else x) (or_sessions q)"
    by (rule session_position [OF rel Some]) blast
  show ?thesis
  proof (cases "req_epoch request = session_epoch session \<and> req_fingerprint request = RequestFingerprint_of opn \<and>
      admit_sequence session request opn = None")
    case False
    then show ?thesis using Some i(1,2) admitted rel
      by (auto simp: submit_def apply_submission_def Let_def admit_same split: option.splits)
  next
    case True
    obtain s' result where r: "run_operation ?c opn s = (s', result)" by fastforce
    obtain q' result' where o': "oracle_run ?c opn q = (q', result')" by fastforce
    have rel': "oracle_rel s' q'" "result' = result" using run_operation_same [OF rel, of ?c opn] r o' by simp_all
    have same: "lock_sessions s' = lock_sessions s" "or_sessions q' = or_sessions q"
      using run_operation_sessions [of ?c opn s] oracle_run_sessions [of ?c opn q] r o' by simp_all
    let ?done = "(req_sequence request, opn, result)"
    let ?cached = "\<lparr>cached_sequence = req_sequence request, cached_fingerprint = RequestFingerprint_of opn,
           cached_operation = opn, cached_result = result\<rparr>"
    have "oracle_rel (s'\<lparr>lock_sessions := btm_modify ?c (\<lambda>session. session\<lparr>session_cached := Some ?cached\<rparr>) (lock_sessions s')\<rparr>)
        (q'\<lparr>or_sessions := map (\<lambda>x. if os_client x = ?c then x\<lparr>os_completed := Some ?done\<rparr> else x) (or_sessions q')\<rparr>)"
      by (rule update_session_rel [OF rel'(1), of ?c session])
        (use Some same oracle_relD(4) [OF rel] in \<open>auto simp: completion_def fun_eq_iff\<close>)
    then have "oracle_rel (s'\<lparr>lock_sessions := btm_modify ?c (\<lambda>session. session\<lparr>session_cached := Some ?cached\<rparr>) (lock_sessions s)\<rparr>)
        (q'\<lparr>or_sessions := (or_sessions q)[i := (or_sessions q ! i)\<lparr>os_completed := Some ?done\<rparr>]\<rparr>)"
      unfolding same i(3) [of "\<lambda>x. x\<lparr>os_completed := Some ?done\<rparr>"] .
    then show ?thesis using True Some i(1,2) admitted r o' rel' same
      by (simp add: submit_def apply_submission_def Let_def admit_same)
  qed
qed

section \<open>Equivalence\<close>

definition oracle_step :: "LockCommand \<Rightarrow> ReferenceLockService \<Rightarrow> ReferenceLockService \<times> (LockCommand \<times> ApplyOutcome) list" where
  "oracle_step c q = (fst (oracle_apply c q), [(c, snd (oracle_apply c q))])"

lemma oracle_rel_new: "oracle_rel (LockService_new c) (ReferenceLockService_new c)"
  by (simp add: oracle_rel_def LockService_new_def ReferenceLockService_new_def derived_token_ceiling_def holder_of_def)

lemma lock_apply_same:
  "oracle_rel s q \<Longrightarrow> oracle_rel (fst (lock_apply c s)) (fst (oracle_apply c q)) \<and> snd (lock_apply c s) = snd (oracle_apply c q)"
  by (cases c) (simp_all add: open_session_same submit_same)

interpretation lock_oracle: same_behaviour lock_step oracle_step oracle_rel
  by unfold_locales (use lock_apply_same in \<open>simp add: lock_step_eq oracle_step_def\<close>)

lemma oracle_holder_same:
  assumes "oracle_rel s q"
  shows "oracle_holder q r = map_option holder_view (holder_of s r)"
proof (cases "holder_of s r")
  case None
  then show ?thesis using current_tenure_None [OF assms None] by (simp add: oracle_holder_def)
next
  case (Some h)
  then obtain i where "current_tenure q r = Some i"
    "tenures q ! i = \<lparr>tn_resource = r, tn_owner = lock_owner h, tn_token = lock_token h, tn_expiry = lock_expiry h, tn_end = None\<rparr>"
    by (rule current_tenure_Some [OF assms])
  with Some show ?thesis by (simp add: oracle_holder_def tenure_holder_def holder_view_def)
qed

lemma status_same: "oracle_rel s q \<Longrightarrow> lock_status r s = oracle_status r q"
  by (simp add: lock_status_def oracle_status_def Let_def oracle_holder_same oracle_relD holder_of_def)

lemma summary_same: "oracle_rel s q \<Longrightarrow> lock_summary s = oracle_summary q"
  using oracle_rel_open_count [of s q "\<lambda>_. True" "\<lambda>_. True"] oracle_rel_tracked [of s q]
  by (simp add: lock_summary_def oracle_summary_def bounded_count_def oracle_relD option.case_eq_if)

lemma view_resources_same:
  assumes "oracle_rel s q"
  shows "view_resources (oracle_view q) = map resource_view (lock_resources s)"
proof -
  have "oracle_holder q r = map_option holder_view (lock_holder rc)" if "(r, rc) \<in> set (lock_resources s)" for r rc
    using that oracle_holder_same [OF assms, of r] btm_entry_iff [OF oracle_relD(3) [OF assms]] by (simp add: holder_of_def)
  then show ?thesis by (auto simp: oracle_view_def oracle_rel_resources [OF assms] btm_map_values_def resource_view_def)
qed

lemma ex_image: "(\<exists>x. (\<exists>a b. P a b \<and> x = f a b) \<and> v = g x) \<longleftrightarrow> (\<exists>a b. P a b \<and> v = g (f a b))"
  by auto

lemma oracle_session_mem:
  assumes "oracle_rel s q"
  shows "x \<in> set (or_sessions q) \<longleftrightarrow> (\<exists>c session. map_of (lock_sessions s) c = Some session \<and>
    x = \<lparr>os_client = c, os_epoch = session_epoch session, os_completed = completion session\<rparr>)"
proof -
  have "x \<in> set (or_sessions q) \<longleftrightarrow> x \<in> set (filter (\<lambda>y. os_client y = os_client x) (or_sessions q))" by simp
  also have "\<dots> \<longleftrightarrow> x \<in> set (session_image (os_client x) (map_of (lock_sessions s) (os_client x)))"
    by (simp only: oracle_relD(6) [OF assms])
  also have "\<dots> \<longleftrightarrow> (\<exists>c session. map_of (lock_sessions s) c = Some session \<and>
      x = \<lparr>os_client = c, os_epoch = session_epoch session, os_completed = completion session\<rparr>)"
    by (cases "map_of (lock_sessions s) (os_client x)") auto
  finally show ?thesis .
qed

lemma view_sessions_same:
  assumes "oracle_rel s q"
  shows "view_sessions (oracle_view q) = map session_view (lock_sessions s)"
proof -
  let ?v = "\<lambda>x. \<lparr>sv_client = os_client x, sv_epoch = os_epoch x, sv_cached = os_completed x\<rparr>"
  let ?pair = "\<lambda>v. (sv_client v, v)"
  let ?l = "sort_key sv_client (map ?v (or_sessions q))" and ?r = "map session_view (lock_sessions s)"
  have clients: "length (filter (\<lambda>x. os_client x = c) (or_sessions q)) \<le> 1" for c
    unfolding oracle_relD(6) [OF assms] by (cases "map_of (lock_sessions s) c") auto
  have "distinct (map sv_client (map ?v (or_sessions q)))" using distinct_map_filterI [OF clients] by (simp add: comp_def)
  moreover have "mset (map sv_client (map ?v (or_sessions q))) = mset (map sv_client ?l)"
    by (simp only: mset_map mset_sort)
  ultimately have dl: "distinct (map sv_client ?l)" using mset_eq_imp_distinct_iff by blast
  have wf: "btm_wf (map ?pair ?l)" "btm_wf (map ?pair ?r)"
    using dl oracle_relD(4) [OF assms] by (simp_all add: btm_wf_def strict_sorted_iff comp_def session_view_def)
  have mem: "x \<in> set (or_sessions q) \<longleftrightarrow> (\<exists>c session. map_of (lock_sessions s) c = Some session \<and>
      x = \<lparr>os_client = c, os_epoch = session_epoch session, os_completed = completion session\<rparr>)" for x
    by (rule oracle_session_mem [OF assms])
  have "v \<in> set ?l \<longleftrightarrow> (\<exists>c session. map_of (lock_sessions s) c = Some session \<and> v = session_view (c, session))" for v
  proof -
    have "v \<in> set ?l \<longleftrightarrow> (\<exists>x. x \<in> set (or_sessions q) \<and> v = ?v x)" by auto
    then have "v \<in> set ?l \<longleftrightarrow> (\<exists>c session. map_of (lock_sessions s) c = Some session \<and>
        v = ?v \<lparr>os_client = c, os_epoch = session_epoch session, os_completed = completion session\<rparr>)"
      unfolding mem ex_image .
    then show ?thesis by (simp add: session_view_def completion_def)
  qed
  moreover have "v \<in> set ?r \<longleftrightarrow> (\<exists>c session. map_of (lock_sessions s) c = Some session \<and> v = session_view (c, session))" for v
    unfolding set_map image_iff using btm_entry_iff [OF oracle_relD(4) [OF assms]] by (metis surj_pair)
  ultimately have "set ?l = set ?r" by blast
  then have "set (map ?pair ?l) = set (map ?pair ?r)" unfolding set_map by (rule arg_cong)
  then have "map_of (map ?pair ?l) = map_of (map ?pair ?r)"
    using map_of_inject_set [OF btm_wf_distinct [OF wf(1)] btm_wf_distinct [OF wf(2)]] by blast
  from btm_ext [OF wf this] have "map snd (map ?pair ?l) = map snd (map ?pair ?r)" by (rule arg_cong)
  then show ?thesis by (simp add: oracle_view_def comp_def)
qed

lemma view_same: "oracle_rel s q \<Longrightarrow> lock_view s = oracle_view q"
  using view_resources_same [of s q] view_sessions_same [of s q] oracle_relD(2) [of s q]
  by (simp add: lock_view_def oracle_view_def)

text \<open>
  C28: The lock service and the journal oracle agree. Fed the same commands from the same configuration, they
  answer every command alike, and their full views, summaries and resource statuses are equal at the end.
\<close>

theorem lock_service_matches_oracle:
  "snd (run_steps lock_step cs (LockService_new c)) = snd (run_steps oracle_step cs (ReferenceLockService_new c)) \<and>
   lock_view (fst (run_steps lock_step cs (LockService_new c))) = oracle_view (fst (run_steps oracle_step cs (ReferenceLockService_new c))) \<and>
   lock_summary (fst (run_steps lock_step cs (LockService_new c))) = oracle_summary (fst (run_steps oracle_step cs (ReferenceLockService_new c))) \<and>
   lock_status r (fst (run_steps lock_step cs (LockService_new c))) = oracle_status r (fst (run_steps oracle_step cs (ReferenceLockService_new c)))"
  using lock_oracle.run_same [OF oracle_rel_new, of cs c] view_same summary_same status_same by blast

end
