(* ===== verification/Running_Checksum.thy ===== *)
theory Running_Checksum
  imports Checksum
begin

text \<open>
  \<open>crates/rafter-crc32/src/checksum.rs\<close>: the checksum of frames and storage envelopes, fed in slices.
  The tables and the block loop are the same code as the kernel's; the state is kept between slices.
\<close>

record RunningCrc32 =
  rc_state :: "32 word"

definition RunningCrc32_new :: RunningCrc32 where
  "RunningCrc32_new = \<lparr>rc_state = 0xFFFFFFFF\<rparr>"

definition RunningCrc32_update :: "byte list \<Rightarrow> RunningCrc32 \<Rightarrow> RunningCrc32" where
  "RunningCrc32_update bytes r = r\<lparr>rc_state := crc_blocks bytes (rc_state r)\<rparr>"

definition RunningCrc32_value :: "RunningCrc32 \<Rightarrow> 32 word" where
  "RunningCrc32_value r = NOT (rc_state r)"

definition stream_crc32 :: "byte list \<Rightarrow> 32 word" where
  "stream_crc32 bytes = RunningCrc32_value (RunningCrc32_update bytes RunningCrc32_new)"

lemma rc_state_fold:
  "rc_state (fold RunningCrc32_update slices r) = fold (\<lambda>b s. crc_byte (s XOR ucast b)) (concat slices) (rc_state r)"
  by (induction slices arbitrary: r) (simp_all add: RunningCrc32_update_def crc_blocks_eq)

text \<open>
  the checksum is the CRC-32 of all bytes, however they are sliced. Feeding slices of any lengths,
  each processed eight bytes at a time through eight tables, yields the bit-by-bit CRC-32 of their
  concatenation; the one-shot checksums of the storage and wire formats and of snapshot payloads are the
  same function.
\<close>

theorem running_crc32_streams:
  "RunningCrc32_value (fold RunningCrc32_update slices RunningCrc32_new) = crc32_reference (concat slices) \<and>
   stream_crc32 bytes = crc32_reference bytes \<and> crc32 bytes = crc32_reference bytes"
  using rc_state_fold [of slices RunningCrc32_new] rc_state_fold [of "[bytes]" RunningCrc32_new]
  by (simp add: RunningCrc32_value_def RunningCrc32_new_def crc32_reference_def stream_crc32_def crc32_def crc_blocks_eq)

end
