(* ===== verification/Snapshot_Frame.thy ===== *)
theory Snapshot_Frame
  imports Votes
begin

text \<open>
  Snapshots as the outputs announce them: after any input a node's snapshot is the last one an output
  told the application to apply, or the one it had. Only the snapshot handlers announce any; every other
  handler keeps the snapshot. The durable runtime relies on this to store what the node has installed.
\<close>

section \<open>Announced snapshots\<close>

fun applied_snapshots :: "Output list \<Rightarrow> RaftSnapshot list" where
  "applied_snapshots [] = []"
| "applied_snapshots (x # xs) = (case x of ApplySnapshot s \<Rightarrow> [s] | _ \<Rightarrow> []) @ applied_snapshots xs"

lemma applied_snapshots_append [simp]: "applied_snapshots (xs @ ys) = applied_snapshots xs @ applied_snapshots ys"
  by (induction xs) auto

lemma applied_snapshots_empty_iff: "applied_snapshots outs = [] \<longleftrightarrow> (\<forall>s. ApplySnapshot s \<notin> set outs)"
  by (induction outs) (auto split: Output.split)

definition kept :: "Node \<Rightarrow> Node \<times> Output list \<Rightarrow> bool" where
  "kept n r \<longleftrightarrow> Node_snapshot (fst r) = Node_snapshot n \<and> applied_snapshots (snd r) = []"

lemma kept_refl [simp]: "kept n (n, outs) \<longleftrightarrow> applied_snapshots outs = []"
  by (simp add: kept_def)

lemma kept_then: "kept a (b, xs) \<Longrightarrow> kept b r \<Longrightarrow> kept a (fst r, xs @ snd r)"
  by (simp add: kept_def)

lemma kept_trans: "kept a (b, xs) \<Longrightarrow> kept b (c, ys) \<Longrightarrow> kept a (c, xs @ ys)"
  by (simp add: kept_def)

lemma kept_then0: "Node_snapshot b = Node_snapshot a \<Longrightarrow> kept b r \<Longrightarrow> kept a r"
  by (simp add: kept_def)

lemma kept_leader_only: "leader_only n r \<Longrightarrow> applied_snapshots (snd r) = [] \<Longrightarrow> kept n r"
  by (simp add: kept_def leader_only_frame)

lemma leader_only_snapshot: "leader_only n r \<Longrightarrow> Node_snapshot (fst r) = Node_snapshot n"
  by (simp add: leader_only_frame)

section \<open>Handlers that keep the snapshot\<close>

lemma applied_snapshots_dropped [simp]: "applied_snapshots (dropped_outputs t r) = []"
  by (auto simp: applied_snapshots_empty_iff dropped_outputs_def)

lemma applied_snapshots_canceled [simp]: "applied_snapshots (canceled_outputs rs r) = []"
  by (auto simp: applied_snapshots_empty_iff canceled_outputs_def)

lemma kept_become_follower [simp]: "kept n (become_follower t n)"
  by (simp add: kept_def become_follower_frame become_follower_outputs)

lemma become_follower_applied [simp]:
  "Node_snapshot (fst (become_follower t n)) = Node_snapshot n" "applied_snapshots (snd (become_follower t n)) = []"
  using kept_become_follower [of n t] by (simp_all add: kept_def)

lemma appends_from_free: "appends_from n outs \<Longrightarrow> applied_snapshots outs = []"
  by (fastforce simp: applied_snapshots_empty_iff appends_from_def)

lemma kept_emit_one:
  assumes "emit_one n = Some r"
  shows "kept n r"
proof -
  obtain entry where entry: "entry_at n (Suc (Node_dispatched_index n)) = Some entry" "Node_dispatched_index n < Node_commit_index n"
    using assms by (auto simp: emit_one_def Let_def split: if_splits option.splits)
  have down: "kept m (step_down_if_removed c m)" for c m by (simp add: step_down_if_removed_def)
  show ?thesis
    using assms entry kept_then0 [OF _ down, of _ n]
    by (cases "entry_kind entry") (auto simp: emit_one_def Let_def case_prod_unfold kept_def)
qed

lemma kept_emit_committed_outputs: "kept n (emit_committed_outputs n)"
proof (induction n rule: emit_committed_outputs.induct)
  case (1 n)
  show ?case
  proof (cases "emit_one n")
    case None
    then show ?thesis by (simp add: emit_committed_outputs.simps)
  next
    case (Some r)
    obtain m xs where r: "r = (m, xs)" by fastforce
    with Some have "kept n (m, xs)" by (simp add: kept_emit_one)
    from kept_then [OF this 1 [OF Some r [symmetric]]] Some r show ?thesis
      by (subst emit_committed_outputs.simps) (simp add: case_prod_unfold Let_def)
  qed
qed

lemma reconcile_snapshot: "Node_snapshot (reconcile_replication_progress n) = Node_snapshot n"
  using leader_only_snapshot [OF leader_only_reconcile] by simp

lemma kept_advance_commit_index: "kept n (advance_commit_index n)"
  using kept_then0 [OF _ kept_emit_committed_outputs, of _ n]
  by (auto simp: advance_commit_index_def Let_def kept_def reconcile_snapshot split: option.split)

lemma kept_replicate: "kept n (replicate_to_follower k d n)"
  by (rule kept_leader_only [OF replicate_to_follower_leader_only appends_from_free [OF replicate_to_follower_appends]])

lemma kept_broadcast_replication: "kept n (broadcast_replication d n)"
  by (rule kept_leader_only [OF broadcast_replication_leader_only appends_from_free [OF broadcast_replication_appends]])

lemma kept_broadcast: "kept n (broadcast_append_entries n)"
  using kept_broadcast_replication by (simp add: broadcast_append_entries_def)

lemma applied_snapshots_reads [simp]: "applied_snapshots (grant_reads ids i) = []" "applied_snapshots (reject_reads ids r) = []"
  by (auto simp: applied_snapshots_empty_iff grant_reads_def reject_reads_def)

lemma kept_read_index_batch: "kept n (read_index_batch ids n)"
proof (rule kept_leader_only [OF read_index_batch_leader_only])
  have "applied_snapshots (snd (broadcast_append_entries m)) = []" for m using kept_broadcast [of m] by (simp add: kept_def)
  then show "applied_snapshots (snd (read_index_batch ids n)) = []"
    by (auto simp: read_index_batch_def Let_def case_prod_unfold split: option.split)
qed

lemma kept_acknowledge_read_barriers: "kept n (acknowledge_read_barriers k s n)"
proof (rule kept_leader_only [OF acknowledge_read_barriers_leader_only])
  have "applied_snapshots (concat (map (\<lambda>(p, confirmed). if confirmed then grant_reads (read_ids p) (read_index p) else []) xs)) = []"
    for xs :: "(PendingReadRound \<times> bool) list" by (induction xs) auto
  then show "applied_snapshots (snd (acknowledge_read_barriers k s n)) = []"
    by (simp add: acknowledge_read_barriers_def Let_def del: map_map)
qed

lemma kept_transfer_leadership: "kept n (transfer_leadership target n)"
proof (rule kept_leader_only [OF transfer_leadership_leader_only])
  have "applied_snapshots (snd (replicate_to_follower target d m)) = []" for d m using kept_replicate [of m] by (simp add: kept_def)
  then show "applied_snapshots (snd (transfer_leadership target n)) = []"
    by (simp add: transfer_leadership_def Let_def case_prod_unfold drain_pending_reads_def send_timeout_now_def)
qed

lemma kept_complete_commit_replicate: "kept n (complete_commit_replicate k b n)"
proof -
  obtain m xs where m: "maybe_complete_leadership_transfer k n = (m, xs)" by fastforce
  have "applied_snapshots xs = []"
    using m by (auto simp: maybe_complete_leadership_transfer_def send_timeout_now_def Let_def split: option.splits if_splits)
  then have q: "kept n (m, xs)" using kept_leader_only [OF maybe_complete_leader_only [of n k]] m by simp
  obtain m' ys where m': "(if b then advance_commit_index m else (m, [])) = (m', ys)" by fastforce
  have "kept m (m', ys)" using kept_advance_commit_index [of m] m' by (auto split: if_splits)
  from kept_then [OF kept_trans [OF q this] kept_replicate, of k ProgressOnly] show ?thesis
    unfolding complete_commit_replicate_def m Let_def prod.case m' by (simp add: case_prod_unfold)
qed

lemma kept_with_progress:
  assumes "\<And>p m. kept m (g p m)"
  shows "kept n (case ps_get (progress (leader (reconcile_replication_progress n))) k of
      None \<Rightarrow> (reconcile_replication_progress n, [])
    | Some p \<Rightarrow> g p (update_progress k (h p) (reconcile_replication_progress n)))"
  using kept_then0 [OF _ assms, of _ n] by (simp add: kept_def reconcile_snapshot split: option.split)

lemma kept_accept_append_response: "kept n (accept_append_response k i n)"
  using kept_with_progress [of "\<lambda>p. complete_commit_replicate k (successful_ack_can_advance_commit (match_index p)
      (match_index (accepted_progress (min i (last_log_index n)) (snapshot_index n) p)) (Node_commit_index n))"
      n k "\<lambda>p _. accepted_progress (min i (last_log_index n)) (snapshot_index n) p"]
  unfolding accept_append_response_def Let_def by (simp add: kept_complete_commit_replicate)

lemma kept_reject_append_response: "kept n (reject_append_response k n)"
  using kept_with_progress [of "\<lambda>_. replicate_to_follower k EnsureContact" n k
      "\<lambda>_ p. if \<not> is_snapshot_mode (mode p) then collapse_into_probe (snapshot_index n) p else p"]
  unfolding reject_append_response_def Let_def by (simp add: kept_replicate)

lemma kept_snapshot_restream: "kept n (snapshot_restream k snap r n)"
  unfolding snapshot_restream_def Let_def
  by (rule kept_with_progress [where g = "\<lambda>_. replicate_to_follower k EnsureContact", OF kept_replicate])

lemma kept_snapshot_installed: "kept n (snapshot_installed k r n)"
  unfolding snapshot_installed_def Let_def
  by (rule kept_with_progress [where g = "\<lambda>_. complete_commit_replicate k True", OF kept_complete_commit_replicate])

lemma kept_snapshot_rejected: "kept n (snapshot_rejected k r n)"
  unfolding snapshot_rejected_def Let_def
  by (rule kept_with_progress [where g = "\<lambda>_. replicate_to_follower k EnsureContact", OF kept_replicate])

lemma record_snapshot:
  "Node_snapshot (record_quorum_ack k n) = Node_snapshot n"
  "Node_snapshot (acknowledge_read_lease k s n) = Node_snapshot n"
  using leader_only_snapshot [OF record_quorum_ack_leader_only [of n k]]
    leader_only_snapshot [OF acknowledge_read_lease_leader_only [of n k s]] by simp_all

lemma kept_handle_append_entries_response: "kept n (handle_append_entries_response k r n)"
proof -
  let ?m = "acknowledge_read_lease k (aer_sequence r) (record_quorum_ack k n)"
  obtain m xs where m: "acknowledge_read_barriers k (aer_sequence r) ?m = (m, xs)" by fastforce
  have q: "kept n (m, xs)"
    using kept_then0 [OF _ kept_acknowledge_read_barriers, of ?m n k "aer_sequence r"] m by (simp add: record_snapshot)
  show ?thesis
    using kept_then [OF q kept_accept_append_response] kept_then [OF q kept_reject_append_response] m
    by (simp add: handle_append_entries_response_def Let_def case_prod_unfold)
qed

lemma kept_handle_install_snapshot_response: "kept n (handle_install_snapshot_response k r n)"
  using kept_then0 [OF record_snapshot(1) kept_snapshot_restream]
    kept_then0 [OF record_snapshot(1) kept_snapshot_installed]
    kept_then0 [OF record_snapshot(1) kept_snapshot_rejected]
  by (simp add: handle_install_snapshot_response_def Let_def record_snapshot(1) split: option.split)
    (simp add: kept_def record_snapshot(1))

lemma kept_follow_leader: "kept n (follow_leader l t n)"
  using kept_become_follower [of n t] by (simp add: kept_def follow_leader_def Let_def case_prod_unfold)

lemma fold_append_snapshot: "Node_snapshot (fold append_log_entry es n) = Node_snapshot n"
  by (induction es arbitrary: n) (simp_all add: append_log_entry_def)

lemma splice_snapshot: "Node_snapshot (fst (splice_entries_after p es f n)) = Node_snapshot n"
  by (auto simp: splice_entries_after_def Let_def case_prod_unfold fold_append_snapshot truncate_from_eq
      split: sum.split option.split)

lemma splice_applied: "splice_entries_after p es f n = (m, Inr outs) \<Longrightarrow> applied_snapshots outs = []"
  by (auto simp: splice_entries_after_def Let_def case_prod_unfold truncate_from_outputs
      split: sum.splits option.splits if_splits)

lemma kept_handle_append_entries: "kept n (handle_append_entries l r n)"
proof (cases "ae_term r < Node_current_term n")
  case True
  then show ?thesis
    by (simp add: handle_append_entries_def Let_def reject_append_entries_def append_entries_response_def)
next
  case False
  obtain m xs where m: "follow_leader l (ae_term r) n = (m, xs)" by fastforce
  have f: "kept n (m, xs)" using kept_follow_leader [of n l "ae_term r"] m by simp
  let ?c = "confirmed_commit_index m r (request_match_index (ae_prev_log_index r) (length (ae_entries r)))"
  obtain m1 res where s: "splice_entries_after (ae_prev_log_index r) (ae_entries r) ?c m = (m1, res)" by fastforce
  have f1: "Node_snapshot m1 = Node_snapshot n"
    using splice_snapshot [of "ae_prev_log_index r" "ae_entries r" ?c m] s f by (simp add: kept_def)
  have emit: "kept n (emit_committed_outputs (map_volatile (\<lambda>v. v\<lparr>commit_index := c\<rparr>) m1))" for c
    using kept_then0 [OF _ kept_emit_committed_outputs] f1 by simp
  show ?thesis
  proof (cases res)
    case (Inl e)
    with False m f f1 s show ?thesis
      by (simp add: handle_append_entries_def Let_def kept_def reject_append_entries_def append_entries_response_def)
  next
    case (Inr ys)
    with splice_applied s have "applied_snapshots ys = []" by blast
    with Inr False m f f1 s emit show ?thesis
      by (auto simp: handle_append_entries_def Let_def kept_def reject_append_entries_def
          accept_append_entries_def append_entries_response_def case_prod_unfold)
  qed
qed

lemma kept_replicate_appended: "kept n (replicate_appended d n)"
proof -
  obtain m xs where m: "advance_commit_index (record_local_progress n) = (m, xs)" by fastforce
  have "Node_snapshot (record_local_progress n) = Node_snapshot n"
    using leader_only_snapshot [OF record_local_progress_leader_only] by simp
  then have q: "kept n (m, xs)" using kept_then0 [OF _ kept_advance_commit_index] m by metis
  from q kept_then [OF q kept_broadcast_replication] m show ?thesis
    by (simp add: replicate_appended_def case_prod_unfold Let_def)
qed

lemma kept_append_proposal: "kept n (append_proposal i p n)"
  by (auto simp: append_proposal_def Let_def kept_def append_log_entry_def split: option.split)

lemma kept_append_proposals: "append_proposals i ps n = (m, xs, b) \<Longrightarrow> kept n (m, xs)"
proof (induction i ps n arbitrary: m xs b rule: append_proposals.induct)
  case (2 i p ps n)
  show ?case
  proof (cases "payload_fits n p")
    case False
    obtain m1 ys c where l: "append_proposals i ps n = (m1, ys, c)" by (cases "append_proposals i ps n") auto
    with False 2(1) [OF False l] 2(3) show ?thesis by (auto simp: kept_def reject_too_large_def)
  next
    case True
    obtain n1 o1 where a: "append_proposal i p n = (n1, o1)" by fastforce
    obtain m1 ys c where l: "append_proposals (LogIndex_next i) ps n1 = (m1, ys, c)"
      by (cases "append_proposals (LogIndex_next i) ps n1") auto
    have "kept n (n1, o1)" using kept_append_proposal [of n i p] a by simp
    moreover have "kept n1 (m1, ys)" using 2(2) True a l by simp
    ultimately show ?thesis using kept_trans True a l 2(3) by auto
  qed
qed simp

lemma kept_step_client_proposal: "kept n (step_client_proposal p n)"
proof -
  let ?a = "append_proposal (LogIndex_next (last_log_index n)) p n"
  have "kept n (fst ?a, snd ?a)" by (simp add: kept_append_proposal)
  from kept_then [OF this kept_replicate_appended] show ?thesis
    by (auto simp: step_client_proposal_def proposal_preflight_rejection_def reject_too_large_def case_prod_unfold
        Let_def split: option.splits if_splits)
qed

lemma kept_step_proposal_batch: "kept n (step_proposal_batch ps n)"
proof -
  obtain m xs b where a: "append_proposals (LogIndex_next (last_log_index n)) ps n = (m, xs, b)"
    by (cases "append_proposals (LogIndex_next (last_log_index n)) ps n") auto
  note q = kept_append_proposals [OF a]
  have "applied_snapshots rs = []" if "proposal_batch_preflight_rejection n ps = Some rs" for rs
    using that by (auto simp: proposal_batch_preflight_rejection_def applied_snapshots_empty_iff split: if_splits option.splits)
  then show ?thesis
    using q kept_then [OF q kept_replicate_appended] a kept_step_client_proposal
    unfolding step_proposal_batch_def
    by (auto simp: case_prod_unfold Let_def split: list.split option.split)
qed

lemma kept_append_then: "kept n (replicate_appended d (append_log_entry e n))"
  by (rule kept_then0 [OF _ kept_replicate_appended]) (simp add: append_log_entry_def)

lemma kept_changes: "changes_membership n r \<Longrightarrow> kept n r"
  using kept_append_then by (auto simp: changes_membership_def refused_def proposes_def)

lemma kept_dangerous_raw: "kept n (dangerous_raw_configuration_proposal c bs n)"
  using kept_append_then
  by (auto simp: dangerous_raw_configuration_proposal_def append_valid_configuration_proposal_def reject_configuration_def
      reject_proposal_def split: sum.split)

section \<open>Elections\<close>

lemma kept_win: "kept n (win_election n)"
proof -
  have "Node_snapshot (leader_start n) = Node_snapshot n"
    by (simp add: leader_start_def append_log_entry_def enter_leadership_def reset_timeout_def)
  then have "kept n (become_leader n)"
    using kept_then0 [OF _ kept_advance_commit_index, of _ n] by (simp add: become_leader_eq Let_def)
  then have "kept n (fst (become_leader n), snd (become_leader n))" by simp
  from kept_then [OF this kept_broadcast] show ?thesis by (simp add: win_election_def case_prod_unfold Let_def)
qed

lemma kept_start_election: "kept n (start_election n)"
proof (cases rule: start_election_cases [of n])
  case idle
  then show ?thesis by (simp add: kept_def)
next
  case (campaign c outs)
  then show ?thesis by (auto simp: kept_def candidate_of_def applied_snapshots_empty_iff)
next
  case (win c outs)
  have "kept n (c, outs)" by (auto simp: win(2,3) kept_def candidate_of_def applied_snapshots_empty_iff)
  from kept_then [OF this kept_win] show ?thesis by (simp add: win(5) win_election_def case_prod_unfold Let_def)
qed

lemma kept_start_pre_vote_round: "kept n (start_pre_vote_round n)"
proof -
  let ?m = "n\<lparr>volatile := (volatile n)\<lparr>role := PreCandidate, leader_hint := None\<rparr>,
      election := begin_pre_vote (Node_id n) (election n)\<rparr>"
  have q: "kept n (?m, map (\<lambda>to_id. Send to_id (PreVoteMsg q)) vs)" for q vs
    by (auto simp: kept_def applied_snapshots_empty_iff)
  have "kept n (fst (start_election ?m), map (\<lambda>to_id. Send to_id (PreVoteMsg q)) vs @ snd (start_election ?m))" for q vs
    by (rule kept_then [OF q kept_start_election])
  moreover have "kept n (map_election reset_timeout n, [])" by (simp add: kept_def)
  ultimately show ?thesis
    using q unfolding start_pre_vote_round_def Let_def by (auto simp: case_prod_unfold split: option.split)
qed

lemma kept_handle_timeout_now: "kept n (handle_timeout_now t n)"
proof -
  have "kept n (fst (become_follower t n), snd (become_follower t n))" by simp
  from kept_then [OF this kept_start_election] show ?thesis
    by (simp add: handle_timeout_now_def case_prod_unfold Let_def)
qed

lemma kept_handle_pre_vote_response: "kept n (handle_pre_vote_response k r n)"
  using kept_then0 [OF _ kept_start_election, of _ n]
  by (simp add: handle_pre_vote_response_def Let_def split: option.split) (simp add: kept_def)

lemma kept_handle_request_vote: "kept n (handle_request_vote k r n)"
  using kept_become_follower [of n "rv_term r"]
  by (simp add: handle_request_vote_def Let_def case_prod_unfold kept_def)

lemma kept_handle_request_vote_response: "kept n (handle_request_vote_response k r n)"
  using kept_then0 [OF _ kept_win [unfolded win_election_def], of _ n]
  by (simp add: handle_request_vote_response_def Let_def) (simp add: kept_def)

lemma kept_tick: "kept n (tick n)"
proof (cases "Node_role n = Leader")
  case True
  let ?a = "map_leader (\<lambda>l. l\<lparr>ticks := ticks l + 1, heartbeat_elapsed := sat_add (heartbeat_elapsed l) 1\<rparr>) n"
  let ?b = "tick_leadership_transfer (tick_read_lease ?a)"
  have b: "Node_snapshot ?b = Node_snapshot n"
    using leader_only_snapshot [OF leader_only_trans0 [OF leader_only_trans0 [OF leader_only_update
      tick_read_lease_leader_only] tick_leadership_transfer_leader_only]] by fastforce
  have "kept m (fst (tick_check_quorum m), case snd (tick_check_quorum m) of None \<Rightarrow> [] | Some outs \<Rightarrow> outs)" for m
    by (auto simp: tick_check_quorum_def Let_def case_prod_unfold kept_def)
  from kept_then0 [OF b this]
  have q: "kept n (fst (tick_check_quorum ?b), case snd (tick_check_quorum ?b) of None \<Rightarrow> [] | Some outs \<Rightarrow> outs)" .
  then have "Node_snapshot (fst (tick_check_quorum ?b)) = Node_snapshot n" by (simp add: kept_def)
  from kept_then0 [OF this kept_broadcast] q this True show ?thesis
    by (cases "tick_check_quorum ?b"; cases "snd (tick_check_quorum ?b)") (auto simp: tick_def Let_def kept_def)
next
  case False
  then show ?thesis
    using kept_then0 [OF _ kept_start_election, of _ n] kept_then0 [OF _ kept_start_pre_vote_round, of _ n]
    by (simp add: tick_def Let_def) (simp add: kept_def)
qed

section \<open>Snapshot handlers\<close>

lemma install_snapshot_applied: "applied_snapshots (snd (install_snapshot_state snap n)) = []"
  using install_outputs [of _ snap "meta_committed_configuration_state (metadata snap)" n]
  by (fastforce simp: install_snapshot_state_def applied_snapshots_empty_iff)

lemma install_snapshot_snapshot: "Node_snapshot (fst (install_snapshot_state snap n)) = Some snap"
  using install_snapshot_state_with_eq [of snap "meta_committed_configuration_state (metadata snap)" n]
  by (fastforce simp: install_snapshot_state_def)

text \<open>One step announces at most one snapshot, the one it leaves.\<close>

definition installs :: "Node \<Rightarrow> Node \<times> Output list \<Rightarrow> bool" where
  "installs n r \<longleftrightarrow> kept n r \<or> (\<exists>s. applied_snapshots (snd r) = [s] \<and> Node_snapshot (fst r) = Some s)"

lemma kept_installs: "kept n r \<Longrightarrow> installs n r"
  by (simp add: installs_def)

lemma installs_then: "kept a (b, xs) \<Longrightarrow> installs b r \<Longrightarrow> installs a (fst r, xs @ snd r)"
  by (auto simp: installs_def kept_def)

lemma soft_snapshot: "soft n n' \<Longrightarrow> Node_snapshot n' = Node_snapshot n"
  by (simp add: soft_def)

lemma applied_snapshots_reply [simp]:
  "(case snapshot_reply n l x of ApplySnapshot s \<Rightarrow> [s] | _ \<Rightarrow> []) = []"
  "(case stage_snapshot_chunk l r of ApplySnapshot s \<Rightarrow> [s] | _ \<Rightarrow> []) = []"
  by (simp_all add: snapshot_reply_def stage_snapshot_chunk_def)

lemmas soft_snapshots = soft_snapshot [OF soft_record_rejection] soft_snapshot [OF soft_record_leader]

lemma installs_dispose: "installs n (dispose_snapshot_chunk l r d n)"
  by (auto simp: dispose_snapshot_chunk_def acknowledge_covered_snapshot_chunk_def accept_current_snapshot_chunk_def
      install_final_snapshot_chunk_def reject_missing_snapshot_transfer_def case_prod_unfold Let_def
      installs_def kept_def soft_snapshots install_snapshot_applied install_snapshot_snapshot
      split: ChunkDisposition.split option.split)

lemma kept_adopt: "kept n (adopt_snapshot_term t n)"
  by (simp add: adopt_snapshot_term_def)

lemma installs_handle_install_snapshot_chunk: "installs n (handle_install_snapshot_chunk l r n)"
proof (cases "isc_term r < Node_current_term n")
  case True
  then show ?thesis by (simp add: handle_install_snapshot_chunk_def Let_def installs_def kept_def soft_snapshots)
next
  case False
  obtain m xs where m: "adopt_snapshot_term (isc_term r) n = (m, xs)" by fastforce
  have q: "kept n (m, xs)" using kept_adopt [of n "isc_term r"] m by simp
  obtain m1 res where c: "classify_snapshot_chunk l r (record_accepted_snapshot_leader l m) = (m1, res)" by fastforce
  have f1: "Node_snapshot m1 = Node_snapshot m"
    using soft_snapshot [OF soft_classify [of "record_accepted_snapshot_leader l m" l r]] c by (simp add: soft_snapshots)
  then have "kept n (m1, xs)" using q by (simp add: kept_def)
  from installs_then [OF this installs_dispose] q f1 False show ?thesis
    unfolding handle_install_snapshot_chunk_def Let_def m prod.case c
    by (auto simp: installs_def kept_def soft_snapshots case_prod_unfold split: sum.split)
qed

lemma installs_handle_install_snapshot: "installs n (handle_install_snapshot l r n)"
proof (cases "is_term r < Node_current_term n")
  case True
  then show ?thesis by (simp add: handle_install_snapshot_def Let_def installs_def kept_def)
next
  case False
  obtain m xs where m: "adopt_snapshot_term (is_term r) n = (m, xs)" by fastforce
  have q: "kept n (m, xs)" using kept_adopt [of n "is_term r"] m by simp
  have w: "applied_snapshots (snd (install_whole_snapshot l s p k)) = [s]"
    "Node_snapshot (fst (install_whole_snapshot l s p k)) = Some s" for s p k
    by (simp_all add: install_whole_snapshot_def Let_def case_prod_unfold install_snapshot_applied install_snapshot_snapshot)
  show ?thesis
    unfolding handle_install_snapshot_def Let_def m prod.case using False q
    by (auto simp: installs_def kept_def soft_snapshots w case_prod_unfold split: sum.split)
qed

section \<open>Steps and batches\<close>

lemma installs_step:
  assumes "node_inv n" "input_wf inp"
  shows "installs n (step inp n)"
proof (cases inp)
  case (MessageInput k m)
  then show ?thesis
    by (cases m) (simp_all add: receive_def kept_installs kept_handle_append_entries kept_handle_append_entries_response
        installs_handle_install_snapshot installs_handle_install_snapshot_chunk kept_handle_install_snapshot_response
        kept_handle_pre_vote_response kept_handle_timeout_now kept_handle_request_vote kept_handle_request_vote_response
        handle_pre_vote_def Let_def)
qed (use assms in \<open>simp_all add: kept_installs kept_tick kept_step_client_proposal kept_changes changes_add_learner
      changes_promote_learner changes_remove_voter changes_enter_joint changes_leave_joint changes_change_membership
      kept_dangerous_raw kept_transfer_leadership Node_read_index_def kept_read_index_batch\<close>)

text \<open>
  A contract that composes: the node evolves soundly, its snapshot is the last one announced or the one it
  had, and the boundaries of the announced snapshots never move back.
\<close>

definition announced :: "Node \<Rightarrow> Node \<times> Output list \<Rightarrow> bool" where
  "announced n r \<longleftrightarrow> good_step n r \<and>
     Node_snapshot (fst r) =
       (if applied_snapshots (snd r) = [] then Node_snapshot n else Some (last (applied_snapshots (snd r)))) \<and>
     sorted (snapshot_index n # map (\<lambda>s. last_included_index (metadata s)) (applied_snapshots (snd r)) @ [snapshot_index (fst r)])"

lemma good_step_floor: "good_step n r \<Longrightarrow> snapshot_index n \<le> snapshot_index (fst r)"
  by (simp add: good_step_def good_def evolves_def)

lemma announced_installs:
  assumes "good_step n r" "installs n r"
  shows "announced n r"
proof -
  consider "applied_snapshots (snd r) = []" "Node_snapshot (fst r) = Node_snapshot n"
    | s where "applied_snapshots (snd r) = [s]" "Node_snapshot (fst r) = Some s"
    using assms(2) by (auto simp: installs_def kept_def)
  then show ?thesis using assms(1) good_step_floor [OF assms(1)] by cases (simp_all add: announced_def snapshot_index_def)
qed

lemma announced_trans:
  assumes "announced a (b, xs)" "announced b (c, ys)"
  shows "announced a (c, xs @ ys)"
proof -
  have "good_step a (c, xs @ ys)" using assms good_step_trans by (auto simp: announced_def)
  with assms show ?thesis by (auto simp: announced_def sorted_append intro: order_trans)
qed

lemma announced_none: "node_inv n \<Longrightarrow> announced n (n, [])"
  by (simp add: announced_def good_step_none)

lemma announced_step: "node_inv n \<Longrightarrow> input_wf inp \<Longrightarrow> announced n (step inp n)"
  by (simp add: announced_installs good_step_step installs_step)

lemma announced_proposals: "node_inv n \<Longrightarrow> announced n (step_proposal_batch ps n)"
  by (simp add: announced_installs good_step_step_proposal_batch kept_installs kept_step_proposal_batch)

lemma announced_reads: "node_inv n \<Longrightarrow> announced n (read_index_batch rs n)"
  by (simp add: announced_installs good_step_read_index_batch kept_installs kept_read_index_batch)

lemma announced_inv: "announced n (n', outs) \<Longrightarrow> node_inv n'"
  using good_step_inv by (auto simp: announced_def)

lemma announced_flush: "node_inv n \<Longrightarrow> announced n (batch_flush b n)"
  by (cases b) (simp_all add: announced_none announced_proposals announced_reads)

definition accepts_announced :: "Node \<times> PendingBatch \<Rightarrow> (Node \<times> PendingBatch) \<times> Output list \<Rightarrow> bool" where
  "accepts_announced s r \<longleftrightarrow> announced (fst s) (fst (fst r), snd r)"

lemma accepts_announced_batch:
  assumes "node_inv n" "input_wf inp"
  shows "accepts_announced (n, b) (batch_accept inp (n, b))"
proof -
  have flush: "accepts_announced (n, b) (let (n, outputs1) = batch_flush b n; (n, outputs2) = step inp n
      in ((n, EmptyBatch), outputs1 @ outputs2))"
  proof -
    have g: "announced n (fst (batch_flush b n), snd (batch_flush b n))" using announced_flush [OF assms(1)] by simp
    from announced_trans [OF g] announced_step [OF announced_inv [OF g] assms(2)]
    show ?thesis by (simp add: accepts_announced_def case_prod_unfold Let_def)
  qed
  have "accepts_announced (n, b) (push_proposal p b n)" "accepts_announced (n, b) (push_read r b n)" for p r
    using assms(1) announced_reads announced_proposals
    by (cases b; simp add: accepts_announced_def case_prod_unfold Let_def announced_none)+
  with flush show ?thesis by (cases inp) simp_all
qed

interpretation announcing: step_contract batch_accept input_wf "node_inv \<circ> fst" accepts_announced
proof unfold_locales
  show "accepts_announced s (batch_accept i s)" if "input_wf i" "(node_inv \<circ> fst) s" for i s
    using accepts_announced_batch [OF _ that(1), of "fst s" "snd s"] that(2) by simp
  show "(node_inv \<circ> fst) s'" if "accepts_announced s (s', outs)" for s s' outs
    using that announced_inv by (simp add: accepts_announced_def)
  show "accepts_announced s (s, [])" if "(node_inv \<circ> fst) s" for s
    using that by (simp add: accepts_announced_def announced_none)
  show "accepts_announced a (c, xs @ ys)" if "accepts_announced a (b, xs)" "accepts_announced b (c, ys)" for a b c xs ys
    using that announced_trans by (simp add: accepts_announced_def)
qed

lemma announced_step_batch:
  assumes "node_inv n" "list_all input_wf inputs"
  shows "announced n (step_batch inputs n)"
proof -
  let ?r = "run_steps batch_accept inputs (n, EmptyBatch)"
  have r: "announced n (fst (fst ?r), snd ?r)"
    using announcing.run_rel [OF assms(2), of "(n, EmptyBatch)"] assms(1) by (simp add: accepts_announced_def)
  let ?f = "batch_flush (snd (fst ?r)) (fst (fst ?r))"
  have "announced (fst (fst ?r)) (fst ?f, snd ?f)" using announced_flush [OF announced_inv [OF r]] by simp
  from announced_trans [OF r this]
  have "announced n (let ((n, pending), outputs1) = ?r; (n, outputs2) = batch_flush pending n in (n, outputs1 @ outputs2))"
    by (simp add: case_prod_unfold Let_def)
  with assms show ?thesis
    unfolding step_batch_def by (auto simp: announced_none announced_step split: list.split)
qed

end
