(* ===== verification/Snapshot_Store.thy ===== *)
theory Snapshot_Store
  imports Snapshot_Receive Wire
begin

text \<open>
  The snapshot store of the storage crate: staging of incoming chunks, promotion of a complete transfer,
  whole and streamed writes, and the chunks it serves to followers, as the in-memory store performs them
  with the validation it shares with the file store. A promoted snapshot is the one that was announced.
\<close>

section \<open>State and errors\<close>

record PersistedRaftSnapshot =
  prs_metadata :: RaftSnapshotMetadata
  prs_application_payload :: "byte list"

record InMemoryStagedTransfer =
  st_transfer :: PendingSnapshotTransfer
  st_bytes :: "byte list"

record InMemoryRaftSnapshotStore =
  ss_current :: "PersistedRaftSnapshot option"
  ss_pending :: "InMemoryStagedTransfer option"

text \<open>The errors the in-memory store reports; those of encoding and file access belong to the file store.\<close>

datatype RaftSnapshotStoreWriteError =
    SourceChunkUnavailable SnapshotTransferId u64
  | StagedChunkWithoutTransfer SnapshotTransferId u64
  | StagedChunkTransferMismatch NodeId SnapshotTransferId NodeId SnapshotTransferId
  | StagedChunkRangeOverflow u64 usize
  | StagedChunkPastEnd u64 u64 u64
  | StagedChunkEmptyBeforeEnd u64 u64
  | StagedChunkDoneMismatch bool u64 u64
  | StagedChunkTransferIdMismatch SnapshotTransferId SnapshotTransferId
  | StagedChunkOffsetMismatch u64 u64
  | PromoteWithoutStagedTransfer SnapshotTransferId
  | PromoteTransferIdMismatch SnapshotTransferId SnapshotTransferId
  | PromoteSnapshotDescriptorMismatch RaftSnapshot RaftSnapshot
  | PromoteIncompleteStagedTransfer u64 u64
  | SnapshotPayloadChecksumMismatch "32 word" "32 word"

definition InMemoryRaftSnapshotStore_new :: InMemoryRaftSnapshotStore where
  "InMemoryRaftSnapshotStore_new = \<lparr>ss_current = None, ss_pending = None\<rparr>"

definition InMemoryRaftSnapshotStore_with_snapshot :: "PersistedRaftSnapshot \<Rightarrow> InMemoryRaftSnapshotStore" where
  "InMemoryRaftSnapshotStore_with_snapshot s = \<lparr>ss_current = Some s, ss_pending = None\<rparr>"

section \<open>Validation\<close>

definition validate_staged_chunk ::
    "StagedSnapshotChunk \<Rightarrow> PendingSnapshotTransfer option \<Rightarrow> RaftSnapshotStoreWriteError + u64" where
  "validate_staged_chunk chunk current =
     (let chunk_len = length (ssc_bytes chunk) in
      case checked_add (ssc_offset chunk) chunk_len of
        None \<Rightarrow> Inl (StagedChunkRangeOverflow (ssc_offset chunk) chunk_len)
      | Some end_offset \<Rightarrow>
          let total = ssc_total_payload_len chunk;
              expected = RaftSnapshot_transfer_id \<lparr>metadata = ssc_metadata chunk, application_payload_len = total,
                application_payload_crc32 = ssc_application_payload_crc32 chunk\<rparr>
          in if end_offset > total then Inl (StagedChunkPastEnd (ssc_offset chunk) chunk_len total)
             else if chunk_len = 0 \<and> end_offset < total then Inl (StagedChunkEmptyBeforeEnd (ssc_offset chunk) total)
             else if ssc_done chunk \<noteq> (end_offset = total) then Inl (StagedChunkDoneMismatch (ssc_done chunk) end_offset total)
             else if ssc_transfer_id chunk \<noteq> expected then Inl (StagedChunkTransferIdMismatch expected (ssc_transfer_id chunk))
             else if ssc_offset chunk = 0 then Inr end_offset
             else case current of
                    None \<Rightarrow> Inl (StagedChunkWithoutTransfer (ssc_transfer_id chunk) (ssc_offset chunk))
                  | Some t \<Rightarrow>
                      if ssc_leader_id chunk \<noteq> pst_leader_id t \<or> ssc_transfer_id chunk \<noteq> pst_transfer_id t \<or>
                         ssc_metadata chunk \<noteq> pst_metadata t \<or> ssc_total_payload_len chunk \<noteq> pst_total_payload_len t \<or>
                         ssc_application_payload_crc32 chunk \<noteq> pst_application_payload_crc32 t
                      then Inl (StagedChunkTransferMismatch (pst_leader_id t) (pst_transfer_id t)
                             (ssc_leader_id chunk) (ssc_transfer_id chunk))
                      else if ssc_offset chunk \<noteq> pst_received_len t
                      then Inl (StagedChunkOffsetMismatch (pst_received_len t) (ssc_offset chunk))
                      else Inr end_offset)"

definition pending_descriptor :: "PendingSnapshotTransfer \<Rightarrow> RaftSnapshot" where
  "pending_descriptor t = \<lparr>metadata = pst_metadata t, application_payload_len = pst_total_payload_len t,
     application_payload_crc32 = pst_application_payload_crc32 t\<rparr>"

definition validate_staged_promotion ::
    "RaftSnapshot \<Rightarrow> PendingSnapshotTransfer option \<Rightarrow> RaftSnapshotStoreWriteError + unit" where
  "validate_staged_promotion snap current =
     (let requested = RaftSnapshot_transfer_id snap in
      case current of
        None \<Rightarrow> Inl (PromoteWithoutStagedTransfer requested)
      | Some t \<Rightarrow>
          if pst_transfer_id t \<noteq> requested then Inl (PromoteTransferIdMismatch (pst_transfer_id t) requested)
          else if pending_descriptor t \<noteq> snap then Inl (PromoteSnapshotDescriptorMismatch (pending_descriptor t) snap)
          else if \<not> pst_is_complete t
          then Inl (PromoteIncompleteStagedTransfer (pst_received_len t) (pst_total_payload_len t))
          else Inr ())"

definition pending_transfer_after_chunk :: "StagedSnapshotChunk \<Rightarrow> u64 \<Rightarrow> PendingSnapshotTransfer" where
  "pending_transfer_after_chunk chunk received_len =
     \<lparr>pst_leader_id = ssc_leader_id chunk, pst_transfer_id = ssc_transfer_id chunk, pst_metadata = ssc_metadata chunk,
      pst_total_payload_len = ssc_total_payload_len chunk,
      pst_application_payload_crc32 = ssc_application_payload_crc32 chunk, pst_received_len = received_len\<rparr>"

section \<open>The in-memory store\<close>

definition staged_transfer :: "InMemoryRaftSnapshotStore \<Rightarrow> PendingSnapshotTransfer option" where
  "staged_transfer s = map_option st_transfer (ss_pending s)"

definition write_snapshot ::
    "PersistedRaftSnapshot \<Rightarrow> InMemoryRaftSnapshotStore \<Rightarrow> InMemoryRaftSnapshotStore \<times> (RaftSnapshotStoreWriteError + unit)" where
  "write_snapshot snap s = (s\<lparr>ss_current := Some snap, ss_pending := None\<rparr>, Inr ())"

definition current_snapshot :: "InMemoryRaftSnapshotStore \<Rightarrow> RaftSnapshot option" where
  "current_snapshot s =
     map_option (\<lambda>c. RaftSnapshot_from_payload (prs_metadata c) (prs_application_payload c)) (ss_current s)"

definition store_snapshot_chunk ::
    "StagedSnapshotChunk \<Rightarrow> InMemoryRaftSnapshotStore \<Rightarrow> InMemoryRaftSnapshotStore \<times> (RaftSnapshotStoreWriteError + unit)" where
  "store_snapshot_chunk chunk s =
     (case validate_staged_chunk chunk (staged_transfer s) of
        Inl e \<Rightarrow> (s, Inl e)
      | Inr validated \<Rightarrow>
          let transfer = pending_transfer_after_chunk chunk validated in
          if ssc_offset chunk = 0 then (s\<lparr>ss_pending := Some \<lparr>st_transfer = transfer, st_bytes = ssc_bytes chunk\<rparr>\<rparr>, Inr ())
          else case ss_pending s of
                 None \<Rightarrow> (s, Inl (StagedChunkWithoutTransfer (ssc_transfer_id chunk) (ssc_offset chunk)))
               | Some staged \<Rightarrow>
                   (s\<lparr>ss_pending := Some (staged\<lparr>st_bytes := st_bytes staged @ ssc_bytes chunk, st_transfer := transfer\<rparr>)\<rparr>, Inr ()))"

definition promote_staged_snapshot ::
    "RaftSnapshot \<Rightarrow> InMemoryRaftSnapshotStore \<Rightarrow> InMemoryRaftSnapshotStore \<times> (RaftSnapshotStoreWriteError + unit)" where
  "promote_staged_snapshot snap s =
     (case validate_staged_promotion snap (staged_transfer s) of
        Inl e \<Rightarrow> (s, Inl e)
      | Inr _ \<Rightarrow>
          (case ss_pending s of
             None \<Rightarrow> (s, Inl (PromoteWithoutStagedTransfer (RaftSnapshot_transfer_id snap)))
           | Some staged \<Rightarrow>
               let actual = crc32 (st_bytes staged) in
               if actual \<noteq> application_payload_crc32 snap
               then (s, Inl (SnapshotPayloadChecksumMismatch (application_payload_crc32 snap) actual))
               else write_snapshot \<lparr>prs_metadata = pst_metadata (st_transfer staged), prs_application_payload = st_bytes staged\<rparr>
                      (s\<lparr>ss_pending := None\<rparr>)))"

definition clear_pending_snapshot_transfer ::
    "InMemoryRaftSnapshotStore \<Rightarrow> InMemoryRaftSnapshotStore \<times> (RaftSnapshotStoreWriteError + unit)" where
  "clear_pending_snapshot_transfer s = (s\<lparr>ss_pending := None\<rparr>, Inr ())"

definition store_chunk_source :: "InMemoryRaftSnapshotStore \<Rightarrow> SnapshotChunkRequest \<Rightarrow> byte list option" where
  "store_chunk_source s req =
     (case ss_current s of
        None \<Rightarrow> None
      | Some current \<Rightarrow>
          let payload = prs_application_payload current in
          if prs_metadata current \<noteq> scr_metadata req then None
          else if length payload \<noteq> scr_total_payload_len req then None
          else if crc32 payload \<noteq> scr_application_payload_crc32 req then None
          else if RaftSnapshot_transfer_id (RaftSnapshot_from_payload (prs_metadata current) payload) \<noteq> scr_transfer_id req
          then None
          else case checked_add (scr_offset req) (scr_len req) of
                 None \<Rightarrow> None
               | Some end_offset \<Rightarrow>
                   if end_offset \<le> length payload then Some (take (scr_len req) (drop (scr_offset req) payload)) else None)"

subsection \<open>Streaming from a source\<close>

definition SNAPSHOT_STREAM_CHUNK_BYTES :: u32 where
  "SNAPSHOT_STREAM_CHUNK_BYTES = 256 * 1024"

definition stream_chunk_len :: "u64 \<Rightarrow> u32 \<Rightarrow> u32" where
  "stream_chunk_len left max_len = (let bounded = min left max_len in if bounded \<le> u32_max then bounded else max_len)"

definition source_chunk ::
    "(SnapshotChunkRequest \<Rightarrow> byte list option) \<Rightarrow> RaftSnapshot \<Rightarrow> SnapshotTransferId \<Rightarrow> u64 \<Rightarrow> u32 \<Rightarrow>
     RaftSnapshotStoreWriteError + byte list" where
  "source_chunk source snap tid offset len =
     (case source \<lparr>scr_transfer_id = tid, scr_metadata = metadata snap, scr_total_payload_len = application_payload_len snap,
        scr_application_payload_crc32 = application_payload_crc32 snap, scr_offset = offset, scr_len = len\<rparr> of
        None \<Rightarrow> Inl (SourceChunkUnavailable tid offset)
      | Some bytes \<Rightarrow> if length bytes = len then Inr bytes else Inl (SourceChunkUnavailable tid offset))"

lemma stream_chunk_len_positive:
  "0 < left \<Longrightarrow> 0 < stream_chunk_len left SNAPSHOT_STREAM_CHUNK_BYTES"
  by (simp add: stream_chunk_len_def SNAPSHOT_STREAM_CHUNK_BYTES_def Let_def)

function stream_payload ::
    "(SnapshotChunkRequest \<Rightarrow> byte list option) \<Rightarrow> RaftSnapshot \<Rightarrow> u64 \<Rightarrow> byte list \<Rightarrow>
     RaftSnapshotStoreWriteError + byte list" where
  "stream_payload source snap offset payload =
     (if offset < application_payload_len snap then
        let len = stream_chunk_len (application_payload_len snap - offset) SNAPSHOT_STREAM_CHUNK_BYTES
        in case source_chunk source snap (RaftSnapshot_transfer_id snap) offset len of
             Inl e \<Rightarrow> Inl e
           | Inr bytes \<Rightarrow> stream_payload source snap (offset + len) (payload @ bytes)
      else Inr payload)"
  by pat_completeness auto

termination
proof (relation "measure (\<lambda>(source, snap, offset, payload). application_payload_len snap - offset)", goal_cases)
  case (2 source snap offset payload len bytes)
  then show ?case using stream_chunk_len_positive [of "application_payload_len snap - offset"] by simp
qed simp

declare stream_payload.simps [simp del]

definition write_snapshot_from_source ::
    "RaftSnapshot \<Rightarrow> (SnapshotChunkRequest \<Rightarrow> byte list option) \<Rightarrow> InMemoryRaftSnapshotStore \<Rightarrow>
     InMemoryRaftSnapshotStore \<times> (RaftSnapshotStoreWriteError + unit)" where
  "write_snapshot_from_source snap source s =
     (case stream_payload source snap 0 [] of
        Inl e \<Rightarrow> (s, Inl e)
      | Inr payload \<Rightarrow>
          let actual = crc32 payload in
          if actual \<noteq> application_payload_crc32 snap
          then (s, Inl (SnapshotPayloadChecksumMismatch (application_payload_crc32 snap) actual))
          else write_snapshot \<lparr>prs_metadata = metadata snap, prs_application_payload = payload\<rparr> s)"

section \<open>The staged bytes are the bytes announced\<close>

definition staging_ok :: "InMemoryRaftSnapshotStore \<Rightarrow> bool" where
  "staging_ok s \<longleftrightarrow>
     (case ss_pending s of
        None \<Rightarrow> True
      | Some staged \<Rightarrow>
          length (st_bytes staged) = pst_received_len (st_transfer staged) \<and>
          pst_received_len (st_transfer staged) \<le> pst_total_payload_len (st_transfer staged) \<and>
          pst_transfer_id (st_transfer staged) = RaftSnapshot_transfer_id (pending_descriptor (st_transfer staged)))"

lemma validate_staged_chunk_Inr:
  assumes "validate_staged_chunk chunk current = Inr received"
  shows "received = ssc_offset chunk + length (ssc_bytes chunk)" "received \<le> ssc_total_payload_len chunk"
    "ssc_done chunk \<longleftrightarrow> received = ssc_total_payload_len chunk"
    "ssc_transfer_id chunk = RaftSnapshot_transfer_id (pending_descriptor (pending_transfer_after_chunk chunk received))"
    "ssc_offset chunk \<noteq> 0 \<Longrightarrow> \<exists>t. current = Some t \<and> pst_received_len t = ssc_offset chunk"
  using assms
  by (auto simp: validate_staged_chunk_def checked_add_def pending_descriptor_def pending_transfer_after_chunk_def Let_def
      split: if_splits option.splits)

lemma staging_write: "staging_ok (fst (write_snapshot snap s))"
  by (simp add: write_snapshot_def staging_ok_def)

lemma staging_clear: "staging_ok (fst (clear_pending_snapshot_transfer s))"
  by (simp add: clear_pending_snapshot_transfer_def staging_ok_def)

lemma staging_promote: "staging_ok s \<Longrightarrow> staging_ok (fst (promote_staged_snapshot snap s))"
  by (auto simp: promote_staged_snapshot_def Let_def staging_write split: sum.split option.split)

lemma staging_source: "staging_ok s \<Longrightarrow> staging_ok (fst (write_snapshot_from_source snap source s))"
  by (auto simp: write_snapshot_from_source_def Let_def staging_write split: sum.split)

lemma staging_store:
  assumes "staging_ok s"
  shows "staging_ok (fst (store_snapshot_chunk chunk s))"
proof (cases "validate_staged_chunk chunk (staged_transfer s)")
  case (Inl e)
  with assms show ?thesis by (simp add: store_snapshot_chunk_def)
next
  case (Inr received)
  note facts = validate_staged_chunk_Inr [OF Inr]
  show ?thesis
  proof (cases "ssc_offset chunk = 0")
    case True
    with Inr facts show ?thesis
      by (simp add: store_snapshot_chunk_def staging_ok_def Let_def) (simp add: pending_transfer_after_chunk_def)
  next
    case False
    with facts(5) obtain staged where "ss_pending s = Some staged" "pst_received_len (st_transfer staged) = ssc_offset chunk"
      by (auto simp: staged_transfer_def)
    with Inr facts assms False show ?thesis
      by (simp add: store_snapshot_chunk_def staging_ok_def Let_def) (simp add: pending_transfer_after_chunk_def)
  qed
qed

lemma store_keeps_current: "ss_current (fst (store_snapshot_chunk chunk s)) = ss_current s"
  by (simp add: store_snapshot_chunk_def Let_def split: sum.split option.split)

lemma promote_installs:
  assumes "staging_ok s" "promote_staged_snapshot snap s = (s', Inr u)"
  shows "current_snapshot s' = Some snap" "ss_pending s' = None"
proof -
  obtain staged where staged: "ss_pending s = Some staged" "pending_descriptor (st_transfer staged) = snap"
    "pst_is_complete (st_transfer staged)" "crc32 (st_bytes staged) = application_payload_crc32 snap"
    "s' = s\<lparr>ss_current := Some \<lparr>prs_metadata = pst_metadata (st_transfer staged), prs_application_payload = st_bytes staged\<rparr>,
      ss_pending := None\<rparr>"
    using assms(2) by (auto simp: promote_staged_snapshot_def validate_staged_promotion_def staged_transfer_def write_snapshot_def
        Let_def split: option.splits if_splits sum.splits)
  have "length (st_bytes staged) = pst_total_payload_len (st_transfer staged)"
    using assms(1) staged(1,3) by (simp add: staging_ok_def pst_is_complete_def)
  with staged show "current_snapshot s' = Some snap" "ss_pending s' = None"
    by (auto simp: current_snapshot_def RaftSnapshot_from_payload_def pending_descriptor_def)
qed

section \<open>A payload sent in chunks\<close>

definition staged_chunk :: "NodeId \<Rightarrow> RaftSnapshot \<Rightarrow> u64 \<Rightarrow> byte list \<Rightarrow> StagedSnapshotChunk" where
  "staged_chunk l snap offset c =
     \<lparr>ssc_leader_id = l, ssc_transfer_id = RaftSnapshot_transfer_id snap, ssc_metadata = metadata snap,
      ssc_total_payload_len = application_payload_len snap, ssc_application_payload_crc32 = application_payload_crc32 snap,
      ssc_offset = offset, ssc_bytes = c, ssc_done = (offset + length c = application_payload_len snap)\<rparr>"

fun staged_chunks :: "NodeId \<Rightarrow> RaftSnapshot \<Rightarrow> u64 \<Rightarrow> byte list list \<Rightarrow> StagedSnapshotChunk list" where
  "staged_chunks l snap offset [] = []"
| "staged_chunks l snap offset (c # cs) = staged_chunk l snap offset c # staged_chunks l snap (offset + length c) cs"

fun store_chunks ::
    "StagedSnapshotChunk list \<Rightarrow> InMemoryRaftSnapshotStore \<Rightarrow> InMemoryRaftSnapshotStore \<times> (RaftSnapshotStoreWriteError + unit)" where
  "store_chunks [] s = (s, Inr ())"
| "store_chunks (c # cs) s = (case store_snapshot_chunk c s of (s, Inl e) \<Rightarrow> (s, Inl e) | (s, Inr _) \<Rightarrow> store_chunks cs s)"

definition transfer_at :: "NodeId \<Rightarrow> RaftSnapshot \<Rightarrow> u64 \<Rightarrow> PendingSnapshotTransfer" where
  "transfer_at l snap received =
     \<lparr>pst_leader_id = l, pst_transfer_id = RaftSnapshot_transfer_id snap, pst_metadata = metadata snap,
      pst_total_payload_len = application_payload_len snap,
      pst_application_payload_crc32 = application_payload_crc32 snap, pst_received_len = received\<rparr>"

definition staging_at :: "NodeId \<Rightarrow> RaftSnapshot \<Rightarrow> byte list \<Rightarrow> InMemoryRaftSnapshotStore \<Rightarrow> InMemoryRaftSnapshotStore" where
  "staging_at l snap bytes s = s\<lparr>ss_pending := Some \<lparr>st_transfer = transfer_at l snap (length bytes), st_bytes = bytes\<rparr>\<rparr>"

lemma staging_at_twice [simp]: "staging_at l snap bs (staging_at l snap bs' s) = staging_at l snap bs s"
  by (simp add: staging_at_def)

lemma store_first_chunk:
  assumes "length c \<le> application_payload_len snap" "application_payload_len snap \<le> u64_max" "c = [] \<longrightarrow> application_payload_len snap = 0"
  shows "store_snapshot_chunk (staged_chunk l snap 0 c) s = (staging_at l snap c s, Inr ())"
  using assms
  by (auto simp: store_snapshot_chunk_def validate_staged_chunk_def checked_add_def pending_transfer_after_chunk_def
      staging_at_def transfer_at_def staged_chunk_def RaftSnapshot_transfer_id_def Let_def)

lemma store_next_chunk:
  assumes "length bs + length c \<le> application_payload_len snap" "application_payload_len snap \<le> u64_max" "bs \<noteq> []" "c \<noteq> []"
  shows "store_snapshot_chunk (staged_chunk l snap (length bs) c) (staging_at l snap bs s) = (staging_at l snap (bs @ c) s, Inr ())"
  using assms
  by (auto simp: store_snapshot_chunk_def validate_staged_chunk_def checked_add_def pending_transfer_after_chunk_def
      staging_at_def transfer_at_def staged_transfer_def staged_chunk_def RaftSnapshot_transfer_id_def Let_def)

lemma store_chunks_tail:
  "bs \<noteq> [] \<Longrightarrow> [] \<notin> set cs \<Longrightarrow> length (bs @ concat cs) \<le> application_payload_len snap \<Longrightarrow> application_payload_len snap \<le> u64_max \<Longrightarrow>
   store_chunks (staged_chunks l snap (length bs) cs) (staging_at l snap bs s) = (staging_at l snap (bs @ concat cs) s, Inr ())"
proof (induction cs arbitrary: bs)
  case (Cons c cs)
  from Cons.IH [of "bs @ c"] Cons.prems store_next_chunk [of bs c snap l s]
  show ?case by auto
qed simp

lemma store_chunks_whole:
  assumes "chunks = [[]] \<or> chunks \<noteq> [] \<and> [] \<notin> set chunks" "length (concat chunks) = application_payload_len snap"
    "application_payload_len snap \<le> u64_max"
  shows "store_chunks (staged_chunks l snap 0 chunks) s = (staging_at l snap (concat chunks) s, Inr ())"
proof -
  obtain c cs where c: "chunks = c # cs" using assms(1) by (cases chunks) auto
  have "store_chunks (staged_chunks l snap 0 chunks) s = store_chunks (staged_chunks l snap (length c) cs) (staging_at l snap c s)"
    using store_first_chunk [of c snap l s] assms c by auto
  also have "\<dots> = (staging_at l snap (concat chunks) s, Inr ())"
    using store_chunks_tail [of c cs snap l s] assms c by (cases "c = []") auto
  finally show ?thesis .
qed

text \<open>
  C20: A snapshot sent in chunks arrives whole. Split a payload anywhere into non-empty pieces (or one
  empty piece) and stage them in order, over whatever the store held. Every piece is accepted, the promotion
  of the announced descriptor succeeds, that descriptor becomes the current snapshot, and the store then
  serves every slice of the payload to a request for it.
\<close>

theorem staged_snapshot_arrives_whole:
  assumes "concat chunks = payload" "chunks = [[]] \<or> chunks \<noteq> [] \<and> [] \<notin> set chunks" "length payload \<le> u64_max"
    "snap = RaftSnapshot_from_payload m payload"
  shows "\<exists>s1 s2. store_chunks (staged_chunks l snap 0 chunks) s = (s1, Inr ()) \<and> promote_staged_snapshot snap s1 = (s2, Inr ()) \<and>
    current_snapshot s2 = Some snap \<and> staged_transfer s2 = None \<and>
    (\<forall>offset len. offset + len \<le> length payload \<longrightarrow>
       store_chunk_source s2 \<lparr>scr_transfer_id = RaftSnapshot_transfer_id snap, scr_metadata = m, scr_total_payload_len = length payload,
         scr_application_payload_crc32 = crc32 payload, scr_offset = offset, scr_len = len\<rparr> = Some (take len (drop offset payload)))"
proof -
  have snap: "application_payload_len snap = length payload" "application_payload_crc32 snap = crc32 payload" "metadata snap = m"
    using assms(4) by (simp_all add: RaftSnapshot_from_payload_def)
  let ?s1 = "staging_at l snap payload s"
  have "store_chunks (staged_chunks l snap 0 chunks) s = (?s1, Inr ())"
    using store_chunks_whole [OF assms(2), of snap l s] assms(1,3) snap by simp
  moreover have "pending_descriptor (transfer_at l snap (length payload)) = snap"
    by (simp add: pending_descriptor_def transfer_at_def)
  then have p: "promote_staged_snapshot snap ?s1 =
      (s\<lparr>ss_current := Some \<lparr>prs_metadata = m, prs_application_payload = payload\<rparr>, ss_pending := None\<rparr>, Inr ())"
    using snap by (simp add: promote_staged_snapshot_def validate_staged_promotion_def staged_transfer_def staging_at_def
        pst_is_complete_def) (simp add: transfer_at_def write_snapshot_def)
  ultimately show ?thesis
    using assms(3,4) snap by (auto simp: current_snapshot_def staged_transfer_def store_chunk_source_def checked_add_def Let_def)
qed

definition sample_staged_metadata :: RaftSnapshotMetadata where
  "sample_staged_metadata = \<lparr>group_id = ''g'', writer_id = 1, last_included_index = 5, last_included_term = 2,
     hard_state_term = 2, application = \<lparr>app_kind = ''kv'', app_version = 1\<rparr>, meta_committed_configuration = None\<rparr>"

theorem staged_snapshot_arrives_whole_witness:
  "\<exists>s1 s2. store_chunks (staged_chunks 1 (RaftSnapshot_from_payload sample_staged_metadata [1, 2, 3]) 0 [[1, 2], [3]])
       InMemoryRaftSnapshotStore_new = (s1, Inr ()) \<and>
     promote_staged_snapshot (RaftSnapshot_from_payload sample_staged_metadata [1, 2, 3]) s1 = (s2, Inr ()) \<and>
     current_snapshot s2 = Some (RaftSnapshot_from_payload sample_staged_metadata [1, 2, 3])"
proof -
  have "concat [[1, 2], [3 :: byte]] = [1, 2, 3]" "length [1, 2, 3 :: byte] \<le> u64_max" by (simp_all add: u64_max_def)
  from staged_snapshot_arrives_whole [OF this(1) _ this(2) refl, where m = sample_staged_metadata and l = 1 and
      s = InMemoryRaftSnapshotStore_new]
  show ?thesis by auto
qed

end
