(* ===== verification/Storage_Format.thy ===== *)
theory Storage_Format
  imports Wire Node_State
begin

text \<open>
  The durable formats of \<open>rafter-storage\<close>: the byte cursor and writer (\<open>format/cursor.rs\<close>), checksummed
  envelopes (\<open>format/envelope.rs\<close>), and version 1 of hard states, log entries, compaction markers and the
  hard-state journal (\<open>format/v1\<close>). A reader is the unread rest of its input: every operation of the
  source depends on nothing else. A writer is the bytes written so far.
\<close>

section \<open>Cursor and envelope\<close>

datatype CursorError = CursorEof usize usize | CursorTrailing usize

datatype ChecksumError = ChecksumEof usize usize | ChecksumMismatched u32 u32

type_synonym ('e, 'a) parser = "byte list \<Rightarrow> 'e + 'a \<times> byte list"

definition cursor_take :: "usize \<Rightarrow> (CursorError, byte list) parser" where
  "cursor_take len input =
     (if length input < len then Inl (CursorEof len (length input)) else Inr (take len input, drop len input))"

definition cursor_finish :: "(CursorError, unit) parser" where
  "cursor_finish input = (if input = [] then Inr ((), input) else Inl (CursorTrailing (length input)))"

definition parse_then :: "('e, 'a) parser \<Rightarrow> ('a \<Rightarrow> ('e, 'b) parser) \<Rightarrow> ('e, 'b) parser" where
  "parse_then d f input = and_then (d input) (\<lambda>(x, rest). f x rest)"

definition parse_result :: "'e + 'a \<Rightarrow> ('e, 'a) parser" where
  "parse_result r input = map_sum id (\<lambda>x. (x, input)) r"

text \<open>The \<open>?\<close> operator on a cursor operation, with the error conversion of the format at hand.\<close>

definition cursor_as :: "(CursorError \<Rightarrow> 'e) \<Rightarrow> (CursorError, 'a) parser \<Rightarrow> ('e, 'a) parser" where
  "cursor_as convert d input = map_sum convert id (d input)"

definition cursor_magic :: "(CursorError, byte list) parser" where
  "cursor_magic = cursor_take 4"

definition cursor_u8 :: "(CursorError, byte) parser" where
  "cursor_u8 = parse_then (cursor_take 1) (\<lambda>bs. parse_result (Inr (hd bs)))"

definition cursor_u32 :: "(CursorError, u32) parser" where
  "cursor_u32 = parse_then (cursor_take 4) (\<lambda>bs. parse_result (Inr (from_be_bytes bs)))"

definition cursor_u64 :: "(CursorError, u64) parser" where
  "cursor_u64 = parse_then (cursor_take 8) (\<lambda>bs. parse_result (Inr (from_be_bytes bs)))"

definition finish_checksummed :: "byte list \<Rightarrow> byte list" where
  "finish_checksummed writer = writer @ to_be_bytes 4 (unat (crc32 writer))"

definition verify_checksum :: "byte list \<Rightarrow> ChecksumError + byte list" where
  "verify_checksum input =
     (if length input < 4 then Inl (ChecksumEof 4 (length input))
      else let body = take (length input - 4) input;
               expected = from_be_bytes (drop (length input - 4) input);
               actual = unat (crc32 body)
           in if expected = actual then Inr body else Inl (ChecksumMismatched expected actual))"

definition advanceable_log_index :: "u64 \<Rightarrow> LogIndex option" where
  "advanceable_log_index raw = (if raw \<noteq> u64_max then Some raw else None)"

text \<open>What the parsers accept: a value and the rest, exactly when the input starts with the value's bytes.\<close>

named_theorems parses "exact characterisations of parsers"

lemma cursor_take_iff [parses]: "cursor_take n input = Inr (bs, rest) \<longleftrightarrow> length bs = n \<and> input = bs @ rest"
  by (auto simp: cursor_take_def min_def)

lemma cursor_finish_iff [parses]: "cursor_finish input = Inr (u, rest) \<longleftrightarrow> input = [] \<and> rest = []"
  by (auto simp: cursor_finish_def)

lemma parse_then_iff [parses]:
  "parse_then d f input = Inr (y, rest) \<longleftrightarrow> (\<exists>x r. d input = Inr (x, r) \<and> f x r = Inr (y, rest))"
  by (cases "d input") (auto simp: parse_then_def)

lemma parse_result_iff [parses]: "parse_result r input = Inr (x, rest) \<longleftrightarrow> r = Inr x \<and> rest = input"
  by (cases r) (auto simp: parse_result_def)

lemma cursor_as_iff [parses]: "cursor_as convert d input = Inr z \<longleftrightarrow> d input = Inr z"
  by (cases "d input") (auto simp: cursor_as_def)

lemma cursor_u8_iff [parses]: "cursor_u8 input = Inr (b, rest) \<longleftrightarrow> input = b # rest"
  by (auto simp: cursor_u8_def parses length_Suc_conv)

lemma parse_u8_then [simp]:
  "parse_then (cursor_as convert cursor_u8) f (b # rest) = f b rest"
  "parse_then (cursor_as convert cursor_u8) f [] = Inl (convert (CursorEof 1 0))"
  by (simp_all add: parse_then_def cursor_as_def cursor_u8_def cursor_take_def parse_result_def)

lemma cursor_be_iff:
  "parse_then (cursor_take n) (\<lambda>bs. parse_result (Inr (from_be_bytes bs))) input = Inr (v, rest) \<longleftrightarrow>
     v < 256 ^ n \<and> input = to_be_bytes n v @ rest"
proof -
  have "(\<exists>bs. length bs = n \<and> input = bs @ rest \<and> from_be_bytes bs = v) \<longleftrightarrow> v < 256 ^ n \<and> input = to_be_bytes n v @ rest"
    using be_bytes_iff [of _ n v] by (metis length_to_be_bytes)
  then show ?thesis by (auto simp: parses)
qed

lemma cursor_u32_iff [parses]: "cursor_u32 input = Inr (v, rest) \<longleftrightarrow> v \<le> u32_max \<and> input = to_be_bytes 4 v @ rest"
  by (auto simp: cursor_u32_def cursor_be_iff u32_max_def)

lemma cursor_u64_iff [parses]: "cursor_u64 input = Inr (v, rest) \<longleftrightarrow> v \<le> u64_max \<and> input = to_be_bytes 8 v @ rest"
  by (auto simp: cursor_u64_def cursor_be_iff u64_max_def)

lemma cursor_magic_iff [parses]: "cursor_magic input = Inr (bs, rest) \<longleftrightarrow> length bs = 4 \<and> input = bs @ rest"
  by (simp add: cursor_magic_def parses)

lemma advanceable_iff [simp]: "advanceable_log_index raw = Some i \<longleftrightarrow> i = raw \<and> raw \<noteq> u64_max"
  by (auto simp: advanceable_log_index_def)

lemma verify_checksum_iff: "verify_checksum input = Inr body \<longleftrightarrow> input = finish_checksummed body"
proof -
  have bound: "unat (crc32 body) < 256 ^ 4" using unsigned_less [of "crc32 body", where ?'a = nat] by simp
  show ?thesis
  proof (cases "length input < 4")
    case False
    let ?n = "length input - 4"
    have len: "length (drop ?n input) = 4" using False by simp
    have split: "input = take ?n input @ drop ?n input" by simp
    have "from_be_bytes (drop ?n input) = unat (crc32 b) \<longleftrightarrow> drop ?n input = to_be_bytes 4 (unat (crc32 b))" for b
      using be_bytes_iff [OF len, of "unat (crc32 b)"] unsigned_less [of "crc32 b", where ?'a = nat] by auto
    then have "verify_checksum input = Inr body \<longleftrightarrow> take ?n input = body \<and> drop ?n input = to_be_bytes 4 (unat (crc32 body))"
      using False by (auto simp: verify_checksum_def Let_def)
    also have "\<dots> \<longleftrightarrow> input = body @ to_be_bytes 4 (unat (crc32 body))"
      using split by (metis append_eq_conv_conj length_append length_to_be_bytes diff_add_inverse2 add_diff_cancel_right')
    finally show ?thesis by (simp add: finish_checksummed_def)
  qed (auto simp: verify_checksum_def finish_checksummed_def)
qed

lemma length_finish_checksummed [simp]: "length (finish_checksummed body) = length body + 4"
  by (simp add: finish_checksummed_def)

lemma finish_checksummed_inject: "finish_checksummed a = finish_checksummed b \<longleftrightarrow> a = b"
  using verify_checksum_iff by (metis sum.inject(2))

section \<open>Hard states\<close>

record RaftHardState =
  hs_current_term :: Term
  hs_voted_for :: "NodeId option"
  hs_commit_index :: LogIndex
  hs_committed_configuration :: "CommittedConfiguration option"

definition RaftHardState_default :: RaftHardState where
  "RaftHardState_default =
     \<lparr>hs_current_term = 0, hs_voted_for = None, hs_commit_index = 0, hs_committed_configuration = None\<rparr>"

datatype DecodeRaftHardStateError =
    HsUnexpectedEof usize usize | HsInvalidMagic "byte list" | HsUnsupportedVersion byte | HsInvalidVotedForFlag byte
  | HsNonCanonicalAbsentVotedFor NodeId | HsInvalidCommittedConfigurationFlag byte
  | HsNonCanonicalAbsentCommittedConfiguration LogIndex ConfigurationId
  | HsChecksumMismatch u32 u32 | HsTrailingBytes usize

definition RAFT_HARD_STATE_MAGIC :: "byte list" where
  "RAFT_HARD_STATE_MAGIC = [0x52, 0x46, 0x48, 0x53]"

definition RAFT_HARD_STATE_VERSION :: byte where
  "RAFT_HARD_STATE_VERSION = 1"

fun hs_cursor :: "CursorError \<Rightarrow> DecodeRaftHardStateError" where
  "hs_cursor (CursorEof needed left) = HsUnexpectedEof needed left"
| "hs_cursor (CursorTrailing left) = HsTrailingBytes left"

fun hs_checksum :: "ChecksumError \<Rightarrow> DecodeRaftHardStateError" where
  "hs_checksum (ChecksumEof needed left) = HsUnexpectedEof needed left"
| "hs_checksum (ChecksumMismatched expected actual) = HsChecksumMismatch expected actual"

definition encode_raft_hard_state :: "RaftHardState \<Rightarrow> byte list" where
  "encode_raft_hard_state state = finish_checksummed
     (RAFT_HARD_STATE_MAGIC @ [RAFT_HARD_STATE_VERSION] @ to_be_bytes 8 (hs_current_term state) @
      (case hs_voted_for state of
         Some node_id \<Rightarrow> [1] @ to_be_bytes 8 node_id
       | None \<Rightarrow> [0] @ to_be_bytes 8 0) @
      to_be_bytes 8 (hs_commit_index state) @
      (case hs_committed_configuration state of
         Some c \<Rightarrow> [1] @ to_be_bytes 8 (cc_index c) @ to_be_bytes 8 (cc_config_id c)
       | None \<Rightarrow> [0] @ to_be_bytes 8 0 @ to_be_bytes 8 0))"

definition decode_voted_for :: "(DecodeRaftHardStateError, NodeId option) parser" where
  "decode_voted_for = parse_then (cursor_as hs_cursor cursor_u8) (\<lambda>flag.
     if flag = 0 then parse_then (cursor_as hs_cursor cursor_u64) (\<lambda>node_id.
       parse_result (if node_id \<noteq> 0 then Inl (HsNonCanonicalAbsentVotedFor node_id) else Inr None))
     else if flag = 1 then parse_then (cursor_as hs_cursor cursor_u64) (\<lambda>node_id. parse_result (Inr (Some node_id)))
     else parse_result (Inl (HsInvalidVotedForFlag flag)))"

definition decode_committed :: "(DecodeRaftHardStateError, CommittedConfiguration option) parser" where
  "decode_committed = parse_then (cursor_as hs_cursor cursor_u8) (\<lambda>flag.
     if flag = 0 then
       parse_then (cursor_as hs_cursor cursor_u64) (\<lambda>index. parse_then (cursor_as hs_cursor cursor_u64) (\<lambda>config_id.
         parse_result (if index \<noteq> 0 \<or> config_id \<noteq> 0
           then Inl (HsNonCanonicalAbsentCommittedConfiguration index config_id) else Inr None)))
     else if flag = 1 then
       parse_then (cursor_as hs_cursor cursor_u64) (\<lambda>index. parse_then (cursor_as hs_cursor cursor_u64) (\<lambda>config_id.
         parse_result (Inr (Some \<lparr>cc_index = index, cc_config_id = config_id\<rparr>))))
     else parse_result (Inl (HsInvalidCommittedConfigurationFlag flag)))"

definition decode_hard_state_body :: "(DecodeRaftHardStateError, RaftHardState) parser" where
  "decode_hard_state_body =
     parse_then (cursor_as hs_cursor cursor_magic) (\<lambda>magic.
     if magic \<noteq> RAFT_HARD_STATE_MAGIC then parse_result (Inl (HsInvalidMagic magic)) else
     parse_then (cursor_as hs_cursor cursor_u8) (\<lambda>version.
     if version \<noteq> RAFT_HARD_STATE_VERSION then parse_result (Inl (HsUnsupportedVersion version)) else
     parse_then (cursor_as hs_cursor cursor_u64) (\<lambda>trm.
     parse_then decode_voted_for (\<lambda>voted.
     parse_then (cursor_as hs_cursor cursor_u64) (\<lambda>commit.
     parse_then decode_committed (\<lambda>committed.
     parse_then (cursor_as hs_cursor cursor_finish) (\<lambda>_.
     parse_result (Inr \<lparr>hs_current_term = trm, hs_voted_for = voted, hs_commit_index = commit,
       hs_committed_configuration = committed\<rparr>))))))))"

definition decode_raft_hard_state :: "byte list \<Rightarrow> DecodeRaftHardStateError + RaftHardState" where
  "decode_raft_hard_state envelope =
     and_then (map_sum hs_checksum id (verify_checksum envelope)) (\<lambda>body.
     map_sum id fst (decode_hard_state_body body))"

text \<open>The integers of a hard state in the range of their types.\<close>

definition hard_state_ok :: "RaftHardState \<Rightarrow> bool" where
  "hard_state_ok s \<longleftrightarrow> hs_current_term s \<le> u64_max \<and> (\<forall>v. hs_voted_for s = Some v \<longrightarrow> v \<le> u64_max) \<and>
     hs_commit_index s \<le> u64_max \<and>
     (\<forall>c. hs_committed_configuration s = Some c \<longrightarrow> cc_index c \<le> u64_max \<and> cc_config_id c \<le> u64_max)"

lemma decode_voted_for_iff [parses]:
  "decode_voted_for input = Inr (v, rest) \<longleftrightarrow>
     (\<forall>n. v = Some n \<longrightarrow> n \<le> u64_max) \<and>
     input = (case v of Some n \<Rightarrow> [1] @ to_be_bytes 8 n | None \<Rightarrow> [0] @ to_be_bytes 8 0) @ rest"
  by (cases input; cases v) (auto simp: decode_voted_for_def parses)

lemma decode_committed_iff [parses]:
  "decode_committed input = Inr (v, rest) \<longleftrightarrow>
     (\<forall>c. v = Some c \<longrightarrow> cc_index c \<le> u64_max \<and> cc_config_id c \<le> u64_max) \<and>
     input = (case v of Some c \<Rightarrow> [1] @ to_be_bytes 8 (cc_index c) @ to_be_bytes 8 (cc_config_id c)
       | None \<Rightarrow> [0] @ to_be_bytes 8 0 @ to_be_bytes 8 0) @ rest"
proof (cases v)
  case None
  then show ?thesis by (cases input) (auto simp: decode_committed_def parses)
next
  case (Some c)
  then show ?thesis by (cases input; cases c) (auto simp: decode_committed_def parses)
qed

lemma decode_hard_state_body_iff [parses]:
  "decode_hard_state_body input = Inr (s, rest) \<longleftrightarrow> rest = [] \<and> hard_state_ok s \<and> finish_checksummed input = encode_raft_hard_state s"
proof (cases s)
  case (fields t v c k)
  then show ?thesis
    by (auto simp: decode_hard_state_body_def parses hard_state_ok_def encode_raft_hard_state_def finish_checksummed_inject
        RAFT_HARD_STATE_MAGIC_def)
qed

lemma map_fst_Inr: "map_sum id fst r = Inr x \<longleftrightarrow> (\<exists>rest. r = Inr (x, rest))"
  by (cases r) auto

lemma decode_raft_hard_state_iff:
  "decode_raft_hard_state envelope = Inr s \<longleftrightarrow> hard_state_ok s \<and> envelope = encode_raft_hard_state s"
proof -
  have "decode_raft_hard_state envelope = Inr s \<longleftrightarrow>
      (\<exists>body rest. verify_checksum envelope = Inr body \<and> decode_hard_state_body body = Inr (s, rest))"
    by (cases "verify_checksum envelope") (simp_all add: decode_raft_hard_state_def map_fst_Inr)
  then show ?thesis by (auto simp: verify_checksum_iff decode_hard_state_body_iff encode_raft_hard_state_def)
qed

lemma length_encode_raft_hard_state: "length (encode_raft_hard_state s) = 51"
  by (simp add: encode_raft_hard_state_def RAFT_HARD_STATE_MAGIC_def split: option.split)

section \<open>Log entries\<close>

record PersistedRaftLogEntry =
  pe_index :: LogIndex
  pe_term :: Term
  pe_kind :: LogEntryKind

datatype EncodeRaftLogEntryError = PayloadTooLarge usize | TooManyMembers usize | EncodeIndexAtMaximum

datatype DecodeRaftLogEntryError =
    LeUnexpectedEof usize usize | LeInvalidMagic "byte list" | LeUnsupportedVersion byte | LeUnknownEntryKind byte
  | LeIndexAtMaximum | LeInvalidMembership MembershipValidationError
  | LeNonCanonicalMembershipOrder string NodeId NodeId | LeChecksumMismatch u32 u32 | LeTrailingBytes usize

fun le_cursor :: "CursorError \<Rightarrow> DecodeRaftLogEntryError" where
  "le_cursor (CursorEof needed left) = LeUnexpectedEof needed left"
| "le_cursor (CursorTrailing left) = LeTrailingBytes left"

fun le_checksum :: "ChecksumError \<Rightarrow> DecodeRaftLogEntryError" where
  "le_checksum (ChecksumEof needed left) = LeUnexpectedEof needed left"
| "le_checksum (ChecksumMismatched expected actual) = LeChecksumMismatch expected actual"

definition RAFT_LOG_ENTRY_MAGIC :: "byte list" where
  "RAFT_LOG_ENTRY_MAGIC = [0x52, 0x46, 0x4c, 0x45]"

definition RAFT_LOG_ENTRY_VERSION :: byte where
  "RAFT_LOG_ENTRY_VERSION = 1"

definition write_payload :: "byte list \<Rightarrow> EncodeRaftLogEntryError + byte list" where
  "write_payload payload =
     (if length payload \<le> u32_max then Inr (to_be_bytes 4 (length payload) @ payload) else Inl (PayloadTooLarge (length payload)))"

definition write_node_ids :: "NodeId list \<Rightarrow> EncodeRaftLogEntryError + byte list" where
  "write_node_ids node_ids =
     (if length node_ids \<le> u32_max
      then Inr (to_be_bytes 4 (length node_ids) @ concat (map (to_be_bytes 8) node_ids))
      else Inl (TooManyMembers (length node_ids)))"

definition write_membership_set :: "MembershipSet \<Rightarrow> EncodeRaftLogEntryError + byte list" where
  "write_membership_set m =
     and_then (write_node_ids (voters m)) (\<lambda>vs. and_then (write_node_ids (learners m)) (\<lambda>ls. Inr (vs @ ls)))"

fun write_log_entry_kind :: "LogEntryKind \<Rightarrow> EncodeRaftLogEntryError + byte list" where
  "write_log_entry_kind (Application payload) = and_then (write_payload payload) (\<lambda>bs. Inr (0 # bs))"
| "write_log_entry_kind (Configuration (StableEntry cid m)) =
     and_then (write_membership_set m) (\<lambda>bs. Inr (1 # to_be_bytes 8 cid @ bs))"
| "write_log_entry_kind (Configuration (JointEntry cid j)) =
     and_then (write_membership_set (old_membership j)) (\<lambda>old.
     and_then (write_membership_set (new_membership j)) (\<lambda>new. Inr (2 # to_be_bytes 8 cid @ old @ new)))"
| "write_log_entry_kind Noop = Inr [3]"

text \<open>Encoding behind what a buffer already holds; a refusal leaves the buffer as it was.\<close>

definition encode_raft_log_entry_appending ::
    "PersistedRaftLogEntry \<Rightarrow> byte list \<Rightarrow> byte list \<times> (EncodeRaftLogEntryError + usize)" where
  "encode_raft_log_entry_appending e encoded =
     (case advanceable_log_index (pe_index e) of
        None \<Rightarrow> (encoded, Inl EncodeIndexAtMaximum)
      | Some index \<Rightarrow>
          let start = length encoded;
              writer = encoded @ RAFT_LOG_ENTRY_MAGIC @ [RAFT_LOG_ENTRY_VERSION] @ to_be_bytes 8 index @ to_be_bytes 8 (pe_term e)
          in case write_log_entry_kind (pe_kind e) of
               Inl error \<Rightarrow> (take start writer, Inl error)
             | Inr kind \<Rightarrow>
                 let writer = writer @ kind;
                     writer = writer @ to_be_bytes 4 (unat (crc32 (drop start writer)))
                 in (writer, Inr (length writer - start)))"

definition encode_raft_log_entry :: "PersistedRaftLogEntry \<Rightarrow> EncodeRaftLogEntryError + byte list" where
  "encode_raft_log_entry e =
     (let (encoded, result) = encode_raft_log_entry_appending e [] in and_then result (\<lambda>_. Inr encoded))"

primrec read_node_id_list ::
    "nat \<Rightarrow> string \<Rightarrow> NodeId list \<Rightarrow> (DecodeRaftLogEntryError, NodeId list) parser" where
  "read_node_id_list 0 member_kind node_ids = parse_result (Inr node_ids)"
| "read_node_id_list (Suc n) member_kind node_ids =
     parse_then (cursor_as le_cursor cursor_u64) (\<lambda>node_id.
       if node_ids \<noteq> [] \<and> last node_ids > node_id
       then parse_result (Inl (LeNonCanonicalMembershipOrder member_kind (last node_ids) node_id))
       else read_node_id_list n member_kind (node_ids @ [node_id]))"

definition read_node_ids :: "string \<Rightarrow> (DecodeRaftLogEntryError, NodeId list) parser" where
  "read_node_ids member_kind =
     parse_then (cursor_as le_cursor cursor_u32) (\<lambda>len. read_node_id_list len member_kind [])"

definition read_membership_set :: "(DecodeRaftLogEntryError, MembershipSet) parser" where
  "read_membership_set =
     parse_then (read_node_ids ''voters'') (\<lambda>vs. parse_then (read_node_ids ''learners'') (\<lambda>ls.
     parse_result (map_sum LeInvalidMembership id (MembershipSet_new vs ls))))"

definition read_log_entry_kind :: "(DecodeRaftLogEntryError, LogEntryKind) parser" where
  "read_log_entry_kind = parse_then (cursor_as le_cursor cursor_u8) (\<lambda>kind.
     if kind = 0 then
       parse_then (cursor_as le_cursor cursor_u32) (\<lambda>len. parse_then (cursor_as le_cursor (cursor_take len)) (\<lambda>payload.
         parse_result (Inr (Application payload))))
     else if kind = 1 then
       parse_then (cursor_as le_cursor cursor_u64) (\<lambda>config_id. parse_then read_membership_set (\<lambda>m.
         parse_result (Inr (Configuration (StableEntry config_id m)))))
     else if kind = 2 then
       parse_then (cursor_as le_cursor cursor_u64) (\<lambda>config_id. parse_then read_membership_set (\<lambda>old.
       parse_then read_membership_set (\<lambda>new.
         parse_result (Inr (Configuration (JointEntry config_id \<lparr>old_membership = old, new_membership = new\<rparr>))))))
     else if kind = 3 then parse_result (Inr Noop)
     else parse_result (Inl (LeUnknownEntryKind kind)))"

definition decode_log_entry_body :: "(DecodeRaftLogEntryError, PersistedRaftLogEntry) parser" where
  "decode_log_entry_body =
     parse_then (cursor_as le_cursor cursor_magic) (\<lambda>magic.
     if magic \<noteq> RAFT_LOG_ENTRY_MAGIC then parse_result (Inl (LeInvalidMagic magic)) else
     parse_then (cursor_as le_cursor cursor_u8) (\<lambda>version.
     if version \<noteq> RAFT_LOG_ENTRY_VERSION then parse_result (Inl (LeUnsupportedVersion version)) else
     parse_then (cursor_as le_cursor cursor_u64) (\<lambda>raw.
     parse_then (parse_result (case advanceable_log_index raw of None \<Rightarrow> Inl LeIndexAtMaximum | Some i \<Rightarrow> Inr i)) (\<lambda>index.
     parse_then (cursor_as le_cursor cursor_u64) (\<lambda>trm.
     parse_then read_log_entry_kind (\<lambda>kind.
     parse_then (cursor_as le_cursor cursor_finish) (\<lambda>_.
     parse_result (Inr \<lparr>pe_index = index, pe_term = trm, pe_kind = kind\<rparr>))))))))"

definition decode_raft_log_entry :: "byte list \<Rightarrow> DecodeRaftLogEntryError + PersistedRaftLogEntry" where
  "decode_raft_log_entry envelope =
     and_then (map_sum le_checksum id (verify_checksum envelope)) (\<lambda>body. map_sum id fst (decode_log_entry_body body))"

text \<open>Which entries have an encoding, and that decoding is its inverse.\<close>

fun entry_kind_ok :: "LogEntryKind \<Rightarrow> bool" where
  "entry_kind_ok (Application payload) = True"
| "entry_kind_ok (Configuration (StableEntry cid m)) =
     (cid \<le> u64_max \<and> membership_set_wf m \<and> (\<forall>k\<in>set (voters m) \<union> set (learners m). k \<le> u64_max))"
| "entry_kind_ok (Configuration (JointEntry cid j)) =
     (cid \<le> u64_max \<and> membership_set_wf (old_membership j) \<and> membership_set_wf (new_membership j) \<and>
      (\<forall>k\<in>set (voters (old_membership j)) \<union> set (learners (old_membership j)) \<union>
            set (voters (new_membership j)) \<union> set (learners (new_membership j)). k \<le> u64_max))"
| "entry_kind_ok Noop = True"

definition persisted_ok :: "PersistedRaftLogEntry \<Rightarrow> bool" where
  "persisted_ok e \<longleftrightarrow> pe_index e < u64_max \<and> pe_term e \<le> u64_max \<and> entry_kind_ok (pe_kind e)"

lemma and_then_eq_Inr: "and_then r f = Inr y \<longleftrightarrow> (\<exists>x. r = Inr x \<and> f x = Inr y)"
  by (cases r) auto

lemma write_node_ids_Inr [parses]:
  "write_node_ids ns = Inr bs \<longleftrightarrow> length ns \<le> u32_max \<and> bs = to_be_bytes 4 (length ns) @ concat (map (to_be_bytes 8) ns)"
  by (auto simp: write_node_ids_def)

lemma read_node_id_list_iff:
  "sorted acc \<Longrightarrow> read_node_id_list n kind acc input = Inr (ns, rest) \<longleftrightarrow>
     (\<exists>xs. ns = acc @ xs \<and> length xs = n \<and> sorted ns \<and> (\<forall>k\<in>set xs. k \<le> u64_max) \<and> input = concat (map (to_be_bytes 8) xs) @ rest)"
proof (induction n arbitrary: acc input)
  case 0
  then show ?case by (auto simp: parses)
next
  case (Suc n)
  have step: "read_node_id_list (Suc n) kind acc input = Inr (ns, rest) \<longleftrightarrow>
      (\<exists>k r. k \<le> u64_max \<and> input = to_be_bytes 8 k @ r \<and> (acc \<noteq> [] \<longrightarrow> last acc \<le> k) \<and>
         read_node_id_list n kind (acc @ [k]) r = Inr (ns, rest))"
    unfolding read_node_id_list.simps parse_then_iff cursor_as_iff cursor_u64_iff
    by (intro ex_cong1) (auto simp: parse_result_iff)
  have sorted: "(acc \<noteq> [] \<longrightarrow> last acc \<le> k) \<longleftrightarrow> sorted (acc @ [k])" for k
    using Suc.prems by (cases acc rule: rev_cases) (auto simp: sorted_append)
  show ?case (is "?L = ?R")
  proof
    assume ?L
    then obtain k r where k: "k \<le> u64_max" "input = to_be_bytes 8 k @ r" "sorted (acc @ [k])"
      "read_node_id_list n kind (acc @ [k]) r = Inr (ns, rest)" unfolding step sorted by blast
    from Suc.IH [OF k(3)] k(4) obtain xs where "ns = (acc @ [k]) @ xs" "length xs = n" "sorted ns" "\<forall>k\<in>set xs. k \<le> u64_max"
      "r = concat (map (to_be_bytes 8) xs) @ rest" by blast
    with k show ?R by (intro exI [of _ "k # xs"]) auto
  next
    assume ?R
    then obtain k xs where xs: "ns = (acc @ [k]) @ xs" "length xs = n" "sorted ns" "k \<le> u64_max" "\<forall>k\<in>set xs. k \<le> u64_max"
      "input = to_be_bytes 8 k @ concat (map (to_be_bytes 8) xs) @ rest" by (auto simp: length_Suc_conv)
    then have s: "sorted (acc @ [k])" by (metis sorted_append)
    have "read_node_id_list n kind (acc @ [k]) (concat (map (to_be_bytes 8) xs) @ rest) = Inr (ns, rest)"
      using Suc.IH [OF s] xs by blast
    with xs s show ?L unfolding step sorted by blast
  qed
qed

lemma read_node_ids_iff [parses]:
  "read_node_ids kind input = Inr (ns, rest) \<longleftrightarrow>
     (\<exists>bs. write_node_ids ns = Inr bs \<and> sorted ns \<and> (\<forall>k\<in>set ns. k \<le> u64_max) \<and> input = bs @ rest)"
  using read_node_id_list_iff [of "[]"] by (auto simp: read_node_ids_def parses)

lemma read_membership_set_iff [parses]:
  "read_membership_set input = Inr (m, rest) \<longleftrightarrow>
     (\<exists>bs. write_membership_set m = Inr bs \<and> membership_set_wf m \<and> (\<forall>k\<in>set (voters m) \<union> set (learners m). k \<le> u64_max) \<and>
        input = bs @ rest)"
proof -
  have new: "sorted vs \<Longrightarrow> sorted ls \<Longrightarrow> MembershipSet_new vs ls = Inr m \<longleftrightarrow> membership_set_wf m \<and> vs = voters m \<and> ls = learners m"
    for vs ls
    by (cases m) (auto simp: MembershipSet_new_Inr membership_set_wf_def ordered_def sorted_sort_id)
  have sorted: "membership_set_wf m \<Longrightarrow> sorted (voters m) \<and> sorted (learners m)"
    by (auto simp: membership_set_wf_def ordered_def)
  have map: "map_sum LeInvalidMembership id r = Inr m \<longleftrightarrow> r = Inr m" for r by (cases r) auto
  have "read_membership_set input = Inr (m, rest) \<longleftrightarrow>
      (\<exists>vs ls r. read_node_ids ''voters'' input = Inr (vs, r) \<and> read_node_ids ''learners'' r = Inr (ls, rest) \<and> MembershipSet_new vs ls = Inr m)"
    by (auto simp: read_membership_set_def parse_then_iff parse_result_iff map)
  also have "\<dots> \<longleftrightarrow> membership_set_wf m \<and>
      (\<exists>r. read_node_ids ''voters'' input = Inr (voters m, r) \<and> read_node_ids ''learners'' r = Inr (learners m, rest))"
  proof -
    have srt: "read_node_ids kind i = Inr (ns, r) \<Longrightarrow> sorted ns" for kind i ns r by (auto simp: read_node_ids_iff)
    have "read_node_ids ''voters'' input = Inr (vs, r) \<and> read_node_ids ''learners'' r = Inr (ls, rest) \<and> MembershipSet_new vs ls = Inr m \<longleftrightarrow>
      read_node_ids ''voters'' input = Inr (vs, r) \<and> read_node_ids ''learners'' r = Inr (ls, rest) \<and>
        membership_set_wf m \<and> vs = voters m \<and> ls = learners m" for vs ls r
      using new [of vs ls] srt by blast
    then show ?thesis by auto
  qed
  also have "\<dots> \<longleftrightarrow> (\<exists>bs. write_membership_set m = Inr bs \<and> membership_set_wf m \<and>
      (\<forall>k\<in>set (voters m) \<union> set (learners m). k \<le> u64_max) \<and> input = bs @ rest)"
    using sorted by (auto simp: write_membership_set_def and_then_eq_Inr read_node_ids_iff)
  finally show ?thesis .
qed

lemma write_payload_Inr [parses]:
  "write_payload payload = Inr bs \<longleftrightarrow> length payload \<le> u32_max \<and> bs = to_be_bytes 4 (length payload) @ payload"
  by (auto simp: write_payload_def)

lemma read_log_entry_kind_iff [parses]:
  "read_log_entry_kind input = Inr (k, rest) \<longleftrightarrow> entry_kind_ok k \<and> (\<exists>bs. write_log_entry_kind k = Inr bs \<and> input = bs @ rest)"
proof (cases input)
  case Nil
  have "write_log_entry_kind k = Inr bs \<Longrightarrow> bs \<noteq> []" for bs
    by (cases k rule: write_log_entry_kind.cases) (auto simp: and_then_eq_Inr)
  then show ?thesis using Nil by (auto simp: read_log_entry_kind_def)
next
  case (Cons b r)
  show ?thesis
  proof (cases k rule: write_log_entry_kind.cases)
    case (1 payload)
    then show ?thesis using Cons by (auto simp: read_log_entry_kind_def parses and_then_eq_Inr)
  next
    case (2 cid m)
    then show ?thesis using Cons by (auto simp: read_log_entry_kind_def parses and_then_eq_Inr)
  next
    case (3 cid j)
    have joint: "\<lparr>old_membership = old, new_membership = new\<rparr> = j \<longleftrightarrow> old = old_membership j \<and> new = new_membership j" for old new
      by (cases j) auto
    show ?thesis using Cons 3 joint by (auto simp: read_log_entry_kind_def parses and_then_eq_Inr ball_Un)
  next
    case 4
    then show ?thesis using Cons by (auto simp: read_log_entry_kind_def parses)
  qed
qed

definition entry_header :: "PersistedRaftLogEntry \<Rightarrow> byte list" where
  "entry_header e = RAFT_LOG_ENTRY_MAGIC @ [RAFT_LOG_ENTRY_VERSION] @ to_be_bytes 8 (pe_index e) @ to_be_bytes 8 (pe_term e)"

lemma encode_raft_log_entry_Inr:
  "encode_raft_log_entry e = Inr bs \<longleftrightarrow>
     pe_index e \<noteq> u64_max \<and> (\<exists>kind. write_log_entry_kind (pe_kind e) = Inr kind \<and> bs = finish_checksummed (entry_header e @ kind))"
  by (cases "write_log_entry_kind (pe_kind e)")
    (auto simp: encode_raft_log_entry_def encode_raft_log_entry_appending_def advanceable_log_index_def Let_def
      entry_header_def finish_checksummed_def)

text \<open>Encoding behind a buffer appends the encoding of the entry alone.\<close>

lemma encode_appending:
  "encode_raft_log_entry_appending e out =
     (case encode_raft_log_entry e of Inl err \<Rightarrow> (out, Inl err) | Inr bs \<Rightarrow> (out @ bs, Inr (length bs)))"
  by (cases "write_log_entry_kind (pe_kind e)")
    (auto simp: encode_raft_log_entry_def encode_raft_log_entry_appending_def advanceable_log_index_def Let_def)

lemma decode_log_entry_body_iff:
  "decode_log_entry_body input = Inr (e, rest) \<longleftrightarrow>
     rest = [] \<and> persisted_ok e \<and> (\<exists>kind. write_log_entry_kind (pe_kind e) = Inr kind \<and> input = entry_header e @ kind)"
proof (cases e)
  case (fields i t k)
  have adv: "(case advanceable_log_index raw of None \<Rightarrow> Inl LeIndexAtMaximum | Some i \<Rightarrow> Inr i) = Inr i' \<longleftrightarrow> i' = raw \<and> raw \<noteq> u64_max" for raw i'
    by (auto simp: advanceable_log_index_def)
  show ?thesis
    by (auto simp: fields decode_log_entry_body_def parses adv persisted_ok_def entry_header_def RAFT_LOG_ENTRY_MAGIC_def order_less_le)
qed

lemma decode_raft_log_entry_iff:
  "decode_raft_log_entry envelope = Inr e \<longleftrightarrow> persisted_ok e \<and> encode_raft_log_entry e = Inr envelope"
proof -
  have "decode_raft_log_entry envelope = Inr e \<longleftrightarrow>
      (\<exists>body rest. verify_checksum envelope = Inr body \<and> decode_log_entry_body body = Inr (e, rest))"
    by (cases "verify_checksum envelope") (simp_all add: decode_raft_log_entry_def map_fst_Inr)
  then show ?thesis
    by (auto simp: verify_checksum_iff decode_log_entry_body_iff encode_raft_log_entry_Inr persisted_ok_def)
qed

section \<open>Compaction markers and journal records\<close>

datatype DecodeRaftLogCompactionMarkerError =
    LcUnexpectedEof usize usize | LcInvalidMagic "byte list" | LcUnsupportedVersion byte | CompactedThroughAtMaximum
  | LcChecksumMismatch u32 u32 | LcTrailingBytes usize

fun lc_cursor :: "CursorError \<Rightarrow> DecodeRaftLogCompactionMarkerError" where
  "lc_cursor (CursorEof needed left) = LcUnexpectedEof needed left"
| "lc_cursor (CursorTrailing left) = LcTrailingBytes left"

fun lc_checksum :: "ChecksumError \<Rightarrow> DecodeRaftLogCompactionMarkerError" where
  "lc_checksum (ChecksumEof needed left) = LcUnexpectedEof needed left"
| "lc_checksum (ChecksumMismatched expected actual) = LcChecksumMismatch expected actual"

definition RAFT_LOG_COMPACTION_MAGIC :: "byte list" where
  "RAFT_LOG_COMPACTION_MAGIC = [0x52, 0x46, 0x4c, 0x43]"

definition RAFT_LOG_COMPACTION_VERSION :: byte where
  "RAFT_LOG_COMPACTION_VERSION = 1"

definition encode_raft_log_compaction_marker :: "LogIndex \<Rightarrow> byte list" where
  "encode_raft_log_compaction_marker compacted_through =
     finish_checksummed (RAFT_LOG_COMPACTION_MAGIC @ [RAFT_LOG_COMPACTION_VERSION] @ to_be_bytes 8 compacted_through)"

definition decode_marker_body :: "(DecodeRaftLogCompactionMarkerError, LogIndex) parser" where
  "decode_marker_body =
     parse_then (cursor_as lc_cursor cursor_magic) (\<lambda>magic.
     if magic \<noteq> RAFT_LOG_COMPACTION_MAGIC then parse_result (Inl (LcInvalidMagic magic)) else
     parse_then (cursor_as lc_cursor cursor_u8) (\<lambda>version.
     if version \<noteq> RAFT_LOG_COMPACTION_VERSION then parse_result (Inl (LcUnsupportedVersion version)) else
     parse_then (cursor_as lc_cursor cursor_u64) (\<lambda>raw.
     parse_then (parse_result (case advanceable_log_index raw of None \<Rightarrow> Inl CompactedThroughAtMaximum | Some i \<Rightarrow> Inr i)) (\<lambda>index.
     parse_then (cursor_as lc_cursor cursor_finish) (\<lambda>_. parse_result (Inr index))))))"

definition decode_raft_log_compaction_marker :: "byte list \<Rightarrow> DecodeRaftLogCompactionMarkerError + LogIndex" where
  "decode_raft_log_compaction_marker input =
     and_then (map_sum lc_checksum id (verify_checksum input)) (\<lambda>body. map_sum id fst (decode_marker_body body))"

lemma decode_marker_iff:
  "decode_raft_log_compaction_marker input = Inr i \<longleftrightarrow> i < u64_max \<and> input = encode_raft_log_compaction_marker i"
proof -
  have adv: "(case advanceable_log_index raw of None \<Rightarrow> Inl CompactedThroughAtMaximum | Some i \<Rightarrow> Inr i) = Inr i' \<longleftrightarrow> i' = raw \<and> raw \<noteq> u64_max" for raw i'
    by (auto simp: advanceable_log_index_def)
  have "decode_raft_log_compaction_marker input = Inr i \<longleftrightarrow>
      (\<exists>body rest. verify_checksum input = Inr body \<and> decode_marker_body body = Inr (i, rest))"
    by (cases "verify_checksum input") (simp_all add: decode_raft_log_compaction_marker_def map_fst_Inr)
  then show ?thesis
    by (auto simp: verify_checksum_iff decode_marker_body_def parses adv encode_raft_log_compaction_marker_def
        RAFT_LOG_COMPACTION_MAGIC_def finish_checksummed_inject order_less_le)
qed

definition HEADER_LEN :: usize where
  "HEADER_LEN = 9"

definition RECORD_LEN :: usize where
  "RECORD_LEN = 51"

definition journal_prefix :: "byte list" where
  "journal_prefix = [0x52, 0x46, 0x48, 0x4a, 0x01]"

definition journal_header :: "byte list" where
  "journal_header = journal_prefix @ to_be_bytes 4 (unat (crc32 journal_prefix))"

lemma length_journal_header [simp]: "length journal_header = HEADER_LEN"
  by (simp add: journal_header_def journal_prefix_def HEADER_LEN_def)

end
