(* ===== verification/Log_Segment.thy ===== *)
theory Log_Segment
  imports Storage_Format
begin

text \<open>
  The durable Raft log of \<open>rafter-storage/src/raft_log_segment\<close>: contiguous entries, the in-memory
  segment, length-prefixed frames on disk, opening with and without repair of an uncommitted tail, and
  the file segment whose operations may fail at any of their durability points. The disk is the bytes of
  the segment file and of the compaction marker; temporary files are never read back, so they are not
  part of it. A failed write leaves a prefix of its bytes, a rename either happened or did not.
\<close>

section \<open>Contiguous entries\<close>

record NonContiguousRaftEntry =
  nc_expected :: LogIndex
  nc_actual :: LogIndex

record ContiguousLogEntries =
  cle_first_index :: LogIndex
  cle_entries :: "PersistedRaftLogEntry list"

definition empty_after :: "LogIndex \<Rightarrow> ContiguousLogEntries" where
  "empty_after compacted = \<lparr>cle_first_index = LogIndex_next compacted, cle_entries = []\<rparr>"

fun validate_contiguous :: "PersistedRaftLogEntry list \<Rightarrow> LogIndex \<Rightarrow> NonContiguousRaftEntry + unit" where
  "validate_contiguous [] expected = Inr ()"
| "validate_contiguous (e # es) expected =
     (if pe_index e \<noteq> expected then Inl \<lparr>nc_expected = expected, nc_actual = pe_index e\<rparr>
      else validate_contiguous es (LogIndex_next expected))"

definition cle_from_entries :: "LogIndex \<Rightarrow> PersistedRaftLogEntry list \<Rightarrow> NonContiguousRaftEntry + ContiguousLogEntries" where
  "cle_from_entries first entries =
     and_then (validate_contiguous entries first) (\<lambda>_. Inr \<lparr>cle_first_index = first, cle_entries = entries\<rparr>)"

definition cle_next_index :: "ContiguousLogEntries \<Rightarrow> LogIndex" where
  "cle_next_index c = (if cle_entries c = [] then cle_first_index c else LogIndex_next (pe_index (last (cle_entries c))))"

definition cle_extend :: "PersistedRaftLogEntry list \<Rightarrow> ContiguousLogEntries \<Rightarrow> ContiguousLogEntries" where
  "cle_extend entries c = c\<lparr>cle_entries := cle_entries c @ entries\<rparr>"

definition cle_append :: "PersistedRaftLogEntry list \<Rightarrow> ContiguousLogEntries \<Rightarrow> NonContiguousRaftEntry + ContiguousLogEntries" where
  "cle_append entries c = and_then (validate_contiguous entries (cle_next_index c)) (\<lambda>_. Inr (cle_extend entries c))"

definition partition_point :: "('a \<Rightarrow> bool) \<Rightarrow> 'a list \<Rightarrow> usize" where
  "partition_point P xs = length (takeWhile P xs)"

definition entries_before :: "LogIndex \<Rightarrow> ContiguousLogEntries \<Rightarrow> PersistedRaftLogEntry list" where
  "entries_before from_index c = take (partition_point (\<lambda>e. pe_index e < from_index) (cle_entries c)) (cle_entries c)"

definition entries_after :: "LogIndex \<Rightarrow> ContiguousLogEntries \<Rightarrow> PersistedRaftLogEntry list" where
  "entries_after through c = drop (partition_point (\<lambda>e. pe_index e \<le> through) (cle_entries c)) (cle_entries c)"

definition cle_truncate_suffix :: "LogIndex \<Rightarrow> ContiguousLogEntries \<Rightarrow> ContiguousLogEntries" where
  "cle_truncate_suffix from_index c =
     c\<lparr>cle_entries := take (partition_point (\<lambda>e. pe_index e < from_index) (cle_entries c)) (cle_entries c)\<rparr>"

definition cle_compact_prefix_through :: "LogIndex \<Rightarrow> ContiguousLogEntries \<Rightarrow> ContiguousLogEntries" where
  "cle_compact_prefix_through through c =
     (let retained = LogIndex_next through in
      if retained \<le> cle_first_index c then c
      else \<lparr>cle_first_index = retained,
            cle_entries = drop (partition_point (\<lambda>e. pe_index e < retained) (cle_entries c)) (cle_entries c)\<rparr>)"

section \<open>Bounds and errors\<close>

datatype RaftLogSegmentAppendError =
    AppendNonContiguous LogIndex LogIndex | AppendIndexAtMaximum | AppendEncode EncodeRaftLogEntryError
  | AppendIo string | AppendStoreRequiresReopen

datatype RaftLogSegmentTruncateError =
    TruncateOutOfBounds LogIndex LogIndex | BeforeCompactedPrefix LogIndex LogIndex
  | TruncateEncode EncodeRaftLogEntryError | TruncateIo string | TruncateStoreRequiresReopen

datatype RaftLogSegmentCompactError =
    CompactOutOfBounds LogIndex LogIndex | ThroughIndexAtMaximum | CompactEncode EncodeRaftLogEntryError | CompactIo string
  | CompactedButReclamationFailed LogIndex string | CompactStoreRequiresReopen

definition reject_append_bounds :: "LogIndex \<Rightarrow> RaftLogSegmentAppendError + unit" where
  "reject_append_bounds index = (if advanceable_log_index index = None then Inl AppendIndexAtMaximum else Inr ())"

definition reject_compact_bounds :: "LogIndex \<Rightarrow> RaftLogSegmentCompactError + unit" where
  "reject_compact_bounds through = (if advanceable_log_index through = None then Inl ThroughIndexAtMaximum else Inr ())"

definition reject_truncate_bounds :: "LogIndex \<Rightarrow> LogIndex \<Rightarrow> LogIndex \<Rightarrow> RaftLogSegmentTruncateError + unit" where
  "reject_truncate_bounds from_index compacted next =
     (if from_index \<le> compacted then Inl (BeforeCompactedPrefix compacted from_index)
      else if from_index > next then Inl (TruncateOutOfBounds next from_index)
      else Inr ())"

section \<open>The in-memory segment\<close>

record InMemoryRaftLogSegment =
  mem_compacted_through :: LogIndex
  mem_entries :: ContiguousLogEntries

definition InMemoryRaftLogSegment_new :: InMemoryRaftLogSegment where
  "InMemoryRaftLogSegment_new = \<lparr>mem_compacted_through = 0, mem_entries = empty_after 0\<rparr>"

fun reject_all_append_bounds :: "PersistedRaftLogEntry list \<Rightarrow> RaftLogSegmentAppendError + unit" where
  "reject_all_append_bounds [] = Inr ()"
| "reject_all_append_bounds (e # es) = and_then (reject_append_bounds (pe_index e)) (\<lambda>_. reject_all_append_bounds es)"

definition mem_append_entries ::
    "PersistedRaftLogEntry list \<Rightarrow> InMemoryRaftLogSegment \<Rightarrow> InMemoryRaftLogSegment \<times> (RaftLogSegmentAppendError + unit)" where
  "mem_append_entries entries m =
     (case reject_all_append_bounds entries of
        Inl e \<Rightarrow> (m, Inl e)
      | Inr _ \<Rightarrow>
          (case cle_append entries (mem_entries m) of
             Inl nc \<Rightarrow> (m, Inl (AppendNonContiguous (nc_expected nc) (nc_actual nc)))
           | Inr c \<Rightarrow> (m\<lparr>mem_entries := c\<rparr>, Inr ())))"

definition mem_truncate_suffix ::
    "LogIndex \<Rightarrow> InMemoryRaftLogSegment \<Rightarrow> InMemoryRaftLogSegment \<times> (RaftLogSegmentTruncateError + unit)" where
  "mem_truncate_suffix from_index m =
     (case reject_truncate_bounds from_index (mem_compacted_through m) (cle_next_index (mem_entries m)) of
        Inl e \<Rightarrow> (m, Inl e)
      | Inr _ \<Rightarrow> (m\<lparr>mem_entries := cle_truncate_suffix from_index (mem_entries m)\<rparr>, Inr ()))"

definition mem_compact_prefix_through ::
    "LogIndex \<Rightarrow> InMemoryRaftLogSegment \<Rightarrow> InMemoryRaftLogSegment \<times> (RaftLogSegmentCompactError + unit)" where
  "mem_compact_prefix_through through m =
     (case reject_compact_bounds through of
        Inl e \<Rightarrow> (m, Inl e)
      | Inr _ \<Rightarrow>
          if through \<le> mem_compacted_through m then (m, Inr ())
          else (\<lparr>mem_compacted_through = through, mem_entries = cle_compact_prefix_through through (mem_entries m)\<rparr>, Inr ()))"

section \<open>Frames\<close>

definition RAFT_LOG_FRAME_HEADER_LEN :: usize where
  "RAFT_LOG_FRAME_HEADER_LEN = 4"

definition encoded_frame_len :: "byte list \<Rightarrow> EncodeRaftLogEntryError + u32" where
  "encoded_frame_len encoded = (if length encoded \<le> u32_max then Inr (length encoded) else Inl (PayloadTooLarge (length encoded)))"

definition append_raft_log_frame ::
    "byte list \<Rightarrow> PersistedRaftLogEntry \<Rightarrow> EncodeRaftLogEntryError + byte list" where
  "append_raft_log_frame out e =
     and_then (encode_raft_log_entry e) (\<lambda>encoded. and_then (encoded_frame_len encoded) (\<lambda>len.
     Inr (out @ to_be_bytes 4 len @ encoded)))"

fun write_raft_log_frames :: "byte list \<Rightarrow> PersistedRaftLogEntry list \<Rightarrow> EncodeRaftLogEntryError + byte list" where
  "write_raft_log_frames out [] = Inr out"
| "write_raft_log_frames out (e # es) = and_then (append_raft_log_frame out e) (\<lambda>out. write_raft_log_frames out es)"

datatype RaftLogReplayError =
    PartialFrameHeader usize usize | PartialEntry usize usize usize | CorruptEntry usize DecodeRaftLogEntryError

record ReplayedRaftLogFrame =
  frame_offset :: u64
  frame_entry :: PersistedRaftLogEntry

record RaftLogFrameScan =
  scan_frames :: "ReplayedRaftLogFrame list"
  scan_replay_error :: "(u64 \<times> RaftLogReplayError) option"

text \<open>One frame at an offset: its entry and the bytes behind it, or why the scan stops there.\<close>

definition next_frame :: "u64 \<Rightarrow> byte list \<Rightarrow> RaftLogReplayError + PersistedRaftLogEntry \<times> usize" where
  "next_frame offset input =
     (if length input < RAFT_LOG_FRAME_HEADER_LEN then Inl (PartialFrameHeader offset (length input))
      else let encoded_len = from_be_bytes (take RAFT_LOG_FRAME_HEADER_LEN input);
               rest = drop RAFT_LOG_FRAME_HEADER_LEN input
           in if encoded_len > length rest then Inl (PartialEntry offset encoded_len (length rest))
              else case decode_raft_log_entry (take encoded_len rest) of
                     Inl source \<Rightarrow> Inl (CorruptEntry offset source)
                   | Inr entry \<Rightarrow> Inr (entry, RAFT_LOG_FRAME_HEADER_LEN + encoded_len))"

lemma next_frame_size: "next_frame offset input = Inr (e, n) \<Longrightarrow> 0 < n \<and> n \<le> length input"
  by (auto simp: next_frame_def RAFT_LOG_FRAME_HEADER_LEN_def Let_def split: if_splits sum.splits)

function read_frames_from :: "u64 \<Rightarrow> byte list \<Rightarrow> RaftLogFrameScan" where
  "read_frames_from offset input =
     (if input = [] then \<lparr>scan_frames = [], scan_replay_error = None\<rparr>
      else case next_frame offset input of
             Inl error \<Rightarrow> \<lparr>scan_frames = [], scan_replay_error = Some (offset, error)\<rparr>
           | Inr (entry, n) \<Rightarrow>
               let scan = read_frames_from (offset + n) (drop n input)
               in scan\<lparr>scan_frames := \<lparr>frame_offset = offset, frame_entry = entry\<rparr> # scan_frames scan\<rparr>)"
  by pat_completeness auto
termination
  by (relation "measure (\<lambda>(offset, input). length input)") (auto dest: next_frame_size [OF sym] next_frame_size)

declare read_frames_from.simps [simp del]

definition read_raft_log_frames :: "byte list \<Rightarrow> RaftLogFrameScan" where
  "read_raft_log_frames input = read_frames_from 0 input"

section \<open>Opening\<close>

record LogDisk =
  segment_bytes :: "byte list"
  marker_bytes :: "byte list option"

datatype OpenRaftLogSegmentError =
    OpenReplay RaftLogReplayError | OpenCompactionMarker DecodeRaftLogCompactionMarkerError
  | OpenNonContiguous LogIndex LogIndex

datatype FileStoreHealth = Healthy | ReopenRequired

record FileRaftLogSegment =
  fs_compacted_through :: LogIndex
  fs_entries :: ContiguousLogEntries
  fs_health :: FileStoreHealth

datatype OpenMode = Strict | RepairUncommittedTail LogIndex

definition open_contiguous :: "LogIndex \<Rightarrow> PersistedRaftLogEntry list \<Rightarrow> OpenRaftLogSegmentError + ContiguousLogEntries" where
  "open_contiguous compacted entries =
     map_sum (\<lambda>nc. OpenNonContiguous (nc_expected nc) (nc_actual nc)) id (cle_from_entries (LogIndex_next compacted) entries)"

definition replay_entries_strict :: "RaftLogFrameScan \<Rightarrow> LogIndex \<Rightarrow> OpenRaftLogSegmentError + ContiguousLogEntries" where
  "replay_entries_strict scan compacted =
     (case scan_replay_error scan of
        Some (offset, error) \<Rightarrow> Inl (OpenReplay error)
      | None \<Rightarrow> open_contiguous compacted
          (filter (\<lambda>e. pe_index e > compacted) (map frame_entry (scan_frames scan))))"

text \<open>The loop over the frames: the entries kept, the index expected next and where to cut the file, or the error.\<close>

fun repair_frames ::
    "LogIndex \<Rightarrow> LogIndex \<Rightarrow> ReplayedRaftLogFrame list \<Rightarrow> LogIndex \<Rightarrow> PersistedRaftLogEntry list \<Rightarrow>
     OpenRaftLogSegmentError + PersistedRaftLogEntry list \<times> LogIndex \<times> u64 option" where
  "repair_frames compacted durable [] expected entries = Inr (entries, expected, None)"
| "repair_frames compacted durable (frame # frames) expected entries =
     (if pe_index (frame_entry frame) \<le> compacted then repair_frames compacted durable frames expected entries
      else if pe_index (frame_entry frame) \<noteq> expected then
        (if expected \<le> durable then Inl (OpenNonContiguous expected (pe_index (frame_entry frame)))
         else Inr (entries, expected, Some (frame_offset frame)))
      else repair_frames compacted durable frames (LogIndex_next expected) (entries @ [frame_entry frame]))"

definition replay_entries_repairing_uncommitted_tail ::
    "RaftLogFrameScan \<Rightarrow> LogIndex \<Rightarrow> LogIndex \<Rightarrow> OpenRaftLogSegmentError + ContiguousLogEntries \<times> u64 option" where
  "replay_entries_repairing_uncommitted_tail scan compacted durable =
     and_then (repair_frames compacted durable (scan_frames scan) (LogIndex_next compacted) [])
       (\<lambda>(entries, expected, truncate_at).
        and_then
          (case truncate_at of
             Some offset \<Rightarrow> Inr (Some offset)
           | None \<Rightarrow>
               (case scan_replay_error scan of
                  None \<Rightarrow> Inr None
                | Some (offset, error) \<Rightarrow> if expected \<le> durable then Inl (OpenReplay error) else Inr (Some offset)))
          (\<lambda>truncate_at. map_sum id (\<lambda>c. (c, truncate_at)) (open_contiguous compacted entries)))"

definition replay_entries_for_open ::
    "RaftLogFrameScan \<Rightarrow> LogIndex \<Rightarrow> OpenMode \<Rightarrow> OpenRaftLogSegmentError + ContiguousLogEntries \<times> u64 option" where
  "replay_entries_for_open scan compacted opening =
     (case opening of
        Strict \<Rightarrow> map_sum id (\<lambda>c. (c, None)) (replay_entries_strict scan compacted)
      | RepairUncommittedTail durable \<Rightarrow> replay_entries_repairing_uncommitted_tail scan compacted durable)"

definition read_compaction_marker :: "LogDisk \<Rightarrow> OpenRaftLogSegmentError + LogIndex" where
  "read_compaction_marker d =
     (case marker_bytes d of
        None \<Rightarrow> Inr 0
      | Some bytes \<Rightarrow> map_sum OpenCompactionMarker id (decode_raft_log_compaction_marker bytes))"

definition open_segment :: "OpenMode \<Rightarrow> LogDisk \<Rightarrow> LogDisk \<times> (OpenRaftLogSegmentError + FileRaftLogSegment)" where
  "open_segment opening d =
     (case read_compaction_marker d of
        Inl e \<Rightarrow> (d, Inl e)
      | Inr compacted \<Rightarrow>
          (case replay_entries_for_open (read_raft_log_frames (segment_bytes d)) compacted opening of
             Inl e \<Rightarrow> (d, Inl e)
           | Inr (entries, repair) \<Rightarrow>
               (case repair of None \<Rightarrow> d | Some offset \<Rightarrow> d\<lparr>segment_bytes := take offset (segment_bytes d)\<rparr>,
                Inr \<lparr>fs_compacted_through = compacted, fs_entries = entries, fs_health = Healthy\<rparr>)))"

section \<open>The file segment\<close>

text \<open>
  Where an operation can fail: a write to the segment stops after some bytes (or its sync fails), the
  replacement file cannot be prepared, or publishing the marker or the replacement fails before or after
  its rename.
\<close>

datatype PublishPoint = BeforeRename | AfterRename

datatype LogFault =
    NoFault | WriteFault usize | PrepareFault string | MarkerFault PublishPoint string | RewriteFault PublishPoint string

definition record_io_failure :: "FileRaftLogSegment \<Rightarrow> FileRaftLogSegment" where
  "record_io_failure s = s\<lparr>fs_health := ReopenRequired\<rparr>"

text \<open>The frames of the entries in order, each checked against its bound and the index expected.\<close>

fun append_frames ::
    "PersistedRaftLogEntry list \<Rightarrow> LogIndex \<Rightarrow> byte list \<Rightarrow> RaftLogSegmentAppendError + byte list" where
  "append_frames [] expected bytes = Inr bytes"
| "append_frames (e # es) expected bytes =
     and_then (reject_append_bounds (pe_index e)) (\<lambda>_.
     if pe_index e \<noteq> expected then Inl (AppendNonContiguous expected (pe_index e))
     else case append_raft_log_frame bytes e of
            Inl error \<Rightarrow> Inl (AppendEncode error)
          | Inr bytes \<Rightarrow> append_frames es (LogIndex_next expected) bytes)"

definition file_append_entries ::
    "LogFault \<Rightarrow> PersistedRaftLogEntry list \<Rightarrow> LogDisk \<times> FileRaftLogSegment \<Rightarrow>
     (LogDisk \<times> FileRaftLogSegment) \<times> (RaftLogSegmentAppendError + unit)" where
  "file_append_entries fault entries ds =
     (let (d, s) = ds in
      if fs_health s = ReopenRequired then (ds, Inl AppendStoreRequiresReopen)
      else case append_frames entries (cle_next_index (fs_entries s)) [] of
             Inl e \<Rightarrow> (ds, Inl e)
           | Inr bytes \<Rightarrow>
               if entries = [] then (ds, Inr ())
               else case fault of
                      WriteFault k \<Rightarrow>
                        ((d\<lparr>segment_bytes := segment_bytes d @ take k bytes\<rparr>, record_io_failure s),
                         Inl (AppendIo ''append raft log entries''))
                    | _ \<Rightarrow>
                        ((d\<lparr>segment_bytes := segment_bytes d @ bytes\<rparr>, s\<lparr>fs_entries := cle_extend entries (fs_entries s)\<rparr>), Inr ()))"

definition publish_log_rewrite :: "LogFault \<Rightarrow> byte list \<Rightarrow> LogDisk \<Rightarrow> LogDisk \<times> string option" where
  "publish_log_rewrite fault prepared d =
     (case fault of
        RewriteFault BeforeRename operation \<Rightarrow> (d, Some operation)
      | RewriteFault AfterRename operation \<Rightarrow> (d\<lparr>segment_bytes := prepared\<rparr>, Some operation)
      | _ \<Rightarrow> (d\<lparr>segment_bytes := prepared\<rparr>, None))"

definition publish_compaction_marker :: "LogFault \<Rightarrow> LogIndex \<Rightarrow> LogDisk \<Rightarrow> LogDisk \<times> string option" where
  "publish_compaction_marker fault compacted d =
     (let bytes = encode_raft_log_compaction_marker compacted in
      case fault of
        MarkerFault BeforeRename operation \<Rightarrow> (d, Some operation)
      | MarkerFault AfterRename operation \<Rightarrow> (d\<lparr>marker_bytes := Some bytes\<rparr>, Some operation)
      | _ \<Rightarrow> (d\<lparr>marker_bytes := Some bytes\<rparr>, None))"

text \<open>The replacement file is written and synced under a temporary name; nothing visible changes yet.\<close>

definition prepare_log_rewrite ::
    "LogFault \<Rightarrow> PersistedRaftLogEntry list \<Rightarrow> (EncodeRaftLogEntryError + string) + byte list" where
  "prepare_log_rewrite fault entries =
     (case write_raft_log_frames [] entries of
        Inl e \<Rightarrow> Inl (Inl e)
      | Inr bytes \<Rightarrow> (case fault of PrepareFault operation \<Rightarrow> Inl (Inr operation) | _ \<Rightarrow> Inr bytes))"

definition file_truncate_suffix ::
    "LogFault \<Rightarrow> LogIndex \<Rightarrow> LogDisk \<times> FileRaftLogSegment \<Rightarrow>
     (LogDisk \<times> FileRaftLogSegment) \<times> (RaftLogSegmentTruncateError + unit)" where
  "file_truncate_suffix fault from_index ds =
     (let (d, s) = ds in
      if fs_health s = ReopenRequired then (ds, Inl TruncateStoreRequiresReopen)
      else case reject_truncate_bounds from_index (fs_compacted_through s) (cle_next_index (fs_entries s)) of
             Inl e \<Rightarrow> (ds, Inl e)
           | Inr _ \<Rightarrow>
               if from_index = cle_next_index (fs_entries s) then (ds, Inr ())
               else case prepare_log_rewrite fault (entries_before from_index (fs_entries s)) of
                      Inl (Inl e) \<Rightarrow> (ds, Inl (TruncateEncode e))
                    | Inl (Inr operation) \<Rightarrow> ((d, record_io_failure s), Inl (TruncateIo operation))
                    | Inr prepared \<Rightarrow>
                        (case publish_log_rewrite fault prepared d of
                           (d, Some operation) \<Rightarrow> ((d, record_io_failure s), Inl (TruncateIo operation))
                         | (d, None) \<Rightarrow>
                             ((d, s\<lparr>fs_entries := cle_truncate_suffix from_index (fs_entries s)\<rparr>), Inr ())))"

definition file_compact_prefix_through ::
    "LogFault \<Rightarrow> LogIndex \<Rightarrow> LogDisk \<times> FileRaftLogSegment \<Rightarrow>
     (LogDisk \<times> FileRaftLogSegment) \<times> (RaftLogSegmentCompactError + unit)" where
  "file_compact_prefix_through fault through ds =
     (let (d, s) = ds in
      if fs_health s = ReopenRequired then (ds, Inl CompactStoreRequiresReopen)
      else case reject_compact_bounds through of
             Inl e \<Rightarrow> (ds, Inl e)
           | Inr _ \<Rightarrow>
               if through \<le> fs_compacted_through s then (ds, Inr ())
               else case prepare_log_rewrite fault (entries_after through (fs_entries s)) of
                      Inl (Inl e) \<Rightarrow> (ds, Inl (CompactEncode e))
                    | Inl (Inr operation) \<Rightarrow> ((d, record_io_failure s), Inl (CompactIo operation))
                    | Inr prepared \<Rightarrow>
                        (case publish_compaction_marker fault through d of
                           (d, Some operation) \<Rightarrow> ((d, record_io_failure s), Inl (CompactIo operation))
                         | (d, None) \<Rightarrow>
                             let s = s\<lparr>fs_entries := cle_compact_prefix_through through (fs_entries s),
                                       fs_compacted_through := through\<rparr>
                             in case publish_log_rewrite fault prepared d of
                                  (d, Some operation) \<Rightarrow>
                                    ((d, record_io_failure s), Inl (CompactedButReclamationFailed through operation))
                                | (d, None) \<Rightarrow> ((d, s), Inr ())))"

end
