(* ===== verification/Log_Recovery.thy ===== *)
theory Log_Recovery
  imports Log_Segment
begin

text \<open>
  The file segment proved against its contract: frames scan back to their entries, a torn write is cut at
  a frame boundary, every operation does to the log what the in-memory segment does, and after a failure
  or a crash at any durability point reopening yields the log before or after the operation.
\<close>

section \<open>Frames\<close>

definition frame_of :: "PersistedRaftLogEntry \<Rightarrow> byte list" where
  "frame_of e = (case append_raft_log_frame [] e of Inr bs \<Rightarrow> bs | Inl _ \<Rightarrow> [])"

definition frames_of :: "PersistedRaftLogEntry list \<Rightarrow> byte list" where
  "frames_of es = concat (map frame_of es)"

text \<open>An entry that the types allow and that has a frame.\<close>

definition framed :: "PersistedRaftLogEntry \<Rightarrow> bool" where
  "framed e \<longleftrightarrow> persisted_ok e \<and> (\<exists>bs. append_raft_log_frame [] e = Inr bs)"

lemma frames_of_simps [simp]:
  "frames_of [] = []" "frames_of (e # es) = frame_of e @ frames_of es" "frames_of (es @ es') = frames_of es @ frames_of es'"
  by (simp_all add: frames_of_def)

lemma framed_iff:
  "framed e \<longleftrightarrow> persisted_ok e \<and> (\<exists>bs. encode_raft_log_entry e = Inr bs \<and> length bs \<le> u32_max)"
  by (cases "encode_raft_log_entry e") (auto simp: framed_def append_raft_log_frame_def encoded_frame_len_def)

lemma frame_of_encoding:
  "encode_raft_log_entry e = Inr bs \<Longrightarrow> length bs \<le> u32_max \<Longrightarrow> frame_of e = to_be_bytes 4 (length bs) @ bs"
  by (simp add: frame_of_def append_raft_log_frame_def encoded_frame_len_def)

lemma append_raft_log_frame_out:
  "append_raft_log_frame out e = map_sum id (\<lambda>bs. out @ bs) (append_raft_log_frame [] e)"
  by (cases "encode_raft_log_entry e") (auto simp: append_raft_log_frame_def encoded_frame_len_def)

lemma append_frame_framed: "framed e \<Longrightarrow> append_raft_log_frame out e = Inr (out @ frame_of e)"
  by (auto simp: append_raft_log_frame_out [of out] framed_def frame_of_def)

lemma write_frames_framed: "\<forall>e\<in>set es. framed e \<Longrightarrow> write_raft_log_frames out es = Inr (out @ frames_of es)"
  by (induction es arbitrary: out) (simp_all add: append_frame_framed)

lemma next_frame_iff:
  "next_frame offset input = Inr (e, n) \<longleftrightarrow> framed e \<and> n = length (frame_of e) \<and> (\<exists>rest. input = frame_of e @ rest)"
proof
  assume a: "next_frame offset input = Inr (e, n)"
  let ?len = "from_be_bytes (take 4 input)"
  from a have l: "4 \<le> length input" "?len \<le> length input - 4" "decode_raft_log_entry (take ?len (drop 4 input)) = Inr e" "n = 4 + ?len"
    by (auto simp: next_frame_def RAFT_LOG_FRAME_HEADER_LEN_def Let_def split: if_splits sum.splits)
  let ?bs = "take ?len (drop 4 input)"
  have bs: "persisted_ok e" "encode_raft_log_entry e = Inr ?bs" using l(3) by (simp_all add: decode_raft_log_entry_iff)
  have len: "length ?bs = ?len" "?len \<le> u32_max" using l from_be_bytes_bound [of "take 4 input"] by (auto simp: u32_max_def)
  have head: "to_be_bytes 4 ?len = take 4 input" using l(1) by (intro to_from_be_bytes) simp
  have f: "frame_of e = take 4 input @ ?bs" using frame_of_encoding [OF bs(2)] len head by simp
  have "input = frame_of e @ drop ?len (drop 4 input)" unfolding f by (simp only: append_assoc append_take_drop_id)
  moreover have "framed e" using bs len by (auto simp: framed_iff)
  moreover have "n = length (frame_of e)" using l len(1) unfolding f by simp
  ultimately show "framed e \<and> n = length (frame_of e) \<and> (\<exists>rest. input = frame_of e @ rest)" by blast
next
  assume "framed e \<and> n = length (frame_of e) \<and> (\<exists>rest. input = frame_of e @ rest)"
  then obtain bs rest where e: "persisted_ok e" "encode_raft_log_entry e = Inr bs" "length bs \<le> u32_max"
    "n = length (frame_of e)" "input = frame_of e @ rest" by (auto simp: framed_iff)
  have "decode_raft_log_entry bs = Inr e" using e by (simp add: decode_raft_log_entry_iff)
  moreover have "from_be_bytes (to_be_bytes 4 (length bs)) = length bs" using e(3) by (intro from_to_be_bytes) (simp add: u32_max_def)
  ultimately show "next_frame offset input = Inr (e, n)"
    using e frame_of_encoding [OF e(2,3)] by (simp add: next_frame_def RAFT_LOG_FRAME_HEADER_LEN_def Let_def)
qed

lemma frame_of_length: "framed e \<Longrightarrow> 4 \<le> length (frame_of e)"
  by (auto simp: framed_iff frame_of_encoding)

text \<open>A frame cut short is never accepted.\<close>

lemma next_frame_torn:
  assumes "framed e" "k < length (frame_of e)"
  shows "\<exists>err. next_frame offset (take k (frame_of e)) = Inl err"
proof -
  obtain bs where bs: "encode_raft_log_entry e = Inr bs" "length bs \<le> u32_max" using assms(1) by (auto simp: framed_iff)
  have f: "frame_of e = to_be_bytes 4 (length bs) @ bs" by (rule frame_of_encoding [OF bs])
  have "from_be_bytes (to_be_bytes 4 (length bs)) = length bs" using bs(2) by (intro from_to_be_bytes) (simp add: u32_max_def)
  then show ?thesis using assms(2) f
    by (cases "k < 4") (auto simp: next_frame_def RAFT_LOG_FRAME_HEADER_LEN_def Let_def)
qed

fun frames_at :: "u64 \<Rightarrow> PersistedRaftLogEntry list \<Rightarrow> ReplayedRaftLogFrame list" where
  "frames_at offset [] = []"
| "frames_at offset (e # es) = \<lparr>frame_offset = offset, frame_entry = e\<rparr> # frames_at (offset + length (frame_of e)) es"

lemma frames_at_entries [simp]: "map frame_entry (frames_at offset es) = es"
  by (induction es arbitrary: offset) simp_all

lemma frames_at_append: "frames_at offset (es @ es') = frames_at offset es @ frames_at (offset + length (frames_of es)) es'"
  by (induction es arbitrary: offset) (simp_all add: add.assoc)

lemma read_frames_append:
  "\<forall>e\<in>set es. framed e \<Longrightarrow> read_frames_from offset (frames_of es @ tail) =
     (read_frames_from (offset + length (frames_of es)) tail)
       \<lparr>scan_frames := frames_at offset es @ scan_frames (read_frames_from (offset + length (frames_of es)) tail)\<rparr>"
proof (induction es arbitrary: offset)
  case (Cons e es)
  have "next_frame offset (frame_of e @ frames_of es @ tail) = Inr (e, length (frame_of e))"
    using Cons.prems by (simp add: next_frame_iff)
  moreover have "frame_of e \<noteq> []" using frame_of_length [of e] Cons.prems by auto
  ultimately have "read_frames_from offset (frame_of e @ frames_of es @ tail) =
      (read_frames_from (offset + length (frame_of e)) (frames_of es @ tail))
        \<lparr>scan_frames := \<lparr>frame_offset = offset, frame_entry = e\<rparr> #
           scan_frames (read_frames_from (offset + length (frame_of e)) (frames_of es @ tail))\<rparr>"
    by (subst read_frames_from.simps) (simp add: Let_def)
  with Cons show ?case by (simp add: add.assoc)
qed simp

lemma read_frames_exact:
  "\<forall>e\<in>set es. framed e \<Longrightarrow> read_frames_from offset (frames_of es) = \<lparr>scan_frames = frames_at offset es, scan_replay_error = None\<rparr>"
  using read_frames_append [of es offset "[]"] by (simp add: read_frames_from.simps)

text \<open>What a scan returns is the frames the file starts with, and the error is behind them.\<close>

lemma read_frames_sound:
  obtains es tail where "\<forall>e\<in>set es. framed e" "input = frames_of es @ tail"
    "scan_frames (read_frames_from offset input) = frames_at offset es"
    "scan_replay_error (read_frames_from offset input) = None \<Longrightarrow> tail = []"
    "fst ` set_option (scan_replay_error (read_frames_from offset input)) \<subseteq> {offset + length (frames_of es)}"
proof -
  have "\<exists>es tail. (\<forall>e\<in>set es. framed e) \<and> input = frames_of es @ tail \<and>
      scan_frames (read_frames_from offset input) = frames_at offset es \<and>
      (scan_replay_error (read_frames_from offset input) = None \<longrightarrow> tail = []) \<and>
      (fst ` set_option (scan_replay_error (read_frames_from offset input)) \<subseteq> {offset + length (frames_of es)})"
  proof (induction offset input rule: read_frames_from.induct)
    case (1 offset input)
    show ?case
    proof (cases "input = []")
      case True
      then show ?thesis by (intro exI [of _ "[]"]) (simp add: read_frames_from.simps)
    next
      case False
      show ?thesis
      proof (cases "next_frame offset input")
        case (Inl err)
        then show ?thesis using False by (intro exI [of _ "[]"] exI [of _ input]) (simp add: read_frames_from.simps [of offset input])
      next
        case (Inr p)
        obtain e n where p: "p = (e, n)" by fastforce
        then obtain rest where e: "framed e" "n = length (frame_of e)" "input = frame_of e @ rest"
          using Inr next_frame_iff [of offset input e n] by blast
        have scan: "read_frames_from offset input = (read_frames_from (offset + n) rest)
            \<lparr>scan_frames := \<lparr>frame_offset = offset, frame_entry = e\<rparr> # scan_frames (read_frames_from (offset + n) rest)\<rparr>"
          using frame_of_length [OF e(1)] Inr p e by (subst read_frames_from.simps) (auto simp: Let_def)
        have err: "scan_replay_error (read_frames_from offset input) = scan_replay_error (read_frames_from (offset + n) rest)"
          by (simp add: scan)
        from 1 [OF False Inr p [symmetric]] e obtain es tail where
          f: "\<forall>e\<in>set es. framed e" "rest = frames_of es @ tail" "scan_frames (read_frames_from (offset + n) rest) = frames_at (offset + n) es"
          "scan_replay_error (read_frames_from (offset + n) rest) = None \<longrightarrow> tail = []"
          "fst ` set_option (scan_replay_error (read_frames_from (offset + n) rest)) \<subseteq> {offset + n + length (frames_of es)}"
          by auto
        have frames: "scan_frames (read_frames_from offset input) = frames_at offset (e # es)" unfolding scan using f(3) e(2) by simp
        have input: "input = frames_of (e # es) @ tail" unfolding e(3) f(2) by simp
        have all: "\<forall>e\<in>set (e # es). framed e" using e(1) f(1) by simp
        have at: "fst ` set_option (scan_replay_error (read_frames_from offset input)) \<subseteq> {offset + length (frames_of (e # es))}"
          unfolding err using f(5) e(2) by (simp add: add.assoc)
        have none: "scan_replay_error (read_frames_from offset input) = None \<longrightarrow> tail = []" unfolding err by (rule f(4))
        show ?thesis by (rule exI [of _ "e # es"], rule exI [of _ tail]) (intro conjI all input frames none at)
      qed
    qed
  qed
  then show thesis by (elim exE conjE) (rule that, assumption+, simp, assumption)
qed

text \<open>A prefix of a run of frames scans to a prefix of the entries.\<close>

lemma take_frames:
  "\<exists>j\<le>length es. \<exists>k'. take k (frames_of es) = frames_of (take j es) @ (if j < length es then take k' (frame_of (es ! j)) else []) \<and>
     (j < length es \<longrightarrow> k' < length (frame_of (es ! j))) \<and> (length (frames_of es) \<le> k \<longrightarrow> j = length es)"
  if "\<forall>e\<in>set es. frame_of e \<noteq> []"
  using that
proof (induction es arbitrary: k)
  case (Cons e es)
  show ?case
  proof (cases "k < length (frame_of e)")
    case True
    then show ?thesis by (intro exI [of _ 0] conjI exI [of _ k]) auto
  next
    case False
    obtain j k' where "j \<le> length es"
      "take (k - length (frame_of e)) (frames_of es) = frames_of (take j es) @ (if j < length es then take k' (frame_of (es ! j)) else [])"
      "j < length es \<longrightarrow> k' < length (frame_of (es ! j))" "length (frames_of es) \<le> k - length (frame_of e) \<longrightarrow> j = length es"
      using Cons.IH [of "k - length (frame_of e)"] Cons.prems by auto
    then show ?thesis using False by (intro exI [of _ "Suc j"] conjI exI [of _ k']) auto
  qed
qed simp

definition scan_of :: "u64 \<Rightarrow> PersistedRaftLogEntry list \<Rightarrow> (u64 \<times> RaftLogReplayError) option \<Rightarrow> RaftLogFrameScan" where
  "scan_of offset es err = \<lparr>scan_frames = frames_at offset es, scan_replay_error = err\<rparr>"

lemma read_frames_torn:
  assumes "\<forall>e\<in>set es. framed e"
  obtains j err where "j \<le> length es" "length (frames_of es) \<le> k \<Longrightarrow> j = length es"
    "read_frames_from offset (take k (frames_of es)) = scan_of offset (take j es) err"
    "err = None \<and> take k (frames_of es) = frames_of (take j es) \<or>
     (\<exists>e rest. err = Some (offset + length (frames_of (take j es)), e) \<and> take k (frames_of es) = frames_of (take j es) @ rest)"
proof -
  have ne: "\<forall>e\<in>set es. frame_of e \<noteq> []" using assms frame_of_length by fastforce
  obtain j k' where j: "j \<le> length es" "length (frames_of es) \<le> k \<longrightarrow> j = length es"
    "take k (frames_of es) = frames_of (take j es) @ (if j < length es then take k' (frame_of (es ! j)) else [])"
    "j < length es \<longrightarrow> k' < length (frame_of (es ! j))" using take_frames [OF ne, of k] by blast
  let ?tail = "if j < length es then take k' (frame_of (es ! j)) else []"
  let ?at = "offset + length (frames_of (take j es))"
  have scan: "read_frames_from offset (frames_of (take j es) @ ?tail) = (read_frames_from ?at ?tail)
      \<lparr>scan_frames := frames_at offset (take j es) @ scan_frames (read_frames_from ?at ?tail)\<rparr>"
    by (rule read_frames_append) (use assms in \<open>auto dest: in_set_takeD\<close>)
  show thesis
  proof (cases "?tail = []")
    case True
    then have "read_frames_from offset (take k (frames_of es)) = scan_of offset (take j es) None"
      using scan unfolding j(3) True by (simp add: read_frames_from.simps [of ?at] scan_of_def)
    then show thesis using that [of j None] j True by simp
  next
    case False
    then have "framed (es ! j)" "k' < length (frame_of (es ! j))" using assms j(4) by (auto split: if_splits)
    then obtain e where e: "next_frame ?at ?tail = Inl e" using next_frame_torn False by (metis (full_types))
    have "read_frames_from ?at ?tail = \<lparr>scan_frames = [], scan_replay_error = Some (?at, e)\<rparr>"
      using False e by (subst read_frames_from.simps) simp
    then have "read_frames_from offset (take k (frames_of es)) = scan_of offset (take j es) (Some (?at, e))"
      using scan unfolding j(3) by (simp add: scan_of_def)
    then show thesis using that [of j "Some (?at, e)"] j by auto
  qed
qed

section \<open>What opening accepts\<close>

lemma validate_contiguous_iff: "validate_contiguous es n = Inr () \<longleftrightarrow> map pe_index es = [n..<n + length es]"
  by (induction es arbitrary: n) (auto simp: upt_conv_Cons simp del: upt_Suc)

lemma open_contiguous_iff:
  "open_contiguous c es = Inr l \<longleftrightarrow> map pe_index es = [c + 1..<c + 1 + length es] \<and> l = \<lparr>cle_first_index = c + 1, cle_entries = es\<rparr>"
  using validate_contiguous_iff [of es "c + 1"]
  by (cases "validate_contiguous es (c + 1)") (auto simp: open_contiguous_def cle_from_entries_def)

abbreviation retained :: "LogIndex \<Rightarrow> PersistedRaftLogEntry list \<Rightarrow> PersistedRaftLogEntry list" where
  "retained c \<equiv> filter (\<lambda>e. c < pe_index e)"

text \<open>
  The log a disk holds: its marker's index and the entries behind it. Frames at or below the marker may
  remain, since the file is rewritten only after the marker is published.
\<close>

definition log_on_disk :: "LogIndex \<Rightarrow> PersistedRaftLogEntry list \<Rightarrow> LogDisk \<Rightarrow> bool" where
  "log_on_disk c es d \<longleftrightarrow> read_compaction_marker d = Inr c \<and> map pe_index es = [c + 1..<c + 1 + length es] \<and>
     (\<exists>all. (\<forall>e\<in>set all. framed e) \<and> segment_bytes d = frames_of all \<and> es = retained c all)"

definition segment_of :: "LogIndex \<Rightarrow> PersistedRaftLogEntry list \<Rightarrow> FileRaftLogSegment" where
  "segment_of c es = \<lparr>fs_compacted_through = c, fs_entries = \<lparr>cle_first_index = c + 1, cle_entries = es\<rparr>, fs_health = Healthy\<rparr>"

lemma segment_of_sel [simp]:
  "fs_compacted_through (segment_of c es) = c" "cle_entries (fs_entries (segment_of c es)) = es"
  "cle_first_index (fs_entries (segment_of c es)) = c + 1" "fs_health (segment_of c es) = Healthy"
  by (simp_all add: segment_of_def)

lemma read_frames_clean:
  "scan_replay_error (read_raft_log_frames bytes) = None \<longleftrightarrow> (\<exists>all. (\<forall>e\<in>set all. framed e) \<and> bytes = frames_of all)"
proof
  assume a: "scan_replay_error (read_raft_log_frames bytes) = None"
  show "\<exists>all. (\<forall>e\<in>set all. framed e) \<and> bytes = frames_of all"
    by (rule read_frames_sound [of bytes 0]) (use a in \<open>auto simp: read_raft_log_frames_def\<close>)
next
  assume "\<exists>all. (\<forall>e\<in>set all. framed e) \<and> bytes = frames_of all"
  then show "scan_replay_error (read_raft_log_frames bytes) = None" by (auto simp: read_raft_log_frames_def read_frames_exact)
qed

lemma scan_of_frames:
  "\<forall>e\<in>set all. framed e \<Longrightarrow> read_raft_log_frames (frames_of all) = scan_of 0 all None"
  by (simp add: read_raft_log_frames_def read_frames_exact scan_of_def)

lemma replay_strict_frames:
  "\<forall>e\<in>set all. framed e \<Longrightarrow> replay_entries_strict (read_raft_log_frames (frames_of all)) c = open_contiguous c (retained c all)"
  by (simp add: scan_of_frames scan_of_def replay_entries_strict_def)

lemma replay_strict_iff:
  "replay_entries_strict (read_raft_log_frames bytes) c = Inr l \<longleftrightarrow>
   (\<exists>all. (\<forall>e\<in>set all. framed e) \<and> bytes = frames_of all \<and> open_contiguous c (retained c all) = Inr l)" (is "?l \<longleftrightarrow> ?r")
proof
  assume ?l
  then have "scan_replay_error (read_raft_log_frames bytes) = None" by (auto simp: replay_entries_strict_def split: option.splits)
  then obtain all where "\<forall>e\<in>set all. framed e" "bytes = frames_of all" by (auto simp: read_frames_clean)
  then show ?r using \<open>?l\<close> replay_strict_frames by auto
next
  assume ?r
  then show ?l using replay_strict_frames by auto
qed

lemma map_sum_eq_Inr: "map_sum f g r = Inr y \<longleftrightarrow> (\<exists>x. r = Inr x \<and> y = g x)"
  by (cases r) auto

lemma open_strict_eq:
  "open_segment Strict d =
     (case read_compaction_marker d of
        Inl e \<Rightarrow> (d, Inl e)
      | Inr c \<Rightarrow> (d, map_sum id (\<lambda>l. \<lparr>fs_compacted_through = c, fs_entries = l, fs_health = Healthy\<rparr>)
                     (replay_entries_strict (read_raft_log_frames (segment_bytes d)) c)))"
proof (cases "read_compaction_marker d")
  case (Inr c)
  then show ?thesis by (cases "replay_entries_strict (read_raft_log_frames (segment_bytes d)) c")
    (simp_all add: open_segment_def replay_entries_for_open_def)
qed (simp add: open_segment_def)

text \<open>A disk opens strictly exactly when it holds a log, and the segment is that log.\<close>

lemma open_strict_iff:
  "open_segment Strict d = (d', Inr s) \<longleftrightarrow> d' = d \<and> (\<exists>c es. s = segment_of c es \<and> log_on_disk c es d)" (is "?l \<longleftrightarrow> ?r")
proof
  assume l: ?l
  then obtain c where "read_compaction_marker d = Inr c" by (cases "read_compaction_marker d") (simp_all add: open_strict_eq)
  with l obtain l where c: "read_compaction_marker d = Inr c" "replay_entries_strict (read_raft_log_frames (segment_bytes d)) c = Inr l"
    "d' = d" "s = \<lparr>fs_compacted_through = c, fs_entries = l, fs_health = Healthy\<rparr>"
    by (cases "replay_entries_strict (read_raft_log_frames (segment_bytes d)) c") (simp_all add: open_strict_eq)
  then obtain all where "\<forall>e\<in>set all. framed e" "segment_bytes d = frames_of all" "open_contiguous c (retained c all) = Inr l"
    unfolding replay_strict_iff by blast
  then have "log_on_disk c (retained c all) d" "s = segment_of c (retained c all)"
    using c unfolding log_on_disk_def segment_of_def open_contiguous_iff by blast+
  then show ?r using c(3) by blast
next
  assume ?r
  then obtain c es all where c: "d' = d" "s = segment_of c es" "read_compaction_marker d = Inr c" "\<forall>e\<in>set all. framed e"
    "segment_bytes d = frames_of all" "open_contiguous c (retained c all) = Inr \<lparr>cle_first_index = c + 1, cle_entries = es\<rparr>"
    by (auto simp: log_on_disk_def open_contiguous_iff)
  then show ?l by (simp add: open_segment_def replay_entries_for_open_def replay_strict_frames segment_of_def)
qed

section \<open>Repair\<close>

text \<open>The repair loop keeps the frames up to the first gap, and cuts there only past the durable index.\<close>

lemma repair_frames_sound:
  assumes "repair_frames c durable (frames_at offset all) n acc = Inr (es, n', stop)"
  shows "\<exists>j\<le>length all. es = acc @ retained c (take j all) \<and> n' = n + length (retained c (take j all)) \<and>
    map pe_index (retained c (take j all)) = [n..<n'] \<and> (stop = None \<longrightarrow> j = length all) \<and>
    (\<forall>p. stop = Some p \<longrightarrow> p = offset + length (frames_of (take j all)) \<and> durable < n')"
  using assms
proof (induction all arbitrary: offset n acc)
  case (Cons e all)
  let ?off = "offset + length (frame_of e)"
  consider (below) "pe_index e \<le> c" | (gap) "c < pe_index e" "pe_index e \<noteq> n" | (follows) "c < pe_index e" "pe_index e = n" by linarith
  then show ?case
  proof cases
    case below
    then have "repair_frames c durable (frames_at ?off all) n acc = Inr (es, n', stop)" using Cons.prems by simp
    from Cons.IH [OF this] obtain j where "j \<le> length all" "es = acc @ retained c (take j all)" "n' = n + length (retained c (take j all))"
      "map pe_index (retained c (take j all)) = [n..<n']" "stop = None \<longrightarrow> j = length all"
      "\<forall>p. stop = Some p \<longrightarrow> p = ?off + length (frames_of (take j all)) \<and> durable < n'" by blast
    then show ?thesis using below by (intro exI [of _ "Suc j"]) (simp add: add.assoc)
  next
    case gap
    then show ?thesis using Cons.prems by (intro exI [of _ 0]) (auto split: if_splits)
  next
    case follows
    then have "repair_frames c durable (frames_at ?off all) (n + 1) (acc @ [e]) = Inr (es, n', stop)" using Cons.prems by simp
    from Cons.IH [OF this] obtain j where "j \<le> length all" "es = (acc @ [e]) @ retained c (take j all)" "n' = n + 1 + length (retained c (take j all))"
      "map pe_index (retained c (take j all)) = [n + 1..<n']" "stop = None \<longrightarrow> j = length all"
      "\<forall>p. stop = Some p \<longrightarrow> p = ?off + length (frames_of (take j all)) \<and> durable < n'" by blast
    then show ?thesis using follows by (intro exI [of _ "Suc j"]) (simp add: upt_conv_Cons add.assoc del: upt_Suc)
  qed
qed simp

lemma repair_frames_contiguous:
  "map pe_index (retained c all) = [n..<n + length (retained c all)] \<Longrightarrow>
   repair_frames c durable (frames_at offset all) n acc = Inr (acc @ retained c all, n + length (retained c all), None)"
  by (induction all arbitrary: offset n acc) (auto simp: upt_conv_Cons simp del: upt_Suc split: if_splits)

lemma open_repair_eq:
  "open_segment (RepairUncommittedTail durable) d =
     (case read_compaction_marker d of
        Inl e \<Rightarrow> (d, Inl e)
      | Inr c \<Rightarrow>
          (case replay_entries_repairing_uncommitted_tail (read_raft_log_frames (segment_bytes d)) c durable of
             Inl e \<Rightarrow> (d, Inl e)
           | Inr (l, stop) \<Rightarrow>
               (case stop of None \<Rightarrow> d | Some p \<Rightarrow> d\<lparr>segment_bytes := take p (segment_bytes d)\<rparr>,
                Inr \<lparr>fs_compacted_through = c, fs_entries = l, fs_health = Healthy\<rparr>)))"
  unfolding open_segment_def replay_entries_for_open_def OpenMode.case ..

text \<open>Frames behind which the file is cut or ends: opening yields their log and leaves exactly them.\<close>

lemma open_repair_prefix:
  assumes "read_compaction_marker d = Inr c" "\<forall>e\<in>set all. framed e"
    "read_raft_log_frames (segment_bytes d) = scan_of 0 all err" "segment_bytes d = frames_of all @ rest"
    "case err of None \<Rightarrow> rest = [] | Some (at, _) \<Rightarrow> at = length (frames_of all) \<and> durable < c + 1 + length (retained c all)"
    "map pe_index (retained c all) = [c + 1..<c + 1 + length (retained c all)]"
  shows "open_segment (RepairUncommittedTail durable) d = (d\<lparr>segment_bytes := frames_of all\<rparr>, Inr (segment_of c (retained c all)))"
proof -
  have loop: "repair_frames c durable (frames_at 0 all) (c + 1) [] = Inr (retained c all, c + 1 + length (retained c all), None)"
    using repair_frames_contiguous [OF assms(6), of durable 0 "[]"] by simp
  have l: "open_contiguous c (retained c all) = Inr \<lparr>cle_first_index = c + 1, cle_entries = retained c all\<rparr>"
    using assms(6) by (simp add: open_contiguous_iff)
  show ?thesis
  proof (cases err)
    case None
    then have "replay_entries_repairing_uncommitted_tail (scan_of 0 all err) c durable =
        Inr (\<lparr>cle_first_index = c + 1, cle_entries = retained c all\<rparr>, None)"
      using loop l by (simp add: replay_entries_repairing_uncommitted_tail_def scan_of_def)
    moreover have "d\<lparr>segment_bytes := frames_of all\<rparr> = d" using None assms(4,5) by (cases d) simp
    ultimately show ?thesis using assms(1,3) by (simp add: open_repair_eq segment_of_def)
  next
    case (Some p)
    then obtain e where e: "err = Some (length (frames_of all), e)" "durable < c + 1 + length (retained c all)"
      using assms(5) by (cases p) auto
    then have "replay_entries_repairing_uncommitted_tail (scan_of 0 all err) c durable =
        Inr (\<lparr>cle_first_index = c + 1, cle_entries = retained c all\<rparr>, Some (length (frames_of all)))"
      using loop l by (simp add: replay_entries_repairing_uncommitted_tail_def scan_of_def)
    then show ?thesis using assms(1,3,4) by (simp add: open_repair_eq segment_of_def)
  qed
qed

lemma open_repair_whole:
  assumes "log_on_disk c es d"
  shows "open_segment (RepairUncommittedTail durable) d = (d, Inr (segment_of c es))"
proof -
  obtain all where all: "\<forall>e\<in>set all. framed e" "segment_bytes d = frames_of all" "es = retained c all"
    using assms by (auto simp: log_on_disk_def)
  then have "open_segment (RepairUncommittedTail durable) d = (d\<lparr>segment_bytes := frames_of all\<rparr>, Inr (segment_of c (retained c all)))"
    using assms scan_of_frames [OF all(1)] by (intro open_repair_prefix [where rest = "[]" and err = None]) (simp_all add: log_on_disk_def)
  then show ?thesis using all by simp
qed

text \<open>
  Repair on any bytes whatsoever: what it returns is the log the disk now holds, the file only loses a
  suffix, and it loses one only when every index up to the durable one is kept.
\<close>

lemma open_repair_sound:
  assumes "open_segment (RepairUncommittedTail durable) d = (d', Inr s)"
  shows "\<exists>c es. s = segment_of c es \<and> log_on_disk c es d' \<and> marker_bytes d' = marker_bytes d \<and>
    (\<exists>lost. segment_bytes d = segment_bytes d' @ lost) \<and> (d' \<noteq> d \<longrightarrow> durable < c + 1 + length es)"
proof -
  let ?scan = "read_raft_log_frames (segment_bytes d)"
  obtain c where c: "read_compaction_marker d = Inr c" using assms by (cases "read_compaction_marker d") (simp_all add: open_repair_eq)
  obtain l stop where l: "replay_entries_repairing_uncommitted_tail ?scan c durable = Inr (l, stop)"
    "d' = (case stop of None \<Rightarrow> d | Some p \<Rightarrow> d\<lparr>segment_bytes := take p (segment_bytes d)\<rparr>)"
    "s = \<lparr>fs_compacted_through = c, fs_entries = l, fs_health = Healthy\<rparr>"
    using assms c by (cases "replay_entries_repairing_uncommitted_tail ?scan c durable") (auto simp: open_repair_eq)
  obtain all tail where all: "\<forall>e\<in>set all. framed e" "segment_bytes d = frames_of all @ tail" "scan_frames ?scan = frames_at 0 all"
    "scan_replay_error ?scan = None \<Longrightarrow> tail = []" "fst ` set_option (scan_replay_error ?scan) \<subseteq> {length (frames_of all)}"
    using that unfolding read_raft_log_frames_def by (rule read_frames_sound [of "segment_bytes d" 0, unfolded add_0])
  obtain es n' p where loop: "repair_frames c durable (frames_at 0 all) (c + 1) [] = Inr (es, n', p)" "open_contiguous c es = Inr l"
    "(case p of Some q \<Rightarrow> Inr (Some q) | None \<Rightarrow> (case scan_replay_error ?scan of None \<Rightarrow> Inr None
       | Some (at, err) \<Rightarrow> if n' \<le> durable then Inl (OpenReplay err) else Inr (Some at))) = Inr stop"
    using l(1) unfolding replay_entries_repairing_uncommitted_tail_def all(3) by (auto simp: and_then_Inr_iff map_sum_eq_Inr)
  obtain j where j: "j \<le> length all" "es = retained c (take j all)" "n' = c + 1 + length es" "p = None \<Longrightarrow> j = length all"
    "\<And>q. p = Some q \<Longrightarrow> q = length (frames_of (take j all)) \<and> durable < n'"
    using repair_frames_sound [OF loop(1)] by auto
  have stop: "case stop of None \<Rightarrow> segment_bytes d = frames_of (take j all)
      | Some q \<Rightarrow> q = length (frames_of (take j all)) \<and> durable < n'"
    using loop(3) j(4,5) all(2,4,5) by (auto split: option.splits if_splits prod.splits)
  have split: "segment_bytes d = frames_of (take j all) @ frames_of (drop j all) @ tail"
    unfolding all(2) append_assoc [symmetric] frames_of_simps(3) [symmetric] append_take_drop_id ..
  then have bytes: "segment_bytes d' = frames_of (take j all)" "marker_bytes d' = marker_bytes d"
    "d' \<noteq> d \<longrightarrow> durable < n'" using stop l(2) by (auto split: option.splits)
  have "log_on_disk c es d'" using bytes c loop(2) j(2) all(1)
    unfolding log_on_disk_def open_contiguous_iff read_compaction_marker_def by (auto dest: in_set_takeD)
  moreover have "s = segment_of c es" using l(3) loop(2) by (simp add: open_contiguous_iff segment_of_def)
  ultimately show ?thesis using bytes split j(3) by auto
qed

section \<open>Operations\<close>

datatype LogOp = AppendEntries "PersistedRaftLogEntry list" | TruncateSuffix LogIndex | CompactPrefixThrough LogIndex

datatype LogOpError =
    AppendFailed RaftLogSegmentAppendError | TruncateFailed RaftLogSegmentTruncateError | CompactFailed RaftLogSegmentCompactError

definition mem_op :: "LogOp \<Rightarrow> InMemoryRaftLogSegment \<Rightarrow> InMemoryRaftLogSegment \<times> (LogOpError + unit)" where
  "mem_op operation m =
     (case operation of
        AppendEntries entries \<Rightarrow> map_prod id (map_sum AppendFailed id) (mem_append_entries entries m)
      | TruncateSuffix from_index \<Rightarrow> map_prod id (map_sum TruncateFailed id) (mem_truncate_suffix from_index m)
      | CompactPrefixThrough through \<Rightarrow> map_prod id (map_sum CompactFailed id) (mem_compact_prefix_through through m))"

definition file_op ::
    "LogFault \<Rightarrow> LogOp \<Rightarrow> LogDisk \<times> FileRaftLogSegment \<Rightarrow> (LogDisk \<times> FileRaftLogSegment) \<times> (LogOpError + unit)" where
  "file_op fault operation ds =
     (case operation of
        AppendEntries entries \<Rightarrow> map_prod id (map_sum AppendFailed id) (file_append_entries fault entries ds)
      | TruncateSuffix from_index \<Rightarrow> map_prod id (map_sum TruncateFailed id) (file_truncate_suffix fault from_index ds)
      | CompactPrefixThrough through \<Rightarrow> map_prod id (map_sum CompactFailed id) (file_compact_prefix_through fault through ds))"

definition segment_mem :: "FileRaftLogSegment \<Rightarrow> InMemoryRaftLogSegment" where
  "segment_mem s = \<lparr>mem_compacted_through = fs_compacted_through s, mem_entries = fs_entries s\<rparr>"

text \<open>An entry of the types whose encoding is short enough for its frame, or whose index is the maximum that every append refuses.\<close>

definition entry_fits :: "PersistedRaftLogEntry \<Rightarrow> bool" where
  "entry_fits e \<longleftrightarrow> pe_index e \<le> u64_max \<and> pe_term e \<le> u64_max \<and> entry_kind_ok (pe_kind e) \<and>
     (pe_index e = u64_max \<or> (case encode_raft_log_entry e of Inl _ \<Rightarrow> False | Inr bytes \<Rightarrow> length bytes \<le> u32_max))"

lemma framed_fits: "framed e \<longleftrightarrow> entry_fits e \<and> pe_index e \<noteq> u64_max"
  by (cases "encode_raft_log_entry e") (auto simp: framed_iff entry_fits_def persisted_ok_def)

subsection \<open>Contiguous lists\<close>

lemma contiguous_nth: "map pe_index es = [n..<n + length es] \<Longrightarrow> i < length es \<Longrightarrow> pe_index (es ! i) = n + i"
  by (metis add_diff_cancel_left' length_upt nth_map nth_upt nat_add_left_cancel_less)

lemma contiguous_Cons: "map pe_index (e # es) = [n..<n + length (e # es)] \<longleftrightarrow> pe_index e = n \<and> map pe_index es = [n + 1..<n + 1 + length es]"
  by (auto simp: upt_conv_Cons simp del: upt_Suc)

lemma contiguous_append:
  "map pe_index es = [n..<n + length es] \<Longrightarrow> map pe_index es' = [n + length es..<n + length es + length es'] \<Longrightarrow>
   map pe_index (es @ es') = [n..<n + length (es @ es')]"
  using upt_add_eq_append [of n "n + length es" "length es'"] by (simp add: add.assoc)

lemma contiguous_take: "map pe_index es = [n..<n + length es] \<Longrightarrow> map pe_index (take k es) = [n..<n + length (take k es)]"
  by (simp add: take_map [symmetric] min_def)

lemma contiguous_drop:
  "map pe_index es = [n..<n + length es] \<Longrightarrow> k \<le> length es \<Longrightarrow> map pe_index (drop k es) = [n + k..<n + k + length (drop k es)]"
  by (simp add: drop_map [symmetric])

lemma partition_contiguous:
  "map pe_index es = [n..<n + length es] \<Longrightarrow> partition_point (\<lambda>e. pe_index e < i) es = min (length es) (i - n)"
proof (induction es arbitrary: n)
  case (Cons e es)
  then have "pe_index e = n" "map pe_index es = [n + 1..<n + 1 + length es]" by (simp_all only: contiguous_Cons)
  with Cons.IH [of "n + 1"] show ?case by (auto simp: partition_point_def)
qed (simp add: partition_point_def)

lemma filter_contiguous:
  "map pe_index es = [n..<n + length es] \<Longrightarrow> filter (\<lambda>e. i < pe_index e) es = drop (i + 1 - n) es"
proof (induction es arbitrary: n)
  case (Cons e es)
  then have e: "pe_index e = n" "map pe_index es = [n + 1..<n + 1 + length es]" by (simp_all only: contiguous_Cons)
  have "i + 1 - n = Suc (i + 1 - (n + 1))" if "\<not> i < n" using that by simp
  with e Cons.IH [of "n + 1"] show ?case by (cases "i < n") simp_all
qed simp

lemma next_index_contiguous:
  "map pe_index es = [n..<n + length es] \<Longrightarrow> cle_next_index \<lparr>cle_first_index = n, cle_entries = es\<rparr> = n + length es"
  using contiguous_nth [of es n "length es - 1"] by (cases "es = []") (simp_all add: cle_next_index_def last_conv_nth)

subsection \<open>The in-memory segment\<close>

definition mem_of :: "LogIndex \<Rightarrow> PersistedRaftLogEntry list \<Rightarrow> InMemoryRaftLogSegment" where
  "mem_of c es = \<lparr>mem_compacted_through = c, mem_entries = \<lparr>cle_first_index = c + 1, cle_entries = es\<rparr>\<rparr>"

lemma segment_mem_of [simp]: "segment_mem (segment_of c es) = mem_of c es"
  by (simp add: segment_mem_def segment_of_def mem_of_def)

lemma reject_all_iff: "reject_all_append_bounds es = (if \<forall>e\<in>set es. pe_index e \<noteq> u64_max then Inr () else Inl AppendIndexAtMaximum)"
  by (induction es) (auto simp: reject_append_bounds_def advanceable_log_index_def)

lemma mem_append_of:
  assumes "map pe_index es0 = [c + 1..<c + 1 + length es0]"
  shows "mem_append_entries es (mem_of c es0) =
    (if \<exists>e\<in>set es. pe_index e = u64_max then (mem_of c es0, Inl AppendIndexAtMaximum)
     else case validate_contiguous es (c + 1 + length es0) of
            Inl nc \<Rightarrow> (mem_of c es0, Inl (AppendNonContiguous (nc_expected nc) (nc_actual nc)))
          | Inr _ \<Rightarrow> (mem_of c (es0 @ es), Inr ()))"
proof (cases "\<exists>e\<in>set es. pe_index e = u64_max")
  case False
  then show ?thesis using next_index_contiguous [OF assms]
    by (cases "validate_contiguous es (c + 1 + length es0)")
      (simp_all add: mem_append_entries_def reject_all_iff cle_append_def cle_extend_def mem_of_def)
qed (auto simp: mem_append_entries_def reject_all_iff)

lemma mem_truncate_of:
  assumes "map pe_index es0 = [c + 1..<c + 1 + length es0]"
  shows "mem_truncate_suffix i (mem_of c es0) =
    (case reject_truncate_bounds i c (c + 1 + length es0) of
       Inl e \<Rightarrow> (mem_of c es0, Inl e)
     | Inr _ \<Rightarrow> (mem_of c (take (i - (c + 1)) es0), Inr ()))"
proof -
  have "take (min (length es0) k) es0 = take k es0" for k by (simp add: min_def)
  then show ?thesis using next_index_contiguous [OF assms] partition_contiguous [OF assms, of i]
    by (simp add: mem_truncate_suffix_def cle_truncate_suffix_def mem_of_def split: sum.splits)
qed

lemma mem_compact_of:
  assumes "map pe_index es0 = [c + 1..<c + 1 + length es0]"
  shows "mem_compact_prefix_through t (mem_of c es0) =
    (if t = u64_max then (mem_of c es0, Inl ThroughIndexAtMaximum)
     else if t \<le> c then (mem_of c es0, Inr ()) else (mem_of t (drop (t - c) es0), Inr ()))"
proof -
  have "drop (min (length es0) k) es0 = drop k es0" for k by (simp add: min_def)
  then show ?thesis using partition_contiguous [OF assms, of "t + 1"]
    by (simp add: mem_compact_prefix_through_def reject_compact_bounds_def advanceable_log_index_def
        cle_compact_prefix_through_def mem_of_def Let_def)
qed

subsection \<open>The file segment\<close>

lemma append_frames_below:
  "\<forall>e\<in>set es. framed e \<Longrightarrow> append_frames es n out =
     (case validate_contiguous es n of
        Inl nc \<Rightarrow> Inl (AppendNonContiguous (nc_expected nc) (nc_actual nc)) | Inr _ \<Rightarrow> Inr (out @ frames_of es))"
  by (induction es arbitrary: n out)
    (auto simp: reject_append_bounds_def advanceable_log_index_def append_frame_framed framed_fits split: sum.splits)

lemma append_frames_maximum: "\<exists>e\<in>set es. pe_index e = u64_max \<Longrightarrow> \<exists>err. append_frames es n out = Inl err"
proof (induction es arbitrary: n out)
  case (Cons e es)
  show ?case
  proof (cases "pe_index e = u64_max \<or> pe_index e \<noteq> n")
    case True
    then show ?thesis by (auto simp: reject_append_bounds_def advanceable_log_index_def)
  next
    case False
    then have "\<exists>e\<in>set es. pe_index e = u64_max" using Cons.prems by auto
    then show ?thesis using False Cons.IH
      by (cases "append_raft_log_frame out e") (auto simp: reject_append_bounds_def advanceable_log_index_def)
  qed
qed simp

lemma file_append_of:
  assumes "map pe_index es0 = [c + 1..<c + 1 + length es0]" "\<forall>e\<in>set es. framed e"
  shows "file_append_entries fault es (d, segment_of c es0) =
    (case validate_contiguous es (c + 1 + length es0) of
       Inl nc \<Rightarrow> ((d, segment_of c es0), Inl (AppendNonContiguous (nc_expected nc) (nc_actual nc)))
     | Inr _ \<Rightarrow>
         if es = [] then ((d, segment_of c es0), Inr ())
         else case fault of
           WriteFault k \<Rightarrow> ((d\<lparr>segment_bytes := segment_bytes d @ take k (frames_of es)\<rparr>, record_io_failure (segment_of c es0)),
                            Inl (AppendIo ''append raft log entries''))
         | _ \<Rightarrow> ((d\<lparr>segment_bytes := segment_bytes d @ frames_of es\<rparr>, segment_of c (es0 @ es)), Inr ()))"
  using next_index_contiguous [OF assms(1)] append_frames_below [OF assms(2), of "c + 1 + length es0" "[]"]
  by (cases "validate_contiguous es (c + 1 + length es0)"; cases fault)
    (simp_all add: file_append_entries_def segment_of_def cle_extend_def)

lemma log_on_disk_framed: "log_on_disk c es d \<Longrightarrow> \<forall>e\<in>set es. framed e"
  by (auto simp: log_on_disk_def)

lemma log_on_disk_contiguous: "log_on_disk c es d \<Longrightarrow> map pe_index es = [c + 1..<c + 1 + length es]"
  by (simp add: log_on_disk_def)

lemma prepare_framed:
  "\<forall>e\<in>set es. framed e \<Longrightarrow>
   prepare_log_rewrite fault es = (case fault of PrepareFault operation \<Rightarrow> Inl (Inr operation) | _ \<Rightarrow> Inr (frames_of es))"
  by (cases fault) (simp_all add: prepare_log_rewrite_def write_frames_framed)

lemma file_truncate_of:
  fixes i :: LogIndex
  assumes "log_on_disk c es0 d"
  defines "kept \<equiv> take (i - (c + 1)) es0" and "failed \<equiv> record_io_failure (segment_of c es0)"
  shows "file_truncate_suffix fault i (d, segment_of c es0) =
    (case reject_truncate_bounds i c (c + 1 + length es0) of
       Inl e \<Rightarrow> ((d, segment_of c es0), Inl e)
     | Inr _ \<Rightarrow>
         if i = c + 1 + length es0 then ((d, segment_of c es0), Inr ())
         else case fault of
           PrepareFault operation \<Rightarrow> ((d, failed), Inl (TruncateIo operation))
         | RewriteFault BeforeRename operation \<Rightarrow> ((d, failed), Inl (TruncateIo operation))
         | RewriteFault AfterRename operation \<Rightarrow> ((d\<lparr>segment_bytes := frames_of kept\<rparr>, failed), Inl (TruncateIo operation))
         | _ \<Rightarrow> ((d\<lparr>segment_bytes := frames_of kept\<rparr>, segment_of c kept), Inr ()))"
proof -
  note cont = log_on_disk_contiguous [OF assms(1)]
  have "take (min (length es0) k) es0 = take k es0" for k by (simp add: min_def)
  then have kept: "entries_before i (fs_entries (segment_of c es0)) = kept"
    "cle_truncate_suffix i (fs_entries (segment_of c es0)) = fs_entries (segment_of c kept)"
    unfolding entries_before_def cle_truncate_suffix_def using partition_contiguous [OF cont, of i] by (simp_all add: kept_def segment_of_def)
  have "\<forall>e\<in>set kept. framed e" using log_on_disk_framed [OF assms(1)] unfolding kept_def by (auto dest: in_set_takeD)
  note prep = prepare_framed [OF this, of fault]
  have next_index: "cle_next_index (fs_entries (segment_of c es0)) = c + 1 + length es0"
    using next_index_contiguous [OF cont] by (simp add: segment_of_def)
  have upd: "segment_of c es0\<lparr>fs_entries := fs_entries (segment_of c kept)\<rparr> = segment_of c kept" by (simp add: segment_of_def)
  show ?thesis
    unfolding file_truncate_suffix_def split_conv Let_def next_index kept prep upd
    by (cases "reject_truncate_bounds i c (c + 1 + length es0)"; cases fault)
      (auto simp: publish_log_rewrite_def failed_def split: PublishPoint.splits)
qed

lemma file_compact_of:
  fixes t :: LogIndex
  assumes "log_on_disk c es0 d"
  defines "kept \<equiv> drop (t - c) es0" and "failed \<equiv> record_io_failure (segment_of c es0)"
    and "marked \<equiv> d\<lparr>marker_bytes := Some (encode_raft_log_compaction_marker t)\<rparr>"
  shows "file_compact_prefix_through fault t (d, segment_of c es0) =
    (if t = u64_max then ((d, segment_of c es0), Inl ThroughIndexAtMaximum)
     else if t \<le> c then ((d, segment_of c es0), Inr ())
     else case fault of
       PrepareFault operation \<Rightarrow> ((d, failed), Inl (CompactIo operation))
     | MarkerFault BeforeRename operation \<Rightarrow> ((d, failed), Inl (CompactIo operation))
     | MarkerFault AfterRename operation \<Rightarrow> ((marked, failed), Inl (CompactIo operation))
     | RewriteFault BeforeRename operation \<Rightarrow>
         ((marked, record_io_failure (segment_of t kept)), Inl (CompactedButReclamationFailed t operation))
     | RewriteFault AfterRename operation \<Rightarrow>
         ((marked\<lparr>segment_bytes := frames_of kept\<rparr>, record_io_failure (segment_of t kept)), Inl (CompactedButReclamationFailed t operation))
     | _ \<Rightarrow> ((marked\<lparr>segment_bytes := frames_of kept\<rparr>, segment_of t kept), Inr ()))"
proof -
  note cont = log_on_disk_contiguous [OF assms(1)]
  have "drop (min (length es0) k) es0 = drop k es0" for k by (simp add: min_def)
  then have kept: "entries_after t (fs_entries (segment_of c es0)) = kept"
    "\<not> t \<le> c \<Longrightarrow> cle_compact_prefix_through t (fs_entries (segment_of c es0)) = fs_entries (segment_of t kept)"
    unfolding entries_after_def cle_compact_prefix_through_def using partition_contiguous [OF cont, of "t + 1"]
    by (simp_all add: kept_def segment_of_def less_Suc_eq_le Let_def)
  have "\<forall>e\<in>set kept. framed e" using log_on_disk_framed [OF assms(1)] unfolding kept_def by (auto dest: in_set_dropD)
  note prep = prepare_framed [OF this, of fault]
  have upd: "segment_of c es0\<lparr>fs_entries := fs_entries (segment_of t kept), fs_compacted_through := t\<rparr> = segment_of t kept"
    by (simp add: segment_of_def)
  show ?thesis
    unfolding file_compact_prefix_through_def Let_def split_conv kept(1) prep
    by (cases fault) (auto simp: reject_compact_bounds_def advanceable_log_index_def publish_compaction_marker_def publish_log_rewrite_def
        kept(2) upd failed_def marked_def Let_def split: PublishPoint.splits)
qed

section \<open>The disk after an operation\<close>

lemma retained_id: "map pe_index es = [n..<n + length es] \<Longrightarrow> c < n \<Longrightarrow> retained c es = es"
  by (simp add: filter_contiguous)

lemma log_on_diskI:
  "read_compaction_marker d = Inr c \<Longrightarrow> \<forall>e\<in>set all. framed e \<Longrightarrow> segment_bytes d = frames_of all \<Longrightarrow>
   map pe_index (retained c all) = [c + 1..<c + 1 + length (retained c all)] \<Longrightarrow> log_on_disk c (retained c all) d"
  by (auto simp: log_on_disk_def)

lemma disk_append:
  assumes "log_on_disk c es0 d" "\<forall>e\<in>set es. framed e" "map pe_index es = [c + 1 + length es0..<c + 1 + length es0 + length es]"
  shows "log_on_disk c (es0 @ es) (d\<lparr>segment_bytes := segment_bytes d @ frames_of es\<rparr>)"
proof -
  obtain all where all: "\<forall>e\<in>set all. framed e" "segment_bytes d = frames_of all" "es0 = retained c all"
    using assms(1) by (auto simp: log_on_disk_def)
  have kept: "retained c (all @ es) = es0 @ es" using retained_id [OF assms(3)] all(3) by simp
  have "log_on_disk c (retained c (all @ es)) (d\<lparr>segment_bytes := segment_bytes d @ frames_of es\<rparr>)"
  proof (rule log_on_diskI)
    show "map pe_index (retained c (all @ es)) = [c + 1..<c + 1 + length (retained c (all @ es))]"
      unfolding kept by (rule contiguous_append [OF log_on_disk_contiguous [OF assms(1)] assms(3)])
  qed (use all assms(1,2) in \<open>auto simp: log_on_disk_def read_compaction_marker_def\<close>)
  then show ?thesis unfolding kept .
qed

lemma disk_rewrite:
  assumes "read_compaction_marker d = Inr c" "\<forall>e\<in>set es. framed e" "map pe_index es = [c + 1..<c + 1 + length es]"
  shows "log_on_disk c es (d\<lparr>segment_bytes := frames_of es\<rparr>)"
  using assms retained_id [OF assms(3)] by (auto simp: log_on_disk_def read_compaction_marker_def)

lemma disk_marker:
  assumes "log_on_disk c es0 d" "c < t" "t < u64_max"
  shows "log_on_disk t (drop (t - c) es0) (d\<lparr>marker_bytes := Some (encode_raft_log_compaction_marker t)\<rparr>)"
proof -
  obtain all where all: "\<forall>e\<in>set all. framed e" "segment_bytes d = frames_of all" "es0 = retained c all"
    using assms(1) by (auto simp: log_on_disk_def)
  note cont = log_on_disk_contiguous [OF assms(1)]
  have "retained t all = retained t es0" unfolding all(3) filter_filter using assms(2) by (intro filter_cong) auto
  then have kept: "retained t all = drop (t - c) es0" using filter_contiguous [OF cont, of t] by simp
  have "map pe_index (drop (t - c) es0) = [t + 1..<t + 1 + length (drop (t - c) es0)]"
    using contiguous_drop [OF cont, of "t - c"] assms(2) by (cases "t - c \<le> length es0") simp_all
  moreover have "decode_raft_log_compaction_marker (encode_raft_log_compaction_marker t) = Inr t"
    using assms(3) by (simp add: decode_marker_iff)
  ultimately show ?thesis using all kept unfolding log_on_disk_def by (auto simp: read_compaction_marker_def)
qed

text \<open>A torn append: opening cuts the file behind a whole number of the new entries.\<close>

lemma open_torn:
  assumes "log_on_disk c es0 d" "\<forall>e\<in>set es. framed e" "map pe_index es = [c + 1 + length es0..<c + 1 + length es0 + length es]"
    "durable < c + 1 + length es0"
  shows "\<exists>j\<le>length es. open_segment (RepairUncommittedTail durable) (d\<lparr>segment_bytes := segment_bytes d @ take k (frames_of es)\<rparr>) =
    (d\<lparr>segment_bytes := segment_bytes d @ frames_of (take j es)\<rparr>, Inr (segment_of c (es0 @ take j es)))"
proof -
  obtain all where all: "\<forall>e\<in>set all. framed e" "segment_bytes d = frames_of all" "es0 = retained c all"
    using assms(1) by (auto simp: log_on_disk_def)
  let ?off = "length (frames_of all)"
  obtain j err where j: "j \<le> length es" "read_frames_from ?off (take k (frames_of es)) = scan_of ?off (take j es) err"
    "err = None \<and> take k (frames_of es) = frames_of (take j es) \<or>
     (\<exists>e rest. err = Some (?off + length (frames_of (take j es)), e) \<and> take k (frames_of es) = frames_of (take j es) @ rest)"
    using read_frames_torn [OF assms(2), of k ?off] by metis
  let ?d = "d\<lparr>segment_bytes := segment_bytes d @ take k (frames_of es)\<rparr>" and ?all = "all @ take j es"
  have scan: "read_raft_log_frames (segment_bytes ?d) = scan_of 0 ?all err"
    using read_frames_append [OF all(1), of 0 "take k (frames_of es)"] j(2)
    by (simp add: read_raft_log_frames_def all(2) scan_of_def frames_at_append)
  have cont: "map pe_index (take j es) = [c + 1 + length es0..<c + 1 + length es0 + length (take j es)]"
    by (rule contiguous_take [OF assms(3)])
  have kept: "retained c ?all = es0 @ take j es" using retained_id [OF cont, of c] all(3) by simp
  obtain rest where rest: "segment_bytes ?d = frames_of ?all @ rest" "err = None \<Longrightarrow> rest = []" using j(3) all(2) by auto
  have "open_segment (RepairUncommittedTail durable) ?d = (?d\<lparr>segment_bytes := frames_of ?all\<rparr>, Inr (segment_of c (retained c ?all)))"
  proof (rule open_repair_prefix [OF _ _ scan rest(1)])
    show "read_compaction_marker ?d = Inr c" using assms(1) by (simp add: log_on_disk_def read_compaction_marker_def)
    show "\<forall>e\<in>set ?all. framed e" using all(1) assms(2) by (auto dest: in_set_takeD)
    show "case err of None \<Rightarrow> rest = [] | Some (at, _) \<Rightarrow> at = length (frames_of ?all) \<and> durable < c + 1 + length (retained c ?all)"
      using rest(2) j(3) assms(4) kept by (auto split: option.splits)
    show "map pe_index (retained c ?all) = [c + 1..<c + 1 + length (retained c ?all)]"
      unfolding kept by (rule contiguous_append [OF log_on_disk_contiguous [OF assms(1)] cont])
  qed
  then show ?thesis using j(1) unfolding kept by (intro exI [of _ j]) (simp add: all(2))
qed

section \<open>Refinement and recovery\<close>

text \<open>What a log may be after an operation that was cut short: a prefix of an append, all or nothing of a rewrite.\<close>

definition op_outcomes :: "LogOp \<Rightarrow> InMemoryRaftLogSegment \<Rightarrow> InMemoryRaftLogSegment set" where
  "op_outcomes operation m =
     (case operation of
        AppendEntries entries \<Rightarrow> (\<lambda>j. fst (mem_op (AppendEntries (take j entries)) m)) ` {..length entries}
      | _ \<Rightarrow> {m, fst (mem_op operation m)})"

definition recovers_as ::
    "LogOp \<Rightarrow> LogIndex \<Rightarrow> InMemoryRaftLogSegment \<Rightarrow> (LogDisk \<times> FileRaftLogSegment) \<times> (LogOpError + unit) \<Rightarrow> bool" where
  "recovers_as operation durable m out \<longleftrightarrow>
     (\<exists>d2 c2 es2. open_segment (RepairUncommittedTail durable) (fst (fst out)) = (d2, Inr (segment_of c2 es2)) \<and>
        log_on_disk c2 es2 d2 \<and> mem_of c2 es2 \<in> op_outcomes operation m \<and>
        (snd out = Inr () \<longrightarrow> fst out = (d2, segment_of c2 es2) \<and> mem_op operation m = (mem_of c2 es2, Inr ())))"

lemma recovers_failed:
  "log_on_disk c es d \<Longrightarrow> mem_of c es \<in> op_outcomes operation m \<Longrightarrow> recovers_as operation durable m ((d, s), Inl e)"
  unfolding recovers_as_def using open_repair_whole by fastforce

lemma recovers_done:
  "log_on_disk c es d \<Longrightarrow> mem_of c es \<in> op_outcomes operation m \<Longrightarrow> mem_op operation m = (mem_of c es, Inr ()) \<Longrightarrow>
   recovers_as operation durable m ((d, segment_of c es), Inr ())"
  unfolding recovers_as_def using open_repair_whole by fastforce

lemma outcome_unchanged: "m \<in> op_outcomes operation m"
proof (cases operation)
  case (AppendEntries es)
  have "fst (mem_op (AppendEntries (take 0 es)) m) = m"
    by (simp add: mem_op_def mem_append_entries_def cle_append_def cle_extend_def)
  then show ?thesis using AppendEntries by (force simp: op_outcomes_def)
qed (simp_all add: op_outcomes_def)

lemma outcome_done: "fst (mem_op operation m) \<in> op_outcomes operation m"
  by (cases operation) (force simp: op_outcomes_def)+

lemma fits_framed: "list_all entry_fits es \<Longrightarrow> \<not> (\<exists>e\<in>set es. pe_index e = u64_max) \<Longrightarrow> \<forall>e\<in>set es. framed e"
  by (auto simp: framed_fits list_all_iff)

lemma mem_append_valid:
  assumes "map pe_index es0 = [c + 1..<c + 1 + length es0]" "\<forall>e\<in>set es. framed e"
    "map pe_index es = [c + 1 + length es0..<c + 1 + length es0 + length es]"
  shows "mem_op (AppendEntries es) (mem_of c es0) = (mem_of c (es0 @ es), Inr ())"
proof -
  have "validate_contiguous es (c + 1 + length es0) = Inr ()" using assms(3) by (simp add: validate_contiguous_iff)
  moreover have "\<not> (\<exists>e\<in>set es. pe_index e = u64_max)" using assms(2) by (auto simp: framed_fits)
  ultimately show ?thesis by (simp add: mem_op_def mem_append_of [OF assms(1)])
qed

lemma append_recovers:
  assumes d: "log_on_disk c es0 d" and fits: "list_all entry_fits es" and durable: "durable < c + 1 + length es0"
  shows "recovers_as (AppendEntries es) durable (mem_of c es0) (file_op fault (AppendEntries es) (d, segment_of c es0))"
proof (cases "(\<exists>e\<in>set es. pe_index e = u64_max) \<or> validate_contiguous es (c + 1 + length es0) \<noteq> Inr ()")
  case True
  then obtain e where "file_op fault (AppendEntries es) (d, segment_of c es0) = ((d, segment_of c es0), Inl e)"
    using append_frames_maximum [of es "cle_next_index (fs_entries (segment_of c es0))" "[]"]
      file_append_of [OF log_on_disk_contiguous [OF d] fits_framed [OF fits], of fault d]
    by (cases "\<exists>e\<in>set es. pe_index e = u64_max"; cases "validate_contiguous es (c + 1 + length es0)")
      (auto simp: file_op_def file_append_entries_def)
  then show ?thesis by (simp add: recovers_failed [OF d outcome_unchanged])
next
  case False
  then have f: "\<forall>e\<in>set es. framed e" and v: "validate_contiguous es (c + 1 + length es0) = Inr ()"
    using fits_framed [OF fits] by auto
  note cont = v [unfolded validate_contiguous_iff]
  note step = file_append_of [OF log_on_disk_contiguous [OF d] f, of fault d, unfolded v sum.case]
  have mem: "mem_op (AppendEntries es) (mem_of c es0) = (mem_of c (es0 @ es), Inr ())"
    by (rule mem_append_valid [OF log_on_disk_contiguous [OF d] f cont])
  have full: "log_on_disk c (es0 @ es) (d\<lparr>segment_bytes := segment_bytes d @ frames_of es\<rparr>)" by (rule disk_append [OF d f cont])
  show ?thesis
  proof (cases "es \<noteq> [] \<and> (\<exists>k. fault = WriteFault k)")
    case True
    then obtain k where k: "fault = WriteFault k" "es \<noteq> []" by blast
    obtain j where j: "j \<le> length es" "open_segment (RepairUncommittedTail durable) (d\<lparr>segment_bytes := segment_bytes d @ take k (frames_of es)\<rparr>) =
        (d\<lparr>segment_bytes := segment_bytes d @ frames_of (take j es)\<rparr>, Inr (segment_of c (es0 @ take j es)))"
      using open_torn [OF d f cont durable, of k] by blast
    have tj: "\<forall>e\<in>set (take j es). framed e" using f by (auto dest: in_set_takeD)
    have "mem_op (AppendEntries (take j es)) (mem_of c es0) = (mem_of c (es0 @ take j es), Inr ())"
      by (rule mem_append_valid [OF log_on_disk_contiguous [OF d] tj contiguous_take [OF cont]])
    then have "mem_of c (es0 @ take j es) \<in> op_outcomes (AppendEntries es) (mem_of c es0)"
      using j(1) by (force simp: op_outcomes_def)
    moreover have "log_on_disk c (es0 @ take j es) (d\<lparr>segment_bytes := segment_bytes d @ frames_of (take j es)\<rparr>)"
      by (rule disk_append [OF d tj contiguous_take [OF cont]])
    ultimately show ?thesis using j(2) k step unfolding recovers_as_def by (auto simp: file_op_def)
  next
    case False
    then have "file_op fault (AppendEntries es) (d, segment_of c es0) =
        ((d\<lparr>segment_bytes := segment_bytes d @ frames_of es\<rparr>, segment_of c (es0 @ es)), Inr ())"
      using step by (cases "es = []"; cases fault) (simp_all add: file_op_def)
    then show ?thesis using recovers_done [OF full _ mem] mem outcome_done [of "AppendEntries es" "mem_of c es0"] by simp
  qed
qed

lemma truncate_recovers:
  assumes d: "log_on_disk c es0 d"
  shows "recovers_as (TruncateSuffix i) durable (mem_of c es0) (file_op fault (TruncateSuffix i) (d, segment_of c es0))"
proof (cases "reject_truncate_bounds i c (c + 1 + length es0)")
  case (Inl e)
  then show ?thesis by (simp add: file_op_def file_truncate_of [OF d] recovers_failed [OF d outcome_unchanged])
next
  case (Inr u)
  define kept where "kept = take (i - (c + 1)) es0"
  note cont = log_on_disk_contiguous [OF d]
  have mem: "mem_op (TruncateSuffix i) (mem_of c es0) = (mem_of c kept, Inr ())"
    using Inr by (simp add: mem_op_def mem_truncate_of [OF cont] kept_def)
  have same: "kept = es0" if "i = c + 1 + length es0" using that by (simp add: kept_def)
  have "\<forall>e\<in>set kept. framed e" using log_on_disk_framed [OF d] unfolding kept_def by (auto dest: in_set_takeD)
  then have new: "log_on_disk c kept (d\<lparr>segment_bytes := frames_of kept\<rparr>)"
    using d contiguous_take [OF cont, of "i - (c + 1)"] unfolding kept_def [symmetric] by (intro disk_rewrite) (auto simp: log_on_disk_def)
  have mem_new: "mem_of c kept \<in> op_outcomes (TruncateSuffix i) (mem_of c es0)"
    using outcome_done [of "TruncateSuffix i" "mem_of c es0"] mem by simp
  note old = recovers_failed [OF d outcome_unchanged] recovers_done [OF d outcome_unchanged]
    and new = recovers_failed [OF new mem_new] recovers_done [OF new mem_new]
  note step = file_truncate_of [OF d, of fault i, folded kept_def, unfolded Inr sum.case]
  show ?thesis
  proof (cases "i = c + 1 + length es0")
    case True
    then show ?thesis using step same mem by (simp add: file_op_def old)
  next
    case False
    then show ?thesis using step mem by (cases fault) (auto simp: file_op_def old new split: PublishPoint.splits)
  qed
qed

lemma compact_recovers:
  assumes d: "log_on_disk c es0 d" and t: "t \<le> u64_max"
  shows "recovers_as (CompactPrefixThrough t) durable (mem_of c es0) (file_op fault (CompactPrefixThrough t) (d, segment_of c es0))"
proof (cases "t = u64_max \<or> t \<le> c")
  case True
  then show ?thesis using mem_compact_of [OF log_on_disk_contiguous [OF d], of t]
    by (auto simp: file_op_def file_compact_of [OF d] mem_op_def recovers_failed [OF d outcome_unchanged] recovers_done [OF d outcome_unchanged])
next
  case False
  define kept where "kept = drop (t - c) es0"
  define marked where "marked = d\<lparr>marker_bytes := Some (encode_raft_log_compaction_marker t)\<rparr>"
  note cont = log_on_disk_contiguous [OF d]
  have mem: "mem_op (CompactPrefixThrough t) (mem_of c es0) = (mem_of t kept, Inr ())"
    using False by (simp add: mem_op_def mem_compact_of [OF cont] kept_def)
  have new: "log_on_disk t kept marked" using disk_marker [OF d, of t] False t unfolding kept_def marked_def by simp
  then have rewritten: "log_on_disk t kept (marked\<lparr>segment_bytes := frames_of kept\<rparr>)"
    using log_on_disk_framed [OF new] log_on_disk_contiguous [OF new] by (intro disk_rewrite) (auto simp: log_on_disk_def)
  have mem_new: "mem_of t kept \<in> op_outcomes (CompactPrefixThrough t) (mem_of c es0)"
    using outcome_done [of "CompactPrefixThrough t" "mem_of c es0"] mem by simp
  note old = recovers_failed [OF d outcome_unchanged]
    and new = recovers_failed [OF new mem_new] and rewritten = recovers_failed [OF rewritten mem_new] recovers_done [OF rewritten mem_new]
  show ?thesis using False mem file_compact_of [OF d, of fault t, folded kept_def marked_def]
    by (cases fault) (auto simp: file_op_def old new rewritten split: PublishPoint.splits)
qed

definition op_typed :: "LogOp \<Rightarrow> bool" where
  "op_typed operation =
     (case operation of AppendEntries entries \<Rightarrow> list_all entry_fits entries | TruncateSuffix i \<Rightarrow> i \<le> u64_max | CompactPrefixThrough t \<Rightarrow> t \<le> u64_max)"

lemma file_op_recovers:
  "log_on_disk c es0 d \<Longrightarrow> op_typed operation \<Longrightarrow> durable < c + 1 + length es0 \<Longrightarrow>
   recovers_as operation durable (mem_of c es0) (file_op fault operation (d, segment_of c es0))"
  by (cases operation) (auto simp: op_typed_def append_recovers truncate_recovers compact_recovers)

lemma next_index_on_disk: "log_on_disk c es d \<Longrightarrow> cle_next_index (fs_entries (segment_of c es)) = c + 1 + length es"
  using next_index_contiguous [OF log_on_disk_contiguous] by (simp add: segment_of_def)

lemma empty_disk: "log_on_disk 0 [] \<lparr>segment_bytes = [], marker_bytes = None\<rparr>"
  using log_on_diskI [of "\<lparr>segment_bytes = [], marker_bytes = None\<rparr>" 0 "[]"] by (simp add: read_compaction_marker_def)

text \<open>
  C15: crash safety of the durable log. Take a disk that opens, and any operation cut short at any point:
  a write that stops after any number of bytes, a replacement file that cannot be prepared, a marker or a
  replacement that fails before or after its rename. Reopening with repair, for any durable index the log
  held, succeeds. It yields the log before the operation, after it, or with some first entries of the
  append; an operation that reported success is never undone; and from then on the disk opens strictly.
\<close>

theorem log_survives_faults:
  assumes "open_segment Strict d = (d, Inr s)" "op_typed operation" "durable < cle_next_index (fs_entries s)"
    "file_op fault operation (d, s) = ((d1, s1), r)"
  shows "\<exists>d2 s2. open_segment (RepairUncommittedTail durable) d1 = (d2, Inr s2) \<and> open_segment Strict d2 = (d2, Inr s2) \<and>
    segment_mem s2 \<in> op_outcomes operation (segment_mem s) \<and>
    (r = Inr () \<longrightarrow> d2 = d1 \<and> s2 = s1 \<and> mem_op operation (segment_mem s) = (segment_mem s2, Inr ()))"
proof -
  obtain c es where s: "s = segment_of c es" "log_on_disk c es d" using assms(1) by (auto simp: open_strict_iff)
  then have "recovers_as operation durable (mem_of c es) ((d1, s1), r)"
    using file_op_recovers [OF s(2) assms(2), of durable fault] assms(3,4) next_index_on_disk [OF s(2)] by simp
  then obtain d2 c2 es2 where "open_segment (RepairUncommittedTail durable) d1 = (d2, Inr (segment_of c2 es2))" "log_on_disk c2 es2 d2"
    "mem_of c2 es2 \<in> op_outcomes operation (mem_of c es)"
    "r = Inr () \<longrightarrow> (d1, s1) = (d2, segment_of c2 es2) \<and> mem_op operation (mem_of c es) = (mem_of c2 es2, Inr ())"
    unfolding recovers_as_def by auto
  then show ?thesis unfolding s(1) by (intro exI [of _ d2] exI [of _ "segment_of c2 es2"]) (auto simp: open_strict_iff)
qed

theorem log_survives_faults_witness:
  "\<exists>d2 s2. open_segment (RepairUncommittedTail 0)
       (fst (fst (file_op (WriteFault 7) (AppendEntries [\<lparr>pe_index = 1, pe_term = 1, pe_kind = Noop\<rparr>])
         (\<lparr>segment_bytes = [], marker_bytes = None\<rparr>, segment_of 0 [])))) = (d2, Inr s2) \<and>
     open_segment Strict d2 = (d2, Inr s2)"
proof -
  have d: "open_segment Strict \<lparr>segment_bytes = [], marker_bytes = None\<rparr> = (\<lparr>segment_bytes = [], marker_bytes = None\<rparr>, Inr (segment_of 0 []))"
    using empty_disk by (auto simp: open_strict_iff)
  have fits: "op_typed (AppendEntries [\<lparr>pe_index = 1, pe_term = 1, pe_kind = Noop\<rparr>])"
    by (simp add: op_typed_def entry_fits_def encode_raft_log_entry_def encode_raft_log_entry_appending_def advanceable_log_index_def
        u64_max_def u32_max_def RAFT_LOG_ENTRY_MAGIC_def)
  show ?thesis
    using log_survives_faults [OF d fits, of 0 "WriteFault 7"]
    by (cases "file_op (WriteFault 7) (AppendEntries [\<lparr>pe_index = 1, pe_term = 1, pe_kind = Noop\<rparr>])
         (\<lparr>segment_bytes = [], marker_bytes = None\<rparr>, segment_of 0 [])") (auto simp: cle_next_index_def)
qed

text \<open>
  C16: repair keeps what is durable. On any disk, however damaged, reopening with repair either refuses or
  returns a log that the disk then holds: it opens strictly to the same segment. The marker is untouched,
  the file loses at most a suffix, and it loses one only if every index up to the durable one is kept.
\<close>

theorem repair_keeps_durable:
  assumes "open_segment (RepairUncommittedTail durable) d = (d', Inr s)"
  shows "open_segment Strict d' = (d', Inr s) \<and> marker_bytes d' = marker_bytes d \<and>
    (\<exists>lost. segment_bytes d = segment_bytes d' @ lost) \<and> (d' \<noteq> d \<longrightarrow> durable < cle_next_index (fs_entries s))"
  using open_repair_sound [OF assms] next_index_on_disk by (auto simp: open_strict_iff)

theorem repair_keeps_durable_witness:
  "segment_bytes (fst (open_segment (RepairUncommittedTail 0) \<lparr>segment_bytes = [0, 0, 0], marker_bytes = None\<rparr>)) = [] \<and>
   open_segment Strict (fst (open_segment (RepairUncommittedTail 0) \<lparr>segment_bytes = [0, 0, 0], marker_bytes = None\<rparr>)) =
     open_segment (RepairUncommittedTail 0) \<lparr>segment_bytes = [0, 0, 0], marker_bytes = None\<rparr>"
proof -
  have o: "open_segment (RepairUncommittedTail 0) \<lparr>segment_bytes = [0, 0, 0], marker_bytes = None\<rparr> =
      (\<lparr>segment_bytes = [], marker_bytes = None\<rparr>, Inr (segment_of 0 []))"
    by (simp add: open_repair_eq read_compaction_marker_def read_raft_log_frames_def read_frames_from.simps next_frame_def
        RAFT_LOG_FRAME_HEADER_LEN_def replay_entries_repairing_uncommitted_tail_def open_contiguous_def cle_from_entries_def segment_of_def)
  then show ?thesis using repair_keeps_durable [OF o] by simp
qed

lemma file_append_refines:
  assumes d: "log_on_disk c es0 d" and fits: "list_all entry_fits es"
  shows "\<exists>es' d' r r'. file_op NoFault (AppendEntries es) (d, segment_of c es0) = ((d', segment_of c es'), r) \<and> log_on_disk c es' d' \<and>
    mem_op (AppendEntries es) (mem_of c es0) = (mem_of c es', r') \<and> isl r = isl r' \<and>
    ((\<forall>e\<in>set es. pe_index e \<noteq> u64_max) \<longrightarrow> r = r')"
proof (cases "\<exists>e\<in>set es. pe_index e = u64_max")
  case True
  then obtain e where "file_op NoFault (AppendEntries es) (d, segment_of c es0) = ((d, segment_of c es0), Inl e)"
    using append_frames_maximum [of es "cle_next_index (fs_entries (segment_of c es0))" "[]"] by (auto simp: file_op_def file_append_entries_def)
  moreover have "mem_op (AppendEntries es) (mem_of c es0) = (mem_of c es0, Inl (AppendFailed AppendIndexAtMaximum))"
    using True by (simp add: mem_op_def mem_append_of [OF log_on_disk_contiguous [OF d]])
  ultimately show ?thesis using d True by auto
next
  case False
  note f = fits_framed [OF fits False]
  note step = file_append_of [OF log_on_disk_contiguous [OF d] f, of NoFault d] and mem = mem_append_of [OF log_on_disk_contiguous [OF d], of es]
  show ?thesis
  proof (cases "validate_contiguous es (c + 1 + length es0)")
    case (Inl nc)
    then show ?thesis using step mem False d by (auto simp: file_op_def mem_op_def)
  next
    case (Inr u)
    then have "log_on_disk c (es0 @ es) (d\<lparr>segment_bytes := segment_bytes d @ frames_of es\<rparr>)"
      using disk_append [OF d f] by (simp add: validate_contiguous_iff)
    then show ?thesis using Inr step mem False d by (cases "es = []") (auto simp: file_op_def mem_op_def)
  qed
qed

lemma file_truncate_refines:
  assumes d: "log_on_disk c es0 d"
  shows "\<exists>es' d' r. file_op NoFault (TruncateSuffix i) (d, segment_of c es0) = ((d', segment_of c es'), r) \<and> log_on_disk c es' d' \<and>
    mem_op (TruncateSuffix i) (mem_of c es0) = (mem_of c es', r)"
proof (cases "reject_truncate_bounds i c (c + 1 + length es0)")
  case (Inl e)
  then show ?thesis using d by (auto simp: file_op_def mem_op_def file_truncate_of [OF d] mem_truncate_of [OF log_on_disk_contiguous [OF d]])
next
  case (Inr u)
  let ?kept = "take (i - (c + 1)) es0"
  note cont = log_on_disk_contiguous [OF d]
  have "\<forall>e\<in>set ?kept. framed e" using log_on_disk_framed [OF d] by (auto dest: in_set_takeD)
  then have "log_on_disk c ?kept (d\<lparr>segment_bytes := frames_of ?kept\<rparr>)"
    using d contiguous_take [OF cont, of "i - (c + 1)"] by (intro disk_rewrite) (auto simp: log_on_disk_def)
  then show ?thesis using Inr d by (cases "i = c + 1 + length es0")
    (auto simp: file_op_def mem_op_def file_truncate_of [OF d] mem_truncate_of [OF cont])
qed

lemma file_compact_refines:
  assumes d: "log_on_disk c es0 d" and t: "t \<le> u64_max"
  shows "\<exists>c' es' d' r. file_op NoFault (CompactPrefixThrough t) (d, segment_of c es0) = ((d', segment_of c' es'), r) \<and> log_on_disk c' es' d' \<and>
    mem_op (CompactPrefixThrough t) (mem_of c es0) = (mem_of c' es', r)"
proof (cases "t = u64_max \<or> t \<le> c")
  case True
  then show ?thesis using d by (auto simp: file_op_def mem_op_def file_compact_of [OF d] mem_compact_of [OF log_on_disk_contiguous [OF d]])
next
  case False
  let ?marked = "d\<lparr>marker_bytes := Some (encode_raft_log_compaction_marker t)\<rparr>" and ?kept = "drop (t - c) es0"
  have m: "log_on_disk t ?kept ?marked" using disk_marker [OF d, of t] False t by simp
  then have "log_on_disk t ?kept (?marked\<lparr>segment_bytes := frames_of ?kept\<rparr>)"
    using log_on_disk_framed [OF m] log_on_disk_contiguous [OF m] by (intro disk_rewrite) (auto simp: log_on_disk_def)
  then show ?thesis using False by (auto simp: file_op_def mem_op_def file_compact_of [OF d] mem_compact_of [OF log_on_disk_contiguous [OF d]])
qed

definition op_below_maximum :: "LogOp \<Rightarrow> bool" where
  "op_below_maximum operation =
     (case operation of AppendEntries entries \<Rightarrow> list_all (\<lambda>e. pe_index e \<noteq> u64_max) entries | _ \<Rightarrow> True)"

text \<open>
  C26: the file segment implements the in-memory segment. On a disk that opens, an operation without a
  fault does to the log what the in-memory segment does, accepts exactly what it accepts, and leaves a disk
  that opens to the segment it returns. The errors are the same too, except that an append naming the
  maximum index and a gap may report either one first.
\<close>

theorem file_log_refines_memory:
  assumes "open_segment Strict d = (d, Inr s)" "op_typed operation" "file_op NoFault operation (d, s) = ((d1, s1), r)"
  shows "open_segment Strict d1 = (d1, Inr s1) \<and> fst (mem_op operation (segment_mem s)) = segment_mem s1 \<and>
    isl r = isl (snd (mem_op operation (segment_mem s))) \<and>
    (op_below_maximum operation \<longrightarrow> r = snd (mem_op operation (segment_mem s)))"
proof -
  obtain c es where s: "s = segment_of c es" "log_on_disk c es d" using assms(1) by (auto simp: open_strict_iff)
  obtain c' es' r' where "s1 = segment_of c' es'" "log_on_disk c' es' d1" "mem_op operation (mem_of c es) = (mem_of c' es', r')"
    "isl r = isl r'" "op_below_maximum operation \<longrightarrow> r = r'"
  proof (cases operation)
    case (AppendEntries es2)
    then obtain es' r' where "s1 = segment_of c es'" "log_on_disk c es' d1" "mem_op operation (mem_of c es) = (mem_of c es', r')"
      "isl r = isl r'" "(\<forall>e\<in>set es2. pe_index e \<noteq> u64_max) \<longrightarrow> r = r'"
      using file_append_refines [OF s(2), of es2] assms(2,3) unfolding s(1) by (auto simp: op_typed_def)
    then show thesis using AppendEntries that [of c es' r'] by (simp add: op_below_maximum_def list_all_iff)
  next
    case (TruncateSuffix i)
    then show thesis using file_truncate_refines [OF s(2), of i] assms(3) that unfolding s(1) by auto
  next
    case (CompactPrefixThrough t)
    then show thesis using file_compact_refines [OF s(2), of t] assms(2,3) that unfolding s(1) by (auto simp: op_typed_def)
  qed
  then show ?thesis unfolding s(1) by (auto simp: open_strict_iff)
qed

theorem file_log_refines_memory_witness:
  "mem_op (CompactPrefixThrough 3) (segment_mem (segment_of 0 [])) =
     (mem_of 3 [], snd (file_op NoFault (CompactPrefixThrough 3) (\<lparr>segment_bytes = [], marker_bytes = None\<rparr>, segment_of 0 [])))"
proof -
  let ?d = "\<lparr>segment_bytes = [], marker_bytes = None\<rparr>"
  have d: "open_segment Strict ?d = (?d, Inr (segment_of 0 []))" using empty_disk by (auto simp: open_strict_iff)
  have typed: "op_typed (CompactPrefixThrough 3)" by (simp add: op_typed_def u64_max_def)
  have op: "file_op NoFault (CompactPrefixThrough 3) (?d, segment_of 0 []) =
      ((?d\<lparr>marker_bytes := Some (encode_raft_log_compaction_marker 3), segment_bytes := frames_of []\<rparr>, segment_of 3 []), Inr ())"
    by (simp add: file_op_def file_compact_of [OF empty_disk] u64_max_def)
  show ?thesis using file_log_refines_memory [OF d typed op] op
    by (auto simp: op_below_maximum_def prod_eq_iff)
qed

end
