(* ===== verification/Hard_State_Store.thy ===== *)
theory Hard_State_Store
  imports Log_Recovery
begin

text \<open>
  The hard-state stores of \<open>rafter-storage/src/raft_hard_state_store\<close>: the in-memory store, the file
  replaced by a rename, and the append-only journal with its recovery and its checkpoints. As for the
  log, a failed write leaves a prefix of its bytes and a rename either happened or did not. Both durable
  stores satisfy one contract, and what a crash may do to them is proved once from it.
\<close>

section \<open>Shared types\<close>

datatype RaftHardStateStoreWriteError = HsWriteIo string | HsStoreRequiresReopen

datatype HardStateFault =
    HsNoFault | HsAppendFault usize string | HsPrepareFault string | HsPublishFault PublishPoint string

record InMemoryRaftHardStateStore =
  ms_current :: RaftHardState

definition mem_write_hard_state ::
    "RaftHardState \<Rightarrow> InMemoryRaftHardStateStore \<Rightarrow> InMemoryRaftHardStateStore \<times> (RaftHardStateStoreWriteError + unit)" where
  "mem_write_hard_state state store = (store\<lparr>ms_current := state\<rparr>, Inr ())"

section \<open>The file store\<close>

record FileRaftHardStateStore =
  fh_current :: RaftHardState
  fh_health :: FileStoreHealth

datatype OpenRaftHardStateStoreError = OpenHsDecode DecodeRaftHardStateError

definition file_hs_open :: "byte list option \<Rightarrow> byte list option \<times> (OpenRaftHardStateStoreError + FileRaftHardStateStore)" where
  "file_hs_open disk =
     (disk,
      case disk of
        None \<Rightarrow> Inr \<lparr>fh_current = RaftHardState_default, fh_health = Healthy\<rparr>
      | Some bytes \<Rightarrow>
          map_sum OpenHsDecode (\<lambda>current. \<lparr>fh_current = current, fh_health = Healthy\<rparr>) (decode_raft_hard_state bytes))"

definition file_hs_write ::
    "HardStateFault \<Rightarrow> RaftHardState \<Rightarrow> byte list option \<times> FileRaftHardStateStore \<Rightarrow>
     (byte list option \<times> FileRaftHardStateStore) \<times> (RaftHardStateStoreWriteError + unit)" where
  "file_hs_write fault state ds =
     (let (disk, store) = ds in
      if fh_health store = ReopenRequired then (ds, Inl HsStoreRequiresReopen)
      else let encoded = encode_raft_hard_state state; failed = store\<lparr>fh_health := ReopenRequired\<rparr> in
        case fault of
          HsPrepareFault operation \<Rightarrow> ((disk, failed), Inl (HsWriteIo operation))
        | HsPublishFault BeforeRename operation \<Rightarrow> ((disk, failed), Inl (HsWriteIo operation))
        | HsPublishFault AfterRename operation \<Rightarrow> ((Some encoded, failed), Inl (HsWriteIo operation))
        | _ \<Rightarrow> ((Some encoded, store\<lparr>fh_current := state\<rparr>), Inr ()))"

section \<open>The journal\<close>

definition RECORD_LIMIT :: u64 where
  "RECORD_LIMIT = 4096"

record JournalRaftHardStateStore =
  jr_current :: RaftHardState
  jr_records :: u64
  jr_health :: FileStoreHealth

datatype OpenJournalRaftHardStateStoreError = InvalidHeader | JournalRecord u64 DecodeRaftHardStateError

text \<open>The loop over the records: the last state and where to cut an incomplete record, or the first corrupt one.\<close>

function recover_records ::
    "byte list \<Rightarrow> u64 \<Rightarrow> RaftHardState \<Rightarrow> OpenJournalRaftHardStateStoreError + RaftHardState \<times> u64 option" where
  "recover_records input offset current =
     (let bytes = take RECORD_LEN input; count = length bytes in
      if count = 0 then Inr (current, None)
      else if count < RECORD_LEN then Inr (current, Some offset)
      else case decode_raft_hard_state bytes of
             Inl source \<Rightarrow> Inl (JournalRecord offset source)
           | Inr state \<Rightarrow> recover_records (drop RECORD_LEN input) (offset + RECORD_LEN) state)"
  by pat_completeness auto
termination
  by (relation "measure (\<lambda>(input, offset, current). length input)") (auto simp: RECORD_LEN_def)

declare recover_records.simps [simp del]

definition journal_recover :: "byte list \<Rightarrow> OpenJournalRaftHardStateStoreError + RaftHardState \<times> u64 option" where
  "journal_recover bytes =
     (let header = take HEADER_LEN bytes in
      if length header \<noteq> HEADER_LEN \<or> header \<noteq> journal_header then Inl InvalidHeader
      else recover_records (drop HEADER_LEN bytes) HEADER_LEN RaftHardState_default)"

definition journal_open ::
    "byte list option \<Rightarrow> byte list option \<times> (OpenJournalRaftHardStateStoreError + JournalRaftHardStateStore)" where
  "journal_open disk =
     (case
        (case disk of
           None \<Rightarrow> Inr (journal_header, RaftHardState_default)
         | Some bytes \<Rightarrow>
             map_sum id (\<lambda>(current, repair). (case repair of None \<Rightarrow> bytes | Some offset \<Rightarrow> take offset bytes, current))
               (journal_recover bytes)) of
        Inl error \<Rightarrow> (disk, Inl error)
      | Inr (bytes, current) \<Rightarrow>
          (Some bytes,
           Inr \<lparr>jr_current = current, jr_records = (length bytes - HEADER_LEN) div RECORD_LEN, jr_health = Healthy\<rparr>))"

text \<open>The checkpoint is a new journal with one record, written under a temporary name and renamed.\<close>

definition publish_checkpoint :: "HardStateFault \<Rightarrow> byte list \<Rightarrow> byte list option \<Rightarrow> byte list option \<times> bool" where
  "publish_checkpoint fault encoded disk =
     (let bytes = journal_header @ encoded in
      case fault of
        HsPrepareFault _ \<Rightarrow> (disk, False)
      | HsPublishFault BeforeRename _ \<Rightarrow> (disk, False)
      | HsPublishFault AfterRename _ \<Rightarrow> (Some bytes, False)
      | _ \<Rightarrow> (Some bytes, True))"

definition journal_write ::
    "HardStateFault \<Rightarrow> RaftHardState \<Rightarrow> byte list option \<times> JournalRaftHardStateStore \<Rightarrow>
     (byte list option \<times> JournalRaftHardStateStore) \<times> (RaftHardStateStoreWriteError + unit)" where
  "journal_write fault state ds =
     (let (disk, store) = ds in
      if jr_health store = ReopenRequired then (ds, Inl HsStoreRequiresReopen)
      else let encoded = encode_raft_hard_state state; failed = store\<lparr>jr_health := ReopenRequired\<rparr> in
        if jr_records store \<ge> RECORD_LIMIT then
          (case publish_checkpoint fault encoded disk of
             (disk, True) \<Rightarrow> ((disk, store\<lparr>jr_current := state, jr_records := 1\<rparr>), Inr ())
           | (disk, False) \<Rightarrow> ((disk, failed), Inl (HsWriteIo ''checkpoint hard-state journal'')))
        else
          (case fault of
             HsAppendFault k operation \<Rightarrow> ((map_option (\<lambda>bytes. bytes @ take k encoded) disk, failed), Inl (HsWriteIo operation))
           | _ \<Rightarrow>
               ((map_option (\<lambda>bytes. bytes @ encoded) disk,
                 store\<lparr>jr_current := state, jr_records := jr_records store + 1\<rparr>), Inr ())))"

section \<open>Recovery of the journal\<close>

definition records_of :: "RaftHardState list \<Rightarrow> byte list" where
  "records_of sts = concat (map encode_raft_hard_state sts)"

lemma records_of_simps [simp]:
  "records_of [] = []" "records_of (st # sts) = encode_raft_hard_state st @ records_of sts"
  "records_of (sts @ sts') = records_of sts @ records_of sts'"
  by (simp_all add: records_of_def)

lemma length_records_of [simp]: "length (records_of sts) = RECORD_LEN * length sts"
  by (induction sts) (simp_all add: length_encode_raft_hard_state RECORD_LEN_def)

lemma recover_records_step:
  assumes "RECORD_LEN \<le> length input"
  shows "recover_records input offset current =
    (case decode_raft_hard_state (take RECORD_LEN input) of
       Inl source \<Rightarrow> Inl (JournalRecord offset source)
     | Inr state \<Rightarrow> recover_records (drop RECORD_LEN input) (offset + RECORD_LEN) state)"
proof -
  have "length (take RECORD_LEN input) = RECORD_LEN" "RECORD_LEN \<noteq> 0" using assms by (simp_all add: RECORD_LEN_def)
  then show ?thesis unfolding recover_records.simps [of input] Let_def by (simp only: if_False less_irrefl)
qed

lemma recover_records_exact:
  "\<forall>st\<in>set sts. hard_state_ok st \<Longrightarrow> length tail < RECORD_LEN \<Longrightarrow>
   recover_records (records_of sts @ tail) offset current =
     Inr (last (current # sts), if tail = [] then None else Some (offset + RECORD_LEN * length sts))"
proof (induction sts arbitrary: offset current)
  case Nil
  then show ?case by (subst recover_records.simps) (simp add: Let_def)
next
  case (Cons st sts)
  have "take RECORD_LEN (encode_raft_hard_state st @ records_of sts @ tail) = encode_raft_hard_state st"
    "drop RECORD_LEN (encode_raft_hard_state st @ records_of sts @ tail) = records_of sts @ tail"
    by (simp_all add: length_encode_raft_hard_state RECORD_LEN_def)
  moreover have "decode_raft_hard_state (encode_raft_hard_state st) = Inr st" using Cons.prems by (simp add: decode_raft_hard_state_iff)
  ultimately have "recover_records (records_of (st # sts) @ tail) offset current =
      recover_records (records_of sts @ tail) (offset + RECORD_LEN) st"
    by (subst recover_records_step) (simp_all add: length_encode_raft_hard_state RECORD_LEN_def)
  then show ?case using Cons by (simp add: add.assoc)
qed

lemma recover_records_sound:
  assumes "recover_records input offset current = Inr (st, repair)"
  shows "\<exists>sts tail. (\<forall>x\<in>set sts. hard_state_ok x) \<and> length tail < RECORD_LEN \<and> input = records_of sts @ tail \<and> st = last (current # sts)"
  using assms
proof (induction input offset current rule: recover_records.induct)
  case (1 input offset current)
  let ?bytes = "take RECORD_LEN input"
  show ?case
  proof (cases "length ?bytes < RECORD_LEN")
    case True
    then have "st = current" "length input < RECORD_LEN" using 1(2)
      by (auto simp: recover_records.simps [of input] Let_def split: if_splits)
    then show ?thesis by (intro exI [of _ "[]"] exI [of _ input]) simp
  next
    case False
    then have len: "length ?bytes = RECORD_LEN" "length ?bytes \<noteq> 0" by (auto simp: RECORD_LEN_def)
    then obtain x where x: "decode_raft_hard_state ?bytes = Inr x"
      "recover_records (drop RECORD_LEN input) (offset + RECORD_LEN) x = Inr (st, repair)"
      using 1(2) recover_records_step [of input offset current] by (cases "decode_raft_hard_state ?bytes") auto
    from 1(1) [OF refl refl len(2) False x(1) x(2)] obtain sts tail where
      "\<forall>y\<in>set sts. hard_state_ok y" "length tail < RECORD_LEN" "drop RECORD_LEN input = records_of sts @ tail" "st = last (x # sts)"
      by blast
    moreover have "hard_state_ok x" "?bytes = encode_raft_hard_state x" using x(1) by (simp_all add: decode_raft_hard_state_iff)
    moreover have "input = ?bytes @ drop RECORD_LEN input" by simp
    ultimately show ?thesis by (intro exI [of _ "x # sts"] exI [of _ tail]) auto
  qed
qed

text \<open>A journal that holds some states, and the store opened on it.\<close>

definition journal_of :: "RaftHardState list \<Rightarrow> byte list option \<times> JournalRaftHardStateStore" where
  "journal_of sts = (Some (journal_header @ records_of sts),
     \<lparr>jr_current = last (RaftHardState_default # sts), jr_records = length sts, jr_health = Healthy\<rparr>)"

lemma journal_recover_exact:
  "\<forall>st\<in>set sts. hard_state_ok st \<Longrightarrow> length tail < RECORD_LEN \<Longrightarrow>
   journal_recover (journal_header @ records_of sts @ tail) =
     Inr (last (RaftHardState_default # sts), if tail = [] then None else Some (HEADER_LEN + RECORD_LEN * length sts))"
  by (simp add: journal_recover_def recover_records_exact)

lemma journal_open_torn:
  assumes "\<forall>st\<in>set sts. hard_state_ok st" "length tail < RECORD_LEN"
  shows "journal_open (Some (journal_header @ records_of sts @ tail)) = (fst (journal_of sts), Inr (snd (journal_of sts)))"
proof -
  have "(RECORD_LEN * length sts) div RECORD_LEN = length sts" by (simp add: RECORD_LEN_def)
  then show ?thesis using journal_recover_exact [OF assms] by (simp add: journal_open_def journal_of_def)
qed

lemma journal_open_created: "journal_open None = (fst (journal_of []), Inr (snd (journal_of [])))"
  by (simp add: journal_open_def journal_of_def)

text \<open>Whatever the bytes, opening returns the states they hold or refuses them.\<close>

lemma journal_open_sound:
  assumes "journal_open disk = (disk', Inr j)"
  shows "\<exists>sts. (\<forall>st\<in>set sts. hard_state_ok st) \<and> (disk', j) = journal_of sts \<and>
    (\<forall>bytes. disk = Some bytes \<longrightarrow> (\<exists>tail. length tail < RECORD_LEN \<and> bytes = journal_header @ records_of sts @ tail))"
proof (cases disk)
  case None
  then show ?thesis using assms journal_open_created by (intro exI [of _ "[]"]) (simp add: prod_eq_iff)
next
  case (Some bytes)
  then obtain st repair where r: "journal_recover bytes = Inr (st, repair)"
    using assms by (cases "journal_recover bytes") (auto simp: journal_open_def)
  then have head: "take HEADER_LEN bytes = journal_header" "recover_records (drop HEADER_LEN bytes) HEADER_LEN RaftHardState_default = Inr (st, repair)"
    by (auto simp: journal_recover_def Let_def split: if_splits)
  obtain sts tail where s: "\<forall>x\<in>set sts. hard_state_ok x" "length tail < RECORD_LEN" "drop HEADER_LEN bytes = records_of sts @ tail"
    using recover_records_sound [OF head(2)] by blast
  then have bytes: "bytes = journal_header @ records_of sts @ tail" using head(1) by (metis append_take_drop_id)
  have "(disk', j) = journal_of sts" using assms journal_open_torn [OF s(1,2)] Some bytes by (simp add: prod_eq_iff)
  then show ?thesis using s(1,2) Some bytes by blast
qed

section \<open>The contract of a durable store\<close>

text \<open>
  Driving a store: a sequence of writes, each with the fault it meets, where a refused write is followed
  by reopening. The trace says which writes were acknowledged.
\<close>

fun drive_store ::
    "('f \<Rightarrow> RaftHardState \<Rightarrow> 'd \<times> 's \<Rightarrow> ('d \<times> 's) \<times> ('w + unit)) \<Rightarrow> ('d \<Rightarrow> 'd \<times> ('e + 's)) \<Rightarrow>
     ('f \<times> RaftHardState) list \<Rightarrow> 'd \<times> 's \<Rightarrow> ((bool \<times> RaftHardState) list \<times> 'd \<times> 's) option" where
  "drive_store write reopen [] ds = Some ([], ds)"
| "drive_store write reopen ((fault, st) # ws) ds =
     (case write fault st ds of
        (ds, Inr _) \<Rightarrow> map_option (\<lambda>(trace, ds). ((True, st) # trace, ds)) (drive_store write reopen ws ds)
      | ((d, _), Inl _) \<Rightarrow>
          (case reopen d of
             (d, Inr s) \<Rightarrow> map_option (\<lambda>(trace, ds). ((False, st) # trace, ds)) (drive_store write reopen ws (d, s))
           | (_, Inl _) \<Rightarrow> None))"

text \<open>The states a trace may leave: the last acknowledged one, or one written after it without an answer.\<close>

fun survivors :: "RaftHardState \<Rightarrow> (bool \<times> RaftHardState) list \<Rightarrow> RaftHardState set" where
  "survivors st [] = {st}"
| "survivors st ((acknowledged, st') # trace) = (if acknowledged then survivors st' trace else survivors st trace \<union> survivors st' trace)"

lemma survivors_subset: "survivors st trace \<subseteq> insert st (snd ` set trace)"
  by (induction st trace rule: survivors.induct) auto

lemma survivors_ack: "survivors st0 (before @ (True, st) # after) = survivors st after"
  by (induction st0 before rule: survivors.induct) auto

locale hard_state_store =
  fixes put :: "'f \<Rightarrow> RaftHardState \<Rightarrow> 'd \<times> 's \<Rightarrow> ('d \<times> 's) \<times> (RaftHardStateStoreWriteError + unit)"
    and reopen :: "'d \<Rightarrow> 'd \<times> ('e + 's)"
    and current :: "'s \<Rightarrow> RaftHardState"
    and ready :: "'d \<times> 's \<Rightarrow> bool"
  assumes ready_reopen: "ready (d, s) \<Longrightarrow> reopen d = (d, Inr s)"
    and write_done: "ready ds \<Longrightarrow> hard_state_ok st \<Longrightarrow> put fault st ds = (ds', Inr u) \<Longrightarrow> ready ds' \<and> current (snd ds') = st"
    and write_failed: "ready ds \<Longrightarrow> hard_state_ok st \<Longrightarrow> put fault st ds = (ds', Inl e) \<Longrightarrow>
      \<exists>d s. reopen (fst ds') = (d, Inr s) \<and> ready (d, s) \<and> current s \<in> {current (snd ds), st}"
    and failed_closed: "ready ds \<Longrightarrow> hard_state_ok st \<Longrightarrow> put fault st ds = (ds', Inl e) \<Longrightarrow>
      put fault' st' ds' = (ds', Inl HsStoreRequiresReopen)"
begin

lemma drive_survives:
  "ready ds \<Longrightarrow> list_all (\<lambda>w. hard_state_ok (snd w)) ws \<Longrightarrow>
   \<exists>trace d s. drive_store put reopen ws ds = Some (trace, d, s) \<and> map snd trace = map snd ws \<and> ready (d, s) \<and>
     current s \<in> survivors (current (snd ds)) trace"
proof (induction ws arbitrary: ds)
  case Nil
  then show ?case by (cases ds) simp
next
  case (Cons w ws)
  obtain fault st where w: "w = (fault, st)" by (cases w)
  obtain ds1 r where r: "put fault st ds = (ds1, r)" by fastforce
  have ok: "hard_state_ok st" "list_all (\<lambda>w. hard_state_ok (snd w)) ws" using Cons.prems(2) w by simp_all
  show ?case
  proof (cases r)
    case (Inr u)
    then have "ready ds1" "current (snd ds1) = st" using write_done [OF Cons.prems(1) ok(1)] r by auto
    with Cons.IH [OF _ ok(2), of ds1] show ?thesis using w r Inr by fastforce
  next
    case (Inl e)
    obtain d s where d: "reopen (fst ds1) = (d, Inr s)" "ready (d, s)" "current s \<in> {current (snd ds), st}"
      using write_failed [OF Cons.prems(1) ok(1)] r Inl by metis
    obtain trace d' s' where t: "drive_store put reopen ws (d, s) = Some (trace, d', s')" "map snd trace = map snd ws"
      "ready (d', s')" "current s' \<in> survivors (current s) trace" using Cons.IH [OF d(2) ok(2)] by auto
    have "drive_store put reopen (w # ws) ds = Some ((False, st) # trace, d', s')"
      using w r Inl d(1) t(1) by (cases ds1) simp
    moreover have "current s' \<in> survivors (current (snd ds)) ((False, st) # trace)" using t(4) d(3) by auto
    ultimately show ?thesis using t(2,3) w by auto
  qed
qed

lemma survives:
  assumes "ready ds" "list_all (\<lambda>w. hard_state_ok (snd w)) ws"
  obtains trace d s where "drive_store put reopen ws ds = Some (trace, d, s)" "map snd trace = map snd ws"
    "reopen d = (d, Inr s)" "current s \<in> survivors (current (snd ds)) trace"
  using drive_survives [OF assms] ready_reopen by blast

end

subsection \<open>The file store\<close>

definition file_hs_ready :: "byte list option \<times> FileRaftHardStateStore \<Rightarrow> bool" where
  "file_hs_ready ds \<longleftrightarrow> file_hs_open (fst ds) = (fst ds, Inr (snd ds))"

lemma file_hs_open_encoded:
  "hard_state_ok st \<Longrightarrow> file_hs_open (Some (encode_raft_hard_state st)) = (Some (encode_raft_hard_state st), Inr \<lparr>fh_current = st, fh_health = Healthy\<rparr>)"
  by (simp add: file_hs_open_def decode_raft_hard_state_iff [THEN iffD2])

lemma file_hs_ready_healthy:
  assumes "file_hs_ready ds"
  obtains d st where "ds = (d, \<lparr>fh_current = st, fh_health = Healthy\<rparr>)"
  using assms by (cases ds) (auto simp: file_hs_ready_def file_hs_open_def map_sum_eq_Inr split: option.splits)

interpretation file_hs: hard_state_store file_hs_write file_hs_open fh_current file_hs_ready
proof (unfold_locales, goal_cases)
  case (1 d s)
  then show ?case by (simp add: file_hs_ready_def)
next
  case (2 ds st fault ds' u)
  then show ?case by (elim file_hs_ready_healthy)
    (auto simp: file_hs_write_def Let_def file_hs_ready_def file_hs_open_encoded split: HardStateFault.splits PublishPoint.splits)
next
  case (3 ds st fault ds' e)
  have new: "file_hs_ready (Some (encode_raft_hard_state st), \<lparr>fh_current = st, fh_health = Healthy\<rparr>)"
    using 3(2) by (simp add: file_hs_ready_def file_hs_open_encoded)
  obtain d c where ds: "ds = (d, \<lparr>fh_current = c, fh_health = Healthy\<rparr>)" using 3(1) by (rule file_hs_ready_healthy)
  then have "fst ds' = d \<or> fst ds' = Some (encode_raft_hard_state st)" using 3(3)
    by (auto simp: file_hs_write_def Let_def split: HardStateFault.splits PublishPoint.splits)
  then show ?case using 3(1) new ds by (auto simp: file_hs_ready_def)
next
  case (4 ds st fault ds' e fault' st')
  then show ?case by (elim file_hs_ready_healthy)
    (auto simp: file_hs_write_def Let_def split: HardStateFault.splits PublishPoint.splits)
qed

subsection \<open>The journal\<close>

definition journal_ready :: "byte list option \<times> JournalRaftHardStateStore \<Rightarrow> bool" where
  "journal_ready ds \<longleftrightarrow> (\<exists>sts. (\<forall>st\<in>set sts. hard_state_ok st) \<and> ds = journal_of sts)"

lemma journal_readyI: "\<forall>st\<in>set sts. hard_state_ok st \<Longrightarrow> journal_ready (journal_of sts)"
  by (auto simp: journal_ready_def)

lemma journal_ready_open: "journal_ready (d, j) \<Longrightarrow> journal_open d = (d, Inr j)"
  using journal_open_torn [of _ "[]"] by (auto simp: journal_ready_def journal_of_def RECORD_LEN_def)

lemma journal_of_write:
  "journal_write fault st (journal_of sts) =
    (let failed = (snd (journal_of sts))\<lparr>jr_health := ReopenRequired\<rparr> in
     if RECORD_LIMIT \<le> length sts then
       (case publish_checkpoint fault (encode_raft_hard_state st) (fst (journal_of sts)) of
          (disk, True) \<Rightarrow> ((disk, snd (journal_of [st])), Inr ())
        | (disk, False) \<Rightarrow> ((disk, failed), Inl (HsWriteIo ''checkpoint hard-state journal'')))
     else
       (case fault of
          HsAppendFault k operation \<Rightarrow>
            ((Some (journal_header @ records_of sts @ take k (encode_raft_hard_state st)), failed), Inl (HsWriteIo operation))
        | _ \<Rightarrow> (journal_of (sts @ [st]), Inr ())))"
  by (cases fault) (simp_all add: journal_write_def journal_of_def Let_def cong: if_cong)

lemma publish_checkpoint_disk:
  "publish_checkpoint fault (encode_raft_hard_state st) disk = (disk', published) \<Longrightarrow>
   (published \<longrightarrow> disk' = fst (journal_of [st])) \<and> (disk' = disk \<or> disk' = fst (journal_of [st]))"
  by (auto simp: publish_checkpoint_def journal_of_def Let_def split: HardStateFault.splits PublishPoint.splits)

lemma journal_write_done:
  assumes "journal_write fault st (journal_of sts) = (ds', Inr u)"
  shows "ds' = journal_of (if RECORD_LIMIT \<le> length sts then [st] else sts @ [st])"
  using assms publish_checkpoint_disk [of fault st "fst (journal_of sts)"]
  by (auto simp: journal_of_write Let_def prod_eq_iff split: prod.splits bool.splits if_splits HardStateFault.splits)

lemma journal_write_failed:
  assumes "\<forall>x\<in>set sts. hard_state_ok x" "hard_state_ok st" "journal_write fault st (journal_of sts) = (ds', Inl e)"
  shows "\<exists>sts'. (\<forall>x\<in>set sts'. hard_state_ok x) \<and> journal_open (fst ds') = (fst (journal_of sts'), Inr (snd (journal_of sts'))) \<and>
    jr_current (snd (journal_of sts')) \<in> {jr_current (snd (journal_of sts)), st} \<and> snd ds' = (snd (journal_of sts))\<lparr>jr_health := ReopenRequired\<rparr>"
proof -
  have old: "journal_open (fst (journal_of sts)) = (fst (journal_of sts), Inr (snd (journal_of sts)))"
    and new: "journal_open (fst (journal_of [st])) = (fst (journal_of [st]), Inr (snd (journal_of [st])))"
    using assms(1,2) journal_readyI [of sts] journal_readyI [of "[st]"] by (simp_all add: journal_ready_open)
  have st: "jr_current (snd (journal_of [st])) = st" "jr_current (snd (journal_of (sts @ [st]))) = st" by (simp_all add: journal_of_def)
  show ?thesis
  proof (cases "RECORD_LIMIT \<le> length sts")
    case True
    then have "fst ds' = fst (journal_of sts) \<or> fst ds' = fst (journal_of [st])" "snd ds' = (snd (journal_of sts))\<lparr>jr_health := ReopenRequired\<rparr>"
      using assms(3) publish_checkpoint_disk [of fault st "fst (journal_of sts)"]
      by (auto simp: journal_of_write Let_def split: prod.splits bool.splits)
    then show ?thesis using old new st assms(1,2) by (metis empty_iff insert_iff list.set)
  next
    case False
    then obtain k where k: "fst ds' = Some (journal_header @ records_of sts @ take k (encode_raft_hard_state st))"
      "snd ds' = (snd (journal_of sts))\<lparr>jr_health := ReopenRequired\<rparr>"
      using assms(3) by (auto simp: journal_of_write Let_def split: HardStateFault.splits)
    show ?thesis
    proof (cases "k < RECORD_LEN")
      case True
      then show ?thesis using k journal_open_torn [OF assms(1), of "take k (encode_raft_hard_state st)"] assms(1)
        by (intro exI [of _ sts]) simp
    next
      case False
      then have "fst ds' = Some (journal_header @ records_of (sts @ [st]) @ [])"
        using k(1) by (simp add: length_encode_raft_hard_state RECORD_LEN_def)
      then show ?thesis using k(2) journal_open_torn [of "sts @ [st]" "[]"] assms(1,2) st
        by (intro exI [of _ "sts @ [st]"]) (auto simp: RECORD_LEN_def)
    qed
  qed
qed

interpretation journal: hard_state_store journal_write journal_open jr_current journal_ready
proof (unfold_locales, goal_cases)
  case (1 d s)
  then show ?case by (rule journal_ready_open)
next
  case (2 ds st fault ds' u)
  then obtain sts where sts: "\<forall>x\<in>set sts. hard_state_ok x" "ds = journal_of sts" by (auto simp: journal_ready_def)
  then have "ds' = journal_of (if RECORD_LIMIT \<le> length sts then [st] else sts @ [st])" using 2(3) journal_write_done by simp
  moreover have "journal_ready (journal_of (if RECORD_LIMIT \<le> length sts then [st] else sts @ [st]))"
    using sts(1) 2(2) by (intro journal_readyI) auto
  ultimately show ?case by (simp add: journal_of_def)
next
  case (3 ds st fault ds' e)
  then obtain sts where sts: "\<forall>x\<in>set sts. hard_state_ok x" "ds = journal_of sts" by (auto simp: journal_ready_def)
  from journal_write_failed [OF sts(1) 3(2) 3(3) [unfolded sts(2)]] show ?case
    unfolding sts(2) journal_ready_def by (metis prod.collapse)
next
  case (4 ds st fault ds' e fault' st')
  then obtain sts where sts: "\<forall>x\<in>set sts. hard_state_ok x" "ds = journal_of sts" by (auto simp: journal_ready_def)
  from journal_write_failed [OF sts(1) 4(2) 4(3) [unfolded sts(2)]]
  have "jr_health (snd ds') = ReopenRequired" by auto
  then show ?case by (cases ds') (simp add: journal_write_def)
qed

section \<open>What survives\<close>

lemma journal_open_ready: "journal_open disk = (disk', Inr j) \<Longrightarrow> journal_ready (disk', j)"
  using journal_open_sound [of disk disk' j] by (auto simp: journal_ready_def)

text \<open>
  C17: the journal never loses an acknowledged hard state. Open a journal and write any states to it,
  where each write may stop after any number of bytes, fail to sync, or fail before or after the rename of
  a checkpoint, reopening after every failure: no reopening is refused, and the state the journal holds at
  the end is the last acknowledged one or one written after it.
\<close>

theorem journal_state_survives:
  assumes "journal_open disk = (disk', Inr j)" "list_all (\<lambda>w. hard_state_ok (snd w)) ws"
  shows "\<exists>trace d s. drive_store journal_write journal_open ws (disk', j) = Some (trace, d, s) \<and> map snd trace = map snd ws \<and>
    journal_open d = (d, Inr s) \<and> jr_current s \<in> survivors (jr_current j) trace \<and>
    (\<forall>before st after. trace = before @ (True, st) # after \<longrightarrow> jr_current s \<in> insert st (snd ` set after))"
proof -
  obtain trace d s where t: "drive_store journal_write journal_open ws (disk', j) = Some (trace, d, s)" "map snd trace = map snd ws"
    "journal_open d = (d, Inr s)" "jr_current s \<in> survivors (jr_current (snd (disk', j))) trace"
    using assms(2) by (rule journal.survives [OF journal_open_ready [OF assms(1)]])
  then have "\<forall>before st after. trace = before @ (True, st) # after \<longrightarrow> jr_current s \<in> insert st (snd ` set after)"
    using survivors_ack survivors_subset by (metis snd_conv subsetD)
  then show ?thesis using t by auto
qed

theorem journal_state_survives_witness:
  "\<exists>trace d s. drive_store journal_write journal_open
      [(HsNoFault, RaftHardState_default\<lparr>hs_current_term := 1\<rparr>), (HsAppendFault 7 ''append hard-state journal'', RaftHardState_default\<lparr>hs_current_term := 2\<rparr>)]
      (fst (journal_open None), projr (snd (journal_open None))) = Some (trace, d, s) \<and> journal_open d = (d, Inr s)"
proof -
  have opened: "journal_open None = (fst (journal_open None), Inr (projr (snd (journal_open None))))" by (simp add: journal_open_created)
  have ok: "list_all (\<lambda>w. hard_state_ok (snd w))
      [(HsNoFault, RaftHardState_default\<lparr>hs_current_term := 1\<rparr>), (HsAppendFault 7 ''append hard-state journal'', RaftHardState_default\<lparr>hs_current_term := 2\<rparr>)]"
    by (simp add: hard_state_ok_def RaftHardState_default_def u64_max_def)
  show ?thesis using journal_state_survives [OF opened ok] by blast
qed

text \<open>
  C27: opening a journal is exact. It succeeds on a file exactly when the file is the header, whole records
  that decode, and less than one record of leftover bytes; it returns the last record's state, removes the
  leftover and nothing else, and opening again changes nothing. In particular a damaged record is never
  skipped and a torn header is refused.
\<close>

theorem journal_open_exact:
  "journal_open (Some bytes) = (disk', Inr j) \<longleftrightarrow>
   (\<exists>sts tail. list_all hard_state_ok sts \<and> length tail < RECORD_LEN \<and> bytes = journal_header @ concat (map encode_raft_hard_state sts) @ tail \<and>
      disk' = Some (journal_header @ concat (map encode_raft_hard_state sts)) \<and>
      j = \<lparr>jr_current = last (RaftHardState_default # sts), jr_records = length sts, jr_health = Healthy\<rparr>)" (is "?l \<longleftrightarrow> ?r")
proof
  assume ?l
  then obtain sts tail where "\<forall>st\<in>set sts. hard_state_ok st" "(disk', j) = journal_of sts" "length tail < RECORD_LEN"
    "bytes = journal_header @ records_of sts @ tail" using journal_open_sound by blast
  then show ?r unfolding journal_of_def records_of_def list_all_iff by blast
next
  assume ?r
  then obtain sts tail where "\<forall>st\<in>set sts. hard_state_ok st" "length tail < RECORD_LEN" "bytes = journal_header @ records_of sts @ tail"
    "(disk', j) = journal_of sts" unfolding journal_of_def records_of_def list_all_iff by blast
  then show ?l using journal_open_torn [of sts tail] by (simp add: prod_eq_iff)
qed

text \<open>The file store, by the same contract.\<close>

lemma file_hs_open_idem: "file_hs_open disk = (disk', Inr s) \<Longrightarrow> file_hs_ready (disk', s)"
  by (auto simp: file_hs_ready_def file_hs_open_def)

lemma file_hs_survives:
  assumes "file_hs_open disk = (disk', Inr s0)" "list_all (\<lambda>w. hard_state_ok (snd w)) ws"
  shows "\<exists>trace d s. drive_store file_hs_write file_hs_open ws (disk', s0) = Some (trace, d, s) \<and> map snd trace = map snd ws \<and>
    file_hs_open d = (d, Inr s) \<and> fh_current s \<in> survivors (fh_current s0) trace"
  using file_hs.survives [OF file_hs_open_idem [OF assms(1)] assms(2)] by (metis snd_conv)

end
