(* ===== verification/Durable_Node.thy ===== *)
theory Durable_Node
  imports Snapshot_Frame Snapshot_Store Bootstrap Frame_Limits Hard_State_Store
begin

text \<open>
  The durable runtime: \<open>DurableRaftNode\<close> of \<open>crates/rafter-runtime\<close>, which steps the kernel,
  writes what changed to three stores, and only then releases the outputs; its construction from stores,
  and log compaction. The stores are the trait objects of the source, given as records of their methods, for
  stores without a shared persistence domain. A batch that succeeds leaves the stores holding exactly the
  durable state of the node; one that fails releases nothing and stops the node for good.
\<close>

section \<open>The store traits\<close>

record 'h RaftHardStateStore =
  hs_write :: "RaftHardState \<Rightarrow> 'h \<Rightarrow> 'h \<times> (RaftHardStateStoreWriteError + unit)"
  hs_current :: "'h \<Rightarrow> RaftHardState"

record 'l RaftLogSegment =
  ls_append :: "PersistedRaftLogEntry list \<Rightarrow> 'l \<Rightarrow> 'l \<times> (RaftLogSegmentAppendError + unit)"
  ls_truncate :: "LogIndex \<Rightarrow> 'l \<Rightarrow> 'l \<times> (RaftLogSegmentTruncateError + unit)"
  ls_compact :: "LogIndex \<Rightarrow> 'l \<Rightarrow> 'l \<times> (RaftLogSegmentCompactError + unit)"
  ls_replay :: "'l \<Rightarrow> PersistedRaftLogEntry list"
  ls_next_index :: "'l \<Rightarrow> LogIndex"
  ls_compacted :: "'l \<Rightarrow> LogIndex"

record 's RaftSnapshotStore =
  rs_write :: "PersistedRaftSnapshot \<Rightarrow> 's \<Rightarrow> 's \<times> (RaftSnapshotStoreWriteError + unit)"
  rs_write_from_source :: "RaftSnapshot \<Rightarrow> (SnapshotChunkRequest \<Rightarrow> byte list option) \<Rightarrow> 's \<Rightarrow> 's \<times> (RaftSnapshotStoreWriteError + unit)"
  rs_current :: "'s \<Rightarrow> RaftSnapshot option"
  rs_stage :: "StagedSnapshotChunk \<Rightarrow> 's \<Rightarrow> 's \<times> (RaftSnapshotStoreWriteError + unit)"
  rs_promote :: "RaftSnapshot \<Rightarrow> 's \<Rightarrow> 's \<times> (RaftSnapshotStoreWriteError + unit)"
  rs_clear :: "'s \<Rightarrow> 's \<times> (RaftSnapshotStoreWriteError + unit)"
  rs_pending :: "'s \<Rightarrow> PendingSnapshotTransfer option"
  rs_chunk :: "'s \<Rightarrow> SnapshotChunkRequest \<Rightarrow> byte list option"

section \<open>State and errors\<close>

datatype RaftRuntimeFatalError =
    FatalHardStateWrite RaftHardStateStoreWriteError
  | FatalLogAppend RaftLogSegmentAppendError
  | FatalLogTruncate RaftLogSegmentTruncateError
  | FatalLogCompact RaftLogSegmentCompactError
  | FatalSnapshotWrite RaftSnapshotStoreWriteError
  | FatalLogPrefixDiverged LogIndex
  | FatalUnsupportedConfigurationEntry LogIndex
  | FatalLogBehindSnapshotBoundary LogIndex LogIndex

datatype RaftRuntimeError =
    RuntimeBootstrap BootstrapValidationError
  | RuntimeHardStateWrite RaftHardStateStoreWriteError
  | RuntimeLogAppend RaftLogSegmentAppendError
  | RuntimeLogTruncate RaftLogSegmentTruncateError
  | RuntimeLogCompact RaftLogSegmentCompactError
  | RuntimeSnapshotWrite RaftSnapshotStoreWriteError
  | RuntimePendingSnapshotTransferResume PendingSnapshotTransferResumeError
  | RuntimeSnapshotAheadOfCommit LogIndex LogIndex
  | RuntimeSnapshotAheadOfApplied LogIndex LogIndex
  | RuntimeSnapshotBelowInstalledBoundary LogIndex LogIndex
  | RuntimeSnapshotRefusedByKernel LocalSnapshotInstallError
  | RuntimeSnapshotBoundaryTermMismatch LogIndex Term "Term option"
  | RuntimeSnapshotMembershipMismatch LogIndex MembershipConfig MembershipConfig
  | RuntimeSnapshotCommittedConfigurationMismatch LogIndex "CommittedConfiguration option" "CommittedConfiguration option"
  | RuntimeLogPrefixDiverged LogIndex
  | RuntimeUnsupportedConfigurationEntry LogIndex
  | RuntimeCompactionAheadOfSnapshot LogIndex LogIndex
  | RuntimeLogBehindSnapshotBoundary LogIndex LogIndex
  | RuntimePoisoned RaftRuntimeFatalError

fun from_runtime_error :: "RaftRuntimeError \<Rightarrow> RaftRuntimeFatalError option" where
  "from_runtime_error (RuntimeHardStateWrite e) = Some (FatalHardStateWrite e)"
| "from_runtime_error (RuntimeLogAppend e) = Some (FatalLogAppend e)"
| "from_runtime_error (RuntimeLogTruncate e) = Some (FatalLogTruncate e)"
| "from_runtime_error (RuntimeLogCompact e) = Some (FatalLogCompact e)"
| "from_runtime_error (RuntimeSnapshotWrite e) = Some (FatalSnapshotWrite e)"
| "from_runtime_error (RuntimeLogPrefixDiverged i) = Some (FatalLogPrefixDiverged i)"
| "from_runtime_error (RuntimeUnsupportedConfigurationEntry i) = Some (FatalUnsupportedConfigurationEntry i)"
| "from_runtime_error (RuntimeLogBehindSnapshotBoundary a b) = Some (FatalLogBehindSnapshotBoundary a b)"
| "from_runtime_error _ = None"

record PersistedTail =
  tail_index :: LogIndex
  tail_term :: Term

record ('h, 'l, 's) DurableRaftNode =
  dn_node :: Node
  dn_hard_state :: 'h
  dn_segment :: 'l
  dn_snapshots :: 's
  dn_tail :: "PersistedTail option"
  dn_fatal :: "RaftRuntimeFatalError option"

text \<open>Fallible steps in sequence: the state is kept where a step stops.\<close>

definition then_do :: "'d \<times> ('e + 'a) \<Rightarrow> ('a \<Rightarrow> 'd \<Rightarrow> 'd \<times> ('e + 'b)) \<Rightarrow> 'd \<times> ('e + 'b)" where
  "then_do r k = (case r of (d, Inl e) \<Rightarrow> (d, Inl e) | (d, Inr x) \<Rightarrow> k x d)"

definition map_err :: "('e \<Rightarrow> 'f) \<Rightarrow> 'd \<times> ('e + 'a) \<Rightarrow> 'd \<times> ('f + 'a)" where
  "map_err f r = map_prod id (map_sum f id) r"

section \<open>The hard state and the persisted tail of a node\<close>

definition hard_state_for_node :: "Node \<Rightarrow> RaftHardState" where
  "hard_state_for_node n = \<lparr>hs_current_term = Node_current_term n, hs_voted_for = Node_voted_for n,
     hs_commit_index = Node_commit_index n,
     hs_committed_configuration = committed_configuration_state_at n (Node_commit_index n)\<rparr>"

definition PersistedTail_of_node :: "Node \<Rightarrow> PersistedTail" where
  "PersistedTail_of_node n =
     (let index = last_log_index n in
      \<lparr>tail_index = index, tail_term = (case term_at n index of None \<Rightarrow> 0 | Some t \<Rightarrow> t)\<rparr>)"

definition still_matches :: "PersistedTail \<Rightarrow> Node \<Rightarrow> bool" where
  "still_matches t n \<longleftrightarrow> term_at n (tail_index t) = Some (tail_term t)"

section \<open>Repairing the persisted log\<close>

fun find_divergence :: "Node \<Rightarrow> PersistedRaftLogEntry list \<Rightarrow> LogIndex option" where
  "find_divergence n [] = None"
| "find_divergence n (p # ps) =
     (case log_entries_from n (pe_index p) of
        e # _ \<Rightarrow> if entry_term e = pe_term p \<and> entry_kind e = pe_kind p then find_divergence n ps else Some (pe_index p)
      | [] \<Rightarrow> Some (pe_index p))"

definition first_persisted_divergence :: "'l RaftLogSegment \<Rightarrow> 'l \<Rightarrow> Node \<Rightarrow> LogIndex option" where
  "first_persisted_divergence L l n = find_divergence n (filter (\<lambda>p. pe_index p > snapshot_index n) (ls_replay L l))"

definition repair_persisted_log_suffix ::
    "'l RaftLogSegment \<Rightarrow> Node \<Rightarrow> PersistedTail option \<Rightarrow> LogIndex \<Rightarrow> 'l \<Rightarrow> 'l \<times> (RaftRuntimeError + unit)" where
  "repair_persisted_log_suffix L n tail commit_floor l =
     (if (case tail of None \<Rightarrow> False | Some t \<Rightarrow> still_matches t n) then (l, Inr ())
      else case first_persisted_divergence L l n of
             None \<Rightarrow> (l, Inr ())
           | Some index \<Rightarrow>
               if index \<le> commit_floor then (l, Inl (RuntimeLogPrefixDiverged index))
               else map_err RuntimeLogTruncate (ls_truncate L index l))"

text \<open>An installation first removes a boundary entry of another term, with everything after it.\<close>

definition remove_conflicting_boundary ::
    "'l RaftLogSegment \<Rightarrow> RaftSnapshot \<Rightarrow> LogIndex \<Rightarrow> 'l \<Rightarrow> 'l \<times> (RaftRuntimeError + unit)" where
  "remove_conflicting_boundary L snap commit_floor l =
     (let boundary = last_included_index (metadata snap);
          boundary_entry = find (\<lambda>e. pe_index e = boundary) (ls_replay L l)
      in if (case boundary_entry of None \<Rightarrow> False | Some e \<Rightarrow> pe_term e \<noteq> last_included_term (metadata snap)) then
           if boundary \<le> commit_floor then (l, Inl (RuntimeLogPrefixDiverged boundary))
           else map_err RuntimeLogTruncate (ls_truncate L boundary l)
         else (l, Inr ()))"

definition install_staged_snapshot ::
    "'l RaftLogSegment \<Rightarrow> 's RaftSnapshotStore \<Rightarrow> RaftSnapshot \<Rightarrow> LogIndex \<Rightarrow> 'l \<times> 's \<Rightarrow> ('l \<times> 's) \<times> (RaftRuntimeError + unit)" where
  "install_staged_snapshot L S snap commit_floor ls =
     (let (l, s) = ls in
      case remove_conflicting_boundary L snap commit_floor l of
        (l, Inl e) \<Rightarrow> ((l, s), Inl e)
      | (l, Inr _) \<Rightarrow>
          (case rs_promote S snap s of
             (s, Inl e) \<Rightarrow> ((l, s), Inl (RuntimeSnapshotWrite e))
           | (s, Inr _) \<Rightarrow>
               (case ls_compact L (last_included_index (metadata snap)) l of
                  (l, Inl e) \<Rightarrow> ((l, s), Inl (RuntimeLogCompact e))
                | (l, Inr _) \<Rightarrow> ((l, s), Inr ()))))"

section \<open>Persisting a step\<close>

definition persist_snapshot_output ::
    "'h RaftHardStateStore \<Rightarrow> 'l RaftLogSegment \<Rightarrow> 's RaftSnapshotStore \<Rightarrow> Output \<Rightarrow> ('h, 'l, 's) DurableRaftNode \<Rightarrow>
     ('h, 'l, 's) DurableRaftNode \<times> (RaftRuntimeError + unit)" where
  "persist_snapshot_output H L S output d =
     (case output of
        StageSnapshotChunk chunk \<Rightarrow>
          (case rs_stage S chunk (dn_snapshots d) of
             (s, r) \<Rightarrow> (d\<lparr>dn_snapshots := s\<rparr>, map_sum RuntimeSnapshotWrite id r))
      | ApplySnapshot snap \<Rightarrow>
          (case install_staged_snapshot L S snap (hs_commit_index (hs_current H (dn_hard_state d))) (dn_segment d, dn_snapshots d) of
             ((l, s), r) \<Rightarrow> (d\<lparr>dn_segment := l, dn_snapshots := s\<rparr>, r))
      | _ \<Rightarrow> (d, Inr ()))"

fun persist_snapshot_outputs_for_step ::
    "'h RaftHardStateStore \<Rightarrow> 'l RaftLogSegment \<Rightarrow> 's RaftSnapshotStore \<Rightarrow> Output list \<Rightarrow> ('h, 'l, 's) DurableRaftNode \<Rightarrow>
     ('h, 'l, 's) DurableRaftNode \<times> (RaftRuntimeError + unit)" where
  "persist_snapshot_outputs_for_step H L S [] d = (d, Inr ())"
| "persist_snapshot_outputs_for_step H L S (output # outputs) d =
     then_do (persist_snapshot_output H L S output d) (\<lambda>_. persist_snapshot_outputs_for_step H L S outputs)"

definition clear_abandoned_snapshot_staging_for_step ::
    "'s RaftSnapshotStore \<Rightarrow> ('h, 'l, 's) DurableRaftNode \<Rightarrow> ('h, 'l, 's) DurableRaftNode \<times> (RaftRuntimeError + unit)" where
  "clear_abandoned_snapshot_staging_for_step S d =
     (if pending_snapshot_transfer (dn_node d) = None \<and> rs_pending S (dn_snapshots d) \<noteq> None
      then case rs_clear S (dn_snapshots d) of (s, r) \<Rightarrow> (d\<lparr>dn_snapshots := s\<rparr>, map_sum RuntimeSnapshotWrite id r)
      else (d, Inr ()))"

text \<open>The kernel's entries from an index on, labelled with the indexes of the segment.\<close>

definition labelled_from :: "LogIndex \<Rightarrow> LogEntry list \<Rightarrow> PersistedRaftLogEntry list" where
  "labelled_from first_index entries =
     map (\<lambda>(offset, e). \<lparr>pe_index = first_index + offset, pe_term = entry_term e, pe_kind = entry_kind e\<rparr>) (enumerate 0 entries)"

definition persist_log_suffix_for_step ::
    "'l RaftLogSegment \<Rightarrow> LogIndex \<Rightarrow> ('h, 'l, 's) DurableRaftNode \<Rightarrow> ('h, 'l, 's) DurableRaftNode \<times> (RaftRuntimeError + unit)" where
  "persist_log_suffix_for_step L commit_floor d =
     (let n = dn_node d in
      case repair_persisted_log_suffix L n (dn_tail d) commit_floor (dn_segment d) of
        (l, Inl e) \<Rightarrow> (d\<lparr>dn_segment := l\<rparr>, Inl e)
      | (l, Inr _) \<Rightarrow>
          let first_new = ls_next_index L l; entries = log_entries_from n first_new in
          if first_new \<le> snapshot_index n
          then (d\<lparr>dn_segment := l\<rparr>, Inl (RuntimeLogBehindSnapshotBoundary first_new (snapshot_index n)))
          else case (if entries = [] then (l, Inr ()) else ls_append L (labelled_from first_new entries) l) of
                 (l, Inl e) \<Rightarrow> (d\<lparr>dn_segment := l\<rparr>, Inl (RuntimeLogAppend e))
               | (l, Inr _) \<Rightarrow> (d\<lparr>dn_segment := l, dn_tail := Some (PersistedTail_of_node n)\<rparr>, Inr ()))"

definition write_hard_state_for_step ::
    "'h RaftHardStateStore \<Rightarrow> RaftHardState \<Rightarrow> RaftHardState \<Rightarrow> ('h, 'l, 's) DurableRaftNode \<Rightarrow>
     ('h, 'l, 's) DurableRaftNode \<times> (RaftRuntimeError + unit)" where
  "write_hard_state_for_step H wanted known d =
     (if wanted \<noteq> known
      then case hs_write H wanted (dn_hard_state d) of
             (h, r) \<Rightarrow> (d\<lparr>dn_hard_state := h\<rparr>, map_sum RuntimeHardStateWrite id r)
      else (d, Inr ()))"

definition resolve_snapshot_chunk_sends :: "'s RaftSnapshotStore \<Rightarrow> 's \<Rightarrow> Output list \<Rightarrow> Output list" where
  "resolve_snapshot_chunk_sends S s outputs =
     (if \<not> list_ex (\<lambda>output. case output of SendSnapshotChunk _ _ \<Rightarrow> True | _ \<Rightarrow> False) outputs then outputs
      else List.map_filter (\<lambda>output. case output of
             SendSnapshotChunk k c \<Rightarrow> map_option (\<lambda>m. Send k (InstallSnapshotChunkMsg m)) (resolve_chunk (rs_chunk S s) c)
           | other \<Rightarrow> Some other) outputs)"

definition poison ::
    "('h, 'l, 's) DurableRaftNode \<times> (RaftRuntimeError + 'a) \<Rightarrow> ('h, 'l, 's) DurableRaftNode \<times> (RaftRuntimeError + 'a)" where
  "poison r =
     (case r of
        (d, Inl e) \<Rightarrow> (case from_runtime_error e of None \<Rightarrow> d | Some fatal \<Rightarrow> d\<lparr>dn_fatal := Some fatal\<rparr>, Inl e)
      | (d, Inr x) \<Rightarrow> (d, Inr x))"

text \<open>
  The order of the writes: term and vote with the old commit index, snapshots, the log, and last the whole
  hard state. Every error poisons the node.
\<close>

definition persist_after_fence ::
    "'h RaftHardStateStore \<Rightarrow> 'l RaftLogSegment \<Rightarrow> 's RaftSnapshotStore \<Rightarrow> RaftHardState \<Rightarrow> LogIndex \<Rightarrow> Output list \<Rightarrow>
     ('h, 'l, 's) DurableRaftNode \<Rightarrow> ('h, 'l, 's) DurableRaftNode \<times> (RaftRuntimeError + Output list)" where
  "persist_after_fence H L S current commit_floor outputs d =
     then_do (persist_snapshot_outputs_for_step H L S outputs d) (\<lambda>_ d.
     then_do (clear_abandoned_snapshot_staging_for_step S d) (\<lambda>_ d.
     then_do (persist_log_suffix_for_step L commit_floor d) (\<lambda>_ d.
     then_do (write_hard_state_for_step H current (hs_current H (dn_hard_state d)) d) (\<lambda>_ d.
     (d, Inr (resolve_snapshot_chunk_sends S (dn_snapshots d) outputs))))))"

definition persist_stepped ::
    "'h RaftHardStateStore \<Rightarrow> 'l RaftLogSegment \<Rightarrow> 's RaftSnapshotStore \<Rightarrow> RaftHardState \<Rightarrow> LogIndex \<Rightarrow> Output list \<Rightarrow>
     ('h, 'l, 's) DurableRaftNode \<Rightarrow> ('h, 'l, 's) DurableRaftNode \<times> (RaftRuntimeError + Output list)" where
  "persist_stepped H L S before commit_floor outputs d =
     (let current = hard_state_for_node (dn_node d);
          pre_log = before\<lparr>hs_current_term := hs_current_term current, hs_voted_for := hs_voted_for current\<rparr>
      in poison (then_do (write_hard_state_for_step H pre_log before d)
           (\<lambda>_. persist_after_fence H L S current commit_floor outputs)))"

definition step_and_persist ::
    "'h RaftHardStateStore \<Rightarrow> 'l RaftLogSegment \<Rightarrow> 's RaftSnapshotStore \<Rightarrow> (Node \<Rightarrow> Node \<times> Output list) \<Rightarrow>
     ('h, 'l, 's) DurableRaftNode \<Rightarrow> ('h, 'l, 's) DurableRaftNode \<times> (RaftRuntimeError + Output list)" where
  "step_and_persist H L S f d =
     (case dn_fatal d of
        Some cause \<Rightarrow> (d, Inl (RuntimePoisoned cause))
      | None \<Rightarrow>
          let before = hs_current H (dn_hard_state d);
              commit_floor = Node_commit_index (dn_node d);
              (n, outputs) = f (dn_node d)
          in persist_stepped H L S before commit_floor outputs (d\<lparr>dn_node := n\<rparr>))"

definition durable_step ::
    "'h RaftHardStateStore \<Rightarrow> 'l RaftLogSegment \<Rightarrow> 's RaftSnapshotStore \<Rightarrow> Input \<Rightarrow>
     ('h, 'l, 's) DurableRaftNode \<Rightarrow> ('h, 'l, 's) DurableRaftNode \<times> (RaftRuntimeError + Output list)" where
  "durable_step H L S inp = step_and_persist H L S (step inp)"

definition durable_step_proposal_batch ::
    "'h RaftHardStateStore \<Rightarrow> 'l RaftLogSegment \<Rightarrow> 's RaftSnapshotStore \<Rightarrow> ClientProposalInput list \<Rightarrow>
     ('h, 'l, 's) DurableRaftNode \<Rightarrow> ('h, 'l, 's) DurableRaftNode \<times> (RaftRuntimeError + Output list)" where
  "durable_step_proposal_batch H L S ps d =
     (if ps = [] then (d, Inr []) else step_and_persist H L S (step_proposal_batch ps) d)"

definition durable_step_batch ::
    "'h RaftHardStateStore \<Rightarrow> 'l RaftLogSegment \<Rightarrow> 's RaftSnapshotStore \<Rightarrow> Input list \<Rightarrow>
     ('h, 'l, 's) DurableRaftNode \<Rightarrow> ('h, 'l, 's) DurableRaftNode \<times> (RaftRuntimeError + Output list)" where
  "durable_step_batch H L S inputs =
     (case inputs of [inp] \<Rightarrow> durable_step H L S inp | _ \<Rightarrow> step_and_persist H L S (step_batch inputs))"

definition step_tracked_proposal ::
    "'h RaftHardStateStore \<Rightarrow> 'l RaftLogSegment \<Rightarrow> 's RaftSnapshotStore \<Rightarrow> LocalProposalId \<Rightarrow> byte list \<Rightarrow>
     ('h, 'l, 's) DurableRaftNode \<Rightarrow> ('h, 'l, 's) DurableRaftNode \<times> (RaftRuntimeError + Output list)" where
  "step_tracked_proposal H L S proposal_id payload = durable_step H L S (TrackedClientProposal proposal_id payload)"

definition step_read_index ::
    "'h RaftHardStateStore \<Rightarrow> 'l RaftLogSegment \<Rightarrow> 's RaftSnapshotStore \<Rightarrow> ReadId \<Rightarrow>
     ('h, 'l, 's) DurableRaftNode \<Rightarrow> ('h, 'l, 's) DurableRaftNode \<times> (RaftRuntimeError + Output list)" where
  "step_read_index H L S read_id = durable_step H L S (ReadIndex read_id)"

section \<open>Construction from stores\<close>

text \<open>What a runtime hands to the one that replaces it.\<close>

record ('h, 'l, 's) DurableRaftNodeStorage =
  hard_state_store :: 'h
  log_segment :: 'l
  snapshot_store :: 's

definition into_storage :: "('h, 'l, 's) DurableRaftNode \<Rightarrow> ('h, 'l, 's) DurableRaftNodeStorage" where
  "into_storage d = \<lparr>hard_state_store = dn_hard_state d, log_segment = dn_segment d, snapshot_store = dn_snapshots d\<rparr>"

definition persisted_entry_to_bootstrap :: "PersistedRaftLogEntry \<Rightarrow> BootstrapLogEntry" where
  "persisted_entry_to_bootstrap e = \<lparr>ble_index = pe_index e, ble_term = pe_term e, ble_kind = pe_kind e\<rparr>"

text \<open>An installation that stopped between its last staged chunk and its promotion is finished first.\<close>

definition finish_interrupted_install ::
    "'l RaftLogSegment \<Rightarrow> 's RaftSnapshotStore \<Rightarrow> LogIndex \<Rightarrow> 'l \<times> 's \<Rightarrow> ('l \<times> 's) \<times> (RaftRuntimeError + unit)" where
  "finish_interrupted_install L S commit_floor ls =
     (case rs_pending S (snd ls) of
        None \<Rightarrow> (ls, Inr ())
      | Some t \<Rightarrow>
          let current_boundary = (case rs_current S (snd ls) of None \<Rightarrow> 0 | Some s \<Rightarrow> last_included_index (metadata s)) in
          if pst_is_complete t \<and> last_included_index (pst_metadata t) > current_boundary
          then install_staged_snapshot L S (pending_descriptor t) commit_floor ls
          else (ls, Inr ()))"

definition resume_staged_transfer ::
    "'s RaftSnapshotStore \<Rightarrow> 's \<Rightarrow> Node \<Rightarrow> RaftRuntimeError + 's \<times> Node" where
  "resume_staged_transfer S s n =
     (case rs_pending S s of
        None \<Rightarrow> Inr (s, n)
      | Some t \<Rightarrow>
          (case resume_pending_snapshot_transfer t n of
             (n, Inr _) \<Rightarrow> Inr (s, n)
           | (n, Inl (StaleSnapshot _ _)) \<Rightarrow>
               (case rs_clear S s of (s, Inl e) \<Rightarrow> Inl (RuntimeSnapshotWrite e) | (s, Inr _) \<Rightarrow> Inr (s, n))
           | (n, Inl e) \<Rightarrow> Inl (RuntimePendingSnapshotTransferResume e)))"

definition with_storage_and_snapshot_store_applied_through ::
    "'h RaftHardStateStore \<Rightarrow> 'l RaftLogSegment \<Rightarrow> 's RaftSnapshotStore \<Rightarrow> NodeConfig \<Rightarrow> 'h \<Rightarrow> 'l \<Rightarrow> 's \<Rightarrow> LogIndex \<Rightarrow>
     RaftRuntimeError + ('h, 'l, 's) DurableRaftNode" where
  "with_storage_and_snapshot_store_applied_through H L S c h l s applied =
     (let hard = hs_current H h in
      case finish_interrupted_install L S (hs_commit_index hard) (l, s) of
        (_, Inl e) \<Rightarrow> Inl e
      | ((l, s), Inr _) \<Rightarrow>
          let snap = rs_current S s;
              snap_index = (case snap of None \<Rightarrow> 0 | Some s \<Rightarrow> last_included_index (metadata s));
              compacted = ls_compacted L l
          in if compacted > snap_index then Inl (RuntimeCompactionAheadOfSnapshot compacted snap_index)
             else case (if compacted < snap_index \<and> ls_next_index L l \<le> snap_index then ls_compact L snap_index l else (l, Inr ())) of
                    (_, Inl e) \<Rightarrow> Inl (RuntimeLogCompact e)
                  | (l, Inr _) \<Rightarrow>
                      (case from_bootstrap_applied_through c
                              \<lparr>bs_current_term = hs_current_term hard, bs_voted_for = hs_voted_for hard,
                               bs_commit_index = hs_commit_index hard,
                               bs_committed_configuration = hs_committed_configuration hard, bs_snapshot = snap,
                               bs_log = map persisted_entry_to_bootstrap (filter (\<lambda>e. pe_index e \<ge> snap_index) (ls_replay L l))\<rparr>
                              applied of
                         Inl e \<Rightarrow> Inl (RuntimeBootstrap e)
                       | Inr n \<Rightarrow>
                           (case resume_staged_transfer S s n of
                              Inl e \<Rightarrow> Inl e
                            | Inr (s, n) \<Rightarrow>
                                Inr \<lparr>dn_node = n, dn_hard_state = h, dn_segment = l, dn_snapshots = s,
                                     dn_tail = Some (PersistedTail_of_node n), dn_fatal = None\<rparr>)))"

definition recover_with_storage_applied_through ::
    "'h RaftHardStateStore \<Rightarrow> 'l RaftLogSegment \<Rightarrow> 's RaftSnapshotStore \<Rightarrow> NodeConfig \<Rightarrow> 'h \<Rightarrow> 'l \<Rightarrow> 's \<Rightarrow> LogIndex \<Rightarrow>
     RaftRuntimeError + ('h, 'l, 's) DurableRaftNode \<times> Output list" where
  "recover_with_storage_applied_through H L S c h l s applied =
     map_sum id (\<lambda>d. let (n, outputs) = drain_committed_outputs (dn_node d) in (d\<lparr>dn_node := n\<rparr>, outputs))
       (with_storage_and_snapshot_store_applied_through H L S c h l s applied)"

section \<open>Compaction\<close>

definition fill_local_snapshot_membership :: "Node \<Rightarrow> RaftSnapshotMetadata \<Rightarrow> RaftSnapshotMetadata" where
  "fill_local_snapshot_membership n m =
     (case meta_committed_configuration m of
        Some _ \<Rightarrow> m
      | None \<Rightarrow> m\<lparr>meta_committed_configuration := Some
            \<lparr>scc_configuration = committed_configuration_state_at n (last_included_index m),
             scc_membership = membership_at_index n (last_included_index m)\<rparr>\<rparr>)"

fun local_snapshot_install_error :: "LocalSnapshotInstallError \<Rightarrow> RaftRuntimeError" where
  "local_snapshot_install_error (BoundaryBelowInstalledSnapshot a b) = RuntimeSnapshotBelowInstalledBoundary a b"
| "local_snapshot_install_error (BoundaryAheadOfCommit a b) = RuntimeSnapshotAheadOfCommit a b"
| "local_snapshot_install_error (BoundaryAheadOfApplied a b) = RuntimeSnapshotAheadOfApplied a b"
| "local_snapshot_install_error (BoundaryTermMismatch a b c) = RuntimeSnapshotBoundaryTermMismatch a b c"
| "local_snapshot_install_error (CommittedMembershipMismatch a b c) = RuntimeSnapshotMembershipMismatch a b c"
| "local_snapshot_install_error (CommittedConfigurationMismatch a b c) = RuntimeSnapshotCommittedConfigurationMismatch a b c"
| "local_snapshot_install_error (WriterNotBoundaryReplica a b c) = RuntimeSnapshotRefusedByKernel (WriterNotBoundaryReplica a b c)"

definition write_snapshot_and_compact_log ::
    "'l RaftLogSegment \<Rightarrow> ('s \<Rightarrow> 's \<times> (RaftSnapshotStoreWriteError + unit)) \<Rightarrow> LogIndex \<Rightarrow> ('h, 'l, 's) DurableRaftNode \<Rightarrow>
     ('h, 'l, 's) DurableRaftNode \<times> (RaftRuntimeError + unit)" where
  "write_snapshot_and_compact_log L put boundary_index d =
     then_do (case put (dn_snapshots d) of (s, r) \<Rightarrow> (d\<lparr>dn_snapshots := s\<rparr>, map_sum RuntimeSnapshotWrite id r)) (\<lambda>_ d.
     case ls_compact L boundary_index (dn_segment d) of (l, r) \<Rightarrow> (d\<lparr>dn_segment := l\<rparr>, map_sum RuntimeLogCompact id r))"

text \<open>The snapshot is written, the log compacted, and only then does the kernel take the boundary.\<close>

definition compact_after_write ::
    "'l RaftLogSegment \<Rightarrow> ('s \<Rightarrow> 's \<times> (RaftSnapshotStoreWriteError + unit)) \<Rightarrow> RaftSnapshot \<Rightarrow> ('h, 'l, 's) DurableRaftNode \<Rightarrow>
     ('h, 'l, 's) DurableRaftNode \<times> (RaftRuntimeError + LogEntry list)" where
  "compact_after_write L put descriptor d =
     (case prepare_local_snapshot_install (dn_node d) descriptor of
        Inl e \<Rightarrow> (d, Inl (local_snapshot_install_error e))
      | Inr prepared \<Rightarrow>
          poison (
            then_do (write_snapshot_and_compact_log L put (last_included_index (metadata descriptor)) d) (\<lambda>_ d.
            let (n, _, retired) = commit_with_retired_entries prepared (dn_node d) in (d\<lparr>dn_node := n\<rparr>, Inr retired))))"

definition compact_log_with_snapshot ::
    "'l RaftLogSegment \<Rightarrow> 's RaftSnapshotStore \<Rightarrow> PersistedRaftSnapshot \<Rightarrow> ('h, 'l, 's) DurableRaftNode \<Rightarrow>
     ('h, 'l, 's) DurableRaftNode \<times> (RaftRuntimeError + LogEntry list)" where
  "compact_log_with_snapshot L S snap d =
     (case dn_fatal d of
        Some cause \<Rightarrow> (d, Inl (RuntimePoisoned cause))
      | None \<Rightarrow>
          let snap = snap\<lparr>prs_metadata := fill_local_snapshot_membership (dn_node d) (prs_metadata snap)\<rparr>
          in compact_after_write L (rs_write S snap) (RaftSnapshot_from_payload (prs_metadata snap) (prs_application_payload snap)) d)"

definition original_chunk_source ::
    "RaftSnapshot \<Rightarrow> (SnapshotChunkRequest \<Rightarrow> byte list option) \<Rightarrow> SnapshotChunkRequest \<Rightarrow> byte list option" where
  "original_chunk_source snap source req =
     (if scr_total_payload_len req \<noteq> application_payload_len snap \<or>
         scr_application_payload_crc32 req \<noteq> application_payload_crc32 snap then None
      else source \<lparr>scr_transfer_id = RaftSnapshot_transfer_id snap, scr_metadata = metadata snap,
             scr_total_payload_len = application_payload_len snap,
             scr_application_payload_crc32 = application_payload_crc32 snap,
             scr_offset = scr_offset req, scr_len = scr_len req\<rparr>)"

definition compact_log_with_streamed_snapshot ::
    "'l RaftLogSegment \<Rightarrow> 's RaftSnapshotStore \<Rightarrow> RaftSnapshot \<Rightarrow> (SnapshotChunkRequest \<Rightarrow> byte list option) \<Rightarrow>
     ('h, 'l, 's) DurableRaftNode \<Rightarrow> ('h, 'l, 's) DurableRaftNode \<times> (RaftRuntimeError + LogEntry list)" where
  "compact_log_with_streamed_snapshot L S snap source d =
     (case dn_fatal d of
        Some cause \<Rightarrow> (d, Inl (RuntimePoisoned cause))
      | None \<Rightarrow>
          let filled = snap\<lparr>metadata := fill_local_snapshot_membership (dn_node d) (metadata snap)\<rparr>
          in compact_after_write L (rs_write_from_source S filled (original_chunk_source snap source)) filled d)"

definition compact_log_through_snapshot ::
    "'l RaftLogSegment \<Rightarrow> 's RaftSnapshotStore \<Rightarrow> RaftSnapshotMetadata \<Rightarrow> ('h, 'l, 's) DurableRaftNode \<Rightarrow>
     ('h, 'l, 's) DurableRaftNode \<times> (RaftRuntimeError + LogEntry list)" where
  "compact_log_through_snapshot L S m = compact_log_with_snapshot L S \<lparr>prs_metadata = m, prs_application_payload = []\<rparr>"

end
