(* ===== verification/Steady.thy ===== *)
theory Steady
  imports Snapshot_Frame
begin

text \<open>
  What every handler but those for snapshots leaves alone, and how far it moves the rest: the snapshot and
  the recorded configuration stay, a transfer in progress stays or is dropped, no chunk is staged, terms of
  votes and entries stay sound, and log and term grow by what the message names or by one per local input.
\<close>

section \<open>Sound terms\<close>

text \<open>A vote and a campaign have a term, and an entry one that the node has reached.\<close>

definition sound_terms :: "Node \<Rightarrow> bool" where
  "sound_terms n \<longleftrightarrow>
     (Node_voted_for n \<noteq> None \<longrightarrow> 0 < Node_current_term n) \<and>
     (Node_role n \<in> {Candidate, Leader} \<longrightarrow> 0 < Node_current_term n) \<and>
     (\<forall>e\<in>set (Node_log n). 0 < entry_term e \<and> entry_term e \<le> Node_current_term n)"

text \<open>
  \<open>grown B T i t n n'\<close>: the log of \<open>n'\<close> ends at most \<open>i\<close> entries behind the end of the log of \<open>n\<close> or
  the position \<open>B\<close>, and its term is at most \<open>t\<close> above that of \<open>n\<close> or the term \<open>T\<close>.
\<close>

definition grown :: "LogIndex \<Rightarrow> Term \<Rightarrow> nat \<Rightarrow> nat \<Rightarrow> Node \<Rightarrow> Node \<Rightarrow> bool" where
  "grown B T i t n n' \<longleftrightarrow> last_log_index n' \<le> max (last_log_index n) B + i \<and>
     Node_current_term n \<le> Node_current_term n' \<and> Node_current_term n' \<le> max (Node_current_term n) T + t"

lemma grown_refl [simp]: "grown B T i t n n"
  by (auto simp: grown_def max_def)

lemma grown_trans: "grown B T i t a b \<Longrightarrow> grown B T i' t' b c \<Longrightarrow> grown B T (i + i') (t + t') a c"
  by (auto simp: grown_def max_def split: if_splits)

lemma grown_mono: "grown B T i t n n' \<Longrightarrow> i \<le> i' \<Longrightarrow> t \<le> t' \<Longrightarrow> grown B T i' t' n n'"
  by (auto simp: grown_def)

text \<open>
  The flag says whether soundness of terms is claimed, which takes messages that an honest node
  sends; everything else holds of any message.
\<close>

definition steady :: "bool \<Rightarrow> LogIndex \<Rightarrow> Term \<Rightarrow> nat \<Rightarrow> nat \<Rightarrow> Node \<Rightarrow> Node \<times> Output list \<Rightarrow> bool" where
  "steady H B T i t n r \<longleftrightarrow>
     (H \<longrightarrow> sound_terms n \<longrightarrow> sound_terms (fst r)) \<and> grown B T i t n (fst r) \<and>
     committed_configuration (persistent (fst r)) = committed_configuration (persistent n) \<and>
     Node_snapshot (fst r) = Node_snapshot n \<and>
     incoming_snapshot (volatile (fst r)) \<in> {incoming_snapshot (volatile n), None} \<and> no_snapshot (snd r)"

lemma steady_refl [simp]: "steady H B T i t n (n, outs) \<longleftrightarrow> no_snapshot outs"
  by (simp add: steady_def)

lemma steady_trans: "steady H B T i t a (b, xs) \<Longrightarrow> steady H B T i' t' b (c, ys) \<Longrightarrow> steady H B T (i + i') (t + t') a (c, xs @ ys)"
  using grown_trans by (auto simp: steady_def)

lemma steady_then: "steady H B T i t a (b, xs) \<Longrightarrow> steady H B T i' t' b r \<Longrightarrow> steady H B T (i + i') (t + t') a (fst r, xs @ snd r)"
  using steady_trans [of H B T i t a b xs i' t' "fst r" "snd r"] by simp

lemma steady_mono: "steady H B T i t n r \<Longrightarrow> i \<le> i' \<Longrightarrow> t \<le> t' \<Longrightarrow> steady H B T i' t' n r"
  using grown_mono by (auto simp: steady_def)

text \<open>Changes outside of what a steady step speaks of.\<close>

definition unmoved :: "Node \<Rightarrow> Node \<Rightarrow> bool" where
  "unmoved n n' \<longleftrightarrow> persistent n' = persistent n \<and> incoming_snapshot (volatile n') = incoming_snapshot (volatile n) \<and>
     (Node_role n' \<in> {Candidate, Leader} \<longrightarrow> Node_role n' = Node_role n)"

lemma unmoved_refl [simp]: "unmoved n n"
  by (simp add: unmoved_def)

lemma unmoved_last: "unmoved n n' \<Longrightarrow> last_log_index n' = last_log_index n"
  by (simp add: unmoved_def last_log_index_def snapshot_index_def)

lemma steady_unmoved: "unmoved n n' \<Longrightarrow> no_snapshot outs \<Longrightarrow> steady H B T i t n (n', outs)"
  using unmoved_last [of n n'] by (auto simp: steady_def unmoved_def grown_def sound_terms_def)

lemma steady_then0: "unmoved a b \<Longrightarrow> steady H B T i t b r \<Longrightarrow> steady H B T i t a r"
  using steady_trans [OF steady_unmoved [where i = 0 and t = 0], of a b "[]" H B T i t "fst r" "snd r"] by (simp add: no_snapshot_def)

lemma unmoved_leader_only: "leader_only n r \<Longrightarrow> unmoved n (fst r)"
  by (auto simp: unmoved_def leader_only_def)

lemma steady_leader_only: "leader_only n r \<Longrightarrow> no_snapshot (snd r) \<Longrightarrow> steady H B T i t n r"
  using steady_unmoved [OF unmoved_leader_only, of n r "snd r"] by simp

section \<open>Handlers\<close>

lemma no_snapshot_Nil [simp]: "no_snapshot []"
  by (simp add: no_snapshot_def)

lemma no_snapshot_Cons [simp]: "no_snapshot (x # xs) \<longleftrightarrow> \<not> snapshot_output x \<and> no_snapshot xs"
  by (auto simp: no_snapshot_def)

lemma no_snapshot_map: "(\<And>x. \<not> snapshot_output (f x)) \<Longrightarrow> no_snapshot (map f xs)"
  by (auto simp: no_snapshot_def)

lemma no_snapshot_dropped [simp]: "no_snapshot (dropped_outputs t r)"
  by (auto simp: no_snapshot_def dropped_outputs_def)

lemma no_snapshot_canceled [simp]: "no_snapshot (canceled_outputs rs r)"
  by (auto simp: no_snapshot_def canceled_outputs_def)

lemma no_snapshot_reads [simp]: "no_snapshot (grant_reads ids i)" "no_snapshot (reject_reads ids r)"
  by (auto simp: no_snapshot_def grant_reads_def reject_reads_def)

lemma no_snapshot_appends: "appends_from n outs \<Longrightarrow> no_snapshot outs"
proof -
  assume "appends_from n outs"
  moreover have "\<not> snapshot_output x" if "replication_output n x" for x using that by (cases x) auto
  ultimately show "no_snapshot outs" by (auto simp: no_snapshot_def appends_from_def)
qed

lemma no_snapshot_become_follower [simp]: "no_snapshot (snd (become_follower t n))"
  by (simp add: become_follower_outputs)

lemma steady_become_follower:
  assumes "trm \<le> max (Node_current_term n) T"
  shows "steady H B T i t n (become_follower trm n)"
proof -
  have "Node_voted_for (fst (become_follower trm n)) \<in> {None, Node_voted_for n}" by (simp add: become_follower_eq)
  moreover have "last_log_index (fst (become_follower trm n)) = last_log_index n"
    by (simp add: last_log_index_def snapshot_index_def frame_simps)
  ultimately show ?thesis using assms
    by (auto simp: steady_def sound_terms_def grown_def frame_simps max_def)
qed

lemma steady_emit_one:
  assumes "emit_one n = Some r"
  shows "steady H B T 0 0 n r"
proof -
  obtain entry where entry: "entry_at n (Suc (Node_dispatched_index n)) = Some entry" "Node_dispatched_index n < Node_commit_index n"
    using assms by (auto simp: emit_one_def Let_def split: if_splits option.splits)
  have down: "steady H B T 0 0 m (step_down_if_removed c m)" for c m
    by (simp add: step_down_if_removed_def steady_become_follower)
  have quiet: "no_snapshot (snd (step_down_if_removed c m))" for c m using down [of m c] by (simp add: steady_def)
  show ?thesis
  proof (cases "entry_kind entry")
    case (Configuration c)
    let ?m = "map_volatile (\<lambda>v. v\<lparr>local_proposals := fst (tracker_remove (local_proposals (volatile n)) (Suc (Node_dispatched_index n)))\<rparr>)
       (map_volatile (\<lambda>v. v\<lparr>dispatched_index := Suc (Node_dispatched_index n)\<rparr>) n)"
    have "steady H B T 0 0 n (step_down_if_removed (membership_config c) ?m)"
      by (rule steady_then0 [OF _ down]) (simp add: unmoved_def)
    then have "steady H B T 0 0 n (fst (step_down_if_removed (membership_config c) ?m), x # snd (step_down_if_removed (membership_config c) ?m))"
      if "\<not> snapshot_output x" for x using that by (simp add: steady_def)
    then show ?thesis using assms entry Configuration by (auto simp: emit_one_def Let_def case_prod_unfold)
  qed (use assms entry in \<open>auto simp: emit_one_def Let_def case_prod_unfold intro!: steady_unmoved simp: unmoved_def\<close>)
qed

lemma steady_emit_committed_outputs: "steady H B T 0 0 n (emit_committed_outputs n)"
proof (induction n rule: emit_committed_outputs.induct)
  case (1 n)
  show ?case
  proof (cases "emit_one n")
    case None
    then show ?thesis by (simp add: emit_committed_outputs.simps)
  next
    case (Some r)
    obtain m xs where r: "r = (m, xs)" by fastforce
    with Some have "steady H B T 0 0 n (m, xs)" by (simp add: steady_emit_one)
    from steady_then [OF this 1 [OF Some r [symmetric]]] Some r show ?thesis
      by (subst emit_committed_outputs.simps) (simp add: case_prod_unfold Let_def)
  qed
qed

lemma unmoved_reconcile: "unmoved n (reconcile_replication_progress n)"
  using unmoved_leader_only [OF leader_only_reconcile] by simp

lemma steady_advance_commit_index: "steady H B T 0 0 n (advance_commit_index n)"
proof -
  let ?m = "reconcile_replication_progress n"
  have "steady H B T 0 0 n (emit_committed_outputs (map_volatile (\<lambda>v. v\<lparr>commit_index := c\<rparr>) ?m))" for c
    by (rule steady_then0 [OF _ steady_emit_committed_outputs]) (simp add: unmoved_def frame_simps)
  moreover have "steady H B T 0 0 n (?m, [])" by (rule steady_unmoved [OF unmoved_reconcile]) simp
  ultimately show ?thesis by (auto simp: advance_commit_index_def Let_def split: option.split)
qed

lemma steady_replicate: "steady H B T i t n (replicate_to_follower f d n)"
  by (rule steady_leader_only [OF replicate_to_follower_leader_only no_snapshot_appends [OF replicate_to_follower_appends]])

lemma steady_broadcast_replication: "steady H B T i t n (broadcast_replication d n)"
  by (rule steady_leader_only [OF broadcast_replication_leader_only no_snapshot_appends [OF broadcast_replication_appends]])

lemma steady_broadcast: "steady H B T i t n (broadcast_append_entries n)"
  using steady_broadcast_replication by (simp add: broadcast_append_entries_def)

lemma steady_quiet: "steady H B T i t n r \<Longrightarrow> no_snapshot (snd r)"
  by (simp add: steady_def)

lemma steady_read_index_batch: "steady H B T i t n (read_index_batch ids n)"
proof (rule steady_leader_only [OF read_index_batch_leader_only])
  show "no_snapshot (snd (read_index_batch ids n))"
    by (auto simp: read_index_batch_def Let_def case_prod_unfold steady_quiet [OF steady_broadcast] split: option.split)
qed

lemma steady_acknowledge_read_barriers: "steady H B T i t n (acknowledge_read_barriers f s n)"
proof (rule steady_leader_only [OF acknowledge_read_barriers_leader_only])
  have "no_snapshot (concat (map (\<lambda>(p, confirmed). if confirmed then grant_reads (read_ids p) (read_index p) else []) xs))"
    for xs :: "(PendingReadRound \<times> bool) list" by (induction xs) auto
  then show "no_snapshot (snd (acknowledge_read_barriers f s n))"
    by (simp add: acknowledge_read_barriers_def Let_def del: map_map)
qed

lemma steady_transfer_leadership: "steady H B T i t n (transfer_leadership target n)"
  by (rule steady_leader_only [OF transfer_leadership_leader_only])
    (simp add: transfer_leadership_def Let_def case_prod_unfold drain_pending_reads_def send_timeout_now_def steady_quiet [OF steady_replicate])

lemma steady_complete_commit_replicate: "steady H B T 0 0 n (complete_commit_replicate f b n)"
proof -
  obtain m xs where m: "maybe_complete_leadership_transfer f n = (m, xs)" by fastforce
  have "no_snapshot xs"
    using m by (auto simp: maybe_complete_leadership_transfer_def send_timeout_now_def Let_def split: option.splits if_splits)
  then have q: "steady H B T 0 0 n (m, xs)" using steady_leader_only [OF maybe_complete_leader_only [of n f]] m by simp
  obtain m' ys where m': "(if b then advance_commit_index m else (m, [])) = (m', ys)" by fastforce
  have "steady H B T 0 0 m (m', ys)" using steady_advance_commit_index [of H B T m] m' by (auto split: if_splits)
  from steady_then [OF steady_trans [OF q this] steady_replicate, of 0 0 f ProgressOnly] show ?thesis
    unfolding complete_commit_replicate_def m Let_def prod.case m' by (simp add: case_prod_unfold)
qed

lemma unmoved_progress: "unmoved n (update_progress f h (reconcile_replication_progress n))"
  by (simp add: unmoved_def frame_simps)

lemma steady_with_progress:
  assumes "\<And>p m. steady H B T 0 0 m (g p m)"
  shows "steady H B T 0 0 n (case ps_get (progress (leader (reconcile_replication_progress n))) f of
      None \<Rightarrow> (reconcile_replication_progress n, [])
    | Some p \<Rightarrow> g p (update_progress f (h p) (reconcile_replication_progress n)))"
  using steady_then0 [OF unmoved_progress assms] steady_unmoved [OF unmoved_reconcile no_snapshot_Nil]
  by (simp split: option.split)

lemma steady_accept_append_response: "steady H B T 0 0 n (accept_append_response f k n)"
  using steady_with_progress [of H B T "\<lambda>p. complete_commit_replicate f (successful_ack_can_advance_commit (match_index p)
      (match_index (accepted_progress (min k (last_log_index n)) (snapshot_index n) p)) (Node_commit_index n))"
      n f "\<lambda>p _. accepted_progress (min k (last_log_index n)) (snapshot_index n) p"]
  unfolding accept_append_response_def Let_def by (simp add: steady_complete_commit_replicate)

lemma steady_reject_append_response: "steady H B T 0 0 n (reject_append_response f n)"
  using steady_with_progress [of H B T "\<lambda>_. replicate_to_follower f EnsureContact" n f
      "\<lambda>_ p. if \<not> is_snapshot_mode (mode p) then collapse_into_probe (snapshot_index n) p else p"]
  unfolding reject_append_response_def Let_def by (simp add: steady_replicate)

lemma steady_snapshot_restream: "steady H B T 0 0 n (snapshot_restream f snap r n)"
  unfolding snapshot_restream_def Let_def
  by (rule steady_with_progress [where g = "\<lambda>_. replicate_to_follower f EnsureContact", OF steady_replicate])

lemma steady_snapshot_installed: "steady H B T 0 0 n (snapshot_installed f r n)"
  unfolding snapshot_installed_def Let_def
  by (rule steady_with_progress [where g = "\<lambda>_. complete_commit_replicate f True", OF steady_complete_commit_replicate])

lemma steady_snapshot_rejected: "steady H B T 0 0 n (snapshot_rejected f r n)"
  unfolding snapshot_rejected_def Let_def
  by (rule steady_with_progress [where g = "\<lambda>_. replicate_to_follower f EnsureContact", OF steady_replicate])

lemma unmoved_records:
  "unmoved n (record_quorum_ack f n)" "unmoved n (acknowledge_read_lease f s n)"
  using unmoved_leader_only [OF record_quorum_ack_leader_only [of n f]]
    unmoved_leader_only [OF acknowledge_read_lease_leader_only [of n f s]] by simp_all

lemma unmoved_trans: "unmoved a b \<Longrightarrow> unmoved b c \<Longrightarrow> unmoved a c"
  by (auto simp: unmoved_def)

lemma steady_handle_append_entries_response:
  assumes "aer_term r \<le> T"
  shows "steady H B T 0 0 n (handle_append_entries_response f r n)"
proof -
  let ?m = "acknowledge_read_lease f (aer_sequence r) (record_quorum_ack f n)"
  obtain m xs where m: "acknowledge_read_barriers f (aer_sequence r) ?m = (m, xs)" by fastforce
  have q: "steady H B T 0 0 n (m, xs)"
    using steady_then0 [OF unmoved_trans [OF unmoved_records(1,2)] steady_acknowledge_read_barriers] m by metis
  show ?thesis
    using steady_then [OF q steady_accept_append_response] steady_then [OF q steady_reject_append_response] m
      steady_become_follower [of "aer_term r" n T] assms
    by (simp add: handle_append_entries_response_def Let_def case_prod_unfold)
qed

lemma steady_handle_install_snapshot_response:
  "isr_term r \<le> T \<Longrightarrow> steady H B T 0 0 n (handle_install_snapshot_response f r n)"
  using steady_then0 [OF unmoved_records(1) steady_snapshot_restream]
    steady_then0 [OF unmoved_records(1) steady_snapshot_installed]
    steady_then0 [OF unmoved_records(1) steady_snapshot_rejected] steady_unmoved [OF unmoved_records(1) no_snapshot_Nil]
    steady_become_follower [of "isr_term r" n T]
  by (simp add: handle_install_snapshot_response_def Let_def split: option.split)


lemma steady_follow_leader:
  assumes "trm \<le> T"
  shows "steady H B T 0 0 n (follow_leader l trm n)"
proof -
  obtain m xs where m: "(if trm > Node_current_term n \<or> Node_role n \<noteq> Follower then become_follower trm n else (n, [])) = (m, xs)"
    by fastforce
  have "steady H B T 0 0 n (m, xs)" using steady_become_follower [of trm n T H B 0 0] assms m by (metis max.coboundedI2 no_snapshot_Nil steady_refl)
  moreover have "steady H B T 0 0 m (map_volatile (\<lambda>v. v\<lparr>leader_hint := Some l\<rparr>) (map_election reset_timeout m), [])"
    by (rule steady_unmoved) (simp_all add: unmoved_def)
  ultimately show ?thesis using steady_trans m by (fastforce simp: follow_leader_def)
qed

lemma fold_append_persistent:
  "persistent (fold append_log_entry es n) = (persistent n)\<lparr>log := Node_log n @ es\<rparr> \<and> volatile (fold append_log_entry es n) = volatile n"
  by (induction es arbitrary: n) (simp_all add: append_log_entry_def)

lemma steady_splice:
  assumes "node_inv n" "term_at n prev = Some trm" "prev + length es \<le> B" "splice_entries_after prev es floor n = (n', Inr outs)"
    and "H \<longrightarrow> (\<forall>e\<in>set es. 0 < entry_term e \<and> entry_term e \<le> Node_current_term n)"
  shows "steady H B T 0 0 n (n', outs)"
  using assms(4)
proof (cases rule: splice_accepted)
  case (2 i index m)
  note s = scan_divergence_found [OF 2(1)] and d = divergence_above_commit [OF assms(1) 2(1) assms(2)]
  have m: "persistent m = (persistent n)\<lparr>log := log (persistent m)\<rparr>" "set (Node_log m) \<subseteq> set (Node_log n)"
    "incoming_snapshot (volatile m) = incoming_snapshot (volatile n)" "Node_role m = Node_role n"
    by (auto simp: 2(2) truncate_from_eq dest: in_set_takeD)
  have last: "last_log_index m = index - 1" using d by (auto simp: 2(2) truncate_from_last max_def)
  have n': "persistent n' = (persistent n)\<lparr>log := Node_log m @ drop i es\<rparr>" "volatile n' = volatile m"
    using fold_append_persistent [of "drop i es" m] m(1) unfolding 2(3) by (metis PersistentState.update_convs(5) PersistentState.surjective)+
  have "last_log_index n' = index - 1 + length (drop i es)"
    using fold_append_frame [of "drop i es" m] last unfolding 2(3) by simp
  then have "last_log_index n' \<le> B" using s assms(3) by auto
  moreover have "no_snapshot outs" by (simp add: 2(4) truncate_from_outputs)
  moreover have "sound_terms n'" if "sound_terms n" H
    using that n' m(2,4) assms(5) by (auto simp: sound_terms_def dest: in_set_dropD)
  ultimately show ?thesis using n' m(3) by (simp add: steady_def grown_def)
qed simp

lemma steady_handle_append_entries:
  assumes "node_inv n" "ae_term r \<le> T" "ae_prev_log_index r + length (ae_entries r) \<le> B"
    "H \<longrightarrow> (\<forall>e\<in>set (ae_entries r). 0 < entry_term e \<and> entry_term e \<le> ae_term r)"
  shows "steady H B T 0 0 n (handle_append_entries l r n)"
proof (cases "ae_term r < Node_current_term n")
  case True
  then show ?thesis
    by (simp add: handle_append_entries_def Let_def reject_append_entries_def append_entries_response_def)
next
  case False
  obtain m xs where m: "follow_leader l (ae_term r) n = (m, xs)" by fastforce
  have f: "steady H B T 0 0 n (m, xs)" using steady_follow_leader [OF assms(2), of H B n l] m by simp
  have inv: "node_inv m" using good_step_inv [of n m xs] follow_leader_good [OF assms(1), of l "ae_term r"] m by simp
  have trm: "Node_current_term m = ae_term r" using follow_leader_frame [of n l "ae_term r"] m False by simp
  have reply: "no_snapshot [reject_append_entries k l q]" "no_snapshot [accept_append_entries k l j q]" for k j q
    by (simp_all add: reject_append_entries_def accept_append_entries_def append_entries_response_def)
  have f1: "steady H B T 0 0 n (m, xs @ ys)" if "no_snapshot ys" for ys using f that by (simp add: steady_def)
  let ?c = "confirmed_commit_index m r (request_match_index (ae_prev_log_index r) (length (ae_entries r)))"
  obtain m1 res where s: "splice_entries_after (ae_prev_log_index r) (ae_entries r) ?c m = (m1, res)" by fastforce
  show ?thesis
  proof (cases "term_at m (ae_prev_log_index r) = Some (ae_prev_log_term r)")
    case prev: True
    show ?thesis
    proof (cases res)
      case (Inl e)
      with s splice_rejected have "m1 = m" by blast
      with False m s Inl prev f1 [OF reply(1)] show ?thesis by (simp add: handle_append_entries_def Let_def)
    next
      case (Inr ys)
      have "steady H B T 0 0 m (m1, ys)"
        by (rule steady_splice [OF inv prev assms(3) s [unfolded Inr]]) (use assms(4) trm in simp)
      from steady_trans [OF f this] have g: "steady H B T 0 0 n (m1, xs @ ys)" by simp
      let ?e = "if ae_leader_commit r > Node_commit_index m1
          then emit_committed_outputs (map_volatile (\<lambda>v. v\<lparr>commit_index := ?c\<rparr>) m1) else (m1, [])"
      have "steady H B T 0 0 m1 ?e"
        using steady_then0 [OF _ steady_emit_committed_outputs, of m1 "map_volatile (\<lambda>v. v\<lparr>commit_index := ?c\<rparr>) m1"]
        by (simp add: unmoved_def)
      moreover obtain m2 zs where e: "?e = (m2, zs)" by fastforce
      ultimately have "steady H B T 0 0 n (m2, (xs @ ys) @ zs)" using steady_trans [OF g, of 0 0 m2 zs] by simp
      then have "steady H B T 0 0 n (m2, xs @ ys @ zs @ [accept_append_entries k l j q])" for k j q
        using reply(2) by (simp add: steady_def)
      then show ?thesis
        unfolding handle_append_entries_def Let_def m prod.case s Inr sum.case e using False prev by simp
    qed
  next
    case no: False
    with False m f1 [OF reply(1)] show ?thesis by (simp add: handle_append_entries_def Let_def)
  qed
qed

lemma steady_replicate_appended: "steady H B T 0 0 n (replicate_appended d n)"
proof -
  obtain m xs where m: "advance_commit_index (record_local_progress n) = (m, xs)" by fastforce
  have "unmoved n (record_local_progress n)"
    using unmoved_leader_only [OF record_local_progress_leader_only] by simp
  then have q: "steady H B T 0 0 n (m, xs)" using steady_then0 [OF _ steady_advance_commit_index] m by metis
  from q steady_then [OF q steady_broadcast_replication] m show ?thesis
    by (simp add: replicate_appended_def case_prod_unfold Let_def)
qed

text \<open>An entry of the node's own term, appended by a leader or by the candidate that becomes one.\<close>

lemma steady_append:
  assumes "Node_role n \<in> {Candidate, Leader}" "entry_term e = Node_current_term n"
  shows "steady H B T 1 0 n (append_log_entry e n, [])"
proof -
  have "Node_log (append_log_entry e n) = Node_log n @ [e]" "Node_voted_for (append_log_entry e n) = Node_voted_for n"
    "committed_configuration (persistent (append_log_entry e n)) = committed_configuration (persistent n)"
    "Node_snapshot (append_log_entry e n) = Node_snapshot n" "volatile (append_log_entry e n) = volatile n"
    "Node_current_term (append_log_entry e n) = Node_current_term n"
    by (simp_all add: append_log_entry_def)
  with assms show ?thesis by (auto simp: steady_def grown_def sound_terms_def)
qed

lemma steady_append_proposal:
  assumes "Node_role n = Leader"
  shows "steady H B T 1 0 n (append_proposal k p n)" "Node_role (fst (append_proposal k p n)) = Leader"
proof -
  let ?m = "append_log_entry (application_entry (Node_current_term n) (cpi_payload p)) n"
  have "steady H B T 1 0 n (?m, [])" by (rule steady_append) (use assms in simp_all)
  moreover have "steady H B T 0 0 ?m (map_volatile (\<lambda>v. v\<lparr>local_proposals := t\<rparr>) ?m, [LocalProposalAppended a b c])" for t a b c
    by (rule steady_unmoved) (simp_all add: unmoved_def)
  ultimately show "steady H B T 1 0 n (append_proposal k p n)"
    using steady_trans [of H B T 1 0 n ?m "[]" 0 0] by (auto simp: append_proposal_def Let_def split: option.split)
  show "Node_role (fst (append_proposal k p n)) = Leader"
    using assms by (simp add: append_proposal_def Let_def append_log_entry_def split: option.split)
qed

lemma steady_append_proposals:
  "append_proposals k ps n = (m, xs, b) \<Longrightarrow> Node_role n = Leader \<Longrightarrow> steady H B T (length ps) 0 n (m, xs)"
proof (induction k ps n arbitrary: m xs b rule: append_proposals.induct)
  case (2 k p ps n)
  show ?case
  proof (cases "payload_fits n p")
    case False
    obtain m1 ys c where l: "append_proposals k ps n = (m1, ys, c)" by (cases "append_proposals k ps n") auto
    have "steady H B T (Suc (length ps)) 0 n (m1, ys)" by (rule steady_mono [OF 2(1) [OF False l 2(4)]]) simp_all
    with False l 2(3) show ?thesis by (auto simp: steady_def reject_too_large_def)
  next
    case True
    obtain n1 o1 where a: "append_proposal k p n = (n1, o1)" by fastforce
    obtain m1 ys c where l: "append_proposals (LogIndex_next k) ps n1 = (m1, ys, c)"
      by (cases "append_proposals (LogIndex_next k) ps n1") auto
    have "steady H B T 1 0 n (n1, o1)" "Node_role n1 = Leader" using steady_append_proposal(1) [OF 2(4), of H B T k p] steady_append_proposal(2) [OF 2(4), of k p] a by simp_all
    moreover from this have "steady H B T (length ps) 0 n1 (m1, ys)" using 2(2) True a l by simp
    ultimately show ?thesis using steady_trans [of H B T 1 0 n n1 o1 "length ps" 0 m1 ys] True a l 2(3) by auto
  qed
qed simp

lemma steady_step_client_proposal: "steady H B T 1 0 n (step_client_proposal p n)"
proof (cases "Node_role n = Leader")
  case True
  let ?a = "append_proposal (LogIndex_next (last_log_index n)) p n"
  have "steady H B T 1 0 n (fst ?a, snd ?a)" using steady_append_proposal(1) [OF True] by simp
  from steady_then [OF this steady_replicate_appended] show ?thesis
    by (auto simp: step_client_proposal_def proposal_preflight_rejection_def reject_too_large_def case_prod_unfold
        Let_def split: option.splits if_splits)
qed (simp add: step_client_proposal_def proposal_preflight_rejection_def)

lemma steady_step_proposal_batch: "steady H B T (length ps) 0 n (step_proposal_batch ps n)"
proof (cases "Node_role n = Leader")
  case True
  obtain m xs b where a: "append_proposals (LogIndex_next (last_log_index n)) ps n = (m, xs, b)"
    by (cases "append_proposals (LogIndex_next (last_log_index n)) ps n") auto
  note q = steady_append_proposals [OF a True, of H B T]
  have "no_snapshot rs" if "proposal_batch_preflight_rejection n ps = Some rs" for rs
    using that by (auto simp: proposal_batch_preflight_rejection_def no_snapshot_def split: if_splits option.splits)
  then show ?thesis
    using q steady_then [OF q steady_replicate_appended] a steady_step_client_proposal
    unfolding step_proposal_batch_def
    by (auto simp: case_prod_unfold Let_def split: list.split option.split)
next
  case False
  then show ?thesis
    by (auto simp: step_proposal_batch_def step_client_proposal_def proposal_preflight_rejection_def
        proposal_batch_preflight_rejection_def no_snapshot_def split: list.split)
qed

lemma steady_append_then:
  "Node_role n = Leader \<Longrightarrow> steady H B T 1 0 n (replicate_appended d (append_log_entry (configuration_log_entry (Node_current_term n) c) n))"
  using steady_then [OF steady_append steady_replicate_appended, of n "configuration_log_entry (Node_current_term n) c" H B T] by simp

lemma steady_changes: "changes_membership n r \<Longrightarrow> steady H B T 1 0 n r"
  using steady_append_then by (auto simp: changes_membership_def refused_def proposes_def)

lemma steady_dangerous_raw: "steady H B T 1 0 n (dangerous_raw_configuration_proposal c bs n)"
  using steady_append_then [of n] preflight_ok [of n]
  by (auto simp: dangerous_raw_configuration_proposal_def append_valid_configuration_proposal_def reject_configuration_def
      reject_proposal_def split: sum.split)

section \<open>Elections\<close>

lemma steady_win:
  assumes "Node_role n = Candidate"
  shows "steady H B T 1 0 n (win_election n)"
proof -
  let ?m = "n\<lparr>election := enter_leadership (election n), leader := LeaderState_default,
     volatile := (volatile n)\<lparr>role := Leader, leader_hint := Some (Node_id n), incoming_snapshot := None\<rparr>\<rparr>"
  have "steady H B T 0 0 n (?m, [])"
    using assms by (auto simp: steady_def grown_def sound_terms_def last_log_index_def snapshot_index_def max_def)
  moreover have "steady H B T 1 0 ?m (leader_start n, [])"
    unfolding leader_start_def by (rule steady_append) simp_all
  ultimately have "steady H B T 1 0 n (leader_start n, [])" using steady_trans by fastforce
  moreover have "steady H B T 0 0 (leader_start n) (become_leader n)"
    using steady_then0 [OF _ steady_advance_commit_index] by (simp add: become_leader_eq Let_def unmoved_def)
  ultimately have "steady H B T 1 0 n (become_leader n)"
    using steady_then [of H B T 1 0 n "leader_start n" "[]" 0 0] by fastforce
  then have "steady H B T 1 0 n (fst (become_leader n), snd (become_leader n))" by simp
  from steady_then [OF this steady_broadcast, of 0 0] show ?thesis by (simp add: win_election_def case_prod_unfold Let_def)
qed

lemma steady_candidate:
  "steady H B T 0 1 n (candidate_of n (Node_current_term n + 1), map (\<lambda>to_id. Send to_id (RequestVoteMsg q)) vs)"
  by (auto simp: steady_def grown_def sound_terms_def candidate_of_def last_log_index_def snapshot_index_def no_snapshot_def)

lemma steady_start_election: "steady H B T 1 1 n (start_election n)"
proof (cases rule: start_election_cases [of n])
  case idle
  then show ?thesis by (simp add: steady_unmoved unmoved_def)
next
  case (campaign c outs)
  then show ?thesis using steady_mono [OF steady_candidate, of 1 1] by simp
next
  case (win c outs)
  have "steady H B T 0 1 n (c, outs)" using steady_candidate by (simp add: win(2,3))
  moreover have "Node_role c = Candidate" by (simp add: win(2) candidate_of_def)
  ultimately show ?thesis
    using steady_then [OF _ steady_win, of H B T 0 1 n c outs] by (simp add: win(5) win_election_def case_prod_unfold Let_def)
qed

lemma steady_start_pre_vote_round: "steady H B T 1 1 n (start_pre_vote_round n)"
proof -
  let ?m = "n\<lparr>volatile := (volatile n)\<lparr>role := PreCandidate, leader_hint := None\<rparr>,
      election := begin_pre_vote (Node_id n) (election n)\<rparr>"
  have q: "steady H B T i t n (?m, map (\<lambda>to_id. Send to_id (PreVoteMsg q)) vs)" for q vs i t
    by (rule steady_unmoved) (auto simp: unmoved_def no_snapshot_def)
  have "steady H B T 1 1 n (fst (start_election ?m), map (\<lambda>to_id. Send to_id (PreVoteMsg q)) vs @ snd (start_election ?m))" for q vs
    using steady_then [OF q [where i = 0 and t = 0] steady_start_election] by simp
  moreover have "steady H B T 1 1 n (map_election reset_timeout n, [])" by (simp add: steady_unmoved unmoved_def)
  ultimately show ?thesis
    using q unfolding start_pre_vote_round_def Let_def by (auto simp: case_prod_unfold split: option.split)
qed

lemma steady_handle_timeout_now: "trm \<le> T \<Longrightarrow> steady H B T 1 1 n (handle_timeout_now trm n)"
proof -
  assume "trm \<le> T"
  then have "steady H B T 0 0 n (fst (become_follower trm n), snd (become_follower trm n))" by (simp add: steady_become_follower)
  from steady_then [OF this steady_start_election] show ?thesis
    by (simp add: handle_timeout_now_def case_prod_unfold Let_def)
qed

lemma steady_handle_pre_vote_response: "pvr_term r \<le> T \<Longrightarrow> steady H B T 1 1 n (handle_pre_vote_response f r n)"
proof -
  assume "pvr_term r \<le> T"
  then have "steady H B T 1 1 n (become_follower (pvr_term r) n)" by (simp add: steady_become_follower)
  moreover have u: "unmoved n (map_election (record_pre_vote f) n)" by (simp add: unmoved_def)
  ultimately show ?thesis
    using steady_then0 [OF u steady_start_election] steady_start_election steady_unmoved [OF u no_snapshot_Nil]
    by (auto simp: handle_pre_vote_response_def Let_def split: option.split)
qed

lemma steady_handle_request_vote:
  assumes "H \<longrightarrow> 0 < rv_term r" "rv_term r \<le> T"
  shows "steady H B T 0 0 n (handle_request_vote f r n)"
proof -
  obtain m xs where m: "(if rv_term r > Node_current_term n then become_follower (rv_term r) n else (n, [])) = (m, xs)" by fastforce
  have "steady H B T 0 0 n (become_follower (rv_term r) n)" using assms(2) by (simp add: steady_become_follower)
  then have "steady H B T 0 0 n (m, xs)" using m by (auto split: if_splits)
  then have f: "steady H B T 0 0 n (m, xs @ [Send f (RequestVoteResponseMsg q)])" for q by (simp add: steady_def)
  let ?v = "map_election reset_timeout (map_persistent (\<lambda>p. p\<lparr>voted_for := Some f\<rparr>) m)"
  have "steady H B T 0 0 m (?v, [])" if "rv_term r = Node_current_term m"
    using that assms(1) by (auto simp: steady_def grown_def sound_terms_def last_log_index_def snapshot_index_def max_def)
  then have "steady H B T 0 0 n (?v, xs @ [Send f (RequestVoteResponseMsg q)])" if "rv_term r = Node_current_term m" for q
    using that steady_trans [OF f, of 0 0 ?v "[]" q] by simp
  with f show ?thesis unfolding handle_request_vote_def m Let_def prod.case by auto
qed

lemma steady_handle_request_vote_response:
  assumes "rvr_term r \<le> T"
  shows "steady H B T 1 0 n (handle_request_vote_response f r n)"
proof -
  have u: "unmoved n (map_election (record_vote f) n)" by (simp add: unmoved_def)
  have "steady H B T 1 0 n (become_follower (rvr_term r) n)" "steady H B T 1 0 n (become_follower (Node_current_term n) n)"
    using assms by (simp_all add: steady_become_follower)
  moreover have "steady H B T 1 0 n (win_election n)" "steady H B T 1 0 n (win_election (map_election (record_vote f) n))"
    if "Node_role n = Candidate" using that steady_win [of n H B T] steady_then0 [OF u steady_win] by simp_all
  ultimately show ?thesis
    using steady_unmoved [OF u no_snapshot_Nil]
    by (auto simp: handle_request_vote_response_def Let_def win_election_def)
qed

lemma steady_tick: "steady H B T 1 1 n (tick n)"
proof (cases "Node_role n = Leader")
  case True
  let ?a = "map_leader (\<lambda>l. l\<lparr>ticks := ticks l + 1, heartbeat_elapsed := sat_add (heartbeat_elapsed l) 1\<rparr>) n"
  let ?b = "tick_leadership_transfer (tick_read_lease ?a)"
  have b: "unmoved n ?b"
    using unmoved_leader_only [OF leader_only_trans0 [OF leader_only_trans0 [OF leader_only_update
      tick_read_lease_leader_only] tick_leadership_transfer_leader_only]] by fastforce
  obtain m out where m: "tick_check_quorum ?b = (m, out)" by fastforce
  have down: "steady H B T 1 1 k (map_volatile (\<lambda>v. v\<lparr>leader_hint := None\<rparr>) (fst (become_follower (Node_current_term k) (k\<lparr>leader := l\<rparr>))),
      snd (become_follower (Node_current_term k) (k\<lparr>leader := l\<rparr>)))" for k l
  proof -
    let ?f = "become_follower (Node_current_term k) (k\<lparr>leader := l\<rparr>)"
    have "steady H B T 1 1 (k\<lparr>leader := l\<rparr>) (fst ?f, snd ?f)" by (simp add: steady_become_follower)
    then have "steady H B T 1 1 k (fst ?f, snd ?f)" by (rule steady_then0 [rotated]) (simp add: unmoved_def)
    moreover have "steady H B T 0 0 (fst ?f) (map_volatile (\<lambda>v. v\<lparr>leader_hint := None\<rparr>) (fst ?f), [])"
      by (rule steady_unmoved) (simp_all add: unmoved_def)
    ultimately show ?thesis using steady_trans by fastforce
  qed
  have q: "steady H B T 1 1 k (fst (tick_check_quorum k), case snd (tick_check_quorum k) of None \<Rightarrow> [] | Some outs \<Rightarrow> outs)" for k
    using down [of k] steady_unmoved [of k _ "[]"]
    by (auto simp: tick_check_quorum_def Let_def case_prod_unfold unmoved_def)
  have "steady H B T 1 1 n (m, case out of None \<Rightarrow> [] | Some outs \<Rightarrow> outs)"
    using steady_then0 [OF b q] m by simp
  moreover have "unmoved ?b m" if "out = None"
    using that m by (auto simp: tick_check_quorum_def Let_def case_prod_unfold unmoved_def split: if_splits)
  then have "steady H B T 1 1 n (broadcast_append_entries m)" if "out = None"
    using that steady_then0 [OF unmoved_trans [OF b] steady_broadcast] by blast
  ultimately show ?thesis using True m by (cases out) (simp_all add: tick_def Let_def)
next
  case False
  have u: "unmoved n (map_election advance_timeout n)" by (simp add: unmoved_def)
  from False show ?thesis
    using steady_then0 [OF u steady_start_election] steady_then0 [OF u steady_start_pre_vote_round] steady_unmoved [OF u no_snapshot_Nil]
    by (simp add: tick_def Let_def)
qed

section \<open>Single inputs\<close>

text \<open>The positions and terms a message names lie below given bounds.\<close>

fun message_bounded :: "LogIndex \<Rightarrow> Term \<Rightarrow> Message \<Rightarrow> bool" where
  "message_bounded B T (AppendEntriesMsg r) \<longleftrightarrow> ae_term r \<le> T \<and> ae_prev_log_index r + length (ae_entries r) \<le> B"
| "message_bounded B T (AppendEntriesResponseMsg r) \<longleftrightarrow> aer_term r \<le> T"
| "message_bounded B T (InstallSnapshotMsg r) \<longleftrightarrow> is_term r \<le> T \<and> last_included_index (is_metadata r) \<le> B"
| "message_bounded B T (InstallSnapshotChunkMsg r) \<longleftrightarrow> isc_term r \<le> T \<and> last_included_index (isc_metadata r) \<le> B"
| "message_bounded B T (InstallSnapshotResponseMsg r) \<longleftrightarrow> isr_term r \<le> T"
| "message_bounded B T (PreVoteMsg r) \<longleftrightarrow> True"
| "message_bounded B T (PreVoteResponseMsg r) \<longleftrightarrow> pvr_term r \<le> T"
| "message_bounded B T (TimeoutNowMsg r) \<longleftrightarrow> tn_term r \<le> T"
| "message_bounded B T (RequestVoteMsg r) \<longleftrightarrow> rv_term r \<le> T"
| "message_bounded B T (RequestVoteResponseMsg r) \<longleftrightarrow> rvr_term r \<le> T"

fun input_bounded :: "LogIndex \<Rightarrow> Term \<Rightarrow> Input \<Rightarrow> bool" where
  "input_bounded B T (MessageInput k m) = message_bounded B T m"
| "input_bounded B T _ = True"

text \<open>
  What a node of the protocol guarantees of its messages and a receiver does not check: entries have a term
  not above that of the message, candidates campaign in a positive term, and the configuration a snapshot
  captured is not newer than the snapshot.
\<close>

definition honest_metadata :: "RaftSnapshotMetadata \<Rightarrow> bool" where
  "honest_metadata m \<longleftrightarrow> (\<forall>c. meta_committed_configuration_state m = Some c \<longrightarrow> cc_index c \<le> last_included_index m)"

fun honest_message :: "Message \<Rightarrow> bool" where
  "honest_message (AppendEntriesMsg r) = list_all (\<lambda>e. 0 < entry_term e \<and> entry_term e \<le> ae_term r) (ae_entries r)"
| "honest_message (InstallSnapshotMsg r) = honest_metadata (is_metadata r)"
| "honest_message (InstallSnapshotChunkMsg r) = honest_metadata (isc_metadata r)"
| "honest_message (RequestVoteMsg r) = (0 < rv_term r)"
| "honest_message _ = True"

fun honest_input :: "Input \<Rightarrow> bool" where
  "honest_input (MessageInput k m) = honest_message m"
| "honest_input _ = True"

fun snapshot_message :: "Input \<Rightarrow> bool" where
  "snapshot_message (MessageInput k (InstallSnapshotMsg r)) = True"
| "snapshot_message (MessageInput k (InstallSnapshotChunkMsg r)) = True"
| "snapshot_message _ = False"

lemma input_bounds: "\<exists>B T. input_bounded B T inp"
proof (cases inp)
  case (MessageInput k m)
  show ?thesis by (cases m) (auto simp: MessageInput)
qed simp_all

lemma steady_receive:
  assumes "node_inv n" "message_bounded B T m" "H \<longrightarrow> honest_message m" "\<not> snapshot_message (MessageInput k m)"
  shows "steady H B T 1 1 n (receive k m n)"
proof -
  have "steady H B T 1 1 n (dispatch_message k m n)"
  proof (cases m)
    case (AppendEntriesMsg r)
    then have "steady H B T 0 0 n (handle_append_entries k r n)"
      using assms by (intro steady_handle_append_entries) (auto simp: list_all_iff)
    then show ?thesis using steady_mono [of H B T 0 0 _ _ 1 1] AppendEntriesMsg by simp
  next
    case (RequestVoteResponseMsg r)
    then show ?thesis using assms(2) steady_mono [OF steady_handle_request_vote_response, of r T 1 1] by simp
  qed (use assms in \<open>simp_all add: steady_mono [OF steady_handle_append_entries_response] steady_mono [OF steady_handle_install_snapshot_response]
      steady_handle_pre_vote_response steady_handle_timeout_now steady_mono [OF steady_handle_request_vote] handle_pre_vote_def Let_def del: One_nat_def\<close>)
  then show ?thesis by (simp add: receive_def)
qed

lemma steady_step:
  assumes "node_inv n" "input_wf inp" "input_bounded B T inp" "H \<longrightarrow> honest_input inp" "\<not> snapshot_message inp"
  shows "steady H B T 1 1 n (step inp n)"
proof (cases inp)
  case (MessageInput k m)
  with assms show ?thesis using steady_receive [of n B T m H k] by simp
qed (use assms in \<open>simp_all add: steady_tick steady_mono [OF steady_step_client_proposal] steady_mono [OF steady_changes] changes_add_learner
      changes_promote_learner changes_remove_voter changes_enter_joint changes_leave_joint changes_change_membership
      steady_mono [OF steady_dangerous_raw] steady_transfer_leadership Node_read_index_def steady_read_index_batch
      del: One_nat_def\<close>)

end
