(* ===== verification/Batch_Contract.thy ===== *)
theory Batch_Contract
  imports Dispatch
begin

text \<open>
  Contracts of single inputs, of proposal batches and of read batches, lifted to batches of inputs and to
  runs of batches. A contract counts the inputs it took, so that bounds on what one input adds give bounds on runs.
\<close>

fun segment_size :: "Segment \<Rightarrow> nat" where
  "segment_size (SingleInput inp) = 1"
| "segment_size (ProposalRun ps) = length ps"
| "segment_size (ReadRun rs) = length rs"

fun segment_admits :: "(Input \<Rightarrow> bool) \<Rightarrow> Segment \<Rightarrow> bool" where
  "segment_admits P (SingleInput inp) = P inp"
| "segment_admits P _ = True"

lemma add_segment_size: "sum_list (map segment_size (add_segment inp segs)) = Suc (sum_list (map segment_size segs))"
  by (auto split: option.split list.split Segment.split)

lemma add_segment_admits: "P inp \<Longrightarrow> list_all (segment_admits P) segs \<Longrightarrow> list_all (segment_admits P) (add_segment inp segs)"
  by (auto split: option.split list.split Segment.split)

lemma segments_size: "sum_list (map segment_size (segments inputs)) = length inputs"
  by (induction inputs) (simp_all add: segments_def add_segment_size del: add_segment.simps)

lemma segments_admit: "list_all P inputs \<Longrightarrow> list_all (segment_admits P) (segments inputs)"
  by (induction inputs) (simp_all add: segments_def add_segment_admits del: add_segment.simps)

locale batch_contract =
  fixes admissible :: "Input \<Rightarrow> bool" and inv :: "Node \<Rightarrow> bool" and rel :: "nat \<Rightarrow> Node \<Rightarrow> Node \<times> Output list \<Rightarrow> bool"
  assumes step_rel: "admissible inp \<Longrightarrow> inv n \<Longrightarrow> rel 1 n (step inp n)"
    and proposals_rel: "inv n \<Longrightarrow> rel (length ps) n (step_proposal_batch ps n)"
    and reads_rel: "inv n \<Longrightarrow> rel (length rs) n (read_index_batch rs n)"
    and rel_inv: "rel k n (n', outs) \<Longrightarrow> inv n'"
    and rel_refl: "inv n \<Longrightarrow> rel 0 n (n, [])"
    and rel_trans: "rel j a (b, xs) \<Longrightarrow> rel k b (c, ys) \<Longrightarrow> rel (j + k) a (c, xs @ ys)"
begin

lemma run_counted:
  assumes "\<And>i n. P i \<Longrightarrow> inv n \<Longrightarrow> rel (cost i) n (f i n)"
  shows "list_all P is \<Longrightarrow> inv n \<Longrightarrow> rel (sum_list (map cost is)) n (run_steps f is n)"
proof (induction "is" arbitrary: n)
  case (Cons i "is")
  obtain m xs where m: "f i n = (m, xs)" by fastforce
  obtain k ys where k: "run_steps f is m = (k, ys)" by fastforce
  have "rel (cost i) n (m, xs)" using assms [of i n] Cons.prems m by simp
  moreover from rel_inv [OF this] have "rel (sum_list (map cost is)) m (k, ys)" using Cons.IH Cons.prems(1) k by fastforce
  ultimately show ?case using rel_trans by (simp add: m k)
qed (simp add: rel_refl)

lemma segment_rel: "segment_admits admissible seg \<Longrightarrow> inv n \<Longrightarrow> rel (segment_size seg) n (run_segment seg n)"
  using step_rel proposals_rel reads_rel by (cases seg) simp_all

lemma batch_rel:
  assumes "list_all admissible inputs" "inv n"
  shows "rel (length inputs) n (step_batch inputs n)"
proof (cases "2 \<le> length inputs")
  case True
  then show ?thesis
    using run_counted [of "segment_admits admissible" segment_size run_segment "segments inputs" n, OF segment_rel]
      segments_admit [OF assms(1)] assms(2) segments_size step_batch_segments by metis
next
  case False
  then consider "inputs = []" | inp where "inputs = [inp]" by (cases inputs rule: remdups_adj.cases) auto
  then show ?thesis
    using assms rel_refl step_rel by cases (simp_all add: step_batch_def)
qed

lemma batches_rel:
  assumes "list_all (list_all admissible) batches" "inv n"
  shows "rel (sum_list (map length batches)) n (run_steps step_batch batches n)"
  using run_counted [of "list_all admissible" length step_batch, OF batch_rel assms] .

end

end
