(* ===== verification/Snapshot_Staging.thy ===== *)
theory Snapshot_Staging
  imports Steady Snapshot_Store Batch_Contract
begin

text \<open>
  What the snapshot handlers tell the store to do, and that a store which does it holds the bytes of the
  transfer in progress. A chunk or a whole snapshot either changes nothing that is stored, or it is staged,
  or it is staged and installed; the conditions under which it is are those the store checks again.
\<close>

section \<open>Outcomes of the handlers\<close>

definition chunk_of :: "NodeId \<Rightarrow> InstallSnapshotChunk \<Rightarrow> StagedSnapshotChunk" where
  "chunk_of l r = \<lparr>ssc_leader_id = l, ssc_transfer_id = isc_transfer_id r, ssc_metadata = isc_metadata r,
     ssc_total_payload_len = isc_total_payload_len r, ssc_application_payload_crc32 = isc_application_payload_crc32 r,
     ssc_offset = isc_offset r, ssc_bytes = isc_chunk r, ssc_done = isc_done r\<rparr>"

lemma chunk_of_simps [simp]:
  "ssc_leader_id (chunk_of l r) = l" "ssc_transfer_id (chunk_of l r) = isc_transfer_id r" "ssc_metadata (chunk_of l r) = isc_metadata r"
  "ssc_total_payload_len (chunk_of l r) = isc_total_payload_len r"
  "ssc_application_payload_crc32 (chunk_of l r) = isc_application_payload_crc32 r" "ssc_offset (chunk_of l r) = isc_offset r"
  "ssc_bytes (chunk_of l r) = isc_chunk r" "ssc_done (chunk_of l r) = isc_done r"
  by (simp_all add: chunk_of_def)

lemma stage_snapshot_chunk_of: "stage_snapshot_chunk l r = StageSnapshotChunk (chunk_of l r)"
  by (simp add: stage_snapshot_chunk_def chunk_of_def)

definition whole_chunk :: "NodeId \<Rightarrow> RaftSnapshot \<Rightarrow> byte list \<Rightarrow> StagedSnapshotChunk" where
  "whole_chunk l snap payload = \<lparr>ssc_leader_id = l, ssc_transfer_id = RaftSnapshot_transfer_id snap, ssc_metadata = metadata snap,
     ssc_total_payload_len = application_payload_len snap, ssc_application_payload_crc32 = application_payload_crc32 snap,
     ssc_offset = 0, ssc_bytes = payload, ssc_done = True\<rparr>"

lemma whole_chunk_simps [simp]:
  "ssc_leader_id (whole_chunk l s p) = l" "ssc_transfer_id (whole_chunk l s p) = RaftSnapshot_transfer_id s"
  "ssc_metadata (whole_chunk l s p) = metadata s" "ssc_total_payload_len (whole_chunk l s p) = application_payload_len s"
  "ssc_application_payload_crc32 (whole_chunk l s p) = application_payload_crc32 s" "ssc_offset (whole_chunk l s p) = 0"
  "ssc_bytes (whole_chunk l s p) = p" "ssc_done (whole_chunk l s p)"
  by (simp_all add: whole_chunk_def)

text \<open>The descriptor of the snapshot a chunk belongs to, and the transfer once the chunk is stored.\<close>

definition chunk_descriptor :: "StagedSnapshotChunk \<Rightarrow> RaftSnapshot" where
  "chunk_descriptor c = \<lparr>metadata = ssc_metadata c, application_payload_len = ssc_total_payload_len c,
     application_payload_crc32 = ssc_application_payload_crc32 c\<rparr>"

abbreviation chunk_transfer :: "StagedSnapshotChunk \<Rightarrow> PendingSnapshotTransfer" where
  "chunk_transfer c \<equiv> pending_transfer_after_chunk c (ssc_offset c + length (ssc_bytes c))"

text \<open>
  A node \<open>n\<close>, on its way through \<open>m\<close>, accepts a chunk: it starts a transfer or continues the one in progress
  exactly where it stopped, names its transfer by its contents, ends within the payload, and belongs to a
  snapshot ahead of what the node has, of a term it has reached, by an author that is a replica.
\<close>

definition chunk_accepted :: "StagedSnapshotChunk \<Rightarrow> Node \<Rightarrow> Node \<Rightarrow> bool" where
  "chunk_accepted c n m \<longleftrightarrow>
     (ssc_offset c = 0 \<or> pending_snapshot_transfer n = Some (pending_transfer_after_chunk c (ssc_offset c))) \<and>
     ssc_transfer_id c = RaftSnapshot_transfer_id (chunk_descriptor c) \<and>
     ssc_offset c + length (ssc_bytes c) \<le> ssc_total_payload_len c \<and>
     (ssc_done c \<longleftrightarrow> ssc_offset c + length (ssc_bytes c) = ssc_total_payload_len c) \<and>
     (ssc_bytes c = [] \<longrightarrow> ssc_done c) \<and>
     hard_state_term (ssc_metadata c) \<le> Node_current_term m \<and> valid_snapshot_author m (ssc_metadata c) \<and>
     snapshot_covered_through m < last_included_index (ssc_metadata c) \<and> Node_role m = Follower"

definition chunk_staged :: "StagedSnapshotChunk \<Rightarrow> bool \<Rightarrow> LogIndex \<Rightarrow> Term \<Rightarrow> Node \<Rightarrow> Node \<times> Output list \<Rightarrow> bool" where
  "chunk_staged c H B T n r \<longleftrightarrow> (\<exists>m xs y. steady H B T 0 0 n (m, xs) \<and> chunk_accepted c n m \<and> \<not> ssc_done c \<and> soft m (fst r) \<and>
     pending_snapshot_transfer (fst r) = Some (chunk_transfer c) \<and> snd r = xs @ [StageSnapshotChunk c, y] \<and> \<not> snapshot_output y)"

definition chunk_installed :: "StagedSnapshotChunk \<Rightarrow> bool \<Rightarrow> LogIndex \<Rightarrow> Term \<Rightarrow> Node \<Rightarrow> Node \<times> Output list \<Rightarrow> bool" where
  "chunk_installed c H B T n r \<longleftrightarrow> (\<exists>m xs y. steady H B T 0 0 n (m, xs) \<and> chunk_accepted c n m \<and> ssc_done c \<and>
     incoming_snapshot (volatile m) = None \<and> fst r = fst (install_snapshot_state (chunk_descriptor c) m) \<and>
     snd r = xs @ [StageSnapshotChunk c, ApplySnapshot (chunk_descriptor c), y] \<and> \<not> snapshot_output y)"

definition snapshot_outcome :: "StagedSnapshotChunk \<Rightarrow> bool \<Rightarrow> LogIndex \<Rightarrow> Term \<Rightarrow> Node \<Rightarrow> Node \<times> Output list \<Rightarrow> bool" where
  "snapshot_outcome c H B T n r \<longleftrightarrow> steady H B T 0 0 n r \<or> chunk_staged c H B T n r \<or> chunk_installed c H B T n r"

lemma not_snapshot_reply [simp]: "\<not> snapshot_output (snapshot_reply n l r)"
  by (simp add: snapshot_reply_def)

lemma steady_soft:
  "soft n n' \<Longrightarrow> incoming_snapshot (volatile n') \<in> {incoming_snapshot (volatile n), None} \<Longrightarrow> no_snapshot outs \<Longrightarrow>
   steady H B T 0 0 n (n', outs)"
  by (auto simp: soft_def steady_def grown_def sound_terms_def last_log_index_def snapshot_index_def max_def)

lemma steady_adopt: "trm \<le> T \<Longrightarrow> steady H B T 0 0 n (adopt_snapshot_term trm n)"
  by (simp add: adopt_snapshot_term_def steady_become_follower)

lemma adopted:
  "\<not> trm < Node_current_term n \<Longrightarrow> Node_current_term (fst (adopt_snapshot_term trm n)) = trm \<and>
   Node_role (fst (adopt_snapshot_term trm n)) = Follower \<and>
   incoming_snapshot (volatile (fst (adopt_snapshot_term trm n))) = incoming_snapshot (volatile n)"
  by (auto simp: adopt_snapshot_term_def frame_simps)

lemma valid_chunk_header:
  "validate_install_snapshot_chunk_header n l r = Inr u \<Longrightarrow>
   isc_transfer_id r = RaftSnapshot_transfer_id (chunk_descriptor (chunk_of l r)) \<and> (isc_chunk r = [] \<longrightarrow> isc_done r) \<and>
   hard_state_term (isc_metadata r) \<le> isc_term r \<and> valid_snapshot_author n (isc_metadata r)"
  by (auto simp: validate_install_snapshot_chunk_header_def validate_snapshot_transfer_header_def valid_snapshot_metadata_def
      validate_snapshot_chunk_shape_def RaftSnapshot_transfer_id_def chunk_descriptor_def chunk_of_def Let_def
      split: sum.splits SnapshotTransferHeaderRejection.splits if_splits option.splits)

lemma pending_of_transfer:
  "transfer_matches l r t \<Longrightarrow> ist_to_pending t = pending_transfer_after_chunk (chunk_of l r) (ist_received_len t)"
  by (simp add: transfer_matches_def ist_to_pending_def pending_transfer_after_chunk_def chunk_of_def)

lemma author_soft: "soft n n' \<Longrightarrow> valid_snapshot_author n' m = valid_snapshot_author n m"
  by (auto simp: soft_def valid_snapshot_author_def split: option.split)

lemma chunk_accepted_soft:
  assumes "chunk_accepted c n m" "soft m m'"
  shows "chunk_accepted c n m'"
proof -
  have "Node_role m' = Node_role m" "Node_current_term m' = Node_current_term m" using assms(2) by (simp_all add: soft_def)
  with assms(1) covered_soft [OF assms(2)] author_soft [OF assms(2)] show ?thesis unfolding chunk_accepted_def by metis
qed

lemma steady_then_soft:
  assumes "steady H B T 0 0 n (m, xs)" "soft m m'" "incoming_snapshot (volatile m') \<in> {incoming_snapshot (volatile m), None}" "no_snapshot ys"
  shows "steady H B T 0 0 n (m', xs @ ys)"
  using steady_trans [OF assms(1) steady_soft [OF assms(2-4)]] by simp

lemma accept_outcome:
  assumes n: "steady H B T 0 0 n (m, xs)" and m: "soft m m1" "incoming_snapshot (volatile m1) = Some t"
    and c: "chunk_accepted (chunk_of l r) n m" "transfer_matches l r t" "ist_received_len t = isc_offset r"
  shows "snapshot_outcome (chunk_of l r) H B T n (fst (accept_current_snapshot_chunk l r (isc_offset r) m1),
    xs @ snd (accept_current_snapshot_chunk l r (isc_offset r) m1))"
proof (cases "isc_done r")
  case True
  let ?m = "map_volatile (\<lambda>v. v\<lparr>incoming_snapshot := None\<rparr>) m1"
  let ?snap = "chunk_descriptor (chunk_of l r)"
  let ?i = "install_snapshot_state ?snap ?m"
  have snap: "\<lparr>metadata = ist_metadata t, application_payload_len = isc_total_payload_len r,
      application_payload_crc32 = isc_application_payload_crc32 r\<rparr> = ?snap"
    using c(2) by (simp add: chunk_descriptor_def chunk_of_def transfer_matches_def)
  have "isc_offset r + length (isc_chunk r) = isc_total_payload_len r" using c(1) True by (simp add: chunk_accepted_def chunk_of_def)
  then have a: "accept_current_snapshot_chunk l r (isc_offset r) m1 = (fst ?i, snd ?i @ [StageSnapshotChunk (chunk_of l r), ApplySnapshot ?snap,
      snapshot_reply (fst ?i) l (accepted_transfer (last_included_index (metadata ?snap)) (isc_transfer_id r) (isc_offset r + length (isc_chunk r)))])"
    using True m(2) snap by (simp add: accept_current_snapshot_chunk_def install_final_snapshot_chunk_def stage_snapshot_chunk_of
        Let_def case_prod_unfold)
  have sm: "soft m ?m" using m(1) soft_trans [of m m1 ?m] by simp
  then have "steady H B T 0 0 n (?m, xs @ snd ?i)" by (rule steady_then_soft [OF n]) (simp_all add: no_snapshot_install)
  moreover have "chunk_accepted (chunk_of l r) n ?m" using c(1) sm by (rule chunk_accepted_soft)
  ultimately have "chunk_installed (chunk_of l r) H B T n (fst ?i, xs @ snd (accept_current_snapshot_chunk l r (isc_offset r) m1))"
    using True a unfolding chunk_installed_def by (intro exI [of _ ?m] exI [of _ "xs @ snd ?i"]) (simp add: chunk_of_def)
  then show ?thesis using a by (simp add: snapshot_outcome_def)
next
  case False
  let ?m = "map_volatile (\<lambda>v. v\<lparr>incoming_snapshot := Some (t\<lparr>ist_received_len := isc_offset r + length (isc_chunk r)\<rparr>)\<rparr>) m1"
  have a: "accept_current_snapshot_chunk l r (isc_offset r) m1 = (?m, [StageSnapshotChunk (chunk_of l r),
      snapshot_reply ?m l (accepted_transfer (snapshot_index ?m) (ist_transfer_id t) (isc_offset r + length (isc_chunk r)))])"
    using False m(2) by (simp add: accept_current_snapshot_chunk_def stage_snapshot_chunk_of Let_def)
  have sm: "soft m ?m" using m(1) soft_trans [of m m1 ?m] by simp
  have "pending_snapshot_transfer ?m = Some (chunk_transfer (chunk_of l r))"
    using pending_of_transfer [of l r "t\<lparr>ist_received_len := isc_offset r + length (isc_chunk r)\<rparr>"] c(2)
    by (simp add: pending_snapshot_transfer_def transfer_matches_def)
  with n c(1) sm False a have "chunk_staged (chunk_of l r) H B T n (?m, xs @ snd (accept_current_snapshot_chunk l r (isc_offset r) m1))"
    unfolding chunk_staged_def by (intro exI [of _ m] exI [of _ xs]) (simp add: chunk_of_def)
  then show ?thesis using a by (simp add: snapshot_outcome_def)
qed

lemma dispose_outcome:
  assumes n: "steady H B T 0 0 n (m, xs)" "incoming_snapshot (volatile m) = incoming_snapshot (volatile n)" "Node_role m = Follower"
    and header: "validate_install_snapshot_chunk_header m l r = Inr u" "isc_term r \<le> Node_current_term m"
    and d: "classify_snapshot_chunk l r (record_accepted_snapshot_leader l m) = (m1, Inr d)"
  shows "snapshot_outcome (chunk_of l r) H B T n (fst (dispose_snapshot_chunk l r d m1), xs @ snd (dispose_snapshot_chunk l r d m1))"
proof -
  let ?m = "record_accepted_snapshot_leader l m"
  have soft: "soft m m1" using soft_trans [OF soft_record_leader soft_classify, of m l r l] d by simp
  show ?thesis
  proof (cases "\<exists>off. d = AcceptChunk off")
    case True
    then obtain off where off: "d = AcceptChunk off" by blast
    from classify_accepts [OF d [unfolded this]] obtain t where
      t: "isc_offset r = off" "incoming_snapshot (volatile m1) = Some t" "transfer_matches l r t" "ist_received_len t = off"
        "incoming_snapshot (volatile n) = Some t \<or> off = 0" "snapshot_covered_through m < last_included_index (isc_metadata r)"
      using n(2) covered_soft [OF soft_record_leader [of m l]] by auto
    have "isc_offset r = 0 \<or> pending_snapshot_transfer n = Some (pending_transfer_after_chunk (chunk_of l r) (isc_offset r))"
      using t(1,4,5) pending_of_transfer [OF t(3)] by (auto simp: pending_snapshot_transfer_def)
    then have "chunk_accepted (chunk_of l r) n m"
      using valid_chunk_header [OF header(1)] valid_chunk_shape [OF header(1)] header(2) t(6) n(3)
      by (auto simp: chunk_accepted_def)
    from accept_outcome [OF n(1) soft t(2) this t(3)] t(1,4) off show ?thesis by (simp add: dispose_snapshot_chunk_def)
  next
    case False
    have inc: "incoming_snapshot (volatile m1) = incoming_snapshot (volatile m)"
      using classify_not_accepted [OF d] False by simp
    have "steady H B T 0 0 n (m', xs @ ys)"
      if "soft m1 m'" "incoming_snapshot (volatile m') \<in> {incoming_snapshot (volatile m1), None}" "no_snapshot ys" for m' ys
      using steady_then_soft [OF n(1) soft_trans [OF soft that(1)] _ that(3)] that(2) inc by simp
    then have "steady H B T 0 0 n (fst (dispose_snapshot_chunk l r d m1), xs @ snd (dispose_snapshot_chunk l r d m1))"
      using False by (cases d) (simp_all add: dispose_snapshot_chunk_def acknowledge_covered_snapshot_chunk_def Let_def)
    then show ?thesis by (simp add: snapshot_outcome_def)
  qed
qed

lemma chunk_outcome:
  assumes "isc_term r \<le> T"
  shows "snapshot_outcome (chunk_of l r) H B T n (handle_install_snapshot_chunk l r n)"
proof (cases "isc_term r < Node_current_term n")
  case True
  then show ?thesis by (simp add: handle_install_snapshot_chunk_def Let_def snapshot_outcome_def steady_soft)
next
  case False
  obtain m xs where a: "adopt_snapshot_term (isc_term r) n = (m, xs)" by fastforce
  have n: "steady H B T 0 0 n (m, xs)" using steady_adopt [OF assms, of H B n] a by simp
  have m: "Node_current_term m = isc_term r" "Node_role m = Follower" "incoming_snapshot (volatile m) = incoming_snapshot (volatile n)"
    using adopted [OF False] a by simp_all
  obtain m1 res where c: "classify_snapshot_chunk l r (record_accepted_snapshot_leader l m) = (m1, res)" by fastforce
  show ?thesis
  proof (cases "validate_install_snapshot_chunk_header m l r")
    case (Inl why)
    have "steady H B T 0 0 n (record_snapshot_chunk_rejection why m, xs @ [snapshot_reply k l q])" for k q
      by (rule steady_then_soft [OF n]) simp_all
    with False a Inl show ?thesis by (simp add: handle_install_snapshot_chunk_def Let_def snapshot_outcome_def)
  next
    case header: (Inr u)
    show ?thesis
    proof (cases res)
      case (Inl why)
      have "soft m m1" using soft_trans [OF soft_record_leader soft_classify, of m l r l] c by simp
      moreover have "incoming_snapshot (volatile m1) = incoming_snapshot (volatile m)"
        using classify_not_accepted [OF c] Inl by simp
      ultimately have "steady H B T 0 0 n (record_snapshot_chunk_rejection why m1, xs @ [snapshot_reply k l q])" for k q
        using soft_trans [of m m1 "record_snapshot_chunk_rejection why m1"] by (intro steady_then_soft [OF n]) simp_all
      with False a header c Inl show ?thesis by (simp add: handle_install_snapshot_chunk_def Let_def snapshot_outcome_def)
    next
      case (Inr d)
      from dispose_outcome [OF n m(3,2) header _ c [unfolded Inr]] m(1) False a header c Inr show ?thesis
        by (simp add: handle_install_snapshot_chunk_def Let_def case_prod_unfold)
    qed
  qed
qed

lemma whole_outcome:
  fixes r :: InstallSnapshot
  defines "snap \<equiv> RaftSnapshot_from_payload (is_metadata r) (is_application_payload r)"
  assumes "is_term r \<le> T"
  shows "snapshot_outcome (whole_chunk l snap (is_application_payload r)) H B T n (handle_install_snapshot l r n)"
proof (cases "is_term r < Node_current_term n")
  case True
  then show ?thesis by (simp add: handle_install_snapshot_def Let_def snapshot_outcome_def)
next
  case False
  let ?c = "whole_chunk l snap (is_application_payload r)"
  obtain m xs where a: "adopt_snapshot_term (is_term r) n = (m, xs)" by fastforce
  have n: "steady H B T 0 0 n (m, xs)" using steady_adopt [OF assms(2), of H B n] a by simp
  have m: "Node_current_term m = is_term r" "Node_role m = Follower" using adopted [OF False] a by simp_all
  have desc: "chunk_descriptor ?c = snap" by (simp add: chunk_descriptor_def whole_chunk_def)
  let ?m = "map_volatile (\<lambda>v. v\<lparr>incoming_snapshot := None\<rparr>) (record_accepted_snapshot_leader l m)"
  have soft: "soft m ?m" using soft_trans [OF soft_record_leader soft_incoming] by blast
  let ?i = "install_snapshot_state snap ?m"
  have quiet: "steady H B T 0 0 n (?m, xs @ ys)" if "no_snapshot ys" for ys
    by (rule steady_then_soft [OF n soft]) (simp_all add: that)
  have "chunk_installed ?c H B T n (fst ?i, xs @ snd ?i @ [StageSnapshotChunk ?c, ApplySnapshot snap, snapshot_reply k l q])"
    if "validate_snapshot_transfer_header m l (metadata snap) (is_term r) = Inr u" "snapshot_covered_through ?m < last_included_index (metadata snap)"
    for u k q
  proof -
    have "valid_snapshot_author m (metadata snap)" "hard_state_term (metadata snap) \<le> is_term r"
      using that(1) by (auto simp: validate_snapshot_transfer_header_def valid_snapshot_metadata_def split: if_splits)
    then have "chunk_accepted ?c n ?m"
      using that(2) m soft author_soft [OF soft] desc
      by (simp add: chunk_accepted_def soft_def) (simp add: snap_def RaftSnapshot_from_payload_def)
    then show ?thesis
      using quiet [OF no_snapshot_install [of snap ?m]] unfolding chunk_installed_def
      by (intro exI [of _ ?m] exI [of _ "xs @ snd ?i"]) (simp add: desc)
  qed
  moreover have "steady H B T 0 0 n (m, xs @ [snapshot_reply k l q])" for k q using n by (simp add: steady_def)
  moreover have "install_whole_snapshot l snap (is_application_payload r) ?m = (fst ?i, snd ?i @ [StageSnapshotChunk ?c, ApplySnapshot snap,
      snapshot_reply (fst ?i) l (accepted_transfer (last_included_index (metadata snap)) (RaftSnapshot_transfer_id snap) (application_payload_len snap))])"
    by (simp add: install_whole_snapshot_def Let_def case_prod_unfold whole_chunk_def)
  ultimately show ?thesis
    using False a quiet unfolding handle_install_snapshot_def snap_def [symmetric] Let_def
    by (cases "validate_snapshot_transfer_header m l (metadata snap) (is_term r)") (simp_all add: snapshot_outcome_def not_le)
qed

text \<open>The chunk a message brings; a whole snapshot is its only chunk.\<close>

fun brought_chunk :: "Input \<Rightarrow> StagedSnapshotChunk option" where
  "brought_chunk (MessageInput k (InstallSnapshotChunkMsg r)) = Some (chunk_of k r)"
| "brought_chunk (MessageInput k (InstallSnapshotMsg r)) =
     Some (whole_chunk k (RaftSnapshot_from_payload (is_metadata r) (is_application_payload r)) (is_application_payload r))"
| "brought_chunk _ = None"

lemma snapshot_outcome_mono: "snapshot_outcome c H B T n r \<Longrightarrow> steady H B T 1 1 n r \<or> chunk_staged c H B T n r \<or> chunk_installed c H B T n r"
  using steady_mono [of H B T 0 0 n r 1 1] by (auto simp: snapshot_outcome_def)

lemma step_outcome:
  assumes "node_inv n" "input_wf inp" "input_bounded B T inp" "H \<longrightarrow> honest_input inp"
  obtains "steady H B T 1 1 n (step inp n)"
  | c where "brought_chunk inp = Some c" "chunk_staged c H B T n (step inp n)"
  | c where "brought_chunk inp = Some c" "chunk_installed c H B T n (step inp n)"
proof (cases "snapshot_message inp")
  case True
  then consider k r where "inp = MessageInput k (InstallSnapshotChunkMsg r)" | k r where "inp = MessageInput k (InstallSnapshotMsg r)"
    by (cases inp rule: snapshot_message.cases) auto
  then obtain c where "brought_chunk inp = Some c" "steady H B T 1 1 n (step inp n) \<or> chunk_staged c H B T n (step inp n) \<or> chunk_installed c H B T n (step inp n)"
  proof cases
    case (1 k r)
    with assms(3) snapshot_outcome_mono [OF chunk_outcome [of r T k H B n]] that show thesis by (auto simp: receive_def)
  next
    case (2 k r)
    with assms(3) snapshot_outcome_mono [OF whole_outcome [of r T k H B n]] that show thesis by (auto simp: receive_def)
  qed
  then show thesis using that by blast
next
  case False
  from steady_step [OF assms False] that(1) show thesis by blast
qed

section \<open>The store that follows the outputs\<close>

text \<open>A host stages every chunk and promotes every announced snapshot, in the order of the outputs.\<close>

fun store_output :: "Output \<Rightarrow> InMemoryRaftSnapshotStore \<Rightarrow> InMemoryRaftSnapshotStore \<times> (RaftSnapshotStoreWriteError + unit)" where
  "store_output (StageSnapshotChunk c) s = store_snapshot_chunk c s"
| "store_output (ApplySnapshot snap) s = promote_staged_snapshot snap s"
| "store_output _ s = (s, Inr ())"

fun store_outputs :: "Output list \<Rightarrow> InMemoryRaftSnapshotStore \<Rightarrow> InMemoryRaftSnapshotStore \<times> (RaftSnapshotStoreWriteError + unit)" where
  "store_outputs [] s = (s, Inr ())"
| "store_outputs (x # xs) s = (case store_output x s of (s, Inl e) \<Rightarrow> (s, Inl e) | (s, Inr _) \<Rightarrow> store_outputs xs s)"

lemma store_outputs_append:
  "store_outputs (xs @ ys) s = (case store_outputs xs s of (s, Inl e) \<Rightarrow> (s, Inl e) | (s, Inr _) \<Rightarrow> store_outputs ys s)"
  by (induction xs arbitrary: s) (auto split: prod.split sum.split)

lemma store_outputs_quiet: "no_snapshot outs \<Longrightarrow> store_outputs outs s = (s, Inr ())"
proof (induction outs)
  case (Cons x outs)
  then show ?case by (cases x) (simp_all add: no_snapshot_def)
qed simp

text \<open>Payloads by the identity of their transfer, and messages that bring pieces of them.\<close>

definition genuine_chunk :: "(SnapshotTransferId \<Rightarrow> byte list) \<Rightarrow> StagedSnapshotChunk \<Rightarrow> bool" where
  "genuine_chunk payload c \<longleftrightarrow>
     ssc_total_payload_len c = length (payload (ssc_transfer_id c)) \<and> length (payload (ssc_transfer_id c)) \<le> u64_max \<and>
     ssc_application_payload_crc32 c = crc32 (payload (ssc_transfer_id c)) \<and>
     ssc_bytes c = take (length (ssc_bytes c)) (drop (ssc_offset c) (payload (ssc_transfer_id c)))"

definition genuine :: "(SnapshotTransferId \<Rightarrow> byte list) \<Rightarrow> Input \<Rightarrow> bool" where
  "genuine payload inp \<longleftrightarrow> input_wf inp \<and> (\<forall>c. brought_chunk inp = Some c \<longrightarrow> genuine_chunk payload c)"

text \<open>
  The store is in step with a node: its current snapshot is the node's and holds the payload of that snapshot,
  and of a transfer in progress it holds the first bytes, as many as the node has acknowledged.
\<close>

definition in_step :: "(SnapshotTransferId \<Rightarrow> byte list) \<Rightarrow> Node \<Rightarrow> InMemoryRaftSnapshotStore \<Rightarrow> bool" where
  "in_step payload n s \<longleftrightarrow>
     current_snapshot s = Node_snapshot n \<and>
     (\<forall>p snap. ss_current s = Some p \<longrightarrow> Node_snapshot n = Some snap \<longrightarrow>
        prs_application_payload p = payload (RaftSnapshot_transfer_id snap)) \<and>
     (\<forall>t. pending_snapshot_transfer n = Some t \<longrightarrow>
        ss_pending s = Some \<lparr>st_transfer = t, st_bytes = take (pst_received_len t) (payload (pst_transfer_id t))\<rparr>)"

lemma chunk_stored:
  assumes "chunk_accepted c n m" "genuine_chunk payload c" "in_step payload n s"
  shows "store_snapshot_chunk c s = (s\<lparr>ss_pending := Some \<lparr>st_transfer = chunk_transfer c,
    st_bytes = take (ssc_offset c + length (ssc_bytes c)) (payload (ssc_transfer_id c))\<rparr>\<rparr>, Inr ())"
proof -
  let ?p = "payload (ssc_transfer_id c)" and ?upto = "ssc_offset c + length (ssc_bytes c)"
  have c: "ssc_transfer_id c = RaftSnapshot_transfer_id (chunk_descriptor c)" "?upto \<le> ssc_total_payload_len c"
    "ssc_done c \<longleftrightarrow> ?upto = ssc_total_payload_len c" "ssc_bytes c = [] \<longrightarrow> ssc_done c" "ssc_total_payload_len c \<le> u64_max"
    using assms(1,2) unfolding chunk_accepted_def genuine_chunk_def by (blast, blast, blast, blast, simp)
  have bytes: "take (ssc_offset c) ?p @ ssc_bytes c = take ?upto ?p"
    using assms(2) take_add [of "ssc_offset c" "length (ssc_bytes c)" ?p] by (metis genuine_chunk_def)
  show ?thesis
  proof (cases "ssc_offset c = 0")
    case True
    then have "validate_staged_chunk c (staged_transfer s) = Inr ?upto"
      using c by (auto simp: validate_staged_chunk_def checked_add_def chunk_descriptor_def Let_def)
    with True bytes show ?thesis by (simp add: store_snapshot_chunk_def Let_def)
  next
    case False
    let ?t = "pending_transfer_after_chunk c (ssc_offset c)"
    have s: "ss_pending s = Some \<lparr>st_transfer = ?t, st_bytes = take (ssc_offset c) ?p\<rparr>"
      using assms(1,3) False by (auto simp: chunk_accepted_def in_step_def pending_transfer_after_chunk_def)
    then have "validate_staged_chunk c (staged_transfer s) = Inr ?upto"
      using c by (auto simp: validate_staged_chunk_def checked_add_def chunk_descriptor_def staged_transfer_def
          pending_transfer_after_chunk_def Let_def)
    with False s bytes show ?thesis by (simp add: store_snapshot_chunk_def Let_def)
  qed
qed

lemma chunk_promoted:
  fixes s :: InMemoryRaftSnapshotStore
  defines "s1 \<equiv> \<lambda>c p. s\<lparr>ss_pending := Some \<lparr>st_transfer = chunk_transfer c, st_bytes = p\<rparr>\<rparr>"
  assumes "chunk_accepted c n m" "ssc_done c" "genuine_chunk payload c"
  shows "promote_staged_snapshot (chunk_descriptor c) (s1 c (payload (ssc_transfer_id c))) =
    (s\<lparr>ss_current := Some \<lparr>prs_metadata = ssc_metadata c, prs_application_payload = payload (ssc_transfer_id c)\<rparr>, ss_pending := None\<rparr>, Inr ())"
proof -
  have "ssc_transfer_id c = RaftSnapshot_transfer_id (chunk_descriptor c)" "ssc_offset c + length (ssc_bytes c) = ssc_total_payload_len c"
    "ssc_application_payload_crc32 c = crc32 (payload (ssc_transfer_id c))"
    using assms(2-4) by (simp_all add: chunk_accepted_def genuine_chunk_def)
  then show ?thesis
    by (simp add: promote_staged_snapshot_def validate_staged_promotion_def staged_transfer_def s1_def pst_is_complete_def
        pending_descriptor_def pending_transfer_after_chunk_def chunk_descriptor_def write_snapshot_def Let_def)
qed

definition stored_along :: "(SnapshotTransferId \<Rightarrow> byte list) \<Rightarrow> nat \<Rightarrow> Node \<Rightarrow> Node \<times> Output list \<Rightarrow> bool" where
  "stored_along payload k n r \<longleftrightarrow> node_inv (fst r) \<and>
     (\<forall>s. in_step payload n s \<longrightarrow> (\<exists>s'. store_outputs (snd r) s = (s', Inr ()) \<and> in_step payload (fst r) s'))"

lemma stored_along_steady:
  assumes "steady H B T i t n r" "node_inv (fst r)"
  shows "stored_along payload k n r"
proof -
  have "pending_snapshot_transfer (fst r) = pending_snapshot_transfer n \<or> pending_snapshot_transfer (fst r) = None"
    "Node_snapshot (fst r) = Node_snapshot n" "no_snapshot (snd r)"
    using assms(1) by (auto simp: steady_def pending_snapshot_transfer_def)
  with assms(2) show ?thesis by (auto simp: stored_along_def store_outputs_quiet in_step_def)
qed

lemma in_step_steady:
  "steady H B T i t n (m, xs) \<Longrightarrow> in_step payload n s \<Longrightarrow> store_outputs xs s = (s, Inr ()) \<and> Node_snapshot m = Node_snapshot n"
  by (simp add: steady_def store_outputs_quiet)

lemma stored_along_staged:
  assumes "chunk_staged c H B T n r" "genuine_chunk payload c" "node_inv (fst r)"
  shows "stored_along payload k n r"
proof -
  obtain m xs y where r: "steady H B T 0 0 n (m, xs)" "chunk_accepted c n m" "soft m (fst r)"
    "pending_snapshot_transfer (fst r) = Some (chunk_transfer c)" "snd r = xs @ [StageSnapshotChunk c, y]" "\<not> snapshot_output y"
    using assms(1) by (auto simp: chunk_staged_def)
  have y: "store_output y s = (s, Inr ())" for s using r(6) by (cases y) simp_all
  have "Node_snapshot (fst r) = Node_snapshot n" using r(1,3) by (simp add: steady_def soft_def)
  then show ?thesis
    using chunk_stored [OF r(2) assms(2)] in_step_steady [OF r(1), of payload] r(4) y assms(3)
    by (auto simp: stored_along_def r(5) store_outputs_append in_step_def current_snapshot_def pending_transfer_after_chunk_def)
qed

lemma stored_along_installed:
  assumes "chunk_installed c H B T n r" "genuine_chunk payload c" "node_inv (fst r)"
  shows "stored_along payload k n r"
proof -
  obtain m xs y where r: "steady H B T 0 0 n (m, xs)" "chunk_accepted c n m" "ssc_done c" "incoming_snapshot (volatile m) = None"
    "fst r = fst (install_snapshot_state (chunk_descriptor c) m)"
    "snd r = xs @ [StageSnapshotChunk c, ApplySnapshot (chunk_descriptor c), y]" "\<not> snapshot_output y"
    using assms(1) by (auto simp: chunk_installed_def)
  let ?p = "payload (ssc_transfer_id c)"
  have y: "store_output y s = (s, Inr ())" for s using r(7) by (cases y) simp_all
  have whole: "take (ssc_offset c + length (ssc_bytes c)) ?p = ?p" "ssc_transfer_id c = RaftSnapshot_transfer_id (chunk_descriptor c)"
    using r(2,3) assms(2) by (simp_all add: chunk_accepted_def genuine_chunk_def)
  have node: "Node_snapshot (fst r) = Some (chunk_descriptor c)" "pending_snapshot_transfer (fst r) = None"
    using install_snapshot_state_frame [of "chunk_descriptor c" m] r(4,5) by (simp_all add: pending_snapshot_transfer_def)
  have "RaftSnapshot_from_payload (ssc_metadata c) ?p = chunk_descriptor c"
    using assms(2) by (simp add: RaftSnapshot_from_payload_def chunk_descriptor_def genuine_chunk_def)
  then have "in_step payload (fst r) (s\<lparr>ss_current := Some \<lparr>prs_metadata = ssc_metadata c, prs_application_payload = ?p\<rparr>, ss_pending := None\<rparr>)" for s
    using node whole(2) by (simp add: in_step_def current_snapshot_def)
  moreover have "store_outputs (snd r) s = (s\<lparr>ss_current := Some \<lparr>prs_metadata = ssc_metadata c, prs_application_payload = ?p\<rparr>, ss_pending := None\<rparr>, Inr ())"
    if "in_step payload n s" for s
    using chunk_stored [OF r(2) assms(2) that] chunk_promoted [OF r(2,3) assms(2), of s] in_step_steady [OF r(1) that] y whole(1)
    by (simp add: r(6) store_outputs_append)
  ultimately show ?thesis using assms(3) by (auto simp: stored_along_def)
qed

lemma stored_along_step:
  assumes "genuine payload inp" "node_inv n"
  shows "stored_along payload 1 n (step inp n)"
proof -
  obtain B T where b: "input_bounded B T inp" using input_bounds by blast
  have wf: "input_wf inp" "\<And>c. brought_chunk inp = Some c \<Longrightarrow> genuine_chunk payload c" using assms(1) by (simp_all add: genuine_def)
  have inv: "node_inv (fst (step inp n))" using good_step_step [OF assms(2) wf(1)] by (simp add: good_step_def good_def)
  from assms(2) wf(1) b show ?thesis
    by (rule step_outcome [where H = False]) (use inv wf(2) in \<open>auto intro: stored_along_steady stored_along_staged stored_along_installed\<close>)
qed

interpretation staging: batch_contract "genuine payload" node_inv "stored_along payload" for payload
proof unfold_locales
  show "stored_along payload 1 n (step inp n)" if "genuine payload inp" "node_inv n" for inp n
    using that by (rule stored_along_step)
  show "stored_along payload (length ps) n (step_proposal_batch ps n)" if "node_inv n" for n ps
    using stored_along_steady [OF steady_step_proposal_batch] good_step_step_proposal_batch [OF that] by (simp add: good_step_def good_def)
  show "stored_along payload (length rs) n (read_index_batch rs n)" if "node_inv n" for n rs
    using stored_along_steady [OF steady_read_index_batch] good_step_read_index_batch [OF that] by (simp add: good_step_def good_def)
  show "stored_along payload (j + k) a (c, xs @ ys)" if "stored_along payload j a (b, xs)" "stored_along payload k b (c, ys)" for j k a b c xs ys
    using that by (fastforce simp: stored_along_def store_outputs_append)
qed (auto simp: stored_along_def)

text \<open>
  C33: Snapshots arrive byte for byte. Let every chunk and every whole snapshot a node receives be a piece of
  the payload its transfer names, in any order and any number of times, mixed with any other inputs. A store
  that stages and promotes what the outputs say accepts every one of these operations. After the run its
  current snapshot is the node's and holds exactly that snapshot's payload, and of a transfer in progress it
  holds exactly the first bytes of the payload, as many as the node has acknowledged.
\<close>

theorem snapshot_staging_complete:
  assumes "node_inv n" "in_step payload n s" "list_all (list_all (genuine payload)) batches"
    and "run_steps step_batch batches n = (n', outs)"
  shows "\<exists>s'. store_outputs outs s = (s', Inr ()) \<and> current_snapshot s' = Node_snapshot n' \<and>
    (\<forall>p snap. ss_current s' = Some p \<longrightarrow> Node_snapshot n' = Some snap \<longrightarrow>
       prs_application_payload p = payload (RaftSnapshot_transfer_id snap)) \<and>
    (\<forall>t. pending_snapshot_transfer n' = Some t \<longrightarrow> staged_transfer s' = Some t \<and>
       (\<exists>staged. ss_pending s' = Some staged \<and> st_bytes staged = take (pst_received_len t) (payload (pst_transfer_id t))))"
proof -
  obtain s' where "store_outputs outs s = (s', Inr ())" "in_step payload n' s'"
    using staging.batches_rel [OF assms(3,1)] assms(2,4) by (auto simp: stored_along_def)
  then show ?thesis by (intro exI [of _ s']) (auto simp: in_step_def staged_transfer_def)
qed

text \<open>A follower receives the first half of a snapshot of four bytes.\<close>

definition sample_incoming :: RaftSnapshotMetadata where
  "sample_incoming = \<lparr>group_id = ''g'', writer_id = 2, last_included_index = 6, last_included_term = 3, hard_state_term = 3,
     application = \<lparr>app_kind = ''k'', app_version = 1\<rparr>, meta_committed_configuration = None\<rparr>"

definition sample_chunk :: InstallSnapshotChunk where
  "sample_chunk = \<lparr>isc_term = 3, isc_leader_id = 2,
     isc_transfer_id = RaftSnapshot_transfer_id (RaftSnapshot_from_payload sample_incoming [1, 2, 3, 4]), isc_metadata = sample_incoming,
     isc_total_payload_len = 4, isc_application_payload_crc32 = crc32 [1, 2, 3, 4], isc_offset = 0, isc_chunk = [1, 2], isc_done = False\<rparr>"

lemma sample_chunk_adopted:
  obtains m xs where "adopt_snapshot_term 3 sample_follower = (m, xs)" "config m = sample_config" "incoming_snapshot (volatile m) = None"
    "snapshot_covered_through m = 2" "effective_membership m = static_membership sample_config"
proof -
  let ?r = "become_follower 3 sample_follower"
  have same: "same_log sample_follower (fst ?r)" by (simp add: same_log_def frame_simps)
  have "adopt_snapshot_term 3 sample_follower = (fst ?r, snd ?r)" by (simp add: adopt_snapshot_term_def sample_follower_def)
  moreover have "config (fst ?r) = sample_config" "incoming_snapshot (volatile (fst ?r)) = None"
    by (simp_all add: frame_simps) (simp_all add: sample_follower_def at_dispatched_index_def)
  moreover have "snapshot_covered_through (fst ?r) = 2"
    using same_log_snapshot_index [OF same] by (simp add: snapshot_covered_through_def frame_simps) (simp add: sample_follower_def at_dispatched_index_def)
  moreover have "effective_membership (fst ?r) = static_membership sample_config" using same_log_membership [OF same] by simp
  ultimately show thesis by (rule that)
qed

lemma sample_chunk_pending:
  "pending_snapshot_transfer (fst (step_batch [MessageInput 2 (InstallSnapshotChunkMsg sample_chunk)] sample_follower)) =
     Some (chunk_transfer (chunk_of 2 sample_chunk))"
proof -
  obtain m xs where m: "adopt_snapshot_term 3 sample_follower = (m, xs)" "config m = sample_config" "incoming_snapshot (volatile m) = None"
    "snapshot_covered_through m = 2" "effective_membership m = static_membership sample_config" by (rule sample_chunk_adopted)
  have cur: "\<not> 3 < Node_current_term sample_follower" by (simp add: sample_follower_def)
  have r: "isc_term sample_chunk = 3" "isc_metadata sample_chunk = sample_incoming" "isc_offset sample_chunk = 0" "isc_done sample_chunk = False"
    "isc_leader_id sample_chunk = 2" "last_included_index sample_incoming = 6"
    by (simp_all add: sample_chunk_def sample_incoming_def)
  have "validate_snapshot_transfer_header m 2 sample_incoming 3 = Inr ()"
    using m(2,5) by (simp add: validate_snapshot_transfer_header_def valid_snapshot_metadata_def valid_snapshot_author_def
        valid_snapshot_transfer_leader_def meta_committed_membership_def sample_incoming_def sample_membership contains_replica_def)
  moreover have "isc_transfer_id sample_chunk = snapshot_transfer_id_from_parts sample_incoming 4 (crc32 [1, 2, 3, 4])"
    by (simp add: sample_chunk_def RaftSnapshot_transfer_id_def RaftSnapshot_from_payload_def numeral_eq_Suc)
  ultimately have v: "validate_install_snapshot_chunk_header m 2 sample_chunk = Inr ()"
    by (simp add: validate_install_snapshot_chunk_header_def r validate_snapshot_chunk_shape_def checked_add_def)
      (simp add: sample_chunk_def u64_max_def)
  let ?m = "record_accepted_snapshot_leader 2 m"
  let ?t = "IncomingSnapshotTransfer_new 2 (isc_transfer_id sample_chunk) sample_incoming (isc_total_payload_len sample_chunk) (isc_application_payload_crc32 sample_chunk)"
  have "snapshot_covered_through ?m = 2" using covered_soft [OF soft_record_leader [of m 2]] m(4) by simp
  then have c: "classify_snapshot_chunk 2 sample_chunk ?m = (map_volatile (\<lambda>v. v\<lparr>incoming_snapshot := Some ?t\<rparr>) ?m, Inr (AcceptChunk 0))"
    using m(3) by (simp add: classify_snapshot_chunk_def r prepare_incoming_snapshot_transfer_def replace_or_reject_snapshot_transfer_def
        IncomingSnapshotTransfer_new_def Let_def)
  have "pending_snapshot_transfer (fst (handle_install_snapshot_chunk 2 sample_chunk sample_follower)) = Some (chunk_transfer (chunk_of 2 sample_chunk))"
    unfolding handle_install_snapshot_chunk_def Let_def r m(1) prod.case v sum.case c dispose_snapshot_chunk_def ChunkDisposition.case
      accept_current_snapshot_chunk_def if_not_P [OF cur]
    by (simp add: pending_snapshot_transfer_def IncomingSnapshotTransfer_new_def ist_to_pending_def pending_transfer_after_chunk_def r)
  then show ?thesis by (simp add: step_batch_def receive_def r)
qed

theorem snapshot_staging_complete_witness:
  "\<exists>s' staged. store_outputs (snd (run_steps step_batch [[MessageInput 2 (InstallSnapshotChunkMsg sample_chunk)]] sample_follower))
      InMemoryRaftSnapshotStore_new = (s', Inr ()) \<and> ss_pending s' = Some staged \<and> st_bytes staged = [1, 2]"
proof -
  let ?batches = "[[MessageInput 2 (InstallSnapshotChunkMsg sample_chunk)]]"
  let ?payload = "\<lambda>_. [1, 2, 3, 4 :: byte]"
  have "in_step ?payload sample_follower InMemoryRaftSnapshotStore_new"
    by (simp add: in_step_def InMemoryRaftSnapshotStore_new_def current_snapshot_def pending_snapshot_transfer_def)
      (simp add: sample_follower_def at_dispatched_index_def)
  moreover have "genuine ?payload (MessageInput 2 (InstallSnapshotChunkMsg sample_chunk))"
    by (simp add: genuine_def genuine_chunk_def) (simp add: sample_chunk_def sample_incoming_def metadata_wf_def u64_max_def)
  moreover have "fst (run_steps step_batch ?batches sample_follower) = fst (step_batch (hd ?batches) sample_follower)"
    by (simp add: case_prod_unfold)
  ultimately have "\<exists>s'. store_outputs (snd (run_steps step_batch ?batches sample_follower)) InMemoryRaftSnapshotStore_new = (s', Inr ()) \<and>
      (\<exists>staged. ss_pending s' = Some staged \<and> st_bytes staged = take 2 [1, 2, 3, 4])"
    using snapshot_staging_complete [OF sample_follower_inv _ _ surjective_pairing, of ?payload InMemoryRaftSnapshotStore_new ?batches]
      sample_chunk_pending
    by (auto simp: pending_transfer_after_chunk_def) (auto simp: sample_chunk_def)
  then show ?thesis by auto
qed

end
