(* ===== verification/Restart.thy ===== *)
theory Restart
  imports Snapshot_Staging Bootstrap
begin

text \<open>
  A node that started can start again. What the validation of a durable state asks for is an invariant of the
  node: it holds of a node that was accepted, and every input keeps it, as long as messages are those an
  honest peer sends. Positions and terms grow by what messages name and by one per input, so that runs whose
  messages stay below a bound keep every index within its machine word.
\<close>

section \<open>The node a restart rebuilds\<close>

text \<open>The node whose recorded configuration is the one its hard state carries.\<close>

definition as_stored :: "Node \<Rightarrow> Node" where
  "as_stored n = map_persistent (\<lambda>p. p\<lparr>committed_configuration := committed_configuration_state n\<rparr>) n"

lemma as_stored_simps [simp]:
  "config (as_stored n) = config n" "Node_current_term (as_stored n) = Node_current_term n" "Node_voted_for (as_stored n) = Node_voted_for n"
  "Node_snapshot (as_stored n) = Node_snapshot n" "Node_log (as_stored n) = Node_log n" "volatile (as_stored n) = volatile n"
  "derived (as_stored n) = derived n" "committed_configuration (persistent (as_stored n)) = committed_configuration_state n"
  by (simp_all add: as_stored_def)

lemma as_stored_same_log: "same_log n (as_stored n)"
  by (simp add: same_log_def)

lemma as_stored_views:
  "snapshot_index (as_stored n) = snapshot_index n" "last_log_index (as_stored n) = last_log_index n" "entry_at (as_stored n) = entry_at n"
  "snapshot_committed_configuration_state (as_stored n) = snapshot_committed_configuration_state n"
  "snapshot_committed_membership (as_stored n) = snapshot_committed_membership n"
  by (simp_all add: snapshot_index_def last_log_index_def entry_at_get snapshot_committed_configuration_state_def
      snapshot_committed_membership_def fun_eq_iff)

lemma retained_state_entry:
  assumes "derived_ok n" "ci_committed_state_at (derived n) (LogIndex_next (snapshot_index n)) (Node_log n) commit = Some c"
  shows "snapshot_index n < cc_index c \<and>
    (\<exists>e. entry_at n (cc_index c) = Some e \<and> (\<exists>d. configuration_entry (entry_kind e) = Some d \<and> config_id d = cc_config_id c))"
proof -
  obtain i d where "newest_configuration (Suc (snapshot_index n)) (Node_log n) commit = Some i" "configuration_entry_at (Node_log n) i = Some d"
    "c = \<lparr>cc_index = Suc (snapshot_index n) + i, cc_config_id = config_id d\<rparr>"
    using assms by (auto simp: derived_ok_def ci_committed_state_at_newest bind_eq_Some_conv)
  then show ?thesis by (auto simp: configuration_entry_at_Some entry_at_get get_def)
qed

lemma configuration_recorded_stored:
  assumes "configuration_recorded n" "derived_ok n"
  shows "configuration_recorded (as_stored n)"
proof -
  have "cc_index c \<le> Node_commit_index n \<and>
      (if snapshot_index n < cc_index c
       then \<exists>e. entry_at n (cc_index c) = Some e \<and> (\<exists>d. configuration_entry (entry_kind e) = Some d \<and> config_id d = cc_config_id c)
       else snapshot_committed_membership n \<noteq> None \<and>
         (\<forall>d. snapshot_committed_configuration_state n = Some d \<longrightarrow>
            cc_index c \<le> cc_index d \<and> (cc_index c = cc_index d \<longrightarrow> cc_config_id c = cc_config_id d)))"
    if "committed_configuration_state n = Some c" for c
  proof -
    let ?retained = "ci_committed_state_at (derived n) (LogIndex_next (snapshot_index n)) (Node_log n) (Node_commit_index n)"
    have "c \<in> set (filter (\<lambda>state. cc_index state \<le> Node_commit_index n) (List.map_filter (\<lambda>x. x)
        [?retained, committed_configuration (persistent n), snapshot_committed_configuration_state n]))"
      using that unfolding committed_configuration_state_def committed_configuration_state_at_def Let_def by (rule max_by_key_in)
    then have le: "cc_index c \<le> Node_commit_index n"
      and "ci_committed_state_at (derived n) (LogIndex_next (snapshot_index n)) (Node_log n) (Node_commit_index n) = Some c \<or>
        committed_configuration (persistent n) = Some c \<or> snapshot_committed_configuration_state n = Some c"
      by (auto simp: List.map_filter_simps split: option.splits)
    then consider (retained) "ci_committed_state_at (derived n) (LogIndex_next (snapshot_index n)) (Node_log n) (Node_commit_index n) = Some c"
      | (recorded) "committed_configuration (persistent n) = Some c" | (captured) "snapshot_committed_configuration_state n = Some c" by auto
    then show ?thesis
    proof cases
      case retained
      then show ?thesis using retained_state_entry [OF assms(2)] le by auto
    next
      case recorded
      then show ?thesis using assms(1) unfolding configuration_recorded_def by blast
    next
      case captured
      then have "cc_index c \<le> snapshot_index n" using assms(1) by (simp add: configuration_recorded_def)
      with captured le show ?thesis
        by (auto simp: snapshot_committed_configuration_state_def snapshot_committed_membership_def meta_committed_configuration_state_def
            meta_committed_membership_def bind_eq_Some_conv)
    qed
  qed
  moreover have "\<forall>c. snapshot_committed_configuration_state n = Some c \<longrightarrow> cc_index c \<le> snapshot_index n"
    using assms(1) unfolding configuration_recorded_def by blast
  ultimately show ?thesis unfolding configuration_recorded_def as_stored_views as_stored_simps by blast
qed

lemma recoverable_stored: "recoverable n \<Longrightarrow> derived_ok n \<Longrightarrow> recoverable (as_stored n)"
  using configuration_recorded_stored by (simp add: recoverable_def as_stored_views)

lemma node_inv_stored: "node_inv n \<Longrightarrow> node_inv (as_stored n)"
  by (rule node_inv_same_log [OF _ as_stored_same_log]) (simp_all add: node_inv_def)

lemma node_inv_redispatched:
  assumes "node_inv n" "same_log n n'" "Node_commit_index n' = Node_commit_index n"
    "snapshot_index n \<le> Node_dispatched_index n'" "Node_dispatched_index n' \<le> Node_commit_index n" "tracker_wf (local_proposals (volatile n'))"
  shows "node_inv n'"
  using assms
  by (simp add: node_inv_def geometry_ok_def same_log_snapshot_index same_log_last derived_ok_def membership_sources_wf_def)
    (simp add: same_log_def)

text \<open>What of a node survives a restart, as a follower of nobody with its applied index.\<close>

definition restarted :: "LogIndex \<Rightarrow> Node \<Rightarrow> Node \<Rightarrow> bool" where
  "restarted applied n m \<longleftrightarrow> node_inv m \<and> Node_role m = Follower \<and> config m = config n \<and>
     Node_current_term m = Node_current_term n \<and> Node_voted_for m = Node_voted_for n \<and> Node_snapshot m = Node_snapshot n \<and>
     Node_log m = Node_log n \<and> Node_commit_index m = Node_commit_index n \<and>
     Node_dispatched_index m = max (snapshot_index n) applied \<and> effective_membership m = effective_membership n"

lemma bootstrap_restarts:
  assumes "node_inv n" "recoverable n" "applied \<le> Node_commit_index n"
  shows "\<exists>m. from_bootstrap_applied_through (config n)
      \<lparr>bs_current_term = Node_current_term n, bs_voted_for = Node_voted_for n, bs_commit_index = Node_commit_index n,
       bs_committed_configuration = committed_configuration_state n, bs_snapshot = Node_snapshot n,
       bs_log = durable_log (Suc (snapshot_index n)) (Node_log n)\<rparr> applied = Inr m \<and> restarted applied n m"
proof -
  let ?s = "as_stored n"
  have "derived_ok n" using assms(1) by (simp add: node_inv_def)
  from from_bootstrap_durable [OF node_inv_stored [OF assms(1)] recoverable_stored [OF assms(2) this]]
  obtain cc where m: "from_bootstrap (config n) (durable ?s) = Inr \<lparr>config = config n,
      persistent = (persistent ?s)\<lparr>committed_configuration := cc\<rparr>,
      volatile = (at_dispatched_index (snapshot_index n))\<lparr>commit_index := Node_commit_index n\<rparr>,
      election = ElectionState_default, leader = LeaderState_default, derived = derived n\<rparr>" (is "_ = Inr ?m")
    by (auto simp: as_stored_views)
  let ?n = "map_volatile (\<lambda>v. v\<lparr>dispatched_index := max (dispatched_index v) applied\<rparr>) ?m"
  have g: "snapshot_index n \<le> Node_commit_index n" "Node_commit_index n \<le> last_log_index n"
    using assms(1) by (auto simp: node_inv_def geometry_ok_def)
  have same: "same_log n ?m" "same_log n ?n" by (simp_all add: same_log_def as_stored_def)
  have "durable ?s = \<lparr>bs_current_term = Node_current_term n, bs_voted_for = Node_voted_for n, bs_commit_index = Node_commit_index n,
       bs_committed_configuration = committed_configuration_state n, bs_snapshot = Node_snapshot n,
       bs_log = durable_log (Suc (snapshot_index n)) (Node_log n)\<rparr>" by (simp add: durable_def as_stored_views)
  moreover have "from_bootstrap_applied_through (config n) (durable ?s) applied = Inr ?n"
    using m assms(3) g same_log_last [OF same(1)] by (simp add: from_bootstrap_applied_through_def)
  moreover have "Node_dispatched_index ?n = max (snapshot_index n) applied" by (simp add: at_dispatched_index_def)
  then have "node_inv ?n" by (intro node_inv_redispatched [OF assms(1) same(2)]) (use g assms(3) in \<open>simp_all add: at_dispatched_index_def\<close>)
  ultimately show ?thesis
    using same_log_membership [OF same(2)]
    by (intro exI [of _ ?n]) (simp add: restarted_def at_dispatched_index_def as_stored_def)
qed


section \<open>Sound nodes\<close>

definition sound_snapshot :: "Node \<Rightarrow> bool" where
  "sound_snapshot n \<longleftrightarrow> (\<forall>s. Node_snapshot n = Some s \<longrightarrow>
     hard_state_term (metadata s) \<le> Node_current_term n \<and> snapshot_writer_is_replica (metadata s) (config n))"

text \<open>A transfer in progress is one a restart can resume, up to the authority of its sender.\<close>

definition sound_transfer :: "Node \<Rightarrow> bool" where
  "sound_transfer n \<longleftrightarrow> (\<forall>t. pending_snapshot_transfer n = Some t \<longrightarrow>
     pst_received_len t < pst_total_payload_len t \<and> pst_transfer_id t = RaftSnapshot_transfer_id (pending_descriptor t) \<and>
     hard_state_term (pst_metadata t) \<le> Node_current_term n \<and> snapshot_writer_is_replica (pst_metadata t) (config n) \<and>
     snapshot_index n < last_included_index (pst_metadata t))"

definition sound :: "Node \<Rightarrow> bool" where
  "sound n \<longleftrightarrow> sound_terms n \<and> sound_snapshot n \<and> configuration_recorded n \<and> sound_transfer n"

lemma sound_recoverable: "sound n \<Longrightarrow> last_log_index n < u64_max \<Longrightarrow> recoverable n"
  by (auto simp: sound_def sound_terms_def sound_snapshot_def recoverable_def)

lemma author_replica: "valid_snapshot_author n m = snapshot_writer_is_replica m (config n)"
  by (simp add: valid_snapshot_author_def snapshot_writer_is_replica_def)

lemma configuration_recorded_evolves:
  assumes "configuration_recorded n" "evolves n n'" "Node_snapshot n' = Node_snapshot n"
    "committed_configuration (persistent n') = committed_configuration (persistent n)"
  shows "configuration_recorded n'"
proof -
  have same: "snapshot_index n' = snapshot_index n" "snapshot_committed_configuration_state n' = snapshot_committed_configuration_state n"
    "snapshot_committed_membership n' = snapshot_committed_membership n"
    using assms(3) by (simp_all add: snapshot_index_def snapshot_committed_configuration_state_def snapshot_committed_membership_def)
  have e: "entry_at n' i = entry_at n i" if "snapshot_index n < i" "i \<le> Node_commit_index n" for i
    using assms(2) same(1) that by (simp add: evolves_def)
  have commit: "Node_commit_index n \<le> Node_commit_index n'" using assms(2) by (simp add: evolves_def)
  have old: "cc_index c \<le> Node_commit_index n" "snapshot_index n < cc_index c \<Longrightarrow>
      \<exists>e. entry_at n (cc_index c) = Some e \<and> (\<exists>d. configuration_entry (entry_kind e) = Some d \<and> config_id d = cc_config_id c)"
    "\<not> snapshot_index n < cc_index c \<Longrightarrow> snapshot_committed_membership n \<noteq> None \<and>
      (\<forall>d. snapshot_committed_configuration_state n = Some d \<longrightarrow> cc_index c \<le> cc_index d \<and> (cc_index c = cc_index d \<longrightarrow> cc_config_id c = cc_config_id d))"
    if "committed_configuration (persistent n) = Some c" for c
    using assms(1) that unfolding configuration_recorded_def by (blast, metis, metis)
  show ?thesis
    unfolding configuration_recorded_def same assms(4)
  proof (intro conjI allI impI)
    show "cc_index c \<le> snapshot_index n" if "snapshot_committed_configuration_state n = Some c" for c
      using assms(1) that by (simp add: configuration_recorded_def)
    fix c assume c: "committed_configuration (persistent n) = Some c"
    show "cc_index c \<le> Node_commit_index n'" using old(1) [OF c] commit by simp
    show "if snapshot_index n < cc_index c
        then \<exists>e. entry_at n' (cc_index c) = Some e \<and> (\<exists>d. configuration_entry (entry_kind e) = Some d \<and> config_id d = cc_config_id c)
        else snapshot_committed_membership n \<noteq> None \<and>
          (\<forall>d. snapshot_committed_configuration_state n = Some d \<longrightarrow>
             cc_index c \<le> cc_index d \<and> (cc_index c = cc_index d \<longrightarrow> cc_config_id c = cc_config_id d))"
      using old(2,3) [OF c] e [OF _ old(1) [OF c]] by presburger
  qed
qed

lemma sound_steady:
  assumes "sound n" "steady True B T i t n (n', outs)" "evolves n n'"
  shows "sound n'"
proof -
  have s: "sound_terms n'" "Node_snapshot n' = Node_snapshot n" "committed_configuration (persistent n') = committed_configuration (persistent n)"
    "incoming_snapshot (volatile n') \<in> {incoming_snapshot (volatile n), None}" "Node_current_term n \<le> Node_current_term n'"
    using assms(1,2) by (auto simp: steady_def grown_def sound_def)
  have "config n' = config n" "snapshot_index n' = snapshot_index n" using assms(3) s(2) by (simp_all add: evolves_def snapshot_index_def)
  then have "sound_snapshot n'" "sound_transfer n'"
    using assms(1) s by (fastforce simp: sound_def sound_snapshot_def sound_transfer_def pending_snapshot_transfer_def)+
  with s configuration_recorded_evolves [OF _ assms(3)] assms(1) show ?thesis by (simp add: sound_def)
qed

lemma sound_staged:
  assumes "sound n" "chunk_staged c True B T n (n', outs)" "evolves n n'"
  shows "sound n'"
proof -
  obtain m xs where m: "steady True B T 0 0 n (m, xs)" "chunk_accepted c n m" "\<not> ssc_done c" "soft m n'"
    "pending_snapshot_transfer n' = Some (chunk_transfer c)"
    using assms(2) by (auto simp: chunk_staged_def)
  have n': "persistent n' = persistent m" "Node_role n' = Node_role m" "config n' = config m" "config n' = config n"
    using m(4) assms(3) by (simp_all add: soft_def evolves_def)
  have s: "sound_terms m" "Node_snapshot m = Node_snapshot n" "committed_configuration (persistent m) = committed_configuration (persistent n)"
    "Node_current_term n \<le> Node_current_term m"
    using assms(1) m(1) by (auto simp: steady_def grown_def sound_def)
  have "sound_terms n'" using s(1) n' by (simp add: sound_terms_def)
  moreover have "sound_snapshot n'" using assms(1) s n' by (fastforce simp: sound_def sound_snapshot_def)
  moreover have "configuration_recorded n'"
    by (rule configuration_recorded_evolves [OF _ assms(3)]) (use assms(1) s n' in \<open>simp_all add: sound_def\<close>)
  moreover have "snapshot_index n' = snapshot_index m" using n'(1) by (simp add: snapshot_index_def)
  then have "sound_transfer n'"
    using m(2,3,5) n' author_replica [of m "ssc_metadata c"]
    by (auto simp: sound_transfer_def chunk_accepted_def pending_transfer_after_chunk_def pending_descriptor_def chunk_descriptor_def
        snapshot_covered_through_def)
  ultimately show ?thesis by (simp add: sound_def)
qed

lemma sound_installed:
  assumes "sound n" "chunk_installed c True B T n (n', outs)" "evolves n n'" "honest_metadata (ssc_metadata c)"
  shows "sound n'"
proof -
  let ?snap = "chunk_descriptor c" and ?cc = "meta_committed_configuration_state (ssc_metadata c)"
  obtain m xs where m: "steady True B T 0 0 n (m, xs)" "chunk_accepted c n m" "incoming_snapshot (volatile m) = None"
    "n' = fst (install_snapshot_state ?snap m)"
    using assms(2) by (auto simp: chunk_installed_def)
  obtain lp where n': "n' = m\<lparr>persistent := (persistent m)\<lparr>snapshot := Some ?snap, committed_configuration := ?cc, log := retained_suffix ?snap m\<rparr>,
     derived := ci_from_log (retained_suffix ?snap m),
     volatile := (volatile m)\<lparr>local_proposals := lp, commit_index := max (Node_commit_index m) (last_included_index (ssc_metadata c)),
       dispatched_index := max (Node_dispatched_index m) (last_included_index (ssc_metadata c))\<rparr>\<rparr>"
    using install_snapshot_state_with_eq [of ?snap ?cc m] m(4) by (auto simp: install_snapshot_state_def chunk_descriptor_def)
  have "sound_terms m" using assms(1) m(1) by (simp add: steady_def sound_def)
  moreover have "Node_current_term n' = Node_current_term m" "Node_voted_for n' = Node_voted_for m" "Node_role n' = Node_role m"
    "Node_log n' = retained_suffix ?snap m" "Node_snapshot n' = Some ?snap" "committed_configuration (persistent n') = ?cc"
    "incoming_snapshot (volatile n') = None" "config n' = config m" "last_included_index (ssc_metadata c) \<le> Node_commit_index n'"
    using m(3) by (simp_all add: n')
  note fields = this
  ultimately have "sound_terms n'" using set_retained_suffix [of ?snap m] by (auto simp: sound_terms_def)
  moreover have meta: "metadata ?snap = ssc_metadata c" by (simp add: chunk_descriptor_def)
  then have "sound_snapshot n'"
    using m(2) fields author_replica [of m "ssc_metadata c"] by (simp add: sound_snapshot_def chunk_accepted_def)
  moreover have "configuration_recorded n'"
  proof -
    have "snapshot_index n' = last_included_index (ssc_metadata c)" "snapshot_committed_configuration_state n' = ?cc"
      using fields(5) meta by (simp_all add: snapshot_index_def snapshot_committed_configuration_state_def)
    moreover have "snapshot_committed_membership n' \<noteq> None" if "?cc = Some d" for d
      using fields(5) meta that by (auto simp: snapshot_committed_membership_def meta_committed_membership_def meta_committed_configuration_state_def
          bind_eq_Some_conv)
    ultimately show ?thesis
      using assms(4) fields(6,9) unfolding configuration_recorded_def honest_metadata_def by (auto intro: order_trans)
  qed
  moreover have "sound_transfer n'" using fields(7) by (simp add: sound_transfer_def pending_snapshot_transfer_def)
  ultimately show ?thesis by (simp add: sound_def)
qed

section \<open>How far a step moves a node\<close>

lemma grown_soft: "soft m n' \<Longrightarrow> grown B T i t n m \<Longrightarrow> grown B T i t n n'"
  using same_log_last [OF soft_same_log, of m n'] by (simp add: grown_def soft_def)

lemma grown_installed:
  assumes "chunk_installed c H B T n (n', outs)" "last_included_index (ssc_metadata c) \<le> B"
  shows "grown B T 0 0 n n'"
proof -
  let ?snap = "chunk_descriptor c" and ?b = "last_included_index (ssc_metadata c)"
  obtain m xs where m: "steady H B T 0 0 n (m, xs)" "n' = fst (install_snapshot_state ?snap m)" "snapshot_covered_through m < ?b"
    using assms(1) by (auto simp: chunk_installed_def chunk_accepted_def)
  have "Node_snapshot n' = Some ?snap" "Node_log n' = retained_suffix ?snap m" "Node_current_term n' = Node_current_term m"
    using install_snapshot_state_with_eq [of ?snap "meta_committed_configuration_state (metadata ?snap)" m] m(2)
    by (auto simp: install_snapshot_state_def)
  then have "last_log_index n' = ?b + length (retained_suffix ?snap m)"
    by (simp add: last_log_index_def snapshot_index_def chunk_descriptor_def)
  moreover have "length (retained_suffix ?snap m) \<le> last_log_index m - ?b"
  proof (cases "term_at m (last_included_index (metadata ?snap)) = Some (last_included_term (metadata ?snap))")
    case True
    from retained_suffix_length [OF this] show ?thesis by (simp add: chunk_descriptor_def)
  qed (simp add: retained_suffix_def)
  ultimately have "last_log_index n' \<le> max (last_log_index m) ?b" by auto
  with m(1) assms(2) \<open>Node_current_term n' = Node_current_term m\<close> show ?thesis
    by (auto simp: steady_def grown_def)
qed

text \<open>The transfer a store is in after it followed the outputs.\<close>

fun staged_after :: "Output list \<Rightarrow> PendingSnapshotTransfer option \<Rightarrow> PendingSnapshotTransfer option" where
  "staged_after [] t = t"
| "staged_after (StageSnapshotChunk c # xs) t = staged_after xs (Some (chunk_transfer c))"
| "staged_after (ApplySnapshot snap # xs) t = staged_after xs None"
| "staged_after (x # xs) t = staged_after xs t"

lemma staged_after_append: "staged_after (xs @ ys) t = staged_after ys (staged_after xs t)"
  by (induction xs t rule: staged_after.induct) simp_all

lemma staged_after_quiet: "no_snapshot xs \<Longrightarrow> staged_after xs t = t"
  by (induction xs t rule: staged_after.induct) (simp_all add: no_snapshot_def)

lemma staged_after_snapshot: "\<not> no_snapshot xs \<Longrightarrow> staged_after xs t = staged_after xs t'"
  by (induction xs t arbitrary: t' rule: staged_after.induct) (auto simp: no_snapshot_def)

definition tracked :: "Node \<Rightarrow> Node \<times> Output list \<Rightarrow> bool" where
  "tracked n r \<longleftrightarrow> pending_snapshot_transfer (fst r) \<in> {None, staged_after (snd r) (pending_snapshot_transfer n)}"

lemma tracked_trans:
  assumes "tracked a (b, xs)" "tracked b (c, ys)"
  shows "tracked a (c, xs @ ys)"
proof (cases "no_snapshot ys")
  case True
  with assms show ?thesis by (auto simp: tracked_def staged_after_append staged_after_quiet)
next
  case False
  with assms(2) staged_after_snapshot [OF False] show ?thesis by (auto simp: tracked_def staged_after_append)
qed

lemma tracked_steady: "steady H B T i t n r \<Longrightarrow> tracked n r"
  by (auto simp: steady_def tracked_def staged_after_quiet pending_snapshot_transfer_def)

lemma tracked_staged: "chunk_staged c H B T n r \<Longrightarrow> tracked n r"
proof -
  assume "chunk_staged c H B T n r"
  then obtain xs y where "pending_snapshot_transfer (fst r) = Some (chunk_transfer c)" "snd r = xs @ [StageSnapshotChunk c, y]" "\<not> snapshot_output y"
    by (auto simp: chunk_staged_def)
  then show "tracked n r" by (cases y) (simp_all add: tracked_def staged_after_append)
qed

lemma tracked_installed: "chunk_installed c H B T n r \<Longrightarrow> tracked n r"
  using install_snapshot_state_frame by (fastforce simp: chunk_installed_def tracked_def pending_snapshot_transfer_def)

section \<open>Runs\<close>

definition admitted :: "bool \<Rightarrow> LogIndex \<Rightarrow> Term \<Rightarrow> Input \<Rightarrow> bool" where
  "admitted H B T inp \<longleftrightarrow> input_wf inp \<and> input_bounded B T inp \<and> (H \<longrightarrow> honest_input inp)"

definition startable :: "bool \<Rightarrow> Node \<Rightarrow> bool" where
  "startable H n \<longleftrightarrow> node_inv n \<and> (H \<longrightarrow> sound n)"

definition moves :: "bool \<Rightarrow> LogIndex \<Rightarrow> Term \<Rightarrow> nat \<Rightarrow> Node \<Rightarrow> Node \<times> Output list \<Rightarrow> bool" where
  "moves H B T k n r \<longleftrightarrow> good n (fst r) \<and> startable H (fst r) \<and> grown B T k k n (fst r) \<and> tracked n r"

lemma moves_steady:
  assumes "startable H n" "good_step n r" "steady H B T i t n r" "i \<le> k" "t \<le> k"
  shows "moves H B T k n r"
proof -
  obtain n' outs where r: "r = (n', outs)" by fastforce
  have "good n n'" "node_inv n'" "evolves n n'" using assms(2) r by (simp_all add: good_step_def good_def)
  moreover have "grown B T k k n n'" using assms(3-5) r grown_mono by (auto simp: steady_def)
  moreover have "sound n'" if H using sound_steady [of n B T i t n' outs] assms(1,3) r that \<open>evolves n n'\<close> by (simp add: startable_def)
  ultimately show ?thesis using tracked_steady [OF assms(3)] by (simp add: moves_def startable_def r)
qed

lemma brought_facts:
  assumes "brought_chunk inp = Some c" "admitted H B T inp"
  shows "last_included_index (ssc_metadata c) \<le> B" "H \<Longrightarrow> honest_metadata (ssc_metadata c)"
  using assms by (cases inp rule: brought_chunk.cases; auto simp: admitted_def RaftSnapshot_from_payload_def)+

lemma moves_step:
  assumes "admitted H B T inp" "startable H n"
  shows "moves H B T 1 n (step inp n)"
proof -
  obtain n' outs where s: "step inp n = (n', outs)" by fastforce
  have a: "node_inv n" "input_wf inp" "input_bounded B T inp" "H \<longrightarrow> honest_input inp" "H \<Longrightarrow> sound n"
    using assms by (simp_all add: admitted_def startable_def)
  have g: "good_step n (step inp n)" using good_step_step [OF a(1,2)] .
  then have ev: "good n n'" "evolves n n'" "node_inv n'" using s by (simp_all add: good_step_def good_def)
  show ?thesis
  proof (rule step_outcome [OF a(1-4)])
    assume "steady H B T 1 1 n (step inp n)"
    with assms(2) g show ?thesis by (rule moves_steady) simp_all
  next
    fix c assume c: "chunk_staged c H B T n (step inp n)"
    then obtain m xs where "steady H B T 0 0 n (m, xs)" "soft m n'" using s by (auto simp: chunk_staged_def)
    then have "grown B T 0 0 n n'" using grown_soft by (auto simp: steady_def)
    then have "grown B T 1 1 n n'" by (rule grown_mono) simp_all
    moreover have "sound n'" if H using sound_staged [of n c B T n' outs] a(5) c s that ev(2) by simp
    ultimately show ?thesis using ev tracked_staged [OF c] s by (simp add: moves_def startable_def)
  next
    fix c assume b: "brought_chunk inp = Some c" and c: "chunk_installed c H B T n (step inp n)"
    have "grown B T 0 0 n n'" using grown_installed [of c H B T n n' outs] c s brought_facts(1) [OF b assms(1)] by simp
    then have "grown B T 1 1 n n'" by (rule grown_mono) simp_all
    moreover have "sound n'" if H using sound_installed [of n c B T n' outs] a(5) c s that ev(2) brought_facts(2) [OF b assms(1)] by simp
    ultimately show ?thesis using ev tracked_installed [OF c] s by (simp add: moves_def startable_def)
  qed
qed

lemma moves_trans:
  assumes "moves H B T j a (b, xs)" "moves H B T k b (c, ys)"
  shows "moves H B T (j + k) a (c, xs @ ys)"
proof -
  have "good a c" using assms good_trans by (auto simp: moves_def)
  moreover have "grown B T (j + k) (j + k) a c" using assms grown_trans [of B T j j a b k k c] by (simp add: moves_def)
  moreover have "tracked a (c, xs @ ys)" using assms tracked_trans [of a b xs c ys] by (simp add: moves_def)
  ultimately show ?thesis using assms(2) by (simp add: moves_def)
qed

interpretation moving: batch_contract "admitted H B T" "startable H" "moves H B T" for H B T
proof unfold_locales
  show "moves H B T 1 n (step inp n)" if "admitted H B T inp" "startable H n" for inp n using that by (rule moves_step)
  show "moves H B T (length ps) n (step_proposal_batch ps n)" if "startable H n" for n ps
    by (rule moves_steady [OF that _ steady_step_proposal_batch]) (use that in \<open>simp_all add: startable_def good_step_step_proposal_batch\<close>)
  show "moves H B T (length rs) n (read_index_batch rs n)" if "startable H n" for n rs
    by (rule moves_steady [OF that _ steady_read_index_batch [where i = 0 and t = 0]])
      (use that in \<open>simp_all add: startable_def good_step_read_index_batch\<close>)
  show "startable H n'" if "moves H B T k n (n', outs)" for k n n' outs using that by (simp add: moves_def)
  show "moves H B T 0 n (n, [])" if "startable H n" for n
    using that by (simp add: moves_def tracked_def good_refl) (simp add: startable_def good_refl)
  show "moves H B T (j + k) a (c, xs @ ys)" if "moves H B T j a (b, xs)" "moves H B T k b (c, ys)" for j k a b c xs ys
    using that by (rule moves_trans)
qed

section \<open>A node that was accepted\<close>

lemma retained_configuration_entry:
  assumes "retained_configuration si lg commit = Some c"
  shows "si < cc_index c \<and> cc_index c \<le> commit \<and>
    (\<exists>e. get lg (cc_index c - Suc si) = Some e \<and> (\<exists>d. configuration_entry (entry_kind e) = Some d \<and> config_id d = cc_config_id c))"
proof -
  have "find_map f xs = Some c \<Longrightarrow> \<exists>x\<in>set xs. f x = Some c" for f and xs :: "(nat \<times> LogEntry) list"
    by (induction xs) (auto split: option.splits)
  with assms obtain i e where "(i, e) \<in> set (enumerate 0 lg)" "si + i + 1 \<le> commit"
    "map_option (\<lambda>d. \<lparr>cc_index = si + i + 1, cc_config_id = config_id d\<rparr>) (configuration_entry (entry_kind e)) = Some c"
    unfolding retained_configuration_def by (fastforce simp: Let_def split: if_splits)
  then show ?thesis by (auto simp: in_set_enumerate_eq get_def)
qed

lemma recover_configuration_cases:
  assumes "recover_configuration stored snap lg commit = Inr (Some c)"
  obtains (stored) "stored = Some c" "stored_configuration_ok c snap lg commit = Inr ()"
  | (captured) "Option.bind snap meta_committed_configuration_state = Some c"
  | (retained) "retained_configuration (meta_index snap) lg commit = Some c"
proof -
  have "max_by_key cc_index (List.map_filter (\<lambda>x. x) [stored, Option.bind snap meta_committed_configuration_state,
      retained_configuration (meta_index snap) lg commit]) = Some c"
    and "stored = Some c \<Longrightarrow> stored_configuration_ok c snap lg commit = Inr ()"
    using assms by (auto simp: recover_configuration_def Let_def split: sum.splits)
  then show thesis using that max_by_key_in by (fastforce simp: List.map_filter_simps split: option.splits)
qed

lemma from_bootstrap_fields:
  assumes "from_bootstrap c b = Inr n"
  defines "snap \<equiv> map_option metadata (bs_snapshot b)"
  shows "recover_configuration (bs_committed_configuration b) snap (Node_log n) (Node_commit_index n) = Inr (committed_configuration (persistent n))"
    "validate_vote b = Inr ()" "validate_snapshot b c = Inr ()" "snapshot_index n = meta_index snap" "meta_index snap \<le> Node_commit_index n"
    "incoming_snapshot (volatile n) = None"
  using assms by (auto simp: from_bootstrap_def into_parts_def Let_def meta_index_def snapshot_index_def at_dispatched_index_def
      split: sum.splits option.splits)

lemma from_bootstrap_configuration:
  assumes "from_bootstrap c b = Inr n" "Node_snapshot n = bs_snapshot b"
  shows "configuration_recorded n"
proof -
  let ?snap = "map_option metadata (bs_snapshot b)"
  note f = from_bootstrap_fields [OF assms(1)]
  have views: "snapshot_committed_configuration_state n = Option.bind ?snap meta_committed_configuration_state"
    "snapshot_committed_membership n = Option.bind ?snap meta_committed_membership"
    using assms(2) by (cases "bs_snapshot b"; simp add: snapshot_committed_configuration_state_def snapshot_committed_membership_def)+
  have captured: "cc_index s \<le> snapshot_index n" if "snapshot_committed_configuration_state n = Some s" for s
    using f(1) that unfolding views f(4)
    by (auto simp: recover_configuration_def validate_floor_def Let_def split: sum.splits if_splits)
  have "cc_index d \<le> Node_commit_index n \<and>
      (if snapshot_index n < cc_index d
       then \<exists>e. entry_at n (cc_index d) = Some e \<and> (\<exists>x. configuration_entry (entry_kind e) = Some x \<and> config_id x = cc_config_id d)
       else snapshot_committed_membership n \<noteq> None \<and>
         (\<forall>x. snapshot_committed_configuration_state n = Some x \<longrightarrow>
            cc_index d \<le> cc_index x \<and> (cc_index d = cc_index x \<longrightarrow> cc_config_id d = cc_config_id x)))"
    if "committed_configuration (persistent n) = Some d" for d
    using f(1) unfolding that
  proof (cases rule: recover_configuration_cases)
    case stored
    then show ?thesis unfolding views f(4)
      by (auto simp: Let_def stored_configuration_ok_def validate_floor_def validate_identity_def entry_at_get f(4) bind_eq_Some_conv
          split: if_splits option.splits sum.splits)
  next
    case captured
    with captured f(4,5) show ?thesis
      using \<open>\<And>s. snapshot_committed_configuration_state n = Some s \<Longrightarrow> cc_index s \<le> snapshot_index n\<close> [of d]
      by (auto simp: views meta_committed_configuration_state_def meta_committed_membership_def bind_eq_Some_conv)
  next
    case retained
    from retained_configuration_entry [OF this] show ?thesis by (auto simp: entry_at_get f(4))
  qed
  with captured show ?thesis unfolding configuration_recorded_def by blast
qed

lemma from_bootstrap_log:
  assumes "from_bootstrap c b = Inr n"
  shows "Node_role n = Follower" "config n = c" "Node_current_term n = bs_current_term b" "Node_voted_for n = bs_voted_for b"
    "Node_snapshot n = bs_snapshot b" "\<forall>e\<in>set (Node_log n). 0 < entry_term e \<and> entry_term e \<le> Node_current_term n"
proof -
  show "Node_role n = Follower" "config n = c" "Node_current_term n = bs_current_term b" "Node_voted_for n = bs_voted_for b"
    "Node_snapshot n = bs_snapshot b"
    using assms by (auto simp: from_bootstrap_def into_parts_def Let_def at_dispatched_index_def split: sum.splits)
  have "validate_log (bs_log b) (map_option metadata (bs_snapshot b)) (bs_current_term b) (bs_commit_index b) (bs_committed_configuration b) =
      Inr (Node_log n)"
    using assms by (auto simp: from_bootstrap_def into_parts_def Let_def split: sum.splits)
  with validate_log_ok(2) \<open>Node_current_term n = bs_current_term b\<close>
  show "\<forall>e\<in>set (Node_log n). 0 < entry_term e \<and> entry_term e \<le> Node_current_term n" by metis
qed

text \<open>A node that was accepted is sound, whatever the well-formedness of what it was built from.\<close>

lemma applied_through_sound:
  assumes "from_bootstrap_applied_through c b applied = Inr n"
  shows "sound n \<and> config n = c \<and> pending_snapshot_transfer n = None"
proof -
  obtain m where m: "from_bootstrap c b = Inr m" "n = map_volatile (\<lambda>v. v\<lparr>dispatched_index := max (dispatched_index v) applied\<rparr>) m"
    using assms by (auto simp: from_bootstrap_applied_through_def split: sum.splits if_splits)
  note f = from_bootstrap_fields [OF m(1)] and g = from_bootstrap_log [OF m(1)]
  have same: "same_log m n" by (simp add: same_log_def m(2))
  have "sound_terms n" using f(2) g by (auto simp: sound_terms_def validate_vote_def m(2) split: if_splits)
  moreover have "sound_snapshot n" using f(3) g by (auto simp: sound_snapshot_def validate_snapshot_def m(2) split: if_splits)
  moreover have none: "pending_snapshot_transfer n = None" using f(6) by (simp add: m(2) pending_snapshot_transfer_def)
  then have "sound_transfer n" by (simp add: sound_transfer_def)
  moreover have "configuration_recorded n"
  proof -
    have "snapshot_committed_configuration_state n = snapshot_committed_configuration_state m" "snapshot_committed_membership n = snapshot_committed_membership m"
      "committed_configuration (persistent n) = committed_configuration (persistent m)" "Node_commit_index n = Node_commit_index m"
      by (simp_all add: snapshot_committed_configuration_state_def snapshot_committed_membership_def m(2))
    then show ?thesis using from_bootstrap_configuration [OF m(1) g(5)] same_log_snapshot_index [OF same] same_log_entry_at [OF same]
      unfolding configuration_recorded_def by metis
  qed
  ultimately show ?thesis using none g(2) by (simp add: sound_def m(2))
qed

lemma applied_through_startable:
  assumes "from_bootstrap_applied_through c b applied = Inr n" "membership_wf (static_membership c)"
    and "\<forall>e\<in>set (bs_log b). entry_wf (bootstrap_entry e)"
    and "\<forall>s. bs_snapshot b = Some s \<longrightarrow> metadata_wf (metadata s)"
  shows "startable True n \<and> config n = c"
proof -
  obtain m where m: "from_bootstrap c b = Inr m" "applied \<le> Node_commit_index m"
    "n = map_volatile (\<lambda>v. v\<lparr>dispatched_index := max (dispatched_index v) applied\<rparr>) m"
    using assms(1) by (auto simp: from_bootstrap_applied_through_def split: sum.splits if_splits)
  have inv: "node_inv m" using from_bootstrap_sound [OF m(1) assms(2-4)] by simp
  have "same_log m n" by (simp add: same_log_def m(3))
  then have "node_inv n"
    by (rule node_inv_redispatched [OF inv]) (use inv m(2) in \<open>auto simp: node_inv_def geometry_ok_def m(3)\<close>)
  then show ?thesis using applied_through_sound [OF assms(1)] by (simp add: startable_def)
qed

text \<open>A compaction keeps a node sound, if the snapshot names no term beyond that of the node.\<close>

lemma sound_compacted:
  assumes "sound n" "node_inv n" "prepare_local_snapshot_install n snap = Inr p" "prepared_commit p n = (n', outs)"
    "meta_committed_configuration (metadata snap) = Some c" "hard_state_term (metadata snap) \<le> Node_current_term n"
  shows "sound n'"
proof -
  let ?b = "last_included_index (metadata snap)"
  note check = prepare_local_snapshot_install_ok(1) [OF assms(3)]
  have cc: "pls_committed_configuration p = committed_configuration_state_at n ?b" using check_local_snapshot_ok(5) [OF check] .
  have c: "scc_membership c = membership_at_index n ?b" "scc_configuration c = committed_configuration_state_at n ?b"
    "contains_replica (membership_at_index n ?b) (writer_id (metadata snap))" "?b \<le> Node_commit_index n"
    using check assms(5) by (auto simp: check_local_snapshot_def Let_def split: if_splits)
  obtain lp k where n': "n' = n\<lparr>persistent := (persistent n)\<lparr>log := drop k (Node_log n), snapshot := Some snap,
       committed_configuration := pls_committed_configuration p\<rparr>, derived := ci_from_log (drop k (Node_log n)),
       volatile := (volatile n)\<lparr>incoming_snapshot := None, local_proposals := lp\<rparr>\<rparr>"
    using prepared_commit_shape [OF assms(2-4)] by blast
  have "sound_terms n'" using assms(1) by (auto simp: sound_def sound_terms_def n' dest: in_set_dropD)
  moreover have "sound_snapshot n'"
    using assms(5,6) c by (simp add: sound_snapshot_def n' snapshot_writer_is_replica_def meta_committed_membership_def)
  moreover have "sound_transfer n'" by (simp add: sound_transfer_def n' pending_snapshot_transfer_def)
  moreover have "configuration_recorded n'"
  proof -
    have "cc_index d \<le> ?b" if "committed_configuration_state_at n ?b = Some d" for d
      using max_by_key_in [OF that [unfolded committed_configuration_state_at_def Let_def]] by simp
    moreover have "snapshot_index n' = ?b" "snapshot_committed_configuration_state n' = committed_configuration_state_at n ?b"
      "snapshot_committed_membership n' \<noteq> None" "committed_configuration (persistent n') = committed_configuration_state_at n ?b"
      "Node_commit_index n' = Node_commit_index n"
      using assms(5) c cc by (simp_all add: n' snapshot_index_def snapshot_committed_configuration_state_def snapshot_committed_membership_def
          meta_committed_configuration_state_def meta_committed_membership_def)
    ultimately show ?thesis using c(4) unfolding configuration_recorded_def by (auto intro: order_trans)
  qed
  ultimately show ?thesis by (simp add: sound_def)
qed

text \<open>The term is not checked when the descriptor is accepted, but at the next start.\<close>

lemma compaction_term_unchecked:
  assumes "sound n" "node_inv n" "prepare_local_snapshot_install n snap = Inr p" "prepared_commit p n = (n', outs)"
    "Node_current_term n < hard_state_term (metadata snap)"
  shows "from_bootstrap (config n') (durable n') =
    Inl (SnapshotHardStateTermAheadOfCurrentTerm (hard_state_term (metadata snap)) (Node_current_term n))"
proof -
  have n': "Node_current_term n' = Node_current_term n \<and> Node_voted_for n' = Node_voted_for n \<and> Node_snapshot n' = Some snap"
    by (rule prepared_commit_shape [OF assms(2-4)]) simp
  then have "validate_vote (durable n') = Inr ()"
    using assms(1) by (auto simp: validate_vote_def durable_def sound_def sound_terms_def split: option.split)
  with n' assms(5) show ?thesis by (simp add: from_bootstrap_def into_parts_def validate_snapshot_def durable_def)
qed

text \<open>Any batch has bounds.\<close>

lemma input_bounded_mono: "input_bounded B T inp \<Longrightarrow> B \<le> B' \<Longrightarrow> T \<le> T' \<Longrightarrow> input_bounded B' T' inp"
proof (induction B T inp rule: input_bounded.induct)
  case (1 B T k m)
  then show ?case by (cases m) auto
qed simp_all

lemma inputs_bounds: "\<exists>B T. list_all (input_bounded B T) inputs"
proof (induction inputs)
  case (Cons inp inputs)
  obtain B T where r: "list_all (input_bounded B T) inputs" using Cons by blast
  obtain B' T' where i: "input_bounded B' T' inp" using input_bounds by blast
  have "input_bounded (max B B') (max T T') x" if "input_bounded B T x \<or> input_bounded B' T' x" for x
    using that input_bounded_mono by (metis max.cobounded1 max.cobounded2)
  with r i have "list_all (input_bounded (max B B') (max T T')) (inp # inputs)" by (simp add: list_all_iff)
  then show ?case by blast
qed simp

lemma honest_batch:
  assumes "list_all input_wf inputs" "list_all honest_input inputs" "node_inv n" "sound n" "step_batch inputs n = (n', outs)"
  shows "sound n' \<and> tracked n (n', outs)"
proof -
  obtain B T where "list_all (input_bounded B T) inputs" using inputs_bounds by blast
  with assms(1,2) have "list_all (admitted True B T) inputs" by (simp add: list_all_iff admitted_def)
  from moving.batch_rel [OF this, of n] assms(3-5) show ?thesis by (simp add: moves_def startable_def)
qed

text \<open>A transfer that was resumed is one a restart can resume again.\<close>

lemma sound_resumed:
  assumes "sound n" "resume_pending_snapshot_transfer t n = (n', Inr u)"
  shows "sound n' \<and> pending_snapshot_transfer n' = Some t"
proof -
  have n': "n' = map_volatile (\<lambda>v. v\<lparr>incoming_snapshot := Some (ist_from_pending t)\<rparr>) n" "valid_snapshot_metadata n (pst_metadata t) (Node_current_term n)"
    using assms(2) by (auto simp: resume_pending_snapshot_transfer_def validate_snapshot_transfer_header_def Let_def
        split: if_splits sum.splits SnapshotTransferHeaderRejection.splits)
  have t: "pending_snapshot_transfer n' = Some t" "pst_received_len t < pst_total_payload_len t"
    "snapshot_index n < last_included_index (pst_metadata t)" "hard_state_term (pst_metadata t) \<le> Node_current_term n"
    "pst_transfer_id t = snapshot_transfer_id_from_parts (pst_metadata t) (pst_total_payload_len t) (pst_application_payload_crc32 t)"
    using pending_transfer_resumes [of t n] assms(2) by simp_all
  have same: "same_log n n'" by (simp add: same_log_def n'(1))
  have "sound_terms n'" "sound_snapshot n'" using assms(1) by (simp_all add: sound_def sound_terms_def sound_snapshot_def n'(1))
  moreover have "snapshot_writer_is_replica (pst_metadata t) (config n')"
    using n' author_replica [of n "pst_metadata t"] by (simp add: valid_snapshot_metadata_def)
  then have "sound_transfer n'" using t same_log_snapshot_index [OF same]
    by (simp add: sound_transfer_def pending_descriptor_def RaftSnapshot_transfer_id_def) (simp add: n'(1))
  moreover have "configuration_recorded n'"
  proof -
    have "snapshot_committed_configuration_state n' = snapshot_committed_configuration_state n" "snapshot_committed_membership n' = snapshot_committed_membership n"
      "committed_configuration (persistent n') = committed_configuration (persistent n)" "Node_commit_index n' = Node_commit_index n"
      by (simp_all add: snapshot_committed_configuration_state_def snapshot_committed_membership_def n'(1))
    then show ?thesis using assms(1) same_log_snapshot_index [OF same] same_log_entry_at [OF same]
      unfolding sound_def configuration_recorded_def by metis
  qed
  ultimately show ?thesis using t(1) by (simp add: sound_def)
qed

lemma transfer_resumes:
  assumes "sound_transfer n" "pending_snapshot_transfer n = Some t" "valid_snapshot_transfer_leader n (pst_leader_id t) (pst_metadata t)"
    "restarted applied n m"
  shows "\<exists>m'. resume_pending_snapshot_transfer t m = (m', Inr ()) \<and> restarted applied n m' \<and> pending_snapshot_transfer m' = Some t"
proof -
  let ?m = "map_volatile (\<lambda>v. v\<lparr>incoming_snapshot := Some (ist_from_pending t)\<rparr>) m"
  have m: "Node_current_term m = Node_current_term n" "config m = config n" "Node_snapshot m = Node_snapshot n"
    "effective_membership m = effective_membership n" using assms(4) by (simp_all add: restarted_def)
  then have "snapshot_index m = snapshot_index n" by (simp add: snapshot_index_def)
  then have r: "resume_pending_snapshot_transfer t m = (?m, Inr ())"
    using assms(1-3) m
    by (simp add: sound_transfer_def resume_pending_snapshot_transfer_def Let_def pending_descriptor_def RaftSnapshot_transfer_id_def
        validate_snapshot_transfer_header_def valid_snapshot_metadata_def author_replica valid_snapshot_transfer_leader_def pst_is_complete_def)
  have same: "same_log m ?m" by (simp add: same_log_def)
  have "node_inv ?m"
    by (rule node_inv_redispatched [OF _ same]) (use assms(4) in \<open>auto simp: restarted_def node_inv_def geometry_ok_def\<close>)
  then have "restarted applied n ?m" using assms(4) same_log_membership [OF same] by (simp add: restarted_def)
  with r pending_transfer_resumes [of t m] show ?thesis by simp
qed

section \<open>Restarts after runs\<close>

text \<open>The follower of the samples grants its vote.\<close>

definition sample_vote_request :: Input where
  "sample_vote_request = MessageInput 2 (RequestVoteMsg \<lparr>rv_term = 3, rv_candidate_id = 2, rv_last_log_index = 4, rv_last_log_term = 2\<rparr>)"

definition sample_vote :: RequestVoteResponse where
  "sample_vote = \<lparr>rvr_term = 3, rvr_voter_id = 1, rvr_vote_granted = True\<rparr>"

definition sample_voted :: Node where
  "sample_voted = map_election reset_timeout (map_persistent (\<lambda>p. p\<lparr>voted_for := Some 2\<rparr>) (fst (become_follower 3 sample_follower)))"

lemma sample_follower_frame: "Node_current_term sample_follower = 2" "Node_voted_for sample_follower = None" "Node_id sample_follower = 1"
  by (simp_all add: sample_defs)

lemma sample_vote_step: "step sample_vote_request sample_follower = (sample_voted, [Send 2 (RequestVoteResponseMsg sample_vote)])"
proof -
  let ?r = "\<lparr>rv_term = 3, rv_candidate_id = 2, rv_last_log_index = 4, rv_last_log_term = 2\<rparr>"
  let ?m = "fst (become_follower 3 sample_follower)"
  have same: "same_log sample_follower ?m" by (simp add: same_log_def become_follower_frame)
  have m: "snd (become_follower 3 sample_follower) = []" "Node_voted_for ?m = None" "Node_id ?m = 1"
    by (simp_all add: become_follower_def drain_local_proposals_def drain_pending_reads_def case_prod_unfold Let_def)
      (simp_all add: sample_defs LeaderState_default_def dropped_outputs_def canceled_outputs_def)
  have "last_log_term sample_follower = 2" by (simp add: last_log_term_def sample_term_at)
  then have up: "log_up_to_date ?m 2 4" using same_log_last [OF same] same_log_term_at [OF same] by (simp add: log_up_to_date_def last_log_term_def)
  have mem: "effective_membership ?m = static_membership sample_config" using same_log_membership [OF same] by simp
  show ?thesis
    unfolding sample_vote_request_def
    using m up mem
    by (simp add: receive_def handle_request_vote_def sample_follower_frame case_prod_unfold Let_def sample_membership
        become_follower_frame sample_voted_def sample_vote_def)
qed

lemma sample_voted_eq:
  "step_batch [sample_vote_request] sample_follower = (sample_voted, [Send 2 (RequestVoteResponseMsg sample_vote)])"
  using sample_vote_step by (simp add: step_batch_def)

lemma sample_voted_same: "same_log sample_follower sample_voted"
  by (simp add: same_log_def sample_voted_def become_follower_frame)

lemma sample_follower_bootstrap:
  "from_bootstrap_applied_through sample_config \<lparr>bs_current_term = 2, bs_voted_for = None, bs_commit_index = 2,
     bs_committed_configuration = None, bs_snapshot = None, bs_log = durable_log 1 sample_log\<rparr> 2 = Inr sample_follower"
proof -
  have "ci_from_log sample_log = []" using sample_follower_inv by (simp add: node_inv_def derived_ok_def) (simp add: sample_follower_def)
  moreover have "retained_configuration 0 sample_log 2 = None" by (simp add: retained_configuration_def sample_log_def enumerate_eq_zip Let_def)
  ultimately show ?thesis
    by (simp add: from_bootstrap_applied_through_def from_bootstrap_def into_parts_def validate_vote_def validate_snapshot_def validate_log_def
        LogValidation_new_def durable_log_def enumerate_eq_zip sample_log_def lv_accept_def accept_retained_def validate_retained_entry_def
        checked_add_def u64_max_def meta_index_def lv_finish_def recover_configuration_def snapshot_index_def last_log_index_def
        sample_follower_def at_dispatched_index_def max_by_key_def List.map_filter_simps)
qed

text \<open>
  C13: what a node leaves on disk can be started from. A node is started from a durable state that was accepted, at
  any applied index, and takes any number of batches of inputs whose messages are those an honest peer sends and name positions up to
  \<open>B\<close>. As long as that keeps the log below the largest index, the durable state the node then has (its term, vote,
  commit index, committed configuration, snapshot and retained log) is accepted again at any index the application may have reached:
  the rebuilt node is a follower with the same term, vote, snapshot, log, commit index and membership that satisfies the node
  invariant and applies from there on.
\<close>

theorem durable_state_recovered:
  assumes "from_bootstrap_applied_through c b applied0 = Inr n0" "membership_wf (static_membership c)"
    and "\<forall>e\<in>set (bs_log b). entry_wf (bootstrap_entry e)"
    and "\<forall>s. bs_snapshot b = Some s \<longrightarrow> metadata_wf (metadata s)"
    and "\<forall>inputs\<in>set batches. \<forall>inp\<in>set inputs. input_wf inp \<and> input_bounded B T inp \<and> honest_input inp"
    and "run_steps step_batch batches n0 = (n, outs)"
    and "max (last_log_index n0) B + sum_list (map length batches) < u64_max" "applied \<le> Node_commit_index n"
  shows "\<exists>m. from_bootstrap_applied_through c
      \<lparr>bs_current_term = Node_current_term n, bs_voted_for = Node_voted_for n, bs_commit_index = Node_commit_index n,
       bs_committed_configuration = committed_configuration_state n, bs_snapshot = Node_snapshot n,
       bs_log = durable_log (Suc (snapshot_index n)) (Node_log n)\<rparr> applied = Inr m \<and> restarted applied n m"
proof -
  have n0: "startable True n0" "config n0 = c" using applied_through_startable [OF assms(1-4)] by simp_all
  have "list_all (list_all (admitted True B T)) batches" using assms(5) by (simp add: list_all_iff admitted_def)
  from moving.batches_rel [OF this n0(1)] have r: "moves True B T (sum_list (map length batches)) n0 (n, outs)" by (simp add: assms(6))
  then have "recoverable n" using assms(7) by (intro sound_recoverable) (auto simp: moves_def startable_def grown_def)
  moreover have "node_inv n" "config n = c" using r n0(2) by (simp_all add: moves_def startable_def good_def evolves_def)
  ultimately show ?thesis using bootstrap_restarts [OF _ _ assms(8)] by blast
qed

theorem durable_state_recovered_witness:
  "\<exists>m. from_bootstrap_applied_through sample_config
      \<lparr>bs_current_term = 3, bs_voted_for = Some 2, bs_commit_index = 2, bs_committed_configuration = None, bs_snapshot = None,
       bs_log = durable_log 1 sample_log\<rparr> 2 = Inr m \<and> restarted 2 (fst (step sample_vote_request sample_follower)) m"
proof -
  have v: "Node_current_term sample_voted = 3" "Node_voted_for sample_voted = Some 2" "Node_commit_index sample_voted = 2"
    "Node_snapshot sample_voted = None" "Node_log sample_voted = sample_log" "snapshot_index sample_voted = 0"
    using same_log_snapshot_index [OF sample_voted_same]
    by (simp_all add: sample_voted_def become_follower_frame) (simp_all add: sample_defs)
  have "committed_configuration_state sample_voted = None"
    by (simp add: committed_configuration_state_def committed_configuration_state_at_def snapshot_committed_configuration_state_def v
        max_by_key_def List.map_filter_simps ci_committed_state_at_def sample_voted_def become_follower_frame) (simp add: sample_defs)
  moreover have "run_steps step_batch [[sample_vote_request]] sample_follower = (sample_voted, [Send 2 (RequestVoteResponseMsg sample_vote)])"
    by (simp add: sample_voted_eq)
  moreover have "entry_wf (bootstrap_entry e)" if "e \<in> set (durable_log 1 sample_log)" for e
    using that by (auto simp: durable_log_def enumerate_eq_zip sample_log_def entry_wf_def)
  moreover have "membership_wf (static_membership sample_config)"
    by (simp add: sample_membership membership_set_wf_def ordered_def)
  moreover have "last_log_index sample_follower < u64_max - 10" by (simp add: u64_max_def)
  ultimately show ?thesis
    using durable_state_recovered [OF sample_follower_bootstrap, of "[[sample_vote_request]]" 0 3 sample_voted _ 2] v sample_vote_step
    by (simp add: sample_vote_request_def)
qed

text \<open>
  C25: positions and terms grow no faster than the inputs. Whatever batches of well-formed inputs a node takes, as long as
  their messages name positions up to \<open>B\<close> and terms up to \<open>T\<close>, its log ends at most one entry per input
  behind the larger of \<open>B\<close> and the end it had, and its term is at most one per input above the larger of \<open>T\<close> and its
  own. Snapshot, dispatched and commit index stay at or below the end of the log, so that a run whose sums stay below the
  largest 64-bit value computes every one of them without an overflow.
\<close>

theorem run_positions_bounded:
  assumes "node_inv n" "\<forall>inputs\<in>set batches. \<forall>inp\<in>set inputs. input_wf inp \<and> input_bounded B T inp"
    "run_steps step_batch batches n = (n', outs)"
  shows "snapshot_index n' \<le> Node_dispatched_index n' \<and> Node_dispatched_index n' \<le> Node_commit_index n' \<and>
    Node_commit_index n' \<le> last_log_index n' \<and>
    last_log_index n' \<le> max (last_log_index n) B + sum_list (map length batches) \<and>
    Node_current_term n \<le> Node_current_term n' \<and>
    Node_current_term n' \<le> max (Node_current_term n) T + sum_list (map length batches)"
proof -
  have "list_all (list_all (admitted False B T)) batches" "startable False n"
    using assms(1,2) by (simp_all add: list_all_iff admitted_def startable_def)
  from moving.batches_rel [OF this] assms(3) show ?thesis
    by (auto simp: moves_def startable_def grown_def node_inv_def geometry_ok_def)
qed

theorem run_positions_bounded_witness:
  "last_log_index (fst (run_steps step_batch [[sample_vote_request, Tick], [Tick]] sample_follower)) \<le> 7 \<and>
   Node_current_term (fst (run_steps step_batch [[sample_vote_request, Tick], [Tick]] sample_follower)) \<le> 6"
  using run_positions_bounded [OF sample_follower_inv _ surjective_pairing, of "[[sample_vote_request, Tick], [Tick]]" 0 3] sample_follower_frame
  by (simp add: sample_vote_request_def del: run_steps.simps)

end
