(* ===== verification/Durable_Safety.thy ===== *)
theory Durable_Safety
  imports Durable_Node Restart
begin

text \<open>
  What the durable runtime guarantees, for any stores that keep the contract of their traits: after a batch
  that succeeds the stores hold exactly the durable state of the node, so that a restart rebuilds it. The
  contract is a locale over the methods of the traits, with the stores of the storage crate as instances.
\<close>

section \<open>What the stores hold\<close>

lemma labelled_from_Nil [simp]: "labelled_from i [] = []"
  by (simp add: labelled_from_def)

lemma labelled_from_length [simp]: "length (labelled_from i es) = length es"
  by (simp add: labelled_from_def)

lemma labelled_from_nth:
  "k < length es \<Longrightarrow> labelled_from i es ! k = \<lparr>pe_index = i + k, pe_term = entry_term (es ! k), pe_kind = entry_kind (es ! k)\<rparr>"
  by (simp add: labelled_from_def nth_enumerate_eq)

lemma labelled_from_append: "labelled_from i (xs @ ys) = labelled_from i xs @ labelled_from (i + length xs) ys"
  by (rule nth_equalityI) (auto simp: labelled_from_nth nth_append)

lemma labelled_from_indexes: "map pe_index (labelled_from i es) = [i..<i + length es]"
  by (rule nth_equalityI) (auto simp: labelled_from_nth)

lemma labelled_from_inj: "labelled_from i xs = labelled_from i ys \<Longrightarrow> xs = ys"
proof (rule nth_equalityI)
  assume eq: "labelled_from i xs = labelled_from i ys"
  then show len: "length xs = length ys" by (metis labelled_from_length)
  show "xs ! k = ys ! k" if "k < length xs" for k
    using eq len that labelled_from_nth [of k xs i] labelled_from_nth [of k ys i] by (cases "xs ! k"; cases "ys ! k") simp
qed

text \<open>The retained log of a node as a segment holds it.\<close>

definition persisted_log :: "Node \<Rightarrow> PersistedRaftLogEntry list" where
  "persisted_log n = labelled_from (Suc (snapshot_index n)) (Node_log n)"

text \<open>What the types of the code bound, and frames short enough for the segment.\<close>

definition durable_typed :: "Node \<Rightarrow> bool" where
  "durable_typed n \<longleftrightarrow> hard_state_ok (hard_state_for_node n) \<and> list_all entry_fits (persisted_log n) \<and> last_log_index n \<le> u64_max"

text \<open>The stores of a healthy node hold its snapshot and its log, and its hard state.\<close>

definition log_synced :: "'l RaftLogSegment \<Rightarrow> 's RaftSnapshotStore \<Rightarrow> ('h, 'l, 's) DurableRaftNode \<Rightarrow> bool" where
  "log_synced L S d \<longleftrightarrow>
     (let n = dn_node d in
      dn_fatal d = None \<and> rs_current S (dn_snapshots d) = Node_snapshot n \<and>
      ls_compacted L (dn_segment d) = snapshot_index n \<and> ls_replay L (dn_segment d) = persisted_log n \<and>
      (pending_snapshot_transfer n = None \<longrightarrow> rs_pending S (dn_snapshots d) = None) \<and>
      (\<forall>t. dn_tail d = Some t \<longrightarrow> t = PersistedTail_of_node n))"

definition synced :: "'h RaftHardStateStore \<Rightarrow> 'l RaftLogSegment \<Rightarrow> 's RaftSnapshotStore \<Rightarrow> ('h, 'l, 's) DurableRaftNode \<Rightarrow> bool" where
  "synced H L S d \<longleftrightarrow> log_synced L S d \<and> hs_current H (dn_hard_state d) = hard_state_for_node (dn_node d)"

text \<open>
  Between calls: the log and the snapshot are on disk, and the term, the vote and the commit index. The
  committed configuration of the hard state may lag behind a compaction until the next batch.
\<close>

definition durable_healthy :: "'h RaftHardStateStore \<Rightarrow> 'l RaftLogSegment \<Rightarrow> 's RaftSnapshotStore \<Rightarrow> ('h, 'l, 's) DurableRaftNode \<Rightarrow> bool" where
  "durable_healthy H L S d \<longleftrightarrow>
     (let n = dn_node d; hard = hs_current H (dn_hard_state d) in
      log_synced L S d \<and> hard_state_ok hard \<and> hs_current_term hard = Node_current_term n \<and> hs_voted_for hard = Node_voted_for n \<and>
      hs_commit_index hard = Node_commit_index n \<and> node_inv n \<and> durable_typed n)"

lemma synced_healthy: "synced H L S d \<Longrightarrow> node_inv (dn_node d) \<Longrightarrow> durable_typed (dn_node d) \<Longrightarrow> durable_healthy H L S d"
  by (auto simp: durable_healthy_def synced_def durable_typed_def hard_state_for_node_def Let_def)

text \<open>
  Log Matching between the node before and after a batch: where both hold an entry of the same term at an
  index, they agree on everything before it. Raft guarantees it of any two logs of a cluster.
\<close>

definition log_matching :: "Node \<Rightarrow> Node \<Rightarrow> bool" where
  "log_matching n n' \<longleftrightarrow>
     (\<forall>i x y. entry_at n i = Some x \<longrightarrow> entry_at n' i = Some y \<longrightarrow> entry_term x = entry_term y \<longrightarrow>
        (\<forall>j \<le> i. snapshot_index n' < j \<longrightarrow> entry_at n' j = entry_at n j))"

definition persists :: "Node \<Rightarrow> PersistedRaftLogEntry \<Rightarrow> bool" where
  "persists n p \<longleftrightarrow> entry_at n (pe_index p) = Some \<lparr>entry_term = pe_term p, entry_kind = pe_kind p\<rparr>"

lemma persists_index: "persists n p \<Longrightarrow> snapshot_index n < pe_index p \<and> pe_index p \<le> last_log_index n"
  using entry_at_defined_iff [of n "pe_index p"] by (auto simp: persists_def)

lemma persisted_log_persists: "p \<in> set (persisted_log n) \<Longrightarrow> persists n p"
  by (auto simp: persisted_log_def in_set_conv_nth labelled_from_nth persists_def entry_at_Some_iff last_log_index_def)

lemma log_entries_from_above: "snapshot_index n < i \<Longrightarrow> log_entries_from n i = drop (i - Suc (snapshot_index n)) (Node_log n)"
  by (auto simp: log_entries_from_def first_retained_log_index_def retained_log_offset_def last_log_index_def Let_def max_def)

lemma log_entries_from_head:
  assumes "snapshot_index n < i"
  shows "log_entries_from n i = (case entry_at n i of None \<Rightarrow> [] | Some e \<Rightarrow> e # log_entries_from n (Suc i))"
proof (cases "i - Suc (snapshot_index n) < length (Node_log n)")
  case True
  moreover have "Suc i - Suc (snapshot_index n) = Suc (i - Suc (snapshot_index n))" using assms by simp
  ultimately show ?thesis
    using assms Cons_nth_drop_Suc [OF True] by (simp add: log_entries_from_above entry_at_get get_def)
next
  case False
  with assms show ?thesis by (simp add: log_entries_from_above entry_at_get get_def)
qed

lemma find_divergence_None:
  "find_divergence n ps = None \<Longrightarrow> \<forall>p \<in> set ps. snapshot_index n < pe_index p \<Longrightarrow> \<forall>p \<in> set ps. persists n p"
proof (induction ps)
  case (Cons p ps)
  then show ?case
    by (cases "entry_at n (pe_index p)") (auto simp: log_entries_from_head persists_def split: if_splits)
qed simp

lemma find_divergence_Some:
  "find_divergence n ps = Some i \<Longrightarrow> \<forall>p \<in> set ps. snapshot_index n < pe_index p \<Longrightarrow>
   \<exists>as q bs. ps = as @ q # bs \<and> pe_index q = i \<and> (\<forall>p \<in> set as. persists n p) \<and> \<not> persists n q"
proof (induction ps)
  case (Cons p ps)
  show ?case
  proof (cases "persists n p")
    case True
    with Cons.prems have "find_divergence n ps = Some i" by (simp add: log_entries_from_head persists_def)
    with Cons obtain as q bs where "ps = as @ q # bs" "pe_index q = i" "\<forall>p \<in> set as. persists n p" "\<not> persists n q" by auto
    with True show ?thesis by (intro exI [of _ "p # as"]) auto
  next
    case False
    with Cons.prems have "pe_index p = i"
      by (cases "entry_at n (pe_index p)") (auto simp: log_entries_from_head persists_def split: if_splits)
    with False show ?thesis by (intro exI [of _ "[]"]) auto
  qed
qed simp

lemma persisted_prefix:
  assumes "map pe_index es = [Suc (snapshot_index n)..<Suc (snapshot_index n) + length es]" "\<forall>p \<in> set es. persists n p"
  shows "length es \<le> length (Node_log n)" "es = labelled_from (Suc (snapshot_index n)) (take (length es) (Node_log n))"
proof -
  have at: "entry_at n (Suc (snapshot_index n) + k) = Some \<lparr>entry_term = pe_term (es ! k), entry_kind = pe_kind (es ! k)\<rparr>"
    "pe_index (es ! k) = Suc (snapshot_index n) + k" if "k < length es" for k
    using bspec [OF assms(2) nth_mem [OF that]] contiguous_nth [OF assms(1) that] by (simp_all add: persists_def)
  then have k: "k < length (Node_log n) \<and> Node_log n ! k = \<lparr>entry_term = pe_term (es ! k), entry_kind = pe_kind (es ! k)\<rparr>"
    if "k < length es" for k using at(1) [OF that] by (auto simp: entry_at_Some_iff last_log_index_def)
  show len: "length es \<le> length (Node_log n)" using k [of "length es - 1"] by (cases "es = []") auto
  show "es = labelled_from (Suc (snapshot_index n)) (take (length es) (Node_log n))"
  proof (rule nth_equalityI)
    fix k assume "k < length es"
    with k [of k] at(2) [of k] len show "es ! k = labelled_from (Suc (snapshot_index n)) (take (length es) (Node_log n)) ! k"
      by (simp add: labelled_from_nth)
  qed (use len in simp)
qed

lemma persisted_suffix:
  assumes "map pe_index es = [Suc (snapshot_index n)..<Suc (snapshot_index n) + length es]" "\<forall>p \<in> set es. persists n p"
  shows "es @ labelled_from (Suc (snapshot_index n) + length es) (log_entries_from n (Suc (snapshot_index n) + length es)) = persisted_log n"
proof -
  have "persisted_log n = labelled_from (Suc (snapshot_index n)) (take (length es) (Node_log n) @ drop (length es) (Node_log n))"
    by (simp add: persisted_log_def)
  also have "\<dots> = es @ labelled_from (Suc (snapshot_index n) + length es) (drop (length es) (Node_log n))"
    using persisted_prefix [OF assms] by (simp only: labelled_from_append length_take min_absorb2)
  finally show ?thesis by (simp add: log_entries_from_above)
qed

lemma then_do_Inr: "then_do r k = (d, Inr x) \<longleftrightarrow> (\<exists>d' y. r = (d', Inr y) \<and> k y d' = (d, Inr x))"
  by (cases r; cases "snd r") (auto simp: then_do_def)

lemma then_do_Inl: "then_do r k = (d, Inl e) \<longleftrightarrow> r = (d, Inl e) \<or> (\<exists>d' y. r = (d', Inr y) \<and> k y d' = (d, Inl e))"
  by (cases r; cases "snd r") (auto simp: then_do_def)

lemma map_err_Inr: "map_err f r = (d, Inr x) \<longleftrightarrow> r = (d, Inr x)"
  by (cases r; cases "snd r") (auto simp: map_err_def)

lemma poison_Inr: "poison r = (d, Inr x) \<longleftrightarrow> r = (d, Inr x)"
  by (cases r; cases "snd r") (auto simp: poison_def)

lemma persisted_to_bootstrap: "map persisted_entry_to_bootstrap (persisted_log n) = durable_log (Suc (snapshot_index n)) (Node_log n)"
  by (simp add: persisted_log_def labelled_from_def durable_log_def persisted_entry_to_bootstrap_def comp_def case_prod_unfold)

lemma compact_after_write_Inr:
  assumes "compact_after_write L put snap d = (d', Inr retired)"
  obtains p s u l v n' outs where "prepare_local_snapshot_install (dn_node d) snap = Inr p" "put (dn_snapshots d) = (s, Inr u)"
    "ls_compact L (last_included_index (metadata snap)) (dn_segment d) = (l, Inr v)"
    "commit_with_retired_entries p (dn_node d) = (n', outs, retired)" "d' = d\<lparr>dn_snapshots := s, dn_segment := l, dn_node := n'\<rparr>"
proof (cases "prepare_local_snapshot_install (dn_node d) snap")
  case (Inl e)
  with assms show thesis by (simp add: compact_after_write_def)
next
  case (Inr p)
  obtain s r where s: "put (dn_snapshots d) = (s, r)" by fastforce
  obtain l q where l: "ls_compact L (last_included_index (metadata snap)) (dn_segment d) = (l, q)" by fastforce
  obtain n' outs xs where n': "commit_with_retired_entries p (dn_node d) = (n', outs, xs)" by (cases "commit_with_retired_entries p (dn_node d)") auto
  obtain u v where "r = Inr u" "q = Inr v" "d' = d\<lparr>dn_snapshots := s, dn_segment := l, dn_node := n'\<rparr>" "xs = retired"
    using assms Inr s l n' by (cases r; cases q) (simp_all add: compact_after_write_def write_snapshot_and_compact_log_def poison_Inr then_do_def)
  with that Inr s l n' show thesis by blast
qed

text \<open>The store and the node are in the same transfer.\<close>

definition staging_synced :: "'s RaftSnapshotStore \<Rightarrow> ('h, 'l, 's) DurableRaftNode \<Rightarrow> bool" where
  "staging_synced S d \<longleftrightarrow> rs_pending S (dn_snapshots d) = pending_snapshot_transfer (dn_node d)"

text \<open>The leader a transfer in progress came from may still send it.\<close>

definition transfer_authorised :: "Node \<Rightarrow> bool" where
  "transfer_authorised n \<longleftrightarrow>
     (\<forall>t. pending_snapshot_transfer n = Some t \<longrightarrow> valid_snapshot_transfer_leader n (pst_leader_id t) (pst_metadata t))"

lemma resume_staged:
  assumes "rs_pending S s = pending_snapshot_transfer n" "sound_transfer n" "transfer_authorised n" "restarted applied n m"
    "pending_snapshot_transfer m = None"
  shows "\<exists>m'. resume_staged_transfer S s m = Inr (s, m') \<and> restarted applied n m' \<and> pending_snapshot_transfer m' = pending_snapshot_transfer n"
proof (cases "pending_snapshot_transfer n")
  case None
  with assms show ?thesis by (simp add: resume_staged_transfer_def)
next
  case (Some t)
  with transfer_resumes [OF assms(2) Some _ assms(4)] assms(1,3) show ?thesis
    by (auto simp: resume_staged_transfer_def transfer_authorised_def)
qed

lemma reopens:
  assumes "hs_current H h = hard_state_for_node n" "rs_current S s = Node_snapshot n" "rs_pending S s = pending_snapshot_transfer n"
    "ls_compacted L l = snapshot_index n" "ls_replay L l = persisted_log n"
    "node_inv n" "sound n" "last_log_index n < u64_max" "transfer_authorised n" "applied \<le> Node_commit_index n"
  shows "\<exists>m. with_storage_and_snapshot_store_applied_through H L S (config n) h l s applied =
      Inr \<lparr>dn_node = m, dn_hard_state = h, dn_segment = l, dn_snapshots = s, dn_tail = Some (PersistedTail_of_node m), dn_fatal = None\<rparr> \<and>
    restarted applied n m \<and> pending_snapshot_transfer m = pending_snapshot_transfer n"
proof -
  have si: "(case Node_snapshot n of None \<Rightarrow> 0 | Some s \<Rightarrow> last_included_index (metadata s)) = snapshot_index n" by (simp add: snapshot_index_def)
  have "\<forall>p \<in> set (persisted_log n). snapshot_index n \<le> pe_index p" using persisted_log_persists persists_index by fastforce
  then have f: "filter (\<lambda>p. snapshot_index n \<le> pe_index p) (persisted_log n) = persisted_log n" by (simp add: filter_id_conv)
  have t: "sound_transfer n" using assms(7) by (simp add: sound_def)
  then have skip: "finish_interrupted_install L S floor (l, s) = ((l, s), Inr ())" for floor
    using assms(3) by (auto simp: finish_interrupted_install_def sound_transfer_def pst_is_complete_def Let_def split: option.split)
  obtain m where m: "from_bootstrap_applied_through (config n)
      \<lparr>bs_current_term = Node_current_term n, bs_voted_for = Node_voted_for n, bs_commit_index = Node_commit_index n,
       bs_committed_configuration = committed_configuration_state n, bs_snapshot = Node_snapshot n,
       bs_log = durable_log (Suc (snapshot_index n)) (Node_log n)\<rparr> applied = Inr m" "restarted applied n m"
    using bootstrap_restarts [OF assms(6) sound_recoverable [OF assms(7,8)] assms(10)] by blast
  then obtain m' where "resume_staged_transfer S s m = Inr (s, m')" "restarted applied n m'"
    "pending_snapshot_transfer m' = pending_snapshot_transfer n"
    using resume_staged [OF assms(3) t assms(9)] applied_through_sound by blast
  with m skip show ?thesis
    by (simp add: with_storage_and_snapshot_store_applied_through_def assms(1,2,4,5) si f persisted_to_bootstrap hard_state_for_node_def
        committed_configuration_state_def)
qed

text \<open>A hydrated node is sound, and in the transfer its store is in.\<close>

lemma hydrated_sound:
  assumes "with_storage_and_snapshot_store_applied_through H L S c h l s applied = Inr d" "log_synced L S d"
  shows "sound (dn_node d) \<and> staging_synced S d"
proof -
  obtain b n s1 where n: "from_bootstrap_applied_through c b applied = Inr n" "resume_staged_transfer S s1 n = Inr (dn_snapshots d, dn_node d)"
    using assms(1) by (auto simp: with_storage_and_snapshot_store_applied_through_def Let_def split: prod.splits sum.splits if_splits)
  note ok = applied_through_sound [OF n(1)]
  have quiet: "pending_snapshot_transfer (dn_node d) = None \<Longrightarrow> rs_pending S (dn_snapshots d) = None"
    using assms(2) by (simp add: log_synced_def Let_def)
  show ?thesis
  proof (cases "dn_node d = n")
    case True
    then show ?thesis using ok quiet by (simp add: staging_synced_def)
  next
    case False
    have stays: "m = n" if "resume_pending_snapshot_transfer t n = (m, Inl e)" for t m e using pending_transfer_resumes [of t n] that by simp
    with False obtain t u where t: "rs_pending S s1 = Some t" "resume_pending_snapshot_transfer t n = (dn_node d, Inr u)" "dn_snapshots d = s1"
      using n(2)
      by (auto simp: resume_staged_transfer_def dest: stays split: option.splits prod.splits sum.splits PendingSnapshotTransferResumeError.splits)
    with sound_resumed [OF _ t(2)] ok show ?thesis by (simp add: staging_synced_def)
  qed
qed

section \<open>Failures\<close>

definition fatal_result :: "'d \<times> (RaftRuntimeError + 'a) \<Rightarrow> bool" where
  "fatal_result r \<longleftrightarrow> (\<forall>e. snd r = Inl e \<longrightarrow> from_runtime_error e \<noteq> None)"

lemma fatal_then_do: "fatal_result r \<Longrightarrow> (\<And>x d. fatal_result (k x d)) \<Longrightarrow> fatal_result (then_do r k)"
  by (cases r; cases "snd r") (auto simp: fatal_result_def then_do_def)

lemma fatal_map_err: "(\<And>e. from_runtime_error (f e) \<noteq> None) \<Longrightarrow> fatal_result (map_err f r)"
  by (cases r; cases "snd r") (auto simp: fatal_result_def map_err_def)

lemma fatal_Inr [simp]: "fatal_result (d, Inr x)"
  by (simp add: fatal_result_def)

lemma fatal_Inl [simp]: "fatal_result (d, Inl e) \<longleftrightarrow> from_runtime_error e \<noteq> None"
  by (simp add: fatal_result_def)

lemma fatal_install: "fatal_result (install_staged_snapshot L S snap floor ls)"
proof (cases ls)
  case (Pair l s)
  have b: "fatal_result (remove_conflicting_boundary L snap floor l)"
    by (simp add: remove_conflicting_boundary_def Let_def fatal_map_err)
  obtain l1 r1 where l1: "remove_conflicting_boundary L snap floor l = (l1, r1)" by fastforce
  obtain s1 r2 where s1: "rs_promote S snap s = (s1, r2)" by fastforce
  obtain l2 r3 where l2: "ls_compact L (last_included_index (metadata snap)) l1 = (l2, r3)" by fastforce
  show ?thesis using b Pair l1 s1 l2 by (cases r1; cases r2; cases r3) (simp_all add: install_staged_snapshot_def)
qed

lemma fatal_snapshot_output: "fatal_result (persist_snapshot_output H L S out d)"
proof (cases out)
  case (StageSnapshotChunk chunk)
  then show ?thesis
    by (cases "rs_stage S chunk (dn_snapshots d)"; cases "snd (rs_stage S chunk (dn_snapshots d))") (auto simp: persist_snapshot_output_def)
next
  case (ApplySnapshot snap)
  then show ?thesis
    using fatal_install [of L S snap "hs_commit_index (hs_current H (dn_hard_state d))" "(dn_segment d, dn_snapshots d)"]
    by (auto simp: persist_snapshot_output_def fatal_result_def split: prod.split)
qed (simp_all add: persist_snapshot_output_def)

lemma fatal_snapshot_outputs: "fatal_result (persist_snapshot_outputs_for_step H L S outs d)"
  by (induction outs arbitrary: d) (simp_all add: fatal_then_do fatal_snapshot_output)

lemma fatal_clear: "fatal_result (clear_abandoned_snapshot_staging_for_step S d)"
  by (cases "rs_clear S (dn_snapshots d)"; cases "snd (rs_clear S (dn_snapshots d))")
    (auto simp: clear_abandoned_snapshot_staging_for_step_def)

lemma fatal_write: "fatal_result (write_hard_state_for_step H wanted known d)"
  by (cases "hs_write H wanted (dn_hard_state d)"; cases "snd (hs_write H wanted (dn_hard_state d))") (auto simp: write_hard_state_for_step_def)

lemma fatal_repair: "fatal_result (repair_persisted_log_suffix L n tail floor l)"
  by (auto simp: repair_persisted_log_suffix_def fatal_map_err split: option.split)

lemma fatal_suffix: "fatal_result (persist_log_suffix_for_step L floor d)"
proof -
  obtain l r where l: "repair_persisted_log_suffix L (dn_node d) (dn_tail d) floor (dn_segment d) = (l, r)" by fastforce
  obtain l2 q where l2: "(if log_entries_from (dn_node d) (ls_next_index L l) = [] then (l, Inr ())
      else ls_append L (labelled_from (ls_next_index L l) (log_entries_from (dn_node d) (ls_next_index L l))) l) = (l2, q)" by fastforce
  show ?thesis
    using fatal_repair [of L "dn_node d" "dn_tail d" floor "dn_segment d"] l l2
    by (cases r; cases q) (auto simp: persist_log_suffix_for_step_def Let_def split: if_splits)
qed

lemma poison_fatal:
  assumes "fatal_result r" "poison r = (d, Inl e)"
  shows "\<exists>cause. from_runtime_error e = Some cause \<and> dn_fatal d = Some cause"
  using assms by (cases r; cases "snd r") (auto simp: poison_def fatal_result_def)

lemma stepped_fatal:
  assumes "persist_stepped H L S before floor outs d = (d', Inl e)"
  shows "\<exists>cause. from_runtime_error e = Some cause \<and> dn_fatal d' = Some cause"
  by (rule poison_fatal [OF _ assms [unfolded persist_stepped_def persist_after_fence_def Let_def]])
    (intro fatal_then_do fatal_write fatal_snapshot_outputs fatal_clear fatal_suffix fatal_Inr)

lemma durable_step_batch_eq: "durable_step_batch H L S inputs = step_and_persist H L S (step_batch inputs)"
proof (cases "\<exists>inp. inputs = [inp]")
  case True
  then obtain inp where inp: "inputs = [inp]" ..
  have "step_batch [inp] = step inp" by (simp add: fun_eq_iff step_batch_def)
  with inp show ?thesis by (simp add: durable_step_batch_def durable_step_def)
qed (auto simp: durable_step_batch_def fun_eq_iff split: list.split)

text \<open>What the kernel does once snapshot and log are written.\<close>

lemma compacted_kernel:
  assumes "node_inv n" "metadata_wf (metadata snap)" "prepare_local_snapshot_install n snap = Inr p"
    "commit_with_retired_entries p n = (n', outs, retired)"
  shows "good n n'" "snapshot_index n' = last_included_index (metadata snap)" "last_included_index (metadata snap) \<le> last_log_index n"
    "persisted_log n' = drop (last_included_index (metadata snap) - snapshot_index n) (persisted_log n)"
    "snapshot_index n \<le> last_included_index (metadata snap)" "PersistedTail_of_node n' = PersistedTail_of_node n"
    "Node_snapshot n' = Some snap" "pending_snapshot_transfer n' = None" "retired @ Node_log n' = Node_log n"
proof -
  let ?b = "last_included_index (metadata snap)"
  obtain m xs where "prepared_commit p n = (m, xs)" by fastforce
  with commit_with_retired_entries_eq [OF assms(1,3) this] assms(4) have m: "prepared_commit p n = (n', xs)" by simp
  show "retired @ Node_log n' = Node_log n" using commit_with_retired_entries_eq [OF assms(1,3) m] assms(4) by simp
  note good = prepared_commit_good [OF assms(1,2,3) m]
  from prepared_commit_shape [OF assms(1,3) m] obtain lp k where k: "k \<le> length (Node_log n)" "snapshot_index n + k = ?b"
    and n': "n' = n\<lparr>persistent := (persistent n)\<lparr>log := drop k (Node_log n), snapshot := Some snap,
       committed_configuration := pls_committed_configuration p\<rparr>, derived := ci_from_log (drop k (Node_log n)),
       volatile := (volatile n)\<lparr>incoming_snapshot := None, local_proposals := lp\<rparr>\<rparr>" .
  show "good n n'" "snapshot_index n' = ?b" using good by simp_all
  show "snapshot_index n \<le> ?b" "?b \<le> last_log_index n" using k by (auto simp: last_log_index_def)
  show "Node_snapshot n' = Some snap" "pending_snapshot_transfer n' = None" by (simp_all add: n' pending_snapshot_transfer_def)
  have "Node_log n' = drop k (Node_log n)" "k = ?b - snapshot_index n" using k(2) by (simp_all add: n')
  then show "persisted_log n' = drop (?b - snapshot_index n) (persisted_log n)"
    using k good(2) by (intro nth_equalityI) (simp_all add: persisted_log_def labelled_from_nth)
  show "PersistedTail_of_node n' = PersistedTail_of_node n"
  proof (cases "last_log_index n = ?b")
    case True
    then show ?thesis using prepared_commit_term [OF assms(1,3) m] good(3) by (simp add: PersistedTail_of_node_def Let_def)
  next
    case False
    then have "?b < last_log_index n" using k by (simp add: last_log_index_def)
    with good(2,3,4) k(2) show ?thesis by (simp add: PersistedTail_of_node_def Let_def term_at_above)
  qed
qed

lemma compacted_membership:
  assumes "node_inv n" "prepare_local_snapshot_install n snap = Inr p" "commit_with_retired_entries p n = (n', outs, retired)"
    "meta_committed_configuration (metadata snap) = Some c"
  shows "effective_membership n' = effective_membership n"
proof -
  obtain m xs where m: "prepared_commit p n = (m, xs)" by fastforce
  then have "m = n'" using commit_with_retired_entries_eq [OF assms(1,2) m] assms(3) by simp
  with prepared_commit_membership [OF assms(1,2) m assms(4)] show ?thesis by simp
qed

section \<open>The contract of the stores\<close>

definition stores_ready :: "('h \<Rightarrow> bool) \<Rightarrow> ('l \<Rightarrow> bool) \<Rightarrow> ('s \<Rightarrow> bool) \<Rightarrow> ('h, 'l, 's) DurableRaftNode \<Rightarrow> bool" where
  "stores_ready hready lready sready d \<longleftrightarrow> hready (dn_hard_state d) \<and> lready (dn_segment d) \<and> sready (dn_snapshots d)"

text \<open>What a step leaves alone while it writes: the node, the tail and the health.\<close>

definition same_kernel :: "('h, 'l, 's) DurableRaftNode \<Rightarrow> ('h, 'l, 's) DurableRaftNode \<Rightarrow> bool" where
  "same_kernel d d' \<longleftrightarrow> dn_node d' = dn_node d \<and> dn_tail d' = dn_tail d \<and> dn_fatal d' = dn_fatal d"

locale durable_stores =
  fixes H :: "'h RaftHardStateStore" and L :: "'l RaftLogSegment" and S :: "'s RaftSnapshotStore"
    and hready :: "'h \<Rightarrow> bool" and lready :: "'l \<Rightarrow> bool" and sready :: "'s \<Rightarrow> bool"
  assumes hs_written: "hready h \<Longrightarrow> hard_state_ok st \<Longrightarrow> hs_write H st h = (h', Inr u) \<Longrightarrow> hready h' \<and> hs_current H h' = st"
    and ls_contiguous: "lready l \<Longrightarrow>
      map pe_index (ls_replay L l) = [Suc (ls_compacted L l)..<Suc (ls_compacted L l) + length (ls_replay L l)]"
    and ls_next: "lready l \<Longrightarrow> ls_next_index L l = Suc (ls_compacted L l) + length (ls_replay L l)"
    and ls_appended: "lready l \<Longrightarrow> list_all entry_fits es \<Longrightarrow> ls_append L es l = (l', Inr u) \<Longrightarrow>
      lready l' \<and> ls_compacted L l' = ls_compacted L l \<and> ls_replay L l' = ls_replay L l @ es"
    and ls_truncated: "lready l \<Longrightarrow> ls_truncate L i l = (l', Inr u) \<Longrightarrow>
      lready l' \<and> ls_compacted L l' = ls_compacted L l \<and> ls_replay L l' = take (i - Suc (ls_compacted L l)) (ls_replay L l)"
    and ls_compacted_through: "lready l \<Longrightarrow> t \<le> u64_max \<Longrightarrow> ls_compact L t l = (l', Inr u) \<Longrightarrow>
      lready l' \<and> ls_compacted L l' = max (ls_compacted L l) t \<and> ls_replay L l' = drop (t - ls_compacted L l) (ls_replay L l)"
    and rs_staged: "sready s \<Longrightarrow> rs_stage S chunk s = (s', Inr u) \<Longrightarrow>
      sready s' \<and> rs_current S s' = rs_current S s \<and> rs_pending S s' = Some (chunk_transfer chunk)"
    and rs_promoted: "sready s \<Longrightarrow> rs_promote S snap s = (s', Inr u) \<Longrightarrow> sready s' \<and> rs_current S s' = Some snap \<and> rs_pending S s' = None"
    and rs_cleared: "sready s \<Longrightarrow> rs_clear S s = (s', Inr u) \<Longrightarrow> sready s' \<and> rs_current S s' = rs_current S s \<and> rs_pending S s' = None"
    and rs_written: "sready s \<Longrightarrow> rs_write S p s = (s', Inr u) \<Longrightarrow>
      sready s' \<and> rs_current S s' = Some (RaftSnapshot_from_payload (prs_metadata p) (prs_application_payload p)) \<and> rs_pending S s' = None"
    and rs_streamed: "sready s \<Longrightarrow> rs_write_from_source S snap source s = (s', Inr u) \<Longrightarrow>
      sready s' \<and> rs_current S s' = Some snap \<and> rs_pending S s' = None"
begin

lemma ls_above:
  assumes "lready l" "p \<in> set (ls_replay L l)"
  shows "ls_compacted L l < pe_index p"
proof -
  have "pe_index p \<in> set (map pe_index (ls_replay L l))" using assms(2) by simp
  then show ?thesis unfolding ls_contiguous [OF assms(1)] by auto
qed

lemma boundary_removed:
  assumes "lready l" "remove_conflicting_boundary L snap floor l = (l', Inr u)"
  shows "lready l' \<and> ls_compacted L l' = ls_compacted L l \<and> set (ls_replay L l') \<subseteq> set (ls_replay L l)"
proof -
  consider "l' = l" | "ls_truncate L (last_included_index (metadata snap)) l = (l', Inr u)"
    using assms(2) by (auto simp: remove_conflicting_boundary_def Let_def map_err_Inr split: if_splits)
  then show ?thesis
    using assms(1) ls_truncated [OF assms(1)] by cases (auto dest: in_set_takeD)
qed

lemma install_staged:
  assumes "lready l" "sready s" "last_included_index (metadata snap) \<le> u64_max"
    "install_staged_snapshot L S snap floor (l, s) = ((l', s'), Inr u)"
  shows "lready l' \<and> sready s' \<and> rs_current S s' = Some snap \<and> rs_pending S s' = None \<and>
    ls_compacted L l' = max (ls_compacted L l) (last_included_index (metadata snap)) \<and> set (ls_replay L l') \<subseteq> set (ls_replay L l)"
proof -
  obtain l1 v w x where b: "remove_conflicting_boundary L snap floor l = (l1, Inr v)" and p: "rs_promote S snap s = (s', Inr w)"
    and c: "ls_compact L (last_included_index (metadata snap)) l1 = (l', Inr x)"
    using assms(4) by (auto simp: install_staged_snapshot_def split: prod.splits sum.splits)
  note l1 = boundary_removed [OF assms(1) b]
  then have "lready l1" by simp
  note l' = ls_compacted_through [OF this assms(3) c]
  then have "set (ls_replay L l') \<subseteq> set (ls_replay L l1)" by (auto dest: in_set_dropD)
  with l1 l' rs_promoted [OF assms(2) p] show ?thesis by auto
qed

abbreviation ready :: "('h, 'l, 's) DurableRaftNode \<Rightarrow> bool" where
  "ready \<equiv> stores_ready hready lready sready"

lemma snapshot_output_written:
  assumes "ready d" "\<forall>s \<in> set (applied_snapshots [out]). last_included_index (metadata s) \<le> u64_max"
    "persist_snapshot_output H L S out d = (d', Inr u)"
  shows "ready d' \<and> same_kernel d d' \<and> dn_hard_state d' = dn_hard_state d \<and>
    set (ls_replay L (dn_segment d')) \<subseteq> set (ls_replay L (dn_segment d)) \<and>
    rs_pending S (dn_snapshots d') = staged_after [out] (rs_pending S (dn_snapshots d)) \<and>
    (case out of
       ApplySnapshot s \<Rightarrow> rs_current S (dn_snapshots d') = Some s \<and>
         ls_compacted L (dn_segment d') = max (ls_compacted L (dn_segment d)) (last_included_index (metadata s))
     | _ \<Rightarrow> rs_current S (dn_snapshots d') = rs_current S (dn_snapshots d) \<and> dn_segment d' = dn_segment d)"
proof (cases out)
  case (StageSnapshotChunk chunk)
  then obtain s where s: "rs_stage S chunk (dn_snapshots d) = (s, Inr u)" "d' = d\<lparr>dn_snapshots := s\<rparr>"
    using assms(3) by (cases "rs_stage S chunk (dn_snapshots d)"; cases "snd (rs_stage S chunk (dn_snapshots d))")
      (auto simp: persist_snapshot_output_def)
  with rs_staged [OF _ s(1)] assms(1) StageSnapshotChunk show ?thesis by (simp add: stores_ready_def same_kernel_def)
next
  case (ApplySnapshot snap)
  obtain l s where s: "install_staged_snapshot L S snap (hs_commit_index (hs_current H (dn_hard_state d)))
      (dn_segment d, dn_snapshots d) = ((l, s), Inr u)" "d' = d\<lparr>dn_segment := l, dn_snapshots := s\<rparr>"
    using assms(3) ApplySnapshot by (auto simp: persist_snapshot_output_def split: prod.splits)
  with install_staged [OF _ _ _ s(1)] assms(1,2) ApplySnapshot show ?thesis by (simp add: stores_ready_def same_kernel_def)
qed (use assms in \<open>auto simp: persist_snapshot_output_def same_kernel_def\<close>)

lemma snapshot_outputs_written:
  "ready d \<Longrightarrow> \<forall>s \<in> set (applied_snapshots outs). last_included_index (metadata s) \<le> b \<Longrightarrow> b \<le> u64_max \<Longrightarrow>
   ls_compacted L (dn_segment d) \<le> b \<Longrightarrow> persist_snapshot_outputs_for_step H L S outs d = (d', Inr u) \<Longrightarrow>
   ready d' \<and> same_kernel d d' \<and> dn_hard_state d' = dn_hard_state d \<and>
   set (ls_replay L (dn_segment d')) \<subseteq> set (ls_replay L (dn_segment d)) \<and> ls_compacted L (dn_segment d') \<le> b \<and>
   ls_compacted L (dn_segment d) \<le> ls_compacted L (dn_segment d') \<and>
   rs_pending S (dn_snapshots d') = staged_after outs (rs_pending S (dn_snapshots d)) \<and>
   (if applied_snapshots outs = [] then rs_current S (dn_snapshots d') = rs_current S (dn_snapshots d)
    else rs_current S (dn_snapshots d') = Some (last (applied_snapshots outs)) \<and>
      last_included_index (metadata (last (applied_snapshots outs))) \<le> ls_compacted L (dn_segment d'))"
proof (induction outs arbitrary: d)
  case Nil
  then show ?case by (simp add: same_kernel_def)
next
  case (Cons out outs)
  obtain d1 v where d1: "persist_snapshot_output H L S out d = (d1, Inr v)" "persist_snapshot_outputs_for_step H L S outs d1 = (d', Inr u)"
    using Cons.prems(5) by (auto simp: then_do_Inr)
  have "\<forall>s \<in> set (applied_snapshots [out]). last_included_index (metadata s) \<le> u64_max"
    using Cons.prems(2,3) by (auto intro: order_trans split: Output.splits)
  note one = snapshot_output_written [OF Cons.prems(1) this d1(1)]
  have "ls_compacted L (dn_segment d1) \<le> b \<and> ls_compacted L (dn_segment d) \<le> ls_compacted L (dn_segment d1)"
    using one Cons.prems(2,4) by (cases out) auto
  moreover have "\<forall>s \<in> set (applied_snapshots outs). last_included_index (metadata s) \<le> b" using Cons.prems(2) by (cases out) auto
  ultimately have rest: "ready d' \<and> same_kernel d1 d' \<and> dn_hard_state d' = dn_hard_state d1 \<and>
     set (ls_replay L (dn_segment d')) \<subseteq> set (ls_replay L (dn_segment d1)) \<and> ls_compacted L (dn_segment d') \<le> b \<and>
     ls_compacted L (dn_segment d1) \<le> ls_compacted L (dn_segment d') \<and>
     rs_pending S (dn_snapshots d') = staged_after outs (rs_pending S (dn_snapshots d1)) \<and>
     (if applied_snapshots outs = [] then rs_current S (dn_snapshots d') = rs_current S (dn_snapshots d1)
      else rs_current S (dn_snapshots d') = Some (last (applied_snapshots outs)) \<and>
        last_included_index (metadata (last (applied_snapshots outs))) \<le> ls_compacted L (dn_segment d'))"
    using Cons.IH [OF _ _ Cons.prems(3) _ d1(2)] one by blast
  have "staged_after (out # outs) t = staged_after outs (staged_after [out] t)" for t using staged_after_append [of "[out]" outs] by simp
  with rest one have "rs_pending S (dn_snapshots d') = staged_after (out # outs) (rs_pending S (dn_snapshots d))" by simp
  moreover have "same_kernel d d'" "dn_hard_state d' = dn_hard_state d" using rest one by (simp_all add: same_kernel_def)
  moreover have "ls_compacted L (dn_segment d) \<le> ls_compacted L (dn_segment d')" "set (ls_replay L (dn_segment d')) \<subseteq> set (ls_replay L (dn_segment d))"
    using rest one \<open>ls_compacted L (dn_segment d1) \<le> b \<and> ls_compacted L (dn_segment d) \<le> ls_compacted L (dn_segment d1)\<close> by auto
  moreover have "if applied_snapshots (out # outs) = [] then rs_current S (dn_snapshots d') = rs_current S (dn_snapshots d)
      else rs_current S (dn_snapshots d') = Some (last (applied_snapshots (out # outs))) \<and>
        last_included_index (metadata (last (applied_snapshots (out # outs)))) \<le> ls_compacted L (dn_segment d')"
    using rest one by (cases out) (simp_all split: if_splits)
  ultimately show ?case using rest by simp
qed

lemma staging_cleared:
  assumes "ready d" "clear_abandoned_snapshot_staging_for_step S d = (d', Inr u)"
  shows "ready d' \<and> same_kernel d d' \<and> dn_hard_state d' = dn_hard_state d \<and> dn_segment d' = dn_segment d \<and>
    rs_current S (dn_snapshots d') = rs_current S (dn_snapshots d) \<and>
    rs_pending S (dn_snapshots d') = (if pending_snapshot_transfer (dn_node d) = None then None else rs_pending S (dn_snapshots d))"
proof (cases "rs_clear S (dn_snapshots d)")
  case (Pair s r)
  with assms rs_cleared [of "dn_snapshots d" s] show ?thesis
    by (cases r) (auto simp: clear_abandoned_snapshot_staging_for_step_def stores_ready_def same_kernel_def split: if_splits)
qed

lemma hard_state_written:
  assumes "ready d" "hard_state_ok wanted" "hs_current H (dn_hard_state d) = known" "write_hard_state_for_step H wanted known d = (d', Inr u)"
  shows "ready d' \<and> same_kernel d d' \<and> dn_segment d' = dn_segment d \<and> dn_snapshots d' = dn_snapshots d \<and>
    hs_current H (dn_hard_state d') = wanted"
proof (cases "hs_write H wanted (dn_hard_state d)")
  case (Pair h r)
  with assms hs_written [of "dn_hard_state d" wanted h] show ?thesis
    by (cases r) (auto simp: write_hard_state_for_step_def stores_ready_def same_kernel_def split: if_splits)
qed

lemma log_repaired:
  assumes "lready l" "ls_compacted L l = snapshot_index n"
    and matched: "\<And>t. tail = Some t \<Longrightarrow> still_matches t n \<Longrightarrow> \<forall>p \<in> set (ls_replay L l). persists n p"
    and "repair_persisted_log_suffix L n tail floor l = (l', Inr u)"
  shows "lready l' \<and> ls_compacted L l' = snapshot_index n \<and> (\<forall>p \<in> set (ls_replay L l'). persists n p)"
proof -
  have above: "\<forall>p \<in> set (ls_replay L l). snapshot_index n < pe_index p" using ls_above [OF assms(1)] assms(2) by auto
  then have div: "first_persisted_divergence L l n = find_divergence n (ls_replay L l)"
    by (simp add: first_persisted_divergence_def filter_id_conv)
  consider (matches) t where "tail = Some t" "still_matches t n" "l' = l"
    | (agrees) "find_divergence n (ls_replay L l) = None" "l' = l"
    | (cut_off) i where "find_divergence n (ls_replay L l) = Some i" "ls_truncate L i l = (l', Inr u)"
  proof (cases "case tail of None \<Rightarrow> False | Some t \<Rightarrow> still_matches t n")
    case True
    with assms(4) that(1) show thesis by (cases tail) (simp_all add: repair_persisted_log_suffix_def)
  next
    case False
    with assms(4) have r: "(case find_divergence n (ls_replay L l) of None \<Rightarrow> (l, Inr ())
      | Some i \<Rightarrow> if i \<le> floor then (l, Inl (RuntimeLogPrefixDiverged i)) else map_err RuntimeLogTruncate (ls_truncate L i l)) = (l', Inr u)"
      by (simp add: repair_persisted_log_suffix_def div)
    show thesis
    proof (cases "find_divergence n (ls_replay L l)")
      case None
      with r have "l' = l" by simp
      with None show thesis by (rule that(2))
    next
      case (Some i)
      with r have "ls_truncate L i l = (l', Inr u)" by (simp add: map_err_Inr split: if_splits)
      with Some that(3) show thesis by blast
    qed
  qed
  then show ?thesis
  proof cases
    case matches
    then show ?thesis using assms(1,2) matched by auto
  next
    case agrees
    then show ?thesis using assms(1,2) find_divergence_None above by auto
  next
    case cut_off
    obtain as q bs where s: "ls_replay L l = as @ q # bs" "pe_index q = i" "\<forall>p \<in> set as. persists n p"
      using find_divergence_Some [OF cut_off(1) above] by auto
    have "i = Suc (snapshot_index n) + length as"
      using contiguous_nth [OF ls_contiguous [OF assms(1)], of "length as"] s(1,2) assms(2) by simp
    then have "take (i - Suc (ls_compacted L l)) (ls_replay L l) = as" using s(1) assms(2) by simp
    with ls_truncated [OF assms(1) cut_off(2)] s(3) assms(2) show ?thesis by simp
  qed
qed

lemma log_suffix_written:
  assumes "ready d" "ls_compacted L (dn_segment d) = snapshot_index (dn_node d)"
    and "\<And>t. dn_tail d = Some t \<Longrightarrow> still_matches t (dn_node d) \<Longrightarrow> \<forall>p \<in> set (ls_replay L (dn_segment d)). persists (dn_node d) p"
    and typed: "list_all entry_fits (persisted_log (dn_node d))"
    and "persist_log_suffix_for_step L floor d = (d', Inr u)"
  shows "ready d' \<and> dn_node d' = dn_node d \<and> dn_fatal d' = dn_fatal d \<and> dn_hard_state d' = dn_hard_state d \<and>
    dn_snapshots d' = dn_snapshots d \<and> dn_tail d' = Some (PersistedTail_of_node (dn_node d)) \<and>
    ls_compacted L (dn_segment d') = snapshot_index (dn_node d) \<and> ls_replay L (dn_segment d') = persisted_log (dn_node d)"
proof -
  let ?n = "dn_node d"
  obtain l1 v where l1: "repair_persisted_log_suffix L ?n (dn_tail d) floor (dn_segment d) = (l1, Inr v)"
    using assms(5) by (auto simp: persist_log_suffix_for_step_def Let_def split: prod.splits sum.splits)
  let ?es = "ls_replay L l1" and ?next = "ls_next_index L l1"
  have "lready (dn_segment d)" using assms(1) by (simp add: stores_ready_def)
  from log_repaired [OF this assms(2) assms(3) l1]
  have r: "lready l1" "ls_compacted L l1 = snapshot_index ?n" "\<forall>p \<in> set ?es. persists ?n p" by auto
  note cont = ls_contiguous [OF r(1), unfolded r(2)]
  have nxt: "?next = Suc (snapshot_index ?n) + length ?es" using ls_next [OF r(1)] r(2) by simp
  note whole = persisted_suffix [OF cont r(3), folded nxt]
  have fits: "list_all entry_fits (labelled_from ?next (log_entries_from ?n ?next))"
    using typed whole [symmetric] by (simp add: list_all_iff)
  have grown: "\<not> ?next \<le> snapshot_index ?n" using nxt by simp
  obtain l2 w where l2: "(if log_entries_from ?n ?next = [] then (l1, Inr ())
      else ls_append L (labelled_from ?next (log_entries_from ?n ?next)) l1) = (l2, Inr w)"
    and d': "d' = d\<lparr>dn_segment := l2, dn_tail := Some (PersistedTail_of_node ?n)\<rparr>"
    using assms(5) l1 grown by (auto simp: persist_log_suffix_for_step_def Let_def split: prod.splits sum.splits)
  have "lready l2 \<and> ls_compacted L l2 = snapshot_index ?n \<and> ls_replay L l2 = persisted_log ?n"
    using l2 r whole ls_appended [OF r(1) fits] by (auto split: if_splits)
  with assms(1) d' show ?thesis by (simp add: stores_ready_def)
qed

lemma old_entries_match:
  assumes "log_matching n n'" "snapshot_index n \<le> snapshot_index n'" "still_matches (PersistedTail_of_node n) n'"
    "set ps \<subseteq> set (persisted_log n)" "\<forall>p \<in> set ps. snapshot_index n' < pe_index p"
  shows "\<forall>p \<in> set ps. persists n' p"
proof
  fix p assume p: "p \<in> set ps"
  then have old: "persists n p" "snapshot_index n' < pe_index p" using assms(4,5) persisted_log_persists by auto
  have range: "snapshot_index n' < last_log_index n" "pe_index p \<le> last_log_index n" using persists_index [OF old(1)] old(2) by auto
  then obtain x where x: "entry_at n (last_log_index n) = Some x" using entry_at_defined_iff [of n "last_log_index n"] assms(2) by auto
  have "term_at n (last_log_index n) = Some (entry_term x)" using x range assms(2) by (simp add: term_at_above)
  then have "term_at n' (last_log_index n) = Some (entry_term x)"
    using assms(3) by (simp add: still_matches_def PersistedTail_of_node_def Let_def)
  then obtain y where "entry_at n' (last_log_index n) = Some y" "entry_term y = entry_term x" using range by (auto simp: term_at_above)
  with assms(1) x range old have "entry_at n' (pe_index p) = entry_at n (pe_index p)" unfolding log_matching_def by metis
  with old(1) show "persists n' p" by (simp add: persists_def)
qed

lemma stepped_synced:
  assumes "ready d" "durable_healthy H L S d" "durable_typed n'" "announced (dn_node d) (n', outs)" "log_matching (dn_node d) n'"
    "persist_stepped H L S (hs_current H (dn_hard_state d)) (Node_commit_index (dn_node d)) outs (d\<lparr>dn_node := n'\<rparr>) = (d', Inr res)"
  shows "ready d' \<and> synced H L S d' \<and> dn_node d' = n' \<and> res = resolve_snapshot_chunk_sends S (dn_snapshots d') outs \<and>
    rs_pending S (dn_snapshots d') = (if pending_snapshot_transfer n' = None then None else staged_after outs (rs_pending S (dn_snapshots d)))"
proof -
  let ?n = "dn_node d" and ?d0 = "d\<lparr>dn_node := n'\<rparr>" and ?before = "hs_current H (dn_hard_state d)"
  let ?pre = "?before\<lparr>hs_current_term := hs_current_term (hard_state_for_node n'), hs_voted_for := hs_voted_for (hard_state_for_node n')\<rparr>"
  obtain d1 u1 d2 u2 d3 u3 d4 u4 d5 u5 where
    w1: "write_hard_state_for_step H ?pre ?before ?d0 = (d1, Inr u1)" and
    w2: "persist_snapshot_outputs_for_step H L S outs d1 = (d2, Inr u2)" and
    w3: "clear_abandoned_snapshot_staging_for_step S d2 = (d3, Inr u3)" and
    w4: "persist_log_suffix_for_step L (Node_commit_index ?n) d3 = (d4, Inr u4)" and
    w5: "write_hard_state_for_step H (hard_state_for_node n') (hs_current H (dn_hard_state d4)) d4 = (d5, Inr u5)" and d': "d' = d5" and res: "res = resolve_snapshot_chunk_sends S (dn_snapshots d5) outs"
    using assms(6) by (auto simp: persist_stepped_def persist_after_fence_def Let_def poison_Inr then_do_Inr)
  have old: "hard_state_ok ?before" "rs_current S (dn_snapshots d) = Node_snapshot ?n"
    "ls_compacted L (dn_segment d) = snapshot_index ?n" "ls_replay L (dn_segment d) = persisted_log ?n" "dn_fatal d = None"
    "\<And>t. dn_tail d = Some t \<Longrightarrow> t = PersistedTail_of_node ?n"
    using assms(2) by (auto simp: durable_healthy_def log_synced_def Let_def)
  have floor: "snapshot_index ?n \<le> snapshot_index n'" "snapshot_index n' \<le> u64_max"
    using good_step_floor [of ?n "(n', outs)"] assms(3,4) by (auto simp: announced_def durable_typed_def last_log_index_def)
  have "hard_state_ok ?pre" using assms(3) old(1) by (simp add: durable_typed_def hard_state_ok_def)
  moreover have "ready ?d0" using assms(1) by (simp add: stores_ready_def)
  ultimately have s1: "ready d1 \<and> same_kernel ?d0 d1 \<and> dn_segment d1 = dn_segment d \<and> dn_snapshots d1 = dn_snapshots d"
    using hard_state_written [OF _ _ _ w1] by simp
  have s2: "ready d2 \<and> same_kernel d1 d2 \<and> set (ls_replay L (dn_segment d2)) \<subseteq> set (persisted_log ?n) \<and>
      ls_compacted L (dn_segment d2) = snapshot_index n' \<and> rs_current S (dn_snapshots d2) = Node_snapshot n' \<and>
      rs_pending S (dn_snapshots d2) = staged_after outs (rs_pending S (dn_snapshots d))"
    using snapshot_outputs_written [OF _ _ floor(2) _ w2] s1 old floor(1) assms(4)
    by (auto simp: announced_def sorted_append snapshot_index_def split: if_splits)
  then have s3: "ready d3 \<and> same_kernel d2 d3 \<and> dn_segment d3 = dn_segment d2 \<and> rs_current S (dn_snapshots d3) = Node_snapshot n' \<and>
      rs_pending S (dn_snapshots d3) = (if pending_snapshot_transfer n' = None then None else staged_after outs (rs_pending S (dn_snapshots d)))"
    using staging_cleared [OF _ w3] s1 by (simp add: same_kernel_def)
  have k: "dn_node d3 = n'" "dn_tail d3 = dn_tail d" "dn_fatal d3 = None" using s1 s2 s3 old(5) by (auto simp: same_kernel_def)
  have "\<forall>p \<in> set (ls_replay L (dn_segment d3)). snapshot_index n' < pe_index p"
    using ls_above [of "dn_segment d3"] s2 s3 by (auto simp: stores_ready_def)
  then have "\<forall>p \<in> set (ls_replay L (dn_segment d3)). persists n' p" if "dn_tail d3 = Some t" "still_matches t n'" for t
    using old_entries_match [OF assms(5) floor(1)] old(6) that k(2) s2 s3 by metis
  then have s4: "ready d4 \<and> dn_node d4 = n' \<and> dn_fatal d4 = None \<and> dn_snapshots d4 = dn_snapshots d3 \<and>
      dn_tail d4 = Some (PersistedTail_of_node n') \<and> ls_compacted L (dn_segment d4) = snapshot_index n' \<and>
      ls_replay L (dn_segment d4) = persisted_log n'"
    using log_suffix_written [OF _ _ _ _ w4] s2 s3 k assms(3) by (simp add: durable_typed_def)
  have "hard_state_ok (hard_state_for_node n')" using assms(3) by (simp add: durable_typed_def)
  with s3 s4 hard_state_written [OF _ _ refl w5] show ?thesis by (simp add: d' res synced_def log_synced_def same_kernel_def Let_def)
qed

lemma batch_synced:
  assumes "ready d" "durable_healthy H L S d" "list_all input_wf inputs" "step_batch inputs (dn_node d) = (n', outs)"
    "durable_typed n'" "log_matching (dn_node d) n'" "durable_step_batch H L S inputs d = (d', Inr res)"
  shows "ready d' \<and> synced H L S d' \<and> dn_node d' = n' \<and> durable_healthy H L S d' \<and>
    res = resolve_snapshot_chunk_sends S (dn_snapshots d') outs \<and>
    rs_pending S (dn_snapshots d') = (if pending_snapshot_transfer n' = None then None else staged_after outs (rs_pending S (dn_snapshots d)))"
proof -
  have inv: "node_inv (dn_node d)" "dn_fatal d = None" using assms(2) by (auto simp: durable_healthy_def log_synced_def Let_def)
  have a: "announced (dn_node d) (n', outs)" using announced_step_batch [OF inv(1) assms(3)] assms(4) by simp
  have "persist_stepped H L S (hs_current H (dn_hard_state d)) (Node_commit_index (dn_node d)) outs (d\<lparr>dn_node := n'\<rparr>) = (d', Inr res)"
    using assms(7) assms(4) inv(2) by (simp add: durable_step_batch_eq step_and_persist_def Let_def)
  from stepped_synced [OF assms(1,2,5) a assms(6) this] announced_inv [OF a] synced_healthy [of H L S d'] assms(5) show ?thesis by simp
qed

lemma compaction_synced:
  assumes "ready d" "log_synced L S d" "node_inv (dn_node d)" "durable_typed (dn_node d)"
    and put: "\<And>s s' u. sready s \<Longrightarrow> put s = (s', Inr u) \<Longrightarrow> sready s' \<and> rs_current S s' = Some snap \<and> rs_pending S s' = None"
    and declared: "meta_committed_configuration (metadata snap) = Some c" and wf: "metadata_wf (metadata snap)"
    and success: "compact_after_write L put snap d = (d', Inr retired)"
  shows "ready d' \<and> log_synced L S d' \<and> dn_hard_state d' = dn_hard_state d \<and> Node_snapshot (dn_node d') = Some snap \<and>
    retired @ Node_log (dn_node d') = Node_log (dn_node d) \<and> good (dn_node d) (dn_node d') \<and>
    effective_membership (dn_node d') = effective_membership (dn_node d)"
proof -
  let ?n = "dn_node d" and ?b = "last_included_index (metadata snap)"
  obtain p s u l v n' outs where p: "prepare_local_snapshot_install ?n snap = Inr p" and s: "put (dn_snapshots d) = (s, Inr u)"
    and l: "ls_compact L ?b (dn_segment d) = (l, Inr v)" and n': "commit_with_retired_entries p ?n = (n', outs, retired)"
    and d': "d' = d\<lparr>dn_snapshots := s, dn_segment := l, dn_node := n'\<rparr>"
    using compact_after_write_Inr [OF success] by blast
  note kernel = compacted_kernel [OF assms(3) wf p n']
  have old: "ls_compacted L (dn_segment d) = snapshot_index ?n" "ls_replay L (dn_segment d) = persisted_log ?n" "dn_fatal d = None"
    "\<And>t. dn_tail d = Some t \<Longrightarrow> t = PersistedTail_of_node ?n" using assms(2) by (auto simp: log_synced_def Let_def)
  have "?b \<le> u64_max" using kernel(3) assms(4) by (simp add: durable_typed_def)
  moreover have "lready (dn_segment d)" using assms(1) by (simp add: stores_ready_def)
  ultimately have l': "lready l \<and> ls_compacted L l = snapshot_index n' \<and> ls_replay L l = persisted_log n'"
    using ls_compacted_through [OF _ _ l] old kernel(2,4,5) by simp
  have "sready s \<and> rs_current S s = Some snap \<and> rs_pending S s = None" using put [OF _ s] assms(1) by (simp add: stores_ready_def)
  with l' kernel old(3,4) assms(1) compacted_membership [OF assms(3) p n' declared] show ?thesis
    by (simp add: d' stores_ready_def log_synced_def Let_def)
qed

end

end
