(* ===== verification/Durable_Crash.thy ===== *)
theory Durable_Crash
  imports Durable_Safety
begin

text \<open>
  Crashes in the middle of a batch. Stores that fail at any point of any write, and are reopened
  afterwards, still hold everything that was committed before the batch: an extension of the contract of the
  stores by what reopening finds after a failed write, with the stores of the storage crate as instances.
\<close>

section \<open>Committed entries in a log and a snapshot\<close>

definition snapshot_boundary :: "RaftSnapshot option \<Rightarrow> LogIndex" where
  "snapshot_boundary snap = (case snap of None \<Rightarrow> 0 | Some s \<Rightarrow> last_included_index (metadata s))"

lemma snapshot_boundary_node: "snapshot_boundary (Node_snapshot n) = snapshot_index n"
  by (simp add: snapshot_boundary_def snapshot_index_def)

text \<open>
  A compaction floor, the entries above it and a snapshot that together still hold what the node had
  committed: every committed entry above the floor, and a snapshot of everything up to the floor.
\<close>

definition keeps_committed :: "Node \<Rightarrow> LogIndex \<Rightarrow> PersistedRaftLogEntry list \<Rightarrow> RaftSnapshot option \<Rightarrow> bool" where
  "keeps_committed n c es snap \<longleftrightarrow> snapshot_index n \<le> c \<and> c \<le> snapshot_boundary snap \<and>
     (\<forall>p \<in> set (persisted_log n). pe_index p \<le> Node_commit_index n \<longrightarrow> c < pe_index p \<longrightarrow> p \<in> set es)"

lemma keeps_take:
  assumes "map pe_index es = [Suc c..<Suc c + length es]" "keeps_committed n c es snap" "Node_commit_index n < i"
  shows "keeps_committed n c (take (i - Suc c) es) snap"
proof -
  have "p \<in> set (take (i - Suc c) es)" if "p \<in> set es" "pe_index p < i" for p
  proof -
    obtain k where k: "k < length es" "es ! k = p" using \<open>p \<in> set es\<close> by (auto simp: in_set_conv_nth)
    with contiguous_nth [OF assms(1) k(1)] that(2) have "k < i - Suc c" by simp
    with k show ?thesis by (auto simp: in_set_conv_nth intro!: exI [of _ k])
  qed
  with assms(2,3) show ?thesis by (fastforce simp: keeps_committed_def)
qed

lemma keeps_drop:
  assumes "map pe_index es = [Suc c..<Suc c + length es]" "keeps_committed n c es snap" "b \<le> snapshot_boundary snap"
  shows "keeps_committed n (max c b) (drop (b - c) es) snap"
proof -
  have "p \<in> set (drop (b - c) es)" if "p \<in> set es" "b < pe_index p" for p
  proof -
    obtain k where k: "k < length es" "es ! k = p" using \<open>p \<in> set es\<close> by (auto simp: in_set_conv_nth)
    with contiguous_nth [OF assms(1) k(1)] that(2) have "b - c \<le> k" by simp
    with k show ?thesis by (auto simp: in_set_conv_nth intro!: exI [of _ "k - (b - c)"])
  qed
  with assms(2,3) show ?thesis by (fastforce simp: keeps_committed_def)
qed

lemma keeps_append: "keeps_committed n c es snap \<Longrightarrow> keeps_committed n c (es @ xs) snap"
  by (auto simp: keeps_committed_def)

lemma keeps_snapshot: "keeps_committed n c es snap \<Longrightarrow> snapshot_boundary snap \<le> snapshot_boundary snap' \<Longrightarrow> keeps_committed n c es snap'"
  by (auto simp: keeps_committed_def)

lemma keeps_next:
  assumes "map pe_index es = [Suc c..<Suc c + length es]" "keeps_committed n c es snap" "node_inv n"
  shows "Node_commit_index n < Suc c + length es"
proof (cases "Node_commit_index n \<le> c")
  case False
  have "Node_commit_index n \<le> last_log_index n" "snapshot_index n < Node_commit_index n"
    using assms(2,3) False by (auto simp: node_inv_def geometry_ok_def keeps_committed_def)
  then have k: "Node_commit_index n - Suc (snapshot_index n) < length (Node_log n)" by (auto simp: last_log_index_def)
  let ?p = "persisted_log n ! (Node_commit_index n - Suc (snapshot_index n))"
  have "?p \<in> set (persisted_log n)" using k by (intro nth_mem) (simp add: persisted_log_def)
  moreover have "pe_index ?p = Node_commit_index n"
    using k \<open>snapshot_index n < _\<close> by (simp add: persisted_log_def labelled_from_nth)
  ultimately have "Node_commit_index n \<in> set (map pe_index es)" using assms(2) False by (force simp: keeps_committed_def)
  then show ?thesis unfolding assms(1) by auto
qed simp

lemma labelled_suffix_fits:
  assumes "durable_typed n" "snapshot_index n < i"
  shows "list_all entry_fits (labelled_from i (log_entries_from n i))"
proof -
  let ?k = "i - Suc (snapshot_index n)"
  have "labelled_from i (log_entries_from n i) = drop ?k (persisted_log n)"
    by (rule nth_equalityI) (use assms(2) in \<open>simp_all add: log_entries_from_above persisted_log_def labelled_from_nth\<close>)
  then show ?thesis using assms(1) by (auto simp: durable_typed_def list_all_iff dest: in_set_dropD)
qed

text \<open>The hard states a batch writes: term and vote with the old commit index, then everything.\<close>

definition fenced :: "RaftHardState \<Rightarrow> Node \<Rightarrow> RaftHardState" where
  "fenced before n = before\<lparr>hs_current_term := Node_current_term n, hs_voted_for := Node_voted_for n\<rparr>"

lemma snapshot_outputs_node: "persist_snapshot_outputs_for_step H L S outs d = (d', r) \<Longrightarrow> dn_node d' = dn_node d"
proof (induction outs arbitrary: d)
  case (Cons out outs)
  obtain d1 r1 where d1: "persist_snapshot_output H L S out d = (d1, r1)" by fastforce
  then have "dn_node d1 = dn_node d" by (auto simp: persist_snapshot_output_def split: Output.splits prod.splits)
  with Cons d1 show ?case by (cases r1) (auto simp: then_do_def)
qed simp

lemma poison_stores:
  "poison r = (d, Inl e) \<Longrightarrow> \<exists>dx. r = (dx, Inl e) \<and> dn_hard_state d = dn_hard_state dx \<and> dn_segment d = dn_segment dx \<and>
     dn_snapshots d = dn_snapshots dx"
  by (cases r; cases "snd r") (auto simp: poison_def split: option.splits)

section \<open>Reopening after a failed write\<close>

locale crash_stores = durable_stores H L S hready lready sready
  for H :: "'h RaftHardStateStore" and L :: "'l RaftLogSegment" and S :: "'s RaftSnapshotStore"
    and hready :: "'h \<Rightarrow> bool" and lready :: "'l \<Rightarrow> bool" and sready :: "'s \<Rightarrow> bool" +
  fixes hreopen :: "'h \<Rightarrow> 'h option" and lreopen :: "LogIndex \<Rightarrow> 'l \<Rightarrow> 'l option"
  assumes hs_reopen: "hready h \<Longrightarrow> hreopen h = Some h"
    and hs_failed: "hready h \<Longrightarrow> hard_state_ok st \<Longrightarrow> hs_write H st h = (h', Inl e) \<Longrightarrow>
      \<exists>h2. hreopen h' = Some h2 \<and> hready h2 \<and> hs_current H h2 \<in> {hs_current H h, st}"
    and ls_reopen: "lready l \<Longrightarrow> lreopen k l = Some l"
    and ls_append_failed: "lready l \<Longrightarrow> list_all entry_fits es \<Longrightarrow> k < ls_next_index L l \<Longrightarrow> ls_append L es l = (l', Inl e1) \<Longrightarrow>
      \<exists>l2 j. lreopen k l' = Some l2 \<and> lready l2 \<and> ls_compacted L l2 = ls_compacted L l \<and> ls_replay L l2 = ls_replay L l @ take j es"
    and ls_truncate_failed: "lready l \<Longrightarrow> k < ls_next_index L l \<Longrightarrow> ls_truncate L i l = (l', Inl e2) \<Longrightarrow>
      \<exists>l2. lreopen k l' = Some l2 \<and> lready l2 \<and> ls_compacted L l2 = ls_compacted L l \<and>
        ls_replay L l2 \<in> {ls_replay L l, take (i - Suc (ls_compacted L l)) (ls_replay L l)}"
    and ls_compact_failed: "lready l \<Longrightarrow> t \<le> u64_max \<Longrightarrow> k < ls_next_index L l \<Longrightarrow> ls_compact L t l = (l', Inl e3) \<Longrightarrow>
      \<exists>l2. lreopen k l' = Some l2 \<and> lready l2 \<and>
        (ls_compacted L l2, ls_replay L l2) \<in>
          {(ls_compacted L l, ls_replay L l), (max (ls_compacted L l) t, drop (t - ls_compacted L l) (ls_replay L l))}"
    and rs_stage_failed: "sready s \<Longrightarrow> rs_stage S chunk s = (s', Inl e4) \<Longrightarrow> sready s' \<and> rs_current S s' = rs_current S s"
    and rs_promote_failed: "sready s \<Longrightarrow> rs_promote S snap s = (s', Inl e4) \<Longrightarrow> sready s' \<and> rs_current S s' = rs_current S s"
    and rs_clear_failed: "sready s \<Longrightarrow> rs_clear S s = (s', Inl e4) \<Longrightarrow> sready s' \<and> rs_current S s' = rs_current S s"
begin

text \<open>While a batch is written: healthy stores that hold a hard state with the old commit index and all of the old committed entries.\<close>

abbreviation writing :: "Node \<Rightarrow> 'h \<Rightarrow> 'l \<Rightarrow> 's \<Rightarrow> bool" where
  "writing n h l s \<equiv> hready h \<and> lready l \<and> sready s \<and> hs_commit_index (hs_current H h) = Node_commit_index n \<and>
     keeps_committed n (ls_compacted L l) (ls_replay L l) (rs_current S s)"

text \<open>A log that was left by a failed write and is found by reopening.\<close>

abbreviation recovers :: "Node \<Rightarrow> LogIndex \<Rightarrow> 'l \<Rightarrow> 's \<Rightarrow> bool" where
  "recovers n k l s \<equiv> sready s \<and> (\<exists>l2. lreopen k l = Some l2 \<and> lready l2 \<and>
     keeps_committed n (ls_compacted L l2) (ls_replay L l2) (rs_current S s))"

lemma recovers_ready: "lready l \<Longrightarrow> sready s \<Longrightarrow> keeps_committed n (ls_compacted L l) (ls_replay L l) (rs_current S s) \<Longrightarrow> recovers n k l s"
  using ls_reopen by blast

lemma next_above:
  assumes "node_inv n" "lready l" "keeps_committed n (ls_compacted L l) (ls_replay L l) snap"
  shows "Node_commit_index n < ls_next_index L l"
  using keeps_next [OF ls_contiguous [OF assms(2)] assms(3,1)] ls_next [OF assms(2)] by simp

lemma truncate_keeps:
  assumes "node_inv n" "writing n h l s" "Node_commit_index n < i" "ls_truncate L i l = (l', r)"
  shows "case r of Inl _ \<Rightarrow> recovers n (Node_commit_index n) l' s | Inr _ \<Rightarrow> writing n h l' s"
proof (cases r)
  case (Inl e)
  have w: "lready l" "sready s" "keeps_committed n (ls_compacted L l) (ls_replay L l) (rs_current S s)" using assms(2) by auto
  from ls_truncate_failed [OF w(1) next_above [OF assms(1) w(1,3)] assms(4) [unfolded Inl]] obtain l2 where
    l2: "lreopen (Node_commit_index n) l' = Some l2" "lready l2" "ls_compacted L l2 = ls_compacted L l"
      "ls_replay L l2 \<in> {ls_replay L l, take (i - Suc (ls_compacted L l)) (ls_replay L l)}" by blast
  then have "keeps_committed n (ls_compacted L l2) (ls_replay L l2) (rs_current S s)"
    using w(3) keeps_take [OF ls_contiguous [OF w(1)] w(3) assms(3)] by auto
  with l2(1,2) w(2) Inl show ?thesis by auto
next
  case (Inr u)
  with assms(2,4) ls_truncated [of l i l'] keeps_take [OF ls_contiguous, of l n "rs_current S s" i] assms(3) show ?thesis by auto
qed

lemma compact_keeps:
  assumes "node_inv n" "writing n h l s" "t \<le> snapshot_boundary (rs_current S s)" "t \<le> u64_max" "ls_compact L t l = (l', r)"
  shows "case r of Inl _ \<Rightarrow> recovers n (Node_commit_index n) l' s | Inr _ \<Rightarrow> writing n h l' s"
proof (cases r)
  case (Inl e)
  have w: "lready l" "sready s" "keeps_committed n (ls_compacted L l) (ls_replay L l) (rs_current S s)" using assms(2) by auto
  from ls_compact_failed [OF w(1) assms(4) next_above [OF assms(1) w(1,3)] assms(5) [unfolded Inl]] obtain l2 where
    l2: "lreopen (Node_commit_index n) l' = Some l2" "lready l2" "(ls_compacted L l2, ls_replay L l2) \<in>
      {(ls_compacted L l, ls_replay L l), (max (ls_compacted L l) t, drop (t - ls_compacted L l) (ls_replay L l))}" by blast
  then have "keeps_committed n (ls_compacted L l2) (ls_replay L l2) (rs_current S s)"
    using w(3) keeps_drop [OF ls_contiguous [OF w(1)] w(3) assms(3)] by auto
  with l2(1,2) w(2) Inl show ?thesis by auto
next
  case (Inr u)
  with assms ls_compacted_through [of l t l'] keeps_drop [OF ls_contiguous, of l n "rs_current S s" t] show ?thesis by auto
qed

lemma boundary_keeps:
  assumes "node_inv n" "writing n h l s" "remove_conflicting_boundary L snap (Node_commit_index n) l = (l', r)"
  shows "case r of Inl _ \<Rightarrow> recovers n (Node_commit_index n) l' s | Inr _ \<Rightarrow> writing n h l' s"
proof -
  let ?b = "last_included_index (metadata snap)"
  obtain l1 q where t: "ls_truncate L ?b l = (l1, q)" by fastforce
  consider "l' = l" | "Node_commit_index n < ?b" "l' = l1" "isl r = isl q"
    using assms(3) t by (cases q) (auto simp: remove_conflicting_boundary_def Let_def map_err_def split: if_splits)
  then show ?thesis
  proof cases
    case 1
    then show ?thesis using assms(2) ls_reopen by (auto split: sum.split)
  next
    case 2
    then show ?thesis using truncate_keeps [OF assms(1,2) 2(1) t] by (cases r; cases q) auto
  qed
qed

lemma install_keeps:
  assumes "node_inv n" "writing n h l s" "last_included_index (metadata snap) \<le> u64_max"
    "snapshot_boundary (rs_current S s) \<le> last_included_index (metadata snap)"
    "install_staged_snapshot L S snap (Node_commit_index n) (l, s) = ((l', s'), r)"
  shows "case r of Inl _ \<Rightarrow> recovers n (Node_commit_index n) l' s'
    | Inr _ \<Rightarrow> writing n h l' s' \<and> rs_current S s' = Some snap"
proof -
  obtain l1 r1 where l1: "remove_conflicting_boundary L snap (Node_commit_index n) l = (l1, r1)" by fastforce
  obtain s1 r2 where s1: "rs_promote S snap s = (s1, r2)" by fastforce
  obtain l2 r3 where l2: "ls_compact L (last_included_index (metadata snap)) l1 = (l2, r3)" by fastforce
  note b = boundary_keeps [OF assms(1,2) l1]
  show ?thesis
  proof (cases r1)
    case (Inl e)
    with b assms(5) l1 show ?thesis by (auto simp: install_staged_snapshot_def)
  next
    case r1: (Inr u)
    with b have w: "writing n h l1 s" by simp
    show ?thesis
    proof (cases r2)
      case (Inl e)
      with rs_promote_failed [of s snap s1 e] w s1 have "sready s1 \<and> rs_current S s1 = rs_current S s" by simp
      with w ls_reopen r1 Inl l1 s1 assms(5) show ?thesis by (auto simp: install_staged_snapshot_def)
    next
      case r2: (Inr v)
      with rs_promoted [of s snap s1] w s1 have p: "sready s1" "rs_current S s1 = Some snap" by auto
      then have "keeps_committed n (ls_compacted L l1) (ls_replay L l1) (rs_current S s1)"
        using keeps_snapshot [of n _ _ "rs_current S s" "Some snap"] w assms(4) by (simp add: snapshot_boundary_def)
      then have "writing n h l1 s1" using w p by simp
      from compact_keeps [OF assms(1) this _ assms(3) l2] p assms(5) l1 s1 l2 r1 r2 show ?thesis
        by (cases r3) (auto simp: install_staged_snapshot_def snapshot_boundary_def)
    qed
  qed
qed

abbreviation writing_node :: "Node \<Rightarrow> ('h, 'l, 's) DurableRaftNode \<Rightarrow> bool" where
  "writing_node n d \<equiv> writing n (dn_hard_state d) (dn_segment d) (dn_snapshots d)"

abbreviation recovers_node :: "Node \<Rightarrow> RaftHardState set \<Rightarrow> ('h, 'l, 's) DurableRaftNode \<Rightarrow> bool" where
  "recovers_node n sts d \<equiv> \<exists>h2. hreopen (dn_hard_state d) = Some h2 \<and> hready h2 \<and> hs_current H h2 \<in> sts \<and>
     recovers n (hs_commit_index (hs_current H h2)) (dn_segment d) (dn_snapshots d)"

lemma recovers_hard: "hready (dn_hard_state d) \<Longrightarrow> hs_current H (dn_hard_state d) = st \<Longrightarrow>
    recovers n (hs_commit_index st) (dn_segment d) (dn_snapshots d) \<Longrightarrow> recovers_node n {st} d"
  using hs_reopen by blast

lemma snapshot_output_keeps:
  assumes "node_inv n" "writing_node n d" "\<forall>s \<in> set (applied_snapshots [out]). last_included_index (metadata s) \<le> u64_max \<and>
      snapshot_boundary (rs_current S (dn_snapshots d)) \<le> last_included_index (metadata s)"
    "persist_snapshot_output H L S out d = (d', r)"
  shows "dn_hard_state d' = dn_hard_state d \<and> (case r of
      Inl _ \<Rightarrow> recovers n (Node_commit_index n) (dn_segment d') (dn_snapshots d')
    | Inr _ \<Rightarrow> writing_node n d' \<and> rs_current S (dn_snapshots d') =
        (case out of ApplySnapshot s \<Rightarrow> Some s | _ \<Rightarrow> rs_current S (dn_snapshots d)))"
proof (cases out)
  case (StageSnapshotChunk chunk)
  obtain s1 q where s1: "rs_stage S chunk (dn_snapshots d) = (s1, q)" by fastforce
  have "sready s1 \<and> rs_current S s1 = rs_current S (dn_snapshots d)"
    using rs_staged [of "dn_snapshots d" chunk s1] rs_stage_failed [of "dn_snapshots d" chunk s1] s1 assms(2) by (cases q) auto
  moreover have "d' = d\<lparr>dn_snapshots := s1\<rparr>" using assms(4) StageSnapshotChunk s1 by (simp add: persist_snapshot_output_def)
  ultimately show ?thesis using assms(2) ls_reopen StageSnapshotChunk by (auto split: sum.split)
next
  case (ApplySnapshot snap)
  obtain l1 s1 q where i: "install_staged_snapshot L S snap (hs_commit_index (hs_current H (dn_hard_state d))) (dn_segment d, dn_snapshots d) =
      ((l1, s1), q)" by (metis surj_pair)
  then have d': "d' = d\<lparr>dn_segment := l1, dn_snapshots := s1\<rparr>" "r = q"
    using assms(4) ApplySnapshot by (simp_all add: persist_snapshot_output_def)
  have "install_staged_snapshot L S snap (Node_commit_index n) (dn_segment d, dn_snapshots d) = ((l1, s1), q)" using i assms(2) by simp
  from install_keeps [OF assms(1,2) _ _ this] assms(3) ApplySnapshot d' show ?thesis by (auto split: sum.splits)
qed (use assms ls_reopen in \<open>auto simp: persist_snapshot_output_def\<close>)

lemma snapshot_outputs_keep:
  "node_inv n \<Longrightarrow> writing_node n d \<Longrightarrow> \<forall>s \<in> set (applied_snapshots outs). last_included_index (metadata s) \<le> u64_max \<Longrightarrow>
   sorted (snapshot_boundary (rs_current S (dn_snapshots d)) # map (\<lambda>s. last_included_index (metadata s)) (applied_snapshots outs)) \<Longrightarrow>
   persist_snapshot_outputs_for_step H L S outs d = (d', r) \<Longrightarrow>
   dn_hard_state d' = dn_hard_state d \<and> (case r of
      Inl _ \<Rightarrow> recovers n (Node_commit_index n) (dn_segment d') (dn_snapshots d') | Inr _ \<Rightarrow> writing_node n d')"
proof (induction outs arbitrary: d)
  case Nil
  then show ?case by auto
next
  case (Cons out outs)
  obtain d1 r1 where d1: "persist_snapshot_output H L S out d = (d1, r1)" by fastforce
  have "\<forall>s \<in> set (applied_snapshots [out]). last_included_index (metadata s) \<le> u64_max \<and>
      snapshot_boundary (rs_current S (dn_snapshots d)) \<le> last_included_index (metadata s)"
    using Cons.prems(3,4) by (cases out) auto
  note one = snapshot_output_keeps [OF Cons.prems(1,2) this d1]
  show ?case
  proof (cases r1)
    case (Inl e)
    with one d1 Cons.prems(5) show ?thesis by (auto simp: then_do_def)
  next
    case (Inr u)
    with one have w: "writing_node n d1" "dn_hard_state d1 = dn_hard_state d"
      "rs_current S (dn_snapshots d1) = (case out of ApplySnapshot s \<Rightarrow> Some s | _ \<Rightarrow> rs_current S (dn_snapshots d))" by auto
    have "sorted (snapshot_boundary (rs_current S (dn_snapshots d1)) # map (\<lambda>s. last_included_index (metadata s)) (applied_snapshots outs))"
      using Cons.prems(4) w(3) by (cases out) (auto simp: snapshot_boundary_def)
    moreover have "\<forall>s \<in> set (applied_snapshots outs). last_included_index (metadata s) \<le> u64_max" using Cons.prems(3) by auto
    moreover have "persist_snapshot_outputs_for_step H L S outs d1 = (d', r)" using Cons.prems(5) d1 Inr by (simp add: then_do_def)
    ultimately show ?thesis using Cons.IH [OF Cons.prems(1) w(1)] w(2) by simp
  qed
qed

lemma clear_keeps:
  assumes "writing_node n d" "clear_abandoned_snapshot_staging_for_step S d = (d', r)"
  shows "dn_hard_state d' = dn_hard_state d \<and> dn_segment d' = dn_segment d \<and> dn_node d' = dn_node d \<and> writing_node n d'"
proof -
  obtain s1 q where s1: "rs_clear S (dn_snapshots d) = (s1, q)" by fastforce
  have "sready s1 \<and> rs_current S s1 = rs_current S (dn_snapshots d)"
    using rs_cleared [of "dn_snapshots d" s1] rs_clear_failed [of "dn_snapshots d" s1] s1 assms(1) by (cases q) auto
  with assms s1 show ?thesis by (auto simp: clear_abandoned_snapshot_staging_for_step_def split: if_splits)
qed

lemma append_keeps:
  assumes "node_inv n" "writing n h l s" "list_all entry_fits es" "ls_append L es l = (l', r)"
  shows "case r of Inl _ \<Rightarrow> recovers n (Node_commit_index n) l' s | Inr _ \<Rightarrow> writing n h l' s"
proof (cases r)
  case (Inl e)
  have w: "lready l" "sready s" "keeps_committed n (ls_compacted L l) (ls_replay L l) (rs_current S s)" using assms(2) by auto
  from ls_append_failed [OF w(1) assms(3) next_above [OF assms(1) w(1,3)] assms(4) [unfolded Inl]] obtain l2 j where
    l2: "lreopen (Node_commit_index n) l' = Some l2" "lready l2" "ls_compacted L l2 = ls_compacted L l"
      "ls_replay L l2 = ls_replay L l @ take j es" by blast
  with keeps_append [OF w(3)] w(2) Inl show ?thesis by auto
next
  case (Inr u)
  with assms ls_appended [of l es l'] keeps_append show ?thesis by auto
qed

lemma repair_keeps:
  assumes "node_inv n" "writing n h l s" "repair_persisted_log_suffix L n' tail (Node_commit_index n) l = (l', r)"
  shows "case r of Inl _ \<Rightarrow> recovers n (Node_commit_index n) l' s | Inr _ \<Rightarrow> writing n h l' s"
proof -
  have same: "case r of Inl _ \<Rightarrow> recovers n (Node_commit_index n) l' s | Inr _ \<Rightarrow> writing n h l' s" if "l' = l"
    using assms(2) ls_reopen that by (auto split: sum.split)
  show ?thesis
  proof (cases "(case tail of None \<Rightarrow> False | Some t \<Rightarrow> still_matches t n') \<or> first_persisted_divergence L l n' = None")
    case True
    then have "l' = l" using assms(3) by (auto simp: repair_persisted_log_suffix_def split: if_splits)
    then show ?thesis by (rule same)
  next
    case False
    then obtain i where i: "first_persisted_divergence L l n' = Some i" by auto
    obtain l1 q where t: "ls_truncate L i l = (l1, q)" by fastforce
    show ?thesis
    proof (cases "i \<le> Node_commit_index n")
      case True
      with False i have "l' = l" using assms(3) by (simp add: repair_persisted_log_suffix_def)
      then show ?thesis by (rule same)
    next
      case above: False
      with False i t have "l' = l1" "isl r = isl q"
        using assms(3) by (cases q; simp add: repair_persisted_log_suffix_def map_err_def; fastforce)+
      then show ?thesis using truncate_keeps [OF assms(1,2) _ t] above by (cases r; cases q) auto
    qed
  qed
qed

lemma suffix_keeps:
  assumes "node_inv n" "writing_node n d" "durable_typed (dn_node d)" "persist_log_suffix_for_step L (Node_commit_index n) d = (d', r)"
  shows "dn_hard_state d' = dn_hard_state d \<and> dn_node d' = dn_node d \<and>
    (case r of Inl _ \<Rightarrow> recovers n (Node_commit_index n) (dn_segment d') (dn_snapshots d') | Inr _ \<Rightarrow> writing_node n d')"
proof -
  let ?n = "dn_node d" and ?h = "dn_hard_state d" and ?s = "dn_snapshots d"
  obtain l1 r1 where l1: "repair_persisted_log_suffix L ?n (dn_tail d) (Node_commit_index n) (dn_segment d) = (l1, r1)" by fastforce
  let ?first = "ls_next_index L l1"
  let ?es = "log_entries_from ?n ?first"
  obtain l2 r2 where l2: "(if ?es = [] then (l1, Inr ()) else ls_append L (labelled_from ?first ?es) l1) = (l2, r2)" by fastforce
  note rep = repair_keeps [OF assms(1,2) l1]
  show ?thesis
  proof (cases r1)
    case (Inl e)
    with rep l1 assms(4) show ?thesis by (auto simp: persist_log_suffix_for_step_def)
  next
    case (Inr u)
    with rep have w: "writing n ?h l1 ?s" by simp
    show ?thesis
    proof (cases "?first \<le> snapshot_index ?n")
      case True
      with w Inr l1 assms(4) ls_reopen show ?thesis by (auto simp: persist_log_suffix_for_step_def Let_def)
    next
      case False
      have "case r2 of Inl _ \<Rightarrow> recovers n (Node_commit_index n) l2 ?s | Inr _ \<Rightarrow> writing n ?h l2 ?s"
      proof (cases "?es = []")
        case True
        with l2 w show ?thesis by auto
      next
        case es: False
        with l2 have "ls_append L (labelled_from ?first ?es) l1 = (l2, r2)" by simp
        from append_keeps [OF assms(1) w labelled_suffix_fits [OF assms(3)] this] False show ?thesis by simp
      qed
      with False Inr l1 l2 assms(4) show ?thesis by (cases r2) (auto simp: persist_log_suffix_for_step_def Let_def)
    qed
  qed
qed

lemma write_keeps:
  assumes "stores_ready hready lready sready d" "hard_state_ok wanted"
    "keeps_committed n (ls_compacted L (dn_segment d)) (ls_replay L (dn_segment d)) (rs_current S (dn_snapshots d))"
    "write_hard_state_for_step H wanted (hs_current H (dn_hard_state d)) d = (d', r)"
  shows "case r of Inl _ \<Rightarrow> recovers_node n {hs_current H (dn_hard_state d), wanted} d'
    | Inr _ \<Rightarrow> hready (dn_hard_state d') \<and> hs_current H (dn_hard_state d') = wanted \<and>
        dn_segment d' = dn_segment d \<and> dn_snapshots d' = dn_snapshots d \<and> dn_node d' = dn_node d"
proof (cases r)
  case (Inl e)
  obtain h' e' where h': "hs_write H wanted (dn_hard_state d) = (h', Inl e')" "d' = d\<lparr>dn_hard_state := h'\<rparr>"
    using assms(4) Inl by (cases "hs_write H wanted (dn_hard_state d)"; cases "snd (hs_write H wanted (dn_hard_state d))")
      (auto simp: write_hard_state_for_step_def split: if_splits)
  from hs_failed [OF _ assms(2) h'(1)] assms(1) obtain h2 where "hreopen h' = Some h2" "hready h2"
    "hs_current H h2 \<in> {hs_current H (dn_hard_state d), wanted}" by (auto simp: stores_ready_def)
  moreover have "recovers n k (dn_segment d) (dn_snapshots d)" for k using assms(1,3) ls_reopen by (auto simp: stores_ready_def)
  ultimately show ?thesis using h'(2) Inl by auto
next
  case (Inr u)
  with hard_state_written [OF assms(1,2) refl, of d' u] assms(4) show ?thesis by (simp add: stores_ready_def same_kernel_def)
qed

lemma fenced_recovers:
  assumes "node_inv n" "writing_node n d" "hs_current H (dn_hard_state d) = st" "durable_typed (dn_node d)"
    "\<forall>s \<in> set (applied_snapshots outs). last_included_index (metadata s) \<le> u64_max"
    "sorted (snapshot_boundary (rs_current S (dn_snapshots d)) # map (\<lambda>s. last_included_index (metadata s)) (applied_snapshots outs))"
    "persist_after_fence H L S (hard_state_for_node (dn_node d)) (Node_commit_index n) outs d = (d', Inl e)"
  shows "recovers_node n {st, hard_state_for_node (dn_node d)} d'"
proof -
  let ?current = "hard_state_for_node (dn_node d)"
  have c: "hs_commit_index st = Node_commit_index n" using assms(2,3) by simp
  have old: "recovers_node n {st, ?current} dx"
    if "dn_hard_state dx = dn_hard_state d" "recovers n (Node_commit_index n) (dn_segment dx) (dn_snapshots dx)" for dx
    using recovers_hard [of dx st n] assms(2,3) that c by auto
  obtain d2 r2 where w2: "persist_snapshot_outputs_for_step H L S outs d = (d2, r2)" by fastforce
  note k2 = snapshot_outputs_keep [OF assms(1,2,5,6) w2]
  show ?thesis
  proof (cases r2)
    case (Inl e2)
    then have "d' = d2" using assms(7) w2 by (simp add: persist_after_fence_def then_do_def)
    then show ?thesis using k2 Inl old [of d2] by simp
  next
    case r2: (Inr u2)
    obtain d3 r3 where w3: "clear_abandoned_snapshot_staging_for_step S d2 = (d3, r3)" by fastforce
    have w: "writing_node n d2" "dn_node d2 = dn_node d" using k2 r2 assms(2) snapshot_outputs_node [OF w2] by simp_all
    note k3 = clear_keeps [OF w(1) w3]
    show ?thesis
    proof (cases r3)
      case (Inl e3)
      then have "d' = d3" using assms(7) w2 r2 w3 by (simp add: persist_after_fence_def then_do_def)
      then show ?thesis using k2 k3 old [of d3] ls_reopen by auto
    next
      case r3: (Inr u3)
      obtain d4 r4 where w4: "persist_log_suffix_for_step L (Node_commit_index n) d3 = (d4, r4)" by fastforce
      have typed: "durable_typed (dn_node d3)" "writing_node n d3" using k3 w(2) assms(4) by auto
      note k4 = suffix_keeps [OF assms(1) typed(2,1) w4]
      obtain d5 r5 where w5: "write_hard_state_for_step H ?current (hs_current H (dn_hard_state d4)) d4 = (d5, r5)" by fastforce
      have tail: "(d', Inl e) = then_do (d4, r4) (\<lambda>_ d. then_do (write_hard_state_for_step H ?current (hs_current H (dn_hard_state d)) d)
          (\<lambda>_ d. (d, Inr (resolve_snapshot_chunk_sends S (dn_snapshots d) outs))))"
        using assms(7) w2 r2 w3 r3 w4 by (simp add: persist_after_fence_def then_do_def)
      show ?thesis
      proof (cases r4)
        case (Inl e4)
        then have "d' = d4" using tail by (simp add: then_do_def)
        then show ?thesis using k2 k3 k4 Inl old [of d4] by simp
      next
        case r4: (Inr u4)
        with k4 typed(2) have w4': "writing_node n d4" "hs_current H (dn_hard_state d4) = st" using k2 k3 assms(3) by auto
        from r4 tail w5 have d5: "d' = d5" "isl r5" by (cases r5; simp add: then_do_def)+
        have "hard_state_ok ?current" using assms(4) by (simp add: durable_typed_def)
        with write_keeps [of d4 ?current n d5 r5] w4' w5 d5 show ?thesis by (cases r5) (auto simp: stores_ready_def)
      qed
    qed
  qed
qed

lemma failed_step_recovers:
  assumes "stores_ready hready lready sready d" "durable_healthy H L S d" "durable_typed n'" "announced (dn_node d) (n', outs)"
    "persist_stepped H L S (hs_current H (dn_hard_state d)) (Node_commit_index (dn_node d)) outs (d\<lparr>dn_node := n'\<rparr>) = (d', Inl e)"
  shows "recovers_node (dn_node d) {hs_current H (dn_hard_state d), fenced (hs_current H (dn_hard_state d)) n', hard_state_for_node n'} d'"
proof -
  let ?n = "dn_node d" and ?d0 = "d\<lparr>dn_node := n'\<rparr>"
  let ?before = "hs_current H (dn_hard_state d)" and ?current = "hard_state_for_node n'"
  let ?pre = "fenced ?before n'"
  have old: "hard_state_ok ?before" "hs_commit_index ?before = Node_commit_index ?n" "rs_current S (dn_snapshots d) = Node_snapshot ?n"
    "ls_compacted L (dn_segment d) = snapshot_index ?n" "ls_replay L (dn_segment d) = persisted_log ?n" "node_inv ?n"
    using assms(2) by (auto simp: durable_healthy_def log_synced_def Let_def)
  have ok: "hard_state_ok ?pre" "hs_commit_index ?pre = Node_commit_index ?n"
    using old(1,2) assms(3) by (simp_all add: durable_typed_def hard_state_ok_def fenced_def hard_state_for_node_def)
  have keeps: "keeps_committed ?n (ls_compacted L (dn_segment d)) (ls_replay L (dn_segment d)) (rs_current S (dn_snapshots d))"
    by (simp add: keeps_committed_def old snapshot_boundary_node)
  have pre: "?before\<lparr>hs_current_term := hs_current_term ?current, hs_voted_for := hs_voted_for ?current\<rparr> = ?pre"
    by (simp add: fenced_def hard_state_for_node_def)
  obtain d1 r1 where w1: "write_hard_state_for_step H ?pre ?before ?d0 = (d1, r1)" by fastforce
  obtain dx where dx: "then_do (d1, r1) (\<lambda>_. persist_after_fence H L S ?current (Node_commit_index ?n) outs) = (dx, Inl e)"
    and same: "dn_hard_state d' = dn_hard_state dx" "dn_segment d' = dn_segment dx" "dn_snapshots d' = dn_snapshots dx"
    using poison_stores [OF assms(5) [unfolded persist_stepped_def Let_def, simplified, unfolded pre w1]] by blast
  have k1: "case r1 of Inl _ \<Rightarrow> recovers_node ?n {?before, ?pre} d1
    | Inr _ \<Rightarrow> hready (dn_hard_state d1) \<and> hs_current H (dn_hard_state d1) = ?pre \<and> dn_segment d1 = dn_segment d \<and>
        dn_snapshots d1 = dn_snapshots d \<and> dn_node d1 = n'"
    using write_keeps [of ?d0 ?pre ?n d1 r1] assms(1) ok(1) keeps w1 by (cases r1) (simp_all add: stores_ready_def)
  show ?thesis
  proof (cases r1)
    case (Inl e1)
    with dx k1 same show ?thesis by (auto simp: then_do_def)
  next
    case (Inr u1)
    with k1 have d1: "writing_node ?n d1" "hs_current H (dn_hard_state d1) = ?pre" "dn_node d1 = n'" "dn_snapshots d1 = dn_snapshots d"
      using keeps assms(1) ok(2) by (simp_all add: stores_ready_def)
    have "\<forall>s \<in> set (applied_snapshots outs). last_included_index (metadata s) \<le> u64_max" "snapshot_index n' \<le> u64_max"
      using assms(3,4) by (auto simp: announced_def sorted_append durable_typed_def last_log_index_def)
    moreover have "sorted (snapshot_boundary (rs_current S (dn_snapshots d1)) # map (\<lambda>s. last_included_index (metadata s)) (applied_snapshots outs))"
      using assms(4) unfolding d1(4) old(3) snapshot_boundary_node by (auto simp: announced_def sorted_append)
    moreover have "persist_after_fence H L S (hard_state_for_node (dn_node d1)) (Node_commit_index ?n) outs d1 = (dx, Inl e)"
      using dx Inr d1(3) by (simp add: then_do_def)
    ultimately have "recovers_node ?n {?pre, ?current} dx" using fenced_recovers [OF old(6) d1(1,2)] d1(3) assms(3) by simp
    then show ?thesis unfolding same by blast
  qed
qed

lemma failed_batch_recovers:
  assumes "stores_ready hready lready sready d" "durable_healthy H L S d" "list_all input_wf inputs"
    "step_batch inputs (dn_node d) = (n', outs)" "durable_typed n'" "durable_step_batch H L S inputs d = (d', Inl e)"
  shows "recovers_node (dn_node d) {hs_current H (dn_hard_state d), fenced (hs_current H (dn_hard_state d)) n', hard_state_for_node n'} d'"
proof -
  have inv: "node_inv (dn_node d)" "dn_fatal d = None" using assms(2) by (auto simp: durable_healthy_def log_synced_def Let_def)
  have a: "announced (dn_node d) (n', outs)" using announced_step_batch [OF inv(1) assms(3)] assms(4) by simp
  show ?thesis
    by (rule failed_step_recovers [OF assms(1,2,5) a]) (use assms(4,6) inv(2) in \<open>simp add: durable_step_batch_eq step_and_persist_def Let_def\<close>)
qed

end

end
