(* ===== verification/Durable_Runs.thy ===== *)
theory Durable_Runs
  imports Durable_Crash Cluster
begin

text \<open>
  Runs of a durable node: batches and local compactions that all succeeded. The contract of the stores keeps
  the node healthy over every run, its term and votes only move forward, and every vote that left the node is in its hard state.
\<close>

section \<open>Votes that left a node\<close>

definition vote_held :: "NodeId \<Rightarrow> RequestVoteResponse \<Rightarrow> Term \<Rightarrow> NodeId option \<Rightarrow> bool" where
  "vote_held c q t vote \<longleftrightarrow> rvr_term q \<le> t \<and> (rvr_term q = t \<longrightarrow> vote = Some c)"

definition votes_held :: "Output list \<Rightarrow> Node \<Rightarrow> bool" where
  "votes_held outs n \<longleftrightarrow> (\<forall>c q. Send c (RequestVoteResponseMsg q) \<in> set outs \<longrightarrow> rvr_vote_granted q \<longrightarrow>
     vote_held c q (Node_current_term n) (Node_voted_for n))"

lemma vote_held_evolves:
  "vote_held c q (Node_current_term n) (Node_voted_for n) \<Longrightarrow> evolves n n' \<Longrightarrow> vote_held c q (Node_current_term n') (Node_voted_for n')"
  using evolves_vote [of n n'] by (fastforce simp: vote_held_def)

definition ballot_kept :: "Node \<Rightarrow> Node \<times> Output list \<Rightarrow> bool" where
  "ballot_kept n r \<longleftrightarrow> good n (fst r) \<and> votes_held (snd r) (fst r)"

lemma ballot_kept_trans:
  assumes "ballot_kept a (b, xs)" "ballot_kept b (c, ys)"
  shows "ballot_kept a (c, xs @ ys)"
proof -
  have e: "evolves b c" "good a c" using assms evolves_trans by (auto simp: ballot_kept_def good_def)
  have "votes_held xs c" using assms(1) vote_held_evolves [OF _ e(1)] by (fastforce simp: ballot_kept_def votes_held_def)
  with assms(2) e(2) show ?thesis by (auto simp: ballot_kept_def votes_held_def)
qed

interpretation voting: step_contract run_segment segment_wf node_inv ballot_kept
proof unfold_locales
  show "ballot_kept n (run_segment seg n)" if "segment_wf seg" "node_inv n" for seg n
    using segment_contract [OF that(2,1)] by (auto simp: ballot_kept_def votes_held_def vote_held_def vote_step_def good_step_def)
  show "ballot_kept a (c, xs @ ys)" if "ballot_kept a (b, xs)" "ballot_kept b (c, ys)" for a b c xs ys
    using that by (rule ballot_kept_trans)
qed (auto simp: ballot_kept_def votes_held_def good_def)

lemma segments_wf: "list_all input_wf inputs \<Longrightarrow> list_all segment_wf (segments inputs)"
proof (induction inputs)
  case (Cons inp inputs)
  have "list_all segment_wf (add_segment inp segs)" if "list_all segment_wf segs" "input_wf inp" for segs
    using that by (auto split: option.split list.split Segment.split)
  with Cons show ?case by (simp add: segments_def)
qed (simp add: segments_def)

lemma batch_keeps_ballot:
  assumes "node_inv n" "list_all input_wf inputs"
  shows "ballot_kept n (step_batch inputs n)"
proof (cases "2 \<le> length inputs")
  case True
  then show ?thesis using voting.run_rel [OF segments_wf [OF assms(2)] assms(1)] by (simp add: step_batch_segments)
next
  case False
  then consider "inputs = []" | inp where "inputs = [inp]" by (cases inputs rule: remdups_adj.cases) auto
  then show ?thesis
  proof cases
    case 1
    then show ?thesis using voting.rel_refl [OF assms(1)] by (simp add: step_batch_def)
  next
    case (2 inp)
    then show ?thesis using voting.step_rel [of "SingleInput inp" n] assms by (simp add: step_batch_def)
  qed
qed

lemma resolved_votes:
  "Send c (RequestVoteResponseMsg q) \<in> set (resolve_snapshot_chunk_sends S s outs) \<Longrightarrow> Send c (RequestVoteResponseMsg q) \<in> set outs"
proof (cases "list_ex (\<lambda>output. case output of SendSnapshotChunk _ _ \<Rightarrow> True | _ \<Rightarrow> False) outs")
  case True
  assume "Send c (RequestVoteResponseMsg q) \<in> set (resolve_snapshot_chunk_sends S s outs)"
  then obtain out where out: "out \<in> set outs" "(case out of
      SendSnapshotChunk k c \<Rightarrow> map_option (\<lambda>m. Send k (InstallSnapshotChunkMsg m)) (resolve_chunk (rs_chunk S s) c)
    | other \<Rightarrow> Some other) = Some (Send c (RequestVoteResponseMsg q))"
    using True by (auto simp: resolve_snapshot_chunk_sends_def List.map_filter_def)
  show ?thesis by (cases out) (use out in auto)
qed (simp add: resolve_snapshot_chunk_sends_def)

section \<open>Compaction with a filled descriptor\<close>

lemma find_map_Some: "find_map f xs = Some y \<Longrightarrow> \<exists>x \<in> set xs. f x = Some y"
  by (induction xs) (auto split: option.splits)

lemma membership_at_index_wf:
  assumes "membership_sources_wf n"
  shows "membership_wf (membership_at_index n i)"
proof (cases "ci_entry_at_or_before (derived n) (LogIndex_next (snapshot_index n)) (Node_log n) i")
  case None
  with assms show ?thesis
    by (auto simp: membership_at_index_def snapshot_committed_membership_def meta_committed_membership_def membership_sources_wf_def
        metadata_wf_def bind_eq_Some_conv split: option.split)
next
  case (Some e)
  then have "\<exists>x\<in>set (Node_log n). entry_kind x = Configuration e"
    by (auto simp: ci_entry_at_or_before_def configuration_entry_at_Some dest!: find_map_Some split: if_splits)
  with assms Some show ?thesis by (auto simp: membership_at_index_def membership_sources_wf_def entry_wf_def)
qed

lemma filled_metadata:
  assumes "node_inv n" "metadata_wf m"
  shows "metadata_wf (fill_local_snapshot_membership n m)"
    "\<exists>c. meta_committed_configuration (fill_local_snapshot_membership n m) = Some c"
    "last_included_index (fill_local_snapshot_membership n m) = last_included_index m"
  using assms membership_at_index_wf [of n "last_included_index m"]
  by (auto simp: fill_local_snapshot_membership_def metadata_wf_def node_inv_def split: option.split)

section \<open>Runs\<close>

text \<open>
  What is asked of a batch: inputs that decoding produces, a node after it whose integers and entries fit their types and
  frames, and Log Matching between the two logs.
\<close>

definition typed_batch :: "Input list \<Rightarrow> Node \<Rightarrow> bool" where
  "typed_batch inputs n \<longleftrightarrow> list_all input_wf inputs \<and> durable_typed (fst (step_batch inputs n)) \<and> log_matching n (fst (step_batch inputs n))"

inductive durable_run ::
    "'h RaftHardStateStore \<Rightarrow> 'l RaftLogSegment \<Rightarrow> 's RaftSnapshotStore \<Rightarrow> ('h, 'l, 's) DurableRaftNode \<Rightarrow> ('h, 'l, 's) DurableRaftNode \<Rightarrow> bool"
  for H L S d0 where
    begun: "durable_run H L S d0 d0"
  | batch: "durable_run H L S d0 d \<Longrightarrow> typed_batch inputs (dn_node d) \<Longrightarrow> durable_step_batch H L S inputs d = (d', Inr res) \<Longrightarrow>
      durable_run H L S d0 d'"
  | compacted: "durable_run H L S d0 d \<Longrightarrow> metadata_wf (prs_metadata snap) \<Longrightarrow> durable_typed (dn_node d') \<Longrightarrow>
      compact_log_with_snapshot L S snap d = (d', Inr retired) \<Longrightarrow> durable_run H L S d0 d'"
  | streamed: "durable_run H L S d0 d \<Longrightarrow> metadata_wf (metadata descriptor) \<Longrightarrow> durable_typed (dn_node d') \<Longrightarrow>
      compact_log_with_streamed_snapshot L S descriptor source d = (d', Inr retired) \<Longrightarrow> durable_run H L S d0 d'"

text \<open>
  Runs whose messages are those an honest peer sends and whose compactions name no term beyond that of the node. The
  local installation does not look at the term in the metadata of a descriptor, a restart does.
\<close>

inductive honest_run ::
    "'h RaftHardStateStore \<Rightarrow> 'l RaftLogSegment \<Rightarrow> 's RaftSnapshotStore \<Rightarrow> ('h, 'l, 's) DurableRaftNode \<Rightarrow> ('h, 'l, 's) DurableRaftNode \<Rightarrow> bool"
  for H L S d0 where
    honest_begun: "honest_run H L S d0 d0"
  | honest_batched: "honest_run H L S d0 d \<Longrightarrow> typed_batch inputs (dn_node d) \<Longrightarrow> list_all honest_input inputs \<Longrightarrow>
      durable_step_batch H L S inputs d = (d', Inr res) \<Longrightarrow> honest_run H L S d0 d'"
  | honest_compacted: "honest_run H L S d0 d \<Longrightarrow> metadata_wf (prs_metadata snap) \<Longrightarrow> durable_typed (dn_node d') \<Longrightarrow>
      hard_state_term (prs_metadata snap) \<le> Node_current_term (dn_node d) \<Longrightarrow>
      compact_log_with_snapshot L S snap d = (d', Inr retired) \<Longrightarrow> honest_run H L S d0 d'"
  | honest_streamed: "honest_run H L S d0 d \<Longrightarrow> metadata_wf (metadata descriptor) \<Longrightarrow> durable_typed (dn_node d') \<Longrightarrow>
      hard_state_term (metadata descriptor) \<le> Node_current_term (dn_node d) \<Longrightarrow>
      compact_log_with_streamed_snapshot L S descriptor source d = (d', Inr retired) \<Longrightarrow> honest_run H L S d0 d'"

lemma honest_run_durable: "honest_run H L S d0 d \<Longrightarrow> durable_run H L S d0 d"
  by (induction rule: honest_run.induct) (auto intro: durable_run.intros)

lemma filled_hard_state_term [simp]: "hard_state_term (fill_local_snapshot_membership n m) = hard_state_term m"
  by (simp add: fill_local_snapshot_membership_def split: option.split)

text \<open>What a compaction through the runtime leaves: nothing but the snapshot and the retired prefix changes.\<close>

definition compacted_to :: "RaftSnapshot \<Rightarrow> ('h, 'l, 's) DurableRaftNode \<Rightarrow> LogEntry list \<Rightarrow> ('h, 'l, 's) DurableRaftNode \<Rightarrow> bool" where
  "compacted_to snap d retired d' \<longleftrightarrow> dn_hard_state d' = dn_hard_state d \<and> Node_snapshot (dn_node d') = Some snap \<and>
     retired @ Node_log (dn_node d') = Node_log (dn_node d) \<and> Node_current_term (dn_node d') = Node_current_term (dn_node d) \<and>
     Node_voted_for (dn_node d') = Node_voted_for (dn_node d) \<and> Node_commit_index (dn_node d') = Node_commit_index (dn_node d) \<and>
     effective_membership (dn_node d') = effective_membership (dn_node d)"

context durable_stores
begin

lemma compaction_healthy:
  assumes "ready d" "durable_healthy H L S d"
    and put: "\<And>s s' u. sready s \<Longrightarrow> put s = (s', Inr u) \<Longrightarrow> sready s' \<and> rs_current S s' = Some snap \<and> rs_pending S s' = None"
    and "meta_committed_configuration (metadata snap) = Some c" "metadata_wf (metadata snap)" "durable_typed (dn_node d')"
    and success: "compact_after_write L put snap d = (d', Inr retired)"
  shows "ready d' \<and> durable_healthy H L S d' \<and> compacted_to snap d retired d' \<and> evolves (dn_node d) (dn_node d')"
proof -
  have h: "log_synced L S d" "node_inv (dn_node d)" "durable_typed (dn_node d)" using assms(2) by (auto simp: durable_healthy_def Let_def)
  note c = compaction_synced [OF assms(1) h put assms(4,5) success]
  obtain p s u l v n' outs where p: "prepare_local_snapshot_install (dn_node d) snap = Inr p" and "put (dn_snapshots d) = (s, Inr u)"
    "ls_compact L (last_included_index (metadata snap)) (dn_segment d) = (l, Inr v)"
    and n': "commit_with_retired_entries p (dn_node d) = (n', outs, retired)"
    and "d' = d\<lparr>dn_snapshots := s, dn_segment := l, dn_node := n'\<rparr>"
    by (rule compact_after_write_Inr [OF success])
  then have d': "dn_node d' = n'" by simp
  obtain m xs where m: "prepared_commit p (dn_node d) = (m, xs)" by fastforce
  then have m: "prepared_commit p (dn_node d) = (dn_node d', xs)"
    using commit_with_retired_entries_eq [OF h(2) p m] n' d' by simp
  from prepared_commit_shape [OF h(2) p m] obtain lp k where
    "dn_node d' = (dn_node d)\<lparr>persistent := (persistent (dn_node d))\<lparr>log := drop k (Node_log (dn_node d)), snapshot := Some snap,
       committed_configuration := pls_committed_configuration p\<rparr>, derived := ci_from_log (drop k (Node_log (dn_node d))),
       volatile := (volatile (dn_node d))\<lparr>incoming_snapshot := None, local_proposals := lp\<rparr>\<rparr>" by blast
  then have "Node_current_term (dn_node d') = Node_current_term (dn_node d)"
    "Node_voted_for (dn_node d') = Node_voted_for (dn_node d)" "Node_commit_index (dn_node d') = Node_commit_index (dn_node d)" by simp_all
  with c assms(2,6) show ?thesis by (auto simp: durable_healthy_def compacted_to_def good_def Let_def)
qed

lemma compact_log_healthy:
  assumes "ready d" "durable_healthy H L S d" "metadata_wf (prs_metadata snap)" "durable_typed (dn_node d')"
    "compact_log_with_snapshot L S snap d = (d', Inr retired)"
  shows "ready d' \<and> durable_healthy H L S d' \<and> evolves (dn_node d) (dn_node d') \<and>
    compacted_to (RaftSnapshot_from_payload (fill_local_snapshot_membership (dn_node d) (prs_metadata snap)) (prs_application_payload snap))
      d retired d'"
proof -
  let ?snap = "snap\<lparr>prs_metadata := fill_local_snapshot_membership (dn_node d) (prs_metadata snap)\<rparr>"
  have inv: "node_inv (dn_node d)" "dn_fatal d = None" using assms(2) by (auto simp: durable_healthy_def log_synced_def Let_def)
  note filled = filled_metadata [OF inv(1) assms(3)]
  then obtain c where c: "meta_committed_configuration (fill_local_snapshot_membership (dn_node d) (prs_metadata snap)) = Some c" by blast
  have "compact_after_write L (rs_write S ?snap) (RaftSnapshot_from_payload (prs_metadata ?snap) (prs_application_payload ?snap)) d = (d', Inr retired)"
    using assms(5) inv(2) by (simp add: compact_log_with_snapshot_def Let_def)
  from compaction_healthy [OF assms(1,2) _ _ _ assms(4) this] rs_written filled(1) c show ?thesis
    by (simp add: RaftSnapshot_from_payload_def)
qed

lemma compact_streamed_healthy:
  assumes "ready d" "durable_healthy H L S d" "metadata_wf (metadata snap)" "durable_typed (dn_node d')"
    "compact_log_with_streamed_snapshot L S snap source d = (d', Inr retired)"
  shows "ready d' \<and> durable_healthy H L S d' \<and> evolves (dn_node d) (dn_node d') \<and>
    compacted_to (snap\<lparr>metadata := fill_local_snapshot_membership (dn_node d) (metadata snap)\<rparr>) d retired d'"
proof -
  let ?snap = "snap\<lparr>metadata := fill_local_snapshot_membership (dn_node d) (metadata snap)\<rparr>"
  have inv: "node_inv (dn_node d)" "dn_fatal d = None" using assms(2) by (auto simp: durable_healthy_def log_synced_def Let_def)
  note filled = filled_metadata [OF inv(1) assms(3)]
  then obtain c where c: "meta_committed_configuration (fill_local_snapshot_membership (dn_node d) (metadata snap)) = Some c" by blast
  have "compact_after_write L (rs_write_from_source S ?snap (original_chunk_source snap source)) ?snap d = (d', Inr retired)"
    using assms(5) inv(2) by (simp add: compact_log_with_streamed_snapshot_def Let_def)
  from compaction_healthy [OF assms(1,2) _ _ _ assms(4) this] rs_streamed filled(1) c show ?thesis by simp
qed

lemma typed_batch_synced:
  assumes "ready d" "durable_healthy H L S d" "typed_batch inputs (dn_node d)" "durable_step_batch H L S inputs d = (d', Inr res)"
  shows "ready d' \<and> synced H L S d' \<and> durable_healthy H L S d' \<and> dn_node d' = fst (step_batch inputs (dn_node d)) \<and>
    evolves (dn_node d) (dn_node d') \<and> votes_held res (dn_node d')"
proof -
  obtain n' outs where s: "step_batch inputs (dn_node d) = (n', outs)" by fastforce
  have t: "list_all input_wf inputs" "durable_typed n'" "log_matching (dn_node d) n'" using assms(3) s by (simp_all add: typed_batch_def)
  have "node_inv (dn_node d)" using assms(2) by (simp add: durable_healthy_def Let_def)
  then have b: "ballot_kept (dn_node d) (n', outs)" using batch_keeps_ballot [OF _ t(1)] s by metis
  note c = batch_synced [OF assms(1,2) t(1) s t(2,3) assms(4)]
  then have "votes_held res n'" using b by (auto simp: ballot_kept_def votes_held_def dest: resolved_votes)
  with b c s show ?thesis by (simp add: ballot_kept_def good_def)
qed

lemma run_healthy:
  assumes "durable_run H L S d0 d" "ready d0" "durable_healthy H L S d0"
  shows "ready d \<and> durable_healthy H L S d \<and> evolves (dn_node d0) (dn_node d)"
  using assms
proof (induction rule: durable_run.induct)
  case begun
  then show ?case by simp
next
  case (batch d inputs d' res)
  then have "ready d" "durable_healthy H L S d" "evolves (dn_node d0) (dn_node d)" by simp_all
  with typed_batch_synced [OF this(1,2) batch.hyps(2,3)] show ?case using evolves_trans by blast
next
  case (compacted d snap d' retired)
  then have "ready d" "durable_healthy H L S d" "evolves (dn_node d0) (dn_node d)" by simp_all
  with compact_log_healthy [OF this(1,2) compacted.hyps(2-4)] show ?case using evolves_trans by blast
next
  case (streamed d descriptor d' source retired)
  then have "ready d" "durable_healthy H L S d" "evolves (dn_node d0) (dn_node d)" by simp_all
  with compact_streamed_healthy [OF this(1,2) streamed.hyps(2-4)] show ?case using evolves_trans by blast
qed

lemma compaction_sound:
  assumes "node_inv (dn_node d)" "sound (dn_node d)" "sready (dn_snapshots d)"
    and put: "\<And>s s' u. sready s \<Longrightarrow> put s = (s', Inr u) \<Longrightarrow> rs_pending S s' = None"
    and "meta_committed_configuration (metadata snap) = Some c" "hard_state_term (metadata snap) \<le> Node_current_term (dn_node d)"
    and success: "compact_after_write L put snap d = (d', Inr retired)"
  shows "sound (dn_node d') \<and> staging_synced S d'"
proof -
  obtain p s u l v n' outs where p: "prepare_local_snapshot_install (dn_node d) snap = Inr p" and s: "put (dn_snapshots d) = (s, Inr u)"
    and "ls_compact L (last_included_index (metadata snap)) (dn_segment d) = (l, Inr v)"
    and n': "commit_with_retired_entries p (dn_node d) = (n', outs, retired)"
    and d': "d' = d\<lparr>dn_snapshots := s, dn_segment := l, dn_node := n'\<rparr>"
    by (rule compact_after_write_Inr [OF success])
  obtain m xs where m: "prepared_commit p (dn_node d) = (m, xs)" by fastforce
  then have m: "prepared_commit p (dn_node d) = (n', xs)" using commit_with_retired_entries_eq [OF assms(1) p m] n' by simp
  have "incoming_snapshot (volatile n') = None" by (rule prepared_commit_shape [OF assms(1) p m]) simp
  then have "pending_snapshot_transfer n' = None" by (simp add: pending_snapshot_transfer_def)
  with sound_compacted [OF assms(2,1) p m assms(5,6)] put [OF assms(3) s] show ?thesis by (simp add: d' staging_synced_def)
qed

lemma honest_batch_synced:
  assumes "ready d" "durable_healthy H L S d" "sound (dn_node d)" "staging_synced S d" "typed_batch inputs (dn_node d)"
    "list_all honest_input inputs" "durable_step_batch H L S inputs d = (d', Inr res)"
  shows "sound (dn_node d') \<and> staging_synced S d'"
proof -
  obtain n' outs where s: "step_batch inputs (dn_node d) = (n', outs)" by fastforce
  have t: "list_all input_wf inputs" "durable_typed n'" "log_matching (dn_node d) n'" using assms(5) s by (simp_all add: typed_batch_def)
  have "node_inv (dn_node d)" using assms(2) by (simp add: durable_healthy_def Let_def)
  note h = honest_batch [OF t(1) assms(6) this assms(3) s]
  note b = batch_synced [OF assms(1,2) t(1) s t(2,3) assms(7)]
  have "rs_pending S (dn_snapshots d') = pending_snapshot_transfer n'"
    using b h assms(4) by (auto simp: staging_synced_def tracked_def)
  with b h show ?thesis by (simp add: staging_synced_def)
qed

lemma honest_run_sound:
  assumes "honest_run H L S d0 d" "ready d0" "durable_healthy H L S d0" "sound (dn_node d0)" "staging_synced S d0"
  shows "sound (dn_node d) \<and> staging_synced S d"
  using assms
proof (induction rule: honest_run.induct)
  case honest_begun
  then show ?case by simp
next
  case (honest_batched d inputs d' res)
  have "ready d" "durable_healthy H L S d" using run_healthy [OF honest_run_durable [OF honest_batched.hyps(1)]] honest_batched.prems by simp_all
  then show ?case using honest_batch_synced honest_batched by blast
next
  case (honest_compacted d snap d' retired)
  have d: "ready d" "durable_healthy H L S d" using run_healthy [OF honest_run_durable [OF honest_compacted.hyps(1)]] honest_compacted.prems by simp_all
  then have inv: "node_inv (dn_node d)" "dn_fatal d = None" "sready (dn_snapshots d)"
    by (auto simp: durable_healthy_def log_synced_def stores_ready_def Let_def)
  let ?snap = "snap\<lparr>prs_metadata := fill_local_snapshot_membership (dn_node d) (prs_metadata snap)\<rparr>"
  obtain c where c: "meta_committed_configuration (fill_local_snapshot_membership (dn_node d) (prs_metadata snap)) = Some c"
    using filled_metadata(2) [OF inv(1) honest_compacted.hyps(2)] by blast
  have "compact_after_write L (rs_write S ?snap) (RaftSnapshot_from_payload (prs_metadata ?snap) (prs_application_payload ?snap)) d = (d', Inr retired)"
    using honest_compacted.hyps(5) inv(2) by (simp add: compact_log_with_snapshot_def Let_def)
  from compaction_sound [OF inv(1) _ inv(3) _ _ _ this] honest_compacted.IH honest_compacted.prems honest_compacted.hyps(4) c rs_written show ?case
    by (simp add: RaftSnapshot_from_payload_def)
next
  case (honest_streamed d descriptor d' source retired)
  have d: "ready d" "durable_healthy H L S d" using run_healthy [OF honest_run_durable [OF honest_streamed.hyps(1)]] honest_streamed.prems by simp_all
  then have inv: "node_inv (dn_node d)" "dn_fatal d = None" "sready (dn_snapshots d)"
    by (auto simp: durable_healthy_def log_synced_def stores_ready_def Let_def)
  let ?snap = "descriptor\<lparr>metadata := fill_local_snapshot_membership (dn_node d) (metadata descriptor)\<rparr>"
  obtain c where c: "meta_committed_configuration (fill_local_snapshot_membership (dn_node d) (metadata descriptor)) = Some c"
    using filled_metadata(2) [OF inv(1) honest_streamed.hyps(2)] by blast
  have "compact_after_write L (rs_write_from_source S ?snap (original_chunk_source descriptor source)) ?snap d = (d', Inr retired)"
    using honest_streamed.hyps(5) inv(2) by (simp add: compact_log_with_streamed_snapshot_def Let_def)
  from compaction_sound [OF inv(1) _ inv(3) _ _ _ this] honest_streamed.IH honest_streamed.prems honest_streamed.hyps(4) c rs_streamed show ?case by simp
qed

end

end
