(* ===== verification/Durable_Files.thy ===== *)
theory Durable_Files
  imports Durable_Runs
begin

text \<open>
  The stores of the storage crate as the stores of a durable node: the hard-state journal, the file log
  segment and the in-memory stores provide the traits the runtime is written against. The faults a store meets are a
  schedule beside its state, one for each write. The contracts of the runtime's proofs are discharged for
  them.
\<close>

section \<open>The stores behind the traits\<close>

text \<open>One write of a store meets the first fault of its schedule; an empty schedule is a healthy disk.\<close>

definition scheduled :: "'f \<Rightarrow> ('f \<Rightarrow> 'ds \<Rightarrow> 'ds \<times> 'r) \<Rightarrow> 'f list \<times> 'ds \<Rightarrow> ('f list \<times> 'ds) \<times> 'r" where
  "scheduled none write fds = (case write (case fst fds of [] \<Rightarrow> none | f # _ \<Rightarrow> f) (snd fds) of (ds, r) \<Rightarrow> ((tl (fst fds), ds), r))"

lemma scheduledD:
  assumes "scheduled none write fds = (fds', r)"
  obtains f where "write f (snd fds) = (snd fds', r)"
  using assms by (cases "write (case fst fds of [] \<Rightarrow> none | f # _ \<Rightarrow> f) (snd fds)") (auto simp: scheduled_def)

type_synonym journal_state = "HardStateFault list \<times> byte list option \<times> JournalRaftHardStateStore"
type_synonym segment_state = "LogFault list \<times> LogDisk \<times> FileRaftLogSegment"

definition journal_trait :: "journal_state RaftHardStateStore" where
  "journal_trait = \<lparr>hs_write = (\<lambda>st. scheduled HsNoFault (\<lambda>f. journal_write f st)), hs_current = (\<lambda>h. jr_current (snd (snd h)))\<rparr>"

definition file_segment_trait :: "segment_state RaftLogSegment" where
  "file_segment_trait =
     \<lparr>ls_append = (\<lambda>es. scheduled NoFault (\<lambda>f. file_append_entries f es)),
      ls_truncate = (\<lambda>i. scheduled NoFault (\<lambda>f. file_truncate_suffix f i)),
      ls_compact = (\<lambda>t. scheduled NoFault (\<lambda>f. file_compact_prefix_through f t)),
      ls_replay = (\<lambda>l. cle_entries (fs_entries (snd (snd l)))),
      ls_next_index = (\<lambda>l. cle_next_index (fs_entries (snd (snd l)))),
      ls_compacted = (\<lambda>l. fs_compacted_through (snd (snd l)))\<rparr>"

definition memory_hard_state_trait :: "InMemoryRaftHardStateStore RaftHardStateStore" where
  "memory_hard_state_trait = \<lparr>hs_write = mem_write_hard_state, hs_current = ms_current\<rparr>"

definition memory_segment_trait :: "InMemoryRaftLogSegment RaftLogSegment" where
  "memory_segment_trait =
     \<lparr>ls_append = mem_append_entries, ls_truncate = mem_truncate_suffix, ls_compact = mem_compact_prefix_through,
      ls_replay = (\<lambda>m. cle_entries (mem_entries m)), ls_next_index = (\<lambda>m. cle_next_index (mem_entries m)),
      ls_compacted = mem_compacted_through\<rparr>"

definition memory_snapshot_trait :: "InMemoryRaftSnapshotStore RaftSnapshotStore" where
  "memory_snapshot_trait =
     \<lparr>rs_write = write_snapshot, rs_write_from_source = write_snapshot_from_source, rs_current = current_snapshot,
      rs_stage = store_snapshot_chunk, rs_promote = promote_staged_snapshot, rs_clear = clear_pending_snapshot_transfer,
      rs_pending = staged_transfer, rs_chunk = store_chunk_source\<rparr>"

text \<open>Stores whose memory is what opening their bytes gives.\<close>

definition journal_state_ready :: "journal_state \<Rightarrow> bool" where
  "journal_state_ready h \<longleftrightarrow> journal_ready (snd h)"

definition segment_state_ready :: "segment_state \<Rightarrow> bool" where
  "segment_state_ready l \<longleftrightarrow> open_segment Strict (fst (snd l)) = (fst (snd l), Inr (snd (snd l)))"

definition memory_segment_ready :: "InMemoryRaftLogSegment \<Rightarrow> bool" where
  "memory_segment_ready m \<longleftrightarrow> cle_first_index (mem_entries m) = mem_compacted_through m + 1 \<and>
     validate_contiguous (cle_entries (mem_entries m)) (mem_compacted_through m + 1) = Inr ()"

text \<open>
  Opening the directory of a replica again: the journal first, then the log with the repair of its tail above
  the commit index the journal holds.
\<close>

definition reopen_journal :: "journal_state \<Rightarrow> journal_state option" where
  "reopen_journal h = (case journal_open (fst (snd h)) of (d, Inr s) \<Rightarrow> Some (fst h, d, s) | (_, Inl _) \<Rightarrow> None)"

definition reopen_segment :: "LogIndex \<Rightarrow> segment_state \<Rightarrow> segment_state option" where
  "reopen_segment k l =
     (case open_segment (RepairUncommittedTail k) (fst (snd l)) of (d, Inr s) \<Rightarrow> Some (fst l, d, s) | (_, Inl _) \<Rightarrow> None)"

text \<open>
  Opening the two file stores of a replica directory together. The nodes below keep their snapshots in the
  in-memory store, the default of the runtime's constructors, so the third store of the directory has no part here.
\<close>

datatype OpenJournalRaftNodeStoresError = OpenHardState OpenJournalRaftHardStateStoreError | OpenStoresLog OpenRaftLogSegmentError

definition open_inner ::
    "bool \<Rightarrow> byte list option \<times> LogDisk \<Rightarrow>
     (byte list option \<times> LogDisk) \<times> (OpenJournalRaftNodeStoresError + JournalRaftHardStateStore \<times> FileRaftLogSegment)" where
  "open_inner repair_log disks =
     (case journal_open (fst disks) of
        (journal, Inl e) \<Rightarrow> ((journal, snd disks), Inl (OpenHardState e))
      | (journal, Inr hard_state) \<Rightarrow>
          (case open_segment (if repair_log then RepairUncommittedTail (hs_commit_index (jr_current hard_state)) else Strict) (snd disks) of
             (disk, Inl e) \<Rightarrow> ((journal, disk), Inl (OpenStoresLog e))
           | (disk, Inr segment) \<Rightarrow> ((journal, disk), Inr (hard_state, segment))))"

text \<open>
  What is on disk when a node stops, and the node built on those files. The snapshot store is the one the stopped node
  hands over (\<open>into_storage\<close>).
\<close>

type_synonym file_node = "(journal_state, segment_state, InMemoryRaftSnapshotStore) DurableRaftNode"

definition disks_of :: "file_node \<Rightarrow> byte list option \<times> LogDisk" where
  "disks_of d = (fst (snd (dn_hard_state d)), fst (snd (dn_segment d)))"

definition hydrate_files ::
    "NodeConfig \<Rightarrow> byte list option \<times> LogDisk \<Rightarrow> JournalRaftHardStateStore \<times> FileRaftLogSegment \<Rightarrow> file_node \<Rightarrow> LogIndex \<Rightarrow>
     RaftRuntimeError + file_node" where
  "hydrate_files c disks stores stopped applied =
     with_storage_and_snapshot_store_applied_through journal_trait file_segment_trait memory_snapshot_trait c
       ([], fst disks, fst stores) ([], snd disks, snd stores) (snapshot_store (into_storage stopped)) applied"

abbreviation file_ready :: "file_node \<Rightarrow> bool" where
  "file_ready \<equiv> stores_ready journal_state_ready segment_state_ready staging_ok"

abbreviation file_healthy :: "file_node \<Rightarrow> bool" where
  "file_healthy \<equiv> durable_healthy journal_trait file_segment_trait memory_snapshot_trait"

abbreviation file_run :: "file_node \<Rightarrow> file_node \<Rightarrow> bool" where
  "file_run \<equiv> durable_run journal_trait file_segment_trait memory_snapshot_trait"

abbreviation file_step_batch :: "Input list \<Rightarrow> file_node \<Rightarrow> file_node \<times> (RaftRuntimeError + Output list)" where
  "file_step_batch \<equiv> durable_step_batch journal_trait file_segment_trait memory_snapshot_trait"

section \<open>The laws of the snapshot store\<close>

lemma stream_chunk_len_le: "stream_chunk_len left SNAPSHOT_STREAM_CHUNK_BYTES \<le> left"
  by (simp add: stream_chunk_len_def SNAPSHOT_STREAM_CHUNK_BYTES_def u32_max_def Let_def min_def)

lemma stream_payload_length:
  "stream_payload source snap offset payload = Inr bytes \<Longrightarrow> offset \<le> application_payload_len snap \<Longrightarrow> length payload = offset \<Longrightarrow>
   length bytes = application_payload_len snap"
proof (induction source snap offset payload rule: stream_payload.induct)
  case (1 source snap offset payload)
  let ?len = "stream_chunk_len (application_payload_len snap - offset) SNAPSHOT_STREAM_CHUNK_BYTES"
  show ?case
  proof (cases "offset < application_payload_len snap")
    case True
    then obtain bs where bs: "source_chunk source snap (RaftSnapshot_transfer_id snap) offset ?len = Inr bs"
      "stream_payload source snap (offset + ?len) (payload @ bs) = Inr bytes"
      using 1(2) by (subst (asm) stream_payload.simps) (auto simp: Let_def split: sum.splits)
    then have "length bs = ?len" by (auto simp: source_chunk_def split: option.splits if_splits)
    with 1(1) [OF True refl bs] 1(4) True stream_chunk_len_le [of "application_payload_len snap - offset"] show ?thesis by simp
  next
    case False
    with 1(2-4) show ?thesis by (simp add: stream_payload.simps)
  qed
qed

lemma streamed_installs:
  assumes "write_snapshot_from_source snap source s = (s', Inr u)"
  shows "current_snapshot s' = Some snap" "ss_pending s' = None"
proof -
  obtain bytes where b: "stream_payload source snap 0 [] = Inr bytes" "crc32 bytes = application_payload_crc32 snap"
    "s' = s\<lparr>ss_current := Some \<lparr>prs_metadata = metadata snap, prs_application_payload = bytes\<rparr>, ss_pending := None\<rparr>"
    using assms by (auto simp: write_snapshot_from_source_def write_snapshot_def Let_def split: sum.splits if_splits)
  with stream_payload_length [OF b(1)] show "current_snapshot s' = Some snap" "ss_pending s' = None"
    by (auto simp: current_snapshot_def RaftSnapshot_from_payload_def)
qed

lemmas memory_snapshot_sel = memory_snapshot_trait_def RaftSnapshotStore.select_convs

lemma memory_stage:
  "staging_ok s \<Longrightarrow> rs_stage memory_snapshot_trait chunk s = (s', r) \<Longrightarrow>
     staging_ok s' \<and> rs_current memory_snapshot_trait s' = rs_current memory_snapshot_trait s"
  using staging_store [of s chunk] store_keeps_current [of chunk s] by (simp add: memory_snapshot_sel current_snapshot_def)

lemma memory_stage_pending:
  "rs_stage memory_snapshot_trait chunk s = (s', Inr u) \<Longrightarrow> rs_pending memory_snapshot_trait s' = Some (chunk_transfer chunk)"
  by (auto simp: memory_snapshot_sel store_snapshot_chunk_def staged_transfer_def validate_staged_chunk_def checked_add_def Let_def
      split: sum.splits if_splits option.splits)

lemma memory_promote:
  "staging_ok s \<Longrightarrow> rs_promote memory_snapshot_trait snap s = (s', Inr u) \<Longrightarrow>
     staging_ok s' \<and> rs_current memory_snapshot_trait s' = Some snap \<and> rs_pending memory_snapshot_trait s' = None"
  using staging_promote [of s snap] promote_installs [of s snap s' u] by (simp add: memory_snapshot_sel staged_transfer_def)

lemma memory_promote_failed:
  "rs_promote memory_snapshot_trait snap s = (s', Inl e) \<Longrightarrow> s' = s"
  by (auto simp: memory_snapshot_sel promote_staged_snapshot_def write_snapshot_def Let_def split: sum.splits option.splits if_splits)

lemma memory_clear:
  "rs_clear memory_snapshot_trait s = (s', r) \<Longrightarrow>
     staging_ok s' \<and> rs_current memory_snapshot_trait s' = rs_current memory_snapshot_trait s \<and> rs_pending memory_snapshot_trait s' = None"
  using staging_clear [of s]
  by (auto simp: memory_snapshot_sel clear_pending_snapshot_transfer_def current_snapshot_def staged_transfer_def)

lemma memory_write:
  "rs_write memory_snapshot_trait p s = (s', r) \<Longrightarrow>
     staging_ok s' \<and> rs_current memory_snapshot_trait s' = Some (RaftSnapshot_from_payload (prs_metadata p) (prs_application_payload p)) \<and>
     rs_pending memory_snapshot_trait s' = None"
  using staging_write [of p s] by (auto simp: memory_snapshot_sel write_snapshot_def current_snapshot_def staged_transfer_def)

lemma memory_stream:
  "staging_ok s \<Longrightarrow> rs_write_from_source memory_snapshot_trait snap source s = (s', Inr u) \<Longrightarrow>
     staging_ok s' \<and> rs_current memory_snapshot_trait s' = Some snap \<and> rs_pending memory_snapshot_trait s' = None"
  using staging_source [of s snap source] streamed_installs [of snap source s s' u] by (simp add: memory_snapshot_sel staged_transfer_def)

section \<open>The laws of the log segment\<close>

lemma segment_stateE:
  assumes "segment_state_ready l"
  obtains fs d c es where "l = (fs, d, segment_of c es)" "log_on_disk c es d"
  using assms by (cases l) (auto simp: segment_state_ready_def open_strict_iff)

lemma segment_stateI: "log_on_disk c es d \<Longrightarrow> segment_state_ready (fs, d, segment_of c es)"
  by (auto simp: segment_state_ready_def open_strict_iff)

lemma reopen_segment_ready: "segment_state_ready l \<Longrightarrow> reopen_segment k l = Some l"
  by (elim segment_stateE) (simp add: reopen_segment_def open_repair_whole)

lemmas segment_sel = file_segment_trait_def RaftLogSegment.select_convs

lemma segment_operation:
  assumes "segment_state_ready l" "file_op f operation (snd l) = (snd l', r)"
    "\<And>c es d. log_on_disk c es d \<Longrightarrow> snd l = (d, segment_of c es) \<Longrightarrow> recovers_as operation k (mem_of c es) (file_op f operation (d, segment_of c es))"
  obtains c es c' es' l2 where "snd (snd l) = segment_of c es" "map pe_index es = [c + 1..<c + 1 + length es]"
    "reopen_segment k l' = Some l2" "segment_state_ready l2" "snd (snd l2) = segment_of c' es'"
    "mem_of c' es' \<in> op_outcomes operation (mem_of c es)"
    "r = Inr () \<Longrightarrow> l' = l2 \<and> mem_op operation (mem_of c es) = (mem_of c' es', Inr ())"
proof -
  obtain fs d c es where l: "l = (fs, d, segment_of c es)" "log_on_disk c es d" using assms(1) by (rule segment_stateE)
  have "recovers_as operation k (mem_of c es) (snd l', r)"
    using assms(2) assms(3) [OF l(2)] l(1) by simp
  then obtain d2 c2 es2 where r: "open_segment (RepairUncommittedTail k) (fst (snd l')) = (d2, Inr (segment_of c2 es2))" "log_on_disk c2 es2 d2"
    "mem_of c2 es2 \<in> op_outcomes operation (mem_of c es)"
    "r = Inr () \<longrightarrow> snd l' = (d2, segment_of c2 es2) \<and> mem_op operation (mem_of c es) = (mem_of c2 es2, Inr ())"
    by (auto simp: recovers_as_def)
  have "reopen_segment k l' = Some (fst l', d2, segment_of c2 es2)" using r(1) by (simp add: reopen_segment_def)
  moreover have "r = Inr () \<Longrightarrow> l' = (fst l', d2, segment_of c2 es2) \<and> mem_op operation (mem_of c es) = (mem_of c2 es2, Inr ())"
    using r(4) by (cases l') simp
  ultimately show thesis
    using that [of c es "(fst l', d2, segment_of c2 es2)" c2 es2] l r(3) log_on_disk_contiguous [OF l(2)] segment_stateI [OF r(2)] by simp
qed

lemma mem_of_inject [simp]: "mem_of c es = mem_of c' es' \<longleftrightarrow> c = c' \<and> es = es'"
  by (auto simp: mem_of_def)

lemma segment_next_positive: "segment_state_ready l \<Longrightarrow> 0 < cle_next_index (fs_entries (snd (snd l)))"
  by (elim segment_stateE) (simp add: next_index_on_disk)

lemma append_outcomes:
  assumes "map pe_index es = [c + 1..<c + 1 + length es]" "mem_of c' es' \<in> op_outcomes (AppendEntries new) (mem_of c es)"
  shows "c' = c \<and> (\<exists>j. es' = es @ take j new)"
proof -
  obtain j where "mem_of c' es' = fst (mem_append_entries (take j new) (mem_of c es))"
    using assms(2) by (auto simp: op_outcomes_def mem_op_def)
  then have "mem_of c' es' \<in> {mem_of c es, mem_of c (es @ take j new)}"
    by (auto simp: mem_append_of [OF assms(1)] split: if_splits sum.splits)
  then show ?thesis by (auto intro: exI [of _ 0])
qed

lemma segment_append:
  assumes "segment_state_ready l" "list_all entry_fits new" "k < ls_next_index file_segment_trait l"
    "ls_append file_segment_trait new l = (l', r)"
  obtains l2 j where "reopen_segment k l' = Some l2" "segment_state_ready l2"
    "ls_compacted file_segment_trait l2 = ls_compacted file_segment_trait l"
    "ls_replay file_segment_trait l2 = ls_replay file_segment_trait l @ take j new"
    "r = Inr () \<Longrightarrow> l' = l2 \<and> ls_replay file_segment_trait l2 = ls_replay file_segment_trait l @ new"
proof -
  obtain f where "file_append_entries f new (snd l) = (snd l', r)" using assms(4) by (auto simp: segment_sel elim: scheduledD)
  then have f: "file_op f (AppendEntries new) (snd l) = (snd l', map_sum AppendFailed id r)" by (simp add: file_op_def)
  have rec: "recovers_as (AppendEntries new) k (mem_of c es) (file_op f (AppendEntries new) (d, segment_of c es))"
    if "log_on_disk c es d" "snd l = (d, segment_of c es)" for c es d
    using append_recovers [OF that(1) assms(2), of k f] assms(3) that next_index_on_disk [OF that(1)] by (simp add: segment_sel)
  obtain c es c' es' l2 where o: "snd (snd l) = segment_of c es" "map pe_index es = [c + 1..<c + 1 + length es]"
    "reopen_segment k l' = Some l2" "segment_state_ready l2" "snd (snd l2) = segment_of c' es'"
    "mem_of c' es' \<in> op_outcomes (AppendEntries new) (mem_of c es)"
    "map_sum AppendFailed id r = Inr () \<Longrightarrow> l' = l2 \<and> mem_op (AppendEntries new) (mem_of c es) = (mem_of c' es', Inr ())"
    by (rule segment_operation [OF assms(1) f rec]) blast+
  obtain j where j: "c' = c" "es' = es @ take j new" using append_outcomes [OF o(2,6)] by blast
  have "es' = es @ new" if "r = Inr ()"
    using o(7) that by (auto simp: mem_op_def mem_append_of [OF o(2)] split: if_splits sum.splits)
  with o(1,3,4,5,7) j show thesis by (intro that [of l2 j]) (simp_all add: segment_sel)
qed

lemma segment_truncate:
  assumes "segment_state_ready l" "ls_truncate file_segment_trait i l = (l', r)"
  obtains l2 where "reopen_segment k l' = Some l2" "segment_state_ready l2"
    "ls_compacted file_segment_trait l2 = ls_compacted file_segment_trait l"
    "ls_replay file_segment_trait l2 \<in> {ls_replay file_segment_trait l,
      take (i - Suc (ls_compacted file_segment_trait l)) (ls_replay file_segment_trait l)}"
    "r = Inr () \<Longrightarrow> l' = l2 \<and>
      ls_replay file_segment_trait l2 = take (i - Suc (ls_compacted file_segment_trait l)) (ls_replay file_segment_trait l)"
proof -
  obtain f where "file_truncate_suffix f i (snd l) = (snd l', r)" using assms(2) by (auto simp: segment_sel elim: scheduledD)
  then have f: "file_op f (TruncateSuffix i) (snd l) = (snd l', map_sum TruncateFailed id r)" by (simp add: file_op_def)
  obtain c es c' es' l2 where o: "snd (snd l) = segment_of c es" "map pe_index es = [c + 1..<c + 1 + length es]"
    "reopen_segment k l' = Some l2" "segment_state_ready l2" "snd (snd l2) = segment_of c' es'"
    "mem_of c' es' \<in> op_outcomes (TruncateSuffix i) (mem_of c es)"
    "map_sum TruncateFailed id r = Inr () \<Longrightarrow> l' = l2 \<and> mem_op (TruncateSuffix i) (mem_of c es) = (mem_of c' es', Inr ())"
    by (rule segment_operation [OF assms(1) f truncate_recovers [where durable = k]]) blast+
  have "c' = c" "es' \<in> {es, take (i - Suc c) es}"
    using o(6) by (auto simp: op_outcomes_def mem_op_def mem_truncate_of [OF o(2)] split: sum.splits)
  moreover have "es' = take (i - Suc c) es" if "r = Inr ()"
    using o(7) that by (auto simp: mem_op_def mem_truncate_of [OF o(2)] split: sum.splits)
  ultimately show thesis using o(1,3,4,5,7) by (intro that [of l2]) (simp_all add: segment_sel)
qed

lemma segment_compact:
  assumes "segment_state_ready l" "t \<le> u64_max" "ls_compact file_segment_trait t l = (l', r)"
  obtains l2 where "reopen_segment k l' = Some l2" "segment_state_ready l2"
    "(ls_compacted file_segment_trait l2, ls_replay file_segment_trait l2) \<in>
      {(ls_compacted file_segment_trait l, ls_replay file_segment_trait l),
       (max (ls_compacted file_segment_trait l) t, drop (t - ls_compacted file_segment_trait l) (ls_replay file_segment_trait l))}"
    "r = Inr () \<Longrightarrow> l' = l2 \<and> ls_compacted file_segment_trait l2 = max (ls_compacted file_segment_trait l) t \<and>
      ls_replay file_segment_trait l2 = drop (t - ls_compacted file_segment_trait l) (ls_replay file_segment_trait l)"
proof -
  obtain f where "file_compact_prefix_through f t (snd l) = (snd l', r)" using assms(3) by (auto simp: segment_sel elim: scheduledD)
  then have f: "file_op f (CompactPrefixThrough t) (snd l) = (snd l', map_sum CompactFailed id r)" by (simp add: file_op_def)
  obtain c es c' es' l2 where o: "snd (snd l) = segment_of c es" "map pe_index es = [c + 1..<c + 1 + length es]"
    "reopen_segment k l' = Some l2" "segment_state_ready l2" "snd (snd l2) = segment_of c' es'"
    "mem_of c' es' \<in> op_outcomes (CompactPrefixThrough t) (mem_of c es)"
    "map_sum CompactFailed id r = Inr () \<Longrightarrow> l' = l2 \<and> mem_op (CompactPrefixThrough t) (mem_of c es) = (mem_of c' es', Inr ())"
    by (rule segment_operation [OF assms(1) f compact_recovers [OF _ assms(2), where durable = k]]) blast+
  have "(c', es') \<in> {(c, es), (max c t, drop (t - c) es)}"
    using o(6) by (auto simp: op_outcomes_def mem_op_def mem_compact_of [OF o(2)] split: if_splits)
  moreover have "c' = max c t \<and> es' = drop (t - c) es" if "r = Inr ()"
    using o(7) that by (auto simp: mem_op_def mem_compact_of [OF o(2)] split: if_splits)
  ultimately show thesis using o(1,3,4,5,7) by (intro that [of l2]) (simp_all add: segment_sel)
qed

lemma segment_layout:
  assumes "segment_state_ready l"
  shows "map pe_index (ls_replay file_segment_trait l) =
      [Suc (ls_compacted file_segment_trait l)..<Suc (ls_compacted file_segment_trait l) + length (ls_replay file_segment_trait l)]"
    "ls_next_index file_segment_trait l = Suc (ls_compacted file_segment_trait l) + length (ls_replay file_segment_trait l)"
proof -
  obtain fs d c es where l: "l = (fs, d, segment_of c es)" "log_on_disk c es d" using assms by (rule segment_stateE)
  show "map pe_index (ls_replay file_segment_trait l) =
      [Suc (ls_compacted file_segment_trait l)..<Suc (ls_compacted file_segment_trait l) + length (ls_replay file_segment_trait l)]"
    using log_on_disk_contiguous [OF l(2)] l(1) by (simp only: segment_sel snd_conv segment_of_sel Suc_eq_plus1)
  show "ls_next_index file_segment_trait l = Suc (ls_compacted file_segment_trait l) + length (ls_replay file_segment_trait l)"
    using next_index_on_disk [OF l(2)] l(1) by (simp add: segment_sel)
qed

section \<open>The interpretations\<close>

lemma journal_written:
  assumes "journal_state_ready h" "hard_state_ok st" "hs_write journal_trait st h = (h', r)"
  shows "case r of Inr _ \<Rightarrow> journal_state_ready h' \<and> hs_current journal_trait h' = st
    | Inl _ \<Rightarrow> \<exists>h2. reopen_journal h' = Some h2 \<and> journal_state_ready h2 \<and> hs_current journal_trait h2 \<in> {hs_current journal_trait h, st}"
proof -
  obtain f where f: "journal_write f st (snd h) = (snd h', r)" using assms(3) by (auto simp: journal_trait_def elim: scheduledD)
  have h: "journal_ready (snd h)" using assms(1) by (simp add: journal_state_ready_def)
  show ?thesis
  proof (cases r)
    case (Inl e)
    from journal.write_failed [OF h assms(2) f [unfolded Inl]] obtain d s where
      "journal_open (fst (snd h')) = (d, Inr s)" "journal_ready (d, s)" "jr_current s \<in> {jr_current (snd (snd h)), st}" by blast
    with Inl show ?thesis
      by (auto simp: reopen_journal_def journal_state_ready_def journal_trait_def intro!: exI [of _ "(fst h', d, s)"])
  next
    case (Inr u)
    from journal.write_done [OF h assms(2) f [unfolded Inr]] Inr show ?thesis by (simp add: journal_state_ready_def journal_trait_def)
  qed
qed

interpretation files: crash_stores journal_trait file_segment_trait memory_snapshot_trait
  journal_state_ready segment_state_ready staging_ok reopen_journal reopen_segment
proof (unfold_locales, goal_cases)
  case (1 h st h' u) then show ?case using journal_written [of h st h' "Inr u"] by simp
next
  case (2 l) then show ?case by (rule segment_layout)
next
  case (3 l) then show ?case by (rule segment_layout)
next
  case (4 l es l' u)
  have "0 < ls_next_index file_segment_trait l" using segment_next_positive [OF 4(1)] by (simp add: segment_sel)
  from segment_append [OF 4(1,2) this 4(3)] show ?case by simp metis
next
  case (5 l i l' u) from segment_truncate [OF this, of 0] show ?case by simp metis
next
  case (6 l t l' u) from segment_compact [OF this, of 0] show ?case by simp metis
next
  case (7 s chunk s' u) then show ?case using memory_stage [OF 7] memory_stage_pending [OF 7(2)] by simp
next
  case (8 s snap s' u) then show ?case by (rule memory_promote)
next
  case (9 s s' u) then show ?case by (simp add: memory_clear)
next
  case (10 s p s' u) then show ?case by (simp add: memory_write)
next
  case (11 s snap source s' u) then show ?case by (rule memory_stream)
next
  case (12 h) then show ?case using journal_ready_open [of "fst (snd h)" "snd (snd h)"] by (simp add: journal_state_ready_def reopen_journal_def)
next
  case (13 h st h' e) then show ?case using journal_written [of h st h' "Inl e"] by simp
next
  case (14 l k) then show ?case by (rule reopen_segment_ready)
next
  case (15 l es k l' e) from segment_append [OF this] show ?case by metis
next
  case (16 l k i l' e) from segment_truncate [OF 16(1,3), of k] show ?case by metis
next
  case (17 l t k l' e) from segment_compact [OF 17(1,2,4), of k] show ?case by metis
next
  case (18 s chunk s' e) then show ?case by (rule memory_stage)
next
  case (19 s snap s' e) then show ?case using memory_promote_failed [of snap s s' e] by simp
next
  case (20 s s' e) then show ?case by (simp add: memory_clear)
qed

text \<open>The in-memory stores keep the contract of healthy stores; nothing of them is left after a crash.\<close>

lemma memory_segmentE:
  assumes "memory_segment_ready m"
  obtains c es where "m = mem_of c es" "map pe_index es = [c + 1..<c + 1 + length es]"
  using that [of "mem_compacted_through m" "cle_entries (mem_entries m)"] assms
  by (simp add: memory_segment_ready_def validate_contiguous_iff mem_of_def del: upt_Suc)

lemma memory_segmentI: "map pe_index es = [c + 1..<c + 1 + length es] \<Longrightarrow> memory_segment_ready (mem_of c es)"
  by (simp add: memory_segment_ready_def validate_contiguous_iff mem_of_def del: upt_Suc)

lemmas memory_segment_sel = memory_segment_trait_def RaftLogSegment.select_convs

lemma mem_of_sel [simp]: "mem_compacted_through (mem_of c es) = c" "cle_entries (mem_entries (mem_of c es)) = es"
  by (simp_all add: mem_of_def)

interpretation memory: durable_stores memory_hard_state_trait memory_segment_trait memory_snapshot_trait
  "\<lambda>_. True" memory_segment_ready staging_ok
proof (unfold_locales, goal_cases)
  case (1 h st h' u) then show ?case by (auto simp: memory_hard_state_trait_def mem_write_hard_state_def)
next
  case (2 l) then show ?case by (elim memory_segmentE) (simp add: memory_segment_sel del: upt_Suc)
next
  case (3 l) then show ?case
    by (elim memory_segmentE) (use next_index_contiguous in \<open>simp add: memory_segment_sel mem_of_def del: upt_Suc\<close>)
next
  case (4 l es l' u)
  obtain c es0 where l: "l = mem_of c es0" "map pe_index es0 = [c + 1..<c + 1 + length es0]" using 4(1) by (rule memory_segmentE)
  have "validate_contiguous es (c + 1 + length es0) = Inr ()" "l' = mem_of c (es0 @ es)"
    using 4(3) l by (auto simp: memory_segment_sel mem_append_of [OF l(2)] split: if_splits sum.splits)
  then show ?case using l contiguous_append [OF l(2), of es]
    by (auto simp: memory_segment_sel validate_contiguous_iff intro!: memory_segmentI simp del: upt_Suc)
next
  case (5 l i l' u)
  obtain c es0 where l: "l = mem_of c es0" "map pe_index es0 = [c + 1..<c + 1 + length es0]" using 5(1) by (rule memory_segmentE)
  have "l' = mem_of c (take (i - (c + 1)) es0)"
    using 5(2) l by (auto simp: memory_segment_sel mem_truncate_of [OF l(2)] split: sum.splits)
  then show ?case using l contiguous_take [OF l(2)] by (auto simp: memory_segment_sel intro!: memory_segmentI simp del: upt_Suc)
next
  case (6 l t l' u)
  obtain c es0 where l: "l = mem_of c es0" "map pe_index es0 = [c + 1..<c + 1 + length es0]" using 6(1) by (rule memory_segmentE)
  have l': "l' = mem_of (max c t) (drop (t - c) es0)"
    using 6(3) l by (auto simp: memory_segment_sel mem_compact_of [OF l(2)] max_def split: if_splits)
  have "map pe_index (drop (t - c) es0) = [max c t + 1..<max c t + 1 + length (drop (t - c) es0)]"
    using contiguous_drop [OF l(2), of "t - c"] by (cases "t - c \<le> length es0") (auto simp: max_def add.commute simp del: upt_Suc)
  then show ?case using l l' by (auto simp: memory_segment_sel intro!: memory_segmentI simp del: upt_Suc)
next
  case (7 s chunk s' u) then show ?case using memory_stage [OF 7] memory_stage_pending [OF 7(2)] by simp
next
  case (8 s snap s' u) then show ?case by (rule memory_promote)
next
  case (9 s s' u) then show ?case by (simp add: memory_clear)
next
  case (10 s p s' u) then show ?case by (simp add: memory_write)
next
  case (11 s snap source s' u) then show ?case by (rule memory_stream)
qed

end
