(* ===== verification/Durable_Recovery.thy ===== *)
theory Durable_Recovery
  imports Durable_Files
begin

text \<open>
  What survives a crash of a durable node on the file stores: votes that left the node, batches that were
  acknowledged and entries that were committed. What a failed write does to the node, and what a local
  compaction leaves. A follower on fresh files instantiates each of the theorems.
\<close>

section \<open>Nodes on fresh files\<close>

text \<open>A node whose stores were just written, with the faults its journal will meet.\<close>

definition sample_files :: "HardStateFault list \<Rightarrow> Node \<Rightarrow> file_node" where
  "sample_files faults n =
     \<lparr>dn_node = n, dn_hard_state = (faults, journal_of [hard_state_for_node n]),
      dn_segment = ([], \<lparr>segment_bytes = frames_of (persisted_log n), marker_bytes = None\<rparr>, segment_of 0 (persisted_log n)),
      dn_snapshots = InMemoryRaftSnapshotStore_new, dn_tail = Some (PersistedTail_of_node n), dn_fatal = None\<rparr>"

lemma persisted_indexes: "map pe_index (persisted_log n) = [Suc (snapshot_index n)..<Suc (snapshot_index n) + length (persisted_log n)]"
  by (rule nth_equalityI) (simp_all add: persisted_log_def labelled_from_nth del: upt_Suc)

lemma sample_files_ready:
  assumes "Node_snapshot n = None" "durable_typed n" "last_log_index n < u64_max"
  shows "file_ready (sample_files faults n)"
proof -
  let ?es = "persisted_log n"
  have si: "snapshot_index n = 0" using assms(1) by (simp add: snapshot_index_def)
  have "pe_index e \<noteq> u64_max" if "e \<in> set ?es" for e using persists_index [OF persisted_log_persists [OF that]] assms(3) by simp
  then have "\<forall>e\<in>set ?es. framed e" using assms(2) by (intro fits_framed) (auto simp: durable_typed_def)
  moreover have "map pe_index ?es = [0 + 1..<0 + 1 + length ?es]" using persisted_indexes [of n] si by (simp del: upt_Suc)
  ultimately have "log_on_disk 0 ?es (\<lparr>segment_bytes = [], marker_bytes = None\<rparr>\<lparr>segment_bytes := frames_of ?es\<rparr>)"
    by (intro disk_rewrite) (simp_all add: read_compaction_marker_def del: upt_Suc)
  then have "segment_state_ready (dn_segment (sample_files faults n))" by (auto simp: sample_files_def intro: segment_stateI)
  moreover have "journal_state_ready (dn_hard_state (sample_files faults n))"
    using journal_readyI [of "[hard_state_for_node n]"] assms(2) by (simp add: sample_files_def journal_state_ready_def durable_typed_def)
  ultimately show ?thesis by (simp add: stores_ready_def sample_files_def staging_ok_def InMemoryRaftSnapshotStore_new_def)
qed

lemma sample_files_healthy:
  assumes "Node_snapshot n = None" "durable_typed n" "node_inv n"
  shows "file_healthy (sample_files faults n)"
proof (rule synced_healthy)
  have "snapshot_index n = 0" using assms(1) by (simp add: snapshot_index_def)
  then show "synced journal_trait file_segment_trait memory_snapshot_trait (sample_files faults n)"
    using assms(1)
    by (simp add: synced_def log_synced_def sample_files_def journal_trait_def journal_of_def segment_sel memory_snapshot_sel
        current_snapshot_def staged_transfer_def InMemoryRaftSnapshotStore_new_def)
qed (use assms in \<open>simp_all add: sample_files_def\<close>)

text \<open>A vote changes nothing that is stored but the term and the vote.\<close>

lemma handle_request_vote_frame:
  "same_log n (fst (handle_request_vote c r n))" "Node_commit_index (fst (handle_request_vote c r n)) = Node_commit_index n"
  "committed_configuration (persistent (fst (handle_request_vote c r n))) = committed_configuration (persistent n)"
  by (simp_all add: handle_request_vote_def case_prod_unfold Let_def same_log_def become_follower_frame)

lemma vote_hard_state:
  "hard_state_for_node (fst (handle_request_vote c r n)) = fenced (hard_state_for_node n) (fst (handle_request_vote c r n))"
  using handle_request_vote_frame [where n = n and c = c and r = r]
  by (simp add: hard_state_for_node_def fenced_def committed_configuration_state_at_def snapshot_committed_configuration_state_def
      same_log_def snapshot_index_def)

lemma vote_typed_batch:
  assumes "durable_typed n" "c \<le> u64_max" "rv_term r \<le> u64_max" "rv_candidate_id r = c"
  shows "typed_batch [MessageInput c (RequestVoteMsg r)] n"
proof -
  let ?n = "fst (handle_request_vote c r n)"
  have s: "step_batch [MessageInput c (RequestVoteMsg r)] n = handle_request_vote c r n" using assms(4) by (simp add: step_batch_def receive_def)
  note same = handle_request_vote_frame(1) [of n c r] and out = handle_request_vote_outcome [OF surjective_pairing, of c r n]
  have "Node_current_term ?n \<le> u64_max" "Node_voted_for ?n \<in> {None, Some c, Node_voted_for n}"
    using out assms(1,3) by (auto simp: durable_typed_def hard_state_ok_def hard_state_for_node_def)
  then have "hard_state_ok (hard_state_for_node ?n)"
    using assms(1,2) unfolding vote_hard_state by (auto simp: durable_typed_def hard_state_ok_def fenced_def hard_state_for_node_def)
  moreover have "persisted_log ?n = persisted_log n" "last_log_index ?n = last_log_index n"
    using same same_log_snapshot_index [OF same] same_log_last [OF same] by (simp_all add: persisted_log_def same_log_def)
  ultimately have "durable_typed ?n" using assms(1) by (simp add: durable_typed_def)
  moreover have "log_matching n ?n" using same_log_entry_at [OF same] same_log_snapshot_index [OF same] by (simp add: log_matching_def)
  ultimately show ?thesis by (simp add: typed_batch_def s)
qed

lemma sample_hard_state:
  "hard_state_for_node sample_follower =
     \<lparr>hs_current_term = 2, hs_voted_for = None, hs_commit_index = 2, hs_committed_configuration = None\<rparr>"
  by (simp add: hard_state_for_node_def committed_configuration_state_at_def snapshot_committed_configuration_state_def
      sample_defs ci_committed_state_at_def max_by_key_def List.map_filter_simps Let_def)

lemma sample_follower_typed: "durable_typed sample_follower" "Node_snapshot sample_follower = None" "last_log_index sample_follower < u64_max"
proof -
  have "list_all entry_fits (persisted_log sample_follower)"
    unfolding persisted_log_def sample_snapshot_index
    by (simp add: sample_defs labelled_from_def enumerate_eq_zip entry_fits_def encode_raft_log_entry_def
        encode_raft_log_entry_appending_def advanceable_log_index_def u64_max_def u32_max_def RAFT_LOG_ENTRY_MAGIC_def
        write_payload_def Let_def)
  then show "durable_typed sample_follower" by (simp add: durable_typed_def sample_hard_state hard_state_ok_def u64_max_def)
  show "Node_snapshot sample_follower = None" by (simp add: sample_follower_def)
qed (simp add: u64_max_def)

text \<open>The same vote when the journal accepts the write, and when the write stops after some bytes.\<close>

lemmas sample_files_ok =
  sample_files_ready [OF sample_follower_typed(2,1,3)] sample_files_healthy [OF sample_follower_typed(2,1) sample_follower_inv]

lemma sample_request_typed: "typed_batch [sample_vote_request] sample_follower"
  unfolding sample_vote_request_def by (rule vote_typed_batch) (simp_all add: sample_follower_typed u64_max_def)

lemma sample_voted_hard_state:
  "hard_state_for_node sample_voted = fenced (hard_state_for_node sample_follower) sample_voted"
  "fenced (hard_state_for_node sample_follower) sample_voted \<noteq> hard_state_for_node sample_follower"
proof -
  have "step sample_vote_request sample_follower = handle_request_vote 2 \<lparr>rv_term = 3, rv_candidate_id = 2, rv_last_log_index = 4, rv_last_log_term = 2\<rparr> sample_follower"
    by (simp add: sample_vote_request_def receive_def)
  then show "hard_state_for_node sample_voted = fenced (hard_state_for_node sample_follower) sample_voted"
    using vote_hard_state sample_vote_step by (metis fst_conv)
  have "Node_voted_for sample_voted = Some 2" by (simp add: sample_voted_def)
  then show "fenced (hard_state_for_node sample_follower) sample_voted \<noteq> hard_state_for_node sample_follower"
    by (auto simp: fenced_def hard_state_for_node_def sample_follower_frame)
qed

lemma sample_vote_written:
  "hs_write journal_trait st (fault # faults, journal_of [st0]) =
     (case fault of
        HsAppendFault k operation \<Rightarrow>
          ((faults, Some (journal_header @ records_of [st0] @ take k (encode_raft_hard_state st)), (snd (journal_of [st0]))\<lparr>jr_health := ReopenRequired\<rparr>),
           Inl (HsWriteIo operation))
      | _ \<Rightarrow> ((faults, journal_of [st0, st]), Inr ()))"
  by (simp add: journal_trait_def scheduled_def journal_of_write RECORD_LIMIT_def Let_def split: HardStateFault.split)

lemma sample_step:
  "file_step_batch [sample_vote_request] (sample_files faults sample_follower) =
     persist_stepped journal_trait file_segment_trait memory_snapshot_trait (hard_state_for_node sample_follower) (Node_commit_index sample_follower)
       [Send 2 (RequestVoteResponseMsg sample_vote)] ((sample_files faults sample_follower)\<lparr>dn_node := sample_voted\<rparr>)"
  unfolding durable_step_batch_eq step_and_persist_def
  by (simp add: sample_voted_eq sample_files_def journal_trait_def journal_of_def)

lemma sample_batch_fails:
  "snd (file_step_batch [sample_vote_request] (sample_files (HsAppendFault k operation # faults) sample_follower)) =
     Inl (RuntimeHardStateWrite (HsWriteIo operation)) \<and>
   dn_snapshots (fst (file_step_batch [sample_vote_request] (sample_files (HsAppendFault k operation # faults) sample_follower))) =
     InMemoryRaftSnapshotStore_new"
proof -
  have "(hard_state_for_node sample_follower)\<lparr>hs_current_term := hs_current_term (hard_state_for_node sample_voted),
      hs_voted_for := hs_voted_for (hard_state_for_node sample_voted)\<rparr> = fenced (hard_state_for_node sample_follower) sample_voted"
    by (simp add: fenced_def hard_state_for_node_def)
  then show ?thesis using sample_voted_hard_state(2)
    unfolding sample_step persist_stepped_def
    by (simp add: write_hard_state_for_step_def sample_files_def sample_vote_written then_do_def poison_def)
qed

lemma sample_suffix_written:
  assumes "dn_node d = sample_voted" "dn_tail d = Some (PersistedTail_of_node sample_follower)"
    "dn_segment d = dn_segment (sample_files [] sample_follower)"
  shows "persist_log_suffix_for_step file_segment_trait k d = (d\<lparr>dn_tail := Some (PersistedTail_of_node sample_voted)\<rparr>, Inr ())"
proof -
  note same = sample_voted_same
  have "still_matches (PersistedTail_of_node sample_follower) sample_voted"
    using same_log_term_at [OF same] by (simp add: still_matches_def PersistedTail_of_node_def Let_def sample_term_at)
  moreover have "ls_next_index file_segment_trait (dn_segment d) = 5"
  proof -
    have "length (persisted_log sample_follower) = 4" by (simp add: persisted_log_def sample_follower_def sample_log_def)
    moreover have "segment_state_ready (dn_segment d)" using sample_files_ok(1) [of "[]"] assms(3) by (simp add: stores_ready_def)
    ultimately show ?thesis using segment_layout(2) [of "dn_segment d"] assms(3) by (simp add: segment_sel sample_files_def)
  qed
  moreover have "log_entries_from sample_voted 5 = []" "snapshot_index sample_voted = 0"
    using same_log_snapshot_index [OF same] same
    by (simp_all add: log_entries_from_above same_log_def) (simp add: sample_follower_def sample_log_def)
  ultimately show ?thesis using assms(1,2) by (simp add: persist_log_suffix_for_step_def repair_persisted_log_suffix_def Let_def)
qed

lemma sample_batch_succeeds:
  "snd (file_step_batch [sample_vote_request] (sample_files (HsNoFault # faults) sample_follower)) =
     Inr [Send 2 (RequestVoteResponseMsg sample_vote)] \<and>
   dn_snapshots (fst (file_step_batch [sample_vote_request] (sample_files (HsNoFault # faults) sample_follower))) = InMemoryRaftSnapshotStore_new"
proof -
  let ?st = "fenced (hard_state_for_node sample_follower) sample_voted"
  let ?d = "(sample_files faults sample_follower)\<lparr>dn_node := sample_voted, dn_hard_state := (faults, journal_of [hard_state_for_node sample_follower, ?st])\<rparr>"
  have pre: "(hard_state_for_node sample_follower)\<lparr>hs_current_term := hs_current_term (hard_state_for_node sample_voted),
      hs_voted_for := hs_voted_for (hard_state_for_node sample_voted)\<rparr> = ?st"
    by (simp add: fenced_def hard_state_for_node_def)
  have w: "write_hard_state_for_step journal_trait ?st (hard_state_for_node sample_follower)
      ((sample_files (HsNoFault # faults) sample_follower)\<lparr>dn_node := sample_voted\<rparr>) = (?d, Inr ())"
    using sample_voted_hard_state(2) by (simp add: write_hard_state_for_step_def sample_files_def sample_vote_written)
  have l: "persist_log_suffix_for_step file_segment_trait k ?d = (?d\<lparr>dn_tail := Some (PersistedTail_of_node sample_voted)\<rparr>, Inr ())" for k
    by (rule sample_suffix_written) (simp_all add: sample_files_def)
  have c: "clear_abandoned_snapshot_staging_for_step memory_snapshot_trait ?d = (?d, Inr ())"
    by (simp add: clear_abandoned_snapshot_staging_for_step_def sample_files_def memory_snapshot_sel staged_transfer_def
        InMemoryRaftSnapshotStore_new_def)
  have h: "hs_current journal_trait (dn_hard_state ?d) = ?st" by (simp add: journal_trait_def journal_of_def)
  have "persist_after_fence journal_trait file_segment_trait memory_snapshot_trait (hard_state_for_node sample_voted) k
      [Send 2 (RequestVoteResponseMsg sample_vote)] ?d =
      (?d\<lparr>dn_tail := Some (PersistedTail_of_node sample_voted)\<rparr>, Inr [Send 2 (RequestVoteResponseMsg sample_vote)])" for k
    unfolding persist_after_fence_def
    using l c h by (simp add: then_do_def persist_snapshot_output_def write_hard_state_for_step_def sample_voted_hard_state(1)
        resolve_snapshot_chunk_sends_def)
  then show ?thesis unfolding sample_step persist_stepped_def using pre w by (simp add: then_do_def poison_def) (simp add: sample_files_def)
qed

section \<open>What the files hold after a crash\<close>

lemma open_inner_reopened:
  assumes "reopen_journal h = Some h2" "reopen_segment (hs_commit_index (hs_current journal_trait h2)) l = Some l2"
  shows "open_inner True (fst (snd h), fst (snd l)) = ((fst (snd h2), fst (snd l2)), Inr (snd (snd h2), snd (snd l2)))"
  using assms by (auto simp: open_inner_def reopen_journal_def reopen_segment_def journal_trait_def split: prod.splits sum.splits)

lemma open_inner_ready:
  assumes "file_ready d"
  shows "open_inner repair (disks_of d) = (disks_of d, Inr (snd (snd (dn_hard_state d)), snd (snd (dn_segment d))))"
proof -
  have "journal_open (fst (snd (dn_hard_state d))) = (fst (snd (dn_hard_state d)), Inr (snd (snd (dn_hard_state d))))"
    using assms journal_ready_open by (simp add: stores_ready_def journal_state_ready_def)
  moreover have "open_segment how (fst (snd (dn_segment d))) = (fst (snd (dn_segment d)), Inr (snd (snd (dn_segment d))))" for how
    using assms open_repair_whole by (cases how) (auto simp: stores_ready_def segment_state_ready_def open_strict_iff)
  ultimately show ?thesis by (simp add: open_inner_def disks_of_def)
qed

text \<open>The hard state found after a batch, whether it succeeded or stopped at any write.\<close>

lemma hard_state_after_batch:
  assumes "file_ready d" "file_healthy d" "typed_batch inputs (dn_node d)" "file_step_batch inputs d = (d', r)"
  obtains disks h l where "open_inner True (disks_of d') = (disks, Inr (h, l))"
    "hs_current_term (jr_current h) = Node_current_term (dn_node d) \<and> hs_voted_for (jr_current h) = Node_voted_for (dn_node d) \<or>
     hs_current_term (jr_current h) = Node_current_term (fst (step_batch inputs (dn_node d))) \<and>
     hs_voted_for (jr_current h) = Node_voted_for (fst (step_batch inputs (dn_node d)))"
proof (cases r)
  case (Inr res)
  from files.typed_batch_synced [OF assms(1-3) assms(4) [unfolded Inr]]
  have d': "file_ready d'" "hs_current journal_trait (dn_hard_state d') = hard_state_for_node (fst (step_batch inputs (dn_node d)))"
    by (simp_all add: synced_def)
  show thesis by (rule that [OF open_inner_ready [OF d'(1)]]) (use d'(2) in \<open>simp add: journal_trait_def hard_state_for_node_def\<close>)
next
  case (Inl e)
  obtain n' outs where s: "step_batch inputs (dn_node d) = (n', outs)" by fastforce
  have t: "list_all input_wf inputs" "durable_typed n'" using assms(3) s by (simp_all add: typed_batch_def)
  let ?before = "hs_current journal_trait (dn_hard_state d)"
  obtain h2 l2 where o: "reopen_journal (dn_hard_state d') = Some h2" "hs_current journal_trait h2 \<in> {?before, fenced ?before n', hard_state_for_node n'}"
    "reopen_segment (hs_commit_index (hs_current journal_trait h2)) (dn_segment d') = Some l2"
    using files.failed_batch_recovers [OF assms(1,2) t(1) s t(2) assms(4) [unfolded Inl]] by blast
  have "hs_current_term ?before = Node_current_term (dn_node d)" "hs_voted_for ?before = Node_voted_for (dn_node d)"
    using assms(2) by (simp_all add: durable_healthy_def Let_def)
  with o(2) s open_inner_reopened [OF o(1,3)] show thesis
    by (intro that [of "(fst (snd h2), fst (snd l2))" "snd (snd h2)" "snd (snd l2)"])
      (auto simp: disks_of_def journal_trait_def fenced_def hard_state_for_node_def)
qed

text \<open>
  C5: a vote that left a node is never taken back, not even by a crash. A node on the file stores answers a batch and
  its outputs grant a vote. Any number of batches and compactions later, another batch runs and stops at any of its
  writes, or succeeds, and the process dies. Opening the files again finds a hard state whose term is that of the vote
  or a later one, and in the term of the vote it names the candidate the vote was granted to.
\<close>

theorem granted_vote_survives_crash:
  assumes "file_ready d0" "file_healthy d0" "typed_batch inputs (dn_node d0)" "file_step_batch inputs d0 = (d1, Inr res)"
    "Send candidate (RequestVoteResponseMsg vote) \<in> set res" "rvr_vote_granted vote"
    "file_run d1 d2" "typed_batch later (dn_node d2)" "file_step_batch later d2 = (d3, r)"
  shows "\<exists>disks h l. open_inner True (disks_of d3) = (disks, Inr (h, l)) \<and>
    vote_held candidate vote (hs_current_term (jr_current h)) (hs_voted_for (jr_current h))"
proof -
  have d1: "file_ready d1" "file_healthy d1" "votes_held res (dn_node d1)"
    using files.typed_batch_synced [OF assms(1-4)] by blast+
  have d2: "file_ready d2" "file_healthy d2" "evolves (dn_node d1) (dn_node d2)" using files.run_healthy [OF assms(7) d1(1,2)] by simp_all
  have "vote_held candidate vote (Node_current_term (dn_node d1)) (Node_voted_for (dn_node d1))"
    using d1(3) assms(5,6) by (auto simp: votes_held_def)
  then have v2: "vote_held candidate vote (Node_current_term (dn_node d2)) (Node_voted_for (dn_node d2))"
    using d2(3) by (rule vote_held_evolves)
  let ?n3 = "fst (step_batch later (dn_node d2))"
  have "evolves (dn_node d2) ?n3" using batch_keeps_ballot [of "dn_node d2" later] d2(2) assms(8)
    by (simp add: ballot_kept_def good_def durable_healthy_def typed_batch_def Let_def)
  with v2 have v3: "vote_held candidate vote (Node_current_term ?n3) (Node_voted_for ?n3)" by (rule vote_held_evolves)
  obtain disks h l where "open_inner True (disks_of d3) = (disks, Inr (h, l))"
    "hs_current_term (jr_current h) = Node_current_term (dn_node d2) \<and> hs_voted_for (jr_current h) = Node_voted_for (dn_node d2) \<or>
     hs_current_term (jr_current h) = Node_current_term ?n3 \<and> hs_voted_for (jr_current h) = Node_voted_for ?n3"
    by (rule hard_state_after_batch [OF d2(1,2) assms(8,9)])
  then show ?thesis using v2 v3 by auto
qed

definition sample_second_request :: Input where
  "sample_second_request = MessageInput 3 (RequestVoteMsg \<lparr>rv_term = 4, rv_candidate_id = 3, rv_last_log_index = 4, rv_last_log_term = 2\<rparr>)"

text \<open>The follower votes for 2 in term 3; the journal fails while it stores the vote of term 4.\<close>

theorem granted_vote_survives_crash_witness:
  "\<exists>disks h l. open_inner True (disks_of (fst (file_step_batch [sample_second_request]
      (fst (file_step_batch [sample_vote_request] (sample_files [HsNoFault, HsAppendFault 5 ''append''] sample_follower)))))) = (disks, Inr (h, l)) \<and>
    vote_held 2 sample_vote (hs_current_term (jr_current h)) (hs_voted_for (jr_current h))"
proof -
  let ?d0 = "sample_files [HsNoFault, HsAppendFault 5 ''append''] sample_follower"
  let ?d1 = "fst (file_step_batch [sample_vote_request] ?d0)"
  have d1: "file_step_batch [sample_vote_request] ?d0 = (?d1, Inr [Send 2 (RequestVoteResponseMsg sample_vote)])"
    using sample_batch_succeeds [of "[HsAppendFault 5 ''append'']"] by (simp add: prod_eq_iff)
  have t: "typed_batch [sample_vote_request] (dn_node ?d0)" using sample_request_typed by (simp add: sample_files_def)
  have "durable_typed (dn_node ?d1)"
    using files.typed_batch_synced [OF sample_files_ok t d1] by (auto simp: durable_healthy_def Let_def)
  then have "typed_batch [sample_second_request] (dn_node ?d1)"
    unfolding sample_second_request_def by (rule vote_typed_batch) (simp_all add: u64_max_def)
  from granted_vote_survives_crash [OF sample_files_ok t d1 _ _ durable_run.begun this surjective_pairing] show ?thesis
    by (simp add: sample_vote_def)
qed

text \<open>
  C7: what a node acknowledged survives a restart. A node hydrated from file stores runs any number of batches
  and compactions, takes a batch and acknowledges it. Its files then open, strictly or with repair and without a change. The
  node hydrated from them has the term, vote, snapshot, log, commit index and membership the node had, is in the
  same snapshot transfer, satisfies the node invariant, and goes on applying at the index the application had reached. The messages
  are those an honest peer sends, compactions name no term beyond that of the node, the log ends below the largest
  index, and the sender of a transfer in progress is still one the membership or the snapshot admits.
\<close>

theorem acknowledged_batch_survives_restart:
  assumes "with_storage_and_snapshot_store_applied_through journal_trait file_segment_trait memory_snapshot_trait c h l s applied0 = Inr d0"
    "file_ready d0" "file_healthy d0" "honest_run journal_trait file_segment_trait memory_snapshot_trait d0 d"
    "typed_batch inputs (dn_node d)" "list_all honest_input inputs" "file_step_batch inputs d = (d', Inr res)"
    "last_log_index (dn_node d') < u64_max" "transfer_authorised (dn_node d')" "applied \<le> Node_commit_index (dn_node d')"
  shows "\<exists>stores m. open_inner repair (disks_of d') = (disks_of d', Inr stores) \<and>
    map_sum id dn_node (hydrate_files (config (dn_node d')) (disks_of d') stores d' applied) = Inr m \<and>
    restarted applied (dn_node d') m \<and> pending_snapshot_transfer m = pending_snapshot_transfer (dn_node d')"
proof -
  have "log_synced file_segment_trait memory_snapshot_trait d0" using assms(3) by (simp add: durable_healthy_def Let_def)
  note d0 = hydrated_sound [OF assms(1) this]
  have d: "file_ready d" "file_healthy d" using files.run_healthy [OF honest_run_durable [OF assms(4)] assms(2,3)] by simp_all
  have "sound (dn_node d)" "staging_synced memory_snapshot_trait d" using files.honest_run_sound [OF assms(4,2,3)] d0 by simp_all
  from files.honest_batch_synced [OF d this assms(5-7)]
  have k: "sound (dn_node d')" "rs_pending memory_snapshot_trait (dn_snapshots d') = pending_snapshot_transfer (dn_node d')"
    by (simp_all add: staging_synced_def)
  have d': "file_ready d'" "synced journal_trait file_segment_trait memory_snapshot_trait d'" "file_healthy d'"
    using files.typed_batch_synced [OF d assms(5,7)] by blast+
  then have inv: "node_inv (dn_node d')" by (simp add: durable_healthy_def Let_def)
  let ?stores = "(snd (snd (dn_hard_state d')), snd (snd (dn_segment d')))"
  let ?h = "([], fst (disks_of d'), fst ?stores) :: journal_state" and ?l = "([], snd (disks_of d'), snd ?stores) :: segment_state"
  have "hs_current journal_trait ?h = hard_state_for_node (dn_node d')" "rs_current memory_snapshot_trait (dn_snapshots d') = Node_snapshot (dn_node d')"
    "ls_compacted file_segment_trait ?l = snapshot_index (dn_node d')" "ls_replay file_segment_trait ?l = persisted_log (dn_node d')"
    using d'(2) by (simp_all add: synced_def log_synced_def journal_trait_def segment_sel Let_def)
  from reopens [OF this(1,2) k(2) this(3,4) inv k(1) assms(8-10)] open_inner_ready [OF d'(1)] show ?thesis
    by (intro exI [of _ ?stores]) (auto simp: hydrate_files_def into_storage_def)
qed

text \<open>The sample node is one hydrated from its files.\<close>

lemma sample_files_hydrated:
  "with_storage_and_snapshot_store_applied_through journal_trait file_segment_trait memory_snapshot_trait sample_config
     (dn_hard_state (sample_files faults sample_follower)) (dn_segment (sample_files faults sample_follower))
     (dn_snapshots (sample_files faults sample_follower)) 2 = Inr (sample_files faults sample_follower)"
proof -
  let ?d = "sample_files faults sample_follower"
  have e: "rs_pending memory_snapshot_trait (dn_snapshots ?d) = None" "rs_current memory_snapshot_trait (dn_snapshots ?d) = None"
    by (simp_all add: sample_files_def memory_snapshot_sel staged_transfer_def current_snapshot_def InMemoryRaftSnapshotStore_new_def)
  have l: "ls_compacted file_segment_trait (dn_segment ?d) = 0" "map persisted_entry_to_bootstrap (ls_replay file_segment_trait (dn_segment ?d)) = durable_log 1 sample_log"
    using persisted_to_bootstrap [of sample_follower] sample_snapshot_index
    by (simp_all add: sample_files_def segment_sel) (simp add: sample_follower_def)
  have h: "hs_current journal_trait (dn_hard_state ?d) = \<lparr>hs_current_term = 2, hs_voted_for = None, hs_commit_index = 2, hs_committed_configuration = None\<rparr>"
    using sample_hard_state by (simp add: sample_files_def journal_trait_def journal_of_def)
  show ?thesis
    using sample_follower_bootstrap e l h
    by (simp add: with_storage_and_snapshot_store_applied_through_def finish_interrupted_install_def resume_staged_transfer_def)
      (simp add: sample_files_def)
qed

theorem acknowledged_batch_survives_restart_witness:
  "\<exists>stores m. open_inner False (disks_of (fst (file_step_batch [sample_vote_request] (sample_files [HsNoFault] sample_follower)))) =
      (disks_of (fst (file_step_batch [sample_vote_request] (sample_files [HsNoFault] sample_follower))), Inr stores) \<and> Node_voted_for m = Some 2 \<and>
    map_sum id dn_node (hydrate_files sample_config (disks_of (fst (file_step_batch [sample_vote_request] (sample_files [HsNoFault] sample_follower))))
      stores (fst (file_step_batch [sample_vote_request] (sample_files [HsNoFault] sample_follower))) 2) = Inr m"
proof -
  let ?d0 = "sample_files [HsNoFault] sample_follower"
  let ?d1 = "fst (file_step_batch [sample_vote_request] ?d0)"
  have d1: "file_step_batch [sample_vote_request] ?d0 = (?d1, Inr [Send 2 (RequestVoteResponseMsg sample_vote)])"
    using sample_batch_succeeds [of "[]"] by (simp add: prod_eq_iff)
  have t: "typed_batch [sample_vote_request] (dn_node ?d0)" using sample_request_typed by (simp add: sample_files_def)
  have n: "dn_node ?d1 = sample_voted"
    using files.typed_batch_synced [OF sample_files_ok t d1] sample_voted_eq by (simp add: sample_files_def)
  have same: "config sample_voted = sample_config" "Node_voted_for sample_voted = Some 2" "Node_commit_index sample_voted = 2"
    by (simp_all add: sample_voted_def become_follower_frame) (simp_all add: sample_defs)
  have "pending_snapshot_transfer sample_voted = None"
    by (simp add: pending_snapshot_transfer_def sample_voted_def become_follower_frame) (simp add: sample_defs)
  then have "transfer_authorised sample_voted" by (simp add: transfer_authorised_def)
  moreover have "list_all honest_input [sample_vote_request]" by (simp add: sample_vote_request_def)
  moreover have "last_log_index sample_voted < u64_max" using same_log_last [OF sample_voted_same] by (simp add: u64_max_def)
  ultimately show ?thesis
    using acknowledged_batch_survives_restart [OF sample_files_hydrated sample_files_ok honest_begun t _ d1, of 2 False] n same
    by (auto simp: restarted_def)
qed

text \<open>
  C6: a crash in the middle of a batch loses nothing that was committed. Whatever write of a batch fails, on the
  journal or the log, before or after its bytes or its rename reached the disk, the files open again with the repair of the
  uncommitted tail. The hard state is the one before the batch, that one with the new term and vote, or the new one. The
  compaction floor is covered by the snapshot the store holds, and every entry that was committed before the batch and is above the floor is in the log.
\<close>

theorem crashed_batch_keeps_committed:
  assumes "file_ready d0" "file_healthy d0" "file_run d0 d" "typed_batch inputs (dn_node d)" "file_step_batch inputs d = (d', Inl e)"
  shows "\<exists>disks h l. open_inner True (disks_of d') = (disks, Inr (h, l)) \<and>
    jr_current h \<in> {hs_current journal_trait (dn_hard_state d), fenced (hs_current journal_trait (dn_hard_state d)) (fst (step_batch inputs (dn_node d))),
      hard_state_for_node (fst (step_batch inputs (dn_node d)))} \<and>
    keeps_committed (dn_node d) (fs_compacted_through l) (cle_entries (fs_entries l)) (current_snapshot (dn_snapshots d'))"
proof -
  have d: "file_ready d" "file_healthy d" using files.run_healthy [OF assms(3,1,2)] by simp_all
  obtain n' outs where s: "step_batch inputs (dn_node d) = (n', outs)" by fastforce
  have t: "list_all input_wf inputs" "durable_typed n'" using assms(4) s by (simp_all add: typed_batch_def)
  let ?before = "hs_current journal_trait (dn_hard_state d)"
  obtain h2 l2 where o: "reopen_journal (dn_hard_state d') = Some h2" "hs_current journal_trait h2 \<in> {?before, fenced ?before n', hard_state_for_node n'}"
    "reopen_segment (hs_commit_index (hs_current journal_trait h2)) (dn_segment d') = Some l2"
    "keeps_committed (dn_node d) (ls_compacted file_segment_trait l2) (ls_replay file_segment_trait l2) (rs_current memory_snapshot_trait (dn_snapshots d'))"
    using files.failed_batch_recovers [OF d t(1) s t(2) assms(5)] by blast
  then show ?thesis using open_inner_reopened [OF o(1,3)] s
    by (intro exI [of _ "(fst (snd h2), fst (snd l2))"] exI [of _ "snd (snd h2)"] exI [of _ "snd (snd l2)"])
      (auto simp: disks_of_def journal_trait_def segment_sel memory_snapshot_sel)
qed

theorem crashed_batch_keeps_committed_witness:
  "\<exists>disks h l. open_inner True (disks_of (fst (file_step_batch [sample_vote_request]
      (sample_files [HsAppendFault 5 ''append''] sample_follower)))) = (disks, Inr (h, l)) \<and>
    set (take 2 (persisted_log sample_follower)) \<subseteq> set (cle_entries (fs_entries l))"
proof -
  let ?d0 = "sample_files [HsAppendFault 5 ''append''] sample_follower"
  let ?d1 = "fst (file_step_batch [sample_vote_request] ?d0)"
  have d1: "file_step_batch [sample_vote_request] ?d0 = (?d1, Inl (RuntimeHardStateWrite (HsWriteIo ''append'')))"
    using sample_batch_fails [of 5 "''append''" "[]"] by (simp add: prod_eq_iff)
  have t: "typed_batch [sample_vote_request] (dn_node ?d0)" using sample_request_typed by (simp add: sample_files_def)
  from crashed_batch_keeps_committed [OF sample_files_ok durable_run.begun t d1] obtain disks h l where
    o: "open_inner True (disks_of ?d1) = (disks, Inr (h, l))" "keeps_committed sample_follower (fs_compacted_through l)
      (cle_entries (fs_entries l)) (current_snapshot (dn_snapshots ?d1))" by (auto simp: sample_files_def)
  have "current_snapshot (dn_snapshots ?d1) = None"
    using sample_batch_fails [of 5 "''append''" "[]"] by (simp add: current_snapshot_def InMemoryRaftSnapshotStore_new_def)
  with o(2) have "p \<in> set (cle_entries (fs_entries l))" if "p \<in> set (persisted_log sample_follower)" "pe_index p \<le> Node_commit_index sample_follower" for p
    using that persists_index [OF persisted_log_persists [OF that(1)]] by (simp add: keeps_committed_def snapshot_boundary_def)
  moreover have "pe_index p \<le> 2" "p \<in> set (persisted_log sample_follower)" if "p \<in> set (take 2 (persisted_log sample_follower))" for p
    using that by (auto simp: persisted_log_def sample_follower_def sample_log_def labelled_from_def enumerate_eq_zip snapshot_index_def)
  moreover have "Node_commit_index sample_follower = 2" by (simp add: sample_defs)
  ultimately show ?thesis using o(1) by (intro exI) auto
qed

section \<open>After a failed write\<close>

text \<open>
  C18: a node whose write failed does nothing more. Whatever the stores are, a batch that fails on a healthy node
  records the cause, and from then on every batch, every proposal batch and every compaction is refused with
  that cause and leaves node and stores as they are, until the process is restarted from its files.
\<close>

theorem failed_batch_poisons_node:
  assumes "dn_fatal d = None" "durable_step_batch H L S inputs d = (d', Inl e)" "proposals \<noteq> []"
  shows "\<exists>cause. from_runtime_error e = Some cause \<and> dn_fatal d' = Some cause \<and>
    durable_step_batch H L S later d' = (d', Inl (RuntimePoisoned cause)) \<and>
    durable_step_proposal_batch H L S proposals d' = (d', Inl (RuntimePoisoned cause)) \<and>
    compact_log_with_snapshot L S snap d' = (d', Inl (RuntimePoisoned cause)) \<and>
    compact_log_with_streamed_snapshot L S descriptor source d' = (d', Inl (RuntimePoisoned cause))"
proof -
  obtain n' outs where "step_batch inputs (dn_node d) = (n', outs)" by fastforce
  then have "persist_stepped H L S (hs_current H (dn_hard_state d)) (Node_commit_index (dn_node d)) outs (d\<lparr>dn_node := n'\<rparr>) = (d', Inl e)"
    using assms(1,2) by (simp add: durable_step_batch_eq step_and_persist_def)
  from stepped_fatal [OF this] assms(3) show ?thesis
    by (auto simp: durable_step_batch_eq step_and_persist_def durable_step_proposal_batch_def compact_log_with_snapshot_def
        compact_log_with_streamed_snapshot_def)
qed

theorem failed_batch_poisons_node_witness:
  "durable_step_batch journal_trait file_segment_trait memory_snapshot_trait [Tick]
     (fst (file_step_batch [sample_vote_request] (sample_files [HsAppendFault 5 ''append''] sample_follower))) =
   (fst (file_step_batch [sample_vote_request] (sample_files [HsAppendFault 5 ''append''] sample_follower)),
    Inl (RuntimePoisoned (FatalHardStateWrite (HsWriteIo ''append''))))"
proof -
  let ?d0 = "sample_files [HsAppendFault 5 ''append''] sample_follower"
  have "dn_fatal ?d0 = None" "file_step_batch [sample_vote_request] ?d0 =
      (fst (file_step_batch [sample_vote_request] ?d0), Inl (RuntimeHardStateWrite (HsWriteIo ''append'')))"
    using sample_batch_fails [of 5 "''append''" "[]"] by (simp_all add: prod_eq_iff) (simp add: sample_files_def)
  from failed_batch_poisons_node [OF this, of "[\<lparr>cpi_proposal_id = None, cpi_payload = []\<rparr>]" "[Tick]"] show ?thesis by simp
qed

section \<open>Compaction\<close>

text \<open>
  C19: compaction through the runtime. On a healthy node on the file stores, a compaction that succeeds leaves a healthy
  node: the snapshot store holds the new snapshot and the log file the retained suffix. Term, vote, commit index and
  hard state are as before, retired prefix and retained suffix are the old log, and the effective membership is
  kept even if the application declared no committed configuration, since the runtime fills it in.
\<close>

theorem runtime_compaction_keeps_node:
  assumes "file_ready d" "file_healthy d" "metadata_wf (prs_metadata snap)" "durable_typed (dn_node d')"
    "compact_log_with_snapshot file_segment_trait memory_snapshot_trait snap d = (d', Inr retired)"
  shows "file_ready d' \<and> file_healthy d' \<and>
    compacted_to (RaftSnapshot_from_payload (fill_local_snapshot_membership (dn_node d) (prs_metadata snap)) (prs_application_payload snap)) d retired d'"
  using files.compact_log_healthy [OF assms] by blast

text \<open>The node of a cluster that moved to other voters, compacted with a descriptor that declares no configuration.\<close>

definition sample_moved_snapshot :: PersistedRaftSnapshot where
  "sample_moved_snapshot = \<lparr>prs_metadata = metadata (sample_descriptor None), prs_application_payload = []\<rparr>"

lemma sample_moved_filled:
  "RaftSnapshot_from_payload (fill_local_snapshot_membership sample_moved (metadata (sample_descriptor None))) [] =
     sample_descriptor (Some sample_declared)"
proof -
  have "crc32 [] = 0" by code_simp
  then show ?thesis
    by (simp add: RaftSnapshot_from_payload_def fill_local_snapshot_membership_def sample_descriptor_def sample_moved_view sample_declared_def)
qed

lemma sample_moved_typed: "durable_typed sample_moved" "Node_snapshot sample_moved = None" "last_log_index sample_moved < u64_max"
proof -
  have l: "last_log_index sample_moved = 3" by (simp add: last_log_index_def sample_moved_view) (simp add: sample_moved_def)
  then show "last_log_index sample_moved < u64_max" by (simp add: u64_max_def)
  have c: "configuration_entry_at (Node_log sample_moved) 1 = Some (StableEntry 1 \<lparr>voters = [1, 4, 5], learners = []\<rparr>)"
    by (simp add: configuration_entry_at_def get_def sample_moved_def)
  have d: "derived sample_moved = [1]" "snapshot_committed_configuration_state sample_moved = None"
    "committed_configuration (persistent sample_moved) = None"
    by (simp_all add: snapshot_committed_configuration_state_def sample_moved_def)
  have "committed_configuration_state_at sample_moved 3 = Some \<lparr>cc_index = 2, cc_config_id = 1\<rparr>"
    unfolding committed_configuration_state_at_def ci_committed_state_at_def sample_moved_view(1) d using c
    by (simp add: logical_index_def max_by_key_def List.map_filter_simps Let_def)
  then have "hard_state_ok (hard_state_for_node sample_moved)"
    by (simp add: hard_state_for_node_def hard_state_ok_def sample_moved_view u64_max_def) (simp add: sample_moved_def)
  moreover have "list_all entry_fits (persisted_log sample_moved)"
    unfolding persisted_log_def sample_moved_view(1)
    by (simp add: sample_moved_def labelled_from_def enumerate_eq_zip entry_fits_def encode_raft_log_entry_def
        encode_raft_log_entry_appending_def advanceable_log_index_def u64_max_def u32_max_def RAFT_LOG_ENTRY_MAGIC_def
        write_payload_def write_node_ids_def write_membership_set_def membership_set_wf_def ordered_def Let_def)
  ultimately show "durable_typed sample_moved" using l by (simp add: durable_typed_def u64_max_def)
qed (simp add: sample_moved_def)

lemma sample_moved_compacted_typed:
  assumes "n' = sample_moved\<lparr>persistent := (persistent sample_moved)\<lparr>log := drop 2 (Node_log sample_moved),
       snapshot := Some (sample_descriptor (Some sample_declared)), committed_configuration := Some \<lparr>cc_index = 2, cc_config_id = 1\<rparr>\<rparr>,
     derived := ci_from_log (drop 2 (Node_log sample_moved)),
     volatile := (volatile sample_moved)\<lparr>incoming_snapshot := None, local_proposals := lp\<rparr>\<rparr>"
  shows "durable_typed n'"
proof -
  have n': "Node_log n' = [application_entry 1 [7]]" "derived n' = []" "committed_configuration (persistent n') = Some \<lparr>cc_index = 2, cc_config_id = 1\<rparr>"
    "Node_snapshot n' = Some (sample_descriptor (Some sample_declared))" "Node_current_term n' = 1" "Node_voted_for n' = None" "Node_commit_index n' = 3"
    unfolding assms by (simp_all add: sample_moved_def ci_from_log_def)
  have si: "snapshot_index n' = 2" "snapshot_committed_configuration_state n' = Some \<lparr>cc_index = 2, cc_config_id = 1\<rparr>"
    using n'(4) by (simp_all add: snapshot_index_def snapshot_committed_configuration_state_def sample_descriptor_def sample_declared_def
        meta_committed_configuration_state_def)
  have "committed_configuration_state_at n' 3 = Some \<lparr>cc_index = 2, cc_config_id = 1\<rparr>"
    unfolding committed_configuration_state_at_def ci_committed_state_at_def n'(2,3) si(2)
    by (simp add: max_by_key_def List.map_filter_simps Let_def)
  then have "hard_state_ok (hard_state_for_node n')" by (simp add: hard_state_for_node_def hard_state_ok_def n' u64_max_def)
  moreover have "list_all entry_fits (persisted_log n')"
    unfolding persisted_log_def si(1) n'(1)
    by (simp add: labelled_from_def entry_fits_def encode_raft_log_entry_def encode_raft_log_entry_appending_def
        advanceable_log_index_def u64_max_def u32_max_def RAFT_LOG_ENTRY_MAGIC_def write_payload_def Let_def)
  moreover have "last_log_index n' = 3" using n'(1) si(1) by (simp add: last_log_index_def)
  ultimately show ?thesis by (simp add: durable_typed_def u64_max_def)
qed

lemma sample_moved_compacts:
  obtains n' s l retired where
    "compact_log_with_snapshot file_segment_trait memory_snapshot_trait sample_moved_snapshot (sample_files [] sample_moved) =
      ((sample_files [] sample_moved)\<lparr>dn_snapshots := s, dn_segment := l, dn_node := n'\<rparr>, Inr retired)" "durable_typed n'"
proof -
  let ?d = "sample_files [] sample_moved" and ?snap = "sample_descriptor (Some sample_declared)" and ?es = "persisted_log sample_moved"
  let ?disk = "\<lparr>segment_bytes = frames_of ?es, marker_bytes = None\<rparr>"
  obtain p where p: "prepare_local_snapshot_install sample_moved ?snap = Inr p" "pls_committed_configuration p = Some \<lparr>cc_index = 2, cc_config_id = 1\<rparr>"
    using sample_moved_prepare [of "Some sample_declared"] by simp
  obtain n' outs retired where n': "commit_with_retired_entries p sample_moved = (n', outs, retired)" by (metis prod_cases3)
  obtain m xs where m: "prepared_commit p sample_moved = (m, xs)" by fastforce
  have "m = n'" using commit_with_retired_entries_eq [OF sample_moved_inv p(1) m] n' by simp
  from prepared_commit_shape [OF sample_moved_inv p(1) m [unfolded this]] obtain lp k where
    k: "snapshot_index sample_moved + k = last_included_index (metadata ?snap)"
    and shape: "n' = sample_moved\<lparr>persistent := (persistent sample_moved)\<lparr>log := drop k (Node_log sample_moved), snapshot := Some ?snap,
       committed_configuration := pls_committed_configuration p\<rparr>, derived := ci_from_log (drop k (Node_log sample_moved)),
       volatile := (volatile sample_moved)\<lparr>incoming_snapshot := None, local_proposals := lp\<rparr>\<rparr>" by metis
  have "k = 2" using k by (simp add: sample_moved_view) (simp add: sample_descriptor_def)
  then have typed: "durable_typed n'" using sample_moved_compacted_typed [of n' lp] shape p(2) by simp
  have "segment_state_ready (dn_segment ?d)" using sample_files_ready [OF sample_moved_typed(2,1,3)] by (simp add: stores_ready_def)
  then have "log_on_disk 0 ?es ?disk" by (auto simp: sample_files_def segment_state_ready_def open_strict_iff segment_of_def)
  from file_compact_of [OF this, of NoFault 2] obtain l where l: "ls_compact file_segment_trait 2 (dn_segment ?d) = (l, Inr ())"
    by (simp add: segment_sel scheduled_def sample_files_def u64_max_def)
  have b: "last_included_index (metadata ?snap) = 2" by (simp add: sample_descriptor_def)
  have c: "compact_log_with_snapshot file_segment_trait memory_snapshot_trait sample_moved_snapshot ?d = compact_after_write file_segment_trait
      (rs_write memory_snapshot_trait (sample_moved_snapshot\<lparr>prs_metadata := fill_local_snapshot_membership sample_moved (prs_metadata sample_moved_snapshot)\<rparr>)) ?snap ?d"
    using sample_moved_filled by (simp add: compact_log_with_snapshot_def sample_files_def sample_moved_snapshot_def)
  obtain s where w: "rs_write memory_snapshot_trait x (dn_snapshots ?d) = (s x, Inr ())" for x by (simp add: memory_snapshot_sel write_snapshot_def)
  have d: "dn_node ?d = sample_moved" by (simp add: sample_files_def)
  show thesis
    by (rule that [OF _ typed], unfold c compact_after_write_def) (use l n' p(1) b w d in \<open>simp add: write_snapshot_and_compact_log_def then_do_def poison_def\<close>)
qed

theorem runtime_compaction_keeps_node_witness:
  "effective_membership (dn_node (fst (compact_log_with_snapshot file_segment_trait memory_snapshot_trait sample_moved_snapshot
     (sample_files [] sample_moved)))) = effective_membership sample_moved"
proof -
  let ?d = "sample_files [] sample_moved"
  obtain n' s l retired where c: "compact_log_with_snapshot file_segment_trait memory_snapshot_trait sample_moved_snapshot ?d =
      (?d\<lparr>dn_snapshots := s, dn_segment := l, dn_node := n'\<rparr>, Inr retired)" "durable_typed n'" by (rule sample_moved_compacts)
  have "metadata_wf (prs_metadata sample_moved_snapshot)" by (simp add: metadata_wf_def sample_moved_snapshot_def sample_descriptor_def)
  from runtime_compaction_keeps_node [OF sample_files_ready [OF sample_moved_typed(2,1,3)] sample_files_healthy [OF sample_moved_typed(2,1) sample_moved_inv]
      this _ c(1)] c show ?thesis by (simp add: compacted_to_def sample_files_def)
qed

end
