(* ===== verification/Spec2Isabelle.thy ===== *)
theory Spec2Isabelle
  imports Cluster Frame_Limits Lock_Oracle Running_Checksum Durable_Recovery
begin

text \<open>
  A verification of rafter, a deterministic implementation of the Raft consensus protocol in Rust, with
  the parts around its kernel that decide whether a cluster is correct: the peer codec, the durable
  stores, the runtime that writes to them before anything leaves a node, and a replicated service. Paths below are relative to \<open>src/\<close>; kernel paths without a crate are in
  \<open>crates/rafter/src\<close>.

  \<^bold>\<open>The program and its parts.\<close> The kernel is a pure state machine: \<open>Node::step\<close> takes one input (a tick,
  a message, a proposal, a read, a membership change, a transfer) and returns outputs (messages to send,
  entries to apply, snapshots to stage). The codec turns messages into checksummed frames. The stores keep
  a node's hard state and log on disk and survive crashes. The durable runtime steps the kernel, persists what
  changed and only then releases the outputs. At restart the kernel is rebuilt from the stores by
  \<open>Node::from_bootstrap\<close>. Applications such as the fenced lock service are state machines that apply the
  entries the kernel commits.

  \<^bold>\<open>How the model reads the code.\<close> A struct is a record, an enum a datatype with the source's constructors,
  a method that mutates is a function from state to state and outputs, an error a left value of a sum.
  Every early return is a branch. Integers of 64 bits are naturals with \<open>u64_max\<close> written out where the
  code saturates, checks or compares with the maximum. Where it adds without a check, so does the model, and a theorem of
  \<open>Restart\<close> bounds what a run can reach. Bytes, CRC states and slot words are machine
  words. A \<open>BTreeMap\<close> is a strictly sorted association list, a \<open>BTreeSet\<close> a strictly sorted list. Loops are
  structural recursion or functions with a termination proof; no definition uses fuel, and none can fail
  to return. Payload sharing by reference counting is not visible in the model: a payload is its bytes.
  Randomness of election timeouts is the deterministic mixing function of the code.

  \<^bold>\<open>The kernel.\<close>
  \<^item> \<open>Prelude\<close>: type names, saturating and checked arithmetic, containers, the locale \<open>keyed_store\<close>.
  \<^item> \<open>Membership\<close> (\<open>types/membership.rs\<close>): validated member sets, stable and joint configurations, quorums;
    the locale \<open>quorum_system\<close> and its interpretation, from which quorum intersection follows.
  \<^item> \<open>Protocol_Types\<close> (\<open>types/\<close>, \<open>message/\<close>, \<open>node/event/\<close>): entries, descriptors, messages, inputs, outputs.
  \<^item> \<open>Slots\<close>, \<open>Membership_Index\<close>, \<open>Progress\<close>, \<open>Tracker\<close>, \<open>Configuration_Index\<close> (\<open>node/state/\<close>): the packed
    slot sets, dense membership index, acknowledgement sets, follower progress with its in-flight window,
    local proposals, and the index of configuration entries, each proved against the set, map or list it
    stands for (\<open>slot_collection\<close>, \<open>keyed_store\<close>).
  \<^item> \<open>Checksum\<close>, \<open>Snapshot_Identity\<close>, \<open>Node_Config\<close>, \<open>Node_State\<close>, \<open>Log\<close>, \<open>Membership_View\<close>: snapshot
    identities, static configuration, the node record, the retained log, the memberships in force.
  \<^item> \<open>Node_Invariant\<close>: the invariant of a node and the relations \<open>evolves\<close> (what may happen to term, vote,
    commit index and log) and \<open>emits\<close> (what is handed to the application) that every handler is proved to
    keep. \<open>Samples\<close> holds concrete nodes for witnesses.
  \<^item> \<open>Commit\<close>, \<open>Replication_Send\<close>, \<open>Read_Index\<close>, \<open>Response\<close>, \<open>Receive\<close>, \<open>Proposal\<close>, \<open>Snapshot_Receive\<close>,
    \<open>Membership_Change\<close>, \<open>Election\<close> (the handlers under \<open>node/\<close>): each handler whole, with its functional
    outcome on every branch and its preservation lemma.
  \<^item> \<open>Runs\<close>, \<open>Dispatch\<close> (\<open>node/dispatch.rs\<close>): \<open>step\<close> and \<open>step_batch\<close>; the locale \<open>step_contract\<close> lifts the
    handlers' contract to any sequence of inputs. Here are the invariant of all runs, finality of
    committed entries, exactly-once application in order, and stability of terms and votes.
  \<^item> \<open>Local_Snapshot\<close>, \<open>Bootstrap\<close> (\<open>node/local_snapshot.rs\<close>, \<open>node/bootstrap/\<close>): compaction driven by the
    application, and recovery from durable state.
  \<^item> \<open>Steady\<close>, \<open>Batch_Contract\<close>: for every handler, how far one input moves the end of the log and the term, and what
    it keeps of what validation asks for; the locale \<open>batch_contract\<close> lifts counted contracts of inputs, proposal
    batches and read batches to batches and runs.
  \<^item> \<open>Snapshot_Staging\<close>: the outcomes of a snapshot chunk, and a snapshot store that follows the outputs of any run: it
    holds exactly the bytes acknowledged, and what it installs is the payload the leader captured.
  \<^item> \<open>Restart\<close>: \<open>sound\<close> is an invariant from which the validation of durable state follows. A node that was accepted
    has it and every input of an honest peer keeps it, so a node can be restarted after any run; positions and terms
    of any run are bounded by what messages name and the number of inputs.
  \<^item> \<open>Votes\<close>, \<open>Cluster\<close>: an inductive step relation over a cluster whose messages may be lost, duplicated,
    delayed and reordered and whose nodes crash and recover; election safety by rule induction.

  \<^bold>\<open>The codec\<close> (\<open>crates/rafter-codec/src\<close>): \<open>Wire\<close> is the byte layer with its two sinks (locale \<open>sink\<close>),
  \<open>Codec\<close> the version 1 encoders and decoders, \<open>Wire_Format\<close> the grammar and the locale \<open>wire_codec\<close>
  interpreted for every type, up to exactness of whole frames; \<open>Frame_Limits\<close> bounds the frames a leader
  sends by the receive limit. \<open>Running_Checksum\<close> is \<open>crates/rafter-crc32\<close>.

  \<^bold>\<open>The stores\<close> (\<open>crates/rafter-storage/src\<close>): \<open>Storage_Format\<close> has the formats of hard states, log entries,
  markers and the journal, each proved exact; \<open>Log_Segment\<close> the in-memory and file log, \<open>Log_Recovery\<close> its
  refinement and crash safety; \<open>Hard_State_Store\<close> the file and journal stores of hard states, whose crash
  safety follows from one locale \<open>hard_state_store\<close>. A disk is its durable bytes. An operation takes the
  fault it meets as an argument: a write stops after any number of bytes, a preparation fails, a rename
  fails before or after taking effect. Nothing else is assumed of the file system. \<open>Snapshot_Store\<close> is the
  in-memory snapshot store with the validation of staged chunks: what is promoted is what was announced.

  \<^bold>\<open>The durable runtime\<close> (\<open>crates/rafter-runtime/src\<close>).
  \<^item> \<open>Snapshot_Frame\<close>: which handlers change a node's snapshot, and that every change is announced by an
    \<open>ApplySnapshot\<close> output with a boundary that does not move back; the runtime relies on it.
  \<^item> \<open>Durable_Node\<close> (\<open>node.rs\<close>, \<open>step.rs\<close>, \<open>step/snapshot.rs\<close>, \<open>log_repair.rs\<close>, \<open>snapshot_install.rs\<close>, \<open>hard_state.rs\<close>,
    \<open>construction/\<close>, \<open>compaction.rs\<close>, \<open>error/\<close>): the node over any stores. A storage trait is a record of its
    operations, passed first; every write may fail and its error poisons the node.
  \<^item> \<open>Durable_Safety\<close>: the locale \<open>durable_stores\<close> states what healthy stores promise. From it: a batch that
    succeeds leaves stores that hold the node and the transfer it is in, a compaction likewise, and hydration rebuilds
    the node from them.
  \<^item> \<open>Durable_Crash\<close>: the locale \<open>crash_stores\<close> adds what reopening finds after a failed write. From it: whatever
    write of a batch fails, the reopened stores hold everything committed before it.
  \<^item> \<open>Durable_Runs\<close>: runs of batches and compactions as an inductive relation, votes that left the node, and runs
    of honest peers, which keep the node sound and its staged transfer in step.
  \<^item> \<open>Durable_Files\<close> (\<open>rafter-storage/src/journal_node_stores.rs\<close>): the journal, the file segment and the in-memory
    stores behind the traits, with a schedule of faults; both locales are interpreted on them. A process that dies
    between two writes leaves the disk that a write failing after no bytes leaves.
  \<^item> \<open>Durable_Recovery\<close>: the properties of a node on files. Votes survive crashes, acknowledged batches survive
    restarts, committed entries survive a batch cut short, a failed write stops the node.

  \<^bold>\<open>The fenced lock\<close> (\<open>reference/fenced-lock/src\<close>): \<open>BTree_Map\<close>, \<open>Fenced_Lock\<close> the service and the guarded
  resource, \<open>Lock_Safety\<close> fencing, leases, idempotent retries and snapshots over all runs, \<open>Lock_Oracle\<close> the
  journal oracle and, by the locale \<open>same_behaviour\<close>, its equivalence with the service.

  \<^bold>\<open>This theory\<close> shows that what the codec decodes is a well-formed input of the kernel, the hypothesis of the theorems on runs.

  \<^bold>\<open>Assumptions.\<close> Votes delivered in a cluster were sent by the voter they name. Snapshot payloads come from
  an arbitrary chunk source. A restart of a node of the cluster model finds the term and vote the node had, which the
  theorems on the durable runtime provide. Those take Log Matching between the logs before and after a batch as a
  hypothesis on the batch, since it is a property of the whole cluster, and they hold for entries that fit a frame.
  Restarts are proved for runs whose messages an honest node sends (\<open>honest_input\<close>: entries with a term between one and that of
  the message, candidates in a positive term, snapshots not older than the configuration they captured), which receivers do not
  check, and for logs that end below the largest index. A node in the middle of a snapshot transfer restarts if the membership
  or the snapshot still admits the sender.

  \<^bold>\<open>Not modelled.\<close> The file snapshot store and the atomic batch file of \<open>rafter-storage\<close> (directory scans,
  manifests, reclamation), so nodes on files keep their snapshots in the in-memory store and hand it over at a
  restart; the path of the runtime through an atomic batch; its threads (pipelined driver, application worker, log
  retirement); the application, service and multi-group layers and the transports (queues, sockets); the simulator, the
  invariant registry, benchmarks and tests, error rendering, telemetry, and the other reference services. Safety
  of the whole log across a cluster (leader completeness) is not stated; finality of committed entries is
  proved for each node.
\<close>

section \<open>From the wire to the node\<close>

text \<open>
  Decoders return only values that the types of the source allow: lists of members sorted, distinct and
  disjoint, integers within their width. These are the well-formed inputs of the kernel.
\<close>

lemma wire_config_wf: "wire_config_ok c \<Longrightarrow> membership_wf c"
  by (cases c) (auto simp: wire_set_ok_def)

lemma wire_entry_wf: "wire_entry_ok e \<Longrightarrow> entry_wf e"
  unfolding entry_wf_def wire_entry_ok_def
  by (cases "entry_kind e" rule: wire_kind_ok.cases) (auto simp: wire_set_ok_def)

lemma wire_metadata_wf: "wire_metadata_ok m \<Longrightarrow> metadata_wf m"
  by (auto simp: wire_metadata_ok_def committed_ok_def metadata_wf_def wire_config_wf)

lemma decoded_message_wf: "decode_message bs = Inr m \<Longrightarrow> message_wf m"
  using decode_message_wire [of bs m] by (cases m) (auto simp: list_all_iff wire_entry_wf wire_metadata_wf)

end
